(* ===== verification/Prelude.thy ===== *)
theory Prelude
  imports Main "HOL-Library.Word" "HOL-Library.Monad_Syntax" "HOL-Library.Char_ord"
    "HOL-Library.List_Lexorder" "HOL-Library.AList"
begin

text \<open>
  Shared vocabulary of the development: machine types, the treatment of run-time panics,
  Go's clock values, bounded logs, finite maps as association lists, and the generic lemmas
  the component theories use.

  Conventions.
  \<^item> A Go \<^verbatim>\<open>byte\<close>, \<^verbatim>\<open>int8\<close>, \<^verbatim>\<open>uint16\<close> or \<^verbatim>\<open>uint32\<close> is a word of that width (an \<^verbatim>\<open>int8\<close> is the same
    eight bits read with \<open>sint\<close>); a Go \<^verbatim>\<open>int\<close> is an \<open>int\<close>.
  \<^item> An operation of Go that can panic (indexing, slicing, fixed-width reads) returns an
    \<open>option\<close>, \<open>None\<close> being the panic. An operation that returns \<^verbatim>\<open>(value, error)\<close> returns a sum,
    \<open>Inl\<close> being the error.
  \<^item> A \<^verbatim>\<open>time.Time\<close> is the number of nanoseconds since Go's zero time (January 1, year 1), so that
    \<^verbatim>\<open>IsZero\<close> is equality with \<open>0\<close>; a \<^verbatim>\<open>time.Duration\<close> is a number of nanoseconds.
  \<^item> A Go map is an association list with distinct keys; a map whose iteration order matters is
    only read through sorted keys or through functions that do not depend on the order.
\<close>

type_synonym byte = "8 word"
type_synonym int8 = "8 word"
type_synonym uint16 = "16 word"
type_synonym uint32 = "32 word"
type_synonym time = int
type_synonym duration = int

named_theorems go_defs \<open>definitions of the Go standard-library vocabulary\<close>
named_theorems panic_free \<open>facts that a guarded access does not panic\<close>

section \<open>Indexing and little-endian integers\<close>

definition idx :: "'a list \<Rightarrow> nat \<Rightarrow> 'a option" where
  "idx xs i = (if i < length xs then Some (xs ! i) else None)"

definition slice_from :: "'a list \<Rightarrow> nat \<Rightarrow> 'a list option" where
  "slice_from xs i = (if i \<le> length xs then Some (drop i xs) else None)"

definition slice :: "'a list \<Rightarrow> nat \<Rightarrow> nat \<Rightarrow> 'a list option" where
  "slice xs i j = (if i \<le> j \<and> j \<le> length xs then Some (take (j - i) (drop i xs)) else None)"

lemma idx_Some [panic_free]: "i < length xs \<Longrightarrow> idx xs i = Some (xs ! i)"
  by (simp add: idx_def)

lemma idx_None_iff [simp]: "idx xs i = None \<longleftrightarrow> length xs \<le> i"
  by (simp add: idx_def not_less)

lemma slice_from_Some [panic_free]: "i \<le> length xs \<Longrightarrow> slice_from xs i = Some (drop i xs)"
  by (simp add: slice_from_def)

lemma slice_Some [panic_free]:
  "i \<le> j \<Longrightarrow> j \<le> length xs \<Longrightarrow> slice xs i j = Some (take (j - i) (drop i xs))"
  by (simp add: slice_def)

text \<open>\<^verbatim>\<open>binary.LittleEndian.Uint16\<close>, \<^verbatim>\<open>Uint32\<close> (which panic on a short slice) and
  \<^verbatim>\<open>PutUint16\<close>, \<^verbatim>\<open>PutUint32\<close>, here as the bytes written.\<close>

definition le_uint16 :: "byte list \<Rightarrow> uint16 option" where
  "le_uint16 b = (case b of
      b0 # b1 # _ \<Rightarrow> Some (or (ucast b0) (push_bit 8 (ucast b1)))
    | _ \<Rightarrow> None)"

definition le_uint32 :: "byte list \<Rightarrow> uint32 option" where
  "le_uint32 b = (case b of
      b0 # b1 # b2 # b3 # _ \<Rightarrow>
        Some (or (or (ucast b0) (push_bit 8 (ucast b1)))
                 (or (push_bit 16 (ucast b2)) (push_bit 24 (ucast b3))))
    | _ \<Rightarrow> None)"

definition put_uint16 :: "uint16 \<Rightarrow> byte list" where
  "put_uint16 v = [ucast v, ucast (drop_bit 8 v)]"

definition put_uint32 :: "uint32 \<Rightarrow> byte list" where
  "put_uint32 v = [ucast v, ucast (drop_bit 8 v), ucast (drop_bit 16 v), ucast (drop_bit 24 v)]"

lemma le_uint16_None_iff [simp]: "le_uint16 b = None \<longleftrightarrow> length b < 2"
  by (auto simp: le_uint16_def split: list.splits)

lemma le_uint32_None_iff [simp]: "le_uint32 b = None \<longleftrightarrow> length b < 4"
  by (auto simp: le_uint32_def split: list.splits)

lemma length_put_uint16 [simp]: "length (put_uint16 v) = 2"
  by (simp add: put_uint16_def)

lemma length_put_uint32 [simp]: "length (put_uint32 v) = 4"
  by (simp add: put_uint32_def)

lemma le_uint16_put [simp]: "le_uint16 (put_uint16 v @ rest) = Some v"
  by (auto simp: le_uint16_def put_uint16_def bit_eq_iff bit_simps)

lemma le_uint32_put [simp]: "le_uint32 (put_uint32 v @ rest) = Some v"
proof -
  have "or (or (ucast (ucast v :: byte)) (push_bit 8 (ucast (ucast (drop_bit 8 v) :: byte))))
      (or (push_bit 16 (ucast (ucast (drop_bit 16 v) :: byte)))
          (push_bit 24 (ucast (ucast (drop_bit 24 v) :: byte)))) = v" (is "?l = v")
  proof (rule bit_eqI)
    fix n assume "possible_bit TYPE(uint32) n"
    then have "n < 32" by simp
    then consider "n < 8" | "8 \<le> n" "n < 16" | "16 \<le> n" "n < 24" | "24 \<le> n" "n < 32"
      by linarith
    then show "bit ?l n = bit v n" by cases (auto simp: bit_simps)
  qed
  then show ?thesis by (simp add: le_uint32_def put_uint32_def)
qed

lemma put_uint16_le:
  assumes "le_uint16 [b0, b1] = Some v" shows "put_uint16 v = [b0, b1]"
proof -
  have v: "v = or (ucast b0) (push_bit 8 (ucast b1))"
    using assms by (simp add: le_uint16_def)
  have "ucast v = b0"
    by (rule bit_eqI) (auto simp: v bit_simps)
  moreover have "ucast (drop_bit 8 v) = b1"
    by (rule bit_eqI) (auto simp: v bit_simps dest: bit_imp_le_length)
  ultimately show ?thesis by (simp add: put_uint16_def)
qed

section \<open>Clock values\<close>

text \<open>\<^verbatim>\<open>Time.Sub\<close> saturates at the range of \<^verbatim>\<open>time.Duration\<close>, a signed 64-bit count.\<close>

definition time_sub :: "time \<Rightarrow> time \<Rightarrow> duration" where
  "time_sub a b = max (- (2 ^ 63)) (min (2 ^ 63 - 1) (a - b))"

abbreviation (input) is_zero :: "time \<Rightarrow> bool" where "is_zero t \<equiv> t = 0"
abbreviation (input) second :: duration where "second \<equiv> 1000000000"
abbreviation (input) minute :: duration where "minute \<equiv> 60 * 1000000000"
abbreviation (input) hour :: duration where "hour \<equiv> 3600 * 1000000000"

definition truncate_minute :: "time \<Rightarrow> time" where
  "truncate_minute t = t - t mod minute"

lemma time_sub_ge_iff:
  "d \<le> 2 ^ 63 - 1 \<Longrightarrow> - (2 ^ 63) < d \<Longrightarrow> d \<le> time_sub a b \<longleftrightarrow> d \<le> a - b"
  by (simp add: time_sub_def le_max_iff_disj)

lemma truncate_minute_le: "truncate_minute t \<le> t"
  by (simp add: truncate_minute_def)

lemma truncate_minute_mono: "s \<le> t \<Longrightarrow> truncate_minute s \<le> truncate_minute t"
proof -
  assume "s \<le> t"
  then have "s div minute \<le> t div minute" by (rule zdiv_mono1) simp
  then show ?thesis unfolding truncate_minute_def minus_mod_eq_mult_div by simp
qed

section \<open>Bounded logs\<close>

text \<open>Go's idiom of appending to a slice and keeping only its last \<open>cap\<close> elements.\<close>

definition push_capped :: "nat \<Rightarrow> 'a list \<Rightarrow> 'a \<Rightarrow> 'a list" where
  "push_capped cap xs x =
     (let ys = xs @ [x] in if length ys > cap then drop (length ys - cap) ys else ys)"

lemma length_push_capped [simp]: "length (push_capped cap xs x) = min cap (Suc (length xs))"
  by (auto simp: push_capped_def Let_def min_def)

lemma push_capped_last: "0 < cap \<Longrightarrow> last (push_capped cap xs x) = x"
  by (simp add: push_capped_def Let_def)

lemma push_capped_eq_drop: "push_capped cap xs x = drop (Suc (length xs) - cap) (xs @ [x])"
  by (simp add: push_capped_def Let_def)

lemma set_push_capped: "set (push_capped cap xs x) \<subseteq> insert x (set xs)"
  unfolding push_capped_eq_drop by (rule order.trans [OF set_drop_subset]) simp

text \<open>
  The contract of a bounded, newest-last log kept by a component: what an appended entry does to
  the log, as a function of the whole history of entries ever pushed.
\<close>

locale bounded_log =
  fixes log_of :: "'s \<Rightarrow> 'e list" and push :: "'s \<Rightarrow> 'e \<Rightarrow> 's" and cap :: nat
  assumes log_push: "log_of (push s e) = push_capped cap (log_of s) e"
begin

fun push_all :: "'s \<Rightarrow> 'e list \<Rightarrow> 's" where
  "push_all s [] = s"
| "push_all s (e # es) = push_all (push s e) es"

lemma length_log_push: "length (log_of s) \<le> cap \<Longrightarrow> length (log_of (push s e)) \<le> cap"
  by (simp add: log_push)

lemma length_log_push_all: "length (log_of s) \<le> cap \<Longrightarrow> length (log_of (push_all s es)) \<le> cap"
  by (induction es arbitrary: s) (auto simp: length_log_push)

lemma log_push_all:
  assumes "length (log_of s) \<le> cap"
  shows "log_of (push_all s es) = drop (length (log_of s @ es) - cap) (log_of s @ es)"
  using assms
proof (induction es arbitrary: s)
  case (Cons e es)
  let ?K = "log_of s @ e # es" and ?k = "Suc (length (log_of s)) - cap"
  have "log_of (push s e) @ es = drop ?k ?K"
    by (cases cap) (simp_all add: log_push push_capped_eq_drop)
  moreover have "log_of (push_all (push s e) es) =
      drop (length (log_of (push s e) @ es) - cap) (log_of (push s e) @ es)"
    using Cons.prems by (intro Cons.IH length_log_push)
  ultimately have "log_of (push_all (push s e) es) = drop (length ?K - ?k - cap + ?k) ?K"
    by (simp only: drop_drop length_drop)
  moreover have "length ?K - ?k - cap + ?k = length ?K - cap" using Cons.prems by simp
  ultimately show ?case by (simp only: push_all.simps)
qed simp

end

section \<open>Finite maps as association lists\<close>

lemma distinct_keys_update: "distinct (map fst al) \<Longrightarrow> distinct (map fst (AList.update k v al))"
  by (rule distinct_update)

lemma length_delete_le: "length (AList.delete k al) \<le> length al"
  by (simp add: AList.delete_eq)

lemma length_update_le: "length (AList.update k v al) \<le> Suc (length al)"
  by (induction al) auto

lemma length_update_mem: "k \<in> fst ` set al \<Longrightarrow> length (AList.update k v al) = length al"
  by (induction al) auto

lemma length_delete_less: "map_of al k = Some v \<Longrightarrow> length (AList.delete k al) < length al"
  by (induction al) (auto simp: AList.delete_eq split: if_splits intro: le_imp_less_Suc length_filter_le)

lemma set_delete: "set (AList.delete k al) = {p \<in> set al. fst p \<noteq> k}"
  by (auto simp: AList.delete_eq)


lemma map_of_filter_snd:
  "distinct (map fst al) \<Longrightarrow> map_of (filter (\<lambda>(k, v). P v) al) k =
     (case map_of al k of None \<Rightarrow> None | Some v \<Rightarrow> if P v then Some v else None)"
  by (induction al) (auto split: option.splits if_splits simp: map_of_eq_None_iff image_iff)

lemma map_fst_map_snd [simp]: "map fst (map (\<lambda>(k, v). (k, f v)) al) = map fst al"
  by (induction al) auto

lemma fst_comp_map_snd [simp]: "fst \<circ> (\<lambda>(k, v). (k, f v)) = fst"
  by auto

text \<open>Splitting the entries of a map by a predicate, rewriting those on one side and moving the others
  to a second map, keeps all keys distinct.\<close>

lemma distinct_keys_split:
  "distinct (map fst (xs @ zs)) \<Longrightarrow>
   distinct (map fst (map (\<lambda>(k, v). (k, f v)) (filter P xs) @ zs @ filter (\<lambda>x. \<not> P x) xs))"
proof (induction xs)
  case (Cons x xs)
  have "fst x \<notin> fst ` set (filter Q xs)" for Q using Cons.prems by auto
  then show ?case using Cons by (auto simp: image_iff split: prod.splits)
qed simp

lemma distinct_map_fst_filter: "distinct (map fst al) \<Longrightarrow> distinct (map fst (filter P al))"
  by (rule distinct_map_filter)

lemma map_of_delete [simp]: "map_of (AList.delete k al) i = (if i = k then None else map_of al i)"
  by (simp add: delete_conv')

lemma map_of_update [simp]: "map_of (AList.update k v al) i = (if i = k then Some v else map_of al i)"
  by (simp add: update_conv')

lemma fst_set_update [simp]: "fst ` set (AList.update k v al) = insert k (fst ` set al)"
  by (induction al) auto

lemma fst_set_delete [simp]: "fst ` set (AList.delete k al) = fst ` set al - {k}"
  by (auto simp: set_delete)

lemma set_update_subset: "set (AList.update k v al) \<subseteq> insert (k, v) (set al)"
  by (induction al) auto

lemma map_fst_update_mem: "k \<in> fst ` set al \<Longrightarrow> map fst (AList.update k v al) = map fst al"
  by (induction al) auto

lemma filter_not_snd: "filter (\<lambda>(k, v). \<not> P v) al = filter (\<lambda>x. \<not> (case x of (k, v) \<Rightarrow> P v)) al"
  by (rule filter_cong) auto

lemma find_SomeD: "find P xs = Some x \<Longrightarrow> x \<in> set xs \<and> P x"
  by (induction xs) (auto split: if_splits)

lemma map_of_SomeD_fst: "map_of al k = Some v \<Longrightarrow> k \<in> fst ` set al"
  by (metis domI dom_map_of_conv_image_fst)

end
