(* ===== verification/Proto_Frames.thy ===== *)
theory Proto_Frames
  imports Prelude
begin

text \<open>
  Package \<^verbatim>\<open>internal/proto\<close>: the command frames of the Link-Power BLE protocol and the parsers of
  its replies (\<^verbatim>\<open>frames.go\<close>, \<^verbatim>\<open>lifecycle.go\<close>, \<^verbatim>\<open>advanced.go\<close> and the integer part of
  \<^verbatim>\<open>controls.go\<close>). Frames are byte lists. A builder that emits no frame for an invalid request
  (Go's \<^verbatim>\<open>nil\<close>) returns the empty list, which the session layer rejects. A parser has type
  \<open>(proto_error + 'a) option\<close>: \<open>None\<close> is an index panic, \<open>Inl\<close> the returned error.
\<close>

abbreviation (input) CmdDCControl :: byte where "CmdDCControl \<equiv> 0x01"
abbreviation (input) CmdTypeCLimit :: byte where "CmdTypeCLimit \<equiv> 0x02"
abbreviation (input) cmdBarrierFree :: byte where "cmdBarrierFree \<equiv> 0x03"
abbreviation (input) CmdBLEPin :: byte where "CmdBLEPin \<equiv> 0x04"
abbreviation (input) CmdScheduledOnOff :: byte where "CmdScheduledOnOff \<equiv> 0x06"
abbreviation (input) CmdDeviceID :: byte where "CmdDeviceID \<equiv> 0x10"
abbreviation (input) CmdRestart :: byte where "CmdRestart \<equiv> 0x11"
abbreviation (input) CmdTypeCControl :: byte where "CmdTypeCControl \<equiv> 0x13"
abbreviation (input) CmdBypassControl :: byte where "CmdBypassControl \<equiv> 0x14"
abbreviation (input) CmdBypassThreshold :: byte where "CmdBypassThreshold \<equiv> 0x15"
abbreviation (input) cmdUSBFirmware :: byte where "cmdUSBFirmware \<equiv> 0x17"
abbreviation (input) cmdRunningMode :: byte where "cmdRunningMode \<equiv> 0xE0"
abbreviation (input) CmdFeatures :: byte where "CmdFeatures \<equiv> 0xFE"
abbreviation (input) ActGet :: byte where "ActGet \<equiv> 0x00"
abbreviation (input) ActSet :: byte where "ActSet \<equiv> 0x01"
abbreviation (input) ActDel :: byte where "ActDel \<equiv> 0x02"

text \<open>Every error of the package. \<open>ResultError\<close> is the one that wraps \<^verbatim>\<open>ErrResult\<close>.\<close>

datatype proto_error =
    ShortFrame
  | EchoMismatch byte byte
  | ActionEchoMismatch byte byte
  | ResultError byte byte
  | FeaturesTooShort
  | DeviceIDTooShort
  | EmptyOTAInfo
  | AppOTATooShort
  | BootloaderOTATooShort
  | UnknownOTAMode byte
  | USBFirmwareEmpty
  | LimitNotWritable byte
  | LimitLevelOutside int
  | TypeCLimitTooShort
  | BypassThresholdTooShort
  | BatteryTooShort nat
  | DCTooShort nat
  | TypeCTooShort nat
  | TimerTooShort
  | TimerStatusNotWritable int8
  | TimerTimeInvalid byte byte
  | TimerActionInvalid byte
  | TimerDateInvalid
  | TimerDailyRepeat
  | TimerWeeklyMask uint32
  | TimerMonthlyMask uint32
  | TimerTypeInvalid byte
  | ErrTimerNotFound

fun is_ErrResult :: "proto_error \<Rightarrow> bool" where
  "is_ErrResult (ResultError _ _) = True"
| "is_ErrResult _ = False"

section \<open>Command builders\<close>

definition onByte :: "bool \<Rightarrow> byte" where
  "onByte on = (if on then 1 else 0)"

definition DCControl :: "bool \<Rightarrow> byte list" where
  "DCControl on = [CmdDCControl, ActSet, onByte on]"

definition TypeCOutput :: "bool \<Rightarrow> byte list" where
  "TypeCOutput on = [CmdTypeCControl, ActSet, 0x02, onByte on]"

definition BypassControl :: "bool \<Rightarrow> byte list" where
  "BypassControl on = [CmdBypassControl, ActSet, onByte on]"

definition Restart :: "byte list" where
  "Restart = [CmdRestart, ActSet]"

definition FeaturesQuery :: "byte list" where
  "FeaturesQuery = [CmdFeatures, ActGet]"

definition DeviceIDQuery :: "byte list" where
  "DeviceIDQuery = [CmdDeviceID, ActGet]"

definition OTAInfoQuery :: "byte list" where
  "OTAInfoQuery = [0x84]"

text \<open>The ASCII magics \<^verbatim>\<open>FM\<close> and \<^verbatim>\<open>PK\<close>.\<close>

definition ShutdownMagic :: "byte list" where
  "ShutdownMagic = [0x46, 0x4D]"

definition OTAEnter :: "byte list" where
  "OTAEnter = [0x50, 0x4B]"

definition OTAExit :: "byte list" where
  "OTAExit = [0x83]"

definition BarrierFreeGet :: "byte list" where
  "BarrierFreeGet = [cmdBarrierFree, ActGet]"

definition BarrierFreeSet :: "bool \<Rightarrow> byte list" where
  "BarrierFreeSet on = [cmdBarrierFree, ActSet, onByte on]"

definition RunningModeSet :: "byte \<Rightarrow> byte list" where
  "RunningModeSet mode = [cmdRunningMode, ActSet, mode]"

definition USBFirmwareGet :: "byte list" where
  "USBFirmwareGet = [cmdUSBFirmware, ActGet]"

definition BLEPINSet :: "uint32 \<Rightarrow> byte list" where
  "BLEPINSet pin = (if pin > 999999 then [] else [CmdBLEPin, ActSet] @ put_uint32 pin)"

text \<open>The accessors of the \<^verbatim>\<open>time.Time\<close> that \<^verbatim>\<open>CurrentTimeAt\<close> reads, in the time's own location.
  \<open>weekday\<close> counts from Sunday as 0.\<close>

record civil_time =
  year :: int
  month :: int
  day :: int
  hours :: int
  minutes :: int
  seconds :: int
  weekday :: int
  nanosecond :: int

definition CurrentTimeAt :: "civil_time \<Rightarrow> byte \<Rightarrow> byte list" where
  "CurrentTimeAt t reason =
     (let dow = (word_of_int (weekday t) :: byte); dow = (if dow = 0 then 7 else dow)
      in put_uint16 (word_of_int (year t)) @
         [word_of_int (month t), word_of_int (day t), word_of_int (hours t),
          word_of_int (minutes t), word_of_int (seconds t), dow,
          ucast ((word_of_int (nanosecond t) * 256 :: 64 word) div 1000000000), reason])"

definition CurrentTime :: "civil_time \<Rightarrow> byte list" where
  "CurrentTime t = CurrentTimeAt t 0"

section \<open>Reply validation\<close>

text \<open>The result byte, the payload and the error of \<^verbatim>\<open>ValidateReply\<close>; the result byte and the payload
  are also returned next to a device error.\<close>

definition ValidateReply ::
    "byte list \<Rightarrow> byte list \<Rightarrow> (byte \<times> byte list \<times> proto_error option) option" where
  "ValidateReply req reply =
     (if length req = 0 \<or> length reply < 3 then Some (0, [], Some ShortFrame)
      else do {
        r0 \<leftarrow> idx reply 0;
        q0 \<leftarrow> idx req 0;
        if r0 \<noteq> q0 then Some (0, [], Some (EchoMismatch q0 r0))
        else do {
          mismatch \<leftarrow> (if length req \<ge> 2
            then do { q1 \<leftarrow> idx req 1; r1 \<leftarrow> idx reply 1;
                      Some (if r1 \<noteq> or q1 0x80 then Some (ActionEchoMismatch q1 r1) else None) }
            else Some None);
          case mismatch of
            Some e \<Rightarrow> Some (0, [], Some e)
          | None \<Rightarrow> do {
              result \<leftarrow> idx reply 2;
              payload \<leftarrow> slice_from reply 3;
              if result \<noteq> 0 \<and> q0 \<noteq> CmdBypassControl
              then Some (result, payload, Some (ResultError q0 result))
              else if q0 = CmdBypassControl then Some (result, payload, None)
              else Some (0, payload, None) } } })"

section \<open>Payload parsers\<close>

definition ParseFeatures :: "byte list \<Rightarrow> (proto_error + uint32) option" where
  "ParseFeatures payload =
     (if length payload < 4 then Some (Inl FeaturesTooShort)
      else do { v \<leftarrow> le_uint32 payload; Some (Inr v) })"

definition hex_digit_upper :: "nat \<Rightarrow> char" where
  "hex_digit_upper n = (if n < 10 then char_of (48 + n) else char_of (55 + n))"

text \<open>The format \<^verbatim>\<open>%02X\<close> of a byte.\<close>

definition hex2_upper :: "byte \<Rightarrow> string" where
  "hex2_upper b = [hex_digit_upper (unat b div 16), hex_digit_upper (unat b mod 16)]"

definition ParseDeviceID :: "byte list \<Rightarrow> (proto_error + string) option" where
  "ParseDeviceID payload =
     (if length payload < 6 then Some (Inl DeviceIDTooShort)
      else do {
        p5 \<leftarrow> idx payload 5; p4 \<leftarrow> idx payload 4; p3 \<leftarrow> idx payload 3;
        p2 \<leftarrow> idx payload 2; p1 \<leftarrow> idx payload 1; p0 \<leftarrow> idx payload 0;
        Some (Inr (hex2_upper p5 @ '':'' @ hex2_upper p4 @ '':'' @ hex2_upper p3 @ '':'' @
                   hex2_upper p2 @ '':'' @ hex2_upper p1 @ '':'' @ hex2_upper p0)) })"

definition ParseOTAMode :: "byte list \<Rightarrow> (proto_error + byte \<times> uint16) option" where
  "ParseOTAMode reply =
     (if length reply < 1 then Some (Inl EmptyOTAInfo)
      else do {
        mode \<leftarrow> idx reply 0;
        cid \<leftarrow> (if length reply \<ge> 15 then do { s \<leftarrow> slice_from reply 13; le_uint16 s } else Some 0);
        Some (Inr (mode, cid)) })"

record OTAInfo =
  ota_mode :: byte
  ota_start :: uint32
  ota_block_size :: uint16
  ota_chip_type :: uint16
  ota_cid :: uint16
  ota_app_start :: uint32
  ota_revision :: byte

definition zero_OTAInfo :: OTAInfo where
  "zero_OTAInfo = \<lparr>ota_mode = 0, ota_start = 0, ota_block_size = 0, ota_chip_type = 0, ota_cid = 0,
     ota_app_start = 0, ota_revision = 0\<rparr>"

definition ParseOTAInfo :: "byte list \<Rightarrow> (proto_error + OTAInfo) option" where
  "ParseOTAInfo reply =
     (if length reply = 0 then Some (Inl EmptyOTAInfo)
      else do {
        mode \<leftarrow> idx reply 0;
        info \<leftarrow> (if mode = 1 then
            (if length reply < 15 then Some (Inl AppOTATooShort)
             else Some (Inr (zero_OTAInfo\<lparr>ota_mode := mode\<rparr>)))
          else if mode = 2 then
            (if length reply < 16 then Some (Inl BootloaderOTATooShort)
             else do {
               s1 \<leftarrow> slice reply 1 5; start \<leftarrow> le_uint32 s1;
               s5 \<leftarrow> slice reply 5 7; block \<leftarrow> le_uint16 s5;
               s7 \<leftarrow> slice reply 7 9; chip \<leftarrow> le_uint16 s7;
               s9 \<leftarrow> slice reply 9 13; app \<leftarrow> le_uint32 s9;
               rev \<leftarrow> idx reply 15;
               Some (Inr (zero_OTAInfo\<lparr>ota_mode := mode, ota_start := start, ota_block_size := block,
                 ota_chip_type := chip, ota_app_start := app, ota_revision := rev\<rparr>)) })
          else Some (Inl (UnknownOTAMode mode)));
        case info of
          Inl e \<Rightarrow> Some (Inl e)
        | Inr i \<Rightarrow> do { s \<leftarrow> slice reply 13 15; cid \<leftarrow> le_uint16 s; Some (Inr (i\<lparr>ota_cid := cid\<rparr>)) } })"

definition ParseUSBFirmware :: "byte list \<Rightarrow> (proto_error + byte list) option" where
  "ParseUSBFirmware payload =
     (if length payload = 0 then Some (Inl USBFirmwareEmpty) else Some (Inr payload))"

section \<open>Feature flags\<close>

record FeatureSet =
  f_display :: bool
  f_factory_mode :: bool
  f_sleep :: bool
  f_shutdown :: bool
  f_battery_capacity :: bool
  f_dc_out_port :: bool
  f_dc_out_control :: bool
  f_dc_out_scheduler :: bool
  f_usb_port :: bool
  f_usb_power_limit :: bool
  f_usb_output_control :: bool
  f_dc_bypass :: bool
  f_dc_bypass_control :: bool
  f_usb_dc_input :: bool
  f_usb_dc_input_power :: bool

definition feature_bit :: "uint32 \<Rightarrow> nat \<Rightarrow> bool" where
  "feature_bit raw b \<longleftrightarrow> and raw (push_bit b 1) \<noteq> 0"

definition DecodeFeatures :: "uint32 \<Rightarrow> FeatureSet" where
  "DecodeFeatures raw = (let set = feature_bit raw in
     \<lparr>f_display = set 0, f_factory_mode = set 1, f_sleep = set 2, f_shutdown = set 3,
      f_battery_capacity = set 4, f_dc_out_port = set 5, f_dc_out_control = set 6,
      f_dc_out_scheduler = set 7, f_usb_port = set 8, f_usb_power_limit = set 9,
      f_usb_output_control = set 10, f_dc_bypass = set 11, f_dc_bypass_control = set 12,
      f_usb_dc_input = set 13, f_usb_dc_input_power = set 14\<rparr>)"

section \<open>USB-C power limits\<close>

abbreviation (input) LimitGlobal :: int where "LimitGlobal \<equiv> 1"
abbreviation (input) LimitInput :: int where "LimitInput \<equiv> 2"
abbreviation (input) LimitOutput :: int where "LimitOutput \<equiv> 3"
abbreviation (input) LimitRuntime :: int where "LimitRuntime \<equiv> 4"

definition levelWatts :: "int list" where
  "levelWatts = [30, 45, 60, 65, 100, 140]"

definition LevelToWatts :: "int \<Rightarrow> int" where
  "LevelToWatts level =
     (if 0 \<le> level \<and> level < int (length levelWatts) then levelWatts ! nat level else 0)"

fun watts_index :: "int \<Rightarrow> int \<Rightarrow> int list \<Rightarrow> int" where
  "watts_index i watts [] = - 1"
| "watts_index i watts (w # ws) = (if w = watts then i else watts_index (i + 1) watts ws)"

definition WattsToLevel :: "int \<Rightarrow> int" where
  "WattsToLevel watts = watts_index 0 watts levelWatts"

definition TypeCLimitGet :: "byte \<Rightarrow> byte list" where
  "TypeCLimitGet typ = [CmdTypeCLimit, ActGet, typ]"

definition ValidateLimitWrite :: "byte \<Rightarrow> int \<Rightarrow> proto_error option" where
  "ValidateLimitWrite typ level =
     (if typ < 1 \<or> typ > 3 then Some (LimitNotWritable typ)
      else if level < 0 \<or> level \<ge> int (length levelWatts) then Some (LimitLevelOutside level)
      else None)"

definition TypeCLimitSet :: "byte \<Rightarrow> int \<Rightarrow> byte list" where
  "TypeCLimitSet typ level =
     (if ValidateLimitWrite typ level \<noteq> None then []
      else [CmdTypeCLimit, ActSet, typ, word_of_int level])"

definition TypeCLimitClear :: "byte \<Rightarrow> byte list" where
  "TypeCLimitClear typ = (if typ < 1 \<or> typ > 3 then [] else [CmdTypeCLimit, ActDel, typ])"

definition ParseTypeCLimit :: "byte list \<Rightarrow> (proto_error + int) option" where
  "ParseTypeCLimit payload =
     (if length payload < 1 then Some (Inl TypeCLimitTooShort)
      else do { p0 \<leftarrow> idx payload 0; Some (Inr (sint p0)) })"

section \<open>Facts about the frames\<close>

lemma ValidateReply_cases:
  assumes "req \<noteq> []" "3 \<le> length reply"
  shows "ValidateReply req reply =
    (if reply ! 0 \<noteq> req ! 0 then Some (0, [], Some (EchoMismatch (req ! 0) (reply ! 0)))
     else if 2 \<le> length req \<and> reply ! 1 \<noteq> or (req ! 1) 0x80
       then Some (0, [], Some (ActionEchoMismatch (req ! 1) (reply ! 1)))
     else if reply ! 2 \<noteq> 0 \<and> req ! 0 \<noteq> CmdBypassControl
       then Some (reply ! 2, drop 3 reply, Some (ResultError (req ! 0) (reply ! 2)))
     else Some (if req ! 0 = CmdBypassControl then reply ! 2 else 0, drop 3 reply, None))"
proof -
  obtain r0 r1 r2 rest where reply: "reply = r0 # r1 # r2 # rest"
    using assms(2) by (auto simp: numeral_3_eq_3 Suc_le_length_iff)
  obtain q0 qs where req: "req = q0 # qs" using assms(1) by (cases req) auto
  show ?thesis
    by (cases qs) (simp_all add: ValidateReply_def reply req idx_def slice_from_def)
qed

lemma ValidateReply_short:
  "req = [] \<or> length reply < 3 \<Longrightarrow> ValidateReply req reply = Some (0, [], Some ShortFrame)"
  by (auto simp: ValidateReply_def)

lemma feature_bit_iff: "b < 32 \<Longrightarrow> feature_bit raw b \<longleftrightarrow> bit raw b"
  by (auto simp: feature_bit_def and_exp_eq_0_iff_not_bit push_bit_eq_mult)

lemma length_frames [simp]:
  "DCControl on \<noteq> []" "TypeCOutput on \<noteq> []" "BypassControl on \<noteq> []" "Restart \<noteq> []"
  "FeaturesQuery \<noteq> []" "DeviceIDQuery \<noteq> []" "TypeCLimitGet typ \<noteq> []"
  by (simp_all add: DCControl_def TypeCOutput_def BypassControl_def Restart_def FeaturesQuery_def
      DeviceIDQuery_def TypeCLimitGet_def)

section \<open>Properties\<close>

text \<open>A reply is accepted exactly when it is at least three bytes long, echoes the opcode and the
  action (with the top bit set) of the request, and carries result 0; only the bypass command is
  accepted with any result. An accepted reply hands back everything after its three header bytes and,
  for the bypass command, the result byte.\<close>

theorem ValidateReply_accepts:
  "ValidateReply req reply = Some (result, payload, None) \<longleftrightarrow>
     req \<noteq> [] \<and> 3 \<le> length reply \<and> reply ! 0 = req ! 0 \<and>
     (length req \<ge> 2 \<longrightarrow> reply ! 1 = or (req ! 1) 0x80) \<and>
     (reply ! 2 = 0 \<or> req ! 0 = CmdBypassControl) \<and>
     payload = drop 3 reply \<and> result = (if req ! 0 = CmdBypassControl then reply ! 2 else 0)"
proof (cases "req = [] \<or> length reply < 3")
  case True
  then show ?thesis by (auto simp: ValidateReply_short)
next
  case False
  then show ?thesis by (auto simp: ValidateReply_cases not_less)
qed

theorem ValidateReply_accepts_witness:
  "ValidateReply (BypassControl True) [0x14, 0x81, 0xFD, 0x07] = Some (0xFD, [0x07], None)"
  unfolding ValidateReply_accepts by (simp add: BypassControl_def onByte_def)

text \<open>The tables of USB-C power levels are inverse to each other: the level of a documented wattage
  gives the wattage back, every level 0 to 5 is the level of its wattage, and any other wattage or
  level is reported as unset.\<close>

lemma limit_levels_roundtrip:
  "(WattsToLevel w \<ge> 0 \<longleftrightarrow> w \<in> {30, 45, 60, 65, 100, 140}) \<and>
   (WattsToLevel w \<ge> 0 \<longrightarrow> LevelToWatts (WattsToLevel w) = w) \<and>
   (0 \<le> l \<and> l \<le> 5 \<longrightarrow> WattsToLevel (LevelToWatts l) = l) \<and>
   (\<not> (0 \<le> l \<and> l \<le> 5) \<longrightarrow> LevelToWatts l = 0)"
proof -
  have "l \<in> {0, 1, 2, 3, 4, 5}" if "0 \<le> l" "l \<le> 5" using that by force
  then show ?thesis
    by (auto simp: WattsToLevel_def LevelToWatts_def levelWatts_def)
qed

lemma limit_levels_roundtrip_witness:
  "WattsToLevel 65 \<ge> 0 \<and> LevelToWatts (WattsToLevel 65) = 65 \<and> WattsToLevel (LevelToWatts 5) = 5 \<and>
   LevelToWatts 9 = 0"
  using limit_levels_roundtrip [of 65 5] limit_levels_roundtrip [of 65 9] by simp

end
