(* ===== verification/GoFloat.thy ===== *)
theory GoFloat
  imports Prelude "HOL-Library.Log_Nat"
begin

text \<open>
  Go's \<^verbatim>\<open>float64\<close>: a finite value is a rational number, every arithmetic result is rounded to
  the nearest double (ties to even, gradual underflow, overflow to an infinity). Signed zeros are
  identified. Comparisons with a NaN are false. The functions are executable.
\<close>

datatype float64 = NaN | PInf | NInf | Fin rat

section \<open>Rounding\<close>

definition pow2 :: "int \<Rightarrow> rat" where
  "pow2 e = 2 powi e"

text \<open>The binary exponent of a positive rational: \<open>2 ^ ilog2 x \<le> x < 2 ^ (ilog2 x + 1)\<close>.\<close>

definition ilog2 :: "rat \<Rightarrow> int" where
  "ilog2 x = (let (n, d) = quotient_of x; e = bitlen n - bitlen d
              in if x < pow2 e then e - 1 else e)"

definition round_half_even :: "rat \<Rightarrow> int" where
  "round_half_even x =
     (let f = \<lfloor>x\<rfloor>; r = x - of_int f
      in if r < 1 / 2 then f else if 1 / 2 < r then f + 1 else if even f then f else f + 1)"

definition ulp :: "rat \<Rightarrow> rat" where
  "ulp x = pow2 (max (ilog2 \<bar>x\<bar> - 52) (- 1074))"

definition fl :: "rat \<Rightarrow> float64" where
  "fl x = (if x = 0 then Fin 0 else
     let y = of_int (round_half_even (x / ulp x)) * ulp x
     in if y \<ge> 2 ^ 1024 then PInf else if y \<le> - (2 ^ 1024) then NInf else Fin y)"

section \<open>Operations the program uses\<close>

fun fadd :: "float64 \<Rightarrow> float64 \<Rightarrow> float64" where
  "fadd (Fin a) (Fin b) = fl (a + b)"
| "fadd NaN _ = NaN"
| "fadd _ NaN = NaN"
| "fadd PInf NInf = NaN"
| "fadd NInf PInf = NaN"
| "fadd PInf _ = PInf"
| "fadd NInf _ = NInf"
| "fadd _ PInf = PInf"
| "fadd _ NInf = NInf"

fun fneg :: "float64 \<Rightarrow> float64" where
  "fneg NaN = NaN" | "fneg PInf = NInf" | "fneg NInf = PInf" | "fneg (Fin a) = Fin (- a)"

definition fsub :: "float64 \<Rightarrow> float64 \<Rightarrow> float64" where
  "fsub a b = fadd a (fneg b)"

text \<open>Multiplication and division by a finite, positive value (a power of ten in the program).\<close>

fun fmul_pos :: "float64 \<Rightarrow> rat \<Rightarrow> float64" where
  "fmul_pos (Fin a) b = fl (a * b)"
| "fmul_pos x b = x"

fun fdiv_pos :: "float64 \<Rightarrow> rat \<Rightarrow> float64" where
  "fdiv_pos (Fin a) b = fl (a / b)"
| "fdiv_pos x b = x"

fun flt :: "float64 \<Rightarrow> float64 \<Rightarrow> bool" where
  "flt (Fin a) (Fin b) = (a < b)"
| "flt NaN _ = False"
| "flt _ NaN = False"
| "flt NInf b = (b \<noteq> NInf)"
| "flt a NInf = False"
| "flt a PInf = (a \<noteq> PInf)"
| "flt PInf b = False"

definition fle :: "float64 \<Rightarrow> float64 \<Rightarrow> bool" where
  "fle a b \<longleftrightarrow> a \<noteq> NaN \<and> b \<noteq> NaN \<and> \<not> flt b a"

text \<open>\<^verbatim>\<open>math.Round\<close>: half away from zero, exact.\<close>

definition round_half_away :: "rat \<Rightarrow> int" where
  "round_half_away x = (if x < 0 then - \<lfloor>- x + 1 / 2\<rfloor> else \<lfloor>x + 1 / 2\<rfloor>)"

fun fround :: "float64 \<Rightarrow> float64" where
  "fround (Fin a) = Fin (of_int (round_half_away a))"
| "fround x = x"

text \<open>\<^verbatim>\<open>math.Pow(10, e)\<close> for a small integral \<open>e\<close>: the power for \<open>0 \<le> e\<close>, and the rounded
  reciprocal of the exact positive power for \<open>e < 0\<close>, as \<^verbatim>\<open>math.Pow\<close> computes it.\<close>

definition fpow10 :: "int \<Rightarrow> float64" where
  "fpow10 e = (if 0 \<le> e then fl (10 ^ nat e) else fl (1 / 10 ^ nat (- e)))"

fun fin_or_zero :: "float64 \<Rightarrow> rat" where
  "fin_or_zero (Fin a) = a"
| "fin_or_zero x = 0"

section \<open>The rounding error\<close>

lemma pow2_pos [simp]: "0 < pow2 e"
  by (simp add: pow2_def)

lemma pow2_nonneg [simp]: "0 \<le> pow2 e" "pow2 e \<noteq> 0"
  by (simp_all add: pow2_def)

lemma pow2_add: "pow2 (a + b) = pow2 a * pow2 b"
  by (simp add: pow2_def power_int_add)

lemma pow2_diff: "pow2 (a - b) = pow2 a / pow2 b"
  by (simp add: pow2_def power_int_diff)

lemma pow2_mono: "a \<le> b \<Longrightarrow> pow2 a \<le> pow2 b"
  by (simp add: pow2_def power_int_increasing)

lemma pow2_1 [simp]: "pow2 1 = 2"
  by (simp add: pow2_def)

lemma of_int_bitlen_bounds:
  assumes "0 < n"
  shows "pow2 (bitlen n - 1) \<le> of_int n" and "of_int n < pow2 (bitlen n)"
proof -
  have b: "2 ^ nat (bitlen n - 1) \<le> n" "n < 2 ^ nat (bitlen n)"
    using bitlen_bounds [OF assms] by auto
  have "0 < bitlen n" using assms b(2) by (cases "0 < bitlen n") auto
  then have e: "pow2 (bitlen n - 1) = of_int (2 ^ nat (bitlen n - 1))"
    "pow2 (bitlen n) = of_int (2 ^ nat (bitlen n))"
    by (simp_all add: pow2_def power_int_def)
  show "pow2 (bitlen n - 1) \<le> of_int n" "of_int n < pow2 (bitlen n)"
    unfolding e using b by (simp_all only: of_int_le_iff of_int_less_iff)
qed

lemma ilog2_bounds:
  assumes "0 < x" shows "pow2 (ilog2 x) \<le> x" and "x < pow2 (ilog2 x + 1)"
proof -
  obtain n d where q: "quotient_of x = (n, d)" by (cases "quotient_of x")
  have d: "0 < d" using q by (rule quotient_of_denom_pos)
  have x: "x = of_int n / of_int d" using q by (rule quotient_of_div)
  have n: "0 < n" using assms d by (simp add: x zero_less_divide_iff)
  let ?e = "bitlen n - bitlen d"
  note N = of_int_bitlen_bounds [OF n] and D = of_int_bitlen_bounds [OF d]
  have dpos: "(0::rat) < of_int d" using d by simp
  have hi: "x < pow2 (?e + 1)"
  proof -
    have "of_int n < pow2 (?e + 1) * pow2 (bitlen d - 1)"
      using N(2) by (simp flip: pow2_add)
    also have "\<dots> \<le> pow2 (?e + 1) * of_int d"
      using D(1) by (intro mult_left_mono) auto
    finally show ?thesis using dpos by (simp add: x divide_less_eq)
  qed
  have lo: "pow2 (?e - 1) \<le> x"
  proof -
    have "pow2 (?e - 1) * of_int d \<le> pow2 (?e - 1) * pow2 (bitlen d)"
      using D(2) by (intro mult_left_mono) auto
    also have "\<dots> \<le> of_int n" using N(1) by (simp flip: pow2_add)
    finally show ?thesis using dpos by (simp add: x le_divide_eq)
  qed
  show "pow2 (ilog2 x) \<le> x" and "x < pow2 (ilog2 x + 1)"
    using hi lo by (auto simp: ilog2_def q Let_def)
qed

lemma round_half_even_error: "\<bar>of_int (round_half_even x) - x\<bar> \<le> 1 / 2"
proof -
  have f: "of_int \<lfloor>x\<rfloor> \<le> x" "x < of_int \<lfloor>x\<rfloor> + 1"
    using floor_correct [of x] by simp_all
  show ?thesis
    using f unfolding round_half_even_def Let_def abs_if
    by (simp split: if_split) linarith
qed

lemma ulp_pos [simp]: "0 < ulp x" "ulp x \<noteq> 0" "\<bar>ulp x\<bar> = ulp x"
  by (simp_all add: ulp_def abs_of_pos)

lemma ulp_le:
  assumes "x \<noteq> 0" shows "ulp x \<le> \<bar>x\<bar> / 2 ^ 52 + 1 / 2 ^ 100"
proof -
  have "pow2 52 = 2 ^ 52" "pow2 (- 100) = 1 / 2 ^ 100"
    unfolding pow2_def by (simp_all only: power_int_minus power_int_numeral divide_inverse mult_1)
  note p = this
  have "pow2 (ilog2 \<bar>x\<bar> - 52) = pow2 (ilog2 \<bar>x\<bar>) / 2 ^ 52"
    by (simp only: pow2_diff p)
  also have "\<dots> \<le> \<bar>x\<bar> / 2 ^ 52"
    using ilog2_bounds(1) [of "\<bar>x\<bar>"] assms by (intro divide_right_mono) auto
  finally have a: "pow2 (ilog2 \<bar>x\<bar> - 52) \<le> \<bar>x\<bar> / 2 ^ 52" .
  have "pow2 (- 1074) \<le> pow2 (- 100)" by (rule pow2_mono) simp
  also note p(2)
  finally have b: "pow2 (- 1074) \<le> 1 / 2 ^ 100" .
  have "ulp x = pow2 (ilog2 \<bar>x\<bar> - 52) \<or> ulp x = pow2 (- 1074)"
    by (simp add: ulp_def max_def)
  moreover have "0 \<le> \<bar>x\<bar> / 2 ^ 52" "(0::rat) \<le> 1 / 2 ^ 100" by simp_all
  ultimately show ?thesis using a b by linarith
qed

lemma fl_error:
  assumes "fl x = Fin y" shows "\<bar>y - x\<bar> \<le> ulp x / 2"
proof (cases "x = 0")
  case True
  then show ?thesis using assms by (simp add: fl_def less_imp_le)
next
  case False
  let ?r = "of_int (round_half_even (x / ulp x))"
  have y: "y = ?r * ulp x" using assms False by (auto simp: fl_def Let_def split: if_splits)
  have "y - x = (?r - x / ulp x) * ulp x" by (simp add: y algebra_simps)
  then have "\<bar>y - x\<bar> = \<bar>?r - x / ulp x\<bar> * ulp x" by (simp add: abs_mult)
  also have "\<dots> \<le> 1 / 2 * ulp x"
    by (intro mult_right_mono round_half_even_error) (simp add: less_imp_le)
  finally show ?thesis by simp
qed

text \<open>A value of ordinary magnitude is rounded to a finite double close to it.\<close>

lemma fl_finite:
  assumes "\<bar>x\<bar> \<le> 2 ^ 100"
  obtains y where "fl x = Fin y" and "\<bar>y - x\<bar> \<le> \<bar>x\<bar> / 2 ^ 53 + 1 / 2 ^ 100"
proof (cases "x = 0")
  case True
  then show ?thesis using that [of 0] by (simp add: fl_def)
next
  case False
  define y where "y = of_int (round_half_even (x / ulp x)) * ulp x"
  have u: "ulp x \<le> \<bar>x\<bar> / 2 ^ 52 + 1 / 2 ^ 100" using False by (rule ulp_le)
  have "y - x = (of_int (round_half_even (x / ulp x)) - x / ulp x) * ulp x"
    by (simp add: y_def algebra_simps)
  then have "\<bar>y - x\<bar> = \<bar>of_int (round_half_even (x / ulp x)) - x / ulp x\<bar> * ulp x"
    by (simp add: abs_mult)
  also have "\<dots> \<le> 1 / 2 * ulp x"
    by (intro mult_right_mono round_half_even_error) (simp add: less_imp_le)
  finally have e: "\<bar>y - x\<bar> \<le> \<bar>x\<bar> / 2 ^ 53 + 1 / 2 ^ 100" using u by simp
  have "\<bar>y\<bar> \<le> 2 ^ 101" using e assms by simp
  also have "(2::rat) ^ 101 < 2 ^ 1024" by (rule power_strict_increasing) simp_all
  finally have "\<bar>y\<bar> < 2 ^ 1024" .
  then have "\<not> 2 ^ 1024 \<le> y" "\<not> y \<le> - (2 ^ 1024)"
    unfolding abs_less_iff by linarith+
  then have "fl x = Fin y" using False by (simp only: fl_def Let_def if_False y_def [symmetric])
  then show ?thesis using e by (rule that)
qed

corollary fl_near:
  assumes "\<bar>x\<bar> \<le> 1000000000"
  obtains y where "fl x = Fin y" and "\<bar>y - x\<bar> \<le> \<bar>x\<bar> / 1000000000000000 + 1 / 1000000000000000"
proof -
  have "(1000000000 :: rat) \<le> 2 ^ 100" by simp
  with assms have "\<bar>x\<bar> \<le> 2 ^ 100" by (rule order.trans)
  then obtain y where y: "fl x = Fin y" "\<bar>y - x\<bar> \<le> \<bar>x\<bar> / 2 ^ 53 + 1 / 2 ^ 100"
    by (rule fl_finite)
  have "\<bar>x\<bar> / 2 ^ 53 \<le> \<bar>x\<bar> / 1000000000000000" by (intro divide_left_mono) auto
  moreover have "(1 :: rat) / 2 ^ 100 \<le> 1 / 1000000000000000" by simp
  ultimately have "\<bar>y - x\<bar> \<le> \<bar>x\<bar> / 1000000000000000 + 1 / 1000000000000000"
    using y(2) by linarith
  with y(1) show ?thesis by (rule that)
qed

lemma round_half_away_error: "\<bar>of_int (round_half_away x) - x\<bar> \<le> 1 / 2"
  unfolding round_half_away_def by (simp add: abs_if) linarith

lemma round_half_away_mono_le:
  assumes "x \<le> of_int n" "0 \<le> n" shows "round_half_away x \<le> n"
proof (cases "x < 0")
  case True
  then have "0 \<le> \<lfloor>- x + 1 / 2\<rfloor>" by simp
  with True assms(2) show ?thesis unfolding round_half_away_def by presburger
next
  case False
  have "\<lfloor>x + 1 / 2\<rfloor> \<le> n" using assms(1) by (simp add: floor_le_iff) 
  then show ?thesis using False by (simp add: round_half_away_def)
qed

lemma round_half_away_nonneg: "0 \<le> x \<Longrightarrow> 0 \<le> round_half_away x"
  by (simp add: round_half_away_def)

end
