(* ===== verification/Proto_Telemetry.thy ===== *)
theory Proto_Telemetry
  imports Proto_Frames GoFloat
begin

text \<open>
  Package \<^verbatim>\<open>internal/proto\<close>: the 16-bit SFLOAT codec (\<^verbatim>\<open>sfloat.go\<close>), the telemetry records and
  their parsers (\<^verbatim>\<open>telemetry.go\<close>) and the bypass-threshold frames of \<^verbatim>\<open>controls.go\<close>.
\<close>

section \<open>SFLOAT\<close>

definition DecodeSFloat :: "uint16 \<Rightarrow> float64" where
  "DecodeSFloat raw =
     (if raw \<in> {0x07FF, 0x0800, 0x07FE, 0x0802} then NaN
      else
        let mant = uint (and raw 0x0FFF);
            mant = (if and mant 0x0800 \<noteq> 0 then mant - 0x1000 else mant);
            e = uint (drop_bit 12 raw);
            e = (if and e 0x08 \<noteq> 0 then e - 0x10 else e)
        in fmul_pos (Fin (of_int mant)) (fin_or_zero (fpow10 e)))"

text \<open>The loop over the exponents \<open>-2 \<dots> 7\<close>; the first one whose rounded mantissa fits is taken.\<close>

definition sfloat_mantissa :: "float64 \<Rightarrow> int \<Rightarrow> float64" where
  "sfloat_mantissa v e = fround (fdiv_pos v (fin_or_zero (fpow10 e)))"

fun encode_sfloat_from :: "float64 \<Rightarrow> int list \<Rightarrow> uint16" where
  "encode_sfloat_from v [] = 0x07FF"
| "encode_sfloat_from v (e # es) =
     (let m = sfloat_mantissa v e
      in if fle (Fin (- 2048)) m \<and> fle m (Fin 2047)
         then or (push_bit 12 (word_of_int (and e 0x0F)))
                 (word_of_int (and \<lfloor>fin_or_zero m\<rfloor> 0x0FFF))
         else encode_sfloat_from v es)"

definition EncodeSFloat :: "float64 \<Rightarrow> uint16" where
  "EncodeSFloat v = (if v = NaN then 0x07FF else encode_sfloat_from v [-2, -1, 0, 1, 2, 3, 4, 5, 6, 7])"

section \<open>Telemetry records\<close>

record battery =
  b_enabled :: bool
  b_status :: int8
  b_full :: bool
  b_max_wh :: float64
  b_wh :: float64
  b_level :: byte
  b_volts :: float64
  b_amps :: float64
  b_watts :: float64
  b_remain_min :: uint16

record dc_port =
  dc_enabled :: bool
  dc_status :: int8
  dc_volts :: float64
  dc_amps :: float64
  dc_watts :: float64
  dc_bypass :: bool

record typec_port =
  tc_enabled :: bool
  tc_status :: int8
  tc_volts :: float64
  tc_amps :: float64
  tc_watts :: float64
  tc_temp_c :: float64
  tc_mode :: byte
  tc_dc_input :: bool

definition sfloatAt :: "byte list \<Rightarrow> nat \<Rightarrow> float64 option" where
  "sfloatAt b off = do { s \<leftarrow> slice_from b off; v \<leftarrow> le_uint16 s; Some (DecodeSFloat v) }"

definition ParseBattery :: "byte list \<Rightarrow> (proto_error + battery) option" where
  "ParseBattery b =
     (if length b < 16 then Some (Inl (BatteryTooShort (length b)))
      else do {
        b0 \<leftarrow> idx b 0; b1 \<leftarrow> idx b 1; b2 \<leftarrow> idx b 2;
        maxwh \<leftarrow> sfloatAt b 3; wh \<leftarrow> sfloatAt b 5; level \<leftarrow> idx b 7;
        volts \<leftarrow> sfloatAt b 8; amps \<leftarrow> sfloatAt b 10; watts \<leftarrow> sfloatAt b 12;
        s \<leftarrow> slice_from b 14; remain \<leftarrow> le_uint16 s;
        Some (Inr \<lparr>b_enabled = (b0 = 1), b_status = b1, b_full = (b2 = 1), b_max_wh = maxwh,
          b_wh = wh, b_level = level, b_volts = volts, b_amps = amps, b_watts = watts,
          b_remain_min = remain\<rparr>) })"

definition ParseDC :: "byte list \<Rightarrow> (proto_error + dc_port) option" where
  "ParseDC b =
     (if length b < 8 then Some (Inl (DCTooShort (length b)))
      else do {
        b0 \<leftarrow> idx b 0; b1 \<leftarrow> idx b 1;
        volts \<leftarrow> sfloatAt b 2; amps \<leftarrow> sfloatAt b 4; watts \<leftarrow> sfloatAt b 6;
        bypass \<leftarrow> (if length b \<ge> 9 then do { b8 \<leftarrow> idx b 8; Some (b8 = 1) } else Some False);
        Some (Inr \<lparr>dc_enabled = (b0 = 1), dc_status = b1, dc_volts = volts, dc_amps = amps,
          dc_watts = watts, dc_bypass = bypass\<rparr>) })"

definition ParseTypeC :: "byte list \<Rightarrow> (proto_error + typec_port) option" where
  "ParseTypeC b =
     (if length b < 10 then Some (Inl (TypeCTooShort (length b)))
      else do {
        b0 \<leftarrow> idx b 0; b1 \<leftarrow> idx b 1;
        volts \<leftarrow> sfloatAt b 2; amps \<leftarrow> sfloatAt b 4; watts \<leftarrow> sfloatAt b 6; temp \<leftarrow> sfloatAt b 8;
        mode \<leftarrow> (if length b \<ge> 12 then idx b 11 else Some 0);
        dcin \<leftarrow> (if length b \<ge> 13 then do { b12 \<leftarrow> idx b 12; Some (b12 = 1) } else Some False);
        Some (Inr \<lparr>tc_enabled = (b0 = 1), tc_status = b1, tc_volts = volts, tc_amps = amps,
          tc_watts = watts, tc_temp_c = temp, tc_mode = mode, tc_dc_input = dcin\<rparr>) })"

section \<open>The bypass threshold\<close>

definition BypassThresholdGet :: "byte list" where
  "BypassThresholdGet = [CmdBypassThreshold, ActGet]"

definition BypassThresholdSet :: "float64 \<Rightarrow> byte list" where
  "BypassThresholdSet volts = [CmdBypassThreshold, ActSet] @ put_uint16 (EncodeSFloat volts)"

definition ParseBypassThreshold :: "byte list \<Rightarrow> (proto_error + float64) option" where
  "ParseBypassThreshold payload =
     (if length payload < 2 then Some (Inl BypassThresholdTooShort)
      else do { v \<leftarrow> le_uint16 payload; Some (Inr (DecodeSFloat v)) })"

section \<open>Guarded reads do not panic\<close>

definition uint16_at :: "byte list \<Rightarrow> nat \<Rightarrow> uint16" where
  "uint16_at b off = or (ucast (b ! off)) (push_bit 8 (ucast (b ! Suc off)))"

lemma le_uint16_drop [panic_free]:
  "off + 2 \<le> length b \<Longrightarrow> le_uint16 (drop off b) = Some (uint16_at b off)"
  by (simp add: le_uint16_def uint16_at_def flip: Cons_nth_drop_Suc)

lemma sfloatAt_Some [panic_free]:
  "off + 2 \<le> length b \<Longrightarrow> sfloatAt b off = Some (DecodeSFloat (uint16_at b off))"
  by (simp add: sfloatAt_def slice_from_def le_uint16_drop)

lemma ParseBattery_long:
  "16 \<le> length b \<Longrightarrow> \<exists>r. ParseBattery b = Some (Inr r) \<and> b_level r = b ! 7 \<and> b_status r = b ! 1"
  by (simp add: ParseBattery_def panic_free del: length_greater_0_conv)

lemma ParseDC_long:
  "8 \<le> length b \<Longrightarrow> \<exists>r. ParseDC b = Some (Inr r) \<and> (dc_bypass r \<longleftrightarrow> 9 \<le> length b \<and> b ! 8 = 1)"
  by (simp add: ParseDC_def panic_free del: length_greater_0_conv)

lemma ParseTypeC_long:
  "10 \<le> length b \<Longrightarrow> \<exists>r. ParseTypeC b = Some (Inr r) \<and>
     tc_mode r = (if 12 \<le> length b then b ! 11 else 0) \<and>
     (tc_dc_input r \<longleftrightarrow> 13 \<le> length b \<and> b ! 12 = 1)"
  by (simp add: ParseTypeC_def panic_free del: length_greater_0_conv)

section \<open>Accuracy of the SFLOAT codec\<close>

lemma bit_nonneg_small: "0 \<le> (m::int) \<Longrightarrow> m < 2 ^ k \<Longrightarrow> bit m n \<Longrightarrow> n < k"
  by (metis bit_take_bit_iff take_bit_int_eq_self)

lemma sfloat_word_fields:
  fixes m k :: int
  assumes m: "0 \<le> m" "m < 2 ^ 11" and k: "0 \<le> k" "k < 2 ^ 4"
  defines "raw \<equiv> (or (push_bit 12 (word_of_int k)) (word_of_int (and m 0x0FFF)) :: uint16)"
  shows "uint (and raw 0x0FFF) = m" and "uint (drop_bit 12 raw) = k"
proof -
  have mask: "(0xFFF :: uint16) = mask 12" "(0xFFF :: int) = mask 12"
    by (simp_all add: mask_eq_exp_minus_1)
  have "and raw 0x0FFF = word_of_int m"
    by (rule bit_eqI)
      (auto simp: raw_def mask bit_simps dest: bit_nonneg_small [OF m])
  moreover have "uint (word_of_int m :: uint16) = m"
    using m by (simp add: uint_word_of_int take_bit_int_eq_self)
  ultimately show "uint (and raw 0x0FFF) = m" by simp
  have "drop_bit 12 raw = word_of_int k"
    by (rule bit_eqI)
      (auto simp: raw_def mask bit_simps dest: bit_nonneg_small [OF m] bit_nonneg_small [OF k])
  moreover have "uint (word_of_int k :: uint16) = k"
    using k by (simp add: uint_word_of_int take_bit_int_eq_self)
  ultimately show "uint (drop_bit 12 raw) = k" by simp
qed

lemma and_bit11_zero: "0 \<le> (m::int) \<Longrightarrow> m < 2 ^ 11 \<Longrightarrow> and m 0x0800 = 0"
  using bit_nonneg_small [of m 11 11] and_exp_eq_0_iff_not_bit [of m 11] by auto

text \<open>A word with a negative exponent and a small non-negative mantissa decodes to the product.\<close>

lemma DecodeSFloat_word:
  fixes m :: int
  assumes m: "0 \<le> m" "m < 2 ^ 11" and e: "e = - 2 \<or> e = - 1"
  shows "DecodeSFloat (or (push_bit 12 (word_of_int (and e 0x0F))) (word_of_int (and m 0x0FFF)))
    = fmul_pos (Fin (of_int m)) (fin_or_zero (fpow10 e))"
proof -
  define k where "k = and e 0x0F"
  define raw where "raw = (or (push_bit 12 (word_of_int k)) (word_of_int (and m 0x0FFF)) :: uint16)"
  have k: "0 \<le> k" "k < 2 ^ 4" "and k 0x08 \<noteq> 0" "k - 0x10 = e"
    using e unfolding k_def by auto
  note f = sfloat_word_fields [OF m k(1,2), folded raw_def]
  have "drop_bit 12 raw \<noteq> 0" using f(2) k(3) by auto
  moreover have "drop_bit 12 (x :: uint16) = 0" if "x \<in> {0x07FF, 0x0800, 0x07FE, 0x0802}" for x
    using that by auto
  ultimately have "raw \<notin> {0x07FF, 0x0800, 0x07FE, 0x0802}" by blast
  then have "DecodeSFloat raw = fmul_pos (Fin (of_int m)) (fin_or_zero (fpow10 e))"
    unfolding DecodeSFloat_def using f and_bit11_zero [OF m] k(3,4) by simp
  then show ?thesis unfolding raw_def k_def .
qed

lemma fpow10_neg:
  assumes "e = - 2 \<or> e = - 1"
  obtains p where "fpow10 e = Fin p" and "\<bar>p - (if e = - 2 then 1 / 100 else 1 / 10)\<bar> \<le> 1 / 1000000000000"
proof -
  let ?x = "if e = - 2 then 1 / 100 else 1 / 10 :: rat"
  have "fpow10 e = fl ?x" using assms by (auto simp: fpow10_def)
  moreover have "\<bar>?x\<bar> \<le> 1" by simp
  then have "\<bar>?x\<bar> \<le> 1000000000" by linarith
  then obtain p where p: "fl ?x = Fin p"
    "\<bar>p - ?x\<bar> \<le> \<bar>?x\<bar> / 1000000000000000 + 1 / 1000000000000000"
    by (rule fl_near)
  moreover have "\<bar>p - ?x\<bar> \<le> 1 / 1000000000000" using p(2) \<open>\<bar>?x\<bar> \<le> 1\<close> by linarith
  ultimately show ?thesis using that [of p] by simp
qed

text \<open>One iteration of the encoder on a voltage of at most 60, with the error of its mantissa.\<close>

lemma sfloat_mantissa_error:
  assumes q: "0 < q" "q \<le> 60" and p: "fpow10 e = Fin p" and pb: "1 / 200 \<le> p"
  obtains m where "sfloat_mantissa (Fin q) e = Fin (of_int m)" and "0 \<le> m"
    and "\<bar>of_int m * p - q\<bar> \<le> p / 2 + 1 / 1000000 * p"
proof -
  define r where "r = q / p"
  have r: "0 \<le> r" "r \<le> 12000" "q = r * p"
    using q pb by (auto simp: r_def field_simps)
  then have "\<bar>r\<bar> \<le> 1000000000" by linarith
  then obtain t where t: "fl r = Fin t"
    "\<bar>t - r\<bar> \<le> \<bar>r\<bar> / 1000000000000000 + 1 / 1000000000000000"
    by (rule fl_near)
  have te: "\<bar>t - r\<bar> \<le> 1 / 1000000" using t(2) r(1,2) by linarith
  define m where "m = round_half_away t"
  have mt: "\<bar>of_int m - t\<bar> \<le> 1 / 2" unfolding m_def by (rule round_half_away_error)
  have "\<bar>of_int m - r\<bar> \<le> 1 / 2 + 1 / 1000000" using mt te by linarith
  then have "\<bar>of_int m - r\<bar> * p \<le> (1 / 2 + 1 / 1000000) * p"
    using pb by (intro mult_right_mono) auto
  moreover have "\<bar>of_int m * p - q\<bar> = \<bar>of_int m - r\<bar> * p"
    using pb by (simp add: r(3) abs_mult_pos left_diff_distrib)
  ultimately have "\<bar>of_int m * p - q\<bar> \<le> p / 2 + 1 / 1000000 * p"
    by (simp add: algebra_simps)
  moreover have "0 \<le> m"
  proof -
    have "- 1 < (of_int m :: rat)" using mt te r(1) by linarith
    then show ?thesis by linarith
  qed
  moreover have "sfloat_mantissa (Fin q) e = Fin (of_int m)"
    using t(1) by (simp add: sfloat_mantissa_def p m_def r_def)
  ultimately show ?thesis using that by blast
qed

text \<open>What the decoder makes of the mantissa and exponent that an iteration chose.\<close>

lemma sfloat_decoded_error:
  assumes m: "0 \<le> m" "m < 2 ^ 11" and e: "e = - 2 \<or> e = - 1" and p: "fpow10 e = Fin p"
    and pb: "1 / 200 \<le> p" "p \<le> 1 / 5" and err: "\<bar>of_int m * p - q\<bar> \<le> p / 2 + 1 / 1000000 * p"
  obtains y where
    "DecodeSFloat (or (push_bit 12 (word_of_int (and e 0x0F))) (word_of_int (and m 0x0FFF))) = Fin y"
    and "\<bar>y - q\<bar> \<le> p / 2 + 2 / 1000000 * p"
proof -
  have mp: "0 \<le> of_int m * p" "of_int m * p \<le> 2048 * p"
    using m pb(1) by (auto intro!: mult_right_mono)
  then have "\<bar>of_int m * p\<bar> \<le> 1000000000" using pb by linarith
  then obtain y where y: "fl (of_int m * p) = Fin y"
    "\<bar>y - of_int m * p\<bar> \<le> \<bar>of_int m * p\<bar> / 1000000000000000 + 1 / 1000000000000000"
    by (rule fl_near)
  have "\<bar>of_int m * p\<bar> = of_int m * p" using mp(1) by (rule abs_of_nonneg)
  then have "\<bar>y - of_int m * p\<bar> \<le> 1 / 1000000 * p" using y(2) mp pb by linarith
  then have "\<bar>y - q\<bar> \<le> p / 2 + 2 / 1000000 * p" using err by linarith
  moreover have "DecodeSFloat (or (push_bit 12 (word_of_int (and e 0x0F)))
      (word_of_int (and m 0x0FFF))) = Fin y"
    using DecodeSFloat_word [OF m e] by (simp add: p y)
  ultimately show ?thesis using that by blast
qed

lemma fle_mantissa_range:
  "fle (Fin (- 2048)) (Fin (of_int m)) \<and> fle (Fin (of_int m)) (Fin 2047) \<longleftrightarrow> - 2048 \<le> m \<and> m \<le> 2047"
  unfolding fle_def by (simp add: not_less) linarith

text \<open>The exponent \<open>-2\<close> is taken when its mantissa fits, and \<open>-1\<close> always fits below 60.\<close>

lemma EncodeSFloat_threshold:
  assumes q: "0 < q" "q \<le> 60"
  obtains m e p where
    "EncodeSFloat (Fin q) =
       or (push_bit 12 (word_of_int (and e 0x0F))) (word_of_int (and m 0x0FFF))"
    and "0 \<le> m" "m < 2 ^ 11" "e = - 2 \<or> e = - 1" "q \<le> 20 \<Longrightarrow> e = - 2" "fpow10 e = Fin p"
    and "\<bar>p - (if e = - 2 then 1 / 100 else 1 / 10)\<bar> \<le> 1 / 1000000000000"
    and "\<bar>of_int m * p - q\<bar> \<le> p / 2 + 1 / 1000000 * p"
proof -
  obtain p2 where p2: "fpow10 (- 2) = Fin p2" "\<bar>p2 - 1 / 100\<bar> \<le> 1 / 1000000000000"
    using fpow10_neg [of "- 2"] by auto
  obtain p1 where p1: "fpow10 (- 1) = Fin p1" "\<bar>p1 - 1 / 10\<bar> \<le> 1 / 1000000000000"
    using fpow10_neg [of "- 1"] by auto
  have b2: "1 / 200 \<le> p2" and b1: "1 / 200 \<le> p1" "99 / 1000 \<le> p1"
    using p1(2) p2(2) by linarith+
  obtain m2 where m2: "sfloat_mantissa (Fin q) (- 2) = Fin (of_int m2)" "0 \<le> m2"
    "\<bar>of_int m2 * p2 - q\<bar> \<le> p2 / 2 + 1 / 1000000 * p2"
    using sfloat_mantissa_error [OF q p2(1) b2] by blast
  obtain m1 where m1: "sfloat_mantissa (Fin q) (- 1) = Fin (of_int m1)" "0 \<le> m1"
    "\<bar>of_int m1 * p1 - q\<bar> \<le> p1 / 2 + 1 / 1000000 * p1"
    using sfloat_mantissa_error [OF q p1(1) b1(1)] by blast
  show ?thesis
  proof (cases "m2 \<le> 2047")
    case True
    then show ?thesis
      using m2 p2 that [of "- 2" m2 p2]
      by (simp add: EncodeSFloat_def fle_mantissa_range)
  next
    case False
    have "of_int m1 * p1 \<le> 61" using m1(3) q(2) p1(2) by linarith
    moreover have "of_int m1 * (99 / 1000) \<le> of_int m1 * p1"
      using m1(2) b1(2) by (intro mult_left_mono) auto
    ultimately have "(of_int m1 :: rat) \<le> 617" by linarith
    then have m1_hi: "m1 \<le> 617" by linarith
    have "20 < q"
    proof (rule ccontr)
      assume "\<not> 20 < q"
      then have "of_int m2 * p2 \<le> 2001 / 100" using m2(3) p2(2) by linarith
      moreover have "2048 * (999 / 100000) \<le> of_int m2 * p2"
      proof (rule mult_mono)
        show "999 / 100000 \<le> p2" using p2(2) by linarith
        show "(2048 :: rat) \<le> of_int m2" using False by linarith
      qed (use False in simp_all)
      ultimately show False by simp
    qed
    then show ?thesis
      using False m1 m1_hi m2 p1 that [of "- 1" m1 p1]
      by (simp add: EncodeSFloat_def fle_mantissa_range)
  qed
qed

section \<open>Properties\<close>

text \<open>Writing a bypass threshold and reading the same bytes back preserves the voltage: for every
  voltage in (0, 60] the decoded threshold is a number within 5.1 mV of the requested one up to 20 V
  and within 51 mV above, in spite of the rounding of the codec and of the floating-point operations.\<close>

theorem threshold_roundtrip:
  assumes "0 < q" and "q \<le> 60"
  shows "\<exists>y. ParseBypassThreshold (drop 2 (BypassThresholdSet (Fin q))) = Some (Inr (Fin y)) \<and>
    \<bar>y - q\<bar> \<le> (if q \<le> 20 then 51 / 10000 else 51 / 1000)"
proof -
  obtain m e p where w: "EncodeSFloat (Fin q) =
      or (push_bit 12 (word_of_int (and e 0x0F))) (word_of_int (and m 0x0FFF))"
    and m: "0 \<le> m" "m < 2 ^ 11" and e: "e = - 2 \<or> e = - 1" and e20: "q \<le> 20 \<Longrightarrow> e = - 2"
    and p: "fpow10 e = Fin p" "\<bar>p - (if e = - 2 then 1 / 100 else 1 / 10)\<bar> \<le> 1 / 1000000000000"
    and err: "\<bar>of_int m * p - q\<bar> \<le> p / 2 + 1 / 1000000 * p"
    using EncodeSFloat_threshold [OF assms] by blast
  have px: "e = - 2 \<and> \<bar>p - 1 / 100\<bar> \<le> 1 / 1000000000000 \<or>
      e = - 1 \<and> \<bar>p - 1 / 10\<bar> \<le> 1 / 1000000000000"
    using p(2) e by auto
  have pb1: "1 / 200 \<le> p" using px by (elim disjE conjE) linarith+
  have pb2: "p \<le> 1 / 5" using px by (elim disjE conjE) linarith+
  obtain y where y: "DecodeSFloat (EncodeSFloat (Fin q)) = Fin y" "\<bar>y - q\<bar> \<le> p / 2 + 2 / 1000000 * p"
    using sfloat_decoded_error [OF m e p(1) pb1 pb2 err] unfolding w by blast
  have "e = - 2 \<and> \<bar>y - q\<bar> \<le> 51 / 10000 \<or> e = - 1 \<and> \<bar>y - q\<bar> \<le> 51 / 1000"
    using px y(2) by (elim disjE conjE) (simp_all only: simp_thms, linarith+)
  then have "\<bar>y - q\<bar> \<le> (if q \<le> 20 then 51 / 10000 else 51 / 1000)"
    using e20 by auto
  moreover have "le_uint16 (put_uint16 (EncodeSFloat (Fin q))) = Some (EncodeSFloat (Fin q))"
    using le_uint16_put [of _ "[]"] by simp
  ultimately show ?thesis
    by (auto simp: ParseBypassThreshold_def BypassThresholdSet_def y(1))
qed

theorem threshold_roundtrip_witness:
  "\<exists>y. ParseBypassThreshold (drop 2 (BypassThresholdSet (Fin (98 / 5)))) = Some (Inr (Fin y)) \<and>
    \<bar>y - 98 / 5\<bar> \<le> 51 / 10000"
  using threshold_roundtrip [of "98 / 5"] by simp

end
