(* ===== verification/State_Store.thy ===== *)
theory State_Store
  imports Proto_Telemetry
begin

text \<open>
  Package \<^verbatim>\<open>internal/state\<close> (\<^verbatim>\<open>store.go\<close>, \<^verbatim>\<open>device.go\<close>): the latest snapshot, the 24-hour history, the
  command registry, the subscribers and the waiters. Every exported operation runs under the store's
  mutex, so it is one atomic function of the store here; the interleavings of the daemon's goroutines
  are the sequences of these functions (\<open>store_step\<close>). The clock readings an operation makes are its
  first arguments, in the order in which the code makes them. HOL values are immutable, so the deep
  copies of \<^verbatim>\<open>cloneSnapshot\<close> and its helpers are the identity.

  A subscriber's channel is its queue of undelivered snapshots; a channel that was closed has left
  \<open>st_subs\<close> and keeps what it still delivers in \<open>st_closed\<close>.
\<close>

section \<open>Data\<close>

record identity =
  id_model :: string
  id_hw_rev :: string
  id_app_firmware :: string
  id_bootloader_firmware :: string
  id_mac :: string
  id_cid :: uint16
  id_features :: uint32
  id_feature_set :: FeatureSet
  id_mode :: string
  id_characteristics :: "(string \<times> bool) list"
  id_readable :: "(string \<times> bool) list"

record connection =
  cn_phase :: string
  cn_reconnect_armed :: bool
  cn_since :: time
  cn_error :: string

record command_error =
  ce_code :: string
  ce_message :: string

text \<open>The dynamic values that the control service stores in a command: the requested
  \<^verbatim>\<open>{"on": v}\<close> object and the observed telemetry.\<close>

datatype anyval = AnyNil | AnyOn bool | AnyDC dc_port | AnyTypeC typec_port

record command =
  cmd_id :: string
  cmd_operation :: string
  cmd_phase :: string
  cmd_requested :: anyval
  cmd_observed :: anyval
  cmd_started_at :: time
  cmd_updated_at :: time
  cmd_error :: "command_error option"

record snapshot =
  sn_battery :: "battery option"
  sn_dc :: "dc_port option"
  sn_typec :: "typec_port option"
  sn_connected :: bool
  sn_updated_at :: time
  sn_device :: "identity option"
  sn_connection :: "connection option"
  sn_pending :: "(string \<times> command) list"
  sn_recent :: "command list"

record history_point =
  hp_at :: time
  hp_level :: byte
  hp_status :: int8
  hp_dc_w :: float64
  hp_typec_w :: float64

record waiter =
  w_queue :: "snapshot list"
  w_ready :: bool

record store =
  st_snap :: snapshot
  st_history :: "history_point list"
  st_last_min :: time
  st_subs :: "(nat \<times> snapshot list) list"
  st_closed :: "(nat \<times> snapshot list) list"
  st_waiters :: "(nat \<times> waiter) list"

abbreviation (input) historyCap :: nat where "historyCap \<equiv> 1440"
abbreviation (input) recentCommandCap :: nat where "recentCommandCap \<equiv> 32"
abbreviation (input) subscriberCap :: nat where "subscriberCap \<equiv> 128"

abbreviation (input) "CommandPending \<equiv> ''pending''"
abbreviation (input) "CommandConfirmed \<equiv> ''confirmed''"
abbreviation (input) "CommandTimeout \<equiv> ''timeout''"
abbreviation (input) "CommandFailed \<equiv> ''failed''"

definition zero_snapshot :: snapshot where
  "zero_snapshot = \<lparr>sn_battery = None, sn_dc = None, sn_typec = None, sn_connected = False,
     sn_updated_at = 0, sn_device = None, sn_connection = None, sn_pending = [], sn_recent = []\<rparr>"

definition NewStore :: store where
  "NewStore = \<lparr>st_snap = zero_snapshot, st_history = [], st_last_min = 0, st_subs = [],
     st_closed = [], st_waiters = []\<rparr>"

section \<open>Publishing\<close>

text \<open>\<^verbatim>\<open>snapshotWaiter.enqueue\<close>: append and leave a token in the one-slot \<^verbatim>\<open>ready\<close> channel.\<close>

definition waiter_enqueue :: "snapshot \<Rightarrow> waiter \<Rightarrow> waiter" where
  "waiter_enqueue sn w = w\<lparr>w_queue := w_queue w @ [sn], w_ready := True\<rparr>"

text \<open>One pass of \<^verbatim>\<open>snapshotWaiter.next\<close>: \<open>None\<close> when it keeps blocking for a token.\<close>

definition waiter_next :: "waiter \<Rightarrow> waiter \<times> snapshot option" where
  "waiter_next w =
     (if \<not> w_ready w then (w, None)
      else case w_queue w of
        [] \<Rightarrow> (w\<lparr>w_ready := False\<rparr>, None)
      | sn # rest \<Rightarrow> (w\<lparr>w_queue := rest, w_ready := (rest \<noteq> [])\<rparr>, Some sn))"

text \<open>\<^verbatim>\<open>snapshotSubscriber.enqueue\<close>: a non-blocking send to a channel of capacity 128.\<close>

definition sub_accepts :: "snapshot list \<Rightarrow> bool" where
  "sub_accepts q \<longleftrightarrow> length q < subscriberCap"

definition append_history :: "store \<Rightarrow> history_point \<Rightarrow> store" where
  "append_history s p = s\<lparr>st_history := push_capped historyCap (st_history s) p\<rparr>"

definition make_point :: "time \<Rightarrow> snapshot \<Rightarrow> history_point" where
  "make_point m sn = \<lparr>hp_at = m,
     hp_level = (case sn_battery sn of None \<Rightarrow> 0 | Some b \<Rightarrow> b_level b),
     hp_status = (case sn_battery sn of None \<Rightarrow> 0 | Some b \<Rightarrow> b_status b),
     hp_dc_w = (case sn_dc sn of None \<Rightarrow> Fin 0 | Some d \<Rightarrow> dc_watts d),
     hp_typec_w = (case sn_typec sn of None \<Rightarrow> Fin 0 | Some c \<Rightarrow> tc_watts c)\<rparr>"

definition record_history :: "time \<Rightarrow> store \<Rightarrow> store" where
  "record_history now s =
     (let m = truncate_minute now
      in if m = st_last_min s then s
         else append_history (s\<lparr>st_last_min := m\<rparr>) (make_point m (st_snap s)))"

definition publishLocked :: "time \<Rightarrow> time \<Rightarrow> bool \<Rightarrow> store \<Rightarrow> store" where
  "publishLocked t1 t2 recordHistory s =
     (let s = s\<lparr>st_snap := (st_snap s)\<lparr>sn_updated_at := t1\<rparr>\<rparr>;
          s = (if recordHistory then record_history t2 s else s);
          sn = st_snap s
      in s\<lparr>st_subs := map (\<lambda>(i, q). (i, q @ [sn])) (filter (\<lambda>(i, q). sub_accepts q) (st_subs s)),
           st_closed := st_closed s @ filter (\<lambda>(i, q). \<not> sub_accepts q) (st_subs s),
           st_waiters := map (\<lambda>(i, w). (i, waiter_enqueue sn w)) (st_waiters s)\<rparr>)"

text \<open>\<^verbatim>\<open>apply\<close>, with \<^verbatim>\<open>mutate\<close> (records history) and \<^verbatim>\<open>mutateState\<close> (does not).\<close>

definition apply_store :: "time \<Rightarrow> time \<Rightarrow> (snapshot \<Rightarrow> snapshot) \<Rightarrow> bool \<Rightarrow> store \<Rightarrow> store" where
  "apply_store t1 t2 f recordHistory s = publishLocked t1 t2 recordHistory (s\<lparr>st_snap := f (st_snap s)\<rparr>)"

definition mutate :: "time \<Rightarrow> time \<Rightarrow> (snapshot \<Rightarrow> snapshot) \<Rightarrow> store \<Rightarrow> store" where
  "mutate t1 t2 f s = apply_store t1 t2 f True s"

definition mutateState :: "time \<Rightarrow> (snapshot \<Rightarrow> snapshot) \<Rightarrow> store \<Rightarrow> store" where
  "mutateState t1 f s = apply_store t1 0 f False s"

definition SetBattery :: "time \<Rightarrow> time \<Rightarrow> battery \<Rightarrow> store \<Rightarrow> store" where
  "SetBattery t1 t2 b = mutate t1 t2 (\<lambda>sn. sn\<lparr>sn_battery := Some b\<rparr>)"

definition SetDC :: "time \<Rightarrow> time \<Rightarrow> dc_port \<Rightarrow> store \<Rightarrow> store" where
  "SetDC t1 t2 d = mutate t1 t2 (\<lambda>sn. sn\<lparr>sn_dc := Some d\<rparr>)"

definition SetTypeC :: "time \<Rightarrow> time \<Rightarrow> typec_port \<Rightarrow> store \<Rightarrow> store" where
  "SetTypeC t1 t2 c = mutate t1 t2 (\<lambda>sn. sn\<lparr>sn_typec := Some c\<rparr>)"

definition SetConnected :: "time \<Rightarrow> time \<Rightarrow> bool \<Rightarrow> store \<Rightarrow> store" where
  "SetConnected t1 t2 v = mutate t1 t2 (\<lambda>sn. sn\<lparr>sn_connected := v\<rparr>)"

definition SetIdentity :: "time \<Rightarrow> identity \<Rightarrow> store \<Rightarrow> store" where
  "SetIdentity t1 i = mutateState t1 (\<lambda>sn. sn\<lparr>sn_device := Some i\<rparr>)"

definition SetConnection :: "time \<Rightarrow> connection \<Rightarrow> store \<Rightarrow> store" where
  "SetConnection t1 c = mutateState t1 (\<lambda>sn. sn\<lparr>sn_connection := Some c\<rparr>)"

section \<open>Commands\<close>

definition BeginCommand :: "time \<Rightarrow> time \<Rightarrow> command \<Rightarrow> store \<Rightarrow> store" where
  "BeginCommand now t1 c s =
     (let c = c\<lparr>cmd_phase := CommandPending\<rparr>;
          c = (if is_zero (cmd_started_at c) then c\<lparr>cmd_started_at := now\<rparr> else c);
          c = (if is_zero (cmd_updated_at c) then c\<lparr>cmd_updated_at := now\<rparr> else c)
      in mutateState t1 (\<lambda>sn. sn\<lparr>sn_pending := AList.update (cmd_id c) c (sn_pending sn)\<rparr>) s)"

definition isTerminalCommandPhase :: "string \<Rightarrow> bool" where
  "isTerminalCommandPhase phase \<longleftrightarrow>
     phase = CommandConfirmed \<or> phase = CommandTimeout \<or> phase = CommandFailed"

definition append_recent :: "snapshot \<Rightarrow> command \<Rightarrow> snapshot" where
  "append_recent sn c = sn\<lparr>sn_recent := push_capped recentCommandCap (sn_recent sn) c\<rparr>"

definition FinishCommand ::
    "time \<Rightarrow> time \<Rightarrow> string \<Rightarrow> string \<Rightarrow> anyval \<Rightarrow> command_error option \<Rightarrow> store \<Rightarrow>
     store \<times> command option" where
  "FinishCommand now t1 i phase observed err s =
     (if \<not> isTerminalCommandPhase phase then (s, None)
      else case map_of (sn_pending (st_snap s)) i of
        None \<Rightarrow> (s, None)
      | Some c \<Rightarrow>
          let c = c\<lparr>cmd_phase := phase, cmd_observed := observed, cmd_updated_at := now, cmd_error := err\<rparr>;
              sn = st_snap s;
              sn = append_recent (sn\<lparr>sn_pending := AList.delete i (sn_pending sn)\<rparr>) c
          in (publishLocked t1 0 False (s\<lparr>st_snap := sn\<rparr>), Some c))"

section \<open>Subscribers and waiters\<close>

definition SubscribeWithSnapshot :: "nat \<Rightarrow> store \<Rightarrow> store \<times> snapshot" where
  "SubscribeWithSnapshot i s = (s\<lparr>st_subs := (i, []) # st_subs s\<rparr>, st_snap s)"

text \<open>The cancel function: drain and close, once, if the subscriber is still registered.\<close>

definition cancel_subscription :: "nat \<Rightarrow> store \<Rightarrow> store" where
  "cancel_subscription i s =
     (if i \<in> fst ` set (st_subs s)
      then s\<lparr>st_subs := AList.delete i (st_subs s), st_closed := st_closed s @ [(i, [])]\<rparr>
      else s)"

lemma cancel_removes: "i \<notin> fst ` set (st_subs (cancel_subscription i s))"
  by (auto simp: cancel_subscription_def AList.delete_eq)

text \<open>A receive on the channel: \<open>None\<close> blocks, \<open>Some None\<close> reports the closed channel.\<close>

definition sub_receive :: "nat \<Rightarrow> store \<Rightarrow> store \<times> snapshot option option" where
  "sub_receive i s = (case map_of (st_subs s) i of
      Some (sn # rest) \<Rightarrow> (s\<lparr>st_subs := AList.update i rest (st_subs s)\<rparr>, Some (Some sn))
    | Some [] \<Rightarrow> (s, None)
    | None \<Rightarrow> (case map_of (st_closed s) i of
        Some (sn # rest) \<Rightarrow> (s\<lparr>st_closed := AList.update i rest (st_closed s)\<rparr>, Some (Some sn))
      | Some [] \<Rightarrow> (s, Some None)
      | None \<Rightarrow> (s, None)))"

text \<open>\<^verbatim>\<open>Wait\<close>: registration with the initial snapshot, one attempt to take the next snapshot, and the
  deferred removal; the loop returns the first snapshot that satisfies the predicate.\<close>

definition wait_register :: "nat \<Rightarrow> store \<Rightarrow> store \<times> snapshot" where
  "wait_register i s =
     (s\<lparr>st_waiters := (i, \<lparr>w_queue = [], w_ready = False\<rparr>) # st_waiters s\<rparr>, st_snap s)"

definition wait_next :: "nat \<Rightarrow> store \<Rightarrow> store \<times> snapshot option" where
  "wait_next i s = (case map_of (st_waiters s) i of
      None \<Rightarrow> (s, None)
    | Some w \<Rightarrow> (let (w', r) = waiter_next w in (s\<lparr>st_waiters := AList.update i w' (st_waiters s)\<rparr>, r)))"

definition wait_remove :: "nat \<Rightarrow> store \<Rightarrow> store" where
  "wait_remove i s = s\<lparr>st_waiters := AList.delete i (st_waiters s)\<rparr>"

text \<open>The loop of \<^verbatim>\<open>Wait\<close> over the snapshots it is given in order; \<open>None\<close> when they run out, which is
  when it keeps waiting until its context ends.\<close>

fun wait_loop :: "(snapshot \<Rightarrow> bool) \<Rightarrow> snapshot list \<Rightarrow> snapshot option" where
  "wait_loop predicate [] = None"
| "wait_loop predicate (sn # rest) = (if predicate sn then Some sn else wait_loop predicate rest)"

section \<open>Frame facts\<close>

lemma record_history_frame [simp]:
  "st_snap (record_history t s) = st_snap s" "st_subs (record_history t s) = st_subs s"
  "st_closed (record_history t s) = st_closed s" "st_waiters (record_history t s) = st_waiters s"
  by (simp_all add: record_history_def append_history_def Let_def)

lemma publish_snap [simp]: "st_snap (publishLocked t1 t2 r s) = (st_snap s)\<lparr>sn_updated_at := t1\<rparr>"
  by (simp add: publishLocked_def Let_def)

lemma publish_subs:
  "st_subs (publishLocked t1 t2 r s) =
     map (\<lambda>(i, q). (i, q @ [st_snap (publishLocked t1 t2 r s)])) (filter (\<lambda>(i, q). sub_accepts q) (st_subs s))"
  "st_closed (publishLocked t1 t2 r s) = st_closed s @ filter (\<lambda>(i, q). \<not> sub_accepts q) (st_subs s)"
  "st_waiters (publishLocked t1 t2 r s) =
     map (\<lambda>(i, w). (i, waiter_enqueue (st_snap (publishLocked t1 t2 r s)) w)) (st_waiters s)"
  by (simp_all add: publishLocked_def Let_def)

lemma publish_history:
  "st_history (publishLocked t1 t2 r s) =
     (if r \<and> truncate_minute t2 \<noteq> st_last_min s
      then push_capped historyCap (st_history s)
        (make_point (truncate_minute t2) ((st_snap s)\<lparr>sn_updated_at := t1\<rparr>))
      else st_history s)"
  "st_last_min (publishLocked t1 t2 r s) = (if r then truncate_minute t2 else st_last_min s)"
  by (simp_all add: publishLocked_def Let_def record_history_def append_history_def)

lemmas store_setters =
  mutate_def mutateState_def SetBattery_def SetDC_def SetTypeC_def SetConnected_def
  SetIdentity_def SetConnection_def

text \<open>The bounded logs of the package satisfy the contract of a bounded log.\<close>

interpretation history_log: bounded_log st_history append_history historyCap
  by unfold_locales (simp add: append_history_def)

interpretation recent_log: bounded_log sn_recent append_recent recentCommandCap
  by unfold_locales (simp add: append_recent_def)

section \<open>Steps and the store invariant\<close>

text \<open>Identifiers of subscribers and waiters are fresh, as the pointers of the code are.\<close>

inductive store_step :: "store \<Rightarrow> store \<Rightarrow> bool" where
  battery: "store_step s (SetBattery t1 t2 b s)"
| dc: "store_step s (SetDC t1 t2 d s)"
| typec: "store_step s (SetTypeC t1 t2 c s)"
| connected: "store_step s (SetConnected t1 t2 v s)"
| ident: "store_step s (SetIdentity t1 i s)"
| conn: "store_step s (SetConnection t1 c s)"
| begin_cmd: "store_step s (BeginCommand t0 t1 c s)"
| finish_cmd: "store_step s (fst (FinishCommand t0 t1 i phase obs err s))"
| subscribe: "i \<notin> fst ` set (st_subs s) \<Longrightarrow> i \<notin> fst ` set (st_closed s) \<Longrightarrow>
    store_step s (fst (SubscribeWithSnapshot i s))"
| cancel: "store_step s (cancel_subscription i s)"
| receive: "store_step s (fst (sub_receive i s))"
| register: "i \<notin> fst ` set (st_waiters s) \<Longrightarrow> store_step s (fst (wait_register i s))"
| take_next: "store_step s (fst (wait_next i s))"
| remove: "store_step s (wait_remove i s)"

inductive store_reach :: "store \<Rightarrow> bool" where
  init: "store_reach NewStore"
| step: "store_reach s \<Longrightarrow> store_step s s' \<Longrightarrow> store_reach s'"

definition waiter_inv :: "waiter \<Rightarrow> bool" where
  "waiter_inv w \<longleftrightarrow> (w_queue w \<noteq> [] \<longrightarrow> w_ready w)"

definition commands_inv :: "snapshot \<Rightarrow> bool" where
  "commands_inv sn \<longleftrightarrow> distinct (map fst (sn_pending sn)) \<and>
     (\<forall>(i, c) \<in> set (sn_pending sn). cmd_id c = i \<and> cmd_phase c = CommandPending) \<and>
     (\<forall>c \<in> set (sn_recent sn). isTerminalCommandPhase (cmd_phase c)) \<and>
     length (sn_recent sn) \<le> recentCommandCap"

definition queues_inv :: "store \<Rightarrow> bool" where
  "queues_inv s \<longleftrightarrow> distinct (map fst (st_subs s @ st_closed s)) \<and>
     (\<forall>(i, q) \<in> set (st_subs s @ st_closed s). length q \<le> subscriberCap) \<and>
     distinct (map fst (st_waiters s)) \<and> (\<forall>(i, w) \<in> set (st_waiters s). waiter_inv w)"

definition store_inv :: "store \<Rightarrow> bool" where
  "store_inv s \<longleftrightarrow> length (st_history s) \<le> historyCap \<and> commands_inv (st_snap s) \<and> queues_inv s"

lemma waiter_inv_enqueue: "waiter_inv (waiter_enqueue sn w)"
  by (simp add: waiter_inv_def waiter_enqueue_def)

lemma waiter_inv_next: "waiter_inv w \<Longrightarrow> waiter_inv (fst (waiter_next w))"
  by (auto simp: waiter_inv_def waiter_next_def split: list.splits)

lemma queues_inv_publish:
  assumes "queues_inv s" shows "queues_inv (publishLocked t1 t2 r s)"
proof -
  have "distinct (map fst (map (\<lambda>(i, q). (i, q @ [st_snap (publishLocked t1 t2 r s)]))
      (filter (\<lambda>(i, q). sub_accepts q) (st_subs s)) @ st_closed s @
      filter (\<lambda>x. \<not> (case x of (i, q) \<Rightarrow> sub_accepts q)) (st_subs s)))"
    using assms by (intro distinct_keys_split) (simp add: queues_inv_def)
  then have keys: "distinct (map fst (st_subs (publishLocked t1 t2 r s) @
      st_closed (publishLocked t1 t2 r s)))"
    unfolding publish_subs filter_not_snd .
  have "\<forall>(i, q) \<in> set (st_subs (publishLocked t1 t2 r s) @ st_closed (publishLocked t1 t2 r s)).
      length q \<le> subscriberCap"
    using assms by (auto simp: publish_subs queues_inv_def sub_accepts_def Suc_le_eq)
  with keys show ?thesis
    using assms unfolding queues_inv_def by (auto simp: publish_subs(3) waiter_inv_enqueue)
qed

lemma queues_inv_snap [simp]: "queues_inv (s\<lparr>st_snap := sn\<rparr>) = queues_inv s"
  by (simp add: queues_inv_def)

lemma store_inv_publish:
  assumes "store_inv s" "commands_inv sn"
  shows "store_inv (publishLocked t1 t2 r (s\<lparr>st_snap := sn\<rparr>))"
proof -
  have "commands_inv (sn\<lparr>sn_updated_at := t1\<rparr>)"
    using assms(2) by (simp add: commands_inv_def)
  then show ?thesis
    using assms by (simp add: store_inv_def publish_history queues_inv_publish)
qed

lemma commands_inv_telemetry [simp]:
  "commands_inv (sn\<lparr>sn_battery := b\<rparr>) = commands_inv sn"
  "commands_inv (sn\<lparr>sn_dc := d\<rparr>) = commands_inv sn"
  "commands_inv (sn\<lparr>sn_typec := c\<rparr>) = commands_inv sn"
  "commands_inv (sn\<lparr>sn_connected := v\<rparr>) = commands_inv sn"
  "commands_inv (sn\<lparr>sn_device := i\<rparr>) = commands_inv sn"
  "commands_inv (sn\<lparr>sn_connection := n\<rparr>) = commands_inv sn"
  by (simp_all add: commands_inv_def)

lemma commands_inv_begin:
  assumes "commands_inv sn" "cmd_phase c = CommandPending"
  shows "commands_inv (sn\<lparr>sn_pending := AList.update (cmd_id c) c (sn_pending sn)\<rparr>)"
  using assms set_update_subset [of "cmd_id c" c "sn_pending sn"]
  by (auto simp: commands_inv_def distinct_update)

lemma commands_inv_finish:
  assumes "commands_inv sn" "isTerminalCommandPhase (cmd_phase c)"
  shows "commands_inv (append_recent (sn\<lparr>sn_pending := AList.delete i (sn_pending sn)\<rparr>) c)"
proof -
  have "set (push_capped recentCommandCap (sn_recent sn) c) \<subseteq> insert c (set (sn_recent sn))"
    by (rule set_push_capped)
  then show ?thesis
    using assms by (auto simp: commands_inv_def append_recent_def distinct_delete set_delete)
qed

lemma store_inv_commands: "store_inv s \<Longrightarrow> commands_inv (st_snap s)"
  by (simp add: store_inv_def)

lemma store_inv_BeginCommand: "store_inv s \<Longrightarrow> store_inv (BeginCommand t0 t1 c s)"
  unfolding BeginCommand_def Let_def mutateState_def apply_store_def
  by (intro store_inv_publish commands_inv_begin) (auto simp: store_inv_commands)

lemma store_inv_FinishCommand: "store_inv s \<Longrightarrow> store_inv (fst (FinishCommand t0 t1 i phase obs err s))"
  unfolding FinishCommand_def Let_def
  by (auto split: option.split intro!: store_inv_publish commands_inv_finish simp: store_inv_commands)

lemma store_inv_apply:
  "store_inv s \<Longrightarrow> commands_inv (f (st_snap s)) \<Longrightarrow> store_inv (apply_store t1 t2 f r s)"
  unfolding apply_store_def by (rule store_inv_publish)

lemma store_inv_queues:
  assumes "store_inv s" "queues_inv s \<Longrightarrow> queues_inv s'" "st_history s' = st_history s" "st_snap s' = st_snap s"
  shows "store_inv s'"
  using assms by (simp add: store_inv_def)

text \<open>Shortening the queue of a registered key keeps the queue invariant.\<close>

lemma queue_update_inv:
  assumes "distinct (map fst (xs @ zs))" "\<forall>(i, q) \<in> set xs. length q \<le> n"
    and "map_of xs i = Some q" "length q' \<le> length q"
  shows "distinct (map fst (AList.update i q' xs @ zs)) \<and> (\<forall>(i, q) \<in> set (AList.update i q' xs). length q \<le> n)"
proof -
  have i: "i \<in> fst ` set xs" using assms(3) by (rule map_of_SomeD_fst)
  have "length q \<le> n" using assms(2,3) by (auto dest: map_of_SomeD)
  then show ?thesis
    using assms(1,2,4) set_update_subset [of i q' xs] map_fst_update_mem [OF i, of q'] by fastforce
qed

lemma queues_inv_receive: "queues_inv s \<Longrightarrow> queues_inv (fst (sub_receive i s))"
proof -
  assume inv: "queues_inv s"
  show ?thesis
  proof (cases "map_of (st_subs s) i")
    case (Some q)
    show ?thesis
    proof (cases q)
      case (Cons sn rest)
      then show ?thesis
        using inv Some queue_update_inv [of "st_subs s" "st_closed s" subscriberCap i q rest]
        by (auto simp: sub_receive_def queues_inv_def)
    qed (use inv Some in \<open>simp add: sub_receive_def\<close>)
  next
    case None
    show ?thesis
    proof (cases "map_of (st_closed s) i")
      case (Some q)
      show ?thesis
      proof (cases q)
        case (Cons sn rest)
        have "distinct (map fst (st_closed s @ st_subs s))"
          using inv by (auto simp: queues_inv_def)
        then show ?thesis
          using inv Some None Cons queue_update_inv [of "st_closed s" "st_subs s" subscriberCap i q rest]
          by (auto simp: sub_receive_def queues_inv_def)
      qed (use inv Some None in \<open>simp add: sub_receive_def\<close>)
    qed (use inv None in \<open>simp add: sub_receive_def\<close>)
  qed
qed

lemma queues_inv_cancel: "queues_inv s \<Longrightarrow> queues_inv (cancel_subscription i s)"
  by (auto simp: queues_inv_def cancel_subscription_def distinct_delete set_delete)

lemma queues_inv_wait_next: "queues_inv s \<Longrightarrow> queues_inv (fst (wait_next i s))"
proof -
  assume inv: "queues_inv s"
  show ?thesis
  proof (cases "map_of (st_waiters s) i")
    case None
    with inv show ?thesis by (simp add: wait_next_def)
  next
    case (Some w)
    let ?w = "fst (waiter_next w)"
    have "waiter_inv w" using inv Some by (auto simp: queues_inv_def dest: map_of_SomeD)
    then have "waiter_inv ?w" by (rule waiter_inv_next)
    moreover have "fst (wait_next i s) = s\<lparr>st_waiters := AList.update i ?w (st_waiters s)\<rparr>"
      using Some by (simp add: wait_next_def split: prod.split)
    moreover have "set (AList.update i ?w (st_waiters s)) \<subseteq> insert (i, ?w) (set (st_waiters s))"
      by (rule set_update_subset)
    ultimately show ?thesis using inv by (auto simp: queues_inv_def distinct_update)
  qed
qed

lemma store_inv_subscribe:
  assumes "store_inv s" "i \<notin> fst ` set (st_subs s)" "i \<notin> fst ` set (st_closed s)"
  shows "store_inv (fst (SubscribeWithSnapshot i s))"
proof (rule store_inv_queues [OF assms(1)])
  assume "queues_inv s"
  with assms(2,3) show "queues_inv (fst (SubscribeWithSnapshot i s))"
    by (simp add: SubscribeWithSnapshot_def queues_inv_def)
qed (simp_all add: SubscribeWithSnapshot_def)

lemma store_inv_cancel: "store_inv s \<Longrightarrow> store_inv (cancel_subscription i s)"
  by (erule store_inv_queues, erule queues_inv_cancel) (simp_all add: cancel_subscription_def)

lemma store_inv_receive: "store_inv s \<Longrightarrow> store_inv (fst (sub_receive i s))"
  by (erule store_inv_queues, erule queues_inv_receive)
    (simp_all add: sub_receive_def split: option.split list.split)

lemma store_inv_register:
  assumes "store_inv s" "i \<notin> fst ` set (st_waiters s)"
  shows "store_inv (fst (wait_register i s))"
proof (rule store_inv_queues [OF assms(1)])
  assume "queues_inv s"
  with assms(2) show "queues_inv (fst (wait_register i s))"
    by (simp add: wait_register_def queues_inv_def waiter_inv_def)
qed (simp_all add: wait_register_def)

lemma store_inv_wait_next: "store_inv s \<Longrightarrow> store_inv (fst (wait_next i s))"
  by (erule store_inv_queues, erule queues_inv_wait_next)
    (simp_all add: wait_next_def split: option.split prod.split)

lemma store_inv_remove: "store_inv s \<Longrightarrow> store_inv (wait_remove i s)"
proof (erule store_inv_queues)
  assume "queues_inv s"
  then show "queues_inv (wait_remove i s)"
    by (auto simp: wait_remove_def queues_inv_def distinct_delete set_delete)
qed (simp_all add: wait_remove_def)

lemmas store_inv_ops =
  store_inv_BeginCommand store_inv_FinishCommand store_inv_subscribe store_inv_cancel
  store_inv_receive store_inv_register store_inv_wait_next store_inv_remove

lemma store_step_inv: "store_step s s' \<Longrightarrow> store_inv s \<Longrightarrow> store_inv s'"
proof (induction rule: store_step.induct)
  case (subscribe i s)
  then show ?case by (intro store_inv_subscribe)
next
  case (register i s)
  then show ?case by (intro store_inv_register)
qed (simp_all only: store_inv_ops store_setters store_inv_apply store_inv_commands
    commands_inv_telemetry)

lemma store_reach_inv: "store_reach s \<Longrightarrow> store_inv s"
proof (induction rule: store_reach.induct)
  case init
  show ?case by (simp add: store_inv_def NewStore_def commands_inv_def queues_inv_def zero_snapshot_def)
next
  case (step s s')
  then show ?case by (blast intro: store_step_inv)
qed

text \<open>C27. In every state that the store reaches by any sequence of its operations, from any goroutine,
  the history has at most 1440 points and the recent commands are at most 32, all of them finished;
  pending commands are exactly the unfinished ones, one per identifier; and every subscriber, open or
  closed, has at most 128 undelivered snapshots.\<close>

theorem store_bounds:
  assumes "store_reach s"
  shows "length (st_history s) \<le> 1440 \<and> length (sn_recent (st_snap s)) \<le> 32 \<and>
     list_all (\<lambda>c. isTerminalCommandPhase (cmd_phase c)) (sn_recent (st_snap s)) \<and>
     distinct (map fst (sn_pending (st_snap s))) \<and>
     list_all (\<lambda>(i, c). cmd_id c = i \<and> cmd_phase c = CommandPending) (sn_pending (st_snap s)) \<and>
     list_all (\<lambda>(i, q). length q \<le> 128) (st_subs s @ st_closed s)"
proof -
  have inv: "store_inv s" using assms by (rule store_reach_inv)
  then have c: "commands_inv (st_snap s)" and q: "queues_inv s"
    by (simp_all add: store_inv_def)
  show ?thesis
    using inv c q unfolding store_inv_def commands_inv_def queues_inv_def list_all_iff by blast
qed

theorem store_bounds_witness:
  "length (sn_recent (st_snap (fst (FinishCommand 5 6 ''x'' ''confirmed'' AnyNil None
     (SetConnected 1 2 True NewStore))))) \<le> 32"
proof -
  have "store_reach (SetConnected 1 2 True NewStore)"
    by (rule store_reach.step [OF store_reach.init store_step.connected])
  then have "store_reach (fst (FinishCommand 5 6 ''x'' ''confirmed'' AnyNil None
     (SetConnected 1 2 True NewStore)))"
    by (rule store_reach.step) (rule store_step.finish_cmd)
  from store_bounds [OF this] show ?thesis by blast
qed

section \<open>Command lifecycle\<close>

lemma BeginCommand_pending:
  "\<exists>c'. map_of (sn_pending (st_snap (BeginCommand t0 t1 c s))) (cmd_id c) = Some c' \<and>
     cmd_operation c' = cmd_operation c \<and> cmd_requested c' = cmd_requested c \<and> cmd_id c' = cmd_id c"
proof -
  define c1 where "c1 = c\<lparr>cmd_phase := CommandPending\<rparr>"
  define c2 where "c2 = (if is_zero (cmd_started_at c1) then c1\<lparr>cmd_started_at := t0\<rparr> else c1)"
  define c3 where "c3 = (if is_zero (cmd_updated_at c2) then c2\<lparr>cmd_updated_at := t0\<rparr> else c2)"
  have "BeginCommand t0 t1 c s = mutateState t1 (\<lambda>sn. sn\<lparr>sn_pending := AList.update (cmd_id c3) c3 (sn_pending sn)\<rparr>) s"
    unfolding BeginCommand_def Let_def c1_def [symmetric] c2_def [symmetric] c3_def [symmetric] ..
  moreover have "cmd_id c3 = cmd_id c \<and> cmd_operation c3 = cmd_operation c \<and> cmd_requested c3 = cmd_requested c"
    by (simp add: c1_def c2_def c3_def)
  ultimately show ?thesis by (simp add: mutateState_def apply_store_def)
qed

lemma FinishCommand_done:
  assumes "isTerminalCommandPhase phase" "map_of (sn_pending (st_snap s)) i = Some c"
  shows "FinishCommand t0 t1 i phase obs err s =
    (publishLocked t1 0 False (s\<lparr>st_snap := append_recent
        ((st_snap s)\<lparr>sn_pending := AList.delete i (sn_pending (st_snap s))\<rparr>)
        (c\<lparr>cmd_phase := phase, cmd_observed := obs, cmd_updated_at := t0, cmd_error := err\<rparr>)\<rparr>),
     Some (c\<lparr>cmd_phase := phase, cmd_observed := obs, cmd_updated_at := t0, cmd_error := err\<rparr>))"
  using assms by (simp add: FinishCommand_def Let_def)

lemma finish_effect:
  "map_of (sn_pending (st_snap (publishLocked t1 0 False (s\<lparr>st_snap := append_recent
     (sn\<lparr>sn_pending := AList.delete i (sn_pending sn)\<rparr>) c\<rparr>)))) i = None"
  "last (sn_recent (st_snap (publishLocked t1 0 False (s\<lparr>st_snap := append_recent
     (sn\<lparr>sn_pending := AList.delete i (sn_pending sn)\<rparr>) c\<rparr>)))) = c"
  by (simp_all add: append_recent_def push_capped_last)

lemma FinishCommand_absent:
  "map_of (sn_pending (st_snap s)) i = None \<Longrightarrow> FinishCommand t0 t1 i phase obs err s = (s, None)"
  by (simp add: FinishCommand_def)

text \<open>C28. A command that began finishes exactly once: after \<^verbatim>\<open>BeginCommand\<close>, finishing it with a
  terminal phase returns the command with that phase, the observed value and the error, removes it from
  the pending commands and makes it the newest recent command; a second attempt to finish it, whatever
  its phase, reports that there is nothing to finish and leaves the whole store unchanged.\<close>

theorem command_finishes_once:
  assumes "isTerminalCommandPhase phase"
  shows "\<exists>s' c'. FinishCommand t2 t3 (cmd_id c) phase obs err (BeginCommand t0 t1 c s) = (s', Some c') \<and>
     cmd_phase c' = phase \<and> cmd_observed c' = obs \<and> cmd_error c' = err \<and> cmd_updated_at c' = t2 \<and>
     cmd_operation c' = cmd_operation c \<and>
     map_of (sn_pending (st_snap s')) (cmd_id c) = None \<and>
     last (sn_recent (st_snap s')) = c' \<and>
     FinishCommand t4 t5 (cmd_id c) phase2 obs2 err2 s' = (s', None)"
proof -
  obtain c0 where c0: "map_of (sn_pending (st_snap (BeginCommand t0 t1 c s))) (cmd_id c) = Some c0"
      "cmd_operation c0 = cmd_operation c"
    using BeginCommand_pending [of t0 t1 c s] by auto
  let ?c = "c0\<lparr>cmd_phase := phase, cmd_observed := obs, cmd_updated_at := t2, cmd_error := err\<rparr>"
  obtain s' where s': "FinishCommand t2 t3 (cmd_id c) phase obs err (BeginCommand t0 t1 c s) = (s', Some ?c)"
      and gone: "map_of (sn_pending (st_snap s')) (cmd_id c) = None" and "last (sn_recent (st_snap s')) = ?c"
    using FinishCommand_done [OF assms c0(1)] finish_effect by blast
  moreover have "FinishCommand t4 t5 (cmd_id c) phase2 obs2 err2 s' = (s', None)"
    using gone by (rule FinishCommand_absent)
  ultimately show ?thesis using c0(2)
    by (intro exI [of _ s'] exI [of _ ?c]) simp
qed

definition demo_command :: command where
  "demo_command = \<lparr>cmd_id = ''a'', cmd_operation = ''dc'', cmd_phase = [], cmd_requested = AnyOn True,
     cmd_observed = AnyNil, cmd_started_at = 0, cmd_updated_at = 0, cmd_error = None\<rparr>"

theorem command_finishes_once_witness:
  "\<exists>s' c'. FinishCommand 3 4 ''a'' ''timeout'' AnyNil None (BeginCommand 1 2 demo_command NewStore) = (s', Some c') \<and>
     FinishCommand 5 6 ''a'' ''confirmed'' AnyNil None s' = (s', None)"
proof -
  have i: "cmd_id demo_command = ''a''" by (simp add: demo_command_def)
  have "isTerminalCommandPhase ''timeout''" by (simp add: isTerminalCommandPhase_def)
  from command_finishes_once [OF this, of 3 4 demo_command AnyNil None 1 2 NewStore 5 6 "''confirmed''" AnyNil None]
  show ?thesis unfolding i by blast
qed

section \<open>History\<close>

text \<open>Runs of the store in which the clock read for the history never goes back: \<open>now\<close> is the latest
  reading. Every setter of telemetry is a \<open>mutate\<close>; every other operation publishes without a history
  entry or does not publish.\<close>

inductive clocked_run :: "time \<Rightarrow> store \<Rightarrow> bool" where
  init: "clocked_run 0 NewStore"
| mutate: "clocked_run now s \<Longrightarrow> now \<le> t2 \<Longrightarrow> clocked_run t2 (mutate t1 t2 f s)"
| other: "clocked_run now s \<Longrightarrow> st_history s' = st_history s \<Longrightarrow> st_last_min s' = st_last_min s \<Longrightarrow>
    clocked_run now s'"

lemma sorted_push_capped:
  assumes "sorted_wrt (<) (map f xs)" "\<forall>x \<in> set xs. f x < f y"
  shows "sorted_wrt (<) (map f (push_capped n xs (y::'a)) :: int list)"
proof -
  have "sorted_wrt (<) (map f (xs @ [y]))"
    using assms by (auto simp: sorted_wrt_append)
  then show ?thesis
    unfolding push_capped_eq_drop drop_map [symmetric] by (rule sorted_wrt_drop)
qed

lemma clocked_run_history:
  "clocked_run now s \<Longrightarrow> st_last_min s \<le> truncate_minute now \<and>
     sorted_wrt (<) (map hp_at (st_history s)) \<and> (\<forall>p \<in> set (st_history s). hp_at p \<le> st_last_min s)"
proof (induction rule: clocked_run.induct)
  case init
  show ?case by (simp add: NewStore_def truncate_minute_def)
next
  case (mutate now s t2 t1 f)
  have "truncate_minute now \<le> truncate_minute t2"
    using mutate.hyps(2) by (rule truncate_minute_mono)
  then have le: "st_last_min s \<le> truncate_minute t2" using mutate.IH by simp
  let ?p = "make_point (truncate_minute t2) ((f (st_snap s))\<lparr>sn_updated_at := t1\<rparr>)"
  have at: "hp_at ?p = truncate_minute t2" by (simp add: make_point_def)
  show ?case
  proof (cases "truncate_minute t2 = st_last_min s")
    case True
    then show ?thesis using mutate.IH by (simp add: mutate_def apply_store_def publish_history)
  next
    case False
    then have "\<forall>p \<in> set (st_history s). hp_at p < hp_at ?p" using le mutate.IH at by fastforce
    moreover from this have "\<forall>p \<in> set (push_capped historyCap (st_history s) ?p). hp_at p \<le> truncate_minute t2"
      using set_push_capped [of historyCap "st_history s" ?p] at by fastforce
    ultimately show ?thesis
      using False mutate.IH at
      by (auto simp: mutate_def apply_store_def publish_history intro!: sorted_push_capped)
  qed
qed auto

text \<open>While the clock does not go back, the timestamps of the history are strictly increasing, so
  there is at most one point per minute, and none lies after the minute of the latest clock reading.\<close>

theorem history_one_point_per_minute:
  assumes "clocked_run now s"
  shows "sorted_wrt (<) (map hp_at (st_history s)) \<and>
    list_all (\<lambda>p. hp_at p \<le> truncate_minute now) (st_history s)"
  using clocked_run_history [OF assms] by (fastforce simp: list_all_iff)

theorem history_one_point_per_minute_witness:
  "sorted_wrt (<) (map hp_at (st_history
     (SetConnected 0 200000000000 False (SetConnected 0 100000000000 True NewStore))))"
proof -
  have "clocked_run 200000000000
     (SetConnected 0 200000000000 False (SetConnected 0 100000000000 True NewStore))"
    unfolding SetConnected_def by (rule clocked_run.mutate, rule clocked_run.mutate, rule clocked_run.init) simp_all
  from history_one_point_per_minute [OF this] show ?thesis by blast
qed

section \<open>Subscribers\<close>

text \<open>The life of subscriber \<open>i\<close> as long as it does not cancel: \<open>pubs\<close> are the snapshots published since
  it subscribed, \<open>recv\<close> those it has received.\<close>

inductive sub_run :: "nat \<Rightarrow> snapshot list \<Rightarrow> snapshot list \<Rightarrow> store \<Rightarrow> bool" for i where
  start: "queues_inv s \<Longrightarrow> i \<notin> fst ` set (st_subs s @ st_closed s) \<Longrightarrow>
    sub_run i [] [] (fst (SubscribeWithSnapshot i s))"
| publish: "sub_run i pubs recv s \<Longrightarrow> s' = publishLocked t1 t2 r (s\<lparr>st_snap := sn\<rparr>) \<Longrightarrow>
    sub_run i (pubs @ [st_snap s']) recv s'"
| receive: "sub_run i pubs recv s \<Longrightarrow> sub_receive i s = (s', Some (Some sn)) \<Longrightarrow>
    sub_run i pubs (recv @ [sn]) s'"
| other_receive: "sub_run i pubs recv s \<Longrightarrow> j \<noteq> i \<Longrightarrow> sub_run i pubs recv (fst (sub_receive j s))"
| other_subscribe: "sub_run i pubs recv s \<Longrightarrow> j \<notin> fst ` set (st_subs s @ st_closed s) \<Longrightarrow>
    sub_run i pubs recv (fst (SubscribeWithSnapshot j s))"
| other_cancel: "sub_run i pubs recv s \<Longrightarrow> j \<noteq> i \<Longrightarrow> sub_run i pubs recv (cancel_subscription j s)"

definition sub_view :: "nat \<Rightarrow> snapshot list \<Rightarrow> snapshot list \<Rightarrow> store \<Rightarrow> bool" where
  "sub_view i pubs recv s \<longleftrightarrow> (case map_of (st_subs s) i of
      Some q \<Rightarrow> pubs = recv @ q \<and> length q \<le> 128
    | None \<Rightarrow> (\<exists>q lost. map_of (st_closed s) i = Some q \<and> lost \<noteq> [] \<and> pubs = recv @ q @ lost))"

lemma map_of_append_Some: "map_of (xs @ ys) i = (case map_of xs i of Some v \<Rightarrow> Some v | None \<Rightarrow> map_of ys i)"
  by (simp add: map_add_def map_of_append split: option.split)

lemma map_of_map_snd: "map_of (map (\<lambda>(k, v). (k, f v)) al) i = map_option f (map_of al i)"
  by (induction al) auto

lemma publish_subs_at:
  assumes "distinct (map fst (st_subs s))"
  shows "map_of (st_subs (publishLocked t1 t2 r s)) i =
      (case map_of (st_subs s) i of None \<Rightarrow> None
       | Some q \<Rightarrow> if sub_accepts q then Some (q @ [st_snap (publishLocked t1 t2 r s)]) else None)"
    and "map_of (st_closed (publishLocked t1 t2 r s)) i =
      (case map_of (st_closed s) i of Some q \<Rightarrow> Some q
       | None \<Rightarrow> (case map_of (st_subs s) i of None \<Rightarrow> None | Some q \<Rightarrow> if sub_accepts q then None else Some q))"
  using assms unfolding publish_subs map_of_append_Some map_of_map_snd
  by (simp_all add: map_of_filter_snd split: option.split)

lemma sub_run_queues: "sub_run i pubs recv s \<Longrightarrow> queues_inv s"
proof (induction rule: sub_run.induct)
  case (start s)
  then show ?case by (simp add: SubscribeWithSnapshot_def queues_inv_def image_Un)
next
  case (publish pubs recv s s' t1 t2 r sn)
  then show ?case by (simp add: queues_inv_publish)
next
  case (receive pubs recv s s' sn)
  then show ?case using queues_inv_receive [of s i] by simp
next
  case (other_subscribe pubs recv s j)
  then show ?case by (simp add: SubscribeWithSnapshot_def queues_inv_def image_Un)
qed (simp_all add: queues_inv_receive queues_inv_cancel)

lemma queues_inv_disjoint:
  "queues_inv s \<Longrightarrow> map_of (st_subs s) i = Some q \<Longrightarrow> map_of (st_closed s) i = None"
  by (force simp: queues_inv_def map_of_eq_None_iff dest: map_of_SomeD)

lemma sub_view_publish:
  assumes "sub_view i pubs recv s" "queues_inv s"
  shows "sub_view i (pubs @ [st_snap (publishLocked t1 t2 r s)]) recv (publishLocked t1 t2 r s)"
proof -
  have d: "distinct (map fst (st_subs s))" using assms(2) by (simp add: queues_inv_def)
  show ?thesis
  proof (cases "map_of (st_subs s) i")
    case None
    then show ?thesis
      using assms(1) by (auto simp: sub_view_def publish_subs_at [OF d])
  next
    case (Some q)
    then show ?thesis
      using assms(1) queues_inv_disjoint [OF assms(2) Some]
      by (auto simp: sub_view_def publish_subs_at [OF d] sub_accepts_def)
  qed
qed

lemma sub_view_receive:
  assumes "sub_view i pubs recv s" "sub_receive i s = (s', Some (Some sn))"
  shows "sub_view i pubs (recv @ [sn]) s'"
proof (cases "map_of (st_subs s) i")
  case None
  then show ?thesis
    using assms by (auto simp: sub_view_def sub_receive_def split: option.splits list.splits)
next
  case (Some q)
  then show ?thesis
    using assms by (auto simp: sub_view_def sub_receive_def split: list.splits)
qed

lemma sub_view_other:
  "j \<noteq> i \<Longrightarrow> sub_view i pubs recv (fst (sub_receive j s)) = sub_view i pubs recv s"
  "j \<noteq> i \<Longrightarrow> sub_view i pubs recv (fst (SubscribeWithSnapshot j s)) = sub_view i pubs recv s"
  "j \<noteq> i \<Longrightarrow> sub_view i pubs recv (cancel_subscription j s) = sub_view i pubs recv s"
  by (auto simp: sub_view_def sub_receive_def SubscribeWithSnapshot_def cancel_subscription_def
      map_of_append_Some split: option.split list.split)

lemma sub_run_registered: "sub_run i pubs recv s \<Longrightarrow> i \<in> fst ` set (st_subs s @ st_closed s)"
proof (induction rule: sub_run.induct)
  case (publish pubs recv s s' t1 t2 r sn)
  then show ?case by (auto simp: publish_subs image_Un image_iff)
next
  case (receive pubs recv s s' sn)
  then show ?case by (auto simp: sub_receive_def image_Un split: option.splits list.splits)
next
  case (other_receive pubs recv s j)
  then show ?case by (auto simp: sub_receive_def image_Un split: option.splits list.splits)
qed (auto simp: SubscribeWithSnapshot_def cancel_subscription_def image_Un)

lemma sub_run_view: "sub_run i pubs recv s \<Longrightarrow> sub_view i pubs recv s"
proof (induction rule: sub_run.induct)
  case (start s)
  show ?case by (simp add: sub_view_def SubscribeWithSnapshot_def)
next
  case (publish pubs recv s s' t1 t2 r sn)
  have "sub_view i pubs recv (s\<lparr>st_snap := sn\<rparr>)"
    using publish.IH by (simp add: sub_view_def cong: option.case_cong)
  moreover have "queues_inv (s\<lparr>st_snap := sn\<rparr>)"
    using sub_run_queues [OF publish.hyps(1)] by simp
  ultimately show ?case unfolding publish.hyps(2) by (rule sub_view_publish)
next
  case (other_subscribe pubs recv s j)
  then have "j \<noteq> i" using sub_run_registered [OF other_subscribe.hyps(1)] by auto
  with other_subscribe show ?case by (simp add: sub_view_other)
qed (simp_all add: sub_view_receive sub_view_other)

text \<open>A subscriber never sees a gap, a duplicate or a reordering: as long as it is registered, what it
  has received followed by what is queued for it is exactly the sequence of snapshots published since it
  subscribed, with at most 128 of them queued; once the store dropped it because it fell behind, what it
  received and can still receive is a proper prefix of that sequence.\<close>

theorem subscriber_stream:
  assumes "sub_run i pubs recv s"
  shows "case map_of (st_subs s) i of
      Some q \<Rightarrow> pubs = recv @ q \<and> length q \<le> 128
    | None \<Rightarrow> (\<exists>q lost. map_of (st_closed s) i = Some q \<and> lost \<noteq> [] \<and> pubs = recv @ q @ lost)"
  using sub_run_view [OF assms] by (simp add: sub_view_def)

theorem subscriber_stream_witness:
  "\<exists>sn. map_of (st_subs (publishLocked 1 2 False (fst (SubscribeWithSnapshot 7 NewStore)))) 7 = Some [sn]"
proof -
  let ?s = "publishLocked 1 2 False (fst (SubscribeWithSnapshot 7 NewStore))"
  have s: "?s = publishLocked 1 2 False ((fst (SubscribeWithSnapshot 7 NewStore))\<lparr>st_snap := zero_snapshot\<rparr>)"
    by (simp add: SubscribeWithSnapshot_def NewStore_def)
  have "sub_run 7 [] [] (fst (SubscribeWithSnapshot 7 NewStore))"
    by (rule sub_run.start) (simp_all add: NewStore_def queues_inv_def)
  then have "sub_run 7 ([] @ [st_snap ?s]) [] ?s" using s by (rule sub_run.publish)
  from subscriber_stream [OF this] show ?thesis
    by (simp add: publish_subs SubscribeWithSnapshot_def NewStore_def sub_accepts_def)
qed

section \<open>Waiters\<close>

text \<open>The life of waiter \<open>i\<close>: \<open>pubs\<close> are the snapshots published since it registered, \<open>taken\<close> those
  that \<^verbatim>\<open>next\<close> has returned.\<close>

inductive wait_run :: "nat \<Rightarrow> snapshot list \<Rightarrow> snapshot list \<Rightarrow> store \<Rightarrow> bool" for i where
  start: "wait_run i [] [] (fst (wait_register i s))"
| publish: "wait_run i pubs taken s \<Longrightarrow> s' = publishLocked t1 t2 r (s\<lparr>st_snap := sn\<rparr>) \<Longrightarrow>
    wait_run i (pubs @ [st_snap s']) taken s'"
| take_next: "wait_run i pubs taken s \<Longrightarrow> wait_next i s = (s', r) \<Longrightarrow>
    wait_run i pubs (case r of None \<Rightarrow> taken | Some sn \<Rightarrow> taken @ [sn]) s'"
| other: "wait_run i pubs taken s \<Longrightarrow> map_of (st_waiters s') i = map_of (st_waiters s) i \<Longrightarrow>
    wait_run i pubs taken s'"

lemma wait_run_queue:
  "wait_run i pubs taken s \<Longrightarrow>
     \<exists>w. map_of (st_waiters s) i = Some w \<and> pubs = taken @ w_queue w \<and> waiter_inv w"
proof (induction rule: wait_run.induct)
  case (start s)
  show ?case by (simp add: wait_register_def waiter_inv_def)
next
  case (publish pubs taken s s' t1 t2 r sn)
  then show ?case
    by (auto simp: publish_subs(3) map_of_map_snd waiter_enqueue_def waiter_inv_def)
next
  case (take_next pubs taken s s' r)
  then show ?case
    by (fastforce simp: wait_next_def waiter_next_def waiter_inv_def split: if_splits list.splits)
qed simp

lemma wait_loop_find: "wait_loop P sns = find P sns"
  by (induction sns) auto

text \<open>C39. \<^verbatim>\<open>Wait\<close> loses no wake-up: as long as a published snapshot has not been taken, the next attempt
  does not block and takes the oldest such snapshot, so the snapshots a waiter examines are, in order,
  those published since it registered.\<close>

theorem wait_no_lost_wakeup:
  assumes "wait_run i pubs taken s" and "length taken < length pubs"
  shows "snd (wait_next i s) = Some (pubs ! length taken) \<and> take (length taken) pubs = taken"
proof -
  obtain w where w: "map_of (st_waiters s) i = Some w" "pubs = taken @ w_queue w" "waiter_inv w"
    using wait_run_queue [OF assms(1)] by auto
  then show ?thesis
    using assms(2) by (cases "w_queue w") (auto simp: wait_next_def waiter_next_def waiter_inv_def)
qed

theorem wait_no_lost_wakeup_witness:
  "\<exists>sn. snd (wait_next 3 (publishLocked 1 2 False ((fst (wait_register 3 NewStore))\<lparr>st_snap := zero_snapshot\<rparr>))) = Some sn"
proof -
  let ?s = "publishLocked 1 2 False ((fst (wait_register 3 NewStore))\<lparr>st_snap := zero_snapshot\<rparr>)"
  have "wait_run 3 ([] @ [st_snap ?s]) [] ?s"
    by (rule wait_run.publish [OF wait_run.start refl])
  from wait_no_lost_wakeup [OF this] show ?thesis by simp
qed

end
