(* ===== verification/Rules.thy ===== *)
theory Rules
  imports State_Store
begin

text \<open>
  The automation rules: the \<^verbatim>\<open>Rule\<close> type and its validation (\<^verbatim>\<open>internal/config/config.go\<close>) and the engine
  that evaluates the rules on every tick (\<^verbatim>\<open>internal/rules/engine.go\<close>).

  The cron library is not part of the repository: it is the argument \<open>cron\<close>, which maps an expression to
  an error or to the \<^verbatim>\<open>Next\<close> method of its schedule. The engine's operations hold its mutex, so each is
  one atomic function of the engine's states.
\<close>

section \<open>Rules\<close>

record Rule =
  r_name :: string
  r_enabled :: bool
  r_condition :: string
  r_state :: string
  r_op :: string
  r_port :: string
  r_percent :: int
  r_watts :: float64
  r_temp_c :: float64
  r_hold :: duration
  r_repeat_every :: duration
  r_hysteresis_margin :: int
  r_cron :: string
  r_actions :: "string list"
  r_confirm_shutdown :: bool

type_synonym schedule = "time \<Rightarrow> time"
type_synonym cron_parser = "string \<Rightarrow> string + schedule"

text \<open>Go's \<^verbatim>\<open>int\<close> has 64 bits; sums that could leave the range wrap around.\<close>

definition int64_wrap :: "int \<Rightarrow> int" where
  "int64_wrap n = (n + 2 ^ 63) mod 2 ^ 64 - 2 ^ 63"

datatype rule_error =
    NameRequired | InputPowerState | BatteryLevelOp | PortPowerFields | TemperatureOp
  | CronMissing | CronInvalid string string | UnknownCondition string | NoActions | ShutdownUnconfirmed

definition hasShutdown :: "string list \<Rightarrow> bool" where
  "hasShutdown actions \<longleftrightarrow> list_ex (\<lambda>a. a = ''shutdown'') actions"

definition below_or_above :: "string \<Rightarrow> bool" where
  "below_or_above op \<longleftrightarrow> op = ''below'' \<or> op = ''above''"

definition validate_condition :: "cron_parser \<Rightarrow> Rule \<Rightarrow> rule_error option" where
  "validate_condition cron r =
     (if r_condition r = ''input_power'' then
        if r_state r \<noteq> ''present'' \<and> r_state r \<noteq> ''absent'' then Some InputPowerState else None
      else if r_condition r = ''battery_level'' then
        if \<not> below_or_above (r_op r) then Some BatteryLevelOp else None
      else if r_condition r = ''port_power'' then
        if \<not> below_or_above (r_op r) \<or> (r_port r \<noteq> ''dc'' \<and> r_port r \<noteq> ''usbc'') then Some PortPowerFields
        else None
      else if r_condition r = ''temperature'' then
        if \<not> below_or_above (r_op r) then Some TemperatureOp else None
      else if r_condition r = ''schedule'' then
        if r_cron r = [] then Some CronMissing
        else (case cron (r_cron r) of Inl e \<Rightarrow> Some (CronInvalid (r_cron r) e) | Inr _ \<Rightarrow> None)
      else Some (UnknownCondition (r_condition r)))"

definition Rule_Validate :: "cron_parser \<Rightarrow> Rule \<Rightarrow> rule_error option" where
  "Rule_Validate cron r =
     (if r_name r = [] then Some NameRequired
      else case validate_condition cron r of
        Some e \<Rightarrow> Some e
      | None \<Rightarrow>
          if r_actions r = [] then Some NoActions
          else if hasShutdown (r_actions r) \<and> \<not> r_confirm_shutdown r then Some ShutdownUnconfirmed
          else None)"

section \<open>Engine state\<close>

record ruleState =
  rs_rule :: Rule
  rs_sched :: "schedule option"
  rs_next_cron :: time
  rs_hold_start :: time
  rs_armed :: bool
  rs_last_fired :: time

type_synonym engine = "ruleState list"

record Firing =
  f_rule :: Rule
  f_at :: time

text \<open>\<^verbatim>\<open>build\<close>: the first rule whose cron expression does not parse fails the whole call.\<close>

fun build :: "cron_parser \<Rightarrow> Rule list \<Rightarrow> (string \<times> string) + engine" where
  "build cron [] = Inr []"
| "build cron (r # rules) =
     (let st = \<lparr>rs_rule = r, rs_sched = None, rs_next_cron = 0, rs_hold_start = 0, rs_armed = True,
                rs_last_fired = 0\<rparr>
      in case (if r_condition r = ''schedule''
               then (case cron (r_cron r) of
                       Inl e \<Rightarrow> Inl (r_name r, e)
                     | Inr s \<Rightarrow> Inr (st\<lparr>rs_sched := Some s\<rparr>))
               else Inr st) of
        Inl e \<Rightarrow> Inl e
      | Inr st \<Rightarrow> (case build cron rules of Inl e \<Rightarrow> Inl e | Inr sts \<Rightarrow> Inr (st # sts)))"

definition NewEngine :: "cron_parser \<Rightarrow> Rule list \<Rightarrow> (string \<times> string) + engine" where
  "NewEngine cron rules = build cron rules"

text \<open>The map \<^verbatim>\<open>old\<close> of \<^verbatim>\<open>SetRules\<close>: of several states of one name the last one wins.\<close>

definition old_state :: "engine \<Rightarrow> string \<Rightarrow> ruleState option" where
  "old_state e name = map_of (rev (map (\<lambda>s. (r_name (rs_rule s), s)) e)) name"

definition carry_over :: "engine \<Rightarrow> ruleState \<Rightarrow> ruleState" where
  "carry_over e s = (case old_state e (r_name (rs_rule s)) of
      None \<Rightarrow> s
    | Some o' \<Rightarrow>
        let s = s\<lparr>rs_armed := rs_armed o', rs_last_fired := rs_last_fired o', rs_hold_start := rs_hold_start o'\<rparr>
        in if \<not> Option.is_none (rs_sched s) \<and> \<not> Option.is_none (rs_sched o') then s\<lparr>rs_next_cron := rs_next_cron o'\<rparr> else s)"

definition SetRules :: "cron_parser \<Rightarrow> Rule list \<Rightarrow> engine \<Rightarrow> engine \<times> (string \<times> string) option" where
  "SetRules cron rules e = (case build cron rules of
      Inl err \<Rightarrow> (e, Some err)
    | Inr states \<Rightarrow> (map (carry_over e) states, None))"

section \<open>Conditions\<close>

definition input_present :: "snapshot \<Rightarrow> bool" where
  "input_present s \<longleftrightarrow>
     (case sn_battery s of None \<Rightarrow> False | Some b \<Rightarrow> b_status b = 1) \<or>
     (case sn_typec s of None \<Rightarrow> False | Some c \<Rightarrow> tc_dc_input c)"

definition conditionTrue :: "Rule \<Rightarrow> snapshot \<Rightarrow> bool" where
  "conditionTrue r s =
     (if r_condition r = ''input_power'' then
        if r_state r = ''present'' then input_present s else \<not> input_present s
      else if r_condition r = ''battery_level'' then
        (case sn_battery s of
           None \<Rightarrow> False
         | Some b \<Rightarrow> if r_op r = ''below'' then uint (b_level b) < r_percent r else uint (b_level b) > r_percent r)
      else if r_condition r = ''port_power'' then
        (case (if r_port r = ''dc'' \<and> sn_dc s \<noteq> None then map_option dc_watts (sn_dc s)
               else if r_port r = ''usbc'' \<and> sn_typec s \<noteq> None then map_option tc_watts (sn_typec s)
               else None) of
           None \<Rightarrow> False
         | Some w \<Rightarrow> if r_op r = ''below'' then flt w (r_watts r) else flt (r_watts r) w)
      else if r_condition r = ''temperature'' then
        (case sn_typec s of
           None \<Rightarrow> False
         | Some c \<Rightarrow> if r_op r = ''below'' then flt (tc_temp_c c) (r_temp_c r) else flt (r_temp_c r) (tc_temp_c c))
      else False)"

definition rearmTrue :: "Rule \<Rightarrow> snapshot \<Rightarrow> bool" where
  "rearmTrue r s =
     (if r_condition r = ''battery_level'' \<and> sn_battery s \<noteq> None then
        (let level = uint (b_level (the (sn_battery s)))
         in if r_op r = ''below'' then level \<ge> int64_wrap (r_percent r + r_hysteresis_margin r)
            else level \<le> int64_wrap (r_percent r - r_hysteresis_margin r))
      else if r_condition r = ''temperature'' \<and> sn_typec s \<noteq> None then
        (let m = fl (of_int (r_hysteresis_margin r)); temp = tc_temp_c (the (sn_typec s))
         in if r_op r = ''below'' then fle (fadd (r_temp_c r) m) temp
            else fle temp (fsub (r_temp_c r) m))
      else \<not> conditionTrue r s)"

section \<open>Ticks\<close>

text \<open>The body of the loop of \<^verbatim>\<open>Tick\<close> for one rule: its new state, and whether it fires.\<close>

definition tick_one :: "snapshot \<Rightarrow> time \<Rightarrow> ruleState \<Rightarrow> ruleState \<times> bool" where
  "tick_one snap now st =
     (if \<not> r_enabled (rs_rule st) then (st, False)
      else if \<not> sn_connected snap then
        (let st = st\<lparr>rs_hold_start := 0\<rparr>
         in (case rs_sched st of None \<Rightarrow> st | Some next \<Rightarrow> st\<lparr>rs_next_cron := next now\<rparr>, False))
      else case rs_sched st of
        Some next \<Rightarrow>
          if is_zero (rs_next_cron st) then (st\<lparr>rs_next_cron := next now\<rparr>, False)
          else if \<not> now < rs_next_cron st then (st\<lparr>rs_last_fired := now, rs_next_cron := next now\<rparr>, True)
          else (st, False)
      | None \<Rightarrow>
          if conditionTrue (rs_rule st) snap then
            let st = (if is_zero (rs_hold_start st) then st\<lparr>rs_hold_start := now\<rparr> else st);
                held = time_sub now (rs_hold_start st) \<ge> r_hold (rs_rule st);
                canRepeat = r_repeat_every (rs_rule st) > 0 \<and> \<not> is_zero (rs_last_fired st) \<and>
                  time_sub now (rs_last_fired st) \<ge> r_repeat_every (rs_rule st)
            in if held \<and> (rs_armed st \<or> canRepeat) then (st\<lparr>rs_armed := False, rs_last_fired := now\<rparr>, True)
               else (st, False)
          else
            let st = st\<lparr>rs_hold_start := 0\<rparr>
            in if \<not> rs_armed st \<and> rearmTrue (rs_rule st) snap then (st\<lparr>rs_armed := True\<rparr>, False)
               else (st, False))"

fun Tick :: "snapshot \<Rightarrow> time \<Rightarrow> engine \<Rightarrow> engine \<times> Firing list" where
  "Tick snap now [] = ([], [])"
| "Tick snap now (st # e) =
     (let (st', fires) = tick_one snap now st; (e', rest) = Tick snap now e
      in (st' # e', (if fires then [\<lparr>f_rule = rs_rule st, f_at = now\<rparr>] else []) @ rest))"

text \<open>\<^verbatim>\<open>Status\<close>; \<open>now\<close> is the clock reading of \<^verbatim>\<open>time.Since\<close>, which is rounded to whole seconds, half away
  from zero.\<close>

record RuleStatus =
  ru_name :: string
  ru_enabled :: bool
  ru_armed :: bool
  ru_holding_for :: "duration option"
  ru_last_fired :: "time option"

definition round_second :: "duration \<Rightarrow> duration" where
  "round_second d = (let r = \<bar>d\<bar> mod second; base = \<bar>d\<bar> - r
     in sgn d * (if r + r < second then base else base + second))"

definition Status :: "time \<Rightarrow> engine \<Rightarrow> RuleStatus list" where
  "Status now e = map (\<lambda>st. \<lparr>ru_name = r_name (rs_rule st), ru_enabled = r_enabled (rs_rule st),
     ru_armed = rs_armed st,
     ru_holding_for = (if is_zero (rs_hold_start st) then None
       else Some (round_second (time_sub now (rs_hold_start st)))),
     ru_last_fired = (if is_zero (rs_last_fired st) then None else Some (rs_last_fired st))\<rparr>) e"

section \<open>The engine ticks each rule on its own\<close>

lemma Tick_states: "fst (Tick snap now e) = map (\<lambda>st. fst (tick_one snap now st)) e"
  by (induction e) (auto split: prod.splits)

lemma Tick_fires:
  "snd (Tick snap now e) =
     map (\<lambda>st. \<lparr>f_rule = rs_rule st, f_at = now\<rparr>) (filter (\<lambda>st. snd (tick_one snap now st)) e)"
  by (induction e) (auto split: prod.splits)

lemma tick_one_rule [simp]:
  "rs_rule (fst (tick_one snap now st)) = rs_rule st"
  "rs_sched (fst (tick_one snap now st)) = rs_sched st"
  by (simp_all add: tick_one_def Let_def split: option.split)

lemma tick_disabled: "\<not> r_enabled (rs_rule st) \<Longrightarrow> tick_one snap now st = (st, False)"
  by (simp add: tick_one_def)

lemma tick_disconnected:
  "\<not> sn_connected snap \<Longrightarrow> \<not> snd (tick_one snap now st)"
  "\<not> sn_connected snap \<Longrightarrow> r_enabled (rs_rule st) \<Longrightarrow> rs_hold_start (fst (tick_one snap now st)) = 0"
  by (simp_all add: tick_one_def Let_def split: option.split)

section \<open>Runs of one rule\<close>

text \<open>The state of a rule after the ticks \<open>ts\<close>, and the times at which it fires during them.\<close>

definition tick_run :: "(snapshot \<times> time) list \<Rightarrow> ruleState \<Rightarrow> ruleState" where
  "tick_run ts st = foldl (\<lambda>st (snap, now). fst (tick_one snap now st)) st ts"

fun firings :: "(snapshot \<times> time) list \<Rightarrow> ruleState \<Rightarrow> time list" where
  "firings [] st = []"
| "firings ((snap, now) # ts) st =
     (if snd (tick_one snap now st) then [now] else []) @ firings ts (fst (tick_one snap now st))"

lemma tick_run_simps [simp]:
  "tick_run [] st = st"
  "tick_run ((snap, now) # ts) st = tick_run ts (fst (tick_one snap now st))"
  "tick_run (ts @ [(snap, now)]) st = fst (tick_one snap now (tick_run ts st))"
  by (simp_all add: tick_run_def)

lemma tick_run_rule [simp]: "rs_rule (tick_run ts st) = rs_rule st" "rs_sched (tick_run ts st) = rs_sched st"
  by (induction ts arbitrary: st) auto

lemma firings_append: "firings (ts @ us) st = firings ts st @ firings us (tick_run ts st)"
  by (induction ts arbitrary: st) auto

lemma hold_start_tick:
  assumes "rs_sched st = None" "r_enabled (rs_rule st)"
  shows "rs_hold_start (fst (tick_one snap now st)) =
    (if sn_connected snap \<and> conditionTrue (rs_rule st) snap
     then if rs_hold_start st = 0 then now else rs_hold_start st else 0)"
  using assms by (simp add: tick_one_def Let_def)

lemma tick_fires_iff:
  assumes "rs_sched st = None" "r_enabled (rs_rule st)"
  shows "snd (tick_one snap now st) \<longleftrightarrow> sn_connected snap \<and> conditionTrue (rs_rule st) snap \<and>
    time_sub now (if rs_hold_start st = 0 then now else rs_hold_start st) \<ge> r_hold (rs_rule st) \<and>
    (rs_armed st \<or> r_repeat_every (rs_rule st) > 0 \<and> rs_last_fired st \<noteq> 0 \<and>
       time_sub now (rs_last_fired st) \<ge> r_repeat_every (rs_rule st))"
  using assms by (auto simp: tick_one_def Let_def)

lemma tick_armed:
  assumes "rs_sched st = None" "r_enabled (rs_rule st)"
  shows "rs_armed (fst (tick_one snap now st)) =
    (if snd (tick_one snap now st) then False
     else rs_armed st \<or> (sn_connected snap \<and> \<not> conditionTrue (rs_rule st) snap \<and> rearmTrue (rs_rule st) snap))"
    and "rs_last_fired (fst (tick_one snap now st)) = (if snd (tick_one snap now st) then now else rs_last_fired st)"
  using assms by (auto simp: tick_one_def Let_def)

lemma hold_start_run:
  assumes "rs_sched st = None" "r_enabled (rs_rule st)" "rs_hold_start st = 0"
  shows "rs_hold_start (tick_run ts st) = 0 \<or>
    (\<exists>pre suf. ts = pre @ suf \<and> suf \<noteq> [] \<and>
       (\<forall>(s, t) \<in> set suf. sn_connected s \<and> conditionTrue (rs_rule st) s) \<and>
       snd (hd suf) = rs_hold_start (tick_run ts st))"
proof (induction ts rule: rev_induct)
  case (snoc x ts)
  obtain snap now where x: "x = (snap, now)" by force
  let ?st = "tick_run ts st"
  have h: "rs_hold_start (tick_run (ts @ [x]) st) =
    (if sn_connected snap \<and> conditionTrue (rs_rule st) snap
     then if rs_hold_start ?st = 0 then now else rs_hold_start ?st else 0)"
    using assms by (simp add: x hold_start_tick)
  show ?case
  proof (cases "sn_connected snap \<and> conditionTrue (rs_rule st) snap")
    case c: True
    show ?thesis
    proof (cases "rs_hold_start ?st = 0")
      case True
      then show ?thesis using c h
        by (intro disjI2 exI [of _ ts] exI [of _ "[x]"]) (simp add: x)
    next
      case False
      then obtain pre suf where s: "ts = pre @ suf" "suf \<noteq> []"
        "\<forall>(s, t) \<in> set suf. sn_connected s \<and> conditionTrue (rs_rule st) s" "snd (hd suf) = rs_hold_start ?st"
        using snoc.IH by auto
      then show ?thesis using c h False
        by (intro disjI2 exI [of _ pre] exI [of _ "suf @ [x]"]) (auto simp: x)
    qed
  next
    case False
    then show ?thesis using h by auto
  qed
qed (use assms in simp)

text \<open>C29. Between two changes of the rule set, a rule that is enabled and has no schedule fires only after its condition held for the whole hold
  time: whenever such a rule that started without a hold fires on a tick, there is a block of consecutive ticks
  ending with that tick on which the device was connected and the condition true, and which began at
  least \<^verbatim>\<open>Hold\<close> before the firing. (A scheduled rule fires without a condition, and a change of the rules keeps the hold of a rule that was
  disabled in between, lemma \<open>hold_survives_disable\<close>.)\<close>

theorem fires_only_after_hold:
  assumes "r_enabled (rs_rule st)" and "rs_sched st = None" and "rs_hold_start st = 0"
    and "snd (tick_one snap now (tick_run ts st))"
  shows "\<exists>pre suf. ts @ [(snap, now)] = pre @ suf \<and> suf \<noteq> [] \<and>
     (\<forall>(s, t) \<in> set suf. sn_connected s \<and> conditionTrue (rs_rule st) s) \<and>
     time_sub now (snd (hd suf)) \<ge> r_hold (rs_rule st)"
proof -
  let ?st = "tick_run ts st"
  have f: "sn_connected snap" "conditionTrue (rs_rule st) snap"
    "time_sub now (if rs_hold_start ?st = 0 then now else rs_hold_start ?st) \<ge> r_hold (rs_rule st)"
    using assms tick_fires_iff [of ?st snap now] by simp_all
  show ?thesis
  proof (cases "rs_hold_start ?st = 0")
    case True
    then show ?thesis using f by (intro exI [of _ ts] exI [of _ "[(snap, now)]"]) simp
  next
    case False
    then obtain pre suf where "ts = pre @ suf" "suf \<noteq> []"
      "\<forall>(s, t) \<in> set suf. sn_connected s \<and> conditionTrue (rs_rule st) s" "snd (hd suf) = rs_hold_start ?st"
      using hold_start_run [OF assms(2,1,3), of ts] by auto
    then show ?thesis using f False by (intro exI [of _ pre] exI [of _ "suf @ [(snap, now)]"]) auto
  qed
qed

definition demo_rule :: Rule where
  "demo_rule = \<lparr>r_name = ''low'', r_enabled = True, r_condition = ''battery_level'', r_state = [],
     r_op = ''below'', r_port = [], r_percent = 20, r_watts = Fin 0, r_temp_c = Fin 0,
     r_hold = 10 * second, r_repeat_every = 0, r_hysteresis_margin = 5, r_cron = [],
     r_actions = [''dc_off''], r_confirm_shutdown = False\<rparr>"

definition demo_state :: ruleState where
  "demo_state = \<lparr>rs_rule = demo_rule, rs_sched = None, rs_next_cron = 0, rs_hold_start = 0,
     rs_armed = True, rs_last_fired = 0\<rparr>"

definition demo_snap :: "byte \<Rightarrow> snapshot" where
  "demo_snap level = zero_snapshot\<lparr>sn_connected := True, sn_battery := Some \<lparr>b_enabled = True, b_status = 0,
     b_full = False, b_max_wh = Fin 0, b_wh = Fin 0, b_level = level, b_volts = Fin 0, b_amps = Fin 0,
     b_watts = Fin 0, b_remain_min = 0\<rparr>\<rparr>"

lemmas demo_defs = demo_rule_def demo_state_def demo_snap_def

theorem fires_only_after_hold_witness:
  "\<exists>pre suf. [(demo_snap 9, 5), (demo_snap 8, 20 * second)] = pre @ suf \<and> suf \<noteq> [] \<and>
     time_sub (20 * second) (snd (hd suf)) \<ge> 10 * second"
proof -
  have "snd (tick_one (demo_snap 8) (20 * second) (tick_run [(demo_snap 9, 5)] demo_state))"
    by (simp add: demo_defs tick_one_def conditionTrue_def time_sub_def)
  from fires_only_after_hold [OF _ _ _ this] show ?thesis
    by (force simp: demo_state_def demo_rule_def)
qed

lemma armed_needs_rearm:
  assumes "rs_sched st = None" "r_enabled (rs_rule st)" "\<not> rs_armed st" "rs_armed (tick_run ts st)"
  shows "\<exists>(s, t) \<in> set ts. sn_connected s \<and> \<not> conditionTrue (rs_rule st) s \<and> rearmTrue (rs_rule st) s"
  using assms(4)
proof (induction ts rule: rev_induct)
  case (snoc x ts)
  obtain snap now where x: "x = (snap, now)" by force
  show ?case using snoc assms(1,2) by (auto simp: x tick_armed split: if_splits)
qed (use assms in simp)

lemma last_fired_quiet:
  assumes "rs_sched st = None" "r_enabled (rs_rule st)" "firings ts st = []"
  shows "rs_last_fired (tick_run ts st) = rs_last_fired st"
  using assms(3)
proof (induction ts rule: rev_induct)
  case (snoc x ts)
  obtain snap now where x: "x = (snap, now)" by force
  show ?case using snoc assms(1,2) by (auto simp: x tick_armed firings_append split: if_splits)
qed simp

text \<open>C30. Hysteresis and repetition: between two successive firings of an enabled, unscheduled rule
  either the condition receded past the re-arm margin while the device was connected, or the rule
  repeats and at least \<^verbatim>\<open>RepeatEvery\<close> passed; a rule that does not repeat fires at most once per
  excursion.\<close>

theorem refires_only_after_rearm:
  assumes "r_enabled (rs_rule st)" and "rs_sched st = None"
    and "snd (tick_one snap1 now1 st)"
    and "firings mid (fst (tick_one snap1 now1 st)) = []"
    and "snd (tick_one snap2 now2 (tick_run mid (fst (tick_one snap1 now1 st))))"
  shows "(\<exists>(s, t) \<in> set mid. sn_connected s \<and> \<not> conditionTrue (rs_rule st) s \<and> rearmTrue (rs_rule st) s) \<or>
     r_repeat_every (rs_rule st) > 0 \<and> time_sub now2 now1 \<ge> r_repeat_every (rs_rule st)"
proof -
  let ?st = "fst (tick_one snap1 now1 st)"
  have s: "rs_sched ?st = None" "r_enabled (rs_rule ?st)" "\<not> rs_armed ?st" "rs_last_fired ?st = now1"
    using assms(1-3) by (simp_all add: tick_armed)
  show ?thesis
  proof (cases "rs_armed (tick_run mid ?st)")
    case True
    from armed_needs_rearm [OF s(1-3) this] show ?thesis by simp
  next
    case False
    have "rs_last_fired (tick_run mid ?st) = now1"
      using last_fired_quiet [OF s(1,2) assms(4)] s(4) by simp
    then show ?thesis
      using False assms(1,2,5) tick_fires_iff [of "tick_run mid ?st" snap2 now2] by simp
  qed
qed

theorem refires_only_after_rearm_witness:
  "\<exists>(s, t) \<in> set [(demo_snap 90, 30 * second), (demo_snap 1, 40 * second)].
     sn_connected s \<and> \<not> conditionTrue demo_rule s \<and> rearmTrue demo_rule s"
proof -
  let ?st = "demo_state\<lparr>rs_hold_start := 1\<rparr>"
  have "snd (tick_one (demo_snap 8) (20 * second) ?st)"
    "firings [(demo_snap 90, 30 * second), (demo_snap 1, 40 * second)]
       (fst (tick_one (demo_snap 8) (20 * second) ?st)) = []"
    "snd (tick_one (demo_snap 2) (50 * second) (tick_run [(demo_snap 90, 30 * second), (demo_snap 1, 40 * second)]
       (fst (tick_one (demo_snap 8) (20 * second) ?st))))"
    by (simp_all add: demo_defs tick_one_def conditionTrue_def rearmTrue_def int64_wrap_def time_sub_def)
  from refires_only_after_rearm [OF _ _ this]
  show ?thesis by (force simp: demo_state_def demo_rule_def)
qed

lemma hold_run_true:
  assumes "rs_sched st = None" "r_enabled (rs_rule st)" "rs_hold_start st \<noteq> 0"
    and "\<forall>(s, t) \<in> set ts. sn_connected s \<and> conditionTrue (rs_rule st) s" and "firings ts st = []"
  shows "rs_hold_start (tick_run ts st) = rs_hold_start st \<and> rs_armed (tick_run ts st) = rs_armed st"
  using assms(4,5)
proof (induction ts rule: rev_induct)
  case (snoc x ts)
  obtain snap now where x: "x = (snap, now)" by force
  show ?case
    using snoc assms(1-3) by (auto simp: x hold_start_tick tick_armed firings_append split: if_splits)
qed simp

text \<open>C31. An armed rule does fire: when its condition is true on every tick of a connected stretch that
  spans the hold time, it fires at the latest on the last tick of the stretch.\<close>

theorem fires_after_hold:
  assumes "r_enabled (rs_rule st)" and "rs_sched st = None" and "rs_hold_start st = 0" and "rs_armed st"
    and "t0 \<noteq> 0" and "time_sub now t0 \<ge> r_hold (rs_rule st)"
    and "\<forall>(s, t) \<in> set ((snap0, t0) # ts @ [(snap, now)]). sn_connected s \<and> conditionTrue (rs_rule st) s"
  shows "firings ((snap0, t0) # ts @ [(snap, now)]) st \<noteq> []"
proof
  assume q: "firings ((snap0, t0) # ts @ [(snap, now)]) st = []"
  let ?st = "fst (tick_one snap0 t0 st)"
  have n: "\<not> snd (tick_one snap0 t0 st)" "firings ts ?st = []" "\<not> snd (tick_one snap now (tick_run ts ?st))"
    using q by (auto simp: firings_append split: if_splits)
  have h: "rs_hold_start ?st = t0" "rs_armed ?st"
    using assms n(1) by (simp_all add: hold_start_tick tick_armed)
  have "rs_hold_start (tick_run ts ?st) = t0 \<and> rs_armed (tick_run ts ?st)"
    using hold_run_true [of ?st ts] assms h n(2) by simp
  then have "snd (tick_one snap now (tick_run ts ?st))"
    using assms by (simp add: tick_fires_iff)
  with n(3) show False by simp
qed

theorem fires_after_hold_witness:
  "firings ((demo_snap 9, 5) # [(demo_snap 7, 6)] @ [(demo_snap 8, 20 * second)]) demo_state \<noteq> []"
  by (rule fires_after_hold)
    (auto simp: demo_defs conditionTrue_def time_sub_def)

section \<open>Scheduled rules\<close>

lemma cron_tick:
  assumes "rs_sched st = Some next" "r_enabled (rs_rule st)"
  shows "snd (tick_one snap now st) \<longleftrightarrow> sn_connected snap \<and> rs_next_cron st \<noteq> 0 \<and> rs_next_cron st \<le> now"
    and "rs_next_cron (fst (tick_one snap now st)) =
      (if sn_connected snap \<and> rs_next_cron st \<noteq> 0 \<and> now < rs_next_cron st then rs_next_cron st else next now)"
  using assms by (auto simp: tick_one_def Let_def)

lemma next_cron_run:
  assumes "rs_sched st = Some next" "r_enabled (rs_rule st)" "rs_next_cron st = 0"
  shows "rs_next_cron (tick_run ts st) = 0 \<or>
    (\<exists>pre s t suf. ts = pre @ (s, t) # suf \<and> rs_next_cron (tick_run ts st) = next t \<and>
       (\<forall>(s', t') \<in> set suf. sn_connected s' \<and> t' < next t))"
proof (induction ts rule: rev_induct)
  case (snoc x ts)
  obtain snap now where x: "x = (snap, now)" by force
  let ?st = "tick_run ts st"
  have h: "rs_next_cron (tick_run (ts @ [x]) st) =
      (if sn_connected snap \<and> rs_next_cron ?st \<noteq> 0 \<and> now < rs_next_cron ?st then rs_next_cron ?st else next now)"
    using assms by (simp add: x cron_tick)
  show ?case
  proof (cases "sn_connected snap \<and> rs_next_cron ?st \<noteq> 0 \<and> now < rs_next_cron ?st")
    case True
    then obtain pre s t suf where "ts = pre @ (s, t) # suf" "rs_next_cron ?st = next t"
      "\<forall>(s', t') \<in> set suf. sn_connected s' \<and> t' < next t" using snoc.IH by auto
    then show ?thesis using True h
      by (intro disjI2 exI [of _ pre] exI [of _ s] exI [of _ t] exI [of _ "suf @ [x]"]) (auto simp: x)
  next
    case False
    then show ?thesis using h
      by (intro disjI2 exI [of _ ts] exI [of _ snap] exI [of _ now] exI [of _ "[]"]) (auto simp: x)
  qed
qed (use assms in simp)

text \<open>A scheduled rule fires exactly on the first tick at or after an occurrence of its schedule, and
  only if the device was connected from the tick that scheduled the occurrence: when it fires there is an
  earlier tick, at a time \<open>t\<close>, such that the firing tick is at or after the occurrence that follows \<open>t\<close>, all
  ticks in between were connected and lay before the occurrence; occurrences that pass while the device
  is disconnected are skipped, and one occurrence fires at most once.\<close>

theorem schedule_fires_first_tick:
  assumes "r_enabled (rs_rule st)" and "rs_sched st = Some next" and "rs_next_cron st = 0"
    and "snd (tick_one snap now (tick_run ts st))"
  shows "sn_connected snap \<and> (\<exists>pre s t suf. ts = pre @ (s, t) # suf \<and> next t \<noteq> 0 \<and> next t \<le> now \<and>
     (\<forall>(s', t') \<in> set suf. sn_connected s' \<and> t' < next t)) \<and>
     rs_next_cron (tick_run (ts @ [(snap, now)]) st) = next now"
proof -
  let ?st = "tick_run ts st"
  have f: "sn_connected snap" "rs_next_cron ?st \<noteq> 0" "rs_next_cron ?st \<le> now"
    using assms cron_tick(1) [of ?st "next" snap now] by simp_all
  moreover have "rs_next_cron (tick_run (ts @ [(snap, now)]) st) = next now"
    using f assms(1,2) by (simp add: cron_tick(2))
  ultimately show ?thesis using next_cron_run [OF assms(2,1,3), of ts] by fastforce
qed

definition every_minute :: schedule where
  "every_minute t = truncate_minute t + minute"

theorem schedule_fires_first_tick_witness:
  "rs_next_cron (tick_run ([(demo_snap 9, 5)] @ [(demo_snap 9, 61 * second)])
     (demo_state\<lparr>rs_sched := Some every_minute\<rparr>)) = 120 * second"
proof -
  have "snd (tick_one (demo_snap 9) (61 * second)
      (tick_run [(demo_snap 9, 5)] (demo_state\<lparr>rs_sched := Some every_minute\<rparr>)))"
    by (simp add: demo_defs tick_one_def every_minute_def truncate_minute_def)
  from schedule_fires_first_tick [OF _ _ _ this] show ?thesis
    by (simp add: demo_defs every_minute_def truncate_minute_def)
qed

section \<open>Changing the rules\<close>

text \<open>A rule that is disabled while its condition holds keeps the start of its hold: here the rule
  "battery below 20 for ten seconds" sees a low battery at second 1, is disabled, the battery is at 90
  percent at second 5, the rule is enabled again, and at second 100 the first low reading fires it at
  once, although the condition was not continuously true for ten seconds.\<close>

lemma hold_survives_disable:
  "let e0 = [demo_state];
       e1 = fst (Tick (demo_snap 10) (1 * second) e0);
       e2 = fst (SetRules cron [demo_rule\<lparr>r_enabled := False\<rparr>] e1);
       e3 = fst (Tick (demo_snap 90) (5 * second) e2);
       e4 = fst (SetRules cron [demo_rule] e3)
   in \<not> conditionTrue demo_rule (demo_snap 90) \<and>
      snd (Tick (demo_snap 10) (100 * second) e4) = [\<lparr>f_rule = demo_rule, f_at = 100 * second\<rparr>]"
proof -
  let ?off = "demo_rule\<lparr>r_enabled := False\<rparr>" and ?st = "demo_state\<lparr>rs_hold_start := 1 * second\<rparr>"
  have cond: "conditionTrue demo_rule (demo_snap 10)" "\<not> conditionTrue demo_rule (demo_snap 90)"
    by (simp_all add: demo_defs conditionTrue_def)
  have r: "rs_rule demo_state = demo_rule" "rs_sched demo_state = None" "r_enabled demo_rule"
      "r_hold demo_rule = 10 * second" "rs_hold_start demo_state = 0" "rs_armed demo_state"
      "r_condition demo_rule = ''battery_level''" "sn_connected (demo_snap b)"
      "r_repeat_every demo_rule = 0" for b by (simp_all add: demo_defs)
  have e1: "fst (Tick (demo_snap 10) (1 * second) [demo_state]) = [?st]"
    using cond by (simp add: tick_one_def r time_sub_def)
  have e2: "fst (SetRules cron [?off] [?st]) = [?st\<lparr>rs_rule := ?off\<rparr>]"
    by (simp add: SetRules_def carry_over_def old_state_def r) (simp add: demo_state_def)
  have e3: "fst (Tick (demo_snap 90) (5 * second) [?st\<lparr>rs_rule := ?off\<rparr>]) = [?st\<lparr>rs_rule := ?off\<rparr>]"
    by (simp add: tick_one_def)
  have e4: "fst (SetRules cron [demo_rule] [?st\<lparr>rs_rule := ?off\<rparr>]) = [?st]"
    by (simp add: SetRules_def carry_over_def old_state_def r) (simp add: demo_state_def)
  have "snd (Tick (demo_snap 10) (100 * second) [?st]) = [\<lparr>f_rule = demo_rule, f_at = 100 * second\<rparr>]"
    using cond by (simp add: tick_one_def r time_sub_def)
  then show ?thesis unfolding Let_def e1 e2 e3 e4 using cond by simp
qed

end
