(* ===== verification/Actions.thy ===== *)
theory Actions
  imports Rules
begin

text \<open>
  \<^verbatim>\<open>internal/actions/actions.go\<close>: the executor that turns the actions of a firing into device commands and
  webhooks. The device interface is a record of operations on a state \<open>'d\<close> of the outside world, each
  returning an optional error of type \<open>'e\<close>; the HTTP client is the argument \<open>post\<close>, which returns a
  transport error or a status code. \<^verbatim>\<open>json.Marshal\<close> fails on a number that is not finite, so a payload
  is sent only if every float of the snapshot is finite.
\<close>

record ('d, 'e) Device =
  dv_DCControl :: "bool \<Rightarrow> 'd \<Rightarrow> 'd \<times> 'e option"
  dv_TypeCOutput :: "bool \<Rightarrow> 'd \<Rightarrow> 'd \<times> 'e option"
  dv_BypassControl :: "bool \<Rightarrow> 'd \<Rightarrow> 'd \<times> 'e option"
  dv_Restart :: "'d \<Rightarrow> 'd \<times> 'e option"
  dv_Shutdown :: "'d \<Rightarrow> 'd \<times> 'e option"

record WebhookPayload =
  wp_rule :: string
  wp_device :: string
  wp_telemetry :: snapshot
  wp_fired_at :: time

datatype 'e action_error =
    DeviceError 'e | PayloadNotFinite | WebhookError string 'e | WebhookStatus string int | UnknownAction string

type_synonym ('d, 'e) http_post = "string \<Rightarrow> WebhookPayload \<Rightarrow> 'd \<Rightarrow> 'd \<times> ('e + int)"

definition device_actions :: "string list" where
  "device_actions = [''dc_on'', ''dc_off'', ''usbc_on'', ''usbc_off'', ''bypass_on'', ''bypass_off'',
     ''restart'', ''shutdown'']"

definition ValidActions :: "string list" where
  "ValidActions = [''dc_on'', ''dc_off'', ''usbc_on'', ''usbc_off'', ''bypass_on'', ''bypass_off'',
     ''restart'', ''shutdown'', ''webhook:<url>'']"

definition CutPrefix :: "string \<Rightarrow> string \<Rightarrow> string option" where
  "CutPrefix s p = (if take (length p) s = p then Some (drop (length p) s) else None)"

definition ValidateAction :: "string \<Rightarrow> 'e action_error option" where
  "ValidateAction a =
     (if a \<in> set device_actions then None
      else case CutPrefix a ''webhook:'' of
        Some url \<Rightarrow> if url \<noteq> [] then None else Some (UnknownAction a)
      | None \<Rightarrow> Some (UnknownAction a))"

fun finite64 :: "float64 \<Rightarrow> bool" where
  "finite64 (Fin x) = True"
| "finite64 _ = False"

definition json_battery :: "battery \<Rightarrow> bool" where
  "json_battery b \<longleftrightarrow> list_all finite64 [b_max_wh b, b_wh b, b_volts b, b_amps b, b_watts b]"

definition json_dc :: "dc_port \<Rightarrow> bool" where
  "json_dc d \<longleftrightarrow> list_all finite64 [dc_volts d, dc_amps d, dc_watts d]"

definition json_typec :: "typec_port \<Rightarrow> bool" where
  "json_typec c \<longleftrightarrow> list_all finite64 [tc_volts c, tc_amps c, tc_watts c, tc_temp_c c]"

definition json_any :: "anyval \<Rightarrow> bool" where
  "json_any v = (case v of AnyDC d \<Rightarrow> json_dc d | AnyTypeC c \<Rightarrow> json_typec c | _ \<Rightarrow> True)"

definition json_snapshot :: "snapshot \<Rightarrow> bool" where
  "json_snapshot s \<longleftrightarrow>
     (case sn_battery s of None \<Rightarrow> True | Some b \<Rightarrow> json_battery b) \<and>
     (case sn_dc s of None \<Rightarrow> True | Some d \<Rightarrow> json_dc d) \<and>
     (case sn_typec s of None \<Rightarrow> True | Some c \<Rightarrow> json_typec c) \<and>
     list_all (\<lambda>c. json_any (cmd_requested c) \<and> json_any (cmd_observed c)) (map snd (sn_pending s) @ sn_recent s)"

fun lift_dev :: "'d \<times> 'e option \<Rightarrow> 'd \<times> 'e action_error option" where
  "lift_dev (d, None) = (d, None)"
| "lift_dev (d, Some e) = (d, Some (DeviceError e))"

definition webhook ::
    "('d, 'e) http_post \<Rightarrow> string \<Rightarrow> string \<Rightarrow> snapshot \<Rightarrow> string \<Rightarrow> time \<Rightarrow> 'd \<Rightarrow> 'd \<times> 'e action_error option" where
  "webhook post name url snap rule fired d =
     (if \<not> json_snapshot snap then (d, Some PayloadNotFinite)
      else case post url \<lparr>wp_rule = rule, wp_device = name, wp_telemetry = snap, wp_fired_at = fired\<rparr> d of
        (d, Inl e) \<Rightarrow> (d, Some (WebhookError url e))
      | (d, Inr status) \<Rightarrow> (d, if status \<ge> 400 then Some (WebhookStatus url status) else None))"

definition one ::
    "('d, 'e) Device \<Rightarrow> ('d, 'e) http_post \<Rightarrow> string \<Rightarrow> string \<Rightarrow> snapshot \<Rightarrow> string \<Rightarrow> time \<Rightarrow> 'd \<Rightarrow>
     'd \<times> 'e action_error option" where
  "one dev post name a snap rule fired d =
     (if a = ''dc_on'' then lift_dev (dv_DCControl dev True d)
      else if a = ''dc_off'' then lift_dev (dv_DCControl dev False d)
      else if a = ''usbc_on'' then lift_dev (dv_TypeCOutput dev True d)
      else if a = ''usbc_off'' then lift_dev (dv_TypeCOutput dev False d)
      else if a = ''bypass_on'' then lift_dev (dv_BypassControl dev True d)
      else if a = ''bypass_off'' then lift_dev (dv_BypassControl dev False d)
      else if a = ''restart'' then lift_dev (dv_Restart dev d)
      else if a = ''shutdown'' then lift_dev (dv_Shutdown dev d)
      else case CutPrefix a ''webhook:'' of
        Some url \<Rightarrow> webhook post name url snap rule fired d
      | None \<Rightarrow> (d, Some (UnknownAction a)))"

text \<open>\<^verbatim>\<open>Execute\<close>: the loop over the actions, collecting each failing action with its error.\<close>

fun Execute ::
    "('d, 'e) Device \<Rightarrow> ('d, 'e) http_post \<Rightarrow> string \<Rightarrow> string list \<Rightarrow> snapshot \<Rightarrow> string \<Rightarrow> time \<Rightarrow> 'd \<Rightarrow>
     'd \<times> (string \<times> 'e action_error) list" where
  "Execute dev post name [] snap rule fired d = (d, [])"
| "Execute dev post name (a # as) snap rule fired d =
     (let (d, err) = one dev post name a snap rule fired d;
          (d, errs) = Execute dev post name as snap rule fired d
      in (d, (case err of None \<Rightarrow> [] | Some e \<Rightarrow> [(a, e)]) @ errs))"

section \<open>Properties\<close>

text \<open>The world before action \<open>i\<close>: every earlier action was attempted, whatever it returned.\<close>

definition world_before ::
    "('d, 'e) Device \<Rightarrow> ('d, 'e) http_post \<Rightarrow> string \<Rightarrow> string list \<Rightarrow> snapshot \<Rightarrow> string \<Rightarrow> time \<Rightarrow> 'd \<Rightarrow> nat \<Rightarrow> 'd" where
  "world_before dev post name as snap rule fired d i =
     foldl (\<lambda>d a. fst (one dev post name a snap rule fired d)) d (take i as)"

lemma Execute_state:
  "fst (Execute dev post name as snap rule fired d) = world_before dev post name as snap rule fired d (length as)"
  by (induction as arbitrary: d) (simp_all add: world_before_def case_prod_beta Let_def)

lemma Execute_errors:
  "snd (Execute dev post name as snap rule fired d) =
     concat (map (\<lambda>i. case snd (one dev post name (as ! i) snap rule fired
         (world_before dev post name as snap rule fired d i)) of None \<Rightarrow> [] | Some e \<Rightarrow> [(as ! i, e)])
       [0..<length as])"
proof (induction as arbitrary: d)
  case (Cons a as)
  have "[0..<length (a # as)] = 0 # map Suc [0..<length as]"
    by (simp add: map_Suc_upt upt_conv_Cons del: upt_Suc)
  then show ?case using Cons
    by (simp add: world_before_def comp_def case_prod_beta Let_def del: upt_Suc cong: option.case_cong)
qed simp

text \<open>A failing action does not stop the rest: the executor attempts every action once, in order, each
  in the state the earlier ones left, and returns exactly the failed actions with their errors, in
  order.\<close>

theorem Execute_runs_all:
  "Execute dev post name as snap rule fired d =
     (world_before dev post name as snap rule fired d (length as),
      concat (map (\<lambda>i. case snd (one dev post name (as ! i) snap rule fired
         (world_before dev post name as snap rule fired d i)) of None \<Rightarrow> [] | Some e \<Rightarrow> [(as ! i, e)])
       [0..<length as]))"
  by (rule prod_eqI) (simp_all add: Execute_state Execute_errors)

lemma one_unknown_iff:
  "(\<exists>b. snd (one dev post name a snap rule fired d) = Some (UnknownAction b)) \<Longrightarrow>
     a \<notin> set device_actions \<and> CutPrefix a ''webhook:'' = None"
proof -
  have l: "snd (lift_dev p) \<noteq> Some (UnknownAction b)" for p :: "'d \<times> 'e option" and b
    by (cases p rule: lift_dev.cases) auto
  have w: "snd (webhook post name url snap rule fired d) \<noteq> Some (UnknownAction b)" for url b
    by (auto simp: webhook_def split: prod.split sum.split)
  assume "\<exists>b. snd (one dev post name a snap rule fired d) = Some (UnknownAction b)"
  then show ?thesis
    by (auto simp: one_def device_actions_def l w split: if_splits option.splits)
qed

text \<open>Whatever passes validation is executable: a validated action is never reported as unknown when
  it runs.\<close>

lemma validated_action_known:
  assumes "ValidateAction a = (None :: 'e action_error option)"
  shows "snd (one (dev :: ('d, 'e) Device) post name a snap rule fired d) \<noteq> Some (UnknownAction b)"
proof
  assume "snd (one dev post name a snap rule fired d) = Some (UnknownAction b)"
  then have "a \<notin> set device_actions \<and> CutPrefix a ''webhook:'' = None"
    using one_unknown_iff [of dev post name a snap rule fired d] by blast
  with assms show False by (simp add: ValidateAction_def)
qed

definition idle_device :: "(nat, string) Device" where
  "idle_device = \<lparr>dv_DCControl = \<lambda>_ n. (n + 1, None), dv_TypeCOutput = \<lambda>_ n. (n + 1, None),
     dv_BypassControl = \<lambda>_ n. (n + 1, None), dv_Restart = \<lambda>n. (n + 1, None),
     dv_Shutdown = \<lambda>n. (n + 1, Some ''gone'')\<rparr>"

lemma validated_action_known_witness:
  "ValidateAction ''webhook:http://h'' = (None :: string action_error option) \<and>
   snd (one idle_device (\<lambda>url p n. (n, Inr 500)) ''dev'' ''webhook:http://h'' zero_snapshot ''r'' 1 0)
     \<noteq> Some (UnknownAction ''webhook:http://h'')"
proof -
  have v: "ValidateAction ''webhook:http://h'' = (None :: string action_error option)"
    by (simp add: ValidateAction_def device_actions_def CutPrefix_def)
  show ?thesis
    by (rule conjI [OF v validated_action_known [OF v]])
qed

end
