(* ===== verification/Auth_Store.thy ===== *)
theory Auth_Store
  imports Prelude "HOL-Library.Product_Lexorder" "HOL-Library.Multiset"
begin

text \<open>
  \<^verbatim>\<open>internal/auth/store.go\<close>: the registry of API tokens. The operations hold the store's mutex, so each is an
  atomic function of the state. SHA-256 with hexadecimal output is the argument \<open>hash\<close>; the bytes read from
  the random source, the clock reading and the outcome of every file-system call are arguments. The
  file at the store's path is the component \<open>as_disk\<close>: only a successful rename changes it. A revocation
  channel is a number; a closed channel is in \<open>as_closed\<close>.
\<close>

section \<open>Data\<close>

record TokenMeta =
  tk_id :: string
  tk_label :: string
  tk_created_at :: time
  tk_last_seen_at :: "time option"
  tk_bootstrap :: bool

record tokenRecord = TokenMeta +
  tr_hash :: string
  tr_persisted_last_seen :: "time option"

datatype Role = RoleAdmin | RoleClient

record Principal =
  pr_token_id :: string
  pr_role :: Role

text \<open>The calls of \<^verbatim>\<open>persistLocked\<close> that can fail, in their order.\<close>

datatype persist_step =
    Encode_disk | Mkdir_all | Open_directory | Create_temp | Chmod_temp | Write_temp | Sync_temp
  | Close_temp | Rename_temp | Sync_directory | Close_directory

datatype auth_error =
    EmptyPath | EmptyBootstrap | ReadFailed | DecodeFailed | TokensMissing | TrailingJSON
  | StatFailed | BootstrapNotMarked | BootstrapManaged | InvalidTokenID string | ZeroCreation string
  | CreationNotUTC string | LastSeenNotUTC string | LastSeenBeforeCreation string | InvalidHash string
  | ErrInvalidLabel | ErrDuplicateID | ErrDuplicateHash | ErrBootstrapToken | ErrTokenNotFound
  | RandomFailed | PersistFailed persist_step | StoreUnavailable | ErrInvalidOrExpiredPIN
  | TTLNotPositive | PINGenerationFailed

record auth_store =
  as_records :: "(string \<times> tokenRecord) list"
  as_subscribers :: "(string \<times> nat list) list"
  as_closed :: "nat list"
  as_invalidated :: bool
  as_last_seen_persisted_at :: time
  as_last_error :: "auth_error option"
  as_disk :: "tokenRecord list option"

definition bootstrapID :: string where "bootstrapID = ''bootstrap''"

definition bootstrapLabel :: string where "bootstrapLabel = ''Bootstrap administrator''"

abbreviation (input) maxLabelBytes :: nat where "maxLabelBytes \<equiv> 128"
abbreviation (input) persistInterval :: duration where "persistInterval \<equiv> hour"

section \<open>Labels, identifiers and hashes\<close>

definition bytes_of :: "string \<Rightarrow> nat list" where
  "bytes_of s = map of_char s"

abbreviation (input) cont :: "nat \<Rightarrow> bool" where "cont b \<equiv> 0x80 \<le> b \<and> b \<le> 0xBF"

text \<open>The code points of a valid UTF-8 string, \<open>None\<close> if it is not valid.\<close>

fun utf8_runes :: "nat list \<Rightarrow> nat list option" where
  "utf8_runes [] = Some []"
| "utf8_runes (b # bs) =
     (if b < 0x80 then map_option ((#) b) (utf8_runes bs)
      else if 0xC2 \<le> b \<and> b \<le> 0xDF then
        (case bs of
           b1 # r \<Rightarrow> if cont b1 then map_option ((#) ((b - 0xC0) * 64 + (b1 - 0x80))) (utf8_runes r) else None
         | _ \<Rightarrow> None)
      else if 0xE0 \<le> b \<and> b \<le> 0xEF then
        (case bs of
           b1 # b2 # r \<Rightarrow>
             if cont b1 \<and> cont b2 \<and> (b = 0xE0 \<longrightarrow> 0xA0 \<le> b1) \<and> (b = 0xED \<longrightarrow> b1 \<le> 0x9F)
             then map_option ((#) ((b - 0xE0) * 4096 + (b1 - 0x80) * 64 + (b2 - 0x80))) (utf8_runes r)
             else None
         | _ \<Rightarrow> None)
      else if 0xF0 \<le> b \<and> b \<le> 0xF4 then
        (case bs of
           b1 # b2 # b3 # r \<Rightarrow>
             if cont b1 \<and> cont b2 \<and> cont b3 \<and> (b = 0xF0 \<longrightarrow> 0x90 \<le> b1) \<and> (b = 0xF4 \<longrightarrow> b1 \<le> 0x8F)
             then map_option ((#) ((b - 0xF0) * 262144 + (b1 - 0x80) * 4096 + (b2 - 0x80) * 64 + (b3 - 0x80)))
               (utf8_runes r)
             else None
         | _ \<Rightarrow> None)
      else None)"

definition IsSpace :: "nat \<Rightarrow> bool" where
  "IsSpace r \<longleftrightarrow> r \<in> {0x09, 0x0A, 0x0B, 0x0C, 0x0D, 0x20, 0x85, 0xA0, 0x1680, 0x2028, 0x2029, 0x202F, 0x205F, 0x3000} \<or>
     (0x2000 \<le> r \<and> r \<le> 0x200A)"

definition IsControl :: "nat \<Rightarrow> bool" where
  "IsControl r \<longleftrightarrow> r \<le> 0x1F \<or> (0x7F \<le> r \<and> r \<le> 0x9F)"

text \<open>\<^verbatim>\<open>TrimSpace(label) = label\<close>: neither the first nor the last rune is white space.\<close>

definition validateLabel :: "string \<Rightarrow> auth_error option" where
  "validateLabel label =
     (if label = [] \<or> length label > maxLabelBytes then Some ErrInvalidLabel
      else case utf8_runes (bytes_of label) of
        None \<Rightarrow> Some ErrInvalidLabel
      | Some rs \<Rightarrow>
          if rs \<noteq> [] \<and> (IsSpace (hd rs) \<or> IsSpace (last rs)) then Some ErrInvalidLabel
          else if list_ex IsControl rs then Some ErrInvalidLabel
          else None)"

definition hex_lower :: "nat \<Rightarrow> char" where
  "hex_lower n = char_of (if n < 10 then n + 48 else n + 87)"

definition hex_encode :: "byte list \<Rightarrow> string" where
  "hex_encode bs = concat (map (\<lambda>b. [hex_lower (unat b div 16), hex_lower (unat b mod 16)]) bs)"

text \<open>A string of \<open>n\<close> lower-case hexadecimal digits: its length is \<open>n\<close> (even), \<^verbatim>\<open>ToLower\<close> leaves it unchanged
  and \<^verbatim>\<open>hex.DecodeString\<close> accepts it.\<close>

definition lower_hex :: "nat \<Rightarrow> string \<Rightarrow> bool" where
  "lower_hex n s \<longleftrightarrow> length s = n \<and> list_all (\<lambda>c. c \<in> set ''0123456789abcdef'') s"

text \<open>A token as decoded from the file, with whether its times carry the UTC location.\<close>

record diskToken =
  dk_record :: tokenRecord
  dk_created_utc :: bool
  dk_last_seen_utc :: bool

definition validateRecord :: "diskToken \<Rightarrow> auth_error option" where
  "validateRecord d =
     (let r = dk_record d in
      case (if tk_id r = bootstrapID then if \<not> tk_bootstrap r then Some BootstrapNotMarked else None
            else if tk_bootstrap r \<or> \<not> lower_hex 16 (tk_id r) then Some (InvalidTokenID (tk_id r))
            else validateLabel (tk_label r)) of
        Some e \<Rightarrow> Some e
      | None \<Rightarrow>
          if is_zero (tk_created_at r) then Some (ZeroCreation (tk_id r))
          else if \<not> dk_created_utc d then Some (CreationNotUTC (tk_id r))
          else if tk_last_seen_at r \<noteq> None \<and> \<not> dk_last_seen_utc d then Some (LastSeenNotUTC (tk_id r))
          else if (case tk_last_seen_at r of None \<Rightarrow> False | Some t \<Rightarrow> t < tk_created_at r)
            then Some (LastSeenBeforeCreation (tk_id r))
          else if \<not> lower_hex 64 (tr_hash r) then Some (InvalidHash (tk_id r))
          else None)"

definition validateUniqueHashes :: "(string \<times> tokenRecord) list \<Rightarrow> auth_error option" where
  "validateUniqueHashes records =
     (if distinct (map (\<lambda>(i, r). tr_hash r) records) then None else Some ErrDuplicateHash)"

section \<open>Persistence\<close>

definition persist_steps :: "persist_step list" where
  "persist_steps = [Encode_disk, Mkdir_all, Open_directory, Create_temp, Chmod_temp, Write_temp, Sync_temp,
     Close_temp, Rename_temp, Sync_directory, Close_directory]"

record persistResult =
  ps_committed :: bool
  ps_err :: "auth_error option"

definition disk_record :: "bool \<Rightarrow> tokenRecord \<Rightarrow> tokenRecord" where
  "disk_record flushLastSeen r =
     r\<lparr>tk_last_seen_at := (if flushLastSeen then tk_last_seen_at r else tr_persisted_last_seen r),
       tr_persisted_last_seen := None\<rparr>"

definition disk_tokens :: "bool \<Rightarrow> (string \<times> tokenRecord) list \<Rightarrow> tokenRecord list" where
  "disk_tokens flushLastSeen records =
     sort_key (\<lambda>r. (\<not> tk_bootstrap r, tk_id r)) (map (\<lambda>(i, r). disk_record flushLastSeen r) records)"

text \<open>\<open>fs st\<close> tells whether call \<open>st\<close> succeeds. A failure before the rename has happened leaves the file as
  it was; a failure after it is reported together with \<^verbatim>\<open>committed\<close>.\<close>

definition persistLocked :: "(persist_step \<Rightarrow> bool) \<Rightarrow> bool \<Rightarrow> auth_store \<Rightarrow> auth_store \<times> persistResult" where
  "persistLocked fs flushLastSeen s =
     (case find (\<lambda>st. \<not> fs st) persist_steps of
        None \<Rightarrow> (s\<lparr>as_disk := Some (disk_tokens flushLastSeen (as_records s))\<rparr>, \<lparr>ps_committed = True, ps_err = None\<rparr>)
      | Some st \<Rightarrow>
          if st = Sync_directory \<or> st = Close_directory
          then (s\<lparr>as_disk := Some (disk_tokens flushLastSeen (as_records s))\<rparr>,
                \<lparr>ps_committed = True, ps_err = Some (PersistFailed st)\<rparr>)
          else (s, \<lparr>ps_committed = False, ps_err = Some (PersistFailed st)\<rparr>))"

section \<open>Opening the store\<close>

datatype file_read =
    ReadError | NotExist | NotJSON | NullTokens | Trailing | Tokens "diskToken list"

text \<open>The loop of \<^verbatim>\<open>OpenStore\<close> over the decoded tokens.\<close>

fun load_tokens :: "diskToken list \<Rightarrow> auth_store \<Rightarrow> auth_error + auth_store" where
  "load_tokens [] s = Inr s"
| "load_tokens (d # ds) s =
     (case validateRecord d of
        Some e \<Rightarrow> Inl e
      | None \<Rightarrow>
          let r = (dk_record d)\<lparr>tr_persisted_last_seen := tk_last_seen_at (dk_record d)\<rparr> in
          if tk_id r \<in> fst ` set (as_records s) then Inl ErrDuplicateID
          else if tr_hash r \<in> set (map (\<lambda>(i, q). tr_hash q) (as_records s)) then Inl ErrDuplicateHash
          else load_tokens ds (s\<lparr>as_records := AList.update (tk_id r) r (as_records s),
             as_last_seen_persisted_at := (case tk_last_seen_at r of
                 None \<Rightarrow> as_last_seen_persisted_at s
               | Some t \<Rightarrow> max t (as_last_seen_persisted_at s))\<rparr>))"

definition empty_store :: "tokenRecord list option \<Rightarrow> auth_store" where
  "empty_store disk = \<lparr>as_records = [], as_subscribers = [], as_closed = [], as_invalidated = False,
     as_last_seen_persisted_at = 0, as_last_error = None, as_disk = disk\<rparr>"

text \<open>The loaded store and whether it has to be written, from the file and its permission bits
  (\<open>Inl\<close>: \<^verbatim>\<open>Stat\<close> fails; \<open>Inr True\<close>: the mode is 0600).\<close>

definition read_store :: "file_read \<Rightarrow> unit + bool \<Rightarrow> auth_error + auth_store \<times> bool" where
  "read_store file mode = (case file of
      ReadError \<Rightarrow> Inl ReadFailed
    | NotExist \<Rightarrow> Inr (empty_store None, True)
    | NotJSON \<Rightarrow> Inl DecodeFailed
    | NullTokens \<Rightarrow> Inl TokensMissing
    | Trailing \<Rightarrow> Inl TrailingJSON
    | Tokens ds \<Rightarrow>
        (case load_tokens ds (empty_store (Some (map dk_record ds))) of
           Inl e \<Rightarrow> Inl e
         | Inr s \<Rightarrow> (case mode of Inl _ \<Rightarrow> Inl StatFailed | Inr is_0600 \<Rightarrow> Inr (s, \<not> is_0600))))"

text \<open>Installing the bootstrap record.\<close>

definition bootstrap_record :: "string \<Rightarrow> time \<Rightarrow> tokenRecord" where
  "bootstrap_record bhash now = \<lparr>tk_id = bootstrapID, tk_label = bootstrapLabel, tk_created_at = now,
     tk_last_seen_at = None, tk_bootstrap = True, tr_hash = bhash, tr_persisted_last_seen = None\<rparr>"

definition install_bootstrap :: "string \<Rightarrow> time \<Rightarrow> auth_store \<Rightarrow> bool \<Rightarrow> auth_error + auth_store \<times> bool" where
  "install_bootstrap bhash now s changed = (case map_of (as_records s) bootstrapID of
      Some r \<Rightarrow>
        if \<not> tk_bootstrap r then Inl BootstrapManaged
        else if tr_hash r \<noteq> bhash \<or> tk_label r \<noteq> bootstrapLabel
          then Inr (s\<lparr>as_records := AList.update bootstrapID
                 (r\<lparr>tr_hash := bhash, tk_label := bootstrapLabel\<rparr>) (as_records s)\<rparr>, True)
        else Inr (s, changed)
    | None \<Rightarrow> Inr (s\<lparr>as_records := AList.update bootstrapID (bootstrap_record bhash now) (as_records s)\<rparr>, True))"

definition OpenStore ::
    "(string \<Rightarrow> string) \<Rightarrow> (persist_step \<Rightarrow> bool) \<Rightarrow> file_read \<Rightarrow> unit + bool \<Rightarrow> time \<Rightarrow> string \<Rightarrow> string \<Rightarrow>
     auth_error + auth_store" where
  "OpenStore hash fs file mode now path bootstrap =
     (if path = [] then Inl EmptyPath
      else if bootstrap = [] then Inl EmptyBootstrap
      else case read_store file mode of
        Inl e \<Rightarrow> Inl e
      | Inr (s, changed) \<Rightarrow>
          (case install_bootstrap (hash bootstrap) now s changed of
             Inl e \<Rightarrow> Inl e
           | Inr (s, changed) \<Rightarrow>
               (case validateUniqueHashes (as_records s) of
                  Some e \<Rightarrow> Inl e
                | None \<Rightarrow>
                    if changed
                    then (case persistLocked fs False s of
                            (s, res) \<Rightarrow> (case ps_err res of Some e \<Rightarrow> Inl e | None \<Rightarrow> Inr s))
                    else Inr s)))"

section \<open>Operations\<close>

text \<open>The scan of \<^verbatim>\<open>Authenticate\<close> over all records keeps the last one whose hash matches; hashes are
  unique, so the order of the iteration does not matter.\<close>

definition match_record :: "string \<Rightarrow> (string \<times> tokenRecord) list \<Rightarrow> (string \<times> tokenRecord) option" where
  "match_record h records = find (\<lambda>(i, r). tr_hash r = h) (rev records)"

definition seen_at :: "time \<Rightarrow> tokenRecord \<Rightarrow> time" where
  "seen_at now r =
     (let now = (if now < tk_created_at r then tk_created_at r else now)
      in case tk_last_seen_at r of None \<Rightarrow> now | Some t \<Rightarrow> if now < t then t else now)"

definition mark_persisted :: "(string \<times> tokenRecord) list \<Rightarrow> (string \<times> tokenRecord) list" where
  "mark_persisted records = map (\<lambda>(i, r). (i, r\<lparr>tr_persisted_last_seen := tk_last_seen_at r\<rparr>)) records"

definition Authenticate ::
    "(string \<Rightarrow> string) \<Rightarrow> (persist_step \<Rightarrow> bool) \<Rightarrow> time \<Rightarrow> string \<Rightarrow> auth_store \<Rightarrow> auth_store \<times> Principal option" where
  "Authenticate hash fs clock secret s =
     (case match_record (hash secret) (as_records s) of
        None \<Rightarrow> (s, None)
      | Some (i, r) \<Rightarrow>
          let now = seen_at clock r;
              s = s\<lparr>as_records := AList.update i (r\<lparr>tk_last_seen_at := Some now\<rparr>) (as_records s)\<rparr>;
              s = (if is_zero (as_last_seen_persisted_at s) \<or>
                      time_sub now (as_last_seen_persisted_at s) \<ge> persistInterval
                   then case persistLocked fs True s of (s, res) \<Rightarrow>
                     let s = s\<lparr>as_last_error := ps_err res\<rparr>
                     in if ps_committed res
                        then s\<lparr>as_last_seen_persisted_at := now, as_records := mark_persisted (as_records s)\<rparr>
                        else s
                   else s)
          in (s, Some \<lparr>pr_token_id = tk_id r, pr_role = (if tk_bootstrap r then RoleAdmin else RoleClient)\<rparr>))"

definition new_secret :: "byte list \<Rightarrow> string" where
  "new_secret bytes = ''wlt_'' @ hex_encode bytes"

definition new_record :: "(string \<Rightarrow> string) \<Rightarrow> byte list \<Rightarrow> time \<Rightarrow> string \<Rightarrow> tokenRecord" where
  "new_record hash bytes now label =
     \<lparr>tk_id = take 16 (hex_encode bytes), tk_label = label, tk_created_at = now, tk_last_seen_at = None,
      tk_bootstrap = False, tr_hash = hash (new_secret bytes), tr_persisted_last_seen = None\<rparr>"

text \<open>The second half of \<^verbatim>\<open>Issue\<close>: inserting the record, with its rollbacks.\<close>

definition insert_record ::
    "(persist_step \<Rightarrow> bool) \<Rightarrow> string \<Rightarrow> tokenRecord \<Rightarrow> auth_store \<Rightarrow> auth_store \<times> (auth_error + string \<times> TokenMeta)" where
  "insert_record fs secret r s =
     (let i = tk_id r in
      if i \<in> fst ` set (as_records s) then (s, Inl ErrDuplicateID)
      else case validateUniqueHashes (AList.update i r (as_records s)) of
        Some e \<Rightarrow> (s\<lparr>as_records := AList.delete i (AList.update i r (as_records s))\<rparr>, Inl e)
      | None \<Rightarrow>
          (case persistLocked fs False (s\<lparr>as_records := AList.update i r (as_records s)\<rparr>) of
             (s, res) \<Rightarrow>
               let s = s\<lparr>as_last_error := ps_err res\<rparr>
               in case ps_err res of
                 Some e \<Rightarrow>
                   if \<not> ps_committed res then (s\<lparr>as_records := AList.delete i (as_records s)\<rparr>, Inl e)
                   else (s, Inr (secret, TokenMeta.truncate r))
               | None \<Rightarrow> (s, Inr (secret, TokenMeta.truncate r))))"

text \<open>\<open>raw\<close> are the 32 bytes read from the random source, \<open>None\<close> if the read fails.\<close>

definition Issue ::
    "(string \<Rightarrow> string) \<Rightarrow> (persist_step \<Rightarrow> bool) \<Rightarrow> byte list option \<Rightarrow> time \<Rightarrow> string \<Rightarrow> auth_store \<Rightarrow>
     auth_store \<times> (auth_error + string \<times> TokenMeta)" where
  "Issue hash fs raw now label s =
     (case validateLabel label of
        Some e \<Rightarrow> (s, Inl e)
      | None \<Rightarrow>
          (case raw of
             None \<Rightarrow> (s, Inl RandomFailed)
           | Some bytes \<Rightarrow> insert_record fs (new_secret bytes) (new_record hash bytes now label) s))"

definition List_tokens :: "auth_store \<Rightarrow> TokenMeta list" where
  "List_tokens s = sort_key (\<lambda>m. (\<not> tk_bootstrap m, tk_created_at m, tk_id m))
     (map (\<lambda>(i, r). TokenMeta.truncate r) (as_records s))"

definition notifyRevokedLocked :: "string \<Rightarrow> auth_store \<Rightarrow> auth_store" where
  "notifyRevokedLocked i s =
     s\<lparr>as_closed := as_closed s @ (case map_of (as_subscribers s) i of None \<Rightarrow> [] | Some chs \<Rightarrow> chs),
       as_subscribers := AList.delete i (as_subscribers s)\<rparr>"

definition Revoke :: "(persist_step \<Rightarrow> bool) \<Rightarrow> string \<Rightarrow> auth_store \<Rightarrow> auth_store \<times> auth_error option" where
  "Revoke fs i s =
     (if i = bootstrapID then (s, Some ErrBootstrapToken)
      else case map_of (as_records s) i of
        None \<Rightarrow> (s, Some ErrTokenNotFound)
      | Some r \<Rightarrow>
          if tk_bootstrap r then (s, Some ErrTokenNotFound)
          else case persistLocked fs False (s\<lparr>as_records := AList.delete i (as_records s)\<rparr>) of
            (s, res) \<Rightarrow>
              let s = s\<lparr>as_last_error := ps_err res\<rparr>
              in if ps_err res \<noteq> None \<and> \<not> ps_committed res
                 then (s\<lparr>as_records := AList.update i r (as_records s)\<rparr>, ps_err res)
                 else (notifyRevokedLocked i s, None))"

datatype subscription = NotActive | ActiveBootstrap | Watching nat

definition SubscribeRevocation :: "nat \<Rightarrow> string \<Rightarrow> auth_store \<Rightarrow> auth_store \<times> subscription" where
  "SubscribeRevocation ch i s =
     (if i = bootstrapID then (s, ActiveBootstrap)
      else if as_invalidated s then (s, NotActive)
      else case map_of (as_records s) i of
        None \<Rightarrow> (s, NotActive)
      | Some r \<Rightarrow>
          if tk_bootstrap r then (s, NotActive)
          else (s\<lparr>as_subscribers := AList.update i
                 (ch # (case map_of (as_subscribers s) i of None \<Rightarrow> [] | Some chs \<Rightarrow> chs)) (as_subscribers s)\<rparr>,
                Watching ch))"

definition cancel_revocation :: "nat \<Rightarrow> string \<Rightarrow> auth_store \<Rightarrow> auth_store" where
  "cancel_revocation ch i s = (case map_of (as_subscribers s) i of
      None \<Rightarrow> s
    | Some chs \<Rightarrow>
        let chs' = removeAll ch chs
        in s\<lparr>as_subscribers := (if chs' = [] then AList.delete i (as_subscribers s)
               else AList.update i chs' (as_subscribers s))\<rparr>)"

definition InvalidateManagedSubscribers :: "auth_store \<Rightarrow> auth_store" where
  "InvalidateManagedSubscribers s =
     fold notifyRevokedLocked (map fst (as_subscribers s)) (s\<lparr>as_invalidated := True\<rparr>)"

section \<open>Invariant\<close>

definition token_keys :: "tokenRecord list \<Rightarrow> (string \<times> string) set" where
  "token_keys rs = (\<lambda>r. (tk_id r, tr_hash r)) ` set rs"

definition records_inv :: "(string \<times> tokenRecord) list \<Rightarrow> bool" where
  "records_inv rs \<longleftrightarrow> distinct (map fst rs) \<and> distinct (map (\<lambda>(i, r). tr_hash r) rs) \<and>
     (\<forall>(i, r) \<in> set rs. tk_id r = i \<and> (tk_bootstrap r \<longleftrightarrow> i = bootstrapID)) \<and>
     bootstrapID \<in> fst ` set rs"

definition auth_inv :: "auth_store \<Rightarrow> bool" where
  "auth_inv s \<longleftrightarrow> records_inv (as_records s) \<and>
     (\<exists>d. as_disk s = Some d \<and> token_keys d = token_keys (map snd (as_records s))) \<and>
     fst ` set (as_subscribers s) \<subseteq> fst ` set (as_records s) - {bootstrapID} \<and>
     (as_invalidated s \<longrightarrow> as_subscribers s = [])"

lemma persist_cases:
  "persistLocked fs fl s = (s\<lparr>as_disk := Some (disk_tokens fl (as_records s))\<rparr>, \<lparr>ps_committed = True, ps_err = None\<rparr>) \<or>
   (\<exists>e. persistLocked fs fl s = (s\<lparr>as_disk := Some (disk_tokens fl (as_records s))\<rparr>, \<lparr>ps_committed = True, ps_err = Some e\<rparr>)) \<or>
   (\<exists>e. persistLocked fs fl s = (s, \<lparr>ps_committed = False, ps_err = Some e\<rparr>))"
  by (auto simp: persistLocked_def split: option.split)

lemma token_keys_disk [simp]: "token_keys (disk_tokens fl rs) = token_keys (map snd rs)"
  by (force simp: token_keys_def disk_tokens_def disk_record_def image_image case_prod_beta)

lemma map_update_same:
  "map_of al k = Some v \<Longrightarrow> f v' = f v \<Longrightarrow> map (\<lambda>(i, x). f x) (AList.update k v' al) = map (\<lambda>(i, x). f x) al"
  by (induction al) (auto split: if_splits)

lemma token_keys_map: "token_keys (map snd rs) = set (map (\<lambda>(i, r). (tk_id r, tr_hash r)) rs)"
  by (force simp: token_keys_def)

lemma records_inv_key:
  "records_inv rs \<Longrightarrow> (i, r) \<in> set rs \<Longrightarrow> tk_id r = i \<and> (tk_bootstrap r \<longleftrightarrow> i = bootstrapID)"
  by (auto simp: records_inv_def)

lemma records_inv_bootstrap: "records_inv rs \<Longrightarrow> \<exists>r. (bootstrapID, r) \<in> set rs \<and> tk_bootstrap r"
proof -
  assume inv: "records_inv rs"
  then obtain r where "(bootstrapID, r) \<in> set rs" by (auto simp: records_inv_def)
  then show ?thesis using records_inv_key [OF inv] by blast
qed

lemma records_inv_refresh:
  assumes "records_inv rs" "map_of rs i = Some r"
    and "tk_id r' = tk_id r" "tk_bootstrap r' = tk_bootstrap r" "tr_hash r' = tr_hash r"
  shows "records_inv (AList.update i r' rs)" "token_keys (map snd (AList.update i r' rs)) = token_keys (map snd rs)"
proof -
  have i: "i \<in> fst ` set rs" using assms(2) by (rule map_of_SomeD_fst)
  have m: "(i, r) \<in> set rs" using assms(2) by (rule map_of_SomeD)
  have h: "map (\<lambda>(i, r). tr_hash r) (AList.update i r' rs) = map (\<lambda>(i, r). tr_hash r) rs"
    by (rule map_update_same [OF assms(2)]) (rule assms(5))
  have all: "\<forall>(j, q) \<in> set rs. tk_id q = j \<and> (tk_bootstrap q \<longleftrightarrow> j = bootstrapID)"
    using assms(1) by (simp add: records_inv_def)
  have "tk_id r' = i \<and> (tk_bootstrap r' \<longleftrightarrow> i = bootstrapID)"
    using bspec [OF all m] assms(3,4) by simp
  then have "\<forall>(j, q) \<in> insert (i, r') (set rs). tk_id q = j \<and> (tk_bootstrap q \<longleftrightarrow> j = bootstrapID)"
    using all by simp
  then have all': "\<forall>(j, q) \<in> set (AList.update i r' rs). tk_id q = j \<and> (tk_bootstrap q \<longleftrightarrow> j = bootstrapID)"
    using set_update_subset [of i r' rs] by (meson subsetD)
  have "distinct (map fst rs)" "distinct (map (\<lambda>(i, r). tr_hash r) rs)" "bootstrapID \<in> fst ` set rs"
    using assms(1) by (simp_all add: records_inv_def)
  then show "records_inv (AList.update i r' rs)"
    unfolding records_inv_def h map_fst_update_mem [OF i] using all' by simp
  show "token_keys (map snd (AList.update i r' rs)) = token_keys (map snd rs)"
    unfolding token_keys_map by (subst map_update_same [OF assms(2)]) (simp_all add: assms(3,5))
qed

lemma records_inv_map:
  assumes "\<And>r. tk_id (f r) = tk_id r \<and> tk_bootstrap (f r) = tk_bootstrap r \<and> tr_hash (f r) = tr_hash r"
  shows "records_inv (map (\<lambda>(i, r). (i, f r)) rs) = records_inv rs"
    and "token_keys (map snd (map (\<lambda>(i, r). (i, f r)) rs)) = token_keys (map snd rs)"
proof -
  have "map (\<lambda>(i, r). tr_hash r) (map (\<lambda>(i, r). (i, f r)) rs) = map (\<lambda>(i, r). tr_hash r) rs"
    using assms by auto
  moreover have "fst ` set (map (\<lambda>(i, r). (i, f r)) rs) = fst ` set rs" by force
  moreover have "(\<forall>(i, r) \<in> set (map (\<lambda>(i, r). (i, f r)) rs). tk_id r = i \<and> (tk_bootstrap r \<longleftrightarrow> i = bootstrapID)) \<longleftrightarrow>
      (\<forall>(i, r) \<in> set rs. tk_id r = i \<and> (tk_bootstrap r \<longleftrightarrow> i = bootstrapID))"
    using assms by auto
  ultimately show "records_inv (map (\<lambda>(i, r). (i, f r)) rs) = records_inv rs"
    unfolding records_inv_def by (simp only: map_fst_map_snd)
  show "token_keys (map snd (map (\<lambda>(i, r). (i, f r)) rs)) = token_keys (map snd rs)"
    using assms by (induction rs) (auto simp: token_keys_def)
qed

lemma mark_persisted_inv [simp]:
  "records_inv (mark_persisted rs) = records_inv rs"
  "token_keys (map snd (mark_persisted rs)) = token_keys (map snd rs)"
  "fst ` set (mark_persisted rs) = fst ` set rs"
  unfolding mark_persisted_def by (rule records_inv_map, simp)+ force

lemma match_record_Some:
  assumes "records_inv rs" "match_record h rs = Some (i, r)"
  shows "map_of rs i = Some r" "tr_hash r = h" "tk_id r = i" "tk_bootstrap r \<longleftrightarrow> i = bootstrapID"
proof -
  have m: "(i, r) \<in> set rs" "tr_hash r = h"
    using find_SomeD [OF assms(2) [unfolded match_record_def]] by simp_all
  then show "map_of rs i = Some r" "tr_hash r = h" "tk_id r = i" "tk_bootstrap r \<longleftrightarrow> i = bootstrapID"
    using assms(1) by (auto simp: records_inv_def)
qed

lemma match_record_unique:
  assumes "records_inv rs" "(i, r) \<in> set rs"
  shows "match_record (tr_hash r) rs = Some (i, r)"
proof -
  have "match_record (tr_hash r) rs \<noteq> None"
    using assms(2) by (auto simp: match_record_def find_None_iff)
  then obtain j q where m: "match_record (tr_hash r) rs = Some (j, q)" by auto
  then have "(j, q) \<in> set rs" "tr_hash q = tr_hash r"
    using match_record_Some [OF assms(1) m] by (auto dest: map_of_SomeD)
  moreover have "inj_on (\<lambda>(i, r). tr_hash r) (set rs)"
    using assms(1) by (simp add: records_inv_def distinct_map)
  ultimately have "(j, q) = (i, r)" using inj_onD [of _ "set rs" "(j, q)" "(i, r)"] assms(2) by fastforce
  with m show ?thesis by simp
qed

lemma Authenticate_inv: "auth_inv s \<Longrightarrow> auth_inv (fst (Authenticate hash fs clock secret s))"
proof -
  assume inv: "auth_inv s"
  show ?thesis
  proof (cases "match_record (hash secret) (as_records s)")
    case None
    then show ?thesis using inv by (simp add: Authenticate_def)
  next
    case (Some p)
    obtain i r where p: "p = (i, r)" by force
    have ri: "records_inv (as_records s)" using inv by (simp add: auth_inv_def)
    note m = match_record_Some [OF ri Some [unfolded p]]
    let ?r = "r\<lparr>tk_last_seen_at := Some (seen_at clock r)\<rparr>"
    let ?s = "s\<lparr>as_records := AList.update i ?r (as_records s)\<rparr>"
    have u: "records_inv (as_records ?s)" "token_keys (map snd (as_records ?s)) = token_keys (map snd (as_records s))"
      using records_inv_refresh [OF ri m(1), of ?r] by simp_all
    have k: "fst ` set (as_records ?s) = fst ` set (as_records s)"
      using map_of_SomeD_fst [OF m(1)] by auto
    have "auth_inv ?s" using inv u k by (simp add: auth_inv_def insert_absorb)
    moreover have "auth_inv (?s\<lparr>as_disk := Some (disk_tokens True (as_records ?s)), as_last_error := e,
        as_last_seen_persisted_at := t, as_records := mark_persisted (as_records ?s)\<rparr>)" for e t
      using inv u k by (simp add: auth_inv_def insert_absorb)
    moreover have "auth_inv (?s\<lparr>as_last_error := e\<rparr>)" for e
      using inv u k by (simp add: auth_inv_def insert_absorb)
    ultimately show ?thesis
      using persist_cases [of fs True ?s] Some p by (auto simp: Authenticate_def Let_def)
  qed
qed

lemma delete_update_fresh: "i \<notin> fst ` set al \<Longrightarrow> AList.delete i (AList.update i v al) = al"
  by (induction al) (auto simp: AList.delete_eq)

lemma update_fresh_append: "i \<notin> fst ` set al \<Longrightarrow> AList.update i v al = al @ [(i, v)]"
  by (induction al) auto

lemma records_inv_insert:
  assumes "records_inv rs" "i \<notin> fst ` set rs" "validateUniqueHashes (AList.update i r rs) = None"
    and "tk_id r = i" "\<not> tk_bootstrap r"
  shows "records_inv (AList.update i r rs)"
proof -
  have "i \<noteq> bootstrapID" using assms(1,2) by (auto simp: records_inv_def)
  then show ?thesis
    using assms by (auto simp: records_inv_def validateUniqueHashes_def update_fresh_append split: if_splits)
qed

lemma records_inv_delete: "records_inv rs \<Longrightarrow> i \<noteq> bootstrapID \<Longrightarrow> records_inv (AList.delete i rs)"
  unfolding records_inv_def fst_set_delete
  by (simp add: AList.delete_eq distinct_map_filter)

lemma records_inv_perm:
  assumes "mset rs = mset rs'" shows "records_inv rs = records_inv rs'"
proof -
  have d: "distinct (map f rs) = distinct (map f rs')" for f :: "string \<times> tokenRecord \<Rightarrow> string"
    using assms by (metis mset_map mset_eq_imp_distinct_iff)
  show ?thesis unfolding records_inv_def d using mset_eq_setD [OF assms] by simp
qed

lemma mset_delete_append:
  "distinct (map fst al) \<Longrightarrow> map_of al i = Some v \<Longrightarrow> mset (AList.delete i al @ [(i, v)]) = mset al"
proof (induction al)
  case (Cons a al)
  show ?case
  proof (cases "fst a = i")
    case True
    then have "AList.delete i al = al" using Cons.prems(1) by (intro delete_id) simp
    moreover have "a = (i, v)" using Cons.prems(2) True by (cases a) simp
    ultimately show ?thesis by (simp add: AList.delete_eq)
  next
    case False
    then show ?thesis using Cons by (cases a) (simp add: AList.delete_eq)
  qed
qed simp

lemma restore_record:
  assumes "records_inv rs" "map_of rs i = Some r"
  shows "records_inv (AList.update i r (AList.delete i rs))"
    and "token_keys (map snd (AList.update i r (AList.delete i rs))) = token_keys (map snd rs)"
    and "fst ` set (AList.update i r (AList.delete i rs)) = fst ` set rs"
proof -
  have e: "AList.update i r (AList.delete i rs) = AList.delete i rs @ [(i, r)]"
    by (rule update_fresh_append) simp
  have m: "mset (AList.update i r (AList.delete i rs)) = mset rs"
    unfolding e using assms by (intro mset_delete_append) (simp_all add: records_inv_def)
  show "records_inv (AList.update i r (AList.delete i rs))" using records_inv_perm [OF m] assms(1) by simp
  show "token_keys (map snd (AList.update i r (AList.delete i rs))) = token_keys (map snd rs)"
    unfolding token_keys_def using mset_eq_setD [OF m] by simp
  show "fst ` set (AList.update i r (AList.delete i rs)) = fst ` set rs"
    using mset_eq_setD [OF m] by simp
qed

lemma insert_record_cases:
  assumes "auth_inv s" "\<not> tk_bootstrap r"
  defines "s' \<equiv> s\<lparr>as_records := AList.update (tk_id r) r (as_records s)\<rparr>"
  shows "(\<exists>e. insert_record fs secret r s = (s, Inl e)) \<or>
    (\<exists>e. insert_record fs secret r s = (s\<lparr>as_last_error := Some e\<rparr>, Inl e)) \<or>
    (\<exists>e. records_inv (as_records s') \<and> tk_id r \<notin> fst ` set (as_records s) \<and> insert_record fs secret r s =
       (s'\<lparr>as_disk := Some (disk_tokens False (as_records s')), as_last_error := e\<rparr>, Inr (secret, TokenMeta.truncate r)))"
proof (cases "tk_id r \<in> fst ` set (as_records s) \<or> validateUniqueHashes (as_records s') \<noteq> None")
  case True
  then show ?thesis
    by (auto simp: insert_record_def Let_def s'_def delete_update_fresh)
next
  case False
  have ri: "records_inv (as_records s')"
    using assms(1,2) False by (auto simp: s'_def auth_inv_def intro!: records_inv_insert)
  have rec: "AList.delete (tk_id r) (as_records s') = as_records s"
    using False by (simp add: s'_def delete_update_fresh)
  have undo: "s'\<lparr>as_last_error := e, as_records := AList.delete (tk_id r) (as_records s')\<rparr> = s\<lparr>as_last_error := e\<rparr>" for e
    unfolding rec by (simp add: s'_def)
  have eq: "insert_record fs secret r s = (case persistLocked fs False s' of (s, res) \<Rightarrow>
      let s = s\<lparr>as_last_error := ps_err res\<rparr>
      in case ps_err res of
           Some e \<Rightarrow> if \<not> ps_committed res then (s\<lparr>as_records := AList.delete (tk_id r) (as_records s)\<rparr>, Inl e)
                     else (s, Inr (secret, TokenMeta.truncate r))
         | None \<Rightarrow> (s, Inr (secret, TokenMeta.truncate r)))"
    using False by (simp add: insert_record_def Let_def s'_def)
  consider (ok) e where "persistLocked fs False s' = (s'\<lparr>as_disk := Some (disk_tokens False (as_records s'))\<rparr>,
        \<lparr>ps_committed = True, ps_err = e\<rparr>)"
    | (bad) e where "persistLocked fs False s' = (s', \<lparr>ps_committed = False, ps_err = Some e\<rparr>)"
    using persist_cases [of fs False s'] by blast
  then show ?thesis
  proof cases
    case ok
    then show ?thesis using ri False unfolding eq
      by (intro disjI2 exI [of _ e]) (cases e, simp_all)
  next
    case bad
    then show ?thesis unfolding eq using undo by simp
  qed
qed

lemma auth_inv_error [simp]: "auth_inv (s\<lparr>as_last_error := e\<rparr>) = auth_inv s"
  by (simp add: auth_inv_def)

lemma Issue_inv: "auth_inv s \<Longrightarrow> auth_inv (fst (Issue hash fs raw now label s))"
proof -
  assume inv: "auth_inv s"
  have "auth_inv (fst (insert_record fs secret r s))" if "\<not> tk_bootstrap r" for secret r
    using insert_record_cases [OF inv that, of fs secret] inv
    by (elim disjE exE conjE) (auto simp: auth_inv_def)
  then show ?thesis
    using inv by (simp add: Issue_def new_record_def split: option.split)
qed

lemma auth_inv_notify:
  assumes "records_inv (as_records s)" "\<exists>d. as_disk s = Some d \<and> token_keys d = token_keys (map snd (as_records s))"
    and "fst ` set (as_subscribers s) - {i} \<subseteq> fst ` set (as_records s) - {bootstrapID}"
    and "as_invalidated s \<longrightarrow> as_subscribers s = []"
  shows "auth_inv (notifyRevokedLocked i s)"
  using assms by (auto simp: auth_inv_def notifyRevokedLocked_def)

lemma Revoke_inv: "auth_inv s \<Longrightarrow> auth_inv (fst (Revoke fs i s))"
proof -
  assume inv: "auth_inv s"
  show ?thesis
  proof (cases "i = bootstrapID \<or> map_of (as_records s) i = None \<or> tk_bootstrap (the (map_of (as_records s) i))")
    case True
    then show ?thesis using inv by (auto simp: Revoke_def split: option.split)
  next
    case False
    then obtain r where r: "i \<noteq> bootstrapID" "map_of (as_records s) i = Some r" "\<not> tk_bootstrap r" by auto
    have ri: "records_inv (as_records s)" using inv by (simp add: auth_inv_def)
    let ?s = "s\<lparr>as_records := AList.delete i (as_records s)\<rparr>"
    have ok: "auth_inv (notifyRevokedLocked i
        (?s\<lparr>as_disk := Some (disk_tokens False (as_records ?s)), as_last_error := e\<rparr>))" for e
      using inv r records_inv_delete [OF ri r(1)] by (intro auth_inv_notify) (auto simp: auth_inv_def)
    have bad: "auth_inv (?s\<lparr>as_last_error := e, as_records := AList.update i r (as_records ?s)\<rparr>)" for e
      using inv restore_record [OF ri r(2)] by (simp add: auth_inv_def)
    show ?thesis
      using persist_cases [of fs False ?s] ok bad r by (auto simp: Revoke_def Let_def)
  qed
qed

lemma SubscribeRevocation_inv: "auth_inv s \<Longrightarrow> auth_inv (fst (SubscribeRevocation ch i s))"
proof -
  assume inv: "auth_inv s"
  have "i \<in> fst ` set (as_records s)" if "map_of (as_records s) i = Some r" for r
    using that by (rule map_of_SomeD_fst)
  then show ?thesis
    using inv by (auto simp: SubscribeRevocation_def auth_inv_def split: option.split)
qed

lemma cancel_revocation_inv: "auth_inv s \<Longrightarrow> auth_inv (cancel_revocation ch i s)"
proof -
  assume inv: "auth_inv s"
  have "i \<in> fst ` set (as_subscribers s)" if "map_of (as_subscribers s) i = Some chs" for chs
    using that by (rule map_of_SomeD_fst)
  then show ?thesis
    using inv by (cases "map_of (as_subscribers s) i")
      (simp_all add: cancel_revocation_def auth_inv_def Let_def subset_iff, force)
qed

lemma notify_all:
  "as_subscribers (fold notifyRevokedLocked is s) = fold AList.delete is (as_subscribers s) \<and>
   as_records (fold notifyRevokedLocked is s) = as_records s \<and>
   as_disk (fold notifyRevokedLocked is s) = as_disk s"
  by (induction "is" arbitrary: s) (simp_all add: notifyRevokedLocked_def)

lemma fold_delete_all: "fst ` set al \<subseteq> set is \<Longrightarrow> fold AList.delete is al = []"
proof (induction "is" arbitrary: al)
  case (Cons i "is")
  then have "fst ` set (AList.delete i al) \<subseteq> set is" by auto
  then show ?case by (simp add: Cons.IH)
qed simp

lemma InvalidateManagedSubscribers_effect:
  "as_subscribers (InvalidateManagedSubscribers s) = []"
  "as_records (InvalidateManagedSubscribers s) = as_records s"
  "as_disk (InvalidateManagedSubscribers s) = as_disk s"
  unfolding InvalidateManagedSubscribers_def notify_all [THEN conjunct1] notify_all [THEN conjunct2, THEN conjunct1]
    notify_all [THEN conjunct2, THEN conjunct2]
  by (simp_all add: fold_delete_all)

lemma Invalidate_inv: "auth_inv s \<Longrightarrow> auth_inv (InvalidateManagedSubscribers s)"
  by (simp add: auth_inv_def InvalidateManagedSubscribers_effect)

section \<open>The opened store\<close>

definition loaded :: "diskToken list \<Rightarrow> auth_store \<Rightarrow> bool" where
  "loaded ds s \<longleftrightarrow> distinct (map fst (as_records s)) \<and> distinct (map (\<lambda>(i, r). tr_hash r) (as_records s)) \<and>
     (\<forall>(i, r) \<in> set (as_records s). tk_id r = i \<and> (tk_bootstrap r \<longleftrightarrow> i = bootstrapID)) \<and>
     token_keys (map snd (as_records s)) = token_keys (map dk_record ds) \<and>
     as_subscribers s = [] \<and> \<not> as_invalidated s"

lemma validateRecord_bootstrap:
  "validateRecord d = None \<Longrightarrow> tk_bootstrap (dk_record d) \<longleftrightarrow> tk_id (dk_record d) = bootstrapID"
  by (auto simp: validateRecord_def Let_def split: option.splits if_splits)

lemma load_tokens_loaded:
  "load_tokens ds s = Inr s' \<Longrightarrow> loaded done s \<Longrightarrow> loaded (done @ ds) s' \<and> as_disk s' = as_disk s"
proof (induction ds arbitrary: s "done")
  case (Cons d ds)
  let ?r = "(dk_record d)\<lparr>tr_persisted_last_seen := tk_last_seen_at (dk_record d)\<rparr>"
  let ?s = "s\<lparr>as_records := AList.update (tk_id ?r) ?r (as_records s),
       as_last_seen_persisted_at := (case tk_last_seen_at ?r of None \<Rightarrow> as_last_seen_persisted_at s
         | Some t \<Rightarrow> max t (as_last_seen_persisted_at s))\<rparr>"
  have v: "validateRecord d = None" "tk_id ?r \<notin> fst ` set (as_records s)"
    "tr_hash ?r \<notin> set (map (\<lambda>(i, q). tr_hash q) (as_records s))" and l: "load_tokens ds ?s = Inr s'"
    using Cons.prems(1) by (auto simp: Let_def split: option.splits if_splits)
  have "token_keys (map snd (as_records ?s)) = token_keys (map dk_record (done @ [d]))"
    using Cons.prems(2) v(2) by (auto simp: token_keys_def update_fresh_append loaded_def)
  then have "loaded (done @ [d]) ?s"
    using Cons.prems(2) v validateRecord_bootstrap [OF v(1)]
    by (simp add: loaded_def update_fresh_append)
  from Cons.IH [OF l this] show ?case by simp
qed simp

lemma install_bootstrap_records:
  assumes "loaded ds s" "install_bootstrap bhash now s changed = Inr (s', changed')"
    and "validateUniqueHashes (as_records s') = None"
  shows "records_inv (as_records s')" "\<not> changed' \<Longrightarrow> s' = s" "as_subscribers s' = []" "\<not> as_invalidated s'"
proof -
  have sub: "as_subscribers s' = [] \<and> \<not> as_invalidated s' \<and> (\<not> changed' \<longrightarrow> s' = s)"
    using assms(1,2) by (auto simp: install_bootstrap_def loaded_def split: option.splits if_splits)
  then show "\<not> changed' \<Longrightarrow> s' = s" "as_subscribers s' = []" "\<not> as_invalidated s'" by auto
  obtain r where s': "as_records s' = as_records s \<and> bootstrapID \<in> fst ` set (as_records s) \<or>
      as_records s' = AList.update bootstrapID r (as_records s) \<and> tk_id r = bootstrapID \<and> tk_bootstrap r"
  proof (cases "map_of (as_records s) bootstrapID")
    case None
    then show ?thesis using assms(2) that [of "bootstrap_record bhash now"]
      by (auto simp: install_bootstrap_def bootstrap_record_def)
  next
    case (Some r)
    have "tk_id r = bootstrapID" using assms(1) Some by (auto simp: loaded_def dest: map_of_SomeD)
    then show ?thesis
      using assms(2) that [of "r\<lparr>tr_hash := bhash, tk_label := bootstrapLabel\<rparr>"] Some map_of_SomeD_fst [OF Some]
      by (auto simp: install_bootstrap_def split: if_splits)
  qed
  moreover have "set (AList.update bootstrapID r (as_records s)) \<subseteq> insert (bootstrapID, r) (set (as_records s))"
    by (rule set_update_subset)
  ultimately show "records_inv (as_records s')"
    using assms(1,3) unfolding records_inv_def loaded_def validateUniqueHashes_def
    by (elim disjE) (auto simp: distinct_update split: if_splits)
qed

lemma read_store_loaded:
  assumes "read_store file mode = Inr (s, changed)"
  shows "\<exists>ds. loaded ds s \<and> (\<not> changed \<longrightarrow> as_disk s = Some (map dk_record ds))"
proof -
  have e: "loaded [] (empty_store d)" for d by (simp add: loaded_def empty_store_def token_keys_def)
  show ?thesis
  proof (cases "file")
    case NotExist
    then show ?thesis using assms e [of None] by (auto simp: read_store_def)
  next
    case (Tokens ds)
    then obtain s0 where l: "load_tokens ds (empty_store (Some (map dk_record ds))) = Inr s0" "s = s0"
      using assms by (auto simp: read_store_def split: sum.splits)
    from load_tokens_loaded [OF l(1) e] have "loaded ds s \<and> as_disk s = Some (map dk_record ds)"
      unfolding l(2) by (simp add: empty_store_def)
    then show ?thesis by blast
  qed (use assms in \<open>auto simp: read_store_def\<close>)
qed

lemma OpenStore_cases:
  assumes "OpenStore hash fs file mode now path bootstrap = Inr s"
  obtains s0 c0 s1 c1 where "read_store file mode = Inr (s0, c0)"
    and "install_bootstrap (hash bootstrap) now s0 c0 = Inr (s1, c1)"
    and "validateUniqueHashes (as_records s1) = None"
    and "if c1 then s = fst (persistLocked fs False s1) \<and> ps_err (snd (persistLocked fs False s1)) = None
         else s = s1"
  using assms by (auto simp: OpenStore_def split: if_splits sum.splits option.splits prod.splits)

lemma OpenStore_inv:
  assumes "OpenStore hash fs file mode now path bootstrap = Inr s"
  shows "auth_inv s"
proof -
  obtain s0 c0 s1 c1 where r: "read_store file mode = Inr (s0, c0)"
    and b: "install_bootstrap (hash bootstrap) now s0 c0 = Inr (s1, c1)"
    and u: "validateUniqueHashes (as_records s1) = None"
    and p: "if c1 then s = fst (persistLocked fs False s1) \<and> ps_err (snd (persistLocked fs False s1)) = None
            else s = s1"
    using assms by (rule OpenStore_cases)
  obtain ds where l: "loaded ds s0" "\<not> c0 \<longrightarrow> as_disk s0 = Some (map dk_record ds)"
    using read_store_loaded [OF r] by blast
  note i = install_bootstrap_records [OF l(1) b u]
  show ?thesis
  proof (cases c1)
    case True
    then have "s = s1\<lparr>as_disk := Some (disk_tokens False (as_records s1))\<rparr>"
      using p persist_cases [of fs False s1] by auto
    then show ?thesis using i by (simp add: auth_inv_def)
  next
    case False
    then have "\<not> c0" using b by (auto simp: install_bootstrap_def split: option.splits if_splits)
    moreover have "s = s0" using False p i(2) by simp
    ultimately show ?thesis
      using i l p False by (simp add: auth_inv_def loaded_def)
  qed
qed

section \<open>Reachable stores\<close>

inductive auth_step :: "(string \<Rightarrow> string) \<Rightarrow> auth_store \<Rightarrow> auth_store \<Rightarrow> bool" for hash where
  authenticate: "auth_step hash s (fst (Authenticate hash fs clock secret s))"
| issue: "length bytes = 32 \<Longrightarrow> now \<noteq> 0 \<Longrightarrow> auth_step hash s (fst (Issue hash fs (Some bytes) now label s))"
| issue_failed: "auth_step hash s (fst (Issue hash fs None now label s))"
| revoke: "auth_step hash s (fst (Revoke fs i s))"
| subscribe: "auth_step hash s (fst (SubscribeRevocation ch i s))"
| cancel: "auth_step hash s (cancel_revocation ch i s)"
| invalidate: "auth_step hash s (InvalidateManagedSubscribers s)"

inductive auth_reach :: "(string \<Rightarrow> string) \<Rightarrow> string \<Rightarrow> auth_store \<Rightarrow> bool" for hash b where
  opened: "OpenStore hash fs file mode now path b = Inr s \<Longrightarrow> now \<noteq> 0 \<Longrightarrow> auth_reach hash b s"
| step: "auth_reach hash b s \<Longrightarrow> auth_step hash s s' \<Longrightarrow> auth_reach hash b s'"

lemma auth_step_inv: "auth_step hash s s' \<Longrightarrow> auth_inv s \<Longrightarrow> auth_inv s'"
  by (induction rule: auth_step.induct)
    (simp_all only: Authenticate_inv Issue_inv Revoke_inv SubscribeRevocation_inv cancel_revocation_inv Invalidate_inv)

lemma auth_reach_inv: "auth_reach hash b s \<Longrightarrow> auth_inv s"
  by (induction rule: auth_reach.induct) (blast intro: OpenStore_inv auth_step_inv)+

text \<open>How an operation can change the records: it refreshes one, adds a client, removes a client, or
  leaves them alone (up to the order of the map).\<close>

definition same_but_seen :: "tokenRecord \<Rightarrow> tokenRecord \<Rightarrow> bool" where
  "same_but_seen r r' \<longleftrightarrow> tk_id r' = tk_id r \<and> tk_label r' = tk_label r \<and> tk_created_at r' = tk_created_at r \<and>
     tk_bootstrap r' = tk_bootstrap r \<and> tr_hash r' = tr_hash r"

lemma persist_records [simp]: "as_records (fst (persistLocked fs fl s)) = as_records s"
  using persist_cases [of fs fl s] by auto

lemma Authenticate_records:
  assumes "auth_inv s" "(j, q) \<in> set (as_records (fst (Authenticate hash fs clock secret s)))"
  shows "\<exists>q0. (j, q0) \<in> set (as_records s) \<and> same_but_seen q0 q"
proof (cases "match_record (hash secret) (as_records s)")
  case None
  then show ?thesis using assms(2) by (auto simp: Authenticate_def same_but_seen_def)
next
  case (Some p)
  obtain i r where p: "p = (i, r)" by force
  have ri: "records_inv (as_records s)" using assms(1) by (simp add: auth_inv_def)
  note m = match_record_Some [OF ri Some [unfolded p]]
  let ?r = "r\<lparr>tk_last_seen_at := Some (seen_at clock r)\<rparr>"
  let ?rs = "AList.update i ?r (as_records s)"
  have "as_records (fst (Authenticate hash fs clock secret s)) \<in> {?rs, mark_persisted ?rs}"
    using persist_cases [of fs True "s\<lparr>as_records := ?rs\<rparr>"]
    by (auto simp: Authenticate_def Some p Let_def)
  then have "(j, q) \<in> set ?rs \<or> (\<exists>x. (j, x) \<in> set ?rs \<and> q = x\<lparr>tr_persisted_last_seen := tk_last_seen_at x\<rparr>)"
    using assms(2) by (auto simp: mark_persisted_def)
  moreover have "same_but_seen x x" "same_but_seen x (x\<lparr>tr_persisted_last_seen := t\<rparr>)" for x t
    by (simp_all add: same_but_seen_def)
  ultimately have "\<exists>q1. (j, q1) \<in> set ?rs \<and> same_but_seen q1 q"
    by blast
  then obtain q1 where q1: "(j, q1) \<in> set ?rs" "same_but_seen q1 q" by blast
  have "(j, q1) = (i, ?r) \<or> (j, q1) \<in> set (as_records s)"
    using q1(1) set_update_subset [of i ?r "as_records s"] by blast
  then show ?thesis
    using q1(2) map_of_SomeD [OF m(1)] by (auto simp: same_but_seen_def)
qed

lemma Issue_records:
  assumes "auth_inv s" "(j, q) \<in> set (as_records (fst (Issue hash fs raw now label s)))"
  shows "(j, q) \<in> set (as_records s) \<or>
    (\<exists>bytes. raw = Some bytes \<and> q = new_record hash bytes now label \<and> j = tk_id q \<and> validateLabel label = None)"
proof (cases "validateLabel label = None \<and> raw \<noteq> None")
  case False
  then show ?thesis using assms(2) by (auto simp: Issue_def split: option.splits)
next
  case True
  then obtain bytes where b: "validateLabel label = None" "raw = Some bytes" by auto
  let ?r = "new_record hash bytes now label"
  have "\<not> tk_bootstrap ?r" by (simp add: new_record_def)
  from insert_record_cases [OF assms(1) this, of fs "new_secret bytes"]
  have "as_records (fst (Issue hash fs raw now label s)) = as_records s \<or>
      as_records (fst (Issue hash fs raw now label s)) = AList.update (tk_id ?r) ?r (as_records s)"
    by (auto simp: Issue_def b)
  then show ?thesis
    using assms(2) b set_update_subset [of "tk_id ?r" ?r "as_records s"] by auto
qed

lemma Revoke_records: "set (as_records (fst (Revoke fs i s))) \<subseteq> set (as_records s)"
proof (cases "map_of (as_records s) i")
  case None
  then show ?thesis by (simp add: Revoke_def)
next
  case (Some r)
  let ?s = "s\<lparr>as_records := AList.delete i (as_records s)\<rparr>"
  have "as_records (fst (Revoke fs i s)) \<in> {as_records s, AList.delete i (as_records s),
      AList.update i r (AList.delete i (as_records s))}"
    using persist_cases [of fs False ?s] Some by (auto simp: Revoke_def Let_def notifyRevokedLocked_def)
  moreover have "set (AList.update i r (AList.delete i (as_records s))) \<subseteq> set (as_records s)"
    using set_update_subset [of i r "AList.delete i (as_records s)"] map_of_SomeD [OF Some]
    by (auto simp: set_delete)
  ultimately show ?thesis by (auto simp: set_delete)
qed

lemma subscription_records [simp]:
  "as_records (fst (SubscribeRevocation ch i s)) = as_records s"
  "as_records (cancel_revocation ch i s) = as_records s"
  by (auto simp: SubscribeRevocation_def cancel_revocation_def Let_def split: option.split)

lemma auth_step_records:
  assumes "auth_step hash s s'" "auth_inv s" "(j, q) \<in> set (as_records s')"
  shows "(\<exists>q0. (j, q0) \<in> set (as_records s) \<and> same_but_seen q0 q) \<or>
    (\<exists>bytes now label. length bytes = 32 \<and> now \<noteq> 0 \<and> q = new_record hash bytes now label \<and>
       validateLabel label = None)"
proof -
  have refl: "same_but_seen r r" for r by (simp add: same_but_seen_def)
  show ?thesis using assms
  proof (cases rule: auth_step.cases)
    case (authenticate fs clock secret)
    then show ?thesis using assms(2,3) Authenticate_records by blast
  next
    case (issue bytes now fs label)
    then show ?thesis using assms(2,3) Issue_records [of s j q hash fs "Some bytes" now label] refl by blast
  next
    case (issue_failed fs now label)
    then show ?thesis using assms(2,3) Issue_records [of s j q hash fs None now label] refl by blast
  next
    case (revoke fs i)
    then show ?thesis using assms(3) Revoke_records [of fs i s] refl by blast
  next
    case (invalidate)
    then show ?thesis using assms(3) refl by (auto simp: InvalidateManagedSubscribers_effect)
  qed (use assms(3) refl in auto)
qed

lemma OpenStore_bootstrap:
  assumes "OpenStore hash fs file mode now path b = Inr s"
  shows "\<exists>r. map_of (as_records s) bootstrapID = Some r \<and> tr_hash r = hash b \<and> tk_label r = bootstrapLabel"
proof -
  obtain s0 c0 s1 c1 where b: "install_bootstrap (hash b) now s0 c0 = Inr (s1, c1)"
    and p: "if c1 then s = fst (persistLocked fs False s1) \<and> ps_err (snd (persistLocked fs False s1)) = None
            else s = s1"
    using assms by (rule OpenStore_cases)
  have "as_records s = as_records s1" using p by (auto split: if_splits)
  then show ?thesis
    using b by (auto simp: install_bootstrap_def bootstrap_record_def split: option.splits if_splits)
qed

lemma auth_reach_bootstrap:
  "auth_reach hash b s \<Longrightarrow> (bootstrapID, r) \<in> set (as_records s) \<Longrightarrow> tr_hash r = hash b"
proof (induction arbitrary: r rule: auth_reach.induct)
  case (opened fs "file" mode now path s)
  have "distinct (map fst (as_records s))"
    using OpenStore_inv [OF opened.hyps(1)] by (simp add: auth_inv_def records_inv_def)
  then show ?case using OpenStore_bootstrap [OF opened.hyps(1)] opened.prems by auto
next
  case (step s s')
  have inv: "auth_inv s" "auth_inv s'"
    using auth_reach_inv [OF step.hyps(1)] auth_step_inv [OF step.hyps(2)] by auto
  then have "tk_bootstrap r" using step.prems by (force simp: auth_inv_def records_inv_def)
  then show ?case
    using auth_step_records [OF step.hyps(2) inv(1) step.prems] step.IH
    by (auto simp: same_but_seen_def new_record_def)
qed

section \<open>Validity of what is on disk\<close>

definition as_disk_token :: "tokenRecord \<Rightarrow> diskToken" where
  "as_disk_token r = \<lparr>dk_record = r, dk_created_utc = True, dk_last_seen_utc = True\<rparr>"

fun seen_ok :: "time \<Rightarrow> time option \<Rightarrow> bool" where
  "seen_ok created None = True"
| "seen_ok created (Some t) = (created \<le> t)"

definition valid_tok :: "tokenRecord \<Rightarrow> bool" where
  "valid_tok r \<longleftrightarrow> (if tk_id r = bootstrapID then tk_bootstrap r
       else \<not> tk_bootstrap r \<and> lower_hex 16 (tk_id r) \<and> validateLabel (tk_label r) = None) \<and>
     tk_created_at r \<noteq> 0 \<and> seen_ok (tk_created_at r) (tk_last_seen_at r) \<and>
     lower_hex 64 (tr_hash r)"

lemma validateRecord_valid: "validateRecord d = None \<Longrightarrow> valid_tok (dk_record d)"
  by (auto simp: validateRecord_def valid_tok_def Let_def split: if_splits option.splits)

lemma valid_validateRecord: "valid_tok r \<Longrightarrow> validateRecord (as_disk_token r) = None"
  by (auto simp: validateRecord_def valid_tok_def as_disk_token_def Let_def split: if_splits option.splits)

definition valid_record :: "tokenRecord \<Rightarrow> bool" where
  "valid_record r \<longleftrightarrow> valid_tok r \<and> valid_tok (disk_record False r)"

definition valid_disk :: "tokenRecord list \<Rightarrow> bool" where
  "valid_disk d \<longleftrightarrow> (\<forall>r \<in> set d. valid_tok r) \<and> distinct (map tk_id d) \<and> distinct (map tr_hash d)"

definition valid_store :: "auth_store \<Rightarrow> bool" where
  "valid_store s \<longleftrightarrow> (\<forall>(i, r) \<in> set (as_records s). valid_record r) \<and> (\<forall>d. as_disk s = Some d \<longrightarrow> valid_disk d)"

lemma disk_record_fields [simp]:
  "tk_id (disk_record fl r) = tk_id r" "tr_hash (disk_record fl r) = tr_hash r"
  "tk_bootstrap (disk_record fl r) = tk_bootstrap r"
  by (simp_all add: disk_record_def)

lemma valid_disk_tokens:
  assumes "records_inv rs" "\<forall>(i, r) \<in> set rs. valid_record r"
  shows "valid_disk (disk_tokens fl rs)"
proof -
  have m: "mset (disk_tokens fl rs) = mset (map (\<lambda>(i, r). disk_record fl r) rs)"
    by (simp add: disk_tokens_def)
  have d: "distinct (map f (disk_tokens fl rs)) = distinct (map f (map (\<lambda>(i, r). disk_record fl r) rs))"
    for f :: "tokenRecord \<Rightarrow> string"
    using m by (metis mset_map mset_eq_imp_distinct_iff)
  have "map tk_id (map (\<lambda>(i, r). disk_record fl r) rs) = map fst rs"
    using assms(1) by (auto simp: records_inv_def)
  moreover have "map tr_hash (map (\<lambda>(i, r). disk_record fl r) rs) = map (\<lambda>(i, r). tr_hash r) rs"
    by (auto simp: comp_def)
  moreover have "valid_tok (disk_record fl r)" if "(i, r) \<in> set rs" for i r
  proof -
    have v: "valid_tok r" "valid_tok (disk_record False r)" using assms(2) that by (auto simp: valid_record_def)
    then show ?thesis by (cases fl) (simp_all add: valid_tok_def disk_record_def)
  qed
  moreover have "\<forall>r \<in> set (disk_tokens fl rs). \<exists>i q. (i, q) \<in> set rs \<and> r = disk_record fl q"
    unfolding mset_eq_setD [OF m] by auto
  ultimately show ?thesis
    using assms(1) unfolding valid_disk_def d by (metis records_inv_def)
qed

lemma seen_at_ge: "tk_created_at r \<le> seen_at now r"
  by (auto simp: seen_at_def Let_def split: option.split)

lemma valid_record_seen:
  "valid_record r \<Longrightarrow> valid_record (r\<lparr>tk_last_seen_at := Some (seen_at now r)\<rparr>)"
  "valid_record r \<Longrightarrow> valid_record (r\<lparr>tr_persisted_last_seen := tk_last_seen_at r\<rparr>)"
  using seen_at_ge [of r now] by (auto simp: valid_record_def valid_tok_def disk_record_def split: if_splits)

lemma valid_store_updated:
  assumes "\<forall>(i, r) \<in> set rs. valid_record r" "records_inv rs'" "\<forall>(i, r) \<in> set rs'. valid_record r"
    and "as_records s' = rs" "as_disk s' = as_disk s \<or> as_disk s' = Some (disk_tokens fl rs')" "valid_store s"
  shows "valid_store s'"
  using assms valid_disk_tokens [OF assms(2,3), of fl] by (auto simp: valid_store_def)

lemma Authenticate_valid:
  assumes "auth_inv s" "valid_store s"
  shows "valid_store (fst (Authenticate hash fs clock secret s))"
proof (cases "match_record (hash secret) (as_records s)")
  case None
  then show ?thesis using assms by (simp add: Authenticate_def)
next
  case (Some p)
  obtain i r where p: "p = (i, r)" by force
  have ri: "records_inv (as_records s)" using assms(1) by (simp add: auth_inv_def)
  note m = match_record_Some [OF ri Some [unfolded p]]
  let ?r = "r\<lparr>tk_last_seen_at := Some (seen_at clock r)\<rparr>"
  let ?rs = "AList.update i ?r (as_records s)"
  have inv: "records_inv ?rs" using records_inv_refresh [OF ri m(1), of ?r] by simp
  have "valid_record r" using assms(2) map_of_SomeD [OF m(1)] by (auto simp: valid_store_def)
  then have v: "\<forall>(i, r) \<in> set ?rs. valid_record r"
    using assms(2) set_update_subset [of i ?r "as_records s"] valid_record_seen(1) [of r clock]
    by (auto simp: valid_store_def)
  then have v': "\<forall>(i, r) \<in> set (mark_persisted ?rs). valid_record r"
    using valid_record_seen(2) by (fastforce simp: mark_persisted_def)
  let ?s' = "fst (Authenticate hash fs clock secret s)"
  have d: "as_records ?s' \<in> {?rs, mark_persisted ?rs} \<and>
      (as_disk ?s' = as_disk s \<or> as_disk ?s' = Some (disk_tokens True ?rs))"
    using persist_cases [of fs True "s\<lparr>as_records := ?rs\<rparr>"]
    by (auto simp: Authenticate_def Some p Let_def)
  then have "\<forall>(i, r) \<in> set (as_records ?s'). valid_record r" using v v' by auto
  from valid_store_updated [OF this inv v refl _ assms(2)] d show ?thesis by blast
qed

lemma hex_lower_hex: "n < 16 \<Longrightarrow> hex_lower n \<in> set ''0123456789abcdef''"
proof -
  assume "n < 16"
  moreover have "list_all (\<lambda>n. hex_lower n \<in> set ''0123456789abcdef'') [0..<16]" by code_simp
  ultimately show ?thesis by (simp add: list_all_iff)
qed

lemma hex_encode_hex: "list_all (\<lambda>c. c \<in> set ''0123456789abcdef'') (hex_encode bs)" "length (hex_encode bs) = 2 * length bs"
proof -
  have "unat b div 16 < 16" "unat b mod 16 < 16" for b :: byte
  proof -
    have "unat b < 2 ^ 8" using unsigned_less [of b, where ?'a = nat] by simp
    then show "unat b div 16 < 16" "unat b mod 16 < 16" by simp_all
  qed
  then show "list_all (\<lambda>c. c \<in> set ''0123456789abcdef'') (hex_encode bs)"
    using hex_lower_hex by (fastforce simp: hex_encode_def list_all_iff)
  show "length (hex_encode bs) = 2 * length bs" by (induction bs) (simp_all add: hex_encode_def)
qed

lemma lower_hex_id: "length bytes = 32 \<Longrightarrow> lower_hex 16 (take 16 (hex_encode bytes))"
proof -
  assume l: "length bytes = 32"
  have "list_all (\<lambda>c. c \<in> set ''0123456789abcdef'') (take 16 (hex_encode bytes))"
    using hex_encode_hex(1) [of bytes] unfolding list_all_iff by (meson in_set_takeD)
  then show ?thesis unfolding lower_hex_def using hex_encode_hex(2) [of bytes] l by simp
qed

lemma lower_hex_bootstrap: "\<not> lower_hex 16 bootstrapID"
  by (simp add: lower_hex_def bootstrapID_def)

lemma valid_new_record:
  assumes "\<forall>x. lower_hex 64 (hash x)" "length bytes = 32" "now \<noteq> 0" "validateLabel label = None"
  shows "valid_record (new_record hash bytes now label)"
  using assms lower_hex_id [OF assms(2)] lower_hex_bootstrap
  by (auto simp: valid_record_def valid_tok_def new_record_def disk_record_def)

lemma Issue_valid:
  assumes "\<forall>x. lower_hex 64 (hash x)" "auth_inv s" "valid_store s"
    and "\<forall>bytes. raw = Some bytes \<longrightarrow> length bytes = 32 \<and> now \<noteq> 0"
  shows "valid_store (fst (Issue hash fs raw now label s))"
proof (cases "validateLabel label = None \<and> raw \<noteq> None")
  case False
  then show ?thesis using assms by (auto simp: Issue_def split: option.split)
next
  case True
  then obtain bytes where b: "validateLabel label = None" "raw = Some bytes" by auto
  let ?r = "new_record hash bytes now label"
  have "\<not> tk_bootstrap ?r" by (simp add: new_record_def)
  note c = insert_record_cases [OF assms(2) this, of fs "new_secret bytes"]
  have v: "\<forall>(i, r) \<in> set (AList.update (tk_id ?r) ?r (as_records s)). valid_record r"
    using assms(3) set_update_subset [of "tk_id ?r" ?r "as_records s"]
      valid_new_record [OF assms(1), of bytes now label] assms(4) b by (auto simp: valid_store_def)
  have i: "Issue hash fs raw now label s = insert_record fs (new_secret bytes) ?r s" by (simp add: Issue_def b)
  show ?thesis unfolding i using c
  proof (elim disjE exE conjE)
    fix e
    assume ri: "records_inv (as_records (s\<lparr>as_records := AList.update (tk_id ?r) ?r (as_records s)\<rparr>))"
      and e: "insert_record fs (new_secret bytes) ?r s =
        (s\<lparr>as_records := AList.update (tk_id ?r) ?r (as_records s)\<rparr>
          \<lparr>as_disk := Some (disk_tokens False (as_records (s\<lparr>as_records := AList.update (tk_id ?r) ?r (as_records s)\<rparr>))),
           as_last_error := e\<rparr>, Inr (new_secret bytes, TokenMeta.truncate ?r))"
    show "valid_store (fst (insert_record fs (new_secret bytes) ?r s))"
      unfolding e using ri v valid_disk_tokens [of "AList.update (tk_id ?r) ?r (as_records s)" False]
      by (simp add: valid_store_def)
  qed (use assms(3) in \<open>simp_all add: valid_store_def\<close>)
qed

lemma Revoke_valid:
  assumes "auth_inv s" "valid_store s"
  shows "valid_store (fst (Revoke fs i s))"
proof -
  let ?rs = "AList.delete i (as_records s)"
  have v: "\<forall>(j, r) \<in> set (as_records (fst (Revoke fs i s))). valid_record r"
    using assms(2) Revoke_records [of fs i s] by (auto simp: valid_store_def)
  show ?thesis
  proof (cases "i = bootstrapID")
    case True
    then show ?thesis using assms(2) by (simp add: Revoke_def)
  next
    case False
    have ri: "records_inv ?rs" using assms(1) False by (intro records_inv_delete) (simp_all add: auth_inv_def)
    have vr: "\<forall>(j, r) \<in> set ?rs. valid_record r" using assms(2) by (auto simp: valid_store_def set_delete)
    have "as_disk (fst (Revoke fs i s)) = as_disk s \<or> as_disk (fst (Revoke fs i s)) = Some (disk_tokens False ?rs)"
      using persist_cases [of fs False "s\<lparr>as_records := ?rs\<rparr>"]
      by (auto simp: Revoke_def Let_def notifyRevokedLocked_def split: option.split)
    from valid_store_updated [OF v ri vr refl this assms(2)] show ?thesis .
  qed
qed

lemma valid_store_frame: "as_records s' = as_records s \<Longrightarrow> as_disk s' = as_disk s \<Longrightarrow> valid_store s' = valid_store s"
  by (simp add: valid_store_def)

lemma subscription_disk [simp]:
  "as_disk (fst (SubscribeRevocation ch i s)) = as_disk s" "as_disk (cancel_revocation ch i s) = as_disk s"
  by (auto simp: SubscribeRevocation_def cancel_revocation_def Let_def split: option.split)

lemma auth_step_valid:
  assumes "\<forall>x. lower_hex 64 (hash x)" "auth_step hash s s'" "auth_inv s" "valid_store s"
  shows "valid_store s'"
  using assms(2)
proof (cases rule: auth_step.cases)
  case (subscribe ch i)
  then show ?thesis using assms(4) valid_store_frame [of s' s] by simp
next
  case (cancel ch i)
  then show ?thesis using assms(4) valid_store_frame [of s' s] by simp
next
  case invalidate
  then show ?thesis
    using assms(4) valid_store_frame [of s' s] by (simp add: InvalidateManagedSubscribers_effect)
next
  case (issue bytes now fs label)
  then show ?thesis using assms Issue_valid [of hash s "Some bytes" now fs label] by simp
next
  case (issue_failed fs now label)
  then show ?thesis using assms Issue_valid [of hash s None now fs label] by simp
qed (use assms Authenticate_valid Revoke_valid in auto)

lemma load_tokens_valid:
  "load_tokens ds s = Inr s' \<Longrightarrow> \<forall>(i, r) \<in> set (as_records s). valid_record r \<Longrightarrow>
     (\<forall>(i, r) \<in> set (as_records s'). valid_record r) \<and> (\<forall>d \<in> set ds. valid_tok (dk_record d)) \<and>
     distinct (map fst (as_records s) @ map (tk_id \<circ> dk_record) ds) = distinct (map fst (as_records s)) \<and>
     distinct (map (\<lambda>(i, r). tr_hash r) (as_records s) @ map (tr_hash \<circ> dk_record) ds) =
       distinct (map (\<lambda>(i, r). tr_hash r) (as_records s))"
proof (induction ds arbitrary: s)
  case (Cons d ds)
  let ?r = "(dk_record d)\<lparr>tr_persisted_last_seen := tk_last_seen_at (dk_record d)\<rparr>"
  let ?s = "s\<lparr>as_records := AList.update (tk_id ?r) ?r (as_records s),
       as_last_seen_persisted_at := (case tk_last_seen_at ?r of None \<Rightarrow> as_last_seen_persisted_at s
         | Some t \<Rightarrow> max t (as_last_seen_persisted_at s))\<rparr>"
  have v: "validateRecord d = None" "tk_id ?r \<notin> fst ` set (as_records s)"
    "tr_hash ?r \<notin> set (map (\<lambda>(i, q). tr_hash q) (as_records s))" and l: "load_tokens ds ?s = Inr s'"
    using Cons.prems(1) by (auto simp: Let_def split: option.splits if_splits)
  have vd: "valid_tok (dk_record d)" using v(1) by (rule validateRecord_valid)
  then have "valid_record ?r" by (simp add: valid_record_def valid_tok_def disk_record_def)
  then have "\<forall>(i, r) \<in> set (as_records ?s). valid_record r"
    using Cons.prems(2) v(2) by (simp add: update_fresh_append)
  note IH = Cons.IH [OF l this]
  have rs: "as_records ?s = as_records s @ [(tk_id (dk_record d), ?r)]"
    using v(2) by (simp add: update_fresh_append)
  show ?case using IH vd v(2,3) unfolding rs by (simp add: conj_assoc)
qed simp

lemma valid_bootstrap_update:
  "valid_record r \<Longrightarrow> tk_id r = bootstrapID \<Longrightarrow> lower_hex 64 h \<Longrightarrow>
     valid_record (r\<lparr>tr_hash := h, tk_label := bootstrapLabel\<rparr>)"
  "lower_hex 64 h \<Longrightarrow> now \<noteq> 0 \<Longrightarrow> valid_record (bootstrap_record h now)"
  by (simp_all add: valid_record_def valid_tok_def disk_record_def bootstrap_record_def)

lemma install_bootstrap_valid:
  assumes "loaded ds s" "install_bootstrap h now s c = Inr (s', c')" "lower_hex 64 h" "now \<noteq> 0"
    and "\<forall>(i, r) \<in> set (as_records s). valid_record r"
  shows "\<forall>(i, r) \<in> set (as_records s'). valid_record r"
proof (cases "map_of (as_records s) bootstrapID")
  case None
  then show ?thesis
    using assms set_update_subset [of bootstrapID "bootstrap_record h now" "as_records s"]
      valid_bootstrap_update(2) [OF assms(3,4)] by (auto simp: install_bootstrap_def)
next
  case (Some r)
  then have r: "(bootstrapID, r) \<in> set (as_records s)" by (rule map_of_SomeD)
  have "tk_id r = bootstrapID" using assms(1) r by (auto simp: loaded_def)
  moreover have "valid_record r" using assms(5) r by auto
  ultimately have "valid_record (r\<lparr>tr_hash := h, tk_label := bootstrapLabel\<rparr>)"
    using assms(3) by (intro valid_bootstrap_update)
  then show ?thesis
    using assms(2,5) Some
      set_update_subset [of bootstrapID "r\<lparr>tr_hash := h, tk_label := bootstrapLabel\<rparr>" "as_records s"]
    by (auto simp: install_bootstrap_def split: if_splits)
qed

lemma OpenStore_valid:
  assumes "\<forall>x. lower_hex 64 (hash x)" "OpenStore hash fs file mode now path b = Inr s" "now \<noteq> 0"
  shows "valid_store s"
proof -
  obtain s0 c0 s1 c1 where r: "read_store file mode = Inr (s0, c0)"
    and b: "install_bootstrap (hash b) now s0 c0 = Inr (s1, c1)"
    and u: "validateUniqueHashes (as_records s1) = None"
    and p: "if c1 then s = fst (persistLocked fs False s1) \<and> ps_err (snd (persistLocked fs False s1)) = None
            else s = s1"
    using assms(2) by (rule OpenStore_cases)
  obtain ds where l: "loaded ds s0" using read_store_loaded [OF r] by blast
  have v0: "(\<forall>(i, r) \<in> set (as_records s0). valid_record r) \<and> (\<not> c0 \<longrightarrow> (\<forall>d. as_disk s0 = Some d \<longrightarrow> valid_disk d))"
  proof (cases "file")
    case (Tokens ts)
    then have t: "load_tokens ts (empty_store (Some (map dk_record ts))) = Inr s0"
      using r by (auto simp: read_store_def split: sum.splits)
    then have "as_disk s0 = Some (map dk_record ts)"
      using load_tokens_loaded [OF t, of "[]"] by (simp add: loaded_def empty_store_def token_keys_def)
    then show ?thesis
      using load_tokens_valid [OF t] by (simp add: empty_store_def valid_disk_def)
  qed (use r in \<open>auto simp: read_store_def empty_store_def\<close>)
  note i = install_bootstrap_records [OF l b u]
  have v1: "\<forall>(i, r) \<in> set (as_records s1). valid_record r"
    using install_bootstrap_valid [OF l b] assms(1,3) v0 by blast
  show ?thesis
  proof (cases c1)
    case True
    then have "s = s1\<lparr>as_disk := Some (disk_tokens False (as_records s1))\<rparr>"
      using p persist_cases [of fs False s1] by auto
    then show ?thesis using v1 valid_disk_tokens [OF i(1) v1] by (simp add: valid_store_def)
  next
    case False
    then have "\<not> c0" using b by (auto simp: install_bootstrap_def split: option.splits if_splits)
    then show ?thesis using False p i(2) v0 by (simp add: valid_store_def)
  qed
qed

lemma auth_reach_valid:
  "\<forall>x. lower_hex 64 (hash x) \<Longrightarrow> auth_reach hash b s \<Longrightarrow> valid_store s"
proof (rotate_tac, induction rule: auth_reach.induct)
  case (opened fs "file" mode now path s)
  then show ?case by (intro OpenStore_valid)
next
  case (step s s')
  then show ?case using auth_step_valid [of hash s s'] auth_reach_inv [OF step.hyps(1)] by blast
qed

lemma dk_record_as_disk_token [simp]: "dk_record (as_disk_token r) = r"
  by (simp add: as_disk_token_def)

lemma load_tokens_ok:
  "\<forall>r \<in> set d. valid_tok r \<Longrightarrow> distinct (map fst (as_records s) @ map tk_id d) \<Longrightarrow>
   distinct (map (\<lambda>(i, r). tr_hash r) (as_records s) @ map tr_hash d) \<Longrightarrow>
   \<exists>s'. load_tokens (map as_disk_token d) s = Inr s'"
proof (induction d arbitrary: s)
  case (Cons r d)
  have v: "validateRecord (as_disk_token r) = None" using Cons.prems(1) by (simp add: valid_validateRecord)
  have f: "tk_id r \<notin> fst ` set (as_records s)" "tr_hash r \<notin> set (map (\<lambda>(i, q). tr_hash q) (as_records s))"
    using Cons.prems(2,3) by (auto simp: image_iff)
  let ?r = "r\<lparr>tr_persisted_last_seen := tk_last_seen_at r\<rparr>"
  let ?s = "s\<lparr>as_records := AList.update (tk_id r) ?r (as_records s),
       as_last_seen_persisted_at := (case tk_last_seen_at r of None \<Rightarrow> as_last_seen_persisted_at s
         | Some t \<Rightarrow> max t (as_last_seen_persisted_at s))\<rparr>"
  have rs: "as_records ?s = as_records s @ [(tk_id r, ?r)]" using f(1) by (simp add: update_fresh_append)
  have "\<exists>s'. load_tokens (map as_disk_token d) ?s = Inr s'"
    by (rule Cons.IH) (use Cons.prems in \<open>simp_all add: rs del: auth_store.simps(10)\<close>)
  then show ?case using v f by (simp add: Let_def)
qed simp

lemma reload:
  assumes "valid_disk d" "bootstrapID \<in> tk_id ` set d"
    and "\<forall>r \<in> set d. tk_id r = bootstrapID \<longrightarrow> tr_hash r = hash b"
    and "path \<noteq> []" "b \<noteq> []" "\<forall>st. fs st"
  shows "\<exists>s. OpenStore hash fs (Tokens (map as_disk_token d)) (Inr m) now path b = Inr s \<and>
    token_keys (map snd (as_records s)) = token_keys d"
proof -
  let ?e = "empty_store (Some d)"
  have e: "as_records ?e = []" "loaded [] ?e"
    by (simp_all add: empty_store_def loaded_def token_keys_def)
  obtain s0 where l: "load_tokens (map as_disk_token d) ?e = Inr s0"
    using load_tokens_ok [of d ?e] assms(1) e(1) by (auto simp: valid_disk_def)
  have s0: "loaded (map as_disk_token d) s0" using load_tokens_loaded [OF l e(2)] by simp
  have k0: "token_keys (map snd (as_records s0)) = token_keys d"
    using s0 by (simp add: loaded_def comp_def)
  have "bootstrapID \<in> tk_id ` set (map snd (as_records s0))"
    using assms(2) k0 unfolding token_keys_def by (force simp: image_iff)
  then obtain j r where r: "(j, r) \<in> set (as_records s0)" "tk_id r = bootstrapID" by auto
  then have r': "map_of (as_records s0) bootstrapID = Some r" "tk_bootstrap r"
    using s0 by (auto simp: loaded_def)
  have "(tk_id r, tr_hash r) \<in> token_keys d" using r k0 by (force simp: token_keys_def)
  then have h: "tr_hash r = hash b" using assms(3) r(2) by (auto simp: token_keys_def)
  let ?r = "r\<lparr>tr_hash := hash b, tk_label := bootstrapLabel\<rparr>"
  let ?s = "s0\<lparr>as_records := AList.update bootstrapID ?r (as_records s0)\<rparr>"
  have u: "map (\<lambda>(i, r). f (tk_id r) (tr_hash r)) (as_records ?s) = map (\<lambda>(i, r). f (tk_id r) (tr_hash r)) (as_records s0)" for f :: "string \<Rightarrow> string \<Rightarrow> 'z"
    using map_update_same [OF r'(1), of "\<lambda>r. f (tk_id r) (tr_hash r)" ?r] h by simp
  have uniq: "validateUniqueHashes (as_records s0) = None" "validateUniqueHashes (as_records ?s) = None"
    using s0 u [of "\<lambda>i h. h"] by (simp_all add: validateUniqueHashes_def loaded_def)
  have k: "token_keys (map snd (as_records ?s)) = token_keys d"
    using u [of Pair] k0 unfolding token_keys_map by simp
  have none: "find (\<lambda>st. \<not> fs st) persist_steps = None" using assms(6) by (simp add: persist_steps_def)
  have p: "persistLocked fs False s = (s\<lparr>as_disk := Some (disk_tokens False (as_records s))\<rparr>,
      \<lparr>ps_committed = True, ps_err = None\<rparr>)" for s
    by (simp add: persistLocked_def none)
  have rd: "read_store (Tokens (map as_disk_token d)) (Inr m) = Inr (s0, \<not> m)"
    using l by (simp add: read_store_def comp_def)
  show ?thesis
  proof (cases "tk_label r = bootstrapLabel")
    case True
    then have i: "install_bootstrap (hash b) now s0 (\<not> m) = Inr (s0, \<not> m)"
      using r' h by (simp add: install_bootstrap_def)
    show ?thesis using assms(4,5) k0 uniq(1) by (simp add: OpenStore_def rd i p)
  next
    case False
    then have i: "install_bootstrap (hash b) now s0 (\<not> m) = Inr (?s, True)"
      using r' h by (simp add: install_bootstrap_def)
    show ?thesis using assms(4,5) k uniq(2) by (simp add: OpenStore_def rd i p)
  qed
qed

section \<open>Properties\<close>

text \<open>C24. In every reachable state of the token store the identifiers and the hashes of the tokens are
  distinct, the bootstrap token is present and is the only administrator, revocation subscriptions belong
  to existing managed tokens, and the token file holds exactly the identifiers and hashes that are in
  memory, whichever file-system calls have failed so far.\<close>

theorem auth_store_consistent:
  assumes "auth_reach hash b s"
  shows "distinct (map fst (as_records s)) \<and> distinct (map (\<lambda>(i, r). tr_hash r) (as_records s)) \<and>
     bootstrapID \<in> fst ` set (as_records s) \<and>
     list_all (\<lambda>(i, r). tk_id r = i \<and> (tk_bootstrap r \<longleftrightarrow> i = bootstrapID)) (as_records s) \<and>
     fst ` set (as_subscribers s) \<subseteq> fst ` set (as_records s) - {bootstrapID} \<and>
     (\<exists>d. as_disk s = Some d \<and> token_keys d = token_keys (map snd (as_records s)))"
  using auth_reach_inv [OF assms] by (simp add: auth_inv_def records_inv_def list_all_iff)

definition toy_hash :: "string \<Rightarrow> string" where
  "toy_hash s = replicate 64 (if s = ''boot'' then CHR ''1'' else CHR ''0'')"

definition fs_ok :: "persist_step \<Rightarrow> bool" where "fs_ok st = True"

lemma toy_open: "OpenStore toy_hash fs_ok NotExist (Inl ()) 7 ''/t'' ''boot'' =
  Inr ((empty_store None)\<lparr>as_records := [(bootstrapID, bootstrap_record (toy_hash ''boot'') 7)],
    as_disk := Some (disk_tokens False [(bootstrapID, bootstrap_record (toy_hash ''boot'') 7)])\<rparr>)"
  by (simp add: OpenStore_def read_store_def install_bootstrap_def empty_store_def validateUniqueHashes_def
      persistLocked_def persist_steps_def fs_ok_def)

definition toy_store :: auth_store where
  "toy_store = (empty_store None)\<lparr>as_records := [(bootstrapID, bootstrap_record (toy_hash ''boot'') 7)],
    as_disk := Some (disk_tokens False [(bootstrapID, bootstrap_record (toy_hash ''boot'') 7)])\<rparr>"

lemma toy_reach: "auth_reach toy_hash ''boot'' toy_store"
  unfolding toy_store_def by (rule auth_reach.opened [OF toy_open]) simp

theorem auth_store_consistent_witness: "bootstrapID \<in> fst ` set (as_records toy_store)"
  using auth_store_consistent [OF toy_reach] by blast

lemma Authenticate_principal:
  "snd (Authenticate hash fs clock secret s) = map_option (\<lambda>(i, r). \<lparr>pr_token_id = tk_id r,
     pr_role = (if tk_bootstrap r then RoleAdmin else RoleClient)\<rparr>) (match_record (hash secret) (as_records s))"
  by (simp add: Authenticate_def Let_def split: option.split prod.split)

text \<open>Only the bootstrap secret is an administrator: in every reachable state a presented secret gets
  the administrator role exactly when its hash is the hash of the bootstrap secret the store was opened
  with.\<close>

theorem only_bootstrap_is_admin:
  assumes "auth_reach hash b s"
  shows "(\<exists>p. snd (Authenticate hash fs clock secret s) = Some p \<and> pr_role p = RoleAdmin) \<longleftrightarrow> hash secret = hash b"
proof -
  have ri: "records_inv (as_records s)" using auth_reach_inv [OF assms] by (simp add: auth_inv_def)
  show ?thesis
  proof
    assume "\<exists>p. snd (Authenticate hash fs clock secret s) = Some p \<and> pr_role p = RoleAdmin"
    then obtain i r where m: "match_record (hash secret) (as_records s) = Some (i, r)" "tk_bootstrap r"
      unfolding Authenticate_principal by (cases "match_record (hash secret) (as_records s)") (auto split: if_splits)
    note f = match_record_Some [OF ri m(1)]
    then have "(bootstrapID, r) \<in> set (as_records s)" using m(2) map_of_SomeD [OF f(1)] by simp
    from auth_reach_bootstrap [OF assms this] show "hash secret = hash b" using f(2) by simp
  next
    assume h: "hash secret = hash b"
    obtain r where r: "(bootstrapID, r) \<in> set (as_records s)" "tk_bootstrap r"
      using records_inv_bootstrap [OF ri] by blast
    then have "tr_hash r = hash b" using auth_reach_bootstrap [OF assms] by blast
    then show "\<exists>p. snd (Authenticate hash fs clock secret s) = Some p \<and> pr_role p = RoleAdmin"
      using match_record_unique [OF ri r(1)] h r(2) by (simp add: Authenticate_principal)
  qed
qed

theorem only_bootstrap_is_admin_witness:
  "\<exists>p. snd (Authenticate toy_hash fs_ok 9 ''boot'' toy_store) = Some p \<and> pr_role p = RoleAdmin"
  using only_bootstrap_is_admin [OF toy_reach, of fs_ok 9 "''boot''"] by simp

definition toy_raw :: "byte list" where "toy_raw = replicate 32 0xAB"

definition toy_record :: tokenRecord where "toy_record = new_record toy_hash toy_raw 8 ''phone''"

definition toy_records :: "(string \<times> tokenRecord) list" where
  "toy_records = [(bootstrapID, bootstrap_record (toy_hash ''boot'') 7), (tk_id toy_record, toy_record)]"

definition toy_client_store :: auth_store where
  "toy_client_store = (empty_store None)\<lparr>as_records := toy_records,
     as_disk := Some (disk_tokens False toy_records)\<rparr>"

lemma toy_record_fresh: "tk_id toy_record \<noteq> bootstrapID" "tr_hash toy_record \<noteq> toy_hash ''boot''"
    "validateLabel ''phone'' = None" "\<not> tk_bootstrap toy_record"
proof -
  show "tk_id toy_record \<noteq> bootstrapID"
    using lower_hex_id [of toy_raw] lower_hex_bootstrap by (metis toy_record_def new_record_def toy_raw_def
        length_replicate TokenMeta.select_convs(1))
  have "new_secret toy_raw \<noteq> ''boot''" by (simp add: new_secret_def)
  then show "tr_hash toy_record \<noteq> toy_hash ''boot''"
    by (simp add: toy_record_def new_record_def toy_hash_def)
  have "utf8_runes (bytes_of ''phone'') = Some [112, 104, 111, 110, 101]" by (simp add: bytes_of_def)
  then show "validateLabel ''phone'' = None" by (simp add: validateLabel_def IsSpace_def IsControl_def)
  show "\<not> tk_bootstrap toy_record" by (simp add: toy_record_def new_record_def)
qed

lemma toy_issue: "Issue toy_hash fs_ok (Some toy_raw) 8 ''phone'' toy_store =
    (toy_client_store, Inr (new_secret toy_raw, TokenMeta.truncate toy_record))"
proof -
  let ?b = "bootstrap_record (toy_hash ''boot'') 7"
  have b: "tr_hash ?b = toy_hash ''boot''" by (simp add: bootstrap_record_def)
  have u: "validateUniqueHashes toy_records = None"
    using toy_record_fresh(2) by (auto simp: validateUniqueHashes_def toy_records_def b)
  have p: "persistLocked fs_ok False s = (s\<lparr>as_disk := Some (disk_tokens False (as_records s))\<rparr>,
      \<lparr>ps_committed = True, ps_err = None\<rparr>)" for s
    by (simp add: persistLocked_def persist_steps_def fs_ok_def)
  show ?thesis
    using toy_record_fresh(1,3)
    by (simp add: Issue_def insert_record_def Let_def toy_store_def u [unfolded toy_records_def] p
        toy_record_def [symmetric] toy_client_store_def empty_store_def toy_records_def)
qed

lemma toy_client_reach: "auth_reach toy_hash ''boot'' toy_client_store"
proof -
  have "auth_step toy_hash toy_store (fst (Issue toy_hash fs_ok (Some toy_raw) 8 ''phone'' toy_store))"
    by (rule auth_step.issue) (simp_all add: toy_raw_def)
  then show ?thesis unfolding toy_issue fst_conv by (rule auth_reach.step [OF toy_reach])
qed

lemma Revoke_ok_cases:
  assumes "Revoke fs i s = (s', None)"
  obtains r e where "i \<noteq> bootstrapID" "map_of (as_records s) i = Some r" "\<not> tk_bootstrap r"
    "s' = notifyRevokedLocked i (s\<lparr>as_records := AList.delete i (as_records s),
       as_disk := Some (disk_tokens False (AList.delete i (as_records s))), as_last_error := e\<rparr>)"
  using assms persist_cases [of fs False "s\<lparr>as_records := AList.delete i (as_records s)\<rparr>"]
  by (auto simp: Revoke_def Let_def split: if_splits option.splits)

text \<open>What can happen to the tokens after a moment: every operation of the store, and its opening again on the file as it is on disk or on
  no file; no secret with the hash \<open>h\<close> is drawn for a new token or configured as the bootstrap secret.\<close>

inductive later_store :: "(string \<Rightarrow> string) \<Rightarrow> string \<Rightarrow> auth_store \<Rightarrow> auth_store \<Rightarrow> bool" for hash h s where
  now: "later_store hash h s s"
| authenticate: "later_store hash h s s' \<Longrightarrow> later_store hash h s (fst (Authenticate hash fs clock secret s'))"
| issue: "later_store hash h s s' \<Longrightarrow> (\<And>bytes. raw = Some bytes \<Longrightarrow> hash (new_secret bytes) \<noteq> h) \<Longrightarrow>
    later_store hash h s (fst (Issue hash fs raw now label s'))"
| revoke: "later_store hash h s s' \<Longrightarrow> later_store hash h s (fst (Revoke fs i s'))"
| subscribe: "later_store hash h s s' \<Longrightarrow> later_store hash h s (fst (SubscribeRevocation ch i s'))"
| cancel: "later_store hash h s s' \<Longrightarrow> later_store hash h s (cancel_revocation ch i s')"
| invalidate: "later_store hash h s s' \<Longrightarrow> later_store hash h s (InvalidateManagedSubscribers s')"
| reopen: "later_store hash h s s' \<Longrightarrow> as_disk s' = Some d \<Longrightarrow> file \<in> {NotExist, Tokens (map as_disk_token d)} \<Longrightarrow>
    OpenStore hash fs file mode now path b = Inr s'' \<Longrightarrow> hash b \<noteq> h \<Longrightarrow> later_store hash h s s''"

definition token_hashes :: "auth_store \<Rightarrow> string set" where
  "token_hashes s = snd ` token_keys (map snd (as_records s))"

lemma token_hashes_iff: "h \<in> token_hashes s \<longleftrightarrow> (\<exists>j q. (j, q) \<in> set (as_records s) \<and> tr_hash q = h)"
  by (force simp: token_hashes_def token_keys_def)

lemma unknown_hash_refused: "hash secret \<notin> token_hashes s \<Longrightarrow> snd (Authenticate hash fs clock secret s) = None"
  by (auto simp: Authenticate_principal match_record_def token_hashes_iff find_None_iff)

lemma OpenStore_hashes:
  assumes "OpenStore hash fs file mode now path b = Inr s" and "file \<in> {NotExist, Tokens ds}"
  shows "token_hashes s \<subseteq> insert (hash b) (snd ` token_keys (map dk_record ds))"
proof -
  obtain s0 c0 s1 c1 where r: "read_store file mode = Inr (s0, c0)"
    and b: "install_bootstrap (hash b) now s0 c0 = Inr (s1, c1)"
    and p: "if c1 then s = fst (persistLocked fs False s1) \<and> ps_err (snd (persistLocked fs False s1)) = None else s = s1"
    using assms(1) by (rule OpenStore_cases)
  have e: "loaded [] (empty_store d)" for d by (simp add: loaded_def empty_store_def token_keys_def)
  have "token_hashes s0 \<subseteq> snd ` token_keys (map dk_record ds)"
  proof (cases "file = NotExist")
    case True
    with r have "s0 = empty_store None" by (simp add: read_store_def)
    then show ?thesis by (simp add: token_hashes_def empty_store_def token_keys_def)
  next
    case False
    with assms(2) r have "load_tokens ds (empty_store (Some (map dk_record ds))) = Inr s0" by (auto simp: read_store_def split: sum.splits)
    from load_tokens_loaded [OF this e] show ?thesis by (simp add: loaded_def token_hashes_def)
  qed
  moreover have "token_hashes s1 \<subseteq> insert (hash b) (token_hashes s0)"
    using b set_update_subset [of bootstrapID _ "as_records s0"]
    by (fastforce simp: install_bootstrap_def bootstrap_record_def token_hashes_iff split: option.splits if_splits)
  moreover have "token_hashes s = token_hashes s1" using p by (auto simp: token_hashes_def split: if_splits)
  ultimately show ?thesis by blast
qed

lemma operation_hashes:
  assumes "auth_inv s"
  shows "token_hashes (fst (Authenticate hash fs clock secret s)) \<subseteq> token_hashes s"
    and "token_hashes (fst (Issue hash fs raw now label s)) \<subseteq> token_hashes s \<union> (hash \<circ> new_secret) ` set_option raw"
    and "token_hashes (fst (Revoke fs i s)) \<subseteq> token_hashes s"
proof -
  show "token_hashes (fst (Authenticate hash fs clock secret s)) \<subseteq> token_hashes s"
  proof
    fix h assume "h \<in> token_hashes (fst (Authenticate hash fs clock secret s))"
    then obtain j q where "(j, q) \<in> set (as_records (fst (Authenticate hash fs clock secret s)))" "tr_hash q = h" by (auto simp: token_hashes_iff)
    with Authenticate_records [OF assms this(1)] show "h \<in> token_hashes s"
      unfolding token_hashes_iff same_but_seen_def by metis
  qed
  show "token_hashes (fst (Issue hash fs raw now label s)) \<subseteq> token_hashes s \<union> (hash \<circ> new_secret) ` set_option raw"
  proof
    fix h assume "h \<in> token_hashes (fst (Issue hash fs raw now label s))"
    then obtain j q where "(j, q) \<in> set (as_records (fst (Issue hash fs raw now label s)))" "tr_hash q = h" by (auto simp: token_hashes_iff)
    with Issue_records [OF assms this(1)] show "h \<in> token_hashes s \<union> (hash \<circ> new_secret) ` set_option raw"
      by (auto simp: token_hashes_iff new_record_def)
  qed
  show "token_hashes (fst (Revoke fs i s)) \<subseteq> token_hashes s"
    using Revoke_records [of fs i s] unfolding subset_iff token_hashes_iff by blast
qed

lemma reopened_hashes:
  assumes "auth_inv s" and "as_disk s = Some d" and "file \<in> {NotExist, Tokens (map as_disk_token d)}"
    and "OpenStore hash fs file mode now path b = Inr s'"
  shows "token_hashes s' \<subseteq> insert (hash b) (token_hashes s)"
proof -
  have "token_keys d = token_keys (map snd (as_records s))" using assms(1,2) by (auto simp: auth_inv_def)
  moreover have "map dk_record (map as_disk_token d) = d" by (simp add: comp_def)
  ultimately show ?thesis using OpenStore_hashes [OF assms(4,3)] by (simp only: token_hashes_def)
qed

lemma later_store_inv:
  assumes "later_store hash h s s'" and "auth_inv s" and "h \<notin> token_hashes s"
  shows "auth_inv s' \<and> h \<notin> token_hashes s'"
  using assms
proof (induction rule: later_store.induct)
  case (authenticate s' fs clock secret)
  then show ?case using operation_hashes(1) [of s'] Authenticate_inv by blast
next
  case (issue s' raw fs now label)
  then have "h \<notin> (hash \<circ> new_secret) ` set_option raw" by (cases raw) auto
  with issue show ?case using operation_hashes(2) [of s'] Issue_inv by blast
next
  case (revoke s' fs i)
  then show ?case using operation_hashes(3) [of s'] Revoke_inv by blast
next
  case (invalidate s')
  then show ?case by (simp add: Invalidate_inv token_hashes_def InvalidateManagedSubscribers_effect)
next
  case (reopen s' d "file" fs mode now path b s'')
  then show ?case using reopened_hashes [OF _ reopen.hyps(2-4)] OpenStore_inv [OF reopen.hyps(4)] by blast
qed (simp_all add: SubscribeRevocation_inv cancel_revocation_inv token_hashes_def)

lemma revoked_is_gone:
  assumes "auth_inv s" and "map_of (as_records s) i = Some r" and "Revoke fs i s = (s', None)"
  shows "tr_hash r \<notin> token_hashes s'" and "as_disk s' = Some d \<Longrightarrow> i \<notin> tk_id ` set d"
    and "case map_of (as_subscribers s) i of None \<Rightarrow> True | Some chs \<Rightarrow> set chs \<subseteq> set (as_closed s')"
proof -
  have ri: "records_inv (as_records s)" using assms(1) by (simp add: auth_inv_def)
  obtain e where nb: "i \<noteq> bootstrapID" and s': "s' = notifyRevokedLocked i (s\<lparr>as_records := AList.delete i (as_records s),
       as_disk := Some (disk_tokens False (AList.delete i (as_records s))), as_last_error := e\<rparr>)"
    using assms(3) by (auto elim: Revoke_ok_cases)
  have rec: "as_records s' = AList.delete i (as_records s)" by (simp add: s' notifyRevokedLocked_def)
  show "tr_hash r \<notin> token_hashes s'"
  proof
    assume "tr_hash r \<in> token_hashes s'"
    then obtain j q where q: "(j, q) \<in> set (as_records s)" "j \<noteq> i" "tr_hash q = tr_hash r" by (auto simp: token_hashes_iff rec set_delete)
    then show False using match_record_unique [OF ri q(1)] match_record_unique [OF ri map_of_SomeD [OF assms(2)]] by simp
  qed
  show "i \<notin> tk_id ` set d" if "as_disk s' = Some d"
  proof
    assume "i \<in> tk_id ` set d"
    moreover have "d = disk_tokens False (AList.delete i (as_records s))" using that by (simp add: s' notifyRevokedLocked_def)
    ultimately obtain j q where "(j, q) \<in> set (AList.delete i (as_records s))" "tk_id q = i" by (auto simp: disk_tokens_def)
    then show False using records_inv_key [OF ri] by (auto simp: set_delete)
  qed
  show "case map_of (as_subscribers s) i of None \<Rightarrow> True | Some chs \<Rightarrow> set chs \<subseteq> set (as_closed s')"
    by (simp add: s' notifyRevokedLocked_def split: option.split)
qed

text \<open>C26. Revocation is final: when \<^verbatim>\<open>Revoke\<close> succeeds, no secret with the hash of the revoked token authenticates from then on, whatever
  operations of the store follow and however often it is opened again on its file, as long as no secret with that hash is drawn for a
  new token or configured as the bootstrap secret; every subscription to its revocation has been closed, and the identifier is
  gone from the token file; when it fails, the store still holds exactly the same tokens.\<close>

theorem revoke_is_final:
  assumes "auth_reach hash b s" and "map_of (as_records s) i = Some r" and "hash secret = tr_hash r"
    and "Revoke fs i s = (s', res)"
  shows "(res = None \<longrightarrow>
      (\<forall>s'' fs2 clock. later_store hash (hash secret) s' s'' \<longrightarrow> snd (Authenticate hash fs2 clock secret s'') = None) \<and>
      (case map_of (as_subscribers s) i of None \<Rightarrow> True | Some chs \<Rightarrow> set chs \<subseteq> set (as_closed s')) \<and>
      (\<forall>d. as_disk s' = Some d \<longrightarrow> i \<notin> tk_id ` set d)) \<and>
    (res \<noteq> None \<longrightarrow> token_keys (map snd (as_records s')) = token_keys (map snd (as_records s)))"
proof (cases res)
  case None
  have inv: "auth_inv s" "auth_inv s'" using auth_reach_inv [OF assms(1)] Revoke_inv [of s fs i] assms(4) by simp_all
  note gone = revoked_is_gone [OF inv(1) assms(2) assms(4) [unfolded None]]
  have "snd (Authenticate hash fs2 clock secret s'') = None" if "later_store hash (hash secret) s' s''" for s'' fs2 clock
    using later_store_inv [OF that inv(2)] gone(1) assms(3) by (simp add: unknown_hash_refused)
  with gone(2,3) show ?thesis unfolding None by simp
next
  case (Some e)
  have ri: "records_inv (as_records s)" using auth_reach_inv [OF assms(1)] by (simp add: auth_inv_def)
  have "as_records s' = as_records s \<or> as_records s' = AList.update i r (AList.delete i (as_records s))"
    using assms(2,4) Some persist_cases [of fs False "s\<lparr>as_records := AList.delete i (as_records s)\<rparr>"]
    by (auto simp: Revoke_def Let_def split: if_splits)
  then have "token_keys (map snd (as_records s')) = token_keys (map snd (as_records s))"
    using restore_record(2) [OF ri assms(2)] by (elim disjE) simp_all
  then show ?thesis unfolding Some by simp
qed

text \<open>The client is revoked, the administrator authenticates, and the client comes back.\<close>

theorem revoke_is_final_witness:
  "let s = fst (Revoke fs_ok (tk_id toy_record) toy_client_store);
       s' = fst (Authenticate toy_hash fs_ok 9 ''boot'' s)
   in snd (Revoke fs_ok (tk_id toy_record) toy_client_store) = None \<and> snd (Authenticate toy_hash fs_ok 9 (new_secret toy_raw) s') = None"
proof -
  have m: "map_of (as_records toy_client_store) (tk_id toy_record) = Some toy_record"
    using toy_record_fresh(1) by (simp add: toy_client_store_def toy_records_def)
  have h: "toy_hash (new_secret toy_raw) = tr_hash toy_record" by (simp add: toy_record_def new_record_def)
  have n: "find (\<lambda>st. \<not> fs_ok st) persist_steps = None" by (simp add: persist_steps_def fs_ok_def)
  have ok: "snd (Revoke fs_ok (tk_id toy_record) toy_client_store) = None"
    using toy_record_fresh(1,4) m by (simp add: Revoke_def persistLocked_def n Let_def)
  obtain s' where r: "Revoke fs_ok (tk_id toy_record) toy_client_store = (s', None)"
    using ok by (cases "Revoke fs_ok (tk_id toy_record) toy_client_store") simp
  have "later_store toy_hash (toy_hash (new_secret toy_raw)) s' (fst (Authenticate toy_hash fs_ok 9 ''boot'' s'))"
    by (intro later_store.authenticate later_store.now)
  with revoke_is_final [OF toy_client_reach m h r] r show ?thesis by (simp add: Let_def)
qed

text \<open>The token file always survives a restart: from any reachable state, opening the store again on
  the file as it is on disk, with the same bootstrap secret and a working file system, succeeds and gives
  exactly the tokens that were in memory. The hash is assumed to be what SHA-256 in hexadecimal is, 64
  lower-case hexadecimal digits.\<close>

theorem restart_keeps_tokens:
  assumes "\<forall>x. lower_hex 64 (hash x)" and "auth_reach hash b s" and "as_disk s = Some d"
    and "path \<noteq> []" and "b \<noteq> []" and "\<forall>st. fs st"
  shows "\<exists>s2. OpenStore hash fs (Tokens (map as_disk_token d)) (Inr m) now path b = Inr s2 \<and>
     token_keys (map snd (as_records s2)) = token_keys (map snd (as_records s))"
proof -
  have inv: "records_inv (as_records s)" "token_keys d = token_keys (map snd (as_records s))"
    using auth_reach_inv [OF assms(2)] assms(3) by (auto simp: auth_inv_def)
  have v: "valid_disk d" using auth_reach_valid [OF assms(1,2)] assms(3) by (simp add: valid_store_def)
  obtain r where r: "(bootstrapID, r) \<in> set (as_records s)" using records_inv_bootstrap [OF inv(1)] by blast
  then have "(bootstrapID, tr_hash r) \<in> token_keys d"
    using records_inv_key [OF inv(1) r] unfolding inv(2) by (force simp: token_keys_def)
  then have "bootstrapID \<in> tk_id ` set d" by (force simp: token_keys_def)
  moreover have "\<forall>q \<in> set d. tk_id q = bootstrapID \<longrightarrow> tr_hash q = hash b"
  proof (intro ballI impI)
    fix q assume q: "q \<in> set d" "tk_id q = bootstrapID"
    then have "(bootstrapID, tr_hash q) \<in> token_keys (map snd (as_records s))"
      unfolding inv(2) [symmetric] by (force simp: token_keys_def)
    then obtain j x where x: "(j, x) \<in> set (as_records s)" "tk_id x = bootstrapID" "tr_hash x = tr_hash q"
      by (auto simp: token_keys_def)
    then show "tr_hash q = hash b"
      using records_inv_key [OF inv(1) x(1)] auth_reach_bootstrap [OF assms(2)] by metis
  qed
  ultimately show ?thesis using reload [OF v _ _ assms(4,5,6)] unfolding inv(2) by blast
qed

lemma toy_hash_hex: "lower_hex 64 (toy_hash x)"
  unfolding toy_hash_def lower_hex_def list_all_iff by simp

theorem restart_keeps_tokens_witness:
  "\<exists>s2. OpenStore toy_hash fs_ok (Tokens (map as_disk_token
       (disk_tokens False [(bootstrapID, bootstrap_record (toy_hash ''boot'') 7)]))) (Inr True) 8 ''/t'' ''boot'' = Inr s2"
proof -
  have d: "as_disk toy_store = Some (disk_tokens False [(bootstrapID, bootstrap_record (toy_hash ''boot'') 7)])"
    by (simp add: toy_store_def)
  from restart_keeps_tokens [OF _ toy_reach d, of "''/t''" fs_ok True 8] show ?thesis
    using toy_hash_hex by (auto simp: fs_ok_def)
qed

end
