(* ===== verification/Client_Pairing.thy ===== *)
theory Client_Pairing
  imports Auth_Store
begin

text \<open>
  \<^verbatim>\<open>internal/auth/pairing.go\<close>: enrolment of clients with a short-lived PIN. The random source is the list of
  the bytes it still delivers; reading past its end is the read error. The token stores live in a heap
  (\<open>stores\<close>), because settings can rebind the pairing to another store: \<open>p_tokens\<close> is a reference. Every
  operation holds the mutex and is one atomic function; \<open>clock\<close> is its reading of the clock.
\<close>

section \<open>State\<close>

record failure_window =
  fw_started :: time
  fw_count :: nat

record pairing =
  p_tokens :: "nat option"
  p_ttl :: duration
  p_always_on :: bool
  p_random :: "byte list"
  p_open :: bool
  p_pin :: string
  p_expires_at :: time
  p_last_now :: time
  p_source_limit :: nat
  p_global_limit :: nat
  p_rate_window :: duration
  p_sources :: "(string \<times> failure_window) list"
  p_global :: failure_window

record PairingStatus =
  pst_open :: bool
  pst_expires_at :: time
  pst_pin :: string

definition no_window :: failure_window where
  "no_window = \<lparr>fw_started = 0, fw_count = 0\<rparr>"

section \<open>PIN generation\<close>

definition sample_value :: "byte \<Rightarrow> byte \<Rightarrow> byte \<Rightarrow> nat" where
  "sample_value a b c = unat a * 65536 + unat b * 256 + unat c"

text \<open>\<^verbatim>\<open>%06d\<close> of a number below a million.\<close>

definition format_pin :: "nat \<Rightarrow> string" where
  "format_pin v = map (\<lambda>k. char_of (48 + v div 10 ^ k mod 10)) [5, 4, 3, 2, 1, 0]"

abbreviation (input) pairingPINPossibilities :: nat where "pairingPINPossibilities \<equiv> 1000000"
abbreviation (input) pairingPINRejectionCeiling :: nat where "pairingPINRejectionCeiling \<equiv> 16000000"

fun generatePairingPIN :: "byte list \<Rightarrow> byte list \<times> string option" where
  "generatePairingPIN (a # b # c # rest) =
     (let value = sample_value a b c
      in if value < pairingPINRejectionCeiling
         then (rest, Some (format_pin (value mod pairingPINPossibilities)))
         else generatePairingPIN rest)"
| "generatePairingPIN _ = ([], None)"

section \<open>Opening and closing\<close>

definition closeLocked :: "pairing \<Rightarrow> pairing" where
  "closeLocked p = p\<lparr>p_open := False, p_pin := [], p_expires_at := 0\<rparr>"

definition openLocked :: "time \<Rightarrow> pairing \<Rightarrow> pairing" where
  "openLocked now p = (case generatePairingPIN (p_random p) of
      (rest, None) \<Rightarrow> closeLocked (p\<lparr>p_random := rest\<rparr>)
    | (rest, Some pin) \<Rightarrow> p\<lparr>p_random := rest, p_open := True, p_pin := pin, p_expires_at := now + p_ttl p\<rparr>)"

text \<open>A clock that went back clears the failure windows and closes or renews the PIN.\<close>

definition observeNowLocked :: "time \<Rightarrow> pairing \<Rightarrow> pairing" where
  "observeNowLocked now p =
     (let p = (if \<not> is_zero (p_last_now p) \<and> now < p_last_now p
               then let p = p\<lparr>p_sources := [], p_global := no_window\<rparr>
                    in if p_always_on p \<and> p_open p then openLocked now p else closeLocked p
               else p)
      in p\<lparr>p_last_now := now\<rparr>)"

definition refreshLocked :: "time \<Rightarrow> pairing \<Rightarrow> pairing" where
  "refreshLocked now p =
     (if \<not> p_open p \<or> now < p_expires_at p then p
      else if p_always_on p then openLocked now p
      else closeLocked p)"

definition statusLocked :: "bool \<Rightarrow> pairing \<Rightarrow> PairingStatus" where
  "statusLocked admin p =
     (if \<not> p_open p then \<lparr>pst_open = False, pst_expires_at = 0, pst_pin = []\<rparr>
      else \<lparr>pst_open = True, pst_expires_at = p_expires_at p, pst_pin = (if admin then p_pin p else [])\<rparr>)"

definition NewPairing :: "byte list \<Rightarrow> time \<Rightarrow> nat option \<Rightarrow> duration \<Rightarrow> bool \<Rightarrow> pairing" where
  "NewPairing rnd clock tokens ttl alwaysOn =
     (let p = \<lparr>p_tokens = tokens, p_ttl = (if ttl \<le> 0 then 5 * minute else ttl), p_always_on = alwaysOn,
               p_random = rnd, p_open = False, p_pin = [], p_expires_at = 0, p_last_now = 0,
               p_source_limit = 5, p_global_limit = 20, p_rate_window = minute, p_sources = [],
               p_global = no_window\<rparr>
      in if alwaysOn then openLocked clock (observeNowLocked clock p) else p)"

definition Open :: "time \<Rightarrow> pairing \<Rightarrow> pairing \<times> PairingStatus" where
  "Open clock p = (let p = openLocked clock (observeNowLocked clock p) in (p, statusLocked True p))"

definition Status_pairing :: "time \<Rightarrow> bool \<Rightarrow> pairing \<Rightarrow> pairing \<times> PairingStatus" where
  "Status_pairing clock admin p =
     (let p = refreshLocked clock (observeNowLocked clock p) in (p, statusLocked admin p))"

definition Close_pairing :: "pairing \<Rightarrow> pairing" where
  "Close_pairing p = closeLocked p"

text \<open>\<^verbatim>\<open>Reconfigure\<close> returns the policy from before, which its rollback restores.\<close>

record policy =
  po_ttl :: duration
  po_always_on :: bool
  po_open :: bool
  po_pin :: string
  po_expires_at :: time

definition policy_of :: "pairing \<Rightarrow> policy" where
  "policy_of p = \<lparr>po_ttl = p_ttl p, po_always_on = p_always_on p, po_open = p_open p, po_pin = p_pin p,
     po_expires_at = p_expires_at p\<rparr>"

definition apply_policy :: "pairing \<Rightarrow> duration \<Rightarrow> bool \<Rightarrow> string \<Rightarrow> time \<Rightarrow> pairing" where
  "apply_policy p ttl alwaysOn newPIN now =
     (let p = p\<lparr>p_ttl := ttl, p_always_on := alwaysOn\<rparr>
      in if p_open p then p\<lparr>p_expires_at := now + ttl\<rparr>
         else if alwaysOn then p\<lparr>p_open := True, p_pin := newPIN, p_expires_at := now + ttl\<rparr>
         else p)"

definition Reconfigure :: "time \<Rightarrow> duration \<Rightarrow> bool \<Rightarrow> pairing \<Rightarrow> pairing \<times> (auth_error + policy)" where
  "Reconfigure clock ttl alwaysOn p =
     (if ttl \<le> 0 then (p, Inl TTLNotPositive)
      else let p = refreshLocked clock (observeNowLocked clock p); before = policy_of p
           in if alwaysOn \<and> \<not> p_open p
              then (case generatePairingPIN (p_random p) of
                      (rest, None) \<Rightarrow> (p\<lparr>p_random := rest\<rparr>, Inl PINGenerationFailed)
                    | (rest, Some pin) \<Rightarrow> (apply_policy (p\<lparr>p_random := rest\<rparr>) ttl alwaysOn pin clock, Inr before))
              else (apply_policy p ttl alwaysOn [] clock, Inr before))"

definition rollback_policy :: "policy \<Rightarrow> pairing \<Rightarrow> pairing" where
  "rollback_policy b p = p\<lparr>p_ttl := po_ttl b, p_always_on := po_always_on b, p_open := po_open b,
     p_pin := po_pin b, p_expires_at := po_expires_at b\<rparr>"

text \<open>\<^verbatim>\<open>RebindStore\<close>: the new state and the reference its rollback restores.\<close>

definition RebindStore :: "nat option \<Rightarrow> pairing \<Rightarrow> pairing \<times> nat option" where
  "RebindStore tokens p = (p\<lparr>p_tokens := tokens\<rparr>, p_tokens p)"

section \<open>Failure windows\<close>

definition windowExpired :: "failure_window \<Rightarrow> time \<Rightarrow> duration \<Rightarrow> bool" where
  "windowExpired w now d \<longleftrightarrow> fw_count w > 0 \<and> \<not> now < fw_started w + d"

definition incrementFailureWindow :: "failure_window \<Rightarrow> time \<Rightarrow> failure_window" where
  "incrementFailureWindow w now =
     (let w = (if fw_count w = 0 then w\<lparr>fw_started := now\<rparr> else w) in w\<lparr>fw_count := fw_count w + 1\<rparr>)"

definition source_window :: "string \<Rightarrow> pairing \<Rightarrow> failure_window" where
  "source_window source p = (case map_of (p_sources p) source of None \<Rightarrow> no_window | Some w \<Rightarrow> w)"

definition expireFailureWindowsLocked :: "time \<Rightarrow> pairing \<Rightarrow> pairing" where
  "expireFailureWindowsLocked now p =
     (if windowExpired (p_global p) now (p_rate_window p) then p\<lparr>p_global := no_window\<rparr> else p)"

definition expireSourceWindowLocked :: "string \<Rightarrow> time \<Rightarrow> pairing \<Rightarrow> pairing" where
  "expireSourceWindowLocked source now p =
     (if windowExpired (source_window source p) now (p_rate_window p)
      then p\<lparr>p_sources := AList.delete source (p_sources p)\<rparr> else p)"

definition evictExpiredSourcesLocked :: "time \<Rightarrow> pairing \<Rightarrow> pairing" where
  "evictExpiredSourcesLocked now p =
     p\<lparr>p_sources := filter (\<lambda>(s, w). \<not> windowExpired w now (p_rate_window p)) (p_sources p)\<rparr>"

definition sourceCapacityAvailableLocked :: "string \<Rightarrow> time \<Rightarrow> pairing \<Rightarrow> pairing \<times> bool" where
  "sourceCapacityAvailableLocked source now p =
     (if source \<in> fst ` set (p_sources p) \<or> length (p_sources p) < p_global_limit p then (p, True)
      else let p = evictExpiredSourcesLocked now p in (p, length (p_sources p) < p_global_limit p))"

text \<open>The disjunction of \<^verbatim>\<open>rateLimitedLocked\<close> is evaluated from left to right: sources are evicted only when
  the counters do not already limit the request.\<close>

definition rateLimitedLocked :: "string \<Rightarrow> time \<Rightarrow> pairing \<Rightarrow> pairing \<times> bool" where
  "rateLimitedLocked source now p =
     (let p = expireSourceWindowLocked source now (expireFailureWindowsLocked now p)
      in if fw_count (p_global p) \<ge> p_global_limit p \<or> fw_count (source_window source p) \<ge> p_source_limit p
         then (p, True)
         else case sourceCapacityAvailableLocked source now p of (p, ok) \<Rightarrow> (p, \<not> ok))"

definition recordFailureLocked :: "string \<Rightarrow> time \<Rightarrow> pairing \<Rightarrow> pairing" where
  "recordFailureLocked source now p =
     (let p = expireSourceWindowLocked source now (expireFailureWindowsLocked now p);
          p = p\<lparr>p_global := incrementFailureWindow (p_global p) now\<rparr>
      in case sourceCapacityAvailableLocked source now p of
           (p, False) \<Rightarrow> p
         | (p, True) \<Rightarrow>
             p\<lparr>p_sources := AList.update source (incrementFailureWindow (source_window source p) now) (p_sources p)\<rparr>)"

section \<open>Exchange\<close>

text \<open>The part of \<^verbatim>\<open>Exchange\<close> before a token is issued: whether the PIN is accepted.\<close>

definition check_pin :: "time \<Rightarrow> string \<Rightarrow> string \<Rightarrow> pairing \<Rightarrow> pairing \<times> bool" where
  "check_pin clock source pin p =
     (let p = refreshLocked clock (observeNowLocked clock p)
      in case rateLimitedLocked source clock p of
           (p, True) \<Rightarrow> (p, False)
         | (p, False) \<Rightarrow>
             if \<not> p_open p \<or> pin \<noteq> p_pin p then (recordFailureLocked source clock p, False)
             else (p, True))"

definition Exchange ::
    "(string \<Rightarrow> string) \<Rightarrow> (persist_step \<Rightarrow> bool) \<Rightarrow> byte list option \<Rightarrow> time \<Rightarrow> time \<Rightarrow> string \<Rightarrow> string \<Rightarrow> string \<Rightarrow>
     pairing \<Rightarrow> (nat \<Rightarrow> auth_store) \<Rightarrow> pairing \<times> (nat \<Rightarrow> auth_store) \<times> (auth_error + string \<times> TokenMeta)" where
  "Exchange hash fs raw clock now source pin label p stores =
     (case validateLabel label of
        Some e \<Rightarrow> (p, stores, Inl e)
      | None \<Rightarrow>
          (case check_pin clock source pin p of
             (p, False) \<Rightarrow> (p, stores, Inl ErrInvalidOrExpiredPIN)
           | (p, True) \<Rightarrow>
               (case p_tokens p of
                  None \<Rightarrow> (p, stores, Inl StoreUnavailable)
                | Some k \<Rightarrow>
                    (case Issue hash fs raw now label (stores k) of
                       (s, res) \<Rightarrow> (p, stores(k := s), res)))))"

section \<open>Frame facts\<close>

lemma openLocked_frame [simp]:
  "p_sources (openLocked now p) = p_sources p" "p_global (openLocked now p) = p_global p"
  "p_source_limit (openLocked now p) = p_source_limit p" "p_global_limit (openLocked now p) = p_global_limit p"
  "p_rate_window (openLocked now p) = p_rate_window p" "p_ttl (openLocked now p) = p_ttl p"
  "p_last_now (openLocked now p) = p_last_now p"
  by (simp_all add: openLocked_def closeLocked_def split: prod.split option.split)

lemma refreshLocked_frame [simp]:
  "p_sources (refreshLocked now p) = p_sources p" "p_global (refreshLocked now p) = p_global p"
  "p_source_limit (refreshLocked now p) = p_source_limit p" "p_global_limit (refreshLocked now p) = p_global_limit p"
  "p_rate_window (refreshLocked now p) = p_rate_window p" "p_ttl (refreshLocked now p) = p_ttl p"
  "p_last_now (refreshLocked now p) = p_last_now p"
  by (simp_all add: refreshLocked_def closeLocked_def)

lemma observe_forward:
  "p_last_now p \<le> now \<Longrightarrow> observeNowLocked now p = p\<lparr>p_last_now := now\<rparr>"
  by (simp add: observeNowLocked_def)

lemma observe_ttl [simp]: "p_ttl (observeNowLocked now p) = p_ttl p"
  by (simp add: observeNowLocked_def closeLocked_def Let_def)

lemma rateLimited_pin [simp]:
  "p_open (fst (rateLimitedLocked source now p)) = p_open p" "p_pin (fst (rateLimitedLocked source now p)) = p_pin p"
  "p_expires_at (fst (rateLimitedLocked source now p)) = p_expires_at p"
  by (simp_all add: rateLimitedLocked_def sourceCapacityAvailableLocked_def evictExpiredSourcesLocked_def
      expireSourceWindowLocked_def expireFailureWindowsLocked_def Let_def)

lemma refreshed_open:
  assumes "0 < p_ttl p" "p_open (refreshLocked now p)"
  shows "now < p_expires_at (refreshLocked now p)"
  using assms by (auto simp: refreshLocked_def openLocked_def closeLocked_def split: if_splits prod.splits option.splits)

lemma check_pin_current:
  assumes "0 < p_ttl p" and "check_pin clock source pin p = (p', True)"
  shows "p_open p' \<and> pin = p_pin p' \<and> clock < p_expires_at p'"
proof -
  let ?p = "refreshLocked clock (observeNowLocked clock p)"
  obtain p1 l where r: "rateLimitedLocked source clock ?p = (p1, l)" by force
  have p': "\<not> l" "p_open p1" "pin = p_pin p1" "p' = p1"
    using assms(2) by (auto simp: check_pin_def Let_def r split: bool.splits if_splits)
  have f: "p_open p1 = p_open ?p" "p_pin p1 = p_pin ?p" "p_expires_at p1 = p_expires_at ?p"
    using rateLimited_pin [of source clock ?p] unfolding r by simp_all
  have "clock < p_expires_at ?p"
    by (rule refreshed_open) (use assms(1) p'(2) f(1) in simp_all)
  then show ?thesis using p' f by simp
qed

text \<open>A PIN is accepted only while enrolment is open: whenever an exchange passes the PIN check,
  enrolment is open at that moment, the PIN presented is the current one, and its expiry lies after the
  clock reading of the exchange, whatever happened to the clock before.\<close>

theorem pin_accepted_only_if_current:
  assumes "0 < p_ttl p" and "check_pin clock source pin p = (p', True)"
  shows "p_open p' \<and> pin = p_pin p' \<and> clock < p_expires_at p'"
  using assms by (rule check_pin_current)

lemma digit_chars: "char_of (48 :: nat) = CHR ''0''" "char_of (55 :: nat) = CHR ''7''"
  by code_simp+

theorem pin_accepted_only_if_current_witness:
  "let p = fst (Open 10 (NewPairing [0, 0, 7] 1 None 100 False)) in
   snd (check_pin 20 ''h'' ''000007'' p) \<and> (20 < p_expires_at (fst (check_pin 20 ''h'' ''000007'' p)))"
proof -
  let ?p = "fst (Open 10 (NewPairing [0, 0, 7] 1 None 100 False))"
  have o: "?p = \<lparr>p_tokens = None, p_ttl = 100, p_always_on = False, p_random = [], p_open = True,
      p_pin = ''000007'', p_expires_at = 110, p_last_now = 10, p_source_limit = 5, p_global_limit = 20,
      p_rate_window = minute, p_sources = [], p_global = no_window\<rparr>"
    by (simp add: Open_def NewPairing_def observeNowLocked_def openLocked_def sample_value_def format_pin_def
        digit_chars Let_def)
  have c: "check_pin 20 ''h'' ''000007'' ?p = (?p\<lparr>p_last_now := 20\<rparr>, True)"
    unfolding o by (simp add: check_pin_def observeNowLocked_def refreshLocked_def rateLimitedLocked_def
        expireSourceWindowLocked_def expireFailureWindowsLocked_def windowExpired_def source_window_def no_window_def
        sourceCapacityAvailableLocked_def Let_def)
  have "0 < p_ttl ?p" unfolding o by simp
  from pin_accepted_only_if_current [OF this c] c show ?thesis by (simp add: Let_def)
qed

section \<open>Guessing\<close>

text \<open>The sources of the wrong guesses that were compared with the PIN during a sequence of attempts
  (clock reading, source, PIN); an attempt that is rate limited is refused without a comparison.\<close>

definition wrong_guess :: "time \<Rightarrow> string \<Rightarrow> string \<Rightarrow> pairing \<Rightarrow> bool" where
  "wrong_guess clock source pin p =
     (case rateLimitedLocked source clock (refreshLocked clock (observeNowLocked clock p)) of
        (p, limited) \<Rightarrow> \<not> limited \<and> (\<not> p_open p \<or> pin \<noteq> p_pin p))"

fun wrong_guesses :: "(time \<times> string \<times> string) list \<Rightarrow> pairing \<Rightarrow> string list" where
  "wrong_guesses [] p = []"
| "wrong_guesses ((clock, source, pin) # as) p =
     (if wrong_guess clock source pin p then [source] else []) @ wrong_guesses as (fst (check_pin clock source pin p))"

text \<open>After the wrong guesses \<open>fs\<close>, all of them since \<open>t0\<close>.\<close>

definition guess_inv :: "time \<Rightarrow> string list \<Rightarrow> pairing \<Rightarrow> bool" where
  "guess_inv t0 fs p \<longleftrightarrow> fw_count (p_global p) = length fs \<and> (fs \<noteq> [] \<longrightarrow> t0 \<le> fw_started (p_global p)) \<and>
     length fs \<le> p_global_limit p \<and> length (p_sources p) \<le> length fs \<and>
     (\<forall>src. fw_count (source_window src p) = count_list fs src \<and> count_list fs src \<le> p_source_limit p) \<and>
     (\<forall>(src, w) \<in> set (p_sources p). t0 \<le> fw_started w)"

lemma guess_inv_frame:
  "p_global p' = p_global p \<Longrightarrow> p_sources p' = p_sources p \<Longrightarrow> p_global_limit p' = p_global_limit p \<Longrightarrow>
   p_source_limit p' = p_source_limit p \<Longrightarrow> guess_inv t0 fs p' = guess_inv t0 fs p"
  by (simp add: guess_inv_def source_window_def)

lemma not_expired:
  assumes "guess_inv t0 fs p" "now < t0 + p_rate_window p"
  shows "expireSourceWindowLocked source now (expireFailureWindowsLocked now p) = p"
proof -
  have "\<not> windowExpired (p_global p) now (p_rate_window p)"
    using assms by (auto simp: windowExpired_def guess_inv_def)
  moreover have "\<not> windowExpired (source_window source p) now (p_rate_window p)"
  proof (cases "map_of (p_sources p) source")
    case None
    then show ?thesis by (simp add: windowExpired_def source_window_def no_window_def)
  next
    case (Some w)
    then have "t0 \<le> fw_started w" using assms(1) by (auto simp: guess_inv_def dest: map_of_SomeD)
    then show ?thesis using Some assms(2) by (simp add: windowExpired_def source_window_def)
  qed
  ultimately show ?thesis by (simp add: expireSourceWindowLocked_def expireFailureWindowsLocked_def)
qed

lemma rateLimited_within:
  assumes "guess_inv t0 fs p" "now < t0 + p_rate_window p"
  shows "rateLimitedLocked source now p =
    (p, length fs \<ge> p_global_limit p \<or> count_list fs source \<ge> p_source_limit p)"
proof -
  have c: "fw_count (p_global p) = length fs" "fw_count (source_window source p) = count_list fs source"
    "length (p_sources p) \<le> length fs" using assms(1) by (auto simp: guess_inv_def)
  show ?thesis
    unfolding rateLimitedLocked_def not_expired [OF assms] Let_def c
    using c(3) by (auto simp: sourceCapacityAvailableLocked_def)
qed

lemma recordFailure_within:
  assumes "guess_inv t0 fs p" "now < t0 + p_rate_window p" "t0 \<le> now"
    and "length fs < p_global_limit p" "count_list fs source < p_source_limit p"
  shows "guess_inv t0 (fs @ [source]) (recordFailureLocked source now p)"
proof -
  have c: "fw_count (p_global p) = length fs" "length (p_sources p) \<le> length fs"
    "\<And>src. fw_count (source_window src p) = count_list fs src \<and> count_list fs src \<le> p_source_limit p"
    using assms(1) by (auto simp: guess_inv_def)
  let ?p = "p\<lparr>p_global := incrementFailureWindow (p_global p) now\<rparr>"
  let ?w = "incrementFailureWindow (source_window source p) now"
  have sw: "source_window source ?p = source_window source p" by (simp add: source_window_def)
  have r: "recordFailureLocked source now p = ?p\<lparr>p_sources := AList.update source ?w (p_sources p)\<rparr>"
    unfolding recordFailureLocked_def not_expired [OF assms(1,2)] Let_def
    using c(2) assms(4) sw by (simp add: sourceCapacityAvailableLocked_def)
  have w: "fw_count ?w = count_list fs source + 1" "t0 \<le> fw_started ?w"
  proof -
    show "fw_count ?w = count_list fs source + 1" using c(3) by (simp add: incrementFailureWindow_def Let_def)
    show "t0 \<le> fw_started ?w"
    proof (cases "map_of (p_sources p) source")
      case None
      then show ?thesis using assms(3) by (simp add: incrementFailureWindow_def source_window_def no_window_def)
    next
      case (Some w)
      then have "t0 \<le> fw_started w" using assms(1) by (auto simp: guess_inv_def dest: map_of_SomeD)
      then show ?thesis using Some assms(3) by (simp add: incrementFailureWindow_def source_window_def Let_def)
    qed
  qed
  have len: "length (AList.update source ?w (p_sources p)) \<le> Suc (length fs)"
    using length_update_le [of source ?w "p_sources p"] c(2) by simp
  have src: "\<forall>(src, w) \<in> set (AList.update source ?w (p_sources p)). t0 \<le> fw_started w"
    using set_update_subset [of source ?w "p_sources p"] w(2) assms(1) by (auto simp: guess_inv_def)
  have sw': "source_window src (recordFailureLocked source now p) = (if src = source then ?w else source_window src p)" for src
    by (simp add: r source_window_def)
  have "fs \<noteq> [] \<longrightarrow> t0 \<le> fw_started (p_global p)" using assms(1) by (simp add: guess_inv_def)
  then have "t0 \<le> fw_started (incrementFailureWindow (p_global p) now)"
    using assms(3) c(1) by (cases fs) (simp_all add: incrementFailureWindow_def Let_def)
  moreover have "fw_count (incrementFailureWindow (p_global p) now) = Suc (length fs)"
    using c(1) by (simp add: incrementFailureWindow_def Let_def)
  ultimately show ?thesis
    unfolding guess_inv_def sw' using len src w(1) c(3) assms(4,5) by (simp add: r)
qed

definition same_limits :: "pairing \<Rightarrow> pairing \<Rightarrow> bool" where
  "same_limits p p' \<longleftrightarrow> p_rate_window p' = p_rate_window p \<and> p_last_now p' = p_last_now p \<and>
     p_global_limit p' = p_global_limit p \<and> p_source_limit p' = p_source_limit p"

lemma recordFailure_frame: "same_limits p (recordFailureLocked source now p)"
proof -
  let ?p = "expireSourceWindowLocked source now (expireFailureWindowsLocked now p)"
  let ?q = "?p\<lparr>p_global := incrementFailureWindow (p_global ?p) now\<rparr>"
  have p: "same_limits p ?q"
    by (simp add: same_limits_def expireSourceWindowLocked_def expireFailureWindowsLocked_def)
  obtain r ok where r: "sourceCapacityAvailableLocked source now ?q = (r, ok)" by force
  then have "same_limits ?q r"
    by (auto simp: sourceCapacityAvailableLocked_def evictExpiredSourcesLocked_def same_limits_def Let_def
        split: if_splits)
  with p show ?thesis
    by (cases ok) (simp_all add: recordFailureLocked_def Let_def r same_limits_def)
qed

lemma check_pin_step:
  fixes source pin :: string
  assumes "guess_inv t0 fs p" "p_last_now p \<le> clock" "t0 \<le> clock" "clock < t0 + p_rate_window p"
  defines "p' \<equiv> fst (check_pin clock source pin p)"
  shows "guess_inv t0 (fs @ (if wrong_guess clock source pin p then [source] else [])) p' \<and>
    p_last_now p' = clock \<and> p_rate_window p' = p_rate_window p \<and>
    p_global_limit p' = p_global_limit p \<and> p_source_limit p' = p_source_limit p"
proof -
  let ?p = "refreshLocked clock (observeNowLocked clock p)"
  have f: "p_sources ?p = p_sources p" "p_global ?p = p_global p" "p_source_limit ?p = p_source_limit p"
    "p_global_limit ?p = p_global_limit p" "p_rate_window ?p = p_rate_window p" "p_last_now ?p = clock"
    using assms(2) by (simp_all add: observe_forward)
  have inv: "guess_inv t0 fs ?p" using assms(1) guess_inv_frame [OF f(2,1,4,3)] by simp
  have lim: "clock < t0 + p_rate_window ?p" using assms(4) f(5) by simp
  note r = rateLimited_within [OF inv lim, of source]
  show ?thesis
  proof (cases "length fs \<ge> p_global_limit ?p \<or> count_list fs source \<ge> p_source_limit ?p")
    case True
    then have "p' = ?p" "\<not> wrong_guess clock source pin p"
      by (simp_all add: p'_def check_pin_def wrong_guess_def Let_def r)
    then show ?thesis using inv f by simp
  next
    case False
    then have u: "length fs < p_global_limit ?p" "count_list fs source < p_source_limit ?p" by auto
    show ?thesis
    proof (cases "\<not> p_open ?p \<or> pin \<noteq> p_pin ?p")
      case True
      then have "p' = recordFailureLocked source clock ?p" "wrong_guess clock source pin p"
        using u by (simp_all add: p'_def check_pin_def wrong_guess_def Let_def r)
      then show ?thesis
        using recordFailure_within [OF inv lim assms(3) u] f recordFailure_frame [of ?p source clock]
        by (simp add: same_limits_def)
    next
      case no: False
      then have "p' = ?p" "\<not> wrong_guess clock source pin p"
        using u by (simp_all add: p'_def check_pin_def wrong_guess_def Let_def r)
      then show ?thesis using inv f by simp
    qed
  qed
qed

lemma wrong_guesses_bounded:
  assumes "guess_inv t0 fs p" "p_last_now p \<le> t1" "t0 \<le> t1" "sorted (t1 # map fst as)"
    and "\<forall>a \<in> set as. fst a < t0 + p_rate_window p"
  shows "length (fs @ wrong_guesses as p) \<le> p_global_limit p \<and>
    count_list (fs @ wrong_guesses as p) src \<le> p_source_limit p"
  using assms
proof (induction as arbitrary: fs p t1)
  case Nil
  then show ?case by (simp add: guess_inv_def)
next
  case (Cons a as)
  obtain clock source pin where a: "a = (clock, source, pin)" by (cases a) auto
  let ?p = "fst (check_pin clock source pin p)"
  let ?new = "if wrong_guess clock source pin p then [source] else []"
  have c: "p_last_now p \<le> clock" "t0 \<le> clock" "clock < t0 + p_rate_window p"
    using Cons.prems by (auto simp: a)
  note s = check_pin_step [OF Cons.prems(1) c, of source pin]
  have "length ((fs @ ?new) @ wrong_guesses as ?p) \<le> p_global_limit ?p \<and>
      count_list ((fs @ ?new) @ wrong_guesses as ?p) src \<le> p_source_limit ?p"
    by (rule Cons.IH [where ?t1.0 = clock]) (use s c Cons.prems in \<open>auto simp: a\<close>)
  then show ?case using s by (simp add: a)
qed

text \<open>C23. Guessing the PIN is rate limited: starting without recorded failures, however many attempts from
  however many sources arrive within one rate window (one minute by default) and whatever PINs they carry,
  at most \<^verbatim>\<open>globalLimit\<close> (20) wrong guesses are ever compared with the PIN and at most \<^verbatim>\<open>sourceLimit\<close> (5)
  from any one source; all others are refused unseen.\<close>

theorem pin_guessing_bounded:
  assumes "p_global p = no_window" and "p_sources p = []" and "p_last_now p \<le> t0"
    and "sorted (t0 # map fst as)" and "\<forall>a \<in> set as. fst a < t0 + p_rate_window p"
  shows "length (wrong_guesses as p) \<le> p_global_limit p \<and>
    count_list (wrong_guesses as p) src \<le> p_source_limit p"
proof -
  have "guess_inv t0 [] p" using assms(1,2) by (simp add: guess_inv_def source_window_def no_window_def)
  from wrong_guesses_bounded [OF this assms(3) order.refl assms(4,5), of src] show ?thesis by simp
qed

theorem pin_guessing_bounded_witness:
  "count_list (wrong_guesses (replicate 50 (7, ''h'', ''123456'')) (NewPairing [] 1 None 100 False)) ''h'' \<le> 5"
proof -
  have r: "set (map fst (replicate 50 (7 :: int, ''h'', ''123456''))) \<subseteq> {7}" by auto
  have "sorted (7 # map fst (replicate 50 (7 :: int, ''h'', ''123456'')))"
    by (simp add: map_replicate_const sorted_replicate)
  from pin_guessing_bounded [OF _ _ _ this, of "NewPairing [] 1 None 100 False" "''h''"]
  show ?thesis by (simp add: NewPairing_def)
qed

section \<open>The distribution of PINs\<close>

lemma sample_value_alt: "sample_value a b c = (unat a * 256 + unat b) * 256 + unat c"
  by (simp add: sample_value_def)

lemma byte_less: "unat (x :: byte) < 256"
  using unsigned_less [of x, where ?'a = nat] by simp

lemma base256_eq: "y < 256 \<Longrightarrow> y' < 256 \<Longrightarrow> x * 256 + y = x' * 256 + y' \<Longrightarrow> x = x' \<and> y = (y' :: nat)"
proof -
  assume y: "y < 256" "y' < 256" and e: "x * 256 + y = x' * 256 + y'"
  have "(x * 256 + y) mod 256 = y" "(x' * 256 + y') mod 256 = y'" using y by simp_all
  with e show ?thesis by simp
qed

lemma sample_value_inj: "sample_value a b c = sample_value a' b' c' \<Longrightarrow> (a, b, c) = (a', b', c')"
proof -
  assume "sample_value a b c = sample_value a' b' c'"
  then have "unat a * 256 + unat b = unat a' * 256 + unat b' \<and> unat c = unat c'"
    unfolding sample_value_alt by (intro base256_eq byte_less)
  moreover from this have "unat a = unat a' \<and> unat b = unat b'" by (intro base256_eq byte_less) simp
  ultimately show ?thesis by (simp add: word_unat_eq_iff)
qed

lemma sample_value_onto: "v < 2 ^ 24 \<Longrightarrow> \<exists>a b c. sample_value a b c = v"
proof -
  assume v: "v < 2 ^ 24"
  have u: "unat (of_nat n :: byte) = n" if "n < 256" for n
    using that by (simp add: unsigned_of_nat take_bit_nat_eq_self)
  have d: "v div 256 div 256 < 256" using v by (simp add: less_mult_imp_div_less)
  have "sample_value (of_nat (v div 256 div 256)) (of_nat (v div 256 mod 256)) (of_nat (v mod 256)) =
      (v div 256 div 256 * 256 + v div 256 mod 256) * 256 + v mod 256"
    unfolding sample_value_alt using d by (simp only: u mod_less_divisor zero_less_numeral)
  also have "\<dots> = v" by (simp only: div_mult_mod_eq)
  finally show ?thesis by blast
qed

lemma digits_eq:
  "v < 10 ^ n \<Longrightarrow> w < 10 ^ n \<Longrightarrow> (\<And>k. k < n \<Longrightarrow> v div 10 ^ k mod 10 = w div 10 ^ k mod 10) \<Longrightarrow> v = (w :: nat)"
proof (induction n arbitrary: v w)
  case (Suc n)
  have "v div 10 = w div 10"
  proof (rule Suc.IH)
    show "v div 10 < 10 ^ n" "w div 10 < 10 ^ n" using Suc.prems(1,2) by (simp_all add: less_mult_imp_div_less mult.commute)
    show "v div 10 div 10 ^ k mod 10 = w div 10 div 10 ^ k mod 10" if "k < n" for k
      using Suc.prems(3) [of "Suc k"] that by (simp add: div_mult2_eq)
  qed
  moreover have "v mod 10 = w mod 10" using Suc.prems(3) [of 0] by simp
  ultimately show ?case by (metis div_mult_mod_eq)
qed simp

lemma format_pin_inj: "v < 1000000 \<Longrightarrow> w < 1000000 \<Longrightarrow> format_pin v = format_pin w \<Longrightarrow> v = w"
proof -
  assume b: "v < 1000000" "w < 1000000" and e: "format_pin v = format_pin w"
  have c: "of_char (char_of (48 + x) :: char) = (48 + x :: nat)" if "x < 10" for x using that by simp
  have d: "x = y" if "(char_of (48 + x) :: char) = char_of (48 + y)" "x < 10" "y < 10" for x y :: nat
    using c [OF that(2)] c [OF that(3)] that(1) by simp
  show "v = w"
  proof (rule digits_eq [of v 6 w])
    show "v < 10 ^ 6" "w < 10 ^ 6" using b by simp_all
    fix k :: nat assume "k < 6"
    then have "k \<in> set [5, 4, 3, 2, 1, 0]" by auto
    then have "(char_of (48 + v div 10 ^ k mod 10) :: char) = char_of (48 + w div 10 ^ k mod 10)"
      using e unfolding format_pin_def map_eq_conv by blast
    then show "v div 10 ^ k mod 10 = w div 10 ^ k mod 10" by (rule d) simp_all
  qed
qed

text \<open>PINs are uniformly distributed: of the three-byte samples of the random source that are
  accepted, exactly sixteen give each of the million PINs, so no PIN is more likely than another.\<close>

theorem pin_uniform:
  assumes "n < 1000000"
  shows "card {(a, b, c). generatePairingPIN [a, b, c] = ([], Some (format_pin n))} = 16"
proof -
  have g: "generatePairingPIN [a, b, c] = ([], Some (format_pin n)) \<longleftrightarrow>
      sample_value a b c < 16000000 \<and> sample_value a b c mod 1000000 = n" for a b c
    using format_pin_inj [of "sample_value a b c mod 1000000" n] assms by (auto simp: Let_def)
  let ?S = "{(a, b, c). generatePairingPIN [a, b, c] = ([], Some (format_pin n))}"
  let ?V = "(\<lambda>k. n + k * 1000000) ` {..<16}"
  have v: "v \<in> ?V \<longleftrightarrow> v < 16000000 \<and> v mod 1000000 = n" for v
  proof
    show "v \<in> ?V \<Longrightarrow> v < 16000000 \<and> v mod 1000000 = n" using assms by auto
    assume h: "v < 16000000 \<and> v mod 1000000 = n"
    show "v \<in> ?V"
    proof
      show "v = n + v div 1000000 * 1000000" using h by (metis add.commute div_mult_mod_eq)
      show "v div 1000000 \<in> {..<16}" using h by (simp add: less_mult_imp_div_less)
    qed
  qed
  have inj: "inj_on (\<lambda>(a, b, c). sample_value a b c) ?S"
  proof (rule inj_onI)
    fix x y assume e: "(\<lambda>(a, b, c). sample_value a b c) x = (\<lambda>(a, b, c). sample_value a b c) y"
    obtain a b c a' b' c' where xy: "x = (a, b, c)" "y = (a', b', c')" by (cases x, cases y)
    show "x = y" unfolding xy by (rule sample_value_inj) (use e xy in simp)
  qed
  have "(\<lambda>(a, b, c). sample_value a b c) ` ?S = ?V"
  proof
    show "(\<lambda>(a, b, c). sample_value a b c) ` ?S \<subseteq> ?V"
    proof
      fix x assume "x \<in> (\<lambda>(a, b, c). sample_value a b c) ` ?S"
      then obtain a b c where "x = sample_value a b c" "generatePairingPIN [a, b, c] = ([], Some (format_pin n))"
        by (elim imageE) (simp only: split_paired_all mem_Collect_eq case_prod_conv)
      then show "x \<in> ?V" unfolding v g by simp
    qed
    show "?V \<subseteq> (\<lambda>(a, b, c). sample_value a b c) ` ?S"
    proof
      fix x assume "x \<in> ?V"
      then have x: "x < 16000000" "x mod 1000000 = n" unfolding v by simp_all
      then obtain a b c where abc: "sample_value a b c = x" using sample_value_onto [of x] by auto
      then have "generatePairingPIN [a, b, c] = ([], Some (format_pin n))" unfolding g using x by simp
      then have "(a, b, c) \<in> ?S" by (simp only: mem_Collect_eq case_prod_conv)
      then show "x \<in> (\<lambda>(a, b, c). sample_value a b c) ` ?S"
        by (rule rev_image_eqI) (simp add: abc)
    qed
  qed
  with inj have "bij_betw (\<lambda>(a, b, c). sample_value a b c) ?S ?V" unfolding bij_betw_def by blast
  then have "card ?S = card ?V" by (rule bij_betw_same_card)
  also have "card ?V = 16" by (subst card_image) (auto simp: inj_on_def)
  finally show ?thesis .
qed

theorem pin_uniform_witness:
  "card {(a, b, c). generatePairingPIN [a, b, c] = ([], Some (format_pin 20555))} = 16"
  by (rule pin_uniform) simp

fun rejected_sample :: "byte list \<Rightarrow> bool" where
  "rejected_sample [a, b, c] \<longleftrightarrow> pairingPINRejectionCeiling \<le> sample_value a b c"
| "rejected_sample _ \<longleftrightarrow> False"

lemma rejected_sample_cases: "rejected_sample t \<Longrightarrow> \<exists>a b c. t = [a, b, c] \<and> pairingPINRejectionCeiling \<le> sample_value a b c"
  by (cases t rule: rejected_sample.cases) auto

lemma generatePairingPIN_skip:
  "list_all rejected_sample skipped \<Longrightarrow> generatePairingPIN (concat skipped @ bytes) = generatePairingPIN bytes"
  by (induction skipped) (auto dest!: rejected_sample_cases)

lemma generatePairingPIN_returns:
  "generatePairingPIN bytes = (rest, Some pin) \<Longrightarrow>
     \<exists>skipped a b c. list_all rejected_sample skipped \<and> bytes = concat skipped @ [a, b, c] @ rest \<and>
       sample_value a b c < pairingPINRejectionCeiling \<and> pin = format_pin (sample_value a b c mod pairingPINPossibilities)"
proof (induction bytes rule: generatePairingPIN.induct)
  case (1 a b c bytes)
  show ?case
  proof (cases "sample_value a b c < pairingPINRejectionCeiling")
    case True
    then show ?thesis using 1(2) by (intro exI [of _ "[]"] exI [of _ a] exI [of _ b] exI [of _ c]) (simp add: Let_def)
  next
    case False
    then have "generatePairingPIN bytes = (rest, Some pin)" using 1(2) by (simp add: Let_def)
    from 1(1) [OF refl False this] obtain skipped x y z where
      "list_all rejected_sample skipped" "bytes = concat skipped @ [x, y, z] @ rest" "sample_value x y z < pairingPINRejectionCeiling"
      "pin = format_pin (sample_value x y z mod pairingPINPossibilities)" by blast
    then show ?thesis using False by (intro exI [of _ "[a, b, c] # skipped"] exI [of _ x] exI [of _ y] exI [of _ z]) simp
  qed
qed simp_all

text \<open>The rejection loop of the PIN generator ends with the first acceptable sample: it returns a PIN exactly
  when the random source delivers, after some samples that are rejected, a complete sample below the
  ceiling; the PIN is then that sample's, and exactly the bytes up to it have been read.\<close>

theorem pin_generation_terminates:
  "generatePairingPIN bytes = (rest, Some pin) \<longleftrightarrow>
     (\<exists>skipped a b c. list_all rejected_sample skipped \<and> bytes = concat skipped @ [a, b, c] @ rest \<and>
        sample_value a b c < 16000000 \<and> pin = format_pin (sample_value a b c mod 1000000))"
proof
  assume "\<exists>skipped a b c. list_all rejected_sample skipped \<and> bytes = concat skipped @ [a, b, c] @ rest \<and>
        sample_value a b c < 16000000 \<and> pin = format_pin (sample_value a b c mod 1000000)"
  then show "generatePairingPIN bytes = (rest, Some pin)" by (elim exE conjE) (simp add: generatePairingPIN_skip Let_def)
qed (rule generatePairingPIN_returns)

end
