(* ===== verification/Auth_Registry.thy ===== *)
theory Auth_Registry
  imports Auth_Store
begin

text \<open>
  What the token store of \<^verbatim>\<open>internal/auth/store.go\<close> promises, as an abstract specification: a finite map from
  the hashes of live secrets to token identifiers. Presenting a secret is a lookup, issuing a token adds
  an entry under a fresh hash and a fresh identifier, revoking removes the entry of an identifier, and
  everything else, the persistence and its failures, the last-seen times and the revocation subscriptions,
  is invisible. The store of \<^verbatim>\<open>Auth_Store\<close> implements this specification.
\<close>

section \<open>The specification\<close>

type_synonym registry = "string \<rightharpoonup> string"

datatype token_event =
    Presented string "Principal option"
  | Granted string string
  | Withdrawn string
  | Invisible

definition holder :: "string \<Rightarrow> Principal" where
  "holder i = \<lparr>pr_token_id = i, pr_role = (if i = bootstrapID then RoleAdmin else RoleClient)\<rparr>"

inductive registry_step :: "registry \<Rightarrow> token_event \<Rightarrow> registry \<Rightarrow> bool" where
  presented: "registry_step m (Presented h (map_option holder (m h))) m"
| granted: "m h = None \<Longrightarrow> i \<notin> ran m \<Longrightarrow> i \<noteq> bootstrapID \<Longrightarrow> registry_step m (Granted h i) (m(h \<mapsto> i))"
| withdrawn: "i \<in> ran m \<Longrightarrow> i \<noteq> bootstrapID \<Longrightarrow>
    registry_step m (Withdrawn i) (\<lambda>h. if m h = Some i then None else m h)"
| invisible: "registry_step m Invisible m"

section \<open>Simulation\<close>

inductive run :: "('s \<Rightarrow> 'e \<Rightarrow> 's \<Rightarrow> bool) \<Rightarrow> 's \<Rightarrow> 'e list \<Rightarrow> 's \<Rightarrow> bool" for step where
  finished: "run step s [] s"
| further: "step s e s' \<Longrightarrow> run step s' es s'' \<Longrightarrow> run step s (e # es) s''"

locale simulation =
  fixes abs :: "'c \<Rightarrow> 'a" and inv :: "'c \<Rightarrow> bool"
    and cstep :: "'c \<Rightarrow> 'e \<Rightarrow> 'c \<Rightarrow> bool" and astep :: "'a \<Rightarrow> 'e \<Rightarrow> 'a \<Rightarrow> bool"
  assumes keeps_inv: "inv c \<Longrightarrow> cstep c e c' \<Longrightarrow> inv c'"
    and simulates: "inv c \<Longrightarrow> cstep c e c' \<Longrightarrow> astep (abs c) e (abs c')"
begin

lemma simulates_runs: "run cstep c es c' \<Longrightarrow> inv c \<Longrightarrow> run astep (abs c) es (abs c') \<and> inv c'"
proof (induction rule: run.induct)
  case (further s e s' es s'')
  then show ?case using keeps_inv simulates by (blast intro: run.further)
qed (simp add: run.finished)

end

section \<open>The store's events and its abstraction\<close>

definition registry :: "auth_store \<Rightarrow> registry" where
  "registry s h = map_option fst (match_record h (as_records s))"

inductive store_event :: "(string \<Rightarrow> string) \<Rightarrow> auth_store \<Rightarrow> token_event \<Rightarrow> auth_store \<Rightarrow> bool" for hash where
  authenticate: "Authenticate hash fs clock secret s = (s', p) \<Longrightarrow> store_event hash s (Presented (hash secret) p) s'"
| issued: "Issue hash fs raw now label s = (s', Inr (secret, meta)) \<Longrightarrow> store_event hash s (Granted (hash secret) (tk_id meta)) s'"
| issue_failed: "Issue hash fs raw now label s = (s', Inl e) \<Longrightarrow> store_event hash s Invisible s'"
| revoked: "Revoke fs i s = (s', None) \<Longrightarrow> store_event hash s (Withdrawn i) s'"
| revoke_failed: "Revoke fs i s = (s', Some e) \<Longrightarrow> store_event hash s Invisible s'"
| subscribed: "store_event hash s Invisible (fst (SubscribeRevocation ch i s))"
| cancelled: "store_event hash s Invisible (cancel_revocation ch i s)"
| invalidated: "store_event hash s Invisible (InvalidateManagedSubscribers s)"

lemma registry_iff:
  assumes "records_inv (as_records s)"
  shows "registry s h = Some i \<longleftrightarrow> (i, h) \<in> token_keys (map snd (as_records s))"
proof
  assume "registry s h = Some i"
  then obtain r where "match_record h (as_records s) = Some (i, r)" by (auto simp: registry_def)
  from match_record_Some [OF assms this] show "(i, h) \<in> token_keys (map snd (as_records s))"
    by (force simp: token_keys_def dest: map_of_SomeD)
next
  assume "(i, h) \<in> token_keys (map snd (as_records s))"
  then obtain r where "(i, r) \<in> set (as_records s)" "tr_hash r = h"
    using records_inv_key [OF assms] by (auto simp: token_keys_def)
  then show "registry s h = Some i" using match_record_unique [OF assms] by (auto simp: registry_def)
qed

lemma registry_same_keys:
  assumes "records_inv (as_records s)" "records_inv (as_records s')"
    and "token_keys (map snd (as_records s')) = token_keys (map snd (as_records s))"
  shows "registry s' = registry s"
proof
  fix h
  have "registry s' h = Some i \<longleftrightarrow> registry s h = Some i" for i unfolding registry_iff [OF assms(1)] registry_iff [OF assms(2)] assms(3) ..
  then show "registry s' h = registry s h" by (metis not_Some_eq)
qed
lemma registry_records: "as_records s' = as_records s \<Longrightarrow> registry s' = registry s"
  by (simp add: registry_def fun_eq_iff)

section \<open>Every event of the store is an event of the specification\<close>

lemma Authenticate_keys:
  assumes "auth_inv s"
  shows "token_keys (map snd (as_records (fst (Authenticate hash fs clock secret s)))) = token_keys (map snd (as_records s))"
proof (cases "match_record (hash secret) (as_records s)")
  case (Some p)
  obtain i r where p: "p = (i, r)" by force
  have ri: "records_inv (as_records s)" using assms by (simp add: auth_inv_def)
  note m = match_record_Some [OF ri Some [unfolded p]]
  define rs where "rs = AList.update i (r\<lparr>tk_last_seen_at := Some (seen_at clock r)\<rparr>) (as_records s)"
  have "token_keys (map snd rs) = token_keys (map snd (as_records s))"
    unfolding rs_def by (rule records_inv_refresh(2) [OF ri m(1)]) simp_all
  moreover have "as_records (fst (Authenticate hash fs clock secret s)) \<in> {rs, mark_persisted rs}"
    by (simp add: Authenticate_def Let_def Some p case_prod_beta rs_def)
  ultimately show ?thesis by (elim insertE) (simp_all del: map_map)
qed (simp add: Authenticate_def)

lemma Authenticate_lookup:
  assumes "auth_inv s"
  shows "snd (Authenticate hash fs clock secret s) = map_option holder (registry s (hash secret))"
proof -
  have "records_inv (as_records s)" using assms by (simp add: auth_inv_def)
  then show ?thesis
    unfolding Authenticate_principal registry_def holder_def
    using match_record_Some(3,4) by (cases "match_record (hash secret) (as_records s)") fastforce+
qed

lemma Issue_granted:
  assumes "auth_inv s" "Issue hash fs raw now label s = (s', Inr (secret, meta))"
  shows "registry_step (registry s) (Granted (hash secret) (tk_id meta)) (registry s')"
proof -
  obtain bytes where b: "validateLabel label = None" "raw = Some bytes"
    using assms(2) by (auto simp: Issue_def split: option.splits)
  let ?r = "new_record hash bytes now label"
  have "\<not> tk_bootstrap ?r" by (simp add: new_record_def)
  from insert_record_cases [OF assms(1) this, of fs "new_secret bytes"] obtain e where
    ri: "records_inv (AList.update (tk_id ?r) ?r (as_records s))" and fresh: "tk_id ?r \<notin> fst ` set (as_records s)" and
    s': "as_records s' = AList.update (tk_id ?r) ?r (as_records s)" and m: "secret = new_secret bytes" "meta = TokenMeta.truncate ?r"
    using assms(2) by (auto simp: Issue_def b)
  have rs: "records_inv (as_records s)" using assms(1) by (simp add: auth_inv_def)
  have new: "as_records s' = as_records s @ [(tk_id ?r, ?r)]" unfolding s' using fresh by (rule update_fresh_append)
  have ids: "tk_id meta = tk_id ?r" "hash secret = tr_hash ?r" unfolding m by (simp_all add: new_record_def TokenMeta.defs)
  have "tr_hash q \<noteq> tr_hash ?r" if "(i, q) \<in> set (as_records s)" for i q
    using match_record_unique [OF ri, of i q] match_record_unique [OF ri, of "tk_id ?r" ?r] that fresh
    unfolding s' [symmetric] new by (metis UnI1 UnI2 fst_conv image_eqI list.set_intros(1) option.inject prod.inject set_append)
  then have none: "registry s (hash secret) = None"
    unfolding ids(2) registry_def match_record_def option.map_disc_iff find_None_iff by auto
  have "tk_id ?r \<notin> ran (registry s)"
  proof
    assume "tk_id ?r \<in> ran (registry s)"
    then obtain h where "(tk_id ?r, h) \<in> token_keys (map snd (as_records s))"
      unfolding ran_def registry_iff [OF rs] by blast
    then obtain k q where "(k, q) \<in> set (as_records s)" "tk_id q = tk_id ?r" unfolding token_keys_def by auto
    then show False using records_inv_key [OF rs] fresh by force
  qed
  moreover have "tk_id ?r \<noteq> bootstrapID" using fresh rs by (auto simp: records_inv_def)
  moreover have "registry s' = (registry s)(hash secret \<mapsto> tk_id ?r)"
    by (rule ext) (simp add: registry_def match_record_def new ids(2))
  ultimately show ?thesis using registry_step.granted [of "registry s", OF none] ids(1) by simp
qed

lemma Issue_refused:
  assumes "auth_inv s" "Issue hash fs raw now label s = (s', Inl e)" shows "registry s' = registry s"
proof (rule registry_records, cases "validateLabel label \<noteq> None \<or> raw = None")
  case True
  then show "as_records s' = as_records s" using assms(2) by (auto simp: Issue_def split: option.splits)
next
  case False
  then obtain bytes where b: "validateLabel label = None" "raw = Some bytes" by auto
  have "\<not> tk_bootstrap (new_record hash bytes now label)" by (simp add: new_record_def)
  from insert_record_cases [OF assms(1) this, of fs "new_secret bytes"] show "as_records s' = as_records s"
    using assms(2) by (auto simp: Issue_def b)
qed

lemma token_keys_delete:
  assumes "records_inv rs"
  shows "(j, h) \<in> token_keys (map snd (AList.delete i rs)) \<longleftrightarrow> (j, h) \<in> token_keys (map snd rs) \<and> j \<noteq> i"
proof -
  have "(j, h) \<in> token_keys (map snd (AList.delete i rs)) \<longleftrightarrow> (\<exists>k r. (k, r) \<in> set rs \<and> k \<noteq> i \<and> tk_id r = j \<and> tr_hash r = h)"
    by (auto simp: token_keys_def set_delete image_iff Bex_def)
  also have "\<dots> \<longleftrightarrow> (\<exists>k r. (k, r) \<in> set rs \<and> tk_id r = j \<and> tr_hash r = h) \<and> j \<noteq> i"
    using records_inv_key [OF assms] by blast
  also have "(\<exists>k r. (k, r) \<in> set rs \<and> tk_id r = j \<and> tr_hash r = h) \<longleftrightarrow> (j, h) \<in> token_keys (map snd rs)"
    by (auto simp: token_keys_def image_iff Bex_def)
  finally show ?thesis .
qed

lemma Revoke_withdrawn:
  assumes "auth_inv s" "Revoke fs i s = (s', None)"
  shows "registry_step (registry s) (Withdrawn i) (registry s')"
proof -
  have ri: "records_inv (as_records s)" using assms(1) by (simp add: auth_inv_def)
  obtain r e where nb: "i \<noteq> bootstrapID" and r: "map_of (as_records s) i = Some r" and "\<not> tk_bootstrap r"
    and s': "s' = notifyRevokedLocked i (s\<lparr>as_records := AList.delete i (as_records s),
       as_disk := Some (disk_tokens False (AList.delete i (as_records s))), as_last_error := e\<rparr>)"
    using assms(2) by (rule Revoke_ok_cases)
  have rec: "as_records s' = AList.delete i (as_records s)" by (simp add: s' notifyRevokedLocked_def)
  have ri': "records_inv (as_records s')" unfolding rec using ri nb by (rule records_inv_delete)
  have live: "i \<in> ran (registry s)"
    using match_record_unique [OF ri map_of_SomeD [OF r]] by (auto simp: ran_def registry_def)
  have keys: "registry s' h = Some j \<longleftrightarrow> registry s h = Some j \<and> j \<noteq> i" for h j
    unfolding registry_iff [OF ri] registry_iff [OF ri'] rec by (rule token_keys_delete [OF ri])
  have "registry s' = (\<lambda>h. if registry s h = Some i then None else registry s h)"
  proof
    fix h show "registry s' h = (if registry s h = Some i then None else registry s h)"
      using keys by (metis not_Some_eq)
  qed
  then show ?thesis using registry_step.withdrawn [OF live nb] by simp
qed

lemma Revoke_refused:
  assumes "auth_inv s" "Revoke fs i s = (s', Some e)" shows "registry s' = registry s"
proof -
  have ri: "records_inv (as_records s)" using assms(1) by (simp add: auth_inv_def)
  show ?thesis
  proof (cases "map_of (as_records s) i")
    case None
    then show ?thesis using assms(2) by (intro registry_records) (auto simp: Revoke_def split: if_splits)
  next
    case (Some r)
    then have "as_records s' = as_records s \<or> as_records s' = AList.update i r (AList.delete i (as_records s))"
      using assms(2) persist_cases [of fs False "s\<lparr>as_records := AList.delete i (as_records s)\<rparr>"]
      by (auto simp: Revoke_def Let_def split: if_splits)
    then show ?thesis
      using restore_record(1,2) [OF ri Some] registry_same_keys [OF ri] registry_records by metis
  qed
qed

lemma store_event_inv: "store_event hash s e s' \<Longrightarrow> auth_inv s \<Longrightarrow> auth_inv s'"
proof (induction rule: store_event.induct)
  case (authenticate fs clock secret s s' p)
  then show ?case using Authenticate_inv [of s hash fs clock secret] by simp
next
  case (issued fs raw now label s s' secret meta)
  then show ?case using Issue_inv [of s hash fs raw now label] by simp
next
  case (issue_failed fs raw now label s s' e)
  then show ?case using Issue_inv [of s hash fs raw now label] by simp
next
  case (revoked fs i s s')
  then show ?case using Revoke_inv [of s fs i] by simp
next
  case (revoke_failed fs i s s' e)
  then show ?case using Revoke_inv [of s fs i] by simp
qed (simp_all add: SubscribeRevocation_inv cancel_revocation_inv Invalidate_inv)

lemma store_event_refines: "store_event hash s e s' \<Longrightarrow> auth_inv s \<Longrightarrow> registry_step (registry s) e (registry s')"
proof (induction rule: store_event.induct)
  case (authenticate fs clock secret s s' p)
  have "records_inv (as_records s)" "records_inv (as_records s')"
    using authenticate.prems Authenticate_inv [OF authenticate.prems, of hash fs clock secret]
    unfolding authenticate.hyps fst_conv auth_inv_def by blast+
  then have "registry s' = registry s"
    using Authenticate_keys [OF authenticate.prems, of hash fs clock secret]
    unfolding authenticate.hyps fst_conv by (rule registry_same_keys)
  moreover have "p = map_option holder (registry s (hash secret))"
    using Authenticate_lookup [OF authenticate.prems, of hash fs clock secret] authenticate.hyps by simp
  ultimately show ?case using registry_step.presented [of "registry s"] by simp
next
  case (issued fs raw now label s s' secret meta)
  then show ?case using Issue_granted by blast
next
  case (issue_failed fs raw now label s s' e)
  then show ?case using Issue_refused registry_step.invisible by metis
next
  case (revoked fs i s s')
  then show ?case using Revoke_withdrawn by blast
next
  case (revoke_failed fs i s s' e)
  then show ?case using Revoke_refused registry_step.invisible by metis
next
  case (subscribed s ch i)
  have "registry (fst (SubscribeRevocation ch i s)) = registry s" by (rule registry_records) simp
  then show ?case using registry_step.invisible by simp
next
  case (cancelled s ch i)
  have "registry (cancel_revocation ch i s) = registry s" by (rule registry_records) simp
  then show ?case using registry_step.invisible by simp
next
  case (invalidated s)
  have "registry (InvalidateManagedSubscribers s) = registry s"
    by (rule registry_records) (simp add: InvalidateManagedSubscribers_effect)
  then show ?case using registry_step.invisible by simp
qed

interpretation token_store: simulation registry auth_inv "store_event hash" registry_step
  by unfold_locales (blast intro: store_event_inv, blast intro: store_event_refines)

text \<open>C25. The token store implements the abstract registry: whatever sequence of authentications, issuings,
  revocations and subscriptions runs on a store that was opened, and whatever file-system calls fail in
  between, the answers it gives are those of a plain map from secret hashes to token identifiers, where
  only a successful \<^verbatim>\<open>Issue\<close> adds an entry, under a fresh hash and identifier, only a successful \<^verbatim>\<open>Revoke\<close>
  removes one, and nobody but the bootstrap entry is an administrator.\<close>

theorem token_store_refines_registry:
  assumes "auth_reach hash b s" and "run (store_event hash) s es s'"
  shows "run registry_step (registry s) es (registry s')"
  using token_store.simulates_runs [OF assms(2) auth_reach_inv [OF assms(1)]] by blast

theorem token_store_refines_registry_witness:
  "\<exists>p. run registry_step (registry toy_store)
     [Granted (toy_hash (new_secret toy_raw)) (tk_id toy_record), Presented (toy_hash (new_secret toy_raw)) p]
     (registry (fst (Authenticate toy_hash fs_ok 9 (new_secret toy_raw) toy_client_store)))"
proof -
  obtain s' p where a: "Authenticate toy_hash fs_ok 9 (new_secret toy_raw) toy_client_store = (s', p)" by force
  have id: "tk_id (TokenMeta.truncate toy_record) = tk_id toy_record" by (simp add: TokenMeta.defs)
  have "run (store_event toy_hash) toy_store
      [Granted (toy_hash (new_secret toy_raw)) (tk_id toy_record), Presented (toy_hash (new_secret toy_raw)) p] s'"
    using store_event.issued [OF toy_issue] store_event.authenticate [OF a] unfolding id
    by (blast intro: run.intros)
  from token_store_refines_registry [OF toy_reach this] show ?thesis using a by auto
qed

end
