(* ===== verification/Proto_Schedule.thy ===== *)
theory Proto_Schedule
  imports Proto_Frames
begin

text \<open>
  Package \<^verbatim>\<open>internal/proto\<close>: the on-device timers (\<^verbatim>\<open>schedule.go\<close>): the nine-byte
  \<^verbatim>\<open>TIMER_SETTINGS\<close> structure, its validation, and the \<^verbatim>\<open>SCHEDULED_ON_OFF\<close> frames.
\<close>

abbreviation (input) TimerOneShot :: byte where "TimerOneShot \<equiv> 0"
abbreviation (input) TimerDaily :: byte where "TimerDaily \<equiv> 1"
abbreviation (input) TimerWeekly :: byte where "TimerWeekly \<equiv> 2"
abbreviation (input) TimerMonthly :: byte where "TimerMonthly \<equiv> 3"

abbreviation (input) schedListIDs :: byte where "schedListIDs \<equiv> 0x00"
abbreviation (input) schedGetOne :: byte where "schedGetOne \<equiv> 0x01"
abbreviation (input) schedUpsert :: byte where "schedUpsert \<equiv> 0x02"
abbreviation (input) schedDelete :: byte where "schedDelete \<equiv> 0x04"

record Timer =
  tm_id :: byte
  tm_status :: int8
  tm_type :: byte
  tm_hour :: byte
  tm_minute :: byte
  tm_repeat :: uint32
  tm_action :: byte

definition Encode :: "Timer \<Rightarrow> byte list" where
  "Encode t = [tm_status t, tm_type t, tm_hour t, tm_minute t] @ put_uint32 (tm_repeat t) @ [tm_action t]"

definition ParseTimer :: "byte list \<Rightarrow> (proto_error + Timer) option" where
  "ParseTimer b =
     (if length b < 9 then Some (Inl TimerTooShort)
      else do {
        b0 \<leftarrow> idx b 0; b1 \<leftarrow> idx b 1; b2 \<leftarrow> idx b 2; b3 \<leftarrow> idx b 3;
        s \<leftarrow> slice b 4 8; rep \<leftarrow> le_uint32 s; b8 \<leftarrow> idx b 8;
        Some (Inr \<lparr>tm_id = 0, tm_status = b0, tm_type = b1, tm_hour = b2, tm_minute = b3,
          tm_repeat = rep, tm_action = b8\<rparr>) })"

section \<open>Calendar dates\<close>

definition is_leap :: "int \<Rightarrow> bool" where
  "is_leap y \<longleftrightarrow> y mod 4 = 0 \<and> (y mod 100 \<noteq> 0 \<or> y mod 400 = 0)"

definition days_in_month :: "int \<Rightarrow> int \<Rightarrow> int" where
  "days_in_month y m = (if m = 2 then (if is_leap y then 29 else 28)
     else if m \<in> {4, 6, 9, 11} then 30 else 31)"

text \<open>\<^verbatim>\<open>time.Date\<close> for a month in \<open>1 \<dots> 12\<close> and a day in \<open>1 \<dots> 31\<close>: a day past the end of its month is
  carried into the next month.\<close>

definition time_Date :: "int \<Rightarrow> int \<Rightarrow> int \<Rightarrow> int \<times> int \<times> int" where
  "time_Date y m d =
     (if d \<le> days_in_month y m then (y, m, d)
      else if m = 12 then (y + 1, 1, d - days_in_month y m)
      else (y, m + 1, d - days_in_month y m))"

section \<open>Validation and frames\<close>

definition validate_one_shot :: "uint32 \<Rightarrow> proto_error option" where
  "validate_one_shot rep =
     (let y = uint (and rep 0xFFFF); m = uint (and (drop_bit 16 rep) 0xFF); d = uint (drop_bit 24 rep)
      in if y = 0 \<or> m < 1 \<or> m > 12 \<or> d < 1 \<or> d > 31 then Some TimerDateInvalid
         else if time_Date y m d \<noteq> (y, m, d) then Some TimerDateInvalid
         else None)"

definition ValidateTimerWrite :: "Timer \<Rightarrow> proto_error option" where
  "ValidateTimerWrite t =
     (if tm_status t \<noteq> 1 \<and> tm_status t \<noteq> - 1 then Some (TimerStatusNotWritable (tm_status t))
      else if tm_hour t > 23 \<or> tm_minute t > 59 then Some (TimerTimeInvalid (tm_hour t) (tm_minute t))
      else if tm_action t > 1 then Some (TimerActionInvalid (tm_action t))
      else if tm_type t = TimerOneShot then validate_one_shot (tm_repeat t)
      else if tm_type t = TimerDaily then
        (if tm_repeat t \<noteq> 0 then Some TimerDailyRepeat else None)
      else if tm_type t = TimerWeekly then
        (if tm_repeat t = 0 \<or> and (tm_repeat t) 0xFFFFFF01 \<noteq> 0
         then Some (TimerWeeklyMask (tm_repeat t)) else None)
      else if tm_type t = TimerMonthly then
        (if tm_repeat t = 0 \<or> and (tm_repeat t) 1 \<noteq> 0
         then Some (TimerMonthlyMask (tm_repeat t)) else None)
      else Some (TimerTypeInvalid (tm_type t)))"

definition ScheduleList :: "byte list" where
  "ScheduleList = [CmdScheduledOnOff, ActGet, schedListIDs]"

definition ScheduleGet :: "byte \<Rightarrow> byte list" where
  "ScheduleGet i = [CmdScheduledOnOff, ActGet, schedGetOne, i]"

definition ScheduleUpsert :: "byte \<Rightarrow> Timer \<Rightarrow> byte list" where
  "ScheduleUpsert i t =
     (if ValidateTimerWrite t \<noteq> None then []
      else [CmdScheduledOnOff, ActSet, schedUpsert, i] @ Encode t)"

definition ScheduleDelete :: "byte \<Rightarrow> byte list" where
  "ScheduleDelete i = [CmdScheduledOnOff, ActSet, schedDelete, i]"

text \<open>The tolerant list parser: \<open>None\<close> is Go's nil slice, in the argument and in the result.\<close>

definition ParseScheduleIDs :: "byte list option \<Rightarrow> byte list option" where
  "ParseScheduleIDs payload = (case payload of
      None \<Rightarrow> None
    | Some [] \<Rightarrow> Some []
    | Some (n # rest) \<Rightarrow> Some (take (unat n) rest))"

definition ParsedUpsertID :: "byte list \<Rightarrow> byte \<Rightarrow> byte" where
  "ParsedUpsertID payload fallback = (case payload of p # _ \<Rightarrow> p | [] \<Rightarrow> fallback)"

section \<open>Lemmas\<close>

lemma length_Encode [simp]: "length (Encode t) = 9"
  by (simp add: Encode_def)

lemma ParseTimer_Encode_append:
  "ParseTimer (Encode t @ rest) = Some (Inr (t\<lparr>tm_id := 0\<rparr>))"
proof -
  have e: "Encode t @ rest = tm_status t # tm_type t # tm_hour t # tm_minute t #
      (put_uint32 (tm_repeat t) @ tm_action t # rest)"
    by (simp add: Encode_def)
  have "slice (Encode t @ rest) 4 8 = Some (put_uint32 (tm_repeat t))"
    by (simp add: slice_def e)
  moreover have "idx (Encode t @ rest) 8 = Some (tm_action t)"
    by (simp add: idx_def e put_uint32_def)
  moreover have "le_uint32 (put_uint32 (tm_repeat t)) = Some (tm_repeat t)"
    using le_uint32_put [of "tm_repeat t" "[]"] by simp
  ultimately show ?thesis
    by (simp add: ParseTimer_def idx_def) (simp add: e)
qed

lemma ValidateTimerWrite_common:
  assumes "ValidateTimerWrite t = None"
  shows "tm_status t = 1 \<or> tm_status t = - 1" "tm_hour t \<le> 23" "tm_minute t \<le> 59"
    "tm_action t \<le> 1" "tm_type t \<le> 3"
  using assms by (auto simp: ValidateTimerWrite_def not_less split: if_splits)

lemma time_Date_fixpoint: "time_Date y m d = (y, m, d) \<longleftrightarrow> d \<le> days_in_month y m"
  by (auto simp: time_Date_def)

lemma validate_one_shot_None_iff:
  "validate_one_shot rep = None \<longleftrightarrow>
     (let y = uint (and rep 0xFFFF); m = uint (and (drop_bit 16 rep) 0xFF); d = uint (drop_bit 24 rep)
      in 0 < y \<and> 1 \<le> m \<and> m \<le> 12 \<and> 1 \<le> d \<and> d \<le> days_in_month y m)"
proof -
  have "(if y = 0 \<or> m < 1 \<or> m > 12 \<or> d < 1 \<or> d > 31 then Some TimerDateInvalid
      else if time_Date y m d \<noteq> (y, m, d) then Some TimerDateInvalid else None) = None \<longleftrightarrow>
      0 < y \<and> 1 \<le> m \<and> m \<le> 12 \<and> 1 \<le> d \<and> d \<le> days_in_month y m" if "0 \<le> y" for y m d
  proof -
    have "days_in_month y m \<le> 31" by (simp add: days_in_month_def)
    then show ?thesis using that unfolding time_Date_fixpoint by (simp split: if_split)
  qed
  then show ?thesis unfolding validate_one_shot_def Let_def by simp
qed

lemma weekly_mask_bits:
  "and rep 0xFFFFFF01 = 0 \<longleftrightarrow> (\<forall>n. bit (rep :: uint32) n \<longrightarrow> 1 \<le> n \<and> n \<le> 7)"
proof -
  have mask: "bit (0xFFFFFF01 :: uint32) n \<longleftrightarrow> n < 32 \<and> (n = 0 \<or> 8 \<le> n)" for n
  proof -
    have "(0xFFFFFF01 :: uint32) = not (push_bit 1 (mask 7))"
      by (simp add: mask_eq_exp_minus_1 push_bit_eq_mult)
    then show ?thesis by (simp only: bit_simps) auto
  qed
  have "and rep 0xFFFFFF01 = 0 \<longleftrightarrow> (\<forall>n < 32. \<not> (bit rep n \<and> bit (0xFFFFFF01 :: uint32) n))"
    by (auto simp: bit_eq_iff bit_simps)
  also have "\<dots> \<longleftrightarrow> (\<forall>n. bit rep n \<longrightarrow> 1 \<le> n \<and> n \<le> 7)"
  proof -
    have "n < 32" if "bit rep n" for n using bit_imp_le_length [OF that] by simp
    then show ?thesis unfolding mask by (auto simp: not_le less_Suc_eq_le Suc_le_eq) force+
  qed
  finally show ?thesis .
qed

lemma and_1_bit0: "and (rep :: uint32) 1 = 0 \<longleftrightarrow> \<not> bit rep 0"
  using and_exp_eq_0_iff_not_bit [of rep 0] by simp

section \<open>Properties\<close>

text \<open>The write validator accepts exactly the timers the device documents: status enabled or
  disabled, a time of day, an on or off action, and a recurrence that is a real calendar date for a
  one-shot timer, zero for a daily one, a non-empty set of weekdays (bits 1 to 7) for a weekly one and
  a non-empty set of days (bits 1 to 31) for a monthly one.\<close>

theorem ValidateTimerWrite_spec:
  "ValidateTimerWrite t = None \<longleftrightarrow>
     (tm_status t = 1 \<or> tm_status t = - 1) \<and> tm_hour t \<le> 23 \<and> tm_minute t \<le> 59 \<and> tm_action t \<le> 1 \<and>
     (tm_type t = 0 \<and> (let y = uint (and (tm_repeat t) 0xFFFF);
            m = uint (and (drop_bit 16 (tm_repeat t)) 0xFF); d = uint (drop_bit 24 (tm_repeat t))
          in 0 < y \<and> 1 \<le> m \<and> m \<le> 12 \<and> 1 \<le> d \<and> d \<le> days_in_month y m) \<or>
      tm_type t = 1 \<and> tm_repeat t = 0 \<or>
      tm_type t = 2 \<and> tm_repeat t \<noteq> 0 \<and> (\<forall>n. bit (tm_repeat t) n \<longrightarrow> 1 \<le> n \<and> n \<le> 7) \<or>
      tm_type t = 3 \<and> tm_repeat t \<noteq> 0 \<and> \<not> bit (tm_repeat t) 0)"
  unfolding ValidateTimerWrite_def weekly_mask_bits [symmetric] validate_one_shot_None_iff [symmetric]
  by (auto simp: not_less and_1_bit0 split: if_splits)

theorem ValidateTimerWrite_spec_witness:
  "ValidateTimerWrite \<lparr>tm_id = 0, tm_status = 1, tm_type = 2, tm_hour = 7, tm_minute = 30,
     tm_repeat = 0x3E, tm_action = 1\<rparr> = None \<and>
   ValidateTimerWrite \<lparr>tm_id = 0, tm_status = 1, tm_type = 2, tm_hour = 7, tm_minute = 30,
     tm_repeat = 0x01, tm_action = 1\<rparr> \<noteq> None"
proof
  show "ValidateTimerWrite \<lparr>tm_id = 0, tm_status = 1, tm_type = 2, tm_hour = 7, tm_minute = 30,
     tm_repeat = 0x3E, tm_action = 1\<rparr> = None"
    unfolding ValidateTimerWrite_spec weekly_mask_bits [symmetric] by simp
  show "ValidateTimerWrite \<lparr>tm_id = 0, tm_status = 1, tm_type = 2, tm_hour = 7, tm_minute = 30,
     tm_repeat = 0x01, tm_action = 1\<rparr> \<noteq> None"
    unfolding ValidateTimerWrite_spec weekly_mask_bits [symmetric] by simp
qed

text \<open>An upsert frame is emitted exactly for a valid timer, and the settings carried by the frame
  parse back to that timer, whatever bytes follow them: no field is lost or reordered on the wire.\<close>

theorem timer_frame_roundtrip:
  "(ScheduleUpsert i t = [] \<longleftrightarrow> ValidateTimerWrite t \<noteq> None) \<and>
   (ValidateTimerWrite t = None \<longrightarrow>
      take 4 (ScheduleUpsert i t) = [CmdScheduledOnOff, ActSet, schedUpsert, i] \<and>
      ParseTimer (drop 4 (ScheduleUpsert i t) @ trailer) = Some (Inr (t\<lparr>tm_id := 0\<rparr>)))"
  by (simp add: ScheduleUpsert_def ParseTimer_Encode_append)

theorem timer_frame_roundtrip_witness:
  "ValidateTimerWrite \<lparr>tm_id = 0, tm_status = - 1, tm_type = 1, tm_hour = 7, tm_minute = 30,
     tm_repeat = 0, tm_action = 1\<rparr> = None \<and>
   ParseTimer (drop 4 (ScheduleUpsert 0xFF \<lparr>tm_id = 0, tm_status = - 1, tm_type = 1, tm_hour = 7,
     tm_minute = 30, tm_repeat = 0, tm_action = 1\<rparr>) @ [0x55]) =
   Some (Inr \<lparr>tm_id = 0, tm_status = - 1, tm_type = 1, tm_hour = 7, tm_minute = 30, tm_repeat = 0,
     tm_action = 1\<rparr>)"
  using timer_frame_roundtrip [where i = "0xFF" and trailer = "[0x55]" and t = "\<lparr>tm_id = 0, tm_status = - 1, tm_type = 1, tm_hour = 7,
     tm_minute = 30, tm_repeat = 0, tm_action = 1\<rparr>"]
  by (simp add: ValidateTimerWrite_def)

end
