(* ===== verification/Ble_Session.thy ===== *)
theory Ble_Session
  imports State_Store Proto_Schedule
begin

text \<open>
  The BLE session (\<^verbatim>\<open>internal/ble/session.go\<close>, \<^verbatim>\<open>controls.go\<close>, \<^verbatim>\<open>lifecycle.go\<close>, \<^verbatim>\<open>advanced.go\<close>) over an arbitrary
  transport (\<^verbatim>\<open>transport.go\<close>). The transport is a record of operations on a device state \<open>'w\<close>; a session
  operation is a function of the world (device state, telemetry store, reconnect-policy calls made so
  far) that returns the new world and a value or an error. A context is the error it reports in a
  world. A panic of the code would be the error \<open>Panic\<close>; the session's mutex makes every operation atomic.
\<close>

section \<open>World, transport and errors\<close>

datatype ctx_error = Canceled | DeadlineExceeded

datatype ble_error =
    Transport_error string | Proto_error proto_error | Ctx_error ctx_error | EmptyRequest
  | TimerNotFound proto_error | TimerMissing | TimerPayloadShort byte | TimerIDMismatch byte byte
  | ScheduleListEmpty | ScheduleListShort nat nat | UpsertIDMissing
  | ClockShort | ClockInvalid | TimeCharMissing | AlreadyDisconnected | NoDisconnect
  | BarrierFreeInvalid "byte list" | BLEPINOutside uint32 | Panic

datatype policy_call = ArmReconnect duration | DisarmReconnect | ResumeReconnect

record 'w world =
  w_dev :: 'w
  w_store :: store
  w_now :: time
  w_lifecycle :: bool
  w_policy :: "policy_call list"

record 'w Transport =
  tp_WriteChar :: "string \<Rightarrow> byte list \<Rightarrow> 'w \<Rightarrow> 'w \<times> ble_error option"
  tp_ReadChar :: "string \<Rightarrow> 'w \<Rightarrow> 'w \<times> (ble_error + byte list)"
  tp_Subscribe :: "string \<Rightarrow> 'w \<Rightarrow> 'w \<times> ble_error option"
  tp_HasChar :: "string \<Rightarrow> bool"
  tp_CanReadChar :: "string \<Rightarrow> bool"
  tp_Disconnected :: "'w \<Rightarrow> bool"

type_synonym ('w, 'a) act = "'w world \<Rightarrow> 'w world \<times> (ble_error + 'a)"
type_synonym 'w ctx = "'w world \<Rightarrow> ctx_error option"

abbreviation (input) "CharOTA \<equiv> ''00004301-0000-1000-8000-00805f9b34fb''"
abbreviation (input) "CharCmd \<equiv> ''00004302-0000-1000-8000-00805f9b34fb''"
abbreviation (input) "CharBattery \<equiv> ''00004303-0000-1000-8000-00805f9b34fb''"
abbreviation (input) "CharDC \<equiv> ''00004304-0000-1000-8000-00805f9b34fb''"
abbreviation (input) "CharTypeC \<equiv> ''00004305-0000-1000-8000-00805f9b34fb''"
abbreviation (input) "CharFactory \<equiv> ''00004310-0000-1000-8000-00805f9b34fb''"
abbreviation (input) "CharModel \<equiv> ''00002a24-0000-1000-8000-00805f9b34fb''"
abbreviation (input) "CharFWRev \<equiv> ''00002a26-0000-1000-8000-00805f9b34fb''"
abbreviation (input) "CharHWRev \<equiv> ''00002a27-0000-1000-8000-00805f9b34fb''"
abbreviation (input) "CharSWRev \<equiv> ''00002a28-0000-1000-8000-00805f9b34fb''"
abbreviation (input) "CharTime \<equiv> ''00002a2b-0000-1000-8000-00805f9b34fb''"

definition act_return :: "'a \<Rightarrow> ('w, 'a) act" where
  "act_return x w = (w, Inr x)"

definition act_fail :: "ble_error \<Rightarrow> ('w, 'a) act" where
  "act_fail e w = (w, Inl e)"

definition act_bind :: "('w, 'a) act \<Rightarrow> ('a \<Rightarrow> ('w, 'b) act) \<Rightarrow> ('w, 'b) act" where
  "act_bind m f w = (case m w of (w, Inl e) \<Rightarrow> (w, Inl e) | (w, Inr x) \<Rightarrow> f x w)"

text \<open>The result of a parser that may panic, as an action.\<close>

definition act_parse :: "(proto_error + 'a) option \<Rightarrow> ('w, 'a) act" where
  "act_parse r = (case r of
      None \<Rightarrow> act_fail Panic
    | Some (Inl e) \<Rightarrow> act_fail (Proto_error e)
    | Some (Inr x) \<Rightarrow> act_return x)"

definition background :: "'w ctx" where
  "background w = None"

definition check_ctx :: "'w ctx \<Rightarrow> ('w, unit) act" where
  "check_ctx ctx w = (case ctx w of None \<Rightarrow> (w, Inr ()) | Some e \<Rightarrow> (w, Inl (Ctx_error e)))"

definition t_write :: "'w Transport \<Rightarrow> string \<Rightarrow> byte list \<Rightarrow> ('w, unit) act" where
  "t_write t uuid d w = (case tp_WriteChar t uuid d (w_dev w) of
      (dev, None) \<Rightarrow> (w\<lparr>w_dev := dev\<rparr>, Inr ()) | (dev, Some e) \<Rightarrow> (w\<lparr>w_dev := dev\<rparr>, Inl e))"

definition t_read :: "'w Transport \<Rightarrow> string \<Rightarrow> ('w, byte list) act" where
  "t_read t uuid w = (case tp_ReadChar t uuid (w_dev w) of (dev, r) \<Rightarrow> (w\<lparr>w_dev := dev\<rparr>, r))"

definition t_subscribe :: "'w Transport \<Rightarrow> string \<Rightarrow> ('w, unit) act" where
  "t_subscribe t uuid w = (case tp_Subscribe t uuid (w_dev w) of
      (dev, None) \<Rightarrow> (w\<lparr>w_dev := dev\<rparr>, Inr ()) | (dev, Some e) \<Rightarrow> (w\<lparr>w_dev := dev\<rparr>, Inl e))"

definition on_store :: "(store \<Rightarrow> store) \<Rightarrow> ('w, unit) act" where
  "on_store f w = (w\<lparr>w_store := f (w_store w)\<rparr>, Inr ())"

section \<open>Command transactions\<close>

text \<open>\<^verbatim>\<open>commandContextLocked\<close>: result byte, payload and error; the first two are also meaningful next to an
  error that the device reported.\<close>

definition commandContextLocked ::
    "'w Transport \<Rightarrow> 'w ctx \<Rightarrow> byte list \<Rightarrow> 'w world \<Rightarrow> 'w world \<times> byte \<times> byte list \<times> ble_error option" where
  "commandContextLocked t ctx req w =
     (if length req = 0 then (w, 0, [], Some EmptyRequest)
      else case act_bind (check_ctx ctx) (\<lambda>_. act_bind (t_write t CharCmd req) (\<lambda>_. act_bind (check_ctx ctx) (\<lambda>_.
             act_bind (t_read t CharCmd) (\<lambda>reply. act_bind (check_ctx ctx) (\<lambda>_. act_return reply))))) w of
        (w, Inl e) \<Rightarrow> (w, 0, [], Some e)
      | (w, Inr reply) \<Rightarrow>
          (case ValidateReply req reply of
             None \<Rightarrow> (w, 0, [], Some Panic)
           | Some (result, payload, None) \<Rightarrow> (w, result, payload, None)
           | Some (result, payload, Some e) \<Rightarrow> (w, result, payload, Some (Proto_error e))))"

text \<open>\<^verbatim>\<open>commandContext\<close> as used by callers that only look at the error and the payload.\<close>

definition commandContext :: "'w Transport \<Rightarrow> 'w ctx \<Rightarrow> byte list \<Rightarrow> ('w, byte list) act" where
  "commandContext t ctx req w = (case commandContextLocked t ctx req w of
      (w, result, payload, Some e) \<Rightarrow> (w, Inl e)
    | (w, result, payload, None) \<Rightarrow> (w, Inr payload))"

definition command_act :: "'w Transport \<Rightarrow> byte list \<Rightarrow> ('w, byte list) act" where
  "command_act t req = commandContext t background req"

definition command_only :: "'w Transport \<Rightarrow> byte list \<Rightarrow> ('w, unit) act" where
  "command_only t req = act_bind (command_act t req) (\<lambda>_. act_return ())"

definition Session_DCControl :: "'w Transport \<Rightarrow> bool \<Rightarrow> ('w, unit) act" where
  "Session_DCControl t on = command_only t (DCControl on)"

definition Session_TypeCOutput :: "'w Transport \<Rightarrow> bool \<Rightarrow> ('w, unit) act" where
  "Session_TypeCOutput t on = command_only t (TypeCOutput on)"

definition Session_BypassControl :: "'w Transport \<Rightarrow> bool \<Rightarrow> ('w, unit) act" where
  "Session_BypassControl t on = command_only t (BypassControl on)"

section \<open>USB-C limits and the bypass threshold\<close>

definition getUSBCLimitLocked :: "'w Transport \<Rightarrow> int \<Rightarrow> ('w, int) act" where
  "getUSBCLimitLocked t typ w =
     (case commandContextLocked t background (TypeCLimitGet (word_of_int typ)) w of
        (w, result, payload, err) \<Rightarrow>
          if result = 0xFF then
            (if typ = LimitRuntime then (w, Inr (- 1))
             else case err of None \<Rightarrow> (w, Inr 0) | Some e \<Rightarrow> (w, Inl e))
          else (case err of
             Some e \<Rightarrow> (w, Inl e)
           | None \<Rightarrow> act_parse (ParseTypeCLimit payload) w))"

definition GetUSBCLimit :: "'w Transport \<Rightarrow> int \<Rightarrow> ('w, int) act" where
  "GetUSBCLimit t typ = getUSBCLimitLocked t typ"

definition USBCLimit :: "'w Transport \<Rightarrow> int \<Rightarrow> ('w, int) act" where
  "USBCLimit t typ = GetUSBCLimit t typ"

definition PutUSBCLimit :: "'w Transport \<Rightarrow> int \<Rightarrow> int \<Rightarrow> ('w, int) act" where
  "PutUSBCLimit t typ level =
     act_bind (command_act t (TypeCLimitSet (word_of_int typ) level)) (\<lambda>_. getUSBCLimitLocked t typ)"

definition DeleteUSBCLimit :: "'w Transport \<Rightarrow> int \<Rightarrow> ('w, int) act" where
  "DeleteUSBCLimit t typ =
     act_bind (command_act t (TypeCLimitClear (word_of_int typ))) (\<lambda>_. getUSBCLimitLocked t typ)"

definition SetUSBCLimit :: "'w Transport \<Rightarrow> int \<Rightarrow> int \<Rightarrow> ('w, unit) act" where
  "SetUSBCLimit t typ level = command_only t (TypeCLimitSet (word_of_int typ) level)"

definition ClearUSBCLimit :: "'w Transport \<Rightarrow> int \<Rightarrow> ('w, unit) act" where
  "ClearUSBCLimit t typ = command_only t (TypeCLimitClear (word_of_int typ))"

definition bypassThresholdLocked :: "'w Transport \<Rightarrow> ('w, float64) act" where
  "bypassThresholdLocked t =
     act_bind (command_act t BypassThresholdGet) (\<lambda>payload. act_parse (ParseBypassThreshold payload))"

definition BypassThreshold :: "'w Transport \<Rightarrow> ('w, float64) act" where
  "BypassThreshold t = bypassThresholdLocked t"

definition SetBypassThreshold :: "'w Transport \<Rightarrow> float64 \<Rightarrow> ('w, unit) act" where
  "SetBypassThreshold t volts = command_only t (BypassThresholdSet volts)"

definition PutBypassThreshold :: "'w Transport \<Rightarrow> float64 \<Rightarrow> ('w, float64) act" where
  "PutBypassThreshold t volts =
     act_bind (command_act t (BypassThresholdSet volts)) (\<lambda>_. bypassThresholdLocked t)"

section \<open>Timers\<close>

definition strictScheduleIDs :: "byte list \<Rightarrow> (ble_error + byte list) option" where
  "strictScheduleIDs payload =
     (if length payload < 1 then Some (Inl ScheduleListEmpty)
      else do {
        n \<leftarrow> idx payload 0;
        if length payload < 1 + unat n then Some (Inl (ScheduleListShort (unat n) (length payload - 1)))
        else do { ids \<leftarrow> slice payload 1 (1 + unat n); Some (Inr ids) } })"

definition strictUpsertID :: "byte list \<Rightarrow> byte \<Rightarrow> (ble_error + byte) option" where
  "strictUpsertID payload requested =
     (if length payload \<ge> 1 then do { i \<leftarrow> idx payload 0; Some (Inr i) }
      else if requested = 0xFF then Some (Inl UpsertIDMissing)
      else Some (Inr requested))"

definition act_result :: "(ble_error + 'a) option \<Rightarrow> ('w, 'a) act" where
  "act_result r = (case r of None \<Rightarrow> act_fail Panic | Some (Inl e) \<Rightarrow> act_fail e | Some (Inr x) \<Rightarrow> act_return x)"

definition timerIDsLocked :: "'w Transport \<Rightarrow> ('w, byte list) act" where
  "timerIDsLocked t = act_bind (command_act t ScheduleList) (\<lambda>payload. act_result (strictScheduleIDs payload))"

text \<open>The payload of a timer read: identifier, then nine bytes of settings.\<close>

definition parse_timer_payload :: "byte \<Rightarrow> byte list \<Rightarrow> (ble_error + Timer) option" where
  "parse_timer_payload i payload =
     (if length payload < 10 then Some (Inl (TimerPayloadShort i))
      else do {
        got \<leftarrow> idx payload 0;
        if got \<noteq> i then Some (Inl (TimerIDMismatch i got))
        else do {
          s \<leftarrow> slice payload 1 10;
          r \<leftarrow> ParseTimer s;
          case r of Inl e \<Rightarrow> Some (Inl (Proto_error e)) | Inr timer \<Rightarrow> Some (Inr (timer\<lparr>tm_id := i\<rparr>)) } })"

definition getTimerLocked :: "'w Transport \<Rightarrow> byte \<Rightarrow> ('w, Timer) act" where
  "getTimerLocked t i w = (case command_act t (ScheduleGet i) w of
      (w, Inl (Proto_error e)) \<Rightarrow> (w, Inl (if is_ErrResult e then TimerNotFound e else Proto_error e))
    | (w, Inl e) \<Rightarrow> (w, Inl e)
    | (w, Inr payload) \<Rightarrow> act_result (parse_timer_payload i payload) w)"

fun get_timers :: "'w Transport \<Rightarrow> byte list \<Rightarrow> ('w, Timer list) act" where
  "get_timers t [] = act_return []"
| "get_timers t (i # ids) =
     act_bind (getTimerLocked t i) (\<lambda>timer. act_bind (get_timers t ids) (\<lambda>rest. act_return (timer # rest)))"

definition listTimersLocked :: "'w Transport \<Rightarrow> ('w, Timer list) act" where
  "listTimersLocked t = act_bind (timerIDsLocked t) (\<lambda>ids. get_timers t ids)"

definition GetTimer :: "'w Transport \<Rightarrow> byte \<Rightarrow> ('w, Timer) act" where
  "GetTimer t i = getTimerLocked t i"

definition ListTimers :: "'w Transport \<Rightarrow> ('w, Timer list) act" where
  "ListTimers t = listTimersLocked t"

definition hasTimerID :: "byte list \<Rightarrow> byte \<Rightarrow> bool" where
  "hasTimerID ids i \<longleftrightarrow> list_ex (\<lambda>c. c = i) ids"

definition AddTimer :: "'w Transport \<Rightarrow> Timer \<Rightarrow> ('w, Timer list \<times> byte) act" where
  "AddTimer t timer =
     act_bind (command_act t (ScheduleUpsert 0xFF timer)) (\<lambda>payload.
     act_bind (act_result (strictUpsertID payload 0xFF)) (\<lambda>i.
     act_bind (listTimersLocked t) (\<lambda>timers. act_return (timers, i))))"

definition PutTimer :: "'w Transport \<Rightarrow> byte \<Rightarrow> Timer \<Rightarrow> ('w, Timer list) act" where
  "PutTimer t i timer =
     act_bind (timerIDsLocked t) (\<lambda>ids.
       if \<not> hasTimerID ids i then act_fail TimerMissing
       else act_bind (command_act t (ScheduleUpsert i timer)) (\<lambda>_. listTimersLocked t))"

definition DeleteTimer :: "'w Transport \<Rightarrow> byte \<Rightarrow> ('w, Timer list) act" where
  "DeleteTimer t i =
     act_bind (timerIDsLocked t) (\<lambda>ids.
       if \<not> hasTimerID ids i then act_fail TimerMissing
       else act_bind (command_act t (ScheduleDelete i)) (\<lambda>_. listTimersLocked t))"

definition UpsertSchedule :: "'w Transport \<Rightarrow> byte \<Rightarrow> Timer \<Rightarrow> ('w, byte) act" where
  "UpsertSchedule t i timer =
     act_bind (command_act t (ScheduleUpsert i timer)) (\<lambda>payload. act_result (strictUpsertID payload i))"

definition DeleteSchedule :: "'w Transport \<Rightarrow> byte \<Rightarrow> ('w, unit) act" where
  "DeleteSchedule t i = command_only t (ScheduleDelete i)"

section \<open>Advanced operations\<close>

definition barrierFreeLocked :: "'w Transport \<Rightarrow> ('w, bool) act" where
  "barrierFreeLocked t = act_bind (command_act t BarrierFreeGet) (\<lambda>payload.
     if length payload < 1 then act_fail (BarrierFreeInvalid payload)
     else case idx payload 0 of
       None \<Rightarrow> act_fail Panic
     | Some b \<Rightarrow> if b > 1 then act_fail (BarrierFreeInvalid payload) else act_return (b = 1))"

definition BarrierFree :: "'w Transport \<Rightarrow> ('w, bool) act" where
  "BarrierFree t = barrierFreeLocked t"

definition SetBarrierFree :: "'w Transport \<Rightarrow> bool \<Rightarrow> ('w, bool) act" where
  "SetBarrierFree t on = act_bind (command_act t (BarrierFreeSet on)) (\<lambda>_. barrierFreeLocked t)"

definition SetRunningMode :: "'w Transport \<Rightarrow> byte \<Rightarrow> ('w, unit) act" where
  "SetRunningMode t mode = command_only t (RunningModeSet mode)"

definition USBFirmwareVersion :: "'w Transport \<Rightarrow> ('w, byte list) act" where
  "USBFirmwareVersion t = act_bind (command_act t USBFirmwareGet) (\<lambda>payload. act_parse (ParseUSBFirmware payload))"

definition SetBLEPIN :: "'w Transport \<Rightarrow> uint32 \<Rightarrow> ('w, unit) act" where
  "SetBLEPIN t pin =
     (let req = BLEPINSet pin
      in if length req = 0 then act_fail (BLEPINOutside pin) else command_only t req)"

section \<open>Clock, OTA and lifecycle\<close>

text \<open>\<^verbatim>\<open>Time.Weekday\<close> of a Gregorian date, Sunday being 0.\<close>

definition day_of_week :: "int \<Rightarrow> int \<Rightarrow> int \<Rightarrow> int" where
  "day_of_week y m d =
     (let y = (if m < 3 then y - 1 else y)
      in (y + y div 4 - y div 100 + y div 400 + [0, 3, 2, 5, 0, 3, 5, 1, 4, 6, 2, 4] ! nat (m - 1) + d) mod 7)"

text \<open>The civil time of a current-time payload; \<^verbatim>\<open>time.Date\<close> would carry an impossible day into the next
  month, which the last check rejects.\<close>

definition parse_clock :: "byte list \<Rightarrow> (ble_error + civil_time) option" where
  "parse_clock b =
     (if length b < 10 then Some (Inl ClockShort)
      else do {
        b0 \<leftarrow> idx b 0; b1 \<leftarrow> idx b 1; b2 \<leftarrow> idx b 2; b3 \<leftarrow> idx b 3; b4 \<leftarrow> idx b 4; b5 \<leftarrow> idx b 5;
        b6 \<leftarrow> idx b 6; b8 \<leftarrow> idx b 8;
        let y = uint b0 + uint b1 * 256; m = uint b2; d = uint b3;
            hh = uint b4; mm = uint b5; ss = uint b6
        in if y = 0 \<or> m < 1 \<or> m > 12 \<or> d < 1 \<or> d > 31 \<or> hh > 23 \<or> mm > 59 \<or> ss > 59
           then Some (Inl ClockInvalid)
           else if time_Date y m d \<noteq> (y, m, d) then Some (Inl ClockInvalid)
           else Some (Inr \<lparr>year = y, month = m, day = d, hours = hh, minutes = mm, seconds = ss,
             weekday = day_of_week y m d, nanosecond = uint b8 * 1000000000 div 256\<rparr>) })"

text \<open>\<^verbatim>\<open>ReadClock\<close>: \<open>None\<close> when the characteristic is not readable.\<close>

definition ReadClock :: "'w Transport \<Rightarrow> ('w, civil_time option) act" where
  "ReadClock t =
     (if \<not> tp_CanReadChar t CharTime then act_return None
      else act_bind (t_read t CharTime) (\<lambda>b. act_bind (act_result (parse_clock b)) (\<lambda>c. act_return (Some c))))"

definition SyncClock :: "'w Transport \<Rightarrow> civil_time \<Rightarrow> byte \<Rightarrow> ('w, unit) act" where
  "SyncClock t now reason =
     (if \<not> tp_HasChar t CharTime then act_fail TimeCharMissing
      else t_write t CharTime (CurrentTimeAt now reason))"

definition Session_OTAInfo :: "'w Transport \<Rightarrow> ('w, OTAInfo) act" where
  "Session_OTAInfo t =
     act_bind (t_write t CharOTA OTAInfoQuery) (\<lambda>_. act_bind (t_read t CharOTA) (\<lambda>reply. act_parse (ParseOTAInfo reply)))"

text \<open>What the wait after a lifecycle write ends with: the environment decides, in the world after the
  write.\<close>

datatype await_result = Disconnect_seen | Ctx_done ctx_error | Grace_over

definition waitForDisconnect ::
    "'w Transport \<Rightarrow> ('w world \<Rightarrow> await_result) \<Rightarrow> 'w ctx \<Rightarrow> string \<Rightarrow> byte list \<Rightarrow> ('w, unit) act" where
  "waitForDisconnect t await ctx uuid frame w =
     (case ctx w of
        Some e \<Rightarrow> (w, Inl (Ctx_error e))
      | None \<Rightarrow>
          if tp_Disconnected t (w_dev w) then (w, Inl AlreadyDisconnected)
          else case t_write t uuid frame w of
            (w, writeErr) \<Rightarrow>
              (case await w of
                 Disconnect_seen \<Rightarrow> (w\<lparr>w_store := SetConnected (w_now w) (w_now w) False (w_store w)\<rparr>, Inr ())
               | Ctx_done e \<Rightarrow> (w, Inl (Ctx_error e))
               | Grace_over \<Rightarrow> (case writeErr of Inl e \<Rightarrow> (w, Inl e) | Inr _ \<Rightarrow> (w, Inl NoDisconnect))))"

definition call_policy :: "policy_call \<Rightarrow> 'w world \<Rightarrow> 'w world" where
  "call_policy c w = (if w_lifecycle w then w\<lparr>w_policy := w_policy w @ [c]\<rparr> else w)"

text \<open>The common shape of the four lifecycle operations: set the reconnect policy first, if the session has
  one (\<^verbatim>\<open>s.lifecycle != nil\<close>, here \<open>w_lifecycle\<close>), and resume reconnecting when the device did not go away.\<close>

definition lifecycle_op ::
    "policy_call \<Rightarrow> 'w Transport \<Rightarrow> ('w world \<Rightarrow> await_result) \<Rightarrow> 'w ctx \<Rightarrow> string \<Rightarrow> byte list \<Rightarrow> ('w, unit) act" where
  "lifecycle_op c t await ctx uuid frame w =
     (case waitForDisconnect t await ctx uuid frame (call_policy c w) of
        (w, Inl e) \<Rightarrow> (call_policy ResumeReconnect w, Inl e)
      | (w, Inr x) \<Rightarrow> (w, Inr x))"

definition EnterOTA :: "'w Transport \<Rightarrow> ('w world \<Rightarrow> await_result) \<Rightarrow> 'w ctx \<Rightarrow> ('w, unit) act" where
  "EnterOTA t await ctx = lifecycle_op (ArmReconnect 0) t await ctx CharOTA OTAEnter"

definition ExitOTA :: "'w Transport \<Rightarrow> ('w world \<Rightarrow> await_result) \<Rightarrow> 'w ctx \<Rightarrow> ('w, unit) act" where
  "ExitOTA t await ctx = lifecycle_op (ArmReconnect 0) t await ctx CharOTA OTAExit"

definition Session_Restart :: "'w Transport \<Rightarrow> ('w world \<Rightarrow> await_result) \<Rightarrow> ('w, unit) act" where
  "Session_Restart t await = lifecycle_op (ArmReconnect (15 * second)) t await background CharCmd Restart"

definition Session_Shutdown :: "'w Transport \<Rightarrow> ('w world \<Rightarrow> await_result) \<Rightarrow> ('w, unit) act" where
  "Session_Shutdown t await = lifecycle_op DisarmReconnect t await background CharFactory ShutdownMagic"

section \<open>Handshake\<close>

record ble_identity =
  bi_model :: string
  bi_hw_rev :: string
  bi_firmware :: string
  bi_bootloader_firmware :: string
  bi_mac :: string
  bi_cid :: uint16
  bi_features :: uint32
  bi_mode :: string

definition writeCharContext :: "'w Transport \<Rightarrow> 'w ctx \<Rightarrow> string \<Rightarrow> byte list \<Rightarrow> ('w, unit) act" where
  "writeCharContext t ctx uuid d =
     act_bind (check_ctx ctx) (\<lambda>_. act_bind (t_write t uuid d) (\<lambda>_. check_ctx ctx))"

definition readCharContext :: "'w Transport \<Rightarrow> 'w ctx \<Rightarrow> string \<Rightarrow> ('w, byte list) act" where
  "readCharContext t ctx uuid =
     act_bind (check_ctx ctx) (\<lambda>_. act_bind (t_read t uuid) (\<lambda>b. act_bind (check_ctx ctx) (\<lambda>_. act_return b)))"

text \<open>Go's idiom of going on after an error unless the context has ended.\<close>

definition act_tolerate :: "'w ctx \<Rightarrow> ('w, 'a) act \<Rightarrow> ('a \<Rightarrow> ('w, 'b) act) \<Rightarrow> ('w, 'b) act \<Rightarrow> ('w, 'b) act" where
  "act_tolerate ctx m f skip w = (case m w of
      (w, Inr x) \<Rightarrow> f x w
    | (w, Inl e) \<Rightarrow>
        if e = Panic then (w, Inl Panic)
        else case ctx w of Some c \<Rightarrow> (w, Inl (Ctx_error c)) | None \<Rightarrow> skip w)"

definition trim_nul :: "byte list \<Rightarrow> string" where
  "trim_nul b = map (\<lambda>x. char_of (unat x)) (rev (dropWhile (\<lambda>x. x = 0) (rev b)))"

definition readStringContext :: "'w Transport \<Rightarrow> 'w ctx \<Rightarrow> string \<Rightarrow> ('w, string) act" where
  "readStringContext t ctx uuid =
     (if \<not> tp_HasChar t uuid then act_bind (check_ctx ctx) (\<lambda>_. act_return [])
      else act_tolerate ctx (readCharContext t ctx uuid) (\<lambda>b. act_return (trim_nul b)) (act_return []))"

text \<open>The telemetry callbacks: a payload that does not parse is ignored.\<close>

definition apply_payload :: "(proto_error + 'a) option \<Rightarrow> (time \<Rightarrow> time \<Rightarrow> 'a \<Rightarrow> store \<Rightarrow> store) \<Rightarrow> ('w, unit) act" where
  "apply_payload r upd w = (case r of
      None \<Rightarrow> (w, Inl Panic)
    | Some (Inl _) \<Rightarrow> (w, Inr ())
    | Some (Inr v) \<Rightarrow> (w\<lparr>w_store := upd (w_now w) (w_now w) v (w_store w)\<rparr>, Inr ()))"

definition apply_battery :: "byte list \<Rightarrow> ('w, unit) act" where
  "apply_battery b = apply_payload (ParseBattery b) SetBattery"

definition apply_dc :: "byte list \<Rightarrow> ('w, unit) act" where
  "apply_dc b = apply_payload (ParseDC b) SetDC"

definition apply_typec :: "byte list \<Rightarrow> ('w, unit) act" where
  "apply_typec b = apply_payload (ParseTypeC b) SetTypeC"

definition guarded :: "'w ctx \<Rightarrow> ('w, unit) act \<Rightarrow> ('w, unit) act" where
  "guarded ctx m w = (if ctx w = None then m w else (w, Inr ()))"

definition subscribe_one :: "'w Transport \<Rightarrow> 'w ctx \<Rightarrow> string \<Rightarrow> (byte list \<Rightarrow> ('w, unit) act) \<Rightarrow> ('w, unit) act" where
  "subscribe_one t ctx uuid app =
     (if \<not> tp_HasChar t uuid then act_return ()
      else act_bind (check_ctx ctx) (\<lambda>_.
           act_bind (t_subscribe t uuid) (\<lambda>_.
           act_bind (check_ctx ctx) (\<lambda>_.
           act_tolerate ctx (readCharContext t ctx uuid)
             (\<lambda>b. act_bind (check_ctx ctx) (\<lambda>_. guarded ctx (app b))) (act_return ())))))"

definition query_mac :: "'w Transport \<Rightarrow> 'w ctx \<Rightarrow> ('w, string) act" where
  "query_mac t ctx = act_tolerate ctx (commandContext t ctx DeviceIDQuery)
     (\<lambda>payload. case ParseDeviceID payload of
        None \<Rightarrow> act_fail Panic | Some (Inl _) \<Rightarrow> act_return [] | Some (Inr m) \<Rightarrow> act_return m) (act_return [])"

definition query_features :: "'w Transport \<Rightarrow> 'w ctx \<Rightarrow> ('w, uint32) act" where
  "query_features t ctx = act_tolerate ctx (commandContext t ctx FeaturesQuery)
     (\<lambda>payload. case ParseFeatures payload of
        None \<Rightarrow> act_fail Panic | Some (Inl _) \<Rightarrow> act_return 0 | Some (Inr f) \<Rightarrow> act_return f) (act_return 0)"

definition query_identity :: "'w Transport \<Rightarrow> 'w ctx \<Rightarrow> ('w, string \<times> uint32) act" where
  "query_identity t ctx =
     (if tp_HasChar t CharCmd
      then act_bind (query_mac t ctx) (\<lambda>m. act_bind (query_features t ctx) (\<lambda>f. act_return (m, f)))
      else act_return ([], 0))"

definition sync_time :: "'w Transport \<Rightarrow> 'w ctx \<Rightarrow> civil_time \<Rightarrow> ('w, unit) act" where
  "sync_time t ctx now =
     (if tp_HasChar t CharTime
      then act_bind (check_ctx ctx) (\<lambda>_.
           act_tolerate ctx (writeCharContext t ctx CharTime (CurrentTimeAt now 1)) act_return (act_return ()))
      else act_return ())"

text \<open>The part of the handshake that only runs in application mode.\<close>

definition handshake_app :: "'w Transport \<Rightarrow> 'w ctx \<Rightarrow> civil_time \<Rightarrow> ble_identity \<Rightarrow> ('w, ble_identity) act" where
  "handshake_app t ctx now i =
     act_bind (query_identity t ctx) (\<lambda>(mac, features).
     act_bind (subscribe_one t ctx CharBattery apply_battery) (\<lambda>_.
     act_bind (subscribe_one t ctx CharDC apply_dc) (\<lambda>_.
     act_bind (subscribe_one t ctx CharTypeC apply_typec) (\<lambda>_.
     act_bind (sync_time t ctx now) (\<lambda>_.
     act_bind (check_ctx ctx) (\<lambda>_. act_return (i\<lparr>bi_mac := mac, bi_features := features\<rparr>)))))))"

definition HandshakeContext :: "'w Transport \<Rightarrow> 'w ctx \<Rightarrow> civil_time \<Rightarrow> ('w, ble_identity) act" where
  "HandshakeContext t ctx now =
     act_bind (check_ctx ctx) (\<lambda>_.
     act_bind (writeCharContext t ctx CharOTA OTAInfoQuery) (\<lambda>_.
     act_bind (readCharContext t ctx CharOTA) (\<lambda>info.
     act_bind (act_parse (ParseOTAInfo info)) (\<lambda>ota.
     let mode = (if ota_mode ota = 1 then ''app'' else if ota_mode ota = 2 then ''ota'' else []) in
     act_bind (readStringContext t ctx CharModel) (\<lambda>mo.
     act_bind (readStringContext t ctx CharHWRev) (\<lambda>hw.
     act_bind (readStringContext t ctx CharFWRev) (\<lambda>fw.
     act_bind (readStringContext t ctx CharSWRev) (\<lambda>sw.
     let i = \<lparr>bi_model = mo, bi_hw_rev = hw, bi_firmware = sw, bi_bootloader_firmware = fw, bi_mac = [],
              bi_cid = ota_cid ota, bi_features = 0, bi_mode = mode\<rparr> in
     if mode = ''ota'' then act_bind (check_ctx ctx) (\<lambda>_. act_return i)
     else handshake_app t ctx now i))))))))"

section \<open>No reply can crash a session\<close>

definition no_panic :: "('w, 'a) act \<Rightarrow> bool" where
  "no_panic m \<longleftrightarrow> (\<forall>w. snd (m w) \<noteq> Inl Panic)"

definition sane :: "'w Transport \<Rightarrow> bool" where
  "sane t \<longleftrightarrow> (\<forall>u d w. snd (tp_WriteChar t u d w) \<noteq> Some Panic) \<and> (\<forall>u w. snd (tp_ReadChar t u w) \<noteq> Inl Panic) \<and>
     (\<forall>u w. snd (tp_Subscribe t u w) \<noteq> Some Panic)"

lemma no_panic_return [panic_free, intro!]: "no_panic (act_return x)"
  by (simp add: no_panic_def act_return_def)

lemma no_panic_fail [panic_free, intro!]: "e \<noteq> Panic \<Longrightarrow> no_panic (act_fail e)"
  by (simp add: no_panic_def act_fail_def)

lemma no_panic_bind [panic_free, intro]: "no_panic m \<Longrightarrow> (\<And>x. no_panic (f x)) \<Longrightarrow> no_panic (act_bind m f)"
  unfolding no_panic_def act_bind_def by (auto split: prod.split sum.split) (metis snd_conv)

lemma no_panic_tolerate [panic_free, intro]:
  assumes "no_panic m" "\<And>x. no_panic (f x)" "no_panic s" shows "no_panic (act_tolerate ctx m f s)"
  unfolding no_panic_def act_tolerate_def
proof
  fix w
  have "snd (m w) \<noteq> Inl Panic" using assms(1) by (simp add: no_panic_def)
  then show "snd (case m w of (w, Inr x) \<Rightarrow> f x w | (w, Inl e) \<Rightarrow> if e = Panic then (w, Inl Panic)
      else case ctx w of Some c \<Rightarrow> (w, Inl (Ctx_error c)) | None \<Rightarrow> s w) \<noteq> Inl Panic"
    using assms(2,3) by (auto simp: no_panic_def split: prod.split sum.split option.split)
qed

lemma no_panic_ctx [panic_free, intro!]: "no_panic (check_ctx ctx)"
  by (simp add: no_panic_def check_ctx_def split: option.split)

lemma no_panic_transport [panic_free, intro!]:
  assumes "sane t" shows "no_panic (t_write t u d)" "no_panic (t_read t u)" "no_panic (t_subscribe t u)"
proof -
  have s: "snd (tp_WriteChar t u d w) \<noteq> Some Panic" "snd (tp_ReadChar t u w) \<noteq> Inl Panic"
    "snd (tp_Subscribe t u w) \<noteq> Some Panic" for w using assms by (simp_all add: sane_def)
  show "no_panic (t_write t u d)" "no_panic (t_read t u)" "no_panic (t_subscribe t u)"
    unfolding no_panic_def t_write_def t_read_def t_subscribe_def using s
    by (auto split: prod.split option.split) (metis snd_conv)+
qed

lemma no_panic_parse [panic_free]: "r \<noteq> None \<Longrightarrow> no_panic (act_parse r)"
  by (auto simp: act_parse_def split: sum.split)

lemma no_panic_result [panic_free]: "r \<noteq> None \<Longrightarrow> r \<noteq> Some (Inl Panic) \<Longrightarrow> no_panic (act_result r)"
  by (cases r; cases "the r") (auto simp: act_result_def)

lemma ValidateReply_total: "ValidateReply req reply \<noteq> None"
  by (cases "req = [] \<or> length reply < 3") (auto simp: ValidateReply_short ValidateReply_cases not_less)

lemma le_uint16_Some: "2 \<le> length b \<Longrightarrow> \<exists>v. le_uint16 b = Some v"
  using le_uint16_None_iff [of b] by (cases "le_uint16 b") auto

lemma le_uint32_Some: "4 \<le> length b \<Longrightarrow> \<exists>v. le_uint32 b = Some v"
  using le_uint32_None_iff [of b] by (cases "le_uint32 b") auto

lemma parsers_total:
  "ParseFeatures b \<noteq> None" "ParseDeviceID b \<noteq> None" "ParseUSBFirmware b \<noteq> None" "ParseTypeCLimit b \<noteq> None"
  "ParseBypassThreshold b \<noteq> None" "ParseTimer b \<noteq> None" "strictScheduleIDs b \<noteq> None"
  "strictUpsertID b i \<noteq> None"
proof -
  have "9 \<le> length b \<Longrightarrow> \<exists>v. le_uint32 (take 4 (drop 4 b)) = Some v" by (rule le_uint32_Some) simp
  then show "ParseTimer b \<noteq> None" by (auto simp: ParseTimer_def idx_def slice_def not_less)
qed (use le_uint32_Some [of b] le_uint16_Some [of b] in \<open>auto simp: ParseFeatures_def ParseDeviceID_def
      ParseUSBFirmware_def ParseTypeCLimit_def ParseBypassThreshold_def strictScheduleIDs_def strictUpsertID_def
      idx_def slice_def not_less\<close>)

lemma telemetry_total: "ParseBattery b \<noteq> None" "ParseDC b \<noteq> None" "ParseTypeC b \<noteq> None"
proof -
  show "ParseBattery b \<noteq> None"
  proof (cases "length b < 16")
    case False then show ?thesis using ParseBattery_long [of b] by auto
  qed (simp add: ParseBattery_def)
  show "ParseDC b \<noteq> None"
  proof (cases "length b < 8")
    case False then show ?thesis using ParseDC_long [of b] by auto
  qed (simp add: ParseDC_def)
  show "ParseTypeC b \<noteq> None"
  proof (cases "length b < 10")
    case False then show ?thesis using ParseTypeC_long [of b] by auto
  qed (simp add: ParseTypeC_def)
qed

lemma ParseOTAInfo_total: "ParseOTAInfo b \<noteq> None"
proof (cases "b = []")
  case False
  then obtain m rest where b: "b = m # rest" by (cases b) auto
  have c: "15 \<le> length b \<Longrightarrow> \<exists>v. le_uint16 (take 2 (drop 13 b)) = Some v" by (rule le_uint16_Some) simp
  consider "m = 1" | "m = 2" | "m \<noteq> 1" "m \<noteq> 2" by blast
  then show ?thesis
  proof cases
    case 1
    then show ?thesis using c by (cases "length b < 15") (auto simp: ParseOTAInfo_def b idx_def slice_def not_less)
  next
    case 2
    have "16 \<le> length b \<Longrightarrow> (\<exists>v. le_uint32 (take 4 (drop 1 b)) = Some v) \<and> (\<exists>v. le_uint16 (take 2 (drop 5 b)) = Some v) \<and>
        (\<exists>v. le_uint16 (take 2 (drop 7 b)) = Some v) \<and> (\<exists>v. le_uint32 (take 4 (drop 9 b)) = Some v)"
      by (intro conjI le_uint32_Some le_uint16_Some) simp_all
    then show ?thesis using 2 c
      by (cases "length b < 16") (auto simp: ParseOTAInfo_def b idx_def slice_def not_less)
  qed (simp add: ParseOTAInfo_def b idx_def)
qed (simp add: ParseOTAInfo_def)

lemma no_panic_values:
  "strictScheduleIDs b \<noteq> Some (Inl Panic)" "strictUpsertID b i \<noteq> Some (Inl Panic)"
  by (auto simp: strictScheduleIDs_def strictUpsertID_def idx_def slice_def split: if_splits)

lemma parse_timer_payload_total: "parse_timer_payload i b \<noteq> None" "parse_timer_payload i b \<noteq> Some (Inl Panic)"
proof -
  have "ParseTimer (take 9 (drop 1 b)) \<noteq> None" by (rule parsers_total)
  then show "parse_timer_payload i b \<noteq> None" "parse_timer_payload i b \<noteq> Some (Inl Panic)"
    by (auto simp: parse_timer_payload_def idx_def slice_def split: sum.splits)
qed

lemma parse_clock_total: "parse_clock b \<noteq> None" "parse_clock b \<noteq> Some (Inl Panic)"
  by (auto simp: parse_clock_def idx_def Let_def)

lemma no_panic_commandContext [panic_free, intro]:
  assumes "sane t" shows "no_panic (commandContext t ctx req)"
proof -
  let ?m = "act_bind (check_ctx ctx) (\<lambda>_. act_bind (t_write t CharCmd req) (\<lambda>_. act_bind (check_ctx ctx) (\<lambda>_.
             act_bind (t_read t CharCmd) (\<lambda>reply. act_bind (check_ctx ctx) (\<lambda>_. act_return reply)))))"
  have m: "no_panic ?m" using assms by (intro no_panic_bind no_panic_ctx no_panic_transport no_panic_return)
  show ?thesis unfolding no_panic_def
  proof
    fix w
    obtain w' r where r: "?m w = (w', r)" by force
    then have "r \<noteq> Inl Panic" using m unfolding no_panic_def by (metis snd_conv)
    moreover obtain x p e where "ValidateReply req (projr r) = Some (x, p, e)"
      using ValidateReply_total [of req "projr r"] by auto
    ultimately show "snd (commandContext t ctx req w) \<noteq> Inl Panic"
      unfolding commandContext_def commandContextLocked_def r
      by (cases r; cases e) (simp_all add: act_fail_def)
  qed
qed

lemma no_panic_command [panic_free, intro]:
  "sane t \<Longrightarrow> no_panic (command_act t req)" "sane t \<Longrightarrow> no_panic (command_only t req)"
  unfolding command_act_def command_only_def by (intro no_panic_bind no_panic_commandContext no_panic_return; assumption)+

lemma no_panic_getUSBCLimit [panic_free, intro]:
  fixes t :: "'w Transport" assumes s: "sane t" shows "no_panic (getUSBCLimitLocked t typ)"
proof -
  have "snd (commandContext t background req w) \<noteq> Inl Panic" for req w
    using no_panic_commandContext [OF s, of background req] by (simp add: no_panic_def)
  then have c: "e \<noteq> Some Panic" if "commandContextLocked t background req w = (w', x, p, e)" for req w w' x p e
    using that by (metis (mono_tags, lifting) commandContext_def case_prod_conv option.simps(5) snd_conv)
  have p: "snd (act_parse (ParseTypeCLimit b) w) \<noteq> Inl Panic" for b and w :: "'w world"
    using no_panic_parse [OF parsers_total(4), of b] unfolding no_panic_def by blast
  show ?thesis unfolding no_panic_def
  proof
    fix w
    obtain w' x p e where r: "commandContextLocked t background (TypeCLimitGet (word_of_int typ)) w = (w', x, p, e)"
      by (metis prod.collapse)
    show "snd (getUSBCLimitLocked t typ w) \<noteq> Inl Panic"
      unfolding getUSBCLimitLocked_def r using c [OF r] p by (cases e) auto
  qed
qed

lemma no_panic_getTimer [panic_free, intro]:
  fixes t :: "'w Transport" assumes s: "sane t" shows "no_panic (getTimerLocked t i)"
proof -
  have c: "snd (command_act t (ScheduleGet i) w) \<noteq> Inl Panic" for w
    using no_panic_command(1) [OF s] by (simp add: no_panic_def)
  have p: "snd (act_result (parse_timer_payload i b) w) \<noteq> Inl Panic" for b and w :: "'w world"
    using no_panic_result [OF parse_timer_payload_total, of i b] unfolding no_panic_def by blast
  show ?thesis
    unfolding no_panic_def
  proof
    fix w
    obtain w' r where r: "command_act t (ScheduleGet i) w = (w', r)" by force
    then have "r \<noteq> Inl Panic" using c [of w] by auto
    then show "snd (getTimerLocked t i w) \<noteq> Inl Panic"
      using p unfolding getTimerLocked_def r by (cases r) (auto split: ble_error.split)
  qed
qed

lemma no_panic_timers [panic_free, intro]:
  assumes "sane t" shows "no_panic (get_timers t ids)" "no_panic (timerIDsLocked t)" "no_panic (listTimersLocked t)"
proof -
  show g: "no_panic (get_timers t ids)" for ids
    by (induction ids) (auto intro!: no_panic_bind no_panic_getTimer assms)
  show i: "no_panic (timerIDsLocked t)"
    unfolding timerIDsLocked_def
    by (intro no_panic_bind no_panic_command no_panic_result parsers_total no_panic_values assms)
  show "no_panic (listTimersLocked t)" unfolding listTimersLocked_def by (intro no_panic_bind g i)
qed

lemma no_panic_limits [panic_free, intro]:
  assumes "sane t"
  shows "no_panic (PutUSBCLimit t typ level)" "no_panic (DeleteUSBCLimit t typ)" "no_panic (bypassThresholdLocked t)"
    "no_panic (PutBypassThreshold t volts)"
proof -
  show b: "no_panic (bypassThresholdLocked t)"
    unfolding bypassThresholdLocked_def by (intro no_panic_bind no_panic_command no_panic_parse parsers_total assms)
  show "no_panic (PutUSBCLimit t typ level)" "no_panic (DeleteUSBCLimit t typ)" "no_panic (PutBypassThreshold t volts)"
    unfolding PutUSBCLimit_def DeleteUSBCLimit_def PutBypassThreshold_def
    by (intro no_panic_bind no_panic_command no_panic_getUSBCLimit b assms)+
qed

lemma no_panic_timer_writes [panic_free, intro]:
  assumes "sane t"
  shows "no_panic (AddTimer t timer)" "no_panic (PutTimer t i timer)" "no_panic (DeleteTimer t i)"
    "no_panic (UpsertSchedule t i timer)"
  unfolding AddTimer_def PutTimer_def DeleteTimer_def UpsertSchedule_def
  by (auto intro!: no_panic_bind no_panic_command no_panic_timers no_panic_result parsers_total no_panic_values assms)

lemma no_panic_barrierFree [panic_free, intro]: "sane t \<Longrightarrow> no_panic (barrierFreeLocked t)"
  unfolding barrierFreeLocked_def by (auto intro!: no_panic_bind no_panic_command simp: idx_def)

lemma no_panic_advanced [panic_free, intro]:
  assumes "sane t"
  shows "no_panic (SetBarrierFree t on)" "no_panic (USBFirmwareVersion t)" "no_panic (SetBLEPIN t pin)"
    "no_panic (ReadClock t)" "no_panic (SyncClock t now reason)" "no_panic (Session_OTAInfo t)"
proof -
  have p: "no_panic (act_parse (ParseUSBFirmware b))" for b by (intro no_panic_parse parsers_total)
  have c: "no_panic (act_result (parse_clock b))" for b by (intro no_panic_result parse_clock_total)
  show "no_panic (SetBarrierFree t on)" "no_panic (USBFirmwareVersion t)" "no_panic (SetBLEPIN t pin)"
    unfolding SetBarrierFree_def USBFirmwareVersion_def SetBLEPIN_def Let_def
    using p by (auto intro!: no_panic_bind no_panic_command no_panic_barrierFree assms)
  show "no_panic (ReadClock t)" "no_panic (SyncClock t now reason)" "no_panic (Session_OTAInfo t)"
    unfolding ReadClock_def SyncClock_def Session_OTAInfo_def
    using c by (auto intro!: no_panic_bind no_panic_transport no_panic_parse ParseOTAInfo_total assms)
qed

lemma no_panic_wait: "sane t \<Longrightarrow> no_panic (waitForDisconnect t await ctx uuid frame)"
  unfolding no_panic_def
proof
  fix w assume "sane t"
  then have "snd (t_write t uuid frame w) \<noteq> Inl Panic"
    using no_panic_transport(1) unfolding no_panic_def by blast
  then show "snd (waitForDisconnect t await ctx uuid frame w) \<noteq> Inl Panic"
    by (cases "t_write t uuid frame w") (auto simp: waitForDisconnect_def split: option.split sum.split await_result.split)
qed

lemma no_panic_lifecycle [panic_free, intro]: "sane t \<Longrightarrow> no_panic (lifecycle_op c t await ctx uuid frame)"
proof -
  assume "sane t"
  then have w: "snd (waitForDisconnect t await ctx uuid frame w) \<noteq> Inl Panic" for w
    using no_panic_wait unfolding no_panic_def by blast
  show ?thesis unfolding no_panic_def
  proof
    fix w
    show "snd (lifecycle_op c t await ctx uuid frame w) \<noteq> Inl Panic"
      using w [of "call_policy c w"]
      by (cases "waitForDisconnect t await ctx uuid frame (call_policy c w)"; cases "snd (waitForDisconnect t await ctx uuid frame (call_policy c w))")
        (auto simp: lifecycle_op_def)
  qed
qed

lemma no_panic_chars [panic_free, intro]:
  assumes "sane t"
  shows "no_panic (writeCharContext t ctx uuid d)" "no_panic (readCharContext t ctx uuid)"
    "no_panic (readStringContext t ctx uuid)"
proof -
  show "no_panic (writeCharContext t ctx uuid d)" and r: "no_panic (readCharContext t ctx uuid)"
    unfolding writeCharContext_def readCharContext_def
    by (intro no_panic_bind no_panic_ctx no_panic_transport no_panic_return assms)+
  show "no_panic (readStringContext t ctx uuid)"
    unfolding readStringContext_def using r
    by (auto intro!: no_panic_bind no_panic_tolerate)
qed

lemma no_panic_apply:
  "no_panic (apply_battery b)" "no_panic (apply_dc b)" "no_panic (apply_typec b)"
proof -
  have p: "no_panic (apply_payload r upd)" if "r \<noteq> None" for r :: "(proto_error + 'z) option" and upd
    using that by (cases r; cases "the r") (auto simp: no_panic_def apply_payload_def)
  show "no_panic (apply_battery b)" "no_panic (apply_dc b)" "no_panic (apply_typec b)"
    unfolding apply_battery_def apply_dc_def apply_typec_def by (intro p telemetry_total)+
qed

lemma no_panic_subscribe:
  assumes "sane t" "\<And>b. no_panic (app b)" shows "no_panic (subscribe_one t ctx uuid app)"
proof -
  have "no_panic (guarded ctx (app b))" for b
    using assms(2) [of b] by (auto simp: no_panic_def guarded_def)
  then show ?thesis
    unfolding subscribe_one_def using assms(1)
    by (auto intro!: no_panic_bind no_panic_tolerate no_panic_transport no_panic_chars)
qed

lemma no_panic_query: "sane t \<Longrightarrow> no_panic (query_identity t ctx)"
proof -
  assume s: "sane t"
  have m: "no_panic (query_mac t ctx)" unfolding query_mac_def
    by (intro no_panic_tolerate no_panic_commandContext no_panic_return s)
      (auto simp: parsers_total(2) split: option.split sum.split)
  have f: "no_panic (query_features t ctx)" unfolding query_features_def
    by (intro no_panic_tolerate no_panic_commandContext no_panic_return s)
      (auto simp: parsers_total(1) split: option.split sum.split)
  show ?thesis unfolding query_identity_def using m f by (auto intro!: no_panic_bind)
qed

lemma no_panic_sync: "sane t \<Longrightarrow> no_panic (sync_time t ctx now)"
  unfolding sync_time_def by (auto intro!: no_panic_bind no_panic_tolerate no_panic_chars)

lemma no_panic_handshake_app: "sane t \<Longrightarrow> no_panic (handshake_app t ctx now i)"
  unfolding handshake_app_def
  by (auto intro!: no_panic_bind no_panic_query no_panic_subscribe no_panic_apply no_panic_sync)

lemma no_panic_handshake: "sane t \<Longrightarrow> no_panic (HandshakeContext t ctx now)"
  unfolding HandshakeContext_def Let_def
  by (auto intro!: no_panic_bind no_panic_ctx no_panic_chars no_panic_parse ParseOTAInfo_total no_panic_handshake_app)

section \<open>A scripted device\<close>

text \<open>A transport whose device remembers the last request and answers a read with a reply computed from
  it; the witnesses use it.\<close>

definition scripted :: "(byte list \<Rightarrow> byte list) \<Rightarrow> byte list Transport" where
  "scripted reply = \<lparr>tp_WriteChar = (\<lambda>u d w. (d, None)), tp_ReadChar = (\<lambda>u w. (w, Inr (reply w))),
     tp_Subscribe = (\<lambda>u w. (w, None)), tp_HasChar = (\<lambda>u. True), tp_CanReadChar = (\<lambda>u. True),
     tp_Disconnected = (\<lambda>w. False)\<rparr>"

definition world0 :: "byte list world" where
  "world0 = \<lparr>w_dev = [], w_store = NewStore, w_now = 0, w_lifecycle = True, w_policy = []\<rparr>"

lemma sane_scripted: "sane (scripted reply)"
  by (simp add: sane_def scripted_def)

text \<open>No reply of the device can crash the daemon: whatever bytes, lengths and result codes a device
  returns, and however the transport fails, every operation of a session and the handshake end with a
  value or with an error, never with an index or slice panic.\<close>

theorem session_never_panics:
  assumes "sane t"
  shows "no_panic (Session_DCControl t on) \<and> no_panic (Session_TypeCOutput t on) \<and> no_panic (Session_BypassControl t on) \<and>
    no_panic (USBCLimit t typ) \<and> no_panic (PutUSBCLimit t typ level) \<and> no_panic (DeleteUSBCLimit t typ) \<and>
    no_panic (SetUSBCLimit t typ level) \<and> no_panic (ClearUSBCLimit t typ) \<and>
    no_panic (BypassThreshold t) \<and> no_panic (SetBypassThreshold t volts) \<and> no_panic (PutBypassThreshold t volts) \<and>
    no_panic (ListTimers t) \<and> no_panic (GetTimer t i) \<and> no_panic (AddTimer t timer) \<and> no_panic (PutTimer t i timer) \<and>
    no_panic (DeleteTimer t i) \<and> no_panic (UpsertSchedule t i timer) \<and> no_panic (DeleteSchedule t i) \<and>
    no_panic (BarrierFree t) \<and> no_panic (SetBarrierFree t on) \<and> no_panic (SetRunningMode t mode) \<and>
    no_panic (USBFirmwareVersion t) \<and> no_panic (SetBLEPIN t pin) \<and>
    no_panic (ReadClock t) \<and> no_panic (SyncClock t now reason) \<and> no_panic (Session_OTAInfo t) \<and>
    no_panic (EnterOTA t await ctx) \<and> no_panic (ExitOTA t await ctx) \<and>
    no_panic (Session_Restart t await) \<and> no_panic (Session_Shutdown t await) \<and>
    no_panic (HandshakeContext t ctx now)"
  using assms unfolding Session_DCControl_def Session_TypeCOutput_def Session_BypassControl_def USBCLimit_def
    GetUSBCLimit_def SetUSBCLimit_def ClearUSBCLimit_def BypassThreshold_def SetBypassThreshold_def ListTimers_def
    GetTimer_def DeleteSchedule_def BarrierFree_def SetRunningMode_def EnterOTA_def ExitOTA_def Session_Restart_def
    Session_Shutdown_def
  by (intro conjI panic_free no_panic_handshake)

theorem session_never_panics_witness:
  "no_panic (ListTimers (scripted (\<lambda>_. []))) \<and> no_panic (HandshakeContext (scripted (\<lambda>_. [])) background undefined)"
  using session_never_panics [OF sane_scripted, of "\<lambda>_. []"] by blast

section \<open>Requests that are never sent\<close>

lemma command_empty [simp]:
  "command_act t [] w = (w, Inl EmptyRequest)" "command_only t [] w = (w, Inl EmptyRequest)"
  by (simp_all add: command_act_def command_only_def commandContext_def commandContextLocked_def act_bind_def)

text \<open>A request that the protocol forbids never reaches the device: a limit write outside the writable
  types and levels, a timer outside the documented ranges and a PIN above 999999 are refused with an error
  while the device, the store and the reconnect policy stay untouched.\<close>

theorem rejected_frame_not_sent:
  "(ValidateLimitWrite (word_of_int typ) level \<noteq> None \<longrightarrow>
      PutUSBCLimit t typ level w = (w, Inl EmptyRequest) \<and> SetUSBCLimit t typ level w = (w, Inl EmptyRequest)) \<and>
   (ValidateTimerWrite timer \<noteq> None \<longrightarrow>
      AddTimer t timer w = (w, Inl EmptyRequest) \<and> UpsertSchedule t i timer w = (w, Inl EmptyRequest)) \<and>
   (pin > 999999 \<longrightarrow> SetBLEPIN t pin w = (w, Inl (BLEPINOutside pin)))"
  by (auto simp: PutUSBCLimit_def SetUSBCLimit_def TypeCLimitSet_def AddTimer_def UpsertSchedule_def ScheduleUpsert_def
      SetBLEPIN_def BLEPINSet_def act_bind_def act_fail_def)

theorem rejected_frame_not_sent_witness:
  "PutUSBCLimit (scripted id) 4 0 world0 = (world0, Inl EmptyRequest) \<and>
   SetBLEPIN (scripted id) 1000000 world0 = (world0, Inl (BLEPINOutside 1000000))"
proof -
  have "ValidateLimitWrite (word_of_int 4) 0 \<noteq> None" by (simp add: ValidateLimitWrite_def)
  then show ?thesis
    using rejected_frame_not_sent [of 4 0 "scripted id" world0] by simp
qed

section \<open>Written values are read back\<close>

text \<open>The contract shared by the operations that write a setting and return the device's own reading of
  it.\<close>

locale read_back =
  fixes put :: "'w Transport \<Rightarrow> ('w, 'v) act" and frame :: "byte list" and get :: "'w Transport \<Rightarrow> ('w, 'v) act"
  assumes put_def: "put t = act_bind (command_act t frame) (\<lambda>_. get t)"
begin

lemma returned_value_was_read:
  assumes "put t w = (w', Inr v)"
  obtains w1 payload where "command_act t frame w = (w1, Inr payload)" "get t w1 = (w', Inr v)"
  using assms by (auto simp: put_def act_bind_def split: prod.splits sum.splits)

lemma write_error_skips_read:
  assumes "command_act t frame w = (w1, Inl e)" shows "put t w = (w1, Inl e)"
  using assms by (simp add: put_def act_bind_def)

lemma read_back: "(\<exists>w1 p. command_act t frame w = (w1, Inr p) \<and> get t w1 = put t w) \<or>
    (\<exists>w1 e. command_act t frame w = (w1, Inl e) \<and> put t w = (w1, Inl e))"
  by (cases "command_act t frame w"; cases "snd (command_act t frame w)") (auto simp: put_def act_bind_def)

end

interpretation rb_limit: read_back "\<lambda>t. PutUSBCLimit t k level" "TypeCLimitSet (word_of_int k) level"
  "\<lambda>t. GetUSBCLimit t k" for k level
  by unfold_locales (simp add: PutUSBCLimit_def GetUSBCLimit_def)

interpretation rb_clear: read_back "\<lambda>t. DeleteUSBCLimit t k" "TypeCLimitClear (word_of_int k)"
  "\<lambda>t. GetUSBCLimit t k" for k
  by unfold_locales (simp add: DeleteUSBCLimit_def GetUSBCLimit_def)

interpretation rb_threshold: read_back "\<lambda>t. PutBypassThreshold t volts" "BypassThresholdSet volts" BypassThreshold
  for volts
  by unfold_locales (simp add: PutBypassThreshold_def BypassThreshold_def)

interpretation rb_barrier: read_back "\<lambda>t. SetBarrierFree t on" "BarrierFreeSet on" BarrierFree for on
  by unfold_locales (simp add: SetBarrierFree_def BarrierFree_def)

text \<open>The operations that write a setting return what the device reports afterwards: either the device
  accepted the write and the result is exactly that of reading the setting in the state after the write,
  or the write failed, nothing further was sent, and the error is that of the write.\<close>

theorem settings_read_back:
  "((\<exists>w1 p. command_act t (TypeCLimitSet (word_of_int typ) level) w = (w1, Inr p) \<and> GetUSBCLimit t typ w1 = PutUSBCLimit t typ level w) \<or>
    (\<exists>w1 e. command_act t (TypeCLimitSet (word_of_int typ) level) w = (w1, Inl e) \<and> PutUSBCLimit t typ level w = (w1, Inl e))) \<and>
   ((\<exists>w1 p. command_act t (TypeCLimitClear (word_of_int typ)) w = (w1, Inr p) \<and> GetUSBCLimit t typ w1 = DeleteUSBCLimit t typ w) \<or>
    (\<exists>w1 e. command_act t (TypeCLimitClear (word_of_int typ)) w = (w1, Inl e) \<and> DeleteUSBCLimit t typ w = (w1, Inl e))) \<and>
   ((\<exists>w1 p. command_act t (BypassThresholdSet volts) w = (w1, Inr p) \<and> BypassThreshold t w1 = PutBypassThreshold t volts w) \<or>
    (\<exists>w1 e. command_act t (BypassThresholdSet volts) w = (w1, Inl e) \<and> PutBypassThreshold t volts w = (w1, Inl e))) \<and>
   ((\<exists>w1 p. command_act t (BarrierFreeSet on) w = (w1, Inr p) \<and> BarrierFree t w1 = SetBarrierFree t on w) \<or>
    (\<exists>w1 e. command_act t (BarrierFreeSet on) w = (w1, Inl e) \<and> SetBarrierFree t on w = (w1, Inl e)))"
  by (intro conjI rb_limit.read_back rb_clear.read_back rb_threshold.read_back rb_barrier.read_back)

section \<open>Timer lists\<close>

lemma act_bind_Inr: "act_bind m f w = (w', Inr y) \<longleftrightarrow> (\<exists>w1 x. m w = (w1, Inr x) \<and> f x w1 = (w', Inr y))"
  by (auto simp: act_bind_def split: prod.splits sum.splits)

lemma parse_timer_payload_id: "parse_timer_payload i b = Some (Inr timer) \<Longrightarrow> tm_id timer = i \<and> 10 \<le> length b \<and> b ! 0 = i"
  by (auto simp: parse_timer_payload_def idx_def bind_eq_Some_conv not_less split: if_splits)
    (auto split: sum.splits)

lemma getTimerLocked_id: "getTimerLocked t i w = (w', Inr timer) \<Longrightarrow> tm_id timer = i"
  by (auto simp: getTimerLocked_def act_result_def act_fail_def act_return_def parse_timer_payload_id
      split: prod.splits sum.splits option.splits ble_error.splits)

lemma get_timers_ids: "get_timers t ids w = (w', Inr ts) \<Longrightarrow> map tm_id ts = ids"
  by (induction ids arbitrary: w w' ts) (auto simp: act_bind_Inr act_return_def dest: getTimerLocked_id)

lemma listTimersLocked_ids:
  "listTimersLocked t w = (w', Inr ts) \<longleftrightarrow>
     (\<exists>w1 ids. timerIDsLocked t w = (w1, Inr ids) \<and> get_timers t ids w1 = (w', Inr ts) \<and> map tm_id ts = ids)"
  by (auto simp: listTimersLocked_def act_bind_Inr dest: get_timers_ids)

lemma hasTimerID_iff [simp]: "hasTimerID ids i \<longleftrightarrow> i \<in> set ids"
  by (auto simp: hasTimerID_def list_ex_iff)

text \<open>A timer list is complete and labelled by the device: a successful list returns one timer per
  identifier the device reported, in that order, and no timer under another identifier. A timer is only
  replaced or deleted when the device lists it: otherwise the operation fails with ``not found'' and sends
  nothing but the list request.\<close>

theorem timers_follow_device_ids:
  "(ListTimers t w = (w', Inr ts) \<longrightarrow> (\<exists>w1 ids. timerIDsLocked t w = (w1, Inr ids) \<and> map tm_id ts = ids)) \<and>
   (timerIDsLocked t w = (w1, Inr ids) \<longrightarrow> i \<notin> set ids \<longrightarrow>
      PutTimer t i timer w = (w1, Inl TimerMissing) \<and> DeleteTimer t i w = (w1, Inl TimerMissing)) \<and>
   (PutTimer t i timer w = (w', Inr ts) \<longrightarrow>
      (\<exists>w1 ids w2 p w3. timerIDsLocked t w = (w1, Inr ids) \<and> i \<in> set ids \<and>
         command_act t (ScheduleUpsert i timer) w1 = (w2, Inr p) \<and> timerIDsLocked t w2 = (w3, Inr (map tm_id ts)))) \<and>
   (DeleteTimer t i w = (w', Inr ts) \<longrightarrow>
      (\<exists>w1 ids w2 p w3. timerIDsLocked t w = (w1, Inr ids) \<and> i \<in> set ids \<and>
         command_act t (ScheduleDelete i) w1 = (w2, Inr p) \<and> timerIDsLocked t w2 = (w3, Inr (map tm_id ts))))"
proof (intro conjI impI)
  show "\<exists>w1 ids. timerIDsLocked t w = (w1, Inr ids) \<and> map tm_id ts = ids" if "ListTimers t w = (w', Inr ts)"
    using that by (auto simp: ListTimers_def listTimersLocked_ids)
  show "PutTimer t i timer w = (w1, Inl TimerMissing)" "DeleteTimer t i w = (w1, Inl TimerMissing)"
    if "timerIDsLocked t w = (w1, Inr ids)" "i \<notin> set ids"
    using that by (simp_all add: PutTimer_def DeleteTimer_def act_bind_def act_fail_def)
  show "\<exists>w1 ids w2 p w3. timerIDsLocked t w = (w1, Inr ids) \<and> i \<in> set ids \<and>
      command_act t (ScheduleUpsert i timer) w1 = (w2, Inr p) \<and> timerIDsLocked t w2 = (w3, Inr (map tm_id ts))"
    if "PutTimer t i timer w = (w', Inr ts)"
    using that by (auto simp: PutTimer_def act_bind_Inr listTimersLocked_ids act_fail_def split: if_splits; blast)
  show "\<exists>w1 ids w2 p w3. timerIDsLocked t w = (w1, Inr ids) \<and> i \<in> set ids \<and>
      command_act t (ScheduleDelete i) w1 = (w2, Inr p) \<and> timerIDsLocked t w2 = (w3, Inr (map tm_id ts))"
    if "DeleteTimer t i w = (w', Inr ts)"
    using that by (auto simp: DeleteTimer_def act_bind_Inr listTimersLocked_ids act_fail_def split: if_splits; blast)
qed

text \<open>A device with the single timer 7, for the witness.\<close>

definition one_timer :: "byte list \<Rightarrow> byte list" where
  "one_timer req = (if req = ScheduleList then [6, 0x80, 0, 1, 7]
     else [6, 0x80, 0, 7, 1, 1, 8, 30, 0, 0, 0, 0, 1])"

lemma one_timer_ids:
  "timerIDsLocked (scripted one_timer) world0 = (world0\<lparr>w_dev := ScheduleList\<rparr>, Inr [7])"
  by (simp add: timerIDsLocked_def command_act_def commandContext_def commandContextLocked_def act_bind_def
      check_ctx_def background_def t_write_def t_read_def scripted_def act_return_def act_result_def one_timer_def
      ScheduleList_def ValidateReply_def idx_def slice_from_def strictScheduleIDs_def slice_def world0_def)

theorem timers_follow_device_ids_witness:
  "timerIDsLocked (scripted one_timer) world0 = (world0\<lparr>w_dev := ScheduleList\<rparr>, Inr [7]) \<and>
   DeleteTimer (scripted one_timer) 8 world0 = (world0\<lparr>w_dev := ScheduleList\<rparr>, Inl TimerMissing)"
proof -
  have "8 \<notin> set [7 :: byte]" by simp
  then show ?thesis using timers_follow_device_ids [where t = "scripted one_timer" and w = world0 and i = 8] one_timer_ids
    by blast
qed

section \<open>Lifecycle operations and the reconnect policy\<close>

lemma t_write_frame: "t_write t u d w = (w', r) \<Longrightarrow> w_store w' = w_store w \<and> w_policy w' = w_policy w \<and>
     w_now w' = w_now w \<and> w_lifecycle w' = w_lifecycle w"
  by (auto simp: t_write_def split: prod.splits option.splits)

lemma wait_effect:
  assumes "waitForDisconnect t await ctx uuid frame w = (w', r)"
  shows "w_policy w' = w_policy w" "w_lifecycle w' = w_lifecycle w"
    "r = Inr () \<Longrightarrow> w_store w' = SetConnected (w_now w) (w_now w) False (w_store w)"
    "r = Inl e \<Longrightarrow> w_store w' = w_store w"
  using assms unfolding waitForDisconnect_def
  by (auto dest!: t_write_frame split: option.splits if_splits prod.splits await_result.splits sum.splits)

definition lifecycle_outcome :: "policy_call \<Rightarrow> 'w world \<Rightarrow> 'w world \<times> (ble_error + unit) \<Rightarrow> bool" where
  "lifecycle_outcome c w res = (case res of
      (w', Inr _) \<Rightarrow> w_policy w' = w_policy w @ (if w_lifecycle w then [c] else []) \<and>
        w_store w' = SetConnected (w_now w) (w_now w) False (w_store w)
    | (w', Inl e) \<Rightarrow> w_policy w' = w_policy w @ (if w_lifecycle w then [c, ResumeReconnect] else []) \<and>
        w_store w' = w_store w)"

lemma lifecycle_op_outcome: "lifecycle_outcome c w (lifecycle_op c t await ctx uuid frame w)"
proof -
  obtain w' r where r: "waitForDisconnect t await ctx uuid frame (call_policy c w) = (w', r)" by force
  have c: "w_lifecycle (call_policy c w) = w_lifecycle w" "w_store (call_policy c w) = w_store w"
    "w_now (call_policy c w) = w_now w" "w_policy (call_policy c w) = w_policy w @ (if w_lifecycle w then [c] else [])"
    for c and w :: "'a world" by (simp_all add: call_policy_def)
  show ?thesis
    using wait_effect [OF r] by (cases r) (simp_all add: lifecycle_op_def r lifecycle_outcome_def c)
qed

text \<open>Restart, shutdown and the OTA transitions keep the reconnect policy consistent with what happened:
  the policy is set before the frame is written (armed for OTA and, after fifteen seconds, for a restart;
  disarmed for a shutdown). If the device went away the policy stays and the store shows it disconnected;
  on every other outcome reconnecting is resumed and the store is unchanged.\<close>

theorem lifecycle_policy:
  "lifecycle_outcome (ArmReconnect 0) w (EnterOTA t await ctx w) \<and>
   lifecycle_outcome (ArmReconnect 0) w (ExitOTA t await ctx w) \<and>
   lifecycle_outcome (ArmReconnect (15 * second)) w (Session_Restart t await w) \<and>
   lifecycle_outcome DisarmReconnect w (Session_Shutdown t await w)"
  by (simp add: EnterOTA_def ExitOTA_def Session_Restart_def Session_Shutdown_def lifecycle_op_outcome)

end
