(* ===== verification/Control.thy ===== *)
theory Control
  imports Ble_Session
begin

text \<open>
  The control service (\<^verbatim>\<open>internal/control/service.go\<close>, \<^verbatim>\<open>timers.go\<close>): it checks a request against the cached
  capabilities, issues it on the BLE session and, for the three output switches, tracks the command in the
  store until telemetry confirms it. A service operation is a function of the world of the session theory.
  Other goroutines act between the atomic steps of \<^verbatim>\<open>reconcile\<close>: that interference is an explicit argument.
\<close>

section \<open>Errors, sessions and the service\<close>

datatype ctl_error =
    ErrDisconnected | ErrUnsupported | ErrAdvancedDisabled | ErrTimeout | ErrNotFound
  | ErrInternal string | ErrBLE ble_error | ErrContext ctx_error | ErrProto proto_error
  | ThresholdOutside float64 | RunningModeOutside byte | PINOutside uint32
  | LimitTypeInvalid int | TimerIDReserved | NilDereference

text \<open>What the resolver returns: no session, a live one, or the interface value that holds a nil pointer,
  which is not equal to \<^verbatim>\<open>nil\<close> in Go.\<close>

datatype 'w session_ref = NoSession | NilPointer | Live "'w Transport"

fun is_nil :: "'w session_ref \<Rightarrow> bool" where
  "is_nil NoSession = True" | "is_nil NilPointer = False" | "is_nil (Live t) = False"

record 'w service =
  sv_resolve :: "'w world \<Rightarrow> 'w session_ref"
  sv_advanced :: "'w world \<Rightarrow> bool"
  sv_newID :: "'w world \<Rightarrow> string option"
  sv_await :: "'w world \<Rightarrow> await_result"

type_synonym ('w, 'a) op = "'w world \<Rightarrow> 'w world \<times> (ctl_error + 'a)"

definition snap_of :: "'w world \<Rightarrow> snapshot" where
  "snap_of w = st_snap (w_store w)"

text \<open>\<^verbatim>\<open>wrapBLE\<close> of a session error. A panic of the session passes through.\<close>

definition wrapBLE :: "ble_error \<Rightarrow> ctl_error" where
  "wrapBLE e = (if e = Panic then NilDereference else ErrBLE e)"

definition timerError :: "ble_error \<Rightarrow> ctl_error" where
  "timerError e = (case e of TimerNotFound _ \<Rightarrow> ErrNotFound | TimerMissing \<Rightarrow> ErrNotFound | _ \<Rightarrow> wrapBLE e)"

definition commandError :: "ctl_error option \<Rightarrow> command_error option" where
  "commandError err = (case err of
      None \<Rightarrow> None
    | Some (ErrInternal _) \<Rightarrow> Some \<lparr>ce_code = ''internal_error'', ce_message = ''Internal server error''\<rparr>
    | Some (ErrBLE _) \<Rightarrow> Some \<lparr>ce_code = ''ble_operation_failed'', ce_message = ''BLE operation failed''\<rparr>
    | Some ErrDisconnected \<Rightarrow> Some \<lparr>ce_code = ''device_disconnected'', ce_message = ''Link-Power is not connected''\<rparr>
    | Some ErrUnsupported \<Rightarrow> Some \<lparr>ce_code = ''capability_unsupported'', ce_message = ''Operation is not supported''\<rparr>
    | Some ErrAdvancedDisabled \<Rightarrow> Some \<lparr>ce_code = ''advanced_disabled'', ce_message = ''Advanced operations are disabled''\<rparr>
    | Some ErrTimeout \<Rightarrow> Some \<lparr>ce_code = ''command_timeout'', ce_message = ''Device telemetry did not confirm the command''\<rparr>
    | Some (ErrContext _) \<Rightarrow> Some \<lparr>ce_code = ''canceled'', ce_message = ''Command was canceled''\<rparr>
    | Some _ \<Rightarrow> Some \<lparr>ce_code = ''internal_error'', ce_message = ''Internal server error''\<rparr>)"

section \<open>Capabilities\<close>

text \<open>A Go map lookup of a missing key gives \<^verbatim>\<open>false\<close>.\<close>

definition has_characteristic :: "identity \<Rightarrow> string \<Rightarrow> bool" where
  "has_characteristic i c \<longleftrightarrow> map_of (id_characteristics i) c = Some True"

definition appCommand :: "snapshot \<Rightarrow> identity option" where
  "appCommand sn = (case sn_device sn of
      None \<Rightarrow> None
    | Some i \<Rightarrow> if id_mode i = ''app'' \<and> has_characteristic i ''command'' then Some i else None)"

definition app_with :: "(identity \<Rightarrow> bool) \<Rightarrow> snapshot \<Rightarrow> bool" where
  "app_with capability sn \<longleftrightarrow> (case appCommand sn of None \<Rightarrow> False | Some i \<Rightarrow> capability i)"

definition supportsDC :: "snapshot \<Rightarrow> bool" where
  "supportsDC = app_with (\<lambda>i. f_dc_out_control (id_feature_set i) \<and> has_characteristic i ''dc'')"

definition supportsTypeCOutput :: "snapshot \<Rightarrow> bool" where
  "supportsTypeCOutput = app_with (\<lambda>i. f_usb_output_control (id_feature_set i) \<and> has_characteristic i ''typec'')"

definition supportsBypass :: "snapshot \<Rightarrow> bool" where
  "supportsBypass = app_with (\<lambda>i. f_dc_bypass_control (id_feature_set i) \<and> has_characteristic i ''dc'')"

definition supportsLimits :: "snapshot \<Rightarrow> bool" where
  "supportsLimits = app_with (\<lambda>i. f_usb_power_limit (id_feature_set i))"

definition supportsTimers :: "snapshot \<Rightarrow> bool" where
  "supportsTimers = app_with (\<lambda>i. f_dc_out_scheduler (id_feature_set i))"

definition with_identity :: "(identity \<Rightarrow> bool) \<Rightarrow> snapshot \<Rightarrow> bool" where
  "with_identity p sn \<longleftrightarrow> (case sn_device sn of None \<Rightarrow> False | Some i \<Rightarrow> p i)"

section \<open>Resolving a session\<close>

definition sessionFor :: "'w service \<Rightarrow> 'w ctx \<Rightarrow> (snapshot \<Rightarrow> bool) \<Rightarrow> bool \<Rightarrow> 'w world \<Rightarrow> ctl_error + 'w session_ref" where
  "sessionFor sv ctx supported advanced w = (case ctx w of
      Some e \<Rightarrow> Inl (ErrContext e)
    | None \<Rightarrow>
        if advanced \<and> \<not> supported (snap_of w) then Inl ErrUnsupported
        else if advanced \<and> \<not> sv_advanced sv w then Inl ErrAdvancedDisabled
        else if is_nil (sv_resolve sv w) then Inl ErrDisconnected
        else if \<not> advanced \<and> \<not> supported (snap_of w) then Inl ErrUnsupported
        else Inr (sv_resolve sv w))"

definition advancedCommand :: "'w service \<Rightarrow> 'w ctx \<Rightarrow> (identity \<Rightarrow> bool) \<Rightarrow> 'w world \<Rightarrow> ctl_error + 'w session_ref" where
  "advancedCommand sv ctx capability = sessionFor sv ctx (app_with capability) True"

text \<open>A method call on the resolved session, with the way the service reports the session's errors. Every
  method of a session starts by using the fields of the session, so the call on a nil pointer panics.\<close>

definition invoke :: "(ble_error \<Rightarrow> ctl_error) \<Rightarrow> 'w session_ref \<Rightarrow> ('w Transport \<Rightarrow> ('w, 'a) act) \<Rightarrow> ('w, 'a) op" where
  "invoke wrap s m w = (case s of
      Live t \<Rightarrow> (case m t w of (w, Inl e) \<Rightarrow> (w, Inl (wrap e)) | (w, Inr x) \<Rightarrow> (w, Inr x))
    | _ \<Rightarrow> (w, Inl NilDereference))"

definition resolved ::
    "('w world \<Rightarrow> ctl_error + 'w session_ref) \<Rightarrow> (ble_error \<Rightarrow> ctl_error) \<Rightarrow> ('w Transport \<Rightarrow> ('w, 'a) act) \<Rightarrow> ('w, 'a) op" where
  "resolved r wrap m w = (case r w of Inl e \<Rightarrow> (w, Inl e) | Inr s \<Rightarrow> invoke wrap s m w)"

definition refuse :: "ctl_error \<Rightarrow> ('w, 'a) op" where
  "refuse e w = (w, Inl e)"

section \<open>Limits and timers\<close>

definition Service_GetUSBCLimit :: "'w service \<Rightarrow> 'w ctx \<Rightarrow> int \<Rightarrow> ('w, int) op" where
  "Service_GetUSBCLimit sv ctx ty =
     (if ty < LimitGlobal \<or> ty > LimitRuntime then refuse (LimitTypeInvalid ty)
      else resolved (sessionFor sv ctx supportsLimits False) wrapBLE (\<lambda>t. GetUSBCLimit t ty))"

definition Service_PutUSBCLimit :: "'w service \<Rightarrow> 'w ctx \<Rightarrow> int \<Rightarrow> int \<Rightarrow> ('w, int) op" where
  "Service_PutUSBCLimit sv ctx ty level =
     (if ty < LimitGlobal \<or> ty > LimitOutput then refuse (LimitTypeInvalid ty)
      else case ValidateLimitWrite (word_of_int ty) level of
        Some e \<Rightarrow> refuse (ErrProto e)
      | None \<Rightarrow> resolved (sessionFor sv ctx supportsLimits False) wrapBLE (\<lambda>t. PutUSBCLimit t ty level))"

definition Service_DeleteUSBCLimit :: "'w service \<Rightarrow> 'w ctx \<Rightarrow> int \<Rightarrow> ('w, int) op" where
  "Service_DeleteUSBCLimit sv ctx ty =
     (if ty < LimitGlobal \<or> ty > LimitOutput then refuse (LimitTypeInvalid ty)
      else resolved (sessionFor sv ctx supportsLimits False) wrapBLE (\<lambda>t. DeleteUSBCLimit t ty))"

definition Service_ListTimers :: "'w service \<Rightarrow> 'w ctx \<Rightarrow> ('w, Timer list) op" where
  "Service_ListTimers sv ctx = resolved (sessionFor sv ctx supportsTimers False) wrapBLE ListTimers"

definition Service_GetTimer :: "'w service \<Rightarrow> 'w ctx \<Rightarrow> byte \<Rightarrow> ('w, Timer) op" where
  "Service_GetTimer sv ctx i =
     (if i = 0xFF then refuse TimerIDReserved
      else resolved (sessionFor sv ctx supportsTimers False) timerError (\<lambda>t. GetTimer t i))"

definition Service_AddTimer :: "'w service \<Rightarrow> 'w ctx \<Rightarrow> Timer \<Rightarrow> ('w, Timer list \<times> byte) op" where
  "Service_AddTimer sv ctx timer = (case ValidateTimerWrite timer of
      Some e \<Rightarrow> refuse (ErrProto e)
    | None \<Rightarrow> resolved (sessionFor sv ctx supportsTimers False) wrapBLE (\<lambda>t. AddTimer t timer))"

definition Service_PutTimer :: "'w service \<Rightarrow> 'w ctx \<Rightarrow> byte \<Rightarrow> Timer \<Rightarrow> ('w, Timer list) op" where
  "Service_PutTimer sv ctx i timer =
     (if i = 0xFF then refuse TimerIDReserved
      else case ValidateTimerWrite timer of
        Some e \<Rightarrow> refuse (ErrProto e)
      | None \<Rightarrow> resolved (sessionFor sv ctx supportsTimers False) timerError (\<lambda>t. PutTimer t i timer))"

definition Service_DeleteTimer :: "'w service \<Rightarrow> 'w ctx \<Rightarrow> byte \<Rightarrow> ('w, Timer list) op" where
  "Service_DeleteTimer sv ctx i =
     (if i = 0xFF then refuse TimerIDReserved
      else resolved (sessionFor sv ctx supportsTimers False) timerError (\<lambda>t. DeleteTimer t i))"

section \<open>Advanced operations\<close>

definition Service_GetBypassThreshold :: "'w service \<Rightarrow> 'w ctx \<Rightarrow> ('w, float64) op" where
  "Service_GetBypassThreshold sv ctx =
     resolved (advancedCommand sv ctx (\<lambda>i. f_dc_bypass (id_feature_set i))) wrapBLE BypassThreshold"

definition Service_PutBypassThreshold :: "'w service \<Rightarrow> 'w ctx \<Rightarrow> float64 \<Rightarrow> ('w, float64) op" where
  "Service_PutBypassThreshold sv ctx volts =
     (if fle volts (Fin 0) \<or> flt (Fin 60) volts then refuse (ThresholdOutside volts)
      else resolved (advancedCommand sv ctx (\<lambda>i. f_dc_bypass (id_feature_set i))) wrapBLE (\<lambda>t. PutBypassThreshold t volts))"

definition Service_BarrierFree :: "'w service \<Rightarrow> 'w ctx \<Rightarrow> ('w, bool) op" where
  "Service_BarrierFree sv ctx = resolved (advancedCommand sv ctx (\<lambda>_. True)) wrapBLE BarrierFree"

definition Service_SetBarrierFree :: "'w service \<Rightarrow> 'w ctx \<Rightarrow> bool \<Rightarrow> ('w, bool) op" where
  "Service_SetBarrierFree sv ctx on = resolved (advancedCommand sv ctx (\<lambda>_. True)) wrapBLE (\<lambda>t. SetBarrierFree t on)"

definition Service_SetRunningMode :: "'w service \<Rightarrow> 'w ctx \<Rightarrow> byte \<Rightarrow> ('w, unit) op" where
  "Service_SetRunningMode sv ctx mode =
     (if mode > 1 then refuse (RunningModeOutside mode)
      else resolved (advancedCommand sv ctx (\<lambda>i. f_factory_mode (id_feature_set i))) wrapBLE (\<lambda>t. SetRunningMode t mode))"

definition Service_USBFirmwareVersion :: "'w service \<Rightarrow> 'w ctx \<Rightarrow> ('w, byte list) op" where
  "Service_USBFirmwareVersion sv ctx =
     resolved (advancedCommand sv ctx (\<lambda>i. f_usb_port (id_feature_set i))) wrapBLE USBFirmwareVersion"

definition Service_SetBLEPIN :: "'w service \<Rightarrow> 'w ctx \<Rightarrow> uint32 \<Rightarrow> ('w, unit) op" where
  "Service_SetBLEPIN sv ctx pin =
     (if pin > 999999 then refuse (PINOutside pin)
      else resolved (advancedCommand sv ctx (\<lambda>_. True)) wrapBLE (\<lambda>t. SetBLEPIN t pin))"

definition Service_ReadClock :: "'w service \<Rightarrow> 'w ctx \<Rightarrow> ('w, civil_time option) op" where
  "Service_ReadClock sv ctx =
     resolved (sessionFor sv ctx (with_identity (\<lambda>i. id_mode i = ''app'')) True) wrapBLE ReadClock"

definition Service_SyncClock :: "'w service \<Rightarrow> 'w ctx \<Rightarrow> civil_time \<Rightarrow> ('w, unit) op" where
  "Service_SyncClock sv ctx now =
     resolved (sessionFor sv ctx (with_identity (\<lambda>i. id_mode i = ''app'' \<and> has_characteristic i ''current_time'')) True)
       wrapBLE (\<lambda>t. SyncClock t now 0)"

definition Service_OTAInfo :: "'w service \<Rightarrow> 'w ctx \<Rightarrow> ('w, OTAInfo) op" where
  "Service_OTAInfo sv ctx =
     resolved (sessionFor sv ctx (with_identity
         (\<lambda>i. (id_mode i = ''app'' \<or> id_mode i = ''ota'') \<and> has_characteristic i ''ota'')) True) wrapBLE Session_OTAInfo"

definition Service_EnterOTA :: "'w service \<Rightarrow> 'w ctx \<Rightarrow> ('w, unit) op" where
  "Service_EnterOTA sv ctx =
     resolved (sessionFor sv ctx (with_identity (\<lambda>i. id_mode i = ''app'' \<and> has_characteristic i ''ota'')) True)
       wrapBLE (\<lambda>t. EnterOTA t (sv_await sv) ctx)"

definition Service_ExitOTA :: "'w service \<Rightarrow> 'w ctx \<Rightarrow> ('w, unit) op" where
  "Service_ExitOTA sv ctx =
     resolved (sessionFor sv ctx (with_identity (\<lambda>i. id_mode i = ''ota'' \<and> has_characteristic i ''ota'')) True)
       wrapBLE (\<lambda>t. ExitOTA t (sv_await sv) ctx)"

text \<open>\<^verbatim>\<open>Restart\<close> and \<^verbatim>\<open>Shutdown\<close> end with \<^verbatim>\<open>return ctx.Err()\<close>.\<close>

definition then_ctx :: "'w ctx \<Rightarrow> ('w, unit) op \<Rightarrow> ('w, unit) op" where
  "then_ctx ctx m w = (case m w of
      (w, Inl e) \<Rightarrow> (w, Inl e)
    | (w, Inr _) \<Rightarrow> (case ctx w of Some e \<Rightarrow> (w, Inl (ErrContext e)) | None \<Rightarrow> (w, Inr ())))"

definition Service_Restart :: "'w service \<Rightarrow> 'w ctx \<Rightarrow> ('w, unit) op" where
  "Service_Restart sv ctx =
     then_ctx ctx (resolved (sessionFor sv ctx (\<lambda>sn. appCommand sn \<noteq> None) False) wrapBLE (\<lambda>t. Session_Restart t (sv_await sv)))"

definition Service_Shutdown :: "'w service \<Rightarrow> 'w ctx \<Rightarrow> ('w, unit) op" where
  "Service_Shutdown sv ctx =
     then_ctx ctx (resolved (sessionFor sv ctx (with_identity
         (\<lambda>i. id_mode i = ''app'' \<and> f_shutdown (id_feature_set i) \<and> has_characteristic i ''factory'')) False)
       wrapBLE (\<lambda>t. Session_Shutdown t (sv_await sv)))"

section \<open>Commands confirmed by telemetry\<close>

datatype telemetryKind = telemetryDC | telemetryTypeC

definition zero_dc :: dc_port where
  "zero_dc = \<lparr>dc_enabled = False, dc_status = 0, dc_volts = Fin 0, dc_amps = Fin 0, dc_watts = Fin 0, dc_bypass = False\<rparr>"

definition zero_typec :: typec_port where
  "zero_typec = \<lparr>tc_enabled = False, tc_status = 0, tc_volts = Fin 0, tc_amps = Fin 0, tc_watts = Fin 0,
     tc_temp_c = Fin 0, tc_mode = 0, tc_dc_input = False\<rparr>"

definition observedTelemetry :: "snapshot \<Rightarrow> telemetryKind \<Rightarrow> anyval" where
  "observedTelemetry sn kind = (case kind of
      telemetryTypeC \<Rightarrow> AnyTypeC (case sn_typec sn of None \<Rightarrow> zero_typec | Some v \<Rightarrow> v)
    | telemetryDC \<Rightarrow> AnyDC (case sn_dc sn of None \<Rightarrow> zero_dc | Some v \<Rightarrow> v))"

definition observedDC :: "anyval \<Rightarrow> dc_port" where
  "observedDC v = (case v of AnyDC d \<Rightarrow> d | _ \<Rightarrow> zero_dc)"

definition observedTypeC :: "anyval \<Rightarrow> typec_port" where
  "observedTypeC v = (case v of AnyTypeC t \<Rightarrow> t | _ \<Rightarrow> zero_typec)"

text \<open>What the other goroutines do while a command runs: \<open>itf_begin\<close> between the first context check and the
  beginning of the command, \<open>itf_begun\<close> and \<open>itf_issued\<close> after it began and after it was issued, \<open>itf_publish\<close> the updates
  of the world that the wait observes one by one, \<open>itf_end\<close> the update before the command is finished, and
  \<open>itf_expired\<close> the error with which the waiting context ends if no observed snapshot confirms.\<close>

record 'w interference =
  itf_begin :: "'w world \<Rightarrow> 'w world"
  itf_begun :: "'w world \<Rightarrow> 'w world"
  itf_issued :: "'w world \<Rightarrow> 'w world"
  itf_publish :: "('w world \<Rightarrow> 'w world) list"
  itf_end :: "'w world \<Rightarrow> 'w world"
  itf_expired :: ctx_error

text \<open>\<^verbatim>\<open>Store.Wait\<close>: the current snapshot first, then one per publication, in order.\<close>

fun Wait :: "('w world \<Rightarrow> 'w world) list \<Rightarrow> ctx_error \<Rightarrow> (snapshot \<Rightarrow> bool) \<Rightarrow> 'w world \<Rightarrow> 'w world \<times> (ctx_error + snapshot)" where
  "Wait [] e predicate w = (if predicate (snap_of w) then (w, Inr (snap_of w)) else (w, Inl e))"
| "Wait (f # fs) e predicate w =
     (if predicate (snap_of w) then (w, Inr (snap_of w)) else Wait fs e predicate (f w))"

datatype outcome = Returned anyval "command option" "ctl_error option" | Panicked

text \<open>The closure \<^verbatim>\<open>finish\<close> of \<^verbatim>\<open>reconcile\<close>.\<close>

definition finish :: "string \<Rightarrow> string \<Rightarrow> anyval \<Rightarrow> ctl_error option \<Rightarrow> 'w world \<Rightarrow> 'w world \<times> outcome" where
  "finish i phase observed err w =
     (case FinishCommand (w_now w) (w_now w) i phase observed (commandError err) (w_store w) of
        (st, None) \<Rightarrow> (w\<lparr>w_store := st\<rparr>, Returned observed None (Some (ErrInternal (''finish command '' @ i))))
      | (st, Some c) \<Rightarrow> (w\<lparr>w_store := st\<rparr>, Returned observed (Some c) err))"

definition new_command :: "string \<Rightarrow> string \<Rightarrow> anyval \<Rightarrow> time \<Rightarrow> command" where
  "new_command i operation requested started =
     \<lparr>cmd_id = i, cmd_operation = operation, cmd_phase = [], cmd_requested = requested, cmd_observed = AnyNil,
      cmd_started_at = started, cmd_updated_at = started, cmd_error = None\<rparr>"

definition begin_command :: "command \<Rightarrow> 'w world \<Rightarrow> 'w world" where
  "begin_command c w = w\<lparr>w_store := BeginCommand (w_now w) (w_now w) c (w_store w)\<rparr>"

text \<open>\<^verbatim>\<open>reconcile\<close> from the wait on.\<close>

definition confirm ::
    "'w interference \<Rightarrow> 'w ctx \<Rightarrow> string \<Rightarrow> telemetryKind \<Rightarrow> (snapshot \<Rightarrow> bool) \<Rightarrow> 'w world \<Rightarrow> 'w world \<times> outcome" where
  "confirm itf ctx i kind confirmed w =
     (case Wait (itf_publish itf) (itf_expired itf) confirmed w of
        (w, Inr sn) \<Rightarrow> finish i CommandConfirmed (observedTelemetry sn kind) None (itf_end itf w)
      | (w, Inl e) \<Rightarrow>
          let w = itf_end itf w
          in if e = DeadlineExceeded \<and> ctx w = None
             then finish i CommandTimeout (observedTelemetry (snap_of w) kind) (Some ErrTimeout) w
             else finish i CommandFailed (observedTelemetry (snap_of w) kind) (Some (ErrContext e)) w)"

text \<open>\<^verbatim>\<open>reconcile\<close> from the call of \<^verbatim>\<open>issue\<close> on: a call on a nil pointer panics.\<close>

definition issue_and_confirm ::
    "'w interference \<Rightarrow> 'w ctx \<Rightarrow> string \<Rightarrow> telemetryKind \<Rightarrow> 'w session_ref \<Rightarrow> ('w Transport \<Rightarrow> ('w, unit) act) \<Rightarrow>
     (snapshot \<Rightarrow> bool) \<Rightarrow> 'w world \<Rightarrow> 'w world \<times> outcome" where
  "issue_and_confirm itf ctx i kind session issue confirmed w =
     (case invoke wrapBLE session issue w of
        (w, Inl e) \<Rightarrow>
          if e = NilDereference then (w, Panicked)
          else finish i CommandFailed (observedTelemetry (snap_of w) kind) (Some e) w
      | (w, Inr _) \<Rightarrow>
          let w = itf_issued itf w
          in case ctx w of
               Some e \<Rightarrow> finish i CommandFailed (observedTelemetry (snap_of w) kind) (Some (ErrContext e)) w
             | None \<Rightarrow> confirm itf ctx i kind confirmed w)"

definition reconcile ::
    "'w service \<Rightarrow> 'w interference \<Rightarrow> 'w ctx \<Rightarrow> string \<Rightarrow> anyval \<Rightarrow> telemetryKind \<Rightarrow> (snapshot \<Rightarrow> bool) \<Rightarrow>
     ('w Transport \<Rightarrow> ('w, unit) act) \<Rightarrow> (snapshot \<Rightarrow> bool) \<Rightarrow> 'w world \<Rightarrow> 'w world \<times> outcome" where
  "reconcile sv itf ctx operation requested kind supported issue confirmed w =
     (case ctx w of
        Some e \<Rightarrow> (w, Returned (observedTelemetry (snap_of w) kind) None (Some (ErrContext e)))
      | None \<Rightarrow>
          let w = itf_begin itf w; session = sv_resolve sv w; started = w_now w
          in case sv_newID sv w of
               None \<Rightarrow> (w, Returned (observedTelemetry (snap_of w) kind) None (Some (ErrInternal ''generate command ID'')))
             | Some i \<Rightarrow>
                 if i = [] then (w, Returned (observedTelemetry (snap_of w) kind) None
                   (Some (ErrInternal ''generate command ID: empty ID'')))
                 else
                   let w = itf_begun itf (begin_command (new_command i operation requested started) w)
                   in case ctx w of
                        Some e \<Rightarrow> finish i CommandFailed (observedTelemetry (snap_of w) kind) (Some (ErrContext e)) w
                      | None \<Rightarrow>
                          if is_nil session
                          then finish i CommandFailed (observedTelemetry (snap_of w) kind) (Some ErrDisconnected) w
                          else if \<not> supported (snap_of w)
                          then finish i CommandFailed (observedTelemetry (snap_of w) kind) (Some ErrUnsupported) w
                          else issue_and_confirm itf ctx i kind session issue confirmed w)"

definition SetDCResult :: "'w service \<Rightarrow> 'w interference \<Rightarrow> 'w ctx \<Rightarrow> bool \<Rightarrow> 'w world \<Rightarrow> 'w world \<times> outcome" where
  "SetDCResult sv itf ctx on =
     reconcile sv itf ctx ''dc_output'' (AnyOn on) telemetryDC supportsDC (\<lambda>t. Session_DCControl t on)
       (\<lambda>sn. case sn_dc sn of None \<Rightarrow> False | Some d \<Rightarrow> dc_enabled d = on)"

definition SetTypeCOutputResult :: "'w service \<Rightarrow> 'w interference \<Rightarrow> 'w ctx \<Rightarrow> bool \<Rightarrow> 'w world \<Rightarrow> 'w world \<times> outcome" where
  "SetTypeCOutputResult sv itf ctx on =
     (let wantMode = (if on then 3 else 1 :: byte)
      in reconcile sv itf ctx ''usbc_output'' (AnyOn on) telemetryTypeC supportsTypeCOutput (\<lambda>t. Session_TypeCOutput t on)
           (\<lambda>sn. case sn_typec sn of None \<Rightarrow> False | Some c \<Rightarrow> tc_mode c = wantMode))"

definition SetBypassResult :: "'w service \<Rightarrow> 'w interference \<Rightarrow> 'w ctx \<Rightarrow> bool \<Rightarrow> 'w world \<Rightarrow> 'w world \<times> outcome" where
  "SetBypassResult sv itf ctx on =
     reconcile sv itf ctx ''dc_bypass'' (AnyOn on) telemetryDC supportsBypass (\<lambda>t. Session_BypassControl t on)
       (\<lambda>sn. case sn_dc sn of None \<Rightarrow> False | Some d \<Rightarrow> dc_bypass d = on)"

text \<open>\<^verbatim>\<open>SetDC\<close>, \<^verbatim>\<open>SetTypeCOutput\<close> and \<^verbatim>\<open>SetBypass\<close>: the observed value and the error.\<close>

definition observed_result :: "(anyval \<Rightarrow> 'a) \<Rightarrow> 'w world \<times> outcome \<Rightarrow> 'w world \<times> ('a \<times> ctl_error option) option" where
  "observed_result f r = (case r of (w, Panicked) \<Rightarrow> (w, None) | (w, Returned v c e) \<Rightarrow> (w, Some (f v, e)))"

definition Service_SetDC :: "'w service \<Rightarrow> 'w interference \<Rightarrow> 'w ctx \<Rightarrow> bool \<Rightarrow> 'w world \<Rightarrow> 'w world \<times> (dc_port \<times> ctl_error option) option" where
  "Service_SetDC sv itf ctx on w = observed_result observedDC (SetDCResult sv itf ctx on w)"

definition Service_SetTypeCOutput :: "'w service \<Rightarrow> 'w interference \<Rightarrow> 'w ctx \<Rightarrow> bool \<Rightarrow> 'w world \<Rightarrow> 'w world \<times> (typec_port \<times> ctl_error option) option" where
  "Service_SetTypeCOutput sv itf ctx on w = observed_result observedTypeC (SetTypeCOutputResult sv itf ctx on w)"

definition Service_SetBypass :: "'w service \<Rightarrow> 'w interference \<Rightarrow> 'w ctx \<Rightarrow> bool \<Rightarrow> 'w world \<Rightarrow> 'w world \<times> (dc_port \<times> ctl_error option) option" where
  "Service_SetBypass sv itf ctx on w = observed_result observedDC (SetBypassResult sv itf ctx on w)"

section \<open>A finished command tells the truth\<close>

lemma commandContextLocked_frame:
  "commandContextLocked t ctx req w = (w', x) \<Longrightarrow> w_store w' = w_store w \<and> w_policy w' = w_policy w \<and> w_now w' = w_now w"
  by (auto simp: commandContextLocked_def act_bind_def check_ctx_def t_read_def act_return_def
      dest!: t_write_frame split: if_splits prod.splits sum.splits option.splits)

lemma command_only_frame: "command_only t req w = (w', r) \<Longrightarrow> w_store w' = w_store w"
  by (auto simp: command_only_def command_act_def commandContext_def act_bind_def act_return_def
      dest!: commandContextLocked_frame split: prod.splits sum.splits option.splits)

lemmas switch_defs = Session_DCControl_def Session_TypeCOutput_def Session_BypassControl_def

definition pending_at :: "string \<Rightarrow> 'w world \<Rightarrow> command option" where
  "pending_at i w = map_of (sn_pending (snap_of w)) i"

text \<open>The interference of the other goroutines with a running command: they may change the store, the device
  and the clock, but a command is only finished by the request that holds its random identifier.\<close>

definition keeps :: "string \<Rightarrow> ('w world \<Rightarrow> 'w world) \<Rightarrow> bool" where
  "keeps i f \<longleftrightarrow> (\<forall>w c. pending_at i w = Some c \<longrightarrow> pending_at i (f w) = Some c)"

definition keeps_all :: "string \<Rightarrow> 'w interference \<Rightarrow> bool" where
  "keeps_all i itf \<longleftrightarrow> keeps i (itf_begun itf) \<and> keeps i (itf_issued itf) \<and> keeps i (itf_end itf) \<and>
     list_all (keeps i) (itf_publish itf)"

text \<open>The state of the command when the request has returned.\<close>

definition phase_for :: "ctl_error option \<Rightarrow> string" where
  "phase_for err = (if err = None then CommandConfirmed else if err = Some ErrTimeout then CommandTimeout else CommandFailed)"

definition settled :: "string \<Rightarrow> string \<Rightarrow> anyval \<Rightarrow> 'w world \<times> outcome \<Rightarrow> bool" where
  "settled i operation requested r = (case r of
      (w, Panicked) \<Rightarrow> False
    | (w, Returned obs None err) \<Rightarrow> False
    | (w, Returned obs (Some c) err) \<Rightarrow>
        cmd_id c = i \<and> cmd_operation c = operation \<and> cmd_requested c = requested \<and> cmd_observed c = obs \<and>
        cmd_phase c = phase_for err \<and> cmd_error c = commandError err \<and>
        pending_at i w = None \<and> last (sn_recent (snap_of w)) = c)"

lemma begin_command_pending:
  "\<exists>c'. pending_at (cmd_id c) (begin_command c w) = Some c' \<and> cmd_id c' = cmd_id c \<and>
     cmd_operation c' = cmd_operation c \<and> cmd_requested c' = cmd_requested c"
  using BeginCommand_pending [of "w_now w" "w_now w" c "w_store w"]
  by (auto simp: begin_command_def pending_at_def snap_of_def)

lemma finish_settles_phase:
  assumes "pending_at i w = Some c" "cmd_id c = i" "cmd_operation c = op" "cmd_requested c = req"
  shows "settled i op req (finish i (phase_for err) obs err w)"
proof -
  have "isTerminalCommandPhase (phase_for err)" by (simp add: phase_for_def isTerminalCommandPhase_def)
  moreover have "map_of (sn_pending (st_snap (w_store w))) i = Some c"
    using assms(1) by (simp add: pending_at_def snap_of_def)
  ultimately show ?thesis
    using assms(2-) by (simp add: finish_def FinishCommand_done settled_def pending_at_def snap_of_def
        append_recent_def push_capped_last)
qed

lemma finish_settles:
  assumes "pending_at i w = Some c" "cmd_id c = i" "cmd_operation c = op" "cmd_requested c = req"
  shows "settled i op req (finish i CommandConfirmed obs None w)"
    "settled i op req (finish i CommandTimeout obs (Some ErrTimeout) w)"
    "e \<noteq> ErrTimeout \<Longrightarrow> settled i op req (finish i CommandFailed obs (Some e) w)"
  using finish_settles_phase [OF assms, of None obs] finish_settles_phase [OF assms, of "Some ErrTimeout" obs]
    finish_settles_phase [OF assms, of "Some e" obs] by (simp_all add: phase_for_def)

lemma Wait_keeps:
  "list_all (keeps i) fs \<Longrightarrow> pending_at i w = Some c \<Longrightarrow> Wait fs e P w = (w', r) \<Longrightarrow> pending_at i w' = Some c"
  by (induction fs arbitrary: w) (auto simp: keeps_def split: if_splits)

lemma Wait_confirmed: "Wait fs e P w = (w', Inr sn) \<Longrightarrow> P sn"
  by (induction fs arbitrary: w) (auto split: if_splits)

lemma confirm_settles:
  assumes k: "keeps_all i itf" and p: "pending_at i w = Some c"
    and c: "cmd_id c = i" "cmd_operation c = op" "cmd_requested c = req"
  shows "settled i op req (confirm itf ctx i kind confirmed w)"
proof -
  obtain w' r where r: "Wait (itf_publish itf) (itf_expired itf) confirmed w = (w', r)" by force
  have "pending_at i w' = Some c" using Wait_keeps [OF _ p r] k by (simp add: keeps_all_def)
  then have "pending_at i (itf_end itf w') = Some c" using k by (simp add: keeps_all_def keeps_def)
  note fin = finish_settles [OF this c]
  show ?thesis
    unfolding confirm_def r by (cases r) (simp_all add: Let_def fin)
qed

lemma invoke_cases:
  assumes "invoke wrapBLE s m w = (w', r)"
  obtains "w' = w" "r = Inl NilDereference" | t e where "s = Live t" "m t w = (w', Inl e)" "r = Inl (wrapBLE e)"
    | t x where "s = Live t" "m t w = (w', Inr x)" "r = Inr x"
  using assms by (cases s) (auto simp: invoke_def split: prod.splits sum.splits)

lemma issue_settles:
  assumes k: "keeps_all i itf" and p: "pending_at i w = Some c"
    and c: "cmd_id c = i" "cmd_operation c = op" "cmd_requested c = req"
    and frame: "\<And>t w w' r. issue t w = (w', r) \<Longrightarrow> w_store w' = w_store w"
    and live: "session = Live t" and np: "no_panic (issue t)"
  shows "settled i op req (issue_and_confirm itf ctx i kind session issue confirmed w)"
proof -
  obtain w' r where r: "issue t w = (w', r)" by force
  have p': "pending_at i w' = Some c" using p frame [OF r] by (simp add: pending_at_def snap_of_def)
  note fin = finish_settles [OF p' c]
  show ?thesis
  proof (cases r)
    case (Inl e)
    have "e \<noteq> Panic" using np r Inl unfolding no_panic_def by (metis snd_conv)
    then show ?thesis
      unfolding issue_and_confirm_def live invoke_def by (simp add: r Inl wrapBLE_def fin)
  next
    case (Inr x)
    have "pending_at i (itf_issued itf w') = Some c" using p' k by (simp add: keeps_all_def keeps_def)
    note fin2 = finish_settles [OF this c] confirm_settles [OF k this c]
    show ?thesis
      unfolding issue_and_confirm_def live invoke_def by (simp add: r Inr Let_def fin2 split: option.split)
  qed
qed

lemma reconcile_settles:
  assumes k: "keeps_all i itf" and start: "ctx w = None" "sv_newID sv (itf_begin itf w) = Some i" "i \<noteq> []"
    and live: "sv_resolve sv (itf_begin itf w) \<noteq> NilPointer"
    and np: "\<And>t. sv_resolve sv (itf_begin itf w) = Live t \<Longrightarrow> no_panic (issue t)"
    and frame: "\<And>t w w' r. issue t w = (w', r) \<Longrightarrow> w_store w' = w_store w"
  shows "settled i op req (reconcile sv itf ctx op req kind supported issue confirmed w)"
proof -
  define w0 where "w0 = itf_begin itf w"
  define w1 where "w1 = itf_begun itf (begin_command (new_command i op req (w_now w0)) w0)"
  obtain c where "pending_at i (begin_command (new_command i op req (w_now w0)) w0) = Some c"
    and c: "cmd_id c = i" "cmd_operation c = op" "cmd_requested c = req"
    using begin_command_pending [of "new_command i op req (w_now w0)" w0] by (auto simp: new_command_def)
  then have p: "pending_at i w1 = Some c" using k by (simp add: w1_def keeps_all_def keeps_def)
  note fin = finish_settles [OF p c]
  show ?thesis
  proof (cases "sv_resolve sv w0")
    case (Live t)
    then have iss: "settled i op req (issue_and_confirm itf ctx i kind (Live t) issue confirmed w1)"
      using issue_settles [OF k p c frame] np by (simp add: w0_def)
    show ?thesis
      unfolding reconcile_def w0_def [symmetric] Let_def
      by (simp add: start(1,3) start(2) [folded w0_def] Live w1_def [symmetric] fin iss split: option.split)
  qed (use live in \<open>simp_all add: reconcile_def Let_def w0_def [symmetric] start(1,3) start(2) [folded w0_def]
        w1_def [symmetric] fin split: option.split\<close>)
qed

lemma switch_frame:
  "Session_DCControl t on w = (w', r) \<Longrightarrow> w_store w' = w_store w"
  "Session_TypeCOutput t on w = (w', r) \<Longrightarrow> w_store w' = w_store w"
  "Session_BypassControl t on w = (w', r) \<Longrightarrow> w_store w' = w_store w"
  by (simp_all add: switch_defs command_only_frame)

lemma switch_no_panic:
  "sane t \<Longrightarrow> no_panic (Session_DCControl t on)" "sane t \<Longrightarrow> no_panic (Session_TypeCOutput t on)"
  "sane t \<Longrightarrow> no_panic (Session_BypassControl t on)"
  by (simp_all add: switch_defs no_panic_command)

text \<open>A resolver that returns no typed nil pointers, and only transports that do not panic themselves.\<close>

definition proper_session :: "'w session_ref \<Rightarrow> bool" where
  "proper_session s \<longleftrightarrow> (case s of NoSession \<Rightarrow> True | NilPointer \<Rightarrow> False | Live t \<Rightarrow> sane t)"

lemma proper_session_simps [simp]:
  "proper_session NoSession" "\<not> proper_session NilPointer" "proper_session (Live t) \<longleftrightarrow> sane t"
  by (simp_all add: proper_session_def)

text \<open>C12. A control command is accounted for when the resolver gives no session or a live one, never a nil pointer in an interface: once \<^verbatim>\<open>SetDC\<close>,
  \<^verbatim>\<open>SetTypeCOutput\<close> or \<^verbatim>\<open>SetBypass\<close> has begun a
  command, the request returns that command in a terminal phase (confirmed without an error, timeout for a
  confirmation timeout, failed for any other error) with the matching error code and the observed value;
  the command has left the pending commands and is the newest recent one. This holds whatever the device
  answers, whenever the context ends, and whatever other goroutines do to the store meanwhile, as long as
  they do not finish this command themselves. The daemon's own resolver does return such a nil pointer while it is disconnected, and then the
  command stays pending, lemma \<open>nil_pointer_leaves_pending\<close>.\<close>

theorem command_settled:
  assumes "keeps_all i itf" and "ctx w = None" and "sv_newID sv (itf_begin itf w) = Some i" and "i \<noteq> []"
    and "proper_session (sv_resolve sv (itf_begin itf w))"
  shows "settled i ''dc_output'' (AnyOn on) (SetDCResult sv itf ctx on w) \<and>
    settled i ''usbc_output'' (AnyOn on) (SetTypeCOutputResult sv itf ctx on w) \<and>
    settled i ''dc_bypass'' (AnyOn on) (SetBypassResult sv itf ctx on w)"
proof -
  have live: "sv_resolve sv (itf_begin itf w) \<noteq> NilPointer" using assms(5) by auto
  have sane: "sane t" if "sv_resolve sv (itf_begin itf w) = Live t" for t using assms(5) that by simp
  note rec = reconcile_settles [where ctx = ctx and sv = sv, OF assms(1-4) live]
  show ?thesis
    unfolding SetDCResult_def SetTypeCOutputResult_def SetBypassResult_def Let_def
    by (intro conjI rec) (auto intro: switch_no_panic sane dest: switch_frame)
qed

definition quiet :: "ctx_error \<Rightarrow> 'w interference" where
  "quiet e = \<lparr>itf_begin = id, itf_begun = id, itf_issued = id, itf_publish = [], itf_end = id, itf_expired = e\<rparr>"

definition demo_identity :: identity where
  "demo_identity = \<lparr>id_model = [], id_hw_rev = [], id_app_firmware = [], id_bootloader_firmware = [], id_mac = [],
     id_cid = 0, id_features = 0, id_feature_set = DecodeFeatures 0xFFFF, id_mode = ''app'',
     id_characteristics = [(''command'', True), (''dc'', True)], id_readable = []\<rparr>"

definition demo_world :: "byte list world" where
  "demo_world = world0\<lparr>w_store := SetIdentity 1 demo_identity NewStore, w_now := 1\<rparr>"

definition demo_service :: "byte list session_ref \<Rightarrow> byte list service" where
  "demo_service s = \<lparr>sv_resolve = (\<lambda>w. s), sv_advanced = (\<lambda>w. False), sv_newID = (\<lambda>w. Some ''cmd_1''),
     sv_await = (\<lambda>w. Grace_over)\<rparr>"

lemma keeps_quiet: "keeps_all i (quiet e)"
  by (simp add: keeps_all_def quiet_def keeps_def)

lemma demo_supports: "supportsDC (snap_of demo_world)"
  by (simp add: supportsDC_def app_with_def appCommand_def snap_of_def demo_world_def SetIdentity_def mutateState_def
      apply_store_def demo_identity_def has_characteristic_def DecodeFeatures_def feature_bit_def Let_def)

theorem command_settled_witness:
  "settled ''cmd_1'' ''dc_output'' (AnyOn True)
     (SetDCResult (demo_service NoSession) (quiet Canceled) background True demo_world) \<and>
   settled ''cmd_1'' ''dc_bypass'' (AnyOn True)
     (SetBypassResult (demo_service (Live (scripted id))) (quiet DeadlineExceeded) background True demo_world)"
  using command_settled [OF keeps_quiet, of background demo_world "demo_service NoSession" Canceled "''cmd_1''" True]
    command_settled [OF keeps_quiet, of background demo_world "demo_service (Live (scripted id))" DeadlineExceeded "''cmd_1''" True]
  by (simp add: background_def demo_service_def sane_scripted)

section \<open>Success means that telemetry showed the requested state\<close>

lemma finish_err: "finish i phase obs err w = (w', Returned obs' c err') \<Longrightarrow> obs' = obs \<and> (err' = err \<or> err' \<noteq> None)"
  by (auto simp: finish_def split: prod.splits option.splits)

lemma finish_no_err: "finish i phase obs (Some e) w \<noteq> (w', Returned obs' c None)"
  using finish_err [of i phase obs "Some e" w w' obs' c None] by auto

text \<open>The worlds whose snapshots the wait examines, and the world in which a command is issued.\<close>

fun seen_worlds :: "('w world \<Rightarrow> 'w world) list \<Rightarrow> 'w world \<Rightarrow> 'w world list" where
  "seen_worlds [] w = [w]"
| "seen_worlds (f # fs) w = w # seen_worlds fs (f w)"

definition begun :: "'w interference \<Rightarrow> string \<Rightarrow> anyval \<Rightarrow> string \<Rightarrow> 'w world \<Rightarrow> 'w world" where
  "begun itf operation requested i w =
     (let w = itf_begin itf w in itf_begun itf (begin_command (new_command i operation requested (w_now w)) w))"

lemma Wait_seen: "Wait fs e P w = (w', Inr sn) \<Longrightarrow> \<exists>x \<in> set (seen_worlds fs w). sn = snap_of x \<and> P sn"
  by (induction fs arbitrary: w) (auto split: if_splits)

lemma confirm_no_err:
  "confirm itf ctx i kind confirmed w = (w', Returned obs c None) \<Longrightarrow>
   \<exists>x \<in> set (seen_worlds (itf_publish itf) w). confirmed (snap_of x) \<and> obs = observedTelemetry (snap_of x) kind"
  by (auto simp: confirm_def finish_no_err Let_def dest!: Wait_seen dest: finish_err split: prod.splits sum.splits if_splits)

lemma issue_no_err:
  assumes "issue_and_confirm itf ctx i kind session issue confirmed w = (w', Returned obs c None)"
  obtains t w2 where "session = Live t" "issue t w = (w2, Inr ())"
    "confirm itf ctx i kind confirmed (itf_issued itf w2) = (w', Returned obs c None)"
proof -
  obtain w1 r where r: "invoke wrapBLE session issue w = (w1, r)" by force
  show ?thesis
  proof (cases rule: invoke_cases [OF r])
    case (3 t x)
    have "confirm itf ctx i kind confirmed (itf_issued itf w1) = (w', Returned obs c None)"
      using assms 3(3) unfolding issue_and_confirm_def r by (simp add: Let_def finish_no_err split: option.splits)
    then show ?thesis using that 3 by simp
  qed (use assms in \<open>unfold issue_and_confirm_def r, simp_all add: wrapBLE_def finish_no_err split: if_splits\<close>)
qed

lemma reconcile_no_err:
  assumes "reconcile sv itf ctx op req kind supported issue confirmed w = (w', Returned obs c None)"
  obtains i t w2 x where "sv_newID sv (itf_begin itf w) = Some i" "sv_resolve sv (itf_begin itf w) = Live t" "issue t (begun itf op req i w) = (w2, Inr ())"
    "x \<in> set (seen_worlds (itf_publish itf) (itf_issued itf w2))" "confirmed (snap_of x)" "obs = observedTelemetry (snap_of x) kind"
proof -
  obtain i where "sv_newID sv (itf_begin itf w) = Some i"
    "issue_and_confirm itf ctx i kind (sv_resolve sv (itf_begin itf w)) issue confirmed (begun itf op req i w) = (w', Returned obs c None)"
    using assms by (auto simp: reconcile_def begun_def Let_def finish_no_err split: option.splits if_splits)
  then show ?thesis using that by (elim issue_no_err) (blast dest: confirm_no_err)
qed

lemma observed_result_no_err: "observed_result f r = (w', Some (d, None)) \<longleftrightarrow> (\<exists>v c. r = (w', Returned v c None) \<and> d = f v)"
  by (auto simp: observed_result_def split: prod.splits outcome.splits)

text \<open>A switch request succeeds only on evidence: when \<^verbatim>\<open>SetDC\<close>, \<^verbatim>\<open>SetTypeCOutput\<close> or \<^verbatim>\<open>SetBypass\<close> returns without
  an error, the device accepted the command frame, and the port it returns was read from telemetry that
  shows the requested state (for the USB-C output, mode 3 for on and 1 for off).\<close>

theorem confirmed_by_telemetry:
  "(Service_SetDC sv itf ctx on w = (w', Some (d, None)) \<longrightarrow> dc_enabled d = on \<and>
      (\<exists>t w1 w2. sv_resolve sv (itf_begin itf w) = Live t \<and> Session_DCControl t on w1 = (w2, Inr ()))) \<and>
   (Service_SetTypeCOutput sv itf ctx on w = (w', Some (c, None)) \<longrightarrow> tc_mode c = (if on then 3 else 1) \<and>
      (\<exists>t w1 w2. sv_resolve sv (itf_begin itf w) = Live t \<and> Session_TypeCOutput t on w1 = (w2, Inr ()))) \<and>
   (Service_SetBypass sv itf ctx on w = (w', Some (d, None)) \<longrightarrow> dc_bypass d = on \<and>
      (\<exists>t w1 w2. sv_resolve sv (itf_begin itf w) = Live t \<and> Session_BypassControl t on w1 = (w2, Inr ())))"
proof (intro conjI impI)
  assume a: "Service_SetDC sv itf ctx on w = (w', Some (d, None))"
  show "dc_enabled d = on" "\<exists>t w1 w2. sv_resolve sv (itf_begin itf w) = Live t \<and> Session_DCControl t on w1 = (w2, Inr ())"
    using a unfolding Service_SetDC_def observed_result_no_err SetDCResult_def
    by (auto elim!: reconcile_no_err simp: observedTelemetry_def observedDC_def split: option.splits)
next
  assume a: "Service_SetTypeCOutput sv itf ctx on w = (w', Some (c, None))"
  show "tc_mode c = (if on then 3 else 1)"
    "\<exists>t w1 w2. sv_resolve sv (itf_begin itf w) = Live t \<and> Session_TypeCOutput t on w1 = (w2, Inr ())"
    using a unfolding Service_SetTypeCOutput_def observed_result_no_err SetTypeCOutputResult_def Let_def
    by (auto elim!: reconcile_no_err simp: observedTelemetry_def observedTypeC_def split: option.splits)
next
  assume a: "Service_SetBypass sv itf ctx on w = (w', Some (d, None))"
  show "dc_bypass d = on" "\<exists>t w1 w2. sv_resolve sv (itf_begin itf w) = Live t \<and> Session_BypassControl t on w1 = (w2, Inr ())"
    using a unfolding Service_SetBypass_def observed_result_no_err SetBypassResult_def
    by (auto elim!: reconcile_no_err simp: observedTelemetry_def observedDC_def split: option.splits)
qed

text \<open>A device that accepts the command while its telemetry reports the output on.\<close>

definition dc_reported_on :: "byte list world" where
  "dc_reported_on = demo_world\<lparr>w_store := SetDC 1 1 (zero_dc\<lparr>dc_enabled := True\<rparr>) (w_store demo_world)\<rparr>"

definition accepting :: "byte list \<Rightarrow> byte list" where
  "accepting req = [hd req, or (req ! 1) 0x80, 0]"

lemma dc_reported_on_snap:
  "snap_of dc_reported_on = (snap_of demo_world)\<lparr>sn_dc := Some (zero_dc\<lparr>dc_enabled := True\<rparr>)\<rparr>"
  by (simp add: dc_reported_on_def snap_of_def SetDC_def mutate_def apply_store_def demo_world_def
      SetIdentity_def mutateState_def)

lemma dc_accepted: "Session_DCControl (scripted accepting) True w = (w\<lparr>w_dev := DCControl True\<rparr>, Inr ())"
  by (simp add: Session_DCControl_def command_only_def command_act_def commandContext_def commandContextLocked_def
      act_bind_def check_ctx_def background_def t_write_def t_read_def scripted_def act_return_def accepting_def
      DCControl_def ValidateReply_def idx_def slice_from_def)

lemma dc_confirmed:
  "\<exists>w'. Service_SetDC (demo_service (Live (scripted accepting))) (quiet Canceled) background True dc_reported_on =
     (w', Some (zero_dc\<lparr>dc_enabled := True\<rparr>, None))"
proof -
  let ?c = "new_command ''cmd_1'' ''dc_output'' (AnyOn True) (w_now dc_reported_on)"
  define w1 where "w1 = begin_command ?c dc_reported_on"
  have s: "sn_dc (snap_of w1) = Some (zero_dc\<lparr>dc_enabled := True\<rparr>)" "sn_device (snap_of w1) = sn_device (snap_of demo_world)"
    using dc_reported_on_snap by (simp_all add: w1_def begin_command_def snap_of_def BeginCommand_def Let_def
        mutateState_def apply_store_def)
  have sup: "supportsDC (snap_of w1)"
    using demo_supports s(2) by (simp add: supportsDC_def app_with_def appCommand_def)
  obtain c where p: "pending_at ''cmd_1'' w1 = Some c"
    using begin_command_pending [of ?c dc_reported_on] by (auto simp: w1_def new_command_def)
  define w2 where "w2 = w1\<lparr>w_dev := DCControl True\<rparr>"
  have w2: "snap_of w2 = snap_of w1" "pending_at ''cmd_1'' w2 = Some c" using p by (simp_all add: w2_def snap_of_def pending_at_def)
  have fin: "\<exists>w' c'. finish ''cmd_1'' CommandConfirmed obs None w2 = (w', Returned obs (Some c') None)" for obs
    using w2(2) by (simp add: finish_def FinishCommand_done pending_at_def snap_of_def isTerminalCommandPhase_def)
  have "SetDCResult (demo_service (Live (scripted accepting))) (quiet Canceled) background True dc_reported_on =
      finish ''cmd_1'' CommandConfirmed (AnyDC (zero_dc\<lparr>dc_enabled := True\<rparr>)) None w2"
    using s sup w2(1) by (simp add: SetDCResult_def reconcile_def background_def demo_service_def quiet_def Let_def
        w1_def [symmetric] issue_and_confirm_def invoke_def dc_accepted confirm_def observedTelemetry_def w2_def [symmetric])
  then show ?thesis using fin [of "AnyDC (zero_dc\<lparr>dc_enabled := True\<rparr>)"]
    by (auto simp: Service_SetDC_def observed_result_def observedDC_def)
qed

theorem confirmed_by_telemetry_witness:
  "\<exists>w' d. Service_SetDC (demo_service (Live (scripted accepting))) (quiet Canceled) background True dc_reported_on =
     (w', Some (d, None)) \<and> dc_enabled d"
  using dc_confirmed confirmed_by_telemetry [of "demo_service (Live (scripted accepting))" "quiet Canceled" background True dc_reported_on]
  by blast

section \<open>A nil session pointer\<close>

text \<open>What happens when the resolver returns a nil pointer in an interface value, as the daemon's does
  while no device is connected: the check for a missing session does not see it, the call on the pointer
  panics instead of reporting a disconnected device, and the command that was begun stays pending for
  ever, because only this request could have finished it.\<close>

lemma nil_pointer_leaves_pending:
  assumes "ctx w = None" and "sv_resolve sv w = NilPointer" and "sv_newID sv w = Some i" and "i \<noteq> []"
    and "\<And>w. ctx w = None" and "supportsDC (snap_of w)"
  shows "\<exists>w' c. SetDCResult sv (quiet e) ctx on w = (w', Panicked) \<and> pending_at i w' = Some c \<and> cmd_operation c = ''dc_output''"
proof -
  define c where "c = new_command i ''dc_output'' (AnyOn on) (w_now w)"
  have "sn_device (snap_of (begin_command c w)) = sn_device (snap_of w)"
    by (simp add: begin_command_def snap_of_def BeginCommand_def Let_def mutateState_def apply_store_def)
  then have "supportsDC (snap_of (begin_command c w))"
    using assms(6) by (simp add: supportsDC_def app_with_def appCommand_def)
  then have "SetDCResult sv (quiet e) ctx on w = (begin_command c w, Panicked)"
    using assms by (simp add: SetDCResult_def reconcile_def quiet_def Let_def c_def [symmetric] issue_and_confirm_def invoke_def)
  then show ?thesis
    using begin_command_pending [of c w] by (auto simp: c_def new_command_def)
qed

lemma nil_pointer_leaves_pending_witness:
  "\<exists>w' c. SetDCResult (demo_service NilPointer) (quiet Canceled) background True demo_world = (w', Panicked) \<and>
     pending_at ''cmd_1'' w' = Some c \<and> cmd_operation c = ''dc_output''"
  using nil_pointer_leaves_pending [of background demo_world "demo_service NilPointer" "''cmd_1''" Canceled True] demo_supports
  by (simp add: background_def demo_service_def)

section \<open>The gate in front of the session\<close>

text \<open>The contract of an operation that validates its arguments (\<open>guard\<close>), resolves the session through
  \<^verbatim>\<open>sessionFor\<close> and then calls one method on it: what is refused is refused without any effect, in the order
  of the checks.\<close>

locale gated =
  fixes op :: "('w, 'a) op" and guard :: "ctl_error option" and sv :: "'w service" and ctx :: "'w ctx"
    and supported :: "snapshot \<Rightarrow> bool" and advanced :: bool and wrap :: "ble_error \<Rightarrow> ctl_error"
    and m :: "'w Transport \<Rightarrow> ('w, 'a) act"
  assumes op_def: "op = (case guard of Some e \<Rightarrow> refuse e | None \<Rightarrow> resolved (sessionFor sv ctx supported advanced) wrap m)"
    and guard_error: "guard \<noteq> Some NilDereference"
    and wrap_panic: "wrap e = NilDereference \<Longrightarrow> e = Panic"
    and method_safe: "sane t \<Longrightarrow> no_panic (m t)"
begin

lemma rejected: "guard = Some e \<Longrightarrow> op w = (w, Inl e)"
  by (simp add: op_def refuse_def)

lemma canceled: "guard = None \<Longrightarrow> ctx w = Some e \<Longrightarrow> op w = (w, Inl (ErrContext e))"
  by (simp add: op_def resolved_def sessionFor_def)

lemma unsupported:
  "guard = None \<Longrightarrow> ctx w = None \<Longrightarrow> \<not> supported (snap_of w) \<Longrightarrow> advanced \<or> \<not> is_nil (sv_resolve sv w) \<Longrightarrow>
   op w = (w, Inl ErrUnsupported)"
  by (auto simp: op_def resolved_def sessionFor_def)

lemma disabled:
  "guard = None \<Longrightarrow> ctx w = None \<Longrightarrow> supported (snap_of w) \<Longrightarrow> advanced \<Longrightarrow> \<not> sv_advanced sv w \<Longrightarrow>
   op w = (w, Inl ErrAdvancedDisabled)"
  by (simp add: op_def resolved_def sessionFor_def)

lemma not_advanced_no_effect: "advanced \<Longrightarrow> \<not> sv_advanced sv w \<Longrightarrow> \<exists>e. op w = (w, Inl e)"
  by (cases guard; cases "ctx w"; cases "supported (snap_of w)") (simp_all add: rejected canceled unsupported disabled)

lemma not_supported_no_effect: "\<not> supported (snap_of w) \<Longrightarrow> \<exists>e. op w = (w, Inl e)"
  by (cases guard; cases "ctx w") (auto simp: op_def refuse_def resolved_def sessionFor_def split: option.split)

lemma no_dereference: "proper_session (sv_resolve sv w) \<Longrightarrow> snd (op w) \<noteq> Inl NilDereference"
proof (cases guard)
  case None
  assume p: "proper_session (sv_resolve sv w)"
  show ?thesis
  proof (cases "sessionFor sv ctx supported advanced w")
    case (Inl e)
    then have "e \<noteq> NilDereference" by (auto simp: sessionFor_def split: option.splits if_splits)
    then show ?thesis by (simp add: op_def None resolved_def Inl)
  next
    case (Inr s)
    then have s: "s = sv_resolve sv w" "\<not> is_nil s" by (auto simp: sessionFor_def split: option.splits if_splits)
    then obtain t where t: "s = Live t" "sane t" using p by (cases "sv_resolve sv w") auto
    have "snd (m t w) \<noteq> Inl Panic" using method_safe [OF t(2)] by (simp add: no_panic_def)
    then show ?thesis
      using wrap_panic by (cases "m t w"; cases "snd (m t w)") (auto simp: op_def None resolved_def Inr t invoke_def)
  qed
qed (use guard_error in \<open>auto simp: rejected\<close>)

end

lemma wraps_panic: "wrapBLE e = NilDereference \<Longrightarrow> e = Panic" "timerError e = NilDereference \<Longrightarrow> e = Panic"
  by (auto simp: wrapBLE_def timerError_def split: ble_error.splits if_splits)

lemmas session_op_defs = GetUSBCLimit_def ListTimers_def GetTimer_def BypassThreshold_def BarrierFree_def
  SetRunningMode_def EnterOTA_def ExitOTA_def

lemmas gate_defs = Service_GetBypassThreshold_def Service_PutBypassThreshold_def Service_BarrierFree_def
  Service_SetBarrierFree_def Service_SetRunningMode_def Service_USBFirmwareVersion_def Service_SetBLEPIN_def
  Service_ReadClock_def Service_SyncClock_def Service_OTAInfo_def Service_EnterOTA_def Service_ExitOTA_def
  Service_GetUSBCLimit_def Service_PutUSBCLimit_def Service_DeleteUSBCLimit_def Service_ListTimers_def
  Service_GetTimer_def Service_AddTimer_def Service_PutTimer_def Service_DeleteTimer_def advancedCommand_def

interpretation g_threshold: gated "Service_GetBypassThreshold sv ctx" "None" sv ctx
  "app_with (\<lambda>i. f_dc_bypass (id_feature_set i))" True wrapBLE "BypassThreshold"
  for sv ctx
  by unfold_locales (auto simp: gate_defs session_op_defs split: option.split dest: wraps_panic)

interpretation g_put_threshold: gated "Service_PutBypassThreshold sv ctx volts" "if fle volts (Fin 0) \<or> flt (Fin 60) volts then Some (ThresholdOutside volts) else None" sv ctx
  "app_with (\<lambda>i. f_dc_bypass (id_feature_set i))" True wrapBLE "\<lambda>t. PutBypassThreshold t volts"
  for sv ctx volts
  by unfold_locales (auto simp: gate_defs session_op_defs split: option.split dest: wraps_panic)

interpretation g_barrier: gated "Service_BarrierFree sv ctx" "None" sv ctx
  "app_with (\<lambda>i. True)" True wrapBLE "BarrierFree"
  for sv ctx
  by unfold_locales (auto simp: gate_defs session_op_defs split: option.split dest: wraps_panic)

interpretation g_set_barrier: gated "Service_SetBarrierFree sv ctx on" "None" sv ctx
  "app_with (\<lambda>i. True)" True wrapBLE "\<lambda>t. SetBarrierFree t on"
  for sv ctx on
  by unfold_locales (auto simp: gate_defs session_op_defs split: option.split dest: wraps_panic)

interpretation g_mode: gated "Service_SetRunningMode sv ctx mode" "if mode > 1 then Some (RunningModeOutside mode) else None" sv ctx
  "app_with (\<lambda>i. f_factory_mode (id_feature_set i))" True wrapBLE "\<lambda>t. SetRunningMode t mode"
  for sv ctx mode
  by unfold_locales (auto simp: gate_defs session_op_defs split: option.split dest: wraps_panic)

interpretation g_firmware: gated "Service_USBFirmwareVersion sv ctx" "None" sv ctx
  "app_with (\<lambda>i. f_usb_port (id_feature_set i))" True wrapBLE "USBFirmwareVersion"
  for sv ctx
  by unfold_locales (auto simp: gate_defs session_op_defs split: option.split dest: wraps_panic)

interpretation g_pin: gated "Service_SetBLEPIN sv ctx pin" "if pin > 999999 then Some (PINOutside pin) else None" sv ctx
  "app_with (\<lambda>i. True)" True wrapBLE "\<lambda>t. SetBLEPIN t pin"
  for sv ctx pin
  by unfold_locales (auto simp: gate_defs session_op_defs split: option.split dest: wraps_panic)

interpretation g_clock: gated "Service_ReadClock sv ctx" "None" sv ctx
  "with_identity (\<lambda>i. id_mode i = ''app'')" True wrapBLE "ReadClock"
  for sv ctx
  by unfold_locales (auto simp: gate_defs session_op_defs split: option.split dest: wraps_panic)

interpretation g_sync: gated "Service_SyncClock sv ctx now" "None" sv ctx
  "with_identity (\<lambda>i. id_mode i = ''app'' \<and> has_characteristic i ''current_time'')" True wrapBLE "\<lambda>t. SyncClock t now 0"
  for sv ctx now
  by unfold_locales (auto simp: gate_defs session_op_defs split: option.split dest: wraps_panic)

interpretation g_ota: gated "Service_OTAInfo sv ctx" "None" sv ctx
  "with_identity (\<lambda>i. (id_mode i = ''app'' \<or> id_mode i = ''ota'') \<and> has_characteristic i ''ota'')" True wrapBLE "Session_OTAInfo"
  for sv ctx
  by unfold_locales (auto simp: gate_defs session_op_defs split: option.split dest: wraps_panic)

interpretation g_enter: gated "Service_EnterOTA sv ctx" "None" sv ctx
  "with_identity (\<lambda>i. id_mode i = ''app'' \<and> has_characteristic i ''ota'')" True wrapBLE "\<lambda>t. EnterOTA t (sv_await sv) ctx"
  for sv ctx
  by unfold_locales (auto simp: gate_defs session_op_defs split: option.split dest: wraps_panic)

interpretation g_exit: gated "Service_ExitOTA sv ctx" "None" sv ctx
  "with_identity (\<lambda>i. id_mode i = ''ota'' \<and> has_characteristic i ''ota'')" True wrapBLE "\<lambda>t. ExitOTA t (sv_await sv) ctx"
  for sv ctx
  by unfold_locales (auto simp: gate_defs session_op_defs split: option.split dest: wraps_panic)

interpretation g_limit: gated "Service_GetUSBCLimit sv ctx ty" "if ty < LimitGlobal \<or> ty > LimitRuntime then Some (LimitTypeInvalid ty) else None" sv ctx
  "supportsLimits" False wrapBLE "\<lambda>t. GetUSBCLimit t ty"
  for sv ctx ty
  by unfold_locales (auto simp: gate_defs session_op_defs split: option.split dest: wraps_panic)

interpretation g_put_limit: gated "Service_PutUSBCLimit sv ctx ty level" "if ty < LimitGlobal \<or> ty > LimitOutput then Some (LimitTypeInvalid ty)
    else map_option ErrProto (ValidateLimitWrite (word_of_int ty) level)" sv ctx
  "supportsLimits" False wrapBLE "\<lambda>t. PutUSBCLimit t ty level"
  for sv ctx ty level
  by unfold_locales (auto simp: gate_defs session_op_defs split: option.split dest: wraps_panic)

interpretation g_del_limit: gated "Service_DeleteUSBCLimit sv ctx ty" "if ty < LimitGlobal \<or> ty > LimitOutput then Some (LimitTypeInvalid ty) else None" sv ctx
  "supportsLimits" False wrapBLE "\<lambda>t. DeleteUSBCLimit t ty"
  for sv ctx ty
  by unfold_locales (auto simp: gate_defs session_op_defs split: option.split dest: wraps_panic)

interpretation g_list: gated "Service_ListTimers sv ctx" "None" sv ctx
  "supportsTimers" False wrapBLE "ListTimers"
  for sv ctx
  by unfold_locales (auto simp: gate_defs session_op_defs split: option.split dest: wraps_panic)

interpretation g_get_timer: gated "Service_GetTimer sv ctx i" "if i = 0xFF then Some TimerIDReserved else None" sv ctx
  "supportsTimers" False timerError "\<lambda>t. GetTimer t i"
  for sv ctx i
  by unfold_locales (auto simp: gate_defs session_op_defs split: option.split dest: wraps_panic)

interpretation g_add_timer: gated "Service_AddTimer sv ctx timer" "map_option ErrProto (ValidateTimerWrite timer)" sv ctx
  "supportsTimers" False wrapBLE "\<lambda>t. AddTimer t timer"
  for sv ctx timer
  by unfold_locales (auto simp: gate_defs session_op_defs split: option.split dest: wraps_panic)

interpretation g_put_timer: gated "Service_PutTimer sv ctx i timer" "if i = 0xFF then Some TimerIDReserved else map_option ErrProto (ValidateTimerWrite timer)" sv ctx
  "supportsTimers" False timerError "\<lambda>t. PutTimer t i timer"
  for sv ctx i timer
  by unfold_locales (auto simp: gate_defs session_op_defs split: option.split dest: wraps_panic)

interpretation g_del_timer: gated "Service_DeleteTimer sv ctx i" "if i = 0xFF then Some TimerIDReserved else None" sv ctx
  "supportsTimers" False timerError "\<lambda>t. DeleteTimer t i"
  for sv ctx i
  by unfold_locales (auto simp: gate_defs session_op_defs split: option.split dest: wraps_panic)

interpretation g_restart: gated
  "resolved (sessionFor sv ctx (\<lambda>sn. appCommand sn \<noteq> None) False) wrapBLE (\<lambda>t. Session_Restart t (sv_await sv))" None sv ctx
  "\<lambda>sn. appCommand sn \<noteq> None" False wrapBLE "\<lambda>t. Session_Restart t (sv_await sv)"
  for sv ctx
  by unfold_locales (auto simp: Session_Restart_def dest: wraps_panic)

interpretation g_shutdown: gated
  "resolved (sessionFor sv ctx (with_identity (\<lambda>i. id_mode i = ''app'' \<and> f_shutdown (id_feature_set i) \<and>
     has_characteristic i ''factory'')) False) wrapBLE (\<lambda>t. Session_Shutdown t (sv_await sv))" None sv ctx
  "with_identity (\<lambda>i. id_mode i = ''app'' \<and> f_shutdown (id_feature_set i) \<and> has_characteristic i ''factory'')" False wrapBLE
  "\<lambda>t. Session_Shutdown t (sv_await sv)"
  for sv ctx
  by unfold_locales (auto simp: Session_Shutdown_def dest: wraps_panic)

lemma then_ctx_no_dereference: "snd (m w) \<noteq> Inl NilDereference \<Longrightarrow> snd (then_ctx ctx m w) \<noteq> Inl NilDereference"
  by (cases "m w"; cases "snd (m w)") (auto simp: then_ctx_def split: option.split)

lemma then_ctx_no_effect: "m w = (w, Inl e) \<Longrightarrow> then_ctx ctx m w = (w, Inl e)"
  by (simp add: then_ctx_def)

text \<open>C13. Advanced operations are opt-in: while they are disabled in the configuration, none of the twelve
  advanced operations sends anything to the device, writes the store or touches the reconnect policy; each
  returns an error.\<close>

theorem advanced_operations_gated:
  assumes "\<not> sv_advanced sv w"
  shows "(\<exists>e. Service_GetBypassThreshold sv ctx w = (w, Inl e)) \<and> (\<exists>e. Service_PutBypassThreshold sv ctx volts w = (w, Inl e)) \<and>
    (\<exists>e. Service_BarrierFree sv ctx w = (w, Inl e)) \<and> (\<exists>e. Service_SetBarrierFree sv ctx on w = (w, Inl e)) \<and>
    (\<exists>e. Service_SetRunningMode sv ctx mode w = (w, Inl e)) \<and> (\<exists>e. Service_USBFirmwareVersion sv ctx w = (w, Inl e)) \<and>
    (\<exists>e. Service_SetBLEPIN sv ctx pin w = (w, Inl e)) \<and> (\<exists>e. Service_ReadClock sv ctx w = (w, Inl e)) \<and>
    (\<exists>e. Service_SyncClock sv ctx now w = (w, Inl e)) \<and> (\<exists>e. Service_OTAInfo sv ctx w = (w, Inl e)) \<and>
    (\<exists>e. Service_EnterOTA sv ctx w = (w, Inl e)) \<and> (\<exists>e. Service_ExitOTA sv ctx w = (w, Inl e))"
  using assms
  by (intro conjI g_threshold.not_advanced_no_effect g_put_threshold.not_advanced_no_effect g_barrier.not_advanced_no_effect
      g_set_barrier.not_advanced_no_effect g_mode.not_advanced_no_effect g_firmware.not_advanced_no_effect
      g_pin.not_advanced_no_effect g_clock.not_advanced_no_effect g_sync.not_advanced_no_effect
      g_ota.not_advanced_no_effect g_enter.not_advanced_no_effect g_exit.not_advanced_no_effect TrueI)

theorem advanced_operations_gated_witness:
  "\<exists>e. Service_EnterOTA (demo_service (Live (scripted id))) background demo_world = (demo_world, Inl e)"
  using advanced_operations_gated [of "demo_service (Live (scripted id))" demo_world background]
  by (simp add: demo_service_def)

text \<open>C14. Nothing is sent to a device that does not announce the capability: without USB-C power limits, DC
  schedules or the characteristics of the shutdown and restart commands in the cached identity, the limit,
  timer, restart and shutdown operations return an error and have no effect.\<close>

theorem capabilities_gated:
  "(\<not> supportsLimits (snap_of w) \<longrightarrow>
      (\<exists>e. Service_GetUSBCLimit sv ctx ty w = (w, Inl e)) \<and> (\<exists>e. Service_PutUSBCLimit sv ctx ty level w = (w, Inl e)) \<and>
      (\<exists>e. Service_DeleteUSBCLimit sv ctx ty w = (w, Inl e))) \<and>
   (\<not> supportsTimers (snap_of w) \<longrightarrow>
      (\<exists>e. Service_ListTimers sv ctx w = (w, Inl e)) \<and> (\<exists>e. Service_GetTimer sv ctx i w = (w, Inl e)) \<and>
      (\<exists>e. Service_AddTimer sv ctx timer w = (w, Inl e)) \<and> (\<exists>e. Service_PutTimer sv ctx i timer w = (w, Inl e)) \<and>
      (\<exists>e. Service_DeleteTimer sv ctx i w = (w, Inl e))) \<and>
   (appCommand (snap_of w) = None \<longrightarrow> (\<exists>e. Service_Restart sv ctx w = (w, Inl e))) \<and>
   (\<not> with_identity (\<lambda>i. id_mode i = ''app'' \<and> f_shutdown (id_feature_set i) \<and> has_characteristic i ''factory'') (snap_of w) \<longrightarrow>
      (\<exists>e. Service_Shutdown sv ctx w = (w, Inl e)))"
proof (intro conjI impI)
  show "\<exists>e. Service_Restart sv ctx w = (w, Inl e)" if "appCommand (snap_of w) = None"
    using g_restart.not_supported_no_effect [of w sv ctx] that unfolding Service_Restart_def
    by (auto intro: then_ctx_no_effect)
  show "\<exists>e. Service_Shutdown sv ctx w = (w, Inl e)"
    if "\<not> with_identity (\<lambda>i. id_mode i = ''app'' \<and> f_shutdown (id_feature_set i) \<and> has_characteristic i ''factory'') (snap_of w)"
    using g_shutdown.not_supported_no_effect [of w sv ctx] that unfolding Service_Shutdown_def
    by (auto intro: then_ctx_no_effect)
qed (simp_all add: g_limit.not_supported_no_effect g_put_limit.not_supported_no_effect g_del_limit.not_supported_no_effect
    g_list.not_supported_no_effect g_get_timer.not_supported_no_effect g_add_timer.not_supported_no_effect
    g_put_timer.not_supported_no_effect g_del_timer.not_supported_no_effect)

theorem capabilities_gated_witness:
  "\<exists>e. Service_Shutdown (demo_service (Live (scripted id))) background world0 = (world0, Inl e)"
  using capabilities_gated [of world0 "demo_service (Live (scripted id))" background]
  by (simp add: with_identity_def snap_of_def world0_def NewStore_def zero_snapshot_def)

text \<open>The service is total: with a resolver that returns either no session or a live one, no operation of
  the service panics, whatever the device replies; the result is a value or an error.\<close>

theorem service_never_panics:
  assumes "proper_session (sv_resolve sv w)"
  shows "snd (Service_GetBypassThreshold sv ctx w) \<noteq> Inl NilDereference \<and> snd (Service_PutBypassThreshold sv ctx volts w) \<noteq> Inl NilDereference \<and>
    snd (Service_BarrierFree sv ctx w) \<noteq> Inl NilDereference \<and> snd (Service_SetBarrierFree sv ctx on w) \<noteq> Inl NilDereference \<and>
    snd (Service_SetRunningMode sv ctx mode w) \<noteq> Inl NilDereference \<and> snd (Service_USBFirmwareVersion sv ctx w) \<noteq> Inl NilDereference \<and>
    snd (Service_SetBLEPIN sv ctx pin w) \<noteq> Inl NilDereference \<and> snd (Service_ReadClock sv ctx w) \<noteq> Inl NilDereference \<and>
    snd (Service_SyncClock sv ctx now w) \<noteq> Inl NilDereference \<and> snd (Service_OTAInfo sv ctx w) \<noteq> Inl NilDereference \<and>
    snd (Service_EnterOTA sv ctx w) \<noteq> Inl NilDereference \<and> snd (Service_ExitOTA sv ctx w) \<noteq> Inl NilDereference \<and>
    snd (Service_GetUSBCLimit sv ctx ty w) \<noteq> Inl NilDereference \<and> snd (Service_PutUSBCLimit sv ctx ty level w) \<noteq> Inl NilDereference \<and>
    snd (Service_DeleteUSBCLimit sv ctx ty w) \<noteq> Inl NilDereference \<and> snd (Service_ListTimers sv ctx w) \<noteq> Inl NilDereference \<and>
    snd (Service_GetTimer sv ctx i w) \<noteq> Inl NilDereference \<and> snd (Service_AddTimer sv ctx timer w) \<noteq> Inl NilDereference \<and>
    snd (Service_PutTimer sv ctx i timer w) \<noteq> Inl NilDereference \<and> snd (Service_DeleteTimer sv ctx i w) \<noteq> Inl NilDereference \<and>
    snd (Service_Restart sv ctx w) \<noteq> Inl NilDereference \<and> snd (Service_Shutdown sv ctx w) \<noteq> Inl NilDereference"
  using assms unfolding Service_Restart_def Service_Shutdown_def
  by (intro conjI then_ctx_no_dereference g_threshold.no_dereference g_put_threshold.no_dereference g_barrier.no_dereference
      g_set_barrier.no_dereference g_mode.no_dereference g_firmware.no_dereference g_pin.no_dereference g_clock.no_dereference
      g_sync.no_dereference g_ota.no_dereference g_enter.no_dereference g_exit.no_dereference g_limit.no_dereference
      g_put_limit.no_dereference g_del_limit.no_dereference g_list.no_dereference g_get_timer.no_dereference
      g_add_timer.no_dereference g_put_timer.no_dereference g_del_timer.no_dereference g_restart.no_dereference
      g_shutdown.no_dereference)

theorem service_never_panics_witness:
  "snd (Service_ListTimers (demo_service (Live (scripted (\<lambda>_. [])))) background demo_world) \<noteq> Inl NilDereference"
  using service_never_panics [of "demo_service (Live (scripted (\<lambda>_. [])))" demo_world background]
  by (simp add: demo_service_def sane_scripted)

end
