(* ===== verification/Uci.thy ===== *)
theory Uci
  imports Prelude "HOL-Library.Multiset"
begin

text \<open>
  \<^verbatim>\<open>internal/config/uci.go\<close>: the reader and writer of the UCI configuration format. A string is the list
  of its bytes. Options and lists of a section are association lists in insertion order; the code only
  reads them by key or through \<^verbatim>\<open>sortedKeys\<close>.
\<close>

record UCISection =
  us_type :: string
  us_name :: string
  us_options :: "(string \<times> string) list"
  us_lists :: "(string \<times> string list) list"

type_synonym UCIDoc = "UCISection list"

record uciCommand =
  uc_line :: nat
  uc_fields :: "string list"

datatype uci_error =
    UnterminatedEscape nat | UnterminatedQuote nat char
  | MalformedConfig nat | OutsideSection nat string | Malformed nat string | UnknownKeyword nat string

abbreviation (input) "NL \<equiv> CHR 0x0A"
abbreviation (input) "TAB \<equiv> CHR 0x09"
abbreviation (input) "CR \<equiv> CHR 0x0D"
abbreviation (input) "SQ \<equiv> CHR 0x27"
abbreviation (input) "DQ \<equiv> CHR 0x22"
abbreviation (input) "BS \<equiv> CHR 0x5C"

section \<open>Tokenizer\<close>

text \<open>The local variables of \<^verbatim>\<open>tokenizeUCI\<close>; the position in the source is the list still to be read.\<close>

record tok_state =
  t_commands :: "uciCommand list"
  t_fields :: "string list"
  t_token :: string
  t_line :: nat
  t_command_line :: nat
  t_in_token :: bool

definition tok_init :: tok_state where
  "tok_init = \<lparr>t_commands = [], t_fields = [], t_token = [], t_line = 1, t_command_line = 1,
     t_in_token = False\<rparr>"

definition finishToken :: "tok_state \<Rightarrow> tok_state" where
  "finishToken t = (if t_in_token t
     then t\<lparr>t_fields := t_fields t @ [t_token t], t_token := [], t_in_token := False\<rparr> else t)"

definition finishCommand :: "tok_state \<Rightarrow> tok_state" where
  "finishCommand t = (let t = finishToken t in if t_fields t \<noteq> []
     then t\<lparr>t_commands := t_commands t @ [\<lparr>uc_line = t_command_line t, uc_fields = t_fields t\<rparr>],
            t_fields := []\<rparr> else t)"

definition put :: "char \<Rightarrow> tok_state \<Rightarrow> tok_state" where
  "put c t = t\<lparr>t_token := t_token t @ [c]\<rparr>"

definition bump :: "tok_state \<Rightarrow> tok_state" where
  "bump t = t\<lparr>t_line := t_line t + 1\<rparr>"

definition end_line :: "char \<Rightarrow> tok_state \<Rightarrow> tok_state" where
  "end_line c t = (let t = finishCommand t; t = (if c = NL then bump t else t)
     in t\<lparr>t_command_line := t_line t\<rparr>)"

definition enter :: "tok_state \<Rightarrow> tok_state" where
  "enter t = t\<lparr>t_in_token := True\<rparr>"

text \<open>The main loop \<open>tok\<close> and its inner loop \<open>quoted\<close> over a quoted fragment.\<close>

function (sequential) tok :: "string \<Rightarrow> tok_state \<Rightarrow> uci_error + uciCommand list"
  and quoted :: "char \<Rightarrow> string \<Rightarrow> tok_state \<Rightarrow> uci_error + uciCommand list" where
  "tok [] t = Inr (t_commands (finishCommand t))"
| "tok (c # cs) t =
     (if c = CHR '' '' \<or> c = TAB \<or> c = CR then tok cs (finishToken t)
      else if c = NL \<or> c = CHR '';'' then tok cs (end_line c t)
      else if c = CHR ''#'' then tok (dropWhile (\<lambda>x. x \<noteq> NL) cs) (finishCommand t)
      else if c = SQ \<or> c = DQ then quoted c cs (enter t)
      else if c = BS then
        (case cs of
           [] \<Rightarrow> Inl (UnterminatedEscape (t_line t))
         | d # ds \<Rightarrow> if d = NL then tok ds (bump (enter t)) else tok ds (put d (enter t)))
      else tok cs (put c (enter t)))"
| "quoted q [] t = Inl (UnterminatedQuote (t_command_line t) q)"
| "quoted q (c # cs) t =
     (if c = q then tok cs t
      else if c = BS \<and> q = DQ then
        (case cs of
           [] \<Rightarrow> Inl (UnterminatedEscape (t_line t))
         | d # ds \<Rightarrow> if d = NL then quoted q ds (bump t) else quoted q ds (put d t))
      else quoted q cs (if c = NL then bump (put c t) else put c t))"
  by pat_completeness auto
termination
  by (relation "measure (\<lambda>x. case x of Inl (cs, t) \<Rightarrow> length cs | Inr (q, cs, t) \<Rightarrow> length cs)")
    (auto simp: less_Suc_eq_le length_dropWhile_le)

definition tokenizeUCI :: "string \<Rightarrow> uci_error + uciCommand list" where
  "tokenizeUCI src = tok src tok_init"

section \<open>Parser\<close>

definition newSection :: "string \<Rightarrow> string \<Rightarrow> UCISection" where
  "newSection typ name = \<lparr>us_type = typ, us_name = name, us_options = [], us_lists = []\<rparr>"

definition get_list :: "UCISection \<Rightarrow> string \<Rightarrow> string list" where
  "get_list s k = (case map_of (us_lists s) k of None \<Rightarrow> [] | Some vs \<Rightarrow> vs)"

text \<open>The loop over the commands; the sections found so far are in reverse order, so that the current
  section is the head. The outer option is the panic of \<^verbatim>\<open>fields[0]\<close> on an empty command.\<close>

fun parse_commands :: "uciCommand list \<Rightarrow> UCISection list \<Rightarrow> (uci_error + UCIDoc) option" where
  "parse_commands [] acc = Some (Inr (rev acc))"
| "parse_commands (c # cs) acc =
     (case uc_fields c of
        [] \<Rightarrow> None
      | kw # args \<Rightarrow>
          if kw = ''config'' then
            (case args of
               [typ] \<Rightarrow> parse_commands cs (newSection typ [] # acc)
             | [typ, name] \<Rightarrow> parse_commands cs (newSection typ name # acc)
             | _ \<Rightarrow> Some (Inl (MalformedConfig (uc_line c))))
          else if kw = ''option'' \<or> kw = ''list'' then
            (case acc of
               [] \<Rightarrow> Some (Inl (OutsideSection (uc_line c) kw))
             | cur # done \<Rightarrow>
                 (case args of
                    [key, val] \<Rightarrow>
                      if kw = ''option''
                      then parse_commands cs (cur\<lparr>us_options := AList.update key val (us_options cur)\<rparr> # done)
                      else parse_commands cs
                        (cur\<lparr>us_lists := AList.update key (get_list cur key @ [val]) (us_lists cur)\<rparr> # done)
                  | _ \<Rightarrow> Some (Inl (Malformed (uc_line c) kw))))
          else Some (Inl (UnknownKeyword (uc_line c) kw)))"

definition ParseUCI :: "string \<Rightarrow> (uci_error + UCIDoc) option" where
  "ParseUCI src = (case tokenizeUCI src of Inl e \<Rightarrow> Some (Inl e) | Inr cs \<Rightarrow> parse_commands cs [])"

section \<open>Writer\<close>

fun uciEscape :: "string \<Rightarrow> string" where
  "uciEscape [] = []"
| "uciEscape (c # cs) = (if c = SQ then [SQ, BS, SQ, SQ] else [c]) @ uciEscape cs"

text \<open>The exchange sort of \<^verbatim>\<open>sortedKeys\<close>: one pass of the inner loop brings the least of the remaining
  keys to position \<open>i\<close>.\<close>

fun exchange_pass :: "string \<Rightarrow> string list \<Rightarrow> string \<times> string list" where
  "exchange_pass x [] = (x, [])"
| "exchange_pass x (y # ys) =
     (if y < x then (let (m, r) = exchange_pass y ys in (m, x # r))
      else (let (m, r) = exchange_pass x ys in (m, y # r)))"

lemma exchange_pass_length: "length (snd (exchange_pass x ys)) = length ys"
  by (induction ys arbitrary: x) (simp_all add: case_prod_beta Let_def)

function exchange_sort :: "string list \<Rightarrow> string list" where
  "exchange_sort [] = []"
| "exchange_sort (x # xs) = (let (m, r) = exchange_pass x xs in m # exchange_sort r)"
  by pat_completeness auto
termination
proof (relation "measure length")
  fix x xs m r and p :: "string \<times> string list"
  assume "p = exchange_pass x xs" "(m, r) = p"
  then have "length r = length xs" using exchange_pass_length [of x xs] by (metis snd_conv)
  then show "(r, x # xs) \<in> measure length" by simp
qed simp

definition sortedKeys :: "(string \<times> 'v) list \<Rightarrow> string list" where
  "sortedKeys m = exchange_sort (map fst m)"

definition quote_val :: "string \<Rightarrow> string" where
  "quote_val v = [SQ] @ uciEscape v @ [SQ]"

definition section_line :: "UCISection \<Rightarrow> string" where
  "section_line s = ''config '' @ us_type s @ '' '' @ quote_val (us_name s) @ [NL]"

definition option_line :: "string \<Rightarrow> string \<Rightarrow> string" where
  "option_line k v = [TAB] @ ''option '' @ k @ '' '' @ quote_val v @ [NL]"

definition list_line :: "string \<Rightarrow> string \<Rightarrow> string" where
  "list_line k v = [TAB] @ ''list '' @ k @ '' '' @ quote_val v @ [NL]"

definition serialize_section :: "UCISection \<Rightarrow> string" where
  "serialize_section s = section_line s @
     concat (map (\<lambda>k. option_line k (the (map_of (us_options s) k))) (sortedKeys (us_options s))) @
     concat (map (\<lambda>k. concat (map (list_line k) (get_list s k))) (sortedKeys (us_lists s))) @ [NL]"

definition Serialize :: "UCIDoc \<Rightarrow> string" where
  "Serialize d = concat (map serialize_section d)"

definition Find :: "UCIDoc \<Rightarrow> string \<Rightarrow> string \<Rightarrow> UCISection option" where
  "Find d typ name = find (\<lambda>s. us_type s = typ \<and> us_name s = name) d"

section \<open>The sort\<close>

lemma exchange_pass_props:
  "(m, r) = exchange_pass x ys \<Longrightarrow> mset (m # r) = mset (x # ys) \<and> (\<forall>y \<in> set (x # ys). m \<le> y)"
proof (induction ys arbitrary: x m r)
  case (Cons y ys)
  show ?case
  proof (cases "y < x")
    case True
    then obtain r' where r: "(m, r') = exchange_pass y ys" "r = x # r'"
      using Cons.prems by (auto split: prod.splits)
    from Cons.IH [OF r(1)] True r(2) show ?thesis by (auto simp: add_mset_commute)
  next
    case False
    then obtain r' where r: "(m, r') = exchange_pass x ys" "r = y # r'"
      using Cons.prems by (auto split: prod.splits)
    have "m \<le> x" using Cons.IH [OF r(1)] by simp
    moreover have "x \<le> y" using False by simp
    ultimately have "m \<le> y" by (rule order.trans)
    with Cons.IH [OF r(1)] r(2) show ?thesis by (auto simp: add_mset_commute)
  qed
qed simp

lemma exchange_sort_props: "mset (exchange_sort xs) = mset xs \<and> sorted (exchange_sort xs)"
proof (induction xs rule: exchange_sort.induct)
  case (2 x xs)
  obtain m r where p: "exchange_pass x xs = (m, r)" by force
  have IH: "mset (exchange_sort r) = mset r" "sorted (exchange_sort r)"
    using 2 [of "(m, r)" m r] p by simp_all
  have pp: "mset (m # r) = mset (x # xs)" "\<forall>y \<in> set (x # xs). m \<le> y"
    using exchange_pass_props [of m r x xs] p by simp_all
  have "set (exchange_sort r) \<subseteq> set (x # xs)"
    using IH(1) pp(1) by (metis mset_eq_setD set_subset_Cons)
  then have "\<forall>y \<in> set (exchange_sort r). m \<le> y" using pp(2) by blast
  then show ?case using p pp(1) IH by simp
qed simp

lemma exchange_sort_sort: "exchange_sort xs = sort xs"
  using exchange_sort_props [of xs] by (metis properties_for_sort)

lemma sortedKeys_sort: "sortedKeys m = sort (map fst m)"
  by (simp add: sortedKeys_def exchange_sort_sort)

section \<open>Commands are never empty\<close>

definition tok_ok :: "tok_state \<Rightarrow> bool" where
  "tok_ok t \<longleftrightarrow> (\<forall>c \<in> set (t_commands t). uc_fields c \<noteq> [])"

lemma tok_ok_ops:
  "tok_ok t \<Longrightarrow> tok_ok (finishToken t)" "tok_ok t \<Longrightarrow> tok_ok (finishCommand t)"
  "tok_ok t \<Longrightarrow> tok_ok (put c t)" "tok_ok t \<Longrightarrow> tok_ok (bump t)" "tok_ok t \<Longrightarrow> tok_ok (enter t)"
  "tok_ok t \<Longrightarrow> tok_ok (end_line c t)"
  by (auto simp: tok_ok_def finishToken_def finishCommand_def put_def bump_def enter_def end_line_def Let_def)

fun no_empty :: "uci_error + uciCommand list \<Rightarrow> bool" where
  "no_empty (Inl e) = True"
| "no_empty (Inr cs) = list_all (\<lambda>c. uc_fields c \<noteq> []) cs"

lemma tok_no_empty: "tok_ok t \<Longrightarrow> no_empty (tok cs t)" "tok_ok t \<Longrightarrow> no_empty (quoted q cs t)"
proof (induction cs t and q cs t rule: tok_quoted.induct)
  case (1 t)
  then show ?case using tok_ok_ops(2) [of t] by (simp add: tok_ok_def list_all_iff)
next
  case (2 c cs t)
  then show ?case by (simp add: tok_ok_ops split: list.split)
next
  case (4 q c cs t)
  then show ?case by (simp add: tok_ok_ops split: list.split)
qed simp

lemma parse_commands_total:
  "\<forall>c \<in> set cs. uc_fields c \<noteq> [] \<Longrightarrow> parse_commands cs acc \<noteq> None"
proof (induction cs arbitrary: acc)
  case (Cons c cs)
  then show ?case by (auto split: list.split)
qed simp

lemma ParseUCI_total: "ParseUCI src \<noteq> None"
proof (cases "tokenizeUCI src")
  case (Inr cs)
  then have "\<forall>c \<in> set cs. uc_fields c \<noteq> []"
    using tok_no_empty(1) [of tok_init src] by (simp add: tokenizeUCI_def tok_ok_def tok_init_def list_all_iff)
  then show ?thesis using Inr parse_commands_total by (simp add: ParseUCI_def)
qed (simp add: ParseUCI_def)

section \<open>Reading back what was written\<close>

definition plain :: "char \<Rightarrow> bool" where
  "plain c \<longleftrightarrow> c \<notin> {CHR '' '', TAB, CR, NL, CHR '';'', CHR ''#'', SQ, DQ, BS}"

definition word :: "string \<Rightarrow> bool" where
  "word w \<longleftrightarrow> w \<noteq> [] \<and> list_all plain w"

definition idle :: "tok_state \<Rightarrow> bool" where
  "idle t \<longleftrightarrow> t_fields t = [] \<and> t_token t = [] \<and> \<not> t_in_token t"

lemma enter_id: "t_in_token t \<Longrightarrow> enter t = t"
  by (simp add: enter_def)

lemma put_in_token [simp]: "t_in_token (put c t) = t_in_token t" "t_in_token (bump t) = t_in_token t"
  by (simp_all add: put_def bump_def)

lemma swap_in_token: "t\<lparr>t_token := a, t_in_token := b\<rparr> = t\<lparr>t_in_token := b, t_token := a\<rparr>"
  by simp

lemma tok_word:
  "list_all plain w \<Longrightarrow> w \<noteq> [] \<Longrightarrow>
     tok (w @ rest) t = tok rest (t\<lparr>t_token := t_token t @ w, t_in_token := True\<rparr>)"
proof (induction w arbitrary: t)
  case (Cons c w)
  have step: "tok ((c # w) @ rest) t = tok (w @ rest) (put c (enter t))"
    using Cons.prems(1) by (auto simp: plain_def)
  show ?case
  proof (cases "w = []")
    case True
    then show ?thesis using step by (simp add: put_def enter_def swap_in_token del: tok.simps)
  next
    case False
    then show ?thesis using Cons step by (simp add: put_def enter_def swap_in_token del: tok.simps)
  qed
qed simp

lemma quoted_escape:
  "t_in_token t \<Longrightarrow> quoted SQ (uciEscape v @ rest) t =
     quoted SQ rest (t\<lparr>t_token := t_token t @ v, t_line := t_line t + count_list v NL\<rparr>)"
proof (induction v arbitrary: t)
  case (Cons c v)
  have "quoted SQ (uciEscape (c # v) @ rest) t =
      quoted SQ (uciEscape v @ rest) (if c = NL then bump (put c t) else put c t)"
    using Cons.prems by (auto simp: enter_id)
  then show ?case using Cons by (auto simp: put_def bump_def)
qed simp

lemma tok_space:
  "tok (CHR '' '' # cs) t = tok cs (finishToken t)" "tok (TAB # cs) t = tok cs (finishToken t)"
  "tok (NL # cs) t = tok cs (end_line NL t)" "tok (SQ # cs) t = quoted SQ cs (enter t)"
  by simp_all

definition add_command :: "string list \<Rightarrow> nat \<Rightarrow> tok_state \<Rightarrow> tok_state" where
  "add_command fs l t = t\<lparr>t_commands := t_commands t @ [\<lparr>uc_line = t_command_line t, uc_fields = fs\<rparr>],
     t_line := l, t_command_line := l\<rparr>"

lemma tok_line:
  assumes "idle t" "word kw" "word k"
  shows "\<exists>l. tok (kw @ '' '' @ k @ '' '' @ quote_val v @ [NL] @ rest) t = tok rest (add_command [kw, k, v] l t)"
proof -
  let ?t1 = "t\<lparr>t_fields := [kw]\<rparr>"
  let ?t2 = "t\<lparr>t_fields := [kw, k]\<rparr>"
  let ?l = "t_line t + count_list v NL"
  have w: "list_all plain kw" "kw \<noteq> []" "list_all plain k" "k \<noteq> []"
    using assms by (simp_all add: word_def)
  have f1: "finishToken (t\<lparr>t_token := t_token t @ kw, t_in_token := True\<rparr>) = ?t1"
    using assms(1) by (simp add: finishToken_def idle_def)
  have f2: "finishToken (?t1\<lparr>t_token := t_token ?t1 @ k, t_in_token := True\<rparr>) = ?t2"
    using assms(1) by (simp add: finishToken_def idle_def)
  have "tok (kw @ '' '' @ k @ '' '' @ quote_val v @ [NL] @ rest) t =
      tok (k @ '' '' @ quote_val v @ [NL] @ rest) ?t1"
    using tok_word [OF w(1,2)] by (simp only: append_Cons append_Nil tok_space f1)
  also have "\<dots> = tok (quote_val v @ [NL] @ rest) ?t2"
    using tok_word [OF w(3,4)] by (simp only: append_Cons append_Nil tok_space f2)
  also have "\<dots> = tok (NL # rest) (?t2\<lparr>t_token := v, t_in_token := True, t_line := ?l\<rparr>)"
    using assms(1) quoted_escape [of "enter ?t2" v "SQ # NL # rest"]
    by (simp add: quote_val_def tok_space(4) enter_def idle_def swap_in_token del: tok.simps)
  also have "\<dots> = tok rest (add_command [kw, k, v] (?l + 1) t)"
  proof -
    have "end_line NL (?t2\<lparr>t_token := v, t_in_token := True, t_line := ?l\<rparr>) = add_command [kw, k, v] (?l + 1) t"
      using assms(1)
      by (simp add: end_line_def finishCommand_def finishToken_def bump_def Let_def idle_def add_command_def)
    then show ?thesis by (simp only: tok_space)
  qed
  finally show ?thesis by blast
qed

lemma idle_add_command [simp]: "idle (add_command fs l t) = idle t"
  by (simp add: idle_def add_command_def)

text \<open>\<open>reads txt fss\<close>: in an idle state the text \<open>txt\<close> is read as commands with the fields \<open>fss\<close>.\<close>

definition reads :: "string \<Rightarrow> string list list \<Rightarrow> bool" where
  "reads txt fss \<longleftrightarrow> (\<forall>t rest. idle t \<longrightarrow> (\<exists>t'. idle t' \<and> tok (txt @ rest) t = tok rest t' \<and>
     map uc_fields (t_commands t') = map uc_fields (t_commands t) @ fss))"

lemma reads_append: "reads x fx \<Longrightarrow> reads y fy \<Longrightarrow> reads (x @ y) (fx @ fy)"
  unfolding reads_def
proof (intro allI impI)
  fix t rest
  assume x: "\<forall>t rest. idle t \<longrightarrow> (\<exists>t'. idle t' \<and> tok (x @ rest) t = tok rest t' \<and>
      map uc_fields (t_commands t') = map uc_fields (t_commands t) @ fx)"
    and y: "\<forall>t rest. idle t \<longrightarrow> (\<exists>t'. idle t' \<and> tok (y @ rest) t = tok rest t' \<and>
      map uc_fields (t_commands t') = map uc_fields (t_commands t) @ fy)" and t: "idle t"
  obtain t1 where t1: "idle t1" "tok (x @ y @ rest) t = tok (y @ rest) t1"
    "map uc_fields (t_commands t1) = map uc_fields (t_commands t) @ fx" using x t by blast
  obtain t2 where "idle t2" "tok (y @ rest) t1 = tok rest t2"
    "map uc_fields (t_commands t2) = map uc_fields (t_commands t1) @ fy" using y t1(1) by blast
  with t1 show "\<exists>t'. idle t' \<and> tok ((x @ y) @ rest) t = tok rest t' \<and>
      map uc_fields (t_commands t') = map uc_fields (t_commands t) @ fx @ fy"
    by (intro exI [of _ t2]) (simp only: append_assoc simp_thms)
qed

lemma reads_Nil: "reads [] []"
  by (auto simp: reads_def)

lemma reads_concat: "(\<And>x. x \<in> set xs \<Longrightarrow> reads (f x) (g x)) \<Longrightarrow> reads (concat (map f xs)) (concat (map g xs))"
  by (induction xs) (auto intro: reads_append reads_Nil)

lemma reads_line: "word kw \<Longrightarrow> word k \<Longrightarrow> reads (kw @ '' '' @ k @ '' '' @ quote_val v @ [NL]) [[kw, k, v]]"
  unfolding reads_def
proof (intro allI impI)
  fix t rest assume a: "word kw" "word k" "idle t"
  obtain l where "tok (kw @ '' '' @ k @ '' '' @ quote_val v @ [NL] @ rest) t = tok rest (add_command [kw, k, v] l t)"
    using tok_line [OF a(3,1,2)] by blast
  then show "\<exists>t'. idle t' \<and> tok ((kw @ '' '' @ k @ '' '' @ quote_val v @ [NL]) @ rest) t = tok rest t' \<and>
      map uc_fields (t_commands t') = map uc_fields (t_commands t) @ [[kw, k, v]]"
    using a(3) by (intro exI [of _ "add_command [kw, k, v] l t"]) (simp add: add_command_def idle_def)
qed

lemma reads_blank: "reads [NL] []" "reads [TAB] []"
proof -
  have nl: "idle t \<Longrightarrow> end_line NL t = t\<lparr>t_line := Suc (t_line t), t_command_line := Suc (t_line t)\<rparr>"
    and tab: "idle t \<Longrightarrow> finishToken t = t" for t
    by (simp_all add: end_line_def finishCommand_def finishToken_def bump_def Let_def idle_def)
  show "reads [NL] []"
    unfolding reads_def
  proof (intro allI impI)
    fix t rest assume "idle t"
    then show "\<exists>t'. idle t' \<and> tok ([NL] @ rest) t = tok rest t' \<and>
        map uc_fields (t_commands t') = map uc_fields (t_commands t) @ []"
      by (intro exI [of _ "end_line NL t"]) (simp add: nl, simp add: idle_def)
  qed
  show "reads [TAB] []"
    unfolding reads_def by (auto simp: tab)
qed

lemma reads_tab: "reads x fx \<Longrightarrow> reads ([TAB] @ x) fx"
  using reads_append [OF reads_blank(2)] by simp

lemma keyword_word: "word ''config''" "word ''option''" "word ''list''"
  by (simp_all add: word_def plain_def)

text \<open>A section that the writer can represent: its type and its keys are single unquoted words, and keys
  are distinct, as they are in a Go map.\<close>

definition wf_section :: "UCISection \<Rightarrow> bool" where
  "wf_section s \<longleftrightarrow> word (us_type s) \<and> distinct (map fst (us_options s)) \<and> distinct (map fst (us_lists s)) \<and>
     list_all word (map fst (us_options s)) \<and> list_all word (map fst (us_lists s))"

definition option_fields :: "UCISection \<Rightarrow> string \<Rightarrow> string list" where
  "option_fields s k = [''option'', k, the (map_of (us_options s) k)]"

definition list_fields :: "UCISection \<Rightarrow> string \<Rightarrow> string list list" where
  "list_fields s k = map (\<lambda>v. [''list'', k, v]) (get_list s k)"

definition section_fields :: "UCISection \<Rightarrow> string list list" where
  "section_fields s = [''config'', us_type s, us_name s] # map (option_fields s) (sortedKeys (us_options s)) @
     concat (map (list_fields s) (sortedKeys (us_lists s)))"

lemma concat_singletons: "concat (map (\<lambda>x. [f x]) xs) = map f xs"
  by (induction xs) auto

lemma reads_option_line: "word k \<Longrightarrow> reads (option_line k v) [[''option'', k, v]]"
  using reads_tab [OF reads_line [OF keyword_word(2), of k v]] by (simp add: option_line_def)

lemma reads_list_line: "word k \<Longrightarrow> reads (list_line k v) [[''list'', k, v]]"
  using reads_tab [OF reads_line [OF keyword_word(3), of k v]] by (simp add: list_line_def)

lemma reads_section: "wf_section s \<Longrightarrow> reads (serialize_section s) (section_fields s)"
proof -
  assume wf: "wf_section s"
  have keys: "word k" if "k \<in> set (sortedKeys (us_options s)) \<or> k \<in> set (sortedKeys (us_lists s))" for k
    using that wf by (auto simp: sortedKeys_sort wf_section_def list_all_iff)
  have "reads (section_line s) [[''config'', us_type s, us_name s]]"
    using wf reads_line [OF keyword_word(1), of "us_type s" "us_name s"]
    by (simp add: section_line_def wf_section_def)
  moreover have "reads (concat (map (\<lambda>k. option_line k (the (map_of (us_options s) k))) (sortedKeys (us_options s))))
      (concat (map (\<lambda>k. [option_fields s k]) (sortedKeys (us_options s))))"
    unfolding option_fields_def using keys by (intro reads_concat reads_option_line) simp
  moreover have "reads (concat (map (list_line k) (get_list s k))) (list_fields s k)"
      if "k \<in> set (sortedKeys (us_lists s))" for k
  proof -
    have "reads (concat (map (list_line k) (get_list s k))) (concat (map (\<lambda>v. [[''list'', k, v]]) (get_list s k)))"
      using keys that by (intro reads_concat reads_list_line) simp
    then show ?thesis by (simp add: list_fields_def concat_singletons)
  qed
  then have "reads (concat (map (\<lambda>k. concat (map (list_line k) (get_list s k))) (sortedKeys (us_lists s))))
      (concat (map (list_fields s) (sortedKeys (us_lists s))))"
    by (rule reads_concat)
  ultimately have "reads (serialize_section s) ([[''config'', us_type s, us_name s]] @
      concat (map (\<lambda>k. [option_fields s k]) (sortedKeys (us_options s))) @
      concat (map (list_fields s) (sortedKeys (us_lists s))) @ [])"
    unfolding serialize_section_def by (intro reads_append reads_blank)
  then show ?thesis by (simp add: section_fields_def concat_singletons)
qed

lemma tokenize_Serialize:
  assumes "\<forall>s \<in> set d. wf_section s"
  shows "\<exists>cmds. tokenizeUCI (Serialize d) = Inr cmds \<and> map uc_fields cmds = concat (map section_fields d)"
proof -
  have "reads (Serialize d) (concat (map section_fields d))"
    unfolding Serialize_def using assms by (intro reads_concat reads_section) simp
  moreover have "idle tok_init" by (simp add: idle_def tok_init_def)
  ultimately obtain t where t: "idle t" "tok (Serialize d @ []) tok_init = tok [] t"
    "map uc_fields (t_commands t) = map uc_fields (t_commands tok_init) @ concat (map section_fields d)"
    unfolding reads_def by blast
  then have "tok [] t = Inr (t_commands t)"
    by (simp add: finishCommand_def finishToken_def idle_def)
  then show ?thesis using t by (simp add: tokenizeUCI_def tok_init_def)
qed

text \<open>On success the parser reads only the fields of the commands.\<close>

definition cmd :: "string list \<Rightarrow> uciCommand" where
  "cmd fs = \<lparr>uc_line = 0, uc_fields = fs\<rparr>"

lemma uc_fields_cmd [simp]: "uc_fields (cmd fs) = fs"
  by (simp add: cmd_def)

fun parsed :: "(uci_error + UCIDoc) option \<Rightarrow> UCIDoc option" where
  "parsed (Some (Inr d)) = Some d"
| "parsed _ = None"

lemma parsed_Some: "parsed r = Some d \<Longrightarrow> r = Some (Inr d)"
  by (cases r rule: parsed.cases) auto

lemma parse_commands_lines:
  "map uc_fields cs = map uc_fields cs' \<Longrightarrow> parsed (parse_commands cs acc) = parsed (parse_commands cs' acc)"
proof (induction cs arbitrary: cs' acc)
  case (Cons c cs)
  then obtain c' cs'' where cs': "cs' = c' # cs''" "uc_fields c = uc_fields c'"
      "map uc_fields cs = map uc_fields cs''" by (cases cs') auto
  show ?case
    unfolding cs'(1) by (simp add: cs'(2) Cons.IH [OF cs'(3)] split: list.split)
qed simp

lemma parse_option:
  "parse_commands (cmd [''option'', k, v] # cs) (cur # acc) =
     parse_commands cs (cur\<lparr>us_options := AList.update k v (us_options cur)\<rparr> # acc)"
  by simp

lemma parse_list:
  "parse_commands (cmd [''list'', k, v] # cs) (cur # acc) =
     parse_commands cs (cur\<lparr>us_lists := AList.update k (get_list cur k @ [v]) (us_lists cur)\<rparr> # acc)"
  by simp

lemma update_fresh: "k \<notin> fst ` set al \<Longrightarrow> AList.update k v al = al @ [(k, v)]"
  by (induction al) auto

lemma parse_options:
  "distinct ks \<Longrightarrow> set ks \<inter> fst ` set (us_options cur) = {} \<Longrightarrow>
   parse_commands (map (\<lambda>k. cmd [''option'', k, f k]) ks @ cs) (cur # acc) =
     parse_commands cs (cur\<lparr>us_options := us_options cur @ map (\<lambda>k. (k, f k)) ks\<rparr> # acc)"
proof (induction ks arbitrary: cur)
  case (Cons k ks)
  have "parse_commands (map (\<lambda>k. cmd [''option'', k, f k]) (k # ks) @ cs) (cur # acc) =
      parse_commands (map (\<lambda>k. cmd [''option'', k, f k]) ks @ cs)
        (cur\<lparr>us_options := us_options cur @ [(k, f k)]\<rparr> # acc)"
    using Cons.prems by (simp only: list.map append_Cons parse_option update_fresh) (simp add: update_fresh)
  then show ?case using Cons.prems by (simp only: Cons.IH) (simp add: Cons.IH)
qed simp

lemma parse_list_values:
  "parse_commands (map (\<lambda>v. cmd [''list'', k, v]) vs @ cs) (cur # acc) =
     parse_commands cs ((if vs = [] then cur
       else cur\<lparr>us_lists := AList.update k (get_list cur k @ vs) (us_lists cur)\<rparr>) # acc)"
proof (induction vs arbitrary: cur)
  case (Cons v vs)
  have "parse_commands (map (\<lambda>v. cmd [''list'', k, v]) (v # vs) @ cs) (cur # acc) =
      parse_commands (map (\<lambda>v. cmd [''list'', k, v]) vs @ cs)
        (cur\<lparr>us_lists := AList.update k (get_list cur k @ [v]) (us_lists cur)\<rparr> # acc)"
    by (simp only: list.map append_Cons parse_list)
  also have "\<dots> = parse_commands cs (cur\<lparr>us_lists := AList.update k (get_list cur k @ v # vs) (us_lists cur)\<rparr> # acc)"
    unfolding Cons.IH by (simp add: get_list_def del: parse_commands.simps)
  finally show ?case by (simp del: parse_commands.simps)
qed simp

lemma parse_lists:
  "distinct ks \<Longrightarrow> set ks \<inter> fst ` set (us_lists cur) = {} \<Longrightarrow>
   parse_commands (concat (map (\<lambda>k. map (\<lambda>v. cmd [''list'', k, v]) (g k)) ks) @ cs) (cur # acc) =
     parse_commands cs (cur\<lparr>us_lists := us_lists cur @ map (\<lambda>k. (k, g k)) (filter (\<lambda>k. g k \<noteq> []) ks)\<rparr> # acc)"
proof (induction ks arbitrary: cur)
  case (Cons k ks)
  have k: "k \<notin> fst ` set (us_lists cur)" using Cons.prems by auto
  then have none: "get_list cur k = []" by (simp add: get_list_def map_of_eq_None_iff [THEN iffD2])
  let ?cur = "if g k = [] then cur else cur\<lparr>us_lists := us_lists cur @ [(k, g k)]\<rparr>"
  have "parse_commands (concat (map (\<lambda>k. map (\<lambda>v. cmd [''list'', k, v]) (g k)) (k # ks)) @ cs) (cur # acc) =
      parse_commands (concat (map (\<lambda>k. map (\<lambda>v. cmd [''list'', k, v]) (g k)) ks) @ cs) (?cur # acc)"
    by (simp add: parse_list_values none update_fresh [OF k] del: parse_commands.simps)
  moreover have "set ks \<inter> fst ` set (us_lists ?cur) = {}" using Cons.prems by auto
  ultimately show ?case using Cons.prems by (simp add: Cons.IH del: parse_commands.simps)
qed simp

text \<open>The section that is read back: keys in order, lists without elements gone.\<close>

definition normal_section :: "UCISection \<Rightarrow> UCISection" where
  "normal_section s = s\<lparr>us_options := map (\<lambda>k. (k, the (map_of (us_options s) k))) (sortedKeys (us_options s)),
     us_lists := map (\<lambda>k. (k, get_list s k)) (filter (\<lambda>k. get_list s k \<noteq> []) (sortedKeys (us_lists s)))\<rparr>"

lemma parse_section:
  assumes "wf_section s"
  shows "parse_commands (map cmd (section_fields s) @ cs) acc = parse_commands cs (normal_section s # acc)"
proof -
  let ?new = "newSection (us_type s) (us_name s)"
  have d: "distinct (sortedKeys (us_options s))" "distinct (sortedKeys (us_lists s))"
    using assms by (simp_all add: sortedKeys_sort wf_section_def)
  have "parse_commands (map cmd (section_fields s) @ cs) acc =
      parse_commands (map (\<lambda>k. cmd [''option'', k, the (map_of (us_options s) k)]) (sortedKeys (us_options s)) @
        concat (map (\<lambda>k. map (\<lambda>v. cmd [''list'', k, v]) (get_list s k)) (sortedKeys (us_lists s))) @ cs)
        (?new # acc)"
    by (simp add: section_fields_def option_fields_def list_fields_def map_concat comp_def)
  also have "\<dots> = parse_commands (concat (map (\<lambda>k. map (\<lambda>v. cmd [''list'', k, v]) (get_list s k))
        (sortedKeys (us_lists s))) @ cs) (?new\<lparr>us_options := us_options ?new @
        map (\<lambda>k. (k, the (map_of (us_options s) k))) (sortedKeys (us_options s))\<rparr> # acc)"
    by (rule parse_options [OF d(1)]) (simp add: newSection_def)
  also have "\<dots> = parse_commands cs (normal_section s # acc)"
  proof -
    let ?s = "?new\<lparr>us_options := us_options ?new @ map (\<lambda>k. (k, the (map_of (us_options s) k)))
        (sortedKeys (us_options s))\<rparr>"
    have "?s\<lparr>us_lists := us_lists ?s @ map (\<lambda>k. (k, get_list s k))
        (filter (\<lambda>k. get_list s k \<noteq> []) (sortedKeys (us_lists s)))\<rparr> = normal_section s"
      by (simp add: newSection_def normal_section_def)
    moreover have "set (sortedKeys (us_lists s)) \<inter> fst ` set (us_lists ?s) = {}"
      by (simp add: newSection_def)
    ultimately show ?thesis using parse_lists [OF d(2), of ?s "get_list s" cs acc] by (simp only:)
  qed
  finally show ?thesis .
qed

lemma parse_sections:
  "\<forall>s \<in> set d. wf_section s \<Longrightarrow>
     parse_commands (map cmd (concat (map section_fields d))) acc = Some (Inr (rev acc @ map normal_section d))"
  by (induction d arbitrary: acc) (simp_all add: parse_section)

lemma ParseUCI_Serialize:
  assumes "\<forall>s \<in> set d. wf_section s"
  shows "ParseUCI (Serialize d) = Some (Inr (map normal_section d))"
proof -
  obtain cmds where c: "tokenizeUCI (Serialize d) = Inr cmds" "map uc_fields cmds = concat (map section_fields d)"
    using tokenize_Serialize [OF assms] by blast
  have "map uc_fields cmds = map uc_fields (map cmd (concat (map section_fields d)))"
    unfolding c(2) map_map by (simp add: comp_def)
  then have "parsed (parse_commands cmds []) = parsed (parse_commands (map cmd (concat (map section_fields d))) [])"
    by (rule parse_commands_lines)
  also have "\<dots> = Some (map normal_section d)"
    unfolding parse_sections [OF assms] by simp
  finally have "parse_commands cmds [] = Some (Inr (map normal_section d))" by (rule parsed_Some)
  then show ?thesis by (simp add: ParseUCI_def c(1))
qed

lemma map_of_pairs: "map_of (map (\<lambda>k. (k, f k)) ks) k = (if k \<in> set ks then Some (f k) else None)"
  by (induction ks) auto

lemma normal_section_same:
  "map_of (us_options (normal_section s)) = map_of (us_options s)"
  "get_list (normal_section s) = get_list s"
proof -
  have dom: "k \<in> set (sortedKeys al) \<longleftrightarrow> map_of al k \<noteq> None" for k and al :: "(string \<times> 'b) list"
    by (simp add: sortedKeys_sort map_of_eq_None_iff)
  show "map_of (us_options (normal_section s)) = map_of (us_options s)"
    by (rule ext) (auto simp: normal_section_def map_of_pairs dom)
  show "get_list (normal_section s) = get_list s"
    by (rule ext) (auto simp: normal_section_def get_list_def [of "s\<lparr>us_options := _, us_lists := _\<rparr>"]
        map_of_pairs dom, auto simp: get_list_def)
qed

text \<open>A parsed document has no empty list, so writing it back and reading it again changes no lookup at all.\<close>

definition full_lists :: "UCISection \<Rightarrow> bool" where
  "full_lists s \<longleftrightarrow> (\<forall>vs \<in> snd ` set (us_lists s). vs \<noteq> [])"

lemma full_lists_append:
  "full_lists s \<Longrightarrow> full_lists (s\<lparr>us_lists := AList.update k (get_list s k @ [v]) (us_lists s)\<rparr>)"
  using set_update_subset [of k "get_list s k @ [v]" "us_lists s"] unfolding full_lists_def by fastforce

lemma parse_commands_full:
  "parse_commands cs acc = Some (Inr d) \<Longrightarrow> list_all full_lists acc \<Longrightarrow> list_all full_lists d"
proof (induction cs acc rule: parse_commands.induct)
  case (2 c cs acc)
  have new: "full_lists (newSection t n)" for t n by (simp add: full_lists_def newSection_def)
  have opts: "full_lists (s\<lparr>us_options := os\<rparr>) = full_lists s" for s os by (simp add: full_lists_def)
  show ?case using 2 by (auto simp: new opts full_lists_append split: list.splits if_splits)
qed (auto simp: list_all_iff)

lemma ParseUCI_full: "ParseUCI src = Some (Inr d) \<Longrightarrow> list_all full_lists d"
  by (auto simp: ParseUCI_def parse_commands_full split: sum.splits)

lemma map_of_normal_lists:
  assumes "full_lists s" shows "map_of (us_lists (normal_section s)) = map_of (us_lists s)"
proof
  fix k
  have "k \<in> set (sortedKeys (us_lists s)) \<longleftrightarrow> map_of (us_lists s) k \<noteq> None"
    by (simp add: sortedKeys_sort map_of_eq_None_iff)
  moreover have "get_list s k \<noteq> []" if "map_of (us_lists s) k = Some vs" for vs
    using assms map_of_SomeD [OF that] that by (force simp: full_lists_def get_list_def)
  ultimately show "map_of (us_lists (normal_section s)) k = map_of (us_lists s) k"
    by (cases "map_of (us_lists s) k") (auto simp: normal_section_def map_of_pairs, auto simp: get_list_def)
qed

section \<open>Properties\<close>

text \<open>C33. Reading UCI text never panics: every text either parses to a document or is rejected with an
  error that names its line, whatever bytes it holds.\<close>

theorem ParseUCI_never_panics: "\<exists>r. ParseUCI src = Some r"
  using ParseUCI_total [of src] by auto

text \<open>C32. Writing a configuration and reading it back loses nothing: the sections come back in the same
  order with the same type and name, every option has the same value and every list the same elements in
  the same order, whatever bytes, quotes, newlines or comment signs the values hold, as long as types and
  keys are unquoted words.\<close>

theorem uci_roundtrip:
  assumes "list_all wf_section d"
  shows "\<exists>d'. ParseUCI (Serialize d) = Some (Inr d') \<and>
     list_all2 (\<lambda>s s'. us_type s' = us_type s \<and> us_name s' = us_name s \<and>
       map_of (us_options s') = map_of (us_options s) \<and> get_list s' = get_list s) d d'"
proof (intro exI conjI)
  show "ParseUCI (Serialize d) = Some (Inr (map normal_section d))"
    using assms by (intro ParseUCI_Serialize) (simp add: list_all_iff)
  have "us_type (normal_section s) = us_type s" "us_name (normal_section s) = us_name s" for s
    by (simp_all add: normal_section_def)
  then show "list_all2 (\<lambda>s s'. us_type s' = us_type s \<and> us_name s' = us_name s \<and>
       map_of (us_options s') = map_of (us_options s) \<and> get_list s' = get_list s) d (map normal_section d)"
    by (simp add: list_all2_conv_all_nth normal_section_same)
qed

theorem uci_roundtrip_witness:
  "\<exists>d'. ParseUCI (Serialize [\<lparr>us_type = ''rule'', us_name = [SQ, NL, CHR ''#''],
       us_options = [(''op'', [DQ, BS]), (''cron'', [])], us_lists = [(''action'', [''dc_on'', [SQ]])]\<rparr>]) =
     Some (Inr [d']) \<and> us_name d' = [SQ, NL, CHR ''#''] \<and> get_list d' ''action'' = [''dc_on'', [SQ]]"
proof -
  let ?d = "[\<lparr>us_type = ''rule'', us_name = [SQ, NL, CHR ''#''],
       us_options = [(''op'', [DQ, BS]), (''cron'', [])], us_lists = [(''action'', [''dc_on'', [SQ]])]\<rparr>]"
  have "list_all wf_section ?d" by (simp add: wf_section_def word_def plain_def)
  from uci_roundtrip [OF this] obtain d' where d': "ParseUCI (Serialize ?d) = Some (Inr d')"
    "list_all2 (\<lambda>s s'. us_type s' = us_type s \<and> us_name s' = us_name s \<and>
       map_of (us_options s') = map_of (us_options s) \<and> get_list s' = get_list s) ?d d'" by blast
  from d'(2) obtain s' where "d' = [s']" "us_name s' = [SQ, NL, CHR ''#'']" "get_list s' = get_list (hd ?d)"
    by (auto simp: list_all2_Cons1)
  moreover have "get_list (hd ?d) ''action'' = [''dc_on'', [SQ]]" by (simp add: get_list_def)
  ultimately show ?thesis using d'(1) by (intro exI [of _ s']) (simp only: simp_thms)
qed

text \<open>C37. The hand-written exchange sort of \<^verbatim>\<open>sortedKeys\<close> is the library's sort: on every map it terminates with
  exactly the keys of the map in increasing byte order, none lost and none duplicated.\<close>

theorem sortedKeys_is_sort:
  "sortedKeys m = sort (map fst m) \<and> sorted (sortedKeys m) \<and> mset (sortedKeys m) = mset (map fst m)"
  by (simp add: sortedKeys_sort)

end
