(* ===== verification/GoText.thy ===== *)
theory GoText
  imports GoFloat
begin

text \<open>
  The conversions between text and values that the configuration uses: \<^verbatim>\<open>strconv.Itoa\<close> and \<^verbatim>\<open>Atoi\<close>,
  \<^verbatim>\<open>time.Duration.String\<close> and \<^verbatim>\<open>time.ParseDuration\<close>. Text is a list of bytes. Each pair is shown to be a round
  trip.
\<close>

section \<open>Decimal digits\<close>

definition is_digit :: "char \<Rightarrow> bool" where
  "is_digit c \<longleftrightarrow> CHR ''0'' \<le> c \<and> c \<le> CHR ''9''"

definition digit_val :: "char \<Rightarrow> nat" where
  "digit_val c = of_char c - 48"

definition digit_char :: "nat \<Rightarrow> char" where
  "digit_char n = char_of (48 + n)"

lemma digit_char [simp]: "n < 10 \<Longrightarrow> is_digit (digit_char n)" "n < 10 \<Longrightarrow> digit_val (digit_char n) = n"
  by (simp_all add: is_digit_def digit_char_def digit_val_def less_eq_char_def)

lemma is_digit_iff: "is_digit c \<longleftrightarrow> (\<exists>n < 10. c = digit_char n)"
proof
  assume "is_digit c"
  then have "48 \<le> (of_char c :: nat)" "(of_char c :: nat) \<le> 57" by (simp_all add: is_digit_def less_eq_char_def)
  then show "\<exists>n < 10. c = digit_char n"
    by (intro exI [of _ "of_char c - 48"]) (auto simp: digit_char_def)
qed auto

text \<open>The value of a digit string, and the shortest digit string of a number.\<close>

definition dec_val :: "nat \<Rightarrow> string \<Rightarrow> nat" where
  "dec_val x s = foldl (\<lambda>n c. n * 10 + digit_val c) x s"

fun utoa :: "nat \<Rightarrow> string" where
  "utoa n = (if n < 10 then [digit_char n] else utoa (n div 10) @ [digit_char (n mod 10)])"

declare utoa.simps [simp del]

lemma dec_val_simps [simp]: "dec_val x [] = x" "dec_val x (c # s) = dec_val (x * 10 + digit_val c) s"
  "dec_val x (s @ t) = dec_val (dec_val x s) t"
  by (simp_all add: dec_val_def)

lemma utoa_digits [simp]: "list_all is_digit (utoa n)"
  by (induction n rule: utoa.induct) (subst utoa.simps, simp)

lemma utoa_nonempty [simp]: "utoa n \<noteq> []"
  by (subst utoa.simps) simp

lemma dec_val_utoa [simp]: "dec_val 0 (utoa n) = n"
  by (induction n rule: utoa.induct) (subst utoa.simps, simp)

lemma utoa_hd: "\<exists>c cs. utoa n = c # cs \<and> is_digit c"
  using utoa_digits [of n] utoa_nonempty [of n] by (cases "utoa n") (auto simp del: utoa_digits utoa_nonempty)

lemma not_digit [simp]: "\<not> is_digit CHR ''-''" "\<not> is_digit CHR ''+''" "\<not> is_digit CHR ''.''" "\<not> is_digit CHR ''s''"
  "\<not> is_digit CHR ''m''" "\<not> is_digit CHR ''h''" "\<not> is_digit CHR ''n''" "\<not> is_digit CHR 0xC2" "\<not> is_digit CHR 0xB5"
  "\<not> is_digit CHR ''u''" "\<not> is_digit CHR 0xCE" "\<not> is_digit CHR 0xBC"
  by (simp_all add: is_digit_def less_eq_char_def)

section \<open>Integers\<close>

definition Itoa :: "int \<Rightarrow> string" where
  "Itoa n = (if n < 0 then CHR ''-'' # utoa (nat (- n)) else utoa (nat n))"

definition Atoi :: "string \<Rightarrow> int option" where
  "Atoi s =
     (let neg = (s \<noteq> [] \<and> hd s = CHR ''-''); t = (if s \<noteq> [] \<and> (hd s = CHR ''-'' \<or> hd s = CHR ''+'') then tl s else s)
      in if t = [] \<or> \<not> list_all is_digit t then None
         else let n = (if neg then - int (dec_val 0 t) else int (dec_val 0 t))
              in if - (2 ^ 63) \<le> n \<and> n < 2 ^ 63 then Some n else None)"

lemma Atoi_Itoa:
  assumes "- (2 ^ 63) \<le> n" "n < 2 ^ 63" shows "Atoi (Itoa n) = Some n"
proof -
  have h: "hd (utoa m) \<noteq> CHR ''-''" "hd (utoa m) \<noteq> CHR ''+''" for m using utoa_hd [of m] by auto
  show ?thesis using assms h by (auto simp: Atoi_def Itoa_def Let_def)
qed

lemma Itoa_nonempty [simp]: "Itoa n \<noteq> []"
  by (simp add: Itoa_def)

section \<open>Durations\<close>

text \<open>\<^verbatim>\<open>fmtFrac\<close>: the decimal fraction of \<open>v / 10 ^ prec\<close> without trailing zeros, and \<open>v div 10 ^ prec\<close>. The digits
  are produced from the last one on, as in the source.\<close>

fun fmtFrac_loop :: "nat \<Rightarrow> nat \<Rightarrow> string \<Rightarrow> string \<times> nat" where
  "fmtFrac_loop 0 v buf = (buf, v)"
| "fmtFrac_loop (Suc prec) v buf =
     (let digit = v mod 10
      in fmtFrac_loop prec (v div 10) (if buf \<noteq> [] \<or> digit \<noteq> 0 then digit_char digit # buf else buf))"

definition fmtFrac :: "nat \<Rightarrow> nat \<Rightarrow> string \<times> nat" where
  "fmtFrac v prec = (let (buf, u) = fmtFrac_loop prec v [] in (if buf \<noteq> [] then CHR ''.'' # buf else [], u))"

abbreviation (input) "MICRO \<equiv> [CHR 0xC2, CHR 0xB5]"

definition duration_units :: "nat \<Rightarrow> string" where
  "duration_units u =
     (let (fr, secs) = fmtFrac u 9; mins = secs div 60; hours = mins div 60
      in (if hours > 0 then utoa hours @ ''h'' else []) @ (if mins > 0 then utoa (mins mod 60) @ ''m'' else []) @
         utoa (secs mod 60) @ fr @ ''s'')"

definition Duration_String :: "duration \<Rightarrow> string" where
  "Duration_String d =
     (let u = nat \<bar>d\<bar>
      in (if d < 0 then ''-'' else []) @
         (if u = 0 then ''0s''
          else if u < 1000 then utoa u @ ''ns''
          else if u < 1000000 then (let (fr, v) = fmtFrac u 3 in utoa v @ fr @ MICRO @ ''s'')
          else if u < 1000000000 then (let (fr, v) = fmtFrac u 6 in utoa v @ fr @ ''ms'')
          else duration_units u))"

text \<open>\<^verbatim>\<open>leadingInt\<close>, with \<open>None\<close> for the overflow error, and \<^verbatim>\<open>leadingFraction\<close>: digits that would overflow are
  skipped.\<close>

fun leadingInt :: "nat \<Rightarrow> string \<Rightarrow> (nat \<times> string) option" where
  "leadingInt x [] = Some (x, [])"
| "leadingInt x (c # s) =
     (if \<not> is_digit c then Some (x, c # s)
      else if x > 2 ^ 63 div 10 then None
      else let x = x * 10 + digit_val c in if x > 2 ^ 63 then None else leadingInt x s)"

fun leadingFraction :: "nat \<Rightarrow> nat \<Rightarrow> bool \<Rightarrow> string \<Rightarrow> nat \<times> nat \<times> string" where
  "leadingFraction x scale overflow [] = (x, scale, [])"
| "leadingFraction x scale overflow (c # s) =
     (if \<not> is_digit c then (x, scale, c # s)
      else if overflow \<or> x > (2 ^ 63 - 1) div 10 then leadingFraction x scale True s
      else let y = x * 10 + digit_val c
           in if y > 2 ^ 63 then leadingFraction x scale True s else leadingFraction y (scale * 10) False s)"

definition unitMap :: "string \<Rightarrow> nat option" where
  "unitMap u =
     (if u = ''ns'' then Some 1
      else if u = ''us'' \<or> u = MICRO @ ''s'' \<or> u = [CHR 0xCE, CHR 0xBC] @ ''s'' then Some 1000
      else if u = ''ms'' then Some 1000000
      else if u = ''s'' then Some 1000000000
      else if u = ''m'' then Some (60 * 1000000000)
      else if u = ''h'' then Some (3600 * 1000000000)
      else None)"

text \<open>\<^verbatim>\<open>uint64(float64(f) * (float64(unit) / scale))\<close> for values in range: the conversion truncates.\<close>

definition frac_nanos :: "nat \<Rightarrow> nat \<Rightarrow> nat \<Rightarrow> nat" where
  "frac_nanos f unit scale = (case (fl (of_nat f), fdiv_pos (fl (of_nat unit)) (of_nat scale)) of
      (Fin a, Fin b) \<Rightarrow> (case fl (a * b) of Fin c \<Rightarrow> nat \<lfloor>c\<rfloor> | _ \<Rightarrow> 0)
    | _ \<Rightarrow> 0)"

text \<open>One element of a duration: number, fraction, unit. The result is its value in nanoseconds and the rest.\<close>

definition duration_element :: "string \<Rightarrow> (nat \<times> string) option" where
  "duration_element s =
     (if s = [] \<or> \<not> (hd s = CHR ''.'' \<or> is_digit (hd s)) then None
      else case leadingInt 0 s of
        None \<Rightarrow> None
      | Some (v, t) \<Rightarrow>
          let pre = (length t \<noteq> length s);
              (f, scale, post, r) = (if t \<noteq> [] \<and> hd t = CHR ''.''
                 then (case leadingFraction 0 1 False (tl t) of (f, scale, r) \<Rightarrow> (f, scale, length r \<noteq> length (tl t), r))
                 else (0, 1, False, t))
          in if \<not> pre \<and> \<not> post then None
             else let u = takeWhile (\<lambda>c. \<not> (c = CHR ''.'' \<or> is_digit c)) r;
                      rest = dropWhile (\<lambda>c. \<not> (c = CHR ''.'' \<or> is_digit c)) r
                  in if u = [] then None
                     else case unitMap u of
                       None \<Rightarrow> None
                     | Some unit \<Rightarrow>
                         if v > 2 ^ 63 div unit then None
                         else let v = v * unit; v = (if f > 0 then v + frac_nanos f unit scale else v)
                              in if v > 2 ^ 63 then None else Some (v, rest))"

lemma leadingInt_length: "leadingInt x s = Some (v, t) \<Longrightarrow> length t \<le> length s"
  by (induction x s rule: leadingInt.induct) (auto simp: Let_def split: if_splits)

lemma leadingFraction_length: "leadingFraction x scale ov s = (f, sc, t) \<Longrightarrow> length t \<le> length s"
  by (induction x scale ov s rule: leadingFraction.induct) (auto simp: Let_def split: if_splits)

lemma dropWhile_shorter: "takeWhile P r \<noteq> [] \<Longrightarrow> length (dropWhile P r) < length r"
  by (cases r) (auto split: if_splits simp: le_imp_less_Suc length_dropWhile_le)

lemma duration_element_shorter: "duration_element s = Some (v, rest) \<Longrightarrow> length rest < length s"
proof -
  assume a: "duration_element s = Some (v, rest)"
  let ?P = "\<lambda>c. \<not> (c = CHR ''.'' \<or> is_digit c)"
  obtain n t where n: "leadingInt 0 s = Some (n, t)"
    using a by (auto simp: duration_element_def split: if_splits option.splits)
  obtain f sc r where "leadingFraction 0 1 False (tl t) = (f, sc, r)" by (metis prod_cases3)
  note fr = this leadingFraction_length [OF this]
  have "length t \<le> length s" by (rule leadingInt_length [OF n])
  moreover have "length r \<le> length t" using fr(2) by simp
  moreover obtain r' where "r' = t \<or> r' = r" "takeWhile ?P r' \<noteq> []" "rest = dropWhile ?P r'"
    using a n fr(1) by (auto simp: duration_element_def Let_def split: if_splits option.splits)
  ultimately show ?thesis using dropWhile_shorter [of ?P r'] by auto
qed

text \<open>The loop of \<^verbatim>\<open>ParseDuration\<close> over the elements; the sum is a 64-bit unsigned number.\<close>

function duration_loop :: "nat \<Rightarrow> string \<Rightarrow> nat option" where
  "duration_loop d s = (if s = [] then Some d
     else case duration_element s of
       None \<Rightarrow> None
     | Some (v, rest) \<Rightarrow> let d = (d + v) mod 2 ^ 64 in if d > 2 ^ 63 then None else duration_loop d rest)"
  by pat_completeness auto
termination by (relation "measure (\<lambda>(d, s). length s)") (auto dest: duration_element_shorter)

declare duration_loop.simps [simp del]

definition ParseDuration :: "string \<Rightarrow> duration option" where
  "ParseDuration s =
     (let neg = (s \<noteq> [] \<and> hd s = CHR ''-''); t = (if s \<noteq> [] \<and> (hd s = CHR ''-'' \<or> hd s = CHR ''+'') then tl s else s)
      in if t = ''0'' then Some 0
         else if t = [] then None
         else case duration_loop 0 t of
           None \<Rightarrow> None
         | Some d \<Rightarrow> if neg then Some (- int d) else if d > 2 ^ 63 - 1 then None else Some (int d))"

section \<open>Exact products\<close>

lemma round_half_even_int [simp]: "round_half_even (of_int m) = m"
  by (simp add: round_half_even_def)

lemma ilog2_less: "0 < x \<Longrightarrow> x < pow2 e \<Longrightarrow> ilog2 x < e"
proof (rule ccontr)
  assume x: "0 < x" "x < pow2 e" and "\<not> ilog2 x < e"
  then have "pow2 e \<le> pow2 (ilog2 x)" by (simp add: pow2_mono)
  moreover have "pow2 (ilog2 x) \<le> x" using ilog2_bounds x(1) by blast
  ultimately show False using x(2) by simp
qed

lemma fl_int:
  assumes "\<bar>m\<bar> < 2 ^ 53" shows "fl (of_int m) = Fin (of_int m)"
proof (cases "m = 0")
  case False
  let ?x = "of_int m :: rat"
  have a: "0 < \<bar>?x\<bar>" "\<bar>?x\<bar> < pow2 53"
  proof -
    have "\<bar>?x\<bar> = of_int \<bar>m\<bar>" by simp
    also have "\<dots> < of_int (2 ^ 53)" using assms by (simp only: of_int_less_iff)
    finally show "\<bar>?x\<bar> < pow2 53" by (simp add: pow2_def)
  qed (use False in simp)
  then have "ilog2 \<bar>?x\<bar> \<le> 52" using ilog2_less [of "\<bar>?x\<bar>" 53] by simp
  then obtain k where k: "ulp ?x = pow2 (- int k)"
    by (auto simp: ulp_def intro: that [of "nat (- max (ilog2 \<bar>?x\<bar> - 52) (- 1074))"])
  have u: "ulp ?x = 1 / 2 ^ k" unfolding k by (simp add: pow2_def power_int_minus divide_inverse)
  then have "?x / ulp ?x = of_int (m * 2 ^ k)" by simp
  then have r: "of_int (round_half_even (?x / ulp ?x)) * ulp ?x = ?x" using u by (simp only: round_half_even_int) simp
  have "\<bar>?x\<bar> < 2 ^ 1024" using a(2) by (rule less_le_trans) (simp add: pow2_def)
  then show ?thesis unfolding fl_def Let_def r using False by auto
qed (simp add: fl_def)

lemma fl_nat: "n < 2 ^ 53 \<Longrightarrow> fl (of_nat n) = Fin (of_nat n)"
  using fl_int [of "int n"] by simp

text \<open>The fraction of an element is exact when the unit is a multiple of the scale.\<close>

lemma frac_nanos_exact:
  assumes "unit = scale * k" "0 < scale" "f * k < 2 ^ 53" "unit < 2 ^ 53" "f < 2 ^ 53"
  shows "frac_nanos f unit scale = f * k"
proof -
  have "k < 2 ^ 53" using assms(1,2,4) by (metis le_less_trans mult_le_mono1 nat_mult_1 Suc_leI One_nat_def)
  moreover have "(of_nat unit :: rat) / of_nat scale = of_nat k" using assms(1,2) by simp
  ultimately have "fdiv_pos (fl (of_nat unit)) (of_nat scale) = Fin (of_nat k)" using assms(4) by (simp add: fl_nat)
  moreover have "fl (of_nat f * of_nat k :: rat) = Fin (of_nat (f * k))" using fl_nat [OF assms(3)] by simp
  moreover have "\<lfloor>of_nat f * of_nat k :: rat\<rfloor> = int (f * k)" by (metis floor_of_nat of_nat_mult)
  ultimately show ?thesis using assms(5) by (simp add: frac_nanos_def fl_nat nat_mult_distrib)
qed

section \<open>Durations are a round trip\<close>

lemma dec_val_ge: "x \<le> dec_val x ds"
proof (induction ds arbitrary: x)
  case (Cons c ds)
  show ?case using Cons.IH [of "x * 10 + digit_val c"] by simp
qed simp

lemma dec_val_step: "dec_val x (c # ds) \<le> n \<Longrightarrow> x \<le> n div 10 \<and> x * 10 + digit_val c \<le> n"
  using dec_val_ge [of "x * 10 + digit_val c" ds] by simp

lemma leadingInt_digits:
  "list_all is_digit ds \<Longrightarrow> dec_val x ds \<le> 2 ^ 63 \<Longrightarrow> t = [] \<or> \<not> is_digit (hd t) \<Longrightarrow>
   leadingInt x (ds @ t) = Some (dec_val x ds, t)"
proof (induction ds arbitrary: x)
  case Nil
  then show ?case by (cases t) auto
next
  case (Cons c ds)
  then show ?case using dec_val_step [of x c ds "2 ^ 63"] by (simp add: Let_def not_less)
qed

lemma leadingFraction_digits:
  "list_all is_digit ds \<Longrightarrow> dec_val x ds \<le> 2 ^ 63 - 1 \<Longrightarrow> t = [] \<or> \<not> is_digit (hd t) \<Longrightarrow>
   leadingFraction x sc False (ds @ t) = (dec_val x ds, sc * 10 ^ length ds, t)"
proof (induction ds arbitrary: x sc)
  case Nil
  then show ?case by (cases t) auto
next
  case (Cons c ds)
  then show ?case using dec_val_step [of x c ds "2 ^ 63 - 1"] by (simp add: Let_def not_less mult.assoc)
qed

definition unit_text :: "string \<Rightarrow> bool" where
  "unit_text u \<longleftrightarrow> u \<noteq> [] \<and> list_all (\<lambda>c. c \<noteq> CHR ''.'' \<and> \<not> is_digit c) u"

lemma unit_text_split:
  assumes "unit_text u" "rest = [] \<or> is_digit (hd rest)"
  shows "takeWhile (\<lambda>c. \<not> (c = CHR ''.'' \<or> is_digit c)) (u @ rest) = u"
    "dropWhile (\<lambda>c. \<not> (c = CHR ''.'' \<or> is_digit c)) (u @ rest) = rest"
proof -
  have "\<forall>c \<in> set u. \<not> (c = CHR ''.'' \<or> is_digit c)" using assms(1) by (auto simp: unit_text_def list_all_iff)
  then show "takeWhile (\<lambda>c. \<not> (c = CHR ''.'' \<or> is_digit c)) (u @ rest) = u"
    "dropWhile (\<lambda>c. \<not> (c = CHR ''.'' \<or> is_digit c)) (u @ rest) = rest"
    using assms(2) by (cases rest; simp add: takeWhile_append2 dropWhile_append2)+
qed

lemma utoa_prefix: "utoa v @ t \<noteq> []" "is_digit (hd (utoa v @ t))" "hd (utoa v @ t) \<noteq> CHR ''-''" "hd (utoa v @ t) \<noteq> CHR ''+''"
  using utoa_hd [of v] by auto

lemma hd_utoa: "is_digit (hd (utoa v))"
  using utoa_hd [of v] by auto

lemma element_whole:
  assumes "unit_text uu" "unitMap uu = Some U" "rest = [] \<or> is_digit (hd rest)" "v \<le> 2 ^ 63 div U" "v * U \<le> 2 ^ 63" "0 < U"
  shows "duration_element (utoa v @ uu @ rest) = Some (v * U, rest)"
proof -
  have v: "v \<le> 2 ^ 63" using assms(5,6) by (metis Suc_leI One_nat_def le_trans mult_le_mono2 nat_mult_1_right)
  have uu: "uu \<noteq> []" "\<not> is_digit (hd uu)" "hd uu \<noteq> CHR ''.''" using assms(1) by (auto simp: unit_text_def hd_in_set list_all_iff)
  then have li: "leadingInt 0 (utoa v @ uu @ rest) = Some (v, uu @ rest)"
    using leadingInt_digits [of "utoa v" 0 "uu @ rest"] v by simp
  show ?thesis
    unfolding duration_element_def li using utoa_prefix [of v "uu @ rest"] uu unit_text_split [OF assms(1,3)] assms
    by (simp add: Let_def)
qed

lemma element_fraction:
  assumes "unit_text uu" "unitMap uu = Some U" "rest = [] \<or> is_digit (hd rest)" "v \<le> 2 ^ 63 div U"
    and "list_all is_digit ds" "ds \<noteq> []" "dec_val 0 ds \<le> 2 ^ 63 - 1" "v \<le> 2 ^ 63"
    and "v * U + frac_nanos (dec_val 0 ds) U (10 ^ length ds) \<le> 2 ^ 63"
  shows "duration_element (utoa v @ CHR ''.'' # ds @ uu @ rest) =
    Some (if dec_val 0 ds > 0 then v * U + frac_nanos (dec_val 0 ds) U (10 ^ length ds) else v * U, rest)"
proof -
  have uu: "uu \<noteq> []" "\<not> is_digit (hd uu)" using assms(1) by (auto simp: unit_text_def hd_in_set list_all_iff)
  have li: "leadingInt 0 (utoa v @ CHR ''.'' # ds @ uu @ rest) = Some (v, CHR ''.'' # ds @ uu @ rest)"
    using leadingInt_digits [of "utoa v" 0 "CHR ''.'' # ds @ uu @ rest"] assms(8) by simp
  have lf: "leadingFraction 0 1 False (ds @ uu @ rest) = (dec_val 0 ds, 10 ^ length ds, uu @ rest)"
    using leadingFraction_digits [of ds 0 "uu @ rest" 1] assms(5,7) uu by simp
  show ?thesis
    unfolding duration_element_def li using utoa_prefix [of v "CHR ''.'' # ds @ uu @ rest"] uu
      unit_text_split [OF assms(1,3)] assms
    by (simp add: Let_def lf [unfolded One_nat_def])
qed

text \<open>The digits that \<^verbatim>\<open>fmtFrac\<close> prints.\<close>

lemma fmtFrac_loop_open:
  "buf \<noteq> [] \<Longrightarrow> \<exists>ds. fmtFrac_loop prec v buf = (ds @ buf, v div 10 ^ prec) \<and> length ds = prec \<and>
     list_all is_digit ds \<and> dec_val 0 ds = v mod 10 ^ prec"
proof (induction prec arbitrary: v buf)
  case (Suc prec)
  obtain ds where ds: "fmtFrac_loop prec (v div 10) (digit_char (v mod 10) # buf) =
      (ds @ digit_char (v mod 10) # buf, v div 10 div 10 ^ prec)"
    "length ds = prec" "list_all is_digit ds" "dec_val 0 ds = v div 10 mod 10 ^ prec"
    using Suc.IH [of "digit_char (v mod 10) # buf" "v div 10"] by auto
  have "v mod 10 ^ Suc prec = 10 * (v div 10 mod 10 ^ prec) + v mod 10"
    by (simp add: mod_mult2_eq mult.commute)
  then show ?case
    using ds Suc.prems by (intro exI [of _ "ds @ [digit_char (v mod 10)]"]) (simp add: Let_def div_mult2_eq)
qed simp

lemma digit_split: "(v :: nat) mod 10 ^ Suc prec = 10 * (v div 10 mod 10 ^ prec) + v mod 10" "v div 10 ^ Suc prec = v div 10 div 10 ^ prec"
  by (simp_all add: mod_mult2_eq div_mult2_eq mult.commute)

lemma fmtFrac_loop_digits:
  "\<exists>ds j. fmtFrac_loop prec v [] = (ds, v div 10 ^ prec) \<and> length ds + j = prec \<and>
     list_all is_digit ds \<and> dec_val 0 ds * 10 ^ j = v mod 10 ^ prec \<and> (ds = [] \<longrightarrow> v mod 10 ^ prec = 0)"
proof (induction prec arbitrary: v)
  case (Suc prec)
  show ?case
  proof (cases "v mod 10 = 0")
    case True
    obtain ds j where ds: "fmtFrac_loop prec (v div 10) [] = (ds, v div 10 div 10 ^ prec)" "length ds + j = prec"
      "list_all is_digit ds" "dec_val 0 ds * 10 ^ j = v div 10 mod 10 ^ prec" "ds = [] \<longrightarrow> v div 10 mod 10 ^ prec = 0"
      using Suc.IH [of "v div 10"] by (elim exE conjE)
    have "fmtFrac_loop (Suc prec) v [] = (ds, v div 10 ^ Suc prec)" unfolding digit_split using True ds(1) by (simp add: Let_def)
    moreover have "dec_val 0 ds * 10 ^ Suc j = v mod 10 ^ Suc prec" unfolding digit_split True ds(4) [symmetric] by simp
    moreover have "ds = [] \<longrightarrow> v mod 10 ^ Suc prec = 0" unfolding digit_split True using ds(5) by simp
    ultimately show ?thesis using ds(2,3) by (intro exI [of _ ds] exI [of _ "Suc j"]) (simp only: add_Suc_right simp_thms)
  next
    case False
    obtain ds where ds: "fmtFrac_loop prec (v div 10) [digit_char (v mod 10)] =
        (ds @ [digit_char (v mod 10)], v div 10 div 10 ^ prec)"
      "length ds = prec" "list_all is_digit ds" "dec_val 0 ds = v div 10 mod 10 ^ prec"
      using fmtFrac_loop_open [of "[digit_char (v mod 10)]" prec "v div 10"] by auto
    let ?ds = "ds @ [digit_char (v mod 10)]"
    have "fmtFrac_loop (Suc prec) v [] = (?ds, v div 10 ^ Suc prec)" unfolding digit_split using False ds(1) by (simp add: Let_def)
    moreover have "dec_val 0 ?ds * 10 ^ 0 = v mod 10 ^ Suc prec" unfolding digit_split using ds(4) by simp
    moreover have "length ?ds + 0 = Suc prec" "list_all is_digit ?ds" using ds(2,3) by simp_all
    moreover have "?ds = [] \<longrightarrow> v mod 10 ^ Suc prec = 0" by simp
    ultimately show ?thesis by (intro exI [of _ ?ds] exI [of _ 0] conjI)
  qed
qed simp

text \<open>An element that \<^verbatim>\<open>String\<close> prints with \<^verbatim>\<open>fmtFrac\<close> in a unit of \<open>10 ^ prec\<close> nanoseconds.\<close>

lemma element_fmtFrac:
  assumes "fmtFrac u prec = (fr, v)" "unit_text uu" "unitMap uu = Some (10 ^ prec)" "prec \<le> 9"
    and "rest = [] \<or> is_digit (hd rest)" "w * 10 ^ prec + u mod 10 ^ prec \<le> 2 ^ 63"
  shows "duration_element (utoa w @ fr @ uu @ rest) = Some (w * 10 ^ prec + u mod 10 ^ prec, rest)" "v = u div 10 ^ prec"
proof -
  obtain ds j where ds: "fmtFrac_loop prec u [] = (ds, u div 10 ^ prec)" "length ds + j = prec"
    "list_all is_digit ds" "dec_val 0 ds * 10 ^ j = u mod 10 ^ prec" "ds = [] \<longrightarrow> u mod 10 ^ prec = 0"
    using fmtFrac_loop_digits [of prec u] by (elim exE conjE)
  then have fr_eq: "fr = (if ds \<noteq> [] then CHR ''.'' # ds else [])" and v: "v = u div 10 ^ prec"
    using assms(1) by (auto simp: fmtFrac_def)
  show "v = u div 10 ^ prec" by (rule v)
  have U: "(10 :: nat) ^ prec \<le> 10 ^ 9" using assms(4) by (intro power_increasing) simp_all
  have w: "w * 10 ^ prec \<le> 2 ^ 63" using assms(6) by (rule add_leD1)
  then have wd: "w \<le> 2 ^ 63 div 10 ^ prec" by (subst less_eq_div_iff_mult_less_eq) simp_all
  have w63: "w \<le> 2 ^ 63" using wd by (rule order.trans) (rule div_le_dividend)
  show "duration_element (utoa w @ fr @ uu @ rest) = Some (w * 10 ^ prec + u mod 10 ^ prec, rest)"
  proof (cases "ds = []")
    case True
    have "0 < (10 :: nat) ^ prec" by simp
    then show ?thesis using element_whole [OF assms(2,3,5) wd w] fr_eq ds(5) True by (simp only: if_False simp_thms append_Nil add_0_right)
  next
    case False
    have lt: "dec_val 0 ds * 10 ^ j < 10 ^ prec" unfolding ds(4) by (rule mod_less_divisor) simp
    have "dec_val 0 ds \<le> dec_val 0 ds * 10 ^ j" by simp
    then have f9: "dec_val 0 ds < 10 ^ 9" using lt U by linarith
    have n: "frac_nanos (dec_val 0 ds) (10 ^ prec) (10 ^ length ds) = dec_val 0 ds * 10 ^ j"
    proof (rule frac_nanos_exact)
      show "(10 :: nat) ^ prec = 10 ^ length ds * 10 ^ j" unfolding ds(2) [symmetric] by (rule power_add)
      show "dec_val 0 ds * 10 ^ j < 2 ^ 53" using lt U by simp
      show "(10 :: nat) ^ prec < 2 ^ 53" using U by simp
      show "dec_val 0 ds < 2 ^ 53" using f9 by simp
    qed simp
    have e: "(if dec_val 0 ds > 0 then w * 10 ^ prec + frac_nanos (dec_val 0 ds) (10 ^ prec) (10 ^ length ds)
        else w * 10 ^ prec) = w * 10 ^ prec + u mod 10 ^ prec"
      unfolding n ds(4) [symmetric] by simp
    have "dec_val 0 ds \<le> 2 ^ 63 - 1" using f9 by simp
    moreover have "w * 10 ^ prec + frac_nanos (dec_val 0 ds) (10 ^ prec) (10 ^ length ds) \<le> 2 ^ 63"
      unfolding n ds(4) by (rule assms(6))
    ultimately have "duration_element (utoa w @ CHR ''.'' # ds @ uu @ rest) = Some (w * 10 ^ prec + u mod 10 ^ prec, rest)"
      using element_fraction [OF assms(2,3,5) wd ds(3) False _ w63] unfolding e by blast
    then show ?thesis unfolding fr_eq using False by simp
  qed
qed

lemma unit_texts [simp]: "unit_text ''ns''" "unit_text ''s''" "unit_text ''ms''" "unit_text [CHR 0xC2, CHR 0xB5, CHR ''s'']" "unit_text ''m''" "unit_text ''h''"
  by (simp_all add: unit_text_def)

lemma unitMap_simps [simp]: "unitMap ''ns'' = Some 1" "unitMap [CHR 0xC2, CHR 0xB5, CHR ''s''] = Some 1000" "unitMap ''ms'' = Some 1000000"
  "unitMap ''s'' = Some 1000000000" "unitMap ''m'' = Some 60000000000" "unitMap ''h'' = Some 3600000000000"
  by (simp_all add: unitMap_def)

lemma duration_loop_end [simp]: "duration_loop d [] = Some d"
  by (subst duration_loop.simps) simp

lemma duration_loop_step:
  "duration_element s = Some (v, rest) \<Longrightarrow> d + v \<le> 2 ^ 63 \<Longrightarrow> duration_loop d s = duration_loop (d + v) rest"
proof -
  assume e: "duration_element s = Some (v, rest)" and d: "d + v \<le> 2 ^ 63"
  have "s \<noteq> []" using e by (auto simp: duration_element_def)
  moreover have "(d + v) mod 2 ^ 64 = d + v" using d by simp
  ultimately show ?thesis using e d by (subst duration_loop.simps) (simp add: Let_def)
qed

lemma duration_loop_single: "duration_element s = Some (v, []) \<Longrightarrow> v \<le> 2 ^ 63 \<Longrightarrow> duration_loop 0 s = Some v"
  using duration_loop_step [of s v "[]" 0] by simp

lemma duration_loop_whole:
  assumes "unit_text uu" "unitMap uu = Some U" "0 < U" "rest = [] \<or> is_digit (hd rest)" "d + v * U \<le> 2 ^ 63"
  shows "duration_loop d (utoa v @ uu @ rest) = duration_loop (d + v * U) rest"
proof (rule duration_loop_step)
  have v: "v * U \<le> 2 ^ 63" using assms(5) by (rule add_leD2)
  moreover have "v \<le> 2 ^ 63 div U" by (subst less_eq_div_iff_mult_less_eq) (use v assms(3) in simp_all)
  ultimately show "duration_element (utoa v @ uu @ rest) = Some (v * U, rest)" using element_whole assms(1-4) by blast
qed (rule assms(5))

text \<open>Seconds with their fraction; then minutes, then hours in front.\<close>

lemma fmtFrac_9:
  assumes "fmtFrac u 9 = (fr, secs)"
  shows "u = secs * 1000000000 + u mod 1000000000"
    "w * 1000000000 + u mod 1000000000 \<le> 2 ^ 63 \<Longrightarrow>
      duration_element (utoa w @ fr @ ''s'') = Some (w * 1000000000 + u mod 1000000000, [])"
proof -
  have U: "(10 :: nat) ^ 9 = 1000000000" by simp
  note e = element_fmtFrac [OF assms, of "''s''" "[]", unfolded U append_Nil2]
  have "u mod 1000000000 < 1000000000" by simp
  then have "0 * 1000000000 + u mod 1000000000 \<le> 2 ^ 63" by simp
  then have "secs = u div 1000000000" by (intro e(2) [of 0]) simp_all
  then show "u = secs * 1000000000 + u mod 1000000000" using div_mult_mod_eq [of u 1000000000] by (simp only:)
  show "duration_element (utoa w @ fr @ ''s'') = Some (w * 1000000000 + u mod 1000000000, [])"
    if "w * 1000000000 + u mod 1000000000 \<le> 2 ^ 63"
    by (rule e(1)) (use that in simp_all)
qed

lemma duration_loop_seconds:
  assumes "fmtFrac u 9 = (fr, secs)" "d + (w * 1000000000 + u mod 1000000000) \<le> 2 ^ 63"
  shows "duration_loop d (utoa w @ fr @ ''s'') = Some (d + (w * 1000000000 + u mod 1000000000))"
proof -
  have "w * 1000000000 + u mod 1000000000 \<le> 2 ^ 63" using assms(2) by (rule add_leD2)
  note duration_loop_step [OF fmtFrac_9(2) [OF assms(1) this] assms(2)]
  then show ?thesis by (simp only: duration_loop_end)
qed

lemma duration_loop_minutes:
  assumes "fmtFrac u 9 = (fr, secs)" "d + m * 60000000000 + (w * 1000000000 + u mod 1000000000) \<le> 2 ^ 63" "b \<or> m = 0"
  shows "duration_loop d ((if b then utoa m @ ''m'' else []) @ utoa w @ fr @ ''s'') =
    Some (d + m * 60000000000 + (w * 1000000000 + u mod 1000000000))"
proof (cases b)
  case True
  have "d + m * 60000000000 \<le> 2 ^ 63" using assms(2) by (rule add_leD1)
  then have "duration_loop d (utoa m @ ''m'' @ utoa w @ fr @ ''s'') =
      duration_loop (d + m * 60000000000) (utoa w @ fr @ ''s'')"
    by (intro duration_loop_whole) (simp_all only: unit_texts unitMap_simps utoa_prefix zero_less_numeral simp_thms)
  also have "\<dots> = Some (d + m * 60000000000 + (w * 1000000000 + u mod 1000000000))"
    by (rule duration_loop_seconds [OF assms(1,2)])
  finally show ?thesis using True by (simp only: if_True append_assoc)
next
  case False
  then have "m = 0" using assms(3) by blast
  then show ?thesis
    using False duration_loop_seconds [OF assms(1), of d w] assms(2) by (simp only: if_False append_Nil mult_0 add_0_right)
qed

lemma duration_loop_units:
  assumes "u \<le> 2 ^ 63" shows "duration_loop 0 (duration_units u) = Some u"
proof -
  obtain fr secs where fs: "fmtFrac u 9 = (fr, secs)" by force
  define mins where "mins = secs div 60"
  define hours where "hours = mins div 60"
  have "secs = mins * 60 + secs mod 60" "mins = hours * 60 + mins mod 60" by (simp_all add: mins_def hours_def)
  then have tot: "u = hours * 3600000000000 + mins mod 60 * 60000000000 + (secs mod 60 * 1000000000 + u mod 1000000000)"
    using fmtFrac_9(1) [OF fs] by linarith
  let ?T = "(if mins > 0 then utoa (mins mod 60) @ ''m'' else []) @ utoa (secs mod 60) @ fr @ ''s''"
  have T: "duration_loop (hours * 3600000000000) ?T = Some u"
  proof -
    have "mins > 0 \<or> mins mod 60 = 0" by auto
    note m = duration_loop_minutes [OF fs _ this, of "hours * 3600000000000" "secs mod 60", folded tot]
    show ?thesis by (rule m) (rule assms)
  qed
  have "duration_loop 0 ((if hours > 0 then utoa hours @ ''h'' else []) @ ?T) = Some u"
  proof (cases "hours > 0")
    case True
    have "0 + hours * 3600000000000 \<le> 2 ^ 63" using tot assms by linarith
    then have "duration_loop 0 (utoa hours @ ''h'' @ ?T) = duration_loop (0 + hours * 3600000000000) ?T"
      by (intro duration_loop_whole) (simp_all add: hd_utoa)
    then show ?thesis using T True by (simp only: if_True append_assoc add_0)
  qed (use T in simp)
  then show ?thesis
    unfolding duration_units_def fs Let_def prod.case mins_def [symmetric] hours_def [symmetric] append_assoc .
qed

lemma fmtFrac_small:
  assumes "fmtFrac u prec = (fr, v)" "unit_text uu" "unitMap uu = Some (10 ^ prec)" "prec \<le> 9" "u \<le> 2 ^ 63"
  shows "duration_loop 0 (utoa v @ fr @ uu) = Some u"
proof -
  note e = element_fmtFrac [OF assms(1-4), of "[]", unfolded append_Nil2]
  have "0 * 10 ^ prec + u mod 10 ^ prec \<le> 2 ^ 63" using mod_less_eq_dividend [of u "10 ^ prec"] assms(5) by linarith
  then have v: "v = u div 10 ^ prec" by (intro e(2) [of 0]) simp_all
  then have "v * 10 ^ prec + u mod 10 ^ prec = u" by (simp only: div_mult_mod_eq)
  then have "duration_element (utoa v @ fr @ uu) = Some (u, [])" using e(1) [of v] assms(5) by simp
  then show ?thesis using assms(5) by (rule duration_loop_single)
qed

lemma duration_loop_String:
  assumes "0 < u" "u \<le> 2 ^ 63" shows "duration_loop 0 (Duration_String (int u)) = Some u"
proof -
  consider "u < 1000" | "1000 \<le> u" "u < 1000000" | "1000000 \<le> u" "u < 1000000000" | "1000000000 \<le> u" by linarith
  then show ?thesis
  proof cases
    case 1
    have "duration_loop 0 (utoa u @ ''ns'' @ []) = duration_loop (0 + u * 1) []"
      using assms(2) by (intro duration_loop_whole) simp_all
    then show ?thesis using 1 assms(1) by (simp add: Duration_String_def Let_def)
  next
    case 2
    obtain fr v where f: "fmtFrac u 3 = (fr, v)" by force
    have "duration_loop 0 (utoa v @ fr @ MICRO @ ''s'') = Some u" using assms(2) by (intro fmtFrac_small [OF f]) simp_all
    then show ?thesis using 2 by (simp add: Duration_String_def Let_def f)
  next
    case 3
    obtain fr v where f: "fmtFrac u 6 = (fr, v)" by force
    have "duration_loop 0 (utoa v @ fr @ ''ms'') = Some u" using assms(2) by (intro fmtFrac_small [OF f]) simp_all
    then show ?thesis using 3 by (simp add: Duration_String_def Let_def f)
  next
    case 4
    then show ?thesis using duration_loop_units [OF assms(2)] by (simp add: Duration_String_def Let_def)
  qed
qed

lemma Duration_String_neg: "d < 0 \<Longrightarrow> Duration_String d = CHR ''-'' # Duration_String (- d)"
  by (simp add: Duration_String_def Let_def)

lemma Duration_String_hd: "0 < d \<Longrightarrow> \<exists>c cs. Duration_String d = c # cs \<and> cs \<noteq> [] \<and> c \<noteq> CHR ''-'' \<and> c \<noteq> CHR ''+''"
proof -
  have *: "\<exists>c cs. utoa v @ t = c # cs \<and> cs \<noteq> [] \<and> c \<noteq> CHR ''-'' \<and> c \<noteq> CHR ''+''" if "t \<noteq> []" for v t
    using utoa_hd [of v] that by auto
  assume "0 < d"
  then show ?thesis
    using * by (simp add: Duration_String_def Let_def duration_units_def split: prod.split)
qed

theorem ParseDuration_String:
  assumes "- (2 ^ 63) \<le> d" "d < 2 ^ 63" shows "ParseDuration (Duration_String d) = Some d"
proof -
  have pos: "duration_loop 0 (Duration_String e) = Some (nat e)" if "0 < e" "e \<le> 2 ^ 63" for e
    using duration_loop_String [of "nat e"] that by (simp add: nat_le_iff)
  have nz: "Duration_String e \<noteq> ''0''" "Duration_String e \<noteq> []" if "0 < e" for e using Duration_String_hd [OF that] by auto
  consider "d = 0" | "0 < d" | "d < 0" by linarith
  then show ?thesis
  proof cases
    case 1
    have "duration_element ''0s'' = Some (0, [])"
      by (simp add: duration_element_def digit_val_def is_digit_def less_eq_char_def unitMap_def Let_def)
    then have "duration_loop 0 ''0s'' = Some 0" by (rule duration_loop_single) simp
    then show ?thesis using 1 by (simp add: ParseDuration_def Duration_String_def Let_def)
  next
    case 2
    obtain c cs where "Duration_String d = c # cs" "c \<noteq> CHR ''-''" "c \<noteq> CHR ''+''" using Duration_String_hd [OF 2] by blast
    then show ?thesis using pos [OF 2] nz [OF 2] assms(2) 2 by (simp add: ParseDuration_def Let_def)
  next
    case 3
    then have "duration_loop 0 (Duration_String (- d)) = Some (nat (- d))" using assms(1) by (intro pos) simp_all
    then show ?thesis using 3 nz [of "- d"] by (simp add: ParseDuration_def Duration_String_neg Let_def)
  qed
qed

lemma Duration_String_nonempty [simp]: "Duration_String d \<noteq> []"
  by (simp add: Duration_String_def Let_def duration_units_def split: prod.split)

end
