(* ===== verification/NetAddr.thy ===== *)
theory NetAddr
  imports GoText
begin

text \<open>
  The addresses, interface selectors and paths that the configuration validates: \<^verbatim>\<open>netip.ParseAddr\<close> and
  \<^verbatim>\<open>net.ParseIP\<close>, \<^verbatim>\<open>filepath.Clean\<close> of rooted paths, and \<^verbatim>\<open>validateAddress\<close>, \<^verbatim>\<open>validatePath\<close>,
  \<^verbatim>\<open>validMDNSInterfaceSelector\<close>, \<^verbatim>\<open>listenersConflict\<close> of \<^verbatim>\<open>internal/config/config.go\<close>. Address bytes are natural
  numbers below 256.
\<close>

section \<open>IP addresses\<close>

datatype ip_addr = IP4 "nat list" | IP6 "nat list" string

text \<open>\<^verbatim>\<open>parseIPv4Fields\<close>: the octets read so far, the value and the number of digits of the current one.\<close>

fun ipv4_fields :: "nat list \<Rightarrow> nat \<Rightarrow> nat \<Rightarrow> string \<Rightarrow> nat list option" where
  "ipv4_fields fields val digLen [] = (if length fields < 3 then None else Some (fields @ [val]))"
| "ipv4_fields fields val digLen (c # s) =
     (if is_digit c then
        if digLen = 1 \<and> val = 0 then None
        else let v = val * 10 + digit_val c in if v > 255 then None else ipv4_fields fields v (digLen + 1) s
      else if c = CHR ''.'' then
        if digLen = 0 \<or> s = [] then None
        else if length fields = 3 then None
        else ipv4_fields (fields @ [val]) 0 0 s
      else None)"

definition is_hex :: "char \<Rightarrow> bool" where
  "is_hex c \<longleftrightarrow> is_digit c \<or> CHR ''a'' \<le> c \<and> c \<le> CHR ''f'' \<or> CHR ''A'' \<le> c \<and> c \<le> CHR ''F''"

definition hex_val :: "char \<Rightarrow> nat" where
  "hex_val c = (if is_digit c then digit_val c else if CHR ''a'' \<le> c then of_char c - 87 else of_char c - 55)"

text \<open>The loop of \<^verbatim>\<open>parseIPv6\<close> with the number of groups that still fit, the bytes read so far and the position
  of the ellipsis; the result keeps what was not read.\<close>

fun ipv6_loop :: "nat \<Rightarrow> nat list \<Rightarrow> nat option \<Rightarrow> string \<Rightarrow> (nat list \<times> nat option \<times> string) option" where
  "ipv6_loop 0 ip ellipsis s = Some (ip, ellipsis, s)"
| "ipv6_loop (Suc k) ip ellipsis s =
     (let ds = takeWhile is_hex s; rest = dropWhile is_hex s; acc = foldl (\<lambda>a c. a * 16 + hex_val c) 0 ds
      in if length ds > 4 \<or> ds = [] then None
         else if rest \<noteq> [] \<and> hd rest = CHR ''.'' then
           if ellipsis = None \<and> length ip \<noteq> 12 \<or> length ip + 4 > 16 then None
           else case ipv4_fields [] 0 0 s of None \<Rightarrow> None | Some f \<Rightarrow> Some (ip @ f, ellipsis, [])
         else
           let ip = ip @ [acc div 256, acc mod 256]
           in if rest = [] then Some (ip, ellipsis, [])
              else if hd rest \<noteq> CHR '':'' \<or> tl rest = [] then None
              else
                let t = tl rest
                in if hd t = CHR '':'' then
                     if ellipsis \<noteq> None then None
                     else if tl t = [] then Some (ip, Some (length ip), [])
                     else ipv6_loop k ip (Some (length ip)) (tl t)
                   else ipv6_loop k ip ellipsis t)"

text \<open>Filling the place of the ellipsis with zeros.\<close>

definition ipv6_expand :: "nat list \<Rightarrow> nat option \<Rightarrow> nat list option" where
  "ipv6_expand ip ellipsis =
     (if length ip < 16 then
        case ellipsis of
          None \<Rightarrow> None
        | Some p \<Rightarrow> Some (take p ip @ replicate (16 - length ip) 0 @ drop p ip)
      else if ellipsis \<noteq> None then None
      else Some ip)"

definition ipv6_body :: "string \<Rightarrow> nat list option" where
  "ipv6_body s =
     (let lead = (take 2 s = '':'' @ '':'')
      in if lead \<and> drop 2 s = [] then Some (replicate 16 0)
         else case ipv6_loop 8 [] (if lead then Some 0 else None) (if lead then drop 2 s else s) of
           None \<Rightarrow> None
         | Some (ip, ellipsis, rest) \<Rightarrow> if rest \<noteq> [] then None else ipv6_expand ip ellipsis)"

definition parseIPv6 :: "string \<Rightarrow> ip_addr option" where
  "parseIPv6 s =
     (let body = takeWhile (\<lambda>c. c \<noteq> CHR ''%'') s; tail = dropWhile (\<lambda>c. c \<noteq> CHR ''%'') s; zone = tl tail
      in if tail \<noteq> [] \<and> zone = [] then None
         else map_option (\<lambda>ip. IP6 ip (if tail = [] then [] else zone)) (ipv6_body body))"

definition ParseAddr :: "string \<Rightarrow> ip_addr option" where
  "ParseAddr s = (case find (\<lambda>c. c = CHR ''.'' \<or> c = CHR '':'' \<or> c = CHR ''%'') s of
      None \<Rightarrow> None
    | Some c \<Rightarrow>
        if c = CHR ''.'' then map_option IP4 (ipv4_fields [] 0 0 s)
        else if c = CHR '':'' then parseIPv6 s
        else None)"

fun zone_of :: "ip_addr \<Rightarrow> string" where
  "zone_of (IP4 b) = []" | "zone_of (IP6 b z) = z"

fun is6 :: "ip_addr \<Rightarrow> bool" where
  "is6 (IP4 b) = False" | "is6 (IP6 b z) = True"

definition is4In6 :: "nat list \<Rightarrow> bool" where
  "is4In6 b \<longleftrightarrow> take 12 b = replicate 10 0 @ [255, 255]"

text \<open>\<^verbatim>\<open>IP.To4() != nil\<close> for the address that \<^verbatim>\<open>net.ParseIP\<close> returns.\<close>

fun has_To4 :: "ip_addr \<Rightarrow> bool" where
  "has_To4 (IP4 b) = True" | "has_To4 (IP6 b z) = is4In6 b"

fun isLinkLocalUnicast :: "ip_addr \<Rightarrow> bool" where
  "isLinkLocalUnicast (IP4 b) = (take 2 b = [169, 254])"
| "isLinkLocalUnicast (IP6 b z) =
     (if is4In6 b then take 2 (drop 12 b) = [169, 254] else b ! 0 = 254 \<and> b ! 1 div 64 = 2)"

definition ParseIP :: "string \<Rightarrow> ip_addr option" where
  "ParseIP s = (case ParseAddr s of Some a \<Rightarrow> if zone_of a = [] then Some a else None | None \<Rightarrow> None)"

section \<open>Checks of the configuration\<close>

definition valid_address :: "string \<Rightarrow> bool \<Rightarrow> bool" where
  "valid_address value ipv4 \<longleftrightarrow> value = [] \<or>
     (case ParseIP value of None \<Rightarrow> False | Some ip \<Rightarrow> has_To4 ip = ipv4)"

text \<open>\<^verbatim>\<open>filepath.Clean\<close> of a rooted path: the elements between slashes, without empty and dot elements, a double
  dot taking the last one away.\<close>

fun split_slash :: "string \<Rightarrow> string \<Rightarrow> string list" where
  "split_slash acc [] = [rev acc]"
| "split_slash acc (c # s) = (if c = CHR ''/'' then rev acc # split_slash [] s else split_slash (c # acc) s)"

definition clean_step :: "string list \<Rightarrow> string \<Rightarrow> string list" where
  "clean_step st e = (if e = [] \<or> e = ''.'' then st else if e = ''..'' then tl st else e # st)"

fun join_slash :: "string list \<Rightarrow> string" where
  "join_slash [] = []"
| "join_slash [e] = e"
| "join_slash (e # es) = e @ ''/'' @ join_slash es"

definition clean_rooted :: "string \<Rightarrow> string" where
  "clean_rooted p = ''/'' @ join_slash (rev (foldl clean_step [] (split_slash [] p)))"

definition valid_path :: "string \<Rightarrow> bool" where
  "valid_path value \<longleftrightarrow> value \<noteq> [] \<and> hd value = CHR ''/'' \<and> clean_rooted value = value \<and>
     list_all (\<lambda>c. c \<noteq> CHR 0x00 \<and> c \<noteq> CHR 0x0D \<and> c \<noteq> CHR 0x0A) value"

definition interface_char :: "char \<Rightarrow> bool" where
  "interface_char c \<longleftrightarrow> CHR ''A'' \<le> c \<and> c \<le> CHR ''Z'' \<or> CHR ''a'' \<le> c \<and> c \<le> CHR ''z'' \<or> is_digit c \<or>
     c = CHR ''_'' \<or> c = CHR ''.'' \<or> c = CHR '':'' \<or> c = CHR ''-''"

definition interfaceNameRE :: "string \<Rightarrow> bool" where
  "interfaceNameRE s \<longleftrightarrow> 1 \<le> length s \<and> length s \<le> 15 \<and> list_all interface_char s"

definition validMDNSInterfaceSelector :: "string \<Rightarrow> bool" where
  "validMDNSInterfaceSelector value =
     (if interfaceNameRE value then
        (case ParseAddr value of
           Some a \<Rightarrow> \<not> (is6 a \<and> isLinkLocalUnicast a \<and> zone_of a = [])
         | None \<Rightarrow> True)
      else
        (case ParseAddr value of
           None \<Rightarrow> False
         | Some a \<Rightarrow>
             if zone_of a \<noteq> [] \<and> \<not> interfaceNameRE (zone_of a) then False
             else \<not> is6 a \<or> \<not> isLinkLocalUnicast a \<or> zone_of a \<noteq> []))"

definition listenersConflict :: "string \<Rightarrow> string \<Rightarrow> int \<Rightarrow> string \<Rightarrow> string \<Rightarrow> int \<Rightarrow> bool" where
  "listenersConflict a4 a6 aPort b4 b6 bPort =
     (if aPort \<noteq> bPort then False
      else a4 \<noteq> [] \<and> b4 \<noteq> [] \<and> (a4 = b4 \<or> a4 = ''0.0.0.0'' \<or> b4 = ''0.0.0.0'') \<or>
           a6 \<noteq> [] \<and> b6 \<noteq> [] \<and> (a6 = b6 \<or> a6 = '':'' @ '':'' \<or> b6 = '':'' @ '':''))"

end
