(* ===== verification/GoDecimal.thy ===== *)
theory GoDecimal
  imports GoText
begin

text \<open>
  \<^verbatim>\<open>strconv.ParseFloat(s, 64)\<close> and \<^verbatim>\<open>strconv.FormatFloat(f, 'f', -1, 64)\<close>. Parsing is correctly rounded: the
  value of the text is an exact rational that is rounded once. Formatting prints the shortest decimal that
  rounds to the number, the closest one if there are several.
\<close>

section \<open>Parsing\<close>

definition lower :: "char \<Rightarrow> char" where
  "lower c = (if CHR ''A'' \<le> c \<and> c \<le> CHR ''Z'' then char_of (of_char c + 32 :: nat) else c)"

definition is_hex_letter :: "char \<Rightarrow> bool" where
  "is_hex_letter c \<longleftrightarrow> CHR ''a'' \<le> lower c \<and> lower c \<le> CHR ''f''"

definition is_sign :: "char \<Rightarrow> bool" where
  "is_sign c \<longleftrightarrow> c = CHR ''+'' \<or> c = CHR ''-''"

text \<open>The spellings of infinities and NaN.\<close>

definition special_float :: "string \<Rightarrow> float64 option" where
  "special_float s =
     (let t = map lower s
      in if t = ''nan'' then Some NaN
         else if t \<in> {''inf'', ''+inf'', ''infinity'', ''+infinity''} then Some PInf
         else if t \<in> {''-inf'', ''-infinity''} then Some NInf
         else None)"

text \<open>The digit loop of \<^verbatim>\<open>readFloat\<close>: mantissa, number of digits after the point, whether there was a digit,
  whether there was an underscore, and the rest.\<close>

fun mantissa_loop :: "bool \<Rightarrow> nat \<Rightarrow> nat \<Rightarrow> bool \<Rightarrow> bool \<Rightarrow> bool \<Rightarrow> string \<Rightarrow> nat \<times> nat \<times> bool \<times> bool \<times> string" where
  "mantissa_loop hex m fd sawdot sawdigits underscores [] = (m, fd, sawdigits, underscores, [])"
| "mantissa_loop hex m fd sawdot sawdigits underscores (c # s) =
     (if c = CHR ''_'' then mantissa_loop hex m fd sawdot sawdigits True s
      else if c = CHR ''.'' then
        if sawdot then (m, fd, sawdigits, underscores, c # s) else mantissa_loop hex m fd True sawdigits underscores s
      else if is_digit c then
        mantissa_loop hex (m * (if hex then 16 else 10) + digit_val c) (if sawdot then fd + 1 else fd) sawdot True underscores s
      else if hex \<and> is_hex_letter c then
        mantissa_loop hex (m * 16 + (of_char (lower c) - 87)) (if sawdot then fd + 1 else fd) sawdot True underscores s
      else (m, fd, sawdigits, underscores, c # s))"

text \<open>The digits of an exponent, which stops growing at 10000.\<close>

fun exponent_loop :: "nat \<Rightarrow> bool \<Rightarrow> string \<Rightarrow> nat \<times> bool \<times> string" where
  "exponent_loop e underscores [] = (e, underscores, [])"
| "exponent_loop e underscores (c # s) =
     (if c = CHR ''_'' then exponent_loop e True s
      else if is_digit c then exponent_loop (if e < 10000 then e * 10 + digit_val c else e) underscores s
      else (e, underscores, c # s))"

text \<open>The optional exponent: its value, whether it has an underscore, and the rest; \<open>None\<close> is malformed.\<close>

definition read_exponent :: "bool \<Rightarrow> string \<Rightarrow> (int \<times> bool \<times> string) option" where
  "read_exponent hex s =
     (if s \<noteq> [] \<and> lower (hd s) = (if hex then CHR ''p'' else CHR ''e'') then
        let t = tl s; neg = (t \<noteq> [] \<and> hd t = CHR ''-''); u = (if t \<noteq> [] \<and> is_sign (hd t) then tl t else t)
        in if u = [] \<or> \<not> is_digit (hd u) then None
           else let (e, und, rest) = exponent_loop 0 False u in Some (if neg then - int e else int e, und, rest)
      else if hex then None
      else Some (0, False, s))"

text \<open>\<^verbatim>\<open>underscoreOK\<close>: underscores only between digits or after a base prefix. The state is the class of the last
  character: start, digit, underscore or other.\<close>

datatype last_char = LStart | LDigit | LUnderscore | LOther

fun underscore_loop :: "bool \<Rightarrow> last_char \<Rightarrow> string \<Rightarrow> bool" where
  "underscore_loop hex i [] \<longleftrightarrow> i \<noteq> LUnderscore"
| "underscore_loop hex i (c # s) \<longleftrightarrow>
     (if is_digit c \<or> hex \<and> is_hex_letter c then underscore_loop hex LDigit s
      else if c = CHR ''_'' then i = LDigit \<and> underscore_loop hex LUnderscore s
      else i \<noteq> LUnderscore \<and> underscore_loop hex LOther s)"

definition underscoreOK :: "string \<Rightarrow> bool" where
  "underscoreOK s =
     (let t = (if s \<noteq> [] \<and> is_sign (hd s) then tl s else s);
          prefix = (length t \<ge> 2 \<and> hd t = CHR ''0'' \<and> lower (t ! 1) \<in> {CHR ''b'', CHR ''o'', CHR ''x''})
      in if prefix then underscore_loop (lower (t ! 1) = CHR ''x'') LDigit (drop 2 t)
         else underscore_loop False LStart t)"

definition number_value :: "bool \<Rightarrow> nat \<Rightarrow> nat \<Rightarrow> int \<Rightarrow> rat" where
  "number_value hex m fd e =
     (if hex then of_nat m * 2 powi (e - 4 * int fd) else of_nat m * 10 powi (e - int fd))"

definition hex_prefix :: "string \<Rightarrow> bool" where
  "hex_prefix t \<longleftrightarrow> length t > 2 \<and> hd t = CHR ''0'' \<and> lower (t ! 1) = CHR ''x''"

definition ParseFloat :: "string \<Rightarrow> float64 option" where
  "ParseFloat s = (case special_float s of
      Some f \<Rightarrow> Some f
    | None \<Rightarrow>
        let neg = (s \<noteq> [] \<and> hd s = CHR ''-''); t = (if s \<noteq> [] \<and> is_sign (hd s) then tl s else s);
            hex = hex_prefix t;
            (m, fd, sawdigits, und, r) = mantissa_loop hex 0 0 False False False (if hex then drop 2 t else t)
        in if \<not> sawdigits then None
           else case read_exponent hex r of
             None \<Rightarrow> None
           | Some (e, und', rest) \<Rightarrow>
               if rest \<noteq> [] \<or> (und \<or> und') \<and> \<not> underscoreOK s then None
               else case fl (number_value hex m fd e) of
                 Fin v \<Rightarrow> Some (if neg then Fin (- v) else Fin v)
               | _ \<Rightarrow> None)"

section \<open>Formatting\<close>

text \<open>The multiples of \<open>10 ^ s\<close> next to \<open>x\<close> that round to \<open>x\<close>, the closer one first, the even one on a tie.\<close>

definition rounds_to :: "rat \<Rightarrow> int \<Rightarrow> int \<Rightarrow> bool" where
  "rounds_to x s m \<longleftrightarrow> fl (of_int m * 10 powi s) = Fin x"

definition pick_decimal :: "rat \<Rightarrow> int \<Rightarrow> int option" where
  "pick_decimal x s =
     (let q = x / 10 powi s; lo = \<lfloor>q\<rfloor>; hi = \<lceil>q\<rceil>;
          below = q - of_int lo; above = of_int hi - q;
          (near, far) = (if below < above \<or> below = above \<and> even lo then (lo, hi) else (hi, lo))
      in if rounds_to x s near then Some near else if rounds_to x s far then Some far else None)"

fun shortest_decimal :: "nat \<Rightarrow> int \<Rightarrow> rat \<Rightarrow> int \<times> int" where
  "shortest_decimal 0 s x = (\<lfloor>x / 10 powi s\<rfloor>, s)"
| "shortest_decimal (Suc k) s x = (case pick_decimal x s of Some m \<Rightarrow> (m, s) | None \<Rightarrow> shortest_decimal k (s - 1) x)"

fun frac_digits :: "nat \<Rightarrow> nat \<Rightarrow> string" where
  "frac_digits 0 n = []"
| "frac_digits (Suc k) n = frac_digits k (n div 10) @ [digit_char (n mod 10)]"

text \<open>The digits of \<open>m * 10 ^ s\<close> in positional notation.\<close>

definition render_decimal :: "nat \<Rightarrow> int \<Rightarrow> string" where
  "render_decimal m s =
     (if 0 \<le> s then utoa (m * 10 ^ nat s)
      else let k = nat (- s) in utoa (m div 10 ^ k) @ ''.'' @ frac_digits k (m mod 10 ^ k))"

text \<open>Every double is below \<open>10 ^ 309\<close> and a multiple of \<open>10 powi - 1074\<close>, so the search over the exponents covers all of them.\<close>

definition format_positive :: "rat \<Rightarrow> string" where
  "format_positive x = (let (m, s) = shortest_decimal 1383 309 x in render_decimal (nat m) s)"

fun FormatFloat :: "float64 \<Rightarrow> string" where
  "FormatFloat NaN = ''NaN''"
| "FormatFloat PInf = ''+Inf''"
| "FormatFloat NInf = ''-Inf''"
| "FormatFloat (Fin x) = (if x = 0 then ''0'' else if x < 0 then CHR ''-'' # format_positive (- x) else format_positive x)"

section \<open>What is formatted parses back\<close>

lemma frac_digits_props [simp]:
  "length (frac_digits k n) = k" "list_all is_digit (frac_digits k n)" "dec_val x (frac_digits k n) = x * 10 ^ k + n mod 10 ^ k"
proof (induction k arbitrary: n x)
  case (Suc k)
  { case 1 show ?case by (simp add: Suc(1)) }
  { case 2 show ?case by (simp add: Suc(2)) }
  { case 3 show ?case unfolding frac_digits.simps digit_split(1) by (simp add: Suc(3) algebra_simps) }
qed simp_all

lemma digit_not_special: "is_digit c \<Longrightarrow> c \<noteq> CHR ''_'' \<and> c \<noteq> CHR ''.''"
  by (auto simp: is_digit_def less_eq_char_def)

lemma mantissa_digits:
  "list_all is_digit ds \<Longrightarrow> mantissa_loop False m fd dot dig und (ds @ t) =
     mantissa_loop False (dec_val m ds) (if dot then fd + length ds else fd) dot (dig \<or> ds \<noteq> []) und t"
  by (induction ds arbitrary: m fd dig) (auto simp: digit_not_special)

lemma lower_digit: "is_digit c \<Longrightarrow> lower c = c"
  by (auto simp: lower_def is_digit_def less_eq_char_def)

lemma digit_neq: "is_digit c \<Longrightarrow> c \<noteq> CHR ''n''" "is_digit c \<Longrightarrow> c \<noteq> CHR ''i''" "is_digit c \<Longrightarrow> c \<noteq> CHR ''+''"
  "is_digit c \<Longrightarrow> c \<noteq> CHR ''-''"
  by (auto simp: is_digit_def less_eq_char_def)

lemma special_float_digit: "is_digit c \<Longrightarrow> special_float (c # s) = None"
  by (simp add: special_float_def Let_def lower_digit digit_neq)

text \<open>Digits with an optional fraction are read as their exact value.\<close>

lemma ParseFloat_digits:
  assumes "list_all is_digit ds" "ds \<noteq> []" "list_all is_digit fs" "t = ds @ (if dot then CHR ''.'' # fs else [])" "dot \<or> fs = []"
  shows "ParseFloat t = (case fl (of_nat (dec_val (dec_val 0 ds) fs) * 10 powi (- int (length fs))) of Fin v \<Rightarrow> Some (Fin v) | _ \<Rightarrow> None)"
    "special_float (CHR ''-'' # t) = None \<Longrightarrow> ParseFloat (CHR ''-'' # t) =
       (case fl (of_nat (dec_val (dec_val 0 ds) fs) * 10 powi (- int (length fs))) of Fin v \<Rightarrow> Some (Fin (- v)) | _ \<Rightarrow> None)"
proof -
  obtain c cs where ds: "ds = c # cs" "is_digit c" using assms(1,2) by (cases ds) auto
  have hd: "t \<noteq> []" "hd t = c" using ds assms(4) by auto
  have sgn: "\<not> is_sign c" "c \<noteq> CHR ''-''" using ds(2) by (auto simp: is_sign_def)
  have x: "\<not> hex_prefix t"
  proof
    assume a: "hex_prefix t"
    have "t ! 1 = CHR ''.'' \<or> is_digit (t ! 1)"
      using a assms(1,3,4,5) ds by (cases cs) (auto simp: hex_prefix_def split: if_splits)
    then show False using a lower_digit by (auto simp: hex_prefix_def lower_def less_eq_char_def is_digit_def split: if_splits)
  qed
  have m: "mantissa_loop False 0 0 False False False t = (dec_val (dec_val 0 ds) fs, length fs, True, False, [])"
    unfolding assms(4) using assms(1,2,3,5) mantissa_digits [of fs "dec_val 0 ds" 0 True True False "[]"]
    by (auto simp: mantissa_digits)
  show "ParseFloat t = (case fl (of_nat (dec_val (dec_val 0 ds) fs) * 10 powi (- int (length fs))) of Fin v \<Rightarrow> Some (Fin v) | _ \<Rightarrow> None)"
  proof -
    have "special_float t = None" using special_float_digit [OF ds(2), of "tl t"] hd by (metis list.collapse)
    then show ?thesis
      unfolding ParseFloat_def using hd sgn x m
      by (simp add: Let_def read_exponent_def number_value_def split: float64.split)
  qed
  show "ParseFloat (CHR ''-'' # t) =
       (case fl (of_nat (dec_val (dec_val 0 ds) fs) * 10 powi (- int (length fs))) of Fin v \<Rightarrow> Some (Fin (- v)) | _ \<Rightarrow> None)"
    if "special_float (CHR ''-'' # t) = None"
    unfolding ParseFloat_def using that x m
    by (simp add: Let_def read_exponent_def number_value_def is_sign_def split: float64.split)
qed

lemma render_decimal_shape:
  obtains ds fs dot where "render_decimal m s = ds @ (if dot then CHR ''.'' # fs else [])" "list_all is_digit ds" "ds \<noteq> []"
    "list_all is_digit fs" "dot \<or> fs = []"
    "of_nat (dec_val (dec_val 0 ds) fs) * 10 powi (- int (length fs)) = (of_nat m * 10 powi s :: rat)"
proof (cases "0 \<le> s")
  case True
  then have "(of_nat (m * 10 ^ nat s) :: rat) = of_nat m * 10 powi s" by (simp add: power_int_def)
  then show ?thesis using that [of "utoa (m * 10 ^ nat s)" False "[]"] True by (simp add: render_decimal_def)
next
  case False
  let ?k = "nat (- s)"
  have v: "dec_val (dec_val 0 (utoa (m div 10 ^ ?k))) (frac_digits ?k (m mod 10 ^ ?k)) = m"
    by (simp only: frac_digits_props dec_val_utoa mod_mod_trivial div_mult_mod_eq)
  have "- int (length (frac_digits ?k (m mod 10 ^ ?k))) = s" using False by simp
  note that [of "utoa (m div 10 ^ ?k)" True "frac_digits ?k (m mod 10 ^ ?k)", unfolded v this]
  then show ?thesis using False by (simp add: render_decimal_def Let_def)
qed

lemma special_minus_digit: "is_digit c \<Longrightarrow> special_float (CHR ''-'' # c # s) = None"
proof -
  assume c: "is_digit c"
  have "lower CHR ''-'' = CHR ''-''" by (simp add: lower_def less_eq_char_def)
  then show ?thesis by (simp add: special_float_def Let_def lower_digit [OF c] digit_neq [OF c])
qed

lemma ParseFloat_render:
  "ParseFloat (render_decimal m s) = (case fl (of_nat m * 10 powi s) of Fin v \<Rightarrow> Some (Fin v) | _ \<Rightarrow> None)"
  "ParseFloat (CHR ''-'' # render_decimal m s) = (case fl (of_nat m * 10 powi s) of Fin v \<Rightarrow> Some (Fin (- v)) | _ \<Rightarrow> None)"
proof -
  obtain ds fs dot where r: "render_decimal m s = ds @ (if dot then CHR ''.'' # fs else [])" "list_all is_digit ds" "ds \<noteq> []"
    "list_all is_digit fs" "dot \<or> fs = []"
    "of_nat (dec_val (dec_val 0 ds) fs) * 10 powi (- int (length fs)) = (of_nat m * 10 powi s :: rat)"
    by (rule render_decimal_shape)
  obtain c cs where "ds = c # cs" "is_digit c" using r(2,3) by (cases ds) auto
  then have "special_float (CHR ''-'' # render_decimal m s) = None" unfolding r(1) by (simp add: special_minus_digit)
  note p = ParseFloat_digits(1) [OF r(2,3,4,1,5), unfolded r(6)] ParseFloat_digits(2) [OF r(2,3,4,1,5) this, unfolded r(6)]
  show "ParseFloat (render_decimal m s) = (case fl (of_nat m * 10 powi s) of Fin v \<Rightarrow> Some (Fin v) | _ \<Rightarrow> None)"
    "ParseFloat (CHR ''-'' # render_decimal m s) = (case fl (of_nat m * 10 powi s) of Fin v \<Rightarrow> Some (Fin (- v)) | _ \<Rightarrow> None)"
    by (rule p)+
qed

text \<open>The numbers of type \<^verbatim>\<open>float64\<close>: what rounding leaves unchanged.\<close>

fun is_float64 :: "float64 \<Rightarrow> bool" where
  "is_float64 (Fin x) \<longleftrightarrow> fl x = Fin x"
| "is_float64 _ \<longleftrightarrow> True"

lemma fl_multiple: "fl x = Fin y \<Longrightarrow> \<exists>r e. y = of_int r * 2 powi e \<and> - 1074 \<le> e"
proof -
  assume a: "fl x = Fin y"
  show ?thesis
  proof (cases "x = 0")
    case True
    then have "y = of_int 0 * 2 powi 0" using a by (simp add: fl_def)
    then show ?thesis by (metis neg_0_le_iff_le neg_le_0_iff_le zero_le_numeral)
  next
    case False
    then have "y = of_int (round_half_even (x / ulp x)) * ulp x" using a by (auto simp: fl_def Let_def split: if_splits)
    then show ?thesis by (auto simp: ulp_def pow2_def intro!: exI)
  qed
qed

lemma dyadic_decimal:
  assumes "- int n \<le> e" shows "\<exists>m :: int. of_int r * 2 powi e / (10 :: rat) powi (- int n) = of_int m"
proof -
  have "(10 :: rat) powi (- int n) = 1 / (2 ^ n * 5 ^ n)"
    by (simp add: power_int_minus divide_inverse flip: power_mult_distrib)
  then have "of_int r * 2 powi e / (10 :: rat) powi (- int n) = of_int r * (2 powi e * 2 ^ n) * 5 ^ n" by simp
  also have "2 powi e * 2 ^ n = (2 :: rat) powi (e + int n)" by (simp add: power_int_add)
  also have "\<dots> = of_int (2 ^ nat (e + int n))" using assms by (simp add: power_int_def)
  finally have "of_int r * 2 powi e / (10 :: rat) powi (- int n) = of_int (r * 2 ^ nat (e + int n) * 5 ^ n)" by simp
  then show ?thesis by blast
qed

lemma fl_fraction_integer: "fl x = Fin y \<Longrightarrow> \<exists>m :: int. y / 10 powi (- 1074) = of_int m"
proof -
  assume "fl x = Fin y"
  then obtain r e where y: "y = of_int r * 2 powi e" and e: "- 1074 \<le> e" using fl_multiple by blast
  have "int 1074 = 1074" by simp
  note dyadic_decimal [of 1074 e r, unfolded this]
  then show ?thesis unfolding y using e by blast
qed

lemma pick_decimal_Some:
  assumes "pick_decimal x s = Some m" "0 < x" shows "rounds_to x s m \<and> 0 \<le> m"
proof -
  have "0 \<le> x / 10 powi s" using assms(2) by simp
  then have "0 \<le> \<lfloor>x / 10 powi s\<rfloor>" "0 \<le> \<lceil>x / 10 powi s\<rceil>" by simp_all
  then show ?thesis using assms(1) by (auto simp: pick_decimal_def Let_def split: if_splits)
qed

lemma shortest_decimal_rounds:
  "0 < x \<Longrightarrow> fl x = Fin x \<Longrightarrow> \<exists>i :: int. x / 10 powi (s - int k) = of_int i \<Longrightarrow> shortest_decimal k s x = (m, s') \<Longrightarrow>
   rounds_to x s' m \<and> 0 \<le> m"
proof (induction k s x rule: shortest_decimal.induct)
  case (1 s x)
  then obtain i :: int where i: "x / 10 powi s = of_int i" by auto
  then have "x = of_int i * 10 powi s" by (simp add: field_simps)
  moreover have "0 < x / 10 powi s" using 1(1) by simp
  ultimately show ?case using 1(2,4) i by (simp add: rounds_to_def)
next
  case (2 k s x)
  show ?case
  proof (cases "pick_decimal x s")
    case None
    have "s - 1 - int k = s - int (Suc k)" by simp
    then show ?thesis using 2 None by (metis shortest_decimal.simps(2) option.simps(4))
  next
    case (Some d)
    then show ?thesis using 2(2,5) pick_decimal_Some by simp
  qed
qed

lemma format_positive:
  assumes "0 < x" "fl x = Fin x"
  obtains m s where "format_positive x = render_decimal m s" "fl (of_nat m * 10 powi s) = Fin x"
proof -
  obtain m s where ms: "shortest_decimal 1383 309 x = (m, s)" by force
  have "309 - int 1383 = - 1074" by simp
  then have "\<exists>i :: int. x / 10 powi (309 - int 1383) = of_int i" using fl_fraction_integer [OF assms(2)] by metis
  then have "rounds_to x s m \<and> 0 \<le> m" using assms ms by (intro shortest_decimal_rounds)
  then show ?thesis using that [of "nat m" s] by (simp add: format_positive_def ms rounds_to_def)
qed

lemma round_half_even_minus: "round_half_even (- q) = - round_half_even q"
proof (cases "q = of_int \<lfloor>q\<rfloor>")
  case True
  then show ?thesis by (metis of_int_minus round_half_even_int)
next
  case False
  define f where "f = \<lfloor>q\<rfloor>"
  define r where "r = q - of_int f"
  have r: "0 < r" "r < 1" using False of_int_floor_le [of q] floor_correct [of q] unfolding r_def f_def by linarith+
  have nf: "\<lfloor>- q\<rfloor> = - f - 1" using r by (intro floor_unique) (simp_all add: r_def)
  have nr: "- q - of_int (- f - 1) = 1 - r" by (simp add: r_def)
  show ?thesis
    unfolding round_half_even_def Let_def nf nr f_def [symmetric] r_def [symmetric]
    by (cases "r < 1 / 2"; cases "r = 1 / 2") auto
qed

lemma fl_minus: "fl (- x) = fneg (fl x)"
proof (cases "x = 0")
  case False
  define y where "y = of_int (round_half_even (x / ulp x)) * ulp x"
  have u: "ulp (- x) = ulp x" by (simp add: ulp_def)
  have n: "of_int (round_half_even (- x / ulp (- x))) * ulp (- x) = - y"
    unfolding u y_def by (simp add: round_half_even_minus)
  have big: "(0 :: rat) < 2 ^ 1024" by (rule zero_less_power) simp
  then show ?thesis using False unfolding fl_def Let_def n y_def [symmetric] by (auto simp del: zero_less_power)
qed (simp add: fl_def)

lemma special_floats:
  "special_float ''NaN'' = Some NaN" "special_float ''+Inf'' = Some PInf" "special_float ''-Inf'' = Some NInf"
  by code_simp+

text \<open>\<^verbatim>\<open>ParseFloat\<close> gives back exactly the number that \<^verbatim>\<open>FormatFloat\<close> printed.\<close>

theorem ParseFloat_FormatFloat:
  assumes "is_float64 f" shows "ParseFloat (FormatFloat f) = Some f"
proof (cases f)
  case (Fin x)
  then have fx: "fl x = Fin x" using assms by simp
  consider "x = 0" | "0 < x" | "x < 0" by linarith
  then show ?thesis
  proof cases
    case 1
    have "ParseFloat (render_decimal 0 0) = Some (Fin 0)" by (simp add: ParseFloat_render fl_def)
    moreover have "render_decimal 0 0 = ''0''" by code_simp
    ultimately show ?thesis using Fin 1 by simp
  next
    case 2
    obtain m s where "format_positive x = render_decimal m s" "fl (of_nat m * 10 powi s) = Fin x"
      using format_positive [OF 2 fx] .
    then show ?thesis using Fin 2 by (simp add: ParseFloat_render)
  next
    case 3
    have "fl (- x) = Fin (- x)" by (simp add: fl_minus fx)
    then obtain m s where "format_positive (- x) = render_decimal m s" "fl (of_nat m * 10 powi s) = Fin (- x)"
      using format_positive [of "- x"] 3 by auto
    then show ?thesis using Fin 3 by (simp add: ParseFloat_render)
  qed
qed (simp_all add: ParseFloat_def special_floats)

lemma FormatFloat_nonempty [simp]: "FormatFloat f \<noteq> []"
  by (cases f) (auto simp: format_positive_def render_decimal_def Let_def split: prod.split)

end
