(* ===== verification/Config.thy ===== *)
theory Config
  imports Rules Uci NetAddr GoDecimal "HOL-Library.Sublist"
begin

text \<open>
  \<^verbatim>\<open>internal/config/config.go\<close>: the daemon's settings, their validation, and the functions that read and
  rewrite the UCI configuration file. The file is an optional record of contents and permission bits; the
  system calls of an atomic write may fail at any step, which the argument \<open>fails\<close> decides. The functions
  that rewrite the file hold \<^verbatim>\<open>saveMu\<close>, so each is one atomic step. The cron parser is a parameter.
\<close>

section \<open>Settings and errors\<close>

record Config =
  c_device_mac :: string
  c_pin :: string
  c_token :: string
  c_port :: int
  c_lan_api :: bool
  c_ble_pin :: string
  c_http_enabled :: bool
  c_http_addr4 :: string
  c_http_addr6 :: string
  c_http_port :: int
  c_https_enabled :: bool
  c_https_addr4 :: string
  c_https_addr6 :: string
  c_https_port :: int
  c_tls_cert :: string
  c_tls_key :: string
  c_token_store :: string
  c_pairing_ttl :: duration
  c_pairing_always_on :: bool
  c_advanced :: bool
  c_mdns_enabled :: bool
  c_wan_access :: bool
  c_mdns_interfaces :: "string list"
  c_rules :: "Rule list"

datatype config_error =
    PortInvalid string | AddressInvalid string bool | NoListener | HTTPNeedsAddress | HTTPSNeedsAddress
  | ListenersOverlap int | PathInvalid string | TTLNotPositive | InterfaceInvalid string | InterfaceDuplicate string
  | MDNSNeedsInterface | BoolInvalid string | TTLUnparsable string | FieldUnparsable string | RuleInvalid rule_error
  | ReadFailed | StatFailed | WriteFailed | UCIError uci_error | CandidateInvalid | ConfigPanic

definition sum_bind :: "'e + 'a \<Rightarrow> ('a \<Rightarrow> 'e + 'b) \<Rightarrow> 'e + 'b" where
  "sum_bind m f = (case m of Inl e \<Rightarrow> Inl e | Inr x \<Rightarrow> f x)"

lemma sum_bind_simps [simp]: "sum_bind (Inl e) f = Inl e" "sum_bind (Inr x) f = f x"
  by (simp_all add: sum_bind_def)

text \<open>A Go map lookup: the zero value for a missing key.\<close>

definition opt :: "UCISection \<Rightarrow> string \<Rightarrow> string" where
  "opt s k = (case map_of (us_options s) k of None \<Rightarrow> [] | Some v \<Rightarrow> v)"

section \<open>The view of the settings for administrators\<close>

record ListenerSettings =
  ls_enabled :: bool
  ls_addr4 :: string
  ls_addr6 :: string
  ls_port :: int

record SettingsView =
  sv_http :: ListenerSettings
  sv_https :: ListenerSettings
  sv_tls_cert :: string
  sv_tls_key :: string
  sv_token_store :: string
  sv_pairing_ttl :: string
  sv_pairing_always_on :: bool
  sv_advanced :: bool
  sv_mdns_enabled :: bool
  sv_mdns_interfaces :: "string list"
  sv_wan_access :: bool
  sv_ble_pin :: string

definition Config_SettingsView :: "Config \<Rightarrow> SettingsView" where
  "Config_SettingsView c =
     \<lparr>sv_http = \<lparr>ls_enabled = c_http_enabled c, ls_addr4 = c_http_addr4 c, ls_addr6 = c_http_addr6 c, ls_port = c_http_port c\<rparr>,
      sv_https = \<lparr>ls_enabled = c_https_enabled c, ls_addr4 = c_https_addr4 c, ls_addr6 = c_https_addr6 c, ls_port = c_https_port c\<rparr>,
      sv_tls_cert = c_tls_cert c, sv_tls_key = c_tls_key c, sv_token_store = c_token_store c,
      sv_pairing_ttl = Duration_String (c_pairing_ttl c), sv_pairing_always_on = c_pairing_always_on c,
      sv_advanced = c_advanced c, sv_mdns_enabled = c_mdns_enabled c, sv_mdns_interfaces = c_mdns_interfaces c,
      sv_wan_access = c_wan_access c, sv_ble_pin = c_ble_pin c\<rparr>"

text \<open>The bootstrap token is not part of the view.\<close>

lemma SettingsView_hides_token: "Config_SettingsView (c\<lparr>c_token := t\<rparr>) = Config_SettingsView c"
  by (simp add: Config_SettingsView_def)

section \<open>Rules as sections\<close>

definition number_option :: "UCISection \<Rightarrow> string \<Rightarrow> (string \<Rightarrow> 'a option) \<Rightarrow> 'a \<Rightarrow> config_error + 'a" where
  "number_option s k parse dflt =
     (if opt s k = [] then Inr dflt
      else case parse (opt s k) of None \<Rightarrow> Inl (FieldUnparsable k) | Some n \<Rightarrow> Inr n)"

definition sectionToRule :: "cron_parser \<Rightarrow> UCISection \<Rightarrow> config_error + Rule" where
  "sectionToRule cron s =
     sum_bind (number_option s ''percent'' Atoi 0) (\<lambda>percent.
     sum_bind (number_option s ''watts'' ParseFloat (Fin 0)) (\<lambda>watts.
     sum_bind (number_option s ''temp_c'' ParseFloat (Fin 0)) (\<lambda>temp_c.
     sum_bind (number_option s ''hysteresis_margin'' Atoi 5) (\<lambda>margin.
     sum_bind (number_option s ''hold'' ParseDuration 0) (\<lambda>hold.
     sum_bind (number_option s ''repeat_every'' ParseDuration 0) (\<lambda>repeat_every.
     let r = \<lparr>r_name = us_name s, r_enabled = (opt s ''enabled'' = ''1''), r_condition = opt s ''condition'',
              r_state = opt s ''state'', r_op = opt s ''op'', r_port = opt s ''port'', r_percent = percent,
              r_watts = watts, r_temp_c = temp_c, r_hold = hold, r_repeat_every = repeat_every,
              r_hysteresis_margin = margin, r_cron = opt s ''cron'', r_actions = get_list s ''action'',
              r_confirm_shutdown = (opt s ''confirm_shutdown'' = ''1'')\<rparr>
     in case Rule_Validate cron r of Some e \<Rightarrow> Inl (RuleInvalid e) | None \<Rightarrow> Inr r))))))"

definition boolOption :: "bool \<Rightarrow> string" where
  "boolOption v = (if v then ''1'' else ''0'')"

text \<open>\<^verbatim>\<open>set\<close> stores non-empty values only; the options of numbers are left out when they have their default.\<close>

definition when_set :: "bool \<Rightarrow> string \<Rightarrow> string \<Rightarrow> (string \<times> string) list" where
  "when_set b k v = (if b then [(k, v)] else [])"

definition ruleToSection :: "Rule \<Rightarrow> UCISection" where
  "ruleToSection r = (newSection ''rule'' (r_name r))\<lparr>
     us_options :=
       [(''enabled'', boolOption (r_enabled r))] @
       when_set (r_condition r \<noteq> []) ''condition'' (r_condition r) @
       when_set (r_state r \<noteq> []) ''state'' (r_state r) @
       when_set (r_op r \<noteq> []) ''op'' (r_op r) @
       when_set (r_port r \<noteq> []) ''port'' (r_port r) @
       when_set (r_cron r \<noteq> []) ''cron'' (r_cron r) @
       when_set (r_percent r \<noteq> 0) ''percent'' (Itoa (r_percent r)) @
       when_set (r_watts r \<noteq> Fin 0) ''watts'' (FormatFloat (r_watts r)) @
       when_set (r_temp_c r \<noteq> Fin 0) ''temp_c'' (FormatFloat (r_temp_c r)) @
       when_set (r_hold r \<noteq> 0) ''hold'' (Duration_String (r_hold r)) @
       when_set (r_repeat_every r \<noteq> 0) ''repeat_every'' (Duration_String (r_repeat_every r)) @
       when_set (r_hysteresis_margin r \<noteq> 5) ''hysteresis_margin'' (Itoa (r_hysteresis_margin r)) @
       when_set (r_confirm_shutdown r) ''confirm_shutdown'' ''1'',
     us_lists := [(''action'', r_actions r)]\<rparr>"

section \<open>Validation\<close>

definition defaultConfig :: Config where
  "defaultConfig = \<lparr>c_device_mac = [], c_pin = ''020555'', c_token = [], c_port = 8377, c_lan_api = True,
     c_ble_pin = ''020555'', c_http_enabled = True, c_http_addr4 = ''0.0.0.0'', c_http_addr6 = ''::'', c_http_port = 8377,
     c_https_enabled = True, c_https_addr4 = ''0.0.0.0'', c_https_addr6 = ''::'', c_https_port = 8378,
     c_tls_cert = ''/etc/wattline/tls/server.crt'', c_tls_key = ''/etc/wattline/tls/server.key'',
     c_token_store = ''/etc/wattline/tokens.json'', c_pairing_ttl = 5 * minute, c_pairing_always_on = False,
     c_advanced = False, c_mdns_enabled = True, c_wan_access = False, c_mdns_interfaces = [''br-lan''], c_rules = []\<rparr>"

definition parseBoolOption :: "UCISection \<Rightarrow> string \<Rightarrow> bool \<Rightarrow> config_error + bool" where
  "parseBoolOption s key dst = (case map_of (us_options s) key of
      None \<Rightarrow> Inr dst
    | Some v \<Rightarrow> if v = ''0'' then Inr False else if v = ''1'' then Inr True else Inl (BoolInvalid key))"

definition parsePortOption :: "UCISection \<Rightarrow> string \<Rightarrow> int \<Rightarrow> config_error + int" where
  "parsePortOption s key dst = (case map_of (us_options s) key of
      None \<Rightarrow> Inr dst
    | Some v \<Rightarrow> (case Atoi v of
        None \<Rightarrow> Inl (PortInvalid key)
      | Some n \<Rightarrow> if n < 1 \<or> n > 65535 then Inl (PortInvalid key) else Inr n))"

definition validateAddress :: "string \<Rightarrow> string \<Rightarrow> bool \<Rightarrow> config_error option" where
  "validateAddress name value ipv4 = (if valid_address value ipv4 then None else Some (AddressInvalid name ipv4))"

definition validatePath :: "string \<Rightarrow> string \<Rightarrow> config_error option" where
  "validatePath name value = (if valid_path value then None else Some (PathInvalid name))"

fun validate_interfaces :: "string list \<Rightarrow> string list \<Rightarrow> config_error option" where
  "validate_interfaces seen [] = None"
| "validate_interfaces seen (n # ns) =
     (if \<not> validMDNSInterfaceSelector n then Some (InterfaceInvalid n)
      else if n \<in> set seen then Some (InterfaceDuplicate n)
      else validate_interfaces (n # seen) ns)"

fun first_error :: "'e option list \<Rightarrow> 'e option" where
  "first_error [] = None"
| "first_error (None # es) = first_error es"
| "first_error (Some e # es) = Some e"

definition validate_port :: "string \<Rightarrow> int \<Rightarrow> config_error option" where
  "validate_port name p = (if p < 1 \<or> p > 65535 then Some (PortInvalid name) else None)"

definition fail_if :: "bool \<Rightarrow> 'e \<Rightarrow> 'e option" where
  "fail_if b e = (if b then Some e else None)"

definition Config_Validate :: "Config \<Rightarrow> config_error option" where
  "Config_Validate c = first_error [
     validate_port ''port'' (c_http_port c),
     validate_port ''https_port'' (c_https_port c),
     validateAddress ''http_addr4'' (c_http_addr4 c) True,
     validateAddress ''http_addr6'' (c_http_addr6 c) False,
     validateAddress ''https_addr4'' (c_https_addr4 c) True,
     validateAddress ''https_addr6'' (c_https_addr6 c) False,
     fail_if (\<not> c_http_enabled c \<and> \<not> c_https_enabled c) NoListener,
     fail_if (c_http_enabled c \<and> c_http_addr4 c = [] \<and> c_http_addr6 c = []) HTTPNeedsAddress,
     fail_if (c_https_enabled c \<and> c_https_addr4 c = [] \<and> c_https_addr6 c = []) HTTPSNeedsAddress,
     fail_if (c_http_enabled c \<and> c_https_enabled c \<and>
         listenersConflict (c_http_addr4 c) (c_http_addr6 c) (c_http_port c)
           (c_https_addr4 c) (c_https_addr6 c) (c_https_port c)) (ListenersOverlap (c_http_port c)),
     validatePath ''tls_cert'' (c_tls_cert c),
     validatePath ''tls_key'' (c_tls_key c),
     validatePath ''token_store'' (c_token_store c),
     fail_if (c_pairing_ttl c \<le> 0) TTLNotPositive,
     validate_interfaces [] (c_mdns_interfaces c),
     fail_if (c_mdns_enabled c \<and> c_mdns_interfaces c = []) MDNSNeedsInterface]"

section \<open>Reading the file\<close>

definition addr_option :: "UCISection \<Rightarrow> string \<Rightarrow> bool \<Rightarrow> string \<Rightarrow> string \<Rightarrow> string" where
  "addr_option m key lan any loopback = (case map_of (us_options m) key of
      None \<Rightarrow> if lan then any else loopback | Some v \<Rightarrow> v)"

definition keep_option :: "UCISection \<Rightarrow> string \<Rightarrow> string \<Rightarrow> string" where
  "keep_option m key dflt = (case map_of (us_options m) key of None \<Rightarrow> dflt | Some v \<Rightarrow> v)"

definition ttl_option :: "UCISection \<Rightarrow> duration \<Rightarrow> config_error + duration" where
  "ttl_option m dflt = (case map_of (us_options m) ''pairing_ttl'' of
      None \<Rightarrow> Inr dflt
    | Some v \<Rightarrow> (case ParseDuration v of None \<Rightarrow> Inl (TTLUnparsable v) | Some d \<Rightarrow> Inr d))"

definition interfaces_option :: "UCISection \<Rightarrow> string list \<Rightarrow> string list" where
  "interfaces_option m dflt = (case map_of (us_lists m) ''mdns_interface'' of
      Some vs \<Rightarrow> vs
    | None \<Rightarrow> if map_of (us_options m) ''mdns_enabled'' \<noteq> None then [] else dflt)"

text \<open>The part of \<^verbatim>\<open>Load\<close> that reads the section \<^verbatim>\<open>wattline main\<close>, over the defaults \<open>c\<close>. (The four last switches are
  read in the order of a Go map, so which of several malformed ones is reported is not fixed.)\<close>

definition load_main :: "Config \<Rightarrow> UCISection \<Rightarrow> config_error + Config" where
  "load_main c m =
     sum_bind (parsePortOption m ''port'' (c_http_port c)) (\<lambda>http_port.
     sum_bind (parseBoolOption m ''http_enabled'' (c_http_enabled c)) (\<lambda>http_enabled.
     sum_bind (parseBoolOption m ''https_enabled'' (c_https_enabled c)) (\<lambda>https_enabled.
     sum_bind (parsePortOption m ''https_port'' (c_https_port c)) (\<lambda>https_port.
     sum_bind (ttl_option m (c_pairing_ttl c)) (\<lambda>ttl.
     sum_bind (parseBoolOption m ''pairing_always_on'' (c_pairing_always_on c)) (\<lambda>always_on.
     sum_bind (parseBoolOption m ''advanced'' (c_advanced c)) (\<lambda>advanced.
     sum_bind (parseBoolOption m ''mdns_enabled'' (c_mdns_enabled c)) (\<lambda>mdns.
     sum_bind (parseBoolOption m ''wan_access'' (c_wan_access c)) (\<lambda>wan.
     let lan = (opt m ''lan_api'' \<noteq> ''0'')
     in Inr \<lparr>c_device_mac = (if opt m ''device_mac'' = [] then c_device_mac c else opt m ''device_mac''),
          c_pin = (if opt m ''pin'' = [] then c_pin c else opt m ''pin''),
          c_token = (if opt m ''token'' = [] then c_token c else opt m ''token''),
          c_port = http_port, c_lan_api = lan,
          c_ble_pin = (if opt m ''pin'' = [] then c_ble_pin c else opt m ''pin''),
          c_http_enabled = http_enabled,
          c_http_addr4 = addr_option m ''http_addr4'' lan ''0.0.0.0'' ''127.0.0.1'',
          c_http_addr6 = addr_option m ''http_addr6'' lan ''::'' ''::1'',
          c_http_port = http_port, c_https_enabled = https_enabled,
          c_https_addr4 = keep_option m ''https_addr4'' (c_https_addr4 c),
          c_https_addr6 = keep_option m ''https_addr6'' (c_https_addr6 c),
          c_https_port = https_port,
          c_tls_cert = keep_option m ''tls_cert'' (c_tls_cert c),
          c_tls_key = keep_option m ''tls_key'' (c_tls_key c),
          c_token_store = keep_option m ''token_store'' (c_token_store c),
          c_pairing_ttl = ttl, c_pairing_always_on = always_on, c_advanced = advanced,
          c_mdns_enabled = mdns, c_wan_access = wan,
          c_mdns_interfaces = interfaces_option m (c_mdns_interfaces c),
          c_rules = c_rules c\<rparr>)))))))))"

text \<open>Invalid rules are skipped.\<close>

fun load_rules :: "cron_parser \<Rightarrow> UCIDoc \<Rightarrow> Rule list" where
  "load_rules cron [] = []"
| "load_rules cron (s # d) =
     (if us_type s \<noteq> ''rule'' then load_rules cron d
      else case sectionToRule cron s of Inl _ \<Rightarrow> load_rules cron d | Inr r \<Rightarrow> r # load_rules cron d)"

definition load_doc :: "cron_parser \<Rightarrow> UCIDoc \<Rightarrow> config_error + Config" where
  "load_doc cron d =
     sum_bind (case Find d ''wattline'' ''main'' of
         None \<Rightarrow> Inr defaultConfig | Some m \<Rightarrow> load_main defaultConfig m) (\<lambda>cfg.
     case Config_Validate cfg of
       Some e \<Rightarrow> Inl e
     | None \<Rightarrow> Inr (cfg\<lparr>c_rules := c_rules cfg @ load_rules cron d\<rparr>))"

definition read_doc :: "string option \<Rightarrow> config_error + UCIDoc" where
  "read_doc raw = (case raw of
      None \<Rightarrow> Inl ReadFailed
    | Some text \<Rightarrow> (case ParseUCI text of
        None \<Rightarrow> Inl ConfigPanic | Some (Inl e) \<Rightarrow> Inl (UCIError e) | Some (Inr d) \<Rightarrow> Inr d))"

definition Load :: "cron_parser \<Rightarrow> string option \<Rightarrow> config_error + Config" where
  "Load cron raw = sum_bind (read_doc raw) (load_doc cron)"

section \<open>Rewriting the file\<close>

record config_file =
  cf_data :: string
  cf_mode :: uint32

abbreviation (input) private_mode :: uint32 where "private_mode \<equiv> 0x180"

text \<open>The system calls that may fail: the read, the \<^verbatim>\<open>Stat\<close> of \<^verbatim>\<open>EnsureBootstrapToken\<close>, and those of the writers.\<close>

datatype write_step = ReadConfig | StatToken | Stat | CreateTemp | Chmod | Write | CloseTemp | Rename

text \<open>\<^verbatim>\<open>writeConfigAtomicWithMode\<close>: nothing happens to the file before the rename.\<close>

definition writeConfigAtomicWithMode ::
    "(write_step \<Rightarrow> bool) \<Rightarrow> config_file option \<Rightarrow> string \<Rightarrow> uint32 \<Rightarrow> config_file option \<times> config_error option" where
  "writeConfigAtomicWithMode fails f text mode =
     (if list_ex fails [CreateTemp, Chmod, Write, CloseTemp, Rename] then (f, Some WriteFailed)
      else (Some \<lparr>cf_data = text, cf_mode = mode\<rparr>, None))"

definition writeConfigAtomic ::
    "(write_step \<Rightarrow> bool) \<Rightarrow> config_file option \<Rightarrow> string \<Rightarrow> config_file option \<times> config_error option" where
  "writeConfigAtomic fails f text =
     (if fails Stat then (f, Some StatFailed)
      else writeConfigAtomicWithMode fails f text (case f of None \<Rightarrow> private_mode | Some x \<Rightarrow> cf_mode x))"

definition writeConfigAtomicPrivate ::
    "(write_step \<Rightarrow> bool) \<Rightarrow> config_file option \<Rightarrow> string \<Rightarrow> config_file option \<times> config_error option" where
  "writeConfigAtomicPrivate fails f text =
     (if fails Stat then (f, Some StatFailed)
      else writeConfigAtomicWithMode fails f text (case f of None \<Rightarrow> private_mode | Some x \<Rightarrow> and (cf_mode x) private_mode))"

text \<open>Changing the section \<^verbatim>\<open>wattline main\<close> in place, or appending it.\<close>

fun with_main :: "(UCISection \<Rightarrow> UCISection) \<Rightarrow> UCIDoc \<Rightarrow> UCIDoc" where
  "with_main g [] = [g (newSection ''wattline'' ''main'')]"
| "with_main g (s # d) =
     (if us_type s = ''wattline'' \<and> us_name s = ''main'' then g s # d else s # with_main g d)"

definition set_option :: "string \<Rightarrow> string \<Rightarrow> UCISection \<Rightarrow> UCISection" where
  "set_option k v s = s\<lparr>us_options := AList.update k v (us_options s)\<rparr>"

definition set_options :: "(string \<times> string) list \<Rightarrow> UCISection \<Rightarrow> UCISection" where
  "set_options kvs s = fold (\<lambda>(k, v). set_option k v) kvs s"

definition set_list :: "string \<Rightarrow> string list \<Rightarrow> UCISection \<Rightarrow> UCISection" where
  "set_list k vs s = s\<lparr>us_lists := AList.update k vs (us_lists s)\<rparr>"

text \<open>The common read-modify-write cycle.\<close>

definition rewrite ::
    "(write_step \<Rightarrow> bool) \<Rightarrow> (UCIDoc \<Rightarrow> UCIDoc) \<Rightarrow> config_file option \<Rightarrow> config_file option \<times> config_error option" where
  "rewrite fails g f =
     (if fails ReadConfig then (f, Some ReadFailed)
      else case read_doc (map_option cf_data f) of
        Inl e \<Rightarrow> (f, Some e)
      | Inr d \<Rightarrow> writeConfigAtomic fails f (Serialize (g d)))"

definition main_options :: "Config \<Rightarrow> (string \<times> string) list" where
  "main_options c =
     [(''device_mac'', c_device_mac c),
      (''pin'', if c_ble_pin c = [] then c_pin c else c_ble_pin c),
      (''port'', Itoa (c_http_port c)),
      (''lan_api'', boolOption (c_lan_api c)),
      (''http_enabled'', boolOption (c_http_enabled c)),
      (''http_addr4'', c_http_addr4 c),
      (''http_addr6'', c_http_addr6 c),
      (''https_enabled'', boolOption (c_https_enabled c)),
      (''https_addr4'', c_https_addr4 c),
      (''https_addr6'', c_https_addr6 c),
      (''https_port'', Itoa (c_https_port c)),
      (''tls_cert'', c_tls_cert c),
      (''tls_key'', c_tls_key c),
      (''token_store'', c_token_store c),
      (''pairing_ttl'', Duration_String (c_pairing_ttl c)),
      (''pairing_always_on'', boolOption (c_pairing_always_on c)),
      (''advanced'', boolOption (c_advanced c)),
      (''mdns_enabled'', boolOption (c_mdns_enabled c)),
      (''wan_access'', boolOption (c_wan_access c))]"

definition save_main_section :: "Config \<Rightarrow> UCISection \<Rightarrow> UCISection" where
  "save_main_section c s = set_list ''mdns_interface'' (c_mdns_interfaces c) (set_options (main_options c) s)"

definition SaveMain :: "(write_step \<Rightarrow> bool) \<Rightarrow> Config \<Rightarrow> config_file option \<Rightarrow> config_file option \<times> config_error option" where
  "SaveMain fails c f = (case Config_Validate c of
      Some e \<Rightarrow> (f, Some e)
    | None \<Rightarrow> rewrite fails (with_main (save_main_section c)) f)"

definition SavePairing ::
    "(write_step \<Rightarrow> bool) \<Rightarrow> string \<Rightarrow> string \<Rightarrow> config_file option \<Rightarrow> config_file option \<times> config_error option" where
  "SavePairing fails mac pin =
     rewrite fails (with_main (\<lambda>s. set_options ([(''device_mac'', mac)] @ (if pin = [] then [] else [(''pin'', pin)])) s))"

definition save_rules_doc :: "Rule list \<Rightarrow> UCIDoc \<Rightarrow> UCIDoc" where
  "save_rules_doc rules d = filter (\<lambda>s. us_type s \<noteq> ''rule'') d @ map ruleToSection rules"

definition SaveRules :: "(write_step \<Rightarrow> bool) \<Rightarrow> Config \<Rightarrow> config_file option \<Rightarrow> config_file option \<times> config_error option" where
  "SaveRules fails c = rewrite fails (save_rules_doc (c_rules c))"


definition existing_token :: "UCIDoc \<Rightarrow> string" where
  "existing_token d = (case Find d ''wattline'' ''main'' of None \<Rightarrow> [] | Some m \<Rightarrow> opt m ''token'')"


section \<open>What validation guarantees\<close>

lemma first_error_None [simp]: "first_error es = None \<longleftrightarrow> list_all (\<lambda>e. e = None) es"
  by (induction es rule: first_error.induct) auto

lemma validate_interfaces_None:
  "validate_interfaces seen ns = None \<longleftrightarrow> list_all validMDNSInterfaceSelector ns \<and> distinct ns \<and> set seen \<inter> set ns = {}"
  by (induction ns arbitrary: seen) auto

text \<open>What a validated configuration guarantees: it is accepted exactly when both ports are in 1..65535,
  every address that is given is a literal of its family, at least one listener is enabled, each enabled
  listener has an address, the two listeners do not claim the same address and port, the three paths are
  clean and absolute, the pairing lifetime is positive, and the mDNS interfaces are well-formed, distinct
  and present when mDNS is enabled.\<close>

theorem Config_Validate_spec:
  "Config_Validate c = None \<longleftrightarrow>
     (1 \<le> c_http_port c \<and> c_http_port c \<le> 65535 \<and> 1 \<le> c_https_port c \<and> c_https_port c \<le> 65535) \<and>
     (valid_address (c_http_addr4 c) True \<and> valid_address (c_http_addr6 c) False \<and>
      valid_address (c_https_addr4 c) True \<and> valid_address (c_https_addr6 c) False) \<and>
     (c_http_enabled c \<or> c_https_enabled c) \<and>
     (c_http_enabled c \<longrightarrow> c_http_addr4 c \<noteq> [] \<or> c_http_addr6 c \<noteq> []) \<and>
     (c_https_enabled c \<longrightarrow> c_https_addr4 c \<noteq> [] \<or> c_https_addr6 c \<noteq> []) \<and>
     (c_http_enabled c \<and> c_https_enabled c \<longrightarrow>
        \<not> listenersConflict (c_http_addr4 c) (c_http_addr6 c) (c_http_port c) (c_https_addr4 c) (c_https_addr6 c) (c_https_port c)) \<and>
     (valid_path (c_tls_cert c) \<and> valid_path (c_tls_key c) \<and> valid_path (c_token_store c)) \<and>
     0 < c_pairing_ttl c \<and>
     (list_all validMDNSInterfaceSelector (c_mdns_interfaces c) \<and> distinct (c_mdns_interfaces c)) \<and>
     (c_mdns_enabled c \<longrightarrow> c_mdns_interfaces c \<noteq> [])"
  by (auto simp: Config_Validate_def validate_port_def validateAddress_def validatePath_def fail_if_def
      validate_interfaces_None)

lemma default_valid: "Config_Validate defaultConfig = None"
  by code_simp

theorem Config_Validate_spec_witness:
  "0 < c_pairing_ttl defaultConfig \<and> distinct (c_mdns_interfaces defaultConfig) \<and> valid_path (c_tls_key defaultConfig)"
  using Config_Validate_spec [of defaultConfig] default_valid by blast

text \<open>The comparison of the two listeners is textual: an unspecified address in another spelling is not
  recognised.\<close>

lemma conflict_is_textual:
  "ParseIP ''0::0'' = ParseIP ''::'' \<and> listenersConflict [] ''::'' 80 [] ''::1'' 80 \<and> \<not> listenersConflict [] ''0::0'' 80 [] ''::1'' 80"
  by code_simp

section \<open>What is written is read back\<close>

lemma map_of_set_options:
  "map_of (us_options (set_options kvs s)) k = (case map_of (rev kvs) k of None \<Rightarrow> map_of (us_options s) k | Some v \<Rightarrow> Some v)"
proof (induction kvs arbitrary: s)
  case (Cons kv kvs)
  obtain k' v where kv: "kv = (k', v)" by force
  have "set_options (kv # kvs) s = set_options kvs (set_option k' v s)" by (simp add: set_options_def kv)
  then show ?case using Cons.IH [of "set_option k' v s"]
    by (auto simp: kv set_option_def map_add_def split: option.splits)
qed (simp add: set_options_def)

lemma set_options_frame [simp]:
  "us_type (set_options kvs s) = us_type s" "us_name (set_options kvs s) = us_name s" "us_lists (set_options kvs s) = us_lists s"
  by (induction kvs arbitrary: s) (auto simp: set_options_def set_option_def)

lemma set_options_Cons: "set_options ((k, v) # kvs) s = set_options kvs (set_option k v s)"
  by (simp add: set_options_def)

lemma set_options_keys:
  "fst ` set (us_options (set_options kvs s)) = fst ` set kvs \<union> fst ` set (us_options s)"
  "distinct (map fst (us_options s)) \<Longrightarrow> distinct (map fst (us_options (set_options kvs s)))"
proof (induction kvs arbitrary: s)
  case (Cons kv kvs)
  obtain k v where kv: "kv = (k, v)" by force
  { case 1 show ?case unfolding kv set_options_Cons Cons.IH(1) by (simp add: set_option_def) }
  { case 2 then show ?case unfolding kv set_options_Cons by (intro Cons.IH(2)) (simp add: set_option_def distinct_update) }
qed (simp_all add: set_options_def)

lemma Find_with_main:
  assumes "\<And>s. us_type (g s) = us_type s" "\<And>s. us_name (g s) = us_name s"
  shows "Find (with_main g d) ''wattline'' ''main'' =
    Some (g (case Find d ''wattline'' ''main'' of None \<Rightarrow> newSection ''wattline'' ''main'' | Some m \<Rightarrow> m))"
  using assms by (induction d) (auto simp: Find_def newSection_def)

lemma load_rules_with_main:
  assumes "\<And>s. us_type (g s) = us_type s"
  shows "load_rules cron (with_main g d) = load_rules cron d"
  using assms by (induction d) (auto simp: newSection_def split: sum.split)

text \<open>A document that has gone through the file: same sections, same values.\<close>

lemma opt_normal: "opt (normal_section s) k = opt s k"
  by (simp add: opt_def normal_section_same)

lemma normal_section_frame [simp]: "us_type (normal_section s) = us_type s" "us_name (normal_section s) = us_name s"
  by (simp_all add: normal_section_def)

lemma number_option_normal: "number_option (normal_section s) k p d = number_option s k p d"
  by (simp add: number_option_def opt_normal)

lemma sectionToRule_normal: "sectionToRule cron (normal_section s) = sectionToRule cron s"
  unfolding sectionToRule_def by (simp only: number_option_normal opt_normal normal_section_frame normal_section_same)

lemma load_rules_normal: "load_rules cron (map normal_section d) = load_rules cron d"
  by (induction d) (auto simp: sectionToRule_normal split: sum.split)

lemma Find_normal: "Find (map normal_section d) t n = map_option normal_section (Find d t n)"
  by (induction d) (auto simp: Find_def)

lemma load_doc_normal:
  assumes "Find d ''wattline'' ''main'' = Some m" "load_main defaultConfig (normal_section m) = Inr c" "Config_Validate c = None"
  shows "load_doc cron (map normal_section d) = Inr (c\<lparr>c_rules := c_rules c @ load_rules cron d\<rparr>)"
  using assms by (simp add: load_doc_def Find_normal load_rules_normal)

lemma write_ok:
  "writeConfigAtomicWithMode fails f text mode = (f', None) \<Longrightarrow> f' = Some \<lparr>cf_data = text, cf_mode = mode\<rparr>"
  "writeConfigAtomic fails f text = (f', None) \<Longrightarrow> map_option cf_data f' = Some text"
  "writeConfigAtomicPrivate fails f text = (f', None) \<Longrightarrow> map_option cf_data f' = Some text"
  by (auto simp: writeConfigAtomicWithMode_def writeConfigAtomic_def writeConfigAtomicPrivate_def split: if_splits)

lemma rewrite_ok:
  assumes "rewrite fails g f = (f', None)"
  obtains d where "read_doc (map_option cf_data f) = Inr d" "map_option cf_data f' = Some (Serialize (g d))"
  using assms by (auto simp: rewrite_def dest: write_ok split: sum.splits if_splits)

lemma Load_Serialize: "list_all wf_section d \<Longrightarrow> Load cron (Some (Serialize d)) = load_doc cron (map normal_section d)"
  by (simp add: Load_def read_doc_def ParseUCI_Serialize list_all_iff)

lemma words_wattline: "word ''wattline''" "word ''rule''" "word ''action''" "word ''mdns_interface''" "word ''token''"
  by code_simp+

lemma wf_newSection: "word t \<Longrightarrow> wf_section (newSection t n)"
  by (simp add: wf_section_def newSection_def)

lemma wf_with_main:
  assumes "\<And>s. wf_section s \<Longrightarrow> wf_section (g s)" "list_all wf_section d" shows "list_all wf_section (with_main g d)"
  using assms(2) by (induction d) (auto simp: assms(1) wf_newSection words_wattline)

lemma list_all_keys: "list_all P (map fst al) \<longleftrightarrow> (\<forall>k \<in> fst ` set al. P k)"
  by (simp add: list_all_iff)

lemma wf_set_options:
  assumes "wf_section s" "list_all word (map fst kvs)" shows "wf_section (set_options kvs s)"
  using assms unfolding wf_section_def list_all_keys set_options_frame set_options_keys(1)
  by (auto intro: set_options_keys(2))

lemma wf_set_list:
  assumes "wf_section s" "word k" shows "wf_section (set_list k vs s)"
proof -
  have "distinct (map fst (AList.update k vs (us_lists s)))" using assms(1) by (intro distinct_update) (simp add: wf_section_def)
  moreover have "us_lists (set_list k vs s) = AList.update k vs (us_lists s)" "us_options (set_list k vs s) = us_options s"
    "us_type (set_list k vs s) = us_type s" by (simp_all add: set_list_def)
  ultimately show ?thesis using assms unfolding wf_section_def list_all_keys by simp
qed

definition main_keys :: "string list" where
  "main_keys = [''device_mac'', ''pin'', ''port'', ''lan_api'', ''http_enabled'', ''http_addr4'', ''http_addr6'', ''https_enabled'',
     ''https_addr4'', ''https_addr6'', ''https_port'', ''tls_cert'', ''tls_key'', ''token_store'', ''pairing_ttl'',
     ''pairing_always_on'', ''advanced'', ''mdns_enabled'', ''wan_access'']"

lemma main_keys: "map fst (main_options c) = main_keys" "list_all word main_keys" "distinct main_keys"
  by (simp add: main_options_def main_keys_def) code_simp+

lemma main_option_words: "list_all word (map fst (main_options c))"
  unfolding main_keys(1) by (rule main_keys(2))

text \<open>The saved section has exactly the saved values for these keys.\<close>

lemma saved_option:
  "map_of (us_options (normal_section (save_main_section c s))) k =
     (case map_of (main_options c) k of None \<Rightarrow> map_of (us_options s) k | Some v \<Rightarrow> Some v)"
proof -
  have "map_of (rev (main_options c)) = map_of (main_options c)"
    using main_keys(3) by (intro map_of_inject_set [THEN iffD2]) (simp_all add: main_keys(1) flip: rev_map)
  then show ?thesis
    by (simp add: normal_section_same save_main_section_def set_list_def map_of_set_options)
qed

lemma wf_save_main: "wf_section s \<Longrightarrow> wf_section (save_main_section c s)"
  unfolding save_main_section_def by (intro wf_set_list wf_set_options main_option_words words_wattline)

lemma save_main_frame [simp]: "us_type (save_main_section c s) = us_type s" "us_name (save_main_section c s) = us_name s"
  by (simp_all add: save_main_section_def set_list_def)

lemma saved_lists:
  "map_of (us_lists (normal_section (save_main_section c s))) ''mdns_interface'' =
     (if c_mdns_interfaces c = [] then None else Some (c_mdns_interfaces c))"
proof -
  let ?s = "save_main_section c s"
  have g: "get_list ?s ''mdns_interface'' = c_mdns_interfaces c"
    by (simp add: save_main_section_def set_list_def get_list_def)
  have m: "''mdns_interface'' \<in> set (sortedKeys (us_lists ?s))"
    by (simp add: sortedKeys_sort save_main_section_def set_list_def)
  show ?thesis using g m by (simp add: normal_section_def map_of_pairs)
qed

lemma saved_values:
  "map_of (main_options c) ''device_mac'' = Some (c_device_mac c)"
  "map_of (main_options c) ''pin'' = Some (if c_ble_pin c = [] then c_pin c else c_ble_pin c)"
  "map_of (main_options c) ''port'' = Some (Itoa (c_http_port c))"
  "map_of (main_options c) ''lan_api'' = Some (boolOption (c_lan_api c))"
  "map_of (main_options c) ''http_enabled'' = Some (boolOption (c_http_enabled c))"
  "map_of (main_options c) ''http_addr4'' = Some (c_http_addr4 c)"
  "map_of (main_options c) ''http_addr6'' = Some (c_http_addr6 c)"
  "map_of (main_options c) ''https_enabled'' = Some (boolOption (c_https_enabled c))"
  "map_of (main_options c) ''https_addr4'' = Some (c_https_addr4 c)"
  "map_of (main_options c) ''https_addr6'' = Some (c_https_addr6 c)"
  "map_of (main_options c) ''https_port'' = Some (Itoa (c_https_port c))"
  "map_of (main_options c) ''tls_cert'' = Some (c_tls_cert c)"
  "map_of (main_options c) ''tls_key'' = Some (c_tls_key c)"
  "map_of (main_options c) ''token_store'' = Some (c_token_store c)"
  "map_of (main_options c) ''pairing_ttl'' = Some (Duration_String (c_pairing_ttl c))"
  "map_of (main_options c) ''pairing_always_on'' = Some (boolOption (c_pairing_always_on c))"
  "map_of (main_options c) ''advanced'' = Some (boolOption (c_advanced c))"
  "map_of (main_options c) ''mdns_enabled'' = Some (boolOption (c_mdns_enabled c))"
  "map_of (main_options c) ''wan_access'' = Some (boolOption (c_wan_access c))"
  "map_of (main_options c) ''token'' = None"
  by (simp_all add: main_options_def)

lemma boolOption_simps [simp]: "boolOption b = ''0'' \<longleftrightarrow> \<not> b" "boolOption b = ''1'' \<longleftrightarrow> b"
  by (simp_all add: boolOption_def)

lemma saved_bool: "map_of (us_options m) k = Some (boolOption b) \<Longrightarrow> parseBoolOption m k d = Inr b"
  by (cases b) (simp_all add: parseBoolOption_def boolOption_def)

lemma saved_port:
  "map_of (us_options m) k = Some (Itoa p) \<Longrightarrow> 1 \<le> p \<Longrightarrow> p \<le> 65535 \<Longrightarrow> parsePortOption m k d = Inr p"
  by (simp add: parsePortOption_def Atoi_Itoa)

lemma validated_ranges:
  "Config_Validate c = None \<Longrightarrow> 1 \<le> c_http_port c \<and> c_http_port c \<le> 65535 \<and> 1 \<le> c_https_port c \<and>
     c_https_port c \<le> 65535 \<and> 0 < c_pairing_ttl c"
  by (simp add: Config_Validate_def validate_port_def fail_if_def split: if_splits)

lemma load_main_saved:
  assumes "Config_Validate c = None" "c_ble_pin c \<noteq> [] \<or> c_pin c \<noteq> []" "c_pairing_ttl c < 2 ^ 63"
  defines "pin \<equiv> if c_ble_pin c = [] then c_pin c else c_ble_pin c"
  shows "load_main defaultConfig (normal_section (save_main_section c s)) =
    Inr (c\<lparr>c_pin := pin, c_ble_pin := pin, c_port := c_http_port c, c_token := opt s ''token'', c_rules := []\<rparr>)"
proof -
  let ?m = "normal_section (save_main_section c s)"
  have v: "1 \<le> c_http_port c" "c_http_port c \<le> 65535" "1 \<le> c_https_port c" "c_https_port c \<le> 65535" "0 < c_pairing_ttl c"
    using validated_ranges [OF assms(1)] by simp_all
  note o = saved_option [of c s] saved_values
  have pin: "opt ?m ''pin'' = pin" "pin \<noteq> []" using assms(2) by (simp_all add: opt_def o pin_def)
  have ports: "parsePortOption ?m ''port'' d = Inr (c_http_port c)" "parsePortOption ?m ''https_port'' d = Inr (c_https_port c)" for d
    using v by (simp_all add: saved_port o)
  have bools: "parseBoolOption ?m ''http_enabled'' d = Inr (c_http_enabled c)" "parseBoolOption ?m ''https_enabled'' d = Inr (c_https_enabled c)"
    "parseBoolOption ?m ''pairing_always_on'' d = Inr (c_pairing_always_on c)" "parseBoolOption ?m ''advanced'' d = Inr (c_advanced c)"
    "parseBoolOption ?m ''mdns_enabled'' d = Inr (c_mdns_enabled c)" "parseBoolOption ?m ''wan_access'' d = Inr (c_wan_access c)" for d
    by (simp_all add: saved_bool o)
  have ttl: "ttl_option ?m d = Inr (c_pairing_ttl c)" for d
    using v(5) assms(3) by (simp add: ttl_option_def o ParseDuration_String)
  have strings: "addr_option ?m ''http_addr4'' l x y = c_http_addr4 c" "addr_option ?m ''http_addr6'' l x y = c_http_addr6 c"
    "keep_option ?m ''https_addr4'' x = c_https_addr4 c" "keep_option ?m ''https_addr6'' x = c_https_addr6 c"
    "keep_option ?m ''tls_cert'' x = c_tls_cert c" "keep_option ?m ''tls_key'' x = c_tls_key c"
    "keep_option ?m ''token_store'' x = c_token_store c" for l x y
    by (simp_all add: addr_option_def keep_option_def o)
  have mac: "opt ?m ''device_mac'' = c_device_mac c" "opt ?m ''token'' = opt s ''token''" "(opt ?m ''lan_api'' \<noteq> ''0'') = c_lan_api c"
    by (simp_all add: opt_def o)
  have ifs: "interfaces_option ?m d = c_mdns_interfaces c" for d
    by (simp add: interfaces_option_def saved_lists o)
  have dflt: "c_device_mac defaultConfig = []" "c_token defaultConfig = []" "c_rules defaultConfig = []"
    by (simp_all add: defaultConfig_def)
  show ?thesis
    unfolding load_main_def ports bools ttl strings mac ifs dflt sum_bind_simps pin(1) Let_def using pin(2) by (cases c) simp
qed

lemma Validate_frame:
  "Config_Validate (c\<lparr>c_pin := p, c_ble_pin := b, c_port := n, c_token := t, c_rules := r\<rparr>) = Config_Validate c"
  by (simp add: Config_Validate_def)

text \<open>C34. Saved settings survive a restart: after a successful \<^verbatim>\<open>SaveMain\<close>, loading the file gives back exactly the
  saved configuration, with every number, switch, address, path, duration and interface unchanged, whatever
  bytes the strings hold. The bootstrap token and the rules are those the file held before, the two PIN
  fields both hold the PIN that was written, and the legacy port follows the HTTP port. (The types and keys
  already in the file are plain words, and the PIN is not empty.)\<close>

theorem settings_survive_restart:
  assumes "SaveMain fails c f = (f', None)" and "read_doc (map_option cf_data f) = Inr d" and "list_all wf_section d"
    and "c_ble_pin c \<noteq> [] \<or> c_pin c \<noteq> []" and "c_pairing_ttl c < 2 ^ 63"
  defines "pin \<equiv> if c_ble_pin c = [] then c_pin c else c_ble_pin c"
  shows "Load cron (map_option cf_data f') = Inr (c\<lparr>c_pin := pin, c_ble_pin := pin, c_port := c_http_port c,
     c_token := existing_token d, c_rules := load_rules cron d\<rparr>)"
proof -
  let ?d = "with_main (save_main_section c) d"
  let ?m = "case Find d ''wattline'' ''main'' of None \<Rightarrow> newSection ''wattline'' ''main'' | Some m \<Rightarrow> m"
  have v: "Config_Validate c = None" and "rewrite fails (with_main (save_main_section c)) f = (f', None)"
    using assms(1) by (auto simp: SaveMain_def split: option.splits)
  then have f': "map_option cf_data f' = Some (Serialize ?d)" using assms(2) by (auto elim!: rewrite_ok)
  have wf: "list_all wf_section ?d" using assms(3) by (intro wf_with_main wf_save_main)
  have tok: "opt ?m ''token'' = existing_token d"
    by (simp add: existing_token_def opt_def newSection_def split: option.split)
  have find: "Find ?d ''wattline'' ''main'' = Some (save_main_section c ?m)" by (rule Find_with_main) simp_all
  have "load_rules cron ?d = load_rules cron d" by (rule load_rules_with_main) simp
  then show ?thesis
    unfolding f' Load_Serialize [OF wf]
    using load_doc_normal [OF find load_main_saved [OF v assms(4,5)]] v
    unfolding Validate_frame tok pin_def by simp
qed

definition empty_config :: "config_file option" where
  "empty_config = Some \<lparr>cf_data = [], cf_mode = private_mode\<rparr>"

lemma read_empty: "read_doc (map_option cf_data empty_config) = Inr []"
  by code_simp

lemma rewrite_empty:
  "rewrite (\<lambda>_. False) g empty_config = (Some \<lparr>cf_data = Serialize (g []), cf_mode = private_mode\<rparr>, None)"
  unfolding rewrite_def read_empty by (simp add: writeConfigAtomic_def writeConfigAtomicWithMode_def empty_config_def)

theorem settings_survive_restart_witness:
  "\<exists>f' c'. SaveMain (\<lambda>_. False) defaultConfig empty_config = (f', None) \<and>
     Load (\<lambda>_. Inl []) (map_option cf_data f') = Inr c' \<and> c_pairing_ttl c' = 5 * minute \<and> c_https_port c' = 8378"
proof -
  have s: "SaveMain (\<lambda>_. False) defaultConfig empty_config =
      (Some \<lparr>cf_data = Serialize (with_main (save_main_section defaultConfig) []), cf_mode = private_mode\<rparr>, None)"
    by (simp only: SaveMain_def default_valid rewrite_empty option.case)
  have "c_ble_pin defaultConfig \<noteq> [] \<or> c_pin defaultConfig \<noteq> []" "c_pairing_ttl defaultConfig < 2 ^ 63"
    by (simp_all add: defaultConfig_def)
  note settings_survive_restart [OF s read_empty _ this, where cron = "\<lambda>_. Inl []"]
  then show ?thesis using s by (auto simp: defaultConfig_def)
qed

section \<open>Rules in the file\<close>

text \<open>The values of a rule as Go's types hold them: 64-bit integers and durations, doubles.\<close>

definition go_rule :: "Rule \<Rightarrow> bool" where
  "go_rule r \<longleftrightarrow> - (2 ^ 63) \<le> r_percent r \<and> r_percent r < 2 ^ 63 \<and>
     - (2 ^ 63) \<le> r_hysteresis_margin r \<and> r_hysteresis_margin r < 2 ^ 63 \<and>
     - (2 ^ 63) \<le> r_hold r \<and> r_hold r < 2 ^ 63 \<and> - (2 ^ 63) \<le> r_repeat_every r \<and> r_repeat_every r < 2 ^ 63 \<and>
     is_float64 (r_watts r) \<and> is_float64 (r_temp_c r)"

lemma map_of_when_set [simp]:
  "map_of (when_set b k v @ al) i = (if b \<and> i = k then Some v else map_of al i)"
  "map_of (when_set b k v) i = (if b \<and> i = k then Some v else None)"
  by (simp_all add: when_set_def)

lemma rule_options:
  "opt (ruleToSection r) ''enabled'' = boolOption (r_enabled r)"
  "opt (ruleToSection r) ''condition'' = r_condition r" "opt (ruleToSection r) ''state'' = r_state r"
  "opt (ruleToSection r) ''op'' = r_op r" "opt (ruleToSection r) ''port'' = r_port r" "opt (ruleToSection r) ''cron'' = r_cron r"
  "opt (ruleToSection r) ''percent'' = (if r_percent r = 0 then [] else Itoa (r_percent r))"
  "opt (ruleToSection r) ''watts'' = (if r_watts r = Fin 0 then [] else FormatFloat (r_watts r))"
  "opt (ruleToSection r) ''temp_c'' = (if r_temp_c r = Fin 0 then [] else FormatFloat (r_temp_c r))"
  "opt (ruleToSection r) ''hold'' = (if r_hold r = 0 then [] else Duration_String (r_hold r))"
  "opt (ruleToSection r) ''repeat_every'' = (if r_repeat_every r = 0 then [] else Duration_String (r_repeat_every r))"
  "opt (ruleToSection r) ''hysteresis_margin'' = (if r_hysteresis_margin r = 5 then [] else Itoa (r_hysteresis_margin r))"
  "opt (ruleToSection r) ''confirm_shutdown'' = (if r_confirm_shutdown r then ''1'' else [])"
  by (simp_all add: opt_def ruleToSection_def newSection_def del: map_of_append)

lemma rule_section_frame [simp]:
  "us_type (ruleToSection r) = ''rule''" "us_name (ruleToSection r) = r_name r" "get_list (ruleToSection r) ''action'' = r_actions r"
  by (simp_all add: ruleToSection_def newSection_def get_list_def)

lemma sectionToRule_ruleToSection:
  assumes "go_rule r" "Rule_Validate cron r = None" shows "sectionToRule cron (ruleToSection r) = Inr r"
proof -
  have n: "number_option (ruleToSection r) ''percent'' Atoi 0 = Inr (r_percent r)"
    "number_option (ruleToSection r) ''hysteresis_margin'' Atoi 5 = Inr (r_hysteresis_margin r)"
    "number_option (ruleToSection r) ''watts'' ParseFloat (Fin 0) = Inr (r_watts r)"
    "number_option (ruleToSection r) ''temp_c'' ParseFloat (Fin 0) = Inr (r_temp_c r)"
    "number_option (ruleToSection r) ''hold'' ParseDuration 0 = Inr (r_hold r)"
    "number_option (ruleToSection r) ''repeat_every'' ParseDuration 0 = Inr (r_repeat_every r)"
    using assms(1) by (simp_all add: number_option_def rule_options go_rule_def Atoi_Itoa ParseDuration_String ParseFloat_FormatFloat)
  have b: "(boolOption (r_enabled r) = ''1'') = r_enabled r"
    "((if r_confirm_shutdown r then ''1'' else []) = ''1'') = r_confirm_shutdown r" by simp_all
  have r: "\<lparr>r_name = r_name r, r_enabled = r_enabled r, r_condition = r_condition r, r_state = r_state r, r_op = r_op r,
      r_port = r_port r, r_percent = r_percent r, r_watts = r_watts r, r_temp_c = r_temp_c r, r_hold = r_hold r,
      r_repeat_every = r_repeat_every r, r_hysteresis_margin = r_hysteresis_margin r, r_cron = r_cron r,
      r_actions = r_actions r, r_confirm_shutdown = r_confirm_shutdown r\<rparr> = r" by simp
  show ?thesis
    unfolding sectionToRule_def n sum_bind_simps rule_options rule_section_frame b Let_def r using assms(2) by simp
qed

lemma wf_ruleToSection: "wf_section (ruleToSection r)"
proof -
  define ks where "ks = [''enabled'', ''condition'', ''state'', ''op'', ''port'', ''cron'', ''percent'', ''watts'', ''temp_c'',
    ''hold'', ''repeat_every'', ''hysteresis_margin'', ''confirm_shutdown'']"
  have w: "list_all word ks" "distinct ks" unfolding ks_def by code_simp+
  have sub: "subseq (map fst (when_set b k v @ al)) (k # ks')" if "subseq (map fst al) ks'" for b k v al ks'
    using that by (auto simp: when_set_def)
  have last: "subseq (map fst (when_set b k v)) [k]" for b k v by (simp add: when_set_def)
  have s: "subseq (map fst (us_options (ruleToSection r))) ks"
    unfolding ruleToSection_def ks_def by (simp del: map_append) (intro sub last)
  have "list_all word (map fst (us_options (ruleToSection r)))"
    using w(1) list_emb_set [OF s] unfolding list_all_iff by blast
  moreover have "distinct (map fst (us_options (ruleToSection r)))" using s w(2) by (metis subseq_conv_nths distinct_nthsI)
  ultimately show ?thesis
    by (simp add: wf_section_def words_wattline) (simp add: ruleToSection_def newSection_def words_wattline)
qed

lemma load_rules_append: "load_rules cron (d @ d') = load_rules cron d @ load_rules cron d'"
  by (induction d) (auto split: sum.split)

lemma load_rules_saved:
  assumes "\<forall>r \<in> set rs. go_rule r \<and> Rule_Validate cron r = None"
  shows "load_rules cron (save_rules_doc rs d) = rs"
proof -
  have "load_rules cron (filter (\<lambda>s. us_type s \<noteq> ''rule'') d) = []" by (induction d) auto
  moreover have "load_rules cron (map ruleToSection rs) = rs"
    using assms by (induction rs) (simp_all add: sectionToRule_ruleToSection)
  ultimately show ?thesis by (simp add: save_rules_doc_def load_rules_append)
qed

lemma find_filter: "(\<And>x. P x \<Longrightarrow> Q x) \<Longrightarrow> find P (filter Q xs) = find P xs"
  by (induction xs) auto

lemma Find_saved_rules: "Find (save_rules_doc rs d) ''wattline'' ''main'' = Find d ''wattline'' ''main''"
proof -
  let ?P = "\<lambda>s. us_type s = ''wattline'' \<and> us_name s = ''main''"
  have "find ?P (filter (\<lambda>s. us_type s \<noteq> ''rule'') d) = find ?P d" by (rule find_filter) simp
  moreover have "find ?P (map ruleToSection rs) = None" by (auto simp: find_None_iff)
  moreover have "find ?P ys = None \<Longrightarrow> find ?P (xs @ ys) = find ?P xs" for xs ys :: UCIDoc
    by (induction xs) auto
  ultimately show ?thesis by (simp only: Find_def save_rules_doc_def)
qed

lemma load_main_normal: "full_lists m \<Longrightarrow> load_main c (normal_section m) = load_main c m"
  unfolding load_main_def parsePortOption_def parseBoolOption_def ttl_option_def addr_option_def keep_option_def interfaces_option_def
  by (simp only: normal_section_same opt_normal map_of_normal_lists)

text \<open>The settings do not depend on the rules.\<close>

lemma load_doc_saved_rules:
  assumes "load_doc cron d = Inr c" "list_all full_lists d" "\<forall>r \<in> set rs. go_rule r \<and> Rule_Validate cron r = None"
  shows "load_doc cron (map normal_section (save_rules_doc rs d)) = Inr (c\<lparr>c_rules := rs\<rparr>)"
proof -
  have full: "full_lists m" if "Find d ''wattline'' ''main'' = Some m" for m
    using that assms(2) by (auto simp: Find_def find_Some_iff list_all_iff)
  have "c_rules c' = []" if "load_main defaultConfig m = Inr c'" for m c'
    using that by (auto simp: load_main_def sum_bind_def Let_def defaultConfig_def split: sum.splits)
  moreover have "c_rules defaultConfig = []" by (simp add: defaultConfig_def)
  ultimately show ?thesis using assms(1,3)
    by (cases "Find d ''wattline'' ''main''")
      (auto simp: load_doc_def Find_normal Find_saved_rules load_rules_normal load_rules_saved load_main_normal full
        sum_bind_def split: sum.splits option.splits)
qed

lemma read_doc_full: "read_doc raw = Inr d \<Longrightarrow> list_all full_lists d"
  by (auto simp: read_doc_def ParseUCI_full split: option.splits sum.splits)

lemma SaveRules_Load:
  assumes "SaveRules fails c f = (f', None)" and "Load cron (map_option cf_data f) = Inr c0"
    and "read_doc (map_option cf_data f) = Inr d" and "list_all wf_section d"
    and "\<forall>r \<in> set (c_rules c). go_rule r \<and> Rule_Validate cron r = None"
  shows "Load cron (map_option cf_data f') = Inr (c0\<lparr>c_rules := c_rules c\<rparr>)"
proof -
  let ?d = "save_rules_doc (c_rules c) d"
  have f': "map_option cf_data f' = Some (Serialize ?d)"
    using assms(1,3) by (auto simp: SaveRules_def elim!: rewrite_ok)
  have wf: "list_all wf_section ?d" using assms(4) by (auto simp: save_rules_doc_def list_all_iff wf_ruleToSection)
  have "load_doc cron d = Inr c0" using assms(2,3) by (simp add: Load_def)
  then show ?thesis unfolding f' Load_Serialize [OF wf]
    using load_doc_saved_rules read_doc_full [OF assms(3)] assms(5) by blast
qed

text \<open>C35. Saved rules survive a restart: after a successful \<^verbatim>\<open>SaveRules\<close>, loading the file gives back exactly the
  saved rules, in their order and with every field unchanged, numbers, temperatures and durations included,
  and the settings the file held before are untouched. (Every saved rule is valid, as the handlers check
  before saving; the types and keys already in the file are plain words.)\<close>

theorem rules_survive_restart:
  assumes "SaveRules fails c f = (f', None)" and "Load cron (map_option cf_data f) = Inr c0"
    and "read_doc (map_option cf_data f) = Inr d" and "list_all wf_section d"
    and "\<forall>r \<in> set (c_rules c). go_rule r \<and> Rule_Validate cron r = None"
  shows "Load cron (map_option cf_data f') = Inr (c0\<lparr>c_rules := c_rules c\<rparr>)"
  using assms by (rule SaveRules_Load)

section \<open>The bootstrap token\<close>












definition cold_rule :: Rule where
  "cold_rule = \<lparr>r_name = ''it is cold'', r_enabled = True, r_condition = ''temperature'', r_state = [], r_op = ''below'',
     r_port = [], r_percent = 0, r_watts = Fin 0, r_temp_c = Fin (- 2), r_hold = 90 * second, r_repeat_every = 0,
     r_hysteresis_margin = 5, r_cron = [], r_actions = [''usbc_off'', ''dc_off''], r_confirm_shutdown = False\<rparr>"

lemma cold_rule_ok: "go_rule cold_rule" "Rule_Validate cron cold_rule = None"
  by (simp_all add: go_rule_def cold_rule_def Rule_Validate_def validate_condition_def below_or_above_def hasShutdown_def)
    code_simp

lemma Load_empty: "Load cron (map_option cf_data empty_config) = Inr defaultConfig"
proof -
  have "load_doc cron [] = Inr defaultConfig"
    using default_valid by (simp add: load_doc_def Find_def defaultConfig_def)
  then show ?thesis by (simp add: Load_def read_empty)
qed

theorem rules_survive_restart_witness:
  "\<exists>f'. SaveRules (\<lambda>_. False) (defaultConfig\<lparr>c_rules := [cold_rule]\<rparr>) empty_config = (f', None) \<and>
     Load (\<lambda>_. Inl []) (map_option cf_data f') = Inr (defaultConfig\<lparr>c_rules := [cold_rule]\<rparr>)"
proof -
  let ?c = "defaultConfig\<lparr>c_rules := [cold_rule]\<rparr>"
  have s: "SaveRules (\<lambda>_. False) ?c empty_config =
      (Some \<lparr>cf_data = Serialize (save_rules_doc [cold_rule] []), cf_mode = private_mode\<rparr>, None)"
    by (simp add: SaveRules_def rewrite_empty)
  have "\<forall>r \<in> set (c_rules ?c). go_rule r \<and> Rule_Validate (\<lambda>_. Inl []) r = None" by (simp add: cold_rule_ok)
  from rules_survive_restart [OF s Load_empty read_empty _ this] show ?thesis using s by auto
qed


end
