(* ===== verification/Passkey_Prompt.thy ===== *)
theory Passkey_Prompt
  imports Prelude
begin

text \<open>
  \<^verbatim>\<open>internal/ble/passkey_prompt.go\<close>: the prompt through which the Bluetooth pairing agent, running in one
  goroutine, gets the PIN a user submits through the API in another. Every critical section of the mutex
  is one function of the state; \<^verbatim>\<open>Wait\<close> consists of two of them with a blocking \<^verbatim>\<open>select\<close> in between. Channels
  have a buffer of one outcome. A channel is an index into the list of all channels created so far; a send
  to a full buffer would block for ever with the mutex held and is the value \<open>None\<close>.
\<close>

section \<open>State\<close>

datatype prompt_error =
    ErrPasskeyTimeout | ErrPasskeyCanceled | ErrPasskeyNotWaiting | ErrPasskeyInvalid | ErrPasskeyAlreadyWaiting

record promptOutcome =
  po_pin :: string
  po_err :: "prompt_error option"

record PasskeyPrompt =
  pp_duration :: duration
  pp_waiting :: bool
  pp_terminal :: bool
  pp_canceled :: bool
  pp_active :: bool
  pp_consumed :: bool
  pp_result :: "nat option"
  pp_deadline :: time
  pp_submittedPIN :: string
  pp_replayed :: bool
  pp_chans :: "promptOutcome option list"

definition NewPasskeyPrompt :: "duration \<Rightarrow> PasskeyPrompt" where
  "NewPasskeyPrompt timeout = \<lparr>pp_duration = (if timeout \<le> 0 then 25 * second else timeout), pp_waiting = False,
     pp_terminal = False, pp_canceled = False, pp_active = False, pp_consumed = False, pp_result = None, pp_deadline = 0,
     pp_submittedPIN = [], pp_replayed = False, pp_chans = []\<rparr>"

text \<open>\<^verbatim>\<open>p.result = make(chan promptOutcome, 1)\<close> and \<^verbatim>\<open>p.result <- out\<close>.\<close>

definition make_result :: "PasskeyPrompt \<Rightarrow> PasskeyPrompt" where
  "make_result p = p\<lparr>pp_result := Some (length (pp_chans p)), pp_chans := pp_chans p @ [None]\<rparr>"

definition send_result :: "promptOutcome \<Rightarrow> PasskeyPrompt \<Rightarrow> PasskeyPrompt option" where
  "send_result out p = (case pp_result p of
      None \<Rightarrow> None
    | Some ch \<Rightarrow> if pp_chans p ! ch = None then Some (p\<lparr>pp_chans := (pp_chans p)[ch := Some out]\<rparr>) else None)"

section \<open>Operations\<close>

definition Activate :: "time \<Rightarrow> PasskeyPrompt \<Rightarrow> PasskeyPrompt" where
  "Activate now p = make_result (p\<lparr>pp_active := True, pp_waiting := True, pp_consumed := False, pp_terminal := False,
     pp_submittedPIN := [], pp_replayed := False, pp_deadline := now + pp_duration p\<rparr>)"

definition Cancel_prompt :: "PasskeyPrompt \<Rightarrow> PasskeyPrompt option" where
  "Cancel_prompt p =
     (if pp_waiting p \<and> pp_result p \<noteq> None \<and> \<not> pp_terminal p
      then send_result \<lparr>po_pin = [], po_err = Some ErrPasskeyCanceled\<rparr> (p\<lparr>pp_terminal := True\<rparr>)
      else if \<not> pp_terminal p then Some (p\<lparr>pp_canceled := True\<rparr>)
      else Some p)"

text \<open>The first critical section of \<^verbatim>\<open>Deactivate\<close>; the boolean tells whether \<^verbatim>\<open>Cancel\<close> follows.\<close>

definition deactivate_section :: "PasskeyPrompt \<Rightarrow> PasskeyPrompt \<times> bool" where
  "deactivate_section p =
     (let p = p\<lparr>pp_active := False, pp_submittedPIN := [], pp_replayed := True\<rparr>
      in if pp_waiting p \<and> \<not> pp_consumed p
         then (p\<lparr>pp_waiting := False, pp_canceled := True, pp_deadline := 0, pp_result := None, pp_terminal := True\<rparr>, False)
         else (p, True))"

definition Deactivate :: "PasskeyPrompt \<Rightarrow> PasskeyPrompt option" where
  "Deactivate p = (case deactivate_section p of (p, False) \<Rightarrow> Some p | (p, True) \<Rightarrow> Cancel_prompt p)"

definition six_digits :: "string \<Rightarrow> bool" where
  "six_digits pin \<longleftrightarrow> length pin = 6 \<and> list_all (\<lambda>c. CHR ''0'' \<le> c \<and> c \<le> CHR ''9'') pin"

definition Submit :: "string \<Rightarrow> PasskeyPrompt \<Rightarrow> (PasskeyPrompt \<times> prompt_error option) option" where
  "Submit pin p =
     (if \<not> six_digits pin then Some (p, Some ErrPasskeyInvalid)
      else if \<not> pp_waiting p \<or> pp_result p = None \<or> pp_terminal p then Some (p, Some ErrPasskeyNotWaiting)
      else map_option (\<lambda>p. (p, None))
        (send_result \<lparr>po_pin = pin, po_err = None\<rparr> (p\<lparr>pp_terminal := True, pp_submittedPIN := pin\<rparr>)))"

definition RearmSubmitted :: "time \<Rightarrow> PasskeyPrompt \<Rightarrow> (PasskeyPrompt \<times> bool) option" where
  "RearmSubmitted now p =
     (if \<not> pp_active p \<or> pp_submittedPIN p = [] \<or> pp_replayed p then Some (p, False)
      else map_option (\<lambda>p. (p\<lparr>pp_replayed := True\<rparr>, True))
        (send_result \<lparr>po_pin = pp_submittedPIN p, po_err = None\<rparr>
          (make_result (p\<lparr>pp_waiting := True, pp_consumed := False, pp_terminal := True,
             pp_deadline := now + pp_duration p\<rparr>))))"

text \<open>\<^verbatim>\<open>Wait\<close>: the first critical section returns an error or the channel and the deadline of the \<^verbatim>\<open>select\<close>; the
  second one follows it.\<close>

definition wait_begin :: "time \<Rightarrow> PasskeyPrompt \<Rightarrow> PasskeyPrompt \<times> (prompt_error + nat option \<times> time)" where
  "wait_begin now p =
     (if pp_waiting p then
        if pp_consumed p then (p, Inl ErrPasskeyAlreadyWaiting)
        else (p\<lparr>pp_consumed := True\<rparr>, Inr (pp_result p, pp_deadline p))
      else if pp_canceled p then (p\<lparr>pp_canceled := False\<rparr>, Inl ErrPasskeyCanceled)
      else let p = make_result (p\<lparr>pp_waiting := True, pp_consumed := True, pp_terminal := False, pp_deadline := now + pp_duration p\<rparr>)
           in (p, Inr (pp_result p, pp_deadline p)))"

text \<open>The receive case of the \<^verbatim>\<open>select\<close>: possible when the buffer holds an outcome. A nil channel is never ready.\<close>

definition wait_receive :: "nat option \<Rightarrow> PasskeyPrompt \<Rightarrow> (PasskeyPrompt \<times> promptOutcome) option" where
  "wait_receive ch p = (case ch of
      None \<Rightarrow> None
    | Some i \<Rightarrow> (case pp_chans p ! i of
        None \<Rightarrow> None
      | Some out \<Rightarrow> Some (p\<lparr>pp_chans := (pp_chans p)[i := None]\<rparr>, out)))"

definition wait_end :: "PasskeyPrompt \<Rightarrow> PasskeyPrompt" where
  "wait_end p = p\<lparr>pp_waiting := False, pp_terminal := True, pp_deadline := 0, pp_result := None\<rparr>"

section \<open>Goroutines that use the prompt\<close>

datatype waiter_pc = Selecting "nat option" time | Selected promptOutcome

record prompt_sys =
  ps_prompt :: PasskeyPrompt
  ps_now :: time
  ps_waiters :: "(nat \<times> waiter_pc) list"

datatype prompt_event =
    Accepted string
  | Replayed
  | WaitReturned promptOutcome
  | Quiet

inductive prompt_step :: "prompt_sys \<Rightarrow> prompt_event \<Rightarrow> prompt_sys \<Rightarrow> bool" where
  tick: "ps_now s \<le> t \<Longrightarrow> prompt_step s Quiet (s\<lparr>ps_now := t\<rparr>)"
| activate: "prompt_step s Quiet (s\<lparr>ps_prompt := Activate (ps_now s) (ps_prompt s)\<rparr>)"
| deactivate: "prompt_step s Quiet (s\<lparr>ps_prompt := fst (deactivate_section (ps_prompt s))\<rparr>)"
| cancel: "Cancel_prompt (ps_prompt s) = Some p \<Longrightarrow> prompt_step s Quiet (s\<lparr>ps_prompt := p\<rparr>)"
| submitted: "Submit pin (ps_prompt s) = Some (p, None) \<Longrightarrow> prompt_step s (Accepted pin) (s\<lparr>ps_prompt := p\<rparr>)"
| refused: "Submit pin (ps_prompt s) = Some (p, Some e) \<Longrightarrow> prompt_step s Quiet (s\<lparr>ps_prompt := p\<rparr>)"
| rearmed: "RearmSubmitted (ps_now s) (ps_prompt s) = Some (p, True) \<Longrightarrow> prompt_step s Replayed (s\<lparr>ps_prompt := p\<rparr>)"
| not_rearmed: "RearmSubmitted (ps_now s) (ps_prompt s) = Some (p, False) \<Longrightarrow> prompt_step s Quiet (s\<lparr>ps_prompt := p\<rparr>)"
| wait_refused: "wait_begin (ps_now s) (ps_prompt s) = (p, Inl e) \<Longrightarrow>
    prompt_step s (WaitReturned \<lparr>po_pin = [], po_err = Some e\<rparr>) (s\<lparr>ps_prompt := p\<rparr>)"
| wait_started: "wait_begin (ps_now s) (ps_prompt s) = (p, Inr (ch, deadline)) \<Longrightarrow> g \<notin> fst ` set (ps_waiters s) \<Longrightarrow>
    prompt_step s Quiet (s\<lparr>ps_prompt := p, ps_waiters := (g, Selecting ch deadline) # ps_waiters s\<rparr>)"
| wait_received: "map_of (ps_waiters s) g = Some (Selecting ch deadline) \<Longrightarrow> wait_receive ch (ps_prompt s) = Some (p, out) \<Longrightarrow>
    prompt_step s Quiet (s\<lparr>ps_prompt := p, ps_waiters := AList.update g (Selected out) (ps_waiters s)\<rparr>)"
| wait_timed_out: "map_of (ps_waiters s) g = Some (Selecting ch deadline) \<Longrightarrow> deadline \<le> ps_now s \<Longrightarrow>
    prompt_step s Quiet (s\<lparr>ps_waiters := AList.update g (Selected \<lparr>po_pin = [], po_err = Some ErrPasskeyTimeout\<rparr>) (ps_waiters s)\<rparr>)"
| wait_ended: "map_of (ps_waiters s) g = Some (Selected out) \<Longrightarrow>
    prompt_step s (WaitReturned out) (s\<lparr>ps_prompt := wait_end (ps_prompt s), ps_waiters := AList.delete g (ps_waiters s)\<rparr>)"

inductive prompt_run :: "duration \<Rightarrow> prompt_event list \<Rightarrow> prompt_sys \<Rightarrow> bool" for timeout where
  fresh: "prompt_run timeout [] \<lparr>ps_prompt = NewPasskeyPrompt timeout, ps_now = now, ps_waiters = []\<rparr>"
| step: "prompt_run timeout es s \<Longrightarrow> prompt_step s e s' \<Longrightarrow> prompt_run timeout (es @ [e]) s'"

section \<open>Invariant\<close>

definition accepted_pins :: "prompt_event list \<Rightarrow> string set" where
  "accepted_pins es = {pin. Accepted pin \<in> set es}"

definition outcome_ok :: "string set \<Rightarrow> promptOutcome \<Rightarrow> bool" where
  "outcome_ok pins out \<longleftrightarrow> (po_err out = None \<longrightarrow> six_digits (po_pin out) \<and> po_pin out \<in> pins)"

definition chans_ok :: "string set \<Rightarrow> PasskeyPrompt \<Rightarrow> bool" where
  "chans_ok pins p \<longleftrightarrow> (\<forall>out. Some out \<in> set (pp_chans p) \<longrightarrow> outcome_ok pins out) \<and>
     (pp_submittedPIN p \<noteq> [] \<longrightarrow> six_digits (pp_submittedPIN p) \<and> pp_submittedPIN p \<in> pins)"

definition result_ok :: "PasskeyPrompt \<Rightarrow> bool" where
  "result_ok p \<longleftrightarrow> (pp_waiting p \<longrightarrow> pp_result p \<noteq> None) \<and>
     (\<forall>ch. pp_result p = Some ch \<longrightarrow> ch < length (pp_chans p) \<and> (\<not> pp_terminal p \<longrightarrow> pp_chans p ! ch = None))"

fun waiter_ok :: "string set \<Rightarrow> nat \<Rightarrow> waiter_pc \<Rightarrow> bool" where
  "waiter_ok pins n (Selecting ch deadline) \<longleftrightarrow> (case ch of None \<Rightarrow> False | Some i \<Rightarrow> i < n)"
| "waiter_ok pins n (Selected out) \<longleftrightarrow> outcome_ok pins out"

definition prompt_inv :: "string set \<Rightarrow> prompt_sys \<Rightarrow> bool" where
  "prompt_inv pins s \<longleftrightarrow> result_ok (ps_prompt s) \<and> chans_ok pins (ps_prompt s) \<and>
     (\<forall>w \<in> snd ` set (ps_waiters s). waiter_ok pins (length (pp_chans (ps_prompt s))) w) \<and> distinct (map fst (ps_waiters s))"

lemmas prompt_ops = Activate_def make_result_def Cancel_prompt_def send_result_def deactivate_section_def Submit_def
  RearmSubmitted_def wait_begin_def wait_receive_def wait_end_def

lemma set_list_update: "set (xs[i := v]) \<subseteq> insert v (set xs)"
  by (rule set_update_subset_insert)

lemma chans_ok_mono: "chans_ok pins p \<Longrightarrow> pins \<subseteq> pins' \<Longrightarrow> chans_ok pins' p"
  by (auto simp: chans_ok_def outcome_ok_def)

lemma chans_ok_send:
  assumes "chans_ok pins p" "outcome_ok pins out" "\<And>x. x \<in> set (pp_chans p') \<Longrightarrow> x = Some out \<or> x \<in> set (pp_chans p)"
    and "pp_submittedPIN p' \<noteq> [] \<longrightarrow> six_digits (pp_submittedPIN p') \<and> pp_submittedPIN p' \<in> pins"
  shows "chans_ok pins p'"
  unfolding chans_ok_def
proof (intro conjI allI impI)
  fix o' assume "Some o' \<in> set (pp_chans p')"
  then show "outcome_ok pins o'" using assms(1,2) assms(3) [of "Some o'"] by (auto simp: chans_ok_def)
qed (use assms(4) in simp_all)

lemma waiter_ok_mono: "waiter_ok pins n w \<Longrightarrow> pins \<subseteq> pins' \<Longrightarrow> n \<le> n' \<Longrightarrow> waiter_ok pins' n' w"
  by (cases w) (auto simp: outcome_ok_def split: option.splits)

lemma send_ok:
  assumes "result_ok p" "\<not> pp_terminal p" "pp_result p \<noteq> None"
  obtains p' where "send_result out (p\<lparr>pp_terminal := True, pp_submittedPIN := sub\<rparr>) = Some p'" "result_ok p'"
    "length (pp_chans p') = length (pp_chans p)" "pp_submittedPIN p' = sub"
    "\<And>x. x \<in> set (pp_chans p') \<Longrightarrow> x = Some out \<or> x \<in> set (pp_chans p)"
proof -
  obtain ch where ch: "pp_result p = Some ch" "ch < length (pp_chans p)" "pp_chans p ! ch = None"
    using assms by (auto simp: result_ok_def)
  let ?p = "p\<lparr>pp_terminal := True, pp_submittedPIN := sub, pp_chans := (pp_chans p)[ch := Some out]\<rparr>"
  show thesis
  proof (rule that)
    show "send_result out (p\<lparr>pp_terminal := True, pp_submittedPIN := sub\<rparr>) = Some ?p" using ch by (simp add: send_result_def)
    show "result_ok ?p" using ch assms(1) by (simp add: result_ok_def)
    show "x = Some out \<or> x \<in> set (pp_chans p)" if "x \<in> set (pp_chans ?p)" for x
      using that set_list_update [of "pp_chans p" ch "Some out"] by auto
  qed simp_all
qed

lemma Submit_cases:
  assumes "result_ok p"
  obtains (refused) e where "Submit pin p = Some (p, Some e)"
  | (sent) p' where "Submit pin p = Some (p', None)" "six_digits pin" "result_ok p'" "length (pp_chans p') = length (pp_chans p)"
    "pp_submittedPIN p' = pin" "\<And>x. x \<in> set (pp_chans p') \<Longrightarrow> x = Some \<lparr>po_pin = pin, po_err = None\<rparr> \<or> x \<in> set (pp_chans p)"
proof (cases "six_digits pin \<and> pp_waiting p \<and> \<not> pp_terminal p \<and> pp_result p \<noteq> None")
  case True
  then obtain p' where "send_result \<lparr>po_pin = pin, po_err = None\<rparr> (p\<lparr>pp_terminal := True, pp_submittedPIN := pin\<rparr>) = Some p'"
    "result_ok p'" "length (pp_chans p') = length (pp_chans p)" "pp_submittedPIN p' = pin"
    "\<And>x. x \<in> set (pp_chans p') \<Longrightarrow> x = Some \<lparr>po_pin = pin, po_err = None\<rparr> \<or> x \<in> set (pp_chans p)"
    using send_ok [OF assms] by blast
  then show thesis using sent True by (simp add: Submit_def)
next
  case False
  then show thesis
    by (intro refused [of "if six_digits pin then ErrPasskeyNotWaiting else ErrPasskeyInvalid"]) (auto simp: Submit_def)
qed

lemma Cancel_cases:
  assumes "result_ok p"
  obtains (flagged) c where "Cancel_prompt p = Some (p\<lparr>pp_canceled := c\<rparr>)"
  | (sent) p' where "Cancel_prompt p = Some p'" "result_ok p'" "length (pp_chans p') = length (pp_chans p)"
    "pp_submittedPIN p' = pp_submittedPIN p"
    "\<And>x. x \<in> set (pp_chans p') \<Longrightarrow> x = Some \<lparr>po_pin = [], po_err = Some ErrPasskeyCanceled\<rparr> \<or> x \<in> set (pp_chans p)"
proof (cases "pp_waiting p \<and> \<not> pp_terminal p \<and> pp_result p \<noteq> None")
  case True
  then obtain p' where "send_result \<lparr>po_pin = [], po_err = Some ErrPasskeyCanceled\<rparr>
      (p\<lparr>pp_terminal := True, pp_submittedPIN := pp_submittedPIN p\<rparr>) = Some p'"
    "result_ok p'" "length (pp_chans p') = length (pp_chans p)" "pp_submittedPIN p' = pp_submittedPIN p"
    "\<And>x. x \<in> set (pp_chans p') \<Longrightarrow> x = Some \<lparr>po_pin = [], po_err = Some ErrPasskeyCanceled\<rparr> \<or> x \<in> set (pp_chans p)"
    using send_ok [OF assms] by blast
  moreover have "p\<lparr>pp_terminal := True, pp_submittedPIN := pp_submittedPIN p\<rparr> = p\<lparr>pp_terminal := True\<rparr>" by simp
  ultimately show thesis using sent True by (simp add: Cancel_prompt_def)
next
  case False
  have "p = p\<lparr>pp_canceled := pp_canceled p\<rparr>" by simp
  then show thesis using flagged False unfolding Cancel_prompt_def by (metis (full_types))
qed

lemma Rearm_cases:
  obtains (no) "RearmSubmitted now p = Some (p, False)"
  | (yes) p' where "RearmSubmitted now p = Some (p', True)" "pp_submittedPIN p \<noteq> []" "result_ok p'"
    "pp_chans p' = pp_chans p @ [Some \<lparr>po_pin = pp_submittedPIN p, po_err = None\<rparr>]" "pp_submittedPIN p' = pp_submittedPIN p"
proof (cases "\<not> pp_active p \<or> pp_submittedPIN p = [] \<or> pp_replayed p")
  case False
  then show thesis by (intro yes [of "p\<lparr>pp_waiting := True, pp_consumed := False, pp_terminal := True,
      pp_deadline := now + pp_duration p, pp_result := Some (length (pp_chans p)),
      pp_chans := pp_chans p @ [Some \<lparr>po_pin = pp_submittedPIN p, po_err = None\<rparr>], pp_replayed := True\<rparr>"])
    (simp_all add: RearmSubmitted_def send_result_def make_result_def result_ok_def nth_append)
qed (simp add: no RearmSubmitted_def)

lemma prompt_inv_prompt:
  assumes "prompt_inv pins s" "result_ok p" "chans_ok pins p" "length (pp_chans (ps_prompt s)) \<le> length (pp_chans p)"
  shows "prompt_inv pins (s\<lparr>ps_prompt := p\<rparr>)"
  using assms waiter_ok_mono [OF _ subset_refl assms(4)] by (simp add: prompt_inv_def)

lemma prompt_inv_waiter:
  assumes "prompt_inv pins s" "waiter_ok pins (length (pp_chans (ps_prompt s))) w"
  shows "prompt_inv pins (s\<lparr>ps_waiters := AList.update g w (ps_waiters s)\<rparr>)"
  using assms set_update_subset [of g w "ps_waiters s"] by (auto simp: prompt_inv_def distinct_update dest: subsetD)

lemma wait_begin_inv:
  assumes "prompt_inv pins s" "wait_begin now (ps_prompt s) = (p, r)"
  shows "prompt_inv pins (s\<lparr>ps_prompt := p\<rparr>)"
    and "r = Inr (ch, deadline) \<Longrightarrow> waiter_ok pins (length (pp_chans p)) (Selecting ch deadline)"
proof -
  have r: "result_ok (ps_prompt s)" and c: "chans_ok pins (ps_prompt s)" using assms(1) by (simp_all add: prompt_inv_def)
  show "prompt_inv pins (s\<lparr>ps_prompt := p\<rparr>)"
    using assms r c by (intro prompt_inv_prompt)
      (auto simp: wait_begin_def make_result_def result_ok_def chans_ok_def nth_append Let_def split: if_splits)
  show "waiter_ok pins (length (pp_chans p)) (Selecting ch deadline)" if "r = Inr (ch, deadline)"
    using assms(2)
  proof (cases "pp_waiting (ps_prompt s)")
    case True
    then obtain i where "pp_result (ps_prompt s) = Some i" "i < length (pp_chans (ps_prompt s))"
      using r by (auto simp: result_ok_def)
    moreover have "ch = pp_result (ps_prompt s)" "pp_chans p = pp_chans (ps_prompt s)"
      using assms(2) that True by (auto simp: wait_begin_def split: if_splits)
    ultimately show ?thesis by simp
  next
    case False
    then show ?thesis using assms(2) that by (auto simp: wait_begin_def make_result_def Let_def split: if_splits)
  qed
qed

lemma wait_receive_inv:
  assumes "prompt_inv pins s" "wait_receive ch (ps_prompt s) = Some (p, out)" "map_of (ps_waiters s) g = Some (Selecting ch deadline)"
  shows "prompt_inv pins (s\<lparr>ps_prompt := p\<rparr>)" "outcome_ok pins out"
    "\<exists>i < length (pp_chans (ps_prompt s)). ch = Some i \<and> pp_chans (ps_prompt s) ! i = Some out \<and> pp_chans p = (pp_chans (ps_prompt s))[i := None]"
proof -
  obtain i where i: "ch = Some i" "pp_chans (ps_prompt s) ! i = Some out" "p = (ps_prompt s)\<lparr>pp_chans := (pp_chans (ps_prompt s))[i := None]\<rparr>"
    using assms(2) by (auto simp: wait_receive_def split: option.splits)
  have "Selecting ch deadline \<in> snd ` set (ps_waiters s)" using map_of_SomeD [OF assms(3)] by force
  then have l: "i < length (pp_chans (ps_prompt s))" using assms(1) i(1) by (force simp: prompt_inv_def)
  have r: "result_ok (ps_prompt s)" and c: "chans_ok pins (ps_prompt s)" using assms(1) by (simp_all add: prompt_inv_def)
  show "outcome_ok pins out" using c i(2) nth_mem [OF l] by (auto simp: chans_ok_def)
  have "result_ok p" using r i(3) l by (auto simp: result_ok_def nth_list_update)
  moreover have "chans_ok pins p" using c i(3) set_list_update [of "pp_chans (ps_prompt s)" i None] by (auto simp: chans_ok_def)
  ultimately show "prompt_inv pins (s\<lparr>ps_prompt := p\<rparr>)" using assms(1) i(3) by (intro prompt_inv_prompt) simp_all
  show "\<exists>i < length (pp_chans (ps_prompt s)). ch = Some i \<and> pp_chans (ps_prompt s) ! i = Some out \<and>
      pp_chans p = (pp_chans (ps_prompt s))[i := None]" using i l by auto
qed

fun event_pins :: "prompt_event \<Rightarrow> string set" where
  "event_pins (Accepted pin) = {pin}"
| "event_pins _ = {}"

lemma prompt_inv_mono: "prompt_inv pins s \<Longrightarrow> pins \<subseteq> pins' \<Longrightarrow> prompt_inv pins' s"
  using chans_ok_mono waiter_ok_mono [OF _ _ order.refl] by (auto simp: prompt_inv_def)

lemma prompt_step_inv: "prompt_step s e s' \<Longrightarrow> prompt_inv pins s \<Longrightarrow> prompt_inv (pins \<union> event_pins e) s'"
proof (induction rule: prompt_step.induct)
  case (tick s t)
  then show ?case by (simp add: prompt_inv_def)
next
  case (activate s)
  then have r: "chans_ok pins (ps_prompt s)" by (simp add: prompt_inv_def)
  show ?case unfolding event_pins.simps Un_empty_right using activate r
    by (intro prompt_inv_prompt) (auto simp: Activate_def make_result_def result_ok_def chans_ok_def nth_append)
next
  case (deactivate s)
  then have r: "result_ok (ps_prompt s)" "chans_ok pins (ps_prompt s)" by (simp_all add: prompt_inv_def)
  show ?case unfolding event_pins.simps Un_empty_right using deactivate r
    by (intro prompt_inv_prompt) (auto simp: deactivate_section_def result_ok_def chans_ok_def Let_def)
next
  case (cancel s p)
  then have r: "result_ok (ps_prompt s)" "chans_ok pins (ps_prompt s)" by (simp_all add: prompt_inv_def)
  from r(1) have "result_ok p \<and> chans_ok pins p \<and> length (pp_chans p) = length (pp_chans (ps_prompt s))"
  proof (cases rule: Cancel_cases)
    case flagged then show ?thesis using cancel.hyps r by (auto simp: result_ok_def chans_ok_def)
  next
    case (sent p')
    have "chans_ok pins p'" using r(2) by (intro chans_ok_send [OF r(2) _ sent(5)]) (simp_all add: outcome_ok_def chans_ok_def sent(4))
    then show ?thesis using cancel.hyps sent by simp
  qed
  then show ?case unfolding event_pins.simps Un_empty_right using cancel.prems by (intro prompt_inv_prompt) simp_all
next
  case (submitted pin s p)
  then have r: "result_ok (ps_prompt s)" "chans_ok pins (ps_prompt s)" by (simp_all add: prompt_inv_def)
  from r(1) have "result_ok p \<and> chans_ok (pins \<union> {pin}) p \<and> length (pp_chans p) = length (pp_chans (ps_prompt s))"
  proof (cases rule: Submit_cases [where pin = pin])
    case (sent p')
    have "chans_ok (pins \<union> {pin}) p'"
      by (intro chans_ok_send [OF chans_ok_mono [OF r(2)] _ sent(6)]) (auto simp: outcome_ok_def sent(2,5))
    then show ?thesis using submitted.hyps sent by simp
  qed (use submitted.hyps in simp)
  moreover have "prompt_inv (pins \<union> {pin}) s" using submitted.prems by (rule prompt_inv_mono) blast
  ultimately show ?case by (simp add: prompt_inv_prompt)
next
  case (refused pin s p e)
  then have "result_ok (ps_prompt s)" by (simp add: prompt_inv_def)
  from Submit_cases [OF this, of pin] have "p = ps_prompt s" using refused.hyps by cases auto
  then show ?case using refused.prems by simp
next
  case (rearmed s p)
  then have r: "chans_ok pins (ps_prompt s)" by (simp add: prompt_inv_def)
  show ?case
  proof (cases rule: Rearm_cases [of "ps_now s" "ps_prompt s"])
    case (yes p')
    then have "chans_ok pins p" using rearmed.hyps r by (auto simp: chans_ok_def outcome_ok_def)
    then show ?thesis using yes rearmed by (simp add: prompt_inv_prompt)
  qed (use rearmed.hyps in simp)
next
  case (not_rearmed s p)
  from Rearm_cases [of "ps_now s" "ps_prompt s"] have "p = ps_prompt s" using not_rearmed.hyps by cases auto
  then show ?case using not_rearmed.prems by simp
next
  case (wait_refused s p e)
  then show ?case using wait_begin_inv(1) by simp
next
  case (wait_started s p ch deadline g)
  then show ?case using wait_begin_inv [OF wait_started.prems wait_started.hyps(1)] by (auto simp: prompt_inv_def)
next
  case (wait_received s g ch deadline p out)
  note w = wait_receive_inv [OF wait_received.prems wait_received.hyps(2,1)]
  have "prompt_inv pins (s\<lparr>ps_prompt := p, ps_waiters := AList.update g (Selected out) (ps_waiters s)\<rparr>)"
    using prompt_inv_waiter [OF w(1), of "Selected out" g] w(2) by simp
  then show ?case by simp
next
  case (wait_timed_out s g ch deadline)
  then show ?case using prompt_inv_waiter [OF wait_timed_out.prems, of "Selected \<lparr>po_pin = [], po_err = Some ErrPasskeyTimeout\<rparr>" g]
    by (simp add: outcome_ok_def)
next
  case (wait_ended s g out)
  then show ?case by (auto simp: prompt_inv_def wait_end_def result_ok_def chans_ok_def set_delete distinct_delete)
qed

lemma prompt_run_inv: "prompt_run timeout es s \<Longrightarrow> prompt_inv (accepted_pins es) s"
proof (induction rule: prompt_run.induct)
  case (fresh now)
  then show ?case by (simp add: prompt_inv_def NewPasskeyPrompt_def result_ok_def chans_ok_def)
next
  case (step es s e s')
  have "accepted_pins (es @ [e]) = accepted_pins es \<union> event_pins e" by (cases e) (auto simp: accepted_pins_def)
  then show ?case using prompt_step_inv [OF step.hyps(2) step.IH] by simp
qed

section \<open>Counting PINs\<close>

definition one_if :: "bool \<Rightarrow> nat" where "one_if b = (if b then 1 else 0)"

lemma one_if_simps [simp]: "one_if True = 1" "one_if False = 0"
  by (simp_all add: one_if_def)

lemma count_list_update:
  "i < length xs \<Longrightarrow> length (filter P (xs[i := v])) + one_if (P (xs ! i)) = length (filter P xs) + one_if (P v)"
proof (induction xs arbitrary: i)
  case (Cons x xs)
  then show ?case by (cases i) (auto simp: one_if_def)
qed simp

lemma count_update:
  "distinct (map fst al) \<Longrightarrow> map_of al g = Some w \<Longrightarrow>
     length (filter P (map snd (AList.update g w' al))) + one_if (P w) = length (filter P (map snd al)) + one_if (P w')"
  by (induction al) (auto simp: one_if_def)

lemma count_delete:
  "distinct (map fst al) \<Longrightarrow> map_of al g = Some w \<Longrightarrow>
     length (filter P (map snd (AList.delete g al))) + one_if (P w) = length (filter P (map snd al))"
proof (induction al)
  case (Cons a al)
  have "AList.delete (fst a) al = al" using Cons.prems(1) by (intro delete_id) simp
  then show ?case using Cons by (cases a) (auto simp: one_if_def AList.delete_eq)
qed simp

fun pin_in :: "promptOutcome option \<Rightarrow> bool" where
  "pin_in None \<longleftrightarrow> False"
| "pin_in (Some out) \<longleftrightarrow> po_err out = None"

fun pin_held :: "waiter_pc \<Rightarrow> bool" where
  "pin_held (Selecting ch deadline) \<longleftrightarrow> False"
| "pin_held (Selected out) \<longleftrightarrow> po_err out = None"

fun supplies :: "prompt_event \<Rightarrow> bool" where
  "supplies (Accepted pin) \<longleftrightarrow> True"
| "supplies Replayed \<longleftrightarrow> True"
| "supplies _ \<longleftrightarrow> False"

fun delivers :: "prompt_event \<Rightarrow> bool" where
  "delivers (WaitReturned out) \<longleftrightarrow> po_err out = None"
| "delivers _ \<longleftrightarrow> False"

definition pins_pending :: "prompt_sys \<Rightarrow> nat" where
  "pins_pending s = length (filter pin_in (pp_chans (ps_prompt s))) + length (filter pin_held (map snd (ps_waiters s)))"

lemma send_count:
  assumes "send_result out p = Some p'" "\<forall>ch. pp_result p = Some ch \<longrightarrow> ch < length (pp_chans p)"
  shows "length (filter pin_in (pp_chans p')) = length (filter pin_in (pp_chans p)) + one_if (po_err out = None)"
proof -
  obtain ch where "pp_result p = Some ch" "pp_chans p ! ch = None" "pp_chans p' = (pp_chans p)[ch := Some out]"
    using assms(1) by (auto simp: send_result_def split: option.splits if_splits)
  then show ?thesis using count_list_update [of ch "pp_chans p" pin_in "Some out"] assms(2) by simp
qed

lemma result_in_range: "result_ok p \<Longrightarrow> \<forall>ch. pp_result p = Some ch \<longrightarrow> ch < length (pp_chans p)"
  by (simp add: result_ok_def)

text \<open>Every supplied PIN is in a channel, held by a waiter, or has been returned.\<close>

lemma prompt_step_count:
  assumes "prompt_step s e s'" "prompt_inv pins s"
  shows "pins_pending s' + one_if (delivers e) = pins_pending s + one_if (supplies e)"
proof -
  have r: "result_ok (ps_prompt s)" and d: "distinct (map fst (ps_waiters s))" using assms(2) by (simp_all add: prompt_inv_def)
  note range = result_in_range [OF r]
  from assms(1) show ?thesis
  proof (cases rule: prompt_step.cases)
    case (cancel p)
    have "length (filter pin_in (pp_chans p)) = length (filter pin_in (pp_chans (ps_prompt s)))"
      using cancel(3) send_count [of _ "(ps_prompt s)\<lparr>pp_terminal := True\<rparr>" p] range
      by (auto simp: Cancel_prompt_def split: if_splits)
    then show ?thesis using cancel by (simp add: pins_pending_def)
  next
    case (submitted pin p)
    have "length (filter pin_in (pp_chans p)) = length (filter pin_in (pp_chans (ps_prompt s))) + 1"
      using submitted(3) send_count [of _ "(ps_prompt s)\<lparr>pp_terminal := True, pp_submittedPIN := pin\<rparr>" p] range
      by (auto simp: Submit_def split: if_splits)
    then show ?thesis using submitted by (simp add: pins_pending_def)
  next
    case (refused pin p e)
    from r have "p = ps_prompt s" by (cases rule: Submit_cases [where pin = pin]) (use refused in auto)
    then show ?thesis using refused by (simp add: pins_pending_def)
  next
    case (rearmed p)
    then show ?thesis by (cases rule: Rearm_cases [of "ps_now s" "ps_prompt s"]) (simp_all add: pins_pending_def)
  next
    case (not_rearmed p)
    then show ?thesis by (cases rule: Rearm_cases [of "ps_now s" "ps_prompt s"]) (simp_all add: pins_pending_def)
  next
    case (wait_refused p e)
    then show ?thesis by (auto simp: wait_begin_def pins_pending_def Let_def split: if_splits)
  next
    case (wait_started p ch deadline g)
    then have "length (filter pin_in (pp_chans p)) = length (filter pin_in (pp_chans (ps_prompt s)))"
      by (auto simp: wait_begin_def make_result_def Let_def split: if_splits)
    then show ?thesis using wait_started by (simp add: pins_pending_def)
  next
    case (wait_received g ch deadline p out)
    obtain i where i: "i < length (pp_chans (ps_prompt s))" "pp_chans (ps_prompt s) ! i = Some out"
      "pp_chans p = (pp_chans (ps_prompt s))[i := None]"
      using wait_receive_inv(3) [OF assms(2) wait_received(4,3)] by blast
    then show ?thesis using wait_received count_list_update [OF i(1), of pin_in None] count_update [OF d wait_received(3), of pin_held "Selected out"]
      by (simp add: pins_pending_def)
  next
    case (wait_timed_out g ch deadline)
    then show ?thesis using count_update [OF d wait_timed_out(3), of pin_held "Selected \<lparr>po_pin = [], po_err = Some ErrPasskeyTimeout\<rparr>"]
      by (simp add: pins_pending_def)
  next
    case (wait_ended g out)
    then show ?thesis using count_delete [OF d wait_ended(3), of pin_held] by (simp add: pins_pending_def wait_end_def)
  qed (simp_all add: pins_pending_def Activate_def make_result_def deactivate_section_def Let_def)
qed

lemma prompt_run_count:
  "prompt_run timeout es s \<Longrightarrow> length (filter delivers es) + pins_pending s = length (filter supplies es)"
proof (induction rule: prompt_run.induct)
  case (step es s e s')
  then show ?case using prompt_step_count [OF step.hyps(2) prompt_run_inv [OF step.hyps(1)]] by (auto simp: one_if_def split: if_splits)
qed (simp add: pins_pending_def NewPasskeyPrompt_def)

section \<open>Properties\<close>

text \<open>C20. The prompt never deadlocks: in every reachable state, whatever goroutines have activated, cancelled,
  submitted, re-armed, waited or timed out, and in whatever order, an operation that sends to the result
  channel while it holds the mutex finds the buffer empty, so that every operation returns.\<close>

theorem prompt_never_blocks:
  assumes "prompt_run timeout es s"
  shows "Submit pin (ps_prompt s) \<noteq> None \<and> Cancel_prompt (ps_prompt s) \<noteq> None \<and> Deactivate (ps_prompt s) \<noteq> None \<and>
    RearmSubmitted now (ps_prompt s) \<noteq> None"
proof -
  have r: "result_ok (ps_prompt s)" using prompt_run_inv [OF assms] by (simp add: prompt_inv_def)
  have c: "Cancel_prompt p \<noteq> None" if "result_ok p" for p using that by (cases rule: Cancel_cases) simp_all
  have "Submit pin (ps_prompt s) \<noteq> None" using r by (cases rule: Submit_cases [where pin = pin]) simp_all
  moreover have "RearmSubmitted now (ps_prompt s) \<noteq> None" by (cases rule: Rearm_cases [of now "ps_prompt s"]) simp_all
  moreover have "Deactivate (ps_prompt s) \<noteq> None"
  proof (cases "deactivate_section (ps_prompt s)")
    case (Pair p again)
    have "result_ok p" using r Pair by (auto simp: deactivate_section_def result_ok_def Let_def split: if_splits)
    then show ?thesis using c by (cases again) (simp_all add: Deactivate_def Pair)
  qed
  ultimately show ?thesis using c [OF r] by simp
qed

text \<open>The agent only gets what the user submitted: when \<^verbatim>\<open>Wait\<close> returns a PIN, it has six digits and \<^verbatim>\<open>Submit\<close>
  accepted exactly this PIN before; and no PIN is handed out twice: the number of PINs that waits have
  returned never exceeds the number of accepted submissions and of replays of the pairing retry.\<close>

theorem prompt_delivers_submitted:
  assumes "prompt_run timeout (es @ [WaitReturned out]) s" and "po_err out = None"
  shows "six_digits (po_pin out) \<and> Accepted (po_pin out) \<in> set es \<and>
    length (filter delivers (es @ [WaitReturned out])) \<le> length (filter supplies es)"
proof -
  obtain s0 where s0: "prompt_run timeout es s0" "prompt_step s0 (WaitReturned out) s"
    using assms(1) by (cases rule: prompt_run.cases) auto
  have inv: "prompt_inv (accepted_pins es) s0" using s0(1) by (rule prompt_run_inv)
  from s0(2) assms(2) obtain g where "map_of (ps_waiters s0) g = Some (Selected out)"
    by (cases rule: prompt_step.cases) auto
  then have "Selected out \<in> snd ` set (ps_waiters s0)" by (force dest: map_of_SomeD)
  then have "outcome_ok (accepted_pins es) out" using inv by (force simp: prompt_inv_def)
  then have "six_digits (po_pin out) \<and> Accepted (po_pin out) \<in> set es"
    using assms(2) by (simp add: outcome_ok_def accepted_pins_def)
  moreover have "length (filter delivers (es @ [WaitReturned out])) \<le> length (filter supplies es)"
    using prompt_run_count [OF assms(1)] by simp
  ultimately show ?thesis by simp
qed

lemma prompt_run_steps:
  "prompt_run timeout es s \<Longrightarrow> prompt_step s e s1 \<Longrightarrow> prompt_step s1 e1 s2 \<Longrightarrow> prompt_run timeout (es @ [e, e1]) s2"
  using prompt_run.step [OF prompt_run.step] by fastforce

text \<open>One complete exchange: activation, a waiting agent, a submitted PIN, its delivery.\<close>

definition prompt_start :: prompt_sys where
  "prompt_start = \<lparr>ps_prompt = NewPasskeyPrompt 0, ps_now = 7, ps_waiters = []\<rparr>"

definition prompt_waiting :: prompt_sys where
  "prompt_waiting = prompt_start\<lparr>ps_prompt := fst (wait_begin 7 (Activate 7 (NewPasskeyPrompt 0))),
     ps_waiters := [(0, Selecting (Some 0) (7 + 25 * second))]\<rparr>"

definition prompt_submitted :: prompt_sys where
  "prompt_submitted = prompt_waiting\<lparr>ps_prompt := fst (the (Submit ''020555'' (ps_prompt prompt_waiting)))\<rparr>"

lemmas prompt_examples = prompt_start_def prompt_waiting_def prompt_submitted_def NewPasskeyPrompt_def prompt_ops six_digits_def

lemma prompt_waiting_run: "prompt_run 0 [Quiet, Quiet] prompt_waiting"
proof -
  have "prompt_run 0 [] prompt_start" unfolding prompt_start_def by (rule prompt_run.fresh)
  moreover have "prompt_step prompt_start Quiet (prompt_start\<lparr>ps_prompt := Activate 7 (NewPasskeyPrompt 0)\<rparr>)"
    using prompt_step.activate [of prompt_start] by (simp add: prompt_start_def)
  moreover have "prompt_step (prompt_start\<lparr>ps_prompt := Activate 7 (NewPasskeyPrompt 0)\<rparr>) Quiet prompt_waiting"
    using prompt_step.wait_started [of "prompt_start\<lparr>ps_prompt := Activate 7 (NewPasskeyPrompt 0)\<rparr>"
        "fst (wait_begin 7 (Activate 7 (NewPasskeyPrompt 0)))" "Some 0" "7 + 25 * second" 0]
    by (simp add: prompt_examples)
  ultimately show ?thesis using prompt_run_steps by fastforce
qed

lemma prompt_submitted_run: "prompt_run 0 [Quiet, Quiet, Accepted ''020555''] prompt_submitted"
proof -
  have "prompt_step prompt_waiting (Accepted ''020555'') prompt_submitted"
    unfolding prompt_submitted_def by (rule prompt_step.submitted) (simp add: prompt_examples)
  then show ?thesis using prompt_run.step [OF prompt_waiting_run] by simp
qed

theorem prompt_never_blocks_witness: "Submit ''123456'' (ps_prompt prompt_submitted) \<noteq> None"
  using prompt_never_blocks [OF prompt_submitted_run, of "''123456''"] by blast

theorem prompt_delivers_submitted_witness:
  "\<exists>s. prompt_run 0 [Quiet, Quiet, Accepted ''020555'', Quiet, WaitReturned \<lparr>po_pin = ''020555'', po_err = None\<rparr>] s \<and>
     six_digits ''020555''"
proof -
  define out where "out = \<lparr>po_pin = ''020555'', po_err = None\<rparr>"
  define s1 where "s1 = prompt_submitted\<lparr>ps_prompt := fst (the (wait_receive (Some 0) (ps_prompt prompt_submitted))), ps_waiters := [(0, Selected out)]\<rparr>"
  have "prompt_step prompt_submitted Quiet s1"
    using prompt_step.wait_received [of prompt_submitted 0 "Some 0" "7 + 25 * second" "ps_prompt s1" out]
    by (simp add: s1_def out_def prompt_examples)
  moreover have "prompt_step s1 (WaitReturned out) (s1\<lparr>ps_prompt := wait_end (ps_prompt s1), ps_waiters := AList.delete 0 (ps_waiters s1)\<rparr>)"
    by (rule prompt_step.wait_ended) (simp add: s1_def)
  ultimately obtain s where run: "prompt_run 0 ([Quiet, Quiet, Accepted ''020555'', Quiet] @ [WaitReturned out]) s"
    using prompt_run_steps [OF prompt_submitted_run] by fastforce
  then show ?thesis using prompt_delivers_submitted [OF run] by (auto simp: out_def)
qed

text \<open>Two behaviours of the source worth knowing. The flag \<^verbatim>\<open>canceled\<close>, set when an activation ends without a
  waiter, survives the next activation, so that a second wait within it is reported as cancelled; and a
  waiter that was woken by the end of one activation and reaches its second critical section only after
  the next activation has begun shuts that one down: its PIN is refused.\<close>

lemma cancel_flag_survives:
  "snd (wait_begin t3 (wait_end (fst (wait_begin t2 (Activate t1 (the (Deactivate (Activate t0 (NewPasskeyPrompt d))))))))) =
     Inl ErrPasskeyCanceled"
  by (simp add: Deactivate_def prompt_ops NewPasskeyPrompt_def Let_def)

lemma stale_waiter_ends_prompt:
  "let p = Activate t1 (fst (the (wait_receive (Some 0) (the (Deactivate (fst (wait_begin t0 (Activate t0 (NewPasskeyPrompt d)))))))))
   in pp_active (wait_end p) \<and> snd (the (Submit ''020555'' p)) = None \<and>
      snd (the (Submit ''020555'' (wait_end p))) = Some ErrPasskeyNotWaiting"
  by (simp add: Deactivate_def prompt_ops NewPasskeyPrompt_def Let_def six_digits_def)

end
