(* ===== verification/Device_Pairing.thy ===== *)
theory Device_Pairing
  imports Passkey_Prompt
begin

text \<open>
  \<^verbatim>\<open>internal/ble/pairing.go\<close>: the state machine of scanning for and pairing with a device. The dependencies
  (BlueZ, the connector's pause and resume, the agent's PIN, the configuration file, the clock) are
  arguments; they act on an environment \<open>'e\<close> and on the passkey prompt, and report progress through the
  list of phases they return. While an operation runs, only its own goroutine changes the manager's state,
  since every other start is refused, so the goroutine's body is a function. The calls it makes are
  recorded in their order. A send of the prompt that would block for ever is the value \<open>None\<close>.
\<close>

section \<open>State\<close>

datatype PairingStage = StageIdle | StageScanning | StagePairing | StagePaired | StageError

datatype PairingPhase =
    PhaseNone | PhasePreparingAdapter | PhaseClearingStaleBond | PhaseLocatingDevice | PhaseExchangingPIN
  | PhaseAwaitingPIN | PhaseConfirmingBond | PhaseTrustingDevice | PhaseResettingBluetooth | PhaseRetryingPIN
  | PhaseReconnecting | PhaseVerifyingHandshake | PhaseSavingPairing | PhaseComplete | PhaseFailed

record Found =
  fd_mac :: string
  fd_name :: string
  fd_rssi :: int
  fd_paired :: bool

record PairingEvent =
  ev_at :: time
  ev_phase :: PairingPhase
  ev_message :: string

record Pairing =
  pg_stage :: PairingStage
  pg_err :: string
  pg_target :: string
  pg_devices :: "Found list"
  pg_phase :: PairingPhase
  pg_message :: string
  pg_started :: time
  pg_updated :: time
  pg_finished :: time
  pg_events :: "PairingEvent list"

text \<open>An error: its text, and whether it is \<^verbatim>\<open>ErrPairSecurityTimeout\<close> or wraps it.\<close>

record pair_error =
  pe_text :: string
  pe_security_timeout :: bool

type_synonym reports = "(time \<times> PairingPhase \<times> string) list"
type_synonym 'e env = "'e \<times> PasskeyPrompt option"

record 'e PairingDeps =
  pd_scan :: "duration \<Rightarrow> 'e env \<Rightarrow> 'e env \<times> (pair_error + Found list)"
  pd_pair :: "string \<Rightarrow> bool \<Rightarrow> 'e env \<Rightarrow> 'e env \<times> reports \<times> pair_error option"
  pd_trust :: "string \<Rightarrow> 'e env \<Rightarrow> 'e env \<times> pair_error option"
  pd_unpair :: "string \<Rightarrow> 'e env \<Rightarrow> 'e env \<times> pair_error option"
  pd_scan_for :: duration
  pd_prepare :: "('e env \<Rightarrow> 'e env \<times> pair_error option) option"
  pd_reset_security :: "('e env \<Rightarrow> 'e env \<times> pair_error option) option"
  pd_pause :: "('e env \<Rightarrow> 'e env) option"
  pd_resume :: "('e env \<Rightarrow> 'e env) option"
  pd_set_pin :: "(string \<Rightarrow> 'e env \<Rightarrow> 'e env) option"
  pd_wait_connected :: "('e env \<Rightarrow> 'e env \<times> reports \<times> bool) option"
  pd_persist :: "(string \<Rightarrow> string \<Rightarrow> 'e env \<Rightarrow> 'e env \<times> pair_error option) option"
  pd_now :: "'e env \<Rightarrow> time"

datatype pair_call =
    Call_Prepare bool | Call_SetPIN string | Call_Pause | Call_Resume | Call_Scan bool | Call_Pair bool | Call_Trust bool
  | Call_ResetSecurity bool | Call_WaitConnected bool | Call_Persist bool

record 'e pairing_world =
  pw_env :: "'e env"
  pw_pairing :: Pairing
  pw_calls :: "pair_call list"

abbreviation (input) pairingEventCap :: nat where "pairingEventCap \<equiv> 32"

definition NewPairing :: Pairing where
  "NewPairing = \<lparr>pg_stage = StageIdle, pg_err = [], pg_target = [], pg_devices = [], pg_phase = PhaseNone, pg_message = [],
     pg_started = 0, pg_updated = 0, pg_finished = 0, pg_events = []\<rparr>"

definition scan_duration :: "'e PairingDeps \<Rightarrow> duration" where
  "scan_duration d = (if pd_scan_for d = 0 then 12 * second else pd_scan_for d)"

section \<open>Transitions of the manager\<close>

definition busyLocked :: "Pairing \<Rightarrow> bool" where
  "busyLocked p \<longleftrightarrow> pg_stage p = StageScanning \<or> pg_stage p = StagePairing"

definition begin_pairing :: "PairingStage \<Rightarrow> time \<Rightarrow> Pairing \<Rightarrow> Pairing option" where
  "begin_pairing stage now p =
     (if busyLocked p then None
      else Some (p\<lparr>pg_stage := stage, pg_err := [], pg_target := [], pg_phase := PhaseNone, pg_message := [],
        pg_started := now, pg_updated := now, pg_finished := 0, pg_events := []\<rparr>))"

definition setPhase :: "time \<Rightarrow> PairingPhase \<Rightarrow> string \<Rightarrow> Pairing \<Rightarrow> Pairing" where
  "setPhase now phase message p =
     (if pg_phase p = phase then p
      else p\<lparr>pg_phase := phase, pg_message := message, pg_updated := now,
        pg_events := push_capped pairingEventCap (pg_events p) \<lparr>ev_at = now, ev_phase = phase, ev_message = message\<rparr>\<rparr>)"

definition finish_pairing :: "time \<Rightarrow> time \<Rightarrow> PairingStage \<Rightarrow> pair_error option \<Rightarrow> Pairing \<Rightarrow> Pairing" where
  "finish_pairing t1 t2 stage err p = (case err of
      None \<Rightarrow> p\<lparr>pg_stage := stage, pg_finished := t2, pg_updated := t2\<rparr>
    | Some e \<Rightarrow> (setPhase t1 PhaseFailed (pe_text e) p)\<lparr>pg_stage := StageError, pg_err := pe_text e,
        pg_finished := t2, pg_updated := t2\<rparr>)"

record PairingStatus =
  pt_stage :: PairingStage
  pt_phase :: PairingPhase
  pt_message :: string
  pt_error :: string
  pt_target :: string
  pt_started_at :: "time option"
  pt_updated_at :: "time option"
  pt_elapsed :: duration
  pt_events :: "PairingEvent list"
  pt_devices :: "Found list"
  pt_pin_required :: bool
  pt_pin_deadline :: "time option"

text \<open>\<^verbatim>\<open>Status\<close>, with the elapsed time in milliseconds.\<close>

definition Pairing_Status :: "'e PairingDeps \<Rightarrow> 'e pairing_world \<Rightarrow> PairingStatus" where
  "Pairing_Status d w =
     (let p = pw_pairing w;
          end_time = (if is_zero (pg_finished p) \<and> \<not> is_zero (pg_started p) then pd_now d (pw_env w) else pg_finished p);
          elapsed = time_sub end_time (pg_started p);
          elapsed = (if elapsed < 0 \<or> is_zero (pg_started p) then 0 else elapsed);
          at = (\<lambda>t. if is_zero (pg_started p) then None else Some t)
      in \<lparr>pt_stage = pg_stage p, pt_phase = pg_phase p, pt_message = pg_message p, pt_error = pg_err p, pt_target = pg_target p,
          pt_started_at = at (pg_started p), pt_updated_at = at (pg_updated p), pt_elapsed = elapsed div 1000000,
          pt_events = pg_events p, pt_devices = pg_devices p,
          pt_pin_required = (case snd (pw_env w) of None \<Rightarrow> False | Some pp \<Rightarrow> pp_waiting pp),
          pt_pin_deadline = (case snd (pw_env w) of None \<Rightarrow> None
            | Some pp \<Rightarrow> if is_zero (pp_deadline pp) then None else Some (pp_deadline pp))\<rparr>)"

section \<open>Steps of the goroutine\<close>

definition phase :: "'e PairingDeps \<Rightarrow> PairingPhase \<Rightarrow> string \<Rightarrow> 'e pairing_world \<Rightarrow> 'e pairing_world" where
  "phase d ph msg w = w\<lparr>pw_pairing := setPhase (pd_now d (pw_env w)) ph msg (pw_pairing w)\<rparr>"

definition reported :: "reports \<Rightarrow> 'e pairing_world \<Rightarrow> 'e pairing_world" where
  "reported rs w = w\<lparr>pw_pairing := fold (\<lambda>(t, ph, msg). setPhase t ph msg) rs (pw_pairing w)\<rparr>"

definition called :: "pair_call \<Rightarrow> 'e env \<Rightarrow> 'e pairing_world \<Rightarrow> 'e pairing_world" where
  "called c e w = w\<lparr>pw_env := e, pw_calls := pw_calls w @ [c]\<rparr>"

definition finish_op :: "'e PairingDeps \<Rightarrow> PairingStage \<Rightarrow> pair_error option \<Rightarrow> 'e pairing_world \<Rightarrow> 'e pairing_world" where
  "finish_op d stage err w =
     w\<lparr>pw_pairing := finish_pairing (pd_now d (pw_env w)) (pd_now d (pw_env w)) stage err (pw_pairing w)\<rparr>"

text \<open>A call of an optional dependency that returns an error.\<close>

definition call_opt ::
    "('e env \<Rightarrow> 'e env \<times> pair_error option) option \<Rightarrow> (bool \<Rightarrow> pair_call) \<Rightarrow> 'e pairing_world \<Rightarrow> 'e pairing_world \<times> pair_error option" where
  "call_opt f c w = (case f of
      None \<Rightarrow> (w, None)
    | Some g \<Rightarrow> (case g (pw_env w) of (e, err) \<Rightarrow> (called (c (err = None)) e w, err)))"

definition call_unit :: "('e env \<Rightarrow> 'e env) option \<Rightarrow> pair_call \<Rightarrow> 'e pairing_world \<Rightarrow> 'e pairing_world" where
  "call_unit f c w = (case f of None \<Rightarrow> w | Some g \<Rightarrow> called c (g (pw_env w)) w)"

definition set_pin :: "'e PairingDeps \<Rightarrow> string \<Rightarrow> 'e pairing_world \<Rightarrow> 'e pairing_world" where
  "set_pin d pin w = call_unit (map_option (\<lambda>f. f pin) (pd_set_pin d)) (Call_SetPIN pin) w"

definition restorePIN :: "'e PairingDeps \<Rightarrow> string \<Rightarrow> 'e pairing_world \<Rightarrow> 'e pairing_world" where
  "restorePIN d pin w = (if pin = [] then w else set_pin d [] w)"

text \<open>\<^verbatim>\<open>pairPass\<close>: the world, whether the connector has been paused, and the error.\<close>

definition pairPass ::
    "'e PairingDeps \<Rightarrow> string \<Rightarrow> string \<Rightarrow> bool \<Rightarrow> bool \<Rightarrow> 'e pairing_world \<Rightarrow> 'e pairing_world \<times> bool \<times> pair_error option" where
  "pairPass d mac pin recover paused w =
     (case call_opt (pd_prepare d) Call_Prepare w of
        (w, Some e) \<Rightarrow> (w, paused, Some e)
      | (w, None) \<Rightarrow>
          let w = (if pin = [] then w else set_pin d pin w);
              w = (if paused then w else call_unit (pd_pause d) Call_Pause w)
          in case pd_pair d mac recover (pw_env w) of
               (e, rs, err) \<Rightarrow>
                 let w = reported rs (called (Call_Pair (err = None)) e w)
                 in case err of
                      Some x \<Rightarrow> (w, True, Some x)
                    | None \<Rightarrow>
                        let w = phase d PhaseTrustingDevice ''Trusting Link-Power on this router'' w
                        in case call_opt (Some (pd_trust d mac)) Call_Trust w of (w, err) \<Rightarrow> (w, True, err))"

definition activate_prompt :: "'e PairingDeps \<Rightarrow> bool \<Rightarrow> 'e pairing_world \<Rightarrow> 'e pairing_world" where
  "activate_prompt d interactive w = (case snd (pw_env w) of
      Some pp \<Rightarrow>
        if interactive
        then phase d PhaseAwaitingPIN ''Waiting for pairing PIN''
               (w\<lparr>pw_env := (fst (pw_env w), Some (Activate (pd_now d (pw_env w)) pp))\<rparr>)
        else w
    | None \<Rightarrow> w)"

definition deactivate_prompt :: "bool \<Rightarrow> 'e pairing_world \<Rightarrow> 'e pairing_world option" where
  "deactivate_prompt activated w = (case snd (pw_env w) of
      Some pp \<Rightarrow> if activated then map_option (\<lambda>pp. w\<lparr>pw_env := (fst (pw_env w), Some pp)\<rparr>) (Deactivate pp) else Some w
    | None \<Rightarrow> Some w)"

text \<open>\<^verbatim>\<open>!interactive || p.d.Prompt == nil || p.d.Prompt.RearmSubmitted()\<close>\<close>

definition may_retry :: "'e PairingDeps \<Rightarrow> bool \<Rightarrow> 'e pairing_world \<Rightarrow> ('e pairing_world \<times> bool) option" where
  "may_retry d interactive w = (case snd (pw_env w) of
      Some pp \<Rightarrow>
        if interactive
        then map_option (\<lambda>(pp, ok). (w\<lparr>pw_env := (fst (pw_env w), Some pp)\<rparr>, ok)) (RearmSubmitted (pd_now d (pw_env w)) pp)
        else Some (w, True)
    | None \<Rightarrow> Some (w, True))"

definition retry_pass ::
    "'e PairingDeps \<Rightarrow> string \<Rightarrow> string \<Rightarrow> bool \<Rightarrow> bool \<Rightarrow> 'e pairing_world \<Rightarrow> ('e pairing_world \<times> bool \<times> pair_error option) option" where
  "retry_pass d mac pin interactive paused w =
     (let w = phase d PhaseResettingBluetooth ''Resetting stale Bluetooth security state'' w
      in case call_opt (pd_reset_security d) Call_ResetSecurity w of
           (w, Some e) \<Rightarrow> Some (w, paused, Some (e\<lparr>pe_text := ''reset Bluetooth security: '' @ pe_text e\<rparr>))
         | (w, None) \<Rightarrow>
             (case may_retry d interactive w of
                None \<Rightarrow> None
              | Some (w, True) \<Rightarrow>
                  Some (pairPass d mac pin True paused (phase d PhaseRetryingPIN ''Retrying the pairing PIN exchange'' w))
              | Some (w, False) \<Rightarrow> Some (w, paused,
                  Some \<lparr>pe_text = ''the submitted pairing PIN was unavailable for retry'', pe_security_timeout = False\<rparr>)))"

definition resume_link :: "'e PairingDeps \<Rightarrow> bool \<Rightarrow> 'e pairing_world \<Rightarrow> 'e pairing_world" where
  "resume_link d paused w = (if paused then call_unit (pd_resume d) Call_Resume w else w)"

text \<open>The goroutine of \<^verbatim>\<open>startPair\<close> up to \<^verbatim>\<open>finish\<close>; the boolean tells whether the deferred \<^verbatim>\<open>resume\<close> still has to
  call \<^verbatim>\<open>Resume\<close>.\<close>

definition verify_and_save ::
    "'e PairingDeps \<Rightarrow> string \<Rightarrow> string \<Rightarrow> 'e pairing_world \<Rightarrow> 'e pairing_world" where
  "verify_and_save d mac pin w =
     (case (case pd_wait_connected d of
              None \<Rightarrow> (w, True)
            | Some f \<Rightarrow> (case f (pw_env w) of (e, rs, ok) \<Rightarrow> (reported rs (called (Call_WaitConnected ok) e w), ok))) of
        (w, False) \<Rightarrow> finish_op d StagePaired (Some \<lparr>pe_text =
            ''the protected reconnect did not complete; the replacement bond was not verified'', pe_security_timeout = False\<rparr>)
            (restorePIN d pin w)
      | (w, True) \<Rightarrow>
          (case call_opt (map_option (\<lambda>f. f mac pin) (pd_persist d)) Call_Persist
                  (if pd_persist d = None then w else phase d PhaseSavingPairing ''Saving the verified pairing'' w) of
             (w, Some e) \<Rightarrow> finish_op d StagePaired (Some e) (restorePIN d pin w)
           | (w, None) \<Rightarrow> finish_op d StagePaired None (phase d PhaseComplete ''Pairing verified'' w)))"

definition pair_main ::
    "'e PairingDeps \<Rightarrow> string \<Rightarrow> string \<Rightarrow> bool \<Rightarrow> bool \<Rightarrow> 'e pairing_world \<Rightarrow> ('e pairing_world \<times> bool) option" where
  "pair_main d mac pin recover interactive w =
     (case pairPass d mac pin recover False (activate_prompt d interactive w) of
        (w, paused, err) \<Rightarrow>
          (case (if recover \<and> (case err of None \<Rightarrow> False | Some e \<Rightarrow> pe_security_timeout e) \<and> pd_reset_security d \<noteq> None
                 then retry_pass d mac pin interactive paused w
                 else Some (w, paused, err)) of
             None \<Rightarrow> None
           | Some (w, paused, Some e) \<Rightarrow> Some (finish_op d StagePaired (Some e) (restorePIN d pin w), paused)
           | Some (w, paused, None) \<Rightarrow>
               Some (verify_and_save d mac pin
                 (resume_link d paused (phase d PhaseReconnecting ''Reconnecting to Link-Power'' w)), False)))"

text \<open>The deferred calls run in reverse order: the prompt first, then the connector.\<close>

definition pair_deferred :: "'e PairingDeps \<Rightarrow> bool \<Rightarrow> bool \<Rightarrow> 'e pairing_world \<Rightarrow> 'e pairing_world option" where
  "pair_deferred d activated unresumed w = map_option (resume_link d unresumed) (deactivate_prompt activated w)"

section \<open>Operations\<close>

definition scan_body :: "'e PairingDeps \<Rightarrow> 'e pairing_world \<Rightarrow> 'e pairing_world" where
  "scan_body d w =
     (let w = call_unit (pd_pause d) Call_Pause w
      in case pd_scan d (scan_duration d) (pw_env w) of (e, r) \<Rightarrow>
           let w = called (Call_Scan (isl r = False)) e w;
               w = (case r of
                  Inl err \<Rightarrow> finish_op d StageIdle (Some err) w
                | Inr devs \<Rightarrow> finish_op d StageIdle None
                    (phase d PhaseComplete ''Scan complete'' (w\<lparr>pw_pairing := (pw_pairing w)\<lparr>pg_devices := devs\<rparr>\<rparr>)))
           in call_unit (pd_resume d) Call_Resume w)"

definition StartScan :: "'e PairingDeps \<Rightarrow> 'e pairing_world \<Rightarrow> 'e pairing_world option" where
  "StartScan d w = (case begin_pairing StageScanning (pd_now d (pw_env w)) (pw_pairing w) of
      None \<Rightarrow> None
    | Some p \<Rightarrow> Some (phase d PhaseLocatingDevice ''Scanning for Link-Power devices'' (w\<lparr>pw_pairing := p\<rparr>)))"

definition startPair :: "'e PairingDeps \<Rightarrow> string \<Rightarrow> 'e pairing_world \<Rightarrow> 'e pairing_world option" where
  "startPair d mac w = (case begin_pairing StagePairing (pd_now d (pw_env w)) (pw_pairing w) of
      None \<Rightarrow> None
    | Some p \<Rightarrow> Some (phase d PhasePreparingAdapter ''Preparing the Bluetooth adapter'' (w\<lparr>pw_pairing := p\<lparr>pg_target := mac\<rparr>\<rparr>)))"

definition pair_body ::
    "'e PairingDeps \<Rightarrow> string \<Rightarrow> string \<Rightarrow> bool \<Rightarrow> bool \<Rightarrow> 'e pairing_world \<Rightarrow> 'e pairing_world option" where
  "pair_body d mac pin recover interactive w = (case pair_main d mac pin recover interactive w of
      None \<Rightarrow> None | Some (w, unresumed) \<Rightarrow> pair_deferred d interactive unresumed w)"

definition StartPair :: "'e PairingDeps \<Rightarrow> string \<Rightarrow> string \<Rightarrow> 'e pairing_world \<Rightarrow> ('e pairing_world \<times> ('e pairing_world \<Rightarrow> 'e pairing_world option)) option" where
  "StartPair d mac pin w = map_option (\<lambda>w. (w, pair_body d mac pin False False)) (startPair d mac w)"

definition StartRecover :: "'e PairingDeps \<Rightarrow> string \<Rightarrow> string \<Rightarrow> 'e pairing_world \<Rightarrow> ('e pairing_world \<times> ('e pairing_world \<Rightarrow> 'e pairing_world option)) option" where
  "StartRecover d mac pin w = map_option (\<lambda>w. (w, pair_body d mac pin True False)) (startPair d mac w)"

definition StartInteractive :: "'e PairingDeps \<Rightarrow> string \<Rightarrow> bool \<Rightarrow> 'e pairing_world \<Rightarrow> ('e pairing_world \<times> ('e pairing_world \<Rightarrow> 'e pairing_world option)) option" where
  "StartInteractive d mac recover w = map_option (\<lambda>w. (w, pair_body d mac [] recover True)) (startPair d mac w)"

definition prompt_in_use :: "'e env \<Rightarrow> PasskeyPrompt option" where
  "prompt_in_use e = (case snd e of None \<Rightarrow> None | Some pp \<Rightarrow> if pp_active pp \<or> pp_waiting pp then Some pp else None)"

definition SubmitPIN :: "string \<Rightarrow> 'e env \<Rightarrow> ('e env \<times> prompt_error option) option" where
  "SubmitPIN pin e = (case prompt_in_use e of
      None \<Rightarrow> Some (e, Some ErrPasskeyNotWaiting)
    | Some pp \<Rightarrow> map_option (\<lambda>(pp, err). ((fst e, Some pp), err)) (Submit pin pp))"

definition Pairing_Cancel :: "'e env \<Rightarrow> ('e env \<times> prompt_error option) option" where
  "Pairing_Cancel e = (case prompt_in_use e of
      None \<Rightarrow> Some (e, Some ErrPasskeyNotWaiting)
    | Some pp \<Rightarrow> map_option (\<lambda>pp. ((fst e, Some pp), None)) (Cancel_prompt pp))"

definition Unpair :: "'e PairingDeps \<Rightarrow> string \<Rightarrow> 'e pairing_world \<Rightarrow> 'e pairing_world \<times> (unit + pair_error option)" where
  "Unpair d mac w =
     (if busyLocked (pw_pairing w) then (w, Inl ())
      else case pd_unpair d mac (pw_env w) of (e, err) \<Rightarrow> (w\<lparr>pw_env := e\<rparr>, Inr err))"

section \<open>The order of the calls\<close>

text \<open>How far an operation has got with the radio link: untouched, taken from the connector, bonded, trusted,
  given back, verified by a reconnect, saved, or given back without a verified bond. The boolean tells
  whether the agent has a PIN other than the configured one. \<open>None\<close> is a call out of order.\<close>

datatype link = Untouched | Held | Bonded | Trusted | GivenBack | Verified | Saved | Dropped

fun link_step :: "link \<times> bool \<Rightarrow> pair_call \<Rightarrow> (link \<times> bool) option" where
  "link_step (l, b) (Call_SetPIN pin) = Some (l, pin \<noteq> [])"
| "link_step (Untouched, b) (Call_Prepare ok) = Some (Untouched, b)"
| "link_step (Untouched, b) (Call_ResetSecurity ok) = Some (Untouched, b)"
| "link_step (Untouched, b) Call_Pause = Some (Held, b)"
| "link_step (Held, b) (Call_Prepare ok) = Some (Held, b)"
| "link_step (Held, b) (Call_ResetSecurity ok) = Some (Held, b)"
| "link_step (Held, b) (Call_Pair ok) = Some (if ok then Bonded else Held, b)"
| "link_step (Bonded, b) (Call_Trust ok) = Some (if ok then Trusted else Held, b)"
| "link_step (Trusted, b) Call_Resume = Some (GivenBack, b)"
| "link_step (GivenBack, b) (Call_WaitConnected ok) = Some (if ok then Verified else Dropped, b)"
| "link_step (Verified, b) (Call_Persist ok) = Some (if ok then Saved else Dropped, b)"
| "link_step (Held, b) Call_Resume = Some (Dropped, b)"
| "link_step _ _ = None"

fun link_run :: "link \<times> bool \<Rightarrow> pair_call list \<Rightarrow> (link \<times> bool) option" where
  "link_run l [] = Some l"
| "link_run l (c # cs) = (case link_step l c of None \<Rightarrow> None | Some l' \<Rightarrow> link_run l' cs)"

lemma link_run_snoc: "link_run l (cs @ [c]) = (case link_run l cs of None \<Rightarrow> None | Some l' \<Rightarrow> link_step l' c)"
  by (induction cs arbitrary: l) (auto split: option.splits)

text \<open>Foreign code uses the prompt only through its operations, which keep it consistent.\<close>

definition prompt_ok :: "'e env \<Rightarrow> bool" where
  "prompt_ok e \<longleftrightarrow> (case snd e of None \<Rightarrow> True | Some pp \<Rightarrow> result_ok pp)"

definition keeps_prompt :: "('e env \<Rightarrow> 'e env) \<Rightarrow> bool" where
  "keeps_prompt f \<longleftrightarrow> (\<forall>e. prompt_ok e \<longrightarrow> prompt_ok (f e))"

lemma keeps_promptD: "keeps_prompt f \<Longrightarrow> prompt_ok e \<Longrightarrow> prompt_ok (f e)"
  unfolding keeps_prompt_def by blast

definition well_behaved :: "'e PairingDeps \<Rightarrow> bool" where
  "well_behaved d \<longleftrightarrow> (\<forall>mac r. keeps_prompt (fst \<circ> pd_pair d mac r)) \<and> (\<forall>mac. keeps_prompt (fst \<circ> pd_trust d mac)) \<and>
     (\<forall>dur. keeps_prompt (fst \<circ> pd_scan d dur)) \<and>
     (\<forall>f. pd_prepare d = Some f \<longrightarrow> keeps_prompt (fst \<circ> f)) \<and> (\<forall>f. pd_reset_security d = Some f \<longrightarrow> keeps_prompt (fst \<circ> f)) \<and>
     (\<forall>f. pd_pause d = Some f \<longrightarrow> keeps_prompt f) \<and> (\<forall>f. pd_resume d = Some f \<longrightarrow> keeps_prompt f) \<and>
     (\<forall>f pin. pd_set_pin d = Some f \<longrightarrow> keeps_prompt (f pin)) \<and> (\<forall>f. pd_wait_connected d = Some f \<longrightarrow> keeps_prompt (fst \<circ> f)) \<and>
     (\<forall>f mac pin. pd_persist d = Some f \<longrightarrow> keeps_prompt (fst \<circ> f mac pin))"

text \<open>The daemon provides these four.\<close>

definition wired :: "'e PairingDeps \<Rightarrow> bool" where
  "wired d \<longleftrightarrow> pd_pause d \<noteq> None \<and> pd_resume d \<noteq> None \<and> pd_wait_connected d \<noteq> None \<and> pd_persist d \<noteq> None"

definition tracked :: "pair_call list \<Rightarrow> link \<times> bool \<Rightarrow> 'e pairing_world \<Rightarrow> bool" where
  "tracked cs0 l w \<longleftrightarrow> (\<exists>cs. pw_calls w = cs0 @ cs \<and> link_run (Untouched, False) cs = Some l) \<and> prompt_ok (pw_env w) \<and>
     length (pg_events (pw_pairing w)) \<le> pairingEventCap"

lemma setPhase_events: "length (pg_events p) \<le> 32 \<Longrightarrow> length (pg_events (setPhase now ph msg p)) \<le> 32"
  by (simp add: setPhase_def length_push_capped)

lemma reports_events:
  "length (pg_events p) \<le> 32 \<Longrightarrow> length (pg_events (fold (\<lambda>(t, ph, msg). setPhase t ph msg) rs p)) \<le> 32"
  by (induction rs arbitrary: p) (auto simp: setPhase_events)

lemma tracked_phase [simp]: "tracked cs0 l w \<Longrightarrow> tracked cs0 l (phase d ph msg w)"
  by (simp add: tracked_def phase_def setPhase_events)

lemma tracked_reported [simp]: "tracked cs0 l w \<Longrightarrow> tracked cs0 l (reported rs w)"
  by (simp add: tracked_def reported_def reports_events)

lemma tracked_called:
  assumes "tracked cs0 l w" "link_step l c = Some l'" "prompt_ok e" shows "tracked cs0 l' (called c e w)"
proof -
  obtain cs where cs: "pw_calls w = cs0 @ cs" "link_run (Untouched, False) cs = Some l" using assms(1) by (auto simp: tracked_def)
  have "pw_calls (called c e w) = cs0 @ (cs @ [c])" "link_run (Untouched, False) (cs @ [c]) = Some l'"
    using cs assms(2) by (simp_all add: called_def link_run_snoc)
  then show ?thesis using assms(1,3) unfolding tracked_def by (auto simp: called_def)
qed

lemma tracked_env: "tracked cs0 l w \<Longrightarrow> prompt_ok e \<Longrightarrow> tracked cs0 l (w\<lparr>pw_env := e\<rparr>)"
  by (simp add: tracked_def)

lemma tracked_prompt: "tracked cs0 l w \<Longrightarrow> prompt_ok (pw_env w)"
  by (simp add: tracked_def)

lemma finish_events: "length (pg_events p) \<le> 32 \<Longrightarrow> length (pg_events (finish_pairing t1 t2 st err p)) \<le> 32"
  by (simp add: finish_pairing_def setPhase_events split: option.split)

lemma tracked_finish [simp]: "tracked cs0 l w \<Longrightarrow> tracked cs0 l (finish_op d st err w)"
  by (simp add: tracked_def finish_op_def finish_events)

lemma finish_stage [simp]: "pg_stage (pw_pairing (finish_op d st err w)) = (if err = None then st else StageError)"
  by (simp add: finish_op_def finish_pairing_def split: option.split)

lemma tracked_call_opt:
  assumes "tracked cs0 l w" "\<And>g. f = Some g \<Longrightarrow> keeps_prompt (fst \<circ> g)" "call_opt f c w = (w', err)"
    and "f = None \<Longrightarrow> l' = l" "f \<noteq> None \<Longrightarrow> link_step l (c (err = None)) = Some l'"
  shows "tracked cs0 l' w'"
proof (cases f)
  case None
  then show ?thesis using assms by (auto simp: call_opt_def)
next
  case (Some g)
  obtain e where e: "g (pw_env w) = (e, err)" "w' = called (c (err = None)) e w"
    using assms(3) Some by (auto simp: call_opt_def split: prod.splits)
  have "prompt_ok e" using keeps_promptD [OF assms(2) [OF Some] tracked_prompt [OF assms(1)]] e(1) by simp
  then show ?thesis unfolding e(2) using assms(1,5) Some by (intro tracked_called) simp_all
qed

lemma tracked_call_unit:
  assumes "tracked cs0 l w" "\<And>g. f = Some g \<Longrightarrow> keeps_prompt g"
    and "f = None \<Longrightarrow> l' = l" "f \<noteq> None \<Longrightarrow> link_step l c = Some l'"
  shows "tracked cs0 l' (call_unit f c w)"
proof (cases f)
  case (Some g)
  have ok: "prompt_ok (g (pw_env w))" by (rule keeps_promptD [OF assms(2) [OF Some] tracked_prompt [OF assms(1)]])
  have step: "link_step l c = Some l'" using assms(4) Some by simp
  from tracked_called [OF assms(1) step ok] show ?thesis by (simp add: call_unit_def Some)
qed (use assms in \<open>simp add: call_unit_def\<close>)

lemma tracked_set_pin:
  assumes "well_behaved d" "tracked cs0 (l, b) w"
  shows "tracked cs0 (l, if pd_set_pin d = None then b else pin \<noteq> []) (set_pin d pin w)"
  unfolding set_pin_def using assms(1) by (intro tracked_call_unit [OF assms(2)]) (auto simp: well_behaved_def)

lemma tracked_restore:
  assumes "well_behaved d" "tracked cs0 (l, b) w" "pd_set_pin d = None \<longrightarrow> \<not> b" "pin = [] \<longrightarrow> \<not> b"
  shows "tracked cs0 (l, False) (restorePIN d pin w)"
proof -
  have "(if pd_set_pin d = None then b else [] \<noteq> ([] :: string)) = False" using assms(3) by simp
  then show ?thesis using assms(2,4) tracked_set_pin [OF assms(1,2), of "[]"] by (cases b) (simp_all add: restorePIN_def)
qed

text \<open>One pairing attempt.\<close>

lemma pairPass_tracked:
  assumes d: "well_behaved d" "wired d" and w: "tracked cs0 (if paused then Held else Untouched, b) w"
    and b: "pd_set_pin d = None \<longrightarrow> \<not> b" "pin = [] \<longrightarrow> \<not> b"
    and p: "pairPass d mac pin recover paused w = (w', paused', err)"
  shows "\<exists>b'. tracked cs0 (if err = None then Trusted else if paused' then Held else Untouched, b') w' \<and>
    (pd_set_pin d = None \<longrightarrow> \<not> b') \<and> (pin = [] \<longrightarrow> \<not> b') \<and> (err = None \<longrightarrow> paused')"
proof -
  define l where "l = (if paused then Held else Untouched)"
  obtain w1 e1 where c1: "call_opt (pd_prepare d) Call_Prepare w = (w1, e1)" by force
  have t1: "tracked cs0 (l, b) w1"
    using d(1) w unfolding l_def by (intro tracked_call_opt [OF w _ c1]) (auto simp: well_behaved_def)
  show ?thesis
  proof (cases e1)
    case (Some e)
    then have "w' = w1" "paused' = paused" "err = Some e" using p c1 by (simp_all add: pairPass_def)
    then show ?thesis using t1 b unfolding l_def by auto
  next
    case None
    define b' where "b' = (if pin = [] \<or> pd_set_pin d = None then b else True)"
    define w2 where "w2 = (if pin = [] then w1 else set_pin d pin w1)"
    have t2: "tracked cs0 (l, b') w2"
      using t1 tracked_set_pin [OF d(1) t1, of pin] by (auto simp: w2_def b'_def)
    define w3 where "w3 = (if paused then w2 else call_unit (pd_pause d) Call_Pause w2)"
    have t3: "tracked cs0 (Held, b') w3"
    proof (cases paused)
      case False
      have "tracked cs0 (Held, b') (call_unit (pd_pause d) Call_Pause w2)"
        using d False by (intro tracked_call_unit [OF t2]) (auto simp: well_behaved_def wired_def l_def)
      then show ?thesis using False by (simp add: w3_def)
    qed (use t2 in \<open>simp add: w3_def l_def\<close>)
    obtain e rs perr where c4: "pd_pair d mac recover (pw_env w3) = (e, rs, perr)" by (cases "pd_pair d mac recover (pw_env w3)")
    define w4 where "w4 = reported rs (called (Call_Pair (perr = None)) e w3)"
    have "prompt_ok e"
    proof -
      have "keeps_prompt (fst \<circ> pd_pair d mac recover)" using d(1) by (simp add: well_behaved_def)
      from keeps_promptD [OF this tracked_prompt [OF t3]] show ?thesis using c4 by simp
    qed
    then have t4: "tracked cs0 (if perr = None then Bonded else Held, b') w4"
      unfolding w4_def by (intro tracked_reported tracked_called [OF t3]) simp_all
    have b': "pd_set_pin d = None \<longrightarrow> \<not> b'" "pin = [] \<longrightarrow> \<not> b'" using b by (auto simp: b'_def)
    have body: "pairPass d mac pin recover paused w = (case perr of
        Some x \<Rightarrow> (w4, True, Some x)
      | None \<Rightarrow> (case call_opt (Some (pd_trust d mac)) Call_Trust (phase d PhaseTrustingDevice ''Trusting Link-Power on this router'' w4) of
          (w, err) \<Rightarrow> (w, True, err)))"
      unfolding pairPass_def c1 None prod.case option.case Let_def w2_def [symmetric] w3_def [symmetric] c4 w4_def [symmetric] ..
    show ?thesis
    proof (cases perr)
      case (Some x)
      then show ?thesis using p body t4 b' by auto
    next
      case None
      obtain w5 terr where c5: "call_opt (Some (pd_trust d mac)) Call_Trust
          (phase d PhaseTrustingDevice ''Trusting Link-Power on this router'' w4) = (w5, terr)" by force
      have t5: "tracked cs0 (if terr = None then Trusted else Held, b') w5"
      proof (rule tracked_call_opt [OF tracked_phase [OF t4] _ c5])
        show "keeps_prompt (fst \<circ> g)" if "Some (pd_trust d mac) = Some g" for g using d(1) that by (auto simp: well_behaved_def)
      qed (simp_all add: None)
      have "w' = w5" "paused'" "err = terr" using p body None c5 by simp_all
      then show ?thesis using t5 b' by auto
    qed
  qed
qed

lemma prompt_ok_set: "prompt_ok (x, Some pp) = result_ok pp" "prompt_ok (x, None)"
  by (simp_all add: prompt_ok_def)

lemma may_retry_tracked:
  assumes "tracked cs0 l w" obtains w' ok where "may_retry d interactive w = Some (w', ok)" "tracked cs0 l w'"
proof (cases "snd (pw_env w)")
  case (Some pp)
  have r: "result_ok pp" using tracked_prompt [OF assms] Some by (simp add: prompt_ok_def)
  show thesis
  proof (cases interactive)
    case True
    show thesis
    proof (cases rule: Rearm_cases [of "pd_now d (pw_env w)" pp])
      case no
      then show thesis using that [of "w\<lparr>pw_env := (fst (pw_env w), Some pp)\<rparr>" False] True Some r
        by (simp add: may_retry_def tracked_env [OF assms] prompt_ok_set)
    next
      case (yes pp')
      then show thesis using that [of "w\<lparr>pw_env := (fst (pw_env w), Some pp')\<rparr>" True] True Some
        by (simp add: may_retry_def tracked_env [OF assms] prompt_ok_set)
    qed
  qed (use that assms Some in \<open>simp add: may_retry_def\<close>)
qed (use that assms in \<open>simp add: may_retry_def\<close>)

text \<open>What an attempt leaves behind, as the retry and the rest of the operation need it.\<close>

definition attempted :: "'e PairingDeps \<Rightarrow> pair_call list \<Rightarrow> string \<Rightarrow> 'e pairing_world \<times> bool \<times> pair_error option \<Rightarrow> bool" where
  "attempted d cs0 pin r = (case r of (w, paused, err) \<Rightarrow>
     \<exists>b. tracked cs0 (if err = None then Trusted else if paused then Held else Untouched, b) w \<and>
       (pd_set_pin d = None \<longrightarrow> \<not> b) \<and> (pin = [] \<longrightarrow> \<not> b) \<and> (err = None \<longrightarrow> paused))"

lemma pairPass_attempted:
  assumes "well_behaved d" "wired d" "tracked cs0 (if paused then Held else Untouched, b) w"
    and "pd_set_pin d = None \<longrightarrow> \<not> b" "pin = [] \<longrightarrow> \<not> b"
  shows "attempted d cs0 pin (pairPass d mac pin recover paused w)"
  using pairPass_tracked [OF assms] unfolding attempted_def by (cases "pairPass d mac pin recover paused w") auto

lemma retry_attempted:
  assumes d: "well_behaved d" "wired d" and w: "tracked cs0 (if paused then Held else Untouched, b) w" "pd_set_pin d = None \<longrightarrow> \<not> b" "pin = [] \<longrightarrow> \<not> b"
    and reset: "pd_reset_security d \<noteq> None"
  defines "l \<equiv> if paused then Held else Untouched"
  obtains r where "retry_pass d mac pin interactive paused w = Some r" "attempted d cs0 pin r"
proof -
  define w1 where "w1 = phase d PhaseResettingBluetooth ''Resetting stale Bluetooth security state'' w"
  obtain w2 e2 where c2: "call_opt (pd_reset_security d) Call_ResetSecurity w1 = (w2, e2)" by force
  have t1: "tracked cs0 (l, b) w1" using w(1) by (simp add: w1_def l_def)
  have t2: "tracked cs0 (l, b) w2"
    using d(1) reset by (intro tracked_call_opt [OF t1 _ c2]) (auto simp: well_behaved_def l_def)
  show thesis
  proof (cases e2)
    case (Some e)
    have "attempted d cs0 pin (w2, paused, Some (e\<lparr>pe_text := ''reset Bluetooth security: '' @ pe_text e\<rparr>))"
      using t2 w(2,3) unfolding attempted_def l_def by auto
    then show thesis using that c2 Some by (simp add: retry_pass_def Let_def w1_def)
  next
    case None
    obtain w3 ok where c3: "may_retry d interactive w2 = Some (w3, ok)" and t3: "tracked cs0 (l, b) w3"
      using t2 by (rule may_retry_tracked)
    show thesis
    proof (cases ok)
      case True
      let ?w = "phase d PhaseRetryingPIN ''Retrying the pairing PIN exchange'' w3"
      have "attempted d cs0 pin (pairPass d mac pin True paused ?w)"
        using t3 w(2,3) by (intro pairPass_attempted [OF d, where b = b]) (simp_all add: l_def)
      then show thesis using that [of "pairPass d mac pin True paused ?w"] c2 c3 None True by (simp add: retry_pass_def Let_def w1_def)
    next
      case False
      have "attempted d cs0 pin (w3, paused, Some \<lparr>pe_text = ''the submitted pairing PIN was unavailable for retry'',
          pe_security_timeout = False\<rparr>)" using t3 w(2,3) unfolding attempted_def l_def by auto
      then show thesis using that c2 c3 None False by (simp add: retry_pass_def Let_def w1_def)
    qed
  qed
qed

text \<open>The second half: the link is given back, the reconnect awaited, the pairing saved.\<close>

definition settled :: "'e PairingDeps \<Rightarrow> pair_call list \<Rightarrow> string \<Rightarrow> 'e pairing_world \<Rightarrow> bool" where
  "settled d cs0 pin w \<longleftrightarrow>
     (pg_stage (pw_pairing w) = StagePaired \<and> (\<exists>b. tracked cs0 (Saved, b) w)) \<or>
     (pg_stage (pw_pairing w) = StageError \<and> (\<exists>l \<in> {Untouched, Dropped}. tracked cs0 (l, False) w))"

lemma verify_settled:
  assumes d: "well_behaved d" "wired d" and w: "tracked cs0 (GivenBack, b) w" "pd_set_pin d = None \<longrightarrow> \<not> b" "pin = [] \<longrightarrow> \<not> b"
  shows "settled d cs0 pin (verify_and_save d mac pin w)"
proof -
  obtain f g where f: "pd_wait_connected d = Some f" and g: "pd_persist d = Some g" using d(2) by (auto simp: wired_def)
  obtain e rs ok where c1: "f (pw_env w) = (e, rs, ok)" by (cases "f (pw_env w)")
  define w1 where "w1 = reported rs (called (Call_WaitConnected ok) e w)"
  have "prompt_ok e"
  proof -
    have "keeps_prompt (fst \<circ> f)" using d(1) f by (simp add: well_behaved_def)
    from keeps_promptD [OF this tracked_prompt [OF w(1)]] show ?thesis using c1 by simp
  qed
  then have t1: "tracked cs0 (if ok then Verified else Dropped, b) w1"
    unfolding w1_def by (intro tracked_reported tracked_called [OF w(1)]) simp_all
  show ?thesis
  proof (cases ok)
    case False
    have "tracked cs0 (Dropped, False) (restorePIN d pin w1)"
      using t1 w(2,3) False by (intro tracked_restore [OF d(1)]) simp_all
    then show ?thesis using False by (simp add: verify_and_save_def f c1 w1_def settled_def)
  next
    case True
    then have w1: "reported rs (called (Call_WaitConnected True) e w) = w1" by (simp add: w1_def)
    let ?w = "phase d PhaseSavingPairing ''Saving the verified pairing'' w1"
    obtain w2 err where c2: "call_opt (Some (g mac pin)) Call_Persist ?w = (w2, err)" by force
    have t2: "tracked cs0 (if err = None then Saved else Dropped, b) w2"
    proof (rule tracked_call_opt [OF tracked_phase [OF t1] _ c2])
      show "keeps_prompt (fst \<circ> h)" if "Some (g mac pin) = Some h" for h using d(1) g that by (auto simp: well_behaved_def)
    qed (simp_all add: True)
    show ?thesis
    proof (cases err)
      case None
      then have "tracked cs0 (Saved, b) (finish_op d StagePaired None (phase d PhaseComplete ''Pairing verified'' w2))"
        using t2 by simp
      then show ?thesis using c2 True None by (auto simp: verify_and_save_def f g c1 w1 settled_def)
    next
      case (Some x)
      have "tracked cs0 (Dropped, False) (restorePIN d pin w2)"
        using t2 w(2,3) Some by (intro tracked_restore [OF d(1)]) simp_all
      then show ?thesis using c2 True Some by (simp add: verify_and_save_def f g c1 w1 settled_def)
    qed
  qed
qed

lemma tracked_resume:
  assumes "well_behaved d" "wired d" "tracked cs0 (l, b) w" "l \<in> {Trusted, Held}"
  shows "tracked cs0 (if l = Trusted then GivenBack else Dropped, b) (resume_link d True w)"
proof -
  have "tracked cs0 (if l = Trusted then GivenBack else Dropped, b) (call_unit (pd_resume d) Call_Resume w)"
    using assms by (intro tracked_call_unit [OF assms(3)]) (auto simp: well_behaved_def wired_def)
  then show ?thesis by (simp add: resume_link_def)
qed

text \<open>Up to \<^verbatim>\<open>finish\<close>: either everything is done, or the connector still has to be resumed.\<close>

definition finished :: "'e PairingDeps \<Rightarrow> pair_call list \<Rightarrow> string \<Rightarrow> 'e pairing_world \<times> bool \<Rightarrow> bool" where
  "finished d cs0 pin r = (case r of (w, unresumed) \<Rightarrow>
     if unresumed then pg_stage (pw_pairing w) = StageError \<and> tracked cs0 (Held, False) w else settled d cs0 pin w)"

lemma attempted_finished:
  assumes d: "well_behaved d" "wired d" and a: "attempted d cs0 pin (w, paused, err)"
  shows "finished d cs0 pin (case err of
      Some e \<Rightarrow> (finish_op d StagePaired (Some e) (restorePIN d pin w), paused)
    | None \<Rightarrow> (verify_and_save d mac pin (resume_link d paused (phase d PhaseReconnecting ''Reconnecting to Link-Power'' w)), False))"
proof -
  obtain b where t: "tracked cs0 (if err = None then Trusted else if paused then Held else Untouched, b) w"
    and b: "pd_set_pin d = None \<longrightarrow> \<not> b" "pin = [] \<longrightarrow> \<not> b" "err = None \<longrightarrow> paused" using a by (auto simp: attempted_def)
  show ?thesis
  proof (cases err)
    case None
    let ?w = "phase d PhaseReconnecting ''Reconnecting to Link-Power'' w"
    have "tracked cs0 (Trusted, b) ?w" using t None by simp
    then have "tracked cs0 (GivenBack, b) (resume_link d True ?w)" using tracked_resume [OF d, of cs0 Trusted b ?w] by simp
    then show ?thesis using verify_settled [OF d _ b(1,2)] None b(3) by (simp add: finished_def)
  next
    case (Some e)
    have "tracked cs0 (if paused then Held else Untouched, False) (restorePIN d pin w)"
      using t Some b(1,2) by (intro tracked_restore [OF d(1)]) auto
    then show ?thesis using Some by (auto simp: finished_def settled_def)
  qed
qed

lemma tracked_activate: "tracked cs0 l w \<Longrightarrow> tracked cs0 l (activate_prompt d interactive w)"
  by (auto simp: activate_prompt_def prompt_ok_set Activate_def make_result_def result_ok_def nth_append
      intro!: tracked_phase tracked_env split: option.split)

lemma pair_main_finished:
  assumes d: "well_behaved d" "wired d" and w: "tracked cs0 (Untouched, False) w"
  obtains r where "pair_main d mac pin recover interactive w = Some r" "finished d cs0 pin r"
proof -
  obtain w1 paused err where p: "pairPass d mac pin recover False (activate_prompt d interactive w) = (w1, paused, err)"
    by (cases "pairPass d mac pin recover False (activate_prompt d interactive w)")
  have a1: "attempted d cs0 pin (w1, paused, err)"
    unfolding p [symmetric] using tracked_activate [OF w] by (intro pairPass_attempted [OF d, where b = False]) simp_all
  let ?again = "recover \<and> (case err of None \<Rightarrow> False | Some e \<Rightarrow> pe_security_timeout e) \<and> pd_reset_security d \<noteq> None"
  have "\<exists>r. (if ?again then retry_pass d mac pin interactive paused w1 else Some (w1, paused, err)) = Some r \<and> attempted d cs0 pin r"
  proof (cases ?again)
    case True
    then obtain b where "tracked cs0 (if paused then Held else Untouched, b) w1" "pd_set_pin d = None \<longrightarrow> \<not> b" "pin = [] \<longrightarrow> \<not> b"
      using a1 by (auto simp: attempted_def split: option.splits)
    from retry_attempted [OF d this] True show ?thesis by (metis (no_types, lifting))
  qed (use a1 in auto)
  then obtain w2 paused2 err2 where r: "(if ?again then retry_pass d mac pin interactive paused w1 else Some (w1, paused, err)) = Some (w2, paused2, err2)"
    and a2: "attempted d cs0 pin (w2, paused2, err2)" by (metis prod_cases3)
  show thesis
  proof (rule that)
    show "pair_main d mac pin recover interactive w = Some (case err2 of
        Some e \<Rightarrow> (finish_op d StagePaired (Some e) (restorePIN d pin w2), paused2)
      | None \<Rightarrow> (verify_and_save d mac pin (resume_link d paused2 (phase d PhaseReconnecting ''Reconnecting to Link-Power'' w2)), False))"
      unfolding pair_main_def p prod.case r by (simp split: option.split)
    show "finished d cs0 pin (case err2 of
        Some e \<Rightarrow> (finish_op d StagePaired (Some e) (restorePIN d pin w2), paused2)
      | None \<Rightarrow> (verify_and_save d mac pin (resume_link d paused2 (phase d PhaseReconnecting ''Reconnecting to Link-Power'' w2)), False))"
      using attempted_finished [OF d a2] .
  qed
qed

lemma deactivate_tracked:
  assumes "tracked cs0 l w"
  obtains w' where "deactivate_prompt activated w = Some w'" "tracked cs0 l w'" "pw_pairing w' = pw_pairing w"
proof (cases "snd (pw_env w)")
  case (Some pp)
  have r: "result_ok pp" using tracked_prompt [OF assms] Some by (simp add: prompt_ok_def)
  obtain pp1 again where s: "deactivate_section pp = (pp1, again)" by force
  have r1: "result_ok pp1" using r s by (auto simp: deactivate_section_def result_ok_def Let_def split: if_splits)
  have "\<exists>pp'. Deactivate pp = Some pp' \<and> result_ok pp'"
  proof (cases again)
    case True
    from r1 show ?thesis
    proof (cases rule: Cancel_cases)
      case (flagged c) then show ?thesis using r1 s True by (auto simp: Deactivate_def result_ok_def)
    next
      case (sent p') then show ?thesis using s True by (simp add: Deactivate_def)
    qed
  qed (use s r1 in \<open>simp add: Deactivate_def\<close>)
  then obtain pp' where pp': "Deactivate pp = Some pp'" "result_ok pp'" by blast
  show thesis
  proof (cases activated)
    case True
    then show thesis using that [of "w\<lparr>pw_env := (fst (pw_env w), Some pp')\<rparr>"] pp' Some
      by (simp add: deactivate_prompt_def tracked_env [OF assms] prompt_ok_set)
  qed (use that assms Some in \<open>simp add: deactivate_prompt_def\<close>)
qed (use that assms in \<open>simp add: deactivate_prompt_def\<close>)

lemma resume_link_pairing [simp]: "pw_pairing (resume_link d b w) = pw_pairing w"
  by (simp add: resume_link_def call_unit_def called_def split: option.split)

lemma pair_body_settles:
  assumes d: "well_behaved d" "wired d" and w: "tracked cs0 (Untouched, False) w"
  obtains w' where "pair_body d mac pin recover interactive w = Some w'" "settled d cs0 pin w'"
proof -
  obtain w1 unresumed where m: "pair_main d mac pin recover interactive w = Some (w1, unresumed)"
    and f: "finished d cs0 pin (w1, unresumed)" using pair_main_finished [OF d w] by (metis surj_pair)
  show thesis
  proof (cases unresumed)
    case True
    then have "tracked cs0 (Held, False) w1" and st: "pg_stage (pw_pairing w1) = StageError" using f by (simp_all add: finished_def)
    then obtain w2 where w2: "deactivate_prompt interactive w1 = Some w2" "tracked cs0 (Held, False) w2" "pw_pairing w2 = pw_pairing w1"
      by (metis deactivate_tracked)
    have "tracked cs0 (Dropped, False) (resume_link d True w2)" using tracked_resume [OF d w2(2)] by simp
    then show thesis using that [of "resume_link d True w2"] m w2 True st by (auto simp: pair_body_def pair_deferred_def settled_def)
  next
    case False
    then have s: "settled d cs0 pin w1" using f by (simp add: finished_def)
    then obtain l where "tracked cs0 l w1" by (auto simp: settled_def)
    then obtain w2 where w2: "deactivate_prompt interactive w1 = Some w2" "pw_pairing w2 = pw_pairing w1"
      and t: "\<And>l. tracked cs0 l w1 \<Longrightarrow> tracked cs0 l w2" by (metis deactivate_tracked option.inject)
    have "settled d cs0 pin w2" using s t w2(2) unfolding settled_def by metis
    then show thesis using that m w2(1) False by (simp add: pair_body_def pair_deferred_def resume_link_def)
  qed
qed

section \<open>Properties\<close>

definition started :: "'e PairingDeps \<Rightarrow> string \<Rightarrow> string \<Rightarrow> 'e pairing_world \<Rightarrow> 'e pairing_world \<times> ('e pairing_world \<Rightarrow> 'e pairing_world option) \<Rightarrow> bool" where
  "started d mac pin w r \<longleftrightarrow> StartPair d mac pin w = Some r \<or> StartRecover d mac pin w = Some r \<or>
     StartInteractive d mac False w = Some r \<or> StartInteractive d mac True w = Some r"

lemma startPair_tracked:
  assumes "startPair d mac w = Some w1" "prompt_ok (pw_env w)" shows "tracked (pw_calls w) (Untouched, False) w1"
  using assms by (auto simp: startPair_def begin_pairing_def tracked_def phase_def setPhase_def push_capped_def split: if_splits)

text \<open>C19. A pairing operation always comes to an end and never leaves the radio link occupied or a foreign PIN
  behind: whatever BlueZ, the device and the file system answer, the goroutine of a started operation
  returns with the manager no longer busy. It has then made its calls in the prescribed order, every attempt
  to pair while the connector is paused, the connector resumed exactly when it was paused. The operation
  is reported as paired exactly when the bond was made, trusted, verified by a protected reconnect and
  saved; after a failure the agent has the configured PIN again. The progress log has at most 32 entries.\<close>

theorem pairing_settles:
  assumes "well_behaved d" and "wired d" and "prompt_ok (pw_env w)" and "started d mac pin w (w1, body)"
  shows "\<exists>w2 cs l b. body w1 = Some w2 \<and> \<not> busyLocked (pw_pairing w2) \<and> pw_calls w2 = pw_calls w @ cs \<and>
    link_run (Untouched, False) cs = Some (l, b) \<and> length (pg_events (pw_pairing w2)) \<le> 32 \<and>
    (if pg_stage (pw_pairing w2) = StagePaired then l = Saved else l \<in> {Untouched, Dropped} \<and> \<not> b)"
proof -
  obtain pin' recover interactive where s: "startPair d mac w = Some w1" "body = pair_body d mac pin' recover interactive"
    using assms(4) by (auto simp: started_def StartPair_def StartRecover_def StartInteractive_def)
  obtain w2 where w2: "body w1 = Some w2" "settled d (pw_calls w) pin' w2"
    unfolding s(2) using pair_body_settles [OF assms(1,2) startPair_tracked [OF s(1) assms(3)]] by metis
  then obtain l b where l: "tracked (pw_calls w) (l, b) w2"
    "(pg_stage (pw_pairing w2) = StagePaired \<and> l = Saved) \<or> (pg_stage (pw_pairing w2) = StageError \<and> l \<in> {Untouched, Dropped} \<and> \<not> b)"
    unfolding settled_def by blast
  then obtain cs where "pw_calls w2 = pw_calls w @ cs" "link_run (Untouched, False) cs = Some (l, b)"
    "length (pg_events (pw_pairing w2)) \<le> 32" by (auto simp: tracked_def)
  then show ?thesis using w2(1) l(2) by (intro exI [of _ w2] exI [of _ cs] exI [of _ l] exI [of _ b]) (auto simp: busyLocked_def)
qed

text \<open>A scan always gives the radio back: the goroutine of a started scan pauses the connector, scans once and
  resumes it, and leaves the manager idle with the devices that were found, or in the error stage with the
  previous list; while any operation runs, every other start and every removal of a bond is refused.\<close>

theorem scan_settles:
  assumes "wired d" and "StartScan d w = Some w1"
  shows "(\<exists>ok. pw_calls (scan_body d w1) = pw_calls w @ [Call_Pause, Call_Scan ok, Call_Resume] \<and>
      pg_stage (pw_pairing (scan_body d w1)) = (if ok then StageIdle else StageError) \<and>
      (\<not> ok \<longrightarrow> pg_devices (pw_pairing (scan_body d w1)) = pg_devices (pw_pairing w))) \<and>
    StartScan d w1 = None \<and> startPair d mac w1 = None \<and> Unpair d mac w1 = (w1, Inl ())"
proof -
  obtain f g where f: "pd_pause d = Some f" and g: "pd_resume d = Some g" using assms(1) by (auto simp: wired_def)
  have w1: "pw_calls w1 = pw_calls w" "pg_stage (pw_pairing w1) = StageScanning" "pg_devices (pw_pairing w1) = pg_devices (pw_pairing w)"
    using assms(2) by (auto simp: StartScan_def begin_pairing_def phase_def setPhase_def split: if_splits)
  obtain e r where s: "pd_scan d (scan_duration d) (f (pw_env w1)) = (e, r)"
    by (cases "pd_scan d (scan_duration d) (f (pw_env w1))")
  have "\<exists>ok. pw_calls (scan_body d w1) = pw_calls w @ [Call_Pause, Call_Scan ok, Call_Resume] \<and>
      pg_stage (pw_pairing (scan_body d w1)) = (if ok then StageIdle else StageError) \<and>
      (\<not> ok \<longrightarrow> pg_devices (pw_pairing (scan_body d w1)) = pg_devices (pw_pairing w))"
    by (intro exI [of _ "isl r = False"], cases r) (simp_all add: scan_body_def call_unit_def called_def f g s w1 finish_op_def finish_pairing_def phase_def setPhase_def Let_def)
  moreover have "StartScan d w1 = None \<and> startPair d mac w1 = None \<and> Unpair d mac w1 = (w1, Inl ())"
    using w1(2) by (simp add: StartScan_def startPair_def begin_pairing_def Unpair_def busyLocked_def)
  ultimately show ?thesis by blast
qed

text \<open>The manager is no longer busy before the deferred calls have run: after a failed attempt another
  operation can start, and take the radio link, before this one has resumed the connector.\<close>

lemma not_busy_while_held:
  assumes "well_behaved d" "wired d" "tracked cs0 (Untouched, False) w" "pair_main d mac pin recover interactive w = Some (w1, True)"
  shows "StartScan d w1 \<noteq> None \<and> tracked cs0 (Held, False) w1"
proof -
  have "pg_stage (pw_pairing w1) = StageError \<and> tracked cs0 (Held, False) w1"
    using pair_main_finished [OF assms(1-3), of mac pin recover interactive] assms(4) by (auto simp: finished_def)
  then show ?thesis by (simp add: StartScan_def begin_pairing_def busyLocked_def)
qed

definition demo_deps :: "unit PairingDeps" where
  "demo_deps = \<lparr>pd_scan = (\<lambda>dur e. (e, Inr [])), pd_pair = (\<lambda>mac r e. (e, [(1, PhaseExchangingPIN, ''Exchanging the PIN'')], None)),
     pd_trust = (\<lambda>mac e. (e, None)), pd_unpair = (\<lambda>mac e. (e, None)), pd_scan_for = 0, pd_prepare = Some (\<lambda>e. (e, None)),
     pd_reset_security = None, pd_pause = Some id, pd_resume = Some id, pd_set_pin = Some (\<lambda>pin e. e),
     pd_wait_connected = Some (\<lambda>e. (e, [], True)), pd_persist = Some (\<lambda>mac pin e. (e, None)), pd_now = (\<lambda>e. 5)\<rparr>"

definition demo_world :: "unit pairing_world" where
  "demo_world = \<lparr>pw_env = ((), Some (NewPasskeyPrompt 0)), pw_pairing = NewPairing, pw_calls = []\<rparr>"

lemma demo_deps_ok: "well_behaved demo_deps" "wired demo_deps" "prompt_ok (pw_env demo_world)"
  by (simp_all add: well_behaved_def keeps_prompt_def wired_def demo_deps_def demo_world_def prompt_ok_def NewPasskeyPrompt_def result_ok_def)

theorem pairing_settles_witness:
  "\<exists>w1 body w2. StartPair demo_deps ''AA'' ''020555'' demo_world = Some (w1, body) \<and> body w1 = Some w2 \<and>
     \<not> busyLocked (pw_pairing w2) \<and> length (pg_events (pw_pairing w2)) \<le> 32"
proof -
  obtain w1 body where s: "StartPair demo_deps ''AA'' ''020555'' demo_world = Some (w1, body)"
    by (simp add: StartPair_def startPair_def begin_pairing_def busyLocked_def demo_world_def NewPairing_def)
  then have "started demo_deps ''AA'' ''020555'' demo_world (w1, body)" by (simp add: started_def)
  from pairing_settles [OF demo_deps_ok this] s show ?thesis by blast
qed

theorem scan_settles_witness:
  "\<exists>w1. StartScan demo_deps demo_world = Some w1 \<and> Unpair demo_deps ''AA'' w1 = (w1, Inl ())"
proof -
  obtain w1 where s: "StartScan demo_deps demo_world = Some w1"
    by (simp add: StartScan_def begin_pairing_def busyLocked_def demo_world_def NewPairing_def)
  from scan_settles [OF demo_deps_ok(2) s] s show ?thesis by blast
qed

end
