(* ===== verification/Connector.thy ===== *)
theory Connector
  imports Ble_Session
begin

text \<open>
  \<^verbatim>\<open>internal/ble/connector.go\<close>: the goroutine \<^verbatim>\<open>Run\<close> that keeps the Bluetooth link up, and the operations by
  which other goroutines pause it or change its reconnect policy. Every critical section is one function
  of the connector and the store; \<^verbatim>\<open>Run\<close> is a program counter that moves from one atomic section to the
  next, and between any two of its steps other goroutines, the clock, the device and the stop channel may
  act. A transport is a number; closing it and losing it look the same to \<^verbatim>\<open>Run\<close>. The dialer and the
  handshake may return anything; a dialer returns a transport exactly when it returns no error. The
  channels \<^verbatim>\<open>policyChanged\<close> and \<^verbatim>\<open>resume\<close>, which are closed and replaced, are numbers too: a channel has been
  closed when its number is no longer the current one.
\<close>

section \<open>State\<close>

record Connector =
  kn_sess :: "nat option"
  kn_fails :: nat
  kn_paused :: bool
  kn_resume :: nat
  kn_lastAppMAC :: string
  kn_armed :: bool
  kn_delay :: duration
  kn_pending :: bool
  kn_policy :: nat
  kn_retryDelay :: duration

abbreviation (input) "ConnectionDisconnected \<equiv> ''disconnected''"
abbreviation (input) "ConnectionHandshaking \<equiv> ''handshaking''"
abbreviation (input) "ConnectionReady \<equiv> ''ready''"
abbreviation (input) "ConnectionBootloader \<equiv> ''bootloader''"

definition NewConnector :: Connector where
  "NewConnector = \<lparr>kn_sess = None, kn_fails = 0, kn_paused = False, kn_resume = 0, kn_lastAppMAC = [], kn_armed = True,
     kn_delay = 0, kn_pending = False, kn_policy = 0, kn_retryDelay = 2 * second\<rparr>"

section \<open>Operations\<close>

text \<open>\<^verbatim>\<open>Pause\<close>: the new state and the session it then closes.\<close>

definition Pause :: "Connector \<Rightarrow> Connector \<times> nat option" where
  "Pause c = ((if kn_paused c then c else c\<lparr>kn_paused := True, kn_resume := kn_resume c + 1\<rparr>), kn_sess c)"

definition Resume :: "Connector \<Rightarrow> Connector" where
  "Resume c = (if kn_paused c then c\<lparr>kn_paused := False\<rparr> else c)"

definition signalPolicyChangedLocked :: "Connector \<Rightarrow> Connector" where
  "signalPolicyChangedLocked c = c\<lparr>kn_policy := kn_policy c + 1\<rparr>"

definition setConnectionReconnectLocked :: "time \<Rightarrow> bool \<Rightarrow> store \<Rightarrow> store" where
  "setConnectionReconnectLocked now armed st =
     SetConnection now (case sn_connection (st_snap st) of
         None \<Rightarrow> \<lparr>cn_phase = ConnectionDisconnected, cn_reconnect_armed = armed, cn_since = now, cn_error = []\<rparr>
       | Some k \<Rightarrow> k\<lparr>cn_reconnect_armed := armed\<rparr>) st"

definition Connector_ArmReconnect :: "time \<Rightarrow> duration \<Rightarrow> Connector \<times> store \<Rightarrow> Connector \<times> store" where
  "Connector_ArmReconnect now delay cs = (case cs of (c, st) \<Rightarrow>
     (signalPolicyChangedLocked (c\<lparr>kn_armed := True, kn_delay := delay, kn_pending := True\<rparr>),
      setConnectionReconnectLocked now True st))"

definition Connector_DisarmReconnect :: "time \<Rightarrow> Connector \<times> store \<Rightarrow> Connector \<times> store" where
  "Connector_DisarmReconnect now cs = (case cs of (c, st) \<Rightarrow>
     (signalPolicyChangedLocked (c\<lparr>kn_armed := False, kn_delay := 0, kn_pending := False\<rparr>),
      setConnectionReconnectLocked now False st))"

definition Connector_ResumeReconnect :: "time \<Rightarrow> Connector \<times> store \<Rightarrow> Connector \<times> store" where
  "Connector_ResumeReconnect now = Connector_ArmReconnect now 0"

definition publishConnection :: "time \<Rightarrow> string \<Rightarrow> Connector \<Rightarrow> store \<Rightarrow> store" where
  "publishConnection now ph c st =
     SetConnection now \<lparr>cn_phase = ph, cn_reconnect_armed = kn_armed c, cn_since = now, cn_error = []\<rparr> st"

definition reconnectPolicy :: "Connector \<Rightarrow> bool \<times> duration \<times> bool \<times> nat" where
  "reconnectPolicy c = (kn_armed c, if kn_pending c then kn_delay c else kn_retryDelay c, kn_pending c, kn_policy c)"

definition claimReconnect :: "nat \<Rightarrow> bool \<Rightarrow> Connector \<Rightarrow> Connector \<times> bool" where
  "claimReconnect policy pending c =
     (if policy \<noteq> kn_policy c \<or> \<not> kn_armed c then (c, False)
      else (if pending then c\<lparr>kn_pending := False\<rparr> else c, True))"

definition policyCurrent :: "nat \<Rightarrow> Connector \<Rightarrow> bool" where
  "policyCurrent policy c \<longleftrightarrow> policy = kn_policy c \<and> kn_armed c"

definition known_chars :: "(string \<times> string) list" where
  "known_chars = [(''ota'', CharOTA), (''command'', CharCmd), (''battery'', CharBattery), (''dc'', CharDC), (''typec'', CharTypeC),
     (''factory'', CharFactory), (''model'', CharModel), (''firmware_revision'', CharFWRev), (''hardware_revision'', CharHWRev),
     (''software_revision'', CharSWRev), (''current_time'', CharTime)]"

text \<open>\<^verbatim>\<open>publishIdentity\<close>: in bootloader mode the address is the one last seen in application mode.\<close>

definition publishIdentity ::
    "time \<Rightarrow> (string \<Rightarrow> bool) \<Rightarrow> (string \<Rightarrow> bool) \<Rightarrow> ble_identity \<Rightarrow> Connector \<Rightarrow> store \<Rightarrow> Connector \<times> store \<times> ble_identity" where
  "publishIdentity now has_char can_read i c st =
     (let c' = (if bi_mode i = ''app'' \<and> bi_mac i \<noteq> [] then c\<lparr>kn_lastAppMAC := bi_mac i\<rparr> else c);
          i' = (if \<not> (bi_mode i = ''app'' \<and> bi_mac i \<noteq> []) \<and> bi_mode i = ''ota'' \<and> bi_mac i = []
                then i\<lparr>bi_mac := kn_lastAppMAC c\<rparr> else i)
      in (c', SetIdentity now \<lparr>id_model = bi_model i', id_hw_rev = bi_hw_rev i', id_app_firmware = bi_firmware i',
            id_bootloader_firmware = bi_bootloader_firmware i', id_mac = bi_mac i', id_cid = bi_cid i',
            id_features = bi_features i', id_feature_set = DecodeFeatures (bi_features i'), id_mode = bi_mode i',
            id_characteristics = map (\<lambda>(n, u). (n, has_char u)) known_chars,
            id_readable = [(''current_time'', can_read CharTime)]\<rparr> st, i'))"

section \<open>The goroutine\<close>

datatype run_pc =
    Waiting bool
  | Disarmed bool nat
  | Timing bool nat bool time
  | Claiming bool nat bool
  | Authorized nat
  | PausedWait nat
  | PolicyCheck nat
  | Boundary nat
  | Dialing nat
  | Dialed nat "nat option"
  | DialedCurrent nat "nat option"
  | Connecting nat
  | PauseCheck1 nat
  | Handshaking nat
  | Shaken nat ble_identity bool
  | PauseCheck2 nat ble_identity
  | Identifying nat ble_identity
  | OnSession nat ble_identity
  | Publishing nat ble_identity
  | MarkConnected nat ble_identity
  | MarkReady nat ble_identity
  | Serving nat
  | Stopping
  | Clear1 "nat option" bool
  | Clear2 bool
  | Clear3 bool
  | RunReturned

record connector_sys =
  sy_conn :: Connector
  sy_store :: store
  sy_now :: time
  sy_stop :: bool
  sy_open :: "nat list"
  sy_next :: nat
  sy_pc :: run_pc

definition close_transport :: "nat \<Rightarrow> connector_sys \<Rightarrow> connector_sys" where
  "close_transport t s = s\<lparr>sy_open := removeAll t (sy_open s)\<rparr>"

definition close_opt :: "nat option \<Rightarrow> connector_sys \<Rightarrow> connector_sys" where
  "close_opt ot s = (case ot of None \<Rightarrow> s | Some t \<Rightarrow> close_transport t s)"

abbreviation (input) go :: "run_pc \<Rightarrow> connector_sys \<Rightarrow> connector_sys" where "go pc s \<equiv> s\<lparr>sy_pc := pc\<rparr>"

definition bump_fails :: "connector_sys \<Rightarrow> connector_sys" where
  "bump_fails s = s\<lparr>sy_conn := (sy_conn s)\<lparr>kn_fails := kn_fails (sy_conn s) + 1\<rparr>\<rparr>"

text \<open>The iteration of \<^verbatim>\<open>waitForDial\<close> that has read the policy.\<close>

definition wait_for_dial :: "bool \<Rightarrow> connector_sys \<Rightarrow> run_pc" where
  "wait_for_dial reconnect s = (case reconnectPolicy (sy_conn s) of (armed, delay, pending, changed) \<Rightarrow>
     if \<not> armed then Disarmed reconnect changed
     else if \<not> reconnect \<or> delay \<le> 0 then Claiming reconnect changed (reconnect \<and> pending)
     else Timing reconnect changed pending (sy_now s + delay))"

definition claim_step :: "bool \<Rightarrow> nat \<Rightarrow> bool \<Rightarrow> connector_sys \<Rightarrow> connector_sys" where
  "claim_step reconnect policy pending s = (case claimReconnect policy pending (sy_conn s) of
      (c, True) \<Rightarrow> go (Authorized policy) (s\<lparr>sy_conn := c\<rparr>) | (c, False) \<Rightarrow> go (Waiting reconnect) (s\<lparr>sy_conn := c\<rparr>))"

definition dialed_current :: "nat \<Rightarrow> nat option \<Rightarrow> connector_sys \<Rightarrow> connector_sys" where
  "dialed_current policy ot s =
     (if \<not> policyCurrent policy (sy_conn s) then go (Waiting True) (close_opt ot s)
      else case ot of None \<Rightarrow> go (Waiting True) (bump_fails s) | Some t \<Rightarrow> go (Connecting t) s)"

definition shaken_step :: "nat \<Rightarrow> ble_identity \<Rightarrow> bool \<Rightarrow> connector_sys \<Rightarrow> connector_sys" where
  "shaken_step t i ok s =
     (if sy_stop s then go (Clear1 (Some t) True) (close_transport t s)
      else if \<not> ok then go (Waiting True) (bump_fails (close_transport t s))
      else go (PauseCheck2 t i) s)"

definition identify_step :: "(string \<Rightarrow> bool) \<Rightarrow> (string \<Rightarrow> bool) \<Rightarrow> nat \<Rightarrow> ble_identity \<Rightarrow> connector_sys \<Rightarrow> connector_sys" where
  "identify_step has_char can_read t i s =
     (case publishIdentity (sy_now s) has_char can_read i ((sy_conn s)\<lparr>kn_fails := 0\<rparr>) (sy_store s) of
        (c, st, i') \<Rightarrow> go (OnSession t i') (s\<lparr>sy_conn := c, sy_store := st\<rparr>))"

definition set_phase :: "string \<Rightarrow> connector_sys \<Rightarrow> connector_sys" where
  "set_phase ph s = s\<lparr>sy_store := publishConnection (sy_now s) ph (sy_conn s) (sy_store s)\<rparr>"

definition set_connected :: "bool \<Rightarrow> connector_sys \<Rightarrow> connector_sys" where
  "set_connected v s = s\<lparr>sy_store := SetConnected (sy_now s) (sy_now s) v (sy_store s)\<rparr>"

text \<open>\<^verbatim>\<open>clearSession\<close> in its three sections; the boolean tells whether \<^verbatim>\<open>Run\<close> then returns.\<close>

definition clear_session :: "nat option \<Rightarrow> connector_sys \<Rightarrow> connector_sys" where
  "clear_session ot s = (if kn_sess (sy_conn s) = ot then s\<lparr>sy_conn := (sy_conn s)\<lparr>kn_sess := None\<rparr>\<rparr> else s)"

inductive run_step :: "connector_sys \<Rightarrow> connector_sys \<Rightarrow> bool" where
  wait: "sy_pc s = Waiting r \<Longrightarrow> run_step s (go (wait_for_dial r s) s)"
| disarmed_stop: "sy_pc s = Disarmed r g \<Longrightarrow> sy_stop s \<Longrightarrow> run_step s (go Stopping s)"
| disarmed_changed: "sy_pc s = Disarmed r g \<Longrightarrow> g \<noteq> kn_policy (sy_conn s) \<Longrightarrow> run_step s (go (Waiting r) s)"
| timing_stop: "sy_pc s = Timing r g p t \<Longrightarrow> sy_stop s \<Longrightarrow> run_step s (go Stopping s)"
| timing_changed: "sy_pc s = Timing r g p t \<Longrightarrow> g \<noteq> kn_policy (sy_conn s) \<Longrightarrow> run_step s (go (Waiting r) s)"
| timing_fired: "sy_pc s = Timing r g p t \<Longrightarrow> t \<le> sy_now s \<Longrightarrow> run_step s (go (Claiming r g p) s)"
| claim: "sy_pc s = Claiming r g p \<Longrightarrow> run_step s (claim_step r g p s)"
| check_paused: "sy_pc s = Authorized g \<Longrightarrow>
    run_step s (go (if kn_paused (sy_conn s) then PausedWait (kn_resume (sy_conn s)) else PolicyCheck g) s)"
| paused_stop: "sy_pc s = PausedWait g \<Longrightarrow> sy_stop s \<Longrightarrow> run_step s (go Stopping s)"
| paused_resumed: "sy_pc s = PausedWait g \<Longrightarrow> \<not> (kn_paused (sy_conn s) \<and> kn_resume (sy_conn s) = g) \<Longrightarrow> run_step s (go (Waiting False) s)"
| check_policy: "sy_pc s = PolicyCheck g \<Longrightarrow> run_step s (go (if policyCurrent g (sy_conn s) then Boundary g else Waiting True) s)"
| check_stop: "sy_pc s = Boundary g \<Longrightarrow> run_step s (go (if sy_stop s then Stopping else Dialing g) s)"
| dial_ok: "sy_pc s = Dialing g \<Longrightarrow>
    run_step s (go (Dialed g (Some (sy_next s))) (s\<lparr>sy_open := sy_next s # sy_open s, sy_next := sy_next s + 1\<rparr>))"
| dial_failed: "sy_pc s = Dialing g \<Longrightarrow> run_step s (go (Dialed g None) s)"
| dialed: "sy_pc s = Dialed g ot \<Longrightarrow>
    run_step s (if sy_stop s then go (Clear1 None True) (close_opt ot s) else go (DialedCurrent g ot) s)"
| dialed_policy: "sy_pc s = DialedCurrent g ot \<Longrightarrow> run_step s (dialed_current g ot s)"
| connecting: "sy_pc s = Connecting t \<Longrightarrow> run_step s (go (PauseCheck1 t) (set_phase ConnectionHandshaking s))"
| pause_check1: "sy_pc s = PauseCheck1 t \<Longrightarrow>
    run_step s (if kn_paused (sy_conn s) then go (Waiting False) (close_transport t s) else go (Handshaking t) s)"
| handshake_stop: "sy_pc s = Handshaking t \<Longrightarrow> sy_stop s \<Longrightarrow> run_step s (go (Clear1 (Some t) True) (close_transport t s))"
| handshake_done: "sy_pc s = Handshaking t \<Longrightarrow> run_step s (go (Shaken t i ok) s)"
| shaken: "sy_pc s = Shaken t i ok \<Longrightarrow> run_step s (shaken_step t i ok s)"
| pause_check2: "sy_pc s = PauseCheck2 t i \<Longrightarrow>
    run_step s (if kn_paused (sy_conn s) then go (Waiting False) (close_transport t s) else go (Identifying t i) s)"
| identify: "sy_pc s = Identifying t i \<Longrightarrow> run_step s (identify_step has_char can_read t i s)"
| on_session: "sy_pc s = OnSession t i \<Longrightarrow>
    run_step s (if sy_stop s then go (Clear1 (Some t) True) (close_transport t s) else go (Publishing t i) s)"
| publishing: "sy_pc s = Publishing t i \<Longrightarrow> run_step s (go (MarkConnected t i) (s\<lparr>sy_conn := (sy_conn s)\<lparr>kn_sess := Some t\<rparr>\<rparr>))"
| mark_connected: "sy_pc s = MarkConnected t i \<Longrightarrow> run_step s (go (MarkReady t i) (set_connected True s))"
| mark_ready: "sy_pc s = MarkReady t i \<Longrightarrow>
    run_step s (go (Serving t) (set_phase (if bi_mode i = ''ota'' then ConnectionBootloader else ConnectionReady) s))"
| serving_stop: "sy_pc s = Serving t \<Longrightarrow> sy_stop s \<Longrightarrow> run_step s (go (Clear1 (Some t) True) (close_transport t s))"
| serving_lost: "sy_pc s = Serving t \<Longrightarrow> t \<notin> set (sy_open s) \<Longrightarrow> run_step s (go (Clear1 (Some t) False) s)"
| stopping: "sy_pc s = Stopping \<Longrightarrow> run_step s (go (Clear1 (kn_sess (sy_conn s)) True) (close_opt (kn_sess (sy_conn s)) s))"
| clear1: "sy_pc s = Clear1 ot ret \<Longrightarrow> run_step s (go (Clear2 ret) (clear_session ot s))"
| clear2: "sy_pc s = Clear2 ret \<Longrightarrow> run_step s (go (Clear3 ret) (set_connected False s))"
| clear3: "sy_pc s = Clear3 ret \<Longrightarrow>
    run_step s (go (if ret then RunReturned else Waiting True) (set_phase ConnectionDisconnected s))"

text \<open>What others do between two steps: the clock, the stop signal, the end of a connection (the device goes
  away or \<^verbatim>\<open>Pause\<close> closes the session it found), the operations above, and other changes of the store,
  which leave the connection alone and can only take the connected flag away.\<close>

inductive other_step :: "connector_sys \<Rightarrow> connector_sys \<Rightarrow> bool" where
  tick: "sy_now s \<le> t \<Longrightarrow> other_step s (s\<lparr>sy_now := t\<rparr>)"
| stop: "other_step s (s\<lparr>sy_stop := True\<rparr>)"
| dropped: "other_step s (close_transport t s)"
| pause: "other_step s (s\<lparr>sy_conn := fst (Pause (sy_conn s))\<rparr>)"
| resume: "other_step s (s\<lparr>sy_conn := Resume (sy_conn s)\<rparr>)"
| arm: "Connector_ArmReconnect (sy_now s) delay (sy_conn s, sy_store s) = (c, st) \<Longrightarrow> other_step s (s\<lparr>sy_conn := c, sy_store := st\<rparr>)"
| disarm: "Connector_DisarmReconnect (sy_now s) (sy_conn s, sy_store s) = (c, st) \<Longrightarrow> other_step s (s\<lparr>sy_conn := c, sy_store := st\<rparr>)"
| foreign: "sn_connection (st_snap st) = sn_connection (st_snap (sy_store s)) \<Longrightarrow>
    (sn_connected (st_snap st) \<Longrightarrow> sn_connected (st_snap (sy_store s))) \<Longrightarrow> other_step s (s\<lparr>sy_store := st\<rparr>)"

definition connector_start :: "time \<Rightarrow> connector_sys" where
  "connector_start now = \<lparr>sy_conn = NewConnector, sy_store = NewStore, sy_now = now, sy_stop = False, sy_open = [], sy_next = 0,
     sy_pc = Waiting False\<rparr>"

inductive connector_reach :: "connector_sys \<Rightarrow> bool" where
  start: "connector_reach (connector_start now)"
| run: "connector_reach s \<Longrightarrow> run_step s s' \<Longrightarrow> connector_reach s'"
| other: "connector_reach s \<Longrightarrow> other_step s s' \<Longrightarrow> connector_reach s'"

section \<open>Invariant\<close>

text \<open>The transport \<^verbatim>\<open>Run\<close> holds, the session others may see, and whether the store may say connected, at each point.\<close>

fun held :: "run_pc \<Rightarrow> nat set" where
  "held (Dialed g ot) = set_option ot"
| "held (DialedCurrent g ot) = set_option ot"
| "held (Connecting t) = {t}"
| "held (PauseCheck1 t) = {t}"
| "held (Handshaking t) = {t}"
| "held (Shaken t i ok) = {t}"
| "held (PauseCheck2 t i) = {t}"
| "held (Identifying t i) = {t}"
| "held (OnSession t i) = {t}"
| "held (Publishing t i) = {t}"
| "held (MarkConnected t i) = {t}"
| "held (MarkReady t i) = {t}"
| "held (Serving t) = {t}"
| "held _ = {}"

fun session_at :: "run_pc \<Rightarrow> nat option set" where
  "session_at (MarkConnected t i) = {Some t}"
| "session_at (MarkReady t i) = {Some t}"
| "session_at (Serving t) = {Some t}"
| "session_at (Clear1 ot ret) = {None, ot}"
| "session_at _ = {None}"

fun connected_at :: "run_pc \<Rightarrow> bool" where
  "connected_at (MarkReady t i) = True"
| "connected_at (Serving t) = True"
| "connected_at (Clear1 ot ret) = True"
| "connected_at (Clear2 ret) = True"
| "connected_at _ = False"

text \<open>The phase the store may report at each point, \<open>None\<close> before the first one is set. An attempt that fails after the dial, or is
  given up for a pause, leaves the phase at handshaking.\<close>

fun phases_at :: "run_pc \<Rightarrow> string option set" where
  "phases_at (PauseCheck1 t) = {Some ConnectionHandshaking}"
| "phases_at (Handshaking t) = {Some ConnectionHandshaking}"
| "phases_at (Shaken t i ok) = {Some ConnectionHandshaking}"
| "phases_at (PauseCheck2 t i) = {Some ConnectionHandshaking}"
| "phases_at (Identifying t i) = {Some ConnectionHandshaking}"
| "phases_at (OnSession t i) = {Some ConnectionHandshaking}"
| "phases_at (Publishing t i) = {Some ConnectionHandshaking}"
| "phases_at (MarkConnected t i) = {Some ConnectionHandshaking}"
| "phases_at (MarkReady t i) = {Some ConnectionHandshaking}"
| "phases_at (Serving t) = {Some ConnectionReady, Some ConnectionBootloader}"
| "phases_at (Clear1 ot ret) = UNIV"
| "phases_at (Clear2 ret) = UNIV"
| "phases_at (Clear3 ret) = UNIV"
| "phases_at RunReturned = {Some ConnectionDisconnected}"
| "phases_at _ = {None, Some ConnectionDisconnected, Some ConnectionHandshaking}"

definition phase_of :: "store \<Rightarrow> string option" where
  "phase_of st = map_option cn_phase (sn_connection (st_snap st))"

definition phase_ok :: "run_pc \<Rightarrow> store \<Rightarrow> bool" where
  "phase_ok pc st \<longleftrightarrow> phase_of st \<in> phases_at pc"

definition connector_inv :: "connector_sys \<Rightarrow> bool" where
  "connector_inv s \<longleftrightarrow> set (sy_open s) \<subseteq> held (sy_pc s) \<and> (\<forall>t \<in> set (sy_open s) \<union> held (sy_pc s). t < sy_next s) \<and> distinct (sy_open s) \<and>
     kn_sess (sy_conn s) \<in> session_at (sy_pc s) \<and> (sn_connected (st_snap (sy_store s)) \<longrightarrow> connected_at (sy_pc s)) \<and>
     phase_ok (sy_pc s) (sy_store s)"

lemma store_effects [simp]:
  "sn_connected (st_snap (SetConnection t k st)) = sn_connected (st_snap st)"
  "sn_connection (st_snap (SetConnection t k st)) = Some k"
  "sn_connected (st_snap (SetConnected t1 t2 v st)) = v"
  "sn_connection (st_snap (SetConnected t1 t2 v st)) = sn_connection (st_snap st)"
  "sn_connected (st_snap (SetIdentity t i st)) = sn_connected (st_snap st)"
  "sn_connection (st_snap (SetIdentity t i st)) = sn_connection (st_snap st)"
  by (simp_all add: SetConnection_def SetConnected_def SetIdentity_def mutateState_def mutate_def apply_store_def)

lemma phase_of_effects [simp]:
  "phase_of (SetConnection t k st) = Some (cn_phase k)" "phase_of (SetConnected t1 t2 v st) = phase_of st"
  "phase_of (SetIdentity t i st) = phase_of st"
  by (simp_all add: phase_of_def)

lemma phase_ok_same: "sn_connection (st_snap st) = sn_connection (st_snap st') \<Longrightarrow> phase_ok pc st = phase_ok pc st'"
  by (simp add: phase_ok_def phase_of_def)

lemma phase_ok_armed: "phase_ok pc st \<Longrightarrow> phase_ok pc (setConnectionReconnectLocked now armed st)"
  by (cases pc) (auto simp: phase_ok_def phase_of_def setConnectionReconnectLocked_def split: option.split)

lemmas section_defs = wait_for_dial_def reconnectPolicy_def claim_step_def claimReconnect_def dialed_current_def
  shaken_step_def identify_step_def publishIdentity_def set_phase_def set_connected_def clear_session_def close_opt_def close_transport_def
  bump_fails_def publishConnection_def

lemma wait_for_dial_pc:
  "held (wait_for_dial r s) = {}" "session_at (wait_for_dial r s) = {None}" "\<not> connected_at (wait_for_dial r s)"
  "phases_at (wait_for_dial r s) = {None, Some ConnectionDisconnected, Some ConnectionHandshaking}"
  by (simp_all add: wait_for_dial_def reconnectPolicy_def)

lemma run_step_inv: "run_step s s' \<Longrightarrow> connector_inv s \<Longrightarrow> connector_inv s'"
proof (induction rule: run_step.induct)
  case (wait s r)
  then show ?case by (simp add: connector_inv_def wait_for_dial_pc phase_ok_def)
next
  case (claim s r g p)
  then show ?case by (auto simp: connector_inv_def claim_step_def claimReconnect_def phase_ok_def)
next
  case (dialed_policy s g ot)
  then show ?case by (cases ot) (auto simp: connector_inv_def dialed_current_def close_opt_def close_transport_def distinct_removeAll bump_fails_def phase_ok_def)
next
  case (dialed s g ot)
  then show ?case by (cases ot) (auto simp: connector_inv_def close_opt_def close_transport_def distinct_removeAll phase_ok_def)
next
  case (shaken s t i ok)
  then show ?case by (auto simp: connector_inv_def shaken_step_def close_transport_def distinct_removeAll bump_fails_def phase_ok_def)
next
  case (identify s t i has_char can_read)
  then show ?case by (auto simp: connector_inv_def identify_step_def publishIdentity_def Let_def phase_ok_def)
next
  case (serving_lost s t)
  then have "sy_open s = []" by (cases "sy_open s") (auto simp: connector_inv_def)
  then show ?case using serving_lost by (auto simp: connector_inv_def phase_ok_def)
next
  case (stopping s)
  then show ?case by (auto simp: connector_inv_def close_opt_def phase_ok_def)
next
  case (clear1 s ot ret)
  then show ?case by (auto simp: connector_inv_def clear_session_def phase_ok_def)
qed (auto simp: connector_inv_def phase_ok_def set_phase_def set_connected_def publishConnection_def close_transport_def distinct_removeAll)

lemma other_step_inv: "other_step s s' \<Longrightarrow> connector_inv s \<Longrightarrow> connector_inv s'"
proof (induction rule: other_step.induct)
  case (arm s delay c st)
  then show ?case
    using phase_ok_armed [of "sy_pc s" "sy_store s" "sy_now s" True]
    by (auto simp: connector_inv_def Connector_ArmReconnect_def signalPolicyChangedLocked_def setConnectionReconnectLocked_def)
next
  case (disarm s c st)
  then show ?case
    using phase_ok_armed [of "sy_pc s" "sy_store s" "sy_now s" False]
    by (auto simp: connector_inv_def Connector_DisarmReconnect_def signalPolicyChangedLocked_def setConnectionReconnectLocked_def)
next
  case (foreign st s)
  then show ?case using phase_ok_same [OF foreign.hyps(1)] by (auto simp: connector_inv_def)
qed (auto simp: connector_inv_def close_transport_def Pause_def Resume_def distinct_removeAll)

lemma connector_reach_inv: "connector_reach s \<Longrightarrow> connector_inv s"
proof (induction rule: connector_reach.induct)
  case (start now)
  then show ?case by (simp add: connector_inv_def connector_start_def NewConnector_def NewStore_def zero_snapshot_def phase_ok_def phase_of_def)
qed (blast intro: run_step_inv other_step_inv)+

section \<open>Stopping\<close>

text \<open>How many steps \<^verbatim>\<open>Run\<close> may still take once the stop channel is closed and nobody interferes.\<close>

fun stop_rank :: "Connector \<Rightarrow> run_pc \<Rightarrow> nat" where
  "stop_rank c (Waiting r) = 10"
| "stop_rank c (Disarmed r g) = (if g = kn_policy c then 5 else 11)"
| "stop_rank c (Timing r g p t) = (if policyCurrent g c then 9 else 12)"
| "stop_rank c (Claiming r g p) = (if policyCurrent g c then 8 else 11)"
| "stop_rank c (Authorized g) = (if policyCurrent g c then 7 else 12)"
| "stop_rank c (PausedWait g) = (if kn_paused c \<and> kn_resume c = g then 5 else 11)"
| "stop_rank c (PolicyCheck g) = (if policyCurrent g c then 6 else 11)"
| "stop_rank c (Boundary g) = 5"
| "stop_rank c (Dialing g) = 5"
| "stop_rank c (Dialed g ot) = 4"
| "stop_rank c (DialedCurrent g ot) = 13"
| "stop_rank c (Connecting t) = 12"
| "stop_rank c (PauseCheck1 t) = 11"
| "stop_rank c (Handshaking t) = 5"
| "stop_rank c (Shaken t i ok) = 4"
| "stop_rank c (PauseCheck2 t i) = 11"
| "stop_rank c (Identifying t i) = 5"
| "stop_rank c (OnSession t i) = 4"
| "stop_rank c (Publishing t i) = 17"
| "stop_rank c (MarkConnected t i) = 16"
| "stop_rank c (MarkReady t i) = 15"
| "stop_rank c (Serving t) = 14"
| "stop_rank c Stopping = 4"
| "stop_rank c (Clear1 ot ret) = (if ret then 3 else 13)"
| "stop_rank c (Clear2 ret) = (if ret then 2 else 12)"
| "stop_rank c (Clear3 ret) = (if ret then 1 else 11)"
| "stop_rank c RunReturned = 0"

lemma stop_rank_le: "stop_rank c pc \<le> 17"
  by (cases pc) simp_all

lemma run_step_stop: "run_step s s' \<Longrightarrow> sy_stop s' = sy_stop s"
  by (induction rule: run_step.induct)
    (auto simp: section_defs Let_def split: option.split)

lemma run_step_rank: "run_step s s' \<Longrightarrow> sy_stop s \<Longrightarrow> stop_rank (sy_conn s') (sy_pc s') < stop_rank (sy_conn s) (sy_pc s)"
proof (induction rule: run_step.induct)
  case (wait s r)
  then show ?case by (auto simp: wait_for_dial_def reconnectPolicy_def policyCurrent_def)
next
  case (claim s r g p)
  then show ?case by (auto simp: claim_step_def claimReconnect_def policyCurrent_def)
next
  case (dialed s g ot)
  then show ?case by (simp add: close_opt_def close_transport_def split: option.split)
next
  case (dialed_policy s g ot)
  then show ?case by (auto simp: dialed_current_def close_opt_def close_transport_def bump_fails_def split: option.split)
next
  case (identify s t i has_char can_read)
  then show ?case by (auto simp: identify_step_def publishIdentity_def Let_def)
qed (auto simp: policyCurrent_def shaken_step_def close_transport_def close_opt_def clear_session_def set_phase_def set_connected_def)

lemma run_step_enabled: "sy_stop s \<Longrightarrow> sy_pc s \<noteq> RunReturned \<Longrightarrow> \<exists>s'. run_step s s'"
  by (cases "sy_pc s") (auto intro: run_step.intros)

lemma returned_stuck: "sy_pc s = RunReturned \<Longrightarrow> \<not> run_step s s'"
  by (auto elim: run_step.cases)

lemma other_step_stop: "other_step s s' \<Longrightarrow> sy_stop s \<Longrightarrow> sy_stop s'"
  by (induction rule: other_step.induct) (auto simp: close_transport_def)

lemma other_step_pc: "other_step s s' \<Longrightarrow> sy_pc s' = sy_pc s"
  by (induction rule: other_step.induct) (auto simp: close_transport_def)

text \<open>The steps after the stop: \<open>n\<close> of \<^verbatim>\<open>Run\<close> and any number of others, \<open>k\<close> of which change the state of the connector (a pause, a
  resumption, a change of the policy).\<close>

inductive stopping_run :: "nat \<Rightarrow> nat \<Rightarrow> connector_sys \<Rightarrow> connector_sys \<Rightarrow> bool" where
  here: "stopping_run 0 0 s s"
| run: "stopping_run n k s s' \<Longrightarrow> run_step s' s'' \<Longrightarrow> stopping_run (Suc n) k s s''"
| beside: "stopping_run n k s s' \<Longrightarrow> other_step s' s'' \<Longrightarrow> sy_conn s'' = sy_conn s' \<Longrightarrow> stopping_run n k s s''"
| change: "stopping_run n k s s' \<Longrightarrow> other_step s' s'' \<Longrightarrow> stopping_run n (Suc k) s s''"

lemma stopping_run_reach: "stopping_run n k s s' \<Longrightarrow> connector_reach s \<Longrightarrow> connector_reach s'"
  by (induction rule: stopping_run.induct) (blast intro: connector_reach.intros)+

lemma stopping_run_rank:
  "stopping_run n k s s' \<Longrightarrow> sy_stop s \<Longrightarrow> sy_stop s' \<and> n + stop_rank (sy_conn s') (sy_pc s') \<le> 17 * Suc k"
proof (induction rule: stopping_run.induct)
  case (here s)
  then show ?case using stop_rank_le [of "sy_conn s" "sy_pc s"] by simp
next
  case (run n k s s' s'')
  then show ?case using run_step_rank [OF run.hyps(2)] run_step_stop [OF run.hyps(2)] by auto
next
  case (beside n k s s' s'')
  then show ?case using other_step_stop [OF beside.hyps(2)] other_step_pc [OF beside.hyps(2)] by simp
next
  case (change n k s s' s'')
  then show ?case using other_step_stop [OF change.hyps(2)] stop_rank_le [of "sy_conn s''" "sy_pc s''"] by simp
qed

section \<open>Properties\<close>

text \<open>C15. A stopped connector shuts down cleanly, whatever it was doing and whatever other goroutines do meanwhile: after the stop
  channel is closed \<^verbatim>\<open>Run\<close> takes at most 17 steps, and at most 17 more for each later pause, resumption or change of the policy, which may
  send it round its loop again; at no point before its return is it stuck; and from its return on no connection is open, no
  session is published, and the store says disconnected.\<close>

theorem connector_stops_clean:
  assumes "connector_reach s" and "sy_stop s" and "stopping_run n k s s'"
  shows "n \<le> 17 * (k + 1) \<and> ((\<exists>s''. run_step s' s'') \<or> sy_pc s' = RunReturned) \<and>
    (sy_pc s' = RunReturned \<longrightarrow> sy_open s' = [] \<and> kn_sess (sy_conn s') = None \<and> \<not> sn_connected (st_snap (sy_store s')) \<and>
       phase_of (sy_store s') = Some ConnectionDisconnected)"
proof -
  have r: "sy_stop s'" "n \<le> 17 * (k + 1)" using stopping_run_rank [OF assms(3,2)] by auto
  have "connector_inv s'" using connector_reach_inv [OF stopping_run_reach [OF assms(3,1)]] .
  then show ?thesis using r run_step_enabled [OF r(1)] by (auto simp: connector_inv_def phase_ok_def)
qed

text \<open>C16. The device accepts a single connection, and the connector never holds two nor leaks one: at every moment
  at most one transport is open, it is the one \<^verbatim>\<open>Run\<close> is working with, and whenever \<^verbatim>\<open>Run\<close> dials none is open,
  whatever pauses, policy changes, lost connections and failures interleave.\<close>

theorem one_connection_at_a_time:
  assumes "connector_reach s"
  shows "length (sy_open s) \<le> 1 \<and> set (sy_open s) \<subseteq> held (sy_pc s) \<and> (sy_pc s = Dialing g \<longrightarrow> sy_open s = [])"
proof -
  have i: "set (sy_open s) \<subseteq> held (sy_pc s)" "distinct (sy_open s)" using connector_reach_inv [OF assms] by (simp_all add: connector_inv_def)
  have "finite (set_option ot) \<and> card (set_option ot) \<le> 1" for ot :: "nat option" by (cases ot) simp_all
  then have "finite (held (sy_pc s)) \<and> card (held (sy_pc s)) \<le> 1" by (cases "sy_pc s") auto
  then have "length (sy_open s) \<le> 1" using i card_mono [of "held (sy_pc s)" "set (sy_open s)"] by (simp add: distinct_card)
  then show ?thesis using i by auto
qed

text \<open>C17. What the store and other goroutines see agrees with the link. While \<^verbatim>\<open>Run\<close> serves a connection, its session is the published
  one, the store reports it as ready or bootloader, and its transport is open or \<^verbatim>\<open>Run\<close> can take the session down next. A published session is always
  the one of the connection \<^verbatim>\<open>Run\<close> is working with, and no other transport is open. The store says connected only while a session is
  published or being taken down, and it reports ready or bootloader only while \<^verbatim>\<open>Run\<close> serves a connection or takes one down. (Of the
  phase handshaking nothing of the kind holds: it stays after an attempt that failed.)\<close>

theorem connected_has_session:
  assumes "connector_reach s"
  shows "(\<forall>t. sy_pc s = Serving t \<longrightarrow> kn_sess (sy_conn s) = Some t \<and> phase_of (sy_store s) \<in> {Some ConnectionReady, Some ConnectionBootloader} \<and>
        (sy_open s = [t] \<or> run_step s (s\<lparr>sy_pc := Clear1 (Some t) False\<rparr>))) \<and>
    (\<forall>t. kn_sess (sy_conn s) = Some t \<longrightarrow> set (sy_open s) \<subseteq> {t} \<and>
        ((\<exists>i. sy_pc s \<in> {MarkConnected t i, MarkReady t i, Serving t}) \<or> (\<exists>ret. sy_pc s = Clear1 (Some t) ret))) \<and>
    (sn_connected (st_snap (sy_store s)) \<longrightarrow> kn_sess (sy_conn s) \<noteq> None \<or> (\<exists>ot ret. sy_pc s \<in> {Clear1 ot ret, Clear2 ret})) \<and>
    (phase_of (sy_store s) \<in> {Some ConnectionReady, Some ConnectionBootloader} \<longrightarrow>
        (\<exists>t. sy_pc s = Serving t) \<or> (\<exists>ot ret. sy_pc s \<in> {Clear1 ot ret, Clear2 ret, Clear3 ret}))"
proof -
  have i: "connector_inv s" using connector_reach_inv [OF assms] .
  have "sy_open s = [t] \<or> run_step s (s\<lparr>sy_pc := Clear1 (Some t) False\<rparr>)" if "sy_pc s = Serving t" for t
  proof (cases "t \<in> set (sy_open s)")
    case True
    moreover have "set (sy_open s) \<subseteq> {t}" "distinct (sy_open s)" using i that by (auto simp: connector_inv_def)
    ultimately show ?thesis by (cases "sy_open s") (auto simp: subset_singleton_iff)
  qed (use that run_step.serving_lost in blast)
  then show ?thesis using i by (cases "sy_pc s") (auto simp: connector_inv_def phase_ok_def)
qed

inductive disarmed_run :: "connector_sys \<Rightarrow> connector_sys \<Rightarrow> bool" where
  here: "disarmed_run s s"
| on: "disarmed_run s s' \<Longrightarrow> run_step s' s'' \<or> other_step s' s'' \<Longrightarrow> \<not> kn_armed (sy_conn s'') \<Longrightarrow> disarmed_run s s''"

fun about_to_dial :: "run_pc \<Rightarrow> bool" where
  "about_to_dial (Boundary g) = True"
| "about_to_dial (Dialing g) = True"
| "about_to_dial _ = False"

lemma disarmed_run_step: "run_step s s' \<Longrightarrow> \<not> kn_armed (sy_conn s) \<Longrightarrow> \<not> about_to_dial (sy_pc s) \<Longrightarrow> \<not> about_to_dial (sy_pc s')"
proof (induction rule: run_step.induct)
  case (wait s r)
  then show ?case by (simp add: wait_for_dial_def reconnectPolicy_def)
next
  case (claim s r g p)
  then show ?case by (simp add: claim_step_def claimReconnect_def)
next
  case (identify s t i has_char can_read)
  then show ?case by (simp add: identify_step_def publishIdentity_def Let_def)
qed (auto simp: policyCurrent_def dialed_current_def shaken_step_def close_opt_def split: option.split)

lemma disarmed_run_safe:
  "disarmed_run s s' \<Longrightarrow> \<not> kn_armed (sy_conn s) \<Longrightarrow> \<not> about_to_dial (sy_pc s) \<Longrightarrow> \<not> kn_armed (sy_conn s') \<and> \<not> about_to_dial (sy_pc s')"
  by (induction rule: disarmed_run.induct) (auto dest: disarmed_run_step other_step_pc)

text \<open>C18. A disarmed connector does not scan: when the reconnect policy has been disarmed, as a shutdown of the
  device does, and at that moment \<^verbatim>\<open>Run\<close> is not between its last look at the policy and the dial, then it starts no dial as long as
  the policy stays disarmed, whatever happens to the connection in the meantime. (A disarming that lands in that
  gap does not stop the dial that follows.)\<close>

theorem disarmed_never_dials:
  assumes "\<not> kn_armed (sy_conn s)" and "\<not> about_to_dial (sy_pc s)" and "disarmed_run s s'"
  shows "sy_pc s' \<noteq> Dialing g"
  using disarmed_run_safe [OF assms(3,1,2)] by auto

text \<open>A run that reaches a served connection.\<close>

definition app_identity :: ble_identity where
  "app_identity = \<lparr>bi_model = ''Link-Power'', bi_hw_rev = [], bi_firmware = ''1.0'', bi_bootloader_firmware = [], bi_mac = ''AA'', bi_cid = 1,
     bi_features = 0, bi_mode = ''app''\<rparr>"

definition dialing_sys :: connector_sys where
  "dialing_sys = (connector_start 1)\<lparr>sy_pc := Dialing 0\<rparr>"

lemma reach_dialing: "connector_reach dialing_sys"
proof -
  let ?s = "\<lambda>pc. (connector_start 1)\<lparr>sy_pc := pc\<rparr>"
  have defs: "claim_step False 0 False (?s (Claiming False 0 False)) = ?s (Authorized 0)"
    "wait_for_dial False (connector_start 1) = Claiming False 0 False"
    by (simp_all add: claim_step_def claimReconnect_def wait_for_dial_def reconnectPolicy_def connector_start_def NewConnector_def)
  have "run_step (connector_start 1) (?s (Claiming False 0 False))"
    using run_step.wait [of "connector_start 1" False] unfolding defs by (simp add: connector_start_def)
  moreover have "run_step (?s (Claiming False 0 False)) (?s (Authorized 0))"
    using run_step.claim [of "?s (Claiming False 0 False)" False 0 False] unfolding defs by simp
  moreover have "run_step (?s (Authorized 0)) (?s (PolicyCheck 0))"
    using run_step.check_paused [of "?s (Authorized 0)" 0] by (simp add: connector_start_def NewConnector_def)
  moreover have "run_step (?s (PolicyCheck 0)) (?s (Boundary 0))"
    using run_step.check_policy [of "?s (PolicyCheck 0)" 0] by (simp add: connector_start_def NewConnector_def policyCurrent_def)
  moreover have "run_step (?s (Boundary 0)) dialing_sys"
    using run_step.check_stop [of "?s (Boundary 0)" 0] by (simp add: connector_start_def dialing_sys_def)
  ultimately show ?thesis by (meson connector_reach.run connector_reach.start)
qed

definition shaken_sys :: connector_sys where
  "shaken_sys = (set_phase ConnectionHandshaking (dialing_sys\<lparr>sy_open := [0], sy_next := 1\<rparr>))\<lparr>sy_pc := Identifying 0 app_identity\<rparr>"

lemma reach_shaken: "connector_reach shaken_sys"
proof -
  let ?s = "\<lambda>pc. dialing_sys\<lparr>sy_open := [0], sy_next := 1, sy_pc := pc\<rparr>"
  let ?h = "\<lambda>pc. (set_phase ConnectionHandshaking (dialing_sys\<lparr>sy_open := [0], sy_next := 1\<rparr>))\<lparr>sy_pc := pc\<rparr>"
  have c: "sy_stop dialing_sys = False" "sy_conn dialing_sys = NewConnector" "sy_open dialing_sys = []" "sy_next dialing_sys = 0"
    by (simp_all add: dialing_sys_def connector_start_def)
  have "run_step dialing_sys (?s (Dialed 0 (Some 0)))"
    using run_step.dial_ok [of dialing_sys 0] c by (simp add: dialing_sys_def)
  moreover have "run_step (?s (Dialed 0 (Some 0))) (?s (DialedCurrent 0 (Some 0)))"
    using run_step.dialed [of "?s (Dialed 0 (Some 0))" 0 "Some 0"] c by simp
  moreover have "run_step (?s (DialedCurrent 0 (Some 0))) (?s (Connecting 0))"
    using run_step.dialed_policy [of "?s (DialedCurrent 0 (Some 0))" 0 "Some 0"] c
    by (simp add: dialed_current_def policyCurrent_def NewConnector_def)
  moreover have "run_step (?s (Connecting 0)) (?h (PauseCheck1 0))"
    using run_step.connecting [of "?s (Connecting 0)" 0] by (simp add: set_phase_def)
  moreover have "run_step (?h (PauseCheck1 0)) (?h (Handshaking 0))"
    using run_step.pause_check1 [of "?h (PauseCheck1 0)" 0] c by (simp add: set_phase_def NewConnector_def)
  moreover have "run_step (?h (Handshaking 0)) (?h (Shaken 0 app_identity True))"
    using run_step.handshake_done [of "?h (Handshaking 0)" 0] by (simp add: set_phase_def)
  moreover have "run_step (?h (Shaken 0 app_identity True)) (?h (PauseCheck2 0 app_identity))"
    using run_step.shaken [of "?h (Shaken 0 app_identity True)" 0 app_identity True] c by (simp add: set_phase_def shaken_step_def)
  moreover have "run_step (?h (PauseCheck2 0 app_identity)) shaken_sys"
    using run_step.pause_check2 [of "?h (PauseCheck2 0 app_identity)" 0 app_identity] c
    by (simp add: set_phase_def NewConnector_def shaken_sys_def)
  ultimately show ?thesis by (meson connector_reach.run reach_dialing)
qed

theorem one_connection_at_a_time_witness: "length (sy_open shaken_sys) \<le> 1"
  using one_connection_at_a_time [OF reach_shaken] by blast

text \<open>Stopped while it identifies the device and paused afterwards.\<close>

theorem connector_stops_clean_witness:
  "\<exists>s s'. connector_reach s \<and> sy_stop s \<and> stopping_run 0 1 s s' \<and> kn_paused (sy_conn s') \<and> (\<exists>s''. run_step s' s'')"
proof -
  let ?s = "shaken_sys\<lparr>sy_stop := True\<rparr>" and ?p = "shaken_sys\<lparr>sy_stop := True, sy_conn := fst (Pause (sy_conn shaken_sys))\<rparr>"
  have r: "connector_reach ?s" using connector_reach.other [OF reach_shaken other_step.stop] .
  have p: "stopping_run 0 1 ?s ?p"
    using stopping_run.change [OF stopping_run.here other_step.pause, of ?s] by simp
  have "(\<exists>s''. run_step ?p s'') \<or> sy_pc ?p = RunReturned" using connector_stops_clean [OF r _ p] by simp
  moreover have "sy_pc ?p \<noteq> RunReturned" "kn_paused (sy_conn ?p)" by (simp_all add: shaken_sys_def set_phase_def Pause_def)
  ultimately show ?thesis using r p by (intro exI [of _ ?s] exI [of _ ?p]) simp
qed

theorem disarmed_never_dials_witness:
  "\<exists>s. connector_reach s \<and> \<not> kn_armed (sy_conn s) \<and> sy_pc s \<noteq> Dialing 0"
proof -
  obtain c st where d: "Connector_DisarmReconnect (sy_now shaken_sys) (sy_conn shaken_sys, sy_store shaken_sys) = (c, st)" by force
  let ?s = "shaken_sys\<lparr>sy_conn := c, sy_store := st\<rparr>"
  have "connector_reach ?s" using connector_reach.other [OF reach_shaken other_step.disarm [OF d]] .
  moreover have a: "\<not> kn_armed (sy_conn ?s)" "\<not> about_to_dial (sy_pc ?s)"
    using d by (auto simp: Connector_DisarmReconnect_def signalPolicyChangedLocked_def shaken_sys_def set_phase_def)
  ultimately show ?thesis using disarmed_never_dials [OF a disarmed_run.here] by blast
qed

definition publishing_sys :: connector_sys where
  "publishing_sys = (identify_step (\<lambda>_. True) (\<lambda>_. True) 0 app_identity shaken_sys)\<lparr>sy_pc := Publishing 0 app_identity\<rparr>"

lemma identified: "identify_step (\<lambda>_. True) (\<lambda>_. True) 0 app_identity shaken_sys = publishing_sys\<lparr>sy_pc := OnSession 0 app_identity\<rparr>"
    "sy_stop publishing_sys = False" "kn_paused (sy_conn publishing_sys) = False" "kn_sess (sy_conn publishing_sys) = None" "sy_open publishing_sys = [0]"
  by (simp_all add: publishing_sys_def identify_step_def publishIdentity_def app_identity_def Let_def shaken_sys_def set_phase_def
      dialing_sys_def connector_start_def NewConnector_def)

lemma reach_publishing: "connector_reach publishing_sys"
proof -
  have "run_step shaken_sys (publishing_sys\<lparr>sy_pc := OnSession 0 app_identity\<rparr>)"
    using run_step.identify [of shaken_sys 0 app_identity "\<lambda>_. True" "\<lambda>_. True"] unfolding identified(1)
    by (simp add: shaken_sys_def)
  moreover have "run_step (publishing_sys\<lparr>sy_pc := OnSession 0 app_identity\<rparr>) publishing_sys"
    using run_step.on_session [of "publishing_sys\<lparr>sy_pc := OnSession 0 app_identity\<rparr>" 0 app_identity] identified(2)
    by (simp add: publishing_sys_def)
  ultimately show ?thesis by (meson connector_reach.run reach_shaken)
qed

lemma reach_serving:
  assumes "connector_reach s" "sy_pc s = Publishing t i" shows "\<exists>s'. connector_reach s' \<and> sy_pc s' = Serving t \<and>
    sy_open s' = sy_open s \<and> kn_paused (sy_conn s') = kn_paused (sy_conn s)"
proof -
  let ?a = "(s\<lparr>sy_conn := (sy_conn s)\<lparr>kn_sess := Some t\<rparr>\<rparr>)\<lparr>sy_pc := MarkConnected t i\<rparr>"
  let ?b = "(set_connected True ?a)\<lparr>sy_pc := MarkReady t i\<rparr>"
  let ?c = "(set_phase (if bi_mode i = ''ota'' then ConnectionBootloader else ConnectionReady) ?b)\<lparr>sy_pc := Serving t\<rparr>"
  have "run_step s ?a" using assms(2) by (rule run_step.publishing)
  moreover have "run_step ?a ?b" by (rule run_step.mark_connected) simp
  moreover have "run_step ?b ?c" by (rule run_step.mark_ready) simp
  ultimately have "connector_reach ?c" by (meson assms(1) connector_reach.run)
  then show ?thesis by (intro exI [of _ ?c]) (simp add: set_phase_def set_connected_def)
qed

theorem connected_has_session_witness:
  "\<exists>s. connector_reach s \<and> sy_pc s = Serving 0 \<and> kn_sess (sy_conn s) = Some 0"
proof -
  obtain s where "connector_reach s" "sy_pc s = Serving 0" using reach_serving [OF reach_publishing] by (auto simp: publishing_sys_def)
  then show ?thesis using connected_has_session by blast
qed

text \<open>A pause can be lost: \<^verbatim>\<open>Run\<close> last looks at the flag before it announces the new session, and a \<^verbatim>\<open>Pause\<close> that comes
  after that but before the session is published finds no session to close. The connector then serves the
  connection although it is paused.\<close>

lemma pause_can_be_lost:
  "snd (Pause (sy_conn publishing_sys)) = None \<and>
   (\<exists>s. connector_reach s \<and> sy_pc s = Serving 0 \<and> kn_paused (sy_conn s) \<and> sy_open s = [0])"
proof -
  let ?p = "publishing_sys\<lparr>sy_conn := fst (Pause (sy_conn publishing_sys))\<rparr>"
  have "connector_reach ?p" using connector_reach.other [OF reach_publishing other_step.pause] .
  from reach_serving [OF this, of 0 app_identity] obtain s where
    "connector_reach s" "sy_pc s = Serving 0" "sy_open s = sy_open ?p" "kn_paused (sy_conn s) = kn_paused (sy_conn ?p)"
    by (auto simp: publishing_sys_def)
  moreover have "kn_paused (sy_conn ?p)" "sy_open ?p = [0]" using identified by (simp_all add: Pause_def)
  ultimately show ?thesis using identified(4) by (auto simp: Pause_def)
qed

end
