(* ===== verification/GoPath.thy ===== *)
theory GoPath
  imports NetAddr
begin

text \<open>
  \<^verbatim>\<open>path/filepath\<close> on Unix: \<^verbatim>\<open>Clean\<close>, \<^verbatim>\<open>Dir\<close>, \<^verbatim>\<open>Base\<close>, \<^verbatim>\<open>IsAbs\<close> and the joining of a directory and a name, with
  the description of clean absolute paths as lists of elements on which the certificate files rest.
\<close>

section \<open>Functions\<close>

definition clean_rel_step :: "string list \<Rightarrow> string \<Rightarrow> string list" where
  "clean_rel_step st e =
     (if e = [] \<or> e = ''.'' then st
      else if e = ''..'' \<and> st \<noteq> [] \<and> hd st \<noteq> ''..'' then tl st
      else e # st)"

definition Clean :: "string \<Rightarrow> string" where
  "Clean p =
     (if p = [] then ''.''
      else if hd p = CHR ''/'' then clean_rooted p
      else case rev (foldl clean_rel_step [] (split_slash [] p)) of [] \<Rightarrow> ''.'' | es \<Rightarrow> join_slash es)"

definition IsAbs :: "string \<Rightarrow> bool" where
  "IsAbs p \<longleftrightarrow> p \<noteq> [] \<and> hd p = CHR ''/''"

definition after_slash :: "string \<Rightarrow> string" where
  "after_slash p = rev (takeWhile (\<lambda>c. c \<noteq> CHR ''/'') (rev p))"

definition upto_slash :: "string \<Rightarrow> string" where
  "upto_slash p = rev (dropWhile (\<lambda>c. c \<noteq> CHR ''/'') (rev p))"

definition Dir :: "string \<Rightarrow> string" where
  "Dir p = Clean (upto_slash p)"

definition Base :: "string \<Rightarrow> string" where
  "Base p =
     (if p = [] then ''.''
      else case after_slash (rev (dropWhile (\<lambda>c. c = CHR ''/'') (rev p))) of [] \<Rightarrow> ''/'' | e \<Rightarrow> e)"

text \<open>\<^verbatim>\<open>os.joinPath\<close>, used by \<^verbatim>\<open>os.CreateTemp\<close>.\<close>

definition joinPath :: "string \<Rightarrow> string \<Rightarrow> string" where
  "joinPath dir name = (if dir \<noteq> [] \<and> last dir = CHR ''/'' then dir @ name else dir @ ''/'' @ name)"

text \<open>\<^verbatim>\<open>filepath.Join\<close> of two non-empty elements.\<close>

definition Join :: "string \<Rightarrow> string \<Rightarrow> string" where
  "Join a b = Clean (a @ ''/'' @ b)"

section \<open>Clean absolute paths\<close>

definition element :: "string \<Rightarrow> bool" where
  "element e \<longleftrightarrow> e \<noteq> [] \<and> e \<noteq> ''.'' \<and> e \<noteq> ''..'' \<and> CHR ''/'' \<notin> set e"

definition abs_path :: "string list \<Rightarrow> string" where
  "abs_path es = CHR ''/'' # join_slash es"

lemma split_slash_append:
  "CHR ''/'' \<notin> set e \<Longrightarrow> split_slash acc (e @ CHR ''/'' # s) = (rev acc @ e) # split_slash [] s"
  by (induction e arbitrary: acc) auto

lemma split_slash_end: "CHR ''/'' \<notin> set e \<Longrightarrow> split_slash acc e = [rev acc @ e]"
  by (induction e arbitrary: acc) auto

lemma split_slash_free: "CHR ''/'' \<notin> set acc \<Longrightarrow> e \<in> set (split_slash acc s) \<Longrightarrow> CHR ''/'' \<notin> set e"
  by (induction acc s arbitrary: e rule: split_slash.induct) (auto split: if_splits)

lemma split_join: "list_all element es \<Longrightarrow> es \<noteq> [] \<Longrightarrow> split_slash [] (join_slash es) = es"
  by (induction es rule: join_slash.induct) (auto simp: element_def split_slash_append split_slash_end)

lemma split_join_slash: "list_all element es \<Longrightarrow> es \<noteq> [] \<Longrightarrow> split_slash [] (join_slash es @ ''/'') = es @ [[]]"
  by (induction es rule: join_slash.induct) (auto simp: element_def split_slash_append)

lemma clean_step_elements: "list_all element es \<Longrightarrow> foldl clean_step st es = rev es @ st"
  by (induction es arbitrary: st) (auto simp: clean_step_def element_def)

lemma clean_rooted_abs: "list_all element es \<Longrightarrow> clean_rooted (abs_path es) = abs_path es"
  by (cases "es = []") (simp_all add: clean_rooted_def abs_path_def clean_step_def split_join clean_step_elements)

lemma clean_rooted_abs_slash: "list_all element es \<Longrightarrow> es \<noteq> [] \<Longrightarrow> clean_rooted (abs_path es @ ''/'') = abs_path es"
  using split_join_slash [of es]
  by (simp add: clean_rooted_def abs_path_def clean_step_elements) (simp add: clean_step_def clean_step_elements)

lemma clean_step_element:
  "list_all element st \<Longrightarrow> CHR ''/'' \<notin> set e \<Longrightarrow> list_all element (clean_step st e)"
  by (cases st) (auto simp: clean_step_def element_def)

lemma foldl_clean_step:
  "list_all element st \<Longrightarrow> (\<And>e. e \<in> set es \<Longrightarrow> CHR ''/'' \<notin> set e) \<Longrightarrow> list_all element (foldl clean_step st es)"
  by (induction es arbitrary: st) (auto simp: clean_step_element)

lemma clean_abs_path:
  assumes "IsAbs p" and "Clean p = p"
  obtains es where "p = abs_path es" and "list_all element es"
proof -
  let ?es = "foldl clean_step [] (split_slash [] p)"
  have "list_all element ?es" using split_slash_free [of "[]"] by (intro foldl_clean_step) auto
  moreover have "p = abs_path (rev ?es)"
    using assms by (simp add: IsAbs_def Clean_def clean_rooted_def abs_path_def)
  ultimately show ?thesis using that [of "rev ?es"] by (simp add: list_all_iff)
qed

lemma abs_path_snoc: "abs_path (es @ [e]) = (if es = [] then ''/'' @ e else abs_path es @ ''/'' @ e)"
proof -
  have "join_slash (xs @ [e]) = (if xs = [] then e else join_slash xs @ ''/'' @ e)" for xs
    by (induction xs rule: join_slash.induct) auto
  then show ?thesis by (simp add: abs_path_def)
qed

lemma last_join: "list_all element es \<Longrightarrow> es \<noteq> [] \<Longrightarrow> join_slash es \<noteq> [] \<and> last (join_slash es) \<noteq> CHR ''/''"
  by (induction es rule: join_slash.induct) (auto simp: element_def dest: last_in_set)

lemma joinPath_abs: "list_all element es \<Longrightarrow> joinPath (abs_path es) e = abs_path (es @ [e])"
  using last_join [of es] by (cases "es = []") (auto simp: joinPath_def abs_path_snoc, auto simp: abs_path_def)

lemma upto_slash_append [simp]: "CHR ''/'' \<notin> set e \<Longrightarrow> upto_slash (p @ CHR ''/'' # e) = p @ ''/''"
  by (simp add: upto_slash_def dropWhile_append)

lemma Dir_abs:
  assumes "list_all element es" and "CHR ''/'' \<notin> set e"
  shows "Dir (abs_path (es @ [e])) = abs_path es"
proof (cases "es = []")
  case True
  have "upto_slash (CHR ''/'' # e) = ''/''" using upto_slash_append [OF assms(2), of "[]"] by simp
  then show ?thesis using True by (simp add: Dir_def Clean_def abs_path_def clean_rooted_def clean_step_def)
next
  case False
  then show ?thesis
    using clean_rooted_abs_slash [OF assms(1) False] assms(2)
    by (simp add: Dir_def abs_path_snoc Clean_def) (simp add: abs_path_def)
qed

lemma Base_abs:
  assumes "list_all element es" and "element e"
  shows "Base (abs_path (es @ [e])) = e"
proof -
  have "\<exists>q. abs_path (es @ [e]) = q @ CHR ''/'' # e" by (auto simp: abs_path_snoc)
  then obtain q where q: "abs_path (es @ [e]) = q @ CHR ''/'' # e" ..
  from assms(2) obtain f l where e: "e = f @ [l]" and l: "l \<noteq> CHR ''/''"
    by (cases e rule: rev_cases) (auto simp: element_def)
  then show ?thesis using assms(2) q
    by (auto simp: Base_def after_slash_def element_def takeWhile_append split: list.split)
qed

lemma Clean_abs [simp]: "list_all element es \<Longrightarrow> Clean (abs_path es) = abs_path es"
  using clean_rooted_abs [of es] by (simp add: Clean_def) (simp add: abs_path_def)

lemma IsAbs_abs [simp]: "IsAbs (abs_path es)"
  by (simp add: IsAbs_def abs_path_def)

lemma Join_abs: "list_all element es \<Longrightarrow> element e \<Longrightarrow> Join (abs_path es) e = abs_path (es @ [e])"
proof (cases "es = []")
  case True
  assume "element e"
  with True show ?thesis
    by (simp add: Join_def abs_path_def Clean_def clean_rooted_def element_def split_slash_end clean_step_def)
next
  case False
  assume "list_all element es" "element e"
  then have "Clean (abs_path (es @ [e])) = abs_path (es @ [e])" by simp
  with False show ?thesis by (simp add: Join_def abs_path_snoc)
qed

lemma join_slash_Nil: "list_all element es \<Longrightarrow> join_slash es = [] \<longleftrightarrow> es = []"
  using last_join [of es] by (cases "es = []") auto

lemma abs_path_inject:
  assumes "list_all element es" and "list_all element fs" and "abs_path es = abs_path fs"
  shows "es = fs"
proof -
  from assms(3) have j: "join_slash es = join_slash fs" by (simp add: abs_path_def)
  show ?thesis
  proof (cases "es = []")
    case True
    with j join_slash_Nil [OF assms(2)] show ?thesis by simp
  next
    case False
    with j join_slash_Nil [OF assms(1)] have "fs \<noteq> []" by auto
    from split_join [OF assms(1) False] split_join [OF assms(2) this] show ?thesis unfolding j by simp
  qed
qed

end
