(* ===== verification/GoOs.thy ===== *)
theory GoOs
  imports GoPath "HOL-Library.State_Monad" "HOL-Library.AList"
begin

text \<open>
  The system calls behind \<^verbatim>\<open>os\<close> and \<^verbatim>\<open>syscall\<close> that the certificate code uses, as functions of the state monad.
  The file tree maps clean absolute paths to nodes. Every call asks \<open>os_fault\<close> with the number of the call
  whether it fails; a call that fails leaves the tree as it is, except that a failing write has written some
  bytes. Failing every call from a certain number on is what a crash at that point looks like from the
  outside: nothing changes any more. So what is proved for all \<open>os_fault\<close> holds for I/O errors and for crashes.
\<close>

section \<open>State\<close>

datatype errno = ENOENT | EEXIST | ENOTDIR | EISDIR | ENOTEMPTY | ELOOP | EIO

datatype fkind = Regular | Directory | Symlink string

record node =
  n_ino :: nat
  n_kind :: fkind
  n_perm :: "16 word"
  n_sticky :: bool
  n_uid :: nat
  n_gid :: nat
  n_data :: string

record os =
  os_tree :: "(string \<times> node) list"
  os_ino :: nat
  os_fault :: "nat \<Rightarrow> nat option"
  os_ticks :: nat
  os_rand :: "nat \<Rightarrow> 32 word"
  os_draws :: nat
  os_euid :: nat
  os_egid :: nat
  os_umask :: "16 word"
  os_held :: "string list"
  os_now :: time

type_synonym 'a go = "(os, 'a) state"

abbreviation lookup :: "os \<Rightarrow> string \<Rightarrow> node option" where
  "lookup s p \<equiv> map_of (os_tree s) p"

abbreviation (input) ret :: "'a \<Rightarrow> 'a go" where
  "ret \<equiv> State_Monad.return"

text \<open>Errors of the Go code: an error of a call, a message, or several joined with \<^verbatim>\<open>errors.Join\<close>.\<close>

datatype gerr = Os errno | Msg string | Joined "gerr list"

type_synonym 'a result = "gerr + 'a"

definition errors_Join :: "gerr list \<Rightarrow> unit result" where
  "errors_Join es = (if es = [] then Inr () else Inl (Joined es))"

fun err_of :: "'a result \<Rightarrow> gerr list" where
  "err_of (Inl e) = [e]" | "err_of (Inr x) = []"

text \<open>\<^verbatim>\<open>x, err := m; if err != nil { return err }\<close> followed by the rest.\<close>

definition check :: "'a result go \<Rightarrow> ('a \<Rightarrow> 'b result go) \<Rightarrow> 'b result go" where
  "check m k = do { r \<leftarrow> m; case r of Inl e \<Rightarrow> ret (Inl e) | Inr x \<Rightarrow> k x }"

text \<open>A loop whose body may return an error.\<close>

fun for_each :: "('a \<Rightarrow> unit result go) \<Rightarrow> 'a list \<Rightarrow> unit result go" where
  "for_each f [] = ret (Inr ())"
| "for_each f (x # xs) = check (f x) (\<lambda>_. for_each f xs)"

section \<open>System calls\<close>

definition sys :: "(nat option \<Rightarrow> os \<Rightarrow> 'a \<times> os) \<Rightarrow> 'a go" where
  "sys f = State (\<lambda>s. f (os_fault s (os_ticks s)) (s\<lparr>os_ticks := Suc (os_ticks s)\<rparr>))"

text \<open>A call that only reads, or that changes the tree when it succeeds.\<close>

definition query :: "(os \<Rightarrow> errno + 'a) \<Rightarrow> (errno + 'a) go" where
  "query f = sys (\<lambda>x s. case x of Some _ \<Rightarrow> (Inl EIO, s) | None \<Rightarrow> (f s, s))"

definition modify :: "(os \<Rightarrow> errno + os) \<Rightarrow> (errno + unit) go" where
  "modify f = sys (\<lambda>x s. case x of
      Some _ \<Rightarrow> (Inl EIO, s)
    | None \<Rightarrow> (case f s of Inl e \<Rightarrow> (Inl e, s) | Inr s' \<Rightarrow> (Inr (), s')))"

definition put_node :: "string \<Rightarrow> node \<Rightarrow> os \<Rightarrow> os" where
  "put_node p n s = s\<lparr>os_tree := AList.update p n (os_tree s)\<rparr>"

definition drop_node :: "string \<Rightarrow> os \<Rightarrow> os" where
  "drop_node p s = s\<lparr>os_tree := AList.delete p (os_tree s)\<rparr>"

definition is_dir :: "os \<Rightarrow> string \<Rightarrow> bool" where
  "is_dir s p \<longleftrightarrow> (case lookup s p of Some n \<Rightarrow> n_kind n = Directory | None \<Rightarrow> False)"

text \<open>Why a path cannot be reached or created below its directory.\<close>

definition missing :: "os \<Rightarrow> string \<Rightarrow> errno" where
  "missing s p = (if lookup s (Dir p) \<noteq> None \<and> \<not> is_dir s (Dir p) then ENOTDIR else ENOENT)"

definition new_node :: "os \<Rightarrow> fkind \<Rightarrow> 16 word \<Rightarrow> node" where
  "new_node s k perm = \<lparr>n_ino = os_ino s, n_kind = k, n_perm = and perm (not (os_umask s)), n_sticky = False,
     n_uid = os_euid s, n_gid = os_egid s, n_data = []\<rparr>"

definition create_node :: "string \<Rightarrow> fkind \<Rightarrow> 16 word \<Rightarrow> os \<Rightarrow> errno + os" where
  "create_node p k perm s =
     (if \<not> is_dir s (Dir p) then Inl (missing s p)
      else Inr (put_node p (new_node s k perm) (s\<lparr>os_ino := Suc (os_ino s)\<rparr>)))"

definition Lstat :: "string \<Rightarrow> (errno + node) go" where
  "Lstat p = query (\<lambda>s. case lookup s p of Some n \<Rightarrow> Inr n | None \<Rightarrow> Inl (missing s p))"

text \<open>Reading follows symbolic links at the end of the path, at most forty of them.\<close>

fun resolve :: "nat \<Rightarrow> os \<Rightarrow> string \<Rightarrow> errno + node" where
  "resolve 0 s p = Inl ELOOP"
| "resolve (Suc k) s p = (case lookup s p of
      None \<Rightarrow> Inl (missing s p)
    | Some n \<Rightarrow> (case n_kind n of
        Symlink t \<Rightarrow> resolve k s (if IsAbs t then Clean t else Clean (joinPath (Dir p) t))
      | _ \<Rightarrow> Inr n))"

definition read_file :: "os \<Rightarrow> string \<Rightarrow> errno + string" where
  "read_file s p = (case resolve 40 s p of
      Inl e \<Rightarrow> Inl e
    | Inr n \<Rightarrow> if n_kind n = Directory then Inl EISDIR else Inr (n_data n))"

definition ReadFile :: "string \<Rightarrow> (errno + string) go" where
  "ReadFile p = query (\<lambda>s. read_file s p)"

definition OpenExcl :: "string \<Rightarrow> (errno + unit) go" where
  "OpenExcl p = modify (\<lambda>s. if lookup s p \<noteq> None then Inl EEXIST else create_node p Regular 0x180 s)"

definition next_random :: "string go" where
  "next_random = State (\<lambda>s. (utoa (unat (os_rand s (os_draws s))), s\<lparr>os_draws := Suc (os_draws s)\<rparr>))"

text \<open>\<^verbatim>\<open>os.CreateTemp\<close>: the file is opened exclusively under random names, up to ten thousand of them.\<close>

fun create_temp :: "nat \<Rightarrow> string \<Rightarrow> (errno + string) go" where
  "create_temp 0 prefix = ret (Inl EEXIST)"
| "create_temp (Suc k) prefix = do {
     r \<leftarrow> next_random;
     e \<leftarrow> OpenExcl (prefix @ r);
     case e of
       Inr _ \<Rightarrow> ret (Inr (prefix @ r))
     | Inl e \<Rightarrow> if e = EEXIST then create_temp k prefix else ret (Inl e) }"

definition CreateTemp :: "string \<Rightarrow> string \<Rightarrow> string result go" where
  "CreateTemp dir pattern =
     (if CHR ''/'' \<in> set pattern then ret (Inl (Msg ''pattern contains path separator''))
      else do { r \<leftarrow> create_temp 10000 (joinPath dir pattern); ret (map_sum Os id r) })"

definition update_data :: "string \<Rightarrow> (node \<Rightarrow> node) \<Rightarrow> os \<Rightarrow> os" where
  "update_data p f s = (case lookup s p of None \<Rightarrow> s | Some n \<Rightarrow> put_node p (f n) s)"

definition Chmod :: "string \<Rightarrow> 16 word \<Rightarrow> (errno + unit) go" where
  "Chmod p perm = modify (\<lambda>s. Inr (update_data p (\<lambda>n. n\<lparr>n_perm := perm\<rparr>) s))"

definition Write :: "string \<Rightarrow> string \<Rightarrow> (errno + unit) go" where
  "Write p b = sys (\<lambda>x s. case x of
      Some k \<Rightarrow> (Inl EIO, update_data p (\<lambda>n. n\<lparr>n_data := take k b\<rparr>) s)
    | None \<Rightarrow> (Inr (), update_data p (\<lambda>n. n\<lparr>n_data := b\<rparr>) s))"

definition Sync :: "(errno + unit) go" where
  "Sync = query (\<lambda>s. Inr ())"

definition Close :: "(errno + unit) go" where
  "Close = query (\<lambda>s. Inr ())"

definition OpenDir :: "string \<Rightarrow> (errno + unit) go" where
  "OpenDir p = query (\<lambda>s. map_sum id (\<lambda>_. ()) (resolve 40 s p))"

definition Remove :: "string \<Rightarrow> (errno + unit) go" where
  "Remove p = modify (\<lambda>s. case lookup s p of
      None \<Rightarrow> Inl (missing s p)
    | Some n \<Rightarrow>
        if n_kind n = Directory \<and> (\<exists>q \<in> set (map fst (os_tree s)). q \<noteq> p \<and> Dir q = p) then Inl ENOTEMPTY
        else Inr (drop_node p s))"

text \<open>Renaming a file over another replaces it in one step; two names of one file are left alone. Directories are
  not renamed by the code, so the model refuses them.\<close>

definition Rename :: "string \<Rightarrow> string \<Rightarrow> (errno + unit) go" where
  "Rename a b = modify (\<lambda>s. case lookup s a of
      None \<Rightarrow> Inl (missing s a)
    | Some n \<Rightarrow>
        if n_kind n = Directory \<or> is_dir s b then Inl EISDIR
        else if \<not> is_dir s (Dir b) then Inl (missing s b)
        else if a = b \<or> map_option n_ino (lookup s b) = Some (n_ino n) then Inr s
        else Inr (put_node b n (drop_node a s)))"

definition Mkdir :: "string \<Rightarrow> 16 word \<Rightarrow> (errno + unit) go" where
  "Mkdir p perm = modify (\<lambda>s. if lookup s p \<noteq> None then Inl EEXIST else create_node p Directory perm s)"

text \<open>Lock files: \<^verbatim>\<open>O_RDWR|O_CREAT|O_NOFOLLOW\<close>, \<^verbatim>\<open>flock\<close> and the release of the lock when the descriptor is closed.\<close>

definition OpenLock :: "string \<Rightarrow> (errno + unit) go" where
  "OpenLock p = modify (\<lambda>s. case lookup s p of
      None \<Rightarrow> create_node p Regular 0x180 s
    | Some n \<Rightarrow> (case n_kind n of Regular \<Rightarrow> Inr s | Directory \<Rightarrow> Inl EISDIR | Symlink _ \<Rightarrow> Inl ELOOP))"

definition Flock :: "string \<Rightarrow> (errno + unit) go" where
  "Flock p = modify (\<lambda>s. Inr (s\<lparr>os_held := p # os_held s\<rparr>))"

definition Funlock :: "string \<Rightarrow> (errno + unit) go" where
  "Funlock p = modify (\<lambda>s. Inr (s\<lparr>os_held := filter (\<lambda>q. q \<noteq> p) (os_held s)\<rparr>))"

definition CloseLock :: "string \<Rightarrow> (errno + unit) go" where
  "CloseLock p = sys (\<lambda>x s. ((case x of Some _ \<Rightarrow> Inl EIO | None \<Rightarrow> Inr ()), s\<lparr>os_held := filter (\<lambda>q. q \<noteq> p) (os_held s)\<rparr>))"

text \<open>The error of a call as an error of the code, \<^verbatim>\<open>errors.Is(err, os.ErrNotExist)\<close>, and reading the state.\<close>

definition os_err :: "(errno + 'a) go \<Rightarrow> 'a result go" where
  "os_err m = do { r \<leftarrow> m; ret (map_sum Os id r) }"

abbreviation (input) is_not_exist :: "errno \<Rightarrow> bool" where
  "is_not_exist e \<equiv> e = ENOENT"

section \<open>Triples\<close>

definition triple :: "(os \<Rightarrow> bool) \<Rightarrow> 'a go \<Rightarrow> ('a \<Rightarrow> os \<Rightarrow> bool) \<Rightarrow> bool" where
  "triple P m Q \<longleftrightarrow> (\<forall>s. P s \<longrightarrow> (case run_state m s of (x, s') \<Rightarrow> Q x s'))"

lemma tripleI: "(\<And>s. P s \<Longrightarrow> Q (fst (run_state m s)) (snd (run_state m s))) \<Longrightarrow> triple P m Q"
  by (fastforce simp: triple_def split: prod.splits)

lemma tripleD: "triple P m Q \<Longrightarrow> P s \<Longrightarrow> Q (fst (run_state m s)) (snd (run_state m s))"
  by (auto simp: triple_def split: prod.splits)

lemma triple_ret: "(\<And>s. P s \<Longrightarrow> Q x s) \<Longrightarrow> triple P (ret x) Q"
  by (simp add: triple_def)

lemma triple_bind: "triple P m R \<Longrightarrow> (\<And>x. triple (R x) (f x) Q) \<Longrightarrow> triple P (m \<bind> f) Q"
  by (fastforce simp: triple_def split: prod.splits)

lemma triple_conseq:
  "triple P m Q \<Longrightarrow> (\<And>s. P' s \<Longrightarrow> P s) \<Longrightarrow> (\<And>x s. Q x s \<Longrightarrow> Q' x s) \<Longrightarrow> triple P' m Q'"
  by (fastforce simp: triple_def split: prod.splits)

lemma triple_pre: "triple P m Q \<Longrightarrow> (\<And>s. P' s \<Longrightarrow> P s) \<Longrightarrow> triple P' m Q"
  by (erule triple_conseq)

lemma triple_post: "triple P m Q \<Longrightarrow> (\<And>x s. Q x s \<Longrightarrow> Q' x s) \<Longrightarrow> triple P m Q'"
  by (erule triple_conseq)

lemma triple_conj: "triple P m Q \<Longrightarrow> triple P' m Q' \<Longrightarrow> triple (\<lambda>s. P s \<and> P' s) m (\<lambda>x s. Q x s \<and> Q' x s)"
  by (fastforce simp: triple_def split: prod.splits)

lemma triple_exists: "(\<And>a. triple (P a) m Q) \<Longrightarrow> triple (\<lambda>s. \<exists>a. P a s) m Q"
  unfolding triple_def by (intro allI impI, elim exE) simp

lemma triple_pure: "(A \<Longrightarrow> triple P m Q) \<Longrightarrow> triple (\<lambda>s. A \<and> P s) m Q"
  by (auto simp: triple_def)

lemma triple_pure2: "(A \<Longrightarrow> triple P m Q) \<Longrightarrow> triple (\<lambda>s. P s \<and> A) m Q"
  by (auto simp: triple_def)

lemma triple_get: "(\<And>s. P s \<Longrightarrow> Q s s) \<Longrightarrow> triple P State_Monad.get Q"
  by (simp add: triple_def)

lemma triple_sum:
  "(\<And>e. r = Inl e \<Longrightarrow> triple P (f e) Q) \<Longrightarrow> (\<And>x. r = Inr x \<Longrightarrow> triple P (g x) Q) \<Longrightarrow>
   triple P (case r of Inl e \<Rightarrow> f e | Inr x \<Rightarrow> g x) Q"
  by (cases r) simp_all

text \<open>After a call: what holds when it failed, and what holds of its value.\<close>

definition outcome :: "(os \<Rightarrow> bool) \<Rightarrow> ('a \<Rightarrow> os \<Rightarrow> bool) \<Rightarrow> 'e + 'a \<Rightarrow> os \<Rightarrow> bool" where
  "outcome E R r s = (case r of Inl e \<Rightarrow> E s | Inr x \<Rightarrow> R x s)"

lemma outcome_simps [simp]: "outcome E R (Inl e) = E" "outcome E R (Inr x) = R x"
  by (simp_all add: outcome_def fun_eq_iff)

lemma outcome_mono: "outcome E R r s \<Longrightarrow> (E s \<Longrightarrow> E' s) \<Longrightarrow> (\<And>x. R x s \<Longrightarrow> R' x s) \<Longrightarrow> outcome E' R' r s"
  by (cases r) simp_all

lemma triple_outcome:
  "triple P m (outcome E R) \<Longrightarrow> (\<And>s. E s \<Longrightarrow> E' s) \<Longrightarrow> (\<And>x s. R x s \<Longrightarrow> R' x s) \<Longrightarrow> triple P m (outcome E' R')"
  by (erule triple_post, erule outcome_mono)

lemma triple_check:
  assumes "triple P m (outcome E R)" and "\<And>x. triple (R x) (k x) Q" and "\<And>s e. E s \<Longrightarrow> Q (Inl e) s"
  shows "triple P (check m k) Q"
  unfolding check_def
proof (rule triple_bind [OF assms(1)])
  show "triple (outcome E R r) (case r of Inl e \<Rightarrow> ret (Inl e) | Inr x \<Rightarrow> k x) Q" for r
    using assms(2,3) by (cases r) (auto intro: triple_ret)
qed

lemma triple_os_err: "triple P m (outcome E R) \<Longrightarrow> triple P (os_err m) (outcome E R)"
  unfolding os_err_def
  by (erule triple_bind, rule triple_ret) (auto simp: outcome_def split: sum.splits)

lemma triple_for_each:
  assumes "\<And>x. x \<in> set xs \<Longrightarrow> triple P (f x) (outcome E (\<lambda>_. P))"
  shows "triple P (for_each f xs) (outcome E (\<lambda>_. P))"
  using assms
proof (induction xs)
  case Nil
  show ?case by (simp add: triple_ret)
next
  case (Cons x xs)
  have "triple P (f x) (outcome E (\<lambda>_. P))" using Cons.prems by simp
  moreover have "triple P (for_each f xs) (outcome E (\<lambda>_. P))" using Cons by simp
  ultimately show ?case by (auto intro: triple_check)
qed

section \<open>Rules for the calls\<close>

text \<open>No call fails from outside.\<close>

definition calm :: "os \<Rightarrow> bool" where
  "calm s \<longleftrightarrow> (\<forall>n. os_fault s n = None)"

lemma tree_tick [simp]: "is_dir (s\<lparr>os_ticks := n\<rparr>) p = is_dir s p" "is_dir (s\<lparr>os_draws := n\<rparr>) p = is_dir s p"
  "is_dir (s\<lparr>os_held := h\<rparr>) p = is_dir s p" "is_dir (s\<lparr>os_ino := n\<rparr>) p = is_dir s p"
  "missing (s\<lparr>os_ticks := n\<rparr>) p = missing s p" "calm (s\<lparr>os_ticks := n\<rparr>) = calm s" "calm (s\<lparr>os_draws := n\<rparr>) = calm s"
  "calm (s\<lparr>os_held := h\<rparr>) = calm s" "calm (s\<lparr>os_ino := n\<rparr>) = calm s" "calm (s\<lparr>os_tree := t\<rparr>) = calm s"
  by (simp_all add: is_dir_def missing_def calm_def)

lemma resolve_tick [simp]: "resolve k (s\<lparr>os_ticks := n\<rparr>) p = resolve k s p"
  by (induction k "s\<lparr>os_ticks := n\<rparr>" p rule: resolve.induct) (auto split: option.splits fkind.splits)

lemma put_node_simps [simp]: "lookup (put_node p n s) q = (if q = p then Some n else lookup s q)"
  "calm (put_node p n s) = calm s" "os_now (put_node p n s) = os_now s" "os_ino (put_node p n s) = os_ino s"
  "os_held (put_node p n s) = os_held s"
  by (simp_all add: put_node_def)

lemma drop_node_simps [simp]: "lookup (drop_node p s) q = (if q = p then None else lookup s q)"
  "calm (drop_node p s) = calm s" "os_now (drop_node p s) = os_now s" "os_ino (drop_node p s) = os_ino s"
  "os_held (drop_node p s) = os_held s"
  by (simp_all add: drop_node_def)

lemma triple_query:
  assumes "\<And>s. P s \<Longrightarrow> \<not> calm s \<Longrightarrow> Q (Inl EIO) (s\<lparr>os_ticks := Suc (os_ticks s)\<rparr>)"
    and "\<And>s. P s \<Longrightarrow> Q (f (s\<lparr>os_ticks := Suc (os_ticks s)\<rparr>)) (s\<lparr>os_ticks := Suc (os_ticks s)\<rparr>)"
  shows "triple P (query f) Q"
  using assms by (auto simp: triple_def query_def sys_def calm_def split: option.splits)

lemma triple_modify:
  assumes "\<And>s. P s \<Longrightarrow> \<not> calm s \<Longrightarrow> Q (Inl EIO) (s\<lparr>os_ticks := Suc (os_ticks s)\<rparr>)"
    and "\<And>s e. P s \<Longrightarrow> f (s\<lparr>os_ticks := Suc (os_ticks s)\<rparr>) = Inl e \<Longrightarrow> Q (Inl e) (s\<lparr>os_ticks := Suc (os_ticks s)\<rparr>)"
    and "\<And>s s'. P s \<Longrightarrow> f (s\<lparr>os_ticks := Suc (os_ticks s)\<rparr>) = Inr s' \<Longrightarrow> Q (Inr ()) s'"
  shows "triple P (modify f) Q"
  using assms by (auto simp: triple_def modify_def sys_def calm_def split: option.splits sum.splits)

end
