(* ===== verification/Cert_Paths.thy ===== *)
theory Cert_Paths
  imports GoOs
begin

text \<open>
  \<^verbatim>\<open>internal/server/secure_paths_unix.go\<close>: the checks on the directories of the certificate and key files, and the
  lock files that keep two processes apart.
\<close>

section \<open>Checks of paths\<close>

definition transactionPath :: "string \<Rightarrow> string" where
  "transactionPath certFile = certFile @ ''.wattline-tls-transaction''"

definition lockPath :: "string \<Rightarrow> string" where
  "lockPath target = target @ ''.wattline-tls-lock''"

text \<open>\<^verbatim>\<open>syncDirectory\<close> of \<^verbatim>\<open>cert_transaction.go\<close>.\<close>

definition syncDirectory :: "string \<Rightarrow> unit result go" where
  "syncDirectory path = check (os_err (OpenDir path)) (\<lambda>_. do {
     syncErr \<leftarrow> os_err Sync;
     closeErr \<leftarrow> os_err Close;
     ret (errors_Join (err_of syncErr @ err_of closeErr)) })"

definition writableByUntrusted :: "16 word \<Rightarrow> nat \<Rightarrow> bool" where
  "writableByUntrusted permissions gid \<longleftrightarrow> and permissions 0x02 \<noteq> 0 \<or> and permissions 0x10 \<noteq> 0 \<and> gid \<noteq> 0"

definition absoluteComponents :: "string \<Rightarrow> string list" where
  "absoluteComponents path =
     (let rest = Clean path;
          step = (\<lambda>(current, result) component.
            if component = [] then (current, result)
            else (Join current component, result @ [Join current component]))
      in snd (foldl step (''/'', [''/'']) (split_slash [] (if take 1 rest = ''/'' then drop 1 rest else rest))))"

text \<open>The first loop of \<^verbatim>\<open>ensureTrustedParent\<close>: look at each ancestor, creating it when it is missing.\<close>

definition lstat_or_mkdir :: "string \<Rightarrow> node result go" where
  "lstat_or_mkdir path = do {
     info \<leftarrow> Lstat path;
     case info of
       Inr n \<Rightarrow> ret (Inr n)
     | Inl e \<Rightarrow>
         if is_not_exist e then do {
           made \<leftarrow> Mkdir path 0x1C0;
           case made of
             Inl e \<Rightarrow> if e \<noteq> EEXIST then ret (Inl (Joined [Msg ''create TLS directory'', Os e])) else os_err (Lstat path)
           | Inr _ \<Rightarrow> os_err (Lstat path) }
         else ret (Inl (Os e)) }"

fun trusted_ancestors :: "string list \<Rightarrow> node list \<Rightarrow> node list result go" where
  "trusted_ancestors [] infos = ret (Inr infos)"
| "trusted_ancestors (path # ps) infos = check (lstat_or_mkdir path) (\<lambda>info.
     if n_kind info \<noteq> Directory then ret (Inl (Msg ''TLS ancestor is not a real directory''))
     else do {
       s \<leftarrow> State_Monad.get;
       if n_uid info \<noteq> 0 \<and> n_uid info \<noteq> os_euid s then ret (Inl (Msg ''TLS ancestor has untrusted owner''))
       else trusted_ancestors ps (infos @ [info]) })"

text \<open>The second loop: a directory others can write to must be sticky and the next one below it safe.\<close>

fun unsafely_writable :: "node list \<Rightarrow> bool" where
  "unsafely_writable [] = False"
| "unsafely_writable (info # rest) =
     (if \<not> writableByUntrusted (n_perm info) (n_gid info) then unsafely_writable rest
      else if \<not> n_sticky info \<or> rest = [] then True
      else if writableByUntrusted (n_perm (hd rest)) (n_gid (hd rest)) then True
      else unsafely_writable rest)"

definition ensureTrustedParent :: "string \<Rightarrow> unit result go" where
  "ensureTrustedParent parent = check (trusted_ancestors (absoluteComponents parent) []) (\<lambda>infos.
     if unsafely_writable infos then ret (Inl (Msg ''TLS ancestor is unsafely writable''))
     else syncDirectory parent)"

fun reject_symlinks :: "string \<Rightarrow> string list \<Rightarrow> unit result go" where
  "reject_symlinks current [] = ret (Inr ())"
| "reject_symlinks current (component # cs) =
     (if component = [] then reject_symlinks current cs
      else let current = Join current component in do {
        info \<leftarrow> Lstat current;
        case info of
          Inl e \<Rightarrow> if is_not_exist e then ret (Inr ()) else ret (Inl (Os e))
        | Inr n \<Rightarrow> (case n_kind n of
            Symlink _ \<Rightarrow> ret (Inl (Msg ''TLS path component is a symlink''))
          | _ \<Rightarrow> reject_symlinks current cs) })"

definition rejectSymlinkComponents :: "string \<Rightarrow> unit result go" where
  "rejectSymlinkComponents path =
     (let rest = Clean path
      in reject_symlinks ''/'' (split_slash [] (if take 1 rest = ''/'' then drop 1 rest else rest)))"

fun existing_aliases :: "string list \<Rightarrow> node list \<Rightarrow> unit result go" where
  "existing_aliases [] existing = ret (Inr ())"
| "existing_aliases (path # ps) existing = do {
     info \<leftarrow> Lstat path;
     case info of
       Inl e \<Rightarrow> if is_not_exist e then existing_aliases ps existing else ret (Inl (Os e))
     | Inr n \<Rightarrow>
         if \<exists>prior \<in> set existing. n_ino prior = n_ino n then ret (Inl (Msg ''TLS operation paths alias''))
         else existing_aliases ps (existing @ [n]) }"

definition rejectExistingAliases :: "string list \<Rightarrow> unit result go" where
  "rejectExistingAliases paths = existing_aliases paths []"

definition prepareTLSPaths :: "string \<Rightarrow> string \<Rightarrow> unit result go" where
  "prepareTLSPaths certFile keyFile =
     (if certFile = [] \<or> keyFile = [] \<or> \<not> IsAbs certFile \<or> \<not> IsAbs keyFile \<or> Clean certFile \<noteq> certFile \<or> Clean keyFile \<noteq> keyFile
      then ret (Inl (Msg ''TLS certificate and key paths must be clean absolute paths''))
      else
        let paths = [certFile, keyFile, transactionPath certFile, lockPath certFile, lockPath keyFile]
        in if \<not> distinct paths then ret (Inl (Msg ''TLS certificate transaction paths alias''))
           else check (for_each ensureTrustedParent [Dir certFile, Dir keyFile]) (\<lambda>_.
                check (for_each rejectSymlinkComponents paths) (\<lambda>_.
                rejectExistingAliases paths)))"

section \<open>Locks\<close>

text \<open>\<^verbatim>\<open>release\<close>: the files in the reverse of the order in which they were locked, keeping every error.\<close>

fun release_loop :: "string list \<Rightarrow> gerr list \<Rightarrow> gerr list go" where
  "release_loop [] errs = ret errs"
| "release_loop (file # fs) errs = do {
     unlocked \<leftarrow> os_err (Funlock file);
     closed \<leftarrow> os_err (CloseLock file);
     release_loop fs (errs @ err_of unlocked @ err_of closed) }"

definition release :: "string list \<Rightarrow> gerr list go" where
  "release files = release_loop (rev files) []"

text \<open>What \<^verbatim>\<open>fstat\<close> must report of a lock file.\<close>

definition secure_lock :: "os \<Rightarrow> string \<Rightarrow> bool" where
  "secure_lock s path \<longleftrightarrow> (case lookup s path of
      None \<Rightarrow> False
    | Some n \<Rightarrow> n_kind n = Regular \<and> (n_uid n = 0 \<or> n_uid n = os_euid s) \<and> and (n_perm n) 0x3F = 0)"

definition Fstat_secure :: "string \<Rightarrow> (errno + bool) go" where
  "Fstat_secure path = query (\<lambda>s. Inr (secure_lock s path))"

text \<open>Closing the lock file that failed and releasing those already held, with the errors joined to the cause.\<close>

definition give_up :: "gerr \<Rightarrow> string \<Rightarrow> string list \<Rightarrow> string list result go" where
  "give_up cause path files = do {
     closeErr \<leftarrow> os_err (CloseLock path);
     releaseErrs \<leftarrow> release files;
     ret (Inl (Joined ([cause] @ err_of closeErr @ releaseErrs))) }"

fun acquire_loop :: "string list \<Rightarrow> string list \<Rightarrow> string list result go" where
  "acquire_loop [] files = ret (Inr files)"
| "acquire_loop (path # ps) files = do {
     fd \<leftarrow> os_err (OpenLock path);
     case fd of
       Inl e \<Rightarrow> do { releaseErrs \<leftarrow> release files; ret (Inl (Joined ([e] @ releaseErrs))) }
     | Inr _ \<Rightarrow> do {
         stat \<leftarrow> os_err (Fstat_secure path);
         case stat of
           Inl e \<Rightarrow> give_up e path files
         | Inr secure \<Rightarrow>
             if \<not> secure then give_up (Msg ''TLS lock is not a secure regular file'') path files
             else do {
               locked \<leftarrow> os_err (Flock path);
               case locked of
                 Inl e \<Rightarrow> give_up e path files
               | Inr _ \<Rightarrow> acquire_loop ps (files @ [path]) } } }"

definition acquireCertificateLocks :: "string \<Rightarrow> string \<Rightarrow> string list result go" where
  "acquireCertificateLocks certFile keyFile = acquire_loop (sort [lockPath certFile, lockPath keyFile]) []"

end
