(* ===== verification/GoJson.thy ===== *)
theory GoJson
  imports GoText
begin

text \<open>
  The part of \<^verbatim>\<open>unicode/utf8\<close> and \<^verbatim>\<open>encoding/json\<close> the daemon relies on, over byte strings: the length of the
  UTF-8 sequence at the front of a string, the quoting \<^verbatim>\<open>json.Marshal\<close> applies to strings, the scanner and
  unquoting of \<^verbatim>\<open>json.Unmarshal\<close> with its nesting limit, and the round trip between the two.
\<close>

section \<open>UTF-8\<close>

definition byte_in :: "nat \<Rightarrow> nat \<Rightarrow> char \<Rightarrow> bool" where
  "byte_in lo hi c \<longleftrightarrow> lo \<le> of_char c \<and> of_char c \<le> hi"

text \<open>\<^verbatim>\<open>utf8.DecodeRuneInString\<close>: the number of bytes of the rune, \<open>None\<close> for \<^verbatim>\<open>RuneError\<close> of width one.\<close>

fun rune_len :: "string \<Rightarrow> nat option" where
  "rune_len [] = None"
| "rune_len (a # s) =
     (if byte_in 0 0x7F a then Some 1
      else case s of
        [] \<Rightarrow> None
      | b # s \<Rightarrow>
          if byte_in 0xC2 0xDF a then if byte_in 0x80 0xBF b then Some 2 else None
          else case s of
            [] \<Rightarrow> None
          | c # s \<Rightarrow>
              if byte_in 0xE0 0xEF a then
                if byte_in (if of_char a = (0xE0 :: nat) then 0xA0 else 0x80) (if of_char a = (0xED :: nat) then 0x9F else 0xBF) b
                   \<and> byte_in 0x80 0xBF c then Some 3 else None
              else case s of
                [] \<Rightarrow> None
              | d # s \<Rightarrow>
                  if byte_in 0xF0 0xF4 a
                     \<and> byte_in (if of_char a = (0xF0 :: nat) then 0x90 else 0x80) (if of_char a = (0xF4 :: nat) then 0x8F else 0xBF) b
                     \<and> byte_in 0x80 0xBF c \<and> byte_in 0x80 0xBF d then Some 4 else None)"

lemma rune_len_bounds: "rune_len s = Some n \<Longrightarrow> 0 < n \<and> n \<le> length s"
  by (cases s rule: rune_len.cases) (auto split: if_splits list.splits)

lemma rune_len_Cons: "rune_len (c # s) = Some n \<Longrightarrow> \<exists>m. n = Suc m \<and> m \<le> length s"
  using rune_len_bounds [of "c # s" n] by (cases n) auto

text \<open>Only the bytes of the rune matter.\<close>

lemma rune_len_take: "rune_len s = Some n \<Longrightarrow> rune_len (take n s @ t) = Some n"
  by (cases s rule: rune_len.cases) (auto split: if_splits list.splits)

lemma rune_len_stops:
  assumes "rune_len (x @ c # y) = Some n" and "x \<noteq> []" and "byte_in 0 0x7F c"
  shows "n \<le> length x" and "rune_len x = Some n"
proof -
  have lim: "\<not> (0x80 \<le> lo \<and> byte_in lo hi c)" for lo hi using assms(3) by (auto simp: byte_in_def)
  note bad = lim [of "0x80", simplified] lim [of "0x90", simplified] lim [of "0xA0", simplified]
  obtain a x1 where x: "x = a # x1" using assms(2) by (cases x) auto
  show "n \<le> length x" and "rune_len x = Some n"
    using assms(1) bad
    by (cases x1; cases "tl x1"; cases "tl (tl x1)"; auto simp: x split: if_splits list.splits)+
qed

declare rune_len.simps [simp del]

function valid_utf8 :: "string \<Rightarrow> bool" where
  "valid_utf8 s = (if s = [] then True else case rune_len s of None \<Rightarrow> False | Some n \<Rightarrow> valid_utf8 (drop n s))"
  by pat_completeness auto
termination
  by (relation "measure length") (auto dest: rune_len_bounds)

declare valid_utf8.simps [simp del]

lemma valid_utf8_Nil [simp]: "valid_utf8 []"
  by (simp add: valid_utf8.simps)

lemma valid_utf8_ascii [simp]: "byte_in 0 0x7F c \<Longrightarrow> valid_utf8 (c # s) = valid_utf8 s"
  by (simp add: valid_utf8.simps [of "c # s"] rune_len.simps)

lemma valid_utf8_append: "valid_utf8 x \<Longrightarrow> valid_utf8 y \<Longrightarrow> valid_utf8 (x @ y)"
proof (induction x rule: valid_utf8.induct)
  case (1 x)
  show ?case
  proof (cases "x = []")
    case False
    with 1(2) obtain n where n: "rune_len x = Some n" "valid_utf8 (drop n x)"
      by (subst (asm) valid_utf8.simps) (auto split: option.splits)
    have "rune_len (x @ y) = Some n" using rune_len_take [OF n(1), of "drop n x @ y"]
      by (simp only: append_assoc [symmetric] append_take_drop_id)
    with False n 1(1) [OF False n(1,2)] 1(3) rune_len_bounds [OF n(1)] show ?thesis
      by (subst valid_utf8.simps) simp
  qed (use 1 in simp)
qed

lemma valid_utf8_split:
  assumes "valid_utf8 (x @ c # y)" and "byte_in 0 0x7F c"
  shows "valid_utf8 x \<and> valid_utf8 y"
  using assms(1)
proof (induction x rule: valid_utf8.induct)
  case (1 x)
  show ?case
  proof (cases "x = []")
    case False
    with 1(2) obtain n where n: "rune_len (x @ c # y) = Some n" "valid_utf8 (drop n (x @ c # y))"
      by (subst (asm) valid_utf8.simps) (auto split: option.splits)
    note r = rune_len_stops [OF n(1) False assms(2)]
    have "valid_utf8 (drop n x) \<and> valid_utf8 y" using 1(1) [OF False r(2)] n(2) r(1) by simp
    with False r(2) show ?thesis by (subst valid_utf8.simps) simp
  qed (use 1(2) assms(2) in simp)
qed

lemma valid_utf8_all_ascii: "list_all (byte_in 0 0x7F) s \<Longrightarrow> valid_utf8 s"
  by (induction s) simp_all

text \<open>\<^verbatim>\<open>utf8.EncodeRune\<close>.\<close>

definition utf8_encode :: "nat \<Rightarrow> string" where
  "utf8_encode r =
     (if r < 0x80 then [char_of r]
      else if r < 0x800 then [char_of (0xC0 + r div 0x40), char_of (0x80 + r mod 0x40)]
      else if r > 0x10FFFF \<or> (0xD800 \<le> r \<and> r \<le> 0xDFFF) then [CHR 0xEF, CHR 0xBF, CHR 0xBD]
      else if r < 0x10000 then [char_of (0xE0 + r div 0x1000), char_of (0x80 + r div 0x40 mod 0x40), char_of (0x80 + r mod 0x40)]
      else [char_of (0xF0 + r div 0x40000), char_of (0x80 + r div 0x1000 mod 0x40), char_of (0x80 + r div 0x40 mod 0x40),
            char_of (0x80 + r mod 0x40)])"

abbreviation (input) "RuneError \<equiv> [CHR 0xEF, CHR 0xBF, CHR 0xBD]"

text \<open>\<^verbatim>\<open>strings.TrimSpace\<close>: the runes of \<^verbatim>\<open>unicode.IsSpace\<close>, taken off both ends.\<close>

definition space_runes :: "string list" where
  "space_runes = map (\<lambda>c. [c]) [CHR '' '', CHR 0x09, CHR 0x0A, CHR 0x0B, CHR 0x0C, CHR 0x0D] @
     map utf8_encode ([0x85, 0xA0, 0x1680] @ [0x2000..<0x200B] @ [0x2028, 0x2029, 0x202F, 0x205F, 0x3000])"

function trim_runes :: "string list \<Rightarrow> string \<Rightarrow> string" where
  "trim_runes rs s = (case find (\<lambda>r. r \<noteq> [] \<and> take (length r) s = r) rs of
      None \<Rightarrow> s
    | Some r \<Rightarrow> trim_runes rs (drop (length r) s))"
  by pat_completeness auto
termination
proof (relation "measure (\<lambda>(rs, s). length s)", goal_cases)
  case (2 rs s r)
  then have "r \<noteq> []" "take (length r) s = r" by (auto dest: find_SomeD)
  then show ?case by (cases s) auto
qed simp

declare trim_runes.simps [simp del]

definition TrimSpace :: "string \<Rightarrow> string" where
  "TrimSpace s = rev (trim_runes (map rev space_runes) (rev (trim_runes space_runes s)))"

section \<open>Strings\<close>

abbreviation (input) "DQ \<equiv> CHR 0x22"
abbreviation (input) "BS \<equiv> CHR 0x5C"

definition hex_digit :: "nat \<Rightarrow> char" where
  "hex_digit n = (if n < 10 then char_of (48 + n) else char_of (87 + n))"

definition hexdigit_val :: "char \<Rightarrow> nat option" where
  "hexdigit_val c = (let n = of_char c in
     if 48 \<le> n \<and> n \<le> 57 then Some (n - 48) else if 97 \<le> n \<and> n \<le> 102 then Some (n - 87)
     else if 65 \<le> n \<and> n \<le> 70 then Some (n - 55) else None)"

text \<open>\<^verbatim>\<open>appendString\<close> of \<^verbatim>\<open>encoding/json\<close>, with HTML escaping on. \<^verbatim>\<open>htmlSafeSet\<close> holds the bytes copied as they are.\<close>

definition htmlSafe :: "char \<Rightarrow> bool" where
  "htmlSafe c \<longleftrightarrow> byte_in 0x20 0x7F c \<and> c \<notin> {DQ, BS, CHR ''<'', CHR ''>'', CHR ''&''}"

definition escape_byte :: "char \<Rightarrow> string" where
  "escape_byte c =
     (if htmlSafe c then [c]
      else if c = BS \<or> c = DQ then [BS, c]
      else if c = CHR 0x08 then [BS, CHR ''b'']
      else if c = CHR 0x0C then [BS, CHR ''f'']
      else if c = CHR 0x0A then [BS, CHR ''n'']
      else if c = CHR 0x0D then [BS, CHR ''r'']
      else if c = CHR 0x09 then [BS, CHR ''t'']
      else [BS, CHR ''u'', CHR ''0'', CHR ''0'', hex_digit (of_char c div 16), hex_digit (of_char c mod 16)])"

function escape :: "string \<Rightarrow> string" where
  "escape s = (case s of
      [] \<Rightarrow> []
    | c # t \<Rightarrow>
        if byte_in 0 0x7F c then escape_byte c @ escape t
        else case rune_len s of
          None \<Rightarrow> BS # ''ufffd'' @ escape t
        | Some n \<Rightarrow>
            (if take n s = [CHR 0xE2, CHR 0x80, CHR 0xA8] then BS # ''u2028''
             else if take n s = [CHR 0xE2, CHR 0x80, CHR 0xA9] then BS # ''u2029''
             else take n s) @ escape (drop n s))"
  by pat_completeness auto
termination
  by (relation "measure length") (auto dest: rune_len_Cons)

declare escape.simps [simp del]

definition quote_string :: "string \<Rightarrow> string" where
  "quote_string s = DQ # escape s @ [DQ]"

text \<open>\<^verbatim>\<open>unquoteBytes\<close> together with the in-string states of the scanner, from behind the opening quote.\<close>

definition simple_escape :: "char \<Rightarrow> char option" where
  "simple_escape c =
     (if c = DQ \<or> c = BS \<or> c = CHR ''/'' then Some c
      else if c = CHR ''b'' then Some (CHR 0x08)
      else if c = CHR ''f'' then Some (CHR 0x0C)
      else if c = CHR ''n'' then Some (CHR 0x0A)
      else if c = CHR ''r'' then Some (CHR 0x0D)
      else if c = CHR ''t'' then Some (CHR 0x09)
      else None)"

fun hex4 :: "string \<Rightarrow> (nat \<times> string) option" where
  "hex4 (a # b # c # d # s) =
     (case (hexdigit_val a, hexdigit_val b, hexdigit_val c, hexdigit_val d) of
        (Some a, Some b, Some c, Some d) \<Rightarrow> Some (((a * 16 + b) * 16 + c) * 16 + d, s)
      | _ \<Rightarrow> None)"
| "hex4 _ = None"

lemma hex4_length: "hex4 s = Some (r, t) \<Longrightarrow> length t < length s"
  by (cases s rule: hex4.cases) (auto split: option.splits)

text \<open>\<^verbatim>\<open>\u\<close> followed by four digits, and a second such escape when the first is half of a surrogate pair.\<close>

definition unicode_escape :: "string \<Rightarrow> (string \<times> string) option" where
  "unicode_escape s = (case hex4 s of
      None \<Rightarrow> None
    | Some (r, t) \<Rightarrow>
        if 0xD800 \<le> r \<and> r \<le> 0xDFFF then
          (case (if take 2 t = [BS, CHR ''u''] then hex4 (drop 2 t) else None) of
             None \<Rightarrow> Some (RuneError, t)
           | Some (r1, u) \<Rightarrow>
               if r < 0xDC00 \<and> 0xDC00 \<le> r1 \<and> r1 \<le> 0xDFFF
               then Some (utf8_encode (0x10000 + (r - 0xD800) * 0x400 + (r1 - 0xDC00)), u)
               else Some (RuneError, t))
        else Some (utf8_encode r, t))"

lemma unicode_escape_length: "unicode_escape s = Some (e, t) \<Longrightarrow> length t < length s"
  by (auto simp: unicode_escape_def split: option.splits if_splits dest!: hex4_length)

definition prepend :: "'a list \<Rightarrow> ('a list \<times> 'b) option \<Rightarrow> ('a list \<times> 'b) option" where
  "prepend xs r = map_option (\<lambda>(ys, b). (xs @ ys, b)) r"

lemma prepend_Some [simp]: "prepend xs (Some (ys, b)) = Some (xs @ ys, b)"
  by (simp add: prepend_def)

function unquote :: "string \<Rightarrow> (string \<times> string) option" where
  "unquote s = (case s of
      [] \<Rightarrow> None
    | c # t \<Rightarrow>
        if c = DQ then Some ([], t)
        else if byte_in 0 0x1F c then None
        else if c = BS then
          (case t of
             [] \<Rightarrow> None
           | e # u \<Rightarrow>
               if e = CHR ''u'' then
                 (case unicode_escape u of None \<Rightarrow> None | Some (x, v) \<Rightarrow> prepend x (unquote v))
               else
                 (case simple_escape e of None \<Rightarrow> None | Some x \<Rightarrow> prepend [x] (unquote u)))
        else case rune_len s of
          None \<Rightarrow> prepend RuneError (unquote t)
        | Some n \<Rightarrow> prepend (take n s) (unquote (drop n s)))"
  by pat_completeness auto
termination
  by (relation "measure length") (auto dest: rune_len_Cons unicode_escape_length)

declare unquote.simps [simp del]

text \<open>Reading back what was quoted.\<close>

lemma unquote_quote [simp]: "unquote (DQ # t) = Some ([], t)"
  by (simp add: unquote.simps [of "DQ # t"])

lemma unquote_safe: "byte_in 0x20 0x7F c \<Longrightarrow> c \<noteq> DQ \<Longrightarrow> c \<noteq> BS \<Longrightarrow> unquote (c # t) = prepend [c] (unquote t)"
  by (simp add: unquote.simps [of "c # t"] rune_len.simps byte_in_def)

lemma unquote_simple: "e \<noteq> CHR ''u'' \<Longrightarrow> simple_escape e = Some x \<Longrightarrow> unquote (BS # e # t) = prepend [x] (unquote t)"
  by (simp add: unquote.simps [of "BS # e # t"] byte_in_def)

lemma unquote_unicode: "unicode_escape u = Some (x, v) \<Longrightarrow> unquote (BS # CHR ''u'' # u) = prepend x (unquote v)"
  by (simp add: unquote.simps [of "BS # CHR ''u'' # u"] byte_in_def)

lemma unquote_rune:
  assumes "rune_len s = Some n" and "\<not> byte_in 0 0x7F (hd s)"
  shows "unquote (take n s @ t) = prepend (take n s) (unquote t)"
proof -
  from assms(1) obtain c u where s: "s = c # u" by (cases s) (auto simp: rune_len.simps)
  from rune_len_Cons assms(1) s obtain m where n: "n = Suc m" and m: "m \<le> length u" by blast
  have "rune_len (c # take m u @ t) = Some n" using rune_len_take [OF assms(1), of t] s n by simp
  with assms(2) s n m show ?thesis by (auto simp: unquote.simps [of "c # take m u @ t"] byte_in_def)
qed

lemma hexdigit_val_digit [simp]: "n < 16 \<Longrightarrow> hexdigit_val (hex_digit n) = Some n"
  by (simp add: hexdigit_val_def hex_digit_def Let_def)

lemma hexdigit_val_zero [simp]: "hexdigit_val CHR ''0'' = Some 0"
  by (simp add: hexdigit_val_def)

lemma unquote_escape_byte:
  assumes "byte_in 0 0x7F c"
  shows "unquote (escape_byte c @ t) = prepend [c] (unquote t)"
proof (cases "htmlSafe c")
  case True
  then show ?thesis by (simp add: escape_byte_def htmlSafe_def unquote_safe)
next
  case False
  have "unicode_escape (CHR ''0'' # CHR ''0'' # hex_digit (of_char c div 16) # hex_digit (of_char c mod 16) # t) = Some ([c], t)"
    using assms by (simp add: unicode_escape_def utf8_encode_def byte_in_def)
  with False show ?thesis
    by (simp add: escape_byte_def unquote_simple unquote_unicode simple_escape_def)
qed

lemma unquote_escape:
  "valid_utf8 s \<Longrightarrow> unquote (escape s @ DQ # t) = Some (s, t)"
proof (induction s rule: escape.induct)
  case (1 s)
  show ?case
  proof (cases s)
    case Nil
    then show ?thesis by (simp add: escape.simps)
  next
    case (Cons c u)
    show ?thesis
    proof (cases "byte_in 0 0x7F c")
      case True
      then have "valid_utf8 u" using 1(4) Cons by simp
      with True 1(1) [OF Cons True] Cons show ?thesis
        by (simp add: escape.simps [of "c # u"] unquote_escape_byte)
    next
      case False
      then obtain n where n: "rune_len s = Some n" and v: "valid_utf8 (drop n s)"
        using 1(4) Cons by (auto simp: valid_utf8.simps [of "c # u"] split: option.splits)
      note IH = 1(3) [OF Cons False n v]
      have u: "unicode_escape (''2028'' @ w) = Some ([CHR 0xE2, CHR 0x80, CHR 0xA8], w)"
              "unicode_escape (''2029'' @ w) = Some ([CHR 0xE2, CHR 0x80, CHR 0xA9], w)" for w
        by (simp_all add: unicode_escape_def hexdigit_val_def utf8_encode_def char_of_def bit_0)
      have "unquote (take n s @ escape (drop n s) @ DQ # t) = Some (s, t)"
        using unquote_rune [OF n] False Cons IH by simp
      moreover have "x @ drop n s = s" if "take n s = x" for x
        using that append_take_drop_id [of n s] by simp
      then have "take n s = [CHR 0xE2, CHR 0x80, CHR 0xA8] \<Longrightarrow> unquote (BS # ''u2028'' @ escape (drop n s) @ DQ # t) = Some (s, t)"
        "take n s = [CHR 0xE2, CHR 0x80, CHR 0xA9] \<Longrightarrow> unquote (BS # ''u2029'' @ escape (drop n s) @ DQ # t) = Some (s, t)"
        using unquote_unicode u IH by simp_all
      ultimately show ?thesis
        using Cons False n by (simp add: escape.simps [of "c # u"])
    qed
  qed
qed

section \<open>Values\<close>

datatype json =
    JNull
  | JBool bool
  | JNum string
  | JStr string
  | JArr "json list"
  | JObj "(string \<times> json) list"

definition is_ws :: "char \<Rightarrow> bool" where
  "is_ws c \<longleftrightarrow> c \<in> {CHR '' '', CHR 0x09, CHR 0x0D, CHR 0x0A}"

abbreviation (input) "skip_ws \<equiv> dropWhile is_ws"

definition strip_prefix :: "string \<Rightarrow> string \<Rightarrow> string option" where
  "strip_prefix p s = (if take (length p) s = p then Some (drop (length p) s) else None)"

text \<open>A number literal: the text read and what follows it. Digits are read as far as they go.\<close>

definition digits1 :: "string \<Rightarrow> (string \<times> string) option" where
  "digits1 s = (if takeWhile is_digit s = [] then None else Some (takeWhile is_digit s, dropWhile is_digit s))"

definition number_int :: "string \<Rightarrow> (string \<times> string) option" where
  "number_int s = (case s of
      [] \<Rightarrow> None
    | c # t \<Rightarrow> if c = CHR ''0'' then Some ([c], t) else digits1 s)"

definition number_frac :: "string \<Rightarrow> (string \<times> string) option" where
  "number_frac s = (case s of
      c # t \<Rightarrow> if c = CHR ''.'' then prepend [c] (digits1 t) else Some ([], s)
    | [] \<Rightarrow> Some ([], []))"

definition number_exp :: "string \<Rightarrow> (string \<times> string) option" where
  "number_exp s = (case s of
      c # t \<Rightarrow>
        if c = CHR ''e'' \<or> c = CHR ''E'' then
          (case t of
             d # u \<Rightarrow> if d = CHR ''+'' \<or> d = CHR ''-'' then prepend [c, d] (digits1 u) else prepend [c] (digits1 t)
           | [] \<Rightarrow> None)
        else Some ([], s)
    | [] \<Rightarrow> Some ([], []))"

definition number_abs :: "string \<Rightarrow> (string \<times> string) option" where
  "number_abs s = (case number_int s of
      None \<Rightarrow> None
    | Some (i, t) \<Rightarrow> (case number_frac t of
        None \<Rightarrow> None
      | Some (f, u) \<Rightarrow> prepend i (prepend f (number_exp u))))"

definition number_lit :: "string \<Rightarrow> (string \<times> string) option" where
  "number_lit s = (case s of
      c # t \<Rightarrow> if c = CHR ''-'' then prepend [c] (number_abs t) else number_abs s
    | [] \<Rightarrow> None)"

text \<open>
  The scanner and decoder. The first argument is the fuel of the recursion; one more than the
  length of the text is enough (lemma \<open>parse_value_fuel\<close> below). The second is the nesting still allowed: \<^verbatim>\<open>maxNestingDepth\<close> of the
  scanner is 10000.
\<close>

fun parse_value :: "nat \<Rightarrow> nat \<Rightarrow> string \<Rightarrow> (json \<times> string) option"
  and parse_elements :: "nat \<Rightarrow> nat \<Rightarrow> string \<Rightarrow> (json list \<times> string) option"
  and parse_members :: "nat \<Rightarrow> nat \<Rightarrow> string \<Rightarrow> ((string \<times> json) list \<times> string) option" where
  "parse_value 0 d s = None"
| "parse_value (Suc n) d s = (case skip_ws s of
      [] \<Rightarrow> None
    | c # t \<Rightarrow>
        if c = CHR ''{'' then
          if d = 0 then None
          else if take 1 (skip_ws t) = ''}'' then Some (JObj [], tl (skip_ws t))
          else map_option (\<lambda>(ms, r). (JObj ms, r)) (parse_members n (d - 1) t)
        else if c = CHR ''['' then
          if d = 0 then None
          else if take 1 (skip_ws t) = '']'' then Some (JArr [], tl (skip_ws t))
          else map_option (\<lambda>(vs, r). (JArr vs, r)) (parse_elements n (d - 1) t)
        else if c = DQ then map_option (\<lambda>(x, r). (JStr x, r)) (unquote t)
        else if c = CHR ''n'' then map_option (Pair JNull) (strip_prefix ''ull'' t)
        else if c = CHR ''t'' then map_option (Pair (JBool True)) (strip_prefix ''rue'' t)
        else if c = CHR ''f'' then map_option (Pair (JBool False)) (strip_prefix ''alse'' t)
        else map_option (\<lambda>(x, r). (JNum x, r)) (number_lit (c # t)))"
| "parse_elements 0 d s = None"
| "parse_elements (Suc n) d s = (case parse_value n d s of
      None \<Rightarrow> None
    | Some (v, r) \<Rightarrow> (case skip_ws r of
        c # t \<Rightarrow> if c = CHR '','' then prepend [v] (parse_elements n d t)
                 else if c = CHR '']'' then Some ([v], t) else None
      | [] \<Rightarrow> None))"
| "parse_members 0 d s = None"
| "parse_members (Suc n) d s = (case strip_prefix [DQ] (skip_ws s) of
      None \<Rightarrow> None
    | Some t \<Rightarrow> (case unquote t of
        None \<Rightarrow> None
      | Some (k, u) \<Rightarrow> (case strip_prefix '':'' (skip_ws u) of
          None \<Rightarrow> None
        | Some w \<Rightarrow> (case parse_value n d w of
            None \<Rightarrow> None
          | Some (v, r) \<Rightarrow> (case skip_ws r of
              c # x \<Rightarrow> if c = CHR '','' then prepend [(k, v)] (parse_members n d x)
                       else if c = CHR ''}'' then Some ([(k, v)], x) else None
            | [] \<Rightarrow> None)))))"

definition json_Unmarshal :: "string \<Rightarrow> json option" where
  "json_Unmarshal s = (case parse_value (Suc (length s)) 10000 s of
      Some (v, r) \<Rightarrow> if skip_ws r = [] then Some v else None
    | None \<Rightarrow> None)"

text \<open>The compact text \<^verbatim>\<open>json.Marshal\<close> writes for a value.\<close>

fun json_Marshal :: "json \<Rightarrow> string"
  and marshal_elements :: "json list \<Rightarrow> string"
  and marshal_members :: "(string \<times> json) list \<Rightarrow> string" where
  "json_Marshal JNull = ''null''"
| "json_Marshal (JBool b) = (if b then ''true'' else ''false'')"
| "json_Marshal (JNum t) = t"
| "json_Marshal (JStr s) = quote_string s"
| "json_Marshal (JArr vs) = ''['' @ marshal_elements vs @ '']''"
| "json_Marshal (JObj ms) = ''{'' @ marshal_members ms @ ''}''"
| "marshal_elements [] = []"
| "marshal_elements (v # vs) = json_Marshal v @ (if vs = [] then [] else '','' @ marshal_elements vs)"
| "marshal_members [] = []"
| "marshal_members ((k, v) # ms) =
     quote_string k @ '':'' @ json_Marshal v @ (if ms = [] then [] else '','' @ marshal_members ms)"

subsection \<open>Round trip\<close>

text \<open>Values that \<^verbatim>\<open>json.Marshal\<close> can be given without loss: text in UTF-8 and numbers as JSON writes them.\<close>

fun wf_json :: "json \<Rightarrow> bool"
  and wf_elements :: "json list \<Rightarrow> bool"
  and wf_members :: "(string \<times> json) list \<Rightarrow> bool" where
  "wf_json JNull = True"
| "wf_json (JBool b) = True"
| "wf_json (JNum t) = (number_lit t = Some (t, []))"
| "wf_json (JStr s) = valid_utf8 s"
| "wf_json (JArr vs) = wf_elements vs"
| "wf_json (JObj ms) = wf_members ms"
| "wf_elements [] = True"
| "wf_elements (v # vs) = (wf_json v \<and> wf_elements vs)"
| "wf_members [] = True"
| "wf_members ((k, v) # ms) = (valid_utf8 k \<and> wf_json v \<and> wf_members ms)"

fun depth :: "json \<Rightarrow> nat"
  and depth_elements :: "json list \<Rightarrow> nat"
  and depth_members :: "(string \<times> json) list \<Rightarrow> nat" where
  "depth JNull = 0"
| "depth (JBool b) = 0"
| "depth (JNum t) = 0"
| "depth (JStr s) = 0"
| "depth (JArr vs) = Suc (depth_elements vs)"
| "depth (JObj ms) = Suc (depth_members ms)"
| "depth_elements [] = 0"
| "depth_elements (v # vs) = max (depth v) (depth_elements vs)"
| "depth_members [] = 0"
| "depth_members ((k, v) # ms) = max (depth v) (depth_members ms)"

definition delim :: "string \<Rightarrow> bool" where
  "delim r \<longleftrightarrow> r = [] \<or> hd r \<in> {CHR '','', CHR '']'', CHR ''}''}"

lemma delim_simps [simp]: "delim []" "delim (CHR '','' # r)" "delim (CHR '']'' # r)" "delim (CHR ''}'' # r)"
  by (simp_all add: delim_def)

lemma delim_cases: "delim r \<Longrightarrow> r = [] \<or> (\<exists>t. r = CHR '','' # t) \<or> (\<exists>t. r = CHR '']'' # t) \<or> (\<exists>t. r = CHR ''}'' # t)"
  by (cases r) (auto simp: delim_def)

lemma delim_no_digit: "delim r \<Longrightarrow> takeWhile is_digit r = [] \<and> dropWhile is_digit r = r"
  using delim_cases [of r] by (auto simp: is_digit_def)

lemma digits1_append:
  assumes "digits1 s = Some (a, b)" and "delim r"
  shows "digits1 (s @ r) = Some (a, b @ r)"
proof (cases "\<forall>c \<in> set s. is_digit c")
  case True
  then have all: "takeWhile is_digit s = s" "dropWhile is_digit s = []" by simp_all
  have "s \<noteq> [] \<and> a = s \<and> b = []" using assms(1) by (auto simp: digits1_def all split: if_splits)
  with True all delim_no_digit [OF assms(2)] show ?thesis
    by (simp add: digits1_def takeWhile_append dropWhile_append)
qed (use assms in \<open>auto simp: digits1_def takeWhile_append dropWhile_append split: if_splits\<close>)

lemma number_int_append: "number_int s = Some (a, b) \<Longrightarrow> delim r \<Longrightarrow> number_int (s @ r) = Some (a, b @ r)"
  by (cases s) (auto simp: number_int_def digits1_append [of "_ # _", simplified] split: if_splits)

lemma prepend_eq_Some [simp]: "prepend xs m = Some (ys, b) \<longleftrightarrow> (\<exists>zs. m = Some (zs, b) \<and> ys = xs @ zs)"
  by (cases m) (auto simp: prepend_def)

lemma number_frac_append: "number_frac s = Some (a, b) \<Longrightarrow> delim r \<Longrightarrow> number_frac (s @ r) = Some (a, b @ r)"
  using delim_cases [of r]
  by (cases s) (auto simp: number_frac_def digits1_append split: if_splits)

lemma number_exp_append: "number_exp s = Some (a, b) \<Longrightarrow> delim r \<Longrightarrow> number_exp (s @ r) = Some (a, b @ r)"
  using delim_cases [of r]
  by (cases s) (auto simp: number_exp_def digits1_append digits1_append [of "_ # _", simplified] split: if_splits list.splits)

lemma number_abs_append: "number_abs s = Some (a, b) \<Longrightarrow> delim r \<Longrightarrow> number_abs (s @ r) = Some (a, b @ r)"
  by (auto simp: number_abs_def number_int_append number_frac_append number_exp_append split: option.splits prod.splits)

lemma number_lit_append: "number_lit s = Some (a, b) \<Longrightarrow> delim r \<Longrightarrow> number_lit (s @ r) = Some (a, b @ r)"
  by (cases s) (auto simp: number_lit_def number_abs_append number_abs_append [of "_ # _", simplified] split: if_splits)

lemma number_lit_hd: "number_lit s = Some (a, b) \<Longrightarrow> \<exists>c t. s = c # t \<and> (c = CHR ''-'' \<or> is_digit c)"
  by (cases s)
     (auto simp: number_lit_def number_abs_def number_int_def digits1_def is_digit_def split: if_splits option.splits)

definition value_start :: "string \<Rightarrow> bool" where
  "value_start s \<longleftrightarrow> s \<noteq> [] \<and> \<not> is_ws (hd s) \<and> hd s \<notin> {CHR '']'', CHR ''}''}"

lemma value_start_append [simp]: "value_start s \<Longrightarrow> value_start (s @ r)"
  by (cases s) (simp_all add: value_start_def)

lemma value_start_json: "wf_json v \<Longrightarrow> value_start (json_Marshal v)"
proof (cases v)
  case (JNum t)
  assume "wf_json v"
  with JNum number_lit_hd [of t t "[]"] show ?thesis
    by (auto simp: value_start_def is_ws_def is_digit_def)
qed (auto simp: value_start_def quote_string_def is_ws_def)

lemma is_ws_simps [simp]: "\<not> is_ws CHR '',''" "\<not> is_ws CHR '']''" "\<not> is_ws CHR ''}''" "\<not> is_ws CHR '':''" "\<not> is_ws DQ"
  "\<not> is_ws CHR ''[''" "\<not> is_ws CHR ''{''" "\<not> is_ws CHR ''n''" "\<not> is_ws CHR ''t''" "\<not> is_ws CHR ''f''"
  by (simp_all add: is_ws_def)

lemma parse_number:
  assumes "number_lit t = Some (t, [])" and "delim r"
  shows "parse_value (Suc n) d (t @ r) = Some (JNum t, r)"
proof -
  from number_lit_hd [OF assms(1)] obtain c u where t: "t = c # u" and c: "c = CHR ''-'' \<or> is_digit c" by blast
  then have "\<not> is_ws c" "c \<notin> {CHR ''{'', CHR ''['', DQ, CHR ''n'', CHR ''t'', CHR ''f''}"
    by (auto simp: is_ws_def is_digit_def)
  with t number_lit_append [OF assms] show ?thesis by simp
qed

lemma parse_string: "valid_utf8 s \<Longrightarrow> parse_value (Suc n) d (quote_string s @ r) = Some (JStr s, r)"
  by (simp add: quote_string_def unquote_escape)

lemma parse_Marshal:
  "wf_json v \<Longrightarrow> depth v \<le> d \<Longrightarrow> length (json_Marshal v) \<le> n \<Longrightarrow> delim r \<Longrightarrow>
     parse_value n d (json_Marshal v @ r) = Some (v, r)"
  "vs \<noteq> [] \<Longrightarrow> wf_elements vs \<Longrightarrow> depth_elements vs \<le> d \<Longrightarrow> length (marshal_elements vs) < n \<Longrightarrow>
     parse_elements n d (marshal_elements vs @ CHR '']'' # r) = Some (vs, r)"
  "ms \<noteq> [] \<Longrightarrow> wf_members ms \<Longrightarrow> depth_members ms \<le> d \<Longrightarrow> length (marshal_members ms) < n \<Longrightarrow>
     parse_members n d (marshal_members ms @ CHR ''}'' # r) = Some (ms, r)"
proof (induction v and vs and ms arbitrary: n d r and n d r and n d r rule: json_Marshal_marshal_elements_marshal_members.induct)
  case 1
  then show ?case by (cases n) (simp_all add: strip_prefix_def)
next
  case (2 b)
  then show ?case by (cases n; cases b) (simp_all add: strip_prefix_def)
next
  case (3 t)
  then have "t \<noteq> []" using number_lit_hd [of t t "[]"] by auto
  with 3 show ?case by (cases n) (simp_all del: parse_value.simps add: parse_number)
next
  case (4 s)
  then show ?case by (cases n) (simp_all del: parse_value.simps add: parse_string, simp add: quote_string_def)
next
  case (5 vs)
  from 5(4) obtain m where n: "n = Suc m" by (cases n) auto
  show ?case
  proof (cases vs)
    case (Cons w ws)
    then have "value_start (marshal_elements vs)" using 5(2) value_start_json [of w] by simp
    then obtain c u where "marshal_elements vs = c # u" "\<not> is_ws c" "c \<noteq> CHR '']''"
      by (cases "marshal_elements vs") (auto simp: value_start_def)
    moreover have "parse_elements m (d - 1) (marshal_elements vs @ CHR '']'' # r) = Some (vs, r)"
      using 5(1) [of "d - 1" m r] 5(2-4) n Cons by (intro 5(1)) auto
    ultimately show ?thesis using 5(3) n by simp
  qed (use 5 n in simp)
next
  case (6 ms)
  from 6(4) obtain m where n: "n = Suc m" by (cases n) auto
  show ?case
  proof (cases ms)
    case (Cons w ws)
    then obtain k v where w: "w = (k, v)" by (cases w)
    have "skip_ws (marshal_members ms @ x) = marshal_members ms @ x" "take 1 (marshal_members ms @ x) \<noteq> ''}''" for x
      by (simp_all add: Cons w quote_string_def)
    with 6 n Cons show ?thesis by simp
  qed (use 6 n in simp)
next
  case (8 v vs)
  from 8(6) obtain m where n: "n = Suc m" by (cases n) auto
  have "parse_value m d (json_Marshal v @ t) = Some (v, t)" if "delim t" for t
    using 8(1) [of d m t] 8(4-6) n that by (simp split: if_splits)
  with 8 n show ?case by (cases "vs = []") simp_all
next
  case (10 k v ms)
  from 10(6) obtain m where n: "n = Suc m" by (cases n) auto
  have "parse_value m d (json_Marshal v @ t) = Some (v, t)" if "delim t" for t
    using 10(1) [of d m t] 10(4-6) n that by (simp split: if_splits)
  with 10 n show ?case
    by (cases "ms = []") (simp_all add: quote_string_def strip_prefix_def unquote_escape)
qed simp_all

theorem json_roundtrip:
  assumes "wf_json v" and "depth v \<le> 10000"
  shows "json_Unmarshal (json_Marshal v) = Some v"
  using parse_Marshal(1) [of v 10000 "Suc (length (json_Marshal v))" "[]"] assms
  by (simp add: json_Unmarshal_def del: parse_value.simps)

section \<open>The fuel is enough\<close>

text \<open>Every successful parse consumes text, and a fuel of the number of bytes it consumes gives the same result.\<close>

lemma prepend_eq: "prepend xs r = Some (zs, b) \<longleftrightarrow> (\<exists>ys. r = Some (ys, b) \<and> zs = xs @ ys)"
  by (cases r) (auto simp: prepend_def)

lemma unquote_length: "unquote s = Some (x, r) \<Longrightarrow> length r < length s"
proof (induction s arbitrary: x rule: measure_induct_rule [of length])
  case (less s)
  have rest: "length r < length s" if "length v < length s" "unquote v = Some (zs, r)" for v zs
    using less.IH [OF that] that by simp
  show ?case
  proof (cases s)
    case (Cons c t)
    have u: "(if c = DQ then Some ([], t) else if byte_in 0 0x1F c then None
      else if c = BS then (case t of [] \<Rightarrow> None | e # u \<Rightarrow>
        if e = CHR ''u'' then (case unicode_escape u of None \<Rightarrow> None | Some (x, v) \<Rightarrow> prepend x (unquote v))
        else (case simple_escape e of None \<Rightarrow> None | Some x \<Rightarrow> prepend [x] (unquote u)))
      else case rune_len (c # t) of None \<Rightarrow> prepend RuneError (unquote t) | Some n \<Rightarrow> prepend (take n (c # t)) (unquote (drop n (c # t)))) = Some (x, r)"
      using less.prems unfolding Cons by (subst (asm) unquote.simps) simp
    have short: "length t < length s" "\<And>e u. t = e # u \<Longrightarrow> length u < length s" "\<And>y v. unicode_escape (tl t) = Some (y, v) \<Longrightarrow> length v < length s"
      "\<And>n. rune_len (c # t) = Some n \<Longrightarrow> length (drop n (c # t)) < length s"
      using Cons rune_len_Cons by (fastforce dest: unicode_escape_length)+
    consider "c = DQ" | "c \<noteq> DQ" "c = BS" | "c \<noteq> DQ" "c \<noteq> BS" by blast
    then show ?thesis
    proof cases
      case 2
      then show ?thesis using u short(2,3) rest by (auto simp: prepend_eq split: list.splits if_splits option.splits)
    next
      case 3
      then show ?thesis using u short(1,4) rest by (auto simp: prepend_eq simp del: length_drop split: if_splits option.splits)
    qed (use u short(1) in simp)
  qed (use less.prems in \<open>simp add: unquote.simps [of "[]"]\<close>)
qed

lemma number_consumes:
  "digits1 s = Some (x, r) \<Longrightarrow> s = x @ r \<and> x \<noteq> []" "number_int s = Some (x, r) \<Longrightarrow> s = x @ r \<and> x \<noteq> []"
  "number_frac s = Some (x, r) \<Longrightarrow> s = x @ r" "number_exp s = Some (x, r) \<Longrightarrow> s = x @ r"
proof -
  have d: "digits1 s = Some (x, r) \<Longrightarrow> s = x @ r \<and> x \<noteq> []" for s x r by (auto simp: digits1_def split: if_splits)
  then show "digits1 s = Some (x, r) \<Longrightarrow> s = x @ r \<and> x \<noteq> []" .
  show "number_int s = Some (x, r) \<Longrightarrow> s = x @ r \<and> x \<noteq> []" using d by (auto simp: number_int_def split: list.splits if_splits)
  show "number_frac s = Some (x, r) \<Longrightarrow> s = x @ r" using d by (fastforce simp: number_frac_def prepend_eq split: list.splits if_splits)
  show "number_exp s = Some (x, r) \<Longrightarrow> s = x @ r" using d by (fastforce simp: number_exp_def prepend_eq split: list.splits if_splits)
qed

lemma number_lit_length: "number_lit s = Some (x, r) \<Longrightarrow> length r < length s"
proof -
  have a: "number_abs s = Some (x, r) \<Longrightarrow> length r < length s" for s x
    by (auto simp: number_abs_def prepend_eq split: option.splits dest!: number_consumes(2-4))
  assume n: "number_lit s = Some (x, r)"
  then obtain c t where s: "s = c # t" by (auto simp: number_lit_def split: list.splits)
  show ?thesis
  proof (cases "c = CHR ''-''")
    case True
    then obtain y where "number_abs t = Some (y, r)" using n s by (auto simp: number_lit_def prepend_eq)
    from a [OF this] show ?thesis by (simp add: s)
  next
    case False
    then show ?thesis using n a [of s x] by (simp add: s number_lit_def)
  qed
qed

lemma strip_prefix_length: "strip_prefix p s = Some r \<Longrightarrow> length s = length p + length r"
  by (auto simp: strip_prefix_def min_def split: if_splits dest!: arg_cong [of "take (length p) s" p length])

text \<open>What a parser with fuel \<open>n\<close> returns, it returns with any fuel that covers what it consumed.\<close>

definition consumes :: "(nat \<Rightarrow> ('a \<times> string) option) \<Rightarrow> nat \<Rightarrow> string \<Rightarrow> bool" where
  "consumes p n s \<longleftrightarrow> (\<forall>v r. p n = Some (v, r) \<longrightarrow> length r < length s \<and> (\<forall>m \<ge> length s - length r. p m = Some (v, r)))"

lemma consumesD:
  assumes "consumes p n s" and "p n = Some (v, r)"
  shows "length r < length s" and "length s - length r \<le> m \<Longrightarrow> p m = Some (v, r)"
  using assms unfolding consumes_def by blast+

lemma skip_ws_length: "length (skip_ws s) \<le> length s"
  by (simp add: length_dropWhile_le)

lemma Suc_le_obtain: "0 < k \<Longrightarrow> k \<le> m \<Longrightarrow> \<exists>m'. m = Suc m' \<and> k - 1 \<le> m'"
  by (cases m) auto

lemma value_fuel:
  assumes "\<And>c t. skip_ws s = c # t \<Longrightarrow> c = CHR ''{'' \<Longrightarrow> d \<noteq> 0 \<Longrightarrow> take 1 (skip_ws t) \<noteq> ''}'' \<Longrightarrow> consumes (\<lambda>n. parse_members n (d - 1) t) n t"
    and "\<And>c t. skip_ws s = c # t \<Longrightarrow> c = CHR ''['' \<Longrightarrow> d \<noteq> 0 \<Longrightarrow> take 1 (skip_ws t) \<noteq> '']'' \<Longrightarrow> consumes (\<lambda>n. parse_elements n (d - 1) t) n t"
  shows "consumes (\<lambda>n. parse_value n d s) (Suc n) s"
  unfolding consumes_def
proof (intro allI impI)
  fix v r
  assume p: "parse_value (Suc n) d s = Some (v, r)"
  then obtain c t where ct: "skip_ws s = c # t" by (auto split: list.splits)
  have len: "Suc (length t) \<le> length s" using skip_ws_length [of s] ct by simp
  consider (obj) ms where "c = CHR ''{''" "d \<noteq> 0" "take 1 (skip_ws t) \<noteq> ''}''" "parse_members n (d - 1) t = Some (ms, r)" "v = JObj ms"
    | (arr) vs where "c = CHR ''[''" "d \<noteq> 0" "take 1 (skip_ws t) \<noteq> '']''" "parse_elements n (d - 1) t = Some (vs, r)" "v = JArr vs"
    | (atom) "c = CHR ''{'' \<Longrightarrow> d \<noteq> 0 \<Longrightarrow> take 1 (skip_ws t) = ''}''" "c = CHR ''['' \<Longrightarrow> d \<noteq> 0 \<Longrightarrow> take 1 (skip_ws t) = '']''"
    using p ct by (auto split: if_splits)
  then show "length r < length s \<and> (\<forall>m \<ge> length s - length r. parse_value m d s = Some (v, r))"
  proof cases
    case obj
    have ih: "length r < length t" "\<And>m. length t - length r \<le> m \<Longrightarrow> parse_members m (d - 1) t = Some (ms, r)"
      by (rule consumesD [OF assms(1) [OF ct obj(1-3)] obj(4)]; assumption?)+
    show ?thesis
    proof (intro conjI allI impI)
      show "length r < length s" using ih(1) len by simp
      fix m
      assume "length s - length r \<le> m"
      then obtain k where k: "m = Suc k" "length t - length r \<le> k" using ih(1) len by (cases m) auto
      show "parse_value m d s = Some (v, r)" using ih(2) [OF k(2)] obj ct by (simp add: k(1))
    qed
  next
    case arr
    have ih: "length r < length t" "\<And>m. length t - length r \<le> m \<Longrightarrow> parse_elements m (d - 1) t = Some (vs, r)"
      by (rule consumesD [OF assms(2) [OF ct arr(1-3)] arr(4)]; assumption?)+
    show ?thesis
    proof (intro conjI allI impI)
      show "length r < length s" using ih(1) len by simp
      fix m
      assume "length s - length r \<le> m"
      then obtain k where k: "m = Suc k" "length t - length r \<le> k" using ih(1) len by (cases m) auto
      show "parse_value m d s = Some (v, r)" using ih(2) [OF k(2)] arr ct by (simp add: k(1))
    qed
  next
    case atom
    have same: "parse_value (Suc m) d s = parse_value (Suc n) d s" for m using atom ct by auto
    have r: "length r < length s" using p ct atom len skip_ws_length [of t] unquote_length [of t _ r] number_lit_length [of "c # t" _ r]
      by (auto split: if_splits dest!: strip_prefix_length)
    then show ?thesis using same p by (metis Suc_le_obtain zero_less_diff)
  qed
qed

lemma elements_fuel:
  assumes "consumes (\<lambda>n. parse_value n d s) n s"
    and "\<And>v r1 c t. parse_value n d s = Some (v, r1) \<Longrightarrow> skip_ws r1 = c # t \<Longrightarrow> c = CHR '','' \<Longrightarrow> consumes (\<lambda>n. parse_elements n d t) n t"
  shows "consumes (\<lambda>n. parse_elements n d s) (Suc n) s"
  unfolding consumes_def
proof (intro allI impI)
  fix vs r
  assume p: "parse_elements (Suc n) d s = Some (vs, r)"
  obtain v r1 where v1: "parse_value n d s = Some (v, r1)" using p by (auto split: option.splits)
  obtain c t where v2: "skip_ws r1 = c # t" using p v1 by (cases "skip_ws r1") auto
  note v = v1 v2
  have rest: "c = CHR '','' \<and> (\<exists>ws. parse_elements n d t = Some (ws, r) \<and> vs = v # ws) \<or> c \<noteq> CHR '','' \<and> c = CHR '']'' \<and> r = t \<and> vs = [v]"
    using p v by (simp add: prepend_eq split: if_splits)
  have v': "length r1 < length s" "\<And>m. length s - length r1 \<le> m \<Longrightarrow> parse_value m d s = Some (v, r1)"
    by (rule consumesD [OF assms(1) v(1)]; assumption?)+
  have t: "Suc (length t) \<le> length r1" using skip_ws_length [of r1] v(2) by simp
  have e: "length r \<le> length t \<and> (c = CHR '','' \<longrightarrow> (\<forall>m \<ge> length t - length r. \<exists>ws. parse_elements m d t = Some (ws, r) \<and> vs = v # ws))"
    using rest consumesD [OF assms(2) [OF v]] less_imp_le by blast
  show "length r < length s \<and> (\<forall>m \<ge> length s - length r. parse_elements m d s = Some (vs, r))"
  proof (intro conjI allI impI)
    show "length r < length s" using e t v'(1) by simp
    fix m
    assume "length s - length r \<le> m"
    with e t v'(1) have "0 < m" "length s - length r1 \<le> m - 1" "length t - length r \<le> m - 1" by auto
    then obtain k where k: "m = Suc k" "length s - length r1 \<le> k" "length t - length r \<le> k" by (cases m) auto
    show "parse_elements m d s = Some (vs, r)" using v'(2) [OF k(2)] v(2) e k(3) rest by (auto simp: k(1))
  qed
qed

lemma members_fuel:
  assumes "\<And>t k u w. strip_prefix [DQ] (skip_ws s) = Some t \<Longrightarrow> unquote t = Some (k, u) \<Longrightarrow> strip_prefix '':'' (skip_ws u) = Some w \<Longrightarrow>
      consumes (\<lambda>n. parse_value n d w) n w"
    and "\<And>t k u w v r1 c x. strip_prefix [DQ] (skip_ws s) = Some t \<Longrightarrow> unquote t = Some (k, u) \<Longrightarrow> strip_prefix '':'' (skip_ws u) = Some w \<Longrightarrow>
      parse_value n d w = Some (v, r1) \<Longrightarrow> skip_ws r1 = c # x \<Longrightarrow> c = CHR '','' \<Longrightarrow> consumes (\<lambda>n. parse_members n d x) n x"
  shows "consumes (\<lambda>n. parse_members n d s) (Suc n) s"
  unfolding consumes_def
proof (intro allI impI)
  fix ms r
  assume p: "parse_members (Suc n) d s = Some (ms, r)"
  obtain t where q1: "strip_prefix [DQ] (skip_ws s) = Some t" using p by (cases "strip_prefix [DQ] (skip_ws s)") auto
  obtain k u where q2: "unquote t = Some (k, u)" using p q1 by (cases "unquote t") auto
  obtain w where q3: "strip_prefix '':'' (skip_ws u) = Some w" using p q1 q2 by (cases "strip_prefix '':'' (skip_ws u)") auto
  obtain v r1 where q4: "parse_value n d w = Some (v, r1)" using p q1 q2 q3 by (cases "parse_value n d w") auto
  obtain c x where q5: "skip_ws r1 = c # x" using p q1 q2 q3 q4 by (cases "skip_ws r1") auto
  note q = q1 q2 q3 q4 q5
  have rest: "c = CHR '','' \<and> (\<exists>ws. parse_members n d x = Some (ws, r) \<and> ms = (k, v) # ws) \<or> c \<noteq> CHR '','' \<and> c = CHR ''}'' \<and> r = x \<and> ms = [(k, v)]"
    using p q by (simp add: prepend_eq split: if_splits)
  have w: "length w < length s"
    using strip_prefix_length [OF q(1)] strip_prefix_length [OF q(3)] unquote_length [OF q(2)] skip_ws_length [of s] skip_ws_length [of u] by simp
  have v': "length r1 < length w" "\<And>m. length w - length r1 \<le> m \<Longrightarrow> parse_value m d w = Some (v, r1)"
    by (rule consumesD [OF assms(1) [OF q(1-3)] q(4)]; assumption?)+
  have x: "Suc (length x) \<le> length r1" using skip_ws_length [of r1] q(5) by simp
  have e: "length r \<le> length x \<and> (c = CHR '','' \<longrightarrow> (\<forall>m \<ge> length x - length r. \<exists>ws. parse_members m d x = Some (ws, r) \<and> ms = (k, v) # ws))"
    using rest consumesD [OF assms(2) [OF q]] less_imp_le by blast
  show "length r < length s \<and> (\<forall>m \<ge> length s - length r. parse_members m d s = Some (ms, r))"
  proof (intro conjI allI impI)
    show "length r < length s" using e x v'(1) w by simp
    fix m
    assume "length s - length r \<le> m"
    with e x v'(1) w have "0 < m" "length w - length r1 \<le> m - 1" "length x - length r \<le> m - 1" by auto
    then obtain j where j: "m = Suc j" "length w - length r1 \<le> j" "length x - length r \<le> j" by (cases m) auto
    show "parse_members m d s = Some (ms, r)" using v'(2) [OF j(2)] q e j(3) rest by (auto simp: j(1))
  qed
qed

lemma fuel_enough:
  "consumes (\<lambda>n. parse_value n d s) n s" "consumes (\<lambda>n. parse_elements n d s) n s" "consumes (\<lambda>n. parse_members n d s) n s"
proof (induction n d s and n d s and n d s rule: parse_value_parse_elements_parse_members.induct)
  case (2 n d s)
  show ?case by (rule value_fuel) (use 2 in auto)
next
  case (4 n d s)
  show ?case by (rule elements_fuel) (use 4 in auto)
next
  case (6 n d s)
  show ?case by (rule members_fuel) (use 6 in auto)
qed (simp_all add: consumes_def)

text \<open>So the fuel of \<^verbatim>\<open>json_Unmarshal\<close> never decides: more of it gives the same answer.\<close>

lemma parse_value_fuel: "length s \<le> n \<Longrightarrow> parse_value n d s = parse_value (Suc (length s)) d s"
proof -
  assume n: "length s \<le> n"
  have more: "parse_value m d s = Some x" if "parse_value k d s = Some x" "length s \<le> m" for k m x
    using consumesD(2) [OF fuel_enough(1) [of d s k], of "fst x" "snd x" m] that by simp
  show ?thesis
  proof (cases "parse_value n d s")
    case None
    then show ?thesis using more [of "Suc (length s)" _ n] n by (cases "parse_value (Suc (length s)) d s") auto
  next
    case (Some x)
    then show ?thesis using more [OF Some, of "Suc (length s)"] by simp
  qed
qed

section \<open>Decoding into Go values\<close>

text \<open>
  A struct field is found by its exact name or, failing that, by its name up to case (\<^verbatim>\<open>appendFoldedName\<close>: the
  long s and the Kelvin sign fold to ASCII letters as well).
\<close>

fun fold_name :: "string \<Rightarrow> string" where
  "fold_name [] = []"
| "fold_name (c # s) =
     (if byte_in 97 122 c then char_of (of_char c - 32 :: nat) # fold_name s
      else if c = CHR 0xC5 \<and> take 1 s = [CHR 0xBF] then CHR ''S'' # fold_name (drop 1 s)
      else if c = CHR 0xE2 \<and> take 2 s = [CHR 0x84, CHR 0xAA] then CHR ''K'' # fold_name (drop 2 s)
      else c # fold_name s)"

definition struct_field :: "string list \<Rightarrow> string \<Rightarrow> string option" where
  "struct_field names k = (if k \<in> set names then Some k else find (\<lambda>f. fold_name f = fold_name k) names)"

text \<open>Decoding an object into a \<^verbatim>\<open>map[string]json.RawMessage\<close>: the last of several members with the same key counts.\<close>

definition json_map :: "(string \<times> json) list \<Rightarrow> string \<Rightarrow> json option" where
  "json_map ms k = map_of (rev ms) k"

text \<open>Decoding into a scalar: \<^verbatim>\<open>null\<close> leaves the variable as it was.\<close>

definition decode_string :: "string \<Rightarrow> json \<Rightarrow> string option" where
  "decode_string old v = (case v of JStr s \<Rightarrow> Some s | JNull \<Rightarrow> Some old | _ \<Rightarrow> None)"

definition decode_bool :: "bool \<Rightarrow> json \<Rightarrow> bool option" where
  "decode_bool old v = (case v of JBool b \<Rightarrow> Some b | JNull \<Rightarrow> Some old | _ \<Rightarrow> None)"

text \<open>\<^verbatim>\<open>strconv.ParseInt\<close> of the literal: a fraction or an exponent is refused, and so is what a 64-bit integer cannot hold.\<close>

definition decode_int :: "int \<Rightarrow> json \<Rightarrow> int option" where
  "decode_int old v = (case v of JNum t \<Rightarrow> Atoi t | JNull \<Rightarrow> Some old | _ \<Rightarrow> None)"

end
