(* ===== verification/Cert_Transaction.thy ===== *)
theory Cert_Transaction
  imports Cert_Paths GoJson
begin

text \<open>
  \<^verbatim>\<open>internal/server/cert.go\<close> and \<^verbatim>\<open>cert_transaction.go\<close>: creating, checking and replacing the daemon's TLS pair. The
  two files are exchanged by a sequence of renames described by a journal, so that a start after a crash
  finds the old or the new pair. Cryptography is the parameter \<open>pki\<close>: what \<^verbatim>\<open>crypto/tls\<close>, \<^verbatim>\<open>crypto/x509\<close>,
  \<^verbatim>\<open>crypto/ecdsa\<close> and \<^verbatim>\<open>encoding/pem\<close> return for given bytes and random draws.
\<close>

section \<open>Certificates\<close>

datatype ext_usage = ExtKeyUsageAny | ExtKeyUsageServerAuth | ExtKeyUsageOther nat

datatype private_key = EcdsaP256 string | EcdsaOther string | NotEcdsa string

record x509cert =
  c_NotBefore :: time
  c_NotAfter :: time
  c_KeyUsage :: "16 word"
  c_ExtKeyUsage :: "ext_usage list"
  c_Raw :: string

record keypair =
  kp_Certificate :: "string list"
  kp_PrivateKey :: private_key

record x509template =
  t_SerialNumber :: nat
  t_CommonName :: string
  t_NotBefore :: time
  t_NotAfter :: time
  t_KeyUsage :: "16 word"
  t_ExtKeyUsage :: "ext_usage list"
  t_BasicConstraintsValid :: bool
  t_IPAddresses :: "ip_addr list"
  t_DNSNames :: "string list"

record pki =
  X509KeyPair :: "string \<Rightarrow> string \<Rightarrow> keypair result"
  ParseCertificate :: "string \<Rightarrow> x509cert result"
  VerifyHostname :: "x509cert \<Rightarrow> string \<Rightarrow> unit result"
  GenerateKey :: "nat \<Rightarrow> string result"
  rand_Int :: "nat \<Rightarrow> nat result"
  AddDate :: "time \<Rightarrow> nat \<Rightarrow> time"
  CreateCertificate :: "x509template \<Rightarrow> string \<Rightarrow> string result"
  MarshalPKCS8PrivateKey :: "string \<Rightarrow> string result"
  pem_Encode :: "string \<Rightarrow> string \<Rightarrow> string"
  sha256_hex :: "string \<Rightarrow> string"

record Certificate =
  ct_CertFile :: string
  ct_KeyFile :: string
  ct_SHA256 :: string

record certificateOperationHooks =
  h_afterInitialValidation :: "unit result go option"
  h_beforeRename :: "(string \<Rightarrow> unit result) option"
  h_journalSync :: "(string \<Rightarrow> unit result go) option"

definition no_hooks :: certificateOperationHooks where
  "no_hooks = \<lparr>h_afterInitialValidation = None, h_beforeRename = None, h_journalSync = None\<rparr>"

abbreviation (input) "KeyUsageDigitalSignature \<equiv> (1 :: 16 word)"

fun hasServerAuth :: "ext_usage list \<Rightarrow> bool" where
  "hasServerAuth [] = False"
| "hasServerAuth (u # us) = (if u = ExtKeyUsageServerAuth \<or> u = ExtKeyUsageAny then True else hasServerAuth us)"

definition certificateNames :: "string list \<Rightarrow> string list" where
  "certificateNames names =
     sort (remdups ([''localhost'', ''127.0.0.1'', '':'' @ '':'' @ ''1''] @ filter (\<lambda>n. n \<noteq> []) (map TrimSpace names)))"

text \<open>A draw from \<^verbatim>\<open>rand.Reader\<close>: the number of the draw stands for the bytes read.\<close>

definition draw :: "nat go" where
  "draw = State (\<lambda>s. (os_draws s, s\<lparr>os_draws := Suc (os_draws s)\<rparr>))"

text \<open>The loop that draws a serial number until it is not zero. It is cut off after a thousand zeros of 128 bits in a row.\<close>

fun serial_loop :: "pki \<Rightarrow> nat \<Rightarrow> nat result go" where
  "serial_loop P 0 = ret (Inl (Msg ''generate TLS serial''))"
| "serial_loop P (Suc k) = do {
     i \<leftarrow> draw;
     case rand_Int P i of
       Inl e \<Rightarrow> ret (Inl (Joined [Msg ''generate TLS serial'', e]))
     | Inr n \<Rightarrow> if n = 0 then serial_loop P k else ret (Inr n) }"

definition certificate_template :: "pki \<Rightarrow> time \<Rightarrow> nat \<Rightarrow> string list \<Rightarrow> x509template" where
  "certificate_template P now serial names =
     (let all = certificateNames names
      in \<lparr>t_SerialNumber = serial, t_CommonName = ''wattline'', t_NotBefore = now - hour, t_NotAfter = AddDate P now 10,
          t_KeyUsage = KeyUsageDigitalSignature, t_ExtKeyUsage = [ExtKeyUsageServerAuth], t_BasicConstraintsValid = True,
          t_IPAddresses = List.map_filter ParseIP all, t_DNSNames = filter (\<lambda>n. ParseIP n = None) all\<rparr>)"

definition generateCertificate :: "pki \<Rightarrow> string list \<Rightarrow> (string \<times> string \<times> string) result go" where
  "generateCertificate P names = do {
     i \<leftarrow> draw;
     check (ret (GenerateKey P i)) (\<lambda>key.
     check (serial_loop P 1000) (\<lambda>serial. do {
       s \<leftarrow> State_Monad.get;
       check (ret (CreateCertificate P (certificate_template P (os_now s) serial names) key)) (\<lambda>der.
       check (ret (MarshalPKCS8PrivateKey P key)) (\<lambda>encodedKey.
       ret (Inr (pem_Encode P ''CERTIFICATE'' der, pem_Encode P ''PRIVATE KEY'' encodedKey, sha256_hex P der)))) })) }"

text \<open>What \<^verbatim>\<open>loadCertificate\<close> decides once it has read both files.\<close>

definition judge_pair :: "pki \<Rightarrow> time \<Rightarrow> string list \<Rightarrow> string \<Rightarrow> string \<Rightarrow> string result" where
  "judge_pair P now names certPEM keyPEM = (case X509KeyPair P certPEM keyPEM of
      Inl e \<Rightarrow> Inl (Joined [Msg ''load TLS certificate pair'', e])
    | Inr pair \<Rightarrow> (case kp_Certificate pair of
        [] \<Rightarrow> Inl (Msg ''TLS certificate chain is empty'')
      | raw # _ \<Rightarrow> (case ParseCertificate P raw of
          Inl e \<Rightarrow> Inl (Joined [Msg ''parse TLS certificate'', e])
        | Inr leaf \<Rightarrow> (case kp_PrivateKey pair of
            EcdsaP256 _ \<Rightarrow>
              if now < c_NotBefore leaf \<or> \<not> now < c_NotAfter leaf then Inl (Msg ''TLS certificate is not currently valid'')
              else if and (c_KeyUsage leaf) KeyUsageDigitalSignature = 0 \<or> \<not> hasServerAuth (c_ExtKeyUsage leaf)
              then Inl (Msg ''TLS certificate is not valid for server authentication'')
              else if list_all (\<lambda>name. VerifyHostname P leaf name = Inr ()) (certificateNames names)
              then Inr (sha256_hex P (c_Raw leaf))
              else Inl (Msg ''TLS certificate does not cover a name'')
          | _ \<Rightarrow> Inl (Msg ''TLS private key must be ECDSA P-256'')))))"

definition loadCertificate :: "pki \<Rightarrow> string \<Rightarrow> string \<Rightarrow> string list \<Rightarrow> Certificate result go" where
  "loadCertificate P certFile keyFile names = check (os_err (Lstat keyFile)) (\<lambda>keyInfo.
     if and (n_perm keyInfo) 0x3F \<noteq> 0 then ret (Inl (Msg ''TLS private key permissions are too broad''))
     else check (os_err (ReadFile certFile)) (\<lambda>certPEM.
          check (os_err (ReadFile keyFile)) (\<lambda>keyPEM. do {
            s \<leftarrow> State_Monad.get;
            ret (map_sum id (\<lambda>fp. \<lparr>ct_CertFile = certFile, ct_KeyFile = keyFile, ct_SHA256 = fp\<rparr>)
              (judge_pair P (os_now s) names certPEM keyPEM)) })))"

definition pairFilesUsable :: "pki \<Rightarrow> string \<Rightarrow> string \<Rightarrow> bool go" where
  "pairFilesUsable P certFile keyFile = do {
     r \<leftarrow> loadCertificate P certFile keyFile [];
     ret (case r of Inr _ \<Rightarrow> True | Inl _ \<Rightarrow> False) }"

definition regularFileState :: "string \<Rightarrow> bool result go" where
  "regularFileState path = do {
     info \<leftarrow> Lstat path;
     case info of
       Inl e \<Rightarrow> if is_not_exist e then ret (Inr False) else ret (Inl (Os e))
     | Inr n \<Rightarrow> if n_kind n \<noteq> Regular then ret (Inl (Msg ''TLS path is not a regular file'')) else ret (Inr True) }"

section \<open>Files of a transaction\<close>

record certificateTransaction =
  tx_CertFile :: string
  tx_KeyFile :: string
  tx_CertTemp :: string
  tx_KeyTemp :: string
  tx_CertBackup :: string
  tx_KeyBackup :: string

definition zero_tx :: certificateTransaction where
  "zero_tx = \<lparr>tx_CertFile = [], tx_KeyFile = [], tx_CertTemp = [], tx_KeyTemp = [], tx_CertBackup = [], tx_KeyBackup = []\<rparr>"

definition omit_empty :: "string \<Rightarrow> string \<Rightarrow> (string \<times> json) list" where
  "omit_empty name v = (if v = [] then [] else [(name, JStr v)])"

definition tx_json :: "certificateTransaction \<Rightarrow> json" where
  "tx_json tx = JObj ([(''cert_file'', JStr (tx_CertFile tx)), (''key_file'', JStr (tx_KeyFile tx)),
     (''cert_temp'', JStr (tx_CertTemp tx)), (''key_temp'', JStr (tx_KeyTemp tx))] @
     omit_empty ''cert_backup'' (tx_CertBackup tx) @ omit_empty ''key_backup'' (tx_KeyBackup tx))"

text \<open>Setting one field from a member of the journal's object; a member that is neither a string nor \<^verbatim>\<open>null\<close> is an error.\<close>

definition tx_fields :: "string list" where
  "tx_fields = [''cert_file'', ''key_file'', ''cert_temp'', ''key_temp'', ''cert_backup'', ''key_backup'']"

definition set_tx_field :: "string \<Rightarrow> string \<Rightarrow> certificateTransaction \<Rightarrow> certificateTransaction" where
  "set_tx_field f v tx =
     (if f = ''cert_file'' then tx\<lparr>tx_CertFile := v\<rparr>
      else if f = ''key_file'' then tx\<lparr>tx_KeyFile := v\<rparr>
      else if f = ''cert_temp'' then tx\<lparr>tx_CertTemp := v\<rparr>
      else if f = ''key_temp'' then tx\<lparr>tx_KeyTemp := v\<rparr>
      else if f = ''cert_backup'' then tx\<lparr>tx_CertBackup := v\<rparr>
      else tx\<lparr>tx_KeyBackup := v\<rparr>)"

fun decode_members :: "(string \<times> json) list \<Rightarrow> certificateTransaction \<Rightarrow> certificateTransaction option" where
  "decode_members [] tx = Some tx"
| "decode_members ((k, v) # ms) tx = (case struct_field tx_fields k of
      None \<Rightarrow> decode_members ms tx
    | Some f \<Rightarrow> (case v of
        JStr s \<Rightarrow> decode_members ms (set_tx_field f s tx)
      | JNull \<Rightarrow> decode_members ms tx
      | _ \<Rightarrow> None))"

definition decode_tx :: "string \<Rightarrow> certificateTransaction option" where
  "decode_tx raw = (case json_Unmarshal raw of
      None \<Rightarrow> None
    | Some (JObj ms) \<Rightarrow> decode_members ms zero_tx
    | Some JNull \<Rightarrow> Some zero_tx
    | Some _ \<Rightarrow> None)"

definition removeIfExists :: "string \<Rightarrow> unit result go" where
  "removeIfExists path =
     (if path = [] then ret (Inr ())
      else do {
        e \<leftarrow> Remove path;
        case e of
          Inl e \<Rightarrow> if is_not_exist e then ret (Inr ()) else ret (Inl (Os e))
        | Inr _ \<Rightarrow> syncDirectory (Dir path) })"

definition removeAndSync :: "string \<Rightarrow> unit result go" where
  "removeAndSync path = removeIfExists path"

fun sync_dirs :: "string list \<Rightarrow> string list \<Rightarrow> unit result go" where
  "sync_dirs [] seen = ret (Inr ())"
| "sync_dirs (path # ps) seen =
     (if path = [] then sync_dirs ps seen
      else if Dir path \<in> set seen then sync_dirs ps seen
      else check (syncDirectory (Dir path)) (\<lambda>_. sync_dirs ps (Dir path # seen)))"

definition syncRelevantDirs :: "string list \<Rightarrow> unit result go" where
  "syncRelevantDirs paths = sync_dirs paths []"

text \<open>\<^verbatim>\<open>cleanupOnPrepareError\<close>: every path is removed, whatever happens to the others.\<close>

fun remove_all :: "string list \<Rightarrow> gerr list \<Rightarrow> gerr list go" where
  "remove_all [] errs = ret errs"
| "remove_all (p # ps) errs = do { r \<leftarrow> removeIfExists p; remove_all ps (errs @ err_of r) }"

definition cleanupOnPrepareError :: "gerr \<Rightarrow> string list \<Rightarrow> 'a result go" where
  "cleanupOnPrepareError cause paths = do { errs \<leftarrow> remove_all paths [cause]; ret (Inl (Joined errs)) }"

definition sibling_pattern :: "string \<Rightarrow> string \<Rightarrow> string" where
  "sibling_pattern target kind = ''.'' @ Base target @ ''.'' @ kind @ ''-''"

definition reserveSibling :: "string \<Rightarrow> string \<Rightarrow> string result go" where
  "reserveSibling target kind = check (CreateTemp (Dir target) (sibling_pattern target kind)) (\<lambda>name. do {
     c \<leftarrow> os_err Close;
     case c of
       Inl e \<Rightarrow> do { r \<leftarrow> removeIfExists name; ret (Inl (Joined ([e] @ err_of r))) }
     | Inr _ \<Rightarrow>
         check (os_err (Remove name)) (\<lambda>_.
         check (syncDirectory (Dir target)) (\<lambda>_.
         ret (Inr name))) })"

definition stage_fail :: "string \<Rightarrow> gerr \<Rightarrow> string result go" where
  "stage_fail name cause = do {
     c \<leftarrow> os_err Close;
     r \<leftarrow> removeIfExists name;
     ret (Inl (Joined ([cause] @ err_of c @ err_of r))) }"

definition unstage :: "string \<Rightarrow> gerr \<Rightarrow> 'a result go" where
  "unstage name cause = do { r \<leftarrow> removeIfExists name; ret (Inl (Joined ([cause] @ err_of r))) }"

definition stageFile :: "string \<Rightarrow> string \<Rightarrow> 16 word \<Rightarrow> string result go" where
  "stageFile target contents mode = check (CreateTemp (Dir target) (sibling_pattern target ''tmp'')) (\<lambda>name. do {
     r \<leftarrow> os_err (Chmod name mode);
     case r of Inl e \<Rightarrow> stage_fail name e | Inr _ \<Rightarrow> do {
     r \<leftarrow> os_err (Write name contents);
     case r of Inl e \<Rightarrow> stage_fail name e | Inr _ \<Rightarrow> do {
     r \<leftarrow> os_err Sync;
     case r of Inl e \<Rightarrow> stage_fail name e | Inr _ \<Rightarrow> do {
     r \<leftarrow> os_err Close;
     case r of Inl e \<Rightarrow> unstage name e | Inr _ \<Rightarrow> do {
     r \<leftarrow> syncDirectory (Dir target);
     case r of Inl e \<Rightarrow> unstage name e | Inr _ \<Rightarrow> ret (Inr name) }}}}})"

text \<open>\<^verbatim>\<open>writeTransaction\<close> also tells whether the journal was installed.\<close>

definition journal_absent :: "string \<Rightarrow> string \<Rightarrow> unit result go" where
  "journal_absent path complaint = do {
     l \<leftarrow> Lstat path;
     ret (case l of Inr _ \<Rightarrow> Inl (Msg complaint) | Inl e \<Rightarrow> if is_not_exist e then Inr () else Inl (Os e)) }"

definition writeTransaction :: "certificateTransaction \<Rightarrow> (string \<Rightarrow> unit result go) option \<Rightarrow> (bool \<times> unit result) go" where
  "writeTransaction tx journalSync =
     (let raw = json_Marshal (tx_json tx); path = transactionPath (tx_CertFile tx) in do {
       r \<leftarrow> journal_absent path ''TLS transaction journal already exists'';
       case r of Inl e \<Rightarrow> ret (False, Inl e) | Inr _ \<Rightarrow> do {
       t \<leftarrow> stageFile path raw 0x180;
       case t of Inl e \<Rightarrow> ret (False, Inl e) | Inr temp \<Rightarrow> do {
       r \<leftarrow> journal_absent path ''TLS transaction journal appeared concurrently'';
       case r of Inl e \<Rightarrow> do { u \<leftarrow> unstage temp e; ret (False, u) } | Inr _ \<Rightarrow> do {
       r \<leftarrow> os_err (Rename temp path);
       case r of Inl e \<Rightarrow> do { u \<leftarrow> unstage temp e; ret (False, u) } | Inr _ \<Rightarrow> do {
       r \<leftarrow> (case journalSync of None \<Rightarrow> syncDirectory | Some f \<Rightarrow> f) (Dir path);
       ret (True, r) }}}}})"

definition finishTransaction :: "certificateTransaction \<Rightarrow> unit result go" where
  "finishTransaction tx =
     check (for_each removeIfExists [tx_CertTemp tx, tx_KeyTemp tx, tx_CertBackup tx, tx_KeyBackup tx]) (\<lambda>_.
     check (removeIfExists (transactionPath (tx_CertFile tx))) (\<lambda>_.
     syncRelevantDirs [tx_CertFile tx, tx_KeyFile tx, transactionPath (tx_CertFile tx)]))"

section \<open>Recovery\<close>

definition validate_aux :: "string \<times> string \<times> string \<times> bool \<Rightarrow> unit result go" where
  "validate_aux t = (case t of (path, target, kind, optional) \<Rightarrow>
     if path = [] \<and> optional then ret (Inr ())
     else if path = [] then ret (Inl (Msg ''TLS transaction is missing staged path''))
     else
       let prefix = ''.'' @ Base target @ ''.'' @ kind @ ''-''
       in if Dir path \<noteq> Dir target \<or> take (length prefix) (Base path) \<noteq> prefix
          then ret (Inl (Msg ''TLS transaction auxiliary path is outside its secure target directory''))
          else rejectSymlinkComponents path)"

definition validateTransactionPaths :: "certificateTransaction \<Rightarrow> unit result go" where
  "validateTransactionPaths tx = for_each validate_aux
     [(tx_CertTemp tx, tx_CertFile tx, ''tmp'', False),
      (tx_KeyTemp tx, tx_KeyFile tx, ''tmp'', False),
      (tx_CertBackup tx, tx_CertFile tx, ''backup'', True),
      (tx_KeyBackup tx, tx_KeyFile tx, ''backup'', True)]"

text \<open>The loop over all paths of the journal: clean, without repetition, and no two of them one file.\<close>

fun journal_paths :: "string list \<Rightarrow> string list \<Rightarrow> node list \<Rightarrow> unit result go" where
  "journal_paths [] seen existing = ret (Inr ())"
| "journal_paths (p # ps) seen existing =
     (if p = [] then journal_paths ps seen existing
      else if Clean p \<noteq> p then ret (Inl (Msg ''TLS transaction contains unclean path''))
      else if p \<in> set seen then ret (Inl (Msg ''TLS transaction paths alias''))
      else do {
        info \<leftarrow> Lstat p;
        case info of
          Inr n \<Rightarrow>
            if \<exists>prior \<in> set existing. n_ino prior = n_ino n then ret (Inl (Msg ''TLS transaction filesystem objects alias''))
            else journal_paths ps (p # seen) (existing @ [n])
        | Inl e \<Rightarrow> if is_not_exist e then journal_paths ps (p # seen) existing else ret (Inl (Os e)) })"

record candidate =
  cd_cert :: string
  cd_key :: string
  cd_installCert :: bool
  cd_installKey :: bool

definition candidates :: "certificateTransaction \<Rightarrow> candidate list" where
  "candidates tx =
     [\<lparr>cd_cert = tx_CertFile tx, cd_key = tx_KeyFile tx, cd_installCert = False, cd_installKey = False\<rparr>,
      \<lparr>cd_cert = tx_CertBackup tx, cd_key = tx_KeyBackup tx, cd_installCert = True, cd_installKey = True\<rparr>,
      \<lparr>cd_cert = tx_CertBackup tx, cd_key = tx_KeyFile tx, cd_installCert = True, cd_installKey = False\<rparr>,
      \<lparr>cd_cert = tx_CertFile tx, cd_key = tx_KeyBackup tx, cd_installCert = False, cd_installKey = True\<rparr>,
      \<lparr>cd_cert = tx_CertTemp tx, cd_key = tx_KeyTemp tx, cd_installCert = True, cd_installKey = True\<rparr>,
      \<lparr>cd_cert = tx_CertFile tx, cd_key = tx_KeyTemp tx, cd_installCert = False, cd_installKey = True\<rparr>,
      \<lparr>cd_cert = tx_CertTemp tx, cd_key = tx_KeyFile tx, cd_installCert = True, cd_installKey = False\<rparr>]"

fun choose_candidate :: "pki \<Rightarrow> candidate list \<Rightarrow> candidate option go" where
  "choose_candidate P [] = ret None"
| "choose_candidate P (c # cs) =
     (if cd_cert c = [] \<or> cd_key c = [] then choose_candidate P cs
      else do {
        usable \<leftarrow> pairFilesUsable P (cd_cert c) (cd_key c);
        if usable then ret (Some c) else choose_candidate P cs })"

definition replaceRecovered :: "string \<Rightarrow> string \<Rightarrow> unit result go" where
  "replaceRecovered source target =
     (if source = target then ret (Inr ())
      else check (removeIfExists target) (\<lambda>_.
           check (os_err (Rename source target)) (\<lambda>_.
           syncRelevantDirs [source, target])))"

text \<open>What recovery does once the journal has been read and decoded.\<close>

definition recover_tx :: "pki \<Rightarrow> certificateTransaction \<Rightarrow> unit result go" where
  "recover_tx P tx =
     (let certFile = tx_CertFile tx; keyFile = tx_KeyFile tx; path = transactionPath certFile in
      check (validateTransactionPaths tx) (\<lambda>_.
      check (journal_paths [certFile, keyFile, tx_CertTemp tx, tx_KeyTemp tx, tx_CertBackup tx, tx_KeyBackup tx, path] [] []) (\<lambda>_. do {
        chosen \<leftarrow> choose_candidate P (candidates tx);
        case chosen of
          None \<Rightarrow> ret (Inl (Msg ''TLS transaction cannot recover a matching certificate pair''))
        | Some c \<Rightarrow>
            check (if cd_installCert c then replaceRecovered (cd_cert c) certFile else ret (Inr ())) (\<lambda>_.
            check (if cd_installKey c then replaceRecovered (cd_key c) keyFile else ret (Inr ())) (\<lambda>_. do {
              usable \<leftarrow> pairFilesUsable P certFile keyFile;
              if \<not> usable then ret (Inl (Msg ''TLS transaction recovery produced an unusable pair''))
              else finishTransaction tx })) })))"

definition recoverCertificateTransaction :: "pki \<Rightarrow> string \<Rightarrow> string \<Rightarrow> unit result go" where
  "recoverCertificateTransaction P certFile keyFile = do {
     raw \<leftarrow> ReadFile (transactionPath certFile);
     case raw of
       Inl e \<Rightarrow> if is_not_exist e then ret (Inr ()) else ret (Inl (Os e))
     | Inr raw \<Rightarrow> (case decode_tx raw of
         None \<Rightarrow> ret (Inl (Msg ''decode TLS transaction journal''))
       | Some tx \<Rightarrow>
           if tx_CertFile tx \<noteq> certFile \<or> tx_KeyFile tx \<noteq> keyFile
           then ret (Inl (Msg ''TLS transaction journal targets do not match configured paths''))
           else recover_tx P tx) }"

section \<open>Rotation\<close>

text \<open>The first part of \<^verbatim>\<open>rotateCertificateWithHooks\<close>, up to the journal: staging the new files and reserving the
  names under which the old ones are kept.\<close>

definition reserve_if :: "bool result \<Rightarrow> string \<Rightarrow> string list \<Rightarrow> string result go" where
  "reserve_if exists target staged =
     (if exists = Inr True then do {
        r \<leftarrow> reserveSibling target ''backup'';
        case r of Inl e \<Rightarrow> cleanupOnPrepareError e staged | Inr name \<Rightarrow> ret (Inr name) }
      else ret (Inr []))"

definition stage_pair :: "string \<Rightarrow> string \<Rightarrow> string \<Rightarrow> string \<Rightarrow> certificateTransaction result go" where
  "stage_pair certFile keyFile certPEM keyPEM = check (stageFile certFile certPEM 0x1A4) (\<lambda>certTemp. do {
     k \<leftarrow> stageFile keyFile keyPEM 0x180;
     case k of
       Inl e \<Rightarrow> do { r \<leftarrow> removeAndSync certTemp; ret (Inl (Joined ([e] @ err_of r))) }
     | Inr keyTemp \<Rightarrow> do {
         certExists \<leftarrow> regularFileState certFile;
         keyExists \<leftarrow> regularFileState keyFile;
         check (reserve_if certExists certFile [certTemp, keyTemp]) (\<lambda>certBackup.
         check (reserve_if keyExists keyFile (filter (\<lambda>p. p \<noteq> []) [certTemp, keyTemp, certBackup])) (\<lambda>keyBackup.
         ret (Inr \<lparr>tx_CertFile = certFile, tx_KeyFile = keyFile, tx_CertTemp = certTemp, tx_KeyTemp = keyTemp,
                   tx_CertBackup = certBackup, tx_KeyBackup = keyBackup\<rparr>))) } })"

definition renameStep :: "pki \<Rightarrow> certificateOperationHooks \<Rightarrow> string \<Rightarrow> string \<Rightarrow> string \<Rightarrow> string \<Rightarrow> string \<Rightarrow> unit result go" where
  "renameStep P hooks certFile keyFile step old new =
     check (ret (case h_beforeRename hooks of None \<Rightarrow> Inr () | Some hook \<Rightarrow> hook step)) (\<lambda>_. do {
       r \<leftarrow> os_err (Rename old new);
       case r of
         Inl e \<Rightarrow> do { rec \<leftarrow> recoverCertificateTransaction P certFile keyFile; ret (Inl (Joined ([Msg step, e] @ err_of rec))) }
       | Inr _ \<Rightarrow> do {
           r \<leftarrow> syncRelevantDirs [old, new];
           case r of
             Inl e \<Rightarrow> do { rec \<leftarrow> recoverCertificateTransaction P certFile keyFile; ret (Inl (Joined ([Msg (''sync '' @ step), e] @ err_of rec))) }
           | Inr _ \<Rightarrow> ret (Inr ()) } })"

text \<open>The four renames in order; a backup that was not reserved is skipped.\<close>

definition rename_steps :: "certificateTransaction \<Rightarrow> (string \<times> string \<times> string) list" where
  "rename_steps tx =
     (if tx_CertBackup tx \<noteq> [] then [(''backup-cert'', tx_CertFile tx, tx_CertBackup tx)] else []) @
     (if tx_KeyBackup tx \<noteq> [] then [(''backup-key'', tx_KeyFile tx, tx_KeyBackup tx)] else []) @
     [(''install-cert'', tx_CertTemp tx, tx_CertFile tx), (''install-key'', tx_KeyTemp tx, tx_KeyFile tx)]"

definition install_pair :: "pki \<Rightarrow> certificateOperationHooks \<Rightarrow> certificateTransaction \<Rightarrow> string list \<Rightarrow> string \<Rightarrow> Certificate result go" where
  "install_pair P hooks tx names fingerprint =
     (let certFile = tx_CertFile tx; keyFile = tx_KeyFile tx in
      check (for_each (\<lambda>(step, old, new). renameStep P hooks certFile keyFile step old new) (rename_steps tx)) (\<lambda>_. do {
        r \<leftarrow> loadCertificate P certFile keyFile names;
        case r of
          Inl e \<Rightarrow> do { rec \<leftarrow> recoverCertificateTransaction P certFile keyFile; ret (Inl (Joined ([e] @ err_of rec))) }
        | Inr _ \<Rightarrow>
            check (finishTransaction tx) (\<lambda>_.
            ret (Inr \<lparr>ct_CertFile = certFile, ct_KeyFile = keyFile, ct_SHA256 = fingerprint\<rparr>)) }))"

definition rotateCertificateWithHooks ::
    "pki \<Rightarrow> string \<Rightarrow> string \<Rightarrow> string list \<Rightarrow> certificateOperationHooks \<Rightarrow> Certificate result go" where
  "rotateCertificateWithHooks P certFile keyFile names hooks =
     check (generateCertificate P names) (\<lambda>(certPEM, keyPEM, fingerprint).
     check (stage_pair certFile keyFile certPEM keyPEM) (\<lambda>tx. do {
       w \<leftarrow> writeTransaction tx (h_journalSync hooks);
       case w of
         (installed, Inl e) \<Rightarrow>
           if installed then ret (Inl e)
           else cleanupOnPrepareError e (filter (\<lambda>p. p \<noteq> []) [tx_CertTemp tx, tx_KeyTemp tx, tx_CertBackup tx, tx_KeyBackup tx])
       | (installed, Inr _) \<Rightarrow> install_pair P hooks tx names fingerprint }))"

definition rotateCertificateLocked :: "pki \<Rightarrow> string \<Rightarrow> string \<Rightarrow> string list \<Rightarrow> Certificate result go" where
  "rotateCertificateLocked P certFile keyFile names =
     check (recoverCertificateTransaction P certFile keyFile) (\<lambda>_.
     check (regularFileState certFile) (\<lambda>certExists.
     check (regularFileState keyFile) (\<lambda>keyExists.
     if certExists \<noteq> keyExists then ret (Inl (Msg ''refuse to rotate one-sided TLS pair''))
     else check (if certExists then do {
                   r \<leftarrow> loadCertificate P certFile keyFile [];
                   ret (case r of Inl e \<Rightarrow> Inl (Joined [Msg ''refuse to rotate invalid TLS pair'', e]) | Inr _ \<Rightarrow> Inr ()) }
                 else ret (Inr ())) (\<lambda>_.
          rotateCertificateWithHooks P certFile keyFile names no_hooks))))"

definition ensureCertificateLocked ::
    "pki \<Rightarrow> string \<Rightarrow> string \<Rightarrow> string list \<Rightarrow> certificateOperationHooks \<Rightarrow> Certificate result go" where
  "ensureCertificateLocked P certFile keyFile names hooks =
     check (recoverCertificateTransaction P certFile keyFile) (\<lambda>_.
     check (regularFileState certFile) (\<lambda>certExists.
     check (regularFileState keyFile) (\<lambda>keyExists.
     if \<not> certExists \<and> \<not> keyExists then rotateCertificateWithHooks P certFile keyFile names hooks
     else if certExists \<noteq> keyExists then ret (Inl (Msg ''TLS certificate pair is one-sided''))
     else loadCertificate P certFile keyFile names)))"

text \<open>Both entry points check the paths again once they hold the locks, and release them whatever happens.\<close>

definition with_locks :: "string \<Rightarrow> string \<Rightarrow> Certificate result go \<Rightarrow> Certificate result go" where
  "with_locks certFile keyFile operation = check (acquireCertificateLocks certFile keyFile) (\<lambda>locks. do {
     prepared \<leftarrow> prepareTLSPaths certFile keyFile;
     result \<leftarrow> (case prepared of Inl e \<Rightarrow> ret (Inl e) | Inr _ \<Rightarrow> operation);
     released \<leftarrow> release locks;
     ret (if err_of result = [] \<and> released = [] then result else Inl (Joined (err_of result @ released))) })"

definition RotateCertificate :: "pki \<Rightarrow> string \<Rightarrow> string \<Rightarrow> string list \<Rightarrow> Certificate result go" where
  "RotateCertificate P certFile keyFile names =
     check (prepareTLSPaths certFile keyFile) (\<lambda>_.
     with_locks certFile keyFile (rotateCertificateLocked P certFile keyFile names))"

definition ensureCertificateWithHooks ::
    "pki \<Rightarrow> string \<Rightarrow> string \<Rightarrow> string list \<Rightarrow> certificateOperationHooks \<Rightarrow> Certificate result go" where
  "ensureCertificateWithHooks P certFile keyFile names hooks =
     check (prepareTLSPaths certFile keyFile) (\<lambda>_.
     check (case h_afterInitialValidation hooks of None \<Rightarrow> ret (Inr ()) | Some f \<Rightarrow> f) (\<lambda>_.
     check (prepareTLSPaths certFile keyFile) (\<lambda>_.
     with_locks certFile keyFile (ensureCertificateLocked P certFile keyFile names hooks))))"

definition EnsureCertificate :: "pki \<Rightarrow> string \<Rightarrow> string \<Rightarrow> string list \<Rightarrow> Certificate result go" where
  "EnsureCertificate P certFile keyFile names = ensureCertificateWithHooks P certFile keyFile names no_hooks"

end
