(* ===== verification/Cert_Rules.thy ===== *)
theory Cert_Rules
  imports Cert_Transaction
begin

text \<open>
  Why the exchange of the TLS pair survives crashes and I/O errors. An assertion \<open>base\<close> pins what some paths hold
  and which directories exist; every file operation has one rule over it. Above it, \<open>in_flight\<close> describes the
  states between the installation of the journal and its removal.
\<close>

section \<open>Pinned paths\<close>

definition wf_os :: "os \<Rightarrow> bool" where
  "wf_os s \<longleftrightarrow> (\<forall>p n. lookup s p = Some n \<longrightarrow> n_ino n < os_ino s) \<and>
     (\<forall>p q n m. lookup s p = Some n \<longrightarrow> lookup s q = Some m \<longrightarrow> n_ino n = n_ino m \<longrightarrow> p = q)"

text \<open>\<open>F p = Some v\<close> pins \<open>v\<close> as what the path \<open>p\<close> holds. With \<open>b\<close>, no call fails from outside.\<close>

definition base :: "bool \<Rightarrow> time \<Rightarrow> string set \<Rightarrow> (string \<rightharpoonup> node option) \<Rightarrow> os \<Rightarrow> bool" where
  "base b now D F s \<longleftrightarrow> wf_os s \<and> (b \<longrightarrow> calm s) \<and> os_now s = now \<and> (\<forall>p \<in> D. is_dir s p) \<and>
     (\<forall>p v. p \<noteq> [] \<longrightarrow> F p = Some v \<longrightarrow> lookup s p = v)"

lemma wf_os_clock [simp]: "wf_os (s\<lparr>os_ticks := n\<rparr>) = wf_os s" "wf_os (s\<lparr>os_draws := n\<rparr>) = wf_os s" "wf_os (s\<lparr>os_held := h\<rparr>) = wf_os s"
  by (simp_all add: wf_os_def)

lemma base_clock [simp]: "base b now D F (s\<lparr>os_ticks := n\<rparr>) = base b now D F s"
  "base b now D F (s\<lparr>os_draws := n\<rparr>) = base b now D F s" "base b now D F (s\<lparr>os_held := h\<rparr>) = base b now D F s"
  by (simp_all add: base_def)

lemma base_lookup: "base b now D F s \<Longrightarrow> p \<noteq> [] \<Longrightarrow> F p = Some v \<Longrightarrow> lookup s p = v"
  by (simp add: base_def)

lemma base_calm: "base b now D F s \<Longrightarrow> \<not> calm s \<Longrightarrow> \<not> b"
  by (auto simp: base_def)

lemma base_mono: "base b now D F' s \<Longrightarrow> F \<subseteq>\<^sub>m F' \<Longrightarrow> base b now D F s"
  by (simp add: base_def map_le_def) (metis domI)

text \<open>What a pinned path may hold for the operations below: nothing or a regular file.\<close>

definition plain :: "node option \<Rightarrow> bool" where
  "plain v \<longleftrightarrow> (\<forall>n. v = Some n \<longrightarrow> n_kind n = Regular)"

lemma plain_simps [simp]: "plain None" "plain (Some n) = (n_kind n = Regular)"
  by (simp_all add: plain_def)

lemma base_not_dir: "base b now D F s \<Longrightarrow> p \<noteq> [] \<Longrightarrow> F p = Some v \<Longrightarrow> plain v \<Longrightarrow> \<not> is_dir s p"
  by (auto simp: base_def is_dir_def split: option.splits)

lemma wf_os_drop: "wf_os s \<Longrightarrow> wf_os (drop_node p s)"
  unfolding wf_os_def by (simp split: if_splits)

lemma wf_os_put:
  assumes "wf_os s" and "n_ino n < os_ino s" and "\<And>q m. lookup s q = Some m \<Longrightarrow> q \<noteq> p \<Longrightarrow> n_ino m \<noteq> n_ino n"
  shows "wf_os (put_node p n s)"
  unfolding wf_os_def
proof (intro conjI allI impI, goal_cases)
  case (1 q m)
  with assms show ?case by (simp add: wf_os_def split: if_splits)
next
  case (2 q r m l)
  then show ?case
    using assms(3) [of q m] assms(3) [of r l] assms(1) by (auto simp: wf_os_def split: if_splits)
qed

lemma is_dir_other [simp]: "q \<noteq> p \<Longrightarrow> is_dir (put_node p n s) q = is_dir s q" "q \<noteq> p \<Longrightarrow> is_dir (drop_node p s) q = is_dir s q"
  by (simp_all add: is_dir_def)

lemma base_drop:
  assumes "base b now D F s" and "p \<noteq> []" and "F p = Some v" and "plain v"
  shows "base b now D (F(p \<mapsto> None)) (drop_node p s)"
proof -
  have "p \<notin> D" using base_not_dir [OF assms] assms(1) by (auto simp: base_def)
  then have "\<forall>q \<in> D. is_dir (drop_node p s) q" using assms(1) by (metis base_def is_dir_other(2))
  with wf_os_drop [of s p] assms(1) show ?thesis by (simp add: base_def)
qed

lemma base_put:
  assumes "base b now D F s" and "\<not> is_dir s p"
    and "n_ino n < os_ino s" and "\<And>q m. lookup s q = Some m \<Longrightarrow> q \<noteq> p \<Longrightarrow> n_ino m \<noteq> n_ino n"
  shows "base b now D (F(p \<mapsto> Some n)) (put_node p n s)"
proof -
  have "p \<notin> D" using assms(1,2) by (auto simp: base_def)
  then have "\<forall>q \<in> D. is_dir (put_node p n s) q" using assms(1) by (metis base_def is_dir_other(1))
  with wf_os_put [OF _ assms(3,4)] assms(1) show ?thesis by (simp add: base_def)
qed

section \<open>Rules for the file operations\<close>

abbreviation (input) failed :: "bool \<Rightarrow> time \<Rightarrow> string set \<Rightarrow> (string \<rightharpoonup> node option) \<Rightarrow> os \<Rightarrow> bool" where
  "failed b now D F \<equiv> \<lambda>s. \<not> b \<and> base b now D F s"

lemma query_base:
  assumes "\<And>s n. f (s\<lparr>os_ticks := n\<rparr>) = f s" and "\<And>s. base b now D F s \<Longrightarrow> R (f s)"
  shows "triple (base b now D F) (query f) (\<lambda>r s. base b now D F s \<and> (R r \<or> \<not> b \<and> r = Inl EIO))"
  using assms by (intro triple_query) (auto dest: base_calm)

lemma Sync_rule: "triple (base b now D F) (os_err Sync) (outcome (failed b now D F) (\<lambda>_. base b now D F))"
  unfolding Sync_def by (intro triple_os_err triple_query) (auto dest: base_calm)

lemma Close_rule: "triple (base b now D F) (os_err Close) (outcome (failed b now D F) (\<lambda>_. base b now D F))"
  unfolding Close_def by (intro triple_os_err triple_query) (auto dest: base_calm)

lemma resolve_node: "lookup s p = Some n \<Longrightarrow> n_kind n = Regular \<or> n_kind n = Directory \<Longrightarrow> resolve (Suc k) s p = Inr n"
  by auto

lemma missing_dir: "is_dir s (Dir p) \<Longrightarrow> missing s p = ENOENT"
  by (simp add: missing_def)

lemma resolve_missing: "lookup s p = None \<Longrightarrow> is_dir s (Dir p) \<Longrightarrow> resolve (Suc k) s p = Inl ENOENT"
  by (simp add: missing_dir)

lemma OpenDir_rule:
  assumes "b \<longrightarrow> d \<in> D"
  shows "triple (base b now D F) (os_err (OpenDir d)) (outcome (failed b now D F) (\<lambda>_. base b now D F))"
proof -
  have "\<exists>n. resolve 40 s d = Inr n" if "base b now D F s" "b" for s
  proof -
    from that assms have "is_dir s d" by (simp add: base_def)
    then obtain n where "lookup s d = Some n" "n_kind n = Directory" by (auto simp: is_dir_def split: option.splits)
    then show ?thesis using resolve_node [of s d n 39] by simp
  qed
  then show ?thesis unfolding OpenDir_def
    by (intro triple_os_err triple_query) (auto simp: outcome_def split: sum.splits dest: base_calm, fastforce)
qed

lemma syncDirectory_rule:
  assumes "b \<longrightarrow> d \<in> D"
  shows "triple (base b now D F) (syncDirectory d) (outcome (failed b now D F) (\<lambda>_. base b now D F))"
proof -
  let ?Q = "\<lambda>r s. base b now D F s \<and> (b \<longrightarrow> err_of r = [])"
  have s: "triple (base b now D F) (os_err Sync) ?Q" and c: "triple (base b now D F) (os_err Close) ?Q"
    by (rule triple_post [OF Sync_rule] triple_post [OF Close_rule], auto simp: outcome_def split: sum.splits)+
  have k: "triple (?Q r) (os_err Close) (\<lambda>r' s. base b now D F s \<and> (b \<longrightarrow> err_of r = [] \<and> err_of r' = []))" for r
    using c by (fastforce simp: triple_def split: prod.splits)
  show ?thesis unfolding syncDirectory_def
    by (intro triple_check [OF OpenDir_rule [OF assms]] triple_bind [OF s] triple_bind [OF k] triple_ret)
       (auto simp: errors_Join_def)
qed

definition stat_result :: "node option \<Rightarrow> errno + node" where
  "stat_result v = (case v of Some n \<Rightarrow> Inr n | None \<Rightarrow> Inl ENOENT)"

lemma Lstat_rule:
  assumes "p \<noteq> []" and "F p = Some v" and "v = None \<longrightarrow> Dir p \<in> D"
  shows "triple (base b now D F) (Lstat p) (\<lambda>r s. base b now D F s \<and> (r = stat_result v \<or> \<not> b \<and> r = Inl EIO))"
  unfolding Lstat_def
  by (rule query_base) (use assms in \<open>auto simp: base_def stat_result_def missing_dir split: option.split\<close>)

definition read_result :: "node option \<Rightarrow> errno + string" where
  "read_result v = (case v of Some n \<Rightarrow> Inr (n_data n) | None \<Rightarrow> Inl ENOENT)"

lemma ReadFile_rule:
  assumes "p \<noteq> []" and "F p = Some v" and "plain v" and "Dir p \<in> D"
  shows "triple (base b now D F) (ReadFile p) (\<lambda>r s. base b now D F s \<and> (r = read_result v \<or> \<not> b \<and> r = Inl EIO))"
  unfolding ReadFile_def
proof (rule query_base)
  fix s assume s: "base b now D F s"
  show "read_file s p = read_result v"
  proof (cases v)
    case None
    then show ?thesis
      using resolve_missing [of s p 39] base_lookup [OF s assms(1,2)] s assms(4)
      by (simp add: read_file_def read_result_def base_def)
  next
    case (Some n)
    then show ?thesis
      using resolve_node [of s p n 39] base_lookup [OF s assms(1,2)] assms(3)
      by (simp add: read_file_def read_result_def)
  qed
qed (simp add: read_file_def)

lemma Remove_rule:
  assumes "p \<noteq> []" and "F p = Some v" and "plain v" and "Dir p \<in> D"
  shows "triple (base b now D F) (Remove p) (\<lambda>r s. base b now D (if r = Inr () then F(p \<mapsto> None) else F) s \<and>
     (r = (if v = None then Inl ENOENT else Inr ()) \<or> \<not> b \<and> r = Inl EIO))"
  unfolding Remove_def
proof (rule triple_modify, goal_cases)
  case (1 s)
  then show ?case by (auto dest: base_calm)
next
  case (2 s e)
  then show ?case using base_lookup [OF 2(1) assms(1,2)] assms(3,4) missing_dir [of s p]
    by (auto simp: base_def split: option.splits if_splits)
next
  case (3 s s')
  let ?s = "s\<lparr>os_ticks := Suc (os_ticks s)\<rparr>"
  have "base b now D F ?s" using 3 by simp
  from base_drop [OF this assms(1-3)] 3 base_lookup [OF 3(1) assms(1,2)] show ?case
    by (auto split: option.splits if_splits)
qed

lemma removeIfExists_rule:
  assumes "p \<noteq> [] \<longrightarrow> F p = Some v \<and> plain v \<and> Dir p \<in> D"
  shows "triple (base b now D F) (removeIfExists p)
     (outcome (\<lambda>s. \<not> b \<and> (base b now D F s \<or> base b now D (F(p \<mapsto> None)) s)) (\<lambda>_. base b now D (F(p \<mapsto> None))))"
proof (cases "p = []")
  case True
  then show ?thesis by (auto simp: removeIfExists_def base_def intro!: triple_ret)
next
  case False
  with assms have p: "p \<noteq> []" "F p = Some v" "plain v" "Dir p \<in> D" by simp_all
  have same: "base b now D (F(p \<mapsto> None)) s" if "base b now D F s" "v = None" for s
    using that p by (simp add: base_def)
  have sync: "triple (base b now D (F(p \<mapsto> None))) (syncDirectory (Dir p)) (outcome (\<lambda>s. \<not> b \<and> base b now D (F(p \<mapsto> None)) s) (\<lambda>_. base b now D (F(p \<mapsto> None))))"
    using p(4) by (intro syncDirectory_rule) simp
  show ?thesis unfolding removeIfExists_def using False
    by (simp only: if_False, intro triple_bind [OF Remove_rule [of p F v, OF p]] triple_sum)
       (auto intro!: triple_ret triple_conseq [OF sync] simp: same outcome_def split: if_splits sum.splits)
qed

lemma Rename_rule:
  assumes "a \<noteq> []" and "c \<noteq> []" and "a \<noteq> c" and "F a = Some (Some n)" and "n_kind n = Regular"
    and "F c = Some w" and "plain w" and "Dir c \<in> D"
  shows "triple (base b now D F) (os_err (Rename a c)) (outcome (failed b now D F) (\<lambda>_. base b now D (F(a \<mapsto> None, c \<mapsto> Some n))))"
  unfolding Rename_def
proof (rule triple_os_err, rule triple_modify, goal_cases)
  case (1 s)
  then show ?case by (auto dest: base_calm)
next
  case (2 s e)
  then show ?case
    using base_lookup [OF 2(1) assms(1,4)] base_not_dir [OF 2(1) assms(2,6,7)] assms(5,8)
    by (auto simp: base_def split: option.splits if_splits)
next
  case (3 s s')
  let ?s = "s\<lparr>os_ticks := Suc (os_ticks s)\<rparr>"
  have s: "base b now D F ?s" using 3 by simp
  have a: "lookup ?s a = Some n" using base_lookup [OF s assms(1,4)] .
  have wf: "wf_os ?s" using s by (simp add: base_def)
  have ino: "map_option n_ino (lookup ?s c) \<noteq> Some (n_ino n)"
    using wf a assms(3) unfolding wf_os_def by (auto split: option.splits)
  have d: "base b now D (F(a \<mapsto> None)) (drop_node a ?s)"
    using base_drop [OF s assms(1,4)] assms(5) by simp
  have "\<not> is_dir (drop_node a ?s) c" using base_not_dir [OF s assms(2,6,7)] assms(3) by simp
  then have "base b now D (F(a \<mapsto> None, c \<mapsto> Some n)) (put_node c n (drop_node a ?s))"
  proof (rule base_put [OF d])
    show "n_ino n < os_ino (drop_node a ?s)" using wf a by (simp add: wf_os_def)
    show "n_ino m \<noteq> n_ino n" if "lookup (drop_node a ?s) q = Some m" "q \<noteq> c" for q m
      using that wf a by (auto simp: wf_os_def split: if_splits)
  qed
  moreover have "s' = put_node c n (drop_node a ?s)"
    using 3(2) a ino assms(3) by (auto split: if_splits)
  ultimately show ?case by simp
qed

lemma sync_dirs_rule:
  assumes "\<forall>p \<in> set ps. p \<noteq> [] \<longrightarrow> Dir p \<in> D"
  shows "triple (base b now D F) (sync_dirs ps seen) (outcome (failed b now D F) (\<lambda>_. base b now D F))"
  using assms
proof (induction ps arbitrary: seen)
  case Nil
  show ?case by (auto intro: triple_ret)
next
  case (Cons p ps)
  then show ?case by (auto intro!: triple_check [OF syncDirectory_rule])
qed

lemma syncRelevantDirs_rule:
  "\<forall>p \<in> set ps. p \<noteq> [] \<longrightarrow> Dir p \<in> D \<Longrightarrow>
   triple (base b now D F) (syncRelevantDirs ps) (outcome (failed b now D F) (\<lambda>_. base b now D F))"
  unfolding syncRelevantDirs_def by (rule sync_dirs_rule)

section \<open>Rules for the steps of recovery\<close>

text \<open>What \<^verbatim>\<open>loadCertificate\<close> asks of the two files.\<close>

definition usable :: "pki \<Rightarrow> time \<Rightarrow> string list \<Rightarrow> node option \<Rightarrow> node option \<Rightarrow> bool" where
  "usable P now names v w \<longleftrightarrow> (case (v, w) of
      (Some n, Some m) \<Rightarrow> and (n_perm m) 0x3F = 0 \<and> \<not> isl (judge_pair P now names (n_data n) (n_data m))
    | _ \<Rightarrow> False)"

definition tracked :: "string set \<Rightarrow> (string \<rightharpoonup> node option) \<Rightarrow> string \<Rightarrow> node option \<Rightarrow> bool" where
  "tracked D F p v \<longleftrightarrow> p \<noteq> [] \<and> F p = Some v \<and> plain v \<and> Dir p \<in> D"

lemma trackedD: "tracked D F p v \<Longrightarrow> p \<noteq> []" "tracked D F p v \<Longrightarrow> F p = Some v" "tracked D F p v \<Longrightarrow> plain v"
  "tracked D F p v \<Longrightarrow> Dir p \<in> D"
  by (simp_all add: tracked_def)

lemma loadCertificate_rule:
  assumes p: "tracked D F p v" and q: "tracked D F q w"
  shows "triple (base b now D F) (loadCertificate P p q names)
     (\<lambda>r s. base b now D F s \<and> (\<not> isl r \<longrightarrow> usable P now names v w) \<and> (b \<longrightarrow> usable P now names v w \<longrightarrow> \<not> isl r))"
    (is "triple _ _ ?Q")
proof -
  let ?E = "\<lambda>s. base b now D F s \<and> (b \<longrightarrow> \<not> usable P now names v w)"
  have E: "?Q (Inl e) s" if "?E s" for e s using that by simp
  have stat: "triple (base b now D F) (os_err (Lstat q)) (outcome ?E (\<lambda>n s. base b now D F s \<and> w = Some n))"
    using trackedD [OF q] by (intro triple_os_err triple_post [OF Lstat_rule])
      (auto simp: outcome_def stat_result_def usable_def split: sum.splits option.splits)
  have cert: "triple (base b now D F) (os_err (ReadFile p)) (outcome ?E (\<lambda>x s. base b now D F s \<and> map_option n_data v = Some x))"
    using trackedD [OF p] by (intro triple_os_err triple_post [OF ReadFile_rule])
      (auto simp: outcome_def read_result_def usable_def split: sum.splits option.splits)
  have key: "triple (base b now D F) (os_err (ReadFile q)) (outcome ?E (\<lambda>x s. base b now D F s \<and> map_option n_data w = Some x))"
    using trackedD [OF q] by (intro triple_os_err triple_post [OF ReadFile_rule])
      (auto simp: outcome_def read_result_def usable_def split: sum.splits option.splits)
  let ?tail = "\<lambda>x y. do {
        s \<leftarrow> State_Monad.get;
        ret (map_sum id (\<lambda>fp. \<lparr>ct_CertFile = p, ct_KeyFile = q, ct_SHA256 = fp\<rparr>) (judge_pair P (os_now s) names x y)) }"
  have judge: "triple (base b now D F) (?tail x y) ?Q"
    if "map_option n_data v = Some x" "map_option n_data w = Some y" "w = Some n" "and (n_perm n) 0x3F = 0" for x y n
    using that
    by (intro triple_bind [OF triple_get, of _ "\<lambda>t s. t = s \<and> base b now D F s"] triple_ret)
       (auto simp: base_def usable_def isl_map_sum)
  have rest: "triple (base b now D F) (check (os_err (ReadFile p)) (\<lambda>x. check (os_err (ReadFile q)) (?tail x))) ?Q"
    if n: "w = Some n" "and (n_perm n) 0x3F = 0" for n
    using judge [OF _ _ n] E by (intro triple_check [OF cert] triple_check [OF key] triple_pure2) auto
  show ?thesis unfolding loadCertificate_def
    using rest E by (intro triple_check [OF stat] triple_pure2)
      (auto intro!: triple_ret simp: usable_def split: option.splits)
qed

lemma pairFilesUsable_rule:
  assumes "tracked D F p v" and "tracked D F q w"
  shows "triple (base b now D F) (pairFilesUsable P p q)
     (\<lambda>r s. base b now D F s \<and> (r \<longrightarrow> usable P now [] v w) \<and> (b \<longrightarrow> usable P now [] v w \<longrightarrow> r))"
  unfolding pairFilesUsable_def
  by (intro triple_bind [OF loadCertificate_rule [OF assms]] triple_ret) (auto split: sum.splits)

text \<open>The directories above a file.\<close>

definition ancestors :: "string list \<Rightarrow> string set" where
  "ancestors es = {abs_path (take k es) | k. k \<le> length es}"

lemma element_nonempty: "element e \<Longrightarrow> e \<noteq> []"
  by (simp add: element_def)

lemma foldl_components:
  assumes "list_all element es" and "list_all element fs"
  shows "foldl (\<lambda>(current, result) component. if component = [] then (current, result)
           else (Join current component, result @ [Join current component])) (abs_path es, rs) fs =
         (abs_path (es @ fs), rs @ map (\<lambda>k. abs_path (es @ take k fs)) [1..<Suc (length fs)])"
  using assms
proof (induction fs arbitrary: es rs)
  case Nil
  then show ?case by simp
next
  case (Cons f fs)
  have f: "f \<noteq> []" "Join (abs_path es) f = abs_path (es @ [f])" using Cons.prems by (simp_all add: Join_abs element_nonempty)
  have m: "map (\<lambda>k. abs_path (es @ take k (f # fs))) [1..<Suc (Suc (length fs))] =
        abs_path (es @ [f]) # map (\<lambda>k. abs_path ((es @ [f]) @ take k fs)) [1..<Suc (length fs)]"
    by (simp add: upt_conv_Cons map_Suc_upt [symmetric] del: upt_Suc)
  show ?case using Cons.IH [of "es @ [f]"] Cons.prems f m by simp
qed

lemma tl_abs: "(if take 1 (abs_path es) = ''/'' then drop 1 (abs_path es) else abs_path es) = join_slash es"
  by (simp add: abs_path_def)

lemma set_absoluteComponents:
  assumes "list_all element es"
  shows "set (absoluteComponents (abs_path es)) = ancestors es"
proof (cases "es = []")
  case True
  then show ?thesis by (simp add: absoluteComponents_def ancestors_def abs_path_def Clean_def clean_rooted_def clean_step_def)
next
  case False
  have root: "''/'' = abs_path []" by (simp add: abs_path_def)
  let ?step = "\<lambda>(current, result) component. if component = [] then (current, result)
    else (Join current component, result @ [Join current component])"
  have "absoluteComponents (abs_path es) = snd (foldl ?step (''/'', [''/'']) es)"
    by (simp only: absoluteComponents_def Let_def Clean_abs [OF assms] tl_abs split_join [OF assms False])
  also have "\<dots> = abs_path [] # map (\<lambda>k. abs_path (take k es)) [1..<Suc (length es)]"
    using foldl_components [OF _ assms, of "[]" "[abs_path []]"] unfolding root by (simp del: upt_Suc)
  finally have "absoluteComponents (abs_path es) = \<dots>" .
  moreover have "ancestors es = (\<lambda>k. abs_path (take k es)) ` {0..<Suc (length es)}"
    by (auto simp: ancestors_def less_Suc_eq_le)
  moreover have "{0..<Suc (length es)} = insert 0 {1..<Suc (length es)}" by auto
  ultimately show ?thesis by (simp del: upt_Suc)
qed

lemma Lstat_dir_rule:
  assumes "p \<in> D"
  shows "triple (base b now D F) (Lstat p)
    (\<lambda>r s. base b now D F s \<and> ((\<exists>n. r = Inr n \<and> n_kind n = Directory) \<or> \<not> b \<and> r = Inl EIO))"
  unfolding Lstat_def
  by (rule query_base) (use assms in \<open>auto simp: base_def is_dir_def split: option.splits\<close>)

lemma reject_symlinks_rule:
  assumes "list_all element es" and "list_all element fs" and "element e"
    and "\<And>k. 0 < k \<Longrightarrow> k \<le> length fs \<Longrightarrow> abs_path (es @ take k fs) \<in> D"
    and "tracked D F (abs_path (es @ fs @ [e])) v"
  shows "triple (base b now D F) (reject_symlinks (abs_path es) (fs @ [e])) (outcome (failed b now D F) (\<lambda>_. base b now D F))"
  using assms
proof (induction fs arbitrary: es)
  case Nil
  then have J: "Join (abs_path es) e = abs_path (es @ [e])" and e: "e \<noteq> []" by (simp_all add: Join_abs element_nonempty)
  have t: "tracked D F (abs_path (es @ [e])) v" using Nil by simp
  have "triple (base b now D F) (Lstat (abs_path (es @ [e])))
     (\<lambda>r s. base b now D F s \<and> (r = stat_result v \<or> \<not> b \<and> r = Inl EIO))"
    using trackedD [OF t] by (intro Lstat_rule) auto
  then show ?case using e trackedD(3) [OF t]
    by (auto simp: J Let_def stat_result_def intro!: triple_bind triple_sum triple_ret split: option.splits fkind.splits)
next
  case (Cons g gs)
  then have J: "Join (abs_path es) g = abs_path (es @ [g])" and g: "g \<noteq> []" by (simp_all add: Join_abs element_nonempty)
  have d: "abs_path (es @ [g]) \<in> D" using Cons.prems(4) [of 1] by simp
  have rest: "triple (base b now D F) (reject_symlinks (abs_path (es @ [g])) (gs @ [e])) (outcome (failed b now D F) (\<lambda>_. base b now D F))"
  proof (rule Cons.IH)
    show "abs_path ((es @ [g]) @ take k gs) \<in> D" if "0 < k" "k \<le> length gs" for k
      using Cons.prems(4) [of "Suc k"] that by simp
  qed (use Cons.prems in auto)
  show ?case using g rest
    by (auto simp: J Let_def intro!: triple_bind [OF Lstat_dir_rule [OF d]] triple_sum triple_ret intro: triple_pre split: fkind.splits)
qed

section \<open>Names of the files of a transaction\<close>

definition target_path :: "string \<Rightarrow> bool" where
  "target_path p \<longleftrightarrow> IsAbs p \<and> Clean p = p \<and> p \<noteq> ''/''"

lemma target_pathE:
  assumes "target_path p"
  obtains es e where "p = abs_path (es @ [e])" and "list_all element es" and "element e"
proof -
  from assms clean_abs_path obtain fs where fs: "p = abs_path fs" "list_all element fs" unfolding target_path_def by blast
  with assms have "fs \<noteq> []" by (auto simp: target_path_def abs_path_def)
  with fs that show ?thesis by (cases fs rule: rev_cases) auto
qed

lemma target_path_abs: "list_all element es \<Longrightarrow> element x \<Longrightarrow> target_path (abs_path (es @ [x]))"
  using join_slash_Nil [of "es @ [x]"] by (simp add: target_path_def) (simp add: abs_path_def)

definition sibling :: "string \<Rightarrow> string \<Rightarrow> string \<Rightarrow> bool" where
  "sibling target kind p \<longleftrightarrow> (\<exists>r. p = joinPath (Dir target) (sibling_pattern target kind) @ utoa r)"

abbreviation (input) kinds :: "string set" where
  "kinds \<equiv> {''tmp'', ''backup''}"

lemma digit_not_slash: "is_digit c \<Longrightarrow> c \<noteq> CHR ''/''"
  by (auto simp: is_digit_def)

lemma utoa_no_slash: "CHR ''/'' \<notin> set (utoa n)"
  using utoa_digits [of n] digit_not_slash by (auto simp: list_all_iff)

definition sibling_name :: "string \<Rightarrow> string \<Rightarrow> nat \<Rightarrow> string" where
  "sibling_name e kind r = ''.'' @ e @ ''.'' @ kind @ ''-'' @ utoa r"

lemma element_sibling_name: "element e \<Longrightarrow> kind \<in> kinds \<Longrightarrow> element (sibling_name e kind r)"
  using utoa_no_slash [of r] by (auto simp: element_def sibling_name_def)

lemma siblingE:
  assumes "sibling (abs_path (es @ [e])) kind p" and "list_all element es" and "element e"
  obtains r where "p = abs_path (es @ [sibling_name e kind r])"
proof -
  from assms(1) obtain r where "p = joinPath (Dir (abs_path (es @ [e]))) (sibling_pattern (abs_path (es @ [e])) kind) @ utoa r"
    by (auto simp: sibling_def)
  moreover have "Dir (abs_path (es @ [e])) = abs_path es" "Base (abs_path (es @ [e])) = e"
    using assms(2,3) Base_abs Dir_abs by (auto simp: element_def)
  ultimately have "p = abs_path (es @ [sibling_name e kind r])"
    using assms(2) by (simp add: sibling_pattern_def joinPath_abs sibling_name_def) (simp add: abs_path_snoc)
  then show ?thesis by (rule that)
qed

lemma strip_digits: "rev (dropWhile is_digit (rev (sibling_name e kind r))) = ''.'' @ e @ ''.'' @ kind @ ''-''"
  using utoa_digits [of r] by (simp add: sibling_name_def dropWhile_append list_all_iff)

lemma sibling_name_inject:
  assumes "sibling_name e kind r = sibling_name e' kind' r'" and "kind \<in> kinds" and "kind' \<in> kinds"
  shows "e = e' \<and> kind = kind'"
proof -
  have "''.'' @ e @ ''.'' @ kind @ ''-'' = ''.'' @ e' @ ''.'' @ kind' @ ''-''"
    unfolding strip_digits [of e kind r, symmetric] strip_digits [of e' kind' r', symmetric] assms(1) ..
  then have "e @ ''.'' @ kind = e' @ ''.'' @ kind'" by simp
  then have "rev (e @ ''.'' @ kind) = rev (e' @ ''.'' @ kind')" by (rule arg_cong)
  with assms(2,3) show ?thesis by auto
qed

lemma sibling_path:
  assumes "sibling t kind p" and "target_path t" and "kind \<in> kinds"
  shows "target_path p" and "Dir p = Dir t" and "p \<noteq> t" and "p \<noteq> []"
    and "take (length (sibling_pattern t kind)) (Base p) = sibling_pattern t kind"
proof -
  from assms(2) obtain es e where t: "t = abs_path (es @ [e])" "list_all element es" "element e" by (rule target_pathE)
  from assms(1) t siblingE obtain r where p: "p = abs_path (es @ [sibling_name e kind r])" by metis
  note el = element_sibling_name [OF t(3) assms(3), of r]
  show "target_path p" using target_path_abs [OF t(2) el] by (simp add: p)
  show "Dir p = Dir t" using t el by (simp add: p Dir_abs element_def)
  show "p \<noteq> t"
  proof
    assume "p = t"
    then have "es @ [sibling_name e kind r] = es @ [e]" using t el by (intro abs_path_inject) (auto simp: p)
    then have "length (sibling_name e kind r) = length e" by simp
    then show False by (simp add: sibling_name_def)
  qed
  show "p \<noteq> []" by (simp add: p abs_path_def)
  show "take (length (sibling_pattern t kind)) (Base p) = sibling_pattern t kind"
    using t el by (simp add: p Base_abs sibling_pattern_def sibling_name_def)
qed

lemma sibling_distinct:
  assumes "sibling t kind p" "sibling t' kind' p" "target_path t" "target_path t'" "kind \<in> kinds" "kind' \<in> kinds"
  shows "t = t' \<and> kind = kind'"
proof -
  from assms(3) obtain es e where t: "t = abs_path (es @ [e])" "list_all element es" "element e" by (rule target_pathE)
  from assms(4) obtain fs f where t': "t' = abs_path (fs @ [f])" "list_all element fs" "element f" by (rule target_pathE)
  from assms(1) t siblingE obtain r where p: "p = abs_path (es @ [sibling_name e kind r])" by metis
  from assms(2) t' siblingE obtain r' where p': "p = abs_path (fs @ [sibling_name f kind' r'])" by metis
  have "es @ [sibling_name e kind r] = fs @ [sibling_name f kind' r']"
    using p p' t t' element_sibling_name assms(5,6) by (intro abs_path_inject) auto
  with sibling_name_inject [of e kind r f kind' r'] assms(5,6) t t' show ?thesis by simp
qed

text \<open>The journal is next to the certificate and never has the name of a sibling.\<close>

lemma transactionPath_path:
  assumes "target_path t"
  shows "target_path (transactionPath t)" and "Dir (transactionPath t) = Dir t" and "transactionPath t \<noteq> t"
proof -
  from assms obtain es e where t: "t = abs_path (es @ [e])" "list_all element es" "element e" by (rule target_pathE)
  have p: "transactionPath t = abs_path (es @ [e @ ''.wattline-tls-transaction''])" by (simp add: t transactionPath_def abs_path_snoc)
  have el: "element (e @ ''.wattline-tls-transaction'')" using t(3) by (auto simp: element_def)
  show "target_path (transactionPath t)" using target_path_abs [OF t(2) el] by (simp add: p)
  show "Dir (transactionPath t) = Dir t" 
    unfolding p using Dir_abs [OF t(2)] t el by (simp add: element_def)
  show "transactionPath t \<noteq> t" by (simp add: transactionPath_def)
qed

lemma sibling_not_journal: "sibling t kind p \<Longrightarrow> p \<noteq> transactionPath t'"
proof
  assume "sibling t kind p" "p = transactionPath t'"
  then obtain r q where "q @ utoa r = t' @ ''.wattline-tls-transaction''" by (auto simp: sibling_def transactionPath_def)
  then have "last (q @ utoa r) = CHR ''n''" by simp
  moreover have "is_digit (last (utoa r))" using utoa_digits [of r] by (simp add: list_all_iff)
  ultimately show False by simp
qed

end
