(* ===== verification/Cert_Safety.thy ===== *)
theory Cert_Safety
  imports Cert_Rules
begin

text \<open>
  Crash safety of the TLS pair: whatever system call of \<^verbatim>\<open>RotateCertificate\<close> or \<^verbatim>\<open>EnsureCertificate\<close> fails, and
  wherever the process dies, the next undisturbed recovery leaves the pair that was there before or the new
  one, never a mixture of the two.
\<close>

section \<open>The states of an exchange\<close>

record tls_case =
  k_P :: pki
  k_now :: time
  k_names :: "string list"
  k_cf :: string
  k_kf :: string
  k_oc :: "node option"
  k_ok :: "node option"

text \<open>The texts \<^verbatim>\<open>generateCertificate\<close> may return.\<close>

definition generated :: "pki \<Rightarrow> time \<Rightarrow> string list \<Rightarrow> string \<Rightarrow> string \<Rightarrow> bool" where
  "generated P now names certPEM keyPEM \<longleftrightarrow> (\<exists>i serial key der enc. GenerateKey P i = Inr key \<and>
     CreateCertificate P (certificate_template P now serial names) key = Inr der \<and>
     MarshalPKCS8PrivateKey P key = Inr enc \<and>
     certPEM = pem_Encode P ''CERTIFICATE'' der \<and> keyPEM = pem_Encode P ''PRIVATE KEY'' enc)"

text \<open>What the exchange relies on from the cryptographic packages: a generated pair loads, and a certificate does not
  load with the private key of another one.\<close>

definition generated_loads :: "pki \<Rightarrow> time \<Rightarrow> string list \<Rightarrow> bool" where
  "generated_loads P now names \<longleftrightarrow>
     (\<forall>c k. generated P now names c k \<longrightarrow> \<not> isl (judge_pair P now [] c k))"

definition keys_differ :: "pki \<Rightarrow> time \<Rightarrow> string list \<Rightarrow> string \<Rightarrow> string \<Rightarrow> bool" where
  "keys_differ P now names c0 k0 \<longleftrightarrow>
     (\<forall>c k. generated P now names c k \<longrightarrow> isl (judge_pair P now [] c k0) \<and> isl (judge_pair P now [] c0 k))"

text \<open>Neither file has the name of a staged or kept copy of the other one or of the journal, nor lies above the other.\<close>

definition independent :: "string \<Rightarrow> string \<Rightarrow> bool" where
  "independent certFile keyFile \<longleftrightarrow>
     (\<forall>(t, p) \<in> {(certFile, keyFile), (keyFile, certFile), (transactionPath certFile, certFile), (transactionPath certFile, keyFile)}.
        \<forall>kind \<in> kinds. take (length (joinPath (Dir t) (sibling_pattern t kind))) p \<noteq> joinPath (Dir t) (sibling_pattern t kind)) \<and>
     (\<forall>p \<in> set (absoluteComponents (Dir certFile)) \<union> set (absoluteComponents (Dir keyFile)).
        p \<notin> {certFile, keyFile, transactionPath certFile})"

definition setting :: "tls_case \<Rightarrow> bool" where
  "setting K \<longleftrightarrow> target_path (k_cf K) \<and> target_path (k_kf K) \<and> k_cf K \<noteq> k_kf K \<and> k_kf K \<noteq> transactionPath (k_cf K) \<and>
     independent (k_cf K) (k_kf K) \<and> valid_utf8 (k_cf K) \<and> valid_utf8 (k_kf K) \<and>
     generated_loads (k_P K) (k_now K) (k_names K) \<and>
     (case (k_oc K, k_ok K) of
        (None, None) \<Rightarrow> True
      | (Some c, Some k) \<Rightarrow> n_kind c = Regular \<and> n_kind k = Regular \<and> usable (k_P K) (k_now K) [] (Some c) (Some k) \<and>
          keys_differ (k_P K) (k_now K) (k_names K) (n_data c) (n_data k)
      | _ \<Rightarrow> False)"

definition dirs :: "tls_case \<Rightarrow> string set" where
  "dirs K = set (absoluteComponents (Dir (k_cf K))) \<union> set (absoluteComponents (Dir (k_kf K)))"

abbreviation (input) journal :: "tls_case \<Rightarrow> string" where
  "journal K \<equiv> transactionPath (k_cf K)"

definition new_pair :: "tls_case \<Rightarrow> node \<Rightarrow> node \<Rightarrow> bool" where
  "new_pair K n m \<longleftrightarrow> n_kind n = Regular \<and> n_kind m = Regular \<and> and (n_perm m) 0x3F = 0 \<and>
     generated (k_P K) (k_now K) (k_names K) (n_data n) (n_data m)"

definition tx_shape :: "tls_case \<Rightarrow> certificateTransaction \<Rightarrow> bool" where
  "tx_shape K tx \<longleftrightarrow> tx_CertFile tx = k_cf K \<and> tx_KeyFile tx = k_kf K \<and>
     sibling (k_cf K) ''tmp'' (tx_CertTemp tx) \<and> sibling (k_kf K) ''tmp'' (tx_KeyTemp tx) \<and>
     (tx_CertBackup tx = [] \<or> sibling (k_cf K) ''backup'' (tx_CertBackup tx)) \<and>
     (tx_KeyBackup tx = [] \<or> sibling (k_kf K) ''backup'' (tx_KeyBackup tx))"

text \<open>Between journal and clean-up every path holds its own kind of file or nothing.\<close>

definition plan :: "tls_case \<Rightarrow> certificateTransaction \<Rightarrow> node \<Rightarrow> node \<Rightarrow> (string \<rightharpoonup> node option) \<Rightarrow> bool" where
  "plan K tx n m F \<longleftrightarrow>
     (\<exists>j. F (journal K) = Some (Some j) \<and> n_kind j = Regular \<and> n_data j = json_Marshal (tx_json tx)) \<and>
     F (k_cf K) \<in> {Some None, Some (k_oc K), Some (Some n)} \<and> F (k_kf K) \<in> {Some None, Some (k_ok K), Some (Some m)} \<and>
     F (tx_CertTemp tx) \<in> {Some None, Some (Some n)} \<and> F (tx_KeyTemp tx) \<in> {Some None, Some (Some m)} \<and>
     (tx_CertBackup tx \<noteq> [] \<longrightarrow> F (tx_CertBackup tx) \<in> {Some None, Some (k_oc K)}) \<and>
     (tx_KeyBackup tx \<noteq> [] \<longrightarrow> F (tx_KeyBackup tx) \<in> {Some None, Some (k_ok K)})"

text \<open>A candidate of recovery where a whole pair is found.\<close>

definition found :: "tls_case \<Rightarrow> node \<Rightarrow> node \<Rightarrow> string \<Rightarrow> string \<Rightarrow> (string \<rightharpoonup> node option) \<Rightarrow> bool" where
  "found K n m c k F \<longleftrightarrow> k_oc K \<noteq> None \<and> F c = Some (k_oc K) \<and> F k = Some (k_ok K) \<or> F c = Some (Some n) \<and> F k = Some (Some m)"

definition places :: "certificateTransaction \<Rightarrow> (string \<times> string) set" where
  "places tx = {(c, k). c \<noteq> [] \<and> k \<noteq> [] \<and> (\<exists>d \<in> set (candidates tx). c = cd_cert d \<and> k = cd_key d)}"

definition flight ::
    "tls_case \<Rightarrow> bool \<Rightarrow> certificateTransaction \<Rightarrow> node \<Rightarrow> node \<Rightarrow> string \<Rightarrow> string \<Rightarrow> (string \<rightharpoonup> node option) \<Rightarrow> os \<Rightarrow> bool" where
  "flight K b tx n m c k F s \<longleftrightarrow> base b (k_now K) (dirs K) F s \<and> plan K tx n m F \<and> found K n m c k F \<and> (c, k) \<in> places tx"

definition in_flight :: "tls_case \<Rightarrow> bool \<Rightarrow> certificateTransaction \<Rightarrow> node \<Rightarrow> node \<Rightarrow> string \<Rightarrow> string \<Rightarrow> os \<Rightarrow> bool" where
  "in_flight K b tx n m c k s \<longleftrightarrow> (\<exists>F. flight K b tx n m c k F s)"

text \<open>Before and after: no journal, and the old pair or a new one in place. Ancestors may be missing, but nothing else
  is in their place.\<close>

definition clear :: "tls_case \<Rightarrow> os \<Rightarrow> bool" where
  "clear K s \<longleftrightarrow> (\<forall>p \<in> dirs K. lookup s p \<noteq> None \<longrightarrow> is_dir s p)"

definition settled :: "tls_case \<Rightarrow> bool \<Rightarrow> os \<Rightarrow> bool" where
  "settled K b s \<longleftrightarrow> base b (k_now K) {} Map.empty s \<and> clear K s \<and> lookup s (journal K) = None \<and>
     ((lookup s (k_cf K), lookup s (k_kf K)) = (k_oc K, k_ok K) \<or>
      (\<exists>n m. new_pair K n m \<and> (lookup s (k_cf K), lookup s (k_kf K)) = (Some n, Some m)))"

definition safe :: "tls_case \<Rightarrow> bool \<Rightarrow> os \<Rightarrow> bool" where
  "safe K b s \<longleftrightarrow> settled K b s \<or>
     (\<exists>tx n m c k. tx_shape K tx \<and> new_pair K n m \<and> in_flight K b tx n m c k s)"

section \<open>Paths and journal of a transaction\<close>

lemma settingD:
  assumes "setting K"
  shows "target_path (k_cf K)" "target_path (k_kf K)" "k_cf K \<noteq> k_kf K" "k_kf K \<noteq> journal K"
    "independent (k_cf K) (k_kf K)" "valid_utf8 (k_cf K)" "valid_utf8 (k_kf K)"
  using assms by (simp_all add: setting_def)

lemma sibling_prefix: "sibling t kind p \<Longrightarrow> take (length (joinPath (Dir t) (sibling_pattern t kind))) p = joinPath (Dir t) (sibling_pattern t kind)"
  by (auto simp: sibling_def)

lemma independentD:
  assumes "setting K" and "sibling t kind p" and "kind \<in> kinds" and "t \<in> {k_cf K, k_kf K, journal K}"
  shows "p \<noteq> k_cf K" and "p \<noteq> k_kf K" and "p \<noteq> journal K"
proof -
  note S = settingD [OF assms(1)]
  note self = sibling_path(3) [OF assms(2)]
  show "p \<noteq> k_cf K" "p \<noteq> k_kf K"
    using sibling_prefix [OF assms(2)] assms(3,4) S(1,2,5) self by (auto simp: independent_def)
  show "p \<noteq> journal K" using sibling_not_journal [OF assms(2)] .
qed

definition tx_paths :: "certificateTransaction \<Rightarrow> string list" where
  "tx_paths tx = [tx_CertFile tx, tx_KeyFile tx, tx_CertTemp tx, tx_KeyTemp tx, tx_CertBackup tx, tx_KeyBackup tx,
     transactionPath (tx_CertFile tx)]"

lemma target_nonempty: "target_path p \<Longrightarrow> p \<noteq> []"
  by (auto simp: target_path_def IsAbs_def)

lemma tx_paths_facts:
  assumes "setting K" and "tx_shape K tx"
  shows "distinct (filter (\<lambda>p. p \<noteq> []) (tx_paths tx))" and "tx_CertTemp tx \<noteq> []" and "tx_KeyTemp tx \<noteq> []"
    and "k_cf K \<noteq> []" and "k_kf K \<noteq> []" and "journal K \<noteq> []"
    and "tx_CertTemp tx \<notin> {k_cf K, k_kf K, journal K}" and "tx_KeyTemp tx \<notin> {k_cf K, k_kf K, journal K}"
    and "tx_CertTemp tx \<noteq> tx_KeyTemp tx"
    and "tx_CertBackup tx = [] \<or> tx_CertBackup tx \<notin> {k_cf K, k_kf K, journal K, tx_CertTemp tx, tx_KeyTemp tx}"
    and "tx_KeyBackup tx = [] \<or> tx_KeyBackup tx \<notin> {k_cf K, k_kf K, journal K, tx_CertTemp tx, tx_KeyTemp tx, tx_CertBackup tx}"
    and "journal K \<noteq> k_cf K"
proof -
  note S = settingD [OF assms(1)]
  have sh: "tx_CertFile tx = k_cf K" "tx_KeyFile tx = k_kf K"
    "sibling (k_cf K) ''tmp'' (tx_CertTemp tx)" "sibling (k_kf K) ''tmp'' (tx_KeyTemp tx)"
    "tx_CertBackup tx = [] \<or> sibling (k_cf K) ''backup'' (tx_CertBackup tx)"
    "tx_KeyBackup tx = [] \<or> sibling (k_kf K) ''backup'' (tx_KeyBackup tx)"
    using assms(2) by (simp_all add: tx_shape_def)
  show ne: "tx_CertTemp tx \<noteq> []" "tx_KeyTemp tx \<noteq> []" "k_cf K \<noteq> []" "k_kf K \<noteq> []" "journal K \<noteq> []"
    using sibling_path(4) sh(3,4) S(1,2) target_nonempty transactionPath_path(1) by blast+
  note ind = independentD [OF assms(1)]
  note dst = sibling_distinct
  have aux: "p \<notin> {k_cf K, k_kf K, journal K}" if "sibling t kind p" "kind \<in> kinds" "t \<in> {k_cf K, k_kf K}" for t kind p
    using ind [OF that(1,2)] that(3) by auto
  have ne2: "p \<noteq> q" if "sibling t kind p" "sibling t' kind' q" "t \<in> {k_cf K, k_kf K}" "t' \<in> {k_cf K, k_kf K}"
      "kind \<in> kinds" "kind' \<in> kinds" "t \<noteq> t' \<or> kind \<noteq> kind'" for t t' kind kind' p q
    using dst that S(1,2) by blast
  show ct: "tx_CertTemp tx \<notin> {k_cf K, k_kf K, journal K}" and kt: "tx_KeyTemp tx \<notin> {k_cf K, k_kf K, journal K}"
    using aux [OF sh(3)] aux [OF sh(4)] by blast+
  show ctkt: "tx_CertTemp tx \<noteq> tx_KeyTemp tx" using ne2 [OF sh(3,4)] S(3) by blast
  show cb: "tx_CertBackup tx = [] \<or> tx_CertBackup tx \<notin> {k_cf K, k_kf K, journal K, tx_CertTemp tx, tx_KeyTemp tx}"
  proof (cases "tx_CertBackup tx = []")
    case False
    with sh(5) have b: "sibling (k_cf K) ''backup'' (tx_CertBackup tx)" by simp
    from aux [OF b] ne2 [OF b sh(3)] ne2 [OF b sh(4)] show ?thesis by simp
  qed simp
  show kb: "tx_KeyBackup tx = [] \<or> tx_KeyBackup tx \<notin> {k_cf K, k_kf K, journal K, tx_CertTemp tx, tx_KeyTemp tx, tx_CertBackup tx}"
  proof (cases "tx_KeyBackup tx = []")
    case False
    with sh(6) have b: "sibling (k_kf K) ''backup'' (tx_KeyBackup tx)" by simp
    have "tx_KeyBackup tx \<noteq> tx_CertBackup tx" using ne2 [OF b, of "k_cf K" "''backup''" "tx_CertBackup tx"] sh(5) False S(3) by auto
    with aux [OF b] ne2 [OF b sh(3)] ne2 [OF b sh(4)] show ?thesis by simp
  qed simp
  show J: "journal K \<noteq> k_cf K" by (rule transactionPath_path(3) [OF S(1)])
  show "distinct (filter (\<lambda>p. p \<noteq> []) (tx_paths tx))"
    using ct kt ctkt cb kb J S(3,4) ne unfolding tx_paths_def sh
    by (simp del: distinct_filter) (metis)
qed

lemma tx_dirs:
  assumes "setting K" and "tx_shape K tx" and "p \<in> set (tx_paths tx)" and "p \<noteq> []"
  shows "target_path p" and "Dir p \<in> {Dir (k_cf K), Dir (k_kf K)}"
  using assms(3,4) settingD [OF assms(1)] sibling_path transactionPath_path assms(2)
  by (auto simp: tx_paths_def tx_shape_def)

lemma Dir_in_dirs: "setting K \<Longrightarrow> Dir (k_cf K) \<in> dirs K" "setting K \<Longrightarrow> Dir (k_kf K) \<in> dirs K"
proof -
  have "Dir t \<in> set (absoluteComponents (Dir t))" if t: "target_path t" for t
  proof -
    from t obtain es e where "t = abs_path (es @ [e])" "list_all element es" "element e" by (rule target_pathE)
    then have "Dir t = abs_path es" "list_all element es" by (simp_all add: Dir_abs element_def)
    then show ?thesis using set_absoluteComponents [of es] by (auto simp: ancestors_def intro!: exI [of _ "length es"])
  qed
  then show "setting K \<Longrightarrow> Dir (k_cf K) \<in> dirs K" "setting K \<Longrightarrow> Dir (k_kf K) \<in> dirs K"
    using settingD by (auto simp: dirs_def)
qed

text \<open>The journal read back.\<close>

lemma struct_field_exact: "k \<in> set names \<Longrightarrow> struct_field names k = Some k"
  by (simp add: struct_field_def)

lemma decode_tx_json: "(case tx_json tx of JObj ms \<Rightarrow> decode_members ms zero_tx | _ \<Rightarrow> None) = Some tx"
proof -
  have f: "struct_field tx_fields ''cert_file'' = Some ''cert_file''" "struct_field tx_fields ''key_file'' = Some ''key_file''"
    "struct_field tx_fields ''cert_temp'' = Some ''cert_temp''" "struct_field tx_fields ''key_temp'' = Some ''key_temp''"
    "struct_field tx_fields ''cert_backup'' = Some ''cert_backup''" "struct_field tx_fields ''key_backup'' = Some ''key_backup''"
    by (rule struct_field_exact, simp add: tx_fields_def)+
  show ?thesis
    by (cases tx; cases "tx_CertBackup tx = []"; cases "tx_KeyBackup tx = []")
       (simp_all add: tx_json_def omit_empty_def f set_tx_field_def zero_tx_def)
qed

lemma valid_utf8_sibling:
  assumes "sibling t kind p" and "target_path t" and "valid_utf8 t" and "kind \<in> kinds"
  shows "valid_utf8 p"
proof -
  from assms(2) obtain es e where t: "t = abs_path (es @ [e])" "list_all element es" "element e" by (rule target_pathE)
  from assms(1) t siblingE obtain r where p: "p = abs_path (es @ [sibling_name e kind r])" by metis
  have slash: "byte_in 0 0x7F CHR ''/''" by (simp add: byte_in_def)
  have digits: "valid_utf8 (utoa r)"
    using utoa_digits [of r] by (intro valid_utf8_all_ascii) (auto simp: list_all_iff is_digit_def byte_in_def less_eq_char_def)
  have "valid_utf8 e \<and> valid_utf8 (abs_path es)"
    using assms(3) valid_utf8_split [OF _ slash, of "abs_path es" e] valid_utf8_split [OF _ slash, of "[]" e]
    by (auto simp: t(1) abs_path_snoc slash split: if_splits) (simp add: abs_path_def slash)
  moreover from this digits assms(4) have "valid_utf8 (sibling_name e kind r)"
    by (auto simp: sibling_name_def byte_in_def intro!: valid_utf8_append)
  ultimately show ?thesis by (auto simp: p abs_path_snoc slash intro!: valid_utf8_append)
qed

lemma decode_journal:
  assumes "setting K" and "tx_shape K tx"
  shows "decode_tx (json_Marshal (tx_json tx)) = Some tx"
proof -
  note S = settingD [OF assms(1)]
  have v: "valid_utf8 (tx_CertFile tx)" "valid_utf8 (tx_KeyFile tx)" "valid_utf8 (tx_CertTemp tx)" "valid_utf8 (tx_KeyTemp tx)"
    "valid_utf8 (tx_CertBackup tx)" "valid_utf8 (tx_KeyBackup tx)"
    using assms(2) S(6,7) valid_utf8_sibling [OF _ S(1) S(6)] valid_utf8_sibling [OF _ S(2) S(7)]
    by (auto simp: tx_shape_def)
  have "wf_json (tx_json tx)" using v by (simp add: tx_json_def omit_empty_def valid_utf8_all_ascii byte_in_def)
  moreover have "depth (tx_json tx) \<le> 10000" by (simp add: tx_json_def omit_empty_def)
  ultimately have "json_Unmarshal (json_Marshal (tx_json tx)) = Some (tx_json tx)" by (rule json_roundtrip)
  then show ?thesis using decode_tx_json [of tx] by (simp add: decode_tx_def split: json.splits)
qed

section \<open>Recovery\<close>

lemma oldD:
  assumes "setting K"
  shows "plain (k_oc K)" and "plain (k_ok K)" and "k_oc K = None \<longleftrightarrow> k_ok K = None"
    and "k_oc K \<noteq> None \<Longrightarrow> usable (k_P K) (k_now K) [] (k_oc K) (k_ok K)"
    and "k_oc K = Some c0 \<Longrightarrow> k_ok K = Some k0 \<Longrightarrow> keys_differ (k_P K) (k_now K) (k_names K) (n_data c0) (n_data k0)"
  using assms by (auto simp: setting_def split: option.splits)

lemma new_pairD:
  assumes "setting K" and "new_pair K n m"
  shows "n_kind n = Regular" and "n_kind m = Regular" and "usable (k_P K) (k_now K) [] (Some n) (Some m)"
    and "k_oc K \<noteq> None \<Longrightarrow> \<not> usable (k_P K) (k_now K) [] (k_oc K) (Some m)"
    and "k_ok K \<noteq> None \<Longrightarrow> \<not> usable (k_P K) (k_now K) [] (Some n) (k_ok K)"
proof -
  show "n_kind n = Regular" "n_kind m = Regular" using assms(2) by (simp_all add: new_pair_def)
  show "usable (k_P K) (k_now K) [] (Some n) (Some m)"
    using assms by (simp add: setting_def generated_loads_def new_pair_def usable_def)
  show "k_oc K \<noteq> None \<Longrightarrow> \<not> usable (k_P K) (k_now K) [] (k_oc K) (Some m)"
    "k_ok K \<noteq> None \<Longrightarrow> \<not> usable (k_P K) (k_now K) [] (Some n) (k_ok K)"
    using oldD(3,5) [OF assms(1)] assms(2) by (auto simp: usable_def keys_differ_def new_pair_def)
qed

lemma places_cases:
  "tx_shape K tx \<Longrightarrow> (c, k) \<in> places tx \<Longrightarrow> c \<noteq> [] \<and> k \<noteq> [] \<and>
     c \<in> {k_cf K, tx_CertTemp tx, tx_CertBackup tx} \<and> k \<in> {k_kf K, tx_KeyTemp tx, tx_KeyBackup tx}"
  by (auto simp: places_def candidates_def tx_shape_def)

lemma plan_tracked:
  assumes "setting K" and "tx_shape K tx" and "new_pair K n m" and "plan K tx n m F"
    and "p \<in> set (tx_paths tx)" and "p \<noteq> []"
  shows "tracked (dirs K) F p (the (F p))"
proof -
  have d: "Dir p \<in> dirs K" using tx_dirs(2) [OF assms(1,2,5,6)] Dir_in_dirs [OF assms(1)] by auto
  have sh: "tx_CertFile tx = k_cf K" "tx_KeyFile tx = k_kf K" using assms(2) by (simp_all add: tx_shape_def)
  let ?A = "{Some None, Some (k_oc K), Some (Some n)}" and ?B = "{Some None, Some (k_ok K), Some (Some m)}"
  have A: "\<exists>v. x = Some v \<and> plain v" if "x \<in> ?A \<union> ?B" for x
    using that oldD(1,2) [OF assms(1)] new_pairD(1,2) [OF assms(1,3)] by auto
  have "F q \<in> ?A \<union> ?B" if "q \<in> {k_cf K, k_kf K, tx_CertTemp tx, tx_KeyTemp tx}" for q
    using that assms(4) unfolding plan_def by blast
  moreover have "F q \<in> ?A \<union> ?B" if "q \<in> {tx_CertBackup tx, tx_KeyBackup tx}" "q \<noteq> []" for q
    using that assms(4) unfolding plan_def by blast
  moreover have "\<exists>v. F (journal K) = Some v \<and> plain v" using assms(4) by (auto simp: plan_def)
  ultimately have "\<exists>v. F p = Some v \<and> plain v"
    using assms(5,6) A [of "F p"] by (simp add: tx_paths_def sh) blast
  with d assms(6) show ?thesis by (auto simp: tracked_def)
qed

lemma usable_found:
  assumes "setting K" and "tx_shape K tx" and "new_pair K n m" and "plan K tx n m F" and "(c, k) \<in> places tx"
    and "usable (k_P K) (k_now K) [] (the (F c)) (the (F k))"
  shows "found K n m c k F"
proof -
  note pl = places_cases [OF assms(2,5)]
  have c: "F c \<in> {Some None, Some (k_oc K), Some (Some n)}" and k: "F k \<in> {Some None, Some (k_ok K), Some (Some m)}"
    using pl assms(4) by (auto simp: plan_def)
  have "the (F c) \<noteq> None" "the (F k) \<noteq> None" using assms(6) by (auto simp: usable_def split: option.splits)
  with c k assms(6) oldD(3) [OF assms(1)] new_pairD(4,5) [OF assms(1,3)] show ?thesis
    by (auto simp: found_def)
qed

lemma found_usable:
  assumes "setting K" and "new_pair K n m" and "found K n m c k F"
  shows "usable (k_P K) (k_now K) [] (the (F c)) (the (F k))"
  using assms(3) oldD(4) [OF assms(1)] new_pairD(3) [OF assms(1,2)] by (auto simp: found_def)

lemma choose_rule:
  assumes "\<And>d p. d \<in> set ds \<Longrightarrow> p \<in> {cd_cert d, cd_key d} \<Longrightarrow> p \<noteq> [] \<Longrightarrow> tracked D F p (the (F p))"
  shows "triple (base b now D F) (choose_candidate P ds) (\<lambda>r s. base b now D F s \<and>
     (case r of
        Some d \<Rightarrow> d \<in> set ds \<and> cd_cert d \<noteq> [] \<and> cd_key d \<noteq> [] \<and> usable P now [] (the (F (cd_cert d))) (the (F (cd_key d)))
      | None \<Rightarrow> b \<longrightarrow> (\<forall>d \<in> set ds. cd_cert d \<noteq> [] \<longrightarrow> cd_key d \<noteq> [] \<longrightarrow> \<not> usable P now [] (the (F (cd_cert d))) (the (F (cd_key d))))))"
  using assms
proof (induction ds)
  case Nil
  show ?case by (auto intro: triple_ret)
next
  case (Cons d ds)
  note IH = Cons.IH [OF Cons.prems, simplified]
  show ?case
  proof (cases "cd_cert d = [] \<or> cd_key d = []")
    case True
    then show ?thesis using IH by (auto intro!: triple_post [OF IH] split: option.splits)
  next
    case False
    then have t: "tracked D F (cd_cert d) (the (F (cd_cert d)))" "tracked D F (cd_key d) (the (F (cd_key d)))"
      using Cons.prems by auto
    let ?u = "usable P now [] (the (F (cd_cert d))) (the (F (cd_key d)))"
    have rest: "triple (\<lambda>s. base b now D F s \<and> (b \<longrightarrow> \<not> ?u)) (choose_candidate P ds) (\<lambda>r s. base b now D F s \<and>
     (case r of
        Some d \<Rightarrow> d \<in> set ds \<and> cd_cert d \<noteq> [] \<and> cd_key d \<noteq> [] \<and> usable P now [] (the (F (cd_cert d))) (the (F (cd_key d)))
      | None \<Rightarrow> b \<longrightarrow> \<not> ?u \<and> (\<forall>d \<in> set ds. cd_cert d \<noteq> [] \<longrightarrow> cd_key d \<noteq> [] \<longrightarrow> \<not> usable P now [] (the (F (cd_cert d))) (the (F (cd_key d))))))"
      by (rule triple_pure2, rule triple_post [OF IH]) (auto split: option.splits)
    from False show ?thesis
      by (auto intro!: triple_bind [OF pairFilesUsable_rule [OF t]] triple_ret triple_post [OF rest] split: option.splits)
  qed
qed

lemma rejectSymlinkComponents_rule:
  assumes "target_path p" and "tracked D F p v" and "set (absoluteComponents (Dir p)) \<subseteq> D"
  shows "triple (base b now D F) (rejectSymlinkComponents p) (outcome (failed b now D F) (\<lambda>_. base b now D F))"
proof -
  from assms(1) obtain es e where p: "p = abs_path (es @ [e])" "list_all element es" "element e" by (rule target_pathE)
  then have "Dir p = abs_path es" by (simp add: Dir_abs element_def)
  then have anc: "abs_path (take k es) \<in> D" if "k \<le> length es" for k
    using that assms(3) set_absoluteComponents [OF p(2)] by (auto simp: ancestors_def)
  have "rejectSymlinkComponents p = reject_symlinks (abs_path []) (es @ [e])"
    using p tl_abs [of "es @ [e]"] split_join [of "es @ [e]"] by (simp add: rejectSymlinkComponents_def Let_def) (simp add: abs_path_def)
  moreover have "triple (base b now D F) (reject_symlinks (abs_path []) (es @ [e])) (outcome (failed b now D F) (\<lambda>_. base b now D F))"
    using p anc assms(2) by (intro reject_symlinks_rule [where v = v]) auto
  ultimately show ?thesis by simp
qed

lemma validate_aux_rule:
  assumes "target_path t" and "kind \<in> kinds" and "set (absoluteComponents (Dir t)) \<subseteq> D"
    and "path = [] \<and> opt \<or> sibling t kind path \<and> tracked D F path v"
  shows "triple (base b now D F) (validate_aux (path, t, kind, opt)) (outcome (failed b now D F) (\<lambda>_. base b now D F))"
proof (cases "path = [] \<and> opt")
  case True
  then show ?thesis by (auto simp: validate_aux_def intro: triple_ret)
next
  case False
  with assms(4) have s: "sibling t kind path" "tracked D F path v" by auto
  note sp = sibling_path [OF s(1) assms(1,2)]
  have "validate_aux (path, t, kind, opt) = rejectSymlinkComponents path"
    using sp by (simp add: validate_aux_def sibling_pattern_def)
  moreover have "set (absoluteComponents (Dir path)) \<subseteq> D" using assms(3) sp(2) by simp
  ultimately show ?thesis using rejectSymlinkComponents_rule [OF sp(1) s(2)] by simp
qed

lemma validateTransactionPaths_rule:
  assumes "setting K" and "tx_shape K tx" and "new_pair K n m" and "plan K tx n m F"
  shows "triple (base b now (dirs K) F) (validateTransactionPaths tx) (outcome (failed b now (dirs K) F) (\<lambda>_. base b now (dirs K) F))"
  unfolding validateTransactionPaths_def
proof (rule triple_for_each)
  fix x assume x: "x \<in> set [(tx_CertTemp tx, tx_CertFile tx, ''tmp'', False), (tx_KeyTemp tx, tx_KeyFile tx, ''tmp'', False),
      (tx_CertBackup tx, tx_CertFile tx, ''backup'', True), (tx_KeyBackup tx, tx_KeyFile tx, ''backup'', True)]"
  obtain path t kind opt where q: "x = (path, t, kind, opt)" by (cases x)
  have sh: "path = [] \<and> opt \<or> sibling t kind path" "t \<in> {k_cf K, k_kf K}" "kind \<in> kinds" "path \<in> set (tx_paths tx)"
    using x assms(2) unfolding q by (auto simp: tx_shape_def tx_paths_def)
  have t: "target_path t" using sh(2) settingD(1,2) [OF assms(1)] by auto
  have D: "set (absoluteComponents (Dir t)) \<subseteq> dirs K" using sh(2) by (auto simp: dirs_def)
  have "path = [] \<and> opt \<or> sibling t kind path \<and> tracked (dirs K) F path (the (F path))"
    using sh(1,3,4) plan_tracked [OF assms sh(4)] sibling_path(4) [OF _ t sh(3), of path] by auto
  then show "triple (base b now (dirs K) F) (validate_aux x) (outcome (failed b now (dirs K) F) (\<lambda>_. base b now (dirs K) F))"
    unfolding q by (rule validate_aux_rule [OF t sh(3) D])
qed

lemma triple_absurd: "(\<And>s. \<not> P s) \<Longrightarrow> triple P m Q"
  by (simp add: triple_def)

lemma journal_paths_rule:
  assumes "\<And>p. p \<in> set ps \<Longrightarrow> p \<noteq> [] \<Longrightarrow> tracked D F p (the (F p)) \<and> Clean p = p \<and> p \<notin> set seen"
    and "distinct (filter (\<lambda>p. p \<noteq> []) ps)"
    and "\<And>e. e \<in> set existing \<Longrightarrow> \<exists>q \<in> set seen. q \<noteq> [] \<and> F q = Some (Some e)"
  shows "triple (base b now D F) (journal_paths ps seen existing) (outcome (failed b now D F) (\<lambda>_. base b now D F))"
  using assms
proof (induction ps arbitrary: seen existing)
  case Nil
  show ?case by (auto intro: triple_ret)
next
  case (Cons p ps)
  show ?case
  proof (cases "p = []")
    case True
    with Cons show ?thesis by simp
  next
    case False
    then have t: "tracked D F p (the (F p))" "Clean p = p" "p \<notin> set seen" using Cons.prems(1) by auto
    define v where "v = the (F p)"
    have v: "F p = Some v" "plain v" "Dir p \<in> D" using trackedD [OF t(1)] unfolding v_def by auto
    have rest: "triple (base b now D F) (journal_paths ps (p # seen) existing') (outcome (failed b now D F) (\<lambda>_. base b now D F))"
      if "\<And>e. e \<in> set existing' \<Longrightarrow> e \<in> set existing \<or> v = Some e" for existing'
    proof (rule Cons.IH)
      show "tracked D F q (the (F q)) \<and> Clean q = q \<and> q \<notin> set (p # seen)" if "q \<in> set ps" "q \<noteq> []" for q
        using that Cons.prems(1,2) False by auto
      show "distinct (filter (\<lambda>p. p \<noteq> []) ps)" using Cons.prems(2) by (auto split: if_splits)
      show "\<exists>q \<in> set (p # seen). q \<noteq> [] \<and> F q = Some (Some e)" if "e \<in> set existing'" for e
        using that \<open>\<And>e. e \<in> set existing' \<Longrightarrow> e \<in> set existing \<or> v = Some e\<close> Cons.prems(3) v(1) False by auto
    qed
    have other: "\<not> base b now D F s" if "v = Some n" "prior \<in> set existing" "n_ino prior = n_ino n" for prior n s
    proof
      assume s: "base b now D F s"
      from Cons.prems(3) [OF that(2)] obtain q where q: "q \<in> set seen" "q \<noteq> []" "F q = Some (Some prior)" by auto
      have "q = p"
        using s base_lookup [OF s q(2,3)] base_lookup [OF s False v(1)] that unfolding base_def wf_os_def by metis
      with q t(3) show False by simp
    qed
    have stat: "triple (base b now D F) (Lstat p) (\<lambda>r s. base b now D F s \<and> (r = stat_result v \<or> \<not> b \<and> r = Inl EIO))"
      using v(3) by (intro Lstat_rule [of p F v, OF False v(1)]) simp
    let ?P = "\<lambda>r s. base b now D F s \<and> (r = stat_result v \<or> \<not> b \<and> r = Inl EIO)"
    let ?Q = "outcome (failed b now D F) (\<lambda>_. base b now D F)"
    have missing: "triple (?P (Inl e)) (if is_not_exist e then journal_paths ps (p # seen) existing else ret (Inl (Os e))) ?Q" for e
    proof (cases "is_not_exist e")
      case True
      with rest [of existing] show ?thesis by (auto intro: triple_pre)
    next
      case False
      then show ?thesis by (auto intro!: triple_ret simp: stat_result_def split: option.splits)
    qed
    have present: "triple (?P (Inr n)) (if \<exists>prior \<in> set existing. n_ino prior = n_ino n
        then ret (Inl (Msg ''TLS transaction filesystem objects alias'')) else journal_paths ps (p # seen) (existing @ [n])) ?Q" for n
    proof (cases "v = Some n")
      case True
      show ?thesis
      proof (cases "\<exists>prior \<in> set existing. n_ino prior = n_ino n")
        case twice: True
        then show ?thesis using other [OF True] by (blast intro: triple_absurd)
      next
        case False
        with rest [of "existing @ [n]"] True show ?thesis by (auto intro: triple_pre)
      qed
    qed (auto intro!: triple_absurd simp: stat_result_def split: option.splits)
    show ?thesis
      by (simp only: journal_paths.simps False t(2,3) not_False_eq_True if_False simp_thms, intro triple_bind [OF stat] triple_sum)
         (use missing present in simp_all)
  qed
qed

subsection \<open>Moves within a transaction\<close>

lemma plan_drop:
  assumes "setting K" and "tx_shape K tx" and "plan K tx n m F" and "p \<in> set (tx_paths tx)" and "p \<noteq> journal K"
  shows "plan K tx n m (F(p \<mapsto> None))"
  using assms(3,5) by (simp add: plan_def)

lemma plan_cert:
  assumes "setting K" and "tx_shape K tx" and "plan K tx n m F" and "v \<in> {k_oc K, Some n}"
  shows "plan K tx n m (F(k_cf K \<mapsto> v))"
proof -
  note facts = tx_paths_facts(7-12) [OF assms(1,2)]
  have "journal K \<noteq> k_cf K" "k_kf K \<noteq> k_cf K" "tx_CertTemp tx \<noteq> k_cf K" "tx_KeyTemp tx \<noteq> k_cf K"
    "tx_CertBackup tx \<noteq> [] \<longrightarrow> tx_CertBackup tx \<noteq> k_cf K" "tx_KeyBackup tx \<noteq> [] \<longrightarrow> tx_KeyBackup tx \<noteq> k_cf K"
    using facts settingD(3) [OF assms(1)] by auto
  with assms(3,4) show ?thesis unfolding plan_def by simp
qed

lemma plan_key:
  assumes "setting K" and "tx_shape K tx" and "plan K tx n m F" and "v \<in> {k_ok K, Some m}"
  shows "plan K tx n m (F(k_kf K \<mapsto> v))"
proof -
  note facts = tx_paths_facts(7-12) [OF assms(1,2)]
  have "journal K \<noteq> k_kf K" "k_cf K \<noteq> k_kf K" "tx_CertTemp tx \<noteq> k_kf K" "tx_KeyTemp tx \<noteq> k_kf K"
    "tx_CertBackup tx \<noteq> [] \<longrightarrow> tx_CertBackup tx \<noteq> k_kf K" "tx_KeyBackup tx \<noteq> [] \<longrightarrow> tx_KeyBackup tx \<noteq> k_kf K"
    using facts settingD(3,4) [OF assms(1)] by auto
  with assms(3,4) show ?thesis unfolding plan_def by simp
qed

lemma found_other: "found K n m c k F \<Longrightarrow> p \<notin> {c, k} \<Longrightarrow> found K n m c k (F(p \<mapsto> v))"
  by (auto simp: found_def)

lemma found_move_cert:
  "found K n m c k F \<Longrightarrow> F c = Some v \<Longrightarrow> k \<notin> {c, p} \<Longrightarrow> found K n m p k (F(c \<mapsto> None, p \<mapsto> v))"
  by (auto simp: found_def)

lemma found_move_key:
  "found K n m c k F \<Longrightarrow> F k = Some v \<Longrightarrow> c \<notin> {k, p} \<Longrightarrow> found K n m c p (F(k \<mapsto> None, p \<mapsto> v))"
  by (auto simp: found_def)

lemma found_node:
  assumes "setting K" and "new_pair K n m" and "found K n m c k F"
  obtains u w where "F c = Some (Some u)" and "F k = Some (Some w)" and "n_kind u = Regular" and "n_kind w = Regular"
    and "Some u \<in> {k_oc K, Some n}" and "Some w \<in> {k_ok K, Some m}"
  using assms(3) oldD(1-3) [OF assms(1)] new_pairD(1,2) [OF assms(1,2)] that by (auto simp: found_def)

lemma places_tx:
  assumes "setting K" and "tx_shape K tx" and "(c, k) \<in> places tx"
  shows "c \<in> set (tx_paths tx)" and "k \<in> set (tx_paths tx)" and "c \<noteq> k" and "c \<noteq> k_kf K" and "k \<noteq> k_cf K"
    and "c \<noteq> journal K" and "k \<noteq> journal K" and "c \<noteq> []" and "k \<noteq> []"
proof -
  note pl = places_cases [OF assms(2,3)]
  have sh: "tx_CertFile tx = k_cf K" "tx_KeyFile tx = k_kf K" using assms(2) by (simp_all add: tx_shape_def)
  show "c \<in> set (tx_paths tx)" "k \<in> set (tx_paths tx)" "c \<noteq> []" "k \<noteq> []" using pl by (auto simp: tx_paths_def sh)
  show "c \<noteq> k" "c \<noteq> k_kf K" "k \<noteq> k_cf K" "c \<noteq> journal K" "k \<noteq> journal K"
    using pl tx_paths_facts(7-12) [OF assms(1,2)] settingD(3,4) [OF assms(1)] by auto
qed

text \<open>A staged or kept certificate, and a staged or kept key, brought to its place.\<close>

lemma flight_drop:
  assumes "setting K" and "tx_shape K tx" and "flight K b tx n m c k F s" and "p \<in> set (tx_paths tx)"
    and "p \<notin> {c, k, journal K}" and "base b (k_now K) (dirs K) (F(p \<mapsto> None)) s'"
  shows "in_flight K b tx n m c k s'"
  using assms plan_drop [OF assms(1,2) _ assms(4), of n m F] found_other [of K n m c k F p None]
  by (auto simp: in_flight_def flight_def)

lemma triple_flight: "(\<And>F. triple (flight K b tx n m c k F) x Q) \<Longrightarrow> triple (in_flight K b tx n m c k) x Q"
  using triple_exists [of "flight K b tx n m c k" x Q] by (auto simp: in_flight_def intro: triple_pre)

lemma replace_rule:
  assumes "tracked D F a (Some u)" and "tracked D F t v" and "a \<noteq> t"
    and A: "\<And>s. base b now D F s \<Longrightarrow> A s" "\<And>s. base b now D (F(t \<mapsto> None)) s \<Longrightarrow> A s"
    and B: "\<And>s. base b now D (F(t \<mapsto> None, a \<mapsto> None, t \<mapsto> Some u)) s \<Longrightarrow> B s"
  shows "triple (base b now D F) (replaceRecovered a t) (outcome (\<lambda>s. \<not> b \<and> (A s \<or> B s)) (\<lambda>_. B))"
proof -
  let ?G = "F(t \<mapsto> None)"
  let ?H = "?G(a \<mapsto> None, t \<mapsto> Some u)"
  note a = trackedD [OF assms(1)] and t = trackedD [OF assms(2)]
  have rm: "triple (base b now D F) (removeIfExists t)
     (outcome (\<lambda>s. \<not> b \<and> (base b now D F s \<or> base b now D ?G s)) (\<lambda>_. base b now D ?G))"
    using t by (intro removeIfExists_rule [of _ F v]) simp
  have rn: "triple (base b now D ?G) (os_err (Rename a t)) (outcome (failed b now D ?G) (\<lambda>_. base b now D ?H))"
    using a t assms(3) by (intro Rename_rule [of _ _ _ _ None]) auto
  have sy: "triple (base b now D ?H) (syncRelevantDirs [a, t]) (outcome (failed b now D ?H) (\<lambda>_. base b now D ?H))"
    using a t by (intro syncRelevantDirs_rule) auto
  show ?thesis unfolding replaceRecovered_def if_not_P [OF assms(3)]
    by (intro triple_check [OF rm] triple_check [OF rn] triple_outcome [OF sy]) ((unfold outcome_simps)?, blast intro: A B)+
qed

lemma flight_cases:
  assumes "\<And>F. plan K tx n m F \<Longrightarrow> found K n m c k F \<Longrightarrow> (c, k) \<in> places tx \<Longrightarrow> triple (base b (k_now K) (dirs K) F) x Q"
  shows "triple (in_flight K b tx n m c k) x Q"
proof (rule triple_flight)
  fix F
  show "triple (flight K b tx n m c k F) x Q"
  proof (cases "plan K tx n m F \<and> found K n m c k F \<and> (c, k) \<in> places tx")
    case True
    with assms [of F] show ?thesis by (auto simp: flight_def intro: triple_pre)
  qed (auto intro!: triple_absurd simp: flight_def)
qed

lemma in_flightI:
  "base b (k_now K) (dirs K) F s \<Longrightarrow> plan K tx n m F \<Longrightarrow> found K n m c k F \<Longrightarrow> (c, k) \<in> places tx \<Longrightarrow> in_flight K b tx n m c k s"
  by (auto simp: in_flight_def flight_def)

lemma replace_cert_rule:
  assumes "setting K" and "tx_shape K tx" and "new_pair K n m" and "c \<noteq> k_cf K"
  shows "triple (in_flight K b tx n m c k) (replaceRecovered c (k_cf K))
     (outcome (\<lambda>s. \<not> b \<and> (in_flight K b tx n m c k s \<or> in_flight K b tx n m (k_cf K) k s)) (\<lambda>_. in_flight K b tx n m (k_cf K) k))"
proof (rule flight_cases)
  fix F assume F: "plan K tx n m F" "found K n m c k F" "(c, k) \<in> places tx"
  note pt = places_tx [OF assms(1,2) F(3)] and facts = tx_paths_facts [OF assms(1,2)]
  have cf: "k_cf K \<in> set (tx_paths tx)" using assms(2) by (simp add: tx_paths_def tx_shape_def)
  have pl: "(k_cf K, k) \<in> places tx" using assms(2,4) F(3) facts(4) by (auto simp: places_def candidates_def tx_shape_def)
  from F obtain u w where u: "F c = Some (Some u)" "Some u \<in> {k_oc K, Some n}"
    using found_node [OF assms(1,3)] by metis
  have t: "tracked (dirs K) F c (Some u)" using plan_tracked [OF assms(1-3) F(1) pt(1,8)] u(1) by simp
  let ?G = "F(k_cf K \<mapsto> None)"
  have G: "plan K tx n m ?G" "found K n m c k ?G"
    using plan_drop [OF assms(1,2) F(1) cf] facts(12) found_other [OF F(2), of "k_cf K" None] assms(4) pt(5) by auto
  have H: "plan K tx n m (?G(c \<mapsto> None, k_cf K \<mapsto> Some u))" "found K n m (k_cf K) k (?G(c \<mapsto> None, k_cf K \<mapsto> Some u))"
    using plan_cert [OF assms(1,2) plan_drop [OF assms(1,2) G(1) pt(1,6)] u(2)]
      found_move_cert [OF G(2), of "Some u" "k_cf K"] u(1) assms(4) pt(3,5) by auto
  show "triple (base b (k_now K) (dirs K) F) (replaceRecovered c (k_cf K))
     (outcome (\<lambda>s. \<not> b \<and> (in_flight K b tx n m c k s \<or> in_flight K b tx n m (k_cf K) k s)) (\<lambda>_. in_flight K b tx n m (k_cf K) k))"
    by (rule replace_rule [OF t plan_tracked [OF assms(1-3) F(1) cf facts(4)] assms(4)])
       (use F G H pl in \<open>blast intro: in_flightI\<close>)+
qed

lemma replace_key_rule:
  assumes "setting K" and "tx_shape K tx" and "new_pair K n m" and "k \<noteq> k_kf K"
  shows "triple (in_flight K b tx n m (k_cf K) k) (replaceRecovered k (k_kf K))
     (outcome (\<lambda>s. \<not> b \<and> (in_flight K b tx n m (k_cf K) k s \<or> in_flight K b tx n m (k_cf K) (k_kf K) s)) (\<lambda>_. in_flight K b tx n m (k_cf K) (k_kf K)))"
proof (rule flight_cases)
  let ?c = "k_cf K"
  fix F assume F: "plan K tx n m F" "found K n m ?c k F" "(?c, k) \<in> places tx"
  note pt = places_tx [OF assms(1,2) F(3)] and facts = tx_paths_facts [OF assms(1,2)] and S = settingD(3,4) [OF assms(1)]
  have kf: "k_kf K \<in> set (tx_paths tx)" using assms(2) by (simp add: tx_paths_def tx_shape_def)
  have pl: "(?c, k_kf K) \<in> places tx" using assms(2) facts(4,5) by (auto simp: places_def candidates_def tx_shape_def)
  from F obtain u w where u: "F k = Some (Some u)" "Some u \<in> {k_ok K, Some m}"
    using found_node [OF assms(1,3)] by metis
  have t: "tracked (dirs K) F k (Some u)" using plan_tracked [OF assms(1-3) F(1) pt(2,9)] u(1) by simp
  let ?G = "F(k_kf K \<mapsto> None)"
  have G: "plan K tx n m ?G" "found K n m ?c k ?G"
    using plan_drop [OF assms(1,2) F(1) kf] S found_other [OF F(2), of "k_kf K" None] assms(4) by auto
  have H: "plan K tx n m (?G(k \<mapsto> None, k_kf K \<mapsto> Some u))" "found K n m ?c (k_kf K) (?G(k \<mapsto> None, k_kf K \<mapsto> Some u))"
    using plan_key [OF assms(1,2) plan_drop [OF assms(1,2) G(1) pt(2,7)] u(2)]
      found_move_key [OF G(2), of "Some u" "k_kf K"] u(1) assms(4) pt(3) S by auto
  show "triple (base b (k_now K) (dirs K) F) (replaceRecovered k (k_kf K))
     (outcome (\<lambda>s. \<not> b \<and> (in_flight K b tx n m ?c k s \<or> in_flight K b tx n m ?c (k_kf K) s)) (\<lambda>_. in_flight K b tx n m ?c (k_kf K)))"
    by (rule replace_rule [OF t plan_tracked [OF assms(1-3) F(1) kf facts(5)] assms(4)])
       (use F G H pl in \<open>blast intro: in_flightI\<close>)+
qed

subsection \<open>Clean-up and the whole of recovery\<close>

lemma settledI:
  assumes "setting K" and "new_pair K n m" and "base b (k_now K) (dirs K) F s" and "F (journal K) = Some None"
    and "found K n m (k_cf K) (k_kf K) F"
  shows "settled K b s"
proof -
  have ne: "k_cf K \<noteq> []" "k_kf K \<noteq> []" "journal K \<noteq> []"
    using settingD(1,2) [OF assms(1)] target_nonempty transactionPath_path(1) by blast+
  have "base b (k_now K) {} Map.empty s" "clear K s" using assms(3) by (simp_all add: base_def clear_def)
  moreover have "lookup s (journal K) = None" using base_lookup [OF assms(3) ne(3) assms(4)] .
  moreover have "(lookup s (k_cf K), lookup s (k_kf K)) = (k_oc K, k_ok K) \<or>
      (\<exists>n m. new_pair K n m \<and> (lookup s (k_cf K), lookup s (k_kf K)) = (Some n, Some m))"
    using assms(2,5) base_lookup [OF assms(3) ne(1)] base_lookup [OF assms(3) ne(2)] by (auto simp: found_def)
  ultimately show ?thesis unfolding settled_def by blast
qed

lemma settled_safe: "settled K b s \<Longrightarrow> safe K b s"
  by (simp add: safe_def)

lemma finish_rule:
  assumes "setting K" and "tx_shape K tx" and "new_pair K n m"
  shows "triple (in_flight K b tx n m (k_cf K) (k_kf K)) (finishTransaction tx) (outcome (\<lambda>s. \<not> b \<and> safe K b s) (\<lambda>_. settled K b))"
proof -
  let ?I = "in_flight K b tx n m (k_cf K) (k_kf K)"
  note facts = tx_paths_facts [OF assms(1,2)]
  have sh: "tx_CertFile tx = k_cf K" "tx_KeyFile tx = k_kf K" using assms(2) by (simp_all add: tx_shape_def)
  have safe: "safe K b s" if "?I s" for s using that assms(2,3) by (auto simp: safe_def)
  have aux: "triple ?I (removeIfExists p) (outcome (\<lambda>s. \<not> b \<and> ?I s) (\<lambda>_. ?I))"
    if p: "p \<in> set [tx_CertTemp tx, tx_KeyTemp tx, tx_CertBackup tx, tx_KeyBackup tx]" for p
  proof (cases "p = []")
    case True
    then show ?thesis by (auto simp: removeIfExists_def intro: triple_ret)
  next
    case False
    with p facts have other: "p \<notin> {k_cf K, k_kf K, journal K}" by auto
    have pp: "p \<in> set (tx_paths tx)" using p by (auto simp: tx_paths_def)
    show ?thesis
    proof (rule flight_cases)
      fix F assume F: "plan K tx n m F" "found K n m (k_cf K) (k_kf K) F" "(k_cf K, k_kf K) \<in> places tx"
      have G: "plan K tx n m (F(p \<mapsto> None))" "found K n m (k_cf K) (k_kf K) (F(p \<mapsto> None))"
        using plan_drop [OF assms(1,2) F(1) pp] found_other [OF F(2), of p None] other by auto
      have "triple (base b (k_now K) (dirs K) F) (removeIfExists p)
         (outcome (\<lambda>s. \<not> b \<and> (base b (k_now K) (dirs K) F s \<or> base b (k_now K) (dirs K) (F(p \<mapsto> None)) s)) (\<lambda>_. base b (k_now K) (dirs K) (F(p \<mapsto> None))))"
        using trackedD [OF plan_tracked [OF assms F(1) pp False]] by (intro removeIfExists_rule [of _ F "the (F p)"]) simp
      then show "triple (base b (k_now K) (dirs K) F) (removeIfExists p) (outcome (\<lambda>s. \<not> b \<and> ?I s) (\<lambda>_. ?I))"
        by (rule triple_outcome) (use F G in \<open>blast intro: in_flightI\<close>)+
    qed
  qed
  have J: "triple ?I (removeIfExists (journal K)) (outcome (\<lambda>s. \<not> b \<and> safe K b s)
     (\<lambda>_ s. \<exists>F. base b (k_now K) (dirs K) F s \<and> F (journal K) = Some None \<and> found K n m (k_cf K) (k_kf K) F))"
  proof (rule flight_cases)
    fix F assume F: "plan K tx n m F" "found K n m (k_cf K) (k_kf K) F" "(k_cf K, k_kf K) \<in> places tx"
    have jp: "journal K \<in> set (tx_paths tx)" by (simp add: tx_paths_def sh)
    have G: "found K n m (k_cf K) (k_kf K) (F(journal K \<mapsto> None))"
      using found_other [OF F(2)] facts(12) settingD(4) [OF assms(1)] by auto
    have set: "settled K b s" if "base b (k_now K) (dirs K) (F(journal K \<mapsto> None)) s" for s
      using settledI [OF assms(1,3) that _ G] by simp
    have "triple (base b (k_now K) (dirs K) F) (removeIfExists (journal K))
       (outcome (\<lambda>s. \<not> b \<and> (base b (k_now K) (dirs K) F s \<or> base b (k_now K) (dirs K) (F(journal K \<mapsto> None)) s)) (\<lambda>_. base b (k_now K) (dirs K) (F(journal K \<mapsto> None))))"
      using trackedD [OF plan_tracked [OF assms F(1) jp facts(6)]] by (intro removeIfExists_rule [of _ F "the (F (journal K))"]) simp
    then show "triple (base b (k_now K) (dirs K) F) (removeIfExists (journal K)) (outcome (\<lambda>s. \<not> b \<and> safe K b s)
     (\<lambda>_ s. \<exists>F. base b (k_now K) (dirs K) F s \<and> F (journal K) = Some None \<and> found K n m (k_cf K) (k_kf K) F))"
    proof (rule triple_outcome)
      show "\<not> b \<and> safe K b s" if "\<not> b \<and> (base b (k_now K) (dirs K) F s \<or> base b (k_now K) (dirs K) (F(journal K \<mapsto> None)) s)" for s
        using that by (blast intro: safe in_flightI [OF _ F] settled_safe set)
      show "\<exists>F. base b (k_now K) (dirs K) F s \<and> F (journal K) = Some None \<and> found K n m (k_cf K) (k_kf K) F"
        if "base b (k_now K) (dirs K) (F(journal K \<mapsto> None)) s" for s x
        using that G by (intro exI [of _ "F(journal K \<mapsto> None)"]) simp
    qed
  qed
  have S: "triple (\<lambda>s. \<exists>F. base b (k_now K) (dirs K) F s \<and> F (journal K) = Some None \<and> found K n m (k_cf K) (k_kf K) F)
      (syncRelevantDirs [k_cf K, k_kf K, journal K]) (outcome (\<lambda>s. \<not> b \<and> safe K b s) (\<lambda>_. settled K b))"
  proof (rule triple_exists)
    fix F
    have "triple (base b (k_now K) (dirs K) F) (syncRelevantDirs [k_cf K, k_kf K, journal K]) (outcome (failed b (k_now K) (dirs K) F) (\<lambda>_. base b (k_now K) (dirs K) F))"
      using Dir_in_dirs [OF assms(1)] transactionPath_path(2) [OF settingD(1) [OF assms(1)]] by (intro syncRelevantDirs_rule) auto
    then show "triple (\<lambda>s. base b (k_now K) (dirs K) F s \<and> F (journal K) = Some None \<and> found K n m (k_cf K) (k_kf K) F)
      (syncRelevantDirs [k_cf K, k_kf K, journal K]) (outcome (\<lambda>s. \<not> b \<and> safe K b s) (\<lambda>_. settled K b))"
      by (intro triple_pure2) (auto elim!: triple_outcome intro: settledI [OF assms(1,3)] simp: safe_def)
  qed
  have E: "outcome (\<lambda>s. \<not> b \<and> safe K b s) (\<lambda>_. settled K b) (Inl e) s" if "\<not> b \<and> ?I s" for e s
    unfolding outcome_simps using that safe by blast
  have rest: "triple ?I (check (removeIfExists (journal K)) (\<lambda>_. syncRelevantDirs [k_cf K, k_kf K, journal K]))
      (outcome (\<lambda>s. \<not> b \<and> safe K b s) (\<lambda>_. settled K b))"
    by (rule triple_check [OF J S]) (unfold outcome_simps, assumption)
  show ?thesis unfolding finishTransaction_def sh
    by (rule triple_check [OF triple_for_each [OF aux] rest E])
qed

lemma recover_tx_rule:
  assumes "setting K" and "tx_shape K tx" and "new_pair K n m"
  shows "triple (in_flight K b tx n m c k) (recover_tx (k_P K) tx) (outcome (\<lambda>s. \<not> b \<and> safe K b s) (\<lambda>_. settled K b))"
proof -
  note facts = tx_paths_facts [OF assms(1,2)]
  have sh: "tx_CertFile tx = k_cf K" "tx_KeyFile tx = k_kf K" using assms(2) by (simp_all add: tx_shape_def)
  let ?cf = "k_cf K" and ?kf = "k_kf K" and ?Q = "outcome (\<lambda>s. \<not> b \<and> safe K b s) (\<lambda>_. settled K b)"
  have safe: "safe K b s" if "in_flight K b tx n m c k s" for s c k using that assms(2,3) by (auto simp: safe_def)
  have validate: "triple (in_flight K b tx n m c k) (validateTransactionPaths tx)
      (outcome (\<lambda>s. \<not> b \<and> in_flight K b tx n m c k s) (\<lambda>_. in_flight K b tx n m c k))"
    by (rule flight_cases, rule triple_outcome [OF validateTransactionPaths_rule [OF assms]]) (blast intro: in_flightI)+
  have paths: "triple (in_flight K b tx n m c k) (journal_paths (tx_paths tx) [] [])
      (outcome (\<lambda>s. \<not> b \<and> in_flight K b tx n m c k s) (\<lambda>_. in_flight K b tx n m c k))"
  proof (rule flight_cases)
    fix F assume F: "plan K tx n m F" "found K n m c k F" "(c, k) \<in> places tx"
    have "triple (base b (k_now K) (dirs K) F) (journal_paths (tx_paths tx) [] []) (outcome (failed b (k_now K) (dirs K) F) (\<lambda>_. base b (k_now K) (dirs K) F))"
      using plan_tracked [OF assms F(1)] tx_dirs(1) [OF assms(1,2)] facts(1) by (intro journal_paths_rule) (auto simp: target_path_def)
    then show "triple (base b (k_now K) (dirs K) F) (journal_paths (tx_paths tx) [] [])
      (outcome (\<lambda>s. \<not> b \<and> in_flight K b tx n m c k s) (\<lambda>_. in_flight K b tx n m c k))"
      by (rule triple_outcome) (blast intro: in_flightI F)+
  qed
  have choose: "triple (in_flight K b tx n m c k) (choose_candidate (k_P K) (candidates tx)) (\<lambda>r s. case r of
        None \<Rightarrow> \<not> b \<and> in_flight K b tx n m c k s
      | Some d \<Rightarrow> d \<in> set (candidates tx) \<and> in_flight K b tx n m (cd_cert d) (cd_key d) s)"
  proof (rule flight_cases)
    fix F assume F: "plan K tx n m F" "found K n m c k F" "(c, k) \<in> places tx"
    have cand: "p \<in> set (tx_paths tx)" if "d \<in> set (candidates tx)" "p \<in> {cd_cert d, cd_key d}" for d p
      using that by (auto simp: candidates_def tx_paths_def)
    have pl: "(cd_cert d, cd_key d) \<in> places tx" if "d \<in> set (candidates tx)" "cd_cert d \<noteq> []" "cd_key d \<noteq> []" for d
      using that by (auto simp: places_def)
    from F(3) obtain d where d: "d \<in> set (candidates tx)" "c = cd_cert d" "k = cd_key d" "c \<noteq> []" "k \<noteq> []" by (auto simp: places_def)
    have u: "usable (k_P K) (k_now K) [] (the (F (cd_cert d))) (the (F (cd_key d)))"
      using found_usable [OF assms(1,3) F(2)] d by simp
    show "triple (base b (k_now K) (dirs K) F) (choose_candidate (k_P K) (candidates tx)) (\<lambda>r s. case r of
        None \<Rightarrow> \<not> b \<and> in_flight K b tx n m c k s
      | Some d \<Rightarrow> d \<in> set (candidates tx) \<and> in_flight K b tx n m (cd_cert d) (cd_key d) s)"
    proof (rule triple_post [OF choose_rule], goal_cases)
      case (1 e p)
      then show ?case using plan_tracked [OF assms F(1)] cand by blast
    next
      case (2 r s)
      then show ?case
        using d u in_flightI [OF _ F, of b s] in_flightI [OF _ F(1) usable_found [OF assms F(1) pl] pl]
        by (cases r) (auto dest: bspec [of _ _ d])
    qed
  qed
  have last: "triple (in_flight K b tx n m ?cf ?kf) (do {
        usable \<leftarrow> pairFilesUsable (k_P K) ?cf ?kf;
        if \<not> usable then ret (Inl (Msg ''TLS transaction recovery produced an unusable pair'')) else finishTransaction tx }) ?Q"
  proof (rule triple_bind)
    show "triple (in_flight K b tx n m ?cf ?kf) (pairFilesUsable (k_P K) ?cf ?kf) (\<lambda>r s. in_flight K b tx n m ?cf ?kf s \<and> (b \<longrightarrow> r))"
    proof (rule flight_cases)
      fix F assume F: "plan K tx n m F" "found K n m ?cf ?kf F" "(?cf, ?kf) \<in> places tx"
      note pt = places_tx [OF assms(1,2) F(3)]
      show "triple (base b (k_now K) (dirs K) F) (pairFilesUsable (k_P K) ?cf ?kf) (\<lambda>r s. in_flight K b tx n m ?cf ?kf s \<and> (b \<longrightarrow> r))"
        by (rule triple_post [OF pairFilesUsable_rule [OF plan_tracked [OF assms F(1) pt(1,8)] plan_tracked [OF assms F(1) pt(2,9)]]])
           (use F found_usable [OF assms(1,3) F(2)] in \<open>auto intro: in_flightI\<close>)
    qed
    show "triple (\<lambda>s. in_flight K b tx n m ?cf ?kf s \<and> (b \<longrightarrow> r))
        (if \<not> r then ret (Inl (Msg ''TLS transaction recovery produced an unusable pair'')) else finishTransaction tx) ?Q" for r
    proof (cases r)
      case True
      then show ?thesis using finish_rule [OF assms] by (auto intro: triple_pre)
    next
      case False
      then show ?thesis unfolding if_P [OF False] using safe by (intro triple_ret) (unfold outcome_simps, blast)
    qed
  qed
  have install: "triple (in_flight K b tx n m (cd_cert d) (cd_key d))
      (check (if cd_installCert d then replaceRecovered (cd_cert d) ?cf else ret (Inr ())) (\<lambda>_.
       check (if cd_installKey d then replaceRecovered (cd_key d) ?kf else ret (Inr ())) (\<lambda>_. do {
        usable \<leftarrow> pairFilesUsable (k_P K) ?cf ?kf;
        if \<not> usable then ret (Inl (Msg ''TLS transaction recovery produced an unusable pair'')) else finishTransaction tx }))) ?Q"
    if d: "d \<in> set (candidates tx)" for d
  proof -
    have ic: "cd_installCert d \<longleftrightarrow> cd_cert d \<noteq> ?cf" "cd_installKey d \<longleftrightarrow> cd_key d \<noteq> ?kf"
      using d facts settingD(3) [OF assms(1)] by (auto simp: candidates_def sh)
    have cert: "triple (in_flight K b tx n m (cd_cert d) (cd_key d)) (if cd_installCert d then replaceRecovered (cd_cert d) ?cf else ret (Inr ()))
        (outcome (\<lambda>s. \<not> b \<and> safe K b s) (\<lambda>_. in_flight K b tx n m ?cf (cd_key d)))"
    proof (cases "cd_installCert d")
      case True
      then show ?thesis unfolding if_P [OF True] using ic(1)
        by (intro triple_outcome [OF replace_cert_rule [OF assms]]) (blast intro: safe)+
    qed (use ic in \<open>auto intro: triple_ret\<close>)
    have key: "triple (in_flight K b tx n m ?cf (cd_key d)) (if cd_installKey d then replaceRecovered (cd_key d) ?kf else ret (Inr ()))
        (outcome (\<lambda>s. \<not> b \<and> safe K b s) (\<lambda>_. in_flight K b tx n m ?cf ?kf))"
    proof (cases "cd_installKey d")
      case True
      then show ?thesis unfolding if_P [OF True] using ic(2)
        by (intro triple_outcome [OF replace_key_rule [OF assms]]) (blast intro: safe)+
    qed (use ic in \<open>auto intro: triple_ret\<close>)
    show ?thesis by (intro triple_check [OF cert] triple_check [OF key] last) ((unfold outcome_simps)?, assumption)+
  qed
  have E: "?Q (Inl e) s" if "\<not> b \<and> in_flight K b tx n m c k s" for e s
    unfolding outcome_simps using that safe by blast
  show ?thesis unfolding recover_tx_def Let_def sh
  proof (rule triple_check [OF validate])
    show "triple (in_flight K b tx n m c k) (check (journal_paths [?cf, ?kf, tx_CertTemp tx, tx_KeyTemp tx, tx_CertBackup tx, tx_KeyBackup tx, journal K] [] []) (\<lambda>_. do {
        chosen \<leftarrow> choose_candidate (k_P K) (candidates tx);
        case chosen of
          None \<Rightarrow> ret (Inl (Msg ''TLS transaction cannot recover a matching certificate pair''))
        | Some d \<Rightarrow>
            check (if cd_installCert d then replaceRecovered (cd_cert d) ?cf else ret (Inr ())) (\<lambda>_.
            check (if cd_installKey d then replaceRecovered (cd_key d) ?kf else ret (Inr ())) (\<lambda>_. do {
              usable \<leftarrow> pairFilesUsable (k_P K) ?cf ?kf;
              if \<not> usable then ret (Inl (Msg ''TLS transaction recovery produced an unusable pair''))
              else finishTransaction tx })) })) ?Q" for x
    proof (rule triple_check [OF paths [unfolded tx_paths_def sh]], rule triple_bind [OF choose], goal_cases)
      case (1 y r)
      show ?case
      proof (cases r)
        case None
        then show ?thesis using E by (auto intro!: triple_ret)
      next
        case (Some d)
        then show ?thesis using install [of d] by (cases "d \<in> set (candidates tx)") (auto intro: triple_pre triple_absurd)
      qed
    qed (rule E)
  qed (rule E)
qed

lemma triple_disj: "triple P m Q \<Longrightarrow> triple P' m Q \<Longrightarrow> triple (\<lambda>s. P s \<or> P' s) m Q"
  by (auto simp: triple_def)

lemma settled_clock [simp]: "settled K b (s\<lparr>os_ticks := t\<rparr>) = settled K b s" "settled K b (s\<lparr>os_draws := t\<rparr>) = settled K b s"
  "settled K b (s\<lparr>os_held := h\<rparr>) = settled K b s"
  by (simp_all add: settled_def clear_def)

lemma safe_clock [simp]: "safe K b (s\<lparr>os_ticks := t\<rparr>) = safe K b s" "safe K b (s\<lparr>os_draws := t\<rparr>) = safe K b s"
  "safe K b (s\<lparr>os_held := h\<rparr>) = safe K b s"
  by (simp_all add: safe_def in_flight_def flight_def)

lemma settled_journal_missing:
  assumes "setting K" and "settled K b s"
  shows "read_file s (journal K) = Inl ENOENT"
proof -
  have "missing s (journal K) = ENOENT"
    using assms Dir_in_dirs(1) [OF assms(1)] transactionPath_path(2) [OF settingD(1) [OF assms(1)]]
    by (auto simp: missing_def settled_def clear_def)
  moreover have "lookup s (journal K) = None" using assms(2) by (simp add: settled_def)
  then have "resolve (Suc 39) s (journal K) = Inl (missing s (journal K))" by (simp only: resolve.simps option.case)
  ultimately show ?thesis by (simp add: read_file_def)
qed

lemma settled_calm: "settled K b s \<Longrightarrow> \<not> calm s \<Longrightarrow> \<not> b"
  by (auto simp: settled_def base_def)

theorem recover_rule:
  assumes "setting K"
  shows "triple (safe K b) (recoverCertificateTransaction (k_P K) (k_cf K) (k_kf K)) (outcome (\<lambda>s. \<not> b \<and> safe K b s) (\<lambda>_. settled K b))"
proof -
  let ?R = "recoverCertificateTransaction (k_P K) (k_cf K) (k_kf K)" and ?Q = "outcome (\<lambda>s. \<not> b \<and> safe K b s) (\<lambda>_. settled K b)"
  let ?k = "\<lambda>raw. case raw of
       Inl e \<Rightarrow> if is_not_exist e then ret (Inr ()) else ret (Inl (Os e))
     | Inr raw \<Rightarrow> (case decode_tx raw of
         None \<Rightarrow> ret (Inl (Msg ''decode TLS transaction journal''))
       | Some tx \<Rightarrow>
           if tx_CertFile tx \<noteq> k_cf K \<or> tx_KeyFile tx \<noteq> k_kf K
           then ret (Inl (Msg ''TLS transaction journal targets do not match configured paths''))
           else recover_tx (k_P K) tx)"
  have settled: "triple (settled K b) ?R ?Q"
    unfolding recoverCertificateTransaction_def
  proof (rule triple_bind)
    show "triple (settled K b) (ReadFile (journal K)) (\<lambda>r s. settled K b s \<and> (r = Inl ENOENT \<or> \<not> b \<and> r = Inl EIO))"
      unfolding ReadFile_def using settled_journal_missing [OF assms]
      by (intro triple_query) (auto dest: settled_calm simp: read_file_def)
    show "triple (\<lambda>s. settled K b s \<and> (r = Inl ENOENT \<or> \<not> b \<and> r = Inl EIO)) (?k r) ?Q" for r
    proof -
      consider "r = Inl ENOENT" | "r = Inl EIO" | "r \<noteq> Inl ENOENT" "r \<noteq> Inl EIO" by blast
      then show ?thesis
      proof cases
        case 3
        then show ?thesis by (intro triple_absurd) simp
      qed (auto intro!: triple_ret settled_safe)
    qed
  qed
  have flight: "triple (in_flight K b tx n m c k) ?R ?Q" if tx: "tx_shape K tx" "new_pair K n m" for tx n m c k
    unfolding recoverCertificateTransaction_def
  proof (rule triple_bind)
    note facts = tx_paths_facts [OF assms tx(1)]
    have sh: "tx_CertFile tx = k_cf K" "tx_KeyFile tx = k_kf K" using tx(1) by (simp_all add: tx_shape_def)
    let ?J = "json_Marshal (tx_json tx)"
    show "triple (in_flight K b tx n m c k) (ReadFile (journal K)) (\<lambda>r s. in_flight K b tx n m c k s \<and> (r = Inr ?J \<or> \<not> b \<and> r = Inl EIO))"
    proof (rule flight_cases)
      fix F assume F: "plan K tx n m F" "found K n m c k F" "(c, k) \<in> places tx"
      from F(1) obtain j where j: "F (journal K) = Some (Some j)" "n_data j = ?J" by (auto simp: plan_def)
      have t: "tracked (dirs K) F (journal K) (Some j)"
        using plan_tracked [OF assms tx F(1) _ facts(6)] j(1) by (simp add: tx_paths_def sh)
      show "triple (base b (k_now K) (dirs K) F) (ReadFile (journal K)) (\<lambda>r s. in_flight K b tx n m c k s \<and> (r = Inr ?J \<or> \<not> b \<and> r = Inl EIO))"
        by (rule triple_post [OF ReadFile_rule [of "journal K" F "Some j", OF trackedD(1) [OF t] trackedD(2) [OF t] trackedD(3) [OF t] trackedD(4) [OF t]]])
           (use j(2) in \<open>auto simp: read_result_def intro: in_flightI F\<close>)
    qed
    have E: "safe K b s" if "in_flight K b tx n m c k s" for s using that tx by (auto simp: safe_def)
    show "triple (\<lambda>s. in_flight K b tx n m c k s \<and> (r = Inr ?J \<or> \<not> b \<and> r = Inl EIO)) (?k r) ?Q" for r
    proof (cases "r = Inr ?J")
      case True
      then show ?thesis using decode_journal [OF assms tx(1)] recover_tx_rule [OF assms tx] by (auto simp: sh intro: triple_pre)
    next
      case False
      show ?thesis
      proof (cases "r = Inl EIO")
        case True
        then show ?thesis using E by (auto intro!: triple_ret)
      next
        case other: False
        with False show ?thesis by (intro triple_absurd) simp
      qed
    qed
  qed
  have "triple (\<lambda>s. \<exists>tx n m c k. tx_shape K tx \<and> new_pair K n m \<and> in_flight K b tx n m c k s) ?R ?Q"
    by (intro triple_exists triple_pure flight)
  with settled show ?thesis by (rule triple_pre [OF triple_disj]) (simp add: safe_def)
qed

end
