(* ===== verification/Cert_Rotation.thy ===== *)
theory Cert_Rotation
  imports Cert_Safety
begin

text \<open>
  Rotation keeps the TLS pair safe: the staging of new files before the journal, the journal itself and the four
  renames after it, then the entry points of \<^verbatim>\<open>cert.go\<close> and the theorem that spans a run disturbed anywhere and the
  recovery that follows it.
\<close>

section \<open>Staging\<close>

abbreviation (input) good :: "time \<Rightarrow> string set \<Rightarrow> (string \<rightharpoonup> node option) \<Rightarrow> os \<Rightarrow> bool" where
  "good now D F \<equiv> base False now D F"

lemma base_create:
  assumes "good now D F s" and "p \<noteq> []" and "lookup s p = None"
  shows "good now D (F(p \<mapsto> Some (new_node s k perm))) (put_node p (new_node s k perm) (s\<lparr>os_ino := Suc (os_ino s)\<rparr>))"
proof (rule base_put)
  have wf: "wf_os s" using assms(1) by (simp add: base_def)
  then have "wf_os (s\<lparr>os_ino := Suc (os_ino s)\<rparr>)" unfolding wf_os_def by (auto simp: less_Suc_eq)
  then show "good now D F (s\<lparr>os_ino := Suc (os_ino s)\<rparr>)" using assms(1) by (simp add: base_def)
  show "\<not> is_dir (s\<lparr>os_ino := Suc (os_ino s)\<rparr>) p" using assms(3) by (simp add: is_dir_def)
  show "n_ino (new_node s k perm) < os_ino (s\<lparr>os_ino := Suc (os_ino s)\<rparr>)" by (simp add: new_node_def)
  show "n_ino m \<noteq> n_ino (new_node s k perm)" if "lookup (s\<lparr>os_ino := Suc (os_ino s)\<rparr>) q = Some m" "q \<noteq> p" for q m
    using that wf by (fastforce simp: new_node_def wf_os_def)
qed

text \<open>A fresh file under a name that starts with a given prefix.\<close>

definition fresh :: "time \<Rightarrow> string set \<Rightarrow> (string \<rightharpoonup> node option) \<Rightarrow> (node \<Rightarrow> bool) \<Rightarrow> string \<Rightarrow> os \<Rightarrow> bool" where
  "fresh now D F R p s \<longleftrightarrow> p \<noteq> [] \<and> F p = None \<and> (\<exists>n. good now D (F(p \<mapsto> Some n)) s \<and> n_kind n = Regular \<and> R n)"

lemma fresh_weaken: "fresh now D F R p s \<Longrightarrow> good now D F s"
  unfolding fresh_def by (auto elim!: base_mono simp: map_le_def)

lemma OpenExcl_rule:
  assumes "p \<noteq> []" and "F p \<noteq> Some None"
  shows "triple (good now D F) (OpenExcl p) (outcome (good now D F) (\<lambda>_. fresh now D F (\<lambda>_. True) p))"
  unfolding OpenExcl_def
proof (rule triple_modify, goal_cases)
  case (3 s s')
  let ?s = "s\<lparr>os_ticks := Suc (os_ticks s)\<rparr>"
  have g: "good now D F ?s" using 3 by simp
  have l: "lookup ?s p = None" and s': "s' = put_node p (new_node ?s Regular 0x180) (?s\<lparr>os_ino := Suc (os_ino ?s)\<rparr>)"
    using 3(2) by (auto simp: create_node_def split: if_splits)
  have "F p = None" using base_lookup [OF g assms(1)] l assms(2) by (cases "F p") auto
  moreover have "n_kind (new_node ?s Regular 0x180) = Regular" by (simp add: new_node_def)
  ultimately show ?case using base_create [OF g assms(1) l] assms(1) unfolding outcome_simps s' fresh_def by blast
qed simp_all

lemma next_random_rule: "triple (good now D F) next_random (\<lambda>r s. good now D F s \<and> (\<exists>k. r = utoa k))"
  by (auto simp: triple_def next_random_def)

lemma create_temp_rule:
  assumes "\<And>r. F (prefix @ utoa r) \<noteq> Some None"
  shows "triple (good now D F) (create_temp k prefix) (outcome (good now D F) (\<lambda>name s. fresh now D F (\<lambda>_. True) name s \<and> (\<exists>r. name = prefix @ utoa r)))"
proof (induction k)
  case 0
  show ?case by (auto intro: triple_ret)
next
  case (Suc k)
  show ?case unfolding create_temp.simps
  proof (rule triple_bind [OF next_random_rule], rule triple_pure2, elim exE, hypsubst)
    fix j
    have "prefix @ utoa j \<noteq> []" by simp
    from OpenExcl_rule [where p = "prefix @ utoa j" and F = F, OF this assms, of now D]
    show "triple (good now D F) (OpenExcl (prefix @ utoa j) \<bind> (\<lambda>e. case e of
       Inr _ \<Rightarrow> ret (Inr (prefix @ utoa j))
     | Inl e \<Rightarrow> if e = EEXIST then create_temp k prefix else ret (Inl e)))
     (outcome (good now D F) (\<lambda>name s. fresh now D F (\<lambda>_. True) name s \<and> (\<exists>r. name = prefix @ utoa r)))"
      by (rule triple_bind) (auto intro!: triple_ret Suc split: sum.splits)
  qed
qed

lemma CreateTemp_rule:
  assumes "\<And>p. sibling target kind p \<Longrightarrow> F p \<noteq> Some None"
  shows "triple (good now D F) (CreateTemp (Dir target) (sibling_pattern target kind))
     (outcome (good now D F) (\<lambda>name s. fresh now D F (\<lambda>_. True) name s \<and> sibling target kind name))"
proof -
  have "triple (good now D F) (create_temp 10000 (joinPath (Dir target) (sibling_pattern target kind)))
     (outcome (good now D F) (\<lambda>name s. fresh now D F (\<lambda>_. True) name s \<and> (\<exists>r. name = joinPath (Dir target) (sibling_pattern target kind) @ utoa r)))"
    using assms by (intro create_temp_rule) (auto simp: sibling_def)
  then show ?thesis unfolding CreateTemp_def
    by (auto intro!: triple_ret elim!: triple_bind simp: sibling_def outcome_def split: sum.splits)
qed

lemma base_update_data:
  assumes "good now D (F(p \<mapsto> Some n)) s" and "p \<noteq> []" and "n_kind n = Regular" and "n_ino (f n) = n_ino n"
  shows "good now D (F(p \<mapsto> Some (f n))) (update_data p f s)"
proof -
  have l: "lookup s p = Some n" using base_lookup [OF assms(1,2)] by simp
  have wf: "wf_os s" using assms(1) by (simp add: base_def)
  have "\<not> is_dir s p" using l assms(3) by (simp add: is_dir_def)
  then have "good now D (F(p \<mapsto> Some n, p \<mapsto> Some (f n))) (put_node p (f n) s)"
  proof (rule base_put [OF assms(1)])
    show "n_ino (f n) < os_ino s" using wf l assms(4) by (auto simp: wf_os_def)
    show "n_ino m \<noteq> n_ino (f n)" if "lookup s q = Some m" "q \<noteq> p" for q m
      using that wf l assms(4) by (auto simp: wf_os_def)
  qed
  then show ?thesis by (simp add: update_data_def l)
qed

lemma fresh_update:
  assumes "fresh now D F R p s" and "\<And>n. n_ino (f n) = n_ino n \<and> n_kind (f n) = n_kind n" and "\<And>n. R n \<Longrightarrow> R' (f n)"
  shows "fresh now D F R' p (update_data p f s)"
proof -
  from assms(1) obtain n where n: "p \<noteq> []" "F p = None" "good now D (F(p \<mapsto> Some n)) s" "n_kind n = Regular" "R n"
    by (auto simp: fresh_def)
  have "good now D (F(p \<mapsto> Some (f n))) (update_data p f s)" by (rule base_update_data [OF n(3,1,4)]) (simp add: assms(2))
  then show ?thesis unfolding fresh_def using n assms(2,3) by (intro conjI exI [of _ "f n"]) auto
qed

lemma fresh_clock [simp]: "fresh now D F R p (s\<lparr>os_ticks := t\<rparr>) = fresh now D F R p s"
  by (simp add: fresh_def)

lemma fresh_any: "fresh now D F R p s \<Longrightarrow> fresh now D F (\<lambda>_. True) p s"
  by (auto simp: fresh_def)

lemma Chmod_rule:
  "triple (fresh now D F R p) (os_err (Chmod p perm)) (outcome (fresh now D F (\<lambda>_. True) p) (\<lambda>_. fresh now D F (\<lambda>n. n_perm n = perm) p))"
  unfolding Chmod_def
proof (rule triple_os_err, rule triple_modify, goal_cases)
  case (3 s s')
  then have "s' = update_data p (\<lambda>n. n\<lparr>n_perm := perm\<rparr>) (s\<lparr>os_ticks := Suc (os_ticks s)\<rparr>)" by simp
  moreover have "fresh now D F R p (s\<lparr>os_ticks := Suc (os_ticks s)\<rparr>)" using 3 by simp
  then have "fresh now D F (\<lambda>n. n_perm n = perm) p (update_data p (\<lambda>n. n\<lparr>n_perm := perm\<rparr>) (s\<lparr>os_ticks := Suc (os_ticks s)\<rparr>))"
    by (rule fresh_update) simp_all
  ultimately show ?case by simp
qed (auto dest: fresh_any)

lemma Write_rule:
  "triple (fresh now D F (\<lambda>n. n_perm n = perm) p) (os_err (Write p b))
     (outcome (fresh now D F (\<lambda>_. True) p) (\<lambda>_. fresh now D F (\<lambda>n. n_perm n = perm \<and> n_data n = b) p))"
proof (rule triple_os_err, unfold triple_def, intro allI impI)
  fix s assume "fresh now D F (\<lambda>n. n_perm n = perm) p s"
  then have f: "fresh now D F (\<lambda>n. n_perm n = perm) p (s\<lparr>os_ticks := Suc (os_ticks s)\<rparr>)" by simp
  have "fresh now D F (\<lambda>n. n_perm n = perm \<and> n_data n = x) p (update_data p (\<lambda>n. n\<lparr>n_data := x\<rparr>) (s\<lparr>os_ticks := Suc (os_ticks s)\<rparr>))" for x
    using f by (rule fresh_update) auto
  then show "case run_state (Write p b) s of (r, s') \<Rightarrow>
      outcome (fresh now D F (\<lambda>_. True) p) (\<lambda>_. fresh now D F (\<lambda>n. n_perm n = perm \<and> n_data n = b) p) r s'"
    by (auto simp: Write_def sys_def split: option.splits dest: fresh_any)
qed

text \<open>What a fresh file stands for after calls that leave the tree alone.\<close>

lemma fresh_steady:
  assumes "\<And>G. triple (good now D G) m (\<lambda>_. good now D G)"
  shows "triple (fresh now D F R p) m (\<lambda>_. fresh now D F R p)"
  unfolding triple_def
proof (intro allI impI)
  fix s assume "fresh now D F R p s"
  then obtain n where n: "p \<noteq> []" "F p = None" "good now D (F(p \<mapsto> Some n)) s" "n_kind n = Regular" "R n"
    by (auto simp: fresh_def)
  from assms [of "F(p \<mapsto> Some n)"] n(3) have "good now D (F(p \<mapsto> Some n)) (snd (run_state m s))"
    by (cases "run_state m s") (auto simp: triple_def)
  with n show "case run_state m s of (r, s') \<Rightarrow> fresh now D F R p s'" by (auto simp: fresh_def split: prod.splits)
qed

lemma outcome_same: "outcome (\<lambda>s. \<not> b \<and> A s) (\<lambda>_. A) r s \<Longrightarrow> A s"
  by (cases r) auto

lemma Sync_keeps: "triple (good now D F) (os_err Sync) (\<lambda>_. good now D F)"
  by (rule triple_post [OF Sync_rule]) (rule outcome_same)

lemma Close_keeps: "triple (good now D F) (os_err Close) (\<lambda>_. good now D F)"
  by (rule triple_post [OF Close_rule]) (rule outcome_same)

lemma syncDirectory_keeps: "triple (good now D F) (syncDirectory d) (\<lambda>_. good now D F)"
  by (rule triple_post [OF syncDirectory_rule]) (simp, rule outcome_same)

lemma remove_fresh:
  assumes "Dir p \<in> D"
  shows "triple (fresh now D F R p) (removeIfExists p) (\<lambda>_. good now D F)"
proof (rule triple_pre [where P = "\<lambda>s. \<exists>n. (p \<noteq> [] \<and> F p = None \<and> n_kind n = Regular) \<and> good now D (F(p \<mapsto> Some n)) s"])
  show "triple (\<lambda>s. \<exists>n. (p \<noteq> [] \<and> F p = None \<and> n_kind n = Regular) \<and> good now D (F(p \<mapsto> Some n)) s) (removeIfExists p) (\<lambda>_. good now D F)"
  proof (intro triple_exists triple_pure)
    fix n :: node assume n: "p \<noteq> [] \<and> F p = None \<and> n_kind n = Regular"
    have w: "good now D F s" if "good now D (F(p \<mapsto> v)) s" for s v
      using that by (rule base_mono) (use n in \<open>auto simp: map_le_def\<close>)
    have "triple (good now D (F(p \<mapsto> Some n))) (removeIfExists p)
      (outcome (\<lambda>s. \<not> False \<and> (good now D (F(p \<mapsto> Some n)) s \<or> good now D (F(p \<mapsto> Some n, p \<mapsto> None)) s)) (\<lambda>_. good now D (F(p \<mapsto> Some n, p \<mapsto> None))))"
      using n assms by (intro removeIfExists_rule [where v = "Some n"]) simp
    then show "triple (good now D (F(p \<mapsto> Some n))) (removeIfExists p) (\<lambda>_. good now D F)"
      by (rule triple_post) (use w in \<open>auto simp: outcome_def split: sum.splits\<close>)
  qed
qed (auto simp: fresh_def)

lemma stage_fail_rule: "Dir p \<in> D \<Longrightarrow> triple (fresh now D F R p) (stage_fail p e) (outcome (good now D F) Q)"
  unfolding stage_fail_def
  by (rule triple_bind [OF fresh_steady [OF Close_keeps]], rule triple_bind [OF remove_fresh], assumption) (auto intro: triple_ret)

lemma unstage_rule: "Dir p \<in> D \<Longrightarrow> triple (fresh now D F R p) (unstage p e) (outcome (good now D F) Q)"
  unfolding unstage_def by (rule triple_bind [OF remove_fresh], assumption) (auto intro: triple_ret)

lemma triple_bind_sum:
  assumes "triple P m (outcome E R)" and "\<And>e. triple E (f e) Q" and "\<And>x. triple (R x) (g x) Q"
  shows "triple P (m \<bind> (\<lambda>r. case r of Inl e \<Rightarrow> f e | Inr x \<Rightarrow> g x)) Q"
  by (rule triple_bind [OF assms(1)]) (use assms(2,3) in \<open>auto split: sum.splits\<close>)

lemma keeps_outcome: "triple P m (\<lambda>_. P) \<Longrightarrow> triple P m (outcome P (\<lambda>_. P))"
  by (erule triple_post) (simp add: outcome_def split: sum.splits)

lemma stageFile_rule:
  assumes "target_path target" and "Dir target \<in> D" and "\<And>p. sibling target ''tmp'' p \<Longrightarrow> F p \<noteq> Some None"
  shows "triple (good now D F) (stageFile target contents mode)
     (outcome (good now D F) (\<lambda>name s. fresh now D F (\<lambda>n. n_perm n = mode \<and> n_data n = contents) name s \<and> sibling target ''tmp'' name))"
  (is "triple _ _ ?Q")
  unfolding stageFile_def
proof (rule triple_check [OF CreateTemp_rule], goal_cases)
  case (1 p)
  then show ?case by (rule assms(3))
next
  case (2 name)
  show ?case
  proof (rule triple_pure2)
    assume sib: "sibling target ''tmp'' name"
    then have d: "Dir name \<in> D" using sibling_path(2) [OF sib assms(1)] assms(2) by simp
    let ?R = "\<lambda>n. n_perm n = mode \<and> n_data n = contents"
    note fail = stage_fail_rule [OF d] and un = unstage_rule [OF d]
    note sync = keeps_outcome [OF fresh_steady [OF Sync_keeps], of now D F ?R name]
      and close = keeps_outcome [OF fresh_steady [OF Close_keeps], of now D F ?R name]
      and dir = keeps_outcome [OF fresh_steady [OF syncDirectory_keeps], of now D F ?R name]
    show "triple (fresh now D F (\<lambda>_. True) name) (do {
       r \<leftarrow> os_err (Chmod name mode);
       case r of Inl e \<Rightarrow> stage_fail name e | Inr _ \<Rightarrow> do {
       r \<leftarrow> os_err (Write name contents);
       case r of Inl e \<Rightarrow> stage_fail name e | Inr _ \<Rightarrow> do {
       r \<leftarrow> os_err Sync;
       case r of Inl e \<Rightarrow> stage_fail name e | Inr _ \<Rightarrow> do {
       r \<leftarrow> os_err Close;
       case r of Inl e \<Rightarrow> unstage name e | Inr _ \<Rightarrow> do {
       r \<leftarrow> syncDirectory (Dir target);
       case r of Inl e \<Rightarrow> unstage name e | Inr _ \<Rightarrow> ret (Inr name) }}}}}) ?Q"
      by (intro triple_bind_sum [OF Chmod_rule] triple_bind_sum [OF Write_rule] triple_bind_sum [OF sync]
          triple_bind_sum [OF close] triple_bind_sum [OF dir] fail un triple_ret) (simp add: sib)
  qed
next
  case (3 s e)
  then show ?case by simp
qed

lemma Remove_fresh_rule:
  assumes "Dir p \<in> D"
  shows "triple (fresh now D F R p) (os_err (Remove p)) (outcome (good now D F) (\<lambda>_ s. good now D (F(p \<mapsto> None)) s))"
proof (rule triple_pre [where P = "\<lambda>s. \<exists>n. (p \<noteq> [] \<and> F p = None \<and> n_kind n = Regular) \<and> good now D (F(p \<mapsto> Some n)) s"])
  show "triple (\<lambda>s. \<exists>n. (p \<noteq> [] \<and> F p = None \<and> n_kind n = Regular) \<and> good now D (F(p \<mapsto> Some n)) s) (os_err (Remove p))
     (outcome (good now D F) (\<lambda>_ s. good now D (F(p \<mapsto> None)) s))"
  proof (intro triple_exists triple_pure triple_os_err)
    fix n :: node assume n: "p \<noteq> [] \<and> F p = None \<and> n_kind n = Regular"
    have w: "good now D F s" if "good now D (F(p \<mapsto> v)) s" for s v
      using that by (rule base_mono) (use n in \<open>auto simp: map_le_def\<close>)
    show "triple (good now D (F(p \<mapsto> Some n))) (Remove p) (outcome (good now D F) (\<lambda>_ s. good now D (F(p \<mapsto> None)) s))"
      by (rule triple_post [OF Remove_rule [where v = "Some n"]]) (use n assms w in \<open>auto simp: outcome_def split: sum.splits\<close>)
  qed
qed (auto simp: fresh_def)

lemma unpin: "good now D (F(p \<mapsto> v)) s \<Longrightarrow> F p = None \<Longrightarrow> good now D F s"
  by (erule base_mono) (auto simp: map_le_def)

lemma reserveSibling_rule:
  assumes "target_path target" and "Dir target \<in> D" and "kind \<in> kinds" and "\<And>p. sibling target kind p \<Longrightarrow> F p \<noteq> Some None"
  shows "triple (good now D F) (reserveSibling target kind)
     (outcome (good now D F) (\<lambda>name s. good now D (F(name \<mapsto> None)) s \<and> F name = None \<and> sibling target kind name))"
  (is "triple _ _ ?Q")
  unfolding reserveSibling_def
proof (rule triple_check [OF CreateTemp_rule], goal_cases)
  case (1 p)
  then show ?case by (rule assms(4))
next
  case (2 name)
  show ?case
  proof (rule triple_pure2)
    assume sib: "sibling target kind name"
    then have d: "Dir name \<in> D" using sibling_path(2) [OF sib assms(1,3)] assms(2) by simp
    have rm: "triple (fresh now D F (\<lambda>_. True) name) (os_err (Remove name))
       (outcome (good now D F) (\<lambda>_ s. good now D (F(name \<mapsto> None)) s \<and> F name = None))"
      by (rule triple_pre [OF triple_conj [where P' = "\<lambda>_. F name = None" and Q' = "\<lambda>_ _. F name = None", OF Remove_fresh_rule [OF d]], THEN triple_post])
         (auto simp: triple_def fresh_def outcome_def split: sum.splits)
    have close: "triple (fresh now D F (\<lambda>_. True) name) (os_err Close) (outcome (fresh now D F (\<lambda>_. True) name) (\<lambda>_. fresh now D F (\<lambda>_. True) name))"
      by (rule keeps_outcome [OF fresh_steady [OF Close_keeps]])
    have dir: "triple (\<lambda>s. good now D (F(name \<mapsto> None)) s \<and> F name = None) (syncDirectory (Dir target))
       (outcome (good now D F) (\<lambda>_ s. good now D (F(name \<mapsto> None)) s \<and> F name = None))"
      by (rule triple_pure2, rule triple_post [OF syncDirectory_keeps])
         (auto simp: outcome_def intro: unpin split: sum.splits)
    have un: "triple (fresh now D F (\<lambda>_. True) name) (do { r \<leftarrow> removeIfExists name; ret (Inl (Joined ([e] @ err_of r))) }) ?Q" for e
      by (rule triple_bind [OF remove_fresh [OF d]]) (auto intro: triple_ret)
    show "triple (fresh now D F (\<lambda>_. True) name) (do {
       c \<leftarrow> os_err Close;
       case c of
         Inl e \<Rightarrow> do { r \<leftarrow> removeIfExists name; ret (Inl (Joined ([e] @ err_of r))) }
       | Inr _ \<Rightarrow> check (os_err (Remove name)) (\<lambda>_. check (syncDirectory (Dir target)) (\<lambda>_. ret (Inr name))) }) ?Q"
      by (intro triple_bind_sum [OF close] triple_check [OF rm] triple_check [OF dir] triple_ret un) (simp_all add: sib)
  qed
next
  case (3 s e)
  then show ?case by simp
qed

section \<open>Up to the journal\<close>

definition F0 :: "tls_case \<Rightarrow> string \<rightharpoonup> node option" where
  "F0 K = [k_cf K \<mapsto> k_oc K, k_kf K \<mapsto> k_ok K, journal K \<mapsto> None]"

lemma F0_simps:
  assumes "setting K"
  shows "F0 K (k_cf K) = Some (k_oc K)" and "F0 K (k_kf K) = Some (k_ok K)" and "F0 K (journal K) = Some None"
    and "p \<notin> {k_cf K, k_kf K, journal K} \<Longrightarrow> F0 K p = None"
  using settingD(3,4) [OF assms] transactionPath_path(3) [OF settingD(1) [OF assms]] by (auto simp: F0_def)

text \<open>The transaction is complete in every respect but its journal.\<close>

definition staged :: "tls_case \<Rightarrow> certificateTransaction \<Rightarrow> node \<Rightarrow> node \<Rightarrow> (string \<rightharpoonup> node option) \<Rightarrow> bool" where
  "staged K tx n m F \<longleftrightarrow> tx_shape K tx \<and> new_pair K n m \<and> F0 K \<subseteq>\<^sub>m F \<and>
     F (tx_CertTemp tx) = Some (Some n) \<and> F (tx_KeyTemp tx) = Some (Some m) \<and>
     (tx_CertBackup tx \<noteq> [] \<longrightarrow> F (tx_CertBackup tx) = Some None \<and> k_oc K \<noteq> None) \<and>
     (tx_KeyBackup tx \<noteq> [] \<longrightarrow> F (tx_KeyBackup tx) = Some None \<and> k_ok K \<noteq> None) \<and>
     (\<forall>p. F p = Some None \<longrightarrow> p \<in> {k_cf K, k_kf K, journal K, tx_CertBackup tx, tx_KeyBackup tx})"

lemma fresh_elim:
  assumes "\<And>n. p \<noteq> [] \<Longrightarrow> F p = None \<Longrightarrow> n_kind n = Regular \<Longrightarrow> R n \<Longrightarrow> triple (good now D (F(p \<mapsto> Some n))) m Q"
  shows "triple (fresh now D F R p) m Q"
proof (rule triple_pre [where P = "\<lambda>s. \<exists>n. (p \<noteq> [] \<and> F p = None \<and> n_kind n = Regular \<and> R n) \<and> good now D (F(p \<mapsto> Some n)) s"])
  show "triple (\<lambda>s. \<exists>n. (p \<noteq> [] \<and> F p = None \<and> n_kind n = Regular \<and> R n) \<and> good now D (F(p \<mapsto> Some n)) s) m Q"
    using assms by (intro triple_exists triple_pure) blast
qed (auto simp: fresh_def)

text \<open>Removing files that are pinned over a map of others.\<close>

definition over :: "string set \<Rightarrow> (string \<rightharpoonup> node option) \<Rightarrow> string list \<Rightarrow> (string \<rightharpoonup> node option) \<Rightarrow> bool" where
  "over D F ps G \<longleftrightarrow> F \<subseteq>\<^sub>m G \<and> (\<forall>p \<in> set ps. p \<noteq> [] \<longrightarrow> (\<exists>v. G p = Some v \<and> plain v) \<and> Dir p \<in> D \<and> F p = None)"

lemma remove_all_rule:
  "triple (\<lambda>s. \<exists>G. over D F ps G \<and> good now D G s) (remove_all ps errs) (\<lambda>_. good now D F)"
proof (induction ps arbitrary: errs)
  case Nil
  show ?case by (auto intro!: triple_ret simp: over_def elim: base_mono)
next
  case (Cons p ps)
  have "triple (good now D G) (removeIfExists p) (\<lambda>_ s. \<exists>G. over D F ps G \<and> good now D G s)" if G: "over D F (p # ps) G" for G
  proof (cases "p = []")
    case True
    with G show ?thesis by (auto simp: removeIfExists_def over_def intro!: triple_ret)
  next
    case False
    with G obtain v where v: "G p = Some v" "plain v" "Dir p \<in> D" "F p = None" by (auto simp: over_def)
    have G': "over D F ps G" and G'': "over D F ps (G(p \<mapsto> None))"
      using G v(4) by (auto simp: over_def map_le_def dom_def)
    have "triple (good now D G) (removeIfExists p)
      (outcome (\<lambda>s. \<not> False \<and> (good now D G s \<or> good now D (G(p \<mapsto> None)) s)) (\<lambda>_. good now D (G(p \<mapsto> None))))"
      using v False by (intro removeIfExists_rule [where v = v]) simp
    then show ?thesis by (rule triple_post) (use G' G'' in \<open>auto simp: outcome_def split: sum.splits\<close>)
  qed
  then have "triple (\<lambda>s. \<exists>G. over D F (p # ps) G \<and> good now D G s) (removeIfExists p) (\<lambda>_ s. \<exists>G. over D F ps G \<and> good now D G s)"
    by (intro triple_exists triple_pure)
  then show ?case unfolding remove_all.simps by (rule triple_bind) (rule Cons.IH)
qed

lemma cleanup_rule:
  assumes "over D F ps G"
  shows "triple (good now D G) (cleanupOnPrepareError e ps) (outcome (good now D F) Q)"
  unfolding cleanupOnPrepareError_def
  by (rule triple_bind [OF triple_pre [OF remove_all_rule]]) (use assms in \<open>auto intro!: triple_ret\<close>)

lemma regularFileState_rule:
  assumes "p \<noteq> []" and "F p = Some v" and "Dir p \<in> D"
  shows "triple (good now D F) (regularFileState p) (\<lambda>r s. good now D F s \<and> (r = Inr True \<longrightarrow> v \<noteq> None) \<and> (r = Inr False \<longrightarrow> v = None))"
  unfolding regularFileState_def
proof (rule triple_bind [OF Lstat_rule [of p F v, OF assms(1,2)]])
  show "v = None \<longrightarrow> Dir p \<in> D" using assms(3) by simp
  show "triple (\<lambda>s. good now D F s \<and> (r = stat_result v \<or> \<not> False \<and> r = Inl EIO)) (case r of
       Inl e \<Rightarrow> if is_not_exist e then ret (Inr False) else ret (Inl (Os e))
     | Inr n \<Rightarrow> if n_kind n \<noteq> Regular then ret (Inl (Msg ''TLS path is not a regular file'')) else ret (Inr True))
     (\<lambda>r s. good now D F s \<and> (r = Inr True \<longrightarrow> v \<noteq> None) \<and> (r = Inr False \<longrightarrow> v = None))" for r
    by (cases v; cases r) (auto intro!: triple_ret simp: stat_result_def)
qed

lemma reserve_if_rule:
  assumes "target_path target" and "Dir target \<in> D" and "over D F ps G" and "ex = Inr True \<longrightarrow> A"
    and "\<And>p. sibling target ''backup'' p \<Longrightarrow> G p \<noteq> Some None"
  shows "triple (good now D G) (reserve_if ex target ps) (outcome (good now D F) (\<lambda>name s. name = [] \<and> good now D G s \<or>
     name \<noteq> [] \<and> A \<and> G name = None \<and> sibling target ''backup'' name \<and> good now D (G(name \<mapsto> None)) s))"
proof (cases "ex = Inr True")
  case True
  have r: "triple (good now D G) (reserveSibling target ''backup'')
     (outcome (good now D G) (\<lambda>name s. good now D (G(name \<mapsto> None)) s \<and> G name = None \<and> sibling target ''backup'' name))"
    by (rule reserveSibling_rule [OF assms(1,2) _ assms(5)]) auto
  have ne: "p \<noteq> []" if "sibling target ''backup'' p" for p using sibling_path(4) [OF that assms(1)] by simp
  show ?thesis unfolding reserve_if_def if_P [OF True]
    by (rule triple_bind_sum [OF r cleanup_rule [OF assms(3)] triple_ret]) (use True assms(4) ne in auto)
qed (auto simp: reserve_if_def intro!: triple_ret)

lemma sibling_F0: "setting K \<Longrightarrow> sibling t kind p \<Longrightarrow> kind \<in> kinds \<Longrightarrow> t \<in> {k_cf K, k_kf K, journal K} \<Longrightarrow> F0 K p = None"
  using independentD [of K t kind p] by (intro F0_simps(4)) auto

lemma sibling_dir:
  "setting K \<Longrightarrow> sibling t kind p \<Longrightarrow> kind \<in> kinds \<Longrightarrow> t \<in> {k_cf K, k_kf K} \<Longrightarrow> Dir p \<in> dirs K \<and> p \<noteq> []"
  using sibling_path(2,4) [of t kind p] settingD(1,2) [of K] Dir_in_dirs [of K] by auto

text \<open>The names reserved for the old files, given the new ones.\<close>

lemma reserve_rule:
  assumes "setting K" and ct: "sibling (k_cf K) ''tmp'' ct" "F0 K ct = None" and kt: "sibling (k_kf K) ''tmp'' kt" "((F0 K)(ct \<mapsto> Some n)) kt = None"
    and "new_pair K n m" and G: "G = (F0 K)(ct \<mapsto> Some n, kt \<mapsto> Some m)"
    and ce: "ce = Inr True \<longrightarrow> k_oc K \<noteq> None" and ke: "ke = Inr True \<longrightarrow> k_ok K \<noteq> None"
  shows "triple (good now (dirs K) G) (
         check (reserve_if ce (k_cf K) [ct, kt]) (\<lambda>cb.
         check (reserve_if ke (k_kf K) (filter (\<lambda>p. p \<noteq> []) [ct, kt, cb])) (\<lambda>kb.
         ret (Inr \<lparr>tx_CertFile = k_cf K, tx_KeyFile = k_kf K, tx_CertTemp = ct, tx_KeyTemp = kt, tx_CertBackup = cb, tx_KeyBackup = kb\<rparr>))))
     (outcome (good now (dirs K) (F0 K)) (\<lambda>tx s. \<exists>n m F. staged K tx n m F \<and> good now (dirs K) F s))"
proof -
  note S = settingD [OF assms(1)]
  have pins: "F0 K \<subseteq>\<^sub>m G" using ct(2) kt(2) by (auto simp: G map_le_def)
  have none: "p \<in> {k_cf K, k_kf K, journal K}" if "G p = Some None" for p
    using that F0_simps(4) [OF assms(1), of p] by (auto simp: G split: if_splits)
  have dirs: "Dir ct \<in> dirs K" "Dir kt \<in> dirs K" "ct \<noteq> []" "kt \<noteq> []"
    using sibling_dir [OF assms(1) ct(1)] sibling_dir [OF assms(1) kt(1)] by auto
  have ov: "over (dirs K) (F0 K) [ct, kt] G"
    using pins dirs ct(2) kt new_pairD(1,2) [OF assms(1,6)] by (auto simp: over_def G split: if_splits)
  have sibs: "G p \<noteq> Some None" if "sibling t ''backup'' p" "t \<in> {k_cf K, k_kf K}" for t p
    using that none independentD [OF assms(1) that(1)] by auto
  have r1: "triple (good now (dirs K) G) (reserve_if ce (k_cf K) [ct, kt]) (outcome (good now (dirs K) (F0 K)) (\<lambda>cb s. cb = [] \<and> good now (dirs K) G s \<or>
     cb \<noteq> [] \<and> k_oc K \<noteq> None \<and> G cb = None \<and> sibling (k_cf K) ''backup'' cb \<and> good now (dirs K) (G(cb \<mapsto> None)) s))"
    by (rule reserve_if_rule [OF S(1) Dir_in_dirs(1) [OF assms(1)] ov ce]) (use sibs in auto)
  define H where "H = (\<lambda>cb. if cb = [] then G else G(cb \<mapsto> None))"
  have r2: "triple (good now (dirs K) (H cb)) (check (reserve_if ke (k_kf K) (filter (\<lambda>p. p \<noteq> []) [ct, kt, cb])) (\<lambda>kb.
         ret (Inr \<lparr>tx_CertFile = k_cf K, tx_KeyFile = k_kf K, tx_CertTemp = ct, tx_KeyTemp = kt, tx_CertBackup = cb, tx_KeyBackup = kb\<rparr>)))
     (outcome (good now (dirs K) (F0 K)) (\<lambda>tx s. \<exists>n m F. staged K tx n m F \<and> good now (dirs K) F s))"
    if cb: "cb = [] \<or> cb \<noteq> [] \<and> k_oc K \<noteq> None \<and> G cb = None \<and> sibling (k_cf K) ''backup'' cb" for cb
  proof -
    have ovH: "over (dirs K) (F0 K) (filter (\<lambda>p. p \<noteq> []) [ct, kt, cb]) (H cb)"
      using ov cb sibling_dir [OF assms(1), of "k_cf K" "''backup''" cb] sibling_F0 [OF assms(1), of "k_cf K" "''backup''" cb]
      by (auto simp: over_def H_def map_le_def dom_def)
    have sibsH: "H cb p \<noteq> Some None" if "sibling (k_kf K) ''backup'' p" for p
      using sibs [OF that] cb sibling_distinct [OF that, of "k_cf K" "''backup''"] S(1-3) by (auto simp: H_def)
    have r3: "triple (good now (dirs K) (H cb)) (reserve_if ke (k_kf K) (filter (\<lambda>p. p \<noteq> []) [ct, kt, cb]))
       (outcome (good now (dirs K) (F0 K)) (\<lambda>kb s. kb = [] \<and> good now (dirs K) (H cb) s \<or>
       kb \<noteq> [] \<and> k_ok K \<noteq> None \<and> H cb kb = None \<and> sibling (k_kf K) ''backup'' kb \<and> good now (dirs K) ((H cb)(kb \<mapsto> None)) s))"
      by (rule reserve_if_rule [OF S(2) Dir_in_dirs(2) [OF assms(1)] ovH ke sibsH])
    have st: "staged K \<lparr>tx_CertFile = k_cf K, tx_KeyFile = k_kf K, tx_CertTemp = ct, tx_KeyTemp = kt, tx_CertBackup = cb, tx_KeyBackup = kb\<rparr>
        n m (if kb = [] then H cb else (H cb)(kb \<mapsto> None))"
      if kb: "kb = [] \<or> kb \<noteq> [] \<and> k_ok K \<noteq> None \<and> H cb kb = None \<and> sibling (k_kf K) ''backup'' kb" for kb
    proof -
      let ?tx = "\<lparr>tx_CertFile = k_cf K, tx_KeyFile = k_kf K, tx_CertTemp = ct, tx_KeyTemp = kt, tx_CertBackup = cb, tx_KeyBackup = kb\<rparr>"
      let ?F = "if kb = [] then H cb else (H cb)(kb \<mapsto> None)"
      have shape: "tx_shape K ?tx" using ct(1) kt(1) cb kb unfolding tx_shape_def by simp blast
      have cbn: "cb = [] \<or> cb \<notin> {ct, kt}" using cb by (auto simp: G split: if_splits)
      have kbn: "kb = [] \<or> kb \<notin> {ct, kt, cb}" using kb cbn by (auto simp: G H_def split: if_splits)
      have le: "F0 K \<subseteq>\<^sub>m ?F"
        using ovH kb sibling_F0 [OF assms(1), of "k_kf K" "''backup''" kb] by (auto simp: over_def map_le_def dom_def)
      have pn: "p \<in> {k_cf K, k_kf K, journal K, cb, kb}" if "?F p = Some None" for p
        using that none [of p] unfolding H_def by (auto split: if_splits)
      have "?F ct = Some (Some n)" "?F kt = Some (Some m)" using cbn kbn dirs kt(2) by (auto simp: H_def G)
      moreover have "cb \<noteq> [] \<longrightarrow> ?F cb = Some None \<and> k_oc K \<noteq> None" using cb kbn by (auto simp: H_def)
      moreover have "kb \<noteq> [] \<longrightarrow> ?F kb = Some None \<and> k_ok K \<noteq> None" using kb by auto
      ultimately show ?thesis unfolding staged_def using shape le pn assms(6) by simp
    qed
    have fin: "\<exists>n m F. staged K \<lparr>tx_CertFile = k_cf K, tx_KeyFile = k_kf K, tx_CertTemp = ct, tx_KeyTemp = kt, tx_CertBackup = cb, tx_KeyBackup = kb\<rparr> n m F
        \<and> good now (dirs K) F s"
      if kb: "kb = [] \<and> good now (dirs K) (H cb) s \<or>
       kb \<noteq> [] \<and> k_ok K \<noteq> None \<and> H cb kb = None \<and> sibling (k_kf K) ''backup'' kb \<and> good now (dirs K) ((H cb)(kb \<mapsto> None)) s" for kb s
    proof -
      have "good now (dirs K) (if kb = [] then H cb else (H cb)(kb \<mapsto> None)) s" using kb by auto
      then show ?thesis using st [of kb] kb by blast
    qed
    show ?thesis
      by (rule triple_check [OF r3], rule triple_ret) (unfold outcome_simps, rule fin)
  qed
  show ?thesis
  proof (rule triple_check [OF r1], rule triple_pre)
    show "triple (\<lambda>s. (cb = [] \<or> cb \<noteq> [] \<and> k_oc K \<noteq> None \<and> G cb = None \<and> sibling (k_cf K) ''backup'' cb) \<and> good now (dirs K) (H cb) s)
       (check (reserve_if ke (k_kf K) (filter (\<lambda>p. p \<noteq> []) [ct, kt, cb])) (\<lambda>kb.
         ret (Inr \<lparr>tx_CertFile = k_cf K, tx_KeyFile = k_kf K, tx_CertTemp = ct, tx_KeyTemp = kt, tx_CertBackup = cb, tx_KeyBackup = kb\<rparr>)))
     (outcome (good now (dirs K) (F0 K)) (\<lambda>tx s. \<exists>n m F. staged K tx n m F \<and> good now (dirs K) F s))" for cb
      by (rule triple_pure) (rule r2)
  qed (auto simp: H_def)
qed

lemma fresh_intro: "good now D (F(p \<mapsto> Some n)) s \<Longrightarrow> p \<noteq> [] \<Longrightarrow> F p = None \<Longrightarrow> n_kind n = Regular \<Longrightarrow> fresh now D F (\<lambda>_. True) p s"
  by (auto simp: fresh_def)

lemma stage_pair_rule:
  assumes "setting K" and gen: "generated (k_P K) (k_now K) (k_names K) c k"
  shows "triple (good now (dirs K) (F0 K)) (stage_pair (k_cf K) (k_kf K) c k)
     (outcome (good now (dirs K) (F0 K)) (\<lambda>tx s. \<exists>n m F. staged K tx n m F \<and> good now (dirs K) F s))"
    (is "triple _ _ ?Q")
proof -
  note S = settingD [OF assms(1)] and D = Dir_in_dirs [OF assms(1)] and F = F0_simps [OF assms(1)]
  let ?D = "dirs K"
  let ?rest = "\<lambda>ct. do {
     x \<leftarrow> stageFile (k_kf K) k 0x180;
     case x of
       Inl e \<Rightarrow> do { r \<leftarrow> removeAndSync ct; ret (Inl (Joined ([e] @ err_of r))) }
     | Inr kt \<Rightarrow> do {
         certExists \<leftarrow> regularFileState (k_cf K);
         keyExists \<leftarrow> regularFileState (k_kf K);
         check (reserve_if certExists (k_cf K) [ct, kt]) (\<lambda>cb.
         check (reserve_if keyExists (k_kf K) (filter (\<lambda>p. p \<noteq> []) [ct, kt, cb])) (\<lambda>kb.
         ret (Inr \<lparr>tx_CertFile = k_cf K, tx_KeyFile = k_kf K, tx_CertTemp = ct, tx_KeyTemp = kt, tx_CertBackup = cb, tx_KeyBackup = kb\<rparr>))) } }"
  have ne: "k_cf K \<noteq> []" "k_kf K \<noteq> []" using S(1,2) target_nonempty by blast+
  have cert: "triple (good now ?D (F0 K)) (stageFile (k_cf K) c 0x1A4)
     (outcome (good now ?D (F0 K)) (\<lambda>name s. fresh now ?D (F0 K) (\<lambda>n. n_perm n = 0x1A4 \<and> n_data n = c) name s \<and> sibling (k_cf K) ''tmp'' name))"
    by (rule stageFile_rule [OF S(1) D(1)]) (use sibling_F0 [OF assms(1)] in auto)
  have second: "triple (good now ?D ((F0 K)(ct \<mapsto> Some n))) (?rest ct) ?Q"
    if ct: "sibling (k_cf K) ''tmp'' ct" "F0 K ct = None" "ct \<noteq> []" and n: "n_kind n = Regular" "n_data n = c" for ct n
  proof -
    let ?F1 = "(F0 K)(ct \<mapsto> Some n)"
    have dct: "Dir ct \<in> ?D" using sibling_dir [OF assms(1) ct(1)] by simp
    have key: "triple (good now ?D ?F1) (stageFile (k_kf K) k 0x180)
       (outcome (good now ?D ?F1) (\<lambda>name s. fresh now ?D ?F1 (\<lambda>n. n_perm n = 0x180 \<and> n_data n = k) name s \<and> sibling (k_kf K) ''tmp'' name))"
      by (rule stageFile_rule [OF S(2) D(2)]) (use sibling_F0 [OF assms(1)] in auto)
    have drop: "triple (good now ?D ?F1) (do { r \<leftarrow> removeAndSync ct; ret (Inl (Joined ([e] @ err_of r))) }) ?Q" for e
      unfolding removeAndSync_def
      by (rule triple_bind [OF triple_pre [OF remove_fresh [OF dct]]]) (use ct n fresh_intro in \<open>auto intro!: triple_ret\<close>)
    have third: "triple (good now ?D (?F1(kt \<mapsto> Some m))) (do {
         certExists \<leftarrow> regularFileState (k_cf K);
         keyExists \<leftarrow> regularFileState (k_kf K);
         check (reserve_if certExists (k_cf K) [ct, kt]) (\<lambda>cb.
         check (reserve_if keyExists (k_kf K) (filter (\<lambda>p. p \<noteq> []) [ct, kt, cb])) (\<lambda>kb.
         ret (Inr \<lparr>tx_CertFile = k_cf K, tx_KeyFile = k_kf K, tx_CertTemp = ct, tx_KeyTemp = kt, tx_CertBackup = cb, tx_KeyBackup = kb\<rparr>))) }) ?Q"
      if kt: "sibling (k_kf K) ''tmp'' kt" "?F1 kt = None" and m: "n_kind m = Regular" "n_perm m = 0x180" "n_data m = k" for kt m
    proof -
      let ?F2 = "?F1(kt \<mapsto> Some m)"
      have new: "new_pair K n m" using n m gen by (simp add: new_pair_def)
      have kk: "ct \<notin> {k_cf K, k_kf K}" "kt \<notin> {k_cf K, k_kf K}"
        using independentD(1,2) [OF assms(1) ct(1)] independentD(1,2) [OF assms(1) kt(1)] by auto
      have st: "triple (good now ?D ?F2) (regularFileState (k_cf K)) (\<lambda>r s. good now ?D ?F2 s \<and> (r = Inr True \<longrightarrow> k_oc K \<noteq> None) \<and> (r = Inr False \<longrightarrow> k_oc K = None))"
        "triple (good now ?D ?F2) (regularFileState (k_kf K)) (\<lambda>r s. good now ?D ?F2 s \<and> (r = Inr True \<longrightarrow> k_ok K \<noteq> None) \<and> (r = Inr False \<longrightarrow> k_ok K = None))"
        by (rule regularFileState_rule; use F(1,2) kk ne D in auto)+
      show ?thesis
        by (rule triple_bind [OF st(1)], rule triple_pure2, rule triple_bind [OF st(2)], rule triple_pure2,
            rule reserve_rule [OF assms(1) ct(1,2) kt new refl]) blast+
    qed
    show ?thesis
      by (rule triple_bind_sum [OF key drop], rule triple_pure2, rule fresh_elim, rule third) auto
  qed
  show ?thesis unfolding stage_pair_def
    by (rule triple_check [OF cert], rule triple_pure2, rule fresh_elim, rule second) auto
qed

lemma draw_rule: "triple (good now D F) draw (\<lambda>_. good now D F)"
  by (simp add: triple_def draw_def)

lemma serial_loop_rule: "triple (good now D F) (serial_loop P k) (outcome (good now D F) (\<lambda>_. good now D F))"
proof (induction k)
  case (Suc k)
  then show ?case
    by (auto intro!: triple_bind [OF draw_rule] triple_ret split: sum.splits)
qed (auto intro: triple_ret)

lemma triple_pure_check: "(\<And>x. r = Inr x \<Longrightarrow> triple P (f x) Q) \<Longrightarrow> (\<And>s e. P s \<Longrightarrow> Q (Inl e) s) \<Longrightarrow> triple P (check (ret r) f) Q"
  by (cases r) (auto simp: check_def intro: triple_ret)

lemma generate_rule:
  "triple (good now D F) (generateCertificate P names) (outcome (good now D F) (\<lambda>(c, k, fp) s. good now D F s \<and> generated P now names c k))"
  (is "triple _ _ ?Q")
  unfolding generateCertificate_def
proof (rule triple_bind [OF draw_rule], rule triple_pure_check)
  fix i key assume key: "GenerateKey P i = Inr key"
  have get: "triple (good now D F) State_Monad.get (\<lambda>t s. good now D F s \<and> os_now t = now)"
    by (rule triple_get) (simp add: base_def)
  show "triple (good now D F) (check (serial_loop P 1000) (\<lambda>serial. do {
       s \<leftarrow> State_Monad.get;
       check (ret (CreateCertificate P (certificate_template P (os_now s) serial names) key)) (\<lambda>der.
       check (ret (MarshalPKCS8PrivateKey P key)) (\<lambda>encodedKey.
       ret (Inr (pem_Encode P ''CERTIFICATE'' der, pem_Encode P ''PRIVATE KEY'' encodedKey, sha256_hex P der)))) })) ?Q"
    by (rule triple_check [OF serial_loop_rule], rule triple_bind [OF get], rule triple_pure2, intro triple_pure_check triple_ret)
       (use key in \<open>auto simp: generated_def, blast\<close>)
qed simp

section \<open>The journal and the renames\<close>

lemma Lstat_keeps: "triple (good now D F) (Lstat p) (\<lambda>_. good now D F)"
  unfolding Lstat_def by (rule triple_query) simp_all

lemma journal_absent_keeps: "triple (good now D F) (journal_absent p c) (\<lambda>_. good now D F)"
  unfolding journal_absent_def by (rule triple_bind [OF Lstat_keeps], rule triple_ret)

lemma journal_absent_fresh: "triple (fresh now D F R q) (journal_absent p c) (outcome (fresh now D F R q) (\<lambda>_. fresh now D F R q))"
  by (rule keeps_outcome [OF fresh_steady [OF journal_absent_keeps]])

definition journaled :: "tls_case \<Rightarrow> certificateTransaction \<Rightarrow> (string \<rightharpoonup> node option) \<Rightarrow> os \<Rightarrow> bool" where
  "journaled K tx F s \<longleftrightarrow> (\<exists>j. good (k_now K) (dirs K) (F(journal K \<mapsto> Some j)) s \<and> n_kind j = Regular \<and> n_data j = json_Marshal (tx_json tx))"

lemma sibling_journal:
  assumes "setting K" and "staged K tx n m F" and "sibling (journal K) ''tmp'' p"
  shows "F p \<noteq> Some None" and "Dir p \<in> dirs K" and "p \<notin> {k_cf K, k_kf K, journal K}" and "p \<noteq> []"
proof -
  note S = settingD [OF assms(1)]
  have jt: "target_path (journal K)" and jd: "Dir (journal K) = Dir (k_cf K)" using transactionPath_path [OF S(1)] by simp_all
  show "Dir p \<in> dirs K" "p \<noteq> []" using sibling_path(2,4) [OF assms(3) jt] jd Dir_in_dirs(1) [OF assms(1)] by auto
  show other: "p \<notin> {k_cf K, k_kf K, journal K}" using independentD [OF assms(1,3)] by auto
  have "p \<notin> {tx_CertBackup tx, tx_KeyBackup tx}"
    using assms(2) sibling_distinct [OF assms(3), of "k_cf K" "''backup''"] sibling_distinct [OF assms(3), of "k_kf K" "''backup''"]
      jt S(1,2) \<open>p \<noteq> []\<close> by (auto simp: staged_def tx_shape_def)
  with other assms(2) show "F p \<noteq> Some None" by (auto simp: staged_def)
qed

lemma writeTransaction_rule:
  assumes "setting K" and "staged K tx n m F"
  shows "triple (good (k_now K) (dirs K) F) (writeTransaction tx None)
     (\<lambda>(installed, r) s. if installed then journaled K tx F s else good (k_now K) (dirs K) F s \<and> isl r)"
    (is "triple _ _ ?Q")
proof -
  note S = settingD [OF assms(1)] and D = Dir_in_dirs(1) [OF assms(1)]
  let ?D = "dirs K" and ?now = "k_now K" and ?J = "json_Marshal (tx_json tx)"
  have jt: "target_path (journal K)" "Dir (journal K) \<in> ?D" "journal K \<noteq> []"
    using transactionPath_path [OF S(1)] D target_nonempty by auto
  have FJ: "F (journal K) = Some None"
    using assms(2) F0_simps(3) [OF assms(1)] by (auto simp: staged_def map_le_def dom_def)
  have sh: "tx_CertFile tx = k_cf K" using assms(2) by (simp add: staged_def tx_shape_def)
  let ?R = "\<lambda>j :: node. n_perm j = 0x180 \<and> n_data j = ?J"
  have absent: "triple (good ?now ?D F) (journal_absent (journal K) c) (outcome (good ?now ?D F) (\<lambda>_. good ?now ?D F))" for c
    by (rule keeps_outcome [OF journal_absent_keeps])
  have stage: "triple (good ?now ?D F) (stageFile (journal K) ?J 0x180)
     (outcome (good ?now ?D F) (\<lambda>name s. fresh ?now ?D F ?R name s \<and> sibling (journal K) ''tmp'' name))"
    by (rule stageFile_rule [OF jt(1,2)]) (rule sibling_journal [OF assms])
  have un: "triple (fresh ?now ?D F R p) (do { u \<leftarrow> unstage p e; ret (False, u) }) ?Q" if "Dir p \<in> ?D" for p e R
  proof (rule triple_bind)
    show "triple (fresh ?now ?D F R p) (unstage p e) (\<lambda>u s. good ?now ?D F s \<and> isl u)"
      by (rule triple_post [OF unstage_rule [OF that, of _ _ _ _ "\<lambda>_ _. False"]]) (auto simp: outcome_def split: sum.splits)
  qed (auto intro: triple_ret)
  have ren: "triple (fresh ?now ?D F ?R p) (os_err (Rename p (journal K))) (outcome (fresh ?now ?D F ?R p) (\<lambda>_. journaled K tx F))"
    if p: "sibling (journal K) ''tmp'' p" for p
  proof (rule fresh_elim)
    fix j :: node assume j: "p \<noteq> []" "F p = None" "n_kind j = Regular" "?R j"
    have pj: "p \<noteq> journal K" using sibling_journal(3) [OF assms p] by simp
    have "triple (good ?now ?D (F(p \<mapsto> Some j))) (os_err (Rename p (journal K)))
       (outcome (failed False ?now ?D (F(p \<mapsto> Some j))) (\<lambda>_. good ?now ?D (F(p \<mapsto> Some j, p \<mapsto> None, journal K \<mapsto> Some j))))"
      by (rule Rename_rule [of _ _ _ _ None]) (use j pj jt FJ in auto)
    then show "triple (good ?now ?D (F(p \<mapsto> Some j))) (os_err (Rename p (journal K))) (outcome (fresh ?now ?D F ?R p) (\<lambda>_. journaled K tx F))"
    proof (rule triple_outcome)
      show "fresh ?now ?D F ?R p s" if "failed False ?now ?D (F(p \<mapsto> Some j)) s" for s using that j by (auto simp: fresh_def)
      show "journaled K tx F s" if "good ?now ?D (F(p \<mapsto> Some j, p \<mapsto> None, journal K \<mapsto> Some j)) s" for s x
      proof -
        have "good ?now ?D (F(journal K \<mapsto> Some j)) s"
          by (rule base_mono [OF that]) (use j(2) pj in \<open>auto simp: map_le_def\<close>)
        with j show ?thesis by (auto simp: journaled_def)
      qed
    qed
  qed
  have sync: "triple (journaled K tx F) (syncDirectory d) (\<lambda>_. journaled K tx F)" for d
    unfolding journaled_def [abs_def]
  proof (rule triple_exists)
    show "triple (\<lambda>s. good ?now ?D (F(journal K \<mapsto> Some j)) s \<and> n_kind j = Regular \<and> n_data j = ?J) (syncDirectory d)
      (\<lambda>_ s. \<exists>j. good ?now ?D (F(journal K \<mapsto> Some j)) s \<and> n_kind j = Regular \<and> n_data j = ?J)" for j
      by (rule triple_pure2, rule triple_post [OF syncDirectory_keeps]) blast
  qed
  have tail: "triple (fresh ?now ?D F ?R p) (do {
       r \<leftarrow> journal_absent (journal K) c;
       case r of Inl e \<Rightarrow> do { u \<leftarrow> unstage p e; ret (False, u) } | Inr _ \<Rightarrow> do {
       r \<leftarrow> os_err (Rename p (journal K));
       case r of Inl e \<Rightarrow> do { u \<leftarrow> unstage p e; ret (False, u) } | Inr _ \<Rightarrow> do {
       r \<leftarrow> syncDirectory (Dir (journal K));
       ret (True, r) }}}) ?Q" if p: "sibling (journal K) ''tmp'' p" for p c
    by (intro triple_bind_sum [OF journal_absent_fresh] triple_bind_sum [OF ren [OF p]] triple_bind [OF sync] un
        sibling_journal(2) [OF assms p] triple_ret) simp
  show ?thesis unfolding writeTransaction_def Let_def sh option.case
    by (intro triple_bind_sum [OF absent] triple_bind_sum [OF stage] triple_ret triple_pure2 tail) simp_all
qed

lemma recover_keeps_safe:
  "setting K \<Longrightarrow> triple (safe K False) (recoverCertificateTransaction (k_P K) (k_cf K) (k_kf K)) (\<lambda>_. safe K False)"
  by (rule triple_post [OF recover_rule]) (auto simp: outcome_def intro: settled_safe split: sum.splits)

lemma renameStep_rule:
  assumes "setting K" and "tracked (dirs K) G a (Some u)" and "tracked (dirs K) G c w" and "a \<noteq> c"
    and safe: "\<And>s. good (k_now K) (dirs K) G s \<Longrightarrow> safe K False s" "\<And>s. good (k_now K) (dirs K) (G(a \<mapsto> None, c \<mapsto> Some u)) s \<Longrightarrow> safe K False s"
  shows "triple (good (k_now K) (dirs K) G) (renameStep (k_P K) no_hooks (k_cf K) (k_kf K) step a c)
     (outcome (safe K False) (\<lambda>_. good (k_now K) (dirs K) (G(a \<mapsto> None, c \<mapsto> Some u))))"
proof -
  note a = trackedD [OF assms(2)] and c = trackedD [OF assms(3)]
  let ?G = "G(a \<mapsto> None, c \<mapsto> Some u)" and ?D = "dirs K" and ?now = "k_now K"
  have ren: "triple (good ?now ?D G) (os_err (Rename a c)) (outcome (failed False ?now ?D G) (\<lambda>_. good ?now ?D ?G))"
    using a c assms(4) by (intro Rename_rule [where w = w]) auto
  have sy: "triple (good ?now ?D ?G) (syncRelevantDirs [a, c]) (outcome (failed False ?now ?D ?G) (\<lambda>_. good ?now ?D ?G))"
    using a c by (intro syncRelevantDirs_rule) auto
  have rec: "triple (failed False ?now ?D H) (do { r \<leftarrow> recoverCertificateTransaction (k_P K) (k_cf K) (k_kf K); ret (Inl (Joined ([Msg m, e] @ err_of r))) })
      (outcome (safe K False) (\<lambda>_. good ?now ?D ?G))" if "\<And>s. good ?now ?D H s \<Longrightarrow> safe K False s" for H e m
    by (rule triple_bind [OF triple_pre [OF recover_keeps_safe [OF assms(1)]]]) (use that in \<open>auto intro: triple_ret\<close>)
  show ?thesis unfolding renameStep_def
    by (rule triple_pure_check, rule triple_bind_sum [OF ren rec triple_bind_sum [OF sy rec triple_ret]])
       (use safe in \<open>auto simp: no_hooks_def\<close>)
qed

lemma for_each_append: "for_each f (xs @ ys) = check (for_each f xs) (\<lambda>_. for_each f ys)"
proof (induction xs)
  case Nil
  show ?case by (simp add: check_def)
next
  case (Cons x xs)
  have assoc: "check (check m k) l = check m (\<lambda>x. check (k x) l)" for m :: "'x result go" and k :: "'x \<Rightarrow> 'y result go" and l :: "'y \<Rightarrow> 'z result go"
    by (auto simp: check_def split: sum.splits intro!: arg_cong [of _ _ "State_Monad.bind m"])
  show ?case by (simp add: Cons assoc)
qed

lemma for_each_single: "triple P (f x) (outcome E (\<lambda>_. Q)) \<Longrightarrow> triple P (for_each f [x]) (outcome E (\<lambda>_. Q))"
  by (auto intro!: triple_check [where E = E and R = "\<lambda>_. Q"] triple_ret)

lemma plan_backup:
  assumes "setting K" and "tx_shape K tx" and "plan K tx n m F"
  shows "tx_CertBackup tx \<noteq> [] \<Longrightarrow> plan K tx n m (F(tx_CertBackup tx \<mapsto> k_oc K))"
    and "tx_KeyBackup tx \<noteq> [] \<Longrightarrow> plan K tx n m (F(tx_KeyBackup tx \<mapsto> k_ok K))"
proof -
  note facts = tx_paths_facts(7-12) [OF assms(1,2)]
  show "plan K tx n m (F(tx_CertBackup tx \<mapsto> k_oc K))" if "tx_CertBackup tx \<noteq> []"
  proof -
    have "journal K \<noteq> tx_CertBackup tx" "k_cf K \<noteq> tx_CertBackup tx" "k_kf K \<noteq> tx_CertBackup tx" "tx_CertTemp tx \<noteq> tx_CertBackup tx"
      "tx_KeyTemp tx \<noteq> tx_CertBackup tx" "tx_KeyBackup tx \<noteq> [] \<longrightarrow> tx_KeyBackup tx \<noteq> tx_CertBackup tx"
      using facts that by auto
    with assms(3) that show ?thesis unfolding plan_def by simp
  qed
  show "plan K tx n m (F(tx_KeyBackup tx \<mapsto> k_ok K))" if "tx_KeyBackup tx \<noteq> []"
  proof -
    have "journal K \<noteq> tx_KeyBackup tx" "k_cf K \<noteq> tx_KeyBackup tx" "k_kf K \<noteq> tx_KeyBackup tx" "tx_CertTemp tx \<noteq> tx_KeyBackup tx"
      "tx_KeyTemp tx \<noteq> tx_KeyBackup tx" "tx_CertBackup tx \<noteq> [] \<longrightarrow> tx_CertBackup tx \<noteq> tx_KeyBackup tx"
      using facts that by auto
    with assms(3) that show ?thesis unfolding plan_def by simp
  qed
qed

lemma flight_safe:
  "tx_shape K tx \<Longrightarrow> new_pair K n m \<Longrightarrow> plan K tx n m G \<Longrightarrow> found K n m c k G \<Longrightarrow> (c, k) \<in> places tx \<Longrightarrow>
   good (k_now K) (dirs K) G s \<Longrightarrow> safe K False s"
  using in_flightI [of False K G s tx n m c k] by (auto simp: safe_def)

lemma backup_step:
  assumes "setting K" and "tx_shape K tx" and "new_pair K n m" and "plan K tx n m G" and "found K n m c k G" and "(c, k) \<in> places tx"
    and t: "(t, a, v) \<in> {(k_cf K, tx_CertBackup tx, k_oc K), (k_kf K, tx_KeyBackup tx, k_ok K)}"
    and "G t = Some v" and "a \<noteq> [] \<longrightarrow> v \<noteq> None" and "a \<notin> {c, k}" and "t \<notin> {c, k}"
    and H: "H = (if a = [] then G else G(t \<mapsto> None, a \<mapsto> v))"
  shows "plan K tx n m H" and "found K n m c k H"
    and "triple (good (k_now K) (dirs K) G) (for_each (\<lambda>(step, old, new). renameStep (k_P K) no_hooks (k_cf K) (k_kf K) step old new)
       (if a \<noteq> [] then [(step, t, a)] else [])) (outcome (safe K False) (\<lambda>_. good (k_now K) (dirs K) H))"
proof -
  have sh: "tx_CertFile tx = k_cf K" "tx_KeyFile tx = k_kf K" using assms(2) by (simp_all add: tx_shape_def)
  have tp: "t \<in> set (tx_paths tx)" "a \<in> set (tx_paths tx)" using t sh by (auto simp: tx_paths_def)
  note facts = tx_paths_facts [OF assms(1,2)]
  have tJ: "t \<noteq> journal K" "t \<noteq> []" using t facts(4,5,12) settingD(4) [OF assms(1)] by auto
  have ta: "a \<noteq> [] \<Longrightarrow> t \<noteq> a" using t facts(10,11) by auto
  have d: "plan K tx n m (G(t \<mapsto> None))" by (rule plan_drop [OF assms(1,2,4) tp(1) tJ(1)])
  show p: "plan K tx n m H" using plan_backup [OF assms(1,2) d] assms(4) t by (auto simp: H)
  show f: "found K n m c k H" using assms(5,10,11) found_other by (auto simp: H)
  have s: "safe K False s" if "good (k_now K) (dirs K) G s" for s by (rule flight_safe [OF assms(2-6) that])
  have s': "safe K False s" if "good (k_now K) (dirs K) H s" for s by (rule flight_safe [OF assms(2,3) p f assms(6) that])
  show "triple (good (k_now K) (dirs K) G) (for_each (\<lambda>(step, old, new). renameStep (k_P K) no_hooks (k_cf K) (k_kf K) step old new)
       (if a \<noteq> [] then [(step, t, a)] else [])) (outcome (safe K False) (\<lambda>_. good (k_now K) (dirs K) H))"
  proof (cases "a = []")
    case True
    then show ?thesis using H by (auto intro: triple_ret)
  next
    case False
    with assms(9) obtain u where u: "v = Some u" by auto
    have "H = G(t \<mapsto> None, a \<mapsto> Some u)" using False u H by simp
    moreover have "tracked (dirs K) G t (Some u)" using plan_tracked [OF assms(1-4) tp(1) tJ(2)] assms(8) u by simp
    ultimately have "triple (good (k_now K) (dirs K) G) (renameStep (k_P K) no_hooks (k_cf K) (k_kf K) step t a) (outcome (safe K False) (\<lambda>_. good (k_now K) (dirs K) H))"
      using renameStep_rule [OF assms(1) _ plan_tracked [OF assms(1-4) tp(2) False] ta [OF False] s] s' by simp
    then show ?thesis using False for_each_single [of "good (k_now K) (dirs K) G" "\<lambda>(step, old, new). renameStep (k_P K) no_hooks (k_cf K) (k_kf K) step old new" "(step, t, a)"] by simp
  qed
qed

lemma install_pair_rule:
  assumes "setting K" and "staged K tx n m F"
  shows "triple (journaled K tx F) (install_pair (k_P K) no_hooks tx names fp) (\<lambda>_. safe K False)"
  unfolding journaled_def [abs_def]
proof (intro triple_exists triple_pure2)
  fix j :: node assume j: "n_kind j = Regular \<and> n_data j = json_Marshal (tx_json tx)"
  have st: "tx_shape K tx" "new_pair K n m" using assms(2) by (simp_all add: staged_def)
  note S = settingD [OF assms(1)] and facts = tx_paths_facts [OF assms(1) st(1)]
  have sh: "tx_CertFile tx = k_cf K" "tx_KeyFile tx = k_kf K" using st(1) by (simp_all add: tx_shape_def)
  let ?ct = "tx_CertTemp tx" and ?kt = "tx_KeyTemp tx" and ?cb = "tx_CertBackup tx" and ?kb = "tx_KeyBackup tx" and ?cf = "k_cf K" and ?kf = "k_kf K"
  let ?D = "dirs K" and ?now = "k_now K" and ?f = "\<lambda>(step, old, new). renameStep (k_P K) no_hooks (k_cf K) (k_kf K) step old new"
  define G0 where "G0 = F(journal K \<mapsto> Some j)"
  have F: "F ?cf = Some (k_oc K)" "F ?kf = Some (k_ok K)" "F ?ct = Some (Some n)" "F ?kt = Some (Some m)"
    "?cb \<noteq> [] \<longrightarrow> F ?cb = Some None \<and> k_oc K \<noteq> None" "?kb \<noteq> [] \<longrightarrow> F ?kb = Some None \<and> k_ok K \<noteq> None"
    using assms(2) F0_simps(1,2) [OF assms(1)] by (auto simp: staged_def map_le_def dom_def)
  have J: "?cf \<noteq> journal K" "?kf \<noteq> journal K" "?ct \<noteq> journal K" "?kt \<noteq> journal K" "?cb \<noteq> [] \<longrightarrow> ?cb \<noteq> journal K" "?kb \<noteq> [] \<longrightarrow> ?kb \<noteq> journal K"
    using facts(7,8,10-12) S(4) by auto
  have g0: "plan K tx n m G0" "found K n m ?ct ?kt G0" "G0 ?cf = Some (k_oc K)" "G0 ?kf = Some (k_ok K)" "G0 ?ct = Some (Some n)" "G0 ?kt = Some (Some m)"
    using F J j by (simp_all add: plan_def found_def G0_def)
  have pl: "(?ct, ?kt) \<in> places tx" "(?cf, ?kt) \<in> places tx" "(?cf, ?kf) \<in> places tx"
    using facts(2-5) by (auto simp: places_def candidates_def sh)
  have ne: "?cb \<notin> {?ct, ?kt}" "?kb \<notin> {?ct, ?kt}" "?cf \<notin> {?ct, ?kt}" "?kf \<notin> {?ct, ?kt}" "?cb = [] \<or> ?cb \<notin> {?cf, ?kf}" "?kb = [] \<or> ?kb \<notin> {?cf, ?kf}"
    using facts(2,3,7-11) by auto
  have paths: "?cf \<in> set (tx_paths tx)" "?kf \<in> set (tx_paths tx)" "?ct \<in> set (tx_paths tx)" "?kt \<in> set (tx_paths tx)"
    by (simp_all add: tx_paths_def sh)
  define G1 where "G1 = (if ?cb = [] then G0 else G0(?cf \<mapsto> None, ?cb \<mapsto> k_oc K))"
  note s1 = backup_step [OF assms(1) st g0(1,2) pl(1), of ?cf ?cb "k_oc K" G1]
  have g1: "plan K tx n m G1" "found K n m ?ct ?kt G1"
    "triple (good ?now ?D G0) (for_each ?f (if ?cb \<noteq> [] then [(step, ?cf, ?cb)] else [])) (outcome (safe K False) (\<lambda>_. good ?now ?D G1))" for step
    by (rule s1; use g0 F(5) ne G1_def in simp)+
  have v1: "G1 ?kf = Some (k_ok K)" "G1 ?ct = Some (Some n)" "G1 ?kt = Some (Some m)" using g0 ne S(3) by (auto simp: G1_def)
  define G2 where "G2 = (if ?kb = [] then G1 else G1(?kf \<mapsto> None, ?kb \<mapsto> k_ok K))"
  note s2 = backup_step [OF assms(1) st g1(1,2) pl(1), of ?kf ?kb "k_ok K" G2]
  have g2: "plan K tx n m G2" "found K n m ?ct ?kt G2"
    "triple (good ?now ?D G1) (for_each ?f (if ?kb \<noteq> [] then [(step, ?kf, ?kb)] else [])) (outcome (safe K False) (\<lambda>_. good ?now ?D G2))" for step
    by (rule s2; use v1 F(6) ne G2_def in simp)+
  have v2: "G2 ?ct = Some (Some n)" "G2 ?kt = Some (Some m)" using v1 ne by (auto simp: G2_def)
  define G3 where "G3 = G2(?ct \<mapsto> None, ?cf \<mapsto> Some n)"
  have g3: "plan K tx n m G3" "found K n m ?cf ?kt G3"
    using plan_cert [OF assms(1) st(1) plan_drop [OF assms(1) st(1) g2(1) paths(3) J(3)], of "Some n"]
      found_move_cert [OF g2(2) v2(1), of ?cf] facts(9) ne(3) by (auto simp: G3_def)
  have i3: "triple (good ?now ?D G2) (?f (step, ?ct, ?cf)) (outcome (safe K False) (\<lambda>_. good ?now ?D G3))" for step
    unfolding G3_def prod.case
    by (rule renameStep_rule [OF assms(1) _ plan_tracked [OF assms(1) st g2(1) paths(1) facts(4)]])
       (use plan_tracked [OF assms(1) st g2(1) paths(3) facts(2)] v2 ne(3) flight_safe [OF st g2(1,2) pl(1)] flight_safe [OF st g3 pl(2)] in \<open>auto simp: G3_def\<close>)
  have v3: "G3 ?kt = Some (Some m)" "G3 ?cf = Some (Some n)" using v2 facts(9) ne(3) by (auto simp: G3_def)
  define G4 where "G4 = G3(?kt \<mapsto> None, ?kf \<mapsto> Some m)"
  have g4: "plan K tx n m G4" "found K n m ?cf ?kf G4"
    using plan_key [OF assms(1) st(1) plan_drop [OF assms(1) st(1) g3(1) paths(4) J(4)], of "Some m"]
      found_move_key [OF g3(2) v3(1), of ?kf] S(3) ne(3) by (auto simp: G4_def)
  have i4: "triple (good ?now ?D G3) (?f (step, ?kt, ?kf)) (outcome (safe K False) (\<lambda>_. good ?now ?D G4))" for step
    unfolding G4_def prod.case
    by (rule renameStep_rule [OF assms(1) _ plan_tracked [OF assms(1) st g3(1) paths(2) facts(5)]])
       (use plan_tracked [OF assms(1) st g3(1) paths(4) facts(3)] v3 ne(4) flight_safe [OF st g3 pl(2)] flight_safe [OF st g4 pl(3)] in \<open>auto simp: G4_def\<close>)
  have renames: "triple (good ?now ?D G0) (for_each ?f (rename_steps tx)) (outcome (safe K False) (\<lambda>_. good ?now ?D G4))"
    unfolding rename_steps_def sh for_each_append
    by (intro triple_check [OF g1(3)] triple_check [OF g2(3)]) (auto intro!: triple_check [OF i3 [unfolded prod.case]] triple_check [OF i4 [unfolded prod.case]] triple_ret)
  have load: "triple (good ?now ?D G4) (loadCertificate (k_P K) ?cf ?kf names) (outcome (safe K False) (\<lambda>_. in_flight K False tx n m ?cf ?kf))"
    by (rule triple_post [OF loadCertificate_rule [OF plan_tracked [OF assms(1) st g4(1) paths(1) facts(4)] plan_tracked [OF assms(1) st g4(1) paths(2) facts(5)]]])
       (auto simp: outcome_def intro: in_flightI g4 pl flight_safe [OF st g4 pl(3)] split: sum.splits)
  have fin: "triple (in_flight K False tx n m ?cf ?kf) (finishTransaction tx) (outcome (safe K False) (\<lambda>_. safe K False))"
    by (rule triple_outcome [OF finish_rule [OF assms(1) st]]) (auto intro: settled_safe)
  show "triple (good ?now ?D (F(journal K \<mapsto> Some j))) (install_pair (k_P K) no_hooks tx names fp) (\<lambda>_. safe K False)"
    unfolding install_pair_def Let_def sh G0_def [symmetric]
    by (intro triple_check [OF renames] triple_bind_sum [OF load] triple_bind [OF recover_keeps_safe [OF assms(1)]] triple_check [OF fin] triple_ret) auto
qed

section \<open>The entry points\<close>

lemma F0_safe:
  assumes "setting K" and "good (k_now K) (dirs K) (F0 K) s"
  shows "safe K False s"
proof -
  note S = settingD [OF assms(1)]
  have ne: "k_cf K \<noteq> []" "k_kf K \<noteq> []" "journal K \<noteq> []" using S(1,2) target_nonempty transactionPath_path(1) by blast+
  note F = F0_simps(1-3) [OF assms(1)]
  have "lookup s (k_cf K) = k_oc K" "lookup s (k_kf K) = k_ok K" "lookup s (journal K) = None"
    using base_lookup [OF assms(2) ne(1) F(1)] base_lookup [OF assms(2) ne(2) F(2)] base_lookup [OF assms(2) ne(3) F(3)] by simp_all
  moreover have "base False (k_now K) {} Map.empty s" "clear K s" using assms(2) by (simp_all add: base_def clear_def)
  ultimately show ?thesis by (intro settled_safe) (simp add: settled_def)
qed

lemma rotateWithHooks_rule:
  assumes "setting K"
  shows "triple (good (k_now K) (dirs K) (F0 K)) (rotateCertificateWithHooks (k_P K) (k_cf K) (k_kf K) (k_names K) no_hooks) (\<lambda>_. safe K False)"
proof -
  let ?G = "good (k_now K) (dirs K)"
  have idle: "safe K False s" if "?G (F0 K) s" for s using F0_safe [OF assms that] .
  have over: "over (dirs K) (F0 K) (filter (\<lambda>p. p \<noteq> []) [tx_CertTemp tx, tx_KeyTemp tx, tx_CertBackup tx, tx_KeyBackup tx]) F"
    if st: "staged K tx n m F" for tx n m F
  proof -
    have sh: "tx_shape K tx" "new_pair K n m" "F0 K \<subseteq>\<^sub>m F" using st by (simp_all add: staged_def)
    have "(\<exists>v. F p = Some v \<and> plain v) \<and> Dir p \<in> dirs K \<and> F0 K p = None"
      if p: "p \<in> {tx_CertTemp tx, tx_KeyTemp tx, tx_CertBackup tx, tx_KeyBackup tx}" "p \<noteq> []" for p
    proof -
      from p sh(1) obtain t kind where t: "sibling t kind p" "kind \<in> kinds" "t \<in> {k_cf K, k_kf K}"
        by (auto simp: tx_shape_def)
      have "\<exists>v. F p = Some v \<and> plain v" using p st new_pairD(1,2) [OF assms sh(2)] by (auto simp: staged_def)
      with sibling_dir [OF assms t] sibling_F0 [OF assms t(1,2)] t(3) show ?thesis by auto
    qed
    with sh(3) show ?thesis by (auto simp: over_def)
  qed
  have journal: "triple (?G F) (do {
       w \<leftarrow> writeTransaction tx (h_journalSync no_hooks);
       case w of
         (installed, Inl e) \<Rightarrow>
           if installed then ret (Inl e)
           else cleanupOnPrepareError e (filter (\<lambda>p. p \<noteq> []) [tx_CertTemp tx, tx_KeyTemp tx, tx_CertBackup tx, tx_KeyBackup tx])
       | (installed, Inr _) \<Rightarrow> install_pair (k_P K) no_hooks tx (k_names K) fp }) (\<lambda>_. safe K False)"
    if st: "staged K tx n m F" for tx n m F fp
  proof -
    let ?k = "\<lambda>w. case w of
         (installed, Inl e) \<Rightarrow>
           if installed then ret (Inl e)
           else cleanupOnPrepareError e (filter (\<lambda>p. p \<noteq> []) [tx_CertTemp tx, tx_KeyTemp tx, tx_CertBackup tx, tx_KeyBackup tx])
       | (installed, Inr _) \<Rightarrow> install_pair (k_P K) no_hooks tx (k_names K) fp"
    have jr: "safe K False s" if "journaled K tx F s" for s
    proof -
      from that obtain j where j: "?G (F(journal K \<mapsto> Some j)) s" "n_kind j = Regular" "n_data j = json_Marshal (tx_json tx)"
        by (auto simp: journaled_def)
      have sh: "tx_shape K tx" "new_pair K n m" using st by (simp_all add: staged_def)
      note facts = tx_paths_facts [OF assms sh(1)]
      have F: "F (k_cf K) = Some (k_oc K)" "F (k_kf K) = Some (k_ok K)"
        using st F0_simps(1,2) [OF assms] by (auto simp: staged_def map_le_def dom_def)
      have J: "k_cf K \<noteq> journal K" "k_kf K \<noteq> journal K" "tx_CertTemp tx \<noteq> journal K" "tx_KeyTemp tx \<noteq> journal K"
        "tx_CertBackup tx \<noteq> [] \<longrightarrow> tx_CertBackup tx \<noteq> journal K" "tx_KeyBackup tx \<noteq> [] \<longrightarrow> tx_KeyBackup tx \<noteq> journal K"
        using facts(7,8,10-12) settingD(4) [OF assms] by auto
      have "plan K tx n m (F(journal K \<mapsto> Some j))" "found K n m (tx_CertTemp tx) (tx_KeyTemp tx) (F(journal K \<mapsto> Some j))"
        using F J j st by (simp_all add: plan_def found_def staged_def)
      moreover have "(tx_CertTemp tx, tx_KeyTemp tx) \<in> places tx" using facts(2,3) by (auto simp: places_def candidates_def)
      ultimately show ?thesis using flight_safe [OF sh _ _ _ j(1)] by blast
    qed
    have hook: "h_journalSync no_hooks = None" by (simp add: no_hooks_def)
    show ?thesis unfolding hook
    proof (rule triple_bind [OF writeTransaction_rule [OF assms st]])
      show "triple ((\<lambda>(installed, r) s. if installed then journaled K tx F s else ?G F s \<and> isl r) w) (?k w) (\<lambda>_. safe K False)" for w
      proof (cases w)
        case (Pair installed r)
        show ?thesis
        proof (cases r)
          case (Inl e)
          have "triple (?G F) (cleanupOnPrepareError e ps) (\<lambda>_. safe K False)"
            if "over (dirs K) (F0 K) ps F" for ps
            by (rule triple_post [OF cleanup_rule [OF that, of _ _ "\<lambda>_ _. False"]]) (auto simp: outcome_def intro: idle split: sum.splits)
          then show ?thesis using Pair Inl over [OF st] jr by (cases installed) (auto intro!: triple_ret intro: triple_pre)
        next
          case (Inr u)
          then show ?thesis using Pair install_pair_rule [OF assms st] by (cases installed) (auto intro: triple_absurd)
        qed
      qed
    qed
  qed
  have stage: "triple (\<lambda>s. ?G (F0 K) s \<and> generated (k_P K) (k_now K) (k_names K) c k) (check (stage_pair (k_cf K) (k_kf K) c k) (\<lambda>tx. do {
       w \<leftarrow> writeTransaction tx (h_journalSync no_hooks);
       case w of
         (installed, Inl e) \<Rightarrow>
           if installed then ret (Inl e)
           else cleanupOnPrepareError e (filter (\<lambda>p. p \<noteq> []) [tx_CertTemp tx, tx_KeyTemp tx, tx_CertBackup tx, tx_KeyBackup tx])
       | (installed, Inr _) \<Rightarrow> install_pair (k_P K) no_hooks tx (k_names K) fp })) (\<lambda>_. safe K False)" for c k fp
    by (rule triple_pure2, rule triple_check [OF stage_pair_rule [OF assms]], assumption, intro triple_exists triple_pure journal)
       (auto intro: idle)
  show ?thesis unfolding rotateCertificateWithHooks_def
    by (rule triple_check [OF generate_rule]) (use stage in \<open>auto intro: idle split: prod.split\<close>)
qed

lemma recover_idle:
  assumes "setting K"
  shows "triple (good (k_now K) (dirs K) (F0 K)) (recoverCertificateTransaction (k_P K) (k_cf K) (k_kf K)) (\<lambda>_. good (k_now K) (dirs K) (F0 K))"
  unfolding recoverCertificateTransaction_def
proof (rule triple_bind)
  have ne: "journal K \<noteq> []" "Dir (journal K) \<in> dirs K"
    using settingD(1) [OF assms] target_nonempty transactionPath_path Dir_in_dirs(1) [OF assms] by auto
  show "triple (good (k_now K) (dirs K) (F0 K)) (ReadFile (journal K)) (\<lambda>r s. good (k_now K) (dirs K) (F0 K) s \<and> isl r)"
    by (rule triple_post [OF ReadFile_rule [of "journal K" "F0 K" None]]) (use ne F0_simps(3) [OF assms] in \<open>auto simp: read_result_def\<close>)
  show "triple (\<lambda>s. good (k_now K) (dirs K) (F0 K) s \<and> isl r) (case r of
       Inl e \<Rightarrow> if is_not_exist e then ret (Inr ()) else ret (Inl (Os e))
     | Inr raw \<Rightarrow> (case decode_tx raw of
         None \<Rightarrow> ret (Inl (Msg ''decode TLS transaction journal''))
       | Some tx \<Rightarrow>
           if tx_CertFile tx \<noteq> k_cf K \<or> tx_KeyFile tx \<noteq> k_kf K
           then ret (Inl (Msg ''TLS transaction journal targets do not match configured paths''))
           else recover_tx (k_P K) tx)) (\<lambda>_. good (k_now K) (dirs K) (F0 K))" for r
    by (cases r) (auto intro: triple_ret triple_absurd)
qed

lemma load_keeps:
  assumes "setting K"
  shows "triple (good (k_now K) (dirs K) (F0 K)) (loadCertificate (k_P K) (k_cf K) (k_kf K) names) (\<lambda>_. good (k_now K) (dirs K) (F0 K))"
proof -
  have "tracked (dirs K) (F0 K) (k_cf K) (k_oc K)" "tracked (dirs K) (F0 K) (k_kf K) (k_ok K)"
    using settingD(1,2) [OF assms] target_nonempty Dir_in_dirs [OF assms] F0_simps(1,2) [OF assms] oldD(1,2) [OF assms]
    by (auto simp: tracked_def)
  from loadCertificate_rule [OF this] show ?thesis by (rule triple_post) simp
qed

lemma state_keeps:
  assumes "setting K" and "p \<in> {k_cf K, k_kf K}"
  shows "triple (good (k_now K) (dirs K) (F0 K)) (regularFileState p) (outcome (good (k_now K) (dirs K) (F0 K)) (\<lambda>_. good (k_now K) (dirs K) (F0 K)))"
proof -
  obtain v where "F0 K p = Some v" using assms(2) F0_simps(1,2) [OF assms(1)] by auto
  moreover have "p \<noteq> []" "Dir p \<in> dirs K"
    using assms(2) target_nonempty [OF settingD(1) [OF assms(1)]] target_nonempty [OF settingD(2) [OF assms(1)]] Dir_in_dirs [OF assms(1)] by auto
  ultimately show ?thesis by (intro keeps_outcome triple_post [OF regularFileState_rule]) auto
qed

lemma rotateLocked_rule:
  assumes "setting K"
  shows "triple (good (k_now K) (dirs K) (F0 K)) (rotateCertificateLocked (k_P K) (k_cf K) (k_kf K) (k_names K)) (\<lambda>_. safe K False)"
proof -
  let ?A = "good (k_now K) (dirs K) (F0 K)"
  have idle: "safe K False s" if "?A s" for s using F0_safe [OF assms that] .
  have load: "triple ?A (if b then do {
                   r \<leftarrow> loadCertificate (k_P K) (k_cf K) (k_kf K) [];
                   ret (case r of Inl e \<Rightarrow> Inl (Joined [Msg ''refuse to rotate invalid TLS pair'', e]) | Inr _ \<Rightarrow> Inr ()) }
                 else ret (Inr ())) (outcome ?A (\<lambda>_. ?A))" for b
    by (rule keeps_outcome) (auto intro!: triple_ret triple_bind [OF load_keeps [OF assms]])
  show ?thesis unfolding rotateCertificateLocked_def
    by (intro triple_check [OF keeps_outcome [OF recover_idle [OF assms]]] triple_check [OF state_keeps [OF assms]])
       (auto intro!: triple_ret triple_check [OF load [of True, unfolded if_True]] triple_check [OF load [of False, unfolded if_False]] rotateWithHooks_rule [OF assms] intro: idle)
qed

lemma ensureLocked_rule:
  assumes "setting K"
  shows "triple (good (k_now K) (dirs K) (F0 K)) (ensureCertificateLocked (k_P K) (k_cf K) (k_kf K) (k_names K) no_hooks) (\<lambda>_. safe K False)"
proof -
  let ?A = "good (k_now K) (dirs K) (F0 K)"
  have idle: "safe K False s" if "?A s" for s using F0_safe [OF assms that] .
  show ?thesis unfolding ensureCertificateLocked_def
    by (intro triple_check [OF keeps_outcome [OF recover_idle [OF assms]]] triple_check [OF state_keeps [OF assms]])
       (auto intro!: triple_ret rotateWithHooks_rule [OF assms] triple_post [OF load_keeps [OF assms]] intro: idle)
qed

text \<open>Checking paths and taking locks.\<close>

definition blind :: "(os \<Rightarrow> bool) \<Rightarrow> bool" where
  "blind A \<longleftrightarrow> (\<forall>s n. A (s\<lparr>os_ticks := n\<rparr>) = A s) \<and> (\<forall>s h. A (s\<lparr>os_held := h\<rparr>) = A s)"

lemma query_blind: "blind A \<Longrightarrow> triple A (query f) (\<lambda>_. A)"
  by (rule triple_query) (auto simp: blind_def)

lemma os_err_keeps: "triple A m (\<lambda>_. A) \<Longrightarrow> triple A (os_err m) (\<lambda>_. A)"
  unfolding os_err_def by (erule triple_bind) (rule triple_ret)

lemma check_keeps: "triple A m (\<lambda>_. A) \<Longrightarrow> (\<And>x. triple A (k x) (\<lambda>_. A)) \<Longrightarrow> triple A (check m k) (\<lambda>_. A)"
  by (rule triple_check [OF keeps_outcome]) auto

lemma sync_blind: "blind A \<Longrightarrow> triple A (syncDirectory d) (\<lambda>_. A)"
  unfolding syncDirectory_def OpenDir_def Sync_def Close_def
  by (intro check_keeps os_err_keeps query_blind triple_bind [OF os_err_keeps [OF query_blind]] triple_ret) auto

lemma reject_blind: "blind A \<Longrightarrow> triple A (reject_symlinks current cs) (\<lambda>_. A)"
proof (induction cs arbitrary: current)
  case (Cons c cs)
  then show ?case
    by (auto simp: Let_def Lstat_def intro!: triple_bind [OF query_blind] triple_ret split: sum.splits fkind.splits)
qed (simp add: triple_ret)

lemma aliases_blind: "blind A \<Longrightarrow> triple A (existing_aliases ps existing) (\<lambda>_. A)"
proof (induction ps arbitrary: existing)
  case (Cons p ps)
  then show ?case by (auto simp: Lstat_def intro!: triple_bind [OF query_blind] triple_ret split: sum.splits)
qed (simp add: triple_ret)

lemma for_each_blind: "(\<And>x. triple A (f x) (\<lambda>_. A)) \<Longrightarrow> triple A (for_each f xs) (\<lambda>_. A)"
  by (induction xs) (auto intro: triple_ret check_keeps)

lemma release_blind: "blind A \<Longrightarrow> triple A (release files) (\<lambda>_. A)"
proof -
  assume A: "blind A"
  have u1: "triple A (Funlock p) (\<lambda>_. A)" for p
    unfolding Funlock_def using A by (intro triple_modify) (auto simp: blind_def)
  have u2: "triple A (CloseLock p) (\<lambda>_. A)" for p
    using A by (auto simp: CloseLock_def sys_def triple_def blind_def)
  note u = os_err_keeps [OF u1] os_err_keeps [OF u2]
  have "triple A (release_loop fs errs) (\<lambda>_. A)" for fs errs
    by (induction fs arbitrary: errs) (auto intro!: triple_ret triple_bind [OF u(1)] triple_bind [OF u(2)])
  then show ?thesis by (simp add: release_def)
qed

text \<open>The state before anything has been checked.\<close>

definition start :: "tls_case \<Rightarrow> string set \<Rightarrow> os \<Rightarrow> bool" where
  "start K D s \<longleftrightarrow> good (k_now K) D (F0 K) s \<and> clear K s"

lemma start_blind: "blind (start K D)"
  by (simp add: blind_def start_def clear_def)

lemma start_mono: "start K D s \<Longrightarrow> D' \<subseteq> D \<Longrightarrow> start K D' s"
  by (auto simp: start_def base_def)

lemma start_safe: "setting K \<Longrightarrow> start K D s \<Longrightarrow> safe K False s"
proof -
  assume K: "setting K" and s: "start K D s"
  note S = settingD [OF K]
  have g: "good (k_now K) D (F0 K) s" using s by (simp add: start_def)
  have ne: "k_cf K \<noteq> []" "k_kf K \<noteq> []" "journal K \<noteq> []" using S(1,2) target_nonempty transactionPath_path(1) by blast+
  note F = F0_simps(1-3) [OF K]
  have "lookup s (k_cf K) = k_oc K" "lookup s (k_kf K) = k_ok K" "lookup s (journal K) = None"
    using base_lookup [OF g ne(1) F(1)] base_lookup [OF g ne(2) F(2)] base_lookup [OF g ne(3) F(3)] by simp_all
  moreover have "base False (k_now K) {} Map.empty s" "clear K s" using s by (simp_all add: start_def base_def)
  ultimately show ?thesis by (intro settled_safe) (simp add: settled_def)
qed

lemma start_create:
  assumes "setting K" and "start K D s" and "p \<notin> {k_cf K, k_kf K, journal K, []}" and "lookup s p = None"
    and "k = Directory \<or> p \<notin> dirs K"
  shows "start K D (put_node p (new_node s k perm) (s\<lparr>os_ino := Suc (os_ino s)\<rparr>))"
proof -
  have "F0 K p = None" using F0_simps(4) [OF assms(1)] assms(3) by auto
  then have "good (k_now K) D (F0 K) (put_node p (new_node s k perm) (s\<lparr>os_ino := Suc (os_ino s)\<rparr>))"
    using base_create [of "k_now K" D "F0 K" s p k perm] assms unpin by (auto simp: start_def)
  moreover have "clear K (put_node p (new_node s k perm) (s\<lparr>os_ino := Suc (os_ino s)\<rparr>))"
    using assms(2,5) by (auto simp: start_def clear_def is_dir_def new_node_def split: if_splits)
  ultimately show ?thesis by (simp add: start_def)
qed

lemma Mkdir_rule:
  assumes "setting K" and "p \<in> dirs K" and "p \<noteq> []"
  shows "triple (start K D) (Mkdir p perm) (\<lambda>_. start K D)"
  unfolding Mkdir_def
proof (rule triple_modify, goal_cases)
  case (3 s s')
  have p: "p \<notin> {k_cf K, k_kf K, journal K, []}"
    using assms(2,3) settingD(5) [OF assms(1)] by (auto simp: independent_def dirs_def)
  let ?s = "s\<lparr>os_ticks := Suc (os_ticks s)\<rparr>"
  have "start K D ?s" using 3(1) start_blind by (simp add: blind_def)
  moreover from 3(2) have "lookup ?s p = None" "s' = put_node p (new_node ?s Directory perm) (?s\<lparr>os_ino := Suc (os_ino ?s)\<rparr>)"
    by (auto simp: create_node_def split: if_splits)
  ultimately show ?case using start_create [OF assms(1) _ p, of D ?s Directory perm] by simp
qed (use start_blind [of K D] in \<open>auto simp: blind_def\<close>)

lemma lstat_or_mkdir_rule:
  assumes "setting K" and "p \<in> dirs K" and "p \<noteq> []"
  shows "triple (start K D) (lstat_or_mkdir p) (outcome (start K D) (\<lambda>n s. start K D s \<and> lookup s p = Some n))"
proof -
  let ?A = "start K D" and ?R = "\<lambda>n s. start K D s \<and> lookup s p = Some n"
  have st: "triple ?A (Lstat p) (outcome ?A ?R)"
    unfolding Lstat_def using start_blind [of K D] by (intro triple_query) (auto simp: blind_def split: option.splits)
  have st2: "triple ?A (os_err (Lstat p)) (outcome ?A ?R)" by (rule triple_os_err [OF st])
  have mk: "triple ?A (Mkdir p 0x1C0) (outcome ?A (\<lambda>_. ?A))" by (rule keeps_outcome [OF Mkdir_rule [OF assms]])
  have made: "triple ?A (do {
           made \<leftarrow> Mkdir p 0x1C0;
           case made of
             Inl e \<Rightarrow> if e \<noteq> EEXIST then ret (Inl (Joined [Msg ''create TLS directory'', Os e])) else os_err (Lstat p)
           | Inr _ \<Rightarrow> os_err (Lstat p) }) (outcome ?A ?R)"
    by (rule triple_bind_sum [OF mk]) (auto intro!: triple_ret st2)
  show ?thesis unfolding lstat_or_mkdir_def
    by (rule triple_bind_sum [OF st]) (auto intro!: triple_ret made)
qed

lemma trusted_rule:
  assumes "setting K" and "\<And>p. p \<in> set ps \<Longrightarrow> p \<in> dirs K \<and> p \<noteq> []"
  shows "triple (start K D) (trusted_ancestors ps infos) (outcome (start K {}) (\<lambda>_. start K (D \<union> set ps)))"
  using assms(2)
proof (induction ps arbitrary: D infos)
  case Nil
  show ?case by (auto intro: triple_ret)
next
  case (Cons p ps)
  have ls: "triple (start K D) (lstat_or_mkdir p) (outcome (start K {}) (\<lambda>n s. start K D s \<and> lookup s p = Some n))"
    using Cons.prems by (intro triple_outcome [OF lstat_or_mkdir_rule [OF assms(1)]]) (auto intro: start_mono)
  have more: "start K (insert p D) s" if "start K D s" "lookup s p = Some n" "n_kind n = Directory" for s n
    using that by (auto simp: start_def base_def is_dir_def)
  have IH: "triple (start K (insert p D)) (trusted_ancestors ps i) (outcome (start K {}) (\<lambda>_. start K (D \<union> set (p # ps))))" for i
    using Cons.IH [of "insert p D" i] Cons.prems by simp
  have get: "triple (start K (insert p D)) State_Monad.get (\<lambda>_. start K (insert p D))" by (rule triple_get)
  show ?case unfolding trusted_ancestors.simps
  proof (rule triple_check [OF ls])
    fix n
    show "triple (\<lambda>s. start K D s \<and> lookup s p = Some n) (if n_kind n \<noteq> Directory then ret (Inl (Msg ''TLS ancestor is not a real directory''))
     else do {
       s \<leftarrow> State_Monad.get;
       if n_uid n \<noteq> 0 \<and> n_uid n \<noteq> os_euid s then ret (Inl (Msg ''TLS ancestor has untrusted owner''))
       else trusted_ancestors ps (infos @ [n]) }) (outcome (start K {}) (\<lambda>_. start K (D \<union> set (p # ps))))"
    proof (cases "n_kind n = Directory")
      case False
      then show ?thesis by (auto intro!: triple_ret intro: start_mono)
    next
      case True
      have "triple (start K (insert p D)) (do {
       s \<leftarrow> State_Monad.get;
       if n_uid n \<noteq> 0 \<and> n_uid n \<noteq> os_euid s then ret (Inl (Msg ''TLS ancestor has untrusted owner''))
       else trusted_ancestors ps (infos @ [n]) }) (outcome (start K {}) (\<lambda>_. start K (D \<union> set (p # ps))))"
        by (rule triple_bind [OF get]) (use IH in \<open>auto intro!: triple_ret intro: start_mono\<close>)
      then show ?thesis using True more by (auto intro: triple_pre)
    qed
  qed auto
qed

lemma ensureTrustedParent_rule:
  assumes "setting K" and "t \<in> {k_cf K, k_kf K}"
  shows "triple (start K D) (ensureTrustedParent (Dir t)) (outcome (start K {}) (\<lambda>_. start K (D \<union> set (absoluteComponents (Dir t)))))"
proof -
  have tp: "target_path t" using assms settingD(1,2) [OF assms(1)] by auto
  have comps: "p \<in> dirs K \<and> p \<noteq> []" if "p \<in> set (absoluteComponents (Dir t))" for p
  proof -
    from tp obtain es e where es: "t = abs_path (es @ [e])" "list_all element es" "element e" by (rule target_pathE)
    then have "Dir t = abs_path es" by (simp add: Dir_abs element_def)
    then have "p \<noteq> []" using that set_absoluteComponents [OF es(2)] by (auto simp: ancestors_def abs_path_def)
    with that assms(2) show ?thesis by (auto simp: dirs_def)
  qed
  let ?D = "D \<union> set (absoluteComponents (Dir t))"
  have sync: "triple (start K ?D) (syncDirectory (Dir t)) (outcome (start K {}) (\<lambda>_. start K ?D))"
    by (rule triple_outcome [OF keeps_outcome [OF sync_blind [OF start_blind]]]) (auto intro: start_mono)
  show ?thesis unfolding ensureTrustedParent_def
    by (rule triple_check [OF trusted_rule [OF assms(1) comps]]) (use sync in \<open>auto intro!: triple_ret intro: start_mono\<close>)
qed

definition lock_paths :: "string \<Rightarrow> string \<Rightarrow> string list" where
  "lock_paths certFile keyFile = [certFile, keyFile, transactionPath certFile, lockPath certFile, lockPath keyFile]"

lemma prepare_rule:
  assumes "setting K"
  shows "triple (start K {}) (prepareTLSPaths (k_cf K) (k_kf K))
     (outcome (start K {}) (\<lambda>_ s. start K (dirs K) s \<and> distinct (lock_paths (k_cf K) (k_kf K))))"
proof -
  let ?paths = "lock_paths (k_cf K) (k_kf K)"
  have one: "triple (start K {}) (for_each ensureTrustedParent [Dir (k_cf K), Dir (k_kf K)]) (outcome (start K {}) (\<lambda>_. start K (dirs K)))"
    using ensureTrustedParent_rule [OF assms, of "k_cf K" "{}"] ensureTrustedParent_rule [OF assms, of "k_kf K" "set (absoluteComponents (Dir (k_cf K)))"]
    by (auto intro!: triple_check [where E = "start K {}"] triple_ret simp: dirs_def)
  have two: "triple (start K (dirs K)) (for_each rejectSymlinkComponents ?paths) (outcome (start K {}) (\<lambda>_. start K (dirs K)))"
    by (rule triple_outcome [OF keeps_outcome [OF for_each_blind]])
       (auto simp: rejectSymlinkComponents_def Let_def intro: reject_blind start_blind start_mono)
  have three: "triple (start K (dirs K)) (rejectExistingAliases ?paths) (outcome (start K {}) (\<lambda>_. start K (dirs K)))"
    unfolding rejectExistingAliases_def
    by (rule triple_outcome [OF keeps_outcome [OF aliases_blind [OF start_blind]]]) (auto intro: start_mono)
  have all: "triple (start K {}) (check (for_each ensureTrustedParent [Dir (k_cf K), Dir (k_kf K)]) (\<lambda>_.
      check (for_each rejectSymlinkComponents ?paths) (\<lambda>_. rejectExistingAliases ?paths)))
      (outcome (start K {}) (\<lambda>_ s. start K (dirs K) s \<and> distinct ?paths))" if "distinct ?paths"
    by (rule triple_check [OF one], rule triple_check [OF two], rule triple_outcome [OF three]) (use that in auto)
  show ?thesis
  proof (cases "distinct ?paths")
    case True
    show ?thesis unfolding prepareTLSPaths_def Let_def using all [OF True] True
      by (auto simp: lock_paths_def intro!: triple_ret)
  next
    case False
    then show ?thesis unfolding prepareTLSPaths_def Let_def by (auto simp: lock_paths_def intro!: triple_ret)
  qed
qed

lemma OpenLock_rule:
  assumes "setting K" and "p \<notin> {k_cf K, k_kf K, journal K, []}"
  shows "triple (start K (dirs K)) (OpenLock p) (\<lambda>_. start K (dirs K))"
  unfolding OpenLock_def
proof (rule triple_modify, goal_cases)
  case (3 s s')
  let ?s = "s\<lparr>os_ticks := Suc (os_ticks s)\<rparr>"
  have s: "start K (dirs K) ?s" using 3(1) start_blind by (simp add: blind_def)
  show ?case
  proof (cases "lookup ?s p")
    case None
    then have "p \<notin> dirs K" using s by (auto simp: start_def base_def is_dir_def split: option.splits)
    moreover have "s' = put_node p (new_node ?s Regular 0x180) (?s\<lparr>os_ino := Suc (os_ino ?s)\<rparr>)"
      using 3(2) None by (auto simp: create_node_def split: if_splits)
    ultimately show ?thesis using start_create [OF assms(1) s assms(2) None] by blast
  next
    case (Some n)
    with 3(2) s show ?thesis by (auto split: fkind.splits)
  qed
qed (use start_blind [of K "dirs K"] in \<open>auto simp: blind_def\<close>)

lemma acquire_rule:
  assumes "setting K" and "distinct (lock_paths (k_cf K) (k_kf K))"
  shows "triple (start K (dirs K)) (acquireCertificateLocks (k_cf K) (k_kf K)) (outcome (start K (dirs K)) (\<lambda>_. start K (dirs K)))"
proof -
  let ?A = "start K (dirs K)"
  have op: "triple ?A (os_err (OpenLock p)) (\<lambda>_. ?A)" if "p \<in> {lockPath (k_cf K), lockPath (k_kf K)}" for p
    using that assms(2) by (intro os_err_keeps OpenLock_rule [OF assms(1)]) (auto simp: lock_paths_def lockPath_def)
  have stat: "triple ?A (os_err (Fstat_secure p)) (\<lambda>_. ?A)" for p
    unfolding Fstat_secure_def by (intro os_err_keeps query_blind start_blind)
  have lock: "triple ?A (os_err (Flock p)) (\<lambda>_. ?A)" for p
    unfolding Flock_def using start_blind [of K "dirs K"] by (intro os_err_keeps triple_modify) (auto simp: blind_def)
  have close: "triple ?A (os_err (CloseLock p)) (\<lambda>_. ?A)" for p
    using start_blind [of K "dirs K"] by (intro os_err_keeps) (auto simp: CloseLock_def sys_def triple_def blind_def)
  note rel = release_blind [OF start_blind, of K "dirs K"]
  have give: "triple ?A (give_up e p fs) (\<lambda>_. ?A)" for e p fs
    unfolding give_up_def by (intro triple_bind [OF close] triple_bind [OF rel] triple_ret)
  have "triple ?A (acquire_loop ps fs) (\<lambda>_. ?A)" if "set ps \<subseteq> {lockPath (k_cf K), lockPath (k_kf K)}" for ps fs
    using that
  proof (induction ps arbitrary: fs)
    case (Cons p ps)
    have p: "p \<in> {lockPath (k_cf K), lockPath (k_kf K)}" and IH: "triple ?A (acquire_loop ps fs') (\<lambda>_. ?A)" for fs'
      using Cons by auto
    show ?case unfolding acquire_loop.simps
      by (intro triple_bind_sum [OF keeps_outcome [OF op [OF p]]] triple_bind [OF rel] triple_ret
          triple_bind_sum [OF keeps_outcome [OF stat]] give)
         (auto intro!: triple_bind_sum [OF keeps_outcome [OF lock]] give IH)
  qed (simp add: triple_ret)
  then show ?thesis unfolding acquireCertificateLocks_def by (intro keeps_outcome) simp
qed

lemma safe_blind: "blind (safe K b)"
  by (simp add: blind_def)

lemma with_locks_rule:
  assumes "setting K" and "distinct (lock_paths (k_cf K) (k_kf K))"
    and "triple (good (k_now K) (dirs K) (F0 K)) op (\<lambda>_. safe K False)"
  shows "triple (start K (dirs K)) (with_locks (k_cf K) (k_kf K) op) (\<lambda>_. safe K False)"
proof -
  let ?S = "safe K False"
  have ss: "?S s" if "start K D s" for D s using start_safe [OF assms(1) that] .
  have good: "good (k_now K) (dirs K) (F0 K) s" if "start K (dirs K) s" for s using that by (simp add: start_def)
  have "triple (start K {}) (prepareTLSPaths (k_cf K) (k_kf K)) (outcome ?S (\<lambda>_. good (k_now K) (dirs K) (F0 K)))"
    by (rule triple_outcome [OF prepare_rule [OF assms(1)]]) (blast intro: ss good)+
  then have prep: "triple (start K (dirs K)) (prepareTLSPaths (k_cf K) (k_kf K)) (outcome ?S (\<lambda>_. good (k_now K) (dirs K) (F0 K)))"
    by (rule triple_pre) (rule start_mono, auto)
  have op: "triple (outcome ?S (\<lambda>_. good (k_now K) (dirs K) (F0 K)) r) (case r of Inl e \<Rightarrow> ret (Inl e) | Inr _ \<Rightarrow> op) (\<lambda>_. ?S)" for r :: "unit result"
    using assms(3) by (cases r) (auto intro: triple_ret)
  show ?thesis unfolding with_locks_def
    by (rule triple_check [OF acquire_rule [OF assms(1,2)]],
        rule triple_bind [OF prep], rule triple_bind [OF op], rule triple_bind [OF release_blind [OF safe_blind]], rule triple_ret)
       (auto intro: ss)
qed

end
