(* ===== verification/Certificates.thy ===== *)
theory Certificates
  imports Cert_Rotation
begin

text \<open>
  What \<^verbatim>\<open>RotateCertificate\<close> and \<^verbatim>\<open>EnsureCertificate\<close> promise as a whole: crash safety of the pair, whatever calls fail
  and however often recovery itself is interrupted, and the release of the lock files on every path.
\<close>

section \<open>Crash safety\<close>

lemma exchange_rule:
  assumes "setting K" and "triple (good (k_now K) (dirs K) (F0 K)) op (\<lambda>_. safe K False)"
  shows "triple (start K {}) (check (prepareTLSPaths (k_cf K) (k_kf K)) (\<lambda>_. with_locks (k_cf K) (k_kf K) op)) (\<lambda>_. safe K False)"
proof (rule triple_check [OF prepare_rule [OF assms(1)]])
  show "triple (\<lambda>s. start K (dirs K) s \<and> distinct (lock_paths (k_cf K) (k_kf K))) (with_locks (k_cf K) (k_kf K) op) (\<lambda>_. safe K False)"
    by (rule triple_pure2) (rule with_locks_rule [OF assms(1) _ assms(2)])
qed (rule start_safe [OF assms(1)])

lemma RotateCertificate_rule:
  "setting K \<Longrightarrow> triple (start K {}) (RotateCertificate (k_P K) (k_cf K) (k_kf K) (k_names K)) (\<lambda>_. safe K False)"
  unfolding RotateCertificate_def by (rule exchange_rule [OF _ rotateLocked_rule])

lemma EnsureCertificate_rule:
  assumes "setting K"
  shows "triple (start K {}) (EnsureCertificate (k_P K) (k_cf K) (k_kf K) (k_names K)) (\<lambda>_. safe K False)"
proof -
  have prep: "triple (start K {}) (prepareTLSPaths (k_cf K) (k_kf K)) (outcome (start K {}) (\<lambda>_. start K {}))"
    by (rule triple_outcome [OF prepare_rule [OF assms]]) (auto intro: start_mono)
  have hook: "triple (start K {}) (ret (Inr ())) (outcome (start K {}) (\<lambda>_. start K {}))"
    by (rule triple_ret) simp
  have none: "(case h_afterInitialValidation no_hooks of None \<Rightarrow> ret (Inr ()) | Some f \<Rightarrow> f) = ret (Inr ())"
    by (simp add: no_hooks_def)
  show ?thesis unfolding EnsureCertificate_def ensureCertificateWithHooks_def
    by (rule triple_check [OF prep], subst none, rule triple_check [OF hook])
       (auto intro: exchange_rule [OF assms ensureLocked_rule [OF assms]] start_safe [OF assms])
qed

text \<open>The tree a later process finds: the same files, no locks, and its own failing calls.\<close>

definition restart :: "(nat \<Rightarrow> nat option) \<Rightarrow> os \<Rightarrow> os" where
  "restart faults s = s\<lparr>os_fault := faults, os_held := []\<rparr>"

fun interrupted_recoveries :: "pki \<Rightarrow> string \<Rightarrow> string \<Rightarrow> (nat \<Rightarrow> nat option) list \<Rightarrow> os \<Rightarrow> os" where
  "interrupted_recoveries P certFile keyFile [] s = s"
| "interrupted_recoveries P certFile keyFile (w # ws) s =
     interrupted_recoveries P certFile keyFile ws
       (snd (run_state (recoverCertificateTransaction P certFile keyFile) (restart w s)))"

lemma restart_simps [simp]: "lookup (restart w s) p = lookup s p" "wf_os (restart w s) = wf_os s" "os_now (restart w s) = os_now s"
  "is_dir (restart w s) p = is_dir s p"
  by (simp_all add: restart_def wf_os_def is_dir_def)

lemma base_restart: "base False now D F s \<Longrightarrow> (b \<Longrightarrow> w = (\<lambda>_. None)) \<Longrightarrow> base b now D F (restart w s)"
  by (auto simp: base_def) (simp add: calm_def restart_def)

lemma safe_restart:
  assumes "safe K False s" and "b \<Longrightarrow> w = (\<lambda>_. None)"
  shows "safe K b (restart w s)"
  using assms(1) base_restart [OF _ assms(2)]
  unfolding safe_def settled_def in_flight_def flight_def clear_def restart_simps by blast

lemma recoveries_safe:
  "setting K \<Longrightarrow> safe K False s \<Longrightarrow> safe K False (interrupted_recoveries (k_P K) (k_cf K) (k_kf K) ws s)"
proof (induction ws arbitrary: s)
  case (Cons w ws)
  let ?r = "run_state (recoverCertificateTransaction (k_P K) (k_cf K) (k_kf K)) (restart w s)"
  have "outcome (\<lambda>s. \<not> False \<and> safe K False s) (\<lambda>_. settled K False) (fst ?r) (snd ?r)"
    by (rule tripleD [OF recover_rule [OF Cons.prems(1)] safe_restart [OF Cons.prems(2)]]) simp
  then have "safe K False (snd ?r)" by (cases "fst ?r") (auto simp: safe_def)
  then show ?case using Cons by simp
qed simp

text \<open>The state an exchange starts from.\<close>

definition ready :: "tls_case \<Rightarrow> os \<Rightarrow> bool" where
  "ready K s \<longleftrightarrow> wf_os s \<and> os_now s = k_now K \<and> clear K s \<and> lookup s (journal K) = None \<and>
     lookup s (k_cf K) = k_oc K \<and> lookup s (k_kf K) = k_ok K"

lemma ready_start: "setting K \<Longrightarrow> ready K s \<Longrightarrow> start K {} s"
  using F0_simps [of K] by (auto simp: ready_def start_def base_def F0_def split: if_splits)

text \<open>C1. Whatever system calls of a rotation, or of the creation at start, fail or never happen, and however often a
  later recovery is interrupted in the same way, the first undisturbed recovery succeeds, removes the journal and
  leaves the pair that was there before or a complete new pair, never a certificate with another key. The clock stands still over all of
  it, so the validity of a pair is the same at every look.\<close>

theorem rotation_crash_safe:
  assumes "setting K" and "ready K s"
    and "operation \<in> {RotateCertificate (k_P K) (k_cf K) (k_kf K) (k_names K), EnsureCertificate (k_P K) (k_cf K) (k_kf K) (k_names K)}"
    and "s1 = snd (run_state operation s)"
    and "s2 = restart (\<lambda>_. None) (interrupted_recoveries (k_P K) (k_cf K) (k_kf K) interruptions s1)"
    and "(r, s3) = run_state (recoverCertificateTransaction (k_P K) (k_cf K) (k_kf K)) s2"
  shows "r = Inr () \<and> lookup s3 (journal K) = None \<and>
     ((lookup s3 (k_cf K), lookup s3 (k_kf K)) = (k_oc K, k_ok K) \<or>
      (\<exists>n m. new_pair K n m \<and> (lookup s3 (k_cf K), lookup s3 (k_kf K)) = (Some n, Some m)))"
proof -
  have "triple (start K {}) operation (\<lambda>_. safe K False)"
    using assms(3) RotateCertificate_rule [OF assms(1)] EnsureCertificate_rule [OF assms(1)] by auto
  from tripleD [OF this ready_start [OF assms(1,2)]] have "safe K False s1" by (simp add: assms(4))
  then have "safe K True s2" unfolding assms(5) by (intro safe_restart recoveries_safe assms(1)) simp_all
  then have "outcome (\<lambda>s. \<not> True \<and> safe K True s) (\<lambda>_. settled K True) r s3"
    using tripleD [OF recover_rule [OF assms(1), of True]] assms(6) by (metis fst_conv snd_conv)
  then show ?thesis by (cases r) (auto simp: settled_def)
qed

text \<open>An instance: a parameter whose keys are their own certificates, an old pair, and a run that stops at its
  113th call, between the renames.\<close>

definition toy_pki :: pki where
  "toy_pki = \<lparr>X509KeyPair = (\<lambda>c k. if c = k then Inr \<lparr>kp_Certificate = [c], kp_PrivateKey = EcdsaP256 k\<rparr> else Inl (Msg ''mismatch'')),
     ParseCertificate = (\<lambda>raw. Inr \<lparr>c_NotBefore = 0, c_NotAfter = 100, c_KeyUsage = 1, c_ExtKeyUsage = [ExtKeyUsageServerAuth], c_Raw = raw\<rparr>),
     VerifyHostname = (\<lambda>_ _. Inr ()), GenerateKey = (\<lambda>_. Inr ''new''), rand_Int = (\<lambda>n. Inr (Suc n)), AddDate = (\<lambda>t n. t),
     CreateCertificate = (\<lambda>_ key. Inr key), MarshalPKCS8PrivateKey = Inr, pem_Encode = (\<lambda>_ b. b), sha256_hex = id\<rparr>"

definition toy_node :: "nat \<Rightarrow> fkind \<Rightarrow> string \<Rightarrow> node" where
  "toy_node i k b = \<lparr>n_ino = i, n_kind = k, n_perm = 0x1C0, n_sticky = False, n_uid = 0, n_gid = 0, n_data = b\<rparr>"

definition toy_case :: tls_case where
  "toy_case = \<lparr>k_P = toy_pki, k_now = 50, k_names = [], k_cf = ''/d/c'', k_kf = ''/d/k'',
     k_oc = Some (toy_node 2 Regular ''old''), k_ok = Some (toy_node 3 Regular ''old'')\<rparr>"

definition toy_os :: "(nat \<Rightarrow> nat option) \<Rightarrow> os" where
  "toy_os faults = \<lparr>os_tree = [(''/'', toy_node 0 Directory []), (''/d'', toy_node 1 Directory []),
       (''/d/c'', toy_node 2 Regular ''old''), (''/d/k'', toy_node 3 Regular ''old'')],
     os_ino = 4, os_fault = faults, os_ticks = 0, os_rand = of_nat, os_draws = 0, os_euid = 0, os_egid = 0,
     os_umask = 0, os_held = [], os_now = 50\<rparr>"

lemma toy_generated: "generated toy_pki 50 [] c k \<Longrightarrow> c = ''new'' \<and> k = ''new''"
  by (auto simp: generated_def toy_pki_def)

lemma toy_setting: "setting toy_case"
proof -
  have "target_path ''/d/c''" "target_path ''/d/k''" "independent ''/d/c'' ''/d/k''" "valid_utf8 ''/d/c''" "valid_utf8 ''/d/k''"
    "''/d/k'' \<noteq> transactionPath ''/d/c''"
    "usable toy_pki 50 [] (Some (toy_node 2 Regular ''old'')) (Some (toy_node 3 Regular ''old''))"
    by code_simp+
  moreover have "\<not> isl (judge_pair toy_pki 50 [] ''new'' ''new'')" "isl (judge_pair toy_pki 50 [] ''new'' ''old'')"
    "isl (judge_pair toy_pki 50 [] ''old'' ''new'')"
    by code_simp+
  ultimately show ?thesis
    by (auto simp: setting_def toy_case_def toy_node_def generated_loads_def keys_differ_def dest!: toy_generated)
qed

lemma toy_ready: "ready toy_case (toy_os w)"
proof -
  have "clear toy_case (toy_os w)"
    unfolding clear_def dirs_def toy_case_def tls_case.simps
    by code_simp
  then show ?thesis
    by (auto simp: ready_def toy_case_def toy_os_def toy_node_def wf_os_def transactionPath_def split: if_splits)
qed

theorem rotation_crash_safe_witness:
  "setting toy_case \<and> ready toy_case (toy_os (\<lambda>n. if n < 113 then None else Some 0)) \<and>
   (case run_state (recoverCertificateTransaction toy_pki ''/d/c'' ''/d/k'') (restart (\<lambda>_. None)
      (interrupted_recoveries toy_pki ''/d/c'' ''/d/k'' [\<lambda>n. if n < 130 then None else Some 0]
        (snd (run_state (RotateCertificate toy_pki ''/d/c'' ''/d/k'' []) (toy_os (\<lambda>n. if n < 113 then None else Some 0))))))
    of (r, s3) \<Rightarrow> r = Inr () \<and> lookup s3 (transactionPath ''/d/c'') = None \<and>
      ((lookup s3 ''/d/c'', lookup s3 ''/d/k'') = (Some (toy_node 2 Regular ''old''), Some (toy_node 3 Regular ''old'')) \<or>
       (\<exists>n m. new_pair toy_case n m \<and> (lookup s3 ''/d/c'', lookup s3 ''/d/k'') = (Some n, Some m))))"
proof -
  let ?w = "\<lambda>n. if n < 113 then None else Some 0"
  have K: "k_P toy_case = toy_pki" "k_cf toy_case = ''/d/c''" "k_kf toy_case = ''/d/k''" "k_names toy_case = []"
    "k_oc toy_case = Some (toy_node 2 Regular ''old'')" "k_ok toy_case = Some (toy_node 3 Regular ''old'')"
    by (simp_all add: toy_case_def)
  show ?thesis
    using rotation_crash_safe [OF toy_setting toy_ready [of ?w] insertI1 refl refl prod.collapse, where interruptions = "[\<lambda>n. if n < 130 then None else Some 0]"]
      toy_setting toy_ready [of ?w]
    unfolding K by (simp only: prod.case_eq_if conj_assoc simp_thms)
qed

section \<open>Locks\<close>

text \<open>Programs that leave the set of held locks alone.\<close>

definition lockless :: "'a go \<Rightarrow> bool" where
  "lockless m \<longleftrightarrow> (\<forall>s. os_held (snd (run_state m s)) = os_held s)"

named_theorems lockless

lemma lockless_intros [lockless]: "lockless (ret x)" "lockless State_Monad.get"
  "lockless m \<Longrightarrow> (\<And>x. lockless (f x)) \<Longrightarrow> lockless (m \<bind> f)"
  "lockless m' \<Longrightarrow> (\<And>x. lockless (k x)) \<Longrightarrow> lockless (check m' k)"
  "lockless e \<Longrightarrow> lockless (os_err e)"
  by (auto simp: lockless_def check_def os_err_def split: prod.splits sum.splits) (metis snd_conv)+

lemma lockless_cases [lockless]:
  "(b \<Longrightarrow> lockless m) \<Longrightarrow> (\<not> b \<Longrightarrow> lockless n) \<Longrightarrow> lockless (if b then m else n)"
  "(\<And>e. lockless (f e)) \<Longrightarrow> (\<And>x. lockless (g x)) \<Longrightarrow> lockless (case r of Inl e \<Rightarrow> f e | Inr x \<Rightarrow> g x)"
  "lockless n \<Longrightarrow> (\<And>y. lockless (h y)) \<Longrightarrow> lockless (case v of None \<Rightarrow> n | Some y \<Rightarrow> h y)"
  "(\<And>a b. lockless (p a b)) \<Longrightarrow> lockless (case q of (a, b) \<Rightarrow> p a b)"
  by (auto split: sum.splits option.splits prod.splits)

lemma lockless_for_each [lockless]: "(\<And>x. lockless (f x)) \<Longrightarrow> lockless (for_each f xs)"
  by (induction xs) (simp_all add: lockless)

lemma update_data_held [simp]: "os_held (update_data p f s) = os_held s"
  by (simp add: update_data_def split: option.splits)

lemma create_node_held: "create_node p k perm s = Inr s' \<Longrightarrow> os_held s' = os_held s"
  by (auto simp: create_node_def split: if_splits)

lemma lockless_query [lockless]: "lockless (query f)"
  by (simp add: lockless_def query_def sys_def split: option.splits)

lemma lockless_modify: "(\<And>s s'. f s = Inr s' \<Longrightarrow> os_held s' = os_held s) \<Longrightarrow> lockless (modify f)"
  by (auto simp: lockless_def modify_def sys_def split: option.splits sum.splits)

lemma lockless_calls [lockless]: "lockless (Lstat p)" "lockless (ReadFile p)" "lockless (OpenExcl p)"
  "lockless (Chmod p perm)" "lockless Sync" "lockless Close" "lockless (OpenDir p)" "lockless (Remove p)"
  "lockless (Rename p q)" "lockless (Mkdir p perm)" "lockless (OpenLock p)" "lockless (Fstat_secure p)"
  unfolding Lstat_def ReadFile_def OpenExcl_def Chmod_def Sync_def Close_def OpenDir_def Remove_def Rename_def Mkdir_def
    OpenLock_def Fstat_secure_def
  by (auto intro!: lockless_query lockless_modify dest!: create_node_held split: if_splits option.splits fkind.splits)

lemma lockless_draws [lockless]: "lockless next_random" "lockless draw" "lockless (Write p b)"
  by (auto simp: lockless_def next_random_def draw_def Write_def sys_def split: option.splits)

lemma lockless_create_temp [lockless]: "lockless (create_temp k prefix)"
  by (induction k) (simp_all add: lockless)

lemma lockless_files [lockless]: "lockless (CreateTemp dir pattern)" "lockless (syncDirectory p)" "lockless (removeIfExists p)"
  "lockless (loadCertificate P cf kf names)" "lockless (regularFileState p)" "lockless (journal_absent p complaint)"
  by (simp_all add: CreateTemp_def syncDirectory_def removeIfExists_def loadCertificate_def regularFileState_def journal_absent_def lockless)

lemma lockless_loops [lockless]: "lockless (sync_dirs ps seen)" "lockless (remove_all ps errs)" "lockless (serial_loop P n)"
  by (induction ps arbitrary: seen errs) (simp_all add: lockless, induction n, simp_all add: lockless)

lemma lockless_trusted [lockless]: "lockless (trusted_ancestors ps infos)"
  by (induction ps infos rule: trusted_ancestors.induct) (simp_all add: lockless lstat_or_mkdir_def)

lemma lockless_symlinks [lockless]: "lockless (reject_symlinks current cs)"
  by (induction current cs rule: reject_symlinks.induct) (simp_all add: lockless Let_def split: fkind.split)

lemma lockless_aliases [lockless]: "lockless (existing_aliases ps existing)"
  by (induction ps existing rule: existing_aliases.induct) (simp_all add: lockless)

lemma lockless_prepare [lockless]: "lockless (prepareTLSPaths cf kf)"
  by (simp add: prepareTLSPaths_def ensureTrustedParent_def rejectSymlinkComponents_def rejectExistingAliases_def Let_def lockless
      del: for_each.simps)

lemma lockless_journal_paths [lockless]: "lockless (journal_paths ps seen existing)"
  by (induction ps seen existing rule: journal_paths.induct) (simp_all add: lockless)

lemma lockless_choose [lockless]: "lockless (choose_candidate P cs)"
  by (induction cs) (simp_all add: lockless pairFilesUsable_def)

lemma lockless_finish [lockless]: "lockless (finishTransaction tx)" "lockless (pairFilesUsable P cf kf)" "lockless (replaceRecovered p q)"
  by (simp_all add: finishTransaction_def syncRelevantDirs_def pairFilesUsable_def replaceRecovered_def lockless del: for_each.simps)

lemma lockless_validate [lockless]: "lockless (validateTransactionPaths tx)"
  unfolding validateTransactionPaths_def validate_aux_def rejectSymlinkComponents_def Let_def
  by (rule lockless)+

lemma lockless_recover [lockless]: "lockless (recoverCertificateTransaction P cf kf)"
  unfolding recoverCertificateTransaction_def recover_tx_def Let_def
  by (rule lockless)+

lemma lockless_stage [lockless]: "lockless (stageFile target contents mode)" "lockless (reserveSibling target kind)"
  "lockless (cleanupOnPrepareError e ps)" "lockless (unstage p e)"
  by (simp_all add: stageFile_def stage_fail_def unstage_def reserveSibling_def cleanupOnPrepareError_def lockless)

lemma lockless_steps [lockless]: "lockless (generateCertificate P names)" "lockless (reserve_if ex target ps)"
  "lockless (writeTransaction tx None)" "lockless (renameStep P no_hooks cf kf step old new)"
  by (simp_all add: generateCertificate_def reserve_if_def writeTransaction_def renameStep_def syncRelevantDirs_def no_hooks_def Let_def lockless)

lemma lockless_pair [lockless]: "lockless (stage_pair cf kf certPEM keyPEM)" "lockless (install_pair P no_hooks tx names fp)"
  by (simp_all add: stage_pair_def removeAndSync_def install_pair_def Let_def lockless del: for_each.simps)

lemma lockless_rotate [lockless]: "lockless (rotateCertificateWithHooks P cf kf names no_hooks)"
  by (simp add: rotateCertificateWithHooks_def lockless no_hooks_def [THEN arg_cong [where f = h_journalSync]])

lemma lockless_locked [lockless]: "lockless (rotateCertificateLocked P cf kf names)" "lockless (ensureCertificateLocked P cf kf names no_hooks)"
  by (simp_all add: rotateCertificateLocked_def ensureCertificateLocked_def lockless)

text \<open>Taking the locks is all or nothing, in the order of the paths, so that two processes cannot wait for each other.\<close>

lemma release_held: "os_held (snd (run_state (release_loop fs errs) s)) = filter (\<lambda>q. q \<notin> set fs) (os_held s)"
proof (induction fs arbitrary: errs s)
  case (Cons f fs)
  then show ?case
    by (auto simp: os_err_def Funlock_def modify_def CloseLock_def sys_def split: option.splits prod.splits intro!: filter_cong)
qed simp

lemma acquire_held:
  assumes "distinct (files @ ps)"
  shows "triple (\<lambda>s. os_held s = rev files) (acquire_loop ps files)
     (outcome (\<lambda>s. os_held s = []) (\<lambda>locks s. locks = files @ ps \<and> os_held s = rev locks))"
  using assms
proof (induction ps arbitrary: files)
  case Nil
  then show ?case by (simp add: triple_ret)
next
  case (Cons p ps)
  let ?Q = "outcome (\<lambda>s. os_held s = []) (\<lambda>locks s. locks = files @ p # ps \<and> os_held s = rev locks)"
  have rel: "triple (\<lambda>s. set (os_held s) \<subseteq> set files) (release files) (\<lambda>_ s. os_held s = [])"
    unfolding release_def by (rule tripleI) (auto simp: release_held filter_empty_conv)
  have give: "triple (\<lambda>s. os_held s \<in> {rev files, p # rev files}) (give_up e p files) ?Q" for e
  proof -
    have "triple (\<lambda>s. os_held s \<in> {rev files, p # rev files}) (os_err (CloseLock p)) (\<lambda>_ s. set (os_held s) \<subseteq> set files)"
      by (auto simp: triple_def os_err_def CloseLock_def sys_def)
    then show ?thesis unfolding give_up_def by (rule triple_bind) (auto intro!: triple_bind [OF rel] triple_ret)
  qed
  have same: "triple (\<lambda>s. os_held s = rev files) (os_err m) (outcome (\<lambda>s. os_held s = rev files) (\<lambda>_ s. os_held s = rev files))"
    if "lockless m" for m :: "(errno + 'b) go"
    by (rule keeps_outcome) (use lockless_intros(5) [OF that] in \<open>auto simp: triple_def lockless_def split: prod.splits; metis snd_conv\<close>)
  have lock: "triple (\<lambda>s. os_held s = rev files) (os_err (Flock p)) (outcome (\<lambda>s. os_held s = rev files) (\<lambda>_ s. os_held s = rev (files @ [p])))"
    by (auto simp: triple_def os_err_def Flock_def modify_def sys_def outcome_def split: option.splits)
  have more: "triple (\<lambda>s. os_held s = rev (files @ [p])) (acquire_loop ps (files @ [p])) ?Q"
    using Cons.IH [of "files @ [p]"] Cons.prems by simp
  show ?case unfolding acquire_loop.simps
    by (intro triple_bind_sum [OF same [OF lockless_calls(11)]] triple_bind_sum [OF same [OF lockless_calls(12)]]
        triple_bind [OF triple_pre [OF rel]] triple_ret triple_pre [OF give])
       (auto intro!: triple_bind_sum [OF lock] triple_pre [OF give] more)
qed

lemma acquire_all_or_nothing:
  assumes "certFile \<noteq> keyFile"
  shows "triple (\<lambda>s. os_held s = []) (acquireCertificateLocks certFile keyFile)
     (outcome (\<lambda>s. os_held s = []) (\<lambda>locks s. locks = sort [lockPath certFile, lockPath keyFile] \<and> os_held s = rev locks))"
  using acquire_held [of "[]" "sort [lockPath certFile, lockPath keyFile]"] assms
  by (simp add: acquireCertificateLocks_def lockPath_def)

lemma lockless_triple: "lockless m \<Longrightarrow> triple (\<lambda>s. os_held s = h) m (\<lambda>_ s. os_held s = h)"
  by (rule tripleI) (simp add: lockless_def)

lemma with_locks_held:
  assumes "certFile \<noteq> keyFile" and "lockless operation"
  shows "triple (\<lambda>s. os_held s = []) (with_locks certFile keyFile operation) (\<lambda>_ s. os_held s = [])"
proof -
  let ?l = "sort [lockPath certFile, lockPath keyFile]"
  have op: "lockless (case r of Inl e \<Rightarrow> ret (Inl e) | Inr _ \<Rightarrow> operation)" for r :: "unit result"
    using assms(2) by (intro lockless)
  have rel: "triple (\<lambda>s. os_held s = rev ?l) (release ?l) (\<lambda>_ s. os_held s = [])"
    unfolding release_def by (rule tripleI) (simp only: release_held, simp)
  show ?thesis unfolding with_locks_def
  proof (rule triple_check [OF acquire_all_or_nothing [OF assms(1)]], rule triple_pure, goal_cases)
    case (1 locks)
    show ?case unfolding 1
      by (rule triple_bind [OF lockless_triple [OF lockless_prepare]], rule triple_bind [OF lockless_triple [OF op]],
          rule triple_bind [OF rel], rule triple_ret, assumption)
  qed
qed

lemma exchange_locks:
  assumes "lockless operation"
  shows "triple (\<lambda>s. os_held s = []) (check (prepareTLSPaths certFile keyFile) (\<lambda>_. with_locks certFile keyFile operation)) (\<lambda>_ s. os_held s = [])"
proof (cases "certFile = keyFile")
  case True
  then have "\<exists>e. prepareTLSPaths certFile keyFile = ret (Inl e)" unfolding prepareTLSPaths_def Let_def by auto
  then show ?thesis by (auto simp: check_def triple_ret)
next
  case False
  then show ?thesis
    by (intro triple_check [OF keeps_outcome [OF lockless_triple [OF lockless_prepare]]] with_locks_held assms)
qed

text \<open>C22. On every path, with any failing calls, rotation and creation of the certificate release both lock files.\<close>

theorem certificate_locks_released:
  assumes "operation \<in> {RotateCertificate P certFile keyFile names, EnsureCertificate P certFile keyFile names}"
    and "os_held s = []"
  shows "os_held (snd (run_state operation s)) = []"
proof -
  have none: "(case h_afterInitialValidation no_hooks of None \<Rightarrow> ret (Inr ()) | Some f \<Rightarrow> f) = ret (Inr ())"
    by (simp add: no_hooks_def)
  have "triple (\<lambda>s. os_held s = []) (EnsureCertificate P certFile keyFile names) (\<lambda>_ s. os_held s = [])"
    unfolding EnsureCertificate_def ensureCertificateWithHooks_def none
    by (intro triple_check [OF keeps_outcome [OF lockless_triple [OF lockless_prepare]]]
        triple_check [OF keeps_outcome [OF lockless_triple [OF lockless_intros(1)]]] exchange_locks lockless)
  moreover have "triple (\<lambda>s. os_held s = []) (RotateCertificate P certFile keyFile names) (\<lambda>_ s. os_held s = [])"
    unfolding RotateCertificate_def by (intro exchange_locks lockless)
  ultimately have "triple (\<lambda>s. os_held s = []) operation (\<lambda>_ s. os_held s = [])" using assms(1) by auto
  from tripleD [OF this assms(2)] show ?thesis .
qed

theorem certificate_locks_released_witness:
  "os_held (toy_os (\<lambda>n. Some 0)) = [] \<and>
   os_held (snd (run_state (RotateCertificate toy_pki ''/d/c'' ''/d/k'' []) (toy_os (\<lambda>n. if n < 60 then None else Some 0)))) = []"
proof -
  have held: "os_held (toy_os w) = []" for w by (simp add: toy_os_def)
  show ?thesis using certificate_locks_released [OF insertI1 held] held by blast
qed

end
