(* ===== verification/Api_Http.thy ===== *)
theory Api_Http
  imports GoPath GoJson Auth_Store
begin

text \<open>
  \<^verbatim>\<open>internal/api/server.go\<close> and \<^verbatim>\<open>errors.go\<close> without the handlers: request bodies, the error catalogue, the route
  table, \<^verbatim>\<open>http.ServeMux\<close> on it, and the middleware. A handler is a function of the request and the server
  state; which one runs, and whether it runs at all, is decided here.
\<close>

section \<open>Requests and responses\<close>

record request =
  rq_method :: string
  rq_path :: string
  rq_raw_query :: string
  rq_authorization :: "string list"
  rq_remote_addr :: string
  rq_content_length :: int
  rq_body :: string

text \<open>The body of a response: nothing, the error object, or a value that is encoded as JSON (\<open>None\<close> when it cannot be).\<close>

datatype 'b body = NoBody | ErrorBody string string | Value "'b option"

record 'b response =
  rs_status :: nat
  rs_body :: "'b body"

definition writeJSON :: "nat \<Rightarrow> 'b option \<Rightarrow> 'b response" where
  "writeJSON code v = \<lparr>rs_status = code, rs_body = Value v\<rparr>"

definition errorCatalog :: "(string \<times> nat \<times> string) list" where
  "errorCatalog = [
     (''unauthorized'', 401, ''Bearer token is missing or invalid''),
     (''invalid_request'', 400, ''Request is invalid''),
     (''admin_required'', 403, ''Administrator token required''),
     (''advanced_disabled'', 403, ''Advanced operations are disabled''),
     (''not_found'', 404, ''Resource was not found''),
     (''capability_unsupported'', 409, ''Operation is not supported''),
     (''operation_in_progress'', 409, ''Pairing operation already in progress''),
     (''pairing_pin_not_requested'', 409, ''Pairing PIN was not requested''),
     (''ble_operation_failed'', 502, ''BLE operation failed''),
     (''device_disconnected'', 503, ''Link-Power is not connected''),
     (''command_timeout'', 504, ''Device telemetry did not confirm the command''),
     (''invalid_or_expired_pin'', 401, ''Pairing PIN is invalid or expired''),
     (''internal_error'', 500, ''Internal server error'')]"

definition writeAPIError :: "string \<Rightarrow> 'b response" where
  "writeAPIError code = (case map_of errorCatalog code of
      Some (status, message) \<Rightarrow> \<lparr>rs_status = status, rs_body = ErrorBody code message\<rparr>
    | None \<Rightarrow> \<lparr>rs_status = 500, rs_body = ErrorBody ''internal_error'' ''Internal server error''\<rparr>)"

lemma writeAPIError_status: "400 \<le> rs_status (writeAPIError c :: 'b response)"
proof -
  have "list_all (\<lambda>(_, status, _). 400 \<le> status) errorCatalog" by (simp add: errorCatalog_def)
  then show ?thesis by (auto simp: writeAPIError_def list_all_iff dest!: map_of_SomeD split: option.splits)
qed

section \<open>Bodies\<close>

abbreviation (input) maxRequestBodyBytes :: nat where "maxRequestBodyBytes \<equiv> 65536"

text \<open>\<^verbatim>\<open>decodeJSON\<close>: the reader fails behind the limit, the decoder takes one value and only white space may follow.\<close>

definition read_json :: "request \<Rightarrow> json option" where
  "read_json r = (if length (rq_body r) > maxRequestBodyBytes then None else json_Unmarshal (rq_body r))"

text \<open>Into a struct, with unknown names refused: the members in order, under the names of the names.\<close>

fun known_members :: "string list \<Rightarrow> (string \<times> json) list \<Rightarrow> (string \<times> json) list option" where
  "known_members names [] = Some []"
| "known_members names ((k, v) # ms) = (case struct_field names k of
      None \<Rightarrow> None
    | Some f \<Rightarrow> map_option (Cons (f, v)) (known_members names ms))"

definition decodeJSON :: "string list \<Rightarrow> request \<Rightarrow> (string \<times> json) list option" where
  "decodeJSON names r = (case read_json r of
      Some (JObj ms) \<Rightarrow> known_members names ms
    | Some JNull \<Rightarrow> Some []
    | _ \<Rightarrow> None)"

text \<open>A field of the struct: every member with its name is decoded in turn, and one that does not fit makes the whole
  decoding fail. \<^verbatim>\<open>null\<close> clears a pointer and leaves another field as it is.\<close>

definition field :: "('a \<Rightarrow> json \<Rightarrow> 'a option) \<Rightarrow> 'a \<Rightarrow> string \<Rightarrow> (string \<times> json) list \<Rightarrow> 'a option" where
  "field decode zero f ms =
     foldl (\<lambda>acc (k, v). if k = f then (case acc of None \<Rightarrow> None | Some x \<Rightarrow> decode x v) else acc) (Some zero) ms"

definition pointer :: "('a \<Rightarrow> json \<Rightarrow> 'a option) \<Rightarrow> 'a \<Rightarrow> 'a option \<Rightarrow> json \<Rightarrow> 'a option option" where
  "pointer decode zero old v = (if v = JNull then Some None
     else map_option Some (decode (case old of None \<Rightarrow> zero | Some x \<Rightarrow> x) v))"

definition requireNoBody :: "request \<Rightarrow> bool" where
  "requireNoBody r \<longleftrightarrow> rq_body r = []"

section \<open>Routes\<close>

datatype segment = Lit string | Wild string

datatype middleware = publicRoute | clientRoute | adminRoute | adminSettingsRoute | clientSettingsRoute

datatype endpoint =
    H_status | H_telemetry | H_history | H_events | H_device | H_setDC | H_setTypeCOutput | H_getLimit | H_putLimit | H_deleteLimit | H_setBypass
  | H_getThreshold | H_putThreshold | H_listTimers | H_addTimer | H_getTimer | H_putTimer | H_deleteTimer | H_getClock | H_syncClock
  | H_restart | H_shutdown | H_otaInfo | H_enterOTA | H_exitOTA | H_putRunningMode | H_getBarrierFree | H_putBarrierFree | H_getUSBFirmware | H_putBLEPIN
  | H_getRules | H_postRule | H_putRule | H_deleteRule | H_deviceAction
  | H_pairingStatusRoute | H_pairingScanRoute | H_pairingPairRoute | H_pairingRecoverRoute | H_pairingRequestCodeRoute
  | H_pairingSubmitPINRoute | H_pairingCancelRoute | H_pairingUnpairRoute
  | H_getUSBCLimit | H_setUSBCLimit | H_getBypassThreshold | H_setBypassThreshold | H_getSchedules | H_postSchedule | H_deleteSchedule
  | H_clientPair | H_pairingModeStatus | H_openPairingMode | H_closePairingMode | H_pairingQRCode | H_listTokens | H_revokeToken
  | H_getSettings | H_putSettings | H_rotateTLS

record routeDescriptor =
  rt_method :: string
  rt_path :: "segment list"
  rt_handler :: endpoint
  rt_middleware :: middleware
  rt_compatibility :: bool

text \<open>A pattern as the source writes it, below \<^verbatim>\<open>/api/v1\<close>.\<close>

definition pattern :: "string \<Rightarrow> segment list" where
  "pattern p = Lit ''api'' # Lit ''v1'' # map (\<lambda>e. if take 1 e = ''{'' then Wild (butlast (tl e)) else Lit e) (split_slash [] p)"

definition route :: "string \<Rightarrow> string \<Rightarrow> endpoint \<Rightarrow> middleware \<Rightarrow> bool \<Rightarrow> routeDescriptor" where
  "route m p h w c = \<lparr>rt_method = m, rt_path = pattern p, rt_handler = h, rt_middleware = w, rt_compatibility = c\<rparr>"

definition routeDescriptors :: "routeDescriptor list" where
  "routeDescriptors = [
     route ''GET'' ''status'' H_status clientRoute True,
     route ''GET'' ''telemetry'' H_telemetry clientRoute True,
     route ''GET'' ''history'' H_history clientRoute True,
     route ''GET'' ''events'' H_events clientRoute True,
     route ''GET'' ''device'' H_device clientRoute False,
     route ''POST'' ''device/dc'' H_setDC clientRoute False,
     route ''POST'' ''device/usbc/output'' H_setTypeCOutput clientRoute False,
     route ''GET'' ''device/usbc/limit/{type}'' H_getLimit clientRoute False,
     route ''PUT'' ''device/usbc/limit/{type}'' H_putLimit clientRoute False,
     route ''DELETE'' ''device/usbc/limit/{type}'' H_deleteLimit clientRoute False,
     route ''POST'' ''device/dc/bypass'' H_setBypass clientRoute False,
     route ''GET'' ''device/dc/bypass/threshold'' H_getThreshold adminSettingsRoute False,
     route ''PUT'' ''device/dc/bypass/threshold'' H_putThreshold adminSettingsRoute False,
     route ''GET'' ''device/timers'' H_listTimers clientRoute False,
     route ''POST'' ''device/timers'' H_addTimer clientRoute False,
     route ''GET'' ''device/timers/{id}'' H_getTimer clientRoute False,
     route ''PUT'' ''device/timers/{id}'' H_putTimer clientRoute False,
     route ''DELETE'' ''device/timers/{id}'' H_deleteTimer clientRoute False,
     route ''GET'' ''device/clock'' H_getClock adminSettingsRoute False,
     route ''POST'' ''device/clock/sync'' H_syncClock adminSettingsRoute False,
     route ''POST'' ''device/restart'' H_restart clientRoute False,
     route ''POST'' ''device/shutdown'' H_shutdown clientRoute False,
     route ''GET'' ''device/ota'' H_otaInfo adminSettingsRoute False,
     route ''POST'' ''device/ota/enter'' H_enterOTA adminSettingsRoute False,
     route ''POST'' ''device/ota/exit'' H_exitOTA adminSettingsRoute False,
     route ''PUT'' ''device/advanced/running-mode'' H_putRunningMode adminSettingsRoute False,
     route ''GET'' ''device/advanced/barrier-free'' H_getBarrierFree adminSettingsRoute False,
     route ''PUT'' ''device/advanced/barrier-free'' H_putBarrierFree adminSettingsRoute False,
     route ''GET'' ''device/advanced/usb-fw-version'' H_getUSBFirmware adminSettingsRoute False,
     route ''PUT'' ''device/advanced/ble-pin'' H_putBLEPIN adminSettingsRoute False,
     route ''GET'' ''rules'' H_getRules clientRoute True,
     route ''POST'' ''rules'' H_postRule adminRoute True,
     route ''PUT'' ''rules/{name}'' H_putRule adminRoute True,
     route ''DELETE'' ''rules/{name}'' H_deleteRule adminRoute True,
     route ''POST'' ''device/action'' H_deviceAction clientRoute True,
     route ''GET'' ''pairing/status'' H_pairingStatusRoute clientSettingsRoute True,
     route ''POST'' ''pairing/scan'' H_pairingScanRoute clientSettingsRoute True,
     route ''POST'' ''pairing/pair'' H_pairingPairRoute clientSettingsRoute True,
     route ''POST'' ''pairing/recover'' H_pairingRecoverRoute clientSettingsRoute True,
     route ''POST'' ''pairing/request-code'' H_pairingRequestCodeRoute clientSettingsRoute False,
     route ''POST'' ''pairing/submit-pin'' H_pairingSubmitPINRoute clientSettingsRoute False,
     route ''POST'' ''pairing/cancel'' H_pairingCancelRoute clientSettingsRoute False,
     route ''DELETE'' ''pairing/device/{mac}'' H_pairingUnpairRoute clientSettingsRoute True,
     route ''GET'' ''device/usbc-limit'' H_getUSBCLimit clientRoute True,
     route ''POST'' ''device/usbc-limit'' H_setUSBCLimit clientRoute True,
     route ''GET'' ''device/bypass-threshold'' H_getBypassThreshold adminSettingsRoute True,
     route ''POST'' ''device/bypass-threshold'' H_setBypassThreshold adminSettingsRoute True,
     route ''GET'' ''device/schedules'' H_getSchedules clientRoute True,
     route ''POST'' ''device/schedules'' H_postSchedule clientRoute True,
     route ''DELETE'' ''device/schedules/{id}'' H_deleteSchedule clientRoute True,
     route ''POST'' ''pair'' H_clientPair publicRoute False,
     route ''GET'' ''pairing-mode'' H_pairingModeStatus adminRoute False,
     route ''POST'' ''pairing-mode'' H_openPairingMode adminRoute False,
     route ''DELETE'' ''pairing-mode'' H_closePairingMode adminRoute False,
     route ''GET'' ''pairing-mode/qr.png'' H_pairingQRCode adminRoute False,
     route ''GET'' ''tokens'' H_listTokens adminRoute False,
     route ''DELETE'' ''tokens/{id}'' H_revokeToken adminRoute False,
     route ''GET'' ''settings'' H_getSettings adminRoute False,
     route ''PUT'' ''settings'' H_putSettings adminRoute False,
     route ''POST'' ''tls/rotate'' H_rotateTLS adminRoute False]"

section \<open>The multiplexer\<close>

fun strings_Join :: "string \<Rightarrow> string list \<Rightarrow> string" where
  "strings_Join sep [] = []"
| "strings_Join sep [x] = x"
| "strings_Join sep (x # xs) = x @ sep @ strings_Join sep xs"

text \<open>\<^verbatim>\<open>url.PathUnescape\<close> of one segment; a malformed escape leaves the segment as it is.\<close>

fun unescape :: "string \<Rightarrow> string option" where
  "unescape [] = Some []"
| "unescape (c # s) =
     (if c = CHR ''%'' then (case s of
        a # b # t \<Rightarrow> (case (hexdigit_val a, hexdigit_val b) of
           (Some x, Some y) \<Rightarrow> map_option (Cons (char_of (16 * x + y))) (unescape t)
         | _ \<Rightarrow> None)
      | _ \<Rightarrow> None)
      else map_option (Cons c) (unescape s))"

definition pathUnescape :: "string \<Rightarrow> string" where
  "pathUnescape e = (case unescape e of None \<Rightarrow> e | Some s \<Rightarrow> s)"

definition cleanPath :: "string \<Rightarrow> string" where
  "cleanPath p =
     (if p = [] then ''/''
      else let p = (if hd p = CHR ''/'' then p else CHR ''/'' # p); np = Clean p
           in if last p = CHR ''/'' \<and> np \<noteq> ''/'' then np @ ''/'' else np)"

text \<open>A wildcard matches one segment that is not empty.\<close>

fun match_path :: "segment list \<Rightarrow> string list \<Rightarrow> (string \<times> string) list option" where
  "match_path [] [] = Some []"
| "match_path (Lit l # ps) (e # es) = (if e = l then match_path ps es else None)"
| "match_path (Wild n # ps) (e # es) = (if e = [] then None else map_option (Cons (n, e)) (match_path ps es))"
| "match_path _ _ = None"

definition method_matches :: "string \<Rightarrow> string \<Rightarrow> bool" where
  "method_matches pat m \<longleftrightarrow> m = pat \<or> m = ''HEAD'' \<and> pat = ''GET''"

datatype routed =
    Redirect string | Matched routeDescriptor "(string \<times> string) list" | MethodNotAllowed "string list" | NoRoute

definition segments_of :: "string \<Rightarrow> string list" where
  "segments_of p = map pathUnescape (split_slash [] (tl p))"

definition mux :: "request \<Rightarrow> routed" where
  "mux r =
     (let p = cleanPath (rq_path r); es = segments_of p; here = filter (\<lambda>d. match_path (rt_path d) es \<noteq> None) routeDescriptors
      in if p \<noteq> rq_path r then Redirect p
         else case filter (\<lambda>d. method_matches (rt_method d) (rq_method r)) here of
             d # _ \<Rightarrow> Matched d (the (match_path (rt_path d) es))
           | [] \<Rightarrow> if here = [] then NoRoute else MethodNotAllowed (map rt_method here))"

section \<open>Middleware\<close>

text \<open>What the middleware needs of \<^verbatim>\<open>Deps\<close>: the live token store, if there is one, and the configured token.\<close>

record 's auth_deps =
  ad_store :: "('s \<Rightarrow> string \<Rightarrow> 's \<times> Principal option) option"
  ad_token :: string

definition bearer_secret :: "request \<Rightarrow> string option" where
  "bearer_secret r = (case rq_authorization r of
      [authorization] \<Rightarrow>
        if take 7 authorization \<noteq> ''Bearer '' then None
        else let secret = drop 7 authorization
             in if secret = [] \<or> list_ex (\<lambda>c. c \<in> {CHR '' '', CHR 0x09, CHR 0x0D, CHR 0x0A}) secret then None else Some secret
    | _ \<Rightarrow> None)"

definition authenticate :: "'s auth_deps \<Rightarrow> request \<Rightarrow> 's \<Rightarrow> 's \<times> Principal option" where
  "authenticate ad r s = (case bearer_secret r of
      None \<Rightarrow> (s, None)
    | Some secret \<Rightarrow> (case ad_store ad of
        Some store \<Rightarrow> store s secret
      | None \<Rightarrow> (s, if ad_token ad \<noteq> [] \<and> secret = ad_token ad
                    then Some \<lparr>pr_token_id = bootstrapID, pr_role = RoleAdmin\<rparr> else None)))"

text \<open>A handler gets the request, the wildcards of its route and the who in the request context.\<close>

type_synonym ('s, 'b) handler = "request \<Rightarrow> (string \<times> string) list \<Rightarrow> Principal option \<Rightarrow> 's \<Rightarrow> 's \<times> 'b response"

definition auth :: "'s auth_deps \<Rightarrow> ('s, 'b) handler \<Rightarrow> ('s, 'b) handler" where
  "auth ad next r vals who s = (case authenticate ad r s of
      (s, None) \<Rightarrow> (s, writeAPIError ''unauthorized'')
    | (s, Some p) \<Rightarrow> next r vals (Some p) s)"

definition admin :: "'s auth_deps \<Rightarrow> ('s, 'b) handler \<Rightarrow> ('s, 'b) handler" where
  "admin ad next = auth ad (\<lambda>r vals who s. case who of
      Some p \<Rightarrow> if pr_role p \<noteq> RoleAdmin then (s, writeAPIError ''admin_required'') else next r vals who s
    | None \<Rightarrow> (s, writeAPIError ''admin_required''))"

text \<open>\<^verbatim>\<open>settingsRead\<close> holds the settings lock while the handler runs; handlers are atomic here, so it adds nothing.\<close>

definition settingsRead :: "('s, 'b) handler \<Rightarrow> ('s, 'b) handler" where
  "settingsRead next = next"

definition apply_middleware :: "'s auth_deps \<Rightarrow> middleware \<Rightarrow> ('s, 'b) handler \<Rightarrow> ('s, 'b) handler" where
  "apply_middleware ad m next = (case m of
      publicRoute \<Rightarrow> next
    | clientRoute \<Rightarrow> auth ad next
    | adminRoute \<Rightarrow> admin ad next
    | adminSettingsRoute \<Rightarrow> admin ad (settingsRead next)
    | clientSettingsRoute \<Rightarrow> auth ad (settingsRead next))"

definition limitRequestBody :: "('s, 'b) handler \<Rightarrow> ('s, 'b) handler" where
  "limitRequestBody next r vals who s =
     (if rq_content_length r > int maxRequestBodyBytes then (s, writeAPIError ''invalid_request'') else next r vals who s)"

definition requireEmptyRequestBody :: "('s, 'b) handler \<Rightarrow> ('s, 'b) handler" where
  "requireEmptyRequestBody next r vals who s =
     (if \<not> requireNoBody r then (s, writeAPIError ''invalid_request'') else next r vals who s)"

text \<open>The handler \<^verbatim>\<open>NewServer\<close> registers for a route, and the whole server with \<^verbatim>\<open>cors\<close> in front.\<close>

definition registered :: "'s auth_deps \<Rightarrow> (endpoint \<Rightarrow> ('s, 'b) handler) \<Rightarrow> routeDescriptor \<Rightarrow> ('s, 'b) handler" where
  "registered ad handle d =
     (let h = handle (rt_handler d);
          h = (if rt_method d \<in> {''GET'', ''DELETE''} then requireEmptyRequestBody h else h)
      in apply_middleware ad (rt_middleware d) (limitRequestBody h))"

definition plain :: "nat \<Rightarrow> 'b response" where
  "plain code = \<lparr>rs_status = code, rs_body = NoBody\<rparr>"

definition cors :: "(request \<Rightarrow> 's \<Rightarrow> 's \<times> 'b response) \<Rightarrow> request \<Rightarrow> 's \<Rightarrow> 's \<times> 'b response" where
  "cors next r s = (if rq_method r = ''OPTIONS'' then (s, plain 204) else next r s)"

definition NewServer :: "'s auth_deps \<Rightarrow> (endpoint \<Rightarrow> ('s, 'b) handler) \<Rightarrow> request \<Rightarrow> 's \<Rightarrow> 's \<times> 'b response" where
  "NewServer ad handle = cors (\<lambda>r s. case mux r of
      Matched d vals \<Rightarrow> registered ad handle d r vals None s
    | Redirect _ \<Rightarrow> (s, plain 301)
    | MethodNotAllowed _ \<Rightarrow> (s, plain 405)
    | NoRoute \<Rightarrow> (s, plain 404))"

section \<open>What the table and the middleware guarantee\<close>

text \<open>Two patterns overlap when some path matches both. \<^verbatim>\<open>ServeMux\<close> panics at registration unless one of two overlapping
  patterns is more specific; here no two patterns with methods in common overlap at all.\<close>

fun overlap :: "segment list \<Rightarrow> segment list \<Rightarrow> bool" where
  "overlap [] [] = True"
| "overlap (Lit a # ps) (Lit b # qs) = (a = b \<and> overlap ps qs)"
| "overlap (Lit a # ps) (Wild n # qs) = (a \<noteq> [] \<and> overlap ps qs)"
| "overlap (Wild n # ps) (Lit b # qs) = (b \<noteq> [] \<and> overlap ps qs)"
| "overlap (Wild n # ps) (Wild m # qs) = overlap ps qs"
| "overlap _ _ = False"

lemma overlap_complete: "match_path ps es \<noteq> None \<Longrightarrow> match_path qs es \<noteq> None \<Longrightarrow> overlap ps qs"
  by (induction ps es arbitrary: qs rule: match_path.induct) (case_tac qs; case_tac "hd qs"; auto split: if_splits)+

fun pairwise :: "('a \<Rightarrow> 'a \<Rightarrow> bool) \<Rightarrow> 'a list \<Rightarrow> bool" where
  "pairwise R [] = True"
| "pairwise R (x # xs) = (list_all (R x) xs \<and> pairwise R xs)"

lemma pairwise_nth: "pairwise R xs \<Longrightarrow> i < j \<Longrightarrow> j < length xs \<Longrightarrow> R (xs ! i) (xs ! j)"
  by (induction xs arbitrary: i j) (auto simp: list_all_length nth_Cons split: nat.splits)

lemma routes_disjoint: "pairwise (\<lambda>d e. rt_method d \<noteq> rt_method e \<or> \<not> overlap (rt_path d) (rt_path e)) routeDescriptors"
  by code_simp

lemma methods_plain: "list_all (\<lambda>d. rt_method d \<in> {''GET'', ''POST'', ''PUT'', ''DELETE''}) routeDescriptors"
  by code_simp

text \<open>No request matches two routes of the table: registering them does not make \<^verbatim>\<open>ServeMux\<close> panic, and which handler
  answers a request does not depend on the order of the table.\<close>

theorem routes_unambiguous:
  assumes "i < length routeDescriptors" and "j < length routeDescriptors" and "i \<noteq> j"
    and "method_matches (rt_method (routeDescriptors ! i)) m" and "method_matches (rt_method (routeDescriptors ! j)) m"
  shows "match_path (rt_path (routeDescriptors ! i)) es = None \<or> match_path (rt_path (routeDescriptors ! j)) es = None"
proof -
  have ord: "match_path (rt_path (routeDescriptors ! a)) es = None \<or> match_path (rt_path (routeDescriptors ! b)) es = None"
    if "a < b" "b < length routeDescriptors" "method_matches (rt_method (routeDescriptors ! a)) m" "method_matches (rt_method (routeDescriptors ! b)) m" for a b
  proof -
    have plain: "rt_method (routeDescriptors ! k) \<noteq> ''HEAD''" if "k < length routeDescriptors" for k
      using methods_plain that by (auto simp: list_all_length)
    have "rt_method (routeDescriptors ! a) \<noteq> ''HEAD''" "rt_method (routeDescriptors ! b) \<noteq> ''HEAD''"
      by (rule plain; use that(1,2) in linarith)+
    then have "rt_method (routeDescriptors ! a) = rt_method (routeDescriptors ! b)"
      using that(3,4) by (auto simp: method_matches_def)
    then show ?thesis using pairwise_nth [OF routes_disjoint that(1,2)] overlap_complete by blast
  qed
  show ?thesis using ord [of i j] ord [of j i] assms by (cases "i < j") auto
qed

text \<open>The endpoints documented as reserved for administrators.\<close>

definition admin_only :: "endpoint list" where
  "admin_only = [H_getThreshold, H_putThreshold, H_getBypassThreshold, H_setBypassThreshold, H_getClock, H_syncClock, H_otaInfo,
     H_enterOTA, H_exitOTA, H_putRunningMode, H_getBarrierFree, H_putBarrierFree, H_getUSBFirmware, H_putBLEPIN,
     H_postRule, H_putRule, H_deleteRule, H_pairingModeStatus, H_openPairingMode, H_closePairingMode, H_pairingQRCode,
     H_listTokens, H_revokeToken, H_getSettings, H_putSettings, H_rotateTLS]"

lemma table_authority: "list_all (\<lambda>d. (rt_middleware d \<in> {adminRoute, adminSettingsRoute}) = (rt_handler d \<in> set admin_only) \<and>
    (rt_middleware d = publicRoute) = (rt_handler d = H_clientPair)) routeDescriptors"
  by code_simp

lemma mux_matched:
  assumes "mux r = Matched d vals"
  shows "d \<in> set routeDescriptors" and "method_matches (rt_method d) (rq_method r)"
    and "match_path (rt_path d) (segments_of (rq_path r)) = Some vals"
proof -
  let ?es = "segments_of (rq_path r)"
  let ?f = "filter (\<lambda>d. method_matches (rt_method d) (rq_method r)) (filter (\<lambda>d. match_path (rt_path d) ?es \<noteq> None) routeDescriptors)"
  from assms obtain ds where f: "?f = d # ds" and vals: "vals = the (match_path (rt_path d) ?es)"
    by (auto simp: mux_def Let_def split: if_splits list.splits)
  have "d \<in> set ?f" unfolding f by simp
  then show "d \<in> set routeDescriptors" "method_matches (rt_method d) (rq_method r)" "match_path (rt_path d) ?es = Some vals"
    using vals by auto
qed

text \<open>The handler behind the checks on the body: they refuse the request or let it through, whatever the handler is.\<close>

definition guarded :: "routeDescriptor \<Rightarrow> ('s, 'b) handler \<Rightarrow> ('s, 'b) handler" where
  "guarded d h = limitRequestBody (if rt_method d \<in> {''GET'', ''DELETE''} then requireEmptyRequestBody h else h)"

lemma registered_guarded: "registered ad handle d = apply_middleware ad (rt_middleware d) (guarded d (handle (rt_handler d)))"
  by (simp add: registered_def guarded_def Let_def)

lemma guarded_decides: "guarded d h r vals who s \<noteq> guarded d h' r vals who s \<Longrightarrow> guarded d h r vals who s = h r vals who s"
  by (auto simp: guarded_def limitRequestBody_def requireEmptyRequestBody_def split: if_splits)

text \<open>C2. Whatever a request contains, its outcome depends on a handler only if a route matched and the route's authority was
  shown: every endpoint but the client pairing needs a principal that the token store authenticated from the
  request, and the endpoints documented as administrative need one with the administrator role.\<close>

theorem handlers_need_authority:
  fixes handle handle' :: "endpoint \<Rightarrow> ('s, 'b) handler"
  assumes "NewServer ad handle r s \<noteq> NewServer ad handle' r s"
  shows "\<exists>d vals. mux r = Matched d vals \<and> d \<in> set routeDescriptors \<and>
    (if rt_handler d = H_clientPair then NewServer ad handle r s = handle H_clientPair r vals None s
     else \<exists>s' p. authenticate ad r s = (s', Some p) \<and> (rt_handler d \<in> set admin_only \<longrightarrow> pr_role p = RoleAdmin) \<and>
       NewServer ad handle r s = handle (rt_handler d) r vals (Some p) s')"
proof -
  from assms obtain d vals where m: "mux r = Matched d vals" and run: "NewServer ad h r s = registered ad h d r vals None s" for h :: "endpoint \<Rightarrow> ('s, 'b) handler"
    by (auto simp: NewServer_def cors_def split: if_splits routed.splits)
  have ne: "registered ad handle d r vals None s \<noteq> registered ad handle' d r vals None s" using assms by (simp add: run)
  note d = mux_matched(1) [OF m]
  have tab: "(rt_middleware d \<in> {adminRoute, adminSettingsRoute}) = (rt_handler d \<in> set admin_only)"
    "(rt_middleware d = publicRoute) = (rt_handler d = H_clientPair)"
    using table_authority d by (auto simp: list_all_iff)
  show ?thesis
  proof (cases "rt_middleware d = publicRoute")
    case True
    then have "registered ad h d r vals None s = guarded d (h H_clientPair) r vals None s" for h :: "endpoint \<Rightarrow> ('s, 'b) handler"
      using tab(2) by (simp add: registered_guarded apply_middleware_def)
    with ne have "registered ad handle d r vals None s = handle H_clientPair r vals None s" using guarded_decides by metis
    with True m d tab(2) show ?thesis by (auto simp: run)
  next
    case False
    note un = registered_guarded apply_middleware_def admin_def settingsRead_def
    obtain s' p where a: "authenticate ad r s = (s', Some p)"
    proof (cases "snd (authenticate ad r s)")
      case None
      then obtain s' where "authenticate ad r s = (s', None)" by (cases "authenticate ad r s") simp
      then have "registered ad h d r vals None s = (s', writeAPIError ''unauthorized'')" for h :: "endpoint \<Rightarrow> ('s, 'b) handler"
        using False by (cases "rt_middleware d") (simp_all add: un auth_def)
      with ne show ?thesis by simp
    next
      case (Some p)
      then show ?thesis using that [of "fst (authenticate ad r s)" p] by (cases "authenticate ad r s") simp
    qed
    then have acc: "auth ad k r vals None s = k r vals (Some p) s'" for k :: "('s, 'b) handler"
      by (simp add: auth_def)
    have adm: "rt_middleware d \<in> {adminRoute, adminSettingsRoute} \<longrightarrow> pr_role p = RoleAdmin"
      using ne by (cases "rt_middleware d") (auto simp: un acc split: if_splits)
    then have g: "registered ad h d r vals None s = guarded d (h (rt_handler d)) r vals (Some p) s'" for h :: "endpoint \<Rightarrow> ('s, 'b) handler"
      using False by (cases "rt_middleware d") (auto simp: un acc)
    from g ne have "registered ad handle d r vals None s = handle (rt_handler d) r vals (Some p) s'"
      using guarded_decides by metis
    with False m d tab a adm show ?thesis by (auto simp: run)
  qed
qed

definition demo_request :: "string \<Rightarrow> string \<Rightarrow> request" where
  "demo_request m p = \<lparr>rq_method = m, rq_path = p, rq_raw_query = [], rq_authorization = [''Bearer tok''], rq_remote_addr = ''10.0.0.2:5000'',
     rq_content_length = 0, rq_body = []\<rparr>"

definition demo_deps :: "nat auth_deps" where
  "demo_deps = \<lparr>ad_store = None, ad_token = ''tok''\<rparr>"

text \<open>A handler that counts its calls.\<close>

definition counting :: "endpoint \<Rightarrow> (nat, unit) handler" where
  "counting e r vals who s = (Suc s, writeJSON 200 (Some ()))"

lemma mux_settings: "mux (demo_request ''GET'' ''/api/v1/settings'') = Matched (route ''GET'' ''settings'' H_getSettings adminRoute False) []"
  by code_simp

theorem routes_unambiguous_witness:
  "match_path (rt_path (routeDescriptors ! 15)) [''api'', ''v1'', ''device'', ''timers'', ''3''] = Some [(''id'', ''3'')] \<and>
   match_path (rt_path (routeDescriptors ! 13)) [''api'', ''v1'', ''device'', ''timers'', ''3''] = None"
proof -
  have m: "match_path (rt_path (routeDescriptors ! 15)) [''api'', ''v1'', ''device'', ''timers'', ''3''] = Some [(''id'', ''3'')]"
    by code_simp
  have "(15 :: nat) < length routeDescriptors" "(13 :: nat) < length routeDescriptors"
    "method_matches (rt_method (routeDescriptors ! 15)) ''GET''" "method_matches (rt_method (routeDescriptors ! 13)) ''GET''"
    by code_simp+
  from routes_unambiguous [OF this(1,2) _ this(3,4), of "[''api'', ''v1'', ''device'', ''timers'', ''3'']"] m show ?thesis by simp
qed

theorem handlers_need_authority_witness:
  "\<exists>p. authenticate demo_deps (demo_request ''GET'' ''/api/v1/settings'') 0 = (0, Some p) \<and> pr_role p = RoleAdmin \<and>
     H_getSettings \<in> set admin_only"
proof -
  let ?r = "demo_request ''GET'' ''/api/v1/settings''"
  let ?p = "\<lparr>pr_token_id = bootstrapID, pr_role = RoleAdmin\<rparr>"
  have a: "authenticate demo_deps ?r 0 = (0, Some ?p)"
    by (simp add: authenticate_def bearer_secret_def demo_deps_def demo_request_def)
  have r: "rq_method ?r = ''GET''" "rq_body ?r = []" "rq_content_length ?r = 0" by (simp_all add: demo_request_def)
  have run: "NewServer demo_deps h ?r 0 = h H_getSettings ?r [] (Some ?p) 0" for h :: "endpoint \<Rightarrow> (nat, unit) handler"
    by (simp add: NewServer_def cors_def mux_settings registered_def route_def apply_middleware_def admin_def auth_def a r
        limitRequestBody_def requireEmptyRequestBody_def requireNoBody_def)
  have "NewServer demo_deps counting ?r 0 \<noteq> NewServer demo_deps (\<lambda>_ _ _ _ s. (s, writeJSON 200 (Some ()))) ?r 0"
    by (simp add: run counting_def)
  from handlers_need_authority [OF this] show ?thesis
    by (auto simp: mux_settings route_def a) (simp add: admin_only_def)
qed

end
