(* ===== verification/Api_Settings.thy ===== *)
theory Api_Settings
  imports Api_Http Client_Pairing Config
begin

text \<open>
  \<^verbatim>\<open>internal/api/admin.go\<close>, the settings: reading and patching the configuration over HTTP and rotating the
  certificate. \<^verbatim>\<open>putSettings\<close> changes the running daemon first and the file second, and takes the first
  change back when the second fails; the locale \<open>settings_runtime\<close> states what it needs from the functions
  the daemon puts into \<^verbatim>\<open>Deps\<close> for that.
\<close>

section \<open>Patching the configuration\<close>

definition decodeObject :: "string list \<Rightarrow> json \<Rightarrow> (string \<times> json) list option" where
  "decodeObject allowed raw = (case raw of
      JObj ms \<Rightarrow> if list_all (\<lambda>(k, _). k \<in> set allowed) ms then Some ms else None
    | _ \<Rightarrow> None)"

text \<open>\<^verbatim>\<open>decodeValue\<close> refuses \<^verbatim>\<open>null\<close> at the top; inside a list it stands for the empty string.\<close>

definition decodeValue :: "('a \<Rightarrow> json \<Rightarrow> 'a option) \<Rightarrow> 'a \<Rightarrow> json \<Rightarrow> 'a option" where
  "decodeValue decode zero raw = (if raw = JNull then None else decode zero raw)"

fun decode_strings :: "json list \<Rightarrow> string list option" where
  "decode_strings [] = Some []"
| "decode_strings (v # vs) = (case decode_string [] v of None \<Rightarrow> None | Some s \<Rightarrow> map_option (Cons s) (decode_strings vs))"

definition decode_string_list :: "string list \<Rightarrow> json \<Rightarrow> string list option" where
  "decode_string_list old v = (case v of JArr vs \<Rightarrow> decode_strings vs | JNull \<Rightarrow> Some [] | _ \<Rightarrow> None)"

text \<open>\<^verbatim>\<open>if value, ok := object[key]; ok\<close> with the assignment of a decoded value and the early return.\<close>

definition patch_with :: "(string \<times> json) list \<Rightarrow> string \<Rightarrow> (json \<Rightarrow> 'c \<Rightarrow> 'c option) \<Rightarrow> 'c option \<Rightarrow> 'c option" where
  "patch_with object key f c = (case c of
      None \<Rightarrow> None
    | Some c \<Rightarrow> (case json_map object key of None \<Rightarrow> Some c | Some v \<Rightarrow> f v c))"

definition assign :: "('a \<Rightarrow> json \<Rightarrow> 'a option) \<Rightarrow> 'a \<Rightarrow> ('a \<Rightarrow> 'c \<Rightarrow> 'c) \<Rightarrow> json \<Rightarrow> 'c \<Rightarrow> 'c option" where
  "assign decode zero upd v c = map_option (\<lambda>x. upd x c) (decodeValue decode zero v)"

record listener_patch =
  lp_enabled :: bool
  lp_addr4 :: string
  lp_addr6 :: string
  lp_port :: int

definition applyListenerPatch :: "json \<Rightarrow> listener_patch \<Rightarrow> listener_patch option" where
  "applyListenerPatch raw l = (case decodeObject [''enabled'', ''addr4'', ''addr6'', ''port''] raw of
      None \<Rightarrow> None
    | Some object \<Rightarrow>
        patch_with object ''port'' (assign decode_int 0 (\<lambda>x. lp_port_update (\<lambda>_. x)))
       (patch_with object ''addr6'' (assign decode_string [] (\<lambda>x. lp_addr6_update (\<lambda>_. x)))
       (patch_with object ''addr4'' (assign decode_string [] (\<lambda>x. lp_addr4_update (\<lambda>_. x)))
       (patch_with object ''enabled'' (assign decode_bool False (\<lambda>x. lp_enabled_update (\<lambda>_. x))) (Some l)))))"

definition patch_http :: "json \<Rightarrow> Config \<Rightarrow> Config option" where
  "patch_http v c = map_option (\<lambda>l. c\<lparr>c_http_enabled := lp_enabled l, c_http_addr4 := lp_addr4 l, c_http_addr6 := lp_addr6 l,
       c_http_port := lp_port l, c_port := lp_port l\<rparr>)
     (applyListenerPatch v \<lparr>lp_enabled = c_http_enabled c, lp_addr4 = c_http_addr4 c, lp_addr6 = c_http_addr6 c, lp_port = c_http_port c\<rparr>)"

definition patch_https :: "json \<Rightarrow> Config \<Rightarrow> Config option" where
  "patch_https v c = map_option (\<lambda>l. c\<lparr>c_https_enabled := lp_enabled l, c_https_addr4 := lp_addr4 l, c_https_addr6 := lp_addr6 l,
       c_https_port := lp_port l\<rparr>)
     (applyListenerPatch v \<lparr>lp_enabled = c_https_enabled c, lp_addr4 = c_https_addr4 c, lp_addr6 = c_https_addr6 c, lp_port = c_https_port c\<rparr>)"

definition patch_tls :: "json \<Rightarrow> Config \<Rightarrow> Config option" where
  "patch_tls v c = (case decodeObject [''cert'', ''key''] v of
      None \<Rightarrow> None
    | Some nested \<Rightarrow>
        patch_with nested ''key'' (assign decode_string [] (\<lambda>x. c_tls_key_update (\<lambda>_. x)))
       (patch_with nested ''cert'' (assign decode_string [] (\<lambda>x. c_tls_cert_update (\<lambda>_. x))) (Some c)))"

definition patch_ttl :: "json \<Rightarrow> Config \<Rightarrow> Config option" where
  "patch_ttl v c = (case decodeValue decode_string [] v of
      None \<Rightarrow> None
    | Some text \<Rightarrow> map_option (\<lambda>d. c\<lparr>c_pairing_ttl := d\<rparr>) (ParseDuration text))"

text \<open>The loop over the runes of the PIN refuses every byte that is not a digit.\<close>

definition patch_ble_pin :: "json \<Rightarrow> Config \<Rightarrow> Config option" where
  "patch_ble_pin v c = (case decodeValue decode_string [] v of
      None \<Rightarrow> None
    | Some pin \<Rightarrow> if length pin \<noteq> 6 \<or> \<not> list_all is_digit pin then None else Some (c\<lparr>c_ble_pin := pin, c_pin := pin\<rparr>))"

definition patch_mdns :: "json \<Rightarrow> Config \<Rightarrow> Config option" where
  "patch_mdns v c = (case decodeObject [''enabled'', ''interfaces''] v of
      None \<Rightarrow> None
    | Some nested \<Rightarrow>
        patch_with nested ''interfaces'' (assign decode_string_list [] (\<lambda>x. c_mdns_interfaces_update (\<lambda>_. x)))
       (patch_with nested ''enabled'' (assign decode_bool False (\<lambda>x. c_mdns_enabled_update (\<lambda>_. x))) (Some c)))"

definition patch_object :: "(string \<times> json) list \<Rightarrow> Config \<Rightarrow> Config option" where
  "patch_object object cfg =
     patch_with object ''mdns'' patch_mdns
    (patch_with object ''ble_pin'' patch_ble_pin
    (patch_with object ''wan_access'' (assign decode_bool False (\<lambda>x. c_wan_access_update (\<lambda>_. x)))
    (patch_with object ''advanced'' (assign decode_bool False (\<lambda>x. c_advanced_update (\<lambda>_. x)))
    (patch_with object ''pairing_always_on'' (assign decode_bool False (\<lambda>x. c_pairing_always_on_update (\<lambda>_. x)))
    (patch_with object ''pairing_ttl'' patch_ttl
    (patch_with object ''token_store'' (assign decode_string [] (\<lambda>x. c_token_store_update (\<lambda>_. x)))
    (patch_with object ''tls'' patch_tls
    (patch_with object ''https'' patch_https
    (patch_with object ''http'' patch_http (Some cfg))))))))))"

definition applySettingsPatch :: "Config \<Rightarrow> json \<Rightarrow> Config option" where
  "applySettingsPatch cfg raw = (case decodeObject [''http'', ''https'', ''tls'', ''token_store'', ''pairing_ttl'', ''pairing_always_on'',
        ''advanced'', ''mdns'', ''wan_access'', ''ble_pin''] raw of
      None \<Rightarrow> None
    | Some object \<Rightarrow> (case patch_object object cfg of
        None \<Rightarrow> None
      | Some c \<Rightarrow> if Config_Validate c = None then Some c else None))"

definition restartFieldsChanged :: "Config \<Rightarrow> Config \<Rightarrow> bool" where
  "restartFieldsChanged before after \<longleftrightarrow>
     c_http_enabled before \<noteq> c_http_enabled after \<or> c_http_addr4 before \<noteq> c_http_addr4 after \<or>
     c_http_addr6 before \<noteq> c_http_addr6 after \<or> c_http_port before \<noteq> c_http_port after \<or>
     c_https_enabled before \<noteq> c_https_enabled after \<or> c_https_addr4 before \<noteq> c_https_addr4 after \<or>
     c_https_addr6 before \<noteq> c_https_addr6 after \<or> c_https_port before \<noteq> c_https_port after \<or>
     c_tls_cert before \<noteq> c_tls_cert after \<or> c_tls_key before \<noteq> c_tls_key after \<or> c_mdns_enabled before \<noteq> c_mdns_enabled after \<or>
     strings_Join [CHR 0x00] (c_mdns_interfaces before) \<noteq> strings_Join [CHR 0x00] (c_mdns_interfaces after) \<or>
     c_wan_access before \<noteq> c_wan_access after"

definition liveFieldsChanged :: "Config \<Rightarrow> Config \<Rightarrow> bool" where
  "liveFieldsChanged before after \<longleftrightarrow>
     c_pairing_ttl before \<noteq> c_pairing_ttl after \<or> c_pairing_always_on before \<noteq> c_pairing_always_on after \<or>
     c_advanced before \<noteq> c_advanced after \<or> c_ble_pin before \<noteq> c_ble_pin after \<or> c_token_store before \<noteq> c_token_store after"

section \<open>Handlers\<close>

text \<open>The functions of \<^verbatim>\<open>Deps\<close> the settings handlers call; a missing one is \<open>None\<close>. \<^verbatim>\<open>ApplySettings\<close> returns an error
  (\<open>Inl\<close>) or the rollback, which may be nil.\<close>

record 's settings_deps =
  sd_Settings :: "('s \<Rightarrow> Config option) option"
  sd_SaveMain :: "(Config \<Rightarrow> 's \<Rightarrow> 's \<times> bool) option"
  sd_ApplySettings :: "(Config \<Rightarrow> Config \<Rightarrow> 's \<Rightarrow> 's \<times> (unit + ('s \<Rightarrow> 's) option)) option"
  sd_CommitSettings :: "(Config \<Rightarrow> Config \<Rightarrow> 's \<Rightarrow> 's) option"
  sd_TLSFingerprint :: "('s \<Rightarrow> string) option"
  sd_RotateTLS :: "('s \<Rightarrow> 's \<times> (unit + string)) option"

definition currentConfig :: "'s settings_deps \<Rightarrow> 's \<Rightarrow> Config option" where
  "currentConfig d s = (case sd_Settings d of None \<Rightarrow> None | Some f \<Rightarrow> f s)"

definition tlsFingerprint :: "'s settings_deps \<Rightarrow> 's \<Rightarrow> string" where
  "tlsFingerprint d s = (case sd_TLSFingerprint d of None \<Rightarrow> [] | Some f \<Rightarrow> f s)"

record settingsResponse =
  sr_view :: SettingsView
  sr_sha256 :: string
  sr_restart_required :: "bool option"

definition settings_response :: "'s settings_deps \<Rightarrow> Config \<Rightarrow> bool option \<Rightarrow> 's \<Rightarrow> settingsResponse" where
  "settings_response d cfg restart s =
     \<lparr>sr_view = Config_SettingsView cfg, sr_sha256 = tlsFingerprint d s, sr_restart_required = restart\<rparr>"

definition getSettings :: "'s settings_deps \<Rightarrow> ('s, settingsResponse) handler" where
  "getSettings d r vals who s =
     (if \<not> requireNoBody r then (s, writeAPIError ''invalid_request'')
      else case currentConfig d s of
          None \<Rightarrow> (s, writeAPIError ''internal_error'')
        | Some cfg \<Rightarrow> (s, writeJSON 200 (Some (settings_response d cfg None s))))"

text \<open>The end of \<^verbatim>\<open>putSettings\<close>: saving, with the rollback on failure, and publishing.\<close>

definition save_settings ::
    "'s settings_deps \<Rightarrow> (Config \<Rightarrow> 's \<Rightarrow> 's \<times> bool) \<Rightarrow> Config \<Rightarrow> Config \<Rightarrow> ('s \<Rightarrow> 's) \<Rightarrow> 's \<Rightarrow> 's \<times> settingsResponse response" where
  "save_settings d save before after rollback s = (case save after s of
      (s, False) \<Rightarrow> (rollback s, writeAPIError ''internal_error'')
    | (s, True) \<Rightarrow>
        let s = (if c_token_store before \<noteq> c_token_store after
                 then (case sd_CommitSettings d of None \<Rightarrow> s | Some commit \<Rightarrow> commit before after s) else s)
        in (s, writeJSON 200 (Some (settings_response d after (Some (restartFieldsChanged before after)) s))))"

definition putSettings :: "'s settings_deps \<Rightarrow> ('s, settingsResponse) handler" where
  "putSettings d r vals who s = (case (currentConfig d s, sd_SaveMain d) of
      (Some before, Some save) \<Rightarrow> (case read_json r of
        None \<Rightarrow> (s, writeAPIError ''invalid_request'')
      | Some raw \<Rightarrow> (case applySettingsPatch before raw of
          None \<Rightarrow> (s, writeAPIError ''invalid_request'')
        | Some after \<Rightarrow>
            if c_token_store before \<noteq> c_token_store after \<and> sd_CommitSettings d = None then (s, writeAPIError ''internal_error'')
            else if liveFieldsChanged before after then (case sd_ApplySettings d of
                None \<Rightarrow> (s, writeAPIError ''internal_error'')
              | Some ap \<Rightarrow> (case ap before after s of
                  (s, Inl _) \<Rightarrow> (s, writeAPIError ''internal_error'')
                | (s, Inr rollback) \<Rightarrow> save_settings d save before after (case rollback of None \<Rightarrow> id | Some f \<Rightarrow> f) s))
            else save_settings d save before after id s))
    | _ \<Rightarrow> (s, writeAPIError ''internal_error''))"

text \<open>Sixty-four lower-case hexadecimal digits.\<close>

definition validFingerprint :: "string \<Rightarrow> bool" where
  "validFingerprint fp \<longleftrightarrow> length fp = 64 \<and> list_all (\<lambda>c. byte_in 48 57 c \<or> byte_in 97 102 c) fp"

text \<open>The two fields of the answer to a rotation: the fingerprint, and that a restart is required.\<close>

definition rotateTLS :: "'s settings_deps \<Rightarrow> ('s, string \<times> bool) handler" where
  "rotateTLS d r vals who s = (case decodeJSON [''confirm''] r of
      None \<Rightarrow> (s, writeAPIError ''invalid_request'')
    | Some ms \<Rightarrow>
        if field (pointer decode_bool False) None ''confirm'' ms \<noteq> Some (Some True) then (s, writeAPIError ''invalid_request'')
        else case sd_RotateTLS d of
            None \<Rightarrow> (s, writeAPIError ''internal_error'')
          | Some f \<Rightarrow> (case f s of
              (s, Inl _) \<Rightarrow> (s, writeAPIError ''internal_error'')
            | (s, Inr fp) \<Rightarrow> if validFingerprint fp then (s, writeJSON 200 (Some (fp, True))) else (s, writeAPIError ''internal_error'')))"

section \<open>The transaction\<close>

text \<open>
  What \<^verbatim>\<open>putSettings\<close> relies on, as the comments on \<^verbatim>\<open>Deps\<close> state it. \<open>running s\<close> is what the daemon runs with
  and \<open>stored s\<close> what the next start will read. Applying changes only the former, to what the new settings ask
  for, or fails and changes nothing; its rollback undoes it; saving changes both stored state and current
  configuration, or nothing; committing publishes the change.
\<close>

locale settings_runtime =
  fixes d :: "'s settings_deps" and ok :: "'s \<Rightarrow> bool" and running :: "'s \<Rightarrow> 'r" and stored :: "'s \<Rightarrow> 'f"
    and current :: "'s \<Rightarrow> Config" and configured :: "'s \<Rightarrow> Config \<Rightarrow> 's \<Rightarrow> bool" and saved :: "'s \<Rightarrow> Config \<Rightarrow> 's \<Rightarrow> bool"
    and published :: "'s \<Rightarrow> Config \<Rightarrow> 's \<Rightarrow> bool"
    and ap :: "Config \<Rightarrow> Config \<Rightarrow> 's \<Rightarrow> 's \<times> (unit + ('s \<Rightarrow> 's) option)" and save :: "Config \<Rightarrow> 's \<Rightarrow> 's \<times> bool"
    and commit :: "Config \<Rightarrow> Config \<Rightarrow> 's \<Rightarrow> 's"
  assumes deps: "sd_Settings d = Some (\<lambda>s. Some (current s))" "sd_SaveMain d = Some save" "sd_ApplySettings d = Some ap"
      "sd_CommitSettings d = Some commit"
    and apply_fails: "ok s \<Longrightarrow> ap (current s) c s = (s', Inl e) \<Longrightarrow>
      running s' = running s \<and> stored s' = stored s \<and> current s' = current s"
    and apply_works: "ok s \<Longrightarrow> ap (current s) c s = (s', Inr rollback) \<Longrightarrow> Config_Validate c = None \<Longrightarrow>
      configured s c s' \<and> stored s' = stored s \<and> current s' = current s"
    and unchanged: "ok s \<Longrightarrow> \<not> liveFieldsChanged (current s) c \<Longrightarrow> configured s c s"
    and rolls_back: "ok s \<Longrightarrow> ap (current s) c s = (s', Inr rollback) \<Longrightarrow> save c s' = (s'', False) \<Longrightarrow>
      running ((case rollback of None \<Rightarrow> id | Some f \<Rightarrow> f) s'') = running s \<and>
      stored ((case rollback of None \<Rightarrow> id | Some f \<Rightarrow> f) s'') = stored s'' \<and>
      current ((case rollback of None \<Rightarrow> id | Some f \<Rightarrow> f) s'') = current s''"
    and save_fails: "save c s = (s', False) \<Longrightarrow> running s' = running s \<and> stored s' = stored s \<and> current s' = current s"
    and save_works: "save c s = (s', True) \<Longrightarrow> saved s c s' \<and> (configured s0 c s \<longrightarrow> configured s0 c s')"
    and publishes: "ok s0 \<Longrightarrow> configured s0 c s \<Longrightarrow>
      published s0 c (if c_token_store (current s0) \<noteq> c_token_store c then commit (current s0) c s else s)"
    and commits: "saved s1 c s \<Longrightarrow> saved s1 c (commit b c s)"
begin

lemma save_settings_cases:
  assumes "save_settings d save b c rb s = (s', resp)"
  obtains (failed) s2 where "save c s = (s2, False)" and "s' = rb s2" and "resp = writeAPIError ''internal_error''"
  | (works) s2 where "save c s = (s2, True)" and "s' = (if c_token_store b \<noteq> c_token_store c then commit b c s2 else s2)"
      and "resp = writeJSON 200 (Some (settings_response d c (Some (restartFieldsChanged b c)) s'))"
  using assms deps(4) by (cases "save c s"; cases "snd (save c s)") (auto simp: save_settings_def Let_def split: if_splits)

lemma error_status [simp]: "rs_status (writeAPIError ''internal_error'') = 500" "rs_status (writeAPIError ''invalid_request'') = 400"
  by (simp_all add: writeAPIError_def errorCatalog_def)

definition kept :: "'s \<Rightarrow> 's \<Rightarrow> bool" where
  "kept s s' \<longleftrightarrow> running s' = running s \<and> stored s' = stored s \<and> current s' = current s"

lemma save_settings_transaction:
  assumes ok: "ok s" and run: "save_settings d save (current s) c rb s1 = (s', resp)"
    and s1: "configured s c s1" "stored s1 = stored s" "current s1 = current s"
    and undo: "\<And>s2. save c s1 = (s2, False) \<Longrightarrow> kept s (rb s2)"
  shows "rs_status resp \<noteq> 200 \<and> kept s s' \<or>
    resp = writeJSON 200 (Some (settings_response d c (Some (restartFieldsChanged (current s) c)) s')) \<and>
    published s c s' \<and> (\<exists>s1. stored s1 = stored s \<and> current s1 = current s \<and> saved s1 c s')"
  using run
proof (cases rule: save_settings_cases)
  case (failed s2)
  then show ?thesis using undo by simp
next
  case (works s2)
  have "saved s1 c s2" "configured s c s2" using save_works [OF works(1), of s] s1 by simp_all
  then have "saved s1 c s'" "published s c s'" using works(2) commits publishes [OF ok] by auto
  with works(3) s1 show ?thesis by blast
qed

lemma put_settings_transaction:
  assumes ok: "ok s" and run: "putSettings d r vals who s = (s', resp)"
  shows "rs_status resp \<noteq> 200 \<and> kept s s' \<or>
    (\<exists>raw c. read_json r = Some raw \<and> applySettingsPatch (current s) raw = Some c \<and>
      resp = writeJSON 200 (Some (settings_response d c (Some (restartFieldsChanged (current s) c)) s')) \<and>
      published s c s' \<and> (\<exists>s1. stored s1 = stored s \<and> current s1 = current s \<and> saved s1 c s'))"
proof -
  have cur: "currentConfig d s = Some (current s)" by (simp add: currentConfig_def deps)
  show ?thesis
  proof (cases "read_json r")
    case None
    then show ?thesis using run by (auto simp: putSettings_def cur deps kept_def)
  next
    case raw: (Some raw)
    show ?thesis
    proof (cases "applySettingsPatch (current s) raw")
      case None
      then show ?thesis using run raw by (auto simp: putSettings_def cur deps kept_def)
    next
      case c: (Some c)
      then have valid: "Config_Validate c = None" by (auto simp: applySettingsPatch_def split: option.splits if_splits)
      show ?thesis
      proof (cases "liveFieldsChanged (current s) c")
        case False
        then have "save_settings d save (current s) c id s = (s', resp)" using run raw c by (simp add: putSettings_def cur deps)
        from save_settings_transaction [OF ok this unchanged [OF ok False]] raw c show ?thesis
          by (auto dest: save_fails simp: kept_def)
      next
        case True
        obtain s1 res where a: "ap (current s) c s = (s1, res)" by fastforce
        show ?thesis
        proof (cases res)
          case (Inl e)
          then show ?thesis using run raw c True a apply_fails [OF ok, of c s1 e] by (auto simp: putSettings_def cur deps kept_def)
        next
          case (Inr rollback)
          let ?rb = "case rollback of None \<Rightarrow> id | Some f \<Rightarrow> f"
          note a' = a [unfolded Inr]
          have "save_settings d save (current s) c ?rb s1 = (s', resp)" using run raw c True a' by (simp add: putSettings_def cur deps)
          moreover have "kept s (?rb s2)" if "save c s1 = (s2, False)" for s2
            using rolls_back [OF ok a' that] save_fails [OF that] apply_works [OF ok a' valid] by (simp add: kept_def)
          ultimately show ?thesis
            using save_settings_transaction [OF ok, of c ?rb s1 s' resp] apply_works [OF ok a' valid] raw c by blast
        qed
      qed
    qed
  qed
qed

end

end
