(* ===== verification/Live_Settings.thy ===== *)
theory Live_Settings
  imports Api_Settings
begin

text \<open>
  \<^verbatim>\<open>liveConfig\<close> of \<^verbatim>\<open>cmd/wattlined/main.go\<close>: the configuration the daemon runs with, the token store and the client
  pairing behind it, and the functions it hands to the API. Together with \<^verbatim>\<open>putSettings\<close> they make a change of
  the settings a transaction.
\<close>

section \<open>State\<close>

text \<open>Token stores are objects; \<open>lv_stores\<close> is the heap they live in and \<open>lv_fresh\<close> the next free place. The file, the PIN
  of the Bluetooth agent and the wish to refresh the mDNS records are outside \<^verbatim>\<open>liveConfig\<close>.\<close>

record live =
  lv_cfg :: Config
  lv_store :: nat
  lv_pairing :: pairing
  lv_pending_old_store :: "nat option"
  lv_stores :: "nat \<Rightarrow> auth_store"
  lv_fresh :: nat
  lv_agent_pin :: string
  lv_file :: "config_file option"
  lv_refresh :: bool

text \<open>What the outside answers during a call: the hash function, failing writes of a token store, the contents of token
  files, the clock, and failing steps of a rewrite of the configuration.\<close>

record live_env =
  le_hash :: "string \<Rightarrow> string"
  le_persist :: "persist_step \<Rightarrow> bool"
  le_tokens :: "string \<Rightarrow> file_read \<times> (unit + bool)"
  le_clock :: time
  le_fails :: "write_step \<Rightarrow> bool"

section \<open>Operations\<close>

definition live_current :: "live \<Rightarrow> Config" where
  "live_current l = lv_cfg l"

definition live_authStore :: "live \<Rightarrow> auth_store" where
  "live_authStore l = lv_stores l (lv_store l)"

definition live_save :: "live_env \<Rightarrow> Config \<Rightarrow> live \<Rightarrow> live \<times> config_error option" where
  "live_save e c l = (case SaveMain (le_fails e) c (lv_file l) of
      (f, Some err) \<Rightarrow> (l\<lparr>lv_file := f\<rparr>, Some err)
    | (f, None) \<Rightarrow> (l\<lparr>lv_file := f, lv_cfg := c\<lparr>c_token := c_token (lv_cfg l)\<rparr>\<rparr>, None))"

definition live_reload :: "cron_parser \<Rightarrow> live \<Rightarrow> live \<times> config_error option" where
  "live_reload cron l = (case Load cron (map_option cf_data (lv_file l)) of
      Inl err \<Rightarrow> (l, Some err)
    | Inr c \<Rightarrow> (l\<lparr>lv_cfg := c\<rparr>, None))"

definition open_new_store :: "live_env \<Rightarrow> Config \<Rightarrow> Config \<Rightarrow> auth_error + auth_store option" where
  "open_new_store e before after =
     (if c_token_store before \<noteq> c_token_store after then
        map_sum id Some (case le_tokens e (c_token_store after) of (file, mode) \<Rightarrow>
          OpenStore (le_hash e) (le_persist e) file mode (le_clock e) (c_token_store after) (c_token before))
      else Inr None)"

definition reconfigure_if :: "live_env \<Rightarrow> Config \<Rightarrow> Config \<Rightarrow> pairing \<Rightarrow> pairing \<times> (auth_error + policy option)" where
  "reconfigure_if e before after p =
     (if c_pairing_ttl before \<noteq> c_pairing_ttl after \<or> c_pairing_always_on before \<noteq> c_pairing_always_on after
      then (case Reconfigure (le_clock e) (c_pairing_ttl after) (c_pairing_always_on after) p of
              (p, Inl err) \<Rightarrow> (p, Inl err)
            | (p, Inr b) \<Rightarrow> (p, Inr (Some b)))
      else (p, Inr None))"

text \<open>Putting the new store in place; the rollback needs the old one and the reference the pairing held.\<close>

definition install_store :: "auth_store \<Rightarrow> live \<Rightarrow> live" where
  "install_store st l =
     (let n = lv_fresh l
      in l\<lparr>lv_stores := (lv_stores l)(n := st), lv_fresh := Suc n, lv_pending_old_store := Some (lv_store l), lv_store := n,
           lv_pairing := fst (RebindStore (Some n) (lv_pairing l))\<rparr>)"

definition restore_store :: "nat \<Rightarrow> nat option \<Rightarrow> live \<Rightarrow> live" where
  "restore_store old tokens l =
     l\<lparr>lv_pairing := fst (RebindStore tokens (lv_pairing l)), lv_store := old, lv_pending_old_store := None\<rparr>"

text \<open>\<^verbatim>\<open>ble.SetAgentPIN\<close>: an empty PIN is ignored.\<close>

definition SetAgentPIN :: "string \<Rightarrow> live \<Rightarrow> live" where
  "SetAgentPIN pin l = (if pin = [] then l else l\<lparr>lv_agent_pin := pin\<rparr>)"

lemma SetAgentPIN_frame [simp]:
  "lv_cfg (SetAgentPIN pin l) = lv_cfg l" "lv_store (SetAgentPIN pin l) = lv_store l" "lv_pairing (SetAgentPIN pin l) = lv_pairing l"
  "lv_pending_old_store (SetAgentPIN pin l) = lv_pending_old_store l" "lv_stores (SetAgentPIN pin l) = lv_stores l"
  "lv_fresh (SetAgentPIN pin l) = lv_fresh l" "lv_file (SetAgentPIN pin l) = lv_file l"
  "lv_agent_pin (SetAgentPIN pin l) = (if pin = [] then lv_agent_pin l else pin)"
  by (simp_all add: SetAgentPIN_def)

text \<open>The rollback: the agent's PIN, the store, the pairing policy. \<^verbatim>\<open>sync.Once\<close> lets it run a single time.\<close>

definition rollback_live :: "Config \<Rightarrow> Config \<Rightarrow> (nat \<times> nat option) option \<Rightarrow> policy option \<Rightarrow> live \<Rightarrow> live" where
  "rollback_live before after old policy l =
     (let l = (if c_ble_pin before \<noteq> c_ble_pin after then SetAgentPIN (c_ble_pin before) l else l);
          l = (case old of None \<Rightarrow> l | Some (store, tokens) \<Rightarrow> restore_store store tokens l)
      in case policy of None \<Rightarrow> l | Some b \<Rightarrow> l\<lparr>lv_pairing := rollback_policy b (lv_pairing l)\<rparr>)"

definition live_apply :: "live_env \<Rightarrow> Config \<Rightarrow> Config \<Rightarrow> live \<Rightarrow> live \<times> (auth_error + (live \<Rightarrow> live))" where
  "live_apply e before after l = (case open_new_store e before after of
      Inl err \<Rightarrow> (l, Inl err)
    | Inr new \<Rightarrow> (case reconfigure_if e before after (lv_pairing l) of
        (p, Inl err) \<Rightarrow> (l\<lparr>lv_pairing := p\<rparr>, Inl err)
      | (p, Inr policy) \<Rightarrow>
          let l = l\<lparr>lv_pairing := p\<rparr>;
              old = (case new of None \<Rightarrow> None | Some _ \<Rightarrow> Some (lv_store l, p_tokens (lv_pairing l)));
              l = (case new of None \<Rightarrow> l | Some st \<Rightarrow> install_store st l);
              l = (if c_ble_pin before \<noteq> c_ble_pin after then SetAgentPIN (c_ble_pin after) l else l)
          in (l, Inr (rollback_live before after old policy))))"

definition live_commit :: "Config \<Rightarrow> Config \<Rightarrow> live \<Rightarrow> live" where
  "live_commit before after l =
     (if c_token_store before = c_token_store after then l
      else case lv_pending_old_store l of
          None \<Rightarrow> l
        | Some old \<Rightarrow> l\<lparr>lv_pending_old_store := None, lv_stores := (lv_stores l)(old := InvalidateManagedSubscribers (lv_stores l old))\<rparr>)"

text \<open>The closures of \<^verbatim>\<open>run\<close> for the API.\<close>

definition SaveMain_dep :: "live_env \<Rightarrow> Config \<Rightarrow> live \<Rightarrow> live \<times> bool" where
  "SaveMain_dep e c l = (case live_save e c l of
      (l, Some _) \<Rightarrow> (l, False)
    | (l, None) \<Rightarrow> (l\<lparr>lv_refresh := True\<rparr>, True))"

definition ApplySettings_dep :: "live_env \<Rightarrow> Config \<Rightarrow> Config \<Rightarrow> live \<Rightarrow> live \<times> (unit + (live \<Rightarrow> live) option)" where
  "ApplySettings_dep e before after l = (case live_apply e before after l of
      (l, Inl _) \<Rightarrow> (l, Inl ())
    | (l, Inr rollback) \<Rightarrow> (l, Inr (Some rollback)))"

definition live_deps :: "live_env \<Rightarrow> string \<Rightarrow> (live \<Rightarrow> live \<times> (unit + string)) \<Rightarrow> live settings_deps" where
  "live_deps e fingerprint rot =
     \<lparr>sd_Settings = Some (\<lambda>l. Some (live_current l)), sd_SaveMain = Some (SaveMain_dep e), sd_ApplySettings = Some (ApplySettings_dep e),
      sd_CommitSettings = Some live_commit, sd_TLSFingerprint = Some (\<lambda>l. fingerprint), sd_RotateTLS = Some rot\<rparr>"

definition SaveBLEPIN :: "live_env \<Rightarrow> string \<Rightarrow> live \<Rightarrow> live \<times> bool" where
  "SaveBLEPIN e pin l =
     (let before = live_current l; current = before\<lparr>c_ble_pin := pin, c_pin := pin\<rparr>
      in case live_apply e before current l of
          (l, Inl _) \<Rightarrow> (l, False)
        | (l, Inr rollback) \<Rightarrow> (case live_save e current l of
            (l, Some _) \<Rightarrow> (rollback l, False)
          | (l, None) \<Rightarrow> (l, True)))"

section \<open>The contract\<close>

text \<open>The state of the pairing window as a request at this time sees it.\<close>

definition window :: "time \<Rightarrow> pairing \<Rightarrow> policy" where
  "window now p = policy_of (refreshLocked now (observeNowLocked now p))"

definition up_to_date :: "time \<Rightarrow> pairing \<Rightarrow> bool" where
  "up_to_date now p \<longleftrightarrow> p_last_now p = now \<and> (p_open p \<longrightarrow> now < p_expires_at p)"

lemma window_up_to_date: "up_to_date now p \<Longrightarrow> window now p = policy_of p"
  by (auto simp: window_def up_to_date_def refreshLocked_def observeNowLocked_def policy_of_def)

lemma refresh_up_to_date: "0 < p_ttl p \<Longrightarrow> up_to_date now (refreshLocked now (observeNowLocked now p))"
  by (auto simp: up_to_date_def refreshLocked_def observeNowLocked_def openLocked_def closeLocked_def Let_def split: option.splits prod.splits)

lemma refresh_frame [simp]: "p_tokens (refreshLocked now p) = p_tokens p" "p_always_on (refreshLocked now p) = p_always_on p"
  "p_tokens (observeNowLocked now p) = p_tokens p" "p_always_on (observeNowLocked now p) = p_always_on p"
  by (auto simp: refreshLocked_def observeNowLocked_def openLocked_def closeLocked_def Let_def split: option.splits prod.splits)

lemma observe_last [simp]: "p_last_now (observeNowLocked now p) = now"
  by (simp add: observeNowLocked_def Let_def)

lemma policy_of_simps [simp]: "po_ttl (policy_of p) = p_ttl p" "po_always_on (policy_of p) = p_always_on p"
  "policy_of (p\<lparr>p_tokens := t\<rparr>) = policy_of p" "policy_of (p\<lparr>p_random := r\<rparr>) = policy_of p"
  "policy_of (rollback_policy b p) = b" "p_last_now (rollback_policy b p) = p_last_now p" "p_tokens (rollback_policy b p) = p_tokens p"
  "rollback_policy b (p\<lparr>p_tokens := t\<rparr>) = (rollback_policy b p)\<lparr>p_tokens := t\<rparr>"
  by (simp_all add: policy_of_def rollback_policy_def)

lemma up_to_date_policy: "policy_of p = policy_of q \<Longrightarrow> p_last_now p = p_last_now q \<Longrightarrow> up_to_date now q \<Longrightarrow> up_to_date now p"
  by (simp add: up_to_date_def policy_of_def)

lemma apply_policy_frame [simp]: "p_last_now (apply_policy p ttl on pin now) = p_last_now p"
  "p_tokens (apply_policy p ttl on pin now) = p_tokens p" "p_ttl (apply_policy p ttl on pin now) = ttl"
  "p_always_on (apply_policy p ttl on pin now) = on"
  by (simp_all add: apply_policy_def Let_def)

text \<open>\<^verbatim>\<open>Reconfigure\<close> and its rollback leave the window as it was; success installs the new policy.\<close>

lemma Reconfigure_fails:
  assumes "Reconfigure now ttl on p = (p', Inl err)" and "0 < p_ttl p"
  shows "window now p' = window now p" and "p_tokens p' = p_tokens p"
proof -
  let ?q = "refreshLocked now (observeNowLocked now p)"
  have "p' = p \<or> (\<exists>r. p' = ?q\<lparr>p_random := r\<rparr>)"
    using assms(1) by (auto simp: Reconfigure_def Let_def split: if_splits prod.splits option.splits)
  then show "window now p' = window now p"
  proof
    assume "\<exists>r. p' = ?q\<lparr>p_random := r\<rparr>"
    then obtain r where r: "p' = ?q\<lparr>p_random := r\<rparr>" ..
    have "up_to_date now p'" by (rule up_to_date_policy [OF _ _ refresh_up_to_date [OF assms(2)]]) (simp_all add: r)
    then show ?thesis by (simp add: window_up_to_date) (simp add: r window_def)
  qed simp
  show "p_tokens p' = p_tokens p" using \<open>p' = p \<or> _\<close> by auto
qed

lemma Reconfigure_works:
  assumes "Reconfigure now ttl on p = (p', Inr b)"
  shows "b = window now p" and "p_last_now p' = now" and "p_tokens p' = p_tokens p" and "p_ttl p' = ttl" and "p_always_on p' = on"
  using assms by (auto simp: Reconfigure_def window_def Let_def split: if_splits prod.splits option.splits)

lemma rollback_window:
  assumes "0 < p_ttl p" and "p_last_now q = now"
  shows "window now (rollback_policy (window now p) q) = window now p"
proof -
  have "up_to_date now (rollback_policy (window now p) q)"
    by (rule up_to_date_policy [OF _ _ refresh_up_to_date [OF assms(1)]]) (simp_all add: window_def assms(2))
  then show ?thesis by (simp add: window_up_to_date)
qed

lemma window_tokens [simp]: "window now (p\<lparr>p_tokens := t\<rparr>) = window now p"
  by (simp add: window_def refreshLocked_def observeNowLocked_def openLocked_def closeLocked_def policy_of_def Let_def split: prod.splits option.splits)

text \<open>The daemon runs with what a configuration says, and nothing is half done.\<close>

definition follows :: "Config \<Rightarrow> live \<Rightarrow> bool" where
  "follows c l \<longleftrightarrow> p_ttl (lv_pairing l) = c_pairing_ttl c \<and> p_always_on (lv_pairing l) = c_pairing_always_on c \<and>
     (c_ble_pin c \<noteq> [] \<longrightarrow> lv_agent_pin l = c_ble_pin c) \<and> p_tokens (lv_pairing l) = Some (lv_store l) \<and> lv_store l < lv_fresh l"

definition live_ok :: "live \<Rightarrow> bool" where
  "live_ok l \<longleftrightarrow> follows (lv_cfg l) l \<and> lv_pending_old_store l = None \<and> 0 < c_pairing_ttl (lv_cfg l) \<and>
     c_ble_pin (lv_cfg l) \<noteq> []"

definition running :: "live_env \<Rightarrow> live \<Rightarrow> nat \<times> bool \<times> auth_store \<times> nat option \<times> string \<times> nat option \<times> policy" where
  "running e l = (lv_store l, lv_store l < lv_fresh l, live_authStore l, lv_pending_old_store l, lv_agent_pin l, p_tokens (lv_pairing l),
     window (le_clock e) (lv_pairing l))"

text \<open>The token store: the old one, or the one opened at the new path.\<close>

definition store_of :: "live_env \<Rightarrow> live \<Rightarrow> Config \<Rightarrow> live \<Rightarrow> (auth_store \<Rightarrow> auth_store) \<Rightarrow> bool" where
  "store_of e l0 c l old \<longleftrightarrow>
     (if c_token_store (lv_cfg l0) = c_token_store c then lv_store l = lv_store l0 \<and> lv_stores l = lv_stores l0
      else lv_store l = lv_fresh l0 \<and> (\<exists>st. open_new_store e (lv_cfg l0) c = Inr (Some st) \<and>
        lv_stores l = (lv_stores l0)(lv_store l0 := old (lv_stores l0 (lv_store l0)), lv_fresh l0 := st)))"

definition configured :: "live_env \<Rightarrow> live \<Rightarrow> Config \<Rightarrow> live \<Rightarrow> bool" where
  "configured e l0 c l \<longleftrightarrow> follows c l \<and> store_of e l0 c l id \<and>
     lv_pending_old_store l = (if c_token_store (lv_cfg l0) = c_token_store c then None else Some (lv_store l0))"

definition published :: "live_env \<Rightarrow> live \<Rightarrow> Config \<Rightarrow> live \<Rightarrow> bool" where
  "published e l0 c l \<longleftrightarrow> follows c l \<and> store_of e l0 c l InvalidateManagedSubscribers \<and> lv_pending_old_store l = None"

definition saved :: "live_env \<Rightarrow> live \<Rightarrow> Config \<Rightarrow> live \<Rightarrow> bool" where
  "saved e l1 c l \<longleftrightarrow> lv_cfg l = c\<lparr>c_token := c_token (lv_cfg l1)\<rparr> \<and> SaveMain (le_fails e) c (lv_file l1) = (lv_file l, None)"

lemma SaveMain_error_keeps: "SaveMain fails c f = (f', Some err) \<Longrightarrow> f' = f"
  by (auto simp: SaveMain_def rewrite_def writeConfigAtomic_def writeConfigAtomicWithMode_def split: option.splits sum.splits if_splits)

lemma live_save_cases:
  assumes "SaveMain_dep e c l = (l', b)"
  shows "if b then \<exists>f. SaveMain (le_fails e) c (lv_file l) = (f, None) \<and>
      l' = l\<lparr>lv_file := f, lv_cfg := c\<lparr>c_token := c_token (lv_cfg l)\<rparr>, lv_refresh := True\<rparr> else l' = l"
  using assms SaveMain_error_keeps
  by (fastforce simp: SaveMain_dep_def live_save_def split: prod.splits option.splits)

lemma reconfigure_if_cases:
  assumes "reconfigure_if e (lv_cfg l) c (lv_pairing l) = (p, r)" and "live_ok l"
  shows "case r of
      Inl _ \<Rightarrow> window (le_clock e) p = window (le_clock e) (lv_pairing l) \<and> p_tokens p = p_tokens (lv_pairing l)
    | Inr None \<Rightarrow> p = lv_pairing l \<and> p_ttl p = c_pairing_ttl c \<and> p_always_on p = c_pairing_always_on c
    | Inr (Some b) \<Rightarrow> b = window (le_clock e) (lv_pairing l) \<and> p_last_now p = le_clock e \<and> p_tokens p = p_tokens (lv_pairing l) \<and>
        p_ttl p = c_pairing_ttl c \<and> p_always_on p = c_pairing_always_on c"
proof -
  have ttl: "0 < p_ttl (lv_pairing l)" using assms(2) by (simp add: live_ok_def follows_def)
  show ?thesis using assms Reconfigure_fails [OF _ ttl] Reconfigure_works
    by (auto simp: reconfigure_if_def live_ok_def follows_def split: if_splits prod.splits sum.splits)
qed

lemma apply_fails_keeps:
  assumes "live_ok l" and "live_apply e (lv_cfg l) c l = (l', Inl err)"
  shows "running e l' = running e l \<and> lv_file l' = lv_file l \<and> lv_cfg l' = lv_cfg l"
  using assms reconfigure_if_cases [OF _ assms(1), of e c]
  by (fastforce simp: live_apply_def running_def live_authStore_def Let_def split: sum.splits prod.splits)

lemma map_sum_Inr: "map_sum f g x = Inr y \<longleftrightarrow> (\<exists>z. x = Inr z \<and> y = g z)"
  by (cases x) auto

lemma apply_configures:
  assumes "live_ok l" and "live_apply e (lv_cfg l) c l = (l', Inr rollback)"
  shows "configured e l c l' \<and> lv_file l' = lv_file l \<and> lv_cfg l' = lv_cfg l"
proof -
  from assms(2) obtain new p policy where new: "open_new_store e (lv_cfg l) c = Inr new"
    and r: "reconfigure_if e (lv_cfg l) c (lv_pairing l) = (p, Inr policy)"
    by (auto simp: live_apply_def Let_def split: sum.splits prod.splits)
  have p: "p_ttl p = c_pairing_ttl c" "p_always_on p = c_pairing_always_on c" "p_tokens p = p_tokens (lv_pairing l)"
    using reconfigure_if_cases [OF r assms(1)] by (auto split: option.splits)
  have n: "(new = None) = (c_token_store (lv_cfg l) = c_token_store c)"
    using new by (auto simp: open_new_store_def map_sum_Inr split: if_splits)
  show ?thesis using assms new r p n
    by (cases new; cases "c_ble_pin (lv_cfg l) = c_ble_pin c") (auto simp: live_apply_def Let_def configured_def follows_def live_ok_def store_of_def install_store_def RebindStore_def)
qed

lemma rollback_restores:
  assumes "live_ok l" and "live_apply e (lv_cfg l) c l = (l', Inr rollback)"
  shows "running e (rollback l') = running e l" and "lv_file (rollback l') = lv_file l'" and "lv_cfg (rollback l') = lv_cfg l'"
proof -
  from assms(2) obtain new p policy where new: "open_new_store e (lv_cfg l) c = Inr new"
    and r: "reconfigure_if e (lv_cfg l) c (lv_pairing l) = (p, Inr policy)"
    by (auto simp: live_apply_def Let_def split: sum.splits prod.splits)
  have ok: "c_ble_pin (lv_cfg l) \<noteq> []" "lv_agent_pin l = c_ble_pin (lv_cfg l)" "lv_pending_old_store l = None" "p_tokens (lv_pairing l) = Some (lv_store l)"
    "lv_store l < lv_fresh l" "0 < p_ttl (lv_pairing l)"
    using assms(1) by (simp_all add: live_ok_def follows_def)
  have tok: "p_tokens p = Some (lv_store l)" using reconfigure_if_cases [OF r assms(1)] ok(4) by (auto split: option.splits)
  have win: "window (le_clock e) (case policy of None \<Rightarrow> p | Some b \<Rightarrow> rollback_policy b p) = window (le_clock e) (lv_pairing l)"
    using reconfigure_if_cases [OF r assms(1)] rollback_window [OF ok(6), of p "le_clock e"] by (auto split: option.splits)
  note u = live_apply_def Let_def rollback_live_def restore_store_def install_store_def RebindStore_def
  show "lv_file (rollback l') = lv_file l'" "lv_cfg (rollback l') = lv_cfg l'"
    using assms(2) new r by (cases new; cases policy; auto simp: u)+
  show "running e (rollback l') = running e l"
    using assms(2) new r ok tok win
    by (cases new; cases policy; cases "c_ble_pin (lv_cfg l) = c_ble_pin c") (auto simp: u running_def live_authStore_def)
qed

interpretation settings: settings_runtime "live_deps e fingerprint rot" live_ok "running e" lv_file lv_cfg "configured e" "saved e" "published e"
  "ApplySettings_dep e" "SaveMain_dep e" live_commit
proof (unfold_locales, goal_cases)
  case (5 s c s' err)
  then show ?case using apply_fails_keeps [of s e c] by (auto simp: ApplySettings_dep_def split: prod.splits sum.splits)
next
  case (6 s c s' rollback)
  then show ?case using apply_configures [of s e c] by (auto simp: ApplySettings_dep_def split: prod.splits sum.splits)
next
  case (7 s c)
  then show ?case by (auto simp: liveFieldsChanged_def configured_def live_ok_def follows_def store_of_def)
next
  case (8 s c s' rollback s'')
  then obtain rb where "live_apply e (lv_cfg s) c s = (s', Inr rb)" "rollback = Some rb"
    by (auto simp: ApplySettings_dep_def split: prod.splits sum.splits)
  moreover have "s'' = s'" using live_save_cases [OF 8(3)] by simp
  ultimately show ?case using rollback_restores [OF 8(1)] by simp
next
  case (9 c s s')
  then show ?case using live_save_cases [OF 9] by simp
next
  case (10 c s s' s0)
  then show ?case using live_save_cases [OF 10] by (auto simp: saved_def configured_def follows_def store_of_def)
next
  case (11 s0 c s)
  then show ?case
    by (auto simp: live_commit_def published_def configured_def follows_def store_of_def live_ok_def fun_eq_iff)
next
  case (12 s1 c s b)
  then show ?case by (auto simp: live_commit_def saved_def split: option.splits)
qed (simp_all add: live_deps_def live_current_def)

lemma window_policy: "po_ttl (window now p) = p_ttl p" "po_always_on (window now p) = p_always_on p"
  by (simp_all add: window_def)

lemma live_ok_running:
  assumes "live_ok l" and "running e l' = running e l" and "lv_cfg l' = lv_cfg l"
  shows "live_ok l'"
proof -
  have "window (le_clock e) (lv_pairing l') = window (le_clock e) (lv_pairing l)" using assms(2) by (simp add: running_def)
  then have "p_ttl (lv_pairing l') = p_ttl (lv_pairing l)" "p_always_on (lv_pairing l') = p_always_on (lv_pairing l)"
    using window_policy by metis+
  then show ?thesis using assms by (simp add: live_ok_def follows_def running_def)
qed

lemma patch_valid: "applySettingsPatch c raw = Some c' \<Longrightarrow> Config_Validate c' = None"
  by (auto simp: applySettingsPatch_def split: option.splits if_splits)

text \<open>A patch never leaves the PIN empty.\<close>

lemma patch_with_keeps:
  "pred_option P oc \<Longrightarrow> (\<And>v c. P c \<Longrightarrow> pred_option P (f v c)) \<Longrightarrow> pred_option P (patch_with object key f oc)"
  by (auto simp: patch_with_def split: option.splits)

lemma assign_keeps: "(\<And>x. P (upd x c)) \<Longrightarrow> pred_option P (assign decode zero upd v c)"
  by (cases "decodeValue decode zero v") (simp_all add: assign_def)

lemma patch_pin:
  assumes "applySettingsPatch c raw = Some c'" and "c_ble_pin c \<noteq> []"
  shows "c_ble_pin c' \<noteq> []"
proof -
  let ?P = "\<lambda>c. c_ble_pin c \<noteq> []"
  have parts: "pred_option ?P (patch_http v c)" "pred_option ?P (patch_https v c)" "pred_option ?P (patch_ttl v c)"
    "pred_option ?P (patch_ble_pin v c)" if "?P c" for v c
    using that by (auto simp: patch_http_def patch_https_def patch_ttl_def patch_ble_pin_def pred_option_def split: option.splits)
  have nested: "pred_option ?P (patch_tls v c)" "pred_option ?P (patch_mdns v c)" if "?P c" for v c
    using that by (auto simp: patch_tls_def patch_mdns_def split: option.splits intro!: patch_with_keeps assign_keeps)
  obtain object where object: "patch_object object c = Some c'"
    using assms(1) by (auto simp: applySettingsPatch_def split: option.splits if_splits)
  have "pred_option ?P (patch_object object c)"
    unfolding patch_object_def by (intro patch_with_keeps parts nested assign_keeps) (simp_all add: assms(2))
  then show ?thesis by (simp add: object)
qed

text \<open>C3. A change of the settings over the API is a transaction: with any failing reads and writes, either the answer is not
  200 and the daemon runs on with the same token store, pairing policy, pairing window and agent PIN, the same
  current configuration and the same file; or the answer is 200, the patched configuration is valid, current
  and written to the file, the daemon follows it, and after a move of the token store every subscriber of the
  old one has been told. Either way the daemon is consistent again.\<close>

theorem settings_transaction:
  assumes "live_ok l" and "putSettings (live_deps e fingerprint rot) r vals who l = (l', resp)"
  shows "live_ok l' \<and>
    (if rs_status resp = 200 then \<exists>raw c. read_json r = Some raw \<and> applySettingsPatch (lv_cfg l) raw = Some c \<and>
        lv_cfg l' = c\<lparr>c_token := c_token (lv_cfg l)\<rparr> \<and> SaveMain (le_fails e) c (lv_file l) = (lv_file l', None) \<and> published e l c l'
     else running e l' = running e l \<and> lv_cfg l' = lv_cfg l \<and> lv_file l' = lv_file l)"
  using settings.put_settings_transaction [OF assms]
proof (elim disjE exE conjE)
  assume "rs_status resp \<noteq> 200" and "settings.kept e l l'"
  then show ?thesis using live_ok_running [OF assms(1), of e l'] by (simp add: settings.kept_def)
next
  fix raw c l1
  assume c: "read_json r = Some raw" "applySettingsPatch (lv_cfg l) raw = Some c"
    and resp: "resp = writeJSON 200 (Some (settings_response (live_deps e fingerprint rot) c (Some (restartFieldsChanged (lv_cfg l) c)) l'))"
    and pub: "published e l c l'" and l1: "lv_file l1 = lv_file l" "lv_cfg l1 = lv_cfg l" "saved e l1 c l'"
  have "0 < c_pairing_ttl c" using validated_ranges [OF patch_valid [OF c(2)]] by simp
  moreover have "c_ble_pin c \<noteq> []" using patch_pin [OF c(2)] assms(1) by (simp add: live_ok_def)
  ultimately have "live_ok l'" using pub l1 by (simp add: live_ok_def published_def saved_def follows_def)
  with c resp pub l1 show ?thesis by (auto simp: saved_def writeJSON_def)
qed

definition demo_env :: "bool \<Rightarrow> live_env" where
  "demo_env broken = \<lparr>le_hash = toy_hash, le_persist = fs_ok, le_tokens = (\<lambda>_. (NotExist, Inr True)), le_clock = 100, le_fails = (\<lambda>_. broken)\<rparr>"

definition demo_live :: live where
  "demo_live = \<lparr>lv_cfg = defaultConfig, lv_store = 0, lv_pairing = NewPairing [] 100 (Some 0) (5 * minute) False, lv_pending_old_store = None,
     lv_stores = (\<lambda>_. toy_store), lv_fresh = 1, lv_agent_pin = c_ble_pin defaultConfig, lv_file = empty_config, lv_refresh = False\<rparr>"

definition advanced_request :: request where
  "advanced_request = (demo_request ''PUT'' ''/api/v1/settings'')\<lparr>rq_body := json_Marshal (JObj [(''advanced'', JBool True)])\<rparr>"

lemma demo_live_ok: "live_ok demo_live"
  by code_simp

lemma advanced_body: "read_json advanced_request = Some (JObj [(''advanced'', JBool True)])"
proof -
  have "length (json_Marshal (JObj [(''advanced'', JBool True)])) = 17" by code_simp
  moreover have "wf_json (JObj [(''advanced'', JBool True)])" by code_simp
  moreover have "depth (JObj [(''advanced'', JBool True)]) \<le> 10000" by simp
  ultimately show ?thesis by (simp add: read_json_def advanced_request_def json_roundtrip del: json_Marshal.simps)
qed

lemma Validate_advanced: "Config_Validate (c\<lparr>c_advanced := b\<rparr>) = Config_Validate c"
  by (simp add: Config_Validate_def)

lemma advanced_valid: "Config_Validate (defaultConfig\<lparr>c_advanced := True\<rparr>) = None"
  by (simp only: Validate_advanced default_valid)

lemma advanced_patch: "applySettingsPatch defaultConfig (JObj [(''advanced'', JBool True)]) = Some (defaultConfig\<lparr>c_advanced := True\<rparr>)"
  by (simp add: applySettingsPatch_def decodeObject_def patch_object_def patch_with_def json_map_def assign_def decodeValue_def decode_bool_def
      advanced_valid)

lemma advanced_saves: "\<exists>f. SaveMain (\<lambda>_. False) (defaultConfig\<lparr>c_advanced := True\<rparr>) empty_config = (f, None)"
  "SaveMain (\<lambda>_. True) (defaultConfig\<lparr>c_advanced := True\<rparr>) empty_config = (empty_config, Some Config.ReadFailed)"
  by (simp_all add: SaveMain_def advanced_valid rewrite_empty)
     (simp add: rewrite_def read_empty writeConfigAtomic_def)

lemma demo_put:
  "rs_status (snd (putSettings (live_deps (demo_env broken) [] (\<lambda>l. (l, Inl ()))) advanced_request [] None demo_live)) = (if broken then 500 else 200)"
proof -
  have c: "lv_cfg demo_live = defaultConfig" "lv_file demo_live = empty_config" by (simp_all add: demo_live_def)
  have a: "live_apply (demo_env b) defaultConfig (defaultConfig\<lparr>c_advanced := True\<rparr>) demo_live =
      (demo_live, Inr (rollback_live defaultConfig (defaultConfig\<lparr>c_advanced := True\<rparr>) None None))" for b
    by (simp add: live_apply_def open_new_store_def reconfigure_if_def)
  have env: "le_fails (demo_env b) = (\<lambda>_. b)" for b by (simp add: demo_env_def)
  have live: "liveFieldsChanged defaultConfig (defaultConfig\<lparr>c_advanced := True\<rparr>)"
    by (simp add: liveFieldsChanged_def defaultConfig_def)
  from advanced_saves(1) obtain f where f: "SaveMain (\<lambda>_. False) (defaultConfig\<lparr>c_advanced := True\<rparr>) empty_config = (f, None)" ..
  show ?thesis
    by (cases broken) (simp_all add: putSettings_def live_deps_def currentConfig_def live_current_def c advanced_body advanced_patch live
        ApplySettings_dep_def a save_settings_def SaveMain_dep_def live_save_def env f advanced_saves(2) writeJSON_def
        writeAPIError_def errorCatalog_def Let_def)
qed

theorem settings_transaction_witness:
  "live_ok demo_live \<and>
   (case putSettings (live_deps (demo_env False) [] (\<lambda>l. (l, Inl ()))) advanced_request [] None demo_live of (l', resp) \<Rightarrow>
      rs_status resp = 200 \<and> live_ok l' \<and> c_advanced (lv_cfg l')) \<and>
   (case putSettings (live_deps (demo_env True) [] (\<lambda>l. (l, Inl ()))) advanced_request [] None demo_live of (l', resp) \<Rightarrow>
      rs_status resp = 500 \<and> live_ok l' \<and> lv_file l' = empty_config \<and> \<not> c_advanced (lv_cfg l'))"
proof -
  have c: "lv_cfg demo_live = defaultConfig" "lv_file demo_live = empty_config" "\<not> c_advanced defaultConfig"
    by (simp_all add: demo_live_def defaultConfig_def)
  show ?thesis
    using settings_transaction [OF demo_live_ok prod.collapse [symmetric], of "demo_env False" "[]" "\<lambda>l. (l, Inl ())" advanced_request "[]" None]
      settings_transaction [OF demo_live_ok prod.collapse [symmetric], of "demo_env True" "[]" "\<lambda>l. (l, Inl ())" advanced_request "[]" None]
      demo_put [of False] demo_put [of True] demo_live_ok
    by (auto simp: case_prod_beta advanced_body c advanced_patch)
qed

end
