(* ===== verification/Api_Device.thy ===== *)
theory Api_Device
  imports Api_Http Control Actions GoDecimal
begin

text \<open>
  The handlers of the device in \<^verbatim>\<open>internal/api\<close>: \<^verbatim>\<open>device.go\<close>, \<^verbatim>\<open>control.go\<close>, \<^verbatim>\<open>timers.go\<close> and \<^verbatim>\<open>advanced.go\<close>. Each one
  decodes its request, calls the control service and turns the result into a response. Bodies of responses
  are the Go values that are encoded; a value the encoder refuses, a float that is not finite, leaves the
  body empty.
\<close>

section \<open>Values of responses\<close>

record commandView =
  cv_id :: string
  cv_operation :: string
  cv_requested :: anyval
  cv_phase :: string
  cv_started_at :: time
  cv_updated_at :: time
  cv_error :: "command_error option"

definition commandFromState :: "command \<Rightarrow> commandView" where
  "commandFromState c = \<lparr>cv_id = cmd_id c, cv_operation = cmd_operation c, cv_requested = cmd_requested c, cv_phase = cmd_phase c,
     cv_started_at = cmd_started_at c, cv_updated_at = cmd_updated_at c, cv_error = cmd_error c\<rparr>"

record commandLists =
  cl_active :: "commandView list"
  cl_recent :: "commandView list"

definition commandsFromSnapshot :: "snapshot \<Rightarrow> commandLists" where
  "commandsFromSnapshot sn =
     \<lparr>cl_active = map (\<lambda>i. commandFromState (the (map_of (sn_pending sn) i))) (sort (map fst (sn_pending sn))),
      cl_recent = map commandFromState (sn_recent sn)\<rparr>"

record snapshotView =
  sw_battery :: "battery option"
  sw_dc :: "dc_port option"
  sw_typec :: "typec_port option"
  sw_connected :: bool
  sw_updated_at :: time
  sw_id :: string
  sw_mode :: string
  sw_commands :: commandLists

definition snapshotResponse :: "snapshot \<Rightarrow> snapshotView" where
  "snapshotResponse sn = \<lparr>sw_battery = sn_battery sn, sw_dc = sn_dc sn, sw_typec = sn_typec sn, sw_connected = sn_connected sn,
     sw_updated_at = sn_updated_at sn, sw_id = (case sn_device sn of None \<Rightarrow> [] | Some i \<Rightarrow> id_mac i),
     sw_mode = (case sn_device sn of None \<Rightarrow> [] | Some i \<Rightarrow> id_mode i), sw_commands = commandsFromSnapshot sn\<rparr>"

record deviceView =
  dw_id :: string
  dw_model :: string
  dw_hardware_revision :: string
  dw_application_firmware :: string
  dw_ota_firmware :: string
  dw_cid :: uint16
  dw_features_raw :: uint32
  dw_features :: FeatureSet
  dw_running_mode :: bool
  dw_barrier_free :: bool
  dw_usb_firmware :: bool
  dw_ble_pin :: bool
  dw_current_time :: bool
  dw_ota :: bool
  dw_dc :: bool
  dw_usbc :: bool
  dw_mode :: string
  dw_connected :: bool
  dw_phase :: string
  dw_reconnect :: string
  dw_commands :: commandLists
  dw_magic_dns_name :: string

datatype device_body =
    DeviceBody deviceView | SnapshotBody snapshotView | HistoryBody "history_point list"
  | SwitchBody bool commandView | TypeCBody bool byte commandView
  | LimitBody string int "int option" | LimitsBody "(string \<times> int \<times> int) list" | WattsBody int int
  | VoltsBody float64 | StatusBody string
  | TimersBody "Timer list" | TimerBody Timer | DeletedBody byte "Timer list"
  | ClockBody "(civil_time \<times> int) option" civil_time | SyncedBody civil_time | LifecycleBody string string
  | OtaBody string uint16 string | ModeBody int | EnabledBody bool | FirmwareBody "byte list" byte byte byte | UpdatedBody bool

text \<open>What \<^verbatim>\<open>json.Encoder\<close> refuses.\<close>

definition json_time :: "civil_time \<Rightarrow> bool" where
  "json_time t \<longleftrightarrow> 0 \<le> year t \<and> year t \<le> 9999"

fun encodable :: "device_body \<Rightarrow> bool" where
  "encodable (VoltsBody v) = finite64 v"
| "encodable (SnapshotBody v) = ((case sw_battery v of None \<Rightarrow> True | Some b \<Rightarrow> json_battery b) \<and>
     (case sw_dc v of None \<Rightarrow> True | Some d \<Rightarrow> json_dc d) \<and> (case sw_typec v of None \<Rightarrow> True | Some c \<Rightarrow> json_typec c))"
| "encodable (HistoryBody ps) = list_all (\<lambda>p. finite64 (hp_dc_w p) \<and> finite64 (hp_typec_w p)) ps"
| "encodable (ClockBody device now) = (json_time now \<and> (case device of None \<Rightarrow> True | Some (t, _) \<Rightarrow> json_time t))"
| "encodable (SyncedBody now) = json_time now"
| "encodable _ = True"

definition write_body :: "nat \<Rightarrow> device_body \<Rightarrow> device_body response" where
  "write_body code v = writeJSON code (if encodable v then Some v else None)"

section \<open>Errors and the service\<close>

text \<open>A handler that panics gives no response at all; the server closes the connection.\<close>

definition aborted :: "'b response" where
  "aborted = \<lparr>rs_status = 0, rs_body = NoBody\<rparr>"

fun writeError :: "ctl_error \<Rightarrow> 'b response" where
  "writeError (ErrInternal m) = writeAPIError ''internal_error''"
| "writeError (ErrBLE e) = writeAPIError ''ble_operation_failed''"
| "writeError ErrDisconnected = writeAPIError ''device_disconnected''"
| "writeError ErrUnsupported = writeAPIError ''capability_unsupported''"
| "writeError ErrAdvancedDisabled = writeAPIError ''advanced_disabled''"
| "writeError ErrTimeout = writeAPIError ''command_timeout''"
| "writeError ErrNotFound = writeAPIError ''not_found''"
| "writeError NilDereference = aborted"
| "writeError _ = writeAPIError ''internal_error''"

text \<open>The dependencies of these handlers. \<open>dd_limits\<close> is the order in which the iteration over the map of limit types
  happens to run.\<close>

record 'w device_deps =
  dd_DeviceControl :: "'w service option"
  dd_Control :: "('w world \<Rightarrow> 'w session_ref) option"
  dd_interference :: "'w interference"
  dd_context :: "'w ctx"
  dd_MagicDNSName :: "string option"
  dd_now :: civil_time
  dd_SaveBLEPIN :: "(string \<Rightarrow> 'w world \<Rightarrow> 'w world \<times> bool) option"
  dd_limits :: "(string \<times> int) list"

type_synonym 'w device_handler = "('w world, device_body) handler"

definition controlService :: "'w device_deps \<Rightarrow> ('w service \<Rightarrow> 'w world \<Rightarrow> 'w world \<times> 'b response) \<Rightarrow> 'w world \<Rightarrow> 'w world \<times> 'b response" where
  "controlService d k w = (case dd_DeviceControl d of None \<Rightarrow> (w, writeAPIError ''device_disconnected'') | Some sv \<Rightarrow> k sv w)"

definition answer :: "('w, 'a) op \<Rightarrow> ('a \<Rightarrow> 'b response) \<Rightarrow> 'w world \<Rightarrow> 'w world \<times> 'b response" where
  "answer f k w = (case f w of (w, Inl e) \<Rightarrow> (w, writeError e) | (w, Inr x) \<Rightarrow> (w, k x))"

text \<open>\<^verbatim>\<open>ctl\<close>: the live session of the older interface.\<close>

definition ctl :: "'w device_deps \<Rightarrow> ('w session_ref \<Rightarrow> 'w world \<Rightarrow> 'w world \<times> 'b response) \<Rightarrow> 'w world \<Rightarrow> 'w world \<times> 'b response" where
  "ctl d k w = (case dd_Control d of
      None \<Rightarrow> (w, writeAPIError ''device_disconnected'')
    | Some resolve \<Rightarrow> if is_nil (resolve w) then (w, writeAPIError ''device_disconnected'') else k (resolve w) w)"

definition session_answer :: "'w session_ref \<Rightarrow> ('w Transport \<Rightarrow> ('w, 'a) act) \<Rightarrow> ('a \<Rightarrow> 'b response) \<Rightarrow> 'w world \<Rightarrow> 'w world \<times> 'b response" where
  "session_answer s m k w = (case invoke wrapBLE s m w of
      (w, Inl NilDereference) \<Rightarrow> (w, aborted)
    | (w, Inl _) \<Rightarrow> (w, writeAPIError ''ble_operation_failed'')
    | (w, Inr x) \<Rightarrow> (w, k x))"

definition bad_request :: "'w world \<Rightarrow> 'w world \<times> 'b response" where
  "bad_request w = (w, writeAPIError ''invalid_request'')"

section \<open>Reading the state\<close>

definition device :: "'w device_deps \<Rightarrow> 'w device_handler" where
  "device d r vals who w =
     (if \<not> requireNoBody r then bad_request w
      else
        let sn = snap_of w;
            i = (case sn_device sn of Some i \<Rightarrow> i
                 | None \<Rightarrow> \<lparr>id_model = [], id_hw_rev = [], id_app_firmware = [], id_bootloader_firmware = [], id_mac = [], id_cid = 0,
                     id_features = 0, id_feature_set = DecodeFeatures 0, id_mode = [], id_characteristics = [], id_readable = []\<rparr>);
            phase = (case sn_connection sn of None \<Rightarrow> ''disconnected'' | Some c \<Rightarrow> cn_phase c);
            armed = (case sn_connection sn of None \<Rightarrow> False | Some c \<Rightarrow> cn_reconnect_armed c);
            reconnect = (if phase = ''bootloader'' then ''bootloader'' else if armed then ''armed'' else ''disarmed'')
        in (w, write_body 200 (DeviceBody \<lparr>dw_id = id_mac i, dw_model = id_model i, dw_hardware_revision = id_hw_rev i,
             dw_application_firmware = id_app_firmware i, dw_ota_firmware = id_bootloader_firmware i, dw_cid = id_cid i,
             dw_features_raw = id_features i, dw_features = id_feature_set i, dw_running_mode = f_factory_mode (id_feature_set i),
             dw_barrier_free = has_characteristic i ''command'', dw_usb_firmware = f_usb_port (id_feature_set i),
             dw_ble_pin = has_characteristic i ''command'', dw_current_time = has_characteristic i ''current_time'',
             dw_ota = has_characteristic i ''ota'', dw_dc = has_characteristic i ''dc'', dw_usbc = has_characteristic i ''typec'',
             dw_mode = id_mode i, dw_connected = sn_connected sn, dw_phase = phase, dw_reconnect = reconnect,
             dw_commands = commandsFromSnapshot sn, dw_magic_dns_name = (case dd_MagicDNSName d of None \<Rightarrow> [] | Some n \<Rightarrow> n)\<rparr>)))"

definition telemetry :: "'w device_handler" where
  "telemetry r vals who w = (w, write_body 200 (SnapshotBody (snapshotResponse (snap_of w))))"

definition history :: "'w device_handler" where
  "history r vals who w = (w, write_body 200 (HistoryBody (st_history (w_store w))))"

section \<open>Switches\<close>

definition decode_on :: "request \<Rightarrow> bool option" where
  "decode_on r = (case decodeJSON [''on''] r of
      None \<Rightarrow> None
    | Some ms \<Rightarrow> (case field (pointer decode_bool False) None ''on'' ms of Some (Some b) \<Rightarrow> Some b | _ \<Rightarrow> None))"

text \<open>The common part of the three switches: the command of a result without error is never missing.\<close>

definition switch ::
    "('w service \<Rightarrow> 'w interference \<Rightarrow> 'w ctx \<Rightarrow> bool \<Rightarrow> 'w world \<Rightarrow> 'w world \<times> outcome) \<Rightarrow> (anyval \<Rightarrow> commandView \<Rightarrow> device_body) \<Rightarrow>
     'w device_deps \<Rightarrow> 'w device_handler" where
  "switch result body d r vals who w = (case decode_on r of
      None \<Rightarrow> bad_request w
    | Some on \<Rightarrow> controlService d (\<lambda>sv w. case result sv (dd_interference d) (dd_context d) on w of
        (w, Panicked) \<Rightarrow> (w, aborted)
      | (w, Returned v c (Some e)) \<Rightarrow> (w, writeError e)
      | (w, Returned v None None) \<Rightarrow> (w, write_body 200 (body v (commandFromState
            \<lparr>cmd_id = [], cmd_operation = [], cmd_phase = [], cmd_requested = AnyNil, cmd_observed = AnyNil, cmd_started_at = 0,
             cmd_updated_at = 0, cmd_error = None\<rparr>)))
      | (w, Returned v (Some c) None) \<Rightarrow> (w, write_body 200 (body v (commandFromState c)))) w)"

definition setDC :: "'w device_deps \<Rightarrow> 'w device_handler" where
  "setDC = switch SetDCResult (\<lambda>v. SwitchBody (dc_enabled (observedDC v)))"

definition setTypeCOutput :: "'w device_deps \<Rightarrow> 'w device_handler" where
  "setTypeCOutput = switch SetTypeCOutputResult (\<lambda>v. TypeCBody (tc_mode (observedTypeC v) = 3) (tc_mode (observedTypeC v)))"

definition setBypass :: "'w device_deps \<Rightarrow> 'w device_handler" where
  "setBypass = switch SetBypassResult (\<lambda>v. SwitchBody (dc_bypass (observedDC v)))"

section \<open>Limits\<close>

definition canonicalLimitTypes :: "(string \<times> int) list" where
  "canonicalLimitTypes = [(''global'', LimitGlobal), (''input'', LimitInput), (''output'', LimitOutput), (''runtime'', LimitRuntime)]"

definition limitTypes :: "(string \<times> int) list" where
  "limitTypes = [(''global'', LimitGlobal), (''input'', LimitInput), (''output'', LimitOutput)]"

definition limitResponse :: "string \<Rightarrow> int \<Rightarrow> device_body" where
  "limitResponse name level =
     (if name = ''runtime'' \<and> level = - 1 then LimitBody name level None else LimitBody name level (Some (LevelToWatts level)))"

definition path_value :: "(string \<times> string) list \<Rightarrow> string \<Rightarrow> string" where
  "path_value vals n = (case map_of vals n of None \<Rightarrow> [] | Some v \<Rightarrow> v)"

definition getLimit :: "'w device_deps \<Rightarrow> 'w device_handler" where
  "getLimit d r vals who w =
     (if \<not> requireNoBody r then bad_request w
      else let name = path_value vals ''type''
           in case map_of canonicalLimitTypes name of
               None \<Rightarrow> bad_request w
             | Some ty \<Rightarrow> controlService d (\<lambda>sv. answer (Service_GetUSBCLimit sv (dd_context d) ty) (\<lambda>level. write_body 200 (limitResponse name level))) w)"

definition decode_int_ptr :: "string \<Rightarrow> request \<Rightarrow> int option" where
  "decode_int_ptr name r = (case decodeJSON [name] r of
      None \<Rightarrow> None
    | Some ms \<Rightarrow> (case field (pointer decode_int 0) None name ms of Some (Some n) \<Rightarrow> Some n | _ \<Rightarrow> None))"

definition putLimit :: "'w device_deps \<Rightarrow> 'w device_handler" where
  "putLimit d r vals who w =
     (let name = path_value vals ''type''
      in case map_of canonicalLimitTypes name of
          None \<Rightarrow> bad_request w
        | Some ty \<Rightarrow>
            if ty = LimitRuntime then bad_request w
            else case decode_int_ptr ''watts'' r of
                None \<Rightarrow> bad_request w
              | Some watts \<Rightarrow>
                  let level = WattsToLevel watts
                  in if level < 0 then bad_request w
                     else controlService d (\<lambda>sv. answer (Service_PutUSBCLimit sv (dd_context d) ty level) (\<lambda>l. write_body 200 (limitResponse name l))) w)"

definition deleteLimit :: "'w device_deps \<Rightarrow> 'w device_handler" where
  "deleteLimit d r vals who w =
     (if \<not> requireNoBody r then bad_request w
      else let name = path_value vals ''type''
           in case map_of canonicalLimitTypes name of
               None \<Rightarrow> bad_request w
             | Some ty \<Rightarrow>
                 if ty = LimitRuntime then bad_request w
                 else controlService d (\<lambda>sv. answer (Service_DeleteUSBCLimit sv (dd_context d) ty) (\<lambda>l. write_body 200 (limitResponse name l))) w)"

text \<open>The loops of \<^verbatim>\<open>getUSBCLimit\<close>, over the service and over the session.\<close>

fun read_limits :: "(int \<Rightarrow> ('w, int) op) \<Rightarrow> (string \<times> int) list \<Rightarrow> ('w, (string \<times> int \<times> int) list) op" where
  "read_limits get [] w = (w, Inr [])"
| "read_limits get ((name, ty) # ts) w = (case get ty w of
      (w, Inl e) \<Rightarrow> (w, Inl e)
    | (w, Inr level) \<Rightarrow> (case read_limits get ts w of
        (w, Inl e) \<Rightarrow> (w, Inl e)
      | (w, Inr out) \<Rightarrow> (w, Inr ((name, level, LevelToWatts level) # out))))"

definition getUSBCLimit :: "'w device_deps \<Rightarrow> 'w device_handler" where
  "getUSBCLimit d r vals who w = (case dd_DeviceControl d of
      Some sv \<Rightarrow> answer (read_limits (Service_GetUSBCLimit sv (dd_context d)) (dd_limits d)) (\<lambda>out. write_body 200 (LimitsBody out)) w
    | None \<Rightarrow> ctl d (\<lambda>s w. case read_limits (\<lambda>ty. invoke wrapBLE s (\<lambda>t. USBCLimit t ty)) (dd_limits d) w of
        (w, Inl NilDereference) \<Rightarrow> (w, aborted)
      | (w, Inl _) \<Rightarrow> (w, writeAPIError ''ble_operation_failed'')
      | (w, Inr out) \<Rightarrow> (w, write_body 200 (LimitsBody out))) w)"

definition setUSBCLimit :: "'w device_deps \<Rightarrow> 'w device_handler" where
  "setUSBCLimit d r vals who w = (case decodeJSON [''type'', ''watts'', ''clear''] r of
      None \<Rightarrow> bad_request w
    | Some ms \<Rightarrow> (case (field decode_string [] ''type'' ms, field decode_int 0 ''watts'' ms, field decode_bool False ''clear'' ms) of
        (Some type, Some watts, Some clear) \<Rightarrow> (case map_of limitTypes type of
            None \<Rightarrow> bad_request w
          | Some ty \<Rightarrow>
              let level = WattsToLevel watts
              in if \<not> clear \<and> level < 0 then bad_request w
                 else case dd_DeviceControl d of
                     Some sv \<Rightarrow>
                       if clear then answer (Service_DeleteUSBCLimit sv (dd_context d) ty) (\<lambda>_. write_body 200 (StatusBody ''cleared'')) w
                       else answer (Service_PutUSBCLimit sv (dd_context d) ty level) (\<lambda>l. write_body 200 (WattsBody (LevelToWatts l) l)) w
                   | None \<Rightarrow> ctl d (\<lambda>s.
                       if clear then session_answer s (\<lambda>t. ClearUSBCLimit t ty) (\<lambda>_. write_body 200 (StatusBody ''cleared''))
                       else session_answer s (\<lambda>t. SetUSBCLimit t ty level) (\<lambda>_. write_body 200 (WattsBody watts level))) w)
      | _ \<Rightarrow> bad_request w))"

section \<open>The bypass threshold\<close>

text \<open>\<^verbatim>\<open>strconv.ParseFloat\<close> of the literal; a number out of range is refused.\<close>

definition decode_float :: "float64 \<Rightarrow> json \<Rightarrow> float64 option" where
  "decode_float old v = (case v of JNum t \<Rightarrow> ParseFloat t | JNull \<Rightarrow> Some old | _ \<Rightarrow> None)"

definition volts_outside :: "float64 \<Rightarrow> bool" where
  "volts_outside v \<longleftrightarrow> fle v (Fin 0) \<or> flt (Fin 60) v"

definition getThreshold :: "'w device_deps \<Rightarrow> 'w device_handler" where
  "getThreshold d r vals who w =
     (if \<not> requireNoBody r then bad_request w
      else controlService d (\<lambda>sv. answer (Service_GetBypassThreshold sv (dd_context d)) (\<lambda>v. write_body 200 (VoltsBody v))) w)"

definition putThreshold :: "'w device_deps \<Rightarrow> 'w device_handler" where
  "putThreshold d r vals who w = (case decodeJSON [''volts''] r of
      None \<Rightarrow> bad_request w
    | Some ms \<Rightarrow> (case field (pointer decode_float (Fin 0)) None ''volts'' ms of
        Some (Some v) \<Rightarrow>
          if volts_outside v then bad_request w
          else controlService d (\<lambda>sv. answer (Service_PutBypassThreshold sv (dd_context d) v) (\<lambda>v. write_body 200 (VoltsBody v))) w
      | _ \<Rightarrow> bad_request w))"

definition getBypassThreshold :: "'w device_deps \<Rightarrow> 'w device_handler" where
  "getBypassThreshold d r vals who w = (case dd_DeviceControl d of
      Some sv \<Rightarrow> answer (Service_GetBypassThreshold sv (dd_context d)) (\<lambda>v. write_body 200 (VoltsBody v)) w
    | None \<Rightarrow> ctl d (\<lambda>s. session_answer s BypassThreshold (\<lambda>v. write_body 200 (VoltsBody v))) w)"

definition setBypassThreshold :: "'w device_deps \<Rightarrow> 'w device_handler" where
  "setBypassThreshold d r vals who w = (case decodeJSON [''volts''] r of
      None \<Rightarrow> bad_request w
    | Some ms \<Rightarrow> (case field decode_float (Fin 0) ''volts'' ms of
        None \<Rightarrow> bad_request w
      | Some v \<Rightarrow>
          if volts_outside v then bad_request w
          else (case dd_DeviceControl d of
              Some sv \<Rightarrow> answer (Service_PutBypassThreshold sv (dd_context d) v) (\<lambda>v. write_body 200 (VoltsBody v)) w
            | None \<Rightarrow> ctl d (\<lambda>s. session_answer s (\<lambda>t. SetBypassThreshold t v) (\<lambda>_. write_body 200 (VoltsBody v))) w)))"

section \<open>Timers\<close>

text \<open>Integers of a fixed width: an unsigned one has no sign in its literal, and both have to fit.\<close>

definition decode_uint :: "nat \<Rightarrow> ('a :: len) word \<Rightarrow> json \<Rightarrow> 'a word option" where
  "decode_uint bits old v = (case v of
      JNum t \<Rightarrow> if take 1 t = ''-'' then None
        else (case Atoi t of None \<Rightarrow> None | Some n \<Rightarrow> if n < 2 ^ bits then Some (word_of_int n) else None)
    | JNull \<Rightarrow> Some old
    | _ \<Rightarrow> None)"

definition decode_int8 :: "int8 \<Rightarrow> json \<Rightarrow> int8 option" where
  "decode_int8 old v = (case v of
      JNum t \<Rightarrow> (case Atoi t of None \<Rightarrow> None | Some n \<Rightarrow> if - 128 \<le> n \<and> n \<le> 127 then Some (word_of_int n) else None)
    | JNull \<Rightarrow> Some old
    | _ \<Rightarrow> None)"

definition timer_fields :: "string list" where
  "timer_fields = [''status'', ''type'', ''hour'', ''minute'', ''repeat'', ''action'']"

text \<open>\<^verbatim>\<open>timerRequest.timer\<close>: all fields are required, and the timer has to be writable.\<close>

definition timer_of :: "(string \<times> json) list \<Rightarrow> Timer option" where
  "timer_of ms = (case (field (pointer decode_int8 0) None ''status'' ms, field (pointer (decode_uint 8) 0) None ''type'' ms,
        field (pointer (decode_uint 8) 0) None ''hour'' ms, field (pointer (decode_uint 8) 0) None ''minute'' ms,
        field (pointer (decode_uint 32) 0) None ''repeat'' ms, field (pointer (decode_uint 8) 0) None ''action'' ms) of
      (Some (Some st), Some (Some ty), Some (Some h), Some (Some m), Some (Some rep), Some (Some a)) \<Rightarrow>
        let timer = \<lparr>tm_id = 0, tm_status = st, tm_type = ty, tm_hour = h, tm_minute = m, tm_repeat = rep, tm_action = a\<rparr>
        in if ValidateTimerWrite timer = None then Some timer else None
    | _ \<Rightarrow> None)"

definition decodeTimer :: "request \<Rightarrow> Timer option" where
  "decodeTimer r = (case decodeJSON timer_fields r of None \<Rightarrow> None | Some ms \<Rightarrow> timer_of ms)"

definition timerID :: "(string \<times> string) list \<Rightarrow> byte option" where
  "timerID vals = (case Atoi (path_value vals ''id'') of
      None \<Rightarrow> None
    | Some i \<Rightarrow> if i < 0 \<or> i > 254 then None else Some (word_of_int i))"

definition listTimers :: "'w device_deps \<Rightarrow> 'w device_handler" where
  "listTimers d r vals who w =
     (if \<not> requireNoBody r then bad_request w
      else controlService d (\<lambda>sv. answer (Service_ListTimers sv (dd_context d)) (\<lambda>ts. write_body 200 (TimersBody ts))) w)"

text \<open>The search for the timer in the list read back from the device.\<close>

definition observed_timer :: "nat \<Rightarrow> device_body response \<Rightarrow> byte \<Rightarrow> Timer list \<Rightarrow> device_body response" where
  "observed_timer code missing i ts = (case find (\<lambda>t. tm_id t = i) ts of None \<Rightarrow> missing | Some t \<Rightarrow> write_body code (TimerBody t))"

definition addTimer :: "'w device_deps \<Rightarrow> 'w device_handler" where
  "addTimer d r vals who w = (case decodeTimer r of
      None \<Rightarrow> bad_request w
    | Some timer \<Rightarrow> controlService d (\<lambda>sv. answer (Service_AddTimer sv (dd_context d) timer)
        (\<lambda>(ts, i). observed_timer 201 (writeAPIError ''ble_operation_failed'') i ts)) w)"

definition getTimer :: "'w device_deps \<Rightarrow> 'w device_handler" where
  "getTimer d r vals who w =
     (if \<not> requireNoBody r then bad_request w
      else case timerID vals of
          None \<Rightarrow> bad_request w
        | Some i \<Rightarrow> controlService d (\<lambda>sv. answer (Service_GetTimer sv (dd_context d) i) (\<lambda>t. write_body 200 (TimerBody t))) w)"

definition putTimer :: "'w device_deps \<Rightarrow> 'w device_handler" where
  "putTimer d r vals who w = (case timerID vals of
      None \<Rightarrow> bad_request w
    | Some i \<Rightarrow> (case decodeTimer r of
        None \<Rightarrow> bad_request w
      | Some timer \<Rightarrow> controlService d (\<lambda>sv. answer (Service_PutTimer sv (dd_context d) i timer)
          (observed_timer 200 (writeError ErrNotFound) i)) w))"

definition deleteTimer :: "'w device_deps \<Rightarrow> 'w device_handler" where
  "deleteTimer d r vals who w =
     (if \<not> requireNoBody r then bad_request w
      else case timerID vals of
          None \<Rightarrow> bad_request w
        | Some i \<Rightarrow> controlService d (\<lambda>sv. answer (Service_DeleteTimer sv (dd_context d) i) (\<lambda>ts. write_body 200 (DeletedBody i ts))) w)"

definition getSchedules :: "'w device_deps \<Rightarrow> 'w device_handler" where
  "getSchedules = listTimers"

definition postSchedule :: "'w device_deps \<Rightarrow> 'w device_handler" where
  "postSchedule d r vals who w = (case decodeJSON (''id'' # timer_fields) r of
      None \<Rightarrow> bad_request w
    | Some ms \<Rightarrow> (case (field (pointer decode_int 0) None ''id'' ms, timer_of ms) of
        (Some given, Some timer) \<Rightarrow>
          if (case given of None \<Rightarrow> False | Some i \<Rightarrow> i < 0 \<or> i > 254) then bad_request w
          else controlService d (\<lambda>sv. case given of
              None \<Rightarrow> answer (Service_AddTimer sv (dd_context d) timer)
                (\<lambda>(ts, i). observed_timer 200 (writeAPIError ''ble_operation_failed'') i ts)
            | Some i \<Rightarrow> answer (Service_PutTimer sv (dd_context d) (word_of_int i) timer)
                (observed_timer 200 (writeAPIError ''ble_operation_failed'') (word_of_int i))) w
      | _ \<Rightarrow> bad_request w))"

definition deleteSchedule :: "'w device_deps \<Rightarrow> 'w device_handler" where
  "deleteSchedule d r vals who w =
     (if \<not> requireNoBody r then bad_request w
      else case timerID vals of
          None \<Rightarrow> bad_request w
        | Some i \<Rightarrow> controlService d (\<lambda>sv. answer (Service_DeleteTimer sv (dd_context d) i) (\<lambda>_. write_body 200 (StatusBody ''deleted''))) w)"

section \<open>Clock\<close>

text \<open>The instant of a civil time, in nanoseconds since the start of year 1.\<close>

definition leap :: "int \<Rightarrow> bool" where
  "leap y \<longleftrightarrow> y mod 4 = 0 \<and> (y mod 100 \<noteq> 0 \<or> y mod 400 = 0)"

definition days_before :: "int \<Rightarrow> int \<Rightarrow> int" where
  "days_before y m = (let p = y - 1 in 365 * p + p div 4 - p div 100 + p div 400) +
     [0, 31, 59, 90, 120, 151, 181, 212, 243, 273, 304, 334] ! nat (m - 1) + (if m > 2 \<and> leap y then 1 else 0)"

definition instant :: "civil_time \<Rightarrow> time" where
  "instant c = (((days_before (year c) (month c) + day c - 1) * 24 + hours c) * 60 + minutes c) * 60 * second + seconds c * second + nanosecond c"

definition seconds_of :: "duration \<Rightarrow> int" where
  "seconds_of x = (if x < 0 then - ((- x) div second) else x div second)"

definition truncate_second :: "civil_time \<Rightarrow> civil_time" where
  "truncate_second c = c\<lparr>nanosecond := 0\<rparr>"

definition getClock :: "'w device_deps \<Rightarrow> 'w device_handler" where
  "getClock d r vals who w =
     (if \<not> requireNoBody r then bad_request w
      else controlService d (\<lambda>sv. answer (Service_ReadClock sv (dd_context d)) (\<lambda>c.
        let now = truncate_second (dd_now d)
        in case c of
            None \<Rightarrow> write_body 200 (ClockBody None now)
          | Some t \<Rightarrow> write_body 200 (ClockBody (Some (t, seconds_of (time_sub (instant t) (instant now)))) now))) w)"

definition syncClock :: "'w device_deps \<Rightarrow> 'w device_handler" where
  "syncClock d r vals who w =
     (if \<not> requireNoBody r then bad_request w
      else let now = truncate_second (dd_now d)
           in controlService d (\<lambda>sv. answer (Service_SyncClock sv (dd_context d) now) (\<lambda>_. write_body 200 (SyncedBody now))) w)"

section \<open>Lifecycle and advanced operations\<close>

definition confirmed_request :: "request \<Rightarrow> bool" where
  "confirmed_request r \<longleftrightarrow> (case decodeJSON [''confirm''] r of
      None \<Rightarrow> False
    | Some ms \<Rightarrow> field (pointer decode_bool False) None ''confirm'' ms = Some (Some True))"

definition restart :: "'w device_deps \<Rightarrow> 'w device_handler" where
  "restart d r vals who w =
     (if \<not> requireNoBody r then bad_request w
      else controlService d (\<lambda>sv. answer (Service_Restart sv (dd_context d)) (\<lambda>_. write_body 200 (LifecycleBody ''restarting'' ''armed''))) w)"

definition shutdown :: "'w device_deps \<Rightarrow> 'w device_handler" where
  "shutdown d r vals who w =
     (if \<not> confirmed_request r then bad_request w
      else controlService d (\<lambda>sv. answer (Service_Shutdown sv (dd_context d)) (\<lambda>_. write_body 200 (LifecycleBody ''shutdown'' ''disarmed''))) w)"

definition otaMode :: "byte \<Rightarrow> string" where
  "otaMode mode = (if mode = 2 then ''ota'' else ''app'')"

definition otaInfo :: "'w device_deps \<Rightarrow> 'w device_handler" where
  "otaInfo d r vals who w =
     (if \<not> requireNoBody r then bad_request w
      else controlService d (\<lambda>sv w. case Service_OTAInfo sv (dd_context d) w of
          (w, Inl e) \<Rightarrow> (w, writeError e)
        | (w, Inr info) \<Rightarrow> (w, write_body 200 (OtaBody (otaMode (ota_mode info)) (ota_cid info)
              (case sn_device (snap_of w) of None \<Rightarrow> [] | Some i \<Rightarrow> id_bootloader_firmware i)))) w)"

definition enterOTA :: "'w device_deps \<Rightarrow> 'w device_handler" where
  "enterOTA d r vals who w =
     (if \<not> confirmed_request r then bad_request w
      else controlService d (\<lambda>sv. answer (Service_EnterOTA sv (dd_context d)) (\<lambda>_. write_body 200 (LifecycleBody ''ota'' ''bootloader''))) w)"

definition exitOTA :: "'w device_deps \<Rightarrow> 'w device_handler" where
  "exitOTA d r vals who w =
     (if \<not> requireNoBody r then bad_request w
      else controlService d (\<lambda>sv. answer (Service_ExitOTA sv (dd_context d)) (\<lambda>_. write_body 200 (LifecycleBody ''app'' ''armed''))) w)"

definition putRunningMode :: "'w device_deps \<Rightarrow> 'w device_handler" where
  "putRunningMode d r vals who w = (case decode_int_ptr ''mode'' r of
      None \<Rightarrow> bad_request w
    | Some mode \<Rightarrow>
        if mode < 0 \<or> mode > 1 then bad_request w
        else controlService d (\<lambda>sv. answer (Service_SetRunningMode sv (dd_context d) (word_of_int mode)) (\<lambda>_. write_body 200 (ModeBody mode))) w)"

definition getBarrierFree :: "'w device_deps \<Rightarrow> 'w device_handler" where
  "getBarrierFree d r vals who w =
     (if \<not> requireNoBody r then bad_request w
      else controlService d (\<lambda>sv. answer (Service_BarrierFree sv (dd_context d)) (\<lambda>b. write_body 200 (EnabledBody b))) w)"

definition putBarrierFree :: "'w device_deps \<Rightarrow> 'w device_handler" where
  "putBarrierFree d r vals who w = (case decodeJSON [''enabled''] r of
      None \<Rightarrow> bad_request w
    | Some ms \<Rightarrow> (case field (pointer decode_bool False) None ''enabled'' ms of
        Some (Some b) \<Rightarrow> controlService d (\<lambda>sv. answer (Service_SetBarrierFree sv (dd_context d) b) (\<lambda>b. write_body 200 (EnabledBody b))) w
      | _ \<Rightarrow> bad_request w))"

definition getUSBFirmware :: "'w device_deps \<Rightarrow> 'w device_handler" where
  "getUSBFirmware d r vals who w =
     (if \<not> requireNoBody r then bad_request w
      else controlService d (\<lambda>sv. answer (Service_USBFirmwareVersion sv (dd_context d)) (\<lambda>raw. case raw of
          a # b # c # _ \<Rightarrow> write_body 200 (FirmwareBody raw a b c)
        | _ \<Rightarrow> writeAPIError ''ble_operation_failed'')) w)"

definition putBLEPIN :: "'w device_deps \<Rightarrow> 'w device_handler" where
  "putBLEPIN d r vals who w = (case decodeJSON [''pin''] r of
      None \<Rightarrow> bad_request w
    | Some ms \<Rightarrow> (case field (pointer decode_string []) None ''pin'' ms of
        Some (Some pin) \<Rightarrow>
          if length pin \<noteq> 6 \<or> \<not> list_all is_digit pin then bad_request w
          else (case dd_SaveBLEPIN d of
              None \<Rightarrow> (w, writeAPIError ''internal_error'')
            | Some save \<Rightarrow> controlService d (\<lambda>sv w. case Service_SetBLEPIN sv (dd_context d) (word_of_nat (dec_val 0 pin)) w of
                  (w, Inl e) \<Rightarrow> (w, writeError e)
                | (w, Inr _) \<Rightarrow> (case save pin w of
                    (w, False) \<Rightarrow> (w, writeAPIError ''internal_error'')
                  | (w, True) \<Rightarrow> (w, write_body 200 (UpdatedBody True)))) w)
      | _ \<Rightarrow> bad_request w))"

section \<open>The table of these handlers\<close>

definition handle_device :: "'w device_deps \<Rightarrow> (endpoint \<Rightarrow> 'w device_handler) \<Rightarrow> endpoint \<Rightarrow> 'w device_handler" where
  "handle_device d other e = (case e of
      H_telemetry \<Rightarrow> telemetry | H_history \<Rightarrow> history | H_device \<Rightarrow> device d | H_setDC \<Rightarrow> setDC d | H_setTypeCOutput \<Rightarrow> setTypeCOutput d
    | H_getLimit \<Rightarrow> getLimit d | H_putLimit \<Rightarrow> putLimit d | H_deleteLimit \<Rightarrow> deleteLimit d | H_setBypass \<Rightarrow> setBypass d
    | H_getThreshold \<Rightarrow> getThreshold d | H_putThreshold \<Rightarrow> putThreshold d | H_listTimers \<Rightarrow> listTimers d | H_addTimer \<Rightarrow> addTimer d
    | H_getTimer \<Rightarrow> getTimer d | H_putTimer \<Rightarrow> putTimer d | H_deleteTimer \<Rightarrow> deleteTimer d | H_getClock \<Rightarrow> getClock d
    | H_syncClock \<Rightarrow> syncClock d | H_restart \<Rightarrow> restart d | H_shutdown \<Rightarrow> shutdown d | H_otaInfo \<Rightarrow> otaInfo d | H_enterOTA \<Rightarrow> enterOTA d
    | H_exitOTA \<Rightarrow> exitOTA d | H_putRunningMode \<Rightarrow> putRunningMode d | H_getBarrierFree \<Rightarrow> getBarrierFree d
    | H_putBarrierFree \<Rightarrow> putBarrierFree d | H_getUSBFirmware \<Rightarrow> getUSBFirmware d | H_putBLEPIN \<Rightarrow> putBLEPIN d
    | H_getUSBCLimit \<Rightarrow> getUSBCLimit d | H_setUSBCLimit \<Rightarrow> setUSBCLimit d | H_getBypassThreshold \<Rightarrow> getBypassThreshold d
    | H_setBypassThreshold \<Rightarrow> setBypassThreshold d | H_getSchedules \<Rightarrow> getSchedules d | H_postSchedule \<Rightarrow> postSchedule d
    | H_deleteSchedule \<Rightarrow> deleteSchedule d
    | _ \<Rightarrow> other e)"

section \<open>A switch reports what the device does\<close>

lemma response_status [simp]:
  "rs_status (write_body n v) = n" "rs_status aborted = 0"
  "0 < rs_status (writeAPIError c :: 'b response)" "rs_status (writeAPIError c :: 'b response) \<noteq> 200"
  using writeAPIError_status [of c, where ?'b = 'b] by (auto simp: write_body_def writeJSON_def aborted_def)

lemma writeError_status [simp]: "0 < rs_status (writeError e) \<longleftrightarrow> e \<noteq> NilDereference" "rs_status (writeError e) \<noteq> 200"
  by (cases e; simp)+

lemma FinishCommand_phase: "FinishCommand a n i phase obs err st = (st', Some c) \<Longrightarrow> cmd_phase c = phase"
  by (auto simp: FinishCommand_def Let_def split: option.splits if_splits prod.splits)

lemma finish_confirmed:
  "finish i phase obs err w = (w', Returned v c None) \<Longrightarrow> \<exists>cmd. c = Some cmd \<and> cmd_phase cmd = phase"
  by (auto simp: finish_def dest: FinishCommand_phase split: prod.splits option.splits)

lemma confirm_confirmed:
  "confirm itf ctx i kind p w = (w', Returned v c None) \<Longrightarrow> \<exists>cmd. c = Some cmd \<and> cmd_phase cmd = CommandConfirmed"
  by (auto simp: confirm_def finish_no_err Let_def dest: finish_confirmed split: prod.splits sum.splits if_splits)

lemma reconcile_confirmed:
  assumes "reconcile sv itf ctx op req kind supported issue p w = (w', Returned v c None)"
  shows "\<exists>cmd. c = Some cmd \<and> cmd_phase cmd = CommandConfirmed"
proof -
  obtain i s w1 where "issue_and_confirm itf ctx i kind s issue p w1 = (w', Returned v c None)"
    using assms by (auto simp: reconcile_def Let_def finish_no_err split: option.splits if_splits)
  then show ?thesis by (elim issue_no_err) (rule confirm_confirmed)
qed

lemma result_confirmed:
  "SetDCResult sv itf ctx on w = (w', Returned v c None) \<Longrightarrow> \<exists>cmd. c = Some cmd \<and> cmd_phase cmd = CommandConfirmed"
  "SetTypeCOutputResult sv itf ctx on w = (w', Returned v c None) \<Longrightarrow> \<exists>cmd. c = Some cmd \<and> cmd_phase cmd = CommandConfirmed"
  "SetBypassResult sv itf ctx on w = (w', Returned v c None) \<Longrightarrow> \<exists>cmd. c = Some cmd \<and> cmd_phase cmd = CommandConfirmed"
  by (auto simp: SetDCResult_def SetTypeCOutputResult_def SetBypassResult_def Let_def dest: reconcile_confirmed)

text \<open>The 200 of a switch is the result of the service.\<close>

lemma switch_ok:
  assumes "switch result body d r vals who w = (w', rs)" and "rs_status rs = 200"
    and confirmed: "\<And>sv itf ctx on w w' v c. result sv itf ctx on w = (w', Returned v c None) \<Longrightarrow> \<exists>cmd. c = Some cmd \<and> cmd_phase cmd = CommandConfirmed"
  obtains on sv v cmd where "decode_on r = Some on" "dd_DeviceControl d = Some sv"
    "result sv (dd_interference d) (dd_context d) on w = (w', Returned v (Some cmd) None)" "cmd_phase cmd = CommandConfirmed"
    "rs = write_body 200 (body v (commandFromState cmd))"
  using assms(1,2) by (fastforce simp: switch_def bad_request_def controlService_def dest: confirmed split: option.splits prod.splits outcome.splits)

text \<open>What the response of a switch endpoint promises: in this request the session accepted the command \<open>issue\<close>, and the state store
  then held telemetry that \<open>shown\<close> recognizes as the requested state, either when the wait for it began or after one of the
  publications that followed; the body has that state and the confirmed command.\<close>

definition switched ::
    "'w device_deps \<Rightarrow> request \<Rightarrow> 'w world \<Rightarrow> string \<Rightarrow> ('w Transport \<Rightarrow> bool \<Rightarrow> ('w, unit) act) \<Rightarrow> (snapshot \<Rightarrow> bool \<Rightarrow> bool) \<Rightarrow>
     (bool \<Rightarrow> commandView \<Rightarrow> device_body) \<Rightarrow> 'w world \<times> device_body response \<Rightarrow> bool" where
  "switched d r w operation issue shown body res \<longleftrightarrow> (rs_status (snd res) = 200 \<longrightarrow>
     (\<exists>on sv i t w2 x c. decode_on r = Some on \<and> dd_DeviceControl d = Some sv \<and>
        sv_newID sv (itf_begin (dd_interference d) w) = Some i \<and> sv_resolve sv (itf_begin (dd_interference d) w) = Live t \<and>
        issue t on (begun (dd_interference d) operation (AnyOn on) i w) = (w2, Inr ()) \<and>
        x \<in> set (seen_worlds (itf_publish (dd_interference d)) (itf_issued (dd_interference d) w2)) \<and> shown (snap_of x) on \<and>
        rs_body (snd res) = Value (Some (body on c)) \<and> cv_phase c = CommandConfirmed))"

definition shows_dc :: "snapshot \<Rightarrow> bool \<Rightarrow> bool" where
  "shows_dc sn on \<longleftrightarrow> (\<exists>p. sn_dc sn = Some p \<and> dc_enabled p = on)"

definition shows_bypass :: "snapshot \<Rightarrow> bool \<Rightarrow> bool" where
  "shows_bypass sn on \<longleftrightarrow> (\<exists>p. sn_dc sn = Some p \<and> dc_bypass p = on)"

definition shows_usbc :: "snapshot \<Rightarrow> bool \<Rightarrow> bool" where
  "shows_usbc sn on \<longleftrightarrow> (\<exists>p. sn_typec sn = Some p \<and> tc_mode p = (if on then 3 else 1))"

lemma switchedI:
  assumes "\<And>sv itf ctx on w w' v c. result sv itf ctx on w = (w', Returned v c None) \<Longrightarrow>
      \<exists>i t w2 x. sv_newID sv (itf_begin itf w) = Some i \<and> sv_resolve sv (itf_begin itf w) = Live t \<and>
        issue t on (begun itf operation (AnyOn on) i w) = (w2, Inr ()) \<and>
        x \<in> set (seen_worlds (itf_publish itf) (itf_issued itf w2)) \<and> shown (snap_of x) on \<and> (\<forall>cmd. body v cmd = answer_body on cmd)"
    and "\<And>sv itf ctx on w w' v c. result sv itf ctx on w = (w', Returned v c None) \<Longrightarrow> \<exists>cmd. c = Some cmd \<and> cmd_phase cmd = CommandConfirmed"
    and "\<And>on cmd. encodable (answer_body on cmd)"
  shows "switched d r w operation issue shown answer_body (switch result body d r vals who w)"
proof -
  obtain w' rs where run: "switch result body d r vals who w = (w', rs)" by force
  show ?thesis unfolding run switched_def
  proof (intro impI)
    assume "rs_status (snd (w', rs)) = 200"
    then have ok: "rs_status rs = 200" by simp
    obtain on sv v cmd where a: "decode_on r = Some on" "dd_DeviceControl d = Some sv"
      "result sv (dd_interference d) (dd_context d) on w = (w', Returned v (Some cmd) None)" "cmd_phase cmd = CommandConfirmed"
      "rs = write_body 200 (body v (commandFromState cmd))"
      by (rule switch_ok [OF run ok assms(2)])
    obtain i t w2 x where e: "sv_newID sv (itf_begin (dd_interference d) w) = Some i" "sv_resolve sv (itf_begin (dd_interference d) w) = Live t"
      "issue t on (begun (dd_interference d) operation (AnyOn on) i w) = (w2, Inr ())"
      "x \<in> set (seen_worlds (itf_publish (dd_interference d)) (itf_issued (dd_interference d) w2))" "shown (snap_of x) on"
      "\<forall>cmd. body v cmd = answer_body on cmd"
      using assms(1) [OF a(3)] by blast
    have "rs_body rs = Value (Some (answer_body on (commandFromState cmd)))" "cv_phase (commandFromState cmd) = CommandConfirmed"
      using a(4,5) e(6) assms(3) by (simp_all add: write_body_def writeJSON_def commandFromState_def)
    with a(1,2) e(1-5) show "\<exists>on sv i t w2 x c. decode_on r = Some on \<and> dd_DeviceControl d = Some sv \<and>
        sv_newID sv (itf_begin (dd_interference d) w) = Some i \<and> sv_resolve sv (itf_begin (dd_interference d) w) = Live t \<and>
        issue t on (begun (dd_interference d) operation (AnyOn on) i w) = (w2, Inr ()) \<and>
        x \<in> set (seen_worlds (itf_publish (dd_interference d)) (itf_issued (dd_interference d) w2)) \<and> shown (snap_of x) on \<and>
        rs_body (snd (w', rs)) = Value (Some (answer_body on c)) \<and> cv_phase c = CommandConfirmed" by fastforce
  qed
qed

lemma result_evidence:
  "SetDCResult sv itf ctx on w = (w', Returned v c None) \<Longrightarrow>
    \<exists>i t w2 x. sv_newID sv (itf_begin itf w) = Some i \<and> sv_resolve sv (itf_begin itf w) = Live t \<and>
      Session_DCControl t on (begun itf ''dc_output'' (AnyOn on) i w) = (w2, Inr ()) \<and>
      x \<in> set (seen_worlds (itf_publish itf) (itf_issued itf w2)) \<and> shows_dc (snap_of x) on \<and> dc_enabled (observedDC v) = on"
  "SetTypeCOutputResult sv itf ctx on w = (w', Returned v c None) \<Longrightarrow>
    \<exists>i t w2 x. sv_newID sv (itf_begin itf w) = Some i \<and> sv_resolve sv (itf_begin itf w) = Live t \<and>
      Session_TypeCOutput t on (begun itf ''usbc_output'' (AnyOn on) i w) = (w2, Inr ()) \<and>
      x \<in> set (seen_worlds (itf_publish itf) (itf_issued itf w2)) \<and> shows_usbc (snap_of x) on \<and> tc_mode (observedTypeC v) = (if on then 3 else 1)"
  "SetBypassResult sv itf ctx on w = (w', Returned v c None) \<Longrightarrow>
    \<exists>i t w2 x. sv_newID sv (itf_begin itf w) = Some i \<and> sv_resolve sv (itf_begin itf w) = Live t \<and>
      Session_BypassControl t on (begun itf ''dc_bypass'' (AnyOn on) i w) = (w2, Inr ()) \<and>
      x \<in> set (seen_worlds (itf_publish itf) (itf_issued itf w2)) \<and> shows_bypass (snap_of x) on \<and> dc_bypass (observedDC v) = on"
  unfolding SetDCResult_def SetTypeCOutputResult_def SetBypassResult_def Let_def
  by (erule reconcile_no_err; fastforce simp: shows_dc_def shows_usbc_def shows_bypass_def observedTelemetry_def observedDC_def observedTypeC_def
      split: option.splits)+

text \<open>C4. A switch endpoint tells the truth: it answers 200 only when, in this very request, the session that was live when the command began accepted
  the frame, and afterwards the telemetry in the state store showed the requested state (for the USB-C output, mode 3 for on and 1 for off);
  the body then holds that state and the command, which is confirmed.\<close>

theorem switch_endpoints_truthful:
  "switched d r w ''dc_output'' Session_DCControl shows_dc SwitchBody (setDC d r vals who w) \<and>
   switched d r w ''usbc_output'' Session_TypeCOutput shows_usbc (\<lambda>on. TypeCBody on (if on then 3 else 1)) (setTypeCOutput d r vals who w) \<and>
   switched d r w ''dc_bypass'' Session_BypassControl shows_bypass SwitchBody (setBypass d r vals who w)"
  unfolding setDC_def setTypeCOutput_def setBypass_def
  by (intro conjI switchedI; (erule result_confirmed)?) (auto dest!: result_evidence)

definition demo_device_deps :: "byte list session_ref \<Rightarrow> byte list device_deps" where
  "demo_device_deps s = \<lparr>dd_DeviceControl = Some (demo_service s), dd_Control = None, dd_interference = quiet Canceled, dd_context = background,
     dd_MagicDNSName = None, dd_now = \<lparr>year = 2026, month = 1, day = 1, hours = 0, minutes = 0, seconds = 0, weekday = 4, nanosecond = 0\<rparr>,
     dd_SaveBLEPIN = None, dd_limits = limitTypes\<rparr>"

definition demo_on :: request where
  "demo_on = \<lparr>rq_method = ''POST'', rq_path = ''/api/v1/device/dc'', rq_raw_query = [], rq_authorization = [], rq_remote_addr = [],
     rq_content_length = 11, rq_body = json_Marshal (JObj [(''on'', JBool True)])\<rparr>"

lemma demo_on_decodes: "decode_on demo_on = Some True"
proof -
  have "length (json_Marshal (JObj [(''on'', JBool True)])) = 11" by code_simp
  moreover have "wf_json (JObj [(''on'', JBool True)])" by code_simp
  moreover have "depth (JObj [(''on'', JBool True)]) \<le> 10000" by simp
  ultimately have "read_json demo_on = Some (JObj [(''on'', JBool True)])"
    by (simp add: read_json_def demo_on_def json_roundtrip del: json_Marshal.simps)
  then show ?thesis
    by (simp add: decode_on_def decodeJSON_def field_def pointer_def decode_bool_def struct_field_def)
qed

theorem switch_endpoints_truthful_witness:
  "\<exists>w' c. setDC (demo_device_deps (Live (scripted accepting))) demo_on [] None dc_reported_on =
     (w', write_body 200 (SwitchBody True c)) \<and> cv_phase c = CommandConfirmed"
proof -
  let ?d = "demo_device_deps (Live (scripted accepting))"
  obtain w' v c where r: "SetDCResult (demo_service (Live (scripted accepting))) (quiet Canceled) background True dc_reported_on = (w', Returned v c None)"
    using dc_confirmed by (auto simp: Service_SetDC_def observed_result_no_err)
  then obtain cmd where cmd: "c = Some cmd" by (auto dest: result_confirmed)
  have run: "setDC ?d demo_on [] None dc_reported_on = (w', write_body 200 (SwitchBody (dc_enabled (observedDC v)) (commandFromState cmd)))"
    using r by (simp add: setDC_def switch_def demo_on_decodes controlService_def demo_device_deps_def cmd)
  from switch_endpoints_truthful [of ?d demo_on dc_reported_on "[]" None] show ?thesis
    by (auto simp: switched_def run demo_on_decodes write_body_def writeJSON_def)
qed

section \<open>Every request is answered\<close>

text \<open>A handler answers with 200 or 201 or with an entry of the catalogue of errors; the rules follow the way the handlers are composed.\<close>

definition catalogue_error :: "'b response \<Rightarrow> bool" where
  "catalogue_error rs \<longleftrightarrow> (\<exists>(code, status, message) \<in> set errorCatalog. rs = \<lparr>rs_status = status, rs_body = ErrorBody code message\<rparr>)"

definition answered :: "'w world \<times> 'b response \<Rightarrow> bool" where
  "answered res \<longleftrightarrow> (\<exists>v. snd res = writeJSON 200 v \<or> snd res = writeJSON 201 v) \<or> catalogue_error (snd res)"

named_theorems answers

lemma writeAPIError_catalogue: "catalogue_error (writeAPIError c)"
proof (cases "map_of errorCatalog c")
  case None
  have "(''internal_error'', 500, ''Internal server error'') \<in> set errorCatalog" by (simp add: errorCatalog_def)
  with None show ?thesis by (force simp: catalogue_error_def writeAPIError_def)
next
  case (Some p)
  then have "(c, p) \<in> set errorCatalog" by (rule map_of_SomeD)
  with Some show ?thesis by (cases p) (force simp: catalogue_error_def writeAPIError_def)
qed

lemma answered_response [simp, answers]:
  "answered (w, write_body 200 v)" "answered (w, write_body 201 v)" "answered (w, writeAPIError c)" "answered (bad_request w)"
  unfolding answered_def bad_request_def write_body_def snd_conv by (blast intro: writeAPIError_catalogue)+

lemma answered_error [simp]: "e \<noteq> NilDereference \<Longrightarrow> answered (w, writeError e)"
  by (cases e) simp_all

lemma answered_service [answers]:
  assumes "\<And>sv. dd_DeviceControl d = Some sv \<Longrightarrow> answered (k sv w)"
  shows "answered (controlService d k w)"
  using assms by (auto simp: controlService_def answered_response split: option.splits)

lemma answered_answer [answers]:
  fixes w :: "'w world"
  assumes "snd (f w) \<noteq> Inl NilDereference" and "\<And>(w :: 'w world) x. answered (w, k x)"
  shows "answered (answer f k w)"
  using assms by (cases "f w") (auto simp: answer_def intro!: answered_error split: sum.splits)

lemma answered_observed [answers]:
  "answered (w, missing) \<Longrightarrow> answered (w, observed_timer 200 missing i ts)" "answered (w, missing) \<Longrightarrow> answered (w, observed_timer 201 missing i ts)"
  by (auto simp: observed_timer_def split: option.splits)

lemma invoke_no_dereference: "no_panic (m t) \<Longrightarrow> snd (invoke wrapBLE (Live t) m w) \<noteq> Inl NilDereference"
  unfolding no_panic_def by (drule spec [of _ w]) (auto simp: invoke_def wrapBLE_def split: sum.splits prod.splits if_splits)

lemma answered_session [answers]:
  assumes "\<And>resolve w. dd_Control d = Some resolve \<Longrightarrow> proper_session (resolve w)"
    and "\<And>t. sane t \<Longrightarrow> answered (k (Live t) w)"
  shows "answered (ctl d k w)"
proof (cases "dd_Control d")
  case (Some resolve)
  then show ?thesis using assms(1) [of resolve w] assms(2) by (cases "resolve w") (auto simp: ctl_def answered_response)
qed (simp add: ctl_def answered_response)

lemma answered_session_answer [answers]:
  fixes w :: "'w world"
  assumes "no_panic (m t)" and "\<And>(w :: 'w world) x. answered (w, k x)"
  shows "answered (session_answer (Live t) m k w)"
  using invoke_no_dereference [of m t w] assms(1)
  by (auto simp: session_answer_def assms(2) split: prod.splits sum.splits ctl_error.splits)

lemma read_limits_no_dereference:
  assumes "\<And>ty w. snd (get ty w) \<noteq> Inl NilDereference"
  shows "snd (read_limits get ts w) \<noteq> Inl NilDereference"
proof (induction ts arbitrary: w)
  case (Cons t ts)
  show ?case using assms Cons by (cases t) (auto split: prod.splits sum.splits; metis snd_conv)
qed simp

definition returns :: "'w world \<times> outcome \<Rightarrow> bool" where
  "returns res \<longleftrightarrow> (case snd res of Panicked \<Rightarrow> False | Returned v c e \<Rightarrow> e \<noteq> Some NilDereference)"

lemma finish_returns: "err \<noteq> Some NilDereference \<Longrightarrow> returns (finish i phase obs err w)"
  by (auto simp: finish_def returns_def split: prod.splits option.splits)

lemma issue_returns:
  assumes "no_panic (issue t)"
  shows "returns (issue_and_confirm itf ctx i kind (Live t) issue p w)"
proof -
  have "returns (confirm itf ctx i kind p w)" for w
    by (auto simp: confirm_def Let_def finish_returns split: prod.splits sum.splits)
  moreover obtain w1 r where "invoke wrapBLE (Live t) issue w = (w1, r)" by force
  moreover from this have "r \<noteq> Inl NilDereference" using invoke_no_dereference [of issue t w] assms by simp
  ultimately show ?thesis
    by (cases r) (auto simp: issue_and_confirm_def Let_def finish_returns split: option.splits)
qed

lemma reconcile_returns:
  assumes "proper_session (sv_resolve sv (itf_begin itf w))" and "\<And>t. sane t \<Longrightarrow> no_panic (issue t)"
  shows "returns (reconcile sv itf ctx op req kind supported issue p w)"
proof -
  have early: "returns (w, Returned v c (Some (ErrContext e)))" "returns (w, Returned v c (Some (ErrInternal m)))" for w :: "'a world" and v c e m
    by (simp_all add: returns_def)
  show ?thesis
    using assms by (cases "sv_resolve sv (itf_begin itf w)") (auto simp: reconcile_def Let_def early finish_returns issue_returns split: option.splits)
qed

lemma answered_switch [answers]:
  assumes "\<And>sv on. dd_DeviceControl d = Some sv \<Longrightarrow> returns (result sv (dd_interference d) (dd_context d) on w)"
  shows "answered (switch result body d r vals who w)"
proof (cases "decode_on r")
  case (Some on)
  show ?thesis unfolding switch_def Some option.case
  proof (rule answered_service)
    fix sv assume "dd_DeviceControl d = Some sv"
    from assms [OF this, of on] show "answered (case result sv (dd_interference d) (dd_context d) on w of
        (w, Panicked) \<Rightarrow> (w, aborted)
      | (w, Returned v c (Some e)) \<Rightarrow> (w, writeError e)
      | (w, Returned v None None) \<Rightarrow> (w, write_body 200 (body v (commandFromState
            \<lparr>cmd_id = [], cmd_operation = [], cmd_phase = [], cmd_requested = AnyNil, cmd_observed = AnyNil, cmd_started_at = 0,
             cmd_updated_at = 0, cmd_error = None\<rparr>)))
      | (w, Returned v (Some c) None) \<Rightarrow> (w, write_body 200 (body v (commandFromState c))))"
      by (auto simp: returns_def split: prod.splits outcome.splits option.splits)
  qed
qed (simp add: switch_def answers)

lemma answered_switches:
  assumes "\<And>sv w. dd_DeviceControl d = Some sv \<Longrightarrow> proper_session (sv_resolve sv w)"
  shows "answered (setDC d r vals who w)" "answered (setTypeCOutput d r vals who w)" "answered (setBypass d r vals who w)"
  unfolding setDC_def setTypeCOutput_def setBypass_def
  by (intro answers; simp add: SetDCResult_def SetTypeCOutputResult_def SetBypassResult_def Let_def reconcile_returns switch_no_panic assms)+

text \<open>The operations of the service, as the handlers call them.\<close>

lemmas service_returns =
  then_ctx_no_dereference g_threshold.no_dereference g_put_threshold.no_dereference g_barrier.no_dereference
  g_set_barrier.no_dereference g_mode.no_dereference g_firmware.no_dereference g_pin.no_dereference g_clock.no_dereference
  g_sync.no_dereference g_ota.no_dereference g_enter.no_dereference g_exit.no_dereference g_limit.no_dereference
  g_put_limit.no_dereference g_del_limit.no_dereference g_list.no_dereference g_get_timer.no_dereference
  g_add_timer.no_dereference g_put_timer.no_dereference g_del_timer.no_dereference g_restart.no_dereference g_shutdown.no_dereference

lemma lifecycle_returns:
  "proper_session (sv_resolve sv w) \<Longrightarrow> snd (Service_Restart sv ctx w) \<noteq> Inl NilDereference"
  "proper_session (sv_resolve sv w) \<Longrightarrow> snd (Service_Shutdown sv ctx w) \<noteq> Inl NilDereference"
  unfolding Service_Restart_def Service_Shutdown_def by (intro service_returns; assumption)+

lemma answered_plain:
  "answered (telemetry r vals who w)" "answered (history r vals who w)" "answered (device d r vals who w)"
  by (simp_all add: telemetry_def history_def device_def Let_def answers)

lemma answered_limits:
  assumes "\<And>sv w. dd_DeviceControl d = Some sv \<Longrightarrow> proper_session (sv_resolve sv w)"
  shows "answered (getLimit d r vals who w)" "answered (putLimit d r vals who w)" "answered (deleteLimit d r vals who w)"
  by (auto simp: getLimit_def putLimit_def deleteLimit_def Let_def intro!: answers service_returns assms split: option.splits)

lemma answered_timers:
  assumes "\<And>sv w. dd_DeviceControl d = Some sv \<Longrightarrow> proper_session (sv_resolve sv w)"
  shows "answered (listTimers d r vals who w)" "answered (addTimer d r vals who w)" "answered (getTimer d r vals who w)"
    "answered (putTimer d r vals who w)" "answered (deleteTimer d r vals who w)" "answered (postSchedule d r vals who w)"
    "answered (deleteSchedule d r vals who w)"
  by (auto simp: listTimers_def addTimer_def getTimer_def putTimer_def deleteTimer_def postSchedule_def deleteSchedule_def
      intro!: answers service_returns assms split: option.splits)

lemma older_no_panic:
  assumes "sane t"
  shows "no_panic (BypassThreshold t)" "no_panic (SetBypassThreshold t volts)" "no_panic (ClearUSBCLimit t typ)"
    "no_panic (SetUSBCLimit t typ level)" "no_panic (USBCLimit t typ)"
  using assms unfolding BypassThreshold_def SetBypassThreshold_def ClearUSBCLimit_def SetUSBCLimit_def USBCLimit_def GetUSBCLimit_def
  by (auto intro: no_panic_limits no_panic_command no_panic_getUSBCLimit)

lemma answered_older:
  assumes "\<And>sv w. dd_DeviceControl d = Some sv \<Longrightarrow> proper_session (sv_resolve sv w)"
    and "\<And>resolve w. dd_Control d = Some resolve \<Longrightarrow> proper_session (resolve w)"
  shows "answered (getBypassThreshold d r vals who w)" "answered (setBypassThreshold d r vals who w)" "answered (setUSBCLimit d r vals who w)"
  using assms(2) by (auto simp: getBypassThreshold_def setBypassThreshold_def setUSBCLimit_def Let_def
      intro!: answers service_returns assms(1) older_no_panic split: option.splits)

lemma answered_usbc_limits:
  assumes "\<And>sv w. dd_DeviceControl d = Some sv \<Longrightarrow> proper_session (sv_resolve sv w)"
    and "\<And>resolve w. dd_Control d = Some resolve \<Longrightarrow> proper_session (resolve w)"
  shows "answered (getUSBCLimit d r vals who w)"
proof (cases "dd_DeviceControl d")
  case None
  show ?thesis unfolding getUSBCLimit_def None option.case
  proof (rule answered_session)
    show "proper_session (resolve w)" if "dd_Control d = Some resolve" for resolve and w :: "'a world" using that by (rule assms(2))
  next
    fix t :: "'a Transport"
    assume "sane t"
    then have "snd (read_limits (\<lambda>ty. invoke wrapBLE (Live t) (\<lambda>t. USBCLimit t ty)) (dd_limits d) w) \<noteq> Inl NilDereference" for w
      by (intro read_limits_no_dereference invoke_no_dereference older_no_panic)
    from this [of w] show "answered (case read_limits (\<lambda>ty. invoke wrapBLE (Live t) (\<lambda>t. USBCLimit t ty)) (dd_limits d) w of
        (w, Inl NilDereference) \<Rightarrow> (w, aborted)
      | (w, Inl _) \<Rightarrow> (w, writeAPIError ''ble_operation_failed'')
      | (w, Inr out) \<Rightarrow> (w, write_body 200 (LimitsBody out)))"
      by (auto split: prod.splits sum.splits ctl_error.splits)
  qed
next
  case (Some sv)
  then show ?thesis
    by (auto simp: getUSBCLimit_def intro!: answers read_limits_no_dereference service_returns assms(1))
qed

lemma answered_advanced:
  assumes "\<And>sv w. dd_DeviceControl d = Some sv \<Longrightarrow> proper_session (sv_resolve sv w)"
  shows "answered (getThreshold d r vals who w)" "answered (putThreshold d r vals who w)" "answered (getClock d r vals who w)"
    "answered (syncClock d r vals who w)" "answered (restart d r vals who w)" "answered (shutdown d r vals who w)"
    "answered (enterOTA d r vals who w)" "answered (exitOTA d r vals who w)" "answered (putRunningMode d r vals who w)"
    "answered (getBarrierFree d r vals who w)" "answered (putBarrierFree d r vals who w)" "answered (getUSBFirmware d r vals who w)"
  by (auto simp: getThreshold_def putThreshold_def getClock_def syncClock_def restart_def shutdown_def enterOTA_def exitOTA_def putRunningMode_def
      getBarrierFree_def putBarrierFree_def getUSBFirmware_def Let_def
      intro!: answers service_returns lifecycle_returns assms split: option.splits list.splits)

lemma answered_ota:
  assumes "\<And>sv w. dd_DeviceControl d = Some sv \<Longrightarrow> proper_session (sv_resolve sv w)"
  shows "answered (otaInfo d r vals who w)"
proof -
  have "x \<noteq> NilDereference" if "dd_DeviceControl d = Some sv" "Service_OTAInfo sv ctx w = (w', Inl x)" for sv ctx w w' x
    using g_ota.no_dereference [OF assms [OF that(1)], of ctx w] that(2) by simp
  then show ?thesis unfolding otaInfo_def
    by (auto intro!: answers split: prod.splits sum.splits)
qed

lemma answered_pin:
  assumes "\<And>sv w. dd_DeviceControl d = Some sv \<Longrightarrow> proper_session (sv_resolve sv w)"
  shows "answered (putBLEPIN d r vals who w)"
proof -
  have "x \<noteq> NilDereference" if "dd_DeviceControl d = Some sv" "Service_SetBLEPIN sv ctx pin w = (w', Inl x)" for sv ctx pin w w' x
    using g_pin.no_dereference [OF assms [OF that(1)], of ctx pin w] that(2) by simp
  then show ?thesis unfolding putBLEPIN_def
    by (auto intro!: answers split: prod.splits sum.splits option.splits bool.splits)
qed

text \<open>Resolvers that return either no session or a live one, never a nil pointer in an interface. (For what a nil pointer does see
  the theory of the control service.)\<close>

definition proper_deps :: "'w device_deps \<Rightarrow> bool" where
  "proper_deps d \<longleftrightarrow> (\<forall>sv w. dd_DeviceControl d = Some sv \<longrightarrow> proper_session (sv_resolve sv w)) \<and>
     (\<forall>resolve w. dd_Control d = Some resolve \<longrightarrow> proper_session (resolve w))"

text \<open>C5. No request to the device is left without an answer: with such resolvers every handler of the device answers every
  request, whatever its body and the device's replies are, with 200 or 201 and a value (an empty body when the encoder refuses the
  value) or with an entry of the catalogue of errors, its own status and message; none of them panics, provided that the handler
  of the endpoints that are not the device's answers its own requests so.\<close>

theorem device_requests_answered:
  assumes "proper_deps d" and "answered (other e r vals who w)"
  shows "answered (handle_device d other e r vals who w)"
proof -
  have p: "\<And>sv w. dd_DeviceControl d = Some sv \<Longrightarrow> proper_session (sv_resolve sv w)" using assms(1) by (simp add: proper_deps_def)
  have "answered (getBypassThreshold d r vals who w)" "answered (setBypassThreshold d r vals who w)" "answered (setUSBCLimit d r vals who w)"
    "answered (getUSBCLimit d r vals who w)"
    using assms(1) by (auto simp: proper_deps_def intro!: answered_older answered_usbc_limits)
  then show ?thesis
    using answered_plain answered_switches [OF p] answered_limits [OF p] answered_timers [OF p] answered_advanced [OF p] answered_ota [OF p]
      answered_pin [OF p] assms(2)
    by (cases e) (simp_all only: handle_device_def endpoint.case getSchedules_def)
qed

theorem device_requests_answered_witness:
  "answered (handle_device (demo_device_deps (Live (scripted (\<lambda>_. [])))) (\<lambda>_ _ _ _ w. bad_request w) H_listTimers
     (demo_on\<lparr>rq_body := []\<rparr>) [] None demo_world)"
proof (rule device_requests_answered)
  show "proper_deps (demo_device_deps (Live (scripted (\<lambda>_. []))))"
    by (simp add: proper_deps_def demo_device_deps_def demo_service_def sane_scripted)
qed (rule answers)

end
