(* ===== verification/Listeners.thy ===== *)
theory Listeners
  imports GoText
begin

text \<open>
  The listeners of the API, \<^verbatim>\<open>internal/server/listeners.go\<close>: \<^verbatim>\<open>Start\<close> binds every configured address or none, the servers run until
  one fails or the group is shut down, and \<^verbatim>\<open>Shutdown\<close> runs once. Sockets are numbers; which binds the
  operating system refuses, which key pairs load and what the shutdown of a server returns are parameters.
\<close>

section \<open>Configuration and sockets\<close>

record Endpoint =
  ep_enabled :: bool
  ep_addr4 :: string
  ep_addr6 :: string
  ep_port :: int

record ListenerConfig =
  lc_HTTP :: Endpoint
  lc_HTTPS :: Endpoint
  lc_cert :: string
  lc_key :: string

record address =
  ad_network :: string
  ad_host :: string
  ad_port :: int

text \<open>A socket: its address, and whether it is closed.\<close>

record net =
  nt_sockets :: "(nat \<times> address) list"
  nt_next :: nat

datatype listen_error = HandlerNil | NoEndpoint | InvalidPort string | NoAddress string | LoadKeyPair | BindFailed string string

definition validateEndpoint :: "string \<Rightarrow> Endpoint \<Rightarrow> listen_error option" where
  "validateEndpoint name ep =
     (if \<not> ep_enabled ep then None
      else if ep_port ep < 1 \<or> ep_port ep > 65535 then Some (InvalidPort name)
      else if ep_addr4 ep = [] \<and> ep_addr6 ep = [] then Some (NoAddress name)
      else None)"

text \<open>\<^verbatim>\<open>listen\<close>: the system may refuse the address; a socket for \<^verbatim>\<open>tcp6\<close> does not take IPv4 connections.\<close>

definition listen :: "(address \<Rightarrow> nat \<Rightarrow> bool) \<Rightarrow> address \<Rightarrow> net \<Rightarrow> net \<times> nat option" where
  "listen refused a n = (if refused a (nt_next n) then (n, None)
     else (n\<lparr>nt_sockets := nt_sockets n @ [(nt_next n, a)], nt_next := Suc (nt_next n)\<rparr>, Some (nt_next n)))"

definition close_listener :: "nat \<Rightarrow> net \<Rightarrow> net" where
  "close_listener i n = n\<lparr>nt_sockets := filter (\<lambda>(j, _). j \<noteq> i) (nt_sockets n)\<rparr>"

record pending =
  pd_listener :: nat
  pd_tls :: bool

definition closeOpened :: "pending list \<Rightarrow> net \<Rightarrow> net" where
  "closeOpened opened n = fold (\<lambda>item. close_listener (pd_listener item)) opened n"

section \<open>Start\<close>

text \<open>The inner loop over the two address families, and the outer one over the two endpoints.\<close>

fun open_addresses ::
    "(address \<Rightarrow> nat \<Rightarrow> bool) \<Rightarrow> string \<Rightarrow> bool \<Rightarrow> address list \<Rightarrow> pending list \<Rightarrow> net \<Rightarrow> net \<times> (listen_error + pending list)" where
  "open_addresses refused name secure [] opened n = (n, Inr opened)"
| "open_addresses refused name secure (a # as) opened n =
     (if ad_host a = [] then open_addresses refused name secure as opened n
      else case listen refused a n of
          (n, None) \<Rightarrow> (closeOpened opened n, Inl (BindFailed name (ad_network a)))
        | (n, Some i) \<Rightarrow> open_addresses refused name secure as (opened @ [\<lparr>pd_listener = i, pd_tls = secure\<rparr>]) n)"

definition addresses :: "Endpoint \<Rightarrow> address list" where
  "addresses ep = [\<lparr>ad_network = ''tcp4'', ad_host = ep_addr4 ep, ad_port = ep_port ep\<rparr>,
     \<lparr>ad_network = ''tcp6'', ad_host = ep_addr6 ep, ad_port = ep_port ep\<rparr>]"

fun open_specs ::
    "(address \<Rightarrow> nat \<Rightarrow> bool) \<Rightarrow> (string \<times> Endpoint \<times> bool) list \<Rightarrow> pending list \<Rightarrow> net \<Rightarrow> net \<times> (listen_error + pending list)" where
  "open_specs refused [] opened n = (n, Inr opened)"
| "open_specs refused ((name, ep, secure) # specs) opened n =
     (if \<not> ep_enabled ep then open_specs refused specs opened n
      else case open_addresses refused name secure (addresses ep) opened n of
          (n, Inl e) \<Rightarrow> (n, Inl e)
        | (n, Inr opened) \<Rightarrow> open_specs refused specs opened n)"

text \<open>A server is serving, has ended with an error, or was told to close. The buffer of \<^verbatim>\<open>errs\<close> has a place for each server.\<close>

datatype serving = Serving | Ended

record Group =
  gr_net :: net
  gr_servers :: "(pending \<times> serving) list"
  gr_errs :: "string list"
  gr_capacity :: nat
  gr_done :: bool
  gr_once :: bool
  gr_shutdownErr :: "string option"
  gr_watching :: bool

definition Start :: "(address \<Rightarrow> nat \<Rightarrow> bool) \<Rightarrow> (string \<Rightarrow> string \<Rightarrow> bool) \<Rightarrow> ListenerConfig \<Rightarrow> bool \<Rightarrow> net \<Rightarrow> net \<times> (listen_error + Group)" where
  "Start refused loads cfg handler n =
     (if \<not> handler then (n, Inl HandlerNil)
      else if \<not> ep_enabled (lc_HTTP cfg) \<and> \<not> ep_enabled (lc_HTTPS cfg) then (n, Inl NoEndpoint)
      else case validateEndpoint ''HTTP'' (lc_HTTP cfg) of Some e \<Rightarrow> (n, Inl e)
      | None \<Rightarrow> (case validateEndpoint ''HTTPS'' (lc_HTTPS cfg) of Some e \<Rightarrow> (n, Inl e)
      | None \<Rightarrow>
          if ep_enabled (lc_HTTPS cfg) \<and> \<not> loads (lc_cert cfg) (lc_key cfg) then (n, Inl LoadKeyPair)
          else case open_specs refused [(''HTTP'', lc_HTTP cfg, False), (''HTTPS'', lc_HTTPS cfg, True)] [] n of
              (n, Inl e) \<Rightarrow> (n, Inl e)
            | (n, Inr opened) \<Rightarrow> (n, Inr \<lparr>gr_net = n, gr_servers = map (\<lambda>p. (p, Serving)) opened, gr_errs = [], gr_capacity = length opened,
                gr_done = False, gr_once = False, gr_shutdownErr = None, gr_watching = True\<rparr>)))"

section \<open>The running group\<close>

text \<open>\<^verbatim>\<open>Shutdown\<close> inside \<^verbatim>\<open>once\<close>: every server is shut down, its own closing included, whatever the others return; the first error is kept.\<close>

definition shutdown_servers :: "(nat \<Rightarrow> string option) \<Rightarrow> Group \<Rightarrow> Group" where
  "shutdown_servers result g = fold (\<lambda>(p, _) g. case result (pd_listener p) of
      None \<Rightarrow> g
    | Some e \<Rightarrow> if gr_shutdownErr g = None then g\<lparr>gr_shutdownErr := Some e\<rparr> else g) (gr_servers g)
     (g\<lparr>gr_servers := map (\<lambda>(p, _). (p, Ended)) (gr_servers g)\<rparr>)"

definition close_listeners :: "Group \<Rightarrow> Group" where
  "close_listeners g = g\<lparr>gr_net := fold (\<lambda>(p, _). close_listener (pd_listener p)) (gr_servers g) (gr_net g)\<rparr>"

definition Group_Shutdown :: "(nat \<Rightarrow> string option) \<Rightarrow> Group \<Rightarrow> Group \<times> string option" where
  "Group_Shutdown result g =
     (let g = (if gr_once g then g else (close_listeners (shutdown_servers result g))\<lparr>gr_done := True, gr_once := True\<rparr>)
      in (g, gr_shutdownErr g))"

text \<open>The goroutine of a server: \<^verbatim>\<open>Serve\<close> closes its listener when it returns, and an error that is not the closing of the server goes
  into the buffer if there is room.\<close>

definition serve_failed :: "nat \<Rightarrow> string \<Rightarrow> Group \<Rightarrow> Group" where
  "serve_failed k e g =
     (let g = g\<lparr>gr_servers := (gr_servers g)[k := (fst (gr_servers g ! k), Ended)],
            gr_net := close_listener (pd_listener (fst (gr_servers g ! k))) (gr_net g)\<rparr>
      in if length (gr_errs g) < gr_capacity g then g\<lparr>gr_errs := gr_errs g @ [e]\<rparr> else g)"

text \<open>What can happen to a group: a server fails, somebody takes an error, somebody calls \<^verbatim>\<open>Shutdown\<close>, the watching goroutine
  does so after the end of the context, or it leaves when the group is done. The history keeps the errors that
  happened and those that were received.\<close>

record history =
  hi_failed :: "string list"
  hi_received :: "string list"

inductive group_step :: "Group \<times> history \<Rightarrow> Group \<times> history \<Rightarrow> bool" where
  fails: "k < length (gr_servers g) \<Longrightarrow> snd (gr_servers g ! k) = Serving \<Longrightarrow>
    group_step (g, h) (serve_failed k e g, h\<lparr>hi_failed := hi_failed h @ [e]\<rparr>)"
| receives: "gr_errs g = e # es \<Longrightarrow> group_step (g, h) (g\<lparr>gr_errs := es\<rparr>, h\<lparr>hi_received := hi_received h @ [e]\<rparr>)"
| shuts_down: "group_step (g, h) (fst (Group_Shutdown result g), h)"
| context_done: "gr_watching g \<Longrightarrow> group_step (g, h) ((fst (Group_Shutdown result g))\<lparr>gr_watching := False\<rparr>, h)"
| leaves: "gr_watching g \<Longrightarrow> gr_done g \<Longrightarrow> group_step (g, h) (g\<lparr>gr_watching := False\<rparr>, h)"

inductive_cases group_stepE: "group_step s s'"

inductive group_reach :: "Group \<times> history \<Rightarrow> Group \<times> history \<Rightarrow> bool" where
  start: "group_reach s s"
| step: "group_reach s0 s \<Longrightarrow> group_step s s' \<Longrightarrow> group_reach s0 s'"

section \<open>All or nothing\<close>

text \<open>The addresses a configuration asks for, in the order of the loops, each with the flag for TLS.\<close>

definition wanted :: "ListenerConfig \<Rightarrow> (address \<times> bool) list" where
  "wanted cfg = concat (map (\<lambda>(ep, secure). if ep_enabled ep then map (\<lambda>a. (a, secure)) (filter (\<lambda>a. ad_host a \<noteq> []) (addresses ep)) else [])
     [(lc_HTTP cfg, False), (lc_HTTPS cfg, True)])"

definition fresh_net :: "net \<Rightarrow> bool" where
  "fresh_net n \<longleftrightarrow> (\<forall>(i, a) \<in> set (nt_sockets n). i < nt_next n)"

text \<open>The sockets after some of the addresses \<open>as\<close> were bound.\<close>

definition bound :: "net \<Rightarrow> (address \<times> bool) list \<Rightarrow> pending list \<Rightarrow> net \<Rightarrow> bool" where
  "bound n0 as opened n \<longleftrightarrow> fresh_net n0 \<and> map pd_tls opened = map snd as \<and> map pd_listener opened = [nt_next n0..<nt_next n] \<and>
     nt_sockets n = nt_sockets n0 @ zip (map pd_listener opened) (map fst as) \<and> nt_next n0 \<le> nt_next n"

lemma bound_length: "bound n0 as opened n \<Longrightarrow> length as = length opened"
  unfolding bound_def by (metis length_map)

lemma close_sockets: "nt_sockets (closeOpened opened n) = filter (\<lambda>(j, _). j \<notin> pd_listener ` set opened) (nt_sockets n)"
  unfolding closeOpened_def
proof (induction opened arbitrary: n)
  case (Cons p opened)
  then show ?case by (auto simp: close_listener_def intro!: filter_cong)
qed simp

lemma close_bound:
  assumes "bound n0 as opened n"
  shows "nt_sockets (closeOpened opened n) = nt_sockets n0"
proof -
  have ids: "pd_listener ` set opened = {nt_next n0..<nt_next n}"
    using assms unfolding bound_def by (metis list.set_map set_upt)
  have "filter (\<lambda>(j, _). j \<notin> pd_listener ` set opened) (nt_sockets n0) = nt_sockets n0"
    using assms by (intro filter_True) (auto simp: ids bound_def fresh_net_def)
  moreover have "filter (\<lambda>(j, _). j \<notin> pd_listener ` set opened) (zip (map pd_listener opened) (map fst as)) = []"
    by (auto simp: filter_empty_conv dest: set_zip_leftD)
  ultimately show ?thesis using assms by (simp add: close_sockets bound_def)
qed

lemma bound_listen:
  assumes "bound n0 as opened n" and "listen refused a n = (n', Some i)"
  shows "bound n0 (as @ [(a, secure)]) (opened @ [\<lparr>pd_listener = i, pd_tls = secure\<rparr>]) n'"
proof -
  have "length opened = nt_next n - nt_next n0" using assms(1) unfolding bound_def by (metis length_map length_upt)
  then show ?thesis using assms bound_length [OF assms(1)] by (auto simp: bound_def listen_def split: if_splits)
qed

lemma listen_refused: "listen refused a n = (n', None) \<Longrightarrow> n' = n"
  by (auto simp: listen_def split: if_splits)

lemma open_addresses_bound:
  assumes "bound n0 as opened n" and "open_addresses refused name secure bs opened n = (n', r)"
  shows "case r of Inl _ \<Rightarrow> nt_sockets n' = nt_sockets n0
    | Inr opened' \<Rightarrow> bound n0 (as @ map (\<lambda>a. (a, secure)) (filter (\<lambda>a. ad_host a \<noteq> []) bs)) opened' n'"
  using assms
proof (induction bs arbitrary: as opened n)
  case (Cons b bs)
  show ?case
  proof (cases "ad_host b = []")
    case False
    obtain n1 i where l: "listen refused b n = (n1, i)" by force
    show ?thesis
    proof (cases i)
      case None
      with Cons.prems False l listen_refused [of refused b n n1] show ?thesis by (auto simp: close_bound)
    next
      case (Some i)
      with Cons.prems(2) False l have "open_addresses refused name secure bs (opened @ [\<lparr>pd_listener = i, pd_tls = secure\<rparr>]) n1 = (n', r)" by simp
      from Cons.IH [OF bound_listen [OF Cons.prems(1), of refused b n1 i secure] this] l Some False show ?thesis by (cases r) simp_all
    qed
  next
    case True
    with Cons show ?thesis by (cases r) fastforce+
  qed
qed (auto split: sum.splits)

lemma open_specs_bound:
  assumes "bound n0 as opened n" and "open_specs refused specs opened n = (n', r)"
  shows "case r of Inl _ \<Rightarrow> nt_sockets n' = nt_sockets n0
    | Inr opened' \<Rightarrow> bound n0 (as @ concat (map (\<lambda>(name, ep, secure). if ep_enabled ep
          then map (\<lambda>a. (a, secure)) (filter (\<lambda>a. ad_host a \<noteq> []) (addresses ep)) else []) specs)) opened' n'"
  using assms
proof (induction specs arbitrary: as opened n)
  case (Cons spec specs)
  obtain name ep secure where spec: "spec = (name, ep, secure)" by (cases spec) auto
  show ?case
  proof (cases "ep_enabled ep")
    case True
    obtain n1 x where o: "open_addresses refused name secure (addresses ep) opened n = (n1, x)" by force
    show ?thesis
    proof (cases x)
      case (Inr opened')
      with open_addresses_bound [OF Cons.prems(1) o]
      have b: "bound n0 (as @ map (\<lambda>a. (a, secure)) (filter (\<lambda>a. ad_host a \<noteq> []) (addresses ep))) opened' n1" by simp
      have "open_specs refused specs opened' n1 = (n', r)" using Cons.prems(2) Inr True by (simp add: spec o)
      from Cons.IH [OF b this] True show ?thesis by (cases r) (simp_all add: spec)
    qed (use open_addresses_bound [OF Cons.prems(1) o] Cons.prems(2) True in \<open>auto simp: spec o\<close>)
  next
    case False
    with Cons show ?thesis by (cases r) (fastforce simp: spec)+
  qed
qed (auto split: sum.splits)

definition specs :: "ListenerConfig \<Rightarrow> (string \<times> Endpoint \<times> bool) list" where
  "specs cfg = [(''HTTP'', lc_HTTP cfg, False), (''HTTPS'', lc_HTTPS cfg, True)]"

lemma Start_cases:
  assumes "Start refused loads cfg handler n = (n', r)"
  obtains e where "r = Inl e" "n' = n" | e where "r = Inl e" "open_specs refused (specs cfg) [] n = (n', Inl e)"
  | opened where "open_specs refused (specs cfg) [] n = (n', Inr opened)" "wanted cfg \<noteq> []"
    "r = Inr \<lparr>gr_net = n', gr_servers = map (\<lambda>p. (p, Serving)) opened, gr_errs = [], gr_capacity = length opened,
       gr_done = False, gr_once = False, gr_shutdownErr = None, gr_watching = True\<rparr>"
proof -
  have w: "wanted cfg \<noteq> []" if "validateEndpoint ''HTTP'' (lc_HTTP cfg) = None" "validateEndpoint ''HTTPS'' (lc_HTTPS cfg) = None"
      "ep_enabled (lc_HTTP cfg) \<or> ep_enabled (lc_HTTPS cfg)"
    using that by (auto simp: wanted_def addresses_def validateEndpoint_def split: if_splits)
  obtain n1 x where o: "open_specs refused (specs cfg) [] n = (n1, x)" by force
  show thesis
    using assms that w unfolding Start_def specs_def [symmetric] o by (cases x) (auto simp: o split: if_splits option.splits)
qed

lemma start_shape:
  assumes "fresh_net n" and "Start refused loads cfg handler n = (n', r)"
  shows "case r of
      Inl e \<Rightarrow> nt_sockets n' = nt_sockets n
    | Inr g \<Rightarrow> gr_net g = n' \<and> wanted cfg \<noteq> [] \<and> map (pd_tls \<circ> fst) (gr_servers g) = map snd (wanted cfg) \<and>
        nt_sockets n' = nt_sockets n @ zip (map (pd_listener \<circ> fst) (gr_servers g)) (map fst (wanted cfg)) \<and>
        distinct (map (pd_listener \<circ> fst) (gr_servers g)) \<and> (\<forall>(p, _) \<in> set (gr_servers g). pd_listener p \<notin> fst ` set (nt_sockets n))"
proof -
  have n: "bound n [] [] n" using assms(1) by (simp add: bound_def)
  from assms(2) show ?thesis
  proof (cases rule: Start_cases)
    case (2 e)
    with open_specs_bound [OF n 2(2)] show ?thesis by simp
  next
    case (3 opened)
    from open_specs_bound [OF n 3(1)] have b: "bound n (wanted cfg) opened n'" by (simp add: wanted_def specs_def)
    then have ids: "map pd_listener opened = [nt_next n..<nt_next n']" by (simp add: bound_def)
    then have "set (map pd_listener opened) = {nt_next n..<nt_next n'}" by (simp only: set_upt)
    then have "nt_next n \<le> pd_listener p" if "p \<in> set opened" for p using that by (auto simp: set_eq_iff)
    moreover have "i < nt_next n" if "i \<in> fst ` set (nt_sockets n)" for i using assms(1) that by (auto simp: fresh_net_def)
    ultimately have new: "pd_listener p \<notin> fst ` set (nt_sockets n)" if "p \<in> set opened" for p using that not_less by blast
    have d: "distinct (map pd_listener opened)" unfolding ids by simp
    from b have f: "map pd_tls opened = map snd (wanted cfg)" "nt_sockets n' = nt_sockets n @ zip (map pd_listener opened) (map fst (wanted cfg))"
      by (simp_all only: bound_def)
    show ?thesis unfolding 3(3) using 3(2) f d new by (simp add: comp_def split_beta)
  qed simp
qed

text \<open>C7. Starting is all or nothing: when \<^verbatim>\<open>Start\<close> returns an error, whichever check or bind failed, no socket it opened is left open;
  when it returns a group, there is a server for each non-empty address of each enabled endpoint and at least
  one, its socket is bound to that address, and exactly the servers of the HTTPS endpoint speak TLS.\<close>

theorem start_all_or_nothing:
  assumes "fresh_net n" and "Start refused loads cfg handler n = (n', r)"
  shows "case r of
      Inl e \<Rightarrow> nt_sockets n' = nt_sockets n
    | Inr g \<Rightarrow> gr_net g = n' \<and> wanted cfg \<noteq> [] \<and> map (pd_tls \<circ> fst) (gr_servers g) = map snd (wanted cfg) \<and>
        nt_sockets n' = nt_sockets n @ zip (map (pd_listener \<circ> fst) (gr_servers g)) (map fst (wanted cfg)) \<and>
        distinct (map (pd_listener \<circ> fst) (gr_servers g)) \<and> (\<forall>(p, _) \<in> set (gr_servers g). pd_listener p \<notin> fst ` set (nt_sockets n))"
  using assms by (rule start_shape)

definition demo_cfg :: ListenerConfig where
  "demo_cfg = \<lparr>lc_HTTP = \<lparr>ep_enabled = True, ep_addr4 = ''0.0.0.0'', ep_addr6 = '':'' @ '':'', ep_port = 8377\<rparr>,
     lc_HTTPS = \<lparr>ep_enabled = True, ep_addr4 = ''0.0.0.0'', ep_addr6 = [], ep_port = 8378\<rparr>, lc_cert = ''/c'', lc_key = ''/k''\<rparr>"

text \<open>The second address is refused: the first socket is closed again. With every address free there are three servers.\<close>

theorem start_all_or_nothing_witness:
  "let n = \<lparr>nt_sockets = [], nt_next = 1\<rparr> in
   fresh_net n \<and> Start (\<lambda>a i. i = 2) (\<lambda>_ _. True) demo_cfg True n = (\<lparr>nt_sockets = [], nt_next = 2\<rparr>, Inl (BindFailed ''HTTP'' ''tcp6'')) \<and>
   (\<exists>n' g. Start (\<lambda>_ _. False) (\<lambda>_ _. True) demo_cfg True n = (n', Inr g) \<and> map (pd_tls \<circ> fst) (gr_servers g) = [False, False, True] \<and>
     length (nt_sockets n') = 3)"
proof -
  let ?n = "\<lparr>nt_sockets = [], nt_next = 1\<rparr>"
  have f: "fresh_net ?n" by (simp add: fresh_net_def)
  have r: "Start (\<lambda>a i. i = 2) (\<lambda>_ _. True) demo_cfg True ?n = (\<lparr>nt_sockets = [], nt_next = 2\<rparr>, Inl (BindFailed ''HTTP'' ''tcp6''))"
    by (simp add: Start_def demo_cfg_def validateEndpoint_def addresses_def listen_def closeOpened_def close_listener_def)
  obtain n' g where g: "Start (\<lambda>_ _. False) (\<lambda>_ _. True) demo_cfg True ?n = (n', Inr g)"
    by (simp add: Start_def demo_cfg_def validateEndpoint_def addresses_def listen_def)
  have w: "map snd (wanted demo_cfg) = [False, False, True]" "length (wanted demo_cfg) = 3"
    by (simp_all add: wanted_def demo_cfg_def addresses_def)
  from start_all_or_nothing [OF f g] w have "map (pd_tls \<circ> fst) (gr_servers g) = [False, False, True]" "length (nt_sockets n') = 3"
    by (auto simp flip: length_map [of "pd_tls \<circ> fst" "gr_servers g"])
  with f r g start_all_or_nothing [OF f r] show ?thesis by (auto simp: Let_def)
qed

section \<open>Errors and shutdown\<close>

definition serving_count :: "Group \<Rightarrow> nat" where
  "serving_count g = length (filter (\<lambda>(_, s). s = Serving) (gr_servers g))"

definition ids :: "Group \<Rightarrow> nat list" where
  "ids g = map (pd_listener \<circ> fst) (gr_servers g)"

definition ended :: "Group \<Rightarrow> nat set" where
  "ended g = {pd_listener p | p. (p, Ended) \<in> set (gr_servers g)}"

text \<open>The invariant: failures and servers that still run fit the buffer, what failed was received or is waiting, and of the sockets
  that were open when the group \<open>g0\<close> was started exactly those of its ended servers are closed.\<close>

definition group_inv :: "Group \<Rightarrow> Group \<times> history \<Rightarrow> bool" where
  "group_inv g0 = (\<lambda>(g, h). length (hi_failed h) + serving_count g \<le> gr_capacity g \<and> hi_failed h = hi_received h @ gr_errs g \<and>
     map fst (gr_servers g) = map fst (gr_servers g0) \<and> gr_once g = gr_done g \<and> (gr_done g \<longrightarrow> serving_count g = 0) \<and>
     nt_sockets (gr_net g) = filter (\<lambda>(j, _). j \<notin> ended g) (nt_sockets (gr_net g0)))"

lemma filter_update_count:
  assumes "k < length xs" and "P (xs ! k)" and "\<not> P y"
  shows "Suc (length (filter P (xs[k := y]))) = length (filter P xs)"
  using assms
proof (induction xs arbitrary: k)
  case (Cons x xs)
  then show ?case by (cases k) auto
qed simp

lemma ended_update:
  assumes "k < length xs" and "snd (xs ! k) = Serving"
  shows "(p, Ended) \<in> set (xs[k := (fst (xs ! k), Ended)]) \<longleftrightarrow> p = fst (xs ! k) \<or> (p, Ended) \<in> set xs"
  using assms by (auto simp: in_set_conv_nth nth_list_update) (metis serving.distinct(1) snd_conv)+

lemma serve_failed_inv:
  assumes "group_inv g0 (g, h)" and "k < length (gr_servers g)" and "snd (gr_servers g ! k) = Serving"
  shows "group_inv g0 (serve_failed k e g, h\<lparr>hi_failed := hi_failed h @ [e]\<rparr>)"
proof -
  let ?i = "pd_listener (fst (gr_servers g ! k))"
  let ?g = "g\<lparr>gr_servers := (gr_servers g)[k := (fst (gr_servers g ! k), Ended)], gr_net := close_listener ?i (gr_net g)\<rparr>"
  have c: "Suc (serving_count ?g) = serving_count g"
    using filter_update_count [of k "gr_servers g" "\<lambda>(_, s). s = Serving" "(fst (gr_servers g ! k), Ended)"] assms(2,3)
    by (simp add: serving_count_def case_prod_beta)
  have i: "map fst (gr_servers ?g) = map fst (gr_servers g)" using assms(2) by (simp add: map_update list_update_same_conv)
  have n: "ended ?g = insert ?i (ended g)" using assms(2,3) by (auto simp: ended_def ended_update)
  have "length (hi_failed h) + serving_count g \<le> gr_capacity g" "hi_failed h = hi_received h @ gr_errs g" "\<not> gr_done g"
    using assms(1) c by (auto simp: group_inv_def)
  then have "length (gr_errs g) < gr_capacity g" using c by simp
  then have s: "serve_failed k e g = ?g\<lparr>gr_errs := gr_errs g @ [e]\<rparr>" by (simp add: serve_failed_def Let_def)
  have "serving_count (?g\<lparr>gr_errs := gr_errs g @ [e]\<rparr>) = serving_count ?g" "ended (?g\<lparr>gr_errs := gr_errs g @ [e]\<rparr>) = ended ?g"
    by (simp_all add: serving_count_def ended_def)
  moreover have "nt_sockets (gr_net ?g) = filter (\<lambda>(j, _). j \<notin> ended ?g) (nt_sockets (gr_net g0))"
    unfolding n using assms(1) by (auto simp: group_inv_def close_listener_def intro!: filter_cong)
  ultimately show ?thesis unfolding s group_inv_def using assms(1) c i \<open>\<not> gr_done g\<close> by (auto simp: group_inv_def)
qed

lemma fold_keeps: "(\<And>x g. x \<in> set xs \<Longrightarrow> f (c x g) = f g) \<Longrightarrow> f (fold c xs g) = f g"
  by (induction xs arbitrary: g) auto

lemma shutdown_servers_frame:
  "gr_servers (shutdown_servers result g) = map (\<lambda>(p, _). (p, Ended)) (gr_servers g)" "gr_errs (shutdown_servers result g) = gr_errs g"
  "gr_capacity (shutdown_servers result g) = gr_capacity g" "gr_net (shutdown_servers result g) = gr_net g"
  unfolding shutdown_servers_def by (rule fold_keeps [THEN trans]; auto split: option.split)+

lemma close_all_sockets:
  fixes ss :: "(pending \<times> serving) list"
  shows "nt_sockets (fold (\<lambda>(p, _). close_listener (pd_listener p)) ss n) = filter (\<lambda>(j, _). j \<notin> set (map (pd_listener \<circ> fst) ss)) (nt_sockets n)"
proof -
  have "(\<lambda>(p :: pending, _ :: serving). close_listener (pd_listener p)) = (\<lambda>x. close_listener (pd_listener (fst x)))" by auto
  then show ?thesis using close_sockets [of "map fst ss" n] by (simp add: closeOpened_def fold_map comp_def image_image)
qed

lemma filter_without: "B \<subseteq> A \<Longrightarrow> filter (\<lambda>(j, _). j \<notin> A) (filter (\<lambda>(j, _). j \<notin> B) xs) = filter (\<lambda>(j, _). j \<notin> A) xs"
  by (induction xs) auto

lemma ended_sub: "ended g \<subseteq> set (ids g)"
  by (force simp: ended_def ids_def)

lemma all_ended: "serving_count g = 0 \<Longrightarrow> ended g = set (ids g)"
proof (rule subset_antisym [OF ended_sub], rule subsetI)
  fix j assume "serving_count g = 0" and "j \<in> set (ids g)"
  then obtain p s where "(p, s) \<in> set (gr_servers g)" "j = pd_listener p" "s \<noteq> Serving"
    by (auto simp: ids_def serving_count_def filter_empty_conv)
  then show "j \<in> ended g" by (cases s) (auto simp: ended_def)
qed

lemma Shutdown_inv:
  assumes "group_inv g0 (g, h)"
  shows "group_inv g0 (fst (Group_Shutdown result g), h)"
proof (cases "gr_once g")
  case False
  let ?g = "close_listeners (shutdown_servers result g)"
  have s: "gr_servers ?g = map (\<lambda>(p, _). (p, Ended)) (gr_servers g)" "gr_errs ?g = gr_errs g" "gr_capacity ?g = gr_capacity g"
    by (simp_all add: close_listeners_def shutdown_servers_frame)
  have e: "ended (?g\<lparr>gr_done := True, gr_once := True\<rparr>) = set (ids g)" by (force simp: ended_def ids_def s)
  have "nt_sockets (gr_net ?g) = filter (\<lambda>(j, _). j \<notin> set (ids g)) (nt_sockets (gr_net g))"
    by (simp add: close_listeners_def shutdown_servers_frame close_all_sockets ids_def comp_def case_prod_beta)
  also have "\<dots> = filter (\<lambda>(j, _). j \<notin> set (ids g)) (nt_sockets (gr_net g0))"
    using assms filter_without [OF ended_sub, of g] by (simp add: group_inv_def del: filter_filter)
  finally have n: "nt_sockets (gr_net ?g) = filter (\<lambda>(j, _). j \<notin> set (ids g)) (nt_sockets (gr_net g0))" .
  have m: "map fst (gr_servers ?g) = map fst (gr_servers g)" "serving_count (?g\<lparr>gr_done := True, gr_once := True\<rparr>) = 0"
    by (auto simp: s serving_count_def filter_empty_conv)
  from assms False s(2,3) n m show ?thesis by (auto simp: Group_Shutdown_def Let_def group_inv_def e)
qed (use assms in \<open>simp add: Group_Shutdown_def\<close>)

lemma group_inv_watching: "group_inv g0 (g\<lparr>gr_watching := b\<rparr>, h) = group_inv g0 (g, h)"
  by (simp add: group_inv_def serving_count_def ended_def)

lemma group_step_inv: "group_step s s' \<Longrightarrow> group_inv g0 s \<Longrightarrow> group_inv g0 s'"
proof (induction rule: group_step.induct)
  case (receives g e es h)
  then show ?case by (auto simp: group_inv_def serving_count_def ended_def)
qed (simp_all add: serve_failed_inv Shutdown_inv group_inv_watching)

lemma group_reach_inv: "group_reach s s' \<Longrightarrow> group_inv g0 s \<Longrightarrow> group_inv g0 s'"
  by (induction rule: group_reach.induct) (auto intro: group_step_inv)

lemma Start_inv:
  assumes "Start refused loads cfg handler n = (n', Inr g)"
  shows "group_inv g (g, \<lparr>hi_failed = [], hi_received = []\<rparr>)" "gr_net g = n'"
proof -
  obtain opened where g: "g = \<lparr>gr_net = n', gr_servers = map (\<lambda>p. (p, Serving)) opened, gr_errs = [], gr_capacity = length opened,
       gr_done = False, gr_once = False, gr_shutdownErr = None, gr_watching = True\<rparr>"
    using assms by (cases rule: Start_cases) auto
  have "ended g = {}" by (auto simp: ended_def g)
  then show "group_inv g (g, \<lparr>hi_failed = [], hi_received = []\<rparr>)" "gr_net g = n'" by (simp_all add: g group_inv_def serving_count_def)
qed

text \<open>The sockets of a group in terms of those that were there before it was started.\<close>

lemma Start_sockets:
  assumes "fresh_net n" and "Start refused loads cfg handler n = (n', Inr g)"
  obtains as where "nt_sockets n' = nt_sockets n @ zip (ids g) as" "length as = length (ids g)" "distinct (ids g)"
    "set (ids g) \<inter> fst ` set (nt_sockets n) = {}"
proof
  let ?as = "map fst (wanted cfg)"
  note s = start_shape [OF assms, simplified]
  show "nt_sockets n' = nt_sockets n @ zip (ids g) ?as" "distinct (ids g)"
    using s by (simp_all add: ids_def)
  show "set (ids g) \<inter> fst ` set (nt_sockets n) = {}"
  proof -
    have "pd_listener (fst x) \<notin> fst ` set (nt_sockets n)" if "x \<in> set (gr_servers g)" for x using s that by (cases x) auto
    then show ?thesis unfolding ids_def disjoint_iff set_map comp_def by (intro allI impI) (elim imageE, simp)
  qed
  show "length ?as = length (ids g)" using s unfolding ids_def by (metis length_map)
qed

lemma serving_sockets:
  assumes "distinct js" and "length as = length js" and "set js \<inter> fst ` set old = {}" and "i \<in> set js"
  shows "i \<in> fst ` set (filter (\<lambda>(j, _). j \<notin> gone) (old @ zip js as)) \<longleftrightarrow> i \<notin> gone"
proof -
  from assms(2,4) have "i \<in> fst ` set (zip js as)" by (metis list.set_map map_fst_zip)
  then show ?thesis using assms(3,4) by force
qed

text \<open>C8. A started group loses no error and accounts for its sockets: in every state it can reach, the errors that servers ended with are,
  in order, those that were received and those waiting in the channel, so that the branch that drops an
  error is never taken; it has the servers it was started with, and the socket of each is open as long as the server serves and closed once
  it has ended, by a failure of its own or by the shutdown; no other socket is touched. After the shutdown exactly the
  sockets that were open before the start are left, and every further call of \<^verbatim>\<open>Shutdown\<close> changes nothing and returns the same error.\<close>

theorem group_accounts_for_errors:
  assumes "fresh_net n" and "Start refused loads cfg handler n = (n', Inr g0)"
    and "group_reach (g0, \<lparr>hi_failed = [], hi_received = []\<rparr>) (g, h)"
  shows "hi_failed h = hi_received h @ gr_errs g \<and> ids g = ids g0 \<and>
    (\<forall>(p, s) \<in> set (gr_servers g). pd_listener p \<in> fst ` set (nt_sockets (gr_net g)) \<longleftrightarrow> s = Serving) \<and>
    filter (\<lambda>(j, _). j \<notin> set (ids g0)) (nt_sockets (gr_net g)) = nt_sockets n \<and>
    (gr_done g \<longrightarrow> nt_sockets (gr_net g) = nt_sockets n \<and> Group_Shutdown result g = (g, gr_shutdownErr g))"
proof -
  obtain as where s: "nt_sockets n' = nt_sockets n @ zip (ids g0) as" "length as = length (ids g0)" "distinct (ids g0)"
    "set (ids g0) \<inter> fst ` set (nt_sockets n) = {}"
    by (rule Start_sockets [OF assms(1,2)])
  from group_reach_inv [OF assms(3) Start_inv(1) [OF assms(2)]] have inv: "hi_failed h = hi_received h @ gr_errs g"
    "map fst (gr_servers g) = map fst (gr_servers g0)" "gr_once g = gr_done g" "gr_done g \<Longrightarrow> serving_count g = 0"
    "nt_sockets (gr_net g) = filter (\<lambda>(j, _). j \<notin> ended g) (nt_sockets n')"
    unfolding group_inv_def Start_inv(2) [OF assms(2)] prod.case by blast+
  have i: "ids g = ids g0" using inv(2) by (simp add: ids_def flip: map_map)
  have sub: "ended g \<subseteq> set (ids g0)" using ended_sub [of g] by (simp only: i)
  have e: "pd_listener p \<in> ended g \<longleftrightarrow> s = Ended" if "(p, s) \<in> set (gr_servers g)" for p s
  proof -
    have "inj_on (pd_listener \<circ> fst) (set (gr_servers g))" using s(3) unfolding i [symmetric] by (simp add: ids_def distinct_map)
    from inj_onD [OF this, of "(_, _)" "(p, s)"] \<open>(p, s) \<in> _\<close>
    have "s' = s" if "(p', s') \<in> set (gr_servers g)" "pd_listener p' = pd_listener p" for p' s' using that by simp
    with that show ?thesis unfolding ended_def mem_Collect_eq by metis
  qed
  have open_: "pd_listener p \<in> fst ` set (nt_sockets (gr_net g)) \<longleftrightarrow> s = Serving" if "(p, s) \<in> set (gr_servers g)" for p s
  proof -
    from that have "pd_listener p \<in> set (ids g0)" unfolding i [symmetric] by (force simp: ids_def)
    with serving_sockets [OF s(3,2,4) this, of "ended g"] e [OF that] show ?thesis unfolding inv(5) s(1) by (cases s) auto
  qed
  have old: "filter (\<lambda>(j, _). j \<notin> A) (nt_sockets n) = nt_sockets n" if "A \<subseteq> set (ids g0)" for A
    using that s(4) by (intro filter_True) force
  have new: "filter (\<lambda>(j, _). j \<notin> set (ids g0)) (zip (ids g0) as) = []" by (auto simp: filter_empty_conv dest: set_zip_leftD)
  have others: "filter (\<lambda>(j, _). j \<notin> set (ids g0)) (nt_sockets (gr_net g)) = nt_sockets n"
    unfolding inv(5) filter_without [OF sub] s(1) filter_append new old [OF subset_refl] by simp
  have "ended g = set (ids g0)" if "gr_done g"
    using inv(4) [OF that] unfolding i [symmetric] by (rule all_ended)
  then have "nt_sockets (gr_net g) = nt_sockets n" if "gr_done g" using that old [of "set (ids g0)"] new unfolding inv(5) s(1) by simp
  moreover have "\<forall>(p, s) \<in> set (gr_servers g). pd_listener p \<in> fst ` set (nt_sockets (gr_net g)) \<longleftrightarrow> s = Serving"
    by (rule ballI, clarify) (rule open_)
  ultimately show ?thesis using inv(1,3) i others by (simp add: Group_Shutdown_def)
qed

theorem group_accounts_for_errors_witness:
  "\<exists>n' g0 g h. Start (\<lambda>_ _. False) (\<lambda>_ _. True) demo_cfg True \<lparr>nt_sockets = [], nt_next = 1\<rparr> = (n', Inr g0) \<and>
     group_reach (g0, \<lparr>hi_failed = [], hi_received = []\<rparr>) (g, h) \<and> gr_done g \<and> gr_errs g = [''accept''] \<and> hi_failed h = [''accept''] \<and>
     nt_sockets (gr_net g) = []"
proof -
  let ?n = "\<lparr>nt_sockets = [], nt_next = 1\<rparr>"
  obtain n' g0 where g: "Start (\<lambda>_ _. False) (\<lambda>_ _. True) demo_cfg True ?n = (n', Inr g0)"
    and g0: "gr_servers g0 = map (\<lambda>(i, t). (\<lparr>pd_listener = i, pd_tls = t\<rparr>, Serving)) [(1, False), (2, False), (3, True)]" "gr_errs g0 = []"
      "gr_capacity g0 = 3" "\<not> gr_once g0" "map fst (nt_sockets n') = [1, 2, 3]"
    by (simp add: Start_def demo_cfg_def validateEndpoint_def addresses_def listen_def)
  let ?g1 = "serve_failed 0 ''accept'' g0" and ?h = "\<lparr>hi_failed = [''accept''], hi_received = []\<rparr>"
  let ?g2 = "fst (Group_Shutdown (\<lambda>_. None) ?g1)"
  have "group_step (g0, \<lparr>hi_failed = [], hi_received = []\<rparr>) (?g1, ?h)"
    using group_step.fails [of 0 g0 "\<lparr>hi_failed = [], hi_received = []\<rparr>" "''accept''"] by (simp add: g0)
  moreover have "group_step (?g1, ?h) (?g2, ?h)" by (rule group_step.shuts_down)
  ultimately have r: "group_reach (g0, \<lparr>hi_failed = [], hi_received = []\<rparr>) (?g2, ?h)"
    by (meson group_reach.start group_reach.step)
  have done_: "gr_done ?g2" "gr_errs ?g2 = [''accept'']"
    by (simp_all add: Group_Shutdown_def serve_failed_def g0 close_listeners_def shutdown_servers_def Let_def)
  have "fresh_net ?n" by (simp add: fresh_net_def)
  from group_accounts_for_errors [OF this g r, of "\<lambda>_. None"] done_(1) have "nt_sockets (gr_net ?g2) = []" by simp
  with done_ g r show ?thesis by (intro exI [of _ n'] exI [of _ g0] exI [of _ ?g2] exI [of _ ?h]) (simp only: simp_thms history.select_convs)
qed

end
