(* ===== verification/Api_Clients.thy ===== *)
theory Api_Clients
  imports Live_Settings Auth_Registry
begin

text \<open>
  The handlers of \<^verbatim>\<open>internal/api/admin.go\<close> for client pairing and tokens, over the state of the daemon in
  \<open>Live_Settings\<close>: the address a guess is counted under, the metadata and the URI a new client gets, the exchange of
  a PIN for a token, the pairing window, and the token list. The pairing window and the token stores are
  those of \<open>Client_Pairing\<close> and \<open>Auth_Store\<close>; the QR encoder is a parameter.
\<close>

section \<open>Addresses of requesters\<close>

text \<open>\<^verbatim>\<open>netip.ParseAddrPort\<close>: the text is split at its last colon, an address in brackets has to be IPv6.\<close>

definition last_colon :: "string \<Rightarrow> (string \<times> string) option" where
  "last_colon s = (let r = rev s; port = rev (takeWhile (\<lambda>c. c \<noteq> CHR '':'') r); ip = dropWhile (\<lambda>c. c \<noteq> CHR '':'') r
     in if ip = [] then None else Some (rev (tl ip), port))"

text \<open>\<^verbatim>\<open>strconv.ParseUint(port, 10, 16)\<close>.\<close>

definition valid_port :: "string \<Rightarrow> bool" where
  "valid_port port \<longleftrightarrow> port \<noteq> [] \<and> list_all is_digit port \<and> dec_val 0 port < 65536"

definition ParseAddrPort :: "string \<Rightarrow> ip_addr option" where
  "ParseAddrPort s = (case last_colon s of
      None \<Rightarrow> None
    | Some (ip, port) \<Rightarrow>
        if ip = [] \<or> port = [] then None
        else if hd ip = CHR ''['' then
          (if length ip < 2 \<or> last ip \<noteq> CHR '']'' \<or> \<not> valid_port port then None
           else (case ParseAddr (butlast (tl ip)) of Some a \<Rightarrow> if is6 a then Some a else None | None \<Rightarrow> None))
        else if \<not> valid_port port then None
        else (case ParseAddr ip of Some a \<Rightarrow> if is6 a then None else Some a | None \<Rightarrow> None))"

fun Unmap :: "ip_addr \<Rightarrow> ip_addr" where
  "Unmap (IP4 b) = IP4 b"
| "Unmap (IP6 b z) = (if is4In6 b then IP4 (drop 12 b) else IP6 b z)"

text \<open>\<^verbatim>\<open>Addr.String\<close>: dotted decimals, or groups in hexadecimal with the first of the longest runs of two or more
  zero groups left out.\<close>

definition dotted :: "nat list \<Rightarrow> string" where
  "dotted b = strings_Join ''.'' (map utoa b)"

fun hex_text :: "nat \<Rightarrow> string" where
  "hex_text n = (if n < 16 then [hex_lower n] else hex_text (n div 16) @ [hex_lower (n mod 16)])"

declare hex_text.simps [simp del]

fun v6u16 :: "nat list \<Rightarrow> nat list" where
  "v6u16 (a # b # s) = (256 * a + b) # v6u16 s" | "v6u16 _ = []"

definition zero_run :: "nat list \<Rightarrow> nat \<Rightarrow> nat" where
  "zero_run gs i = length (takeWhile (\<lambda>g. g = 0) (drop i gs))"

definition longest_zeros :: "nat list \<Rightarrow> (nat \<times> nat) option" where
  "longest_zeros gs = foldl (\<lambda>best i. let l = zero_run gs i
       in if l \<ge> 2 \<and> (case best of None \<Rightarrow> True | Some (a, b) \<Rightarrow> l > b - a) then Some (i, i + l) else best) None [0..<8]"

definition appendTo6 :: "nat list \<Rightarrow> string" where
  "appendTo6 b = (let gs = v6u16 b; text = (\<lambda>gs. strings_Join '':'' (map hex_text gs))
     in case longest_zeros gs of
         None \<Rightarrow> text gs
       | Some (i, j) \<Rightarrow> text (take i gs) @ '':'' @ '':'' @ text (drop j gs))"

fun Addr_String :: "ip_addr \<Rightarrow> string" where
  "Addr_String (IP4 b) = dotted b"
| "Addr_String (IP6 b z) = (if is4In6 b then '':'' @ '':'' @ ''ffff'' @ '':'' @ dotted (drop 12 b) else appendTo6 b) @ (if z = [] then [] else CHR ''%'' # z)"

definition trim_brackets :: "string \<Rightarrow> string" where
  "trim_brackets s = (let cut = dropWhile (\<lambda>c. c = CHR ''['' \<or> c = CHR '']'') in rev (cut (rev (cut s))))"

definition requesterIP :: "string \<Rightarrow> string" where
  "requesterIP remoteAddr = (case ParseAddrPort remoteAddr of
      Some a \<Rightarrow> Addr_String (Unmap a)
    | None \<Rightarrow> (case ParseAddr (trim_brackets remoteAddr) of
        Some a \<Rightarrow> Addr_String (Unmap a)
      | None \<Rightarrow> ''invalid''))"

section \<open>Connection metadata\<close>

text \<open>What the handlers read of \<^verbatim>\<open>Deps\<close>: the MAC of the device in the store and of the last identity, names, the fingerprint, and
  for one request the clocks, the random bytes of a new token and the failures of its file.\<close>

record client_deps =
  kd_paired :: bool
  kd_settings :: bool
  kd_store_mac :: "string option"
  kd_identity_mac :: "string option"
  kd_MagicDNSName :: "string option"
  kd_PreferredHost :: "string option"
  kd_TLSFingerprint :: "string option"
  kd_env :: live_env
  kd_random :: "byte list option"
  kd_qrcode :: "string \<Rightarrow> byte list option"
  kd_store :: bool

definition deviceID :: "client_deps \<Rightarrow> string" where
  "deviceID d = (case kd_store_mac d of
      Some mac \<Rightarrow> if mac \<noteq> [] then mac else (case kd_identity_mac d of None \<Rightarrow> [] | Some m \<Rightarrow> m)
    | None \<Rightarrow> (case kd_identity_mac d of None \<Rightarrow> [] | Some m \<Rightarrow> m))"

definition magicDNSName :: "client_deps \<Rightarrow> string" where
  "magicDNSName d = (case kd_MagicDNSName d of None \<Rightarrow> [] | Some n \<Rightarrow> n)"

definition preferredHost :: "client_deps \<Rightarrow> string" where
  "preferredHost d = (if magicDNSName d \<noteq> [] then magicDNSName d
     else case kd_PreferredHost d of None \<Rightarrow> ''wattline.lan'' | Some h \<Rightarrow> h)"

definition client_fingerprint :: "client_deps \<Rightarrow> string" where
  "client_fingerprint d = (case kd_TLSFingerprint d of None \<Rightarrow> [] | Some f \<Rightarrow> f)"

text \<open>\<^verbatim>\<open>net.JoinHostPort\<close>.\<close>

definition hostPort :: "string \<Rightarrow> int \<Rightarrow> string" where
  "hostPort host port = (if CHR '':'' \<in> set host then ''['' @ host @ '']'' @ '':'' @ Itoa port else host @ '':'' @ Itoa port)"

definition baseURLsFor :: "Config \<Rightarrow> string \<Rightarrow> (string \<times> string) list" where
  "baseURLsFor cfg host =
     (if c_http_enabled cfg then [(''http'', ''http'' @ '':'' @ ''//'' @ hostPort host (c_http_port cfg) @ ''/api/v1'')] else []) @
     (if c_https_enabled cfg then [(''https'', ''https'' @ '':'' @ ''//'' @ hostPort host (c_https_port cfg) @ ''/api/v1'')] else [])"

record metadata =
  md_config :: Config
  md_device_id :: string
  md_host :: string
  md_base_urls :: "(string \<times> string) list"
  md_tls_sha256 :: string

definition connectionMetadata :: "client_deps \<Rightarrow> live \<Rightarrow> metadata option" where
  "connectionMetadata d l =
     (if \<not> kd_settings d \<or> Config_Validate (live_current l) \<noteq> None then None
      else let cfg = live_current l; device = TrimSpace (deviceID d); host = TrimSpace (preferredHost d)
           in if device = [] \<or> host = [] then None
              else let urls = baseURLsFor cfg host; fingerprint = client_fingerprint d
                   in if urls = [] then None
                      else if c_https_enabled cfg \<and> \<not> validFingerprint fingerprint then None
                      else Some \<lparr>md_config = cfg, md_device_id = device, md_host = host, md_base_urls = urls, md_tls_sha256 = fingerprint\<rparr>)"

section \<open>The pairing URI\<close>

definition unreserved :: "char \<Rightarrow> bool" where
  "unreserved c \<longleftrightarrow> CHR ''A'' \<le> c \<and> c \<le> CHR ''Z'' \<or> CHR ''a'' \<le> c \<and> c \<le> CHR ''z'' \<or> is_digit c \<or> c \<in> set ''-._~''"

definition hex_upper :: "nat \<Rightarrow> char" where
  "hex_upper n = char_of (if n < 10 then n + 48 else n + 55)"

fun escapeRFC3986 :: "string \<Rightarrow> string" where
  "escapeRFC3986 [] = []"
| "escapeRFC3986 (c # s) =
     (if unreserved c then [c] else [CHR ''%'', hex_upper (of_char c div 16), hex_upper (of_char c mod 16)]) @ escapeRFC3986 s"

definition uri_parts :: "metadata \<Rightarrow> string \<Rightarrow> string list" where
  "uri_parts m pin =
     [''v=1'', ''id='' @ escapeRFC3986 (md_device_id m), ''host='' @ escapeRFC3986 (md_host m)] @
     (if c_http_enabled (md_config m) then [''http='' @ Itoa (c_http_port (md_config m))] else []) @
     (if c_https_enabled (md_config m) then [''https='' @ Itoa (c_https_port (md_config m))] else []) @
     [''pin='' @ escapeRFC3986 pin] @
     (if c_https_enabled (md_config m) then [''tls='' @ escapeRFC3986 (md_tls_sha256 m)] else [])"

definition pairingURIFromMetadata :: "metadata \<Rightarrow> string \<Rightarrow> string" where
  "pairingURIFromMetadata m pin = ''wattline'' @ '':'' @ ''//pair?'' @ strings_Join ''&'' (uri_parts m pin)"

definition pairingURI :: "client_deps \<Rightarrow> live \<Rightarrow> string \<Rightarrow> string" where
  "pairingURI d l pin = (case connectionMetadata d l of None \<Rightarrow> [] | Some m \<Rightarrow> pairingURIFromMetadata m pin)"

section \<open>Handlers\<close>

datatype client_body =
    PairedBody string TokenMeta string "(string \<times> string) list" string string
  | WindowBody PairingStatus | OpenBody bool | PngBody "byte list" | TokensBody "TokenMeta list" | RevokedBody string

type_synonym client_handler = "(live, client_body) handler"

definition client_error :: "auth_error \<Rightarrow> client_body response" where
  "client_error e = (if e = ErrInvalidOrExpiredPIN then writeAPIError ''invalid_or_expired_pin''
     else if e = ErrInvalidLabel then writeAPIError ''invalid_request''
     else writeAPIError ''internal_error'')"

definition decode_pair_request :: "request \<Rightarrow> (string \<times> string) option" where
  "decode_pair_request r = (case decodeJSON [''pin'', ''label''] r of
      None \<Rightarrow> None
    | Some ms \<Rightarrow> (case (field decode_string [] ''pin'' ms, field decode_string [] ''label'' ms) of
        (Some pin, Some label) \<Rightarrow> if pin = [] \<or> label = [] then None else Some (pin, label)
      | _ \<Rightarrow> None))"

definition clientPair :: "client_deps \<Rightarrow> client_handler" where
  "clientPair d r vals who l = (case decode_pair_request r of
      None \<Rightarrow> (l, writeAPIError ''invalid_request'')
    | Some (pin, label) \<Rightarrow>
        if \<not> kd_paired d then (l, writeAPIError ''internal_error'')
        else case connectionMetadata d l of
            None \<Rightarrow> (l, writeAPIError ''internal_error'')
          | Some m \<Rightarrow> (case Exchange (le_hash (kd_env d)) (le_persist (kd_env d)) (kd_random d) (le_clock (kd_env d)) (le_clock (kd_env d))
                (requesterIP (rq_remote_addr r)) pin label (lv_pairing l) (lv_stores l) of
              (p, stores, res) \<Rightarrow>
                let l = l\<lparr>lv_pairing := p, lv_stores := stores\<rparr>
                in case res of
                    Inl e \<Rightarrow> (l, client_error e)
                  | Inr (secret, meta) \<Rightarrow> (l, writeJSON 201 (Some
                      (PairedBody secret meta (md_device_id m) (md_base_urls m) (md_tls_sha256 m) (magicDNSName d))))))"

text \<open>The checks the handlers of the pairing window share.\<close>

definition pairing_mode :: "client_deps \<Rightarrow> (live \<Rightarrow> live \<times> client_body response) \<Rightarrow> client_handler" where
  "pairing_mode d k r vals who l =
     (if \<not> requireNoBody r then (l, writeAPIError ''invalid_request'')
      else if \<not> kd_paired d then (l, writeAPIError ''internal_error'')
      else k l)"

definition pairingModeStatus :: "client_deps \<Rightarrow> client_handler" where
  "pairingModeStatus d = pairing_mode d (\<lambda>l. case Status_pairing (le_clock (kd_env d)) True (lv_pairing l) of
      (p, st) \<Rightarrow> (l\<lparr>lv_pairing := p\<rparr>, writeJSON 200 (Some (WindowBody st))))"

definition openPairingMode :: "client_deps \<Rightarrow> client_handler" where
  "openPairingMode d = pairing_mode d (\<lambda>l. case Open (le_clock (kd_env d)) (lv_pairing l) of
      (p, st) \<Rightarrow> (l\<lparr>lv_pairing := p\<rparr>, writeJSON 200 (Some (WindowBody st))))"

definition closePairingMode :: "client_deps \<Rightarrow> client_handler" where
  "closePairingMode d = pairing_mode d (\<lambda>l. (l\<lparr>lv_pairing := Close_pairing (lv_pairing l)\<rparr>, writeJSON 200 (Some (OpenBody False))))"

definition pairingQRCode :: "client_deps \<Rightarrow> client_handler" where
  "pairingQRCode d r vals who l =
     (if rq_raw_query r \<noteq> [] then (l, writeAPIError ''invalid_request'')
      else pairing_mode d (\<lambda>l. case Status_pairing (le_clock (kd_env d)) True (lv_pairing l) of
        (p, st) \<Rightarrow>
          let l = l\<lparr>lv_pairing := p\<rparr>
          in if \<not> pst_open st then (l, writeAPIError ''capability_unsupported'')
             else case connectionMetadata d l of
                 None \<Rightarrow> (l, writeAPIError ''internal_error'')
               | Some m \<Rightarrow> (case kd_qrcode d (pairingURIFromMetadata m (pst_pin st)) of
                   None \<Rightarrow> (l, writeAPIError ''internal_error'')
                 | Some png \<Rightarrow> (l, \<lparr>rs_status = 200, rs_body = Value (Some (PngBody png))\<rparr>))) r vals who l)"

definition listTokens :: "client_deps \<Rightarrow> client_handler" where
  "listTokens d r vals who l =
     (if \<not> requireNoBody r then (l, writeAPIError ''invalid_request'')
      else if \<not> kd_store d then (l, writeJSON 200 (Some (TokensBody [])))
      else (l, writeJSON 200 (Some (TokensBody (List_tokens (live_authStore l))))))"

definition revokeToken :: "client_deps \<Rightarrow> client_handler" where
  "revokeToken d r vals who l =
     (if \<not> requireNoBody r then (l, writeAPIError ''invalid_request'')
      else if \<not> kd_store d then (l, writeAPIError ''not_found'')
      else let i = (case map_of vals ''id'' of None \<Rightarrow> [] | Some v \<Rightarrow> v)
           in if i = [] then (l, writeAPIError ''invalid_request'')
              else case Revoke (le_persist (kd_env d)) i (live_authStore l) of
                  (st, Some e) \<Rightarrow> (l\<lparr>lv_stores := (lv_stores l)(lv_store l := st)\<rparr>,
                    if e = ErrBootstrapToken then writeAPIError ''invalid_request''
                    else if e = ErrTokenNotFound then writeAPIError ''not_found''
                    else writeAPIError ''internal_error'')
                | (st, None) \<Rightarrow> (l\<lparr>lv_stores := (lv_stores l)(lv_store l := st)\<rparr>, writeJSON 200 (Some (RevokedBody i))))"

section \<open>Enrolment over the API\<close>

lemma rate_limited_tokens: "p_tokens (fst (rateLimitedLocked source now p)) = p_tokens p"
  by (simp add: rateLimitedLocked_def sourceCapacityAvailableLocked_def evictExpiredSourcesLocked_def
      expireSourceWindowLocked_def expireFailureWindowsLocked_def Let_def)

lemma record_failure_tokens: "p_tokens (recordFailureLocked source now p) = p_tokens p"
  by (simp add: recordFailureLocked_def sourceCapacityAvailableLocked_def evictExpiredSourcesLocked_def
      expireSourceWindowLocked_def expireFailureWindowsLocked_def Let_def split: bool.split)

lemma check_pin_tokens: "check_pin clock source pin p = (p', b) \<Longrightarrow> p_tokens p' = p_tokens p"
proof -
  let ?p = "refreshLocked clock (observeNowLocked clock p)"
  obtain q l where r: "rateLimitedLocked source clock ?p = (q, l)" by force
  then have "p_tokens q = p_tokens p" using rate_limited_tokens [of source clock ?p] by simp
  moreover assume "check_pin clock source pin p = (p', b)"
  ultimately show ?thesis by (cases l) (auto simp: check_pin_def Let_def r record_failure_tokens split: if_splits)
qed

lemma Exchange_cases:
  assumes "Exchange hash fs raw clock now source pin label p stores = (p', stores', res)"
  obtains e where "res = Inl e" "stores' = stores" |
    k s where "check_pin clock source pin p = (p', True)" "p_tokens p = Some k" "Issue hash fs raw now label (stores k) = (s, res)" "stores' = stores(k := s)"
proof -
  obtain q b where c: "check_pin clock source pin p = (q, b)" by force
  then have t: "p_tokens q = p_tokens p" by (rule check_pin_tokens)
  consider e where "validateLabel label = Some e" | "validateLabel label = None" "\<not> b" | "validateLabel label = None" b "p_tokens p = None"
    | k where "validateLabel label = None" b "p_tokens p = Some k" by (cases "validateLabel label"; cases "p_tokens p") auto
  then show thesis
  proof cases
    case (4 k)
    obtain s r where i: "Issue hash fs raw now label (stores k) = (s, r)" by force
    with assms 4 c t have "p' = q" "stores' = stores(k := s)" "res = r" by (simp_all add: Exchange_def)
    with 4 c i show thesis by (intro that(2) [of k s]) simp_all
  qed (use assms c t in \<open>auto intro!: that(1) simp: Exchange_def\<close>)
qed

lemma granted_registry:
  assumes "registry_step m (Granted h i) m'"
  shows "m' = m(h \<mapsto> i)" "i \<noteq> bootstrapID"
  using assms by (auto elim: registry_step.cases)

lemma client_error_status: "rs_status (writeAPIError c :: client_body response) \<noteq> 201" "rs_status (client_error e) \<noteq> 201"
proof -
  show "rs_status (writeAPIError c :: client_body response) \<noteq> 201" for c
    using writeAPIError_status [of c, where ?'b = client_body] by simp
  then show "rs_status (client_error e) \<noteq> 201" by (simp add: client_error_def)
qed

text \<open>C6. A client is enrolled only with the current PIN: the endpoint answers 201 only while the pairing window is open, with its PIN and
  before it expires; the body then holds a secret that from now on authenticates as a client, never as an
  administrator, with the identifier in the body, and the connection data of the daemon. Any other answer
  leaves every secret as it was, and no other token store changes.\<close>

theorem enrolment_needs_current_pin:
  assumes "live_ok l" and "auth_inv (live_authStore l)" and "clientPair d r vals who l = (l', rs)"
  shows "(\<forall>k. k \<noteq> lv_store l \<longrightarrow> lv_stores l' k = lv_stores l k) \<and>
    (if rs_status rs = 201 then
       \<exists>pin label secret meta m. decode_pair_request r = Some (pin, label) \<and> connectionMetadata d l = Some m \<and>
         p_open (lv_pairing l') \<and> pin = p_pin (lv_pairing l') \<and> le_clock (kd_env d) < p_expires_at (lv_pairing l') \<and>
         rs_body rs = Value (Some (PairedBody secret meta (md_device_id m) (md_base_urls m) (md_tls_sha256 m) (magicDNSName d))) \<and>
         registry (live_authStore l') = (registry (live_authStore l))(le_hash (kd_env d) secret \<mapsto> tk_id meta) \<and>
         (\<forall>fs clock. snd (Authenticate (le_hash (kd_env d)) fs clock secret (live_authStore l')) =
            Some \<lparr>pr_token_id = tk_id meta, pr_role = RoleClient\<rparr>)
     else registry (live_authStore l') = registry (live_authStore l))"
proof -
  let ?e = "kd_env d"
  have ttl: "0 < p_ttl (lv_pairing l)" "p_tokens (lv_pairing l) = Some (lv_store l)" using assms(1) by (auto simp: live_ok_def follows_def)
  show ?thesis
  proof (cases "\<exists>pin label m. decode_pair_request r = Some (pin, label) \<and> kd_paired d \<and> connectionMetadata d l = Some m")
    case False
    then have "l' = l" "rs_status rs \<noteq> 201"
      using assms(3) by (auto simp: clientPair_def client_error_status split: option.splits if_splits)
    then show ?thesis by simp
  next
    case True
    then obtain pin label m where q: "decode_pair_request r = Some (pin, label)" "kd_paired d" "connectionMetadata d l = Some m" by auto
    obtain p stores res where x: "Exchange (le_hash ?e) (le_persist ?e) (kd_random d) (le_clock ?e) (le_clock ?e) (requesterIP (rq_remote_addr r))
        pin label (lv_pairing l) (lv_stores l) = (p, stores, res)" by (metis prod_cases3)
    have l': "l' = l\<lparr>lv_pairing := p, lv_stores := stores\<rparr>"
      and rs: "rs = (case res of Inl e \<Rightarrow> client_error e | Inr (secret, meta) \<Rightarrow> writeJSON 201 (Some
        (PairedBody secret meta (md_device_id m) (md_base_urls m) (md_tls_sha256 m) (magicDNSName d))))"
      using assms(3) by (auto simp: clientPair_def q x Let_def split: sum.splits)
    from x show ?thesis
    proof (cases rule: Exchange_cases)
      case (1 e)
      then show ?thesis by (simp add: l' rs client_error_status live_authStore_def)
    next
      case (2 k s)
      have k: "k = lv_store l" using 2(2) ttl(2) by simp
      have iss: "Issue (le_hash ?e) (le_persist ?e) (kd_random d) (le_clock ?e) label (live_authStore l) = (s, res)"
        using 2(3) by (simp add: k live_authStore_def)
      have s: "live_authStore l' = s" by (simp add: l' live_authStore_def 2(4) k)
      have others: "\<forall>j. j \<noteq> lv_store l \<longrightarrow> lv_stores l' j = lv_stores l j" by (simp add: l' 2(4) k)
      show ?thesis
      proof (cases res)
        case (Inl e)
        with iss Issue_refused [OF assms(2)] others show ?thesis by (simp add: rs client_error_status s)
      next
        case (Inr sm)
        obtain secret meta where sm: "res = Inr (secret, meta)" using Inr by (cases sm) auto
        note g = granted_registry [OF Issue_granted [OF assms(2) iss [unfolded sm]]]
        have "auth_inv s" using Issue_inv [OF assms(2), of "le_hash ?e" "le_persist ?e" "kd_random d" "le_clock ?e" label] by (simp add: iss)
        then have "snd (Authenticate (le_hash ?e) fs clock secret s) = Some \<lparr>pr_token_id = tk_id meta, pr_role = RoleClient\<rparr>" for fs clock
          by (simp add: Authenticate_lookup g holder_def)
        with check_pin_current [OF ttl(1) 2(1)] q others g show ?thesis by (simp add: rs sm s writeJSON_def) (simp add: l')
      qed
    qed
  qed
qed

text \<open>A window opened at time 8, and a request with its PIN.\<close>

definition demo_window :: pairing where
  "demo_window = fst (Open 8 (NewPairing [0, 0, 7] 1 (Some 0) (5 * minute) False))"

definition demo_enrol :: live where
  "demo_enrol = demo_live\<lparr>lv_pairing := demo_window\<rparr>"

definition demo_client_deps :: client_deps where
  "demo_client_deps = \<lparr>kd_paired = True, kd_settings = True, kd_store_mac = Some ''AA'', kd_identity_mac = None, kd_MagicDNSName = None,
     kd_PreferredHost = Some ''wattline.lan'', kd_TLSFingerprint = Some (replicate 64 CHR ''a''),
     kd_env = (demo_env False)\<lparr>le_clock := 8\<rparr>, kd_random = Some toy_raw, kd_qrcode = (\<lambda>_. None), kd_store = True\<rparr>"

definition demo_pair_request :: request where
  "demo_pair_request = \<lparr>rq_method = ''POST'', rq_path = ''/api/v1/pair'', rq_raw_query = [], rq_authorization = [], rq_remote_addr = ''10.0.0.2:5000'',
     rq_content_length = 32, rq_body = json_Marshal (JObj [(''pin'', JStr ''000007''), (''label'', JStr ''phone'')])\<rparr>"

lemma demo_window_value:
  "demo_window = \<lparr>p_tokens = Some 0, p_ttl = 5 * minute, p_always_on = False, p_random = [], p_open = True,
      p_pin = ''000007'', p_expires_at = 8 + 5 * minute, p_last_now = 8, p_source_limit = 5, p_global_limit = 20,
      p_rate_window = minute, p_sources = [], p_global = no_window\<rparr>"
  by (simp add: demo_window_def Open_def NewPairing_def observeNowLocked_def openLocked_def sample_value_def format_pin_def
      digit_chars Let_def)

lemma demo_pin_ok: "check_pin 8 source ''000007'' demo_window = (demo_window, True)"
  unfolding demo_window_value
  by (simp add: check_pin_def observeNowLocked_def refreshLocked_def rateLimitedLocked_def
      expireSourceWindowLocked_def expireFailureWindowsLocked_def windowExpired_def source_window_def no_window_def
      sourceCapacityAvailableLocked_def Let_def)

lemma demo_pair_decodes: "decode_pair_request demo_pair_request = Some (''000007'', ''phone'')"
proof -
  let ?v = "JObj [(''pin'', JStr ''000007''), (''label'', JStr ''phone'')]"
  have "length (json_Marshal ?v) = 32" by code_simp
  moreover have "wf_json ?v" by code_simp
  moreover have "depth ?v \<le> 10000" by simp
  ultimately have "read_json demo_pair_request = Some ?v"
    by (simp add: read_json_def demo_pair_request_def json_roundtrip del: json_Marshal.simps)
  then show ?thesis
    by (simp add: decode_pair_request_def decodeJSON_def field_def decode_string_def struct_field_def)
qed

text \<open>\<^verbatim>\<open>TrimSpace\<close> keeps a text whose first and last bytes are printable ASCII.\<close>

definition graphic :: "char \<Rightarrow> bool" where
  "graphic c \<longleftrightarrow> 0x20 < (of_char c :: nat) \<and> (of_char c :: nat) < 0x80"

lemma space_runes_edges: "list_all (\<lambda>r. r \<noteq> [] \<and> \<not> graphic (hd r) \<and> \<not> graphic (last r)) space_runes"
  by (simp add: space_runes_def utf8_encode_def graphic_def)

lemma trim_runes_graphic:
  assumes "list_all (\<lambda>r. r \<noteq> [] \<and> \<not> graphic (hd r)) rs" and "s \<noteq> []" and "graphic (hd s)"
  shows "trim_runes rs s = s"
proof -
  have "take (length r) s \<noteq> r" if "r \<in> set rs" for r
    using assms that by (cases s; cases r) (auto simp: list_all_iff)
  then have "find (\<lambda>r. r \<noteq> [] \<and> take (length r) s = r) rs = None" by (auto simp: find_None_iff)
  then show ?thesis by (simp add: trim_runes.simps [of rs s])
qed

lemma TrimSpace_graphic: "s \<noteq> [] \<Longrightarrow> graphic (hd s) \<Longrightarrow> graphic (last s) \<Longrightarrow> TrimSpace s = s"
  using space_runes_edges
  by (simp add: TrimSpace_def trim_runes_graphic list_all_iff hd_rev)

lemma demo_metadata: "\<exists>m. connectionMetadata demo_client_deps demo_enrol = Some m"
proof -
  have c: "live_current demo_enrol = defaultConfig" by (simp add: demo_enrol_def demo_live_def live_current_def)
  have "TrimSpace (deviceID demo_client_deps) \<noteq> []" "TrimSpace (preferredHost demo_client_deps) \<noteq> []"
    by (simp_all add: deviceID_def preferredHost_def magicDNSName_def demo_client_deps_def TrimSpace_graphic graphic_def)
  moreover have "validFingerprint (client_fingerprint demo_client_deps)" "kd_settings demo_client_deps"
    by (simp_all add: client_fingerprint_def demo_client_deps_def validFingerprint_def byte_in_def list_all_iff)
  moreover have "baseURLsFor defaultConfig h \<noteq> []" for h by (simp add: baseURLsFor_def defaultConfig_def)
  ultimately show ?thesis by (simp add: connectionMetadata_def c default_valid Let_def)
qed

theorem enrolment_needs_current_pin_witness:
  "live_ok demo_enrol \<and> auth_inv (live_authStore demo_enrol) \<and>
   (\<exists>l' rs. clientPair demo_client_deps demo_pair_request [] None demo_enrol = (l', rs) \<and> rs_status rs = 201 \<and>
     snd (Authenticate toy_hash fs_ok 9 (new_secret toy_raw) (live_authStore l')) = Some \<lparr>pr_token_id = tk_id toy_record, pr_role = RoleClient\<rparr>)"
proof -
  have ok: "live_ok demo_enrol"
    using demo_live_ok by (simp add: live_ok_def follows_def demo_enrol_def demo_window_value demo_live_def defaultConfig_def)
  have inv: "auth_inv (live_authStore demo_enrol)"
    using auth_reach_inv [OF toy_reach] by (simp add: live_authStore_def demo_enrol_def demo_live_def)
  obtain m where m: "connectionMetadata demo_client_deps demo_enrol = Some m" using demo_metadata by auto
  have f: "lv_pairing demo_enrol = demo_window" "lv_stores demo_enrol 0 = toy_store" "lv_store demo_enrol = 0"
    "kd_paired demo_client_deps" "kd_random demo_client_deps = Some toy_raw" "le_hash (kd_env demo_client_deps) = toy_hash"
    "le_persist (kd_env demo_client_deps) = fs_ok" "le_clock (kd_env demo_client_deps) = 8"
    by (simp_all add: demo_enrol_def demo_live_def demo_client_deps_def demo_env_def)
  have w: "p_tokens demo_window = Some 0" by (simp add: demo_window_value)
  have x: "Exchange toy_hash fs_ok (Some toy_raw) 8 8 source ''000007'' ''phone'' demo_window stores =
      (demo_window, stores(0 := toy_client_store), Inr (new_secret toy_raw, TokenMeta.truncate toy_record))"
    if "stores 0 = toy_store" for source stores
    using that by (simp add: Exchange_def toy_record_fresh(3) demo_pin_ok w toy_issue)
  obtain l' rs where run: "clientPair demo_client_deps demo_pair_request [] None demo_enrol = (l', rs)" by force
  then have rs: "rs = writeJSON 201 (Some (PairedBody (new_secret toy_raw) (TokenMeta.truncate toy_record) (md_device_id m) (md_base_urls m)
      (md_tls_sha256 m) (magicDNSName demo_client_deps)))"
    using f x by (simp add: clientPair_def demo_pair_decodes m Let_def)
  have "tk_id (TokenMeta.truncate toy_record) = tk_id toy_record" by (simp add: TokenMeta.defs)
  with enrolment_needs_current_pin [OF ok inv run] rs run ok inv f show ?thesis
    by (auto simp: writeJSON_def)
qed

section \<open>What a client reads from the URI\<close>

text \<open>A query in the usual form: pairs between ampersands, a name and an escaped value.\<close>

fun split_on :: "char \<Rightarrow> string \<Rightarrow> string list" where
  "split_on sep [] = [[]]"
| "split_on sep (c # s) = (if c = sep then [] # split_on sep s
     else (case split_on sep s of p # ps \<Rightarrow> (c # p) # ps | [] \<Rightarrow> [[c]]))"

definition query_pair :: "string \<Rightarrow> string \<times> string option" where
  "query_pair p = (takeWhile (\<lambda>c. c \<noteq> CHR ''='') p, unescape (tl (dropWhile (\<lambda>c. c \<noteq> CHR ''='') p)))"

definition parse_query :: "string \<Rightarrow> (string \<times> string option) list" where
  "parse_query q = map query_pair (split_on CHR ''&'' q)"

lemma split_on_nonempty: "split_on sep s \<noteq> []"
  by (induction s) (auto split: list.split)

lemma split_on_plain: "sep \<notin> set p \<Longrightarrow> split_on sep (p @ sep # s) = p # split_on sep s"
  by (induction p) (auto split: list.split)

lemma split_on_last: "sep \<notin> set p \<Longrightarrow> split_on sep p = [p]"
  by (induction p) auto

lemma split_on_join:
  "ps \<noteq> [] \<Longrightarrow> \<forall>p \<in> set ps. sep \<notin> set p \<Longrightarrow> split_on sep (strings_Join [sep] ps) = ps"
  by (induction ps rule: induct_list012) (auto simp: split_on_plain split_on_last)

lemma hexdigit_val_upper: "n < 16 \<Longrightarrow> hexdigit_val (hex_upper n) = Some n"
  by (auto simp: hexdigit_val_def hex_upper_def Let_def)

lemma unescape_plain: "CHR ''%'' \<notin> set s \<Longrightarrow> unescape s = Some s"
  by (induction s) auto

lemma unescape_escapeRFC3986: "unescape (escapeRFC3986 s) = Some s"
proof (induction s)
  case (Cons c s)
  have "(of_char c :: nat) div 16 < 16" by (intro less_mult_imp_div_less) simp
  then have h: "hexdigit_val (hex_upper (of_char c div 16)) = Some (of_char c div 16)"
    "hexdigit_val (hex_upper (of_char c mod 16)) = Some (of_char c mod 16)" by (simp_all add: hexdigit_val_upper)
  have c: "char_of (16 * ((of_char c :: nat) div 16) + of_char c mod 16) = c" by (simp only: mult_div_mod_eq char_of_char)
  show ?case
  proof (cases "unreserved c")
    case True
    then have "c \<noteq> CHR ''%''" by (auto simp: unreserved_def is_digit_def less_eq_char_def)
    with True Cons show ?thesis by simp
  qed (use Cons h c in simp)
qed simp

lemma escape_chars: "c \<in> set (escapeRFC3986 s) \<Longrightarrow> unreserved c \<or> c = CHR ''%'' \<or> (\<exists>n < 16. c = hex_upper n)"
proof (induction s)
  case (Cons a s)
  have "(of_char a :: nat) < 256" by simp
  then have "(of_char a :: nat) div 16 < 16" by (intro less_mult_imp_div_less) simp
  moreover have "(of_char a :: nat) mod 16 < 16" by (rule mod_less_divisor) simp
  ultimately have "\<exists>n < 16. hex_upper (of_char a div 16) = hex_upper n" "\<exists>n < 16. hex_upper (of_char a mod 16) = hex_upper n" by blast+
  then have "unreserved x \<or> x = CHR ''%'' \<or> (\<exists>n < 16. x = hex_upper n)"
    if "x \<in> {CHR ''%'', hex_upper (of_char a div 16), hex_upper (of_char a mod 16)}" for x using that by blast
  note digits = this
  from Cons.prems consider "c = a" "unreserved a" | "c \<in> {CHR ''%'', hex_upper (of_char a div 16), hex_upper (of_char a mod 16)}"
    | "c \<in> set (escapeRFC3986 s)" by (auto split: if_splits)
  then show ?case by cases (simp, rule digits, assumption, rule Cons.IH)
qed simp

lemma escape_no_ampersand: "CHR ''&'' \<notin> set (escapeRFC3986 s)"
proof
  assume "CHR ''&'' \<in> set (escapeRFC3986 s)"
  from escape_chars [OF this] obtain n where "n < 16" "CHR ''&'' = hex_upper n"
    by (auto simp: unreserved_def is_digit_def less_eq_char_def)
  from arg_cong [OF this(2), of "of_char :: char \<Rightarrow> nat"] \<open>n < 16\<close> show False by (auto simp: hex_upper_def split: if_splits)
qed

lemma Itoa_chars: "c \<in> set (Itoa n) \<Longrightarrow> is_digit c \<or> c = CHR ''-''"
  using utoa_digits by (auto simp: Itoa_def list_all_iff split: if_splits)

lemma Itoa_plain: "unescape (Itoa n) = Some (Itoa n)" "CHR ''&'' \<notin> set (Itoa n)"
proof -
  have "c \<noteq> CHR ''%''" "c \<noteq> CHR ''&''" if "c \<in> set (Itoa n)" for c
    using Itoa_chars [OF that] by (auto simp: is_digit_def less_eq_char_def)
  then show "unescape (Itoa n) = Some (Itoa n)" "CHR ''&'' \<notin> set (Itoa n)" by (auto intro: unescape_plain)
qed

text \<open>C9. The pairing URI carries its data unharmed: whatever bytes the device identifier, the host name and the PIN contain, a client
  that splits the query at ampersands and undoes the escapes reads back exactly the protocol version, the
  identifier, the host, the port of each enabled listener, the PIN and, with HTTPS, the fingerprint.\<close>

theorem pairing_uri_roundtrip:
  "\<exists>q. pairingURIFromMetadata m pin = ''wattline'' @ '':'' @ ''//pair?'' @ q \<and>
     parse_query q = [(''v'', Some ''1''), (''id'', Some (md_device_id m)), (''host'', Some (md_host m))] @
       (if c_http_enabled (md_config m) then [(''http'', Some (Itoa (c_http_port (md_config m))))] else []) @
       (if c_https_enabled (md_config m) then [(''https'', Some (Itoa (c_https_port (md_config m))))] else []) @
       [(''pin'', Some pin)] @
       (if c_https_enabled (md_config m) then [(''tls'', Some (md_tls_sha256 m))] else [])"
proof (intro exI conjI)
  have names: "query_pair ''v=1'' = (''v'', Some ''1'')" "query_pair (''id='' @ v) = (''id'', unescape v)" "query_pair (''host='' @ v) = (''host'', unescape v)"
    "query_pair (''http='' @ v) = (''http'', unescape v)" "query_pair (''https='' @ v) = (''https'', unescape v)"
    "query_pair (''pin='' @ v) = (''pin'', unescape v)" "query_pair (''tls='' @ v) = (''tls'', unescape v)" for v
    by (simp_all add: query_pair_def)
  have "split_on CHR ''&'' (strings_Join ''&'' (uri_parts m pin)) = uri_parts m pin"
    by (rule split_on_join) (auto simp: uri_parts_def escape_no_ampersand Itoa_plain)
  then show "parse_query (strings_Join ''&'' (uri_parts m pin)) = [(''v'', Some ''1''), (''id'', Some (md_device_id m)), (''host'', Some (md_host m))] @
       (if c_http_enabled (md_config m) then [(''http'', Some (Itoa (c_http_port (md_config m))))] else []) @
       (if c_https_enabled (md_config m) then [(''https'', Some (Itoa (c_https_port (md_config m))))] else []) @
       [(''pin'', Some pin)] @
       (if c_https_enabled (md_config m) then [(''tls'', Some (md_tls_sha256 m))] else [])"
    unfolding parse_query_def by (simp add: uri_parts_def names [simplified] unescape_escapeRFC3986 Itoa_plain)
qed (simp add: pairingURIFromMetadata_def)

section \<open>Whom a guess is counted under\<close>

lemma last_colon_port:
  assumes "CHR '':'' \<notin> set port"
  shows "last_colon (host @ CHR '':'' # port) = Some (host, port)"
proof -
  have "takeWhile (\<lambda>c. c \<noteq> CHR '':'') (rev port @ CHR '':'' # rev host) = rev port"
    "dropWhile (\<lambda>c. c \<noteq> CHR '':'') (rev port @ CHR '':'' # rev host) = CHR '':'' # rev host"
    using assms by (induction port rule: rev_induct) auto
  then show ?thesis by (simp add: last_colon_def Let_def)
qed

lemma valid_port_no_colon: "valid_port port \<Longrightarrow> CHR '':'' \<notin> set port"
  by (auto simp: valid_port_def list_all_iff is_digit_def less_eq_char_def)

lemma ParseAddrPort_port:
  assumes "valid_port p" and "valid_port q"
  shows "ParseAddrPort (host @ CHR '':'' # p) = ParseAddrPort (host @ CHR '':'' # q)"
proof -
  have "last_colon (host @ CHR '':'' # p) = Some (host, p)" "last_colon (host @ CHR '':'' # q) = Some (host, q)" "p \<noteq> []" "q \<noteq> []"
    using assms by (auto intro!: last_colon_port valid_port_no_colon simp: valid_port_def)
  with assms show ?thesis by (simp add: ParseAddrPort_def)
qed

text \<open>A guesser gains nothing by changing its source port: the address under which attempts of a peer are counted is the same for every
  port it connects from, and an IPv4 peer that arrives on the IPv6 socket is counted as the IPv4 address.\<close>

theorem requester_ignores_port:
  assumes "valid_port p" and "valid_port q" and "ParseAddrPort (host @ CHR '':'' # p) = Some a"
  shows "requesterIP (host @ CHR '':'' # q) = requesterIP (host @ CHR '':'' # p) \<and> requesterIP (host @ CHR '':'' # q) = Addr_String (Unmap a) \<and>
    (\<forall>b z. a = IP6 b z \<and> is4In6 b \<longrightarrow> requesterIP (host @ CHR '':'' # q) = dotted (drop 12 b))"
  using assms(3) ParseAddrPort_port [OF assms(1,2), of host] by (simp add: requesterIP_def)

theorem requester_ignores_port_witness:
  "requesterIP ''10.0.0.2:50000'' = ''10.0.0.2'' \<and> requesterIP ''10.0.0.2:80'' = ''10.0.0.2''"
proof -
  have v: "valid_port ''50000''" "valid_port ''80''"
    by (simp_all add: valid_port_def is_digit_def less_eq_char_def dec_val_def digit_val_def)
  have "ParseAddr ''10.0.0.2'' = Some (IP4 [10, 0, 0, 2])" by code_simp
  then have f: "ParseAddrPort (''10.0.0.2'' @ CHR '':'' # ''80'') = Some (IP4 [10, 0, 0, 2])"
    using v(2) by (simp add: ParseAddrPort_def last_colon_def)
  have "dotted [10, 0, 0, 2] = ''10.0.0.2''" by code_simp
  with requester_ignores_port [OF v(2,1) f] requester_ignores_port [OF v(2,2) f] show ?thesis by simp
qed

end
