(* ===== verification/Api_Rules.thy ===== *)
theory Api_Rules
  imports Api_Settings Rules Actions
begin

text \<open>
  The handlers of rules and actions in \<^verbatim>\<open>internal/api/server.go\<close> with the functions \<^verbatim>\<open>LoadRules\<close> and \<^verbatim>\<open>SaveRules\<close> and the
  tick that \<^verbatim>\<open>cmd/wattlined/main.go\<close> gives them: the configuration file, the rule engine and the executor of actions. A handler
  holds \<^verbatim>\<open>rulesMu\<close> from reading the rules until they are saved, so it is one step.
\<close>

section \<open>State and dependencies\<close>

record 'd daemon =
  dm_file :: "config_file option"
  dm_engine :: engine
  dm_dev :: 'd
  dm_snap :: snapshot

text \<open>What the outside does during one request: whether the read of \<^verbatim>\<open>LoadRules\<close> and that of \<^verbatim>\<open>SaveRules\<close> fail, failing steps of the
  rewrite, the cron parser, the device and the HTTP client of the executor, the identity and the clock.\<close>

record ('d, 'e) rules_env =
  re_cron :: cron_parser
  re_load_fails :: bool
  re_reload_fails :: bool
  re_write_fails :: "write_step \<Rightarrow> bool"
  re_device :: "('d, 'e) Device"
  re_post :: "('d, 'e) http_post"
  re_identity :: identity
  re_now :: time

definition Load_file :: "bool \<Rightarrow> cron_parser \<Rightarrow> config_file option \<Rightarrow> config_error + Config" where
  "Load_file fails cron f = (if fails then Inl ReadFailed else Load cron (map_option cf_data f))"

text \<open>\<^verbatim>\<open>LoadRules\<close> logs an error and returns no rules.\<close>

definition LoadRules_dep :: "('d, 'e) rules_env \<Rightarrow> 'd daemon \<Rightarrow> Rule list" where
  "LoadRules_dep e s = (case Load_file (re_load_fails e) (re_cron e) (dm_file s) of Inl _ \<Rightarrow> [] | Inr c \<Rightarrow> c_rules c)"

definition SaveRules_dep :: "('d, 'e) rules_env \<Rightarrow> Rule list \<Rightarrow> 'd daemon \<Rightarrow> 'd daemon \<times> bool" where
  "SaveRules_dep e rs s = (case Load_file (re_reload_fails e) (re_cron e) (dm_file s) of
      Inl _ \<Rightarrow> (s, False)
    | Inr c \<Rightarrow> (case SaveRules (re_write_fails e) (c\<lparr>c_rules := rs\<rparr>) (dm_file s) of
        (f, Some _) \<Rightarrow> (s\<lparr>dm_file := f\<rparr>, False)
      | (f, None) \<Rightarrow> (case SetRules (re_cron e) rs (dm_engine s) of
          (eng, err) \<Rightarrow> (s\<lparr>dm_file := f, dm_engine := eng\<rparr>, err = None))))"

section \<open>Handlers\<close>

datatype rules_body = RuleBody Rule | RulesBody "Rule list" | DeletedRule string | OkAction string | DaemonStatus bool identity "RuleStatus list"

type_synonym 'd rules_handler = "('d daemon, rules_body) handler"

definition status :: "('d, 'e) rules_env \<Rightarrow> 'd rules_handler" where
  "status e r vals who s = (s, writeJSON 200 (Some (DaemonStatus (sn_connected (dm_snap s)) (re_identity e) (Status (re_now e) (dm_engine s)))))"

definition rule_body :: "rules_body \<Rightarrow> rules_body response" where
  "rule_body b = writeJSON 200 (if (case b of RuleBody r \<Rightarrow> finite64 (r_watts r) \<and> finite64 (r_temp_c r)
      | RulesBody rs \<Rightarrow> list_all (\<lambda>r. finite64 (r_watts r) \<and> finite64 (r_temp_c r)) rs | _ \<Rightarrow> True) then Some b else None)"

definition getRules :: "('d, 'e) rules_env \<Rightarrow> 'd rules_handler" where
  "getRules e r vals who s = (s, rule_body (RulesBody (LoadRules_dep e s)))"

definition validate :: "cron_parser \<Rightarrow> Rule \<Rightarrow> bool" where
  "validate cron rule \<longleftrightarrow> list_all (\<lambda>a. (ValidateAction a :: unit action_error option) = None) (r_actions rule) \<and> Rule_Validate cron rule = None"

definition upserted :: "Rule \<Rightarrow> Rule list \<Rightarrow> Rule list" where
  "upserted rule rs = (let replaced = map (\<lambda>r. if r_name r = r_name rule then rule else r) rs
     in if list_ex (\<lambda>r. r_name r = r_name rule) rs then replaced else replaced @ [rule])"

definition with_defaults :: "Rule \<Rightarrow> string \<Rightarrow> Rule" where
  "with_defaults rule name =
     (let rule = (if name \<noteq> [] then rule\<lparr>r_name := name\<rparr> else rule)
      in if r_hysteresis_margin rule = 0 then rule\<lparr>r_hysteresis_margin := 5\<rparr> else rule)"

definition upsert :: "('d, 'e) rules_env \<Rightarrow> Rule \<Rightarrow> string \<Rightarrow> 'd daemon \<Rightarrow> 'd daemon \<times> rules_body response" where
  "upsert e rule name s =
     (let rule = with_defaults rule name
      in if \<not> validate (re_cron e) rule then (s, writeAPIError ''invalid_request'')
         else case SaveRules_dep e (upserted rule (LoadRules_dep e s)) s of
             (s, False) \<Rightarrow> (s, writeAPIError ''internal_error'')
           | (s, True) \<Rightarrow> (s, rule_body (RuleBody rule)))"

definition rule_names :: "string list" where
  "rule_names = [''name'', ''enabled'', ''condition'', ''state'', ''op'', ''port'', ''percent'', ''watts'', ''temp_c'', ''hold'', ''repeat_every'',
     ''hysteresis_margin'', ''cron'', ''actions'', ''confirm_shutdown'']"

definition decode_double :: "float64 \<Rightarrow> json \<Rightarrow> float64 option" where
  "decode_double old v = (case v of JNum t \<Rightarrow> ParseFloat t | JNull \<Rightarrow> Some old | _ \<Rightarrow> None)"

definition decode_rule :: "request \<Rightarrow> Rule option" where
  "decode_rule r = Option.bind (decodeJSON rule_names r) (\<lambda>ms.
     Option.bind (field decode_string [] ''name'' ms) (\<lambda>name.
     Option.bind (field decode_bool False ''enabled'' ms) (\<lambda>enabled.
     Option.bind (field decode_string [] ''condition'' ms) (\<lambda>condition.
     Option.bind (field decode_string [] ''state'' ms) (\<lambda>st.
     Option.bind (field decode_string [] ''op'' ms) (\<lambda>op.
     Option.bind (field decode_string [] ''port'' ms) (\<lambda>port.
     Option.bind (field decode_int 0 ''percent'' ms) (\<lambda>percent.
     Option.bind (field decode_double (Fin 0) ''watts'' ms) (\<lambda>watts.
     Option.bind (field decode_double (Fin 0) ''temp_c'' ms) (\<lambda>temp_c.
     Option.bind (field decode_int 0 ''hold'' ms) (\<lambda>hold.
     Option.bind (field decode_int 0 ''repeat_every'' ms) (\<lambda>repeat_every.
     Option.bind (field decode_int 0 ''hysteresis_margin'' ms) (\<lambda>margin.
     Option.bind (field decode_string [] ''cron'' ms) (\<lambda>cron.
     Option.bind (field decode_string_list [] ''actions'' ms) (\<lambda>acts.
     Option.bind (field decode_bool False ''confirm_shutdown'' ms) (\<lambda>confirm.
       Some \<lparr>r_name = name, r_enabled = enabled, r_condition = condition, r_state = st, r_op = op, r_port = port, r_percent = percent,
         r_watts = watts, r_temp_c = temp_c, r_hold = hold, r_repeat_every = repeat_every, r_hysteresis_margin = margin, r_cron = cron,
         r_actions = acts, r_confirm_shutdown = confirm\<rparr>))))))))))))))))"

definition postRule :: "('d, 'e) rules_env \<Rightarrow> 'd rules_handler" where
  "postRule e r vals who s = (case decode_rule r of None \<Rightarrow> (s, writeAPIError ''invalid_request'') | Some rule \<Rightarrow> upsert e rule [] s)"

definition value_of :: "(string \<times> string) list \<Rightarrow> string \<Rightarrow> string" where
  "value_of vals n = (case map_of vals n of None \<Rightarrow> [] | Some v \<Rightarrow> v)"

definition putRule :: "('d, 'e) rules_env \<Rightarrow> 'd rules_handler" where
  "putRule e r vals who s = (case decode_rule r of None \<Rightarrow> (s, writeAPIError ''invalid_request'')
     | Some rule \<Rightarrow> upsert e rule (value_of vals ''name'') s)"


definition deviceAction :: "('d, 'e) rules_env \<Rightarrow> 'd rules_handler" where
  "deviceAction e r vals who s = (case decodeJSON [''action''] r of
      None \<Rightarrow> (s, writeAPIError ''invalid_request'')
    | Some ms \<Rightarrow> (case field decode_string [] ''action'' ms of
        None \<Rightarrow> (s, writeAPIError ''invalid_request'')
      | Some a \<Rightarrow>
          if (ValidateAction a :: 'e action_error option) \<noteq> None then (s, writeAPIError ''invalid_request'')
          else if CutPrefix a ''webhook:'' \<noteq> None \<and> (case who of Some p \<Rightarrow> pr_role p \<noteq> RoleAdmin | None \<Rightarrow> True)
          then (s, writeAPIError ''admin_required'')
          else let snap = dm_snap s
               in case Execute (re_device e) (re_post e) ''Link-Power'' [a] snap ''manual'' (sn_updated_at snap) (dm_dev s) of
                   (d, errs) \<Rightarrow> (s\<lparr>dm_dev := d\<rparr>, if errs \<noteq> [] then writeAPIError ''ble_operation_failed'' else writeJSON 200 (Some (OkAction a)))))"

section \<open>The daemon's ticks\<close>

fun run_firings :: "('d, 'e) Device \<Rightarrow> ('d, 'e) http_post \<Rightarrow> snapshot \<Rightarrow> Firing list \<Rightarrow> 'd \<Rightarrow> 'd" where
  "run_firings dev post snap [] d = d"
| "run_firings dev post snap (f # fs) d =
     run_firings dev post snap fs (fst (Execute dev post ''Link-Power'' (r_actions (f_rule f)) snap (r_name (f_rule f)) (f_at f) d))"

definition tickOnce :: "('d, 'e) rules_env \<Rightarrow> 'd daemon \<Rightarrow> 'd daemon" where
  "tickOnce e s = (case Tick (dm_snap s) (re_now e) (dm_engine s) of
      (eng, fs) \<Rightarrow> s\<lparr>dm_engine := eng, dm_dev := run_firings (re_device e) (re_post e) (dm_snap s) fs (dm_dev s)\<rparr>)"

text \<open>The branch of the main loop after \<^verbatim>\<open>SIGHUP\<close>.\<close>

definition reload_rules :: "('d, 'e) rules_env \<Rightarrow> 'd daemon \<Rightarrow> 'd daemon" where
  "reload_rules e s = (case Load_file (re_load_fails e) (re_cron e) (dm_file s) of
      Inl _ \<Rightarrow> s
    | Inr c \<Rightarrow> s\<lparr>dm_engine := fst (SetRules (re_cron e) (c_rules c) (dm_engine s))\<rparr>)"

section \<open>Changing the rules\<close>





lemma build_rules: "\<forall>r \<in> set rs. Rule_Validate cron r = None \<Longrightarrow> \<exists>sts. build cron rs = Inr sts \<and> map rs_rule sts = rs"
proof (induction rs)
  case (Cons r rs)
  then obtain sts where "build cron rs = Inr sts" "map rs_rule sts = rs" by auto
  moreover have "\<exists>s. cron (r_cron r) = Inr s" if "r_condition r = ''schedule''"
  proof -
    have "validate_condition cron r = None" using Cons.prems by (simp add: Rule_Validate_def split: if_splits option.splits)
    with that show ?thesis by (simp add: validate_condition_def split: if_splits sum.splits)
  qed
  ultimately show ?case by (cases "r_condition r = ''schedule''") (auto simp: Let_def)
qed simp

lemma SetRules_rules:
  assumes "\<forall>r \<in> set rs. Rule_Validate cron r = None"
  shows "\<exists>eng. SetRules cron rs e = (eng, None) \<and> map rs_rule eng = rs"
proof -
  have "rs_rule (carry_over e st) = rs_rule st" for st by (auto simp: carry_over_def Let_def split: option.splits)
  with build_rules [OF assms] show ?thesis by (auto simp: SetRules_def comp_def)
qed

text \<open>A configuration file that loads, and whose rules hold values of their Go types.\<close>

definition loads_as :: "cron_parser \<Rightarrow> config_file option \<Rightarrow> Config \<Rightarrow> bool" where
  "loads_as cron f c \<longleftrightarrow> Load cron (map_option cf_data f) = Inr c \<and> (\<exists>d. read_doc (map_option cf_data f) = Inr d \<and> list_all wf_section d) \<and>
     (\<forall>r \<in> set (c_rules c). go_rule r)"

text \<open>The daemon follows a configuration: the file loads to it and the engine runs its rules.\<close>

definition follows_rules :: "cron_parser \<Rightarrow> Config \<Rightarrow> 'd daemon \<Rightarrow> bool" where
  "follows_rules cron c s \<longleftrightarrow> Load cron (map_option cf_data (dm_file s)) = Inr c \<and> map rs_rule (dm_engine s) = c_rules c"

lemma SaveRules_error_keeps: "SaveRules fails c f = (f', Some err) \<Longrightarrow> f' = f"
  by (auto simp: SaveRules_def rewrite_def writeConfigAtomic_def writeConfigAtomicWithMode_def split: option.splits sum.splits if_splits)

lemma SaveRules_dep_cases:
  assumes "loads_as (re_cron e) (dm_file s) c" and "\<forall>r \<in> set rs. go_rule r \<and> Rule_Validate (re_cron e) r = None"
    and "SaveRules_dep e rs s = (s', ok)"
  shows "if ok then follows_rules (re_cron e) (c\<lparr>c_rules := rs\<rparr>) s' \<and> dm_dev s' = dm_dev s \<and> dm_snap s' = dm_snap s else s' = s"
proof (cases "re_reload_fails e")
  case True
  then show ?thesis using assms(3) by (auto simp: SaveRules_dep_def Load_file_def)
next
  case False
  have l: "Load_file (re_reload_fails e) (re_cron e) (dm_file s) = Inr c" using assms(1) False by (simp add: loads_as_def Load_file_def)
  obtain f err where sv: "SaveRules (re_write_fails e) (c\<lparr>c_rules := rs\<rparr>) (dm_file s) = (f, err)" by force
  obtain eng where eng: "SetRules (re_cron e) rs (dm_engine s) = (eng, None)" "map rs_rule eng = rs" using SetRules_rules assms(2) by metis
  show ?thesis
  proof (cases err)
    case None
    have "Load (re_cron e) (map_option cf_data f) = Inr (c\<lparr>c_rules := rs\<rparr>)"
      using SaveRules_Load [OF sv [unfolded None], of "re_cron e" c] assms(1,2) by (auto simp: loads_as_def)
    with assms(3) None l sv eng show ?thesis by (auto simp: SaveRules_dep_def follows_rules_def)
  next
    case (Some x)
    with assms(3) l sv SaveRules_error_keeps [OF sv [unfolded Some]] show ?thesis by (auto simp: SaveRules_dep_def)
  qed
qed


lemma rule_body_status [simp]: "rs_status (rule_body b) = 200" by (simp add: rule_body_def writeJSON_def)

lemma error_not_200: "rs_status (writeAPIError c :: rules_body response) \<noteq> 200"
  using writeAPIError_status [of c, where ?'b = rules_body] by simp








text \<open>Without the assumption that the first read works the rules of the file can get lost: a rule is posted while \<^verbatim>\<open>LoadRules\<close> fails and
  \<^verbatim>\<open>SaveRules\<close> works again, the answer is 200, and the new rule is the only one left.\<close>

lemma failed_read_loses_rules:
  assumes "loads_as (re_cron e) (dm_file s) c" and "re_load_fails e" and "go_rule rule"
    and "upsert e rule name s = (s', rs)" and "rs_status rs = 200"
  shows "follows_rules (re_cron e) (c\<lparr>c_rules := [with_defaults rule name]\<rparr>) s'"
proof -
  have up: "upserted (with_defaults rule name) (LoadRules_dep e s) = [with_defaults rule name]"
    using assms(2) by (simp add: LoadRules_dep_def Load_file_def upserted_def)
  have v: "validate (re_cron e) (with_defaults rule name)" using assms(4,5) by (auto simp: upsert_def error_not_200 Let_def split: if_splits)
  obtain s1 b where u: "SaveRules_dep e [with_defaults rule name] s = (s1, b)" by force
  have "go_rule (with_defaults rule name)" using assms(3) by (simp add: with_defaults_def go_rule_def Let_def)
  with SaveRules_dep_cases [OF assms(1) _ u] v assms(4,5) up u show ?thesis
    by (cases b) (auto simp: upsert_def validate_def error_not_200 Let_def)
qed

text \<open>A webhook is called for an administrator only.\<close>

lemma webhook_needs_admin:
  assumes "decodeJSON [''action''] r = Some ms" and "field decode_string [] ''action'' ms = Some (''webhook:'' @ url)"
    and "\<And>p. who = Some p \<Longrightarrow> pr_role p \<noteq> RoleAdmin"
  shows "fst (deviceAction e r vals who s) = s \<and> rs_status (snd (deviceAction e r vals who s)) \<noteq> 200"
  using assms by (cases who) (auto simp: deviceAction_def error_not_200 CutPrefix_def Let_def split: if_splits)

end
