(* ===== verification/Api_Pairing.thy ===== *)
theory Api_Pairing
  imports Api_Device Device_Pairing
begin

text \<open>
  The handlers of device pairing, \<^verbatim>\<open>internal/api/pairing.go\<close>, over the pairing manager of \<open>Device_Pairing\<close>. A handler that starts an
  operation leaves its goroutine behind: the state keeps the bodies that were started.
\<close>

section \<open>Input\<close>

definition is_hexdigit :: "char \<Rightarrow> bool" where
  "is_hexdigit c \<longleftrightarrow> is_digit c \<or> CHR ''A'' \<le> c \<and> c \<le> CHR ''F'' \<or> CHR ''a'' \<le> c \<and> c \<le> CHR ''f''"

text \<open>The three regular expressions.\<close>

definition macRe :: "string \<Rightarrow> bool" where
  "macRe s \<longleftrightarrow> length s = 17 \<and> list_all (\<lambda>(i, c). if i mod 3 = 2 then c = CHR '':'' else is_hexdigit c) (enumerate 0 s)"

definition pinRe :: "string \<Rightarrow> bool" where
  "pinRe s \<longleftrightarrow> length s \<le> 6 \<and> list_all is_digit s"

definition pin6Re :: "string \<Rightarrow> bool" where
  "pin6Re s \<longleftrightarrow> length s = 6 \<and> list_all is_digit s"

section \<open>Errors\<close>

datatype pairing_failure = Busy | Prompt_failure prompt_error | Foreign_failure string

text \<open>The texts of the errors.\<close>

fun prompt_text :: "prompt_error \<Rightarrow> string" where
  "prompt_text ErrPasskeyTimeout = ''passkey prompt timed out''"
| "prompt_text ErrPasskeyCanceled = ''passkey prompt canceled''"
| "prompt_text ErrPasskeyNotWaiting = ''passkey prompt is not waiting''"
| "prompt_text ErrPasskeyInvalid = ''passkey must be exactly six ASCII digits''"
| "prompt_text ErrPasskeyAlreadyWaiting = ''passkey prompt already waiting''"

fun failure_text :: "pairing_failure \<Rightarrow> string" where
  "failure_text Busy = ''pairing operation already in progress''"
| "failure_text (Prompt_failure e) = prompt_text e"
| "failure_text (Foreign_failure m) = m"

text \<open>\<^verbatim>\<open>strings.ToLower\<close>, as far as a search for an ASCII text can tell: the capitals, the dotted capital i and the Kelvin sign become ASCII
  letters, every other rune beyond ASCII stays beyond ASCII.\<close>

function ToLower :: "string \<Rightarrow> string" where
  "ToLower s = (case s of
      [] \<Rightarrow> []
    | c # t \<Rightarrow>
        if take 2 s = [CHR 0xC4, CHR 0xB0] then CHR ''i'' # ToLower (drop 2 s)
        else if take 3 s = [CHR 0xE2, CHR 0x84, CHR 0xAA] then CHR ''k'' # ToLower (drop 3 s)
        else (if CHR ''A'' \<le> c \<and> c \<le> CHR ''Z'' then char_of (of_char c + 32 :: nat) else c) # ToLower t)"
  by pat_completeness auto
termination by (relation "measure length") auto

declare ToLower.simps [simp del]

fun Contains :: "string \<Rightarrow> string \<Rightarrow> bool" where
  "Contains [] sub = (sub = [])"
| "Contains (c # s) sub = (take (length sub) (c # s) = sub \<or> Contains s sub)"

definition pairingErr :: "pairing_failure \<Rightarrow> 'b response" where
  "pairingErr e =
     (if e = Busy then writeAPIError ''operation_in_progress''
      else let msg = ToLower (failure_text e)
           in if Contains msg ''pin not requested'' then writeAPIError ''pairing_pin_not_requested''
              else if Contains msg ''unsupported'' then writeAPIError ''capability_unsupported''
              else writeAPIError ''ble_operation_failed'')"

section \<open>Handlers\<close>

record 'e pairing_server =
  ps_world :: "'e pairing_world"
  ps_started :: "('e pairing_world \<Rightarrow> 'e pairing_world option) list"

datatype pairing_body = ManagerStatus PairingStatus | PairingState string

type_synonym 'e pairing_handler = "('e pairing_server, pairing_body) handler"

text \<open>\<^verbatim>\<open>pairing\<close>: the guard for platforms without a manager.\<close>

definition server_pairing :: "'e PairingDeps option \<Rightarrow> ('e PairingDeps \<Rightarrow> 'e pairing_handler) \<Rightarrow> 'e pairing_handler" where
  "server_pairing d next_handler r vals who s = (case d of None \<Rightarrow> (s, writeAPIError ''capability_unsupported'') | Some p \<Rightarrow> next_handler p r vals who s)"

definition pairingStatus :: "'e PairingDeps \<Rightarrow> 'e pairing_handler" where
  "pairingStatus p r vals who s =
     (if \<not> requireNoBody r then (s, writeAPIError ''invalid_request'')
      else (s, writeJSON 200 (Some (ManagerStatus (Pairing_Status p (ps_world s))))))"

definition started :: "'e pairing_server \<Rightarrow> ('e pairing_world \<times> ('e pairing_world \<Rightarrow> 'e pairing_world option)) option \<Rightarrow>
    'e pairing_server \<times> pairing_body response" where
  "started s res = (case res of
      None \<Rightarrow> (s, pairingErr Busy)
    | Some (w, body) \<Rightarrow> (s\<lparr>ps_world := w, ps_started := ps_started s @ [body]\<rparr>, writeJSON 202 (Some (PairingState ''pairing''))))"

definition pairingScan :: "'e PairingDeps \<Rightarrow> 'e pairing_handler" where
  "pairingScan p r vals who s =
     (if \<not> requireNoBody r then (s, writeAPIError ''invalid_request'')
      else case StartScan p (ps_world s) of
          None \<Rightarrow> (s, pairingErr Busy)
        | Some w \<Rightarrow> (s\<lparr>ps_world := w, ps_started := ps_started s @ [\<lambda>w. Some (scan_body p w)]\<rparr>, writeJSON 202 (Some (PairingState ''scanning''))))"

definition pairingStart :: "bool \<Rightarrow> 'e PairingDeps \<Rightarrow> 'e pairing_handler" where
  "pairingStart recover p r vals who s = (case decodeJSON [''mac'', ''pin''] r of
      None \<Rightarrow> (s, writeAPIError ''invalid_request'')
    | Some ms \<Rightarrow> (case (field decode_string [] ''mac'' ms, field decode_string [] ''pin'' ms) of
        (Some mac, Some pin) \<Rightarrow>
          if \<not> macRe mac then (s, writeAPIError ''invalid_request'')
          else if \<not> pinRe pin then (s, writeAPIError ''invalid_request'')
          else started s (if recover then StartRecover p mac pin (ps_world s) else StartPair p mac pin (ps_world s))
      | _ \<Rightarrow> (s, writeAPIError ''invalid_request'')))"

definition pairingPair :: "'e PairingDeps \<Rightarrow> 'e pairing_handler" where
  "pairingPair = pairingStart False"

definition pairingRecover :: "'e PairingDeps \<Rightarrow> 'e pairing_handler" where
  "pairingRecover = pairingStart True"

definition pairingRequestCode :: "'e PairingDeps \<Rightarrow> 'e pairing_handler" where
  "pairingRequestCode p r vals who s = (case decodeJSON [''mac'', ''recover''] r of
      None \<Rightarrow> (s, writeAPIError ''invalid_request'')
    | Some ms \<Rightarrow> (case (field decode_string [] ''mac'' ms, field (Api_Http.pointer decode_bool False) None ''recover'' ms) of
        (Some mac, Some recover) \<Rightarrow>
          if \<not> macRe mac then (s, writeAPIError ''invalid_request'')
          else started s (StartInteractive p mac (recover = Some True) (ps_world s))
      | _ \<Rightarrow> (s, writeAPIError ''invalid_request'')))"

text \<open>A call of the prompt that panics leaves the request without a response.\<close>

definition prompted :: "'e pairing_server \<Rightarrow> nat \<Rightarrow> string \<Rightarrow> ('e env \<times> prompt_error option) option \<Rightarrow> 'e pairing_server \<times> pairing_body response" where
  "prompted s code text res = (case res of
      None \<Rightarrow> (s, aborted)
    | Some (env, Some e) \<Rightarrow> (s\<lparr>ps_world := (ps_world s)\<lparr>pw_env := env\<rparr>\<rparr>, pairingErr (Prompt_failure e))
    | Some (env, None) \<Rightarrow> (s\<lparr>ps_world := (ps_world s)\<lparr>pw_env := env\<rparr>\<rparr>, writeJSON code (Some (PairingState text))))"

definition pairingSubmitPIN :: "'e PairingDeps \<Rightarrow> 'e pairing_handler" where
  "pairingSubmitPIN p r vals who s = (case decodeJSON [''pin''] r of
      None \<Rightarrow> (s, writeAPIError ''invalid_request'')
    | Some ms \<Rightarrow> (case field decode_string [] ''pin'' ms of
        Some pin \<Rightarrow>
          if \<not> pin6Re pin then (s, writeAPIError ''invalid_request'')
          else prompted s 202 ''pin_submitted'' (SubmitPIN pin (pw_env (ps_world s)))
      | None \<Rightarrow> (s, writeAPIError ''invalid_request'')))"

definition pairingCancel :: "'e PairingDeps \<Rightarrow> 'e pairing_handler" where
  "pairingCancel p r vals who s =
     (if \<not> requireNoBody r then (s, writeAPIError ''invalid_request'')
      else prompted s 200 ''canceled'' (Pairing_Cancel (pw_env (ps_world s))))"

definition pairingUnpair :: "'e PairingDeps \<Rightarrow> 'e pairing_handler" where
  "pairingUnpair p r vals who s =
     (if \<not> requireNoBody r then (s, writeAPIError ''invalid_request'')
      else let mac = path_value vals ''mac''
           in if \<not> macRe mac then (s, writeAPIError ''invalid_request'')
              else case Unpair p mac (ps_world s) of
                  (w, Inl _) \<Rightarrow> (s\<lparr>ps_world := w\<rparr>, pairingErr Busy)
                | (w, Inr (Some e)) \<Rightarrow> (s\<lparr>ps_world := w\<rparr>, pairingErr (Foreign_failure (pe_text e)))
                | (w, Inr None) \<Rightarrow> (s\<lparr>ps_world := w\<rparr>, writeJSON 200 (Some (PairingState ''removed''))))"

section \<open>One operation at a time\<close>

definition manager_busy :: "'e pairing_server \<Rightarrow> bool" where
  "manager_busy s \<longleftrightarrow> busyLocked (pw_pairing (ps_world s))"

text \<open>A request that starts an operation.\<close>

definition starts_one :: "'e pairing_server \<Rightarrow> 'e pairing_server \<times> pairing_body response \<Rightarrow> bool" where
  "starts_one s res = (case res of (s', rs) \<Rightarrow>
     if rs_status rs = 202 then \<not> manager_busy s \<and> manager_busy s' \<and> (\<exists>body. ps_started s' = ps_started s @ [body])
     else s' = s)"

lemma error_not_202: "rs_status (writeAPIError c :: pairing_body response) \<noteq> 202" "rs_status (pairingErr e :: pairing_body response) \<noteq> 202"
proof -
  show "rs_status (writeAPIError c :: pairing_body response) \<noteq> 202" for c
    using writeAPIError_status [of c, where ?'b = pairing_body] by simp
  then show "rs_status (pairingErr e :: pairing_body response) \<noteq> 202" by (simp add: pairingErr_def Let_def)
qed

lemma phase_keeps [simp]:
  "pg_stage (pw_pairing (phase d ph msg w)) = pg_stage (pw_pairing w)" "pg_target (pw_pairing (phase d ph msg w)) = pg_target (pw_pairing w)"
  by (simp_all add: phase_def setPhase_def)

lemma begin_busy: "begin_pairing stage now p = Some p' \<Longrightarrow> \<not> busyLocked p \<and> pg_stage p' = stage"
  by (auto simp: begin_pairing_def split: if_splits)

lemma startPair_busy:
  assumes "startPair d mac w = Some w'"
  shows "\<not> busyLocked (pw_pairing w)" "busyLocked (pw_pairing w')" "pg_target (pw_pairing w') = mac"
  using assms by (auto simp: startPair_def busyLocked_def dest: begin_busy split: option.splits)

lemma startScan_busy:
  assumes "StartScan d w = Some w'"
  shows "\<not> busyLocked (pw_pairing w)" "busyLocked (pw_pairing w')"
  using assms by (auto simp: StartScan_def busyLocked_def dest: begin_busy split: option.splits)

lemma started_one:
  assumes "\<And>w b. res = Some (w, b) \<Longrightarrow> \<exists>mac. startPair d mac (ps_world s) = Some w"
  shows "starts_one s (started s res)"
proof (cases res)
  case (Some x)
  obtain w b where x: "x = (w, b)" by force
  from assms [of w b] Some x obtain mac where "startPair d mac (ps_world s) = Some w" by auto
  from startPair_busy [OF this] show ?thesis
    by (simp add: starts_one_def started_def Some x writeJSON_def manager_busy_def)
qed (simp add: starts_one_def started_def error_not_202)

lemma starts_one_refused: "starts_one s (s, writeAPIError c)"
  by (simp add: starts_one_def error_not_202)

text \<open>C11. The pairing endpoints run one operation at a time: a request to scan, to pair, to recover or to request a code is answered 202
  only if no operation was running, and then exactly one goroutine is started and the manager is busy; with any
  other answer nothing has changed. The target of a pairing that was started has the form of a MAC address.\<close>

theorem pairing_one_at_a_time:
  "starts_one s (pairingScan p r vals who s) \<and> starts_one s (pairingPair p r vals who s) \<and> starts_one s (pairingRecover p r vals who s) \<and>
   starts_one s (pairingRequestCode p r vals who s) \<and>
   (\<forall>h \<in> {pairingPair, pairingRecover, pairingRequestCode}. case h p r vals who s of (s', rs) \<Rightarrow>
      rs_status rs = 202 \<longrightarrow> macRe (pg_target (pw_pairing (ps_world s'))))"
proof -
  have scan: "starts_one s (pairingScan p r vals who s)"
  proof (cases "StartScan p (ps_world s)")
    case (Some w)
    from startScan_busy [OF this] Some show ?thesis
      by (auto simp: pairingScan_def starts_one_def error_not_202 writeJSON_def manager_busy_def)
  qed (simp add: pairingScan_def starts_one_def error_not_202)
  have start: "starts_one s (pairingStart b p r vals who s)" for b
    unfolding pairingStart_def StartRecover_def StartPair_def
    by (auto intro!: started_one [where d = p] starts_one_refused split: option.splits)
  have code: "starts_one s (pairingRequestCode p r vals who s)"
    unfolding pairingRequestCode_def StartInteractive_def
    by (auto intro!: started_one [where d = p] starts_one_refused split: option.splits)
  have target: "macRe (pg_target (pw_pairing (ps_world s')))"
    if "started s (map_option (\<lambda>w. (w, f)) (startPair p mac (ps_world s))) = (s', rs)" "macRe mac" "rs_status rs = 202" for s' rs mac f
    using that by (auto simp: started_def error_not_202 dest: startPair_busy split: option.splits)
  have "case pairingStart b p r vals who s of (s', rs) \<Rightarrow> rs_status rs = 202 \<longrightarrow> macRe (pg_target (pw_pairing (ps_world s')))" for b
    unfolding pairingStart_def StartRecover_def StartPair_def
    by (auto simp: error_not_202 intro: target split: option.splits if_splits)
  moreover have "case pairingRequestCode p r vals who s of (s', rs) \<Rightarrow> rs_status rs = 202 \<longrightarrow> macRe (pg_target (pw_pairing (ps_world s')))"
    unfolding pairingRequestCode_def StartInteractive_def
    by (auto simp: error_not_202 intro: target split: option.splits if_splits)
  ultimately show ?thesis using scan start code by (simp add: pairingPair_def pairingRecover_def)
qed

section \<open>The prompt that nobody opened\<close>

text \<open>None of the texts of the prompt contains the words the mapping looks for, so that the code \<^verbatim>\<open>pairing_pin_not_requested\<close> never leaves
  the daemon: without a prompt a submitted PIN is answered 502, where the documentation of the API has 409.\<close>

definition lower :: "char \<Rightarrow> char" where
  "lower c = (if CHR ''A'' \<le> c \<and> c \<le> CHR ''Z'' then char_of (of_char c + 32 :: nat) else c)"

lemma ToLower_ascii: "list_all (\<lambda>c. (of_char c :: nat) < 128) s \<Longrightarrow> ToLower s = map lower s"
proof (induction s)
  case (Cons c s)
  then have "c \<noteq> CHR 0xC4" "c \<noteq> CHR 0xE2" by auto
  with Cons show ?case by (simp add: ToLower.simps [of "c # s"] lower_def)
qed (simp add: ToLower.simps)

lemma lower_capitals: "lower CHR ''A'' = CHR ''a''" "lower CHR ''S'' = CHR ''s''" "lower CHR ''C'' = CHR ''c''" "lower CHR ''I'' = CHR ''i''"
  by code_simp+

lemma lower_small: "\<not> (CHR ''A'' \<le> c \<and> c \<le> CHR ''Z'') \<Longrightarrow> lower c = c"
  by (auto simp: lower_def)

lemma prompt_lower:
  "ToLower (prompt_text ErrPasskeyInvalid) = ''passkey must be exactly six ascii digits''" "e \<noteq> ErrPasskeyInvalid \<Longrightarrow> ToLower (prompt_text e) = prompt_text e"
  by (simp_all add: ToLower_ascii lower_capitals lower_small less_eq_char_def)
    (cases e; simp add: ToLower_ascii lower_small less_eq_char_def)

lemma prompt_texts:
  "\<not> Contains (ToLower (prompt_text e)) ''pin not requested''" "\<not> Contains (ToLower (prompt_text e)) ''unsupported''"
proof -
  have "\<not> Contains ''passkey must be exactly six ascii digits'' ''pin not requested''" "\<not> Contains ''passkey must be exactly six ascii digits'' ''unsupported''"
    by simp_all
  moreover have "\<not> Contains (prompt_text e) ''pin not requested''" "\<not> Contains (prompt_text e) ''unsupported''" if "e \<noteq> ErrPasskeyInvalid"
    using that by (cases e; simp)+
  ultimately show "\<not> Contains (ToLower (prompt_text e)) ''pin not requested''" "\<not> Contains (ToLower (prompt_text e)) ''unsupported''"
    using prompt_lower by metis+
qed

lemma pairing_pin_error: "pairingErr (Prompt_failure e) = writeAPIError ''ble_operation_failed''"
  by (simp add: pairingErr_def Let_def prompt_texts)

theorem pin_not_requested_is_502:
  assumes "prompt_in_use (pw_env (ps_world s)) = None" and "decodeJSON [''pin''] r = Some ms"
    and "field decode_string [] ''pin'' ms = Some pin" and "pin6Re pin"
  shows "rs_status (snd (pairingSubmitPIN p r vals who s)) = 502"
  using assms by (simp add: pairingSubmitPIN_def prompted_def SubmitPIN_def pairing_pin_error writeAPIError_def errorCatalog_def)

definition scan_request :: request where
  "scan_request = \<lparr>rq_method = ''POST'', rq_path = ''/api/v1/pairing/scan'', rq_raw_query = [], rq_authorization = [], rq_remote_addr = [],
     rq_content_length = 0, rq_body = []\<rparr>"

definition demo_server :: "unit pairing_server" where
  "demo_server = \<lparr>ps_world = Device_Pairing.demo_world, ps_started = []\<rparr>"

theorem pairing_one_at_a_time_witness:
  "let res = pairingScan Device_Pairing.demo_deps scan_request [] None demo_server in
   rs_status (snd res) = 202 \<and> \<not> manager_busy demo_server \<and> manager_busy (fst res) \<and>
   fst (pairingScan Device_Pairing.demo_deps scan_request [] None (fst res)) = fst res"
proof -
  let ?run = "pairingScan Device_Pairing.demo_deps scan_request [] None"
  have b: "requireNoBody scan_request" by (simp add: requireNoBody_def scan_request_def)
  have ok: "rs_status (snd (?run demo_server)) = 202"
    by (simp add: pairingScan_def b StartScan_def begin_pairing_def busyLocked_def demo_server_def Device_Pairing.demo_world_def
        Device_Pairing.NewPairing_def writeJSON_def)
  from pairing_one_at_a_time [of demo_server "Device_Pairing.demo_deps" scan_request "[]" None] ok
  have 1: "\<not> manager_busy demo_server" "manager_busy (fst (?run demo_server))" by (auto simp: starts_one_def case_prod_beta)
  from pairing_one_at_a_time [of "fst (?run demo_server)" "Device_Pairing.demo_deps" scan_request "[]" None] 1(2)
  have "fst (?run (fst (?run demo_server))) = fst (?run demo_server)" by (auto simp: starts_one_def case_prod_beta split: if_splits)
  with ok 1 show ?thesis by (simp add: Let_def)
qed

end
