(* ===== verification/Api_Events.thy ===== *)
theory Api_Events
  imports Api_Device Auth_Registry
begin

text \<open>
  The event stream, \<^verbatim>\<open>events\<close> of \<^verbatim>\<open>internal/api/server.go\<close>: it subscribes to the revocation of the client's token and to the state store,
  sends the current snapshot and every later one, and ends when the token is revoked, the client leaves, a frame cannot be
  sent or the store drops it. \<^verbatim>\<open>select\<close> takes any of the cases that are ready. Whether a frame can be encoded and written is an argument.
\<close>

section \<open>The handler\<close>

record event_stream =
  es_revoked :: "(string \<times> nat) option"
  es_updates :: nat
  es_frames :: "snapshotView list"
  es_returned :: bool

type_synonym event_stores = "auth_store \<times> store"

definition cancelRevocation :: "(string \<times> nat) option \<Rightarrow> auth_store \<Rightarrow> auth_store" where
  "cancelRevocation revoked a = (case revoked of None \<Rightarrow> a | Some (token, ch) \<Rightarrow> cancel_revocation ch token a)"

text \<open>The deferred calls.\<close>

definition events_return :: "event_stream \<times> event_stores \<Rightarrow> event_stream \<times> event_stores" where
  "events_return = (\<lambda>(v, a, s). (v\<lparr>es_returned := True\<rparr>, cancelRevocation (es_revoked v) a, cancel_subscription (es_updates v) s))"

definition send_frame :: "(snapshotView \<Rightarrow> bool) \<Rightarrow> snapshot \<Rightarrow> event_stream \<times> event_stores \<Rightarrow> event_stream \<times> event_stores" where
  "send_frame send sn = (\<lambda>(v, a, s).
     if send (snapshotResponse sn) then (v\<lparr>es_frames := es_frames v @ [snapshotResponse sn]\<rparr>, a, s) else events_return (v, a, s))"

text \<open>Revocation is watched for clients; \<open>None\<close> is a token that is not active any more. The token store in the request context is the one
  that authenticated the request.\<close>

definition watch_revocation :: "nat \<Rightarrow> Principal option \<Rightarrow> auth_store \<Rightarrow> auth_store \<times> (string \<times> nat) option option" where
  "watch_revocation ch who a = (case who of
      None \<Rightarrow> (a, Some None)
    | Some p \<Rightarrow>
        if pr_role p \<noteq> RoleClient then (a, Some None)
        else case SubscribeRevocation ch (pr_token_id p) a of
            (a, NotActive) \<Rightarrow> (a, None)
          | (a, ActiveBootstrap) \<Rightarrow> (a, Some None)
          | (a, Watching ch) \<Rightarrow> (a, Some (Some (pr_token_id p, ch))))"

text \<open>Up to the loop: a refusal, or a stream.\<close>

definition events :: "nat \<Rightarrow> nat \<Rightarrow> bool \<Rightarrow> (snapshotView \<Rightarrow> bool) \<Rightarrow> Principal option \<Rightarrow> event_stores \<Rightarrow>
    (device_body response + event_stream) \<times> event_stores" where
  "events ch sub flusher send who = (\<lambda>(a, s). case watch_revocation ch who a of
       (a, None) \<Rightarrow> (Inl (writeAPIError ''unauthorized''), a, s)
     | (a, Some revoked) \<Rightarrow>
         if \<not> flusher then (Inl (writeAPIError ''internal_error''), cancelRevocation revoked a, s)
         else (case SubscribeWithSnapshot sub s of (s, initial) \<Rightarrow>
           (case send_frame send initial (\<lparr>es_revoked = revoked, es_updates = sub, es_frames = [], es_returned = False\<rparr>, a, s) of
             (v, a, s) \<Rightarrow> (Inr v, a, s))))"

datatype stream_event = Revoked | Disconnected | Snapshot_ready

definition events_step :: "(snapshotView \<Rightarrow> bool) \<Rightarrow> stream_event \<Rightarrow> event_stream \<times> event_stores \<Rightarrow> (event_stream \<times> event_stores) option" where
  "events_step send ev = (\<lambda>(v, a, s).
     if es_returned v then None
     else case ev of
         Revoked \<Rightarrow> (case es_revoked v of
           None \<Rightarrow> None
         | Some (token, ch) \<Rightarrow> if ch \<in> set (as_closed a) then Some (events_return (v, a, s)) else None)
       | Disconnected \<Rightarrow> Some (events_return (v, a, s))
       | Snapshot_ready \<Rightarrow> (case sub_receive (es_updates v) s of
           (s, None) \<Rightarrow> None
         | (s, Some None) \<Rightarrow> Some (events_return (v, a, s))
         | (s, Some (Some sn)) \<Rightarrow> Some (send_frame send sn (v, a, s))))"

section \<open>Others\<close>

text \<open>What other requests do to the token store: anything but closing the subscription of this stream.\<close>

inductive other_auth :: "(string \<Rightarrow> string) \<Rightarrow> nat \<Rightarrow> auth_store \<Rightarrow> auth_store \<Rightarrow> bool" for hash ch where
  authenticate: "other_auth hash ch a (fst (Authenticate hash fs clock secret a))"
| issue: "other_auth hash ch a (fst (Issue hash fs bytes now label a))"
| revoke: "other_auth hash ch a (fst (Revoke fs i a))"
| subscribe: "other_auth hash ch a (fst (SubscribeRevocation ch' i a))"
| cancel: "ch' \<noteq> ch \<Longrightarrow> other_auth hash ch a (cancel_revocation ch' i a)"
| invalidate: "other_auth hash ch a (InvalidateManagedSubscribers a)"

text \<open>The channel is registered for the token or closed.\<close>

definition watching :: "string \<Rightarrow> nat \<Rightarrow> auth_store \<Rightarrow> bool" where
  "watching i ch a \<longleftrightarrow> (\<exists>chs. map_of (as_subscribers a) i = Some chs \<and> ch \<in> set chs) \<or> ch \<in> set (as_closed a)"

lemma persist_frame [simp]: "as_subscribers (fst (persistLocked fs b a)) = as_subscribers a" "as_closed (fst (persistLocked fs b a)) = as_closed a"
  by (auto simp: persistLocked_def Let_def split: option.splits)

lemma notify_watching: "watching i ch a \<Longrightarrow> watching i ch (notifyRevokedLocked j a)"
  by (cases "i = j") (auto simp: watching_def notifyRevokedLocked_def delete_conv')

lemma notify_all_watching: "watching i ch a \<Longrightarrow> watching i ch (fold notifyRevokedLocked js a)"
  by (induction js arbitrary: a) (simp_all add: notify_watching)

lemma watching_cong: "as_subscribers a' = as_subscribers a \<Longrightarrow> as_closed a' = as_closed a \<Longrightarrow> watching i ch a \<Longrightarrow> watching i ch a'"
  by (simp add: watching_def)

lemma Authenticate_frame: "as_subscribers (fst (Authenticate hash fs clock secret a)) = as_subscribers a"
  "as_closed (fst (Authenticate hash fs clock secret a)) = as_closed a"
  by (auto simp: Authenticate_def Let_def case_prod_beta split: option.splits if_splits)

lemma Issue_frame: "as_subscribers (fst (Issue hash fs raw now label a)) = as_subscribers a" "as_closed (fst (Issue hash fs raw now label a)) = as_closed a"
  by (auto simp: Issue_def insert_record_def Let_def case_prod_beta split: option.splits if_splits)

lemma Revoke_watching: "watching i ch a \<Longrightarrow> watching i ch (fst (Revoke fs j a))"
proof -
  assume w: "watching i ch a"
  have "watching i ch (fst (persistLocked fs False (a\<lparr>as_records := r\<rparr>))\<lparr>as_last_error := e\<rparr>)" for r e
    by (rule watching_cong [OF _ _ w]) simp_all
  with w show ?thesis
    by (auto simp: Revoke_def Let_def case_prod_beta intro!: notify_watching split: option.splits) (simp add: watching_def)
qed

lemma removeAll_Nil: "removeAll x xs = [] \<Longrightarrow> y \<in> set xs \<Longrightarrow> y = x"
  by (auto simp: removeAll_filter_not_eq filter_empty_conv)

lemma other_auth_watching: "other_auth hash ch a a' \<Longrightarrow> watching i ch a \<Longrightarrow> watching i ch a'"
proof (induction rule: other_auth.induct)
  case (authenticate a fs clock secret)
  then show ?case by (rule watching_cong [OF Authenticate_frame])
next
  case (issue a fs bytes now label)
  then show ?case by (rule watching_cong [OF Issue_frame])
next
  case (revoke a fs j)
  then show ?case by (rule Revoke_watching)
next
  case (subscribe a ch' j)
  then show ?case
    by (cases "i = j") (auto simp: watching_def SubscribeRevocation_def update_conv' split: option.splits)
next
  case (cancel ch' a j)
  then show ?case
    by (cases "i = j") (auto simp: watching_def cancel_revocation_def update_conv' delete_conv' Let_def dest: removeAll_Nil split: option.splits)
next
  case (invalidate a)
  then have "watching i ch (a\<lparr>as_invalidated := True\<rparr>)" by (simp add: watching_def)
  then show ?case unfolding InvalidateManagedSubscribers_def by (rule notify_all_watching)
qed

lemma other_auth_inv: "other_auth hash ch a a' \<Longrightarrow> auth_inv a \<Longrightarrow> auth_inv a'"
  by (induction rule: other_auth.induct)
     (simp_all add: Authenticate_inv Issue_inv Revoke_inv SubscribeRevocation_inv cancel_revocation_inv Invalidate_inv)

section \<open>Streams over time\<close>

inductive stream_reach :: "(string \<Rightarrow> string) \<Rightarrow> event_stream \<times> event_stores \<Rightarrow> bool" for hash where
  start: "auth_inv a \<Longrightarrow> events ch sub flusher send who (a, s) = (Inr v, a', s') \<Longrightarrow> stream_reach hash (v, a', s')"
| step: "stream_reach hash (v, a, s) \<Longrightarrow> events_step send ev (v, a, s) = Some (v', a', s') \<Longrightarrow> stream_reach hash (v', a', s')"
| other_auth: "stream_reach hash (v, a, s) \<Longrightarrow> \<not> es_returned v \<Longrightarrow> (case es_revoked v of None \<Rightarrow> \<exists>ch. other_auth hash ch a a' | Some (token, ch) \<Rightarrow> other_auth hash ch a a') \<Longrightarrow>
    stream_reach hash (v, a', s)"
| other_store: "stream_reach hash (v, a, s) \<Longrightarrow> store_step s s' \<Longrightarrow> stream_reach hash (v, a, s')"

definition stream_inv :: "event_stream \<times> event_stores \<Rightarrow> bool" where
  "stream_inv = (\<lambda>(v, a, s). auth_inv a \<and> (\<not> es_returned v \<longrightarrow> (case es_revoked v of None \<Rightarrow> True | Some (token, ch) \<Rightarrow> watching token ch a)))"

lemma return_inv: "auth_inv a \<Longrightarrow> stream_inv (events_return (v, a, s))"
  by (auto simp: stream_inv_def events_return_def cancelRevocation_def cancel_revocation_inv split: option.splits)

lemma send_inv: "stream_inv (v, a, s) \<Longrightarrow> stream_inv (send_frame send sn (v, a, s'))"
  using return_inv [of a v s'] by (auto simp: send_frame_def stream_inv_def)

lemma SubscribeRevocation_watching: "SubscribeRevocation ch i a = (a', Watching ch') \<Longrightarrow> ch' = ch \<and> watching i ch a'"
  by (auto simp: SubscribeRevocation_def watching_def update_conv' split: if_splits option.splits)

lemma watch_inv:
  assumes "auth_inv a" and "watch_revocation ch who a = (a', Some revoked)"
  shows "auth_inv a'" and "case revoked of None \<Rightarrow> True | Some (token, ch) \<Rightarrow> watching token ch a'"
proof -
  obtain r where r: "who = None \<or> SubscribeRevocation ch (pr_token_id (the who)) a = (fst (SubscribeRevocation ch (pr_token_id (the who)) a), r)"
    by (metis prod.collapse)
  show "auth_inv a'" using assms SubscribeRevocation_inv [OF assms(1), of ch "pr_token_id (the who)"] r
    by (cases r) (auto simp: watch_revocation_def split: option.splits if_splits prod.splits)
  show "case revoked of None \<Rightarrow> True | Some (token, ch) \<Rightarrow> watching token ch a'"
    using assms(2) SubscribeRevocation_watching [of ch "pr_token_id (the who)" a a'] r
    by (cases r) (auto simp: watch_revocation_def split: option.splits if_splits prod.splits)
qed

lemma stream_start_inv:
  assumes "auth_inv a" and "events ch sub flusher send who (a, s) = (Inr v, a', s')"
  shows "stream_inv (v, a', s')"
proof -
  obtain a1 revoked where w: "watch_revocation ch who a = (a1, Some revoked)"
    using assms(2) by (auto simp: events_def split: option.splits prod.splits)
  let ?v = "\<lparr>es_revoked = revoked, es_updates = sub, es_frames = [], es_returned = False\<rparr>"
  obtain s1 initial where "send_frame send initial (?v, a1, s1) = (v, a', s')"
    using assms(2) by (auto simp: events_def w split: prod.splits if_splits)
  moreover have "stream_inv (?v, a1, s1)" using watch_inv [OF assms(1) w] by (simp add: stream_inv_def)
  ultimately show ?thesis using send_inv [of ?v a1 s1 send initial s1] by simp
qed

lemma stream_step_inv:
  assumes "events_step send ev (v, a, s) = Some x" and "stream_inv (v, a, s)"
  shows "stream_inv x"
proof -
  have a: "auth_inv a" using assms(2) by (simp add: stream_inv_def)
  show ?thesis using assms return_inv [OF a] send_inv [OF assms(2)]
    by (auto simp: events_step_def split: if_splits stream_event.splits option.splits prod.splits)
qed

lemma stream_reach_inv: "stream_reach hash x \<Longrightarrow> stream_inv x"
proof (induction rule: stream_reach.induct)
  case (other_auth v a s a')
  then show ?case using other_auth_watching other_auth_inv by (fastforce simp: stream_inv_def split: option.splits)
next
  case (other_store v a s s')
  then show ?case by (simp add: stream_inv_def)
qed (use stream_start_inv stream_step_inv in blast)+

text \<open>The channels registered in a token store, each with its token, and what a stream leaves behind when it has ended: nothing of its own.\<close>

definition watched_tokens :: "auth_store \<Rightarrow> (string \<times> nat) set" where
  "watched_tokens a = {(i, ch). \<exists>chs. map_of (as_subscribers a) i = Some chs \<and> ch \<in> set chs}"

definition left_nothing :: "event_stream \<Rightarrow> event_stores \<Rightarrow> bool" where
  "left_nothing v = (\<lambda>(a, s). (case es_revoked v of None \<Rightarrow> True | Some r \<Rightarrow> r \<notin> watched_tokens a) \<and> es_updates v \<notin> fst ` set (st_subs s))"

lemma registered_cancel: "watched_tokens (cancel_revocation ch i a) = watched_tokens a - {(i, ch)}"
  by (auto simp: watched_tokens_def cancel_revocation_def Let_def update_conv' delete_conv' dest: removeAll_Nil split: option.splits if_splits)

lemma registered_subscribe: "SubscribeRevocation ch i a = (a', r) \<Longrightarrow> watched_tokens a' = watched_tokens a \<union> (case r of Watching c \<Rightarrow> {(i, c)} | _ \<Rightarrow> {})"
  by (auto simp: watched_tokens_def SubscribeRevocation_def update_conv' split: option.splits if_splits)

lemma registered_watch:
  "watch_revocation ch who a = (a', r) \<Longrightarrow> watched_tokens a' = watched_tokens a \<union> (case r of Some (Some x) \<Rightarrow> {x} | _ \<Rightarrow> {})"
  by (auto simp: watch_revocation_def dest: registered_subscribe split: option.splits if_splits prod.splits subscription.splits)

lemma registered_cancelRevocation: "watched_tokens (cancelRevocation r a) = watched_tokens a - set_option r"
  by (cases r) (auto simp: cancelRevocation_def registered_cancel)

lemma return_leaves_nothing:
  "events_return (v, a, s) = (v', a', s') \<Longrightarrow> left_nothing v' (a', s') \<and> watched_tokens a' = watched_tokens a - set_option (es_revoked v) \<and> es_revoked v' = es_revoked v"
  using cancel_removes [of "es_updates v" s]
  by (clarsimp simp: events_return_def left_nothing_def registered_cancelRevocation simp del: image_iff split: option.splits) force?

lemma step_leaves_nothing:
  assumes "events_step send ev (v, a, s) = Some (v', a', s')" and "es_returned v'"
  shows "left_nothing v' (a', s')"
proof -
  have "\<not> es_returned v" using assms(1) by (auto simp: events_step_def split: if_splits)
  then obtain s1 where "events_return (v, a, s1) = (v', a', s')"
    using assms by (auto simp: events_step_def send_frame_def split: if_splits stream_event.splits option.splits prod.splits)
  then show ?thesis by (blast dest: return_leaves_nothing)
qed

lemma events_leaves_nothing:
  assumes "events ch sub flusher send who (a, s) = (r, a', s')"
  shows "case r of Inl _ \<Rightarrow> watched_tokens a' \<subseteq> watched_tokens a \<and> s' = s | Inr v \<Rightarrow> es_returned v \<longrightarrow> watched_tokens a' \<subseteq> watched_tokens a \<and> left_nothing v (a', s')"
proof -
  obtain a1 w where w: "watch_revocation ch who a = (a1, w)" by force
  note r = registered_watch [OF w]
  show ?thesis
  proof (cases "w = None \<or> \<not> flusher")
    case True
    then show ?thesis using assms r by (cases w) (auto simp: events_def w registered_cancelRevocation split: option.splits)
  next
    case False
    then obtain revoked where "w = Some revoked" by auto
    moreover obtain s1 initial where "SubscribeWithSnapshot sub s = (s1, initial)" by force
    ultimately have e: "w = Some revoked"
      "r = Inr (fst (send_frame send initial (\<lparr>es_revoked = revoked, es_updates = sub, es_frames = [], es_returned = False\<rparr>, a1, s1)))"
      "(a', s') = snd (send_frame send initial (\<lparr>es_revoked = revoked, es_updates = sub, es_frames = [], es_returned = False\<rparr>, a1, s1))"
      using assms False by (auto simp: events_def w split: prod.splits)
    show ?thesis
    proof (cases "send (snapshotResponse initial)")
      case False
      obtain v a2 s2 where v: "events_return (\<lparr>es_revoked = revoked, es_updates = sub, es_frames = [], es_returned = False\<rparr>, a1, s1) = (v, a2, s2)"
        by (metis prod_cases3)
      with False e(2,3) have "r = Inr v" "a' = a2" "s' = s2" by (simp_all add: send_frame_def)
      with return_leaves_nothing [OF v] r e(1) show ?thesis by (cases revoked) auto
    qed (simp add: e send_frame_def)
  qed
qed

lemma closed_when_gone:
  assumes "stream_inv (v, a, s)" and "\<not> es_returned v" and "es_revoked v = Some (token, ch)"
    and "token \<notin> fst ` set (as_records a) \<or> as_invalidated a"
  shows "ch \<in> set (as_closed a)"
proof -
  have "watching token ch a" "auth_inv a" using assms(1-3) by (simp_all add: stream_inv_def)
  moreover have "map_of (as_subscribers a) token = None"
    using \<open>auth_inv a\<close> assms(4) by (auto simp: auth_inv_def map_of_eq_None_iff)
  ultimately show ?thesis by (simp add: watching_def)
qed

text \<open>C21. Revocation reaches an open event stream: whatever other requests and file-system failures came in between, as soon as the token of
  its client is gone, or its store has been replaced, the stream can end at once without another frame. And however the handler
  ends, for a client or an administrator, in its loop, at the first frame or before it (a token that is not active, a writer that cannot be flushed), it
  leaves no subscription of its own behind, neither to the revocation nor to the state store.\<close>

theorem revocation_ends_stream:
  assumes "stream_reach hash (v, a, s)"
  shows "(\<forall>token ch. \<not> es_returned v \<longrightarrow> es_revoked v = Some (token, ch) \<longrightarrow> token \<notin> fst ` set (as_records a) \<or> as_invalidated a \<longrightarrow>
      (\<exists>v' a' s'. events_step send Revoked (v, a, s) = Some (v', a', s') \<and> es_returned v' \<and> es_frames v' = es_frames v)) \<and>
    (\<forall>ev v' a' s'. events_step send ev (v, a, s) = Some (v', a', s') \<longrightarrow> es_returned v' \<longrightarrow> left_nothing v' (a', s')) \<and>
    (\<forall>ch sub flusher who a0 s0 r a' s'. events ch sub flusher send who (a0, s0) = (r, a', s') \<longrightarrow>
      (case r of
         Inl _ \<Rightarrow> watched_tokens a' \<subseteq> watched_tokens a0 \<and> s' = s0
       | Inr v' \<Rightarrow> es_returned v' \<longrightarrow> watched_tokens a' \<subseteq> watched_tokens a0 \<and> left_nothing v' (a', s')))"
proof (intro conjI allI impI)
  fix token ch
  assume v: "\<not> es_returned v" "es_revoked v = Some (token, ch)" and "token \<notin> fst ` set (as_records a) \<or> as_invalidated a"
  from closed_when_gone [OF stream_reach_inv [OF assms] this] v
  show "\<exists>v' a' s'. events_step send Revoked (v, a, s) = Some (v', a', s') \<and> es_returned v' \<and> es_frames v' = es_frames v"
    by (simp add: events_step_def events_return_def)
qed (blast intro: step_leaves_nothing, rule events_leaves_nothing)

text \<open>A client whose token is gone gets no stream.\<close>

lemma stale_client_refused:
  assumes "pr_role p = RoleClient" and "pr_token_id p \<noteq> bootstrapID" and "pr_token_id p \<notin> fst ` set (as_records a) \<or> as_invalidated a"
  shows "events ch sub flusher send (Some p) (a, s) = (Inl (writeAPIError ''unauthorized''), a, s)"
  using assms by (auto simp: events_def watch_revocation_def SubscribeRevocation_def map_of_eq_None_iff [symmetric] split: option.splits)

definition demo_principal :: Principal where
  "demo_principal = \<lparr>pr_token_id = tk_id toy_record, pr_role = RoleClient\<rparr>"

theorem revocation_ends_stream_witness:
  "\<exists>v a s. stream_reach toy_hash (v, a, s) \<and> \<not> es_returned v \<and> es_revoked v = Some (tk_id toy_record, 3) \<and>
     (\<exists>v' a' s'. events_step (\<lambda>_. True) Revoked (v, fst (Revoke fs_ok (tk_id toy_record) a), s) = Some (v', a', s') \<and> es_returned v')"
proof -
  have m: "map_of (as_records toy_client_store) (tk_id toy_record) = Some toy_record"
    using toy_record_fresh(1) by (simp add: toy_client_store_def toy_records_def)
  have ni: "\<not> as_invalidated toy_client_store" by (simp add: toy_client_store_def empty_store_def)
  define a where "a = fst (SubscribeRevocation 3 (tk_id toy_record) toy_client_store)"
  have sub: "SubscribeRevocation 3 (tk_id toy_record) toy_client_store = (a, Watching 3)"
    using toy_record_fresh(1,4) m ni by (simp add: a_def SubscribeRevocation_def)
  define v where "v = \<lparr>es_revoked = Some (tk_id toy_record, 3), es_updates = 5, es_frames = [snapshotResponse (st_snap NewStore)], es_returned = False\<rparr>"
  define s where "s = fst (SubscribeWithSnapshot 5 NewStore)"
  have "events 3 5 True (\<lambda>_. True) (Some demo_principal) (toy_client_store, NewStore) = (Inr v, a, s)"
    by (simp add: events_def watch_revocation_def demo_principal_def sub SubscribeWithSnapshot_def send_frame_def v_def s_def)
  then have r: "stream_reach toy_hash (v, a, s)" using auth_reach_inv [OF toy_client_reach] by (rule stream_reach.start [rotated])
  have v: "\<not> es_returned v" "es_revoked v = Some (tk_id toy_record, 3)" by (simp_all add: v_def)
  let ?a = "fst (Revoke fs_ok (tk_id toy_record) a)"
  have r': "stream_reach toy_hash (v, ?a, s)" by (rule stream_reach.other_auth [OF r v(1)]) (simp add: v(2) other_auth.revoke)
  have "map_of (as_records a) (tk_id toy_record) = Some toy_record" using m by (simp add: a_def)
  then have "tk_id toy_record \<notin> fst ` set (as_records ?a)"
    using toy_record_fresh(1,4) by (auto simp: Revoke_def persistLocked_def persist_steps_def fs_ok_def Let_def notifyRevokedLocked_def AList.delete_eq)
  then have "\<exists>v' a' s'. events_step (\<lambda>_. True) Revoked (v, ?a, s) = Some (v', a', s') \<and> es_returned v'"
    using conjunct1 [OF revocation_ends_stream [OF r', of "\<lambda>_. True"], rule_format, OF v] by blast
  with r v show ?thesis by blast
qed

end
