(* ===== verification/Daemon.thy ===== *)
theory Daemon
  imports Live_Settings Listeners Api_Rules Api_Pairing Certificates
begin

text \<open>
  The daemon, \<^verbatim>\<open>cmd/wattlined/main.go\<close> and \<^verbatim>\<open>pairing_agent.go\<close>: initialization, the start of the components from one configuration,
  and the main loop. The operations of the components are those of their theories; the configuration file, the token file and the
  TLS files do not overlap.
\<close>

section \<open>The registration of the pairing agent\<close>

record 'e registration =
  ag_active :: bool
  ag_cancel :: "('e \<Rightarrow> 'e) option"

definition newPairingAgentRegistration :: "'e registration" where
  "newPairingAgentRegistration = \<lparr>ag_active = False, ag_cancel = None\<rparr>"

definition Ensure :: "('e \<Rightarrow> 'e \<times> (string + ('e \<Rightarrow> 'e) option)) \<Rightarrow> 'e registration \<times> 'e \<Rightarrow> ('e registration \<times> 'e) \<times> string option" where
  "Ensure register = (\<lambda>(a, e).
     if ag_active a then ((a, e), None)
     else case register e of
         (e, Inl err) \<Rightarrow> ((a, e), Some err)
       | (e, Inr cancel) \<Rightarrow> ((a\<lparr>ag_active := True, ag_cancel := cancel\<rparr>, e), None))"

definition Invalidate :: "'e registration \<times> 'e \<Rightarrow> 'e registration \<times> 'e" where
  "Invalidate = (\<lambda>(a, e).
     if \<not> ag_active a then (a, e)
     else (a\<lparr>ag_active := False, ag_cancel := None\<rparr>, case ag_cancel a of None \<Rightarrow> e | Some f \<Rightarrow> f e))"

section \<open>Initialization\<close>









section \<open>Start\<close>

definition listenerConfig :: "Config \<Rightarrow> ListenerConfig" where
  "listenerConfig cfg =
     \<lparr>lc_HTTP = \<lparr>ep_enabled = c_http_enabled cfg, ep_addr4 = c_http_addr4 cfg, ep_addr6 = c_http_addr6 cfg, ep_port = c_http_port cfg\<rparr>,
      lc_HTTPS = \<lparr>ep_enabled = c_https_enabled cfg, ep_addr4 = c_https_addr4 cfg, ep_addr6 = c_https_addr6 cfg, ep_port = c_https_port cfg\<rparr>,
      lc_cert = c_tls_cert cfg, lc_key = c_tls_key cfg\<rparr>"

text \<open>\<^verbatim>\<open>tlsIdentity\<close>: the certificate that is served, and the names of a new one.\<close>

record tlsIdentity =
  ti_served :: Certificate
  ti_names :: "string list"


definition tls_fingerprint :: "tlsIdentity \<Rightarrow> string" where
  "tls_fingerprint t = ct_SHA256 (ti_served t)"

definition tls_rotate :: "pki \<Rightarrow> tlsIdentity \<Rightarrow> Config \<Rightarrow> os \<Rightarrow> os \<times> (gerr + string)" where
  "tls_rotate P t current s = (case run_state (RotateCertificate P (c_tls_cert current) (c_tls_key current) (ti_names t)) s of
      (Inl err, s) \<Rightarrow> (s, Inl err)
    | (Inr rotated, s) \<Rightarrow> (s, Inr (ct_SHA256 rotated)))"




section \<open>The main loop\<close>

datatype 'd loop_event = Stop | Listener_error | Hangup | Ticked

text \<open>One pass of the loop, over the group and the state of the rules; an exit carries the error of \<^verbatim>\<open>run\<close>.\<close>

definition loop_step ::
    "('d, 'e) rules_env \<Rightarrow> (nat \<Rightarrow> string option) \<Rightarrow> 'd loop_event \<Rightarrow> Group \<times> 'd daemon \<Rightarrow> (Group \<times> 'd daemon) \<times> string option option" where
  "loop_step e result ev = (\<lambda>(g, s). case ev of
      Stop \<Rightarrow> (case Group_Shutdown result g of (g, err) \<Rightarrow> ((g, s), Some err))
    | Listener_error \<Rightarrow> (case gr_errs g of
        [] \<Rightarrow> ((g, s), None)
      | err # errs \<Rightarrow> (case Group_Shutdown result (g\<lparr>gr_errs := errs\<rparr>) of (g, _) \<Rightarrow> ((g, s), Some (Some (''API listener: '' @ err)))))
    | Hangup \<Rightarrow> ((g, reload_rules e s), None)
    | Ticked \<Rightarrow> ((g, tickOnce e s), None))"

section \<open>Helpers of the wiring\<close>

definition TrimSuffix :: "string \<Rightarrow> string \<Rightarrow> string" where
  "TrimSuffix s suf = (if length suf \<le> length s \<and> drop (length s - length suf) s = suf then take (length s - length suf) s else s)"

definition HasSuffix :: "string \<Rightarrow> string \<Rightarrow> bool" where
  "HasSuffix s suf \<longleftrightarrow> length suf \<le> length s \<and> drop (length s - length suf) s = suf"

definition preferredLANHost :: "string \<Rightarrow> string" where
  "preferredLANHost hostname =
     (let hostname = TrimSuffix (TrimSpace hostname) ''.''
      in if hostname = [] then ''wattline.local''
         else if HasSuffix (ToLower hostname) ''.local'' then hostname
         else hostname @ ''.local'')"

definition pairingConnectionProgress :: "snapshot \<Rightarrow> PairingPhase \<times> string \<times> bool" where
  "pairingConnectionProgress sn =
     (if sn_connected sn \<and> (case sn_connection sn of None \<Rightarrow> False | Some c \<Rightarrow> cn_phase c = ''ready'') then (PhaseNone, [], True)
      else if (case sn_connection sn of None \<Rightarrow> False | Some c \<Rightarrow> cn_phase c = ''handshaking'')
      then (PhaseVerifyingHandshake, ''Verifying the protected Wattline handshake'', False)
      else (PhaseReconnecting, ''Reconnecting to Link-Power'', False))"

text \<open>\<^verbatim>\<open>noDevice\<close> and \<^verbatim>\<open>deviceFunc\<close>: the device is looked up for every call.\<close>

definition deviceFunc :: "'e \<Rightarrow> ('d \<Rightarrow> ('d, 'e) Device option) \<Rightarrow> ('d, 'e) Device" where
  "deviceFunc errNotConnected getDev =
     \<lparr>dv_DCControl = (\<lambda>on d. case getDev d of Some dev \<Rightarrow> dv_DCControl dev on d | None \<Rightarrow> (d, Some errNotConnected)),
      dv_TypeCOutput = (\<lambda>on d. case getDev d of Some dev \<Rightarrow> dv_TypeCOutput dev on d | None \<Rightarrow> (d, Some errNotConnected)),
      dv_BypassControl = (\<lambda>on d. case getDev d of Some dev \<Rightarrow> dv_BypassControl dev on d | None \<Rightarrow> (d, Some errNotConnected)),
      dv_Restart = (\<lambda>d. case getDev d of Some dev \<Rightarrow> dv_Restart dev d | None \<Rightarrow> (d, Some errNotConnected)),
      dv_Shutdown = (\<lambda>d. case getDev d of Some dev \<Rightarrow> dv_Shutdown dev d | None \<Rightarrow> (d, Some errNotConnected))\<rparr>"

section \<open>A valid configuration can be served\<close>







lemma listener_config [simp]:
  "ep_enabled (lc_HTTP (listenerConfig c)) = c_http_enabled c" "ep_enabled (lc_HTTPS (listenerConfig c)) = c_https_enabled c"
  "ep_addr4 (lc_HTTP (listenerConfig c)) = c_http_addr4 c" "ep_addr6 (lc_HTTP (listenerConfig c)) = c_http_addr6 c"
  "ep_addr4 (lc_HTTPS (listenerConfig c)) = c_https_addr4 c" "ep_addr6 (lc_HTTPS (listenerConfig c)) = c_https_addr6 c"
  "ep_port (lc_HTTP (listenerConfig c)) = c_http_port c" "ep_port (lc_HTTPS (listenerConfig c)) = c_https_port c"
  by (simp_all add: listenerConfig_def)








section \<open>From one command to the next\<close>




lemma NewPairing_frame [simp]:
  "p_tokens (Client_Pairing.NewPairing rnd now t ttl on) = t" "p_always_on (Client_Pairing.NewPairing rnd now t ttl on) = on"
  "0 < ttl \<Longrightarrow> p_ttl (Client_Pairing.NewPairing rnd now t ttl on) = ttl"
  by (auto simp: Client_Pairing.NewPairing_def openLocked_def closeLocked_def observeNowLocked_def Let_def split: prod.splits option.splits)















end
