(* ===== verification/Discovery.thy ===== *)
theory Discovery
  imports Daemon Api_Clients "HOL-Library.Product_Lexorder" "HOL-Library.List_Lexorder" "HOL-Library.Char_ord"
begin

text \<open>
  Advertising of the daemon on the local network, \<^verbatim>\<open>internal/discovery\<close>, with the options that \<^verbatim>\<open>run\<close> leaves at their defaults. The
  state of the service holds the responders that run in zeroconf, and the store it is subscribed to. What OpenWrt, the kernel and the
  registrar answer may differ from one step to the next. The lower-casing of texts is that of \<open>Api_Pairing\<close>: the texts are
  compared with ASCII ones only.
\<close>

section \<open>The text record\<close>

record Metadata =
  md_Version :: string
  md_ID :: string
  md_Model :: string
  md_TLS :: string
  md_CID :: uint16
  md_Features :: uint32
  md_API :: int

text \<open>\<^verbatim>\<open>%04x\<close> and \<^verbatim>\<open>%08x\<close>.\<close>

definition pad_hex :: "nat \<Rightarrow> nat \<Rightarrow> string" where
  "pad_hex width n = (let t = hex_text n in replicate (width - length t) CHR ''0'' @ t)"

definition TXT :: "Metadata \<Rightarrow> string list" where
  "TXT m =
     (if TrimSpace (md_ID m) = [] then []
      else let cid = (if md_CID m \<noteq> 0 then pad_hex 4 (unat (md_CID m)) else []);
               features = (if md_Features m \<noteq> 0 then pad_hex 8 (unat (md_Features m)) else []);
               tls = ToLower (md_TLS m);
               tls = (if tls = [] then ''none'' else tls)
           in [''ver='' @ md_Version m, ''api='' @ Itoa (md_API m), ''id='' @ md_ID m, ''model='' @ md_Model m, ''cid='' @ cid,
               ''features='' @ features, ''tls='' @ tls, ''auth=pin''])"

definition PreferredPort :: "Config \<Rightarrow> int" where
  "PreferredPort cfg = (if c_https_enabled cfg then c_https_port cfg else if c_http_enabled cfg then c_http_port cfg else 0)"

section \<open>LAN membership\<close>

text \<open>A struct whose unknown members are ignored.\<close>

definition struct_members :: "string list \<Rightarrow> (string \<times> json) list \<Rightarrow> (string \<times> json) list" where
  "struct_members names ms = List.map_filter (\<lambda>(k, v). map_option (\<lambda>f. (f, v)) (struct_field names k)) ms"

definition decode_struct :: "string list \<Rightarrow> string \<Rightarrow> (string \<times> json) list option" where
  "decode_struct names raw = (case json_Unmarshal raw of
      Some (JObj ms) \<Rightarrow> Some (struct_members names ms)
    | Some JNull \<Rightarrow> Some []
    | _ \<Rightarrow> None)"

datatype lan_error = UbusMissing | UbusFailed | StatusInvalid | LanNotUp | NoLanDevice

definition device_name :: "string \<Rightarrow> bool" where
  "device_name name \<longleftrightarrow> name \<noteq> [] \<and> \<not> list_ex (\<lambda>c. c \<in> {CHR '' '', CHR 0x09, CHR 0x0D, CHR 0x0A, CHR ''/'', CHR 0x5C}) name"

definition ParseOpenWrtLANStatus :: "string \<Rightarrow> lan_error + string list" where
  "ParseOpenWrtLANStatus raw = (case decode_struct [''up'', ''device'', ''l3_device''] raw of
      None \<Rightarrow> Inl StatusInvalid
    | Some ms \<Rightarrow> (case (field (pointer decode_bool False) None ''up'' ms, field decode_string [] ''device'' ms, field decode_string [] ''l3_device'' ms) of
        (Some up, Some dev, Some l3) \<Rightarrow>
          if up = None \<or> up = Some False then Inl LanNotUp
          else let seen = remdups (filter device_name [TrimSpace dev, TrimSpace l3])
               in if seen = [] then Inl NoLanDevice else Inr (sort seen)
      | _ \<Rightarrow> Inl StatusInvalid))"

text \<open>The lookup of \<^verbatim>\<open>ubus\<close> and the output of its call, within the timeout.\<close>

definition LANInterfaces :: "string option \<Rightarrow> (string \<Rightarrow> string option) \<Rightarrow> lan_error + string list" where
  "LANInterfaces ubus exec = (case ubus of
      None \<Rightarrow> Inl UbusMissing
    | Some executable \<Rightarrow> (case exec executable of
        None \<Rightarrow> Inl UbusFailed
      | Some raw \<Rightarrow> ParseOpenWrtLANStatus raw))"

section \<open>The MagicDNS name\<close>

definition split_dots :: "string \<Rightarrow> string list" where
  "split_dots s = split_on CHR ''.'' s"

definition dns_label :: "string \<Rightarrow> bool" where
  "dns_label label \<longleftrightarrow> label \<noteq> [] \<and> length label \<le> 63 \<and> hd label \<noteq> CHR ''-'' \<and> last label \<noteq> CHR ''-'' \<and>
     list_all (\<lambda>c. CHR ''a'' \<le> c \<and> c \<le> CHR ''z'' \<or> is_digit c \<or> c = CHR ''-'') label"

definition validDNSName :: "string \<Rightarrow> bool" where
  "validDNSName name \<longleftrightarrow> name \<noteq> [] \<and> length name \<le> 253 \<and> CHR ''.'' \<in> set name \<and> list_all dns_label (split_dots name)"

definition decode_self :: "string option \<Rightarrow> json \<Rightarrow> string option option" where
  "decode_self old v = (case v of
      JNull \<Rightarrow> Some None
    | JObj ms \<Rightarrow> map_option Some (field decode_string (case old of None \<Rightarrow> [] | Some s \<Rightarrow> s) ''DNSName'' (struct_members [''DNSName''] ms))
    | _ \<Rightarrow> None)"

definition ParseTailscaleStatus :: "string \<Rightarrow> string" where
  "ParseTailscaleStatus raw = (case decode_struct [''Self''] raw of
      None \<Rightarrow> []
    | Some ms \<Rightarrow> (case field decode_self None ''Self'' ms of
        Some (Some dns) \<Rightarrow>
          let name = ToLower (TrimSuffix (TrimSpace dns) ''.'')
          in if validDNSName name then name else []
      | _ \<Rightarrow> []))"

definition Tailscale_Name :: "string option \<Rightarrow> (string \<Rightarrow> string option) \<Rightarrow> string" where
  "Tailscale_Name tailscale exec = (case tailscale of
      None \<Rightarrow> []
    | Some executable \<Rightarrow> (case exec executable of None \<Rightarrow> [] | Some raw \<Rightarrow> ParseTailscaleStatus raw))"

section \<open>Interfaces\<close>

record Interface =
  in_Index :: int
  in_Name :: string
  in_Flags :: "64 word"

abbreviation (input) FlagUp :: "64 word" where "FlagUp \<equiv> 1"
abbreviation (input) FlagLoopback :: "64 word" where "FlagLoopback \<equiv> 4"
abbreviation (input) FlagMulticast :: "64 word" where "FlagMulticast \<equiv> 16"

definition multicastCapable :: "Interface \<Rightarrow> bool" where
  "multicastCapable i \<longleftrightarrow>
     \<not> (and (in_Flags i) FlagUp = 0 \<or> and (in_Flags i) FlagMulticast = 0 \<or> and (in_Flags i) FlagLoopback \<noteq> 0)"

record addressSelector =
  as_address :: ip_addr
  as_zone :: string

fun WithoutZone :: "ip_addr \<Rightarrow> ip_addr" where
  "WithoutZone (IP4 b) = IP4 b" | "WithoutZone (IP6 b z) = IP6 b []"

definition parseAddress :: "string \<Rightarrow> addressSelector option" where
  "parseAddress value = map_option (\<lambda>a. \<lparr>as_address = Unmap (WithoutZone a), as_zone = zone_of a\<rparr>) (ParseAddr (TrimSpace value))"

definition interfaceAddress :: "string \<Rightarrow> addressSelector option" where
  "interfaceAddress value =
     (let value = TrimSpace value
      in parseAddress (if CHR ''/'' \<in> set value then rev (tl (dropWhile (\<lambda>c. c \<noteq> CHR ''/'') (rev value))) else value))"

datatype discovery_error = LanError lan_error | InterfacesError | AddrsError | ZoneRequired string | NoInterface

text \<open>The first loop: configured texts that are addresses, and the others, which are names.\<close>

fun split_selectors :: "string list \<Rightarrow> discovery_error + (string list \<times> addressSelector list)" where
  "split_selectors [] = Inr ([], [])"
| "split_selectors (value # rest) = (case parseAddress value of
      Some selector \<Rightarrow>
        if is6 (as_address selector) \<and> isLinkLocalUnicast (as_address selector) \<and> as_zone selector = [] then Inl (ZoneRequired value)
        else map_sum id (\<lambda>(names, ips). (names, selector # ips)) (split_selectors rest)
    | None \<Rightarrow> map_sum id (\<lambda>(names, ips). (value # names, ips)) (split_selectors rest))"

definition owns_address :: "Interface \<Rightarrow> addressSelector list \<Rightarrow> string list \<Rightarrow> bool" where
  "owns_address i ips raws \<longleftrightarrow> list_ex (\<lambda>raw. case interfaceAddress raw of
      None \<Rightarrow> False
    | Some candidate \<Rightarrow> list_ex (\<lambda>selector. as_address selector = as_address candidate \<and>
        (as_zone selector = [] \<or> as_zone selector = in_Name i) \<and> (as_zone candidate = [] \<or> as_zone candidate = in_Name i)) ips) raws"

definition interface_matches :: "(Interface \<Rightarrow> unit + string list) \<Rightarrow> string list \<Rightarrow> addressSelector list \<Rightarrow> Interface \<Rightarrow> discovery_error + bool" where
  "interface_matches addrs names ips i =
     (if in_Name i \<in> set names then Inr True
      else if ips = [] then Inr False
      else case addrs i of Inl _ \<Rightarrow> Inl AddrsError | Inr raws \<Rightarrow> Inr (owns_address i ips raws))"

text \<open>The second loop.\<close>

fun select_interfaces :: "(Interface \<Rightarrow> unit + string list) \<Rightarrow> string list \<Rightarrow> string list \<Rightarrow> addressSelector list \<Rightarrow> int list \<Rightarrow> Interface list \<Rightarrow>
    discovery_error + Interface list" where
  "select_interfaces addrs lan names ips seen [] = Inr []"
| "select_interfaces addrs lan names ips seen (i # is) =
     (if \<not> multicastCapable i \<or> in_Name i \<notin> set lan then select_interfaces addrs lan names ips seen is
      else case interface_matches addrs names ips i of
          Inl e \<Rightarrow> Inl e
        | Inr m \<Rightarrow>
            if m \<and> in_Index i \<notin> set seen then map_sum id (Cons i) (select_interfaces addrs lan names ips (in_Index i # seen) is)
            else select_interfaces addrs lan names ips seen is)"

definition ResolveInterfaces :: "string list \<Rightarrow> (unit + Interface list) \<Rightarrow> (Interface \<Rightarrow> unit + string list) \<Rightarrow> lan_error + string list \<Rightarrow>
    discovery_error + Interface list" where
  "ResolveInterfaces selectors interfaces addrs membership = (case membership of
      Inl e \<Rightarrow> Inl (LanError e)
    | Inr lan \<Rightarrow> (case interfaces of
        Inl _ \<Rightarrow> Inl InterfacesError
      | Inr is \<Rightarrow> (case split_selectors selectors of
          Inl e \<Rightarrow> Inl e
        | Inr (names, ips) \<Rightarrow> map_sum id (sort_key (\<lambda>i. (in_Index i, in_Name i))) (select_interfaces addrs lan names ips [] is))))"

section \<open>What should be published\<close>

record publication =
  pb_key :: string
  pb_interfaceKey :: string
  pb_instance :: string
  pb_port :: int
  pb_txt :: "string list"
  pb_interfaces :: "Interface list"

datatype register_result = Registered | RegisteredNil | RegisterFailed

record discovery_env =
  de_Version :: string
  de_Hostname :: string
  de_Config :: "Config option"
  de_TLSFingerprint :: string
  de_lan :: "lan_error + string list"
  de_interfaces :: "unit + Interface list"
  de_addrs :: "Interface \<Rightarrow> unit + string list"
  de_register :: "publication \<Rightarrow> register_result"

text \<open>\<^verbatim>\<open>discoveryOptions\<close>: the current settings, with the listeners that were started.\<close>

definition discovery_config :: "ListenerConfig \<Rightarrow> live \<Rightarrow> Config" where
  "discovery_config served l = (live_current l)
     \<lparr>c_http_enabled := ep_enabled (lc_HTTP served), c_http_port := ep_port (lc_HTTP served),
      c_https_enabled := ep_enabled (lc_HTTPS served), c_https_port := ep_port (lc_HTTPS served)\<rparr>"

definition interface_text :: "Interface \<Rightarrow> string" where
  "interface_text i = CHR 0x00 # Itoa (in_Index i) @ '':'' @ in_Name i"

definition lower_hex_char :: "char \<Rightarrow> bool" where
  "lower_hex_char c \<longleftrightarrow> CHR ''0'' \<le> c \<and> c \<le> CHR ''9'' \<or> CHR ''a'' \<le> c \<and> c \<le> CHR ''f''"

text \<open>The \<^verbatim>\<open>tls\<close> value; \<open>None\<close> is a certificate whose fingerprint is not known.\<close>

definition tls_value :: "discovery_env \<Rightarrow> Config \<Rightarrow> string option" where
  "tls_value e cfg =
     (if \<not> c_https_enabled cfg then Some ''none''
      else let tls = ToLower (TrimSpace (de_TLSFingerprint e))
           in if length tls = 64 \<and> list_all lower_hex_char tls then Some tls else None)"

definition publication_of :: "discovery_env \<Rightarrow> int \<Rightarrow> string \<Rightarrow> string list \<Rightarrow> Interface list \<Rightarrow> publication" where
  "publication_of e port mac txt is =
     (let inst = (if TrimSpace (de_Hostname e) = [] then ''Wattline '' @ mac else de_Hostname e);
          interfaceKey = concat (map interface_text is)
      in \<lparr>pb_key = inst @ [CHR 0x00] @ Itoa port @ [CHR 0x00] @ strings_Join [CHR 0x00] txt @ interfaceKey, pb_interfaceKey = interfaceKey,
          pb_instance = inst, pb_port = port, pb_txt = txt, pb_interfaces = is\<rparr>)"

definition desired :: "discovery_env \<Rightarrow> identity option \<Rightarrow> discovery_error + publication option" where
  "desired e cached = (case de_Config e of
      None \<Rightarrow> Inr None
    | Some cfg \<Rightarrow>
        if \<not> c_mdns_enabled cfg then Inr None
        else let port = PreferredPort cfg
        in if port = 0 then Inr None
        else let mac = (case cached of None \<Rightarrow> [] | Some i \<Rightarrow> id_mac i);
                 mac = (if mac = [] then c_device_mac cfg else mac)
        in if TrimSpace mac = [] then Inr None
        else case tls_value e cfg of
            None \<Rightarrow> Inr None
          | Some tls \<Rightarrow>
              let txt = TXT \<lparr>md_Version = de_Version e, md_ID = mac, md_Model = (case cached of None \<Rightarrow> [] | Some i \<Rightarrow> id_model i), md_TLS = tls,
                    md_CID = (case cached of None \<Rightarrow> 0 | Some i \<Rightarrow> id_cid i), md_Features = (case cached of None \<Rightarrow> 0 | Some i \<Rightarrow> id_features i), md_API = 1\<rparr>
              in case ResolveInterfaces (c_mdns_interfaces cfg) (de_interfaces e) (de_addrs e) (de_lan e) of
                  Inl err \<Rightarrow> Inl err
                | Inr is \<Rightarrow> if is = [] then Inl NoInterface else Inr (Some (publication_of e port mac txt is)))"

definition discoveryIdentityKey :: "snapshot \<Rightarrow> string" where
  "discoveryIdentityKey sn = (case sn_device sn of
      None \<Rightarrow> []
    | Some d \<Rightarrow> id_mac d @ [CHR 0x00] @ id_model d @ [CHR 0x00] @ pad_hex 4 (unat (id_cid d)) @ [CHR 0x00] @ pad_hex 8 (unat (id_features d)))"

section \<open>The service\<close>

definition defaultRetryDelay :: "int \<Rightarrow> duration" where
  "defaultRetryDelay attempt =
     (let attempt = (if attempt < 0 then 0 else attempt);
          delay = second * 2 ^ nat (min attempt 5)
      in if delay > 30 * second then 30 * second else delay)"

abbreviation (input) RevalidateInterval :: duration where "RevalidateInterval \<equiv> 30 * second"

text \<open>The variables of \<^verbatim>\<open>Run\<close>: the active registration and its keys, the timers that are set, the attempts; the channel of \<^verbatim>\<open>Refresh\<close>, which holds
  one signal; the subscription; and the responders that run.\<close>

record advertiser =
  av_active :: "nat option"
  av_key :: string
  av_interfaceKey :: string
  av_retry :: "duration option"
  av_attempt :: int
  av_revalidate :: "duration option"
  av_identityKey :: string
  av_refresh :: bool
  av_updates :: nat
  av_running :: "(nat \<times> publication) list"
  av_next :: nat
  av_returned :: bool

definition NewService :: "advertiser" where
  "NewService = \<lparr>av_active = None, av_key = [], av_interfaceKey = [], av_retry = None, av_attempt = 0, av_revalidate = None, av_identityKey = [],
     av_refresh = False, av_updates = 0, av_running = [], av_next = 0, av_returned = False\<rparr>"

definition Refresh :: "advertiser \<Rightarrow> advertiser" where
  "Refresh a = a\<lparr>av_refresh := True\<rparr>"

definition stopRetry :: "bool \<Rightarrow> advertiser \<Rightarrow> advertiser" where
  "stopRetry reset a = a\<lparr>av_retry := None, av_attempt := (if reset then 0 else av_attempt a)\<rparr>"

definition stopRevalidate :: "advertiser \<Rightarrow> advertiser" where
  "stopRevalidate a = a\<lparr>av_revalidate := None\<rparr>"

definition scheduleRetry :: "advertiser \<Rightarrow> advertiser" where
  "scheduleRetry a = (if av_retry a \<noteq> None then a
     else a\<lparr>av_retry := Some (defaultRetryDelay (av_attempt a)), av_attempt := av_attempt a + 1\<rparr>)"

definition scheduleRevalidate :: "advertiser \<Rightarrow> advertiser" where
  "scheduleRevalidate a = (if av_revalidate a \<noteq> None then a else a\<lparr>av_revalidate := Some RevalidateInterval\<rparr>)"

definition Registration_Shutdown :: "nat \<Rightarrow> advertiser \<Rightarrow> advertiser" where
  "Registration_Shutdown i a = a\<lparr>av_running := filter (\<lambda>r. fst r \<noteq> i) (av_running a)\<rparr>"

definition revoke :: "advertiser \<Rightarrow> advertiser" where
  "revoke a = (case av_active a of
      None \<Rightarrow> a
    | Some i \<Rightarrow> (Registration_Shutdown i a)\<lparr>av_active := None, av_key := [], av_interfaceKey := []\<rparr>)"

definition register :: "discovery_env \<Rightarrow> publication \<Rightarrow> advertiser \<Rightarrow> advertiser" where
  "register e p a = (case de_register e p of
      Registered \<Rightarrow>
        let i = av_next a;
            a = a\<lparr>av_running := (i, p) # av_running a, av_next := i + 1\<rparr>;
            a = stopRevalidate (stopRetry True a);
            previous = av_active a;
            a = a\<lparr>av_active := Some i, av_key := pb_key p, av_interfaceKey := pb_interfaceKey p\<rparr>;
            a = (case previous of None \<Rightarrow> a | Some j \<Rightarrow> Registration_Shutdown j a)
        in scheduleRevalidate a
    | _ \<Rightarrow> scheduleRetry (stopRevalidate a))"

definition reconcile :: "discovery_env \<Rightarrow> snapshot \<Rightarrow> advertiser \<Rightarrow> advertiser" where
  "reconcile e sn a = (case desired e (sn_device sn) of
      Inl _ \<Rightarrow> scheduleRetry (revoke (stopRevalidate a))
    | Inr None \<Rightarrow> revoke (stopRevalidate (stopRetry True a))
    | Inr (Some p) \<Rightarrow>
        if pb_key p = av_key a then scheduleRevalidate (stopRetry True a)
        else register e p (if av_active a \<noteq> None \<and> pb_interfaceKey p \<noteq> av_interfaceKey a then revoke a else a))"

text \<open>\<^verbatim>\<open>Run\<close> up to its loop (\<open>cancelled\<close>: its context has ended before it starts), one pass of the loop for each case of its \<^verbatim>\<open>select\<close>, and the deferred calls.\<close>

definition Run_start :: "bool \<Rightarrow> discovery_env \<Rightarrow> nat \<Rightarrow> advertiser \<times> store \<Rightarrow> advertiser \<times> store" where
  "Run_start cancelled e sub = (\<lambda>(a, s).
     if cancelled then (a\<lparr>av_returned := True\<rparr>, s)
     else case SubscribeWithSnapshot sub s of (s, initial) \<Rightarrow>
       (reconcile e (st_snap s) (a\<lparr>av_updates := sub, av_identityKey := discoveryIdentityKey initial\<rparr>), s))"

datatype discovery_event = Cancelled | Updated | RefreshSignal | RetryDue | RevalidateDue

definition updated :: "discovery_env \<Rightarrow> snapshot \<Rightarrow> advertiser \<times> store \<Rightarrow> advertiser \<times> store" where
  "updated e sn = (\<lambda>(a, s).
     let key = discoveryIdentityKey sn
     in (if key \<noteq> av_identityKey a then reconcile e (st_snap s) (a\<lparr>av_identityKey := key\<rparr>) else a, s))"

definition Run_return :: "advertiser \<times> store \<Rightarrow> advertiser \<times> store" where
  "Run_return = (\<lambda>(a, s).
     let a = stopRevalidate (stopRetry False a);
         a = (case av_active a of None \<Rightarrow> a | Some i \<Rightarrow> Registration_Shutdown i a)
     in (a\<lparr>av_returned := True\<rparr>, cancel_subscription (av_updates a) s))"

definition Run_step :: "discovery_env \<Rightarrow> nat \<Rightarrow> discovery_event \<Rightarrow> advertiser \<times> store \<Rightarrow> (advertiser \<times> store) option" where
  "Run_step e sub ev = (\<lambda>(a, s).
     if av_returned a then None
     else case ev of
         Cancelled \<Rightarrow> Some (Run_return (a, s))
       | Updated \<Rightarrow> (case sub_receive (av_updates a) s of
           (s, None) \<Rightarrow> None
         | (s, Some (Some sn)) \<Rightarrow> Some (updated e sn (a, s))
         | (s, Some None) \<Rightarrow> (case SubscribeWithSnapshot sub (cancel_subscription (av_updates a) s) of
             (s, sn) \<Rightarrow> Some (updated e sn (a\<lparr>av_updates := sub\<rparr>, s))))
       | RefreshSignal \<Rightarrow> if av_refresh a then Some (reconcile e (st_snap s) (stopRevalidate (stopRetry True (a\<lparr>av_refresh := False\<rparr>))), s) else None
       | RetryDue \<Rightarrow> if av_retry a \<noteq> None then Some (reconcile e (st_snap s) (a\<lparr>av_retry := None\<rparr>), s) else None
       | RevalidateDue \<Rightarrow> if av_revalidate a \<noteq> None then Some (reconcile e (st_snap s) (a\<lparr>av_revalidate := None\<rparr>), s) else None)"

section \<open>Which interfaces are chosen\<close>

lemma select_interfaces_sound:
  "select_interfaces addrs lan names ips seen is = Inr r \<Longrightarrow>
   \<forall>i \<in> set r. i \<in> set is \<and> multicastCapable i \<and> in_Name i \<in> set lan \<and> interface_matches addrs names ips i = Inr True \<and> in_Index i \<notin> set seen"
proof (induction "is" arbitrary: seen r)
  case (Cons i "is")
  show ?case
  proof (cases "multicastCapable i \<and> in_Name i \<in> set lan")
    case True
    then obtain m where m: "interface_matches addrs names ips i = Inr m" using Cons.prems by (auto split: sum.splits)
    show ?thesis
    proof (cases "m \<and> in_Index i \<notin> set seen")
      case m': True
      then obtain r' where r': "select_interfaces addrs lan names ips (in_Index i # seen) is = Inr r'" "r = i # r'"
        using Cons.prems True m by (auto simp: map_sum_Inr)
      show ?thesis using Cons.IH [OF r'(1)] True m m' r'(2) by auto
    next
      case False
      then have "select_interfaces addrs lan names ips seen is = Inr r" using Cons.prems True m by (auto split: if_splits)
      from Cons.IH [OF this] show ?thesis by auto
    qed
  next
    case False
    then have "select_interfaces addrs lan names ips seen is = Inr r" using Cons.prems by auto
    from Cons.IH [OF this] show ?thesis by auto
  qed
qed simp

lemma ResolveInterfaces_sound:
  assumes "ResolveInterfaces selectors interfaces addrs membership = Inr r"
  obtains lan "is" names ips where "membership = Inr lan" "interfaces = Inr is" "split_selectors selectors = Inr (names, ips)"
    "\<forall>i \<in> set r. i \<in> set is \<and> multicastCapable i \<and> in_Name i \<in> set lan \<and> interface_matches addrs names ips i = Inr True"
proof -
  obtain lan "is" names ips r' where *: "membership = Inr lan" "interfaces = Inr is" "split_selectors selectors = Inr (names, ips)"
    "select_interfaces addrs lan names ips [] is = Inr r'" "set r = set r'"
    using assms by (auto simp: ResolveInterfaces_def map_sum_Inr split: sum.splits prod.splits)
  then show ?thesis using that select_interfaces_sound [OF *(4)] by auto
qed

section \<open>What the keys tell\<close>

lemma last_segment:
  assumes "x @ sep # a = y @ sep # b" and "sep \<notin> set a" and "sep \<notin> set b"
  shows "x = y" and "a = b"
proof -
  have "takeWhile (\<lambda>c. c \<noteq> sep) (rev (x @ sep # a)) = rev a" "takeWhile (\<lambda>c. c \<noteq> sep) (rev (y @ sep # b)) = rev b"
    using assms(2,3) by (auto simp: takeWhile_append2 takeWhile_tail)
  then show "a = b" using assms(1) by (metis rev_rev_ident)
  then show "x = y" using assms(1) by simp
qed

lemma segments_determined:
  assumes "u @ sep # m @ concat (map (\<lambda>t. sep # t) ts) = v @ sep # m @ concat (map (\<lambda>t. sep # t) us)"
    and "sep \<notin> set m" and "\<forall>t \<in> set (ts @ us). sep \<notin> set t \<and> t \<noteq> m"
  shows "ts = us"
  using assms(1,3)
proof (induction ts arbitrary: us rule: rev_induct)
  case Nil
  show ?case
  proof (cases us rule: rev_cases)
    case (snoc us' t)
    with Nil have "u @ sep # m = (v @ sep # m @ concat (map (\<lambda>t. sep # t) us')) @ sep # t" by simp
    from last_segment(2) [OF this assms(2)] Nil(2) snoc show ?thesis by simp
  qed simp
next
  case (snoc t ts)
  show ?case
  proof (cases us rule: rev_cases)
    case Nil
    with snoc have "(u @ sep # m @ concat (map (\<lambda>t. sep # t) ts)) @ sep # t = v @ sep # m" by simp
    from last_segment(2) [OF this _ assms(2)] snoc(3) show ?thesis by simp
  next
    case us: (snoc us' t')
    with snoc have eq: "(u @ sep # m @ concat (map (\<lambda>t. sep # t) ts)) @ sep # t = (v @ sep # m @ concat (map (\<lambda>t. sep # t) us')) @ sep # t'" by simp
    have "sep \<notin> set t" "sep \<notin> set t'" using snoc(3) us by auto
    from last_segment [OF eq this] snoc us show ?thesis by simp
  qed
qed

lemma Itoa_inj: "Itoa m = Itoa n \<Longrightarrow> m = n"
proof -
  have neg: "CHR ''-'' \<notin> set (utoa k)" for k using utoa_digits [of k] by (auto simp: list_all_iff is_digit_def less_eq_char_def)
  have u: "utoa k = utoa l \<Longrightarrow> k = l" for k l by (metis dec_val_utoa)
  assume "Itoa m = Itoa n"
  moreover have "CHR ''-'' # t \<noteq> utoa k" for t k using neg [of k] by (metis list.set_intros(1))
  ultimately show ?thesis using u [of "nat (- m)" "nat (- n)"] u [of "nat m" "nat n"] by (auto simp: Itoa_def split: if_splits dest: sym)
qed

definition identity_of :: "Interface \<Rightarrow> int \<times> string" where
  "identity_of i = (in_Index i, in_Name i)"

lemma Itoa_no_colon: "CHR '':'' \<notin> set (Itoa n)"
  using Itoa_chars [of "CHR '':''" n] by (auto simp: is_digit_def less_eq_char_def)

lemma interface_text_inj: "Itoa (in_Index i) @ '':'' @ in_Name i = Itoa (in_Index j) @ '':'' @ in_Name j \<Longrightarrow> identity_of i = identity_of j"
proof -
  assume eq: "Itoa (in_Index i) @ '':'' @ in_Name i = Itoa (in_Index j) @ '':'' @ in_Name j"
  have t: "takeWhile (\<lambda>c. c \<noteq> CHR '':'') (Itoa n @ '':'' @ s) = Itoa n" for n s
    by (subst takeWhile_append2) (use Itoa_no_colon [of n] in auto)
  have "Itoa (in_Index i) = Itoa (in_Index j)" using t eq by metis
  then show ?thesis using eq Itoa_inj by (simp add: identity_of_def)
qed

text \<open>The shape of every publication: its key ends in the last entry of the text record and the interfaces.\<close>

definition proper_publication :: "publication \<Rightarrow> bool" where
  "proper_publication p \<longleftrightarrow> (\<exists>u. pb_key p = u @ CHR 0x00 # ''auth=pin'' @ pb_interfaceKey p) \<and>
     pb_interfaceKey p = concat (map interface_text (pb_interfaces p)) \<and> (\<forall>i \<in> set (pb_interfaces p). CHR 0x00 \<notin> set (in_Name i))"

lemma Itoa_start: "Itoa n \<noteq> []" "hd (Itoa n) \<noteq> CHR ''a''" "CHR 0x00 \<notin> set (Itoa n)"
proof -
  show "Itoa n \<noteq> []" by (simp add: Itoa_def)
  then show "hd (Itoa n) \<noteq> CHR ''a''" using Itoa_chars [OF hd_in_set] by (fastforce simp: is_digit_def less_eq_char_def)
  show "CHR 0x00 \<notin> set (Itoa n)" using Itoa_chars [of "CHR 0x00" n] by (auto simp: is_digit_def less_eq_char_def)
qed

lemma key_interfaces:
  assumes "proper_publication p" and "proper_publication q" and "u @ pb_interfaceKey p = v @ pb_interfaceKey q"
    and "\<exists>x. u = x @ CHR 0x00 # ''auth=pin''" and "\<exists>y. v = y @ CHR 0x00 # ''auth=pin''"
  shows "map identity_of (pb_interfaces p) = map identity_of (pb_interfaces q)"
proof -
  let ?t = "\<lambda>i. Itoa (in_Index i) @ '':'' @ in_Name i"
  have key: "pb_interfaceKey p = concat (map (\<lambda>t. CHR 0x00 # t) (map ?t (pb_interfaces p)))" if "proper_publication p" for p
    using that by (simp add: proper_publication_def interface_text_def [abs_def] comp_def)
  have seg: "\<forall>t \<in> set (map ?t (pb_interfaces p)). CHR 0x00 \<notin> set t \<and> t \<noteq> ''auth=pin''" if "proper_publication p" for p
  proof -
    have "?t i \<noteq> ''auth=pin''" for i using Itoa_start(1,2) [of "in_Index i"] by (cases "Itoa (in_Index i)") auto
    then show ?thesis using that Itoa_start(3) by (auto simp: proper_publication_def)
  qed
  obtain x y where xy: "u = x @ CHR 0x00 # ''auth=pin''" "v = y @ CHR 0x00 # ''auth=pin''" using assms(4,5) by auto
  have "map ?t (pb_interfaces p) = map ?t (pb_interfaces q)"
    by (rule segments_determined [of x "CHR 0x00" "''auth=pin''" _ y])
       (use assms(3) xy key [OF assms(1)] key [OF assms(2)] seg [OF assms(1)] seg [OF assms(2)] in auto)
  then show ?thesis using interface_text_inj by (auto simp: list_eq_iff_nth_eq)
qed

lemma same_key: "proper_publication p \<Longrightarrow> proper_publication q \<Longrightarrow> pb_key p = pb_key q \<Longrightarrow>
    map identity_of (pb_interfaces p) = map identity_of (pb_interfaces q)"
proof -
  assume p: "proper_publication p" "proper_publication q" "pb_key p = pb_key q"
  then obtain u v where "pb_key p = (u @ CHR 0x00 # ''auth=pin'') @ pb_interfaceKey p" "pb_key q = (v @ CHR 0x00 # ''auth=pin'') @ pb_interfaceKey q"
    by (auto simp: proper_publication_def)
  with key_interfaces [OF p(1,2), of "u @ CHR 0x00 # ''auth=pin''" "v @ CHR 0x00 # ''auth=pin''"] p(3) show ?thesis by simp
qed

lemma same_interfaceKey: "proper_publication p \<Longrightarrow> proper_publication q \<Longrightarrow> pb_interfaceKey p = pb_interfaceKey q \<Longrightarrow>
    map identity_of (pb_interfaces p) = map identity_of (pb_interfaces q)"
  using key_interfaces [of p q "CHR 0x00 # ''auth=pin''" "CHR 0x00 # ''auth=pin''"] by auto

lemma proper_key: "proper_publication p \<Longrightarrow> pb_key p \<noteq> []"
  by (auto simp: proper_publication_def)

section \<open>The service over time\<close>

text \<open>Names of network interfaces are C strings, so that none has a zero byte.\<close>

definition named_interfaces :: "discovery_env \<Rightarrow> bool" where
  "named_interfaces e \<longleftrightarrow> (case de_interfaces e of Inl _ \<Rightarrow> True | Inr is \<Rightarrow> list_all (\<lambda>i. CHR 0x00 \<notin> set (in_Name i)) is)"

text \<open>The service may run on these interfaces: discovery is enabled, and each of them, by index and name, is
  a multicast interface that is up, belongs to the LAN and was asked for.\<close>

definition authorized :: "discovery_env \<Rightarrow> publication \<Rightarrow> bool" where
  "authorized e p \<longleftrightarrow> (\<exists>cfg lan is names ips. de_Config e = Some cfg \<and> c_mdns_enabled cfg \<and> de_lan e = Inr lan \<and> de_interfaces e = Inr is \<and>
     split_selectors (c_mdns_interfaces cfg) = Inr (names, ips) \<and>
     (\<forall>i \<in> set (pb_interfaces p). \<exists>j \<in> set is. identity_of j = identity_of i \<and> multicastCapable j \<and> in_Name j \<in> set lan \<and>
        interface_matches (de_addrs e) names ips j = Inr True))"

lemma authorized_cong: "authorized e p \<Longrightarrow> map identity_of (pb_interfaces q) = map identity_of (pb_interfaces p) \<Longrightarrow> authorized e q"
proof -
  assume a: "authorized e p" "map identity_of (pb_interfaces q) = map identity_of (pb_interfaces p)"
  then have "\<forall>i \<in> set (pb_interfaces q). \<exists>i' \<in> set (pb_interfaces p). identity_of i' = identity_of i"
    by (metis (no_types, lifting) imageE image_eqI list.set_map)
  with a(1) show ?thesis unfolding authorized_def by (elim ex_forward conj_forward) (assumption | metis)+
qed

lemma desired_proper:
  assumes "desired e cached = Inr (Some p)" and "named_interfaces e"
  shows "proper_publication p" and "authorized e p"
proof -
  obtain cfg mac md "is" where d: "de_Config e = Some cfg" "c_mdns_enabled cfg" "TrimSpace mac \<noteq> []" "md_ID md = mac"
    "ResolveInterfaces (c_mdns_interfaces cfg) (de_interfaces e) (de_addrs e) (de_lan e) = Inr is"
    "p = publication_of e (PreferredPort cfg) mac (TXT md) is"
    using assms(1) by (simp add: desired_def Let_def split: option.splits if_splits sum.splits) (metis Metadata.select_convs(2))+
  obtain lan all names ips where r: "de_lan e = Inr lan" "de_interfaces e = Inr all" "split_selectors (c_mdns_interfaces cfg) = Inr (names, ips)"
    "\<forall>i \<in> set is. i \<in> set all \<and> multicastCapable i \<and> in_Name i \<in> set lan \<and> interface_matches (de_addrs e) names ips i = Inr True"
    using d(5) by (rule ResolveInterfaces_sound)
  have "pb_interfaces p = is" by (simp add: d(6) publication_of_def Let_def)
  then show "authorized e p" using d(1,2) r unfolding authorized_def by blast
  have "\<forall>i \<in> set is. CHR 0x00 \<notin> set (in_Name i)" using assms(2) r(2,4) by (auto simp: named_interfaces_def list_all_iff)
  moreover have "\<exists>u. strings_Join [CHR 0x00] (TXT md) = u @ CHR 0x00 # ''auth=pin''" using d(3,4) by (simp add: TXT_def Let_def)
  ultimately show "proper_publication p" by (auto simp: proper_publication_def d(6) publication_of_def Let_def)
qed

text \<open>One responder at most, the active one, with the keys of its publication.\<close>

definition responder_ok :: "advertiser \<Rightarrow> bool" where
  "responder_ok a \<longleftrightarrow> (case av_active a of
      None \<Rightarrow> av_running a = [] \<and> av_key a = []
    | Some i \<Rightarrow> i < av_next a \<and> (\<exists>p. av_running a = [(i, p)] \<and> pb_key p = av_key a \<and> pb_interfaceKey p = av_interfaceKey a \<and> proper_publication p))"

definition timers_ok :: "advertiser \<Rightarrow> bool" where
  "timers_ok a \<longleftrightarrow> 0 \<le> av_attempt a \<and> (\<forall>d. av_retry a = Some d \<longrightarrow> second \<le> d \<and> d \<le> 30 * second) \<and>
     (\<forall>d. av_revalidate a = Some d \<longrightarrow> d = RevalidateInterval)"

definition watched :: "advertiser \<Rightarrow> bool" where
  "watched a \<longleftrightarrow> (av_running a \<noteq> [] \<longrightarrow> av_retry a \<noteq> None \<or> av_revalidate a \<noteq> None)"

lemma retry_delay_bounds: "second \<le> defaultRetryDelay n \<and> defaultRetryDelay n \<le> 30 * second"
proof -
  have "(1::int) \<le> 2 ^ k" for k by simp
  then show ?thesis by (auto simp: defaultRetryDelay_def Let_def)
qed

lemmas service_defs = stopRetry_def stopRevalidate_def scheduleRetry_def scheduleRevalidate_def Registration_Shutdown_def

lemma timers_steps:
  "timers_ok a \<Longrightarrow> timers_ok (stopRetry b a)" "timers_ok a \<Longrightarrow> timers_ok (stopRevalidate a)" "timers_ok a \<Longrightarrow> timers_ok (scheduleRetry a)"
  "timers_ok a \<Longrightarrow> timers_ok (scheduleRevalidate a)" "timers_ok a \<Longrightarrow> timers_ok (Registration_Shutdown i a)" "timers_ok a \<Longrightarrow> timers_ok (revoke a)"
  using retry_delay_bounds by (auto simp: timers_ok_def service_defs revoke_def split: option.splits)

lemma timers_reconcile: "timers_ok a \<Longrightarrow> timers_ok (reconcile e sn a)"
proof -
  have r: "timers_ok (register e p a)" if "timers_ok a" for p a
    using that retry_delay_bounds by (auto simp: register_def Let_def timers_ok_def service_defs split: register_result.splits option.splits)
  assume "timers_ok a"
  then show ?thesis by (auto simp: reconcile_def intro!: timers_steps r split: sum.splits option.splits)
qed

lemma responder_steps:
  "responder_ok a \<Longrightarrow> responder_ok (stopRetry b a)" "responder_ok a \<Longrightarrow> responder_ok (stopRevalidate a)" "responder_ok a \<Longrightarrow> responder_ok (scheduleRetry a)"
  "responder_ok a \<Longrightarrow> responder_ok (scheduleRevalidate a)" "responder_ok a \<Longrightarrow> responder_ok (revoke a)"
  "responder_ok a \<Longrightarrow> av_running (revoke a) = []"
  by (auto simp: responder_ok_def service_defs revoke_def split: option.splits)

lemma running_steps [simp]:
  "av_running (stopRetry b a) = av_running a" "av_running (stopRevalidate a) = av_running a" "av_running (scheduleRetry a) = av_running a"
  "av_running (scheduleRevalidate a) = av_running a" "av_retry (scheduleRetry a) \<noteq> None" "av_revalidate (scheduleRevalidate a) \<noteq> None"
  by (auto simp: service_defs)

text \<open>A registration: the new responder alone, or what was there before.\<close>

lemma register_cases:
  assumes "responder_ok a" and "proper_publication p"
  shows "responder_ok (register e p a) \<and> watched (register e p a) \<and>
    ((\<exists>i. av_running (register e p a) = [(i, p)]) \<or> av_running (register e p a) = av_running a)"
proof (cases "de_register e p")
  case Registered
  then show ?thesis using assms
    by (cases "av_active a") (auto simp: register_def Let_def responder_ok_def watched_def service_defs)
qed (use responder_steps(2,3) [OF assms(1)] responder_steps in \<open>auto simp: register_def watched_def\<close>)

lemma reconcile_ok:
  assumes "responder_ok a" and "named_interfaces e"
  shows "responder_ok (reconcile e sn a)" and "watched (reconcile e sn a)" and "\<forall>(i, p) \<in> set (av_running (reconcile e sn a)). authorized e p"
proof -
  note steps = responder_steps
  have "responder_ok (reconcile e sn a) \<and> watched (reconcile e sn a) \<and> (\<forall>(i, p) \<in> set (av_running (reconcile e sn a)). authorized e p)"
  proof (cases "desired e (sn_device sn)")
    case (Inl err)
    then show ?thesis using steps assms(1) by (simp add: reconcile_def watched_def)
  next
    case (Inr pub)
    show ?thesis
    proof (cases pub)
      case None
      then show ?thesis using Inr steps assms(1) by (simp add: reconcile_def watched_def)
    next
      case (Some p)
      note d = desired_proper [OF Inr [unfolded Some] assms(2)]
      have keep: "authorized e q" if "(i, q) \<in> set (av_running a)" "pb_key p = av_key a \<or> pb_interfaceKey p = av_interfaceKey a" for i q
      proof -
        have "proper_publication q" "pb_key q = av_key a" "pb_interfaceKey q = av_interfaceKey a"
          using that(1) assms(1) by (auto simp: responder_ok_def split: option.splits)
        with that(2) d(1) same_key [of q p] same_interfaceKey [of q p] show ?thesis by (intro authorized_cong [OF d(2)]) auto
      qed
      let ?b = "if av_active a \<noteq> None \<and> pb_interfaceKey p \<noteq> av_interfaceKey a then revoke a else a"
      have b: "responder_ok ?b" "\<forall>(i, q) \<in> set (av_running ?b). authorized e q"
        using steps(5,6) [OF assms(1)] assms(1) keep by (auto simp: responder_ok_def split: option.splits)
      show ?thesis
      proof (cases "pb_key p = av_key a")
        case True
        then show ?thesis using Inr Some steps assms(1) keep by (auto simp: reconcile_def watched_def)
      next
        case False
        then have "reconcile e sn a = register e p ?b" using Inr Some by (simp add: reconcile_def)
        then show ?thesis using register_cases [OF b(1) d(1), of e] b(2) d(2) by auto
      qed
    qed
  qed
  then show "responder_ok (reconcile e sn a)" "watched (reconcile e sn a)" "\<forall>(i, p) \<in> set (av_running (reconcile e sn a)). authorized e p" by auto
qed

text \<open>Runs of the service: between its steps others change the store and call \<^verbatim>\<open>Refresh\<close>.\<close>

inductive discovery_reach :: "advertiser \<times> store \<Rightarrow> bool" where
  start: "named_interfaces e \<Longrightarrow> a \<in> {NewService, Refresh NewService} \<Longrightarrow> discovery_reach (Run_start cancelled e sub (a, s))"
| step: "discovery_reach (a, s) \<Longrightarrow> named_interfaces e \<Longrightarrow> Run_step e sub ev (a, s) = Some (a', s') \<Longrightarrow> discovery_reach (a', s')"
| refresh: "discovery_reach (a, s) \<Longrightarrow> discovery_reach (Refresh a, s)"
| store: "discovery_reach (a, s) \<Longrightarrow> store_step s s' \<Longrightarrow> discovery_reach (a, s')"

definition service_inv :: "advertiser \<Rightarrow> bool" where
  "service_inv a \<longleftrightarrow> (if av_returned a then av_running a = [] \<and> av_retry a = None \<and> av_revalidate a = None else responder_ok a \<and> watched a) \<and> timers_ok a"

lemma returned_steps [simp]:
  "av_returned (stopRetry b a) = av_returned a" "av_returned (stopRevalidate a) = av_returned a" "av_returned (scheduleRetry a) = av_returned a"
  "av_returned (scheduleRevalidate a) = av_returned a" "av_returned (revoke a) = av_returned a" "av_returned (Registration_Shutdown i a) = av_returned a"
  by (auto simp: service_defs revoke_def split: option.splits)

lemma returned_reconcile [simp]: "av_returned (reconcile e sn a) = av_returned a"
  by (auto simp: reconcile_def register_def Let_def split: sum.splits option.splits register_result.splits)

text \<open>The fields that the loop writes before it reconciles do not matter to it.\<close>

lemma responder_fields [simp]:
  "responder_ok (a\<lparr>av_updates := u\<rparr>) = responder_ok a" "responder_ok (a\<lparr>av_identityKey := k\<rparr>) = responder_ok a" "responder_ok (a\<lparr>av_refresh := b\<rparr>) = responder_ok a"
  "responder_ok (a\<lparr>av_retry := r\<rparr>) = responder_ok a" "responder_ok (a\<lparr>av_revalidate := r\<rparr>) = responder_ok a"
  "timers_ok (a\<lparr>av_updates := u\<rparr>) = timers_ok a" "timers_ok (a\<lparr>av_identityKey := k\<rparr>) = timers_ok a" "timers_ok (a\<lparr>av_refresh := b\<rparr>) = timers_ok a"
  "timers_ok a \<Longrightarrow> timers_ok (a\<lparr>av_retry := None\<rparr>)" "timers_ok a \<Longrightarrow> timers_ok (a\<lparr>av_revalidate := None\<rparr>)"
  by (auto simp: responder_ok_def timers_ok_def split: option.splits)

lemma reconcile_inv: "\<not> av_returned a \<Longrightarrow> responder_ok a \<Longrightarrow> timers_ok a \<Longrightarrow> named_interfaces e \<Longrightarrow> service_inv (reconcile e sn a)"
  using reconcile_ok timers_reconcile by (simp add: service_inv_def)

lemma updated_inv: "\<not> av_returned a \<Longrightarrow> service_inv a \<Longrightarrow> named_interfaces e \<Longrightarrow> service_inv (fst (updated e sn (a, s)))"
  using reconcile_inv by (auto simp: updated_def Let_def service_inv_def)

lemma Run_return_effect:
  assumes "service_inv a" and "\<not> av_returned a" and "Run_return (a, s) = (a', s')"
  shows "service_inv a'" and "av_returned a'" and "av_running a' = []" and "av_updates a \<notin> fst ` set (st_subs s')"
proof -
  have "s' = cancel_subscription (av_updates a) s" using assms(3) by (auto simp: Run_return_def Let_def service_defs split: option.splits)
  then show "av_updates a \<notin> fst ` set (st_subs s')" using cancel_removes by simp
  have a': "av_running a' = [] \<and> av_returned a' \<and> av_retry a' = None \<and> av_revalidate a' = None \<and> av_attempt a' = av_attempt a"
    using assms by (auto simp: Run_return_def Let_def service_inv_def responder_ok_def service_defs split: option.splits)
  then show "service_inv a'" "av_returned a'" "av_running a' = []" using assms(1) by (auto simp: service_inv_def timers_ok_def)
qed

lemma step_inv:
  assumes "Run_step e sub ev (a, s) = Some (a', s')" and "service_inv a" and "named_interfaces e"
  shows "service_inv a'"
proof -
  have nr: "\<not> av_returned a" using assms(1) by (auto simp: Run_step_def split: if_splits)
  then have ok: "responder_ok a" "timers_ok a" using assms(2) by (auto simp: service_inv_def)
  show ?thesis
  proof (cases ev)
    case Cancelled
    then show ?thesis using assms nr Run_return_effect(1) [OF assms(2) nr] by (simp add: Run_step_def)
  next
    case Updated
    obtain s1 r where r: "sub_receive (av_updates a) s = (s1, r)" by force
    have "service_inv (a\<lparr>av_updates := sub\<rparr>)" using assms(2) by (auto simp: service_inv_def watched_def split: if_splits)
    with r Updated assms nr updated_inv [of a e _ s1] updated_inv [of "a\<lparr>av_updates := sub\<rparr>" e] show ?thesis
      by (auto simp: Run_step_def split: option.splits prod.splits) (metis fst_conv)+
  qed (use assms(1,3) nr ok timers_steps responder_steps in \<open>auto simp: Run_step_def intro!: reconcile_inv split: if_splits\<close>)
qed

lemma start_inv:
  assumes "named_interfaces e" and "a \<in> {NewService, Refresh NewService}"
  shows "service_inv (fst (Run_start cancelled e sub (a, s)))"
proof -
  have "\<not> av_returned a" "responder_ok a" "timers_ok a" "service_inv (a\<lparr>av_returned := True\<rparr>)"
    using assms(2) by (auto simp: NewService_def Refresh_def responder_ok_def timers_ok_def service_inv_def)
  then show ?thesis using assms(1) by (auto simp: Run_start_def intro!: reconcile_inv split: prod.splits)
qed

lemma refresh_inv: "service_inv a \<Longrightarrow> service_inv (Refresh a)"
  by (auto simp: service_inv_def Refresh_def watched_def split: if_splits)

lemma reach_inv: "discovery_reach x \<Longrightarrow> service_inv (fst x)"
proof (induction rule: discovery_reach.induct)
  case (step a s e sub ev a' s')
  then show ?case using step_inv by simp
qed (use start_inv refresh_inv in simp_all)

lemma timer_fires_authorized:
  assumes "service_inv a" and "named_interfaces e" and "Run_step e sub ev (a, s) = Some (a', s')" and "ev \<in> {RefreshSignal, RetryDue, RevalidateDue}"
  shows "\<forall>(i, p) \<in> set (av_running a'). authorized e p"
proof -
  have "\<not> av_returned a" using assms(3) by (auto simp: Run_step_def split: if_splits)
  then have "responder_ok a" using assms(1) by (simp add: service_inv_def)
  then have "\<exists>b. responder_ok b \<and> a' = reconcile e (st_snap s) b"
    using assms(3,4) responder_steps(1,2) by (auto simp: Run_step_def split: if_splits) (metis responder_fields(3-5))+
  then show ?thesis using reconcile_ok(3) [OF _ assms(2)] by blast
qed

lemma cancelled_stops:
  assumes "service_inv a" and "Run_step e sub Cancelled (a, s) = Some (a', s')"
  shows "av_running a' = [] \<and> av_retry a' = None \<and> av_revalidate a' = None \<and> av_updates a \<notin> fst ` set (st_subs s')"
proof -
  have "\<not> av_returned a" "Run_return (a, s) = (a', s')" using assms(2) by (auto simp: Run_step_def split: if_splits)
  from Run_return_effect [OF assms(1) this] show ?thesis by (simp add: service_inv_def)
qed

lemma service_inv_watched:
  assumes "service_inv a"
  shows "length (av_running a) \<le> 1" and "av_running a \<noteq> [] \<Longrightarrow> \<exists>d. d \<le> 30 * second \<and> (av_retry a = Some d \<or> av_revalidate a = Some d)"
  using assms by (auto simp: service_inv_def responder_ok_def watched_def timers_ok_def split: option.splits if_splits)

text \<open>C38. The service is advertised on the LAN only, and its authorization is checked again and again: at most one responder runs, and while one
  runs a timer of at most thirty seconds is set; when a timer fires or a refresh is seen, whatever OpenWrt, the kernel and the registrar
  answer, the responder that runs afterwards is on interfaces that are, at that moment, up, of the LAN, and configured; when the
  service is cancelled, no responder and no timer is left and the subscription has ended.\<close>

theorem advertised_on_lan_only:
  assumes "discovery_reach (a, s)"
  shows "length (av_running a) \<le> 1 \<and>
    (av_running a \<noteq> [] \<longrightarrow> (\<exists>d. d \<le> 30 * second \<and> (av_retry a = Some d \<or> av_revalidate a = Some d))) \<and>
    (\<forall>e sub ev a' s'. named_interfaces e \<longrightarrow> Run_step e sub ev (a, s) = Some (a', s') \<longrightarrow> ev \<in> {RefreshSignal, RetryDue, RevalidateDue} \<longrightarrow>
      (\<forall>(i, p) \<in> set (av_running a'). authorized e p)) \<and>
    (\<forall>e sub a' s'. Run_step e sub Cancelled (a, s) = Some (a', s') \<longrightarrow>
      av_running a' = [] \<and> av_retry a' = None \<and> av_revalidate a' = None \<and> av_updates a \<notin> fst ` set (st_subs s'))"
proof -
  have inv: "service_inv a" using reach_inv [OF assms] by simp
  show ?thesis
    using service_inv_watched [OF inv] timer_fires_authorized [OF inv] cancelled_stops [OF inv] by (intro conjI allI impI) simp_all
qed

text \<open>An instance: a bridge that belongs to the LAN, and a dialled-up interface that does not although it was asked for.\<close>

definition demo_discovery :: discovery_env where
  "demo_discovery = \<lparr>de_Version = ''1'', de_Hostname = ''r'', de_Config = Some (defaultConfig\<lparr>c_https_enabled := False, c_device_mac := ''A'',
       c_mdns_enabled := True, c_mdns_interfaces := [''br-lan'', ''wan'']\<rparr>), de_TLSFingerprint = [], de_lan = Inr [''br-lan''],
     de_interfaces = Inr [\<lparr>in_Index = 1, in_Name = ''wan'', in_Flags = 17\<rparr>, \<lparr>in_Index = 2, in_Name = ''br-lan'', in_Flags = 17\<rparr>],
     de_addrs = (\<lambda>_. Inl ()), de_register = (\<lambda>_. Registered)\<rparr>"

lemma demo_trim: "TrimSpace ''A'' = ''A''" "TrimSpace ''r'' = ''r''" "TrimSpace ''br-lan'' = ''br-lan''" "TrimSpace ''wan'' = ''wan''"
  by (rule TrimSpace_graphic; code_simp)+

lemma demo_resolve:
  "ResolveInterfaces [''br-lan'', ''wan''] (de_interfaces demo_discovery) (de_addrs demo_discovery) (Inr [''br-lan'']) =
     Inr [\<lparr>in_Index = 2, in_Name = ''br-lan'', in_Flags = 17\<rparr>]"
proof -
  have "ParseAddr ''br-lan'' = None" "ParseAddr ''wan'' = None" by code_simp+
  then have "parseAddress ''br-lan'' = None" "parseAddress ''wan'' = None" by (simp_all add: parseAddress_def demo_trim)
  moreover have "multicastCapable \<lparr>in_Index = 2, in_Name = ''br-lan'', in_Flags = 17\<rparr>" by code_simp
  ultimately show ?thesis by (simp add: ResolveInterfaces_def demo_discovery_def interface_matches_def)
qed

definition demo_publication :: publication where
  "demo_publication = publication_of demo_discovery 8377 ''A'' (TXT \<lparr>md_Version = ''1'', md_ID = ''A'', md_Model = [], md_TLS = ''none'', md_CID = 0,
     md_Features = 0, md_API = 1\<rparr>) [\<lparr>in_Index = 2, in_Name = ''br-lan'', in_Flags = 17\<rparr>]"

lemma demo_desired: "desired demo_discovery None = Inr (Some demo_publication)" "desired (demo_discovery\<lparr>de_lan := Inl UbusFailed\<rparr>) None = Inl (LanError UbusFailed)"
proof -
  have c: "de_Config demo_discovery = Some (defaultConfig\<lparr>c_https_enabled := False, c_device_mac := ''A'', c_mdns_enabled := True,
      c_mdns_interfaces := [''br-lan'', ''wan'']\<rparr>)" "de_Version demo_discovery = ''1''" "de_lan demo_discovery = Inr [''br-lan'']"
    by (simp_all add: demo_discovery_def)
  have p: "c_http_enabled defaultConfig" "c_http_port defaultConfig = 8377" by (simp_all add: defaultConfig_def)
  show "desired demo_discovery None = Inr (Some demo_publication)"
    by (simp add: desired_def c p PreferredPort_def tls_value_def demo_trim demo_resolve demo_publication_def Let_def)
  show "desired (demo_discovery\<lparr>de_lan := Inl UbusFailed\<rparr>) None = Inl (LanError UbusFailed)"
    by (simp add: desired_def c p PreferredPort_def tls_value_def demo_trim ResolveInterfaces_def Let_def)
qed

theorem advertised_on_lan_only_witness:
  "case Run_start False demo_discovery 0 (NewService, NewStore) of (a, s) \<Rightarrow>
     map (map in_Name \<circ> pb_interfaces \<circ> snd) (av_running a) = [[''br-lan'']] \<and> (av_retry a \<noteq> None \<or> av_revalidate a \<noteq> None) \<and>
     (case Run_step (demo_discovery\<lparr>de_lan := Inl UbusFailed\<rparr>) 1 RevalidateDue (a, s) of None \<Rightarrow> False | Some (a', s') \<Rightarrow> av_running a' = [])"
proof -
  obtain a s where x: "Run_start False demo_discovery 0 (NewService, NewStore) = (a, s)" by force
  have n: "named_interfaces demo_discovery" by code_simp
  have "discovery_reach (a, s)" using discovery_reach.start [OF n, of NewService False 0 NewStore] by (simp add: x)
  note w = advertised_on_lan_only [OF this]
  have "proper_publication demo_publication" using desired_proper [OF demo_desired(1) n] by simp
  then have key: "pb_key demo_publication \<noteq> []" by (rule proper_key)
  have dev: "sn_device (st_snap NewStore) = None" by (simp add: NewStore_def zero_snapshot_def)
  have reg: "de_register demo_discovery demo_publication = Registered" by (simp add: demo_discovery_def)
  have a: "av_running a = [(0, demo_publication)]" "av_active a = Some 0" "av_revalidate a = Some RevalidateInterval" "\<not> av_returned a" "st_snap s = st_snap NewStore"
    using x key by (auto simp: Run_start_def SubscribeWithSnapshot_def reconcile_def dev demo_desired reg register_def Let_def service_defs NewService_def)
  have "map in_Name (pb_interfaces demo_publication) = [''br-lan'']" by (simp add: demo_publication_def publication_of_def Let_def)
  then show ?thesis using a w
    by (auto simp: x Run_step_def reconcile_def dev demo_desired revoke_def service_defs split: option.splits)
qed

end
