(* ===== verification/Spec2Isabelle.thy ===== *)
theory Spec2Isabelle
  imports Actions Client_Pairing Auth_Registry Control Config Device_Pairing Connector Certificates Live_Settings Api_Device Listeners Api_Clients Api_Rules Api_Pairing Api_Events Daemon Discovery
begin

text \<open>
  Wattline is a daemon for OpenWrt routers that controls a battery power station over Bluetooth LE and
  offers it on an HTTP API. This development models the program and proves what makes it correct. Each theory
  names the Go files it translates; the names of definitions are those of the source, with a prefix where
  two components use the same name and a suffix where HOL has the name already.

  \<^bold>\<open>The program.\<close> Frames and telemetry of the device are encoded and decoded by \<^verbatim>\<open>internal/proto\<close>. A
  \<^verbatim>\<open>ble.Session\<close> runs command transactions over a GATT transport and feeds telemetry into the
  \<^verbatim>\<open>state.Store\<close>, which keeps the current snapshot, a history of one point per minute and the list of
  commands, and publishes every change to subscribers and waiters. The \<^verbatim>\<open>control.Service\<close> gates every
  operation on capabilities and policy, issues it through the session and, for switches, waits until
  telemetry confirms it. The \<^verbatim>\<open>rules.Engine\<close> evaluates automation rules on every tick and hands firings to
  the \<^verbatim>\<open>actions.Executor\<close>. \<^verbatim>\<open>auth.Store\<close> keeps API tokens on disk and \<^verbatim>\<open>auth.Pairing\<close> hands out tokens to
  clients that know a PIN. \<^verbatim>\<open>config\<close> reads and rewrites the UCI file with settings and rules. A \<^verbatim>\<open>ble.Connector\<close> keeps
  one connection to the device, \<^verbatim>\<open>ble.Pairing\<close> bonds with it. \<^verbatim>\<open>internal/server\<close> keeps a TLS key pair and opens the
  listeners, \<^verbatim>\<open>internal/api\<close> answers the requests, \<^verbatim>\<open>internal/discovery\<close> advertises the service on the LAN, and
  \<^verbatim>\<open>cmd/wattlined\<close> starts all of it from one configuration and applies changes while it runs.

  \<^bold>\<open>The theories.\<close>
  \<^item> \<^verbatim>\<open>Prelude\<close>: Go's integer types as words, indexing and slicing as options (\<open>None\<close> is the panic), times and
    durations, association lists for Go maps, and the generic lemmas.
  \<^item> \<^verbatim>\<open>GoFloat\<close>, \<^verbatim>\<open>GoText\<close>, \<^verbatim>\<open>GoDecimal\<close>, \<^verbatim>\<open>NetAddr\<close>, \<^verbatim>\<open>GoJson\<close>, \<^verbatim>\<open>GoPath\<close>, \<^verbatim>\<open>GoOs\<close>: the parts of Go's standard library the program relies on:
    IEEE binary64 with exact rounding, \<^verbatim>\<open>strconv\<close> for integers and floats, \<^verbatim>\<open>time.ParseDuration\<close> and
    \<^verbatim>\<open>Duration.String\<close>, IP literals and path cleaning, each with the round trip the configuration needs;
    JSON with its decoding into structs and the round trip of encoding; and a file tree with system calls that may all fail.
    Formatting a float tries the decimal exponents of a double, 1383 of them, and the round-trip theorem
    shows that they are enough.
  \<^item> \<^verbatim>\<open>Proto_Frames\<close>, \<^verbatim>\<open>Proto_Telemetry\<close>, \<^verbatim>\<open>Proto_Schedule\<close> (\<^verbatim>\<open>internal/proto\<close>): frame builders, reply
    validation, SFLOAT, telemetry parsers, timers. Exactly the right replies are accepted, timers and the
    bypass threshold round-trip, and timer validation has the documented ranges.
  \<^item> \<^verbatim>\<open>State_Store\<close> (\<^verbatim>\<open>internal/state\<close>): every operation of the store as one atomic function, since they hold
    its mutex. Bounds, the life of a command, the stream of a subscriber, the history and the waiters.
  \<^item> \<^verbatim>\<open>Ble_Session\<close> (\<^verbatim>\<open>session.go\<close>, \<^verbatim>\<open>controls.go\<close>, \<^verbatim>\<open>lifecycle.go\<close>, \<^verbatim>\<open>advanced.go\<close> of \<^verbatim>\<open>internal/ble\<close>): all
    transactions and the handshake over an arbitrary transport that may reply anything and fail at any
    point; nothing panics, refused frames are never sent, settings are read back from the device. The
    locale \<open>read_back\<close> states the contract of operations that write and then read.
  \<^item> \<^verbatim>\<open>Control\<close> (\<^verbatim>\<open>internal/control\<close>): every operation of the service; other goroutines act between its steps
    through explicit interference arguments. With a resolver that gives no session or a live
    one every command is settled; confirmation means telemetry; capability and policy gates have no exception. The locale \<open>gated\<close> is interpreted for each operation.
  \<^item> \<^verbatim>\<open>Rules\<close>, \<^verbatim>\<open>Actions\<close> (\<^verbatim>\<open>internal/rules\<close>, \<^verbatim>\<open>internal/actions\<close>, \<^verbatim>\<open>Rule\<close> of \<^verbatim>\<open>internal/config\<close>): hold, re-arming,
    repetition, schedules, and the execution of actions.
  \<^item> \<^verbatim>\<open>Auth_Store\<close>, \<^verbatim>\<open>Auth_Registry\<close>, \<^verbatim>\<open>Client_Pairing\<close> (\<^verbatim>\<open>internal/auth\<close>): the token store with every
    file-system failure, its refinement of a plain map (locale \<open>simulation\<close>), and the PIN window with its
    rate limits.
  \<^item> \<^verbatim>\<open>Uci\<close>, \<^verbatim>\<open>Config\<close> (\<^verbatim>\<open>internal/config\<close>): tokenizer, parser and writer of the UCI text; settings, validation,
    loading and the atomic rewrites. What is saved is loaded again, for arbitrary values.
  \<^item> \<^verbatim>\<open>Connector\<close>, \<^verbatim>\<open>Passkey_Prompt\<close>, \<^verbatim>\<open>Device_Pairing\<close> (\<^verbatim>\<open>connector.go\<close>, \<^verbatim>\<open>passkey_prompt.go\<close>, \<^verbatim>\<open>pairing.go\<close> of
    \<^verbatim>\<open>internal/ble\<close>): the reconnect loop as a machine of program points with other goroutines in between; the prompt with its
    waiters and channel; the pairing operations as sequences of calls. One connection at a time, no dial
    once a disarming is seen, a clean stop; a prompt never blocks and delivers what was submitted; a pairing ends and gives the link back.
  \<^item> \<^verbatim>\<open>Cert_Paths\<close>, \<^verbatim>\<open>Cert_Transaction\<close>, \<^verbatim>\<open>Cert_Rules\<close>, \<^verbatim>\<open>Cert_Safety\<close>, \<^verbatim>\<open>Cert_Rotation\<close>, \<^verbatim>\<open>Certificates\<close> (\<^verbatim>\<open>cert.go\<close>,
    \<^verbatim>\<open>cert_transaction.go\<close>, \<^verbatim>\<open>secure_paths_unix.go\<close> of \<^verbatim>\<open>internal/server\<close>): creation, rotation and recovery of the TLS pair in the
    state monad over the file tree, with a Hoare-style calculus. Wherever a rotation and later recoveries are cut off, the next
    recovery ends with the old or the new pair, and no lock stays held.
  \<^item> \<^verbatim>\<open>Listeners\<close> (\<^verbatim>\<open>listeners.go\<close>): all listeners are opened or none, every error of a server is reported once, and a socket
    is open exactly while its server serves.
  \<^item> \<^verbatim>\<open>Api_Http\<close>, \<^verbatim>\<open>Api_Settings\<close>, \<^verbatim>\<open>Api_Device\<close>, \<^verbatim>\<open>Api_Clients\<close>, \<^verbatim>\<open>Api_Rules\<close>, \<^verbatim>\<open>Api_Pairing\<close>, \<^verbatim>\<open>Api_Events\<close> (\<^verbatim>\<open>internal/api\<close>): the route table,
    middleware, bodies and errors, and the handlers over the components they call. No handler runs without its authority,
    switches are answered truthfully, enrolment needs the current PIN, rules change as a whole when the configuration can be read, pairings exclude each other, the
    event stream of a revoked client ends.
  \<^item> \<^verbatim>\<open>Live_Settings\<close> (\<^verbatim>\<open>liveConfig\<close> of \<^verbatim>\<open>cmd/wattlined\<close>): the functions behind the settings handlers. The locale
    \<open>settings_runtime\<close> states what the handlers rely on, and its interpretation gives that a change of the settings is a transaction.
  \<^item> \<^verbatim>\<open>Daemon\<close> (\<^verbatim>\<open>main.go\<close>, \<^verbatim>\<open>pairing_agent.go\<close> of \<^verbatim>\<open>cmd/wattlined\<close>): initialization, start, main loop. After an
    initialization a start fails only at its files, its key pair or an address the system refuses, and a started daemon is in the states the theorems on its components begin with.
  \<^item> \<^verbatim>\<open>Discovery\<close> (\<^verbatim>\<open>internal/discovery\<close>): LAN status, selection of interfaces and the service with its timers. The daemon is
    advertised on interfaces of the LAN only, and this is checked again at least every thirty seconds.

  \<^bold>\<open>Modelling.\<close> Structs are records, errors are values of a datatype, a panic is \<open>None\<close> (or a constructor of the
  outcome), maps are association lists, and a method that holds a mutex is one function of the state. Code
  that is not part of the repository is an argument of the definitions that use it: the GATT transport, the
  cron parser, the hash function, the random source, the file system's failures, the HTTP client of
  webhooks, the public-key code, what OpenWrt, the kernel and zeroconf answer. Loops are structural recursions over the data
  they consume or have a measure. Where the source bounds a loop, so does the model: 40 symbolic links, 10000 names of
  temporary files, JSON nested 10000 deep. One bound is the model's own: a certificate's serial number is drawn until it is not zero, and the
  model gives up after 1000 zeros. The JSON parser has fuel, the length of its text
  plus one, and \<open>parse_value_fuel\<close> shows that more of it never changes the answer.

  \<^bold>\<open>Not modelled.\<close> Logging, the text of most error messages, the JSON of responses other than settings, and the drawing of
  the QR code. Of \<^verbatim>\<open>internal/api\<close> the headers and deadlines of the event stream; of \<^verbatim>\<open>cmd/wattlined\<close> flags, signals
  and the starting of goroutines; of \<^verbatim>\<open>internal/discovery\<close> the execution and killing of commands. Of the clock, its progress between a
  rotation of the certificate, a crash and the recoveries. Of the file system, power failures that lose unsynced data, waiting for the lock of another process, and changes by
  other programs in the middle of an operation. The D-Bus and TinyGo adapters and the vendored \<^verbatim>\<open>zeroconf\<close> library are
  glue and third-party code.
\<close>

end
